(* ===== verification/Prelude.thy ===== *)
theory Prelude
  imports Main "HOL-Library.Word" "HOL-Library.List_Lexorder"
begin

text \<open>
  Shared vocabulary of the development.

  Buffers are lists of 8-bit words, compared lexicographically (\<open>Buffer.compare\<close> is the
  order of \<open>HOL-Library.List_Lexorder\<close>). Code that mutates a context and may throw is a
  function from a state to an outcome and the state it leaves behind: a JavaScript
  \<open>throw\<close> does not undo the writes made before it, so the state is kept on the error
  path as well. \<open>wp\<close> is the weakest precondition of such a computation; its rules are
  collected in \<open>wp\<close> and carry the invariant proofs of the modules.

  A substore of the state is a list of key/value pairs in strictly increasing key order,
  the order in which the database iterates it (\<open>kvget\<close>, \<open>kvset\<close>, \<open>kvdel\<close>,
  \<open>kvrange\<close>).
\<close>

unbundle bit_operations_syntax

named_theorems wp
named_theorems kv

type_synonym byte = "8 word"
type_synonym bytes = "byte list"

section \<open>Errors and stateful computations\<close>

datatype err =
    NotFoundError
  | InsufficientBalanceError
  | Error string
  | ApplyPenaltyError err
  | ApplyPenaltyAndRestartError string string
  | RestartError string
  | AbortError string

type_synonym ('s, 'a) m = "'s \<Rightarrow> (err + 'a) \<times> 's"

definition ret :: "'a \<Rightarrow> ('s, 'a) m" where
  "ret a s = (Inr a, s)"

definition throw :: "err \<Rightarrow> ('s, 'a) m" where
  "throw e s = (Inl e, s)"

definition bind :: "('s, 'a) m \<Rightarrow> ('a \<Rightarrow> ('s, 'b) m) \<Rightarrow> ('s, 'b) m" where
  "bind c f s = (case c s of (Inl e, s') \<Rightarrow> (Inl e, s') | (Inr a, s') \<Rightarrow> f a s')"

definition andThen :: "('s, 'a) m \<Rightarrow> ('s, 'b) m \<Rightarrow> ('s, 'b) m" where
  "andThen c d = bind c (\<lambda>_. d)"

definition tryCatch :: "('s, 'a) m \<Rightarrow> (err \<Rightarrow> ('s, 'a) m) \<Rightarrow> ('s, 'a) m" where
  "tryCatch c h s = (case c s of (Inl e, s') \<Rightarrow> h e s' | (Inr a, s') \<Rightarrow> (Inr a, s'))"

definition gets :: "('s \<Rightarrow> 'a) \<Rightarrow> ('s, 'a) m" where
  "gets f s = (Inr (f s), s)"

definition modify :: "('s \<Rightarrow> 's) \<Rightarrow> ('s, unit) m" where
  "modify f s = (Inr (), f s)"

definition whenM :: "bool \<Rightarrow> ('s, unit) m \<Rightarrow> ('s, unit) m" where
  "whenM b c = (if b then c else ret ())"

definition liftE :: "err + 'a \<Rightarrow> ('s, 'a) m" where
  "liftE r s = (r, s)"

primrec forEach :: "'a list \<Rightarrow> ('a \<Rightarrow> ('s, unit) m) \<Rightarrow> ('s, unit) m" where
  "forEach [] f = ret ()"
| "forEach (x # xs) f = andThen (f x) (forEach xs f)"

definition wp :: "('s, 'a) m \<Rightarrow> ('a \<Rightarrow> 's \<Rightarrow> bool) \<Rightarrow> (err \<Rightarrow> 's \<Rightarrow> bool) \<Rightarrow> 's \<Rightarrow> bool" where
  "wp c Q E s = (case c s of (Inl e, s') \<Rightarrow> E e s' | (Inr a, s') \<Rightarrow> Q a s')"

lemma wp_ret [wp]: "wp (ret a) Q E s = Q a s"
  by (simp add: wp_def ret_def)

lemma wp_throw [wp]: "wp (throw e) Q E s = E e s"
  by (simp add: wp_def throw_def)

lemma wp_bind [wp]: "wp (bind c f) Q E s = wp c (\<lambda>a. wp (f a) Q E) E s"
  by (simp add: wp_def bind_def split: prod.splits sum.splits)

lemma wp_andThen [wp]: "wp (andThen c d) Q E s = wp c (\<lambda>_. wp d Q E) E s"
  by (simp add: andThen_def wp_bind)

lemma wp_tryCatch [wp]: "wp (tryCatch c h) Q E s = wp c Q (\<lambda>e. wp (h e) Q E) s"
  by (simp add: wp_def tryCatch_def split: prod.splits sum.splits)

lemma wp_gets [wp]: "wp (gets f) Q E s = Q (f s) s"
  by (simp add: wp_def gets_def)

lemma wp_modify [wp]: "wp (modify f) Q E s = Q () (f s)"
  by (simp add: wp_def modify_def)

lemma wp_whenM [wp]: "wp (whenM b c) Q E s = (if b then wp c Q E s else Q () s)"
  by (simp add: whenM_def wp_ret)

lemma wp_if [wp]: "wp (if b then c else d) Q E s = (if b then wp c Q E s else wp d Q E s)"
  by simp

lemma wp_liftE [wp]: "wp (liftE r) Q E s = (case r of Inl e \<Rightarrow> E e s | Inr a \<Rightarrow> Q a s)"
  by (simp add: wp_def liftE_def)

lemma wp_case_option [wp]:
  "wp (case x of None \<Rightarrow> c | Some a \<Rightarrow> d a) Q E s =
     (case x of None \<Rightarrow> wp c Q E s | Some a \<Rightarrow> wp (d a) Q E s)"
  by (simp split: option.split)

lemma wp_case_prod [wp]:
  "wp (case x of (a, b) \<Rightarrow> c a b) Q E s = (case x of (a, b) \<Rightarrow> wp (c a b) Q E s)"
  by (simp split: prod.split)

text \<open>The same rules as equations between predicates on states, for use below a binder.\<close>

lemmas wp_fun [wp] = wp_ret[THEN ext] wp_throw[THEN ext] wp_bind[THEN ext] wp_andThen[THEN ext] wp_tryCatch[THEN ext]
  wp_gets[THEN ext] wp_modify[THEN ext] wp_whenM[THEN ext] wp_if[THEN ext] wp_liftE[THEN ext]
  wp_case_option[THEN ext] wp_case_prod[THEN ext]

lemma wp_mono:
  assumes "wp c Q E s" "\<And>a t. Q a t \<Longrightarrow> Q' a t" "\<And>e t. E e t \<Longrightarrow> E' e t"
  shows "wp c Q' E' s"
  using assms by (auto simp: wp_def split: prod.splits sum.splits)

lemma wp_success:
  assumes "wp c Q E s" "c s = (Inr a, t)"
  shows "Q a t"
  using assms by (simp add: wp_def)

lemma wp_failure:
  assumes "wp c Q E s" "c s = (Inl e, t)"
  shows "E e t"
  using assms by (simp add: wp_def)

lemma wp_forEach:
  assumes "\<And>x s. x \<in> set xs \<Longrightarrow> P s \<Longrightarrow> wp (f x) (\<lambda>_. P) E s"
    and "P s"
  shows "wp (forEach xs f) (\<lambda>_. P) E s"
  using assms
proof (induction xs arbitrary: s)
  case Nil
  then show ?case by (simp add: wp_ret)
next
  case (Cons x xs)
  have "wp (f x) (\<lambda>_. P) E s" using Cons.prems by simp
  then have "wp (f x) (\<lambda>_. wp (forEach xs f) (\<lambda>_. P) E) E s"
    by (rule wp_mono) (use Cons in auto)
  then show ?case by (simp add: wp_andThen)
qed

text \<open>
  Strings are their UTF-8 byte sequences (a HOL \<open>string\<close> is a list of 8-bit characters).
  The Unicode services of the JavaScript runtime are parameters: normalisation to NFC,
  validity of a UTF-8 sequence, and the collation order of \<open>localeCompare\<close>.
\<close>

record jsLib =
  nfc :: "string \<Rightarrow> string"
  utf8Valid :: "string \<Rightarrow> bool"
  localeCompare :: "string \<Rightarrow> string \<Rightarrow> int"

definition stringToBytes :: "string \<Rightarrow> bytes" where
  "stringToBytes s = map (\<lambda>c. word_of_nat (of_char c)) s"

definition bytesToString :: "bytes \<Rightarrow> string" where
  "bytesToString bs = map (\<lambda>b. char_of (unat b)) bs"

lemma bytesToString_inverse [simp]: "bytesToString (stringToBytes s) = s"
proof -
  have "unat (word_of_nat (of_char c) :: byte) = of_char c" for c
    by (simp add: unat_of_nat of_char_mod_256)
  then show ?thesis by (induction s) (simp_all add: bytesToString_def stringToBytes_def)
qed

section \<open>Lists: first index, stable sort by a comparator\<close>

text \<open>\<open>Array.prototype.findIndex\<close>, with \<open>None\<close> for \<open>-1\<close>.\<close>

primrec findIndex :: "('a \<Rightarrow> bool) \<Rightarrow> 'a list \<Rightarrow> nat option" where
  "findIndex p [] = None"
| "findIndex p (x # xs) = (if p x then Some 0 else map_option Suc (findIndex p xs))"

lemma findIndex_Some:
  "findIndex p xs = Some i \<Longrightarrow> i < length xs \<and> p (xs ! i) \<and> (\<forall>j < i. \<not> p (xs ! j))"
proof (induction xs arbitrary: i)
  case Nil
  then show ?case by simp
next
  case (Cons x xs)
  show ?case
  proof (cases "p x")
    case True
    with Cons.prems show ?thesis by auto
  next
    case False
    with Cons.prems obtain j where "findIndex p xs = Some j" "i = Suc j" by auto
    with Cons.IH[of j] False show ?thesis by (auto simp: less_Suc_eq_0_disj)
  qed
qed

lemma findIndex_None: "findIndex p xs = None \<longleftrightarrow> (\<forall>x \<in> set xs. \<not> p x)"
  by (induction xs) auto

text \<open>
  \<open>Array.prototype.sort\<close> is stable; for a comparator \<open>cmp\<close> that is a total preorder the
  result is the one of insertion from the right.
\<close>

primrec insertBy :: "('a \<Rightarrow> 'a \<Rightarrow> int) \<Rightarrow> 'a \<Rightarrow> 'a list \<Rightarrow> 'a list" where
  "insertBy cmp x [] = [x]"
| "insertBy cmp x (y # ys) = (if cmp x y \<le> 0 then x # y # ys else y # insertBy cmp x ys)"

primrec sortBy :: "('a \<Rightarrow> 'a \<Rightarrow> int) \<Rightarrow> 'a list \<Rightarrow> 'a list" where
  "sortBy cmp [] = []"
| "sortBy cmp (x # xs) = insertBy cmp x (sortBy cmp xs)"

lemma set_insertBy [simp]: "set (insertBy cmp x xs) = insert x (set xs)"
  by (induction xs) auto

lemma set_sortBy [simp]: "set (sortBy cmp xs) = set xs"
  by (induction xs) auto

lemma length_insertBy [simp]: "length (insertBy cmp x xs) = Suc (length xs)"
  by (induction xs) auto

lemma length_sortBy [simp]: "length (sortBy cmp xs) = length xs"
  by (induction xs) auto

lemma sum_list_insertBy:
  fixes f :: "'a \<Rightarrow> int"
  shows "sum_list (map f (insertBy cmp x xs)) = f x + sum_list (map f xs)"
  by (induction xs) auto

lemma sum_list_sortBy [simp]:
  fixes f :: "'a \<Rightarrow> int"
  shows "sum_list (map f (sortBy cmp xs)) = sum_list (map f xs)"
  by (induction xs) (auto simp: sum_list_insertBy)

lemma sorted_insertBy:
  assumes "\<And>a b. cmp a b > 0 \<Longrightarrow> cmp b a \<le> 0" "\<And>a b c. cmp a b \<le> 0 \<Longrightarrow> cmp b c \<le> 0 \<Longrightarrow> cmp a c \<le> 0"
    and "sorted_wrt (\<lambda>a b. cmp a b \<le> 0) xs"
  shows "sorted_wrt (\<lambda>a b. cmp a b \<le> (0::int)) (insertBy cmp x xs)"
  using assms(3)
proof (induction xs)
  case (Cons y ys)
  show ?case
  proof (cases "cmp x y \<le> 0")
    case True
    with Cons.prems show ?thesis by (auto intro: assms(2))
  next
    case False
    with Cons assms(1)[of x y] show ?thesis by auto
  qed
qed simp

lemma sorted_sortBy:
  assumes "\<And>a b. cmp a b > 0 \<Longrightarrow> cmp b a \<le> 0" "\<And>a b c. cmp a b \<le> 0 \<Longrightarrow> cmp b c \<le> 0 \<Longrightarrow> cmp a c \<le> 0"
  shows "sorted_wrt (\<lambda>a b. cmp a b \<le> (0::int)) (sortBy cmp xs)"
  by (induction xs) (auto intro: sorted_insertBy assms)

lemma distinct_map_insertBy:
  "distinct (map f (insertBy cmp x xs)) \<longleftrightarrow> f x \<notin> f ` set xs \<and> distinct (map f xs)"
  by (induction xs) auto

lemma distinct_map_sortBy [simp]: "distinct (map f (sortBy cmp xs)) = distinct (map f xs)"
  by (induction xs) (auto simp: distinct_map_insertBy)

text \<open>\<open>Buffer.compare\<close>: negative, zero or positive.\<close>

definition bufferCompare :: "bytes \<Rightarrow> bytes \<Rightarrow> int" where
  "bufferCompare a b = (if a < b then -1 else if a = b then 0 else 1)"

lemma bufferCompare_le [simp]: "bufferCompare a b \<le> 0 \<longleftrightarrow> a \<le> b"
  by (auto simp: bufferCompare_def)

lemma bufferCompare_ge [simp]: "bufferCompare a b \<ge> 0 \<longleftrightarrow> b \<le> a"
  by (auto simp: bufferCompare_def)

lemma bufferCompare_less [simp]: "bufferCompare a b < 0 \<longleftrightarrow> a < b"
  by (auto simp: bufferCompare_def)

lemma bufferCompare_greater [simp]: "bufferCompare a b > 0 \<longleftrightarrow> b < a"
  by (auto simp: bufferCompare_def)

lemma prefix_le_iff [simp]: "(p @ a :: bytes) \<le> p @ b \<longleftrightarrow> a \<le> b"
  by (induction p) auto

lemma prefix_convex:
  fixes k :: bytes
  assumes "p @ a \<le> k" "k \<le> p @ b"
  shows "\<exists>k'. k = p @ k'"
  using assms
proof (induction p arbitrary: k)
  case (Cons x p)
  then obtain y ys where k: "k = y # ys" by (cases k) auto
  with Cons.prems have "x = y" "p @ a \<le> ys" "ys \<le> p @ b" by auto
  with Cons.IH[of ys] k show ?case by auto
qed simp

section \<open>Ordered key/value stores\<close>

type_synonym 'v kv = "(bytes \<times> 'v) list"

abbreviation kvget :: "('k \<times> 'v) list \<Rightarrow> 'k \<Rightarrow> 'v option" where
  "kvget \<equiv> map_of"

fun kvset :: "('k::linorder) \<Rightarrow> 'v \<Rightarrow> ('k \<times> 'v) list \<Rightarrow> ('k \<times> 'v) list" where
  "kvset k v [] = [(k, v)]"
| "kvset k v ((k', v') # r) =
     (if k < k' then (k, v) # (k', v') # r
      else if k = k' then (k, v) # r
      else (k', v') # kvset k v r)"

definition kvdel :: "'k \<Rightarrow> ('k \<times> 'v) list \<Rightarrow> ('k \<times> 'v) list" where
  "kvdel k r = filter (\<lambda>e. fst e \<noteq> k) r"

definition kvhas :: "('k \<times> 'v) list \<Rightarrow> 'k \<Rightarrow> bool" where
  "kvhas r k = (map_of r k \<noteq> None)"

definition kvrange :: "('k::linorder) \<Rightarrow> 'k \<Rightarrow> ('k \<times> 'v) list \<Rightarrow> ('k \<times> 'v) list" where
  "kvrange lo hi r = filter (\<lambda>e. lo \<le> fst e \<and> fst e \<le> hi) r"

definition kvok :: "(('k::linorder) \<times> 'v) list \<Rightarrow> bool" where
  "kvok r = sorted_wrt (<) (map fst r)"

lemma kvok_Nil [kv, simp]: "kvok []"
  by (simp add: kvok_def)

lemma kvok_Cons: "kvok (e # r) \<longleftrightarrow> (\<forall>k \<in> fst ` set r. fst e < k) \<and> kvok r"
  by (auto simp: kvok_def)

lemma kvok_distinct: "kvok r \<Longrightarrow> distinct (map fst r)"
  by (induction r) (auto simp: kvok_Cons)

lemma fst_set_kvset [simp]: "fst ` set (kvset k v r) = insert k (fst ` set r)"
  by (induction k v r rule: kvset.induct) auto

lemma kvok_kvset [kv, intro]: "kvok r \<Longrightarrow> kvok (kvset k v r)"
  by (induction k v r rule: kvset.induct) (auto simp: kvok_Cons)

lemma kvok_kvdel [kv, intro]: "kvok r \<Longrightarrow> kvok (kvdel k r)"
  by (induction r) (auto simp: kvdel_def kvok_Cons)

lemma map_of_less_None: "kvok ((k', v') # r) \<Longrightarrow> k < k' \<Longrightarrow> map_of r k = None"
  by (fastforce simp: kvok_Cons map_of_eq_None_iff)

lemma kvget_kvset [kv, simp]: "map_of (kvset k v r) k' = (if k' = k then Some v else map_of r k')"
  by (induction k v r rule: kvset.induct) auto

lemma kvget_kvdel [kv, simp]: "map_of (kvdel k r) k' = (if k' = k then None else map_of r k')"
  by (induction r) (auto simp: kvdel_def)

lemma kvhas_kvset [kv, simp]: "kvhas (kvset k v r) k' = (k' = k \<or> kvhas r k')"
  by (simp add: kvhas_def)

lemma kvget_member: "kvok r \<Longrightarrow> (k, v) \<in> set r \<longleftrightarrow> map_of r k = Some v"
  using map_of_eq_Some_iff[of r k v] kvok_distinct[of r] by auto

text \<open>The weight of a store: one more write changes it by the difference at that key.\<close>

definition kvsum :: "('k \<Rightarrow> 'v \<Rightarrow> int) \<Rightarrow> ('k \<times> 'v) list \<Rightarrow> int" where
  "kvsum f r = sum_list (map (\<lambda>e. f (fst e) (snd e)) r)"

lemma kvsum_Nil [simp]: "kvsum f [] = 0"
  by (simp add: kvsum_def)

lemma kvsum_Cons [simp]: "kvsum f ((k, v) # r) = f k v + kvsum f r"
  by (simp add: kvsum_def)

lemma kvsum_kvset_new:
  "kvok r \<Longrightarrow> map_of r k = None \<Longrightarrow> kvsum f (kvset k v r) = kvsum f r + f k v"
  by (induction k v r rule: kvset.induct) (auto simp: kvok_Cons split: if_splits)

lemma kvsum_kvset_old:
  "kvok r \<Longrightarrow> map_of r k = Some w \<Longrightarrow> kvsum f (kvset k v r) = kvsum f r - f k w + f k v"
proof (induction k v r rule: kvset.induct)
  case (2 k v k' v' r)
  show ?case
  proof (cases "k < k'")
    case True
    with 2(2,3) have "map_of r k = None" by (auto intro: map_of_less_None)
    with True 2(3) show ?thesis by (auto split: if_splits)
  next
    case False
    with 2 show ?thesis by (auto simp: kvok_Cons split: if_splits)
  qed
qed simp

lemma kvsum_kvset:
  "kvok r \<Longrightarrow> kvsum f (kvset k v r) =
     kvsum f r - (case map_of r k of None \<Rightarrow> 0 | Some w \<Rightarrow> f k w) + f k v"
  by (simp add: kvsum_kvset_new kvsum_kvset_old split: option.split)

lemma kvsum_nonneg: "(\<And>k v. (k, v) \<in> set r \<Longrightarrow> 0 \<le> f k v) \<Longrightarrow> 0 \<le> kvsum f r"
  by (auto simp: kvsum_def intro!: sum_list_nonneg)

lemma kvsum_member_le:
  assumes "map_of r k = Some v" "\<And>k v. (k, v) \<in> set r \<Longrightarrow> 0 \<le> f k v"
  shows "f k v \<le> kvsum f r"
  using assms
proof (induction r)
  case (Cons e r)
  obtain k' v' where e: "e = (k', v')" by (cases e)
  have "0 \<le> kvsum f r" using Cons.prems(2) by (intro kvsum_nonneg) auto
  moreover have "0 \<le> f k' v'" using Cons.prems(2) e by auto
  moreover have "k \<noteq> k' \<Longrightarrow> f k v \<le> kvsum f r" using Cons e by auto
  ultimately show ?case using Cons.prems(1) e by (cases "k = k'") auto
qed simp

section \<open>Bits and machine integers\<close>

lemma unat_of_nat_id: "n < 2 ^ LENGTH('a::len) \<Longrightarrow> unat (word_of_nat n :: 'a word) = n"
  by (simp add: unat_of_nat)

lemma and_mask_7: "(v::int) AND 127 = v mod 128"
proof -
  have "v AND 127 = take_bit 7 v" by (simp add: take_bit_eq_mask mask_eq_exp_minus_1)
  then show ?thesis by (simp add: take_bit_eq_mod)
qed

lemma or_push_bit_add:
  fixes a b :: int
  assumes "0 \<le> a" "a < 2 ^ n"
  shows "a OR push_bit n b = a + b * 2 ^ n"
proof -
  have "concat_bit n a b = take_bit n a + push_bit n b"
    by (simp add: concat_bit_eq)
  moreover have "concat_bit n a b = take_bit n a OR push_bit n b"
    by (simp add: concat_bit_def)
  moreover have "take_bit n a = a"
    using assms by (simp add: take_bit_int_eq_self)
  ultimately show ?thesis by (simp add: push_bit_eq_mult)
qed

end
