(* ===== verification/Varint.thy ===== *)
theory Varint
  imports Prelude
begin

text \<open>
  The variable-length integers of the codec (\<open>elements/codec/src/varint.ts\<close>), the length
  prefixed byte strings (\<open>bytes.ts\<close>), booleans (\<open>boolean.ts\<close>) and field keys
  (\<open>keys.ts\<close>, \<open>utils/key.ts\<close>).

  \<open>number\<close> and \<open>bigint\<close> arguments of the writers are integers. \<open>Buffer.from\<close> of an
  array stores each number modulo 256, which is \<open>word_of_int\<close>. \<open>readUInt32\<close> works on
  JavaScript's 32-bit integers and is modelled on \<open>32 word\<close>; \<open>readUInt64\<close> works on
  bigints and is modelled on \<open>int\<close>. Both readers and writers are instances of one
  generic base-128 reader and writer, over which the round trips are proved once.
\<close>

section \<open>The code\<close>

abbreviation MAX_UINT32 :: int where "MAX_UINT32 \<equiv> 4294967295"
abbreviation MAX_SINT32 :: int where "MAX_SINT32 \<equiv> 2147483647"
abbreviation MAX_UINT64 :: int where "MAX_UINT64 \<equiv> 18446744073709551615"
abbreviation MAX_SINT64 :: int where "MAX_SINT64 \<equiv> 9223372036854775807"

abbreviation msg :: int where "msg \<equiv> 128"
abbreviation rest :: int where "rest \<equiv> 127"

text \<open>The loop shared, line by line, by \<open>writeUInt32\<close> and \<open>writeUInt64\<close>.\<close>

function writeLoop :: "int \<Rightarrow> bytes" where
  "writeLoop value =
     (if value > rest
      then word_of_int (msg OR (value AND rest)) # writeLoop (drop_bit 7 value)
      else [word_of_int value])"
  by pat_completeness auto
termination
  by (relation "measure nat") (auto simp: drop_bit_eq_div)

declare writeLoop.simps [simp del]

definition writeUInt32 :: "int \<Rightarrow> err + bytes" where
  "writeUInt32 value =
     (if value > MAX_UINT32 then Inl (Error ''Value out of range of uint32'')
      else Inr (writeLoop value))"

definition writeSInt32 :: "int \<Rightarrow> err + bytes" where
  "writeSInt32 value =
     (if value > MAX_SINT32 then Inl (Error ''Value out of range of sint32'')
      else if value \<ge> 0 then writeUInt32 (2 * value)
      else writeUInt32 (- 2 * value - 1))"

definition writeUInt64 :: "int \<Rightarrow> err + bytes" where
  "writeUInt64 value =
     (if value > MAX_UINT64 then Inl (Error ''Value out of range of uint64'')
      else Inr (writeLoop value))"

definition writeSInt64 :: "int \<Rightarrow> err + bytes" where
  "writeSInt64 value =
     (if value > MAX_SINT64 then Inl (Error ''Value out of range of sint64'')
      else if value \<ge> 0 then writeUInt64 (2 * value)
      else writeUInt64 (- 2 * value - 1))"

definition validateVarintSize :: "int \<Rightarrow> nat \<Rightarrow> err + unit" where
  "validateVarintSize result sz =
     (if result = 0 \<and> sz = 1 then Inr ()
      else if result < push_bit (7 * (sz - 1)) 1
      then Inl (Error ''invalid varint bytes. vartint must be in shortest form.'')
      else Inr ())"

function readLoop32 :: "bytes \<Rightarrow> nat \<Rightarrow> nat \<Rightarrow> 32 word \<Rightarrow> nat \<Rightarrow> err + (32 word \<times> nat)" where
  "readLoop32 buffer offset shift result index =
     (if shift < 32 then
        if index \<ge> length buffer then Inl (Error ''Invalid buffer length'')
        else let b = buffer ! index; index = index + 1 in
          if index = offset + 5 \<and> b > 15 then Inl (Error ''Value out of range of uint32'')
          else let result = result OR push_bit shift (ucast (b AND 127)) in
            if b AND 128 = 0 then
              case validateVarintSize (uint result) (index - offset) of
                Inl e \<Rightarrow> Inl e
              | Inr _ \<Rightarrow> Inr (result, index - offset)
            else readLoop32 buffer offset (shift + 7) result index
      else Inl (Error ''Terminating bit not found''))"
  by pat_completeness auto
termination
  by (relation "measure (\<lambda>(buf, off, sh, r, i). 32 - sh)") auto

declare readLoop32.simps [simp del]

definition readUInt32 :: "bytes \<Rightarrow> nat \<Rightarrow> err + (32 word \<times> nat)" where
  "readUInt32 buffer offset = readLoop32 buffer offset 0 0 offset"

function readLoop64 :: "bytes \<Rightarrow> nat \<Rightarrow> nat \<Rightarrow> int \<Rightarrow> nat \<Rightarrow> err + (int \<times> nat)" where
  "readLoop64 buffer offset shift result index =
     (if shift < 64 then
        if index \<ge> length buffer then Inl (Error ''Invalid buffer length'')
        else let b = uint (buffer ! index); index = index + 1 in
          if index = 10 + offset \<and> b > 1 then Inl (Error ''Value out of range of uint64'')
          else let result = result OR push_bit shift (b AND rest) in
            if b AND msg = 0 then
              case validateVarintSize result (index - offset) of
                Inl e \<Rightarrow> Inl e
              | Inr _ \<Rightarrow> Inr (result, index - offset)
            else readLoop64 buffer offset (shift + 7) result index
      else Inl (Error ''Terminating bit not found''))"
  by pat_completeness auto
termination
  by (relation "measure (\<lambda>(buf, off, sh, r, i). 64 - sh)") auto

declare readLoop64.simps [simp del]

definition readUInt64 :: "bytes \<Rightarrow> nat \<Rightarrow> err + (int \<times> nat)" where
  "readUInt64 buffer offset = readLoop64 buffer offset 0 0 offset"

text \<open>
  \<open>readSInt32\<close> computes on plain numbers after the unsigned read; the quotient of an even
  number is exact, so \<open>div\<close> is the code's division.
\<close>

definition readSInt32 :: "bytes \<Rightarrow> nat \<Rightarrow> err + (int \<times> nat)" where
  "readSInt32 buffer offset =
     (case readUInt32 buffer offset of
        Inl e \<Rightarrow> Inl e
      | Inr (w, sz) \<Rightarrow>
          (let varInt = uint w in
           if varInt mod 2 = 0 then Inr (varInt div 2, sz)
           else Inr (- (varInt + 1) div 2, sz)))"

definition readSInt64 :: "bytes \<Rightarrow> nat \<Rightarrow> err + (int \<times> nat)" where
  "readSInt64 buffer offset =
     (case readUInt64 buffer offset of
        Inl e \<Rightarrow> Inl e
      | Inr (varInt, sz) \<Rightarrow>
          (if varInt mod 2 = 0 then Inr (varInt div 2, sz)
           else Inr (- (varInt + 1) div 2, sz)))"

text \<open>\<open>subarray\<close> clamps its bounds to the buffer, as \<open>take\<close> and \<open>drop\<close> do.\<close>

definition writeBytes :: "bytes \<Rightarrow> err + bytes" where
  "writeBytes bs =
     (case writeUInt32 (int (length bs)) of Inl e \<Rightarrow> Inl e | Inr l \<Rightarrow> Inr (l @ bs))"

definition readBytes :: "bytes \<Rightarrow> nat \<Rightarrow> err + (bytes \<times> nat)" where
  "readBytes buffer offset =
     (case readUInt32 buffer offset of
        Inl e \<Rightarrow> Inl e
      | Inr (byteLength, keySize) \<Rightarrow>
          Inr (take (unat byteLength) (drop (offset + keySize) buffer),
               unat byteLength + keySize))"

definition writeBoolean :: "bool \<Rightarrow> bytes" where
  "writeBoolean value = (if value then [1] else [0])"

definition readBoolean :: "bytes \<Rightarrow> nat \<Rightarrow> err + (bool \<times> nat)" where
  "readBoolean buffer offset =
     (if offset < length buffer \<and> (buffer ! offset = 0 \<or> buffer ! offset = 1)
      then Inr (buffer ! offset \<noteq> 0, 1)
      else Inl (Error ''Invalid boolean bytes.''))"

definition readKey :: "32 word \<Rightarrow> err + (32 word \<times> 32 word)" where
  "readKey value =
     (let wireType = value AND 7 in
      if wireType = 2 \<or> wireType = 0 then Inr (drop_bit 3 value, wireType)
      else Inl (Error ''Value yields unsupported wireType''))"

datatype wireKind = BytesT | StringT | ObjectT | ArrayT | UInt32T | SInt32T | UInt64T | SInt64T | BooleanT

fun getWireType :: "wireKind \<Rightarrow> 32 word" where
  "getWireType BytesT = 2"
| "getWireType StringT = 2"
| "getWireType ObjectT = 2"
| "getWireType ArrayT = 2"
| "getWireType _ = 0"

text \<open>
  \<open>(fieldNumber << 3) | wireType\<close> is a signed 32-bit integer in JavaScript.
\<close>

definition generateKey :: "32 word \<Rightarrow> wireKind \<Rightarrow> err + bytes" where
  "generateKey fieldNumber k = writeUInt32 (sint (push_bit 3 fieldNumber OR getWireType k))"

section \<open>A generic base-128 reader\<close>

text \<open>
  \<open>gread n l buffer offset i acc\<close>: read at most \<open>n\<close> bytes, of which the last may be at
  most \<open>l\<close>; \<open>i\<close> bytes are already read and make up \<open>acc\<close>. The 32-bit reader is
  \<open>n = 5\<close>, \<open>l = 15\<close>; the 64-bit reader is \<open>n = 10\<close>, \<open>l = 1\<close>.
\<close>

function gread :: "nat \<Rightarrow> int \<Rightarrow> bytes \<Rightarrow> nat \<Rightarrow> nat \<Rightarrow> int \<Rightarrow> (int \<times> nat) option" where
  "gread n l buffer offset i acc =
     (if i < n \<and> offset + i < length buffer then
        let b = uint (buffer ! (offset + i)); acc' = acc + (b mod 128) * 128 ^ i in
        if i + 1 = n \<and> b > l then None
        else if b < 128 then
          if (acc' = 0 \<and> i = 0) \<or> acc' \<ge> 128 ^ i then Some (acc', i + 1) else None
        else gread n l buffer offset (i + 1) acc'
      else None)"
  by pat_completeness auto
termination
  by (relation "measure (\<lambda>(n, l, buf, off, i, acc). n - i)") auto

declare gread.simps [simp del]

lemma pow128: "(128::int) ^ i = 2 ^ (7 * i)"
  by (simp add: power_mult)

lemma uint_byte: "0 \<le> uint (b::byte)" "uint (b::byte) < 256"
  using uint_lt2p[of b] by auto

lemma byte_and_127: "uint ((b::byte) AND 127) = uint b mod 128"
  by (simp add: uint_and and_mask_7)

lemma int_and_128:
  fixes x :: int
  assumes "0 \<le> x" "x < 256"
  shows "(x AND 128 = 0) = (x < 128)"
proof -
  have "(x AND 2 ^ 7 = 0) = even (x div 2 ^ 7)"
    by (simp only: and_exp_eq_0_iff_not_bit bit_iff_odd not_not)
  moreover have "x div 128 = (if x < 128 then 0 else 1)"
    using assms by auto
  ultimately show ?thesis by simp
qed

lemma byte_and_128: "((b::byte) AND 128 = 0) = (uint b < 128)"
proof -
  have "(b AND 128 = 0) = (uint (b AND 128) = 0)"
    by (simp add: unsigned_eq_0_iff)
  also have "\<dots> = (uint b AND 128 = 0)" by (simp add: uint_and)
  finally show ?thesis using int_and_128[OF uint_byte] by simp
qed

lemma writeLoop_small [simp]: "v \<le> 127 \<Longrightarrow> writeLoop v = [word_of_int v]"
  by (simp add: writeLoop.simps)

lemma writeLoop_big:
  assumes "127 < v"
  shows "writeLoop v = word_of_int (128 + v mod 128) # writeLoop (v div 128)"
proof -
  have "(v mod 128) OR push_bit 7 1 = v mod 128 + 1 * 2 ^ 7"
    by (rule or_push_bit_add) auto
  then have "msg OR (v AND rest) = 128 + v mod 128"
    by (simp add: and_mask_7 or.commute)
  then show ?thesis using assms by (simp add: writeLoop.simps[of v] drop_bit_eq_div)
qed

lemma writeLoop_nonempty [simp]: "writeLoop v \<noteq> []"
  by (cases "v \<le> 127") (simp_all add: writeLoop_big)

lemma digit_bound:
  fixes acc d p :: int
  assumes "0 \<le> acc" "acc < p" "d \<le> 127"
  shows "acc + d * p < 128 * p"
proof -
  have "d * p \<le> 127 * p" using assms by (intro mult_right_mono) auto
  with assms show ?thesis by linarith
qed

lemma validateVarintSize_iff:
  "validateVarintSize acc (i + 1) = Inr () \<longleftrightarrow> (acc = 0 \<and> i = 0) \<or> 128 ^ i \<le> acc"
  by (auto simp: validateVarintSize_def push_bit_eq_mult pow128)

lemma readLoop64_gread:
  assumes "0 \<le> acc" "acc < 128 ^ i"
  shows "(readLoop64 buffer offset (7 * i) acc (offset + i) = Inr x) =
         (gread 10 1 buffer offset i acc = Some x)"
  using assms
proof (induction "10 - i" arbitrary: i acc rule: less_induct)
  case less
  define b where "b = uint (buffer ! (offset + i))"
  define acc' where "acc' = acc + (b mod 128) * 128 ^ i"
  have b: "0 \<le> b" "b < 256" by (simp_all add: b_def uint_byte)
  have or: "acc OR push_bit (7 * i) (b AND rest) = acc'"
    using or_push_bit_add[of acc "7 * i"] less.prems
    by (simp add: acc'_def and_mask_7 pow128)
  have acc': "0 \<le> acc'" "acc' < 128 ^ (i + 1)"
    using less.prems digit_bound[of acc "128 ^ i" "b mod 128"] by (simp_all add: acc'_def)
  have sh: "7 * i < 64 \<longleftrightarrow> i < 10" by auto
  have idx: "offset + i + 1 - offset = Suc i" by simp
  have IH: "(readLoop64 buffer offset (7 * i + 7) acc' (Suc (offset + i)) = Inr x) =
         (gread 10 1 buffer offset (Suc i) acc' = Some x)" if "i < 10"
    using less.hyps[of "Suc i" acc'] acc' that by (simp add: add.commute)
  have step: "gread 10 1 buffer offset i acc =
     (if i < 10 \<and> offset + i < length buffer then
        if i + 1 = 10 \<and> b > 1 then None
        else if b < 128 then
          if (acc' = 0 \<and> i = 0) \<or> acc' \<ge> 128 ^ i then Some (acc', Suc i) else None
        else gread 10 1 buffer offset (Suc i) acc' else None)"
    unfolding gread.simps[of 10 1 buffer offset i acc] Let_def b_def[symmetric] acc'_def[symmetric]
    by simp
  have "readLoop64 buffer offset (7 * i) acc (offset + i) =
     (if i < 10 then
        if offset + i \<ge> length buffer then Inl (Error ''Invalid buffer length'')
        else if i + 1 = 10 \<and> b > 1 then Inl (Error ''Value out of range of uint64'')
        else if b < 128 then
          case validateVarintSize acc' (i + 1) of Inl e \<Rightarrow> Inl e | Inr _ \<Rightarrow> Inr (acc', Suc i)
        else readLoop64 buffer offset (7 * i + 7) acc' (Suc (offset + i))
      else Inl (Error ''Terminating bit not found''))"
    unfolding readLoop64.simps[of buffer offset "7 * i" acc] Let_def b_def[symmetric] or idx
    using b by (simp add: sh int_and_128)
  then show ?case
    using IH validateVarintSize_iff[of acc' i] step by (auto split: sum.splits)
qed

lemma readLoop32_gread:
  assumes "uint acc < 128 ^ i"
  shows "(readLoop32 buffer offset (7 * i) acc (offset + i) = Inr (w, k)) =
         (gread 5 15 buffer offset i (uint acc) = Some (uint w, k))"
  using assms
proof (induction "5 - i" arbitrary: i acc rule: less_induct)
  case less
  define b where "b = buffer ! (offset + i)"
  define acc' where "acc' = acc OR push_bit (7 * i) (ucast (b AND 127))"
  have sh: "7 * i < 32 \<longleftrightarrow> i < 5" by auto
  have idx: "offset + i + 1 - offset = Suc i" by simp
  show ?case
  proof (cases "i < 5 \<and> offset + i < length buffer \<and> \<not> (i + 1 = 5 \<and> uint b > 15)")
    case False
    then show ?thesis
      unfolding readLoop32.simps[of buffer offset "7 * i" acc] gread.simps[of 5 15 buffer offset i]
      by (auto simp: Let_def sh b_def[symmetric] word_less_def)
  next
    case True
    have small: "uint b mod 128 * 128 ^ i < 2 ^ 32"
    proof -
      have "uint b mod 128 * 128 ^ i \<le> (if i = 4 then 15 * 128 ^ 4 else 127 * 128 ^ 3)"
      proof (cases "i = 4")
        case True
        with \<open>i < 5 \<and> _\<close> show ?thesis by (auto intro: order_trans[OF zmod_le_nonneg_dividend])
      next
        case False
        with True have "i \<le> 3" by auto
        then have "(128::int) ^ i \<le> 128 ^ 3" by (intro power_increasing) auto
        then have "uint b mod 128 * 128 ^ i \<le> 127 * 128 ^ 3" by (intro mult_mono) auto
        with False show ?thesis by simp
      qed
      also have "\<dots> < 2 ^ 32" by simp
      finally show ?thesis .
    qed
    have dig: "uint (push_bit (7 * i) (ucast (b AND 127) :: 32 word)) = push_bit (7 * i) (uint b mod 128)"
    proof -
      have "uint (push_bit (7 * i) (ucast (b AND 127) :: 32 word)) =
            take_bit 32 (push_bit (7 * i) (uint b mod 128))"
        by (simp add: unsigned_push_bit_eq unsigned_ucast_eq byte_and_127 take_bit_push_bit)
      also have "\<dots> = push_bit (7 * i) (uint b mod 128)"
        using small by (simp add: take_bit_int_eq_self push_bit_eq_mult pow128)
      finally show ?thesis .
    qed
    have acc': "uint acc' = uint acc + (uint b mod 128) * 128 ^ i"
      using or_push_bit_add[of "uint acc" "7 * i" "uint b mod 128"] less.prems
      by (simp add: acc'_def uint_or dig pow128)
    have lt: "uint acc' < 128 ^ (i + 1)"
      using less.prems digit_bound[of "uint acc" "128 ^ i" "uint b mod 128"] by (simp add: acc')
    have IH: "(readLoop32 buffer offset (7 * i + 7) acc' (Suc (offset + i)) = Inr (w, k)) =
         (gread 5 15 buffer offset (Suc i) (uint acc') = Some (uint w, k))"
      using less.hyps[of "Suc i" acc'] True lt by (auto simp: add.commute)
    have step: "gread 5 15 buffer offset i (uint acc) =
       (if uint b < 128 then
          if (uint acc' = 0 \<and> i = 0) \<or> uint acc' \<ge> 128 ^ i then Some (uint acc', Suc i) else None
        else gread 5 15 buffer offset (Suc i) (uint acc'))"
      using True unfolding gread.simps[of 5 15 buffer offset i] Let_def acc' b_def by auto
    have "readLoop32 buffer offset (7 * i) acc (offset + i) =
       (if uint b < 128 then
          case validateVarintSize (uint acc') (i + 1) of Inl e \<Rightarrow> Inl e | Inr _ \<Rightarrow> Inr (acc', Suc i)
        else readLoop32 buffer offset (7 * i + 7) acc' (Suc (offset + i)))"
      using True unfolding readLoop32.simps[of buffer offset "7 * i" acc] Let_def b_def[symmetric]
        acc'_def[symmetric] idx
      by (auto simp: sh byte_and_128 word_less_def)
    then show ?thesis
      using IH validateVarintSize_iff[of "uint acc'" i] step word_uint_eq_iff[of acc' w]
      by (auto split: sum.splits)
  qed
qed

lemma drop_Cons_nth: "drop k xs = y # ys \<Longrightarrow> k < length xs \<and> xs ! k = y \<and> drop (Suc k) xs = ys"
  by (metis Cons_nth_drop_Suc drop_eq_Nil2 leI list.distinct(1) list.inject)

lemma gread_writeLoop:
  assumes "0 \<le> v" "i < n" "v < (l + 1) * 128 ^ (n - 1 - i)" "0 \<le> l" "l \<le> 127"
    and "0 \<le> acc" "acc < 128 ^ i" "0 < i \<longrightarrow> 0 < v"
    and "drop (offset + i) buffer = writeLoop v @ suf"
  shows "gread n l buffer offset i acc = Some (acc + v * 128 ^ i, i + length (writeLoop v))"
  using assms
proof (induction "nat v" arbitrary: v i acc rule: less_induct)
  case less
  show ?case
  proof (cases "v \<le> 127")
    case True
    with less.prems(9) have b: "offset + i < length buffer" "buffer ! (offset + i) = word_of_int v"
      by (auto dest: drop_Cons_nth)
    have u: "uint (buffer ! (offset + i)) = v"
      using True less.prems(1) by (simp add: b uint_word_of_int)
    have last: "\<not> (i + 1 = n \<and> v > l)" using less.prems(3) by auto
    have "acc + v * 128 ^ i \<ge> 128 ^ i" if "0 < v"
    proof -
      have "1 * 128 ^ i \<le> v * 128 ^ i" using that by (intro mult_right_mono) auto
      then show ?thesis using less.prems(6) by linarith
    qed
    then have ok: "(acc + v * 128 ^ i = 0 \<and> i = 0) \<or> acc + v * 128 ^ i \<ge> 128 ^ i"
      using less.prems(1,6,7,8) by (cases "v = 0") auto
    show ?thesis
      using True last ok b(1) less.prems(1,2)
      by (simp add: gread.simps[of n l buffer offset i acc] u Let_def)
  next
    case False
    then have wl: "writeLoop v = word_of_int (128 + v mod 128) # writeLoop (v div 128)"
      by (intro writeLoop_big) auto
    with less.prems(9) have b: "offset + i < length buffer"
      "buffer ! (offset + i) = word_of_int (128 + v mod 128)"
      "drop (offset + Suc i) buffer = writeLoop (v div 128) @ suf"
      by (auto dest: drop_Cons_nth)
    have u: "uint (buffer ! (offset + i)) = 128 + v mod 128"
      unfolding b(2) by (subst uint_word_of_int) simp
    have i: "i + 1 < n"
    proof (rule ccontr)
      assume "\<not> i + 1 < n"
      with less.prems(2) have "n - 1 - i = 0" by auto
      with less.prems(3,5) False show False by simp
    qed
    then have e: "n - 1 - i = Suc (n - 1 - Suc i)" by auto
    have vd: "v div 128 < (l + 1) * 128 ^ (n - 1 - Suc i)"
      using less.prems(3) unfolding e by simp
    have "gread n l buffer offset (Suc i) (acc + v mod 128 * 128 ^ i) =
       Some (acc + v mod 128 * 128 ^ i + v div 128 * 128 ^ Suc i, Suc i + length (writeLoop (v div 128)))"
      by (rule less.hyps)
         (use False vd less.prems b(3) i digit_bound[of acc "128 ^ i" "v mod 128"] in \<open>auto simp: pos_imp_zdiv_pos_iff\<close>)
    moreover have "acc + v mod 128 * 128 ^ i + v div 128 * 128 ^ Suc i = acc + v * 128 ^ i"
    proof -
      have "v mod 128 * 128 ^ i + v div 128 * 128 ^ Suc i = (v mod 128 + 128 * (v div 128)) * 128 ^ i"
        by (simp only: distrib_left distrib_right power_Suc mult_ac)
      then show ?thesis by (simp only: mod_mult_div_eq add.assoc)
    qed
    moreover have "0 \<le> v mod 128" by simp
    ultimately show ?thesis
      using b(1) i by (simp add: gread.simps[of n l buffer offset i acc] u Let_def wl not_less)
  qed
qed

lemma gread_canonical:
  assumes "gread n l buffer offset i acc = Some (r, k)" "0 \<le> acc" "acc < 128 ^ i"
  shows "\<exists>v. 0 \<le> v \<and> r = acc + v * 128 ^ i \<and> (v = 0 \<longrightarrow> i = 0) \<and> i < k \<and>
             take (k - i) (drop (offset + i) buffer) = writeLoop v"
  using assms
proof (induction "n - i" arbitrary: i acc rule: less_induct)
  case less
  define b where "b = uint (buffer ! (offset + i))"
  have b: "0 \<le> b" "b < 256" by (simp_all add: b_def uint_byte)
  from less.prems(1) have g: "i < n" "offset + i < length buffer"
    by (auto simp: gread.simps[of n l buffer offset i acc] split: if_splits)
  have hd: "drop (offset + i) buffer = word_of_int b # drop (offset + Suc i) buffer"
    using g by (simp add: b_def Cons_nth_drop_Suc)
  show ?case
  proof (cases "b < 128")
    case True
    with less.prems(1) g b have "r = acc + b * 128 ^ i" "k = Suc i"
      "(r = 0 \<and> i = 0) \<or> r \<ge> 128 ^ i"
      by (auto simp: gread.simps[of n l buffer offset i acc] b_def[symmetric] Let_def split: if_splits)
    with True b hd less.prems show ?thesis by (intro exI[of _ b]) auto
  next
    case False
    define acc' where "acc' = acc + (b mod 128) * 128 ^ i"
    from False less.prems(1) g have rec: "gread n l buffer offset (Suc i) acc' = Some (r, k)"
      by (auto simp: gread.simps[of n l buffer offset i acc] b_def[symmetric] acc'_def Let_def
               split: if_splits)
    have "0 \<le> acc'" "acc' < 128 ^ Suc i"
      using less.prems(2,3) digit_bound[of acc "128 ^ i" "b mod 128"] by (auto simp: acc'_def)
    note acc' = this
    have "n - Suc i < n - i" using g by auto
    from less.hyps[OF this rec acc'] obtain v where v: "0 \<le> v" "r = acc' + v * 128 ^ Suc i" "v \<noteq> 0"
      "Suc i < k" "take (k - Suc i) (drop (offset + Suc i) buffer) = writeLoop v" by auto
    have m: "b mod 128 = b - 128"
      using b False by presburger
    then have bv: "(b - 128 + 128 * v) div 128 = v" "(b - 128 + 128 * v) mod 128 = b - 128" "b mod 128 = b - 128"
      using b False by auto
    have "writeLoop (b - 128 + 128 * v) = word_of_int b # writeLoop v"
      using v b False by (subst writeLoop_big) (auto simp: bv)
    moreover have "k - i = Suc (k - Suc i)" using v by auto
    ultimately show ?thesis
      using v b False hd
      by (intro exI[of _ "b - 128 + 128 * v"]) (auto simp: acc'_def bv algebra_simps)
  qed
qed

lemma readUInt32_gread:
  "readUInt32 buffer offset = Inr (w, k) \<longleftrightarrow> gread 5 15 buffer offset 0 0 = Some (uint w, k)"
  using readLoop32_gread[of 0 0 buffer offset w k] by (simp add: readUInt32_def)

lemma readUInt64_gread:
  "readUInt64 buffer offset = Inr x \<longleftrightarrow> gread 10 1 buffer offset 0 0 = Some x"
  using readLoop64_gread[of 0 0 buffer offset x] by (simp add: readUInt64_def)

section \<open>Round trips\<close>

lemma readUInt32_write:
  assumes "0 \<le> v" "v \<le> MAX_UINT32" "writeUInt32 v = Inr bs"
  shows "readUInt32 (pre @ bs @ suf) (length pre) = Inr (word_of_int v, length bs)"
proof -
  have bs: "bs = writeLoop v" using assms by (simp add: writeUInt32_def)
  have "gread 5 15 (pre @ bs @ suf) (length pre) 0 0 = Some (0 + v * 128 ^ 0, 0 + length (writeLoop v))"
    by (rule gread_writeLoop) (use assms bs in auto)
  moreover have "uint (word_of_int v :: 32 word) = v"
    using assms by (simp add: uint_word_of_int)
  ultimately show ?thesis by (simp add: readUInt32_gread bs)
qed

lemma readUInt64_write:
  assumes "0 \<le> v" "v \<le> MAX_UINT64" "writeUInt64 v = Inr bs"
  shows "readUInt64 (pre @ bs @ suf) (length pre) = Inr (v, length bs)"
proof -
  have bs: "bs = writeLoop v" using assms by (simp add: writeUInt64_def)
  have "gread 10 1 (pre @ bs @ suf) (length pre) 0 0 = Some (0 + v * 128 ^ 0, 0 + length (writeLoop v))"
    by (rule gread_writeLoop) (use assms bs in auto)
  then show ?thesis by (simp add: readUInt64_gread bs)
qed

lemma gread_bound:
  assumes "gread n l buffer offset i acc = Some (r, k)" "0 \<le> acc" "acc < 128 ^ i" "0 \<le> l" "l \<le> 127"
  shows "r < (l + 1) * 128 ^ (n - 1)"
  using assms
proof (induction "n - i" arbitrary: i acc rule: less_induct)
  case less
  define b where "b = uint (buffer ! (offset + i))"
  have b: "0 \<le> b" "b < 256" by (simp_all add: b_def uint_byte)
  from less.prems(1) have g: "i < n" "offset + i < length buffer"
    by (auto simp: gread.simps[of n l buffer offset i acc] split: if_splits)
  show ?case
  proof (cases "b < 128")
    case True
    with less.prems(1) g b have r: "r = acc + b * 128 ^ i" and l: "i + 1 = n \<longrightarrow> b \<le> l"
      by (auto simp: gread.simps[of n l buffer offset i acc] b_def[symmetric] Let_def split: if_splits)
    show ?thesis
    proof (cases "i + 1 = n")
      case True
      then have "b * 128 ^ i \<le> l * 128 ^ i" using l by (intro mult_right_mono) auto
      then have "acc + b * 128 ^ i < (l + 1) * 128 ^ i" using less.prems(3) by (simp only: distrib_right)
      with r True show ?thesis by auto
    next
      case False
      then have "Suc i \<le> n - 1" using g by auto
      then have "(128::int) ^ Suc i \<le> 128 ^ (n - 1)" by (intro power_increasing) auto
      also have "\<dots> \<le> (l + 1) * 128 ^ (n - 1)" using less.prems(4)
        mult_right_mono[of 1 "l + 1" "128 ^ (n - 1)"] by simp
      finally show ?thesis
        using r True less.prems(2,3) digit_bound[of acc "128 ^ i" b] by auto
    qed
  next
    case False
    then have rec: "gread n l buffer offset (Suc i) (acc + (b mod 128) * 128 ^ i) = Some (r, k)"
      using less.prems(1) g
      by (auto simp: gread.simps[of n l buffer offset i acc] b_def[symmetric] Let_def split: if_splits)
    have "n - Suc i < n - i" using g by auto
    from less.hyps[OF this rec] show ?thesis
      using less.prems(2-) digit_bound[of acc "128 ^ i" "b mod 128"] by auto
  qed
qed

lemma readUInt64_canonical:
  assumes "readUInt64 buffer offset = Inr (v, k)"
  shows "0 \<le> v \<and> v \<le> MAX_UINT64 \<and> writeUInt64 v = Inr (take k (drop offset buffer))"
proof -
  have g: "gread 10 1 buffer offset 0 0 = Some (v, k)" using assms by (simp add: readUInt64_gread)
  from gread_canonical[OF g] have v: "0 \<le> v" "take k (drop offset buffer) = writeLoop v" by auto
  from gread_bound[OF g] have "v < (1 + 1) * 128 ^ 9" by simp
  with v show ?thesis by (simp add: writeUInt64_def)
qed

lemma readUInt32_canonical:
  assumes "readUInt32 buffer offset = Inr (w, k)"
  shows "writeUInt32 (uint w) = Inr (take k (drop offset buffer))"
proof -
  have g: "gread 5 15 buffer offset 0 0 = Some (uint w, k)" using assms by (simp add: readUInt32_gread)
  from gread_canonical[OF g] have "take k (drop offset buffer) = writeLoop (uint w)" by auto
  moreover have "uint w \<le> MAX_UINT32" using uint_lt2p[of w] by simp
  ultimately show ?thesis by (simp add: writeUInt32_def)
qed

text \<open>
  every uint32 is written, and reading the written bytes back at any position of any
  buffer gives the value and the number of bytes written.
\<close>

theorem uint32_roundtrip:
  assumes "0 \<le> v" "v \<le> MAX_UINT32"
  shows "\<exists>bs. writeUInt32 v = Inr bs \<and>
    (\<forall>pre suf. readUInt32 (pre @ bs @ suf) (length pre) = Inr (word_of_int v, length bs))"
proof -
  obtain bs where "writeUInt32 v = Inr bs" using assms by (simp add: writeUInt32_def)
  then show ?thesis using readUInt32_write[OF assms] by blast
qed

theorem uint32_roundtrip_witness:
  "\<exists>bs. writeUInt32 300 = Inr bs \<and>
    (\<forall>pre suf. readUInt32 (pre @ bs @ suf) (length pre) = Inr (word_of_int 300, length bs))"
  by (rule uint32_roundtrip) simp_all

text \<open>
  a signed 64-bit integer survives the zig-zag encoding and the varint encoding, at any
  position of any buffer.
\<close>

theorem sint64_roundtrip:
  assumes "- MAX_SINT64 - 1 \<le> v" "v \<le> MAX_SINT64"
  shows "\<exists>bs. writeSInt64 v = Inr bs \<and>
    (\<forall>pre suf. readSInt64 (pre @ bs @ suf) (length pre) = Inr (v, length bs))"
proof (cases "0 \<le> v")
  case True
  then obtain bs where bs: "writeUInt64 (2 * v) = Inr bs" using assms by (simp add: writeUInt64_def)
  have "readUInt64 (pre @ bs @ suf) (length pre) = Inr (2 * v, length bs)" for pre suf
    by (rule readUInt64_write[OF _ _ bs]) (use True assms in auto)
  then show ?thesis using True assms bs by (simp add: writeSInt64_def readSInt64_def)
next
  case False
  then obtain bs where bs: "writeUInt64 (- 2 * v - 1) = Inr bs" using assms by (simp add: writeUInt64_def)
  have "readUInt64 (pre @ bs @ suf) (length pre) = Inr (- 2 * v - 1, length bs)" for pre suf
    by (rule readUInt64_write[OF _ _ bs]) (use False assms in auto)
  moreover have "(- 2 * v - 1) mod 2 = 1" by presburger
  ultimately show ?thesis using False assms bs by (simp add: writeSInt64_def readSInt64_def)
qed

theorem sint64_roundtrip_witness:
  "\<exists>bs. writeSInt64 (- 65) = Inr bs \<and>
    (\<forall>pre suf. readSInt64 (pre @ bs @ suf) (length pre) = Inr (- 65, length bs))"
  by (rule sint64_roundtrip) simp_all

text \<open>
  decoding is canonical. Whatever \<open>readUInt64\<close> accepts is in the uint64 range, and the
  bytes it consumed are exactly the bytes \<open>writeUInt64\<close> produces for the value it
  returned: no other byte string decodes to the same number.
\<close>

theorem uint64_canonical:
  assumes "readUInt64 buffer offset = Inr (v, k)"
  shows "0 \<le> v \<and> v \<le> MAX_UINT64 \<and> writeUInt64 v = Inr (take k (drop offset buffer))"
  using assms by (rule readUInt64_canonical)

theorem uint64_canonical_witness:
  "0 \<le> (300::int) \<and> (300::int) \<le> MAX_UINT64 \<and>
   writeUInt64 300 = Inr (take 2 (drop 1 [7, 172, 2, 9]))"
proof -
  have "readUInt64 [7, 172, 2, 9] 1 = Inr (300, 2)" by code_simp
  then show ?thesis by (rule uint64_canonical)
qed

text \<open>
  the range check of \<open>writeUInt64\<close> is one-sided. A negative number is written
  without an error, as one byte with the value modulo 256; for \<open>- 128 \<le> v < 0\<close> that byte
  has its continuation bit set and cannot be read back.
\<close>

theorem uint64_negative_written:
  assumes "- 128 \<le> v" "v < 0"
  shows "writeUInt64 v = Inr [word_of_int v] \<and>
    readUInt64 [word_of_int v] 0 = Inl (Error ''Invalid buffer length'')"
proof -
  have "uint (word_of_int v :: byte) = v mod 256" by (simp add: uint_word_of_int)
  moreover have "v mod 256 = 256 + v" using assms by presburger
  ultimately have u: "uint (word_of_int v :: byte) = 256 + v" by simp
  have "(256 + v) AND 128 \<noteq> 0" using int_and_128[of "256 + v"] assms by auto
  then have "readUInt64 [word_of_int v] 0 = Inl (Error ''Invalid buffer length'')"
    by (simp add: readUInt64_def readLoop64.simps[of _ _ 0] readLoop64.simps[of _ _ 7] u Let_def)
  then show ?thesis using assms by (simp add: writeUInt64_def)
qed

theorem uint64_negative_written_witness:
  "writeUInt64 (- 5) = Inr [word_of_int (- 5)] \<and>
   readUInt64 [word_of_int (- 5)] 0 = Inl (Error ''Invalid buffer length'')"
  by (rule uint64_negative_written) simp_all


end
