(* ===== verification/Codec.thy ===== *)
theory Codec
  imports Varint
begin

text \<open>
  The object codec (\<open>elements/codec/src/collection.ts\<close>, \<open>string.ts\<close>, \<open>codec.ts\<close>).

  A compiled schema is the list of the properties in the order of their field numbers
  (\<open>Codec._compileSchema\<close> sorts them), a message the list of the values of these
  properties in the same order; \<open>None\<close> is a missing property (nested object schemas have at
  least one property). The chunks a writer pushes
  are returned as a list together with the size the code computes beside them.

  The while loops of \<open>readArray\<close> consume at least one byte of the message per round; they
  get the length of the message as fuel.
\<close>

section \<open>Schemas and messages\<close>

datatype schemaProp =
    PScalar nat wireKind
  | PObject nat "schemaProp list"
  | PArray nat wireKind
  | PArrayObj nat "schemaProp list"

datatype val =
    VInt int
  | VStr string
  | VBytes bytes
  | VBool bool
  | VObj "val option list"
  | VArr "val list"

definition rbind :: "err + 'a \<Rightarrow> ('a \<Rightarrow> err + 'b) \<Rightarrow> err + 'b" where
  "rbind r f = (case r of Inl e \<Rightarrow> Inl e | Inr a \<Rightarrow> f a)"

lemma rbind_simps [simp]: "rbind (Inl e) f = Inl e" "rbind (Inr a) f = f a"
  by (simp_all add: rbind_def)

lemma rbind_Inr: "rbind r f = Inr x \<longleftrightarrow> (\<exists>a. r = Inr a \<and> f a = Inr x)"
  by (cases r) auto

lemma rbind_cong [fundef_cong]:
  "r = r' \<Longrightarrow> (\<And>a. r' = Inr a \<Longrightarrow> f a = g a) \<Longrightarrow> rbind r f = rbind r' g"
  by (cases r') auto

section \<open>Writing\<close>

definition writeString :: "jsLib \<Rightarrow> string \<Rightarrow> err + bytes" where
  "writeString lib value = writeBytes (stringToBytes (nfc lib value))"

fun writeScalar :: "jsLib \<Rightarrow> wireKind \<Rightarrow> val \<Rightarrow> err + bytes" where
  "writeScalar lib UInt32T (VInt n) = writeUInt32 n"
| "writeScalar lib SInt32T (VInt n) = writeSInt32 n"
| "writeScalar lib UInt64T (VInt n) = writeUInt64 n"
| "writeScalar lib SInt64T (VInt n) = writeSInt64 n"
| "writeScalar lib StringT (VStr s) = writeString lib s"
| "writeScalar lib BytesT (VBytes b) = writeBytes b"
| "writeScalar lib BooleanT (VBool b) = Inr (writeBoolean b)"
| "writeScalar lib _ _ = Inl (Error ''TypeError'')"

text \<open>Array of string or bytes: one key per element.\<close>

fun writeKeyed :: "jsLib \<Rightarrow> bytes \<Rightarrow> wireKind \<Rightarrow> val list \<Rightarrow> err + (bytes list \<times> nat)" where
  "writeKeyed lib binaryKey t [] = Inr ([], 0)"
| "writeKeyed lib binaryKey t (v # vs) =
     rbind (writeScalar lib t v) (\<lambda>res.
     rbind (writeKeyed lib binaryKey t vs) (\<lambda>(chunks, total).
     Inr (binaryKey # res # chunks, length res + length binaryKey + total)))"

text \<open>Contents of an array of numbers or booleans.\<close>

fun writePacked :: "jsLib \<Rightarrow> wireKind \<Rightarrow> val list \<Rightarrow> err + (bytes list \<times> nat)" where
  "writePacked lib t [] = Inr ([], 0)"
| "writePacked lib t (v # vs) =
     rbind (writeScalar lib t v) (\<lambda>res.
     rbind (writePacked lib t vs) (\<lambda>(contents, contentSize).
     Inr (res # contents, length res + contentSize)))"

definition writeScalarArray :: "jsLib \<Rightarrow> nat \<Rightarrow> wireKind \<Rightarrow> val list \<Rightarrow> err + (bytes list \<times> nat)" where
  "writeScalarArray lib fieldNumber t vs =
     (if vs = [] then Inr ([], 0)
      else rbind (generateKey (word_of_nat fieldNumber) ArrayT) (\<lambda>binaryKey.
      if t = StringT \<or> t = BytesT then writeKeyed lib binaryKey t vs
      else rbind (writePacked lib t vs) (\<lambda>(contents, contentSize).
           rbind (writeUInt32 (int contentSize)) (\<lambda>arrayLength.
           Inr (binaryKey # arrayLength # contents,
                length binaryKey + contentSize + length arrayLength)))))"

fun writeObject :: "jsLib \<Rightarrow> schemaProp list \<Rightarrow> val option list \<Rightarrow> err + (bytes list \<times> nat)"
  and writeObjects :: "jsLib \<Rightarrow> bytes \<Rightarrow> schemaProp list \<Rightarrow> val list \<Rightarrow> err + (bytes list \<times> nat)" where
  "writeObject lib [] message = Inr ([], 0)"
| "writeObject lib (PScalar fieldNumber t # ps) message =
     (case message of
        Some v # vs \<Rightarrow>
          rbind (generateKey (word_of_nat fieldNumber) t) (\<lambda>binaryKey.
          rbind (writeScalar lib t v) (\<lambda>binaryValue.
          rbind (writeObject lib ps vs) (\<lambda>(chunks, n).
          Inr (binaryKey # binaryValue # chunks, length binaryKey + length binaryValue + n))))
      | _ \<Rightarrow> writeObject lib ps (tl message))"
| "writeObject lib (PObject fieldNumber inner # ps) message =
     (case message of
        Some (VObj ws) # vs \<Rightarrow>
          rbind (generateKey (word_of_nat fieldNumber) ObjectT) (\<lambda>binaryKey.
          rbind (writeObject lib inner ws) (\<lambda>(encodedValues, totalWrittenSize).
          rbind (writeUInt32 (int totalWrittenSize)) (\<lambda>objectSize.
          rbind (writeObject lib ps vs) (\<lambda>(chunks, n).
          Inr (binaryKey # objectSize # encodedValues @ chunks,
               length objectSize + length binaryKey + sum_list (map length encodedValues) + n)))))
      | _ \<Rightarrow> Inl (Error ''TypeError''))"
| "writeObject lib (PArray fieldNumber t # ps) message =
     (case message of
        Some (VArr ws) # vs \<Rightarrow>
          rbind (writeScalarArray lib fieldNumber t ws) (\<lambda>(chunks, n).
          rbind (writeObject lib ps vs) (\<lambda>(chunks', n').
          Inr (chunks @ chunks', n + n')))
      | _ \<Rightarrow> Inl (Error ''TypeError''))"
| "writeObject lib (PArrayObj fieldNumber inner # ps) message =
     (case message of
        Some (VArr ws) # vs \<Rightarrow>
          rbind (generateKey (word_of_nat fieldNumber) ArrayT) (\<lambda>binaryKey.
          rbind (writeObjects lib binaryKey inner ws) (\<lambda>(chunks, n).
          rbind (writeObject lib ps vs) (\<lambda>(chunks', n').
          Inr (chunks @ chunks', n + n'))))
      | _ \<Rightarrow> Inl (Error ''TypeError''))"
| "writeObjects lib binaryKey inner [] = Inr ([], 0)"
| "writeObjects lib binaryKey inner (v # vs) =
     (case v of
        VObj ws \<Rightarrow>
          rbind (writeObject lib inner ws) (\<lambda>(res, objectSize).
          rbind (writeUInt32 (int objectSize)) (\<lambda>sz.
          rbind (writeObjects lib binaryKey inner vs) (\<lambda>(chunks, total).
          Inr (binaryKey # sz # res @ chunks, objectSize + length sz + length binaryKey + total))))
      | _ \<Rightarrow> Inl (Error ''TypeError''))"

definition encode :: "jsLib \<Rightarrow> schemaProp list \<Rightarrow> val option list \<Rightarrow> err + bytes" where
  "encode lib schema message = rbind (writeObject lib schema message) (\<lambda>(chunks, n). Inr (concat chunks))"

section \<open>Reading\<close>

text \<open>
  \<open>new TextDecoder('utf8', { fatal: true }).decode\<close>: throws on an invalid sequence and,
  \<open>ignoreBOM\<close> being false, drops a leading byte order mark (EF BB BF).
\<close>

definition BOM :: string where
  "BOM = map char_of [239 :: nat, 187, 191]"

definition stripBOM :: "string \<Rightarrow> string" where
  "stripBOM s = (if take 3 s = BOM then drop 3 s else s)"

definition readString :: "jsLib \<Rightarrow> bytes \<Rightarrow> nat \<Rightarrow> err + (string \<times> nat)" where
  "readString lib buffer offset =
     rbind (readBytes buffer offset) (\<lambda>(value, sz).
     if \<not> utf8Valid lib (bytesToString value) then Inl (Error ''TypeError'')
     else let decodedStr = stripBOM (bytesToString value) in
     if nfc lib decodedStr \<noteq> decodedStr
     then Inl (Error ''UTF8 bytes include non-normalized bytes'')
     else Inr (decodedStr, sz))"

fun readScalar :: "jsLib \<Rightarrow> wireKind \<Rightarrow> bytes \<Rightarrow> nat \<Rightarrow> err + (val \<times> nat)" where
  "readScalar lib UInt32T m i = rbind (readUInt32 m i) (\<lambda>(w, n). Inr (VInt (uint w), n))"
| "readScalar lib SInt32T m i = rbind (readSInt32 m i) (\<lambda>(v, n). Inr (VInt v, n))"
| "readScalar lib UInt64T m i = rbind (readUInt64 m i) (\<lambda>(v, n). Inr (VInt v, n))"
| "readScalar lib SInt64T m i = rbind (readSInt64 m i) (\<lambda>(v, n). Inr (VInt v, n))"
| "readScalar lib StringT m i = rbind (readString lib m i) (\<lambda>(v, n). Inr (VStr v, n))"
| "readScalar lib BytesT m i = rbind (readBytes m i) (\<lambda>(v, n). Inr (VBytes v, n))"
| "readScalar lib BooleanT m i = rbind (readBoolean m i) (\<lambda>(v, n). Inr (VBool v, n))"
| "readScalar lib _ m i = Inl (Error ''TypeError'')"

text \<open>Reading a key and comparing it with the schema.\<close>

definition expectKey :: "bytes \<Rightarrow> nat \<Rightarrow> nat \<Rightarrow> wireKind \<Rightarrow> err + nat" where
  "expectKey message index fieldNumber t =
     rbind (readUInt32 message index) (\<lambda>(key, keySize).
     rbind (readKey key) (\<lambda>(fn, wireType).
     if fn \<noteq> word_of_nat fieldNumber then Inl (Error ''Invalid field number while decoding.'')
     else if getWireType t \<noteq> wireType then Inl (Error ''Invalid wiretype while decoding.'')
     else Inr keySize))"

text \<open>\<open>message[index] === startingByte\<close>: out of range the left side is \<open>undefined\<close>.\<close>

definition byteAt :: "bytes \<Rightarrow> nat \<Rightarrow> byte \<Rightarrow> bool" where
  "byteAt message index b = (index < length message \<and> message ! index = b)"

text \<open>
  The start of \<open>readArray\<close>: \<open>None\<close> when the array is empty or the next key is not its
  own, otherwise the first byte of the key.
\<close>

definition peekArray :: "bytes \<Rightarrow> nat \<Rightarrow> nat \<Rightarrow> err + byte option" where
  "peekArray message index fieldNumber =
     (if index \<ge> length message then Inr None
      else rbind (readUInt32 message index) (\<lambda>(key, _).
           rbind (readKey key) (\<lambda>(fn, _).
           if fn \<noteq> word_of_nat fieldNumber then Inr None else Inr (Some (message ! index)))))"

text \<open>Loop over an array of string or bytes.\<close>

fun readKeyed :: "jsLib \<Rightarrow> nat \<Rightarrow> wireKind \<Rightarrow> byte \<Rightarrow> bytes \<Rightarrow> nat \<Rightarrow> nat \<Rightarrow> err + (val list \<times> nat)" where
  "readKeyed lib 0 t startingByte message index terminateIndex = Inl (Error ''fuel'')"
| "readKeyed lib (Suc fuel) t startingByte message index terminateIndex =
     (if byteAt message index startingByte \<and> index \<noteq> terminateIndex then
        rbind (readUInt32 message index) (\<lambda>(_, wire2KeySize).
        let index = index + wire2KeySize in
        rbind (readUInt32 message index) (\<lambda>(wireType2Length, wireType2LengthSize).
        rbind (if wireType2Length = 0
               then Inr (if t = StringT then VStr '''' else VBytes [], wireType2LengthSize)
               else readScalar lib t message index) (\<lambda>(res, wire2Size).
        rbind (readKeyed lib fuel t startingByte message (index + wire2Size) terminateIndex) (\<lambda>(r, next).
        Inr (res # r, next)))))
      else Inr ([], index))"

text \<open>Loop over the contents of an array of numbers or booleans.\<close>

fun readPacked :: "jsLib \<Rightarrow> nat \<Rightarrow> wireKind \<Rightarrow> bytes \<Rightarrow> nat \<Rightarrow> nat \<Rightarrow> err + (val list \<times> nat)" where
  "readPacked lib 0 t message index end = Inl (Error ''fuel'')"
| "readPacked lib (Suc fuel) t message index end =
     (if index < end then
        rbind (readScalar lib t message index) (\<lambda>(res, sz).
        rbind (readPacked lib fuel t message (index + sz) end) (\<lambda>(r, next). Inr (res # r, next)))
      else Inr ([], index))"

definition readScalarArray :: "jsLib \<Rightarrow> nat \<Rightarrow> wireKind \<Rightarrow> bytes \<Rightarrow> nat \<Rightarrow> nat \<Rightarrow> err + (val list \<times> nat)" where
  "readScalarArray lib fieldNumber t message index terminateIndex =
     rbind (peekArray message index fieldNumber) (\<lambda>p.
     case p of
       None \<Rightarrow> Inr ([], index)
     | Some startingByte \<Rightarrow>
         if t = StringT \<or> t = BytesT
         then readKeyed lib (Suc (length message)) t startingByte message index terminateIndex
         else rbind (readUInt32 message index) (\<lambda>(_, keySize).
              let index = index + keySize in
              rbind (readUInt32 message index) (\<lambda>(arrayLength, wireType2Size).
              let index = index + wireType2Size in
              readPacked lib (Suc (length message)) t message index (index + unat arrayLength))))"

text \<open>
  \<open>readObject\<close> over the compiled schema; \<open>readObjects\<close> is the loop over an array of
  objects.
\<close>

function (sequential) readObject :: "jsLib \<Rightarrow> bytes \<Rightarrow> nat \<Rightarrow> schemaProp list \<Rightarrow> nat \<Rightarrow> err + (val option list \<times> nat)"
  and readObjects :: "jsLib \<Rightarrow> nat \<Rightarrow> byte \<Rightarrow> bytes \<Rightarrow> nat \<Rightarrow> schemaProp list \<Rightarrow> nat \<Rightarrow> err + (val list \<times> nat)" where
  "readObject lib message index [] terminateIndex =
     (if index \<noteq> terminateIndex then Inl (Error ''Invalid terminate index.'') else Inr ([], index))"
| "readObject lib message index (PScalar fieldNumber t # ps) terminateIndex =
     (if length message \<le> index then Inl (Error ''Message does not contain a property for fieldNumber'')
      else rbind (expectKey message index fieldNumber t) (\<lambda>keySize.
           rbind (readScalar lib t message (index + keySize)) (\<lambda>(scalarValue, scalarSize).
           rbind (readObject lib message (index + keySize + scalarSize) ps terminateIndex) (\<lambda>(r, next).
           Inr (Some scalarValue # r, next)))))"
| "readObject lib message index (PObject fieldNumber inner # ps) terminateIndex =
     rbind (expectKey message index fieldNumber ObjectT) (\<lambda>keySize.
     rbind (readUInt32 message (index + keySize)) (\<lambda>(objectSize, objectSizeLength).
     let start = index + keySize + objectSizeLength in
     rbind (readObject lib message start inner (unat objectSize + start)) (\<lambda>(obj, nextOffset).
     rbind (readObject lib message nextOffset ps terminateIndex) (\<lambda>(r, next).
     Inr (Some (VObj obj) # r, next)))))"
| "readObject lib message index (PArray fieldNumber t # ps) terminateIndex =
     rbind (if index \<ge> terminateIndex then Inr ([], index)
            else readScalarArray lib fieldNumber t message index terminateIndex) (\<lambda>(arr, nextOffset).
     rbind (readObject lib message nextOffset ps terminateIndex) (\<lambda>(r, next).
     Inr (Some (VArr arr) # r, next)))"
| "readObject lib message index (PArrayObj fieldNumber inner # ps) terminateIndex =
     rbind (if index \<ge> terminateIndex then Inr ([], index)
            else rbind (peekArray message index fieldNumber) (\<lambda>p.
                 case p of
                   None \<Rightarrow> Inr ([], index)
                 | Some startingByte \<Rightarrow>
                     readObjects lib (Suc (length message)) startingByte message index inner terminateIndex))
       (\<lambda>(arr, nextOffset).
     rbind (readObject lib message nextOffset ps terminateIndex) (\<lambda>(r, next).
     Inr (Some (VArr arr) # r, next)))"
| "readObjects lib 0 startingByte message index inner terminateIndex = Inl (Error ''fuel'')"
| "readObjects lib (Suc fuel) startingByte message index inner terminateIndex =
     (if byteAt message index startingByte \<and> index \<noteq> terminateIndex then
        rbind (readUInt32 message index) (\<lambda>(_, wire2KeySize).
        let index = index + wire2KeySize in
        rbind (readUInt32 message index) (\<lambda>(objectSize, objectSizeLength).
        let index = index + objectSizeLength in
        if objectSize = 0
        then readObjects lib fuel startingByte message index inner terminateIndex
        else rbind (readObject lib message index inner (index + unat objectSize)) (\<lambda>(res, nextOffset).
             rbind (readObjects lib fuel startingByte message nextOffset inner terminateIndex) (\<lambda>(r, next).
             Inr (VObj res # r, next)))))
      else Inr ([], index))"
  by pat_completeness auto
termination
  by (relation "measures [\<lambda>x. case x of Inl (lib, m, i, ps, t) \<Rightarrow> size_list size ps
                                     | Inr (lib, f, b, m, i, ps, t) \<Rightarrow> size_list size ps,
                          \<lambda>x. case x of Inl _ \<Rightarrow> 0 | Inr (lib, f, b, m, i, ps, t) \<Rightarrow> Suc f]") auto

definition decode :: "jsLib \<Rightarrow> schemaProp list \<Rightarrow> bytes \<Rightarrow> err + val option list" where
  "decode lib schema message =
     rbind (readObject lib message 0 schema (length message)) (\<lambda>(res, _). Inr res)"

section \<open>Round trip: scalars, keys\<close>

fun confScalar :: "jsLib \<Rightarrow> wireKind \<Rightarrow> val \<Rightarrow> bool" where
  "confScalar lib UInt32T (VInt n) = (0 \<le> n \<and> n \<le> MAX_UINT32)"
| "confScalar lib SInt32T (VInt n) = (- MAX_SINT32 - 1 \<le> n \<and> n \<le> MAX_SINT32)"
| "confScalar lib UInt64T (VInt n) = (0 \<le> n \<and> n \<le> MAX_UINT64)"
| "confScalar lib SInt64T (VInt n) = (- MAX_SINT64 - 1 \<le> n \<and> n \<le> MAX_SINT64)"
| "confScalar lib StringT (VStr s) = (nfc lib s = s \<and> utf8Valid lib s \<and> stripBOM s = s)"
| "confScalar lib BytesT (VBytes b) = True"
| "confScalar lib BooleanT (VBool b) = True"
| "confScalar lib _ _ = False"

lemma writeUInt32_Inr: "writeUInt32 v = Inr bs \<longleftrightarrow> v \<le> MAX_UINT32 \<and> bs = writeLoop v"
  by (auto simp: writeUInt32_def)

lemma readUInt32_len:
  assumes "writeUInt32 (int n) = Inr l"
  shows "readUInt32 (pre @ l @ suf) (length pre) = Inr (word_of_nat n, length l)" "unat (word_of_nat n :: 32 word) = n"
    "l \<noteq> []"
proof -
  have n: "int n \<le> MAX_UINT32" "l = writeLoop (int n)" using assms by (auto simp: writeUInt32_Inr)
  show "readUInt32 (pre @ l @ suf) (length pre) = Inr (word_of_nat n, length l)"
    using readUInt32_write[OF _ n(1) assms, of pre suf] by simp
  show "unat (word_of_nat n :: 32 word) = n" using n by (simp add: unat_of_nat)
  show "l \<noteq> []" using n by simp
qed

lemma readBytes_write:
  assumes "writeBytes b = Inr bs"
  shows "readBytes (pre @ bs @ suf) (length pre) = Inr (b, length bs)" "bs \<noteq> []"
proof -
  obtain l where l: "writeUInt32 (int (length b)) = Inr l" "bs = l @ b"
    using assms by (auto simp: writeBytes_def split: sum.splits)
  note r = readUInt32_len[OF l(1)]
  show "readBytes (pre @ bs @ suf) (length pre) = Inr (b, length bs)"
    using r(1)[of pre "b @ suf"] r(2) l(2) by (simp add: readBytes_def)
  show "bs \<noteq> []" using r(3) l(2) by simp
qed

lemma uint_of_int32: "0 \<le> n \<Longrightarrow> n \<le> MAX_UINT32 \<Longrightarrow> uint (word_of_int n :: 32 word) = n"
  by (simp add: uint_word_of_int)

lemma sint32_read:
  assumes "- MAX_SINT32 - 1 \<le> v" "v \<le> MAX_SINT32" "writeSInt32 v = Inr bs"
  shows "readSInt32 (pre @ bs @ suf) (length pre) = Inr (v, length bs)" "bs \<noteq> []"
proof -
  define u where "u = (if 0 \<le> v then 2 * v else - 2 * v - 1)"
  have w: "writeUInt32 u = Inr bs" using assms by (auto simp: u_def writeSInt32_def split: if_splits)
  have u: "0 \<le> u" "u \<le> MAX_UINT32" using assms by (auto simp: u_def)
  have m: "u mod 2 = (if 0 \<le> v then 0 else 1)" by (simp add: u_def) presburger
  show "readSInt32 (pre @ bs @ suf) (length pre) = Inr (v, length bs)"
    using readUInt32_write[OF u w, of pre suf] m uint_of_int32[OF u]
    by (auto simp: readSInt32_def Let_def u_def split: if_splits)
  show "bs \<noteq> []" using w by (auto simp: writeUInt32_Inr)
qed

lemma sint64_read:
  assumes "- MAX_SINT64 - 1 \<le> v" "v \<le> MAX_SINT64" "writeSInt64 v = Inr bs"
  shows "readSInt64 (pre @ bs @ suf) (length pre) = Inr (v, length bs)" "bs \<noteq> []"
proof -
  define u where "u = (if 0 \<le> v then 2 * v else - 2 * v - 1)"
  have w: "writeUInt64 u = Inr bs" using assms by (auto simp: u_def writeSInt64_def split: if_splits)
  have u: "0 \<le> u" "u \<le> MAX_UINT64" using assms by (auto simp: u_def)
  have m: "u mod 2 = (if 0 \<le> v then 0 else 1)" by (simp add: u_def) presburger
  show "readSInt64 (pre @ bs @ suf) (length pre) = Inr (v, length bs)"
    using readUInt64_write[OF u w, of pre suf] m
    by (auto simp: readSInt64_def u_def split: if_splits)
  show "bs \<noteq> []" using w by (auto simp: writeUInt64_def split: if_splits)
qed

lemma scalar_read:
  assumes "confScalar lib t v" "writeScalar lib t v = Inr bs"
  shows "readScalar lib t (pre @ bs @ suf) (length pre) = Inr (v, length bs) \<and> bs \<noteq> []"
proof (cases t)
  case UInt32T
  with assms obtain n where n: "v = VInt n" "0 \<le> n" "n \<le> MAX_UINT32" "writeUInt32 n = Inr bs" by (cases v) auto
  then show ?thesis using UInt32T readUInt32_write[OF n(2,3,4), of pre suf] uint_of_int32[OF n(2,3)]
    by (auto simp: writeUInt32_Inr)
next
  case UInt64T
  with assms obtain n where n: "v = VInt n" "0 \<le> n" "n \<le> MAX_UINT64" "writeUInt64 n = Inr bs" by (cases v) auto
  then show ?thesis using UInt64T readUInt64_write[OF n(2,3,4), of pre suf]
    by (auto simp: writeUInt64_def split: if_splits)
next
  case SInt32T
  with assms obtain n where n: "v = VInt n" "- MAX_SINT32 - 1 \<le> n" "n \<le> MAX_SINT32" "writeSInt32 n = Inr bs"
    by (cases v) auto
  then show ?thesis using SInt32T sint32_read(1)[OF n(2,3,4), of pre suf] sint32_read(2)[OF n(2,3,4)] by simp
next
  case SInt64T
  with assms obtain n where n: "v = VInt n" "- MAX_SINT64 - 1 \<le> n" "n \<le> MAX_SINT64" "writeSInt64 n = Inr bs"
    by (cases v) auto
  then show ?thesis using SInt64T sint64_read(1)[OF n(2,3,4), of pre suf] sint64_read(2)[OF n(2,3,4)] by simp
next
  case StringT
  with assms obtain s where s: "v = VStr s" "nfc lib s = s" "utf8Valid lib s" "writeBytes (stringToBytes s) = Inr bs" "stripBOM s = s"
    by (cases v) (auto simp: writeString_def)
  then show ?thesis using StringT readBytes_write(1)[OF s(4), of pre suf] readBytes_write(2)[OF s(4)] by (simp add: readString_def)
next
  case BytesT
  with assms obtain b where b: "v = VBytes b" "writeBytes b = Inr bs" by (cases v) auto
  then show ?thesis using BytesT readBytes_write(1)[OF b(2), of pre suf] readBytes_write(2)[OF b(2)] by simp
next
  case BooleanT
  with assms show ?thesis by (cases v) (auto simp: writeBoolean_def readBoolean_def nth_append split: if_splits)
qed (use assms in \<open>cases v; simp\<close>)+

definition keyWord :: "nat \<Rightarrow> wireKind \<Rightarrow> 32 word" where
  "keyWord fn t = word_of_nat (8 * fn + unat (getWireType t))"

definition keyByte :: "nat \<Rightarrow> wireKind \<Rightarrow> byte" where
  "keyByte fn t = word_of_nat (8 * fn + unat (getWireType t))"

lemma key_table:
  "list_all (\<lambda>fn. list_all (\<lambda>t. generateKey (word_of_nat fn) t = Inr [keyByte fn t] \<and>
      readKey (keyWord fn t) = Inr (word_of_nat fn, getWireType t) \<and>
      writeUInt32 (int (8 * fn + unat (getWireType t))) = Inr [keyByte fn t])
     [BytesT, StringT, ObjectT, ArrayT, UInt32T, SInt32T, UInt64T, SInt64T, BooleanT]) [0..<16]"
  by code_simp

lemma key_facts:
  assumes "fn < 16"
  shows "generateKey (word_of_nat fn) t = Inr [keyByte fn t]"
    and "readKey (keyWord fn t) = Inr (word_of_nat fn, getWireType t)"
    and "writeUInt32 (int (8 * fn + unat (getWireType t))) = Inr [keyByte fn t]"
proof -
  have "fn \<in> set [0..<16]" using assms by simp
  then have *: "list_all (\<lambda>t. generateKey (word_of_nat fn) t = Inr [keyByte fn t] \<and>
      readKey (keyWord fn t) = Inr (word_of_nat fn, getWireType t) \<and>
      writeUInt32 (int (8 * fn + unat (getWireType t))) = Inr [keyByte fn t])
     [BytesT, StringT, ObjectT, ArrayT, UInt32T, SInt32T, UInt64T, SInt64T, BooleanT]"
    using key_table unfolding list_all_iff by blast
  moreover have "t \<in> set [BytesT, StringT, ObjectT, ArrayT, UInt32T, SInt32T, UInt64T, SInt64T, BooleanT]"
    by (cases t) auto
  ultimately have "generateKey (word_of_nat fn) t = Inr [keyByte fn t] \<and>
      readKey (keyWord fn t) = Inr (word_of_nat fn, getWireType t) \<and>
      writeUInt32 (int (8 * fn + unat (getWireType t))) = Inr [keyByte fn t]"
    unfolding list_all_iff by blast
  then show "generateKey (word_of_nat fn) t = Inr [keyByte fn t]"
    and "readKey (keyWord fn t) = Inr (word_of_nat fn, getWireType t)"
    and "writeUInt32 (int (8 * fn + unat (getWireType t))) = Inr [keyByte fn t]" by auto
qed

lemma read_key:
  assumes "fn < 16"
  shows "readUInt32 (pre @ keyByte fn t # suf) (length pre) = Inr (keyWord fn t, 1)"
  using readUInt32_len(1)[OF key_facts(3)[OF assms, of t], of pre suf] by (simp add: keyWord_def)

lemma wireType_cases: "unat (getWireType t) = 2 \<or> unat (getWireType t) = 0"
  by (cases t) auto

lemma unat_keyByte: "fn < 16 \<Longrightarrow> unat (keyByte fn t) = 8 * fn + unat (getWireType t)"
  unfolding keyByte_def using wireType_cases[of t]
  by (intro unat_of_nat_id) auto

lemma keyByte_inj:
  assumes "fn < 16" "fn' < 16" "keyByte fn t = keyByte fn' t'"
  shows "fn = fn'"
proof -
  have "8 * fn + unat (getWireType t) = 8 * fn' + unat (getWireType t')"
    using assms by (metis unat_keyByte)
  then show ?thesis using wireType_cases[of t] wireType_cases[of t'] by presburger
qed

lemma word_of_nat_16:
  assumes "fn < 16" "fn' < 16"
  shows "(word_of_nat fn :: 32 word) = word_of_nat fn' \<longleftrightarrow> fn = fn'"
proof -
  have "unat (word_of_nat k :: 32 word) = k" if "k < 16" for k
    using that by (intro unat_of_nat_id) simp
  then show ?thesis using assms by metis
qed

lemma expectKey_ok:
  "fn < 16 \<Longrightarrow> expectKey (pre @ keyByte fn t # suf) (length pre) fn t = Inr 1"
  by (simp add: expectKey_def read_key key_facts(2))

lemma peekArray_key:
  assumes "fn < 16" "fn' < 16"
  shows "peekArray (pre @ keyByte fn' t # suf) (length pre) fn =
           Inr (if fn' = fn then Some (keyByte fn' t) else None)"
  using assms by (simp add: peekArray_def read_key key_facts(2) word_of_nat_16 nth_append)

section \<open>Schemas and messages that round trip\<close>

fun fieldNo :: "schemaProp \<Rightarrow> nat" where
  "fieldNo (PScalar n t) = n"
| "fieldNo (PObject n ps) = n"
| "fieldNo (PArray n t) = n"
| "fieldNo (PArrayObj n ps) = n"

fun alwaysWritten :: "schemaProp \<Rightarrow> bool" where
  "alwaysWritten (PScalar n t) = True"
| "alwaysWritten (PObject n ps) = True"
| "alwaysWritten _ = False"

text \<open>
  Schemas whose keys fit one byte: distinct field numbers below 16 (\<open>_compileSchema\<close> rejects
  duplicates); the objects of an array have at least one property that is always written.
\<close>

fun propOk :: "schemaProp \<Rightarrow> bool" where
  "propOk (PScalar n t) = (n < 16 \<and> t \<noteq> ObjectT \<and> t \<noteq> ArrayT)"
| "propOk (PArray n t) = (n < 16 \<and> t \<noteq> ObjectT \<and> t \<noteq> ArrayT)"
| "propOk (PObject n ps) = (n < 16 \<and> distinct (map fieldNo ps) \<and> list_all propOk ps)"
| "propOk (PArrayObj n ps) = (n < 16 \<and> distinct (map fieldNo ps) \<and> list_all propOk ps \<and> list_ex alwaysWritten ps)"

definition schemaOk :: "schemaProp list \<Rightarrow> bool" where
  "schemaOk ps = (distinct (map fieldNo ps) \<and> list_all propOk ps)"

lemma propOk_field: "propOk p \<Longrightarrow> fieldNo p < 16"
  by (cases p) auto

text \<open>A message conforms to a schema when it has a value of the right type for every property.\<close>

fun conf :: "jsLib \<Rightarrow> schemaProp list \<Rightarrow> val option list \<Rightarrow> bool" where
  "conf lib [] vs = (vs = [])"
| "conf lib (PScalar n t # ps) vs =
     (case vs of Some v # r \<Rightarrow> confScalar lib t v \<and> conf lib ps r | _ \<Rightarrow> False)"
| "conf lib (PArray n t # ps) vs =
     (case vs of Some (VArr xs) # r \<Rightarrow> list_all (confScalar lib t) xs \<and> conf lib ps r | _ \<Rightarrow> False)"
| "conf lib (PObject n inner # ps) vs =
     (case vs of Some (VObj ws) # r \<Rightarrow> conf lib inner ws \<and> conf lib ps r | _ \<Rightarrow> False)"
| "conf lib (PArrayObj n inner # ps) vs =
     (case vs of Some (VArr xs) # r \<Rightarrow>
        list_all (\<lambda>x. case x of VObj ws \<Rightarrow> conf lib inner ws | _ \<Rightarrow> False) xs \<and> conf lib ps r | _ \<Rightarrow> False)"

lemma keyed_size: "writeKeyed lib key t vs = Inr (chunks, n) \<Longrightarrow> n = length (concat chunks)"
  by (induction vs arbitrary: chunks n) (auto simp: rbind_Inr)

lemma packed_size: "writePacked lib t vs = Inr (chunks, n) \<Longrightarrow> n = length (concat chunks)"
  by (induction vs arbitrary: chunks n) (auto simp: rbind_Inr)

text \<open>What follows an array does not start with its key.\<close>

definition stops :: "byte \<Rightarrow> bytes \<Rightarrow> bool" where
  "stops b suf = (suf = [] \<or> hd suf \<noteq> b)"

lemma byteAt_append [simp]:
  "byteAt (pre @ x # xs) (length pre) b \<longleftrightarrow> x = b" "stops b suf \<Longrightarrow> \<not> byteAt (pre @ suf) (length pre) b"
  by (cases suf; simp add: byteAt_def stops_def nth_append)+

end
