(* ===== verification/CodecRoundtrip.thy ===== *)
theory CodecRoundtrip
  imports Codec
begin

text \<open>
  The codec round trip: what \<open>encode\<close> writes for a conforming message, \<open>decode\<close> reads
  back, for every schema in the shape \<open>schemaOk\<close>; and the two shapes for which it does
  not.
\<close>

section \<open>Arrays of scalars\<close>

lemma keyed_chunk_read:
  assumes "confScalar lib t v" "writeScalar lib t v = Inr bs" "t = StringT \<or> t = BytesT"
    "m = pre @ bs @ suf" "i = length pre"
  shows "\<exists>w l. readUInt32 m i = Inr (w, l) \<and>
           (if w = 0 then Inr (if t = StringT then VStr [] else VBytes [], l)
            else readScalar lib t m i) = Inr (v, length bs)"
proof -
  obtain b where b: "writeBytes b = Inr bs"
    "v = (if t = StringT then VStr (bytesToString b) else VBytes b)"
    using assms by (cases v) (auto simp: writeString_def)
  obtain l where l: "writeUInt32 (int (length b)) = Inr l" "bs = l @ b"
    using b(1) by (auto simp: writeBytes_def split: sum.splits)
  note r = readUInt32_len[OF l(1)]
  have z: "(word_of_nat (length b) :: 32 word) = 0 \<Longrightarrow> b = []"
    using r(2) by simp
  show ?thesis
    using r(1)[of pre "b @ suf"] scalar_read[OF assms(1,2), of pre suf] l(2) z b(2) assms(4,5)
    by (auto simp: bytesToString_def)
qed

lemma readKeyed_step:
  assumes "byteAt m i key" "i \<noteq> term" "readUInt32 m i = Inr (kw, 1)" "readUInt32 m (Suc i) = Inr (w, l)"
    "(if w = 0 then Inr (if t = StringT then VStr [] else VBytes [], l) else readScalar lib t m (Suc i)) = Inr (v, n)"
    "readKeyed lib f t key m (Suc i + n) term = Inr (vs, e)"
  shows "readKeyed lib (Suc f) t key m i term = Inr (v # vs, e)"
  using assms by (simp only: readKeyed.simps rbind_simps Let_def prod.case if_True simp_thms add_Suc_right
      Nat.add_0_right One_nat_def not_False_eq_True)

lemma keyed_read:
  assumes "writeKeyed lib [key] t vs = Inr (chunks, n)" "list_all (confScalar lib t) vs"
    "t = StringT \<or> t = BytesT" "key = keyByte fn ArrayT" "fn < 16" "length vs < fuel"
    "length pre + length (concat chunks) \<le> term" "stops key suf \<or> term = length pre + length (concat chunks)"
  shows "readKeyed lib fuel t key (pre @ concat chunks @ suf) (length pre) term = Inr (vs, length pre + length (concat chunks))"
  using assms
proof (induction vs arbitrary: chunks n pre fuel)
  case Nil
  then obtain f where "fuel = Suc f" by (cases fuel) auto
  with Nil show ?case by auto
next
  case (Cons v vs)
  obtain f where f: "fuel = Suc f" using Cons.prems(6) by (cases fuel) auto
  obtain res ch k where w: "writeScalar lib t v = Inr res" "writeKeyed lib [key] t vs = Inr (ch, k)"
    "chunks = [key] # res # ch"
    using Cons.prems(1) by (auto simp: rbind_Inr)
  have c: "confScalar lib t v" "list_all (confScalar lib t) vs" using Cons.prems(2) by auto
  let ?m = "pre @ concat chunks @ suf"
  have m: "?m = pre @ key # res @ concat ch @ suf" "?m = (pre @ [key]) @ res @ (concat ch @ suf)"
    "?m = (pre @ key # res) @ concat ch @ suf" using w(3) by auto
  have k: "readUInt32 ?m (length pre) = Inr (keyWord fn ArrayT, 1)"
    unfolding m(1) using read_key[OF Cons.prems(5), of pre ArrayT] Cons.prems(4) by simp
  obtain w2 l2 where s2: "readUInt32 ?m (Suc (length pre)) = Inr (w2, l2)"
    "(if w2 = 0 then Inr (if t = StringT then VStr [] else VBytes [], l2)
           else readScalar lib t ?m (Suc (length pre))) = Inr (v, length res)"
    using keyed_chunk_read[OF c(1) w(1) Cons.prems(3) m(2), of "Suc (length pre)"] by auto
  have IH: "readKeyed lib f t key ?m (length (pre @ key # res)) term =
      Inr (vs, length (pre @ key # res) + length (concat ch))"
    unfolding m(3) by (rule Cons.IH[OF w(2) c(2) Cons.prems(3-5)]) (use Cons.prems(6-8) f w(3) in auto)
  have b: "byteAt ?m (length pre) key" "length pre \<noteq> term" unfolding m(1) using Cons.prems(7) w(3) by auto
  show ?case unfolding f
    using readKeyed_step[OF b k s2] IH w(3) by (simp del: append.simps append_assoc)
qed

lemma packed_read:
  assumes "writePacked lib t vs = Inr (chunks, n)" "list_all (confScalar lib t) vs" "length vs < fuel"
  shows "readPacked lib fuel t (pre @ concat chunks @ suf) (length pre) (length pre + length (concat chunks)) =
     Inr (vs, length pre + length (concat chunks))"
  using assms
proof (induction vs arbitrary: chunks n pre fuel)
  case Nil
  then obtain f where "fuel = Suc f" by (cases fuel) auto
  with Nil show ?case by auto
next
  case (Cons v vs)
  obtain f where f: "fuel = Suc f" using Cons.prems(3) by (cases fuel) auto
  obtain res ch k where w: "writeScalar lib t v = Inr res" "writePacked lib t vs = Inr (ch, k)" "chunks = res # ch"
    using Cons.prems(1) by (auto simp: rbind_Inr)
  have c: "confScalar lib t v" "list_all (confScalar lib t) vs" using Cons.prems(2) by auto
  let ?m = "pre @ concat chunks @ suf"
  have m: "?m = pre @ res @ (concat ch @ suf)" "?m = (pre @ res) @ concat ch @ suf" using w(3) by auto
  have s: "readScalar lib t ?m (length pre) = Inr (v, length res) \<and> res \<noteq> []"
    unfolding m(1) by (rule scalar_read[OF c(1) w(1)])
  have IH: "readPacked lib f t ?m (length (pre @ res)) (length (pre @ res) + length (concat ch)) =
      Inr (vs, length (pre @ res) + length (concat ch))"
    unfolding m(2) by (rule Cons.IH[OF w(2) c(2)]) (use Cons.prems(3) f in auto)
  show ?case unfolding f using s IH w(3) by (simp del: append_assoc add: add.assoc)
qed

lemma keyed_len: "writeKeyed lib [key] t vs = Inr (chunks, n) \<Longrightarrow> length vs \<le> length (concat chunks)"
  by (induction vs arbitrary: chunks n) (fastforce simp: rbind_Inr)+

lemma packed_len:
  "writePacked lib t vs = Inr (chunks, n) \<Longrightarrow> list_all (confScalar lib t) vs \<Longrightarrow> length vs \<le> length (concat chunks)"
proof (induction vs arbitrary: chunks n)
  case (Cons v vs)
  then obtain res ch k where w: "writeScalar lib t v = Inr res" "writePacked lib t vs = Inr (ch, k)" "chunks = res # ch"
    by (auto simp: rbind_Inr)
  then have "res \<noteq> []" using Cons.prems scalar_read[of lib t v res] by auto
  then have "1 \<le> length res" by (cases res) auto
  with Cons.IH[OF w(2)] Cons.prems w(3) show ?case by auto
qed simp

text \<open>A non-empty array of scalars starts with its key.\<close>

lemma scalarArray_cases:
  assumes "writeScalarArray lib fn t vs = Inr (chunks, n)" "fn < 16"
  shows "n = length (concat chunks)"
    and "vs = [] \<Longrightarrow> concat chunks = []"
    and "vs \<noteq> [] \<Longrightarrow> \<exists>bs. concat chunks = keyByte fn ArrayT # bs"
proof -
  have "vs \<noteq> [] \<Longrightarrow> n = length (concat chunks) \<and> (\<exists>bs. concat chunks = keyByte fn ArrayT # bs)"
  proof (cases "t = StringT \<or> t = BytesT")
    case True
    assume "vs \<noteq> []"
    with True assms have "writeKeyed lib [keyByte fn ArrayT] t vs = Inr (chunks, n)"
      by (simp add: writeScalarArray_def key_facts(1))
    with keyed_size[OF this] \<open>vs \<noteq> []\<close> show ?thesis by (cases vs) (auto simp: rbind_Inr)
  next
    case False
    assume "vs \<noteq> []"
    with False assms show ?thesis
      by (auto simp: writeScalarArray_def key_facts(1) rbind_Inr dest!: packed_size)
  qed
  moreover have "vs = [] \<Longrightarrow> n = 0 \<and> chunks = []" using assms by (auto simp: writeScalarArray_def)
  ultimately show "n = length (concat chunks)" "vs = [] \<Longrightarrow> concat chunks = []"
    "vs \<noteq> [] \<Longrightarrow> \<exists>bs. concat chunks = keyByte fn ArrayT # bs" by (cases "vs = []"; auto)+
qed

lemma scalarArray_read:
  assumes w: "writeScalarArray lib fn t vs = Inr (chunks, n)" and fn: "fn < 16"
    and c: "list_all (confScalar lib t) vs" and ne: "vs \<noteq> []"
    and m: "m = pre @ concat chunks @ suf" "i = length pre" "e = length pre + length (concat chunks)"
    and st: "e \<le> term" "stops (keyByte fn ArrayT) suf \<or> term = e"
  shows "readScalarArray lib fn t m i term = Inr (vs, e)"
proof -
  obtain bs where bs: "concat chunks = keyByte fn ArrayT # bs" using scalarArray_cases(3)[OF w fn ne] by auto
  have p: "peekArray m i fn = Inr (Some (keyByte fn ArrayT))"
    using peekArray_key[OF fn fn, of pre ArrayT "bs @ suf"] m bs by simp
  show ?thesis
  proof (cases "t = StringT \<or> t = BytesT")
    case True
    have k: "writeKeyed lib [keyByte fn ArrayT] t vs = Inr (chunks, n)"
      using True w ne fn by (simp add: writeScalarArray_def key_facts(1))
    have "length vs < Suc (length m)" using keyed_len[OF k] m by simp
    from keyed_read[OF k c True refl fn this, of pre "term" suf] show ?thesis
      using p True m st by (simp add: readScalarArray_def)
  next
    case False
    obtain cs k al where k: "writePacked lib t vs = Inr (cs, k)" "writeUInt32 (int k) = Inr al"
      "chunks = [keyByte fn ArrayT] # al # cs"
      using False w ne fn by (auto simp: writeScalarArray_def key_facts(1) rbind_Inr)
    note kl = packed_size[OF k(1)]
    have l: "length vs < Suc (length m)" using packed_len[OF k(1) c] m k(3) by simp
    let ?p = "pre @ [keyByte fn ArrayT]"
    have r1: "readUInt32 m i = Inr (keyWord fn ArrayT, 1)"
      using read_key[OF fn, of pre ArrayT] m k(3) by simp
    have r2: "readUInt32 m (Suc i) = Inr (word_of_nat k, length al)" "unat (word_of_nat k :: 32 word) = k"
      using readUInt32_len(1)[OF k(2), of ?p "concat cs @ suf"] readUInt32_len(2)[OF k(2)] m k(3) by simp_all
    show ?thesis
      using packed_read[OF k(1) c l, of "?p @ al" suf] False p r1 r2 m k(3) kl
      by (simp add: readScalarArray_def Let_def add.assoc del: readPacked.simps)
  qed
qed

section \<open>Objects\<close>

lemma scalarArray_size: "writeScalarArray lib fn t vs = Inr (chunks, n) \<Longrightarrow> n = length (concat chunks)"
  by (auto simp: writeScalarArray_def rbind_Inr dest: keyed_size packed_size split: if_splits)

lemma write_size:
  "writeObject lib ps vs = Inr (chunks, n) \<Longrightarrow> n = length (concat chunks)"
  "writeObjects lib key ps xs = Inr (chunks, n) \<Longrightarrow> n = length (concat chunks)"
proof (induction lib ps vs and lib key ps xs arbitrary: chunks n and chunks n rule: writeObject_writeObjects.induct)
  case (1 lib message)
  then show ?case by simp
next
  case (2 lib fn t ps message)
  then show ?case by (auto simp: rbind_Inr split: list.splits option.splits)
next
  case (3 lib fn inner ps message)
  then show ?case by (auto simp: rbind_Inr length_concat split: list.splits option.splits val.splits)
next
  case (4 lib fn t ps message)
  then show ?case by (auto simp: rbind_Inr split: list.splits option.splits val.splits dest: scalarArray_size)
next
  case (5 lib fn inner ps message)
  then show ?case by (auto simp: rbind_Inr split: list.splits option.splits val.splits)
next
  case (6 lib key inner)
  then show ?case by simp
next
  case (7 lib key inner v vs)
  then show ?case by (auto simp: rbind_Inr split: list.splits option.splits val.splits)
qed

lemma objects_cases:
  assumes "writeObjects lib [key] inner xs = Inr (chunks, n)"
  shows "xs = [] \<Longrightarrow> concat chunks = []" "xs \<noteq> [] \<Longrightarrow> \<exists>bs. concat chunks = key # bs"
    "length xs \<le> length (concat chunks)"
proof -
  show "xs = [] \<Longrightarrow> concat chunks = []" using assms by auto
  show "xs \<noteq> [] \<Longrightarrow> \<exists>bs. concat chunks = key # bs"
    using assms by (cases xs) (auto simp: rbind_Inr split: val.splits)
  show "length xs \<le> length (concat chunks)" using assms
    by (induction xs arbitrary: chunks n) (fastforce simp: rbind_Inr split: val.splits)+
qed

text \<open>An encoded object starts with the key of one of its properties.\<close>

definition startsIn :: "nat set \<Rightarrow> bytes \<Rightarrow> bool" where
  "startsIn F bs = (bs = [] \<or> (\<exists>fn t r. fn \<in> F \<and> fn < 16 \<and> bs = keyByte fn t # r))"

lemma startsIn_mono: "startsIn F bs \<Longrightarrow> F \<subseteq> G \<Longrightarrow> startsIn G bs"
  by (fastforce simp: startsIn_def)

lemma startsIn_key: "fn \<in> F \<Longrightarrow> fn < 16 \<Longrightarrow> startsIn F (keyByte fn t # bs)"
  by (auto simp: startsIn_def)

lemma object_starts:
  assumes "writeObject lib ps vs = Inr (chunks, n)" "list_all propOk ps" "conf lib ps vs"
  shows "startsIn (set (map fieldNo ps)) (concat chunks)"
  using assms
proof (induction ps arbitrary: vs chunks n)
  case Nil
  then show ?case by (simp add: startsIn_def)
next
  case (Cons p ps)
  have fn: "fieldNo p < 16" using Cons.prems(2) propOk_field by simp
  have IH: "startsIn (set (map fieldNo (p # ps))) (concat ch)"
    if "writeObject lib ps r = Inr (ch, k)" "conf lib ps r" for r ch k
    using Cons.IH[OF that(1) _ that(2)] Cons.prems(2) by (auto intro: startsIn_mono)
  show ?case
  proof (cases p)
    case (PScalar x t)
    with Cons.prems fn show ?thesis
      by (auto simp: rbind_Inr key_facts(1) split: list.splits option.splits intro!: startsIn_key)
  next
    case (PObject x inner)
    with Cons.prems fn show ?thesis
      by (auto simp: rbind_Inr key_facts(1) split: list.splits option.splits val.splits intro!: startsIn_key)
  next
    case (PArray x t)
    with Cons.prems obtain xs r ch1 n1 ch2 n2 where w: "vs = Some (VArr xs) # r"
      "writeScalarArray lib x t xs = Inr (ch1, n1)" "writeObject lib ps r = Inr (ch2, n2)" "chunks = ch1 @ ch2" "conf lib ps r"
      by (auto simp: rbind_Inr split: list.splits option.splits val.splits)
    show ?thesis
    proof (cases "xs = []")
      case True
      then show ?thesis using scalarArray_cases(2)[OF w(2)] IH[OF w(3,5)] w(4) fn PArray by (simp del: concat_eq_Nil_conv)
    next
      case False
      then obtain bs where "concat ch1 = keyByte x ArrayT # bs" using scalarArray_cases(3)[OF w(2)] fn PArray by auto
      then show ?thesis using w(4) fn PArray by (auto intro!: startsIn_key)
    qed
  next
    case (PArrayObj x inner)
    with Cons.prems fn obtain xs r ch1 n1 ch2 n2 where w: "vs = Some (VArr xs) # r"
      "writeObjects lib [keyByte x ArrayT] inner xs = Inr (ch1, n1)" "writeObject lib ps r = Inr (ch2, n2)" "chunks = ch1 @ ch2"
      "conf lib ps r"
      by (auto simp: rbind_Inr key_facts(1) split: list.splits option.splits val.splits)
    show ?thesis
    proof (cases "xs = []")
      case True
      then show ?thesis using objects_cases(1)[OF w(2)] IH[OF w(3,5)] w(4) by (simp del: concat_eq_Nil_conv)
    next
      case False
      then obtain bs where "concat ch1 = keyByte x ArrayT # bs" using objects_cases(2)[OF w(2)] by auto
      then show ?thesis using w(4) fn PArrayObj by (auto intro!: startsIn_key)
    qed
  qed
qed

lemma object_nonempty:
  assumes "writeObject lib ps vs = Inr (chunks, n)" "list_all propOk ps" "conf lib ps vs" "list_ex alwaysWritten ps"
  shows "concat chunks \<noteq> []"
  using assms
proof (induction ps arbitrary: vs chunks n)
  case (Cons p ps)
  have fn: "fieldNo p < 16" using Cons.prems(2) propOk_field by simp
  show ?case
  proof (cases p)
    case (PScalar x t)
    with Cons.prems fn show ?thesis by (auto simp: rbind_Inr key_facts(1) split: list.splits option.splits)
  next
    case (PObject x inner)
    with Cons.prems fn show ?thesis by (auto simp: rbind_Inr key_facts(1) split: list.splits option.splits val.splits)
  next
    case (PArray x t)
    with Cons.prems obtain r ch1 ch2 n2 where w: "writeObject lib ps r = Inr (ch2, n2)" "chunks = ch1 @ ch2" "conf lib ps r"
      by (auto simp: rbind_Inr split: list.splits option.splits val.splits)
    with Cons.IH[OF w(1) _ w(3)] Cons.prems PArray show ?thesis by simp
  next
    case (PArrayObj x inner)
    with Cons.prems obtain r ch1 ch2 n2 where w: "writeObject lib ps r = Inr (ch2, n2)" "chunks = ch1 @ ch2" "conf lib ps r"
      by (auto simp: rbind_Inr split: list.splits option.splits val.splits)
    with Cons.IH[OF w(1) _ w(3)] Cons.prems PArrayObj show ?thesis by simp
  qed
qed simp

text \<open>After an array comes the key of another property, or the end of the object.\<close>

lemma stops_after:
  assumes "writeObject lib ps r = Inr (ch, k)" "list_all propOk ps" "conf lib ps r" "fn \<notin> set (map fieldNo ps)" "fn < 16"
  shows "stops (keyByte fn ArrayT) (concat ch @ suf) \<or> concat ch = []"
proof (cases "concat ch = []")
  case False
  then obtain fn' t bs where "fn' \<in> set (map fieldNo ps)" "fn' < 16" "concat ch = keyByte fn' t # bs"
    using object_starts[OF assms(1,2,3)] by (auto simp: startsIn_def)
  with keyByte_inj[OF assms(5), of fn' ArrayT t] assms(4) show ?thesis by (auto simp: stops_def)
qed simp

lemma peek_other:
  assumes "writeObject lib ps r = Inr (ch, k)" "list_all propOk ps" "conf lib ps r" "fn \<notin> set (map fieldNo ps)" "fn < 16"
    "concat ch \<noteq> []" "m = pre @ concat ch @ suf" "i = length pre"
  shows "peekArray m i fn = Inr None"
proof -
  obtain fn' t bs where f: "fn' \<in> set (map fieldNo ps)" "fn' < 16" "concat ch = keyByte fn' t # bs"
    using object_starts[OF assms(1,2,3)] assms(6) by (auto simp: startsIn_def)
  then have "fn' \<noteq> fn" using assms(4) by auto
  with peekArray_key[OF assms(5) f(2), of pre t "bs @ suf"] assms(7,8) f show ?thesis by simp
qed

declare readKeyed.simps [simp del] readPacked.simps [simp del] readObjects.simps [simp del]

definition readsBack :: "jsLib \<Rightarrow> schemaProp list \<Rightarrow> val option list \<Rightarrow> bool" where
  "readsBack lib ps vs = (\<forall>chunks n m pre suf i e.
     schemaOk ps \<longrightarrow> conf lib ps vs \<longrightarrow> writeObject lib ps vs = Inr (chunks, n) \<longrightarrow>
     m = pre @ concat chunks @ suf \<longrightarrow> i = length pre \<longrightarrow> e = i + length (concat chunks) \<longrightarrow>
     readObject lib m i ps e = Inr (vs, e))"

lemma readsBackD:
  assumes "readsBack lib ps vs" "schemaOk ps" "conf lib ps vs" "writeObject lib ps vs = Inr (chunks, n)"
    "m = pre @ concat chunks @ suf" "i = length pre" "e = i + length (concat chunks)"
  shows "readObject lib m i ps e = Inr (vs, e)"
  using assms unfolding readsBack_def by blast

definition confObjects :: "jsLib \<Rightarrow> schemaProp list \<Rightarrow> val list \<Rightarrow> bool" where
  "confObjects lib inner xs = list_all (\<lambda>x. case x of VObj ws \<Rightarrow> conf lib inner ws | _ \<Rightarrow> False) xs"

text \<open>The loop over an array of objects, given that each of them reads back.\<close>

lemma objects_read:
  assumes "writeObjects lib [key] inner xs = Inr (chunks, n)" "confObjects lib inner xs"
    "schemaOk inner" "list_ex alwaysWritten inner" "key = keyByte fn ArrayT" "fn < 16" "length xs < fuel"
    "m = pre @ concat chunks @ suf" "i = length pre" "e = i + length (concat chunks)"
    "e \<le> term" "stops key suf \<or> term = e"
    "\<And>ws. VObj ws \<in> set xs \<Longrightarrow> readsBack lib inner ws"
  shows "readObjects lib fuel key m i inner term = Inr (xs, e)"
  using assms
proof (induction xs arbitrary: chunks n pre fuel i)
  case Nil
  then obtain f where "fuel = Suc f" by (cases fuel) auto
  with Nil show ?case by (auto simp: readObjects.simps)
next
  case (Cons x xs)
  obtain f where f: "fuel = Suc f" using Cons.prems(7) by (cases fuel) auto
  obtain ws res sz ch k os where x: "x = VObj ws" "writeObject lib inner ws = Inr (res, os)"
    "writeUInt32 (int os) = Inr sz" "writeObjects lib [key] inner xs = Inr (ch, k)" "chunks = [key] # sz # res @ ch"
    using Cons.prems(1) by (auto simp: rbind_Inr split: val.splits)
  have c: "conf lib inner ws" "confObjects lib inner xs" using Cons.prems(2) x(1) by (auto simp: confObjects_def)
  have pk: "list_all propOk inner" using Cons.prems(3) by (simp add: schemaOk_def)
  have os: "os = length (concat res)" using write_size(1)[OF x(2)] .
  have os0: "os \<noteq> 0" using object_nonempty[OF x(2) pk c(1) Cons.prems(4)] os by simp
  let ?i2 = "Suc i + length sz"
  have m: "m = pre @ key # (sz @ concat res @ concat ch @ suf)"
    "m = (pre @ [key]) @ sz @ (concat res @ concat ch @ suf)"
    "m = (pre @ [key] @ sz) @ concat res @ (concat ch @ suf)"
    "m = (pre @ [key] @ sz @ concat res) @ concat ch @ suf"
    using Cons.prems(8) x(5) by auto
  have k: "readUInt32 m i = Inr (keyWord fn ArrayT, 1)"
    unfolding m(1) using read_key[OF Cons.prems(6), of pre ArrayT] Cons.prems(5,9) by simp
  have s: "readUInt32 m (Suc i) = Inr (word_of_nat os, length sz)"
    using readUInt32_len(1)[OF x(3), of "pre @ [key]" "concat res @ concat ch @ suf"] m(2) Cons.prems(9) by simp
  note u = readUInt32_len(2)[OF x(3)]
  then have w0: "(word_of_nat os :: 32 word) \<noteq> 0" using os0 by (metis unat_0)
  have "readsBack lib inner ws" using Cons.prems(13) x(1) by simp
  then have o: "readObject lib m ?i2 inner (?i2 + os) = Inr (ws, ?i2 + os)"
    by (rule readsBackD[OF _ Cons.prems(3) c(1) x(2) m(3)]) (use os Cons.prems(9) in auto)
  have IH: "readObjects lib f key m (?i2 + os) inner term = Inr (xs, e)"
    by (rule Cons.IH[OF x(4) c(2) Cons.prems(3-6) _ m(4)])
       (use Cons.prems(7-13) f x(5) os in auto)
  have b: "byteAt m i key" "i \<noteq> term" using m(1) Cons.prems(9-11) x(5) by auto
  show ?case unfolding f x(1)
    using k s w0 u o IH b by (simp add: readObjects.simps Let_def)
qed

lemma readsBackI:
  assumes "\<And>chunks n pre suf. schemaOk ps \<Longrightarrow> conf lib ps vs \<Longrightarrow> writeObject lib ps vs = Inr (chunks, n) \<Longrightarrow>
     readObject lib (pre @ concat chunks @ suf) (length pre) ps (length pre + length (concat chunks)) =
       Inr (vs, length pre + length (concat chunks))"
  shows "readsBack lib ps vs"
  using assms unfolding readsBack_def by blast

lemma schemaOk_Cons: "schemaOk (p # ps) \<longleftrightarrow> fieldNo p \<notin> set (map fieldNo ps) \<and> propOk p \<and> schemaOk ps"
  by (auto simp: schemaOk_def)

lemma schemaOk_props: "schemaOk ps \<Longrightarrow> list_all propOk ps"
  by (simp add: schemaOk_def)

lemma reads_scalar:
  assumes "readsBack lib ps r" "conf lib (PScalar fn t # ps) (Some v # r)"
  shows "readsBack lib (PScalar fn t # ps) (Some v # r)"
proof (rule readsBackI)
  fix chunks n pre suf
  assume a: "schemaOk (PScalar fn t # ps)" "writeObject lib (PScalar fn t # ps) (Some v # r) = Inr (chunks, n)"
  then have fn: "fn < 16" "schemaOk ps" by (auto simp: schemaOk_Cons)
  obtain bv ch k where w: "writeScalar lib t v = Inr bv" "writeObject lib ps r = Inr (ch, k)"
    "chunks = [keyByte fn t] # bv # ch" using a(2) fn by (auto simp: rbind_Inr key_facts(1))
  have c: "confScalar lib t v" "conf lib ps r" using assms(2) by auto
  let ?m = "pre @ concat chunks @ suf" and ?i = "length pre" and ?e = "length pre + length (concat chunks)"
  have m: "?m = pre @ keyByte fn t # (bv @ concat ch @ suf)" "?m = (pre @ [keyByte fn t]) @ bv @ (concat ch @ suf)"
    "?m = (pre @ [keyByte fn t] @ bv) @ concat ch @ suf" using w(3) by auto
  have 1: "expectKey ?m ?i fn t = Inr 1" unfolding m(1) by (rule expectKey_ok[OF fn(1)])
  have 2: "readScalar lib t ?m (Suc ?i) = Inr (v, length bv)"
    unfolding m(2) using scalar_read[OF c(1) w(1), of "pre @ [keyByte fn t]" "concat ch @ suf"] by simp
  have 3: "readObject lib ?m (Suc ?i + length bv) ps ?e = Inr (r, ?e)"
    by (rule readsBackD[OF assms(1) fn(2) c(2) w(2) m(3)]) (use w(3) in auto)
  have 4: "?i < length ?m" unfolding m(1) by simp
  show "readObject lib ?m ?i (PScalar fn t # ps) ?e = Inr (Some v # r, ?e)"
    using 1 2 3 4 by (simp del: length_append append_assoc length_concat)
qed

lemma reads_object:
  assumes "readsBack lib ps r" "readsBack lib inner ws" "conf lib (PObject fn inner # ps) (Some (VObj ws) # r)"
  shows "readsBack lib (PObject fn inner # ps) (Some (VObj ws) # r)"
proof (rule readsBackI)
  fix chunks n pre suf
  assume a: "schemaOk (PObject fn inner # ps)"
    "writeObject lib (PObject fn inner # ps) (Some (VObj ws) # r) = Inr (chunks, n)"
  then have fn: "fn < 16" "schemaOk ps" "schemaOk inner" by (auto simp: schemaOk_Cons schemaOk_def)
  obtain ev os sz ch k where w: "writeObject lib inner ws = Inr (ev, os)" "writeUInt32 (int os) = Inr sz"
    "writeObject lib ps r = Inr (ch, k)" "chunks = [keyByte fn ObjectT] # sz # ev @ ch"
    using a(2) fn by (auto simp: rbind_Inr key_facts(1))
  have c: "conf lib inner ws" "conf lib ps r" using assms(3) by auto
  have os: "os = length (concat ev)" by (rule write_size(1)[OF w(1)])
  let ?m = "pre @ concat chunks @ suf" and ?i = "length pre" and ?e = "length pre + length (concat chunks)"
    and ?k = "[keyByte fn ObjectT]"
  have m: "?m = pre @ keyByte fn ObjectT # (sz @ concat ev @ concat ch @ suf)"
    "?m = (pre @ ?k) @ sz @ (concat ev @ concat ch @ suf)"
    "?m = (pre @ ?k @ sz) @ concat ev @ (concat ch @ suf)"
    "?m = (pre @ ?k @ sz @ concat ev) @ concat ch @ suf" using w(4) by auto
  have 1: "expectKey ?m ?i fn ObjectT = Inr 1" unfolding m(1) by (rule expectKey_ok[OF fn(1)])
  have 2: "readUInt32 ?m (Suc ?i) = Inr (word_of_nat os, length sz)"
    unfolding m(2) using readUInt32_len(1)[OF w(2), of "pre @ ?k"] by simp
  note u = readUInt32_len(2)[OF w(2)]
  let ?s = "Suc ?i + length sz"
  have 3: "readObject lib ?m ?s inner (os + ?s) = Inr (ws, os + ?s)"
    by (rule readsBackD[OF assms(2) fn(3) c(1) w(1) m(3)]) (use os in auto)
  have 4: "readObject lib ?m (os + ?s) ps ?e = Inr (r, ?e)"
    by (rule readsBackD[OF assms(1) fn(2) c(2) w(3) m(4)]) (use w(4) os in auto)
  show "readObject lib ?m ?i (PObject fn inner # ps) ?e = Inr (Some (VObj ws) # r, ?e)"
    using 1 2 3 4 u by (simp del: length_append append_assoc length_concat add: Let_def)
qed

text \<open>
  An array property: its own bytes \<open>ab\<close> are read by \<open>rd\<close> up to the bytes of the next
  property, or skipped when the array is empty.
\<close>

lemma array_glue:
  assumes w: "writeObject lib ps r = Inr (ch, k)" and ok: "schemaOk ps" "conf lib ps r" "fn \<notin> set (map fieldNo ps)" "fn < 16"
    and m: "m = pre @ ab @ concat ch @ suf" "i = length pre" "e = i + length ab + length (concat ch)"
    and empty: "xs = [] \<Longrightarrow> ab = []"
    and none: "xs = [] \<Longrightarrow> peekArray m i fn = Inr None \<Longrightarrow> rd = Inr ([], i)"
    and nonempty: "xs \<noteq> [] \<Longrightarrow> ab \<noteq> []"
    and full: "xs \<noteq> [] \<Longrightarrow> stops (keyByte fn ArrayT) (concat ch @ suf) \<or> e = i + length ab \<Longrightarrow> rd = Inr (xs, i + length ab)"
  shows "(if i \<ge> e then Inr ([], i) else rd) = Inr (xs, i + length ab)"
proof (cases "xs = []")
  case True
  show ?thesis
  proof (cases "concat ch = []")
    case False
    have "peekArray m i fn = Inr None"
      by (rule peek_other[OF w schemaOk_props[OF ok(1)] ok(2-4) False]) (use m empty True in auto)
    with none True empty show ?thesis by auto
  qed (use True empty m in auto)
next
  case False
  have "stops (keyByte fn ArrayT) (concat ch @ suf) \<or> concat ch = []"
    by (rule stops_after[OF w schemaOk_props[OF ok(1)] ok(2-4)])
  with full[OF False] nonempty[OF False] m(3) show ?thesis by (cases ab) auto
qed

lemma reads_array:
  assumes "readsBack lib ps r" "conf lib (PArray fn t # ps) (Some (VArr xs) # r)"
  shows "readsBack lib (PArray fn t # ps) (Some (VArr xs) # r)"
proof (rule readsBackI)
  fix chunks n pre suf
  assume a: "schemaOk (PArray fn t # ps)" "writeObject lib (PArray fn t # ps) (Some (VArr xs) # r) = Inr (chunks, n)"
  then have fn: "fn < 16" "schemaOk ps" "fn \<notin> set (map fieldNo ps)" by (auto simp: schemaOk_Cons)
  obtain ch1 n1 ch k where w: "writeScalarArray lib fn t xs = Inr (ch1, n1)" "writeObject lib ps r = Inr (ch, k)"
    "chunks = ch1 @ ch" using a(2) by (auto simp: rbind_Inr)
  have c: "list_all (confScalar lib t) xs" "conf lib ps r" using assms(2) by auto
  let ?m = "pre @ concat chunks @ suf" and ?i = "length pre" and ?e = "length pre + length (concat chunks)"
  have m: "?m = pre @ concat ch1 @ concat ch @ suf" "?m = (pre @ concat ch1) @ concat ch @ suf"
    "?e = ?i + length (concat ch1) + length (concat ch)" using w(3) by auto
  note sc = scalarArray_cases[OF w(1) fn(1)]
  have 1: "(if ?i \<ge> ?e then Inr ([], ?i) else readScalarArray lib fn t ?m ?i ?e) = Inr (xs, ?i + length (concat ch1))"
  proof (rule array_glue[OF w(2) fn(2) c(2) fn(3,1) m(1) refl m(3)])
    show "readScalarArray lib fn t ?m ?i ?e = Inr ([], ?i)" if "peekArray ?m ?i fn = Inr None"
      using that by (simp add: readScalarArray_def del: length_append append_assoc length_concat)
    show "readScalarArray lib fn t ?m ?i ?e = Inr (xs, ?i + length (concat ch1))"
      if "xs \<noteq> []" "stops (keyByte fn ArrayT) (concat ch @ suf) \<or> ?e = ?i + length (concat ch1)"
      by (rule scalarArray_read[OF w(1) fn(1) c(1) that(1) m(1) refl refl]) (use that(2) m(3) in auto)
  qed (use sc in \<open>auto simp del: concat_eq_Nil_conv\<close>)
  have 2: "readObject lib ?m (?i + length (concat ch1)) ps ?e = Inr (r, ?e)"
    by (rule readsBackD[OF assms(1) fn(2) c(2) w(2) m(2)]) (use w(3) in auto)
  show "readObject lib ?m ?i (PArray fn t # ps) ?e = Inr (Some (VArr xs) # r, ?e)"
    unfolding readObject.simps 1 using 2 by simp
qed

lemma reads_array_obj:
  assumes "readsBack lib ps r" "conf lib (PArrayObj fn inner # ps) (Some (VArr xs) # r)"
    "\<And>ws. VObj ws \<in> set xs \<Longrightarrow> readsBack lib inner ws"
  shows "readsBack lib (PArrayObj fn inner # ps) (Some (VArr xs) # r)"
proof (rule readsBackI)
  fix chunks n pre suf
  assume a: "schemaOk (PArrayObj fn inner # ps)"
    "writeObject lib (PArrayObj fn inner # ps) (Some (VArr xs) # r) = Inr (chunks, n)"
  then have fn: "fn < 16" "schemaOk ps" "fn \<notin> set (map fieldNo ps)" "schemaOk inner" "list_ex alwaysWritten inner"
    by (auto simp: schemaOk_Cons schemaOk_def)
  obtain ch1 n1 ch k where w: "writeObjects lib [keyByte fn ArrayT] inner xs = Inr (ch1, n1)"
    "writeObject lib ps r = Inr (ch, k)" "chunks = ch1 @ ch" using a(2) fn by (auto simp: rbind_Inr key_facts(1))
  have c: "confObjects lib inner xs" "conf lib ps r" using assms(2) by (auto simp: confObjects_def)
  let ?m = "pre @ concat chunks @ suf" and ?i = "length pre" and ?e = "length pre + length (concat chunks)"
  have m: "?m = pre @ concat ch1 @ concat ch @ suf" "?m = (pre @ concat ch1) @ concat ch @ suf"
    "?e = ?i + length (concat ch1) + length (concat ch)" using w(3) by auto
  note oc = objects_cases[OF w(1)]
  let ?rd = "rbind (peekArray ?m ?i fn) (\<lambda>p. case p of None \<Rightarrow> Inr ([], ?i)
     | Some sb \<Rightarrow> readObjects lib (Suc (length ?m)) sb ?m ?i inner ?e)"
  have 1: "(if ?i \<ge> ?e then Inr ([], ?i) else ?rd) = Inr (xs, ?i + length (concat ch1))"
  proof (rule array_glue[OF w(2) fn(2) c(2) fn(3,1) m(1) refl m(3)])
    show "?rd = Inr ([], ?i)" if "peekArray ?m ?i fn = Inr None" using that by simp
    show "?rd = Inr (xs, ?i + length (concat ch1))"
      if ne: "xs \<noteq> []" and st: "stops (keyByte fn ArrayT) (concat ch @ suf) \<or> ?e = ?i + length (concat ch1)"
    proof -
      obtain bs where bs: "concat ch1 = keyByte fn ArrayT # bs" using oc(2) ne by auto
      have p: "peekArray ?m ?i fn = Inr (Some (keyByte fn ArrayT))"
        unfolding m(1) bs using peekArray_key[OF fn(1) fn(1), of pre ArrayT] by simp
      have "length xs < Suc (length ?m)" using oc(3) m(1) by simp
      then have "readObjects lib (Suc (length ?m)) (keyByte fn ArrayT) ?m ?i inner ?e = Inr (xs, ?i + length (concat ch1))"
        by (rule objects_read[OF w(1) c(1) fn(4,5) refl fn(1) _ m(1) refl refl])
           (use st m(3) assms(3) in auto)
      with p show ?thesis by simp
    qed
  qed (use oc in \<open>auto simp del: concat_eq_Nil_conv\<close>)
  have 2: "readObject lib ?m (?i + length (concat ch1)) ps ?e = Inr (r, ?e)"
    by (rule readsBackD[OF assms(1) fn(2) c(2) w(2) m(2)]) (use w(3) in auto)
  show "readObject lib ?m ?i (PArrayObj fn inner # ps) ?e = Inr (Some (VArr xs) # r, ?e)"
    unfolding readObject.simps 1 using 2 by simp
qed

lemma conf_reads_back: "conf lib ps vs \<Longrightarrow> readsBack lib ps vs"
proof (induction lib ps vs rule: conf.induct)
  case (1 lib vs)
  then show ?case by (auto simp: readsBack_def)
next
  case (2 lib n t ps vs)
  then show ?case by (auto split: list.splits option.splits intro!: reads_scalar)
next
  case (3 lib n t ps vs)
  then show ?case by (auto split: list.splits option.splits val.splits intro!: reads_array)
next
  case (4 lib n inner ps vs)
  then show ?case by (auto split: list.splits option.splits val.splits intro!: reads_object)
next
  case (5 lib n inner ps vs)
  then obtain xs r where v: "vs = Some (VArr xs) # r" "conf lib ps r"
    "list_all (\<lambda>x. case x of VObj ws \<Rightarrow> conf lib inner ws | _ \<Rightarrow> False) xs"
    by (auto split: list.splits option.splits val.splits)
  have "readsBack lib ps r" using 5 v by simp
  moreover have "readsBack lib inner ws" if "VObj ws \<in> set xs" for ws
    using 5(1)[of "Some (VArr xs)" r "VArr xs" xs "VObj ws" ws] that v by (auto simp: list_all_iff)
  ultimately show ?case unfolding v(1) using 5(3) v(1) by (intro reads_array_obj) auto
qed

section \<open>Properties\<close>

lemma codec_reads:
  assumes "schemaOk schema" "conf lib schema message" "encode lib schema message = Inr bs"
  shows "decode lib schema bs = Inr message"
proof -
  obtain chunks n where w: "writeObject lib schema message = Inr (chunks, n)" "bs = concat chunks"
    using assms(3) by (auto simp: encode_def rbind_Inr)
  have "readObject lib bs 0 schema (length bs) = Inr (message, length bs)"
    by (rule readsBackD[OF conf_reads_back[OF assms(2)] assms(1,2) w(1), of bs "[]" "[]"]) (use w(2) in auto)
  then show ?thesis by (simp add: decode_def)
qed

text \<open>
  C14: the codec round trip. For a schema with distinct field numbers below 16 whose array
  items always write something, decoding the encoding of a conforming message gives the
  message back: nested objects, packed arrays, keyed arrays and arrays of objects included.
\<close>

theorem codec_roundtrip:
  assumes "schemaOk schema" "conf lib schema message" "encode lib schema message = Inr bs"
  shows "decode lib schema bs = Inr message"
  using assms by (rule codec_reads)

definition asciiLib :: jsLib where
  "asciiLib = \<lparr>nfc = (\<lambda>s. s), utf8Valid = (\<lambda>s. True), localeCompare = (\<lambda>a b. 0)\<rparr>"

definition exSchema :: "schemaProp list" where
  "exSchema = [PScalar 1 StringT, PArray 2 UInt32T, PArrayObj 3 [PScalar 1 BytesT, PArray 2 BytesT], PObject 4 [PScalar 1 SInt64T]]"

definition exMessage :: "val option list" where
  "exMessage = [Some (VStr ''abc''), Some (VArr [VInt 1, VInt 300]),
     Some (VArr [VObj [Some (VBytes [7]), Some (VArr [VBytes [], VBytes [1, 2]])]]), Some (VObj [Some (VInt (-5))])]"

definition exBytes :: bytes where
  "exBytes = [10, 3, 97, 98, 99, 18, 3, 1, 172, 2, 26, 9, 10, 1, 7, 18, 0, 18, 2, 1, 2, 34, 2, 8, 9]"

theorem codec_roundtrip_witness:
  "encode asciiLib exSchema exMessage = Inr exBytes \<and> decode asciiLib exSchema exBytes = Inr exMessage"
proof -
  have e: "encode asciiLib exSchema exMessage = Inr exBytes" by code_simp
  have "schemaOk exSchema" by code_simp
  moreover have "conf asciiLib exSchema exMessage" by code_simp
  ultimately show ?thesis using codec_roundtrip e by blast
qed


end
