(* ===== verification/Context.thy ===== *)
theory Context
  imports CodecRoundtrip
begin

text \<open>
  The execution context that modules share: the event queue
  (\<open>framework/src/state_machine/event_queue.ts\<close>, \<open>elements/chain/src/event.ts\<close>,
  \<open>modules/base_event.ts\<close>) and the context store (\<open>state_machine/utils.ts\<close>).

  A child queue shares the array of events with its parent and differs from it in its
  default topics; the array is state, the height and the default topics belong to the
  handle. SHA-256 (\<open>utils.hash\<close>) is a parameter. The record \<open>ctx\<close> is extended by the
  stores of the modules.
\<close>

section \<open>Events\<close>

record event =
  evModule :: string
  evName :: string
  evTopics :: "bytes list"
  evIndex :: nat
  evHeight :: int
  evData :: bytes

record revertibleEvent =
  rEvent :: event
  noRevert :: bool

definition EVENT_MAX_EVENT_SIZE_BYTES :: int where
  "EVENT_MAX_EVENT_SIZE_BYTES = 10 * 1024"

definition EVENT_TOPIC_INDEX_LENGTH_BITS :: nat where
  "EVENT_TOPIC_INDEX_LENGTH_BITS = 2"

definition EVENT_MAX_TOPICS_PER_EVENT :: nat where
  "EVENT_MAX_TOPICS_PER_EVENT = 2 ^ EVENT_TOPIC_INDEX_LENGTH_BITS"

definition EVENT_TOPIC_HASH_LENGTH_BYTES :: nat where
  "EVENT_TOPIC_HASH_LENGTH_BYTES = 8"

definition eventSchema :: "schemaProp list" where
  "eventSchema = [PScalar 1 StringT, PScalar 2 StringT, PScalar 3 BytesT, PArray 4 BytesT, PScalar 5 UInt32T, PScalar 6 UInt32T]"

definition getAllProps :: "event \<Rightarrow> val option list" where
  "getAllProps e = [Some (VStr (evModule e)), Some (VStr (evName e)), Some (VBytes (evData e)),
     Some (VArr (map VBytes (evTopics e))), Some (VInt (evHeight e)), Some (VInt (int (evIndex e)))]"

definition eventGetBytes :: "jsLib \<Rightarrow> event \<Rightarrow> err + bytes" where
  "eventGetBytes lib e = encode lib eventSchema (getAllProps e)"

text \<open>\<open>Event.fromBytes\<close>: the decoded properties are handed to the constructor.\<close>

definition eventFromBytes :: "jsLib \<Rightarrow> bytes \<Rightarrow> err + event" where
  "eventFromBytes lib bs = rbind (decode lib eventSchema bs) (\<lambda>p.
     case p of
       [Some (VStr m), Some (VStr n), Some (VBytes d), Some (VArr ts), Some (VInt h), Some (VInt i)] \<Rightarrow>
         Inr \<lparr>evModule = m, evName = n, evTopics = map (\<lambda>t. case t of VBytes b \<Rightarrow> b | _ \<Rightarrow> []) ts,
              evIndex = nat i, evHeight = h, evData = d\<rparr>
     | _ \<Rightarrow> Inl (Error ''TypeError''))"

text \<open>\<open>Buffer.writeUint32BE\<close>\<close>

definition uint32BE :: "int \<Rightarrow> err + bytes" where
  "uint32BE n = (if n < 0 \<or> n > MAX_UINT32 then Inl (Error ''RangeError'')
     else Inr [word_of_int (n div 2 ^ 24), word_of_int (n div 2 ^ 16), word_of_int (n div 2 ^ 8), word_of_int n])"

text \<open>\<open>((this._index << 2) >>> 0) + index\<close>: the shift is on 32 bits.\<close>

definition getIndexBytes :: "event \<Rightarrow> nat \<Rightarrow> err + bytes" where
  "getIndexBytes e index =
     uint32BE (uint (push_bit EVENT_TOPIC_INDEX_LENGTH_BITS (word_of_nat (evIndex e) :: 32 word)) + int index)"

primrec keyPairLoop :: "(bytes \<Rightarrow> bytes) \<Rightarrow> event \<Rightarrow> bytes \<Rightarrow> nat \<Rightarrow> bytes list \<Rightarrow> err + (bytes \<times> bytes) list" where
  "keyPairLoop hash e v i [] = Inr []"
| "keyPairLoop hash e v i (t # ts) =
     rbind (getIndexBytes e i) (\<lambda>ib.
     rbind (keyPairLoop hash e v (Suc i) ts) (\<lambda>r.
     Inr ((take EVENT_TOPIC_HASH_LENGTH_BYTES (hash t) @ ib, v) # r)))"

definition keyPair :: "jsLib \<Rightarrow> (bytes \<Rightarrow> bytes) \<Rightarrow> event \<Rightarrow> err + (bytes \<times> bytes) list" where
  "keyPair lib hash e = rbind (eventGetBytes lib e) (\<lambda>b. keyPairLoop hash e (hash b) 0 (evTopics e))"

section \<open>Event queue\<close>

definition unsafeAdd :: "int \<Rightarrow> bytes list \<Rightarrow> string \<Rightarrow> string \<Rightarrow> bytes \<Rightarrow> bytes list \<Rightarrow> bool \<Rightarrow>
    revertibleEvent list \<Rightarrow> revertibleEvent list" where
  "unsafeAdd height defaultTopics module name data topics nr events =
     events @ [\<lparr>rEvent = \<lparr>evModule = module, evName = name, evTopics = defaultTopics @ topics,
                          evIndex = length events, evHeight = height, evData = data\<rparr>, noRevert = nr\<rparr>]"

definition queueAdd :: "int \<Rightarrow> bytes list \<Rightarrow> string \<Rightarrow> string \<Rightarrow> bytes \<Rightarrow> bytes list \<Rightarrow> bool \<Rightarrow>
    revertibleEvent list \<Rightarrow> err + revertibleEvent list" where
  "queueAdd height defaultTopics module name data topics nr events =
     (let allTopics = defaultTopics @ topics in
      if int (length data) > EVENT_MAX_EVENT_SIZE_BYTES then Inl (Error ''Max size of event data'')
      else if length allTopics > EVENT_MAX_TOPICS_PER_EVENT then Inl (Error ''Max topics per event'')
      else Inr (unsafeAdd height defaultTopics module name data topics nr events))"

definition createSnapshot :: "revertibleEvent list \<Rightarrow> nat" where
  "createSnapshot events = length events"

primrec reindex :: "nat \<Rightarrow> revertibleEvent list \<Rightarrow> revertibleEvent list" where
  "reindex i [] = []"
| "reindex i (r # rs) = \<lparr>rEvent = (rEvent r)\<lparr>evIndex := i\<rparr>, noRevert = False\<rparr> # reindex (Suc i) rs"

text \<open>\<open>restoreSnapshot\<close>: the events after the snapshot go, but for the non-revertible ones.\<close>

definition restoreSnapshot :: "nat \<Rightarrow> revertibleEvent list \<Rightarrow> revertibleEvent list" where
  "restoreSnapshot snapshotID events =
     take snapshotID events @ reindex snapshotID (filter noRevert (drop snapshotID events))"

definition getEvents :: "revertibleEvent list \<Rightarrow> event list" where
  "getEvents events = map rEvent events"

section \<open>Context store\<close>

datatype cval = CBool bool | CBigInt int | CNumber int | CString string

type_synonym contextStore = "string \<Rightarrow> cval option"

definition getContextStoreBool :: "contextStore \<Rightarrow> string \<Rightarrow> err + bool" where
  "getContextStoreBool st key = (case st key of None \<Rightarrow> Inr False | Some (CBool b) \<Rightarrow> Inr b
     | Some _ \<Rightarrow> Inl (Error ''Invalid context value.''))"

definition getContextStoreBigInt :: "contextStore \<Rightarrow> string \<Rightarrow> err + int" where
  "getContextStoreBigInt st key = (case st key of None \<Rightarrow> Inr 0 | Some (CBigInt n) \<Rightarrow> Inr n
     | Some _ \<Rightarrow> Inl (Error ''Invalid context value.''))"

definition getContextStoreNumber :: "contextStore \<Rightarrow> string \<Rightarrow> err + int" where
  "getContextStoreNumber st key = (case st key of None \<Rightarrow> Inr 0 | Some (CNumber n) \<Rightarrow> Inr n
     | Some _ \<Rightarrow> Inl (Error ''Invalid context value.''))"

definition getContextStoreString :: "contextStore \<Rightarrow> string \<Rightarrow> err + string" where
  "getContextStoreString st key = (case st key of None \<Rightarrow> Inr [] | Some (CString s) \<Rightarrow> Inr s
     | Some _ \<Rightarrow> Inl (Error ''Invalid context value.''))"

section \<open>Context\<close>

record ctx =
  cHeight :: int
  cTopics :: "bytes list"
  cEvents :: "revertibleEvent list"
  cStore :: contextStore

text \<open>\<open>BaseEvent.add\<close>: the data is encoded before the queue checks its size.\<close>

definition eventAdd :: "jsLib \<Rightarrow> string \<Rightarrow> string \<Rightarrow> schemaProp list \<Rightarrow> val option list \<Rightarrow> bytes list \<Rightarrow> bool \<Rightarrow>
    ('a ctx_scheme, unit) m" where
  "eventAdd lib module name schema vals topics nr =
     bind (liftE (encode lib schema vals)) (\<lambda>data.
     bind (gets (\<lambda>s. queueAdd (cHeight s) (cTopics s) module name data topics nr (cEvents s))) (\<lambda>r.
     bind (liftE r) (\<lambda>evs. modify (\<lambda>s. s\<lparr>cEvents := evs\<rparr>))))"

text \<open>\<open>getChildQueue\<close>: run a computation with other default topics on the same events.\<close>

definition withTopics :: "bytes list \<Rightarrow> ('a ctx_scheme, 'b) m \<Rightarrow> ('a ctx_scheme, 'b) m" where
  "withTopics topics c s = (let (r, t) = c (s\<lparr>cTopics := topics\<rparr>) in (r, t\<lparr>cTopics := cTopics s\<rparr>))"

section \<open>Invariants of the queue\<close>

text \<open>Every event carries its position as its index.\<close>

definition queueOk :: "revertibleEvent list \<Rightarrow> bool" where
  "queueOk events = (map (evIndex \<circ> rEvent) events = [0..<length events])"

lemma length_reindex [simp]: "length (reindex i rs) = length rs"
  by (induction rs arbitrary: i) auto

lemma index_reindex [simp]: "map (evIndex \<circ> rEvent) (reindex i rs) = [i..<i + length rs]"
  by (induction rs arbitrary: i) (auto simp: upt_rec)

lemma reindex_set:
  "r \<in> set (reindex i rs) \<Longrightarrow> \<not> noRevert r \<and>
     (\<exists>q \<in> set rs. evTopics (rEvent r) = evTopics (rEvent q) \<and> evData (rEvent r) = evData (rEvent q))"
  by (induction rs arbitrary: i) auto

lemma queueOk_Nil [simp]: "queueOk []"
  by (simp add: queueOk_def)

lemma queueOk_unsafeAdd: "queueOk events \<Longrightarrow> queueOk (unsafeAdd h dt m n d ts nr events)"
  by (simp add: queueOk_def unsafeAdd_def)

lemma queueOk_take: "queueOk events \<Longrightarrow> queueOk (take k events)"
  by (simp add: queueOk_def take_map[symmetric] min_def)

lemma queueOk_restore:
  assumes "queueOk events" "k \<le> length events"
  shows "queueOk (restoreSnapshot k events)"
proof -
  have "map (evIndex \<circ> rEvent) (take k events) = [0..<k]"
    using queueOk_take[OF assms(1), of k] assms(2) by (simp add: queueOk_def min_def)
  then show ?thesis using assms(2)
    by (simp add: queueOk_def restoreSnapshot_def min_def upt_add_eq_append[symmetric])
qed

lemma queueOk_nth: "queueOk events \<Longrightarrow> i < length events \<Longrightarrow> evIndex (rEvent (events ! i)) = i"
  by (metis (no_types, lifting) add_0 comp_apply length_map nth_map nth_upt queueOk_def)

text \<open>What queues do to the shared array during a block.\<close>

datatype queueOp =
    QAdd int "bytes list" string string bytes "bytes list" bool
  | QUnsafeAdd int "bytes list" string string bytes "bytes list" bool
  | QRestore nat

text \<open>A failed \<open>add\<close> throws and leaves the events as they are.\<close>

fun queueStep :: "queueOp \<Rightarrow> revertibleEvent list \<Rightarrow> revertibleEvent list" where
  "queueStep (QAdd h dt m n d ts nr) evs = (case queueAdd h dt m n d ts nr evs of Inl _ \<Rightarrow> evs | Inr evs' \<Rightarrow> evs')"
| "queueStep (QUnsafeAdd h dt m n d ts nr) evs = unsafeAdd h dt m n d ts nr evs"
| "queueStep (QRestore k) evs = (if k \<le> length evs then restoreSnapshot k evs else evs)"

fun isAdd :: "queueOp \<Rightarrow> bool" where
  "isAdd (QRestore _) = False"
| "isAdd _ = True"

lemma queueOk_step: "queueOk evs \<Longrightarrow> queueOk (queueStep q evs)"
  by (cases q) (auto simp: queueAdd_def Let_def queueOk_unsafeAdd queueOk_restore)

lemma queueOk_fold: "queueOk evs \<Longrightarrow> queueOk (fold queueStep qs evs)"
  by (induction qs arbitrary: evs) (auto intro: queueOk_step)

lemma add_extends: "isAdd q \<Longrightarrow> \<exists>xs. queueStep q evs = evs @ xs"
  by (cases q) (auto simp: queueAdd_def Let_def unsafeAdd_def)

lemma adds_extend: "list_all isAdd qs \<Longrightarrow> \<exists>xs. fold queueStep qs evs = evs @ xs"
proof (induction qs arbitrary: evs)
  case (Cons q qs)
  then obtain xs where "queueStep q evs = evs @ xs" using add_extends by fastforce
  moreover obtain ys where "fold queueStep qs (queueStep q evs) = queueStep q evs @ ys" using Cons by fastforce
  ultimately show ?case by simp
qed simp

definition topicsOk :: "revertibleEvent list \<Rightarrow> bool" where
  "topicsOk events = (\<forall>r \<in> set events. length (evTopics (rEvent r)) \<le> EVENT_MAX_TOPICS_PER_EVENT \<and>
     int (length (evData (rEvent r))) \<le> EVENT_MAX_EVENT_SIZE_BYTES)"

fun isUnsafe :: "queueOp \<Rightarrow> bool" where
  "isUnsafe (QUnsafeAdd _ _ _ _ _ _ _) = True"
| "isUnsafe _ = False"

lemma reindex_topics: "topicsOk rs \<Longrightarrow> topicsOk (reindex i rs)"
  by (fastforce simp: topicsOk_def dest: reindex_set)

lemma topicsOk_append: "topicsOk (xs @ ys) \<longleftrightarrow> topicsOk xs \<and> topicsOk ys"
  by (auto simp: topicsOk_def)

lemma topicsOk_restore: "topicsOk evs \<Longrightarrow> topicsOk (restoreSnapshot k evs)"
  unfolding restoreSnapshot_def topicsOk_append
  by (intro conjI reindex_topics) (auto simp: topicsOk_def dest: in_set_dropD in_set_takeD)

lemma topicsOk_add: "topicsOk evs \<Longrightarrow> queueAdd h dt m n d ts nr evs = Inr evs' \<Longrightarrow> topicsOk evs'"
  by (auto simp: queueAdd_def Let_def unsafeAdd_def topicsOk_append split: if_splits) (simp add: topicsOk_def)

lemma topicsOk_step: "topicsOk evs \<Longrightarrow> \<not> isUnsafe q \<Longrightarrow> topicsOk (queueStep q evs)"
  by (cases q) (simp_all add: topicsOk_restore topicsOk_add split: sum.split)

text \<open>
  C25: the event queue. Whatever sequence of \<open>add\<close>, \<open>unsafeAdd\<close> (from any child queue) and
  \<open>restoreSnapshot\<close> runs, every event's index is its position; without \<open>unsafeAdd\<close> every
  event keeps the limits on data size and on topics; and restoring a snapshot after more
  events were added gives the events of the snapshot followed by the non-revertible ones
  added since, in their order and renumbered.
\<close>

theorem event_queue_correct:
  assumes "queueOk evs"
  shows "queueOk (fold queueStep qs evs) \<and>
    (topicsOk evs \<and> list_all (\<lambda>q. \<not> isUnsafe q) qs \<longrightarrow> topicsOk (fold queueStep qs evs)) \<and>
    (list_all isAdd qs \<longrightarrow>
      restoreSnapshot (createSnapshot evs) (fold queueStep qs evs) =
        evs @ reindex (length evs) (filter noRevert (drop (length evs) (fold queueStep qs evs))))"
proof (intro conjI impI)
  show "queueOk (fold queueStep qs evs)" by (rule queueOk_fold[OF assms])
  show "topicsOk (fold queueStep qs evs)" if "topicsOk evs \<and> list_all (\<lambda>q. \<not> isUnsafe q) qs"
    using that by (induction qs arbitrary: evs) (auto intro: topicsOk_step)
  show "restoreSnapshot (createSnapshot evs) (fold queueStep qs evs) =
        evs @ reindex (length evs) (filter noRevert (drop (length evs) (fold queueStep qs evs)))" if "list_all isAdd qs"
    using adds_extend[OF that, of evs] by (auto simp: restoreSnapshot_def createSnapshot_def)
qed

definition exOps :: "queueOp list" where
  "exOps = [QAdd 5 [[1]] ''token'' ''transfer'' [1, 2] [[7]] False, QAdd 5 [[1]] ''token'' ''burn'' [3] [[7]] True]"

theorem event_queue_correct_witness:
  "queueOk (fold queueStep exOps []) \<and> topicsOk (fold queueStep exOps []) \<and>
   map (evName \<circ> rEvent) (restoreSnapshot (createSnapshot []) (fold queueStep exOps [])) = [''burn''] \<and>
   map (evIndex \<circ> rEvent) (restoreSnapshot (createSnapshot []) (fold queueStep exOps [])) = [0]"
proof -
  have 1: "list_all (\<lambda>q. \<not> isUnsafe q) exOps" "list_all isAdd exOps" "topicsOk []"
    by (simp_all add: exOps_def topicsOk_def)
  have 2: "filter noRevert (drop (length []) (fold queueStep exOps [])) =
     [\<lparr>rEvent = \<lparr>evModule = ''token'', evName = ''burn'', evTopics = [[1], [7]], evIndex = 1, evHeight = 5, evData = [3]\<rparr>,
       noRevert = True\<rparr>]"
    by (simp add: exOps_def queueAdd_def unsafeAdd_def Let_def EVENT_MAX_EVENT_SIZE_BYTES_def
        EVENT_MAX_TOPICS_PER_EVENT_def EVENT_TOPIC_INDEX_LENGTH_BITS_def)
  show ?thesis
    using event_queue_correct[of "[]" exOps] 1 2 by simp
qed

section \<open>Event keys\<close>

lemma bytes4_inj:
  assumes "0 \<le> m" "m < 4294967296" "0 \<le> n" "n < 4294967296"
    "(word_of_int (m div 2 ^ 24) :: byte) = word_of_int (n div 2 ^ 24)" "(word_of_int (m div 2 ^ 16) :: byte) = word_of_int (n div 2 ^ 16)"
    "(word_of_int (m div 2 ^ 8) :: byte) = word_of_int (n div 2 ^ 8)" "(word_of_int m :: byte) = word_of_int n"
  shows "m = (n::int)"
proof -
  have u: "x mod 256 = y mod 256" if "(word_of_int x :: byte) = word_of_int y" for x y :: int
    using arg_cong[OF that, of uint] by (simp add: uint_word_of_int)
  have d: "k div 65536 = k div 256 div 256" "k div 16777216 = k div 256 div 256 div 256" for k :: int
    by (simp_all add: zdiv_zmult2_eq[symmetric])
  have "k div 16777216 mod 256 = k div 16777216" if "0 \<le> k" "k < 4294967296" for k :: int
    using that by (intro mod_pos_pos_trivial) auto
  then have "m div 256 div 256 div 256 = n div 256 div 256 div 256"
    using u[OF assms(5)] assms(1-4) unfolding d(2)[symmetric] by simp
  moreover have "m div 256 div 256 mod 256 = n div 256 div 256 mod 256" using u[OF assms(6)] d by simp
  moreover have "m div 256 mod 256 = n div 256 mod 256" using u[OF assms(7)] by simp
  moreover have "m mod 256 = n mod 256" using u[OF assms(8)] .
  moreover have "x = y" if "x div 256 = y div 256" "x mod 256 = y mod 256" for x y :: int
    using that by (metis div_mult_mod_eq)
  ultimately show ?thesis by blast
qed

lemma uint32BE_inj: "uint32BE m = Inr b \<Longrightarrow> uint32BE n = Inr b \<Longrightarrow> m = n"
  by (auto simp: uint32BE_def split: if_splits intro!: bytes4_inj)

lemma indexBytes_eq:
  assumes "evIndex e < 2 ^ 30" "i < 4"
  shows "getIndexBytes e i = uint32BE (int (4 * evIndex e + i))"
proof -
  have "unat (word_of_nat (evIndex e) :: 32 word) = evIndex e" using assms by (intro unat_of_nat_id) simp
  then have "uint (word_of_nat (evIndex e) :: 32 word) = int (evIndex e)" by (metis uint_nat)
  then have "uint (push_bit 2 (word_of_nat (evIndex e)) :: 32 word) = int (4 * evIndex e)"
    using assms(1) by (simp only: unsigned_push_bit_eq) (simp add: push_bit_eq_mult take_bit_int_eq_self)
  then show ?thesis by (simp add: getIndexBytes_def EVENT_TOPIC_INDEX_LENGTH_BITS_def)
qed

text \<open>The topic positions of an event, numbered through the block.\<close>

definition slots :: "event \<Rightarrow> nat list" where
  "slots e = map (\<lambda>i. 4 * evIndex e + i) [0..<length (evTopics e)]"

lemma keyPairLoop_slots:
  assumes "keyPairLoop hash e v i ts = Inr kp" "evIndex e < 2 ^ 30" "i + length ts \<le> 4" "\<forall>x. length (hash x) = 32"
  shows "map (\<lambda>p. Inr (drop 8 (fst p))) kp = map (\<lambda>j. uint32BE (int (4 * evIndex e + j))) [i..<i + length ts]"
  using assms
proof (induction ts arbitrary: i kp)
  case (Cons t ts)
  then obtain ib r where r: "getIndexBytes e i = Inr ib" "keyPairLoop hash e v (Suc i) ts = Inr r"
    "kp = (take EVENT_TOPIC_HASH_LENGTH_BYTES (hash t) @ ib, v) # r" by (auto simp: rbind_Inr)
  have "[i..<i + length (t # ts)] = i # [Suc i..<Suc i + length ts]" by (simp add: upt_rec)
  with Cons.IH[OF r(2)] Cons.prems r(1,3) indexBytes_eq[of e i] show ?case
    by (simp add: EVENT_TOPIC_HASH_LENGTH_BYTES_def)
qed simp

lemma slots_distinct:
  assumes "queueOk evs" "topicsOk evs"
  shows "distinct (concat (map slots (getEvents evs)))"
proof -
  have d: "distinct (concat (map slots es))"
    if "map evIndex es = [k..<k + length es]" "\<forall>e \<in> set es. length (evTopics e) \<le> 4" for k es
    using that
  proof (induction es arbitrary: k)
    case (Cons e es)
    have k: "evIndex e = k" "map evIndex es = [Suc k..<Suc k + length es]"
      using Cons.prems(1) by (simp_all add: upt_rec)
    have "\<forall>e' \<in> set es. Suc k \<le> evIndex e'"
      using arg_cong[OF k(2), of set] by (metis atLeastLessThan_iff imageI list.set_map set_upt)
    then have "set (slots e) \<inter> set (concat (map slots es)) = {}"
      using k(1) Cons.prems(2) by (fastforce simp: slots_def)
    moreover have "distinct (slots e)" by (simp add: slots_def distinct_map inj_on_def)
    ultimately show ?case using Cons.IH[OF k(2)] Cons.prems(2) by simp
  qed simp
  show ?thesis
    using d[of "getEvents evs" 0] assms
    by (auto simp: queueOk_def topicsOk_def getEvents_def comp_def EVENT_MAX_TOPICS_PER_EVENT_def
        EVENT_TOPIC_INDEX_LENGTH_BITS_def)
qed

lemma keyPairs_slots:
  assumes "map (keyPair lib hash) es = map Inr kps" "\<forall>x. length (hash x) = 32"
    "\<forall>e \<in> set es. evIndex e < 2 ^ 30 \<and> length (evTopics e) \<le> 4"
  shows "map (\<lambda>p. Inr (drop 8 (fst p))) (concat kps) = map (\<lambda>n. uint32BE (int n)) (concat (map slots es))"
  using assms
proof (induction es arbitrary: kps)
  case (Cons e es)
  then obtain kp r where k: "keyPair lib hash e = Inr kp" "map (keyPair lib hash) es = map Inr r" "kps = kp # r"
    by (auto simp: Cons_eq_map_conv)
  obtain v where "keyPairLoop hash e v 0 (evTopics e) = Inr kp" using k(1) by (auto simp: keyPair_def rbind_Inr)
  from keyPairLoop_slots[OF this] Cons.prems
  have "map (\<lambda>p. Inr (drop 8 (fst p))) kp = map (\<lambda>n. uint32BE (int n)) (slots e)" by (simp add: slots_def comp_def)
  with Cons.IH[OF k(2)] Cons.prems k(3) show ?case by simp
qed simp

text \<open>
  the keys of the event tree. SHA-256 gives 32 bytes. In a queue of at most \<open>2 ^ 30\<close>
  events that keeps its invariants, the keys of all events and topics are pairwise
  different, whatever the topics are.
\<close>

theorem event_keys_distinct:
  assumes "queueOk evs" "topicsOk evs" "length evs \<le> 2 ^ 30" "\<forall>x. length (hash x) = 32"
    and "map (keyPair lib hash) (getEvents evs) = map Inr kps"
  shows "distinct (map fst (concat kps))"
proof -
  have "evIndex e < 2 ^ 30 \<and> length (evTopics e) \<le> 4" if "e \<in> set (getEvents evs)" for e
  proof -
    obtain i where "i < length evs" "e = rEvent (evs ! i)" using \<open>e \<in> _\<close> by (auto simp: getEvents_def in_set_conv_nth)
    with queueOk_nth[OF assms(1)] assms(2,3) show ?thesis
      by (auto simp: topicsOk_def EVENT_MAX_TOPICS_PER_EVENT_def EVENT_TOPIC_INDEX_LENGTH_BITS_def)
  qed
  then have eq: "map (\<lambda>p. Inr (drop 8 (fst p))) (concat kps) = map (\<lambda>n. uint32BE (int n)) (concat (map slots (getEvents evs)))"
    by (intro keyPairs_slots[OF assms(5,4)]) blast
  have "inj_on (\<lambda>n. uint32BE (int n)) (set (concat (map slots (getEvents evs))))"
  proof (rule inj_onI)
    fix m n assume a: "m \<in> set (concat (map slots (getEvents evs)))" "uint32BE (int m) = uint32BE (int n)"
    have "uint32BE (int m) \<in> set (map (\<lambda>p. Inr (drop 8 (fst p))) (concat kps))" unfolding eq using a(1) by simp
    then obtain b where "uint32BE (int m) = Inr b" by auto
    with a(2) uint32BE_inj show "m = n" by (metis of_nat_eq_iff)
  qed
  then have "distinct (map (\<lambda>p. Inr (drop 8 (fst p)) :: err + bytes) (concat kps))"
    unfolding eq by (simp add: distinct_map slots_distinct[OF assms(1,2)])
  then show ?thesis by (auto simp: distinct_map inj_on_def)
qed

definition exQueue :: "revertibleEvent list" where
  "exQueue = unsafeAdd 5 [[1]] ''token'' ''burn'' [3] [[7]] True (unsafeAdd 5 [[1]] ''token'' ''mint'' [] [] False [])"

theorem event_keys_distinct_witness:
  "\<exists>kps. map (keyPair asciiLib (\<lambda>_. replicate 32 0)) (getEvents exQueue) = map Inr kps \<and> distinct (map fst (concat kps)) \<and>
     map (map (drop 8 \<circ> fst)) kps = [[[0, 0, 0, 0]], [[0, 0, 0, 4], [0, 0, 0, 5]]]"
proof -
  let ?h = "\<lambda>_ :: bytes. replicate 32 (0 :: byte)" and ?z = "replicate 8 (0 :: byte)" and ?v = "replicate 32 (0 :: byte)"
  let ?k = "[[(?z @ [0, 0, 0, 0], ?v)], [(?z @ [0, 0, 0, 4], ?v), (?z @ [0, 0, 0, 5], ?v)]]"
  have k: "map (keyPair asciiLib ?h) (getEvents exQueue) = map Inr ?k" by code_simp
  have "distinct (map fst (concat ?k))"
  proof (rule event_keys_distinct[OF _ _ _ _ k])
    show "queueOk exQueue" by (simp add: exQueue_def queueOk_unsafeAdd)
    show "topicsOk exQueue" by (simp add: topicsOk_def exQueue_def unsafeAdd_def EVENT_MAX_EVENT_SIZE_BYTES_def
        EVENT_MAX_TOPICS_PER_EVENT_def EVENT_TOPIC_INDEX_LENGTH_BITS_def)
    show "length exQueue \<le> 2 ^ 30" by (simp add: exQueue_def unsafeAdd_def)
  qed simp
  moreover have "map (map (drop 8 \<circ> fst)) ?k = [[[0, 0, 0, 0]], [[0, 0, 0, 4], [0, 0, 0, 5]]]" by simp
  ultimately show ?thesis using k by (intro exI[of _ ?k]) (simp only: simp_thms)
qed

end
