(* ===== verification/BaseStore.thy ===== *)
theory BaseStore
  imports Context
begin

text \<open>
  The typed substores of the modules (\<open>framework/src/modules/base_store.ts\<close>).

  A module sees its substore as the ordered list of its keys and encoded values; the key
  prefix under which the state store keeps it is computed by \<open>computeStorePrefix\<close> and
  \<open>computeSubstorePrefix\<close>. Reading decodes with the store's schema, writing encodes.
  \<open>sel\<close> and \<open>upd\<close> are the selector and the update of the substore in the context.
\<close>

section \<open>Prefixes\<close>

definition computeStorePrefix :: "(bytes \<Rightarrow> bytes) \<Rightarrow> string \<Rightarrow> bytes" where
  "computeStorePrefix hash name =
     (case take 4 (hash (stringToBytes name)) of [] \<Rightarrow> [] | b # bs \<Rightarrow> (b AND 127) # bs)"

text \<open>\<open>index.toString(2)\<close>, most significant digit first.\<close>

fun toBinary :: "nat \<Rightarrow> bool list" where
  "toBinary n = (if n < 2 then [n = 1] else toBinary (n div 2) @ [n mod 2 = 1])"

declare toBinary.simps [simp del]

text \<open>\<open>parseInt(s, 2)\<close>\<close>

definition parseBinary :: "bool list \<Rightarrow> nat" where
  "parseBinary bs = foldl (\<lambda>acc b. 2 * acc + of_bool b) 0 bs"

definition substring :: "nat \<Rightarrow> 'a list \<Rightarrow> 'a list" where
  "substring i xs = drop i xs"

definition computeSubstorePrefix :: "nat \<Rightarrow> bytes" where
  "computeSubstorePrefix index =
     (let binaryIndex = replicate 16 False @ toBinary index;
          val = parseBinary (rev (substring (length binaryIndex - 16) binaryIndex)) in
      [word_of_nat (val div 256), word_of_nat val])"

section \<open>Operations\<close>

record 'v storeSchema =
  enc :: "'v \<Rightarrow> err + bytes"
  dec :: "bytes \<Rightarrow> err + 'v"

definition storeGet :: "'v storeSchema \<Rightarrow> ('s \<Rightarrow> bytes kv) \<Rightarrow> bytes \<Rightarrow> ('s, 'v) m" where
  "storeGet sch sel key = bind (gets (\<lambda>s. kvget (sel s) key)) (\<lambda>r.
     case r of None \<Rightarrow> throw NotFoundError | Some bs \<Rightarrow> liftE (dec sch bs))"

definition storeHas :: "('s \<Rightarrow> bytes kv) \<Rightarrow> bytes \<Rightarrow> ('s, bool) m" where
  "storeHas sel key = gets (\<lambda>s. kvhas (sel s) key)"

definition storeSet :: "'v storeSchema \<Rightarrow> ((bytes kv \<Rightarrow> bytes kv) \<Rightarrow> 's \<Rightarrow> 's) \<Rightarrow> bytes \<Rightarrow> 'v \<Rightarrow> ('s, unit) m" where
  "storeSet sch upd key v = bind (liftE (enc sch v)) (\<lambda>bs. modify (upd (kvset key bs)))"

definition storeDel :: "((bytes kv \<Rightarrow> bytes kv) \<Rightarrow> 's \<Rightarrow> 's) \<Rightarrow> bytes \<Rightarrow> ('s, unit) m" where
  "storeDel upd key = modify (upd (kvdel key))"

primrec decodeAll :: "'v storeSchema \<Rightarrow> bytes kv \<Rightarrow> err + (bytes \<times> 'v) list" where
  "decodeAll sch [] = Inr []"
| "decodeAll sch (e # es) = rbind (dec sch (snd e)) (\<lambda>v. rbind (decodeAll sch es) (\<lambda>r. Inr ((fst e, v) # r)))"

definition storeIterate :: "'v storeSchema \<Rightarrow> ('s \<Rightarrow> bytes kv) \<Rightarrow> bytes \<Rightarrow> bytes \<Rightarrow> ('s, (bytes \<times> 'v) list) m" where
  "storeIterate sch sel gte lte = bind (gets (\<lambda>s. kvrange gte lte (sel s))) (\<lambda>r. liftE (decodeAll sch r))"

section \<open>Weakest preconditions\<close>

lemma wp_storeGet [wp]:
  "wp (storeGet sch sel key) Q E s =
     (case kvget (sel s) key of None \<Rightarrow> E NotFoundError s
      | Some bs \<Rightarrow> (case dec sch bs of Inl e \<Rightarrow> E e s | Inr v \<Rightarrow> Q v s))"
  by (simp add: storeGet_def wp split: option.split sum.split)

lemma wp_storeHas [wp]: "wp (storeHas sel key) Q E s = Q (kvhas (sel s) key) s"
  by (simp add: storeHas_def wp)

lemma wp_storeSet [wp]:
  "wp (storeSet sch upd key v) Q E s =
     (case enc sch v of Inl e \<Rightarrow> E e s | Inr bs \<Rightarrow> Q () (upd (kvset key bs) s))"
  by (simp add: storeSet_def wp split: option.split sum.split)

lemma wp_storeDel [wp]: "wp (storeDel upd key) Q E s = Q () (upd (kvdel key) s)"
  by (simp add: storeDel_def wp)

lemma wp_storeIterate [wp]:
  "wp (storeIterate sch sel gte lte) Q E s =
     (case decodeAll sch (kvrange gte lte (sel s)) of Inl e \<Rightarrow> E e s | Inr r \<Rightarrow> Q r s)"
  by (simp add: storeIterate_def wp split: option.split sum.split)

lemma wp_eventAdd [wp]:
  "wp (eventAdd lib module name schema vals topics nr) Q E s =
     (case encode lib schema vals of Inl e \<Rightarrow> E e s
      | Inr data \<Rightarrow> (case queueAdd (cHeight s) (cTopics s) module name data topics nr (cEvents s) of
          Inl e \<Rightarrow> E e s | Inr evs \<Rightarrow> Q () (s\<lparr>cEvents := evs\<rparr>)))"
  by (simp add: eventAdd_def wp split: option.split sum.split)

lemmas wp_store_fun [wp] = wp_storeGet[THEN ext] wp_storeHas[THEN ext] wp_storeSet[THEN ext] wp_storeDel[THEN ext]
  wp_storeIterate[THEN ext] wp_eventAdd[THEN ext]

section \<open>Distinct substores have distinct prefixes\<close>

lemma parseBinary_append [simp]: "parseBinary (xs @ [b]) = 2 * parseBinary xs + of_bool b"
  by (simp add: parseBinary_def)

lemma parseBinary_Nil [simp]: "parseBinary [] = 0"
  by (simp add: parseBinary_def)

lemma parse_toBinary [simp]: "parseBinary (toBinary n) = n"
proof (induction n rule: less_induct)
  case (less n)
  show ?case
  proof (cases "n < 2")
    case True
    then show ?thesis by (auto simp: toBinary.simps[of n] parseBinary_def)
  next
    case False
    then have "parseBinary (toBinary (n div 2)) = n div 2" using less by simp
    moreover have "2 * (n div 2) + of_bool (n mod 2 = 1) = n" using mult_div_mod_eq[of 2 n] by (cases "n mod 2 = 1") auto
    ultimately show ?thesis using False by (simp add: toBinary.simps[of n])
  qed
qed

lemma parseBinary_inj: "length xs = length ys \<Longrightarrow> parseBinary xs = parseBinary ys \<Longrightarrow> xs = ys"
proof (induction xs arbitrary: ys rule: rev_induct)
  case (snoc b xs)
  then obtain ys' c where y: "ys = ys' @ [c]" by (cases ys rule: rev_cases) auto
  have e: "2 * parseBinary xs + of_bool b = 2 * parseBinary ys' + of_bool c" using snoc.prems y by simp
  have "b = c"
  proof (cases b; cases c)
    assume "b" "\<not> c" with e have "2 * parseBinary xs + 1 = 2 * parseBinary ys'" by simp
    then show ?thesis by presburger
  next
    assume "\<not> b" "c" with e have "2 * parseBinary xs = 2 * parseBinary ys' + 1" by simp
    then show ?thesis by presburger
  qed auto
  with e snoc.IH[of ys'] snoc.prems y show ?case by simp
qed simp

lemma parseBinary_zeros: "parseBinary (replicate k False @ xs) = parseBinary xs"
proof -
  have "foldl (\<lambda>acc b. 2 * acc + of_bool b) (0::nat) (replicate k False) = 0" by (induction k) auto
  then show ?thesis by (simp add: parseBinary_def)
qed

lemma parseBinary_less: "parseBinary xs < 2 ^ length xs"
  by (induction xs rule: rev_induct) (auto split: if_splits)

lemma toBinary_length: "n < 2 ^ k \<Longrightarrow> 0 < k \<Longrightarrow> length (toBinary n) \<le> k"
proof (induction k arbitrary: n)
  case (Suc k)
  show ?case
  proof (cases "n < 2")
    case False
    then have "0 < k" "n div 2 < 2 ^ k" using Suc.prems by (cases k; auto)+
    with Suc.IH[of "n div 2"] False show ?thesis by (simp add: toBinary.simps[of n])
  qed (simp add: toBinary.simps[of n])
qed simp

lemma low16:
  assumes "n < 2 ^ 16"
  shows "parseBinary (drop (length (toBinary n)) (replicate 16 False @ toBinary n)) = n"
proof -
  have l: "length (toBinary n) \<le> 16" using toBinary_length[OF assms] by simp
  then have "drop (length (toBinary n)) (replicate 16 False @ toBinary n) =
      replicate (16 - length (toBinary n)) False @ toBinary n" by simp
  then show ?thesis by (simp add: parseBinary_zeros)
qed

text \<open>
  substores do not overlap. The two-byte prefixes of the substores with index below
  \<open>2 ^ 16\<close> (the reversed 16-bit index) are pairwise different, so that keys of different
  substores of a module never coincide.
\<close>

theorem substore_prefix_inj:
  assumes "m < 2 ^ 16" "n < 2 ^ 16" "computeSubstorePrefix m @ k = computeSubstorePrefix n @ l"
  shows "m = n \<and> k = l"
proof -
  define f where "f n = rev (drop (length (toBinary n)) (replicate 16 False @ toBinary n))" for n
  have p: "computeSubstorePrefix n = [word_of_nat (parseBinary (f n) div 256), word_of_nat (parseBinary (f n))]" for n
    by (simp add: computeSubstorePrefix_def substring_def Let_def f_def)
  have len: "length (f n) = 16" for n by (simp add: f_def)
  have lt: "parseBinary (f n) < 65536" for n using parseBinary_less[of "f n"] len[of n] by simp
  have u: "x mod 256 = y mod 256" if "(word_of_nat x :: byte) = word_of_nat y" for x y :: nat
    using arg_cong[OF that, of unat] by (simp add: unat_of_nat)
  have e: "(word_of_nat (parseBinary (f m) div 256) :: byte) = word_of_nat (parseBinary (f n) div 256)"
    "(word_of_nat (parseBinary (f m)) :: byte) = word_of_nat (parseBinary (f n))" "k = l"
    using assms(3) by (simp_all add: p)
  have "parseBinary (f m) div 256 = parseBinary (f n) div 256" using u[OF e(1)] lt[of m] lt[of n] by simp
  then have "parseBinary (f m) = parseBinary (f n)" using u[OF e(2)] by (metis div_mult_mod_eq)
  then have "f m = f n" using parseBinary_inj len by simp
  then show ?thesis using low16[OF assms(1)] low16[OF assms(2)] e(3) by (metis f_def rev_rev_ident)
qed

theorem substore_prefix_inj_witness:
  "computeSubstorePrefix 1 = [128, 0] \<and> computeSubstorePrefix 2 = [64, 0] \<and>
   \<not> (\<exists>k l. computeSubstorePrefix 1 @ k = computeSubstorePrefix 2 @ l)"
proof -
  have "toBinary 1 = [True]" "toBinary 2 = [True, False]" by (simp_all add: toBinary.simps)
  moreover have "replicate 16 False = [False, False, False, False, False, False, False, False, False, False, False, False, False, False, False, False]"
    by (simp add: numeral_eq_Suc)
  ultimately have "computeSubstorePrefix 1 = [128, 0]" "computeSubstorePrefix 2 = [64, 0]"
    by (simp_all add: computeSubstorePrefix_def substring_def Let_def parseBinary_def)
  then show ?thesis using substore_prefix_inj[of 1 2] by auto
qed

end
