(* ===== verification/Token.thy ===== *)
theory Token
  imports BaseStore
begin

text \<open>
  The token module (\<open>framework/src/modules/token\<close>): stores, events, internal method, public
  method and the fee method it calls (\<open>modules/fee/method.ts\<close>).

  The context \<open>tokenCtx\<close> extends the shared context by the four substores of the module.
  The methods of the interoperability module are injected by \<open>addDependencies\<close>; they are
  the record \<open>interop\<close>, an argument of the operations that call it.
\<close>

section \<open>Fee method\<close>

definition CONTEXT_STORE_KEY_AVAILABLE_FEE :: string where
  "CONTEXT_STORE_KEY_AVAILABLE_FEE = ''CONTEXT_STORE_KEY_AVAILABLE_FEE''"

definition CONTEXT_STORE_KEY_AVAILABLE_CCM_FEE :: string where
  "CONTEXT_STORE_KEY_AVAILABLE_CCM_FEE = ''CONTEXT_STORE_KEY_AVAILABLE_CCM_FEE''"

definition CONTEXT_STORE_KEY_CCM_PROCESSING :: string where
  "CONTEXT_STORE_KEY_CCM_PROCESSING = ''CONTEXT_STORE_KEY_CCM_PROCESSING''"

definition insufficientFeeEvent :: "jsLib \<Rightarrow> ('a ctx_scheme, unit) m" where
  "insufficientFeeEvent lib = eventAdd lib ''fee'' ''insufficientFee'' [] [] [] True"

definition deductFeeFromKey :: "jsLib \<Rightarrow> string \<Rightarrow> int \<Rightarrow> string \<Rightarrow> ('a ctx_scheme, unit) m" where
  "deductFeeFromKey lib key amount outOfFeeMsg =
     bind (gets (\<lambda>s. getContextStoreBigInt (cStore s) key)) (\<lambda>r.
     bind (liftE r) (\<lambda>availableFee.
     if availableFee < amount then
       andThen (insufficientFeeEvent lib)
       (andThen (modify (\<lambda>s. s\<lparr>cStore := (cStore s)(key := None)\<rparr>))
        (throw (Error outOfFeeMsg)))
     else modify (\<lambda>s. s\<lparr>cStore := (cStore s)(key \<mapsto> CBigInt (availableFee - amount))\<rparr>)))"

definition payFee :: "jsLib \<Rightarrow> int \<Rightarrow> ('a ctx_scheme, unit) m" where
  "payFee lib amount =
     bind (gets (\<lambda>s. getContextStoreBool (cStore s) CONTEXT_STORE_KEY_CCM_PROCESSING)) (\<lambda>r.
     bind (liftE r) (\<lambda>isCCMProcessing.
     if isCCMProcessing
     then deductFeeFromKey lib CONTEXT_STORE_KEY_AVAILABLE_CCM_FEE amount ''Cross-chain message ran out of fee.''
     else deductFeeFromKey lib CONTEXT_STORE_KEY_AVAILABLE_FEE amount ''Transaction ran out of fee.''))"

section \<open>Constants, configuration, context\<close>

definition ADDRESS_LENGTH :: nat where "ADDRESS_LENGTH = 20"
definition MAX_DATA_LENGTH :: nat where "MAX_DATA_LENGTH = 64"
definition CHAIN_ID_LENGTH :: nat where "CHAIN_ID_LENGTH = 4"
definition LOCAL_ID_LENGTH :: nat where "LOCAL_ID_LENGTH = 4"
definition TOKEN_ID_LENGTH :: nat where "TOKEN_ID_LENGTH = CHAIN_ID_LENGTH + LOCAL_ID_LENGTH"
definition CROSS_CHAIN_COMMAND_NAME_TRANSFER :: string where
  "CROSS_CHAIN_COMMAND_NAME_TRANSFER = ''transferCrossChain''"

datatype tokenEventResult =
    SUCCESSFUL | FAIL_INSUFFICIENT_BALANCE | DATA_TOO_LONG | INVALID_TOKEN_ID | TOKEN_NOT_SUPPORTED
  | INSUFFICIENT_LOCKED_AMOUNT | RECOVER_FAIL_INVALID_INPUTS | RECOVER_FAIL_INSUFFICIENT_ESCROW
  | MINT_FAIL_NON_NATIVE_TOKEN | MINT_FAIL_TOTAL_SUPPLY_TOO_BIG | MINT_FAIL_TOKEN_NOT_INITIALIZED
  | TOKEN_ID_NOT_AVAILABLE | TOKEN_ID_NOT_NATIVE | INSUFFICIENT_ESCROW_BALANCE | INVALID_RECEIVING_CHAIN

primrec resultCode :: "tokenEventResult \<Rightarrow> int" where
  "resultCode SUCCESSFUL = 0"
| "resultCode FAIL_INSUFFICIENT_BALANCE = 1"
| "resultCode DATA_TOO_LONG = 2"
| "resultCode INVALID_TOKEN_ID = 3"
| "resultCode TOKEN_NOT_SUPPORTED = 4"
| "resultCode INSUFFICIENT_LOCKED_AMOUNT = 5"
| "resultCode RECOVER_FAIL_INVALID_INPUTS = 6"
| "resultCode RECOVER_FAIL_INSUFFICIENT_ESCROW = 7"
| "resultCode MINT_FAIL_NON_NATIVE_TOKEN = 8"
| "resultCode MINT_FAIL_TOTAL_SUPPLY_TOO_BIG = 9"
| "resultCode MINT_FAIL_TOKEN_NOT_INITIALIZED = 10"
| "resultCode TOKEN_ID_NOT_AVAILABLE = 11"
| "resultCode TOKEN_ID_NOT_NATIVE = 12"
| "resultCode INSUFFICIENT_ESCROW_BALANCE = 13"
| "resultCode INVALID_RECEIVING_CHAIN = 14"

record tokenConfig =
  jslib :: jsLib
  ownChainID :: bytes
  userAccountInitializationFee :: int
  escrowAccountInitializationFee :: int

record lockedBalance =
  lbModule :: string
  lbAmount :: int

record userAccount =
  availableBalance :: int
  lockedBalances :: "lockedBalance list"

record tokenCtx = ctx +
  userStore :: "bytes kv"
  escrowStore :: "bytes kv"
  supplyStore :: "bytes kv"
  supportedStore :: "bytes kv"

definition splitTokenID :: "bytes \<Rightarrow> err + (bytes \<times> bytes)" where
  "splitTokenID tokenID =
     (if length tokenID \<noteq> TOKEN_ID_LENGTH then Inl (Error ''Token ID must have length 8'')
      else Inr (take CHAIN_ID_LENGTH tokenID, drop CHAIN_ID_LENGTH tokenID))"

text \<open>\<open>String.prototype.length\<close>: UTF-16 code units of a string given as UTF-8 bytes.\<close>

definition jsLength :: "string \<Rightarrow> nat" where
  "jsLength s = sum_list (map (\<lambda>c. let b = of_char c :: nat in if 128 \<le> b \<and> b < 192 then 0 else if 240 \<le> b then 2 else 1) s)"

section \<open>Events\<close>

definition isErrorResult :: "tokenEventResult \<Rightarrow> bool" where
  "isErrorResult r = (r \<noteq> SUCCESSFUL)"

text \<open>\<open>log\<close> adds a revertible event with result 0, \<open>error\<close> a non-revertible one.\<close>

definition tokenEvent :: "jsLib \<Rightarrow> string \<Rightarrow> schemaProp list \<Rightarrow> val option list \<Rightarrow> bytes list \<Rightarrow> tokenEventResult \<Rightarrow>
    ('a ctx_scheme, unit) m" where
  "tokenEvent lib name schema vals topics r =
     eventAdd lib ''token'' name schema (vals @ [Some (VInt (resultCode r))]) topics (isErrorResult r)"

definition transferEvent :: "jsLib \<Rightarrow> bytes \<Rightarrow> bytes \<Rightarrow> bytes \<Rightarrow> int \<Rightarrow> tokenEventResult \<Rightarrow> ('a ctx_scheme, unit) m" where
  "transferEvent lib sender recipient tokenID amount r =
     tokenEvent lib ''transfer'' [PScalar 1 BytesT, PScalar 2 BytesT, PScalar 3 BytesT, PScalar 4 UInt64T, PScalar 5 UInt32T]
       [Some (VBytes sender), Some (VBytes recipient), Some (VBytes tokenID), Some (VInt amount)] [sender, recipient] r"

definition ccTransferSchema :: "schemaProp list" where
  "ccTransferSchema = [PScalar 1 BytesT, PScalar 2 BytesT, PScalar 3 BytesT, PScalar 4 UInt64T, PScalar 5 BytesT, PScalar 6 UInt32T]"

definition transferCrossChainEvent :: "jsLib \<Rightarrow> bytes \<Rightarrow> bytes \<Rightarrow> bytes \<Rightarrow> int \<Rightarrow> bytes \<Rightarrow> tokenEventResult \<Rightarrow>
    ('a ctx_scheme, unit) m" where
  "transferCrossChainEvent lib sender recipient tokenID amount receivingChainID r =
     tokenEvent lib ''transferCrossChain'' ccTransferSchema
       [Some (VBytes sender), Some (VBytes recipient), Some (VBytes tokenID), Some (VInt amount), Some (VBytes receivingChainID)]
       [sender, recipient, receivingChainID] r"

definition ccmTransferEvent :: "jsLib \<Rightarrow> bytes \<Rightarrow> bytes \<Rightarrow> bytes \<Rightarrow> int \<Rightarrow> bytes \<Rightarrow> tokenEventResult \<Rightarrow>
    ('a ctx_scheme, unit) m" where
  "ccmTransferEvent lib sender recipient tokenID amount receivingChainID r =
     tokenEvent lib ''ccmTransfer'' ccTransferSchema
       [Some (VBytes sender), Some (VBytes recipient), Some (VBytes tokenID), Some (VInt amount), Some (VBytes receivingChainID)]
       [sender, recipient] r"

definition amountSchema :: "schemaProp list" where
  "amountSchema = [PScalar 1 BytesT, PScalar 2 BytesT, PScalar 3 UInt64T, PScalar 4 UInt32T]"

definition mintEvent :: "jsLib \<Rightarrow> bytes \<Rightarrow> bytes \<Rightarrow> int \<Rightarrow> tokenEventResult \<Rightarrow> ('a ctx_scheme, unit) m" where
  "mintEvent lib address tokenID amount r =
     tokenEvent lib ''mint'' amountSchema [Some (VBytes address), Some (VBytes tokenID), Some (VInt amount)] [address] r"

definition burnEvent :: "jsLib \<Rightarrow> bytes \<Rightarrow> bytes \<Rightarrow> int \<Rightarrow> tokenEventResult \<Rightarrow> ('a ctx_scheme, unit) m" where
  "burnEvent lib address tokenID amount r =
     tokenEvent lib ''burn'' amountSchema [Some (VBytes address), Some (VBytes tokenID), Some (VInt amount)] [address] r"

definition initializeUserAccountEvent :: "jsLib \<Rightarrow> bytes \<Rightarrow> bytes \<Rightarrow> int \<Rightarrow> tokenEventResult \<Rightarrow> ('a ctx_scheme, unit) m" where
  "initializeUserAccountEvent lib address tokenID fee r =
     tokenEvent lib ''initializeUserAccount'' amountSchema
       [Some (VBytes address), Some (VBytes tokenID), Some (VInt fee)] [address] r"

definition initializeEscrowAccountEvent :: "jsLib \<Rightarrow> bytes \<Rightarrow> bytes \<Rightarrow> int \<Rightarrow> tokenEventResult \<Rightarrow> ('a ctx_scheme, unit) m" where
  "initializeEscrowAccountEvent lib chainID tokenID fee r =
     tokenEvent lib ''initializeEscrowAccount'' amountSchema
       [Some (VBytes chainID), Some (VBytes tokenID), Some (VInt fee)] [chainID] r"

definition recoverEvent :: "jsLib \<Rightarrow> bytes \<Rightarrow> bytes \<Rightarrow> bytes \<Rightarrow> int \<Rightarrow> tokenEventResult \<Rightarrow> ('a ctx_scheme, unit) m" where
  "recoverEvent lib address terminatedChainID tokenID amount r =
     tokenEvent lib ''recover'' amountSchema
       [Some (VBytes terminatedChainID), Some (VBytes tokenID), Some (VInt amount)] [address] r"

definition initializeTokenEvent :: "jsLib \<Rightarrow> bytes \<Rightarrow> tokenEventResult \<Rightarrow> ('a ctx_scheme, unit) m" where
  "initializeTokenEvent lib tokenID r =
     tokenEvent lib ''initializeToken'' [PScalar 1 BytesT, PScalar 2 UInt32T] [Some (VBytes tokenID)] [tokenID] r"

definition lockSchema :: "schemaProp list" where
  "lockSchema = [PScalar 1 BytesT, PScalar 2 StringT, PScalar 3 BytesT, PScalar 4 UInt64T, PScalar 5 UInt32T]"

definition lockEvent :: "jsLib \<Rightarrow> bytes \<Rightarrow> string \<Rightarrow> bytes \<Rightarrow> int \<Rightarrow> tokenEventResult \<Rightarrow> ('a ctx_scheme, unit) m" where
  "lockEvent lib address module tokenID amount r =
     tokenEvent lib ''lock'' lockSchema
       [Some (VBytes address), Some (VStr module), Some (VBytes tokenID), Some (VInt amount)] [address] r"

definition unlockEvent :: "jsLib \<Rightarrow> bytes \<Rightarrow> string \<Rightarrow> bytes \<Rightarrow> int \<Rightarrow> tokenEventResult \<Rightarrow> ('a ctx_scheme, unit) m" where
  "unlockEvent lib address module tokenID amount r =
     tokenEvent lib ''unlock'' lockSchema
       [Some (VBytes address), Some (VStr module), Some (VBytes tokenID), Some (VInt amount)] [address] r"

definition beforeCCCExecutionEvent :: "jsLib \<Rightarrow> bytes \<Rightarrow> bytes \<Rightarrow> bytes \<Rightarrow> tokenEventResult \<Rightarrow> ('a ctx_scheme, unit) m" where
  "beforeCCCExecutionEvent lib ccmID messageFeeTokenID relayerAddress r =
     tokenEvent lib ''beforeCCCExecution'' [PScalar 1 BytesT, PScalar 2 BytesT, PScalar 3 BytesT, PScalar 4 UInt32T]
       [Some (VBytes ccmID), Some (VBytes messageFeeTokenID), Some (VBytes relayerAddress)]
       [relayerAddress, messageFeeTokenID] r"

definition beforeCCMForwardingEvent :: "jsLib \<Rightarrow> bytes \<Rightarrow> bytes \<Rightarrow> bytes \<Rightarrow> bytes \<Rightarrow> tokenEventResult \<Rightarrow> ('a ctx_scheme, unit) m" where
  "beforeCCMForwardingEvent lib sendingChainID receivingChainID ccmID messageFeeTokenID r =
     tokenEvent lib ''beforeCCMForwarding'' [PScalar 1 BytesT, PScalar 2 BytesT, PScalar 3 UInt32T]
       [Some (VBytes ccmID), Some (VBytes messageFeeTokenID)] [sendingChainID, receivingChainID] r"

text \<open>The events on supported tokens have no result and are only logged.\<close>

definition plainEvent :: "jsLib \<Rightarrow> string \<Rightarrow> ('a ctx_scheme, unit) m" where
  "plainEvent lib name = eventAdd lib ''token'' name [] [] [] False"

definition idEvent :: "jsLib \<Rightarrow> string \<Rightarrow> bytes \<Rightarrow> ('a ctx_scheme, unit) m" where
  "idEvent lib name i = eventAdd lib ''token'' name [PScalar 1 BytesT] [Some (VBytes i)] [i] False"

section \<open>Stores\<close>

fun lockedVal :: "lockedBalance \<Rightarrow> val" where
  "lockedVal lb = VObj [Some (VStr (lbModule lb)), Some (VInt (lbAmount lb))]"

fun valLocked :: "val \<Rightarrow> lockedBalance" where
  "valLocked (VObj [Some (VStr m), Some (VInt n)]) = \<lparr>lbModule = m, lbAmount = n\<rparr>"
| "valLocked _ = \<lparr>lbModule = [], lbAmount = 0\<rparr>"

definition userStoreSchema :: "schemaProp list" where
  "userStoreSchema = [PScalar 1 UInt64T, PArrayObj 2 [PScalar 1 StringT, PScalar 2 UInt64T]]"

fun valUser :: "val option list \<Rightarrow> err + userAccount" where
  "valUser [Some (VInt n), Some (VArr ls)] = Inr \<lparr>availableBalance = n, lockedBalances = map valLocked ls\<rparr>"
| "valUser _ = Inl (Error ''TypeError'')"

definition userVals :: "userAccount \<Rightarrow> val option list" where
  "userVals a = [Some (VInt (availableBalance a)), Some (VArr (map lockedVal (lockedBalances a)))]"

definition userSchema :: "jsLib \<Rightarrow> userAccount storeSchema" where
  "userSchema lib = \<lparr>enc = (\<lambda>a. encode lib userStoreSchema (userVals a)),
     dec = (\<lambda>bs. rbind (decode lib userStoreSchema bs) valUser)\<rparr>"

fun valAmount :: "val option list \<Rightarrow> err + int" where
  "valAmount [Some (VInt n)] = Inr n"
| "valAmount _ = Inl (Error ''TypeError'')"

text \<open>The schema of the escrow and of the supply store: one uint64.\<close>

definition amountStoreSchema :: "jsLib \<Rightarrow> int storeSchema" where
  "amountStoreSchema lib = \<lparr>enc = (\<lambda>n. encode lib [PScalar 1 UInt64T] [Some (VInt n)]),
     dec = (\<lambda>bs. rbind (decode lib [PScalar 1 UInt64T] bs) valAmount)\<rparr>"

fun valTokens :: "val option list \<Rightarrow> err + bytes list" where
  "valTokens [Some (VArr ls)] = Inr (map (\<lambda>v. case v of VBytes b \<Rightarrow> b | _ \<Rightarrow> []) ls)"
| "valTokens _ = Inl (Error ''TypeError'')"

definition supportedSchema :: "jsLib \<Rightarrow> bytes list storeSchema" where
  "supportedSchema lib = \<lparr>enc = (\<lambda>ts. encode lib [PArray 1 BytesT] [Some (VArr (map VBytes ts))]),
     dec = (\<lambda>bs. rbind (decode lib [PArray 1 BytesT] bs) valTokens)\<rparr>"

subsection \<open>User store\<close>

definition userKey :: "bytes \<Rightarrow> bytes \<Rightarrow> bytes" where
  "userKey address tokenID = address @ tokenID"

definition userGet :: "jsLib \<Rightarrow> bytes \<Rightarrow> ('a tokenCtx_scheme, userAccount) m" where
  "userGet lib = storeGet (userSchema lib) userStore"

definition userSet :: "jsLib \<Rightarrow> bytes \<Rightarrow> userAccount \<Rightarrow> ('a tokenCtx_scheme, unit) m" where
  "userSet lib = storeSet (userSchema lib) userStore_update"

definition userHas :: "bytes \<Rightarrow> ('a tokenCtx_scheme, bool) m" where
  "userHas = storeHas userStore"

definition emptyAccount :: userAccount where
  "emptyAccount = \<lparr>availableBalance = 0, lockedBalances = []\<rparr>"

definition userCreateDefaultAccount :: "jsLib \<Rightarrow> bytes \<Rightarrow> bytes \<Rightarrow> ('a tokenCtx_scheme, unit) m" where
  "userCreateDefaultAccount lib address tokenID = userSet lib (userKey address tokenID) emptyAccount"

definition addAvailableBalanceWithCreate :: "jsLib \<Rightarrow> bytes \<Rightarrow> bytes \<Rightarrow> int \<Rightarrow> ('a tokenCtx_scheme, unit) m" where
  "addAvailableBalanceWithCreate lib address tokenID amount =
     bind (tryCatch (userGet lib (userKey address tokenID))
             (\<lambda>e. if e \<noteq> NotFoundError then throw e else ret emptyAccount)) (\<lambda>recipient.
     userSet lib (userKey address tokenID) (recipient\<lparr>availableBalance := availableBalance recipient + amount\<rparr>))"

definition userSave :: "jsLib \<Rightarrow> bytes \<Rightarrow> bytes \<Rightarrow> userAccount \<Rightarrow> ('a tokenCtx_scheme, unit) m" where
  "userSave lib address tokenID data =
     userSet lib (userKey address tokenID)
       (data\<lparr>lockedBalances := sortBy (\<lambda>a b. localeCompare lib (lbModule a) (lbModule b))
                                 (filter (\<lambda>l. lbAmount l \<noteq> 0) (lockedBalances data))\<rparr>)"

definition addAvailableBalance :: "jsLib \<Rightarrow> bytes \<Rightarrow> bytes \<Rightarrow> int \<Rightarrow> ('a tokenCtx_scheme, unit) m" where
  "addAvailableBalance lib address tokenID amount =
     bind (userGet lib (userKey address tokenID)) (\<lambda>recipient.
     userSet lib (userKey address tokenID) (recipient\<lparr>availableBalance := availableBalance recipient + amount\<rparr>))"

subsection \<open>Escrow store\<close>

definition escrowKey :: "bytes \<Rightarrow> bytes \<Rightarrow> bytes" where
  "escrowKey escrowChainID tokenID = escrowChainID @ tokenID"

definition escrowGet :: "jsLib \<Rightarrow> bytes \<Rightarrow> ('a tokenCtx_scheme, int) m" where
  "escrowGet lib = storeGet (amountStoreSchema lib) escrowStore"

definition escrowSet :: "jsLib \<Rightarrow> bytes \<Rightarrow> int \<Rightarrow> ('a tokenCtx_scheme, unit) m" where
  "escrowSet lib = storeSet (amountStoreSchema lib) escrowStore_update"

definition escrowHas :: "bytes \<Rightarrow> ('a tokenCtx_scheme, bool) m" where
  "escrowHas = storeHas escrowStore"

definition escrowGetOrDefault :: "jsLib \<Rightarrow> bytes \<Rightarrow> ('a tokenCtx_scheme, int) m" where
  "escrowGetOrDefault lib key =
     tryCatch (escrowGet lib key) (\<lambda>e. if e \<noteq> NotFoundError then throw e else ret 0)"

definition escrowCreateDefaultAccount :: "jsLib \<Rightarrow> bytes \<Rightarrow> bytes \<Rightarrow> ('a tokenCtx_scheme, unit) m" where
  "escrowCreateDefaultAccount lib chainID tokenID = escrowSet lib (escrowKey chainID tokenID) 0"

definition addAmount :: "jsLib \<Rightarrow> bytes \<Rightarrow> bytes \<Rightarrow> int \<Rightarrow> ('a tokenCtx_scheme, unit) m" where
  "addAmount lib chainID tokenID amount =
     bind (escrowGetOrDefault lib (escrowKey chainID tokenID)) (\<lambda>escrowData.
     escrowSet lib (escrowKey chainID tokenID) (escrowData + amount))"

subsection \<open>Supply store\<close>

definition supplyGet :: "jsLib \<Rightarrow> bytes \<Rightarrow> ('a tokenCtx_scheme, int) m" where
  "supplyGet lib = storeGet (amountStoreSchema lib) supplyStore"

definition supplySet :: "jsLib \<Rightarrow> bytes \<Rightarrow> int \<Rightarrow> ('a tokenCtx_scheme, unit) m" where
  "supplySet lib = storeSet (amountStoreSchema lib) supplyStore_update"

definition supplyGetAll :: "jsLib \<Rightarrow> ('a tokenCtx_scheme, (bytes \<times> int) list) m" where
  "supplyGetAll lib = storeIterate (amountStoreSchema lib) supplyStore (replicate TOKEN_ID_LENGTH 0) (replicate TOKEN_ID_LENGTH 255)"

section \<open>Internal method\<close>

definition internalInitializeUserAccount :: "tokenConfig \<Rightarrow> bytes \<Rightarrow> bytes \<Rightarrow> ('a tokenCtx_scheme, unit) m" where
  "internalInitializeUserAccount cfg address tokenID =
     andThen (payFee (jslib cfg) (userAccountInitializationFee cfg))
     (andThen (userCreateDefaultAccount (jslib cfg) address tokenID)
      (initializeUserAccountEvent (jslib cfg) address tokenID (userAccountInitializationFee cfg) SUCCESSFUL))"

definition internalInitializeEscrowAccount :: "tokenConfig \<Rightarrow> bytes \<Rightarrow> bytes \<Rightarrow> ('a tokenCtx_scheme, unit) m" where
  "internalInitializeEscrowAccount cfg chainID tokenID =
     andThen (payFee (jslib cfg) (escrowAccountInitializationFee cfg))
     (andThen (escrowCreateDefaultAccount (jslib cfg) chainID tokenID)
      (initializeEscrowAccountEvent (jslib cfg) chainID tokenID (escrowAccountInitializationFee cfg) SUCCESSFUL))"

definition internalTransfer :: "tokenConfig \<Rightarrow> bytes \<Rightarrow> bytes \<Rightarrow> bytes \<Rightarrow> int \<Rightarrow> ('a tokenCtx_scheme, unit) m" where
  "internalTransfer cfg senderAddress recipientAddress tokenID amount =
     bind (userGet (jslib cfg) (userKey senderAddress tokenID)) (\<lambda>senderAccount.
     if availableBalance senderAccount < amount then throw InsufficientBalanceError
     else
     andThen (userSave (jslib cfg) senderAddress tokenID
                (senderAccount\<lparr>availableBalance := availableBalance senderAccount - amount\<rparr>))
     (bind (userGet (jslib cfg) (userKey recipientAddress tokenID)) (\<lambda>recipientAccount.
      andThen (userSave (jslib cfg) recipientAddress tokenID
                 (recipientAccount\<lparr>availableBalance := availableBalance recipientAccount + amount\<rparr>))
      (transferEvent (jslib cfg) senderAddress recipientAddress tokenID amount SUCCESSFUL))))"

section \<open>Interface to the interoperability module\<close>

record ccm =
  ccmNonce :: int
  ccmModule :: string
  ccmCommand :: string
  ccmSendingChainID :: bytes
  ccmReceivingChainID :: bytes
  ccmFee :: int
  ccmStatus :: int
  ccmParams :: bytes

text \<open>
  The two fee token queries read the context; \<open>send\<close> takes the fee address, the module, the
  command, the receiving chain, the fee, the parameters and the optional timestamp.
\<close>

record 's interop =
  getMessageFeeTokenID :: "bytes \<Rightarrow> 's \<Rightarrow> err + bytes"
  getMessageFeeTokenIDFromCCM :: "ccm \<Rightarrow> 's \<Rightarrow> err + bytes"
  send :: "bytes \<Rightarrow> string \<Rightarrow> string \<Rightarrow> bytes \<Rightarrow> int \<Rightarrow> bytes \<Rightarrow> int option \<Rightarrow> ('s, unit) m"
  terminateChain :: "bytes \<Rightarrow> ('s, unit) m"

definition query :: "('s \<Rightarrow> err + 'b) \<Rightarrow> ('s, 'b) m" where
  "query f s = (f s, s)"

lemma wp_query [wp]: "wp (query f) Q E s = (case f s of Inl e \<Rightarrow> E e s | Inr b \<Rightarrow> Q b s)"
  by (simp add: wp_def query_def split: sum.split)

lemmas wp_query_fun [wp] = wp_query[THEN ext]

definition deductEscrowAmountWithTerminate :: "jsLib \<Rightarrow> 'a tokenCtx_scheme interop \<Rightarrow> bytes \<Rightarrow> bytes \<Rightarrow> int \<Rightarrow>
    ('a tokenCtx_scheme, unit) m" where
  "deductEscrowAmountWithTerminate lib io sendingChainID tokenID amount =
     bind (escrowGetOrDefault lib (escrowKey sendingChainID tokenID)) (\<lambda>escrowData.
     if escrowData < amount then terminateChain io sendingChainID
     else escrowSet lib (escrowKey sendingChainID tokenID) (escrowData - amount))"

end
