(* ===== verification/TokenMethod.thy ===== *)
theory TokenMethod
  imports Token
begin

text \<open>
  The public method of the token module (\<open>token/method.ts\<close>) and the store of supported
  tokens (\<open>token/stores/supported_tokens.ts\<close>).
\<close>

section \<open>Balances\<close>

definition isNativeToken :: "tokenConfig \<Rightarrow> bytes \<Rightarrow> err + bool" where
  "isNativeToken cfg tokenID = rbind (splitTokenID tokenID) (\<lambda>(chainID, _). Inr (chainID = ownChainID cfg))"

definition getTokenIDKLY :: "tokenConfig \<Rightarrow> bytes" where
  "getTokenIDKLY cfg = take 1 (ownChainID cfg) @ replicate (3 + LOCAL_ID_LENGTH) 0"

definition userSubstoreExists :: "bytes \<Rightarrow> bytes \<Rightarrow> ('a tokenCtx_scheme, bool) m" where
  "userSubstoreExists address tokenID = userHas (userKey address tokenID)"

definition getAvailableBalance :: "tokenConfig \<Rightarrow> bytes \<Rightarrow> bytes \<Rightarrow> ('a tokenCtx_scheme, int) m" where
  "getAvailableBalance cfg address tokenID =
     tryCatch (bind (userGet (jslib cfg) (userKey address tokenID)) (\<lambda>user. ret (availableBalance user)))
       (\<lambda>e. if e \<noteq> NotFoundError then throw e else ret 0)"

definition lockedAmount :: "userAccount \<Rightarrow> string \<Rightarrow> int" where
  "lockedAmount user module = (case find (\<lambda>lb. lbModule lb = module) (lockedBalances user) of None \<Rightarrow> 0 | Some lb \<Rightarrow> lbAmount lb)"

definition getLockedAmount :: "tokenConfig \<Rightarrow> bytes \<Rightarrow> bytes \<Rightarrow> string \<Rightarrow> ('a tokenCtx_scheme, int) m" where
  "getLockedAmount cfg address tokenID module =
     tryCatch (bind (userGet (jslib cfg) (userKey address tokenID)) (\<lambda>user. ret (lockedAmount user module)))
       (\<lambda>e. if e \<noteq> NotFoundError then throw e else ret 0)"

definition getEscrowedAmount :: "tokenConfig \<Rightarrow> bytes \<Rightarrow> bytes \<Rightarrow> ('a tokenCtx_scheme, int) m" where
  "getEscrowedAmount cfg escrowChainID tokenID =
     bind (liftE (isNativeToken cfg tokenID)) (\<lambda>native.
     if \<not> native then throw (Error ''Only native token can have escrow amount.'')
     else if ownChainID cfg = escrowChainID then throw (Error ''Escrow is not defined for own chain.'')
     else bind (escrowHas (escrowKey escrowChainID tokenID)) (\<lambda>exist.
          if \<not> exist then ret 0 else escrowGet (jslib cfg) (escrowKey escrowChainID tokenID)))"

definition isTokenIDAvailable :: "bytes \<Rightarrow> ('a tokenCtx_scheme, bool) m" where
  "isTokenIDAvailable tokenID = bind (storeHas supplyStore tokenID) (\<lambda>exist. ret (\<not> exist))"

definition initializeToken :: "tokenConfig \<Rightarrow> bytes \<Rightarrow> ('a tokenCtx_scheme, unit) m" where
  "initializeToken cfg tokenID =
     bind (liftE (isNativeToken cfg tokenID)) (\<lambda>native.
     if \<not> native then
       andThen (initializeTokenEvent (jslib cfg) tokenID TOKEN_ID_NOT_NATIVE)
         (throw (Error ''Only native token can be initialized.''))
     else bind (isTokenIDAvailable tokenID) (\<lambda>available.
     if \<not> available then
       andThen (initializeTokenEvent (jslib cfg) tokenID TOKEN_ID_NOT_AVAILABLE)
         (throw (Error ''The specified token ID is not available.''))
     else andThen (supplySet (jslib cfg) tokenID 0)
            (initializeTokenEvent (jslib cfg) tokenID SUCCESSFUL)))"

section \<open>Mint and burn\<close>

definition mint :: "tokenConfig \<Rightarrow> bytes \<Rightarrow> bytes \<Rightarrow> int \<Rightarrow> ('a tokenCtx_scheme, unit) m" where
  "mint cfg address tokenID amount =
     (if amount \<le> 0 then ret () else
     bind (liftE (isNativeToken cfg tokenID)) (\<lambda>native.
     if \<not> native then
       andThen (mintEvent (jslib cfg) address tokenID amount MINT_FAIL_NON_NATIVE_TOKEN)
         (throw (Error ''Only native token can be minted.''))
     else
     bind (tryCatch (supplyGet (jslib cfg) tokenID)
        (\<lambda>e. if e = NotFoundError then
               andThen (mintEvent (jslib cfg) address tokenID amount MINT_FAIL_TOKEN_NOT_INITIALIZED)
                 (throw (Error ''TokenID is not initialized.''))
             else throw e)) (\<lambda>supply.
     if supply + amount \<ge> 2 ^ 64 then
       andThen (mintEvent (jslib cfg) address tokenID amount MINT_FAIL_TOTAL_SUPPLY_TOO_BIG)
         (throw (Error ''exceeds maximum range allowed.''))
     else
     bind (getAvailableBalance cfg address tokenID) (\<lambda>balance.
     if balance + amount \<ge> 2 ^ 64 then
       andThen (mintEvent (jslib cfg) address tokenID amount MINT_FAIL_TOTAL_SUPPLY_TOO_BIG)
         (throw (Error ''exceeds maximum range allowed.''))
     else
     bind (userHas (userKey address tokenID)) (\<lambda>userExist.
     andThen (whenM (\<not> userExist) (internalInitializeUserAccount cfg address tokenID))
     (bind (userGet (jslib cfg) (userKey address tokenID)) (\<lambda>userAccount.
      andThen (userSave (jslib cfg) address tokenID
                 (userAccount\<lparr>availableBalance := availableBalance userAccount + amount\<rparr>))
      (andThen (supplySet (jslib cfg) tokenID (supply + amount))
       (mintEvent (jslib cfg) address tokenID amount SUCCESSFUL)))))))))"

text \<open>
  The common start of \<open>burn\<close>, \<open>transfer\<close> and \<open>lock\<close>: read the account and check its balance;
  \<open>ev\<close> adds the error event.
\<close>

definition getFunded :: "tokenConfig \<Rightarrow> bytes \<Rightarrow> bytes \<Rightarrow> int \<Rightarrow> ('a tokenCtx_scheme, unit) m \<Rightarrow>
    ('a tokenCtx_scheme, userAccount) m" where
  "getFunded cfg address tokenID amount ev =
     tryCatch
       (bind (userGet (jslib cfg) (userKey address tokenID)) (\<lambda>account.
        if availableBalance account < amount then andThen ev (throw (Error ''does not have sufficient balance''))
        else ret account))
       (\<lambda>e. if e = NotFoundError then andThen ev (throw e) else throw e)"

definition burn :: "tokenConfig \<Rightarrow> bytes \<Rightarrow> bytes \<Rightarrow> int \<Rightarrow> ('a tokenCtx_scheme, unit) m" where
  "burn cfg address tokenID amount =
     (if amount \<le> 0 then ret () else
     bind (getFunded cfg address tokenID amount
             (burnEvent (jslib cfg) address tokenID amount FAIL_INSUFFICIENT_BALANCE)) (\<lambda>userAccount.
     andThen (userSet (jslib cfg) (userKey address tokenID)
                (userAccount\<lparr>availableBalance := availableBalance userAccount - amount\<rparr>))
     (bind (liftE (isNativeToken cfg tokenID)) (\<lambda>native.
      andThen (whenM native
                 (bind (supplyGet (jslib cfg) tokenID) (\<lambda>supply.
                  supplySet (jslib cfg) tokenID (supply - amount))))
      (burnEvent (jslib cfg) address tokenID amount SUCCESSFUL)))))"

definition initializeUserAccount :: "tokenConfig \<Rightarrow> bytes \<Rightarrow> bytes \<Rightarrow> ('a tokenCtx_scheme, unit) m" where
  "initializeUserAccount cfg address tokenID =
     bind (userSubstoreExists address tokenID) (\<lambda>exist.
     if exist then ret () else internalInitializeUserAccount cfg address tokenID)"

definition initializeEscrowAccount :: "tokenConfig \<Rightarrow> bytes \<Rightarrow> bytes \<Rightarrow> ('a tokenCtx_scheme, unit) m" where
  "initializeEscrowAccount cfg chainID tokenID =
     bind (liftE (isNativeToken cfg tokenID)) (\<lambda>native.
     if \<not> native then throw (Error ''TokenID is not native token.'')
     else if ownChainID cfg = chainID then throw (Error ''Can not initialize escrow account for own chain'')
     else bind (escrowHas (escrowKey chainID tokenID)) (\<lambda>exist.
          if exist then ret () else internalInitializeEscrowAccount cfg chainID tokenID))"

section \<open>Transfers\<close>

definition transfer :: "tokenConfig \<Rightarrow> bytes \<Rightarrow> bytes \<Rightarrow> bytes \<Rightarrow> int \<Rightarrow> ('a tokenCtx_scheme, unit) m" where
  "transfer cfg senderAddress recipientAddress tokenID amount =
     (if amount \<le> 0 then ret () else
     andThen (getFunded cfg senderAddress tokenID amount
                (transferEvent (jslib cfg) senderAddress recipientAddress tokenID amount FAIL_INSUFFICIENT_BALANCE))
     (bind (userHas (userKey recipientAddress tokenID)) (\<lambda>recipientExist.
      andThen (whenM (\<not> recipientExist) (internalInitializeUserAccount cfg recipientAddress tokenID))
      (internalTransfer cfg senderAddress recipientAddress tokenID amount))))"

definition ccTransferMessageParams :: "schemaProp list" where
  "ccTransferMessageParams = [PScalar 1 BytesT, PScalar 2 UInt64T, PScalar 3 BytesT, PScalar 4 BytesT, PScalar 5 StringT]"

definition encodeCCTransfer :: "jsLib \<Rightarrow> bytes \<Rightarrow> int \<Rightarrow> bytes \<Rightarrow> bytes \<Rightarrow> string \<Rightarrow> err + bytes" where
  "encodeCCTransfer lib tokenID amount senderAddress recipientAddress data =
     encode lib ccTransferMessageParams
       [Some (VBytes tokenID), Some (VInt amount), Some (VBytes senderAddress), Some (VBytes recipientAddress), Some (VStr data)]"

text \<open>The amounts to check: one entry when the message fee is paid in the transferred token.\<close>

definition balanceChecks :: "bytes \<Rightarrow> int \<Rightarrow> bytes \<Rightarrow> int \<Rightarrow> (bytes \<times> int) list" where
  "balanceChecks tokenID amount messageFeeTokenID messageFee =
     (if messageFeeTokenID = tokenID then [(tokenID, amount + messageFee)]
      else [(tokenID, amount), (messageFeeTokenID, messageFee)])"

definition transferCrossChain :: "tokenConfig \<Rightarrow> 'a tokenCtx_scheme interop \<Rightarrow> bytes \<Rightarrow> bytes \<Rightarrow> bytes \<Rightarrow> bytes \<Rightarrow> int \<Rightarrow> int \<Rightarrow> string \<Rightarrow>
    ('a tokenCtx_scheme, unit) m" where
  "transferCrossChain cfg io senderAddress receivingChainID recipientAddress tokenID amount messageFee data =
     (let ev = transferCrossChainEvent (jslib cfg) senderAddress recipientAddress tokenID amount receivingChainID in
     if amount \<le> 0 then ret ()
     else if messageFee < 0 then ret ()
     else if ownChainID cfg = receivingChainID then
       andThen (ev INVALID_RECEIVING_CHAIN) (throw (Error ''Receiving chain cannot be the sending chain.''))
     else if jsLength data > MAX_DATA_LENGTH then
       andThen (ev DATA_TOO_LONG) (throw (Error ''Maximum data allowed is 64''))
     else
     bind (query (getMessageFeeTokenID io receivingChainID)) (\<lambda>messageFeeTokenID.
     andThen (forEach (balanceChecks tokenID amount messageFeeTokenID messageFee) (\<lambda>(checkTokenID, checkAmount).
        bind (getAvailableBalance cfg senderAddress checkTokenID) (\<lambda>balance.
        if balance < checkAmount then
          andThen (ev FAIL_INSUFFICIENT_BALANCE) (throw (Error ''does not have sufficient balance''))
        else ret ())))
     (bind (liftE (splitTokenID tokenID)) (\<lambda>(tokenChainID, _).
      if \<not> (tokenChainID = ownChainID cfg \<or> tokenChainID = receivingChainID) then
        andThen (ev INVALID_TOKEN_ID)
          (throw (Error ''Token must be native to either the sending or the receiving chain.''))
      else
      bind (liftE (isNativeToken cfg tokenID)) (\<lambda>native.
      andThen (whenM native (bind (escrowHas (escrowKey receivingChainID tokenID)) (\<lambda>escrowExist.
                 whenM (\<not> escrowExist) (internalInitializeEscrowAccount cfg receivingChainID tokenID))))
      (andThen (addAvailableBalance (jslib cfg) senderAddress tokenID (- amount))
       (andThen (whenM native (addAmount (jslib cfg) receivingChainID tokenID amount))
        (andThen (ev SUCCESSFUL)
         (bind (liftE (encodeCCTransfer (jslib cfg) tokenID amount senderAddress recipientAddress data)) (\<lambda>params.
          send io senderAddress ''token'' CROSS_CHAIN_COMMAND_NAME_TRANSFER receivingChainID messageFee params None))))))))))"

section \<open>Locks\<close>

definition lockIn :: "string \<Rightarrow> int \<Rightarrow> lockedBalance list \<Rightarrow> lockedBalance list" where
  "lockIn module amount ls =
     (case findIndex (\<lambda>b. lbModule b = module) ls of
        Some existingIndex \<Rightarrow> ls[existingIndex := \<lparr>lbModule = module, lbAmount = lbAmount (ls ! existingIndex) + amount\<rparr>]
      | None \<Rightarrow> ls @ [\<lparr>lbModule = module, lbAmount = amount\<rparr>])"

definition lock :: "tokenConfig \<Rightarrow> bytes \<Rightarrow> string \<Rightarrow> bytes \<Rightarrow> int \<Rightarrow> ('a tokenCtx_scheme, unit) m" where
  "lock cfg address module tokenID amount =
     (if amount \<le> 0 then ret () else
     bind (getFunded cfg address tokenID amount
             (lockEvent (jslib cfg) address module tokenID amount FAIL_INSUFFICIENT_BALANCE)) (\<lambda>account.
     andThen (userSave (jslib cfg) address tokenID
                \<lparr>availableBalance = availableBalance account - amount,
                 lockedBalances = lockIn module amount (lockedBalances account)\<rparr>)
     (lockEvent (jslib cfg) address module tokenID amount SUCCESSFUL)))"

definition unlock :: "tokenConfig \<Rightarrow> bytes \<Rightarrow> string \<Rightarrow> bytes \<Rightarrow> int \<Rightarrow> ('a tokenCtx_scheme, unit) m" where
  "unlock cfg address module tokenID amount =
     (let ev = unlockEvent (jslib cfg) address module tokenID amount in
     if amount \<le> 0 then ret () else
     bind (tryCatch (userGet (jslib cfg) (userKey address tokenID))
             (\<lambda>e. if e = NotFoundError then andThen (ev FAIL_INSUFFICIENT_BALANCE) (throw e) else throw e)) (\<lambda>account.
     case findIndex (\<lambda>b. lbModule b = module) (lockedBalances account) of
       None \<Rightarrow> andThen (ev INSUFFICIENT_LOCKED_AMOUNT) (throw (Error ''does not have locked balance''))
     | Some existingIndex \<Rightarrow>
         let lb = lockedBalances account ! existingIndex in
         if lbAmount lb < amount then
           andThen (ev INSUFFICIENT_LOCKED_AMOUNT) (throw (Error ''does not have sufficient locked balance''))
         else
           andThen (userSave (jslib cfg) address tokenID
                      \<lparr>availableBalance = availableBalance account + amount,
                       lockedBalances = (lockedBalances account)[existingIndex := lb\<lparr>lbAmount := lbAmount lb - amount\<rparr>]\<rparr>)
           (ev SUCCESSFUL)))"

definition payMessageFee :: "tokenConfig \<Rightarrow> 'a tokenCtx_scheme interop \<Rightarrow> bytes \<Rightarrow> bytes \<Rightarrow> int \<Rightarrow> ('a tokenCtx_scheme, unit) m" where
  "payMessageFee cfg io payFromAddress receivingChainID fee =
     (if fee < 0 then throw (Error ''Invalid Message Fee'') else
     bind (query (getMessageFeeTokenID io receivingChainID)) (\<lambda>messageFeeTokenID.
     bind (userGet (jslib cfg) (userKey payFromAddress messageFeeTokenID)) (\<lambda>account.
     if availableBalance account < fee then throw (Error ''does not have sufficient balance'')
     else
     andThen (userSave (jslib cfg) payFromAddress messageFeeTokenID
                (account\<lparr>availableBalance := availableBalance account - fee\<rparr>))
     (bind (liftE (isNativeToken cfg messageFeeTokenID)) (\<lambda>native.
      whenM native (addAmount (jslib cfg) receivingChainID messageFeeTokenID fee))))))"

section \<open>Store of supported tokens\<close>

definition ALL_SUPPORTED_TOKENS_KEY :: bytes where
  "ALL_SUPPORTED_TOKENS_KEY = []"

definition supportedGet :: "jsLib \<Rightarrow> bytes \<Rightarrow> ('a tokenCtx_scheme, bytes list) m" where
  "supportedGet lib = storeGet (supportedSchema lib) supportedStore"

definition supportedSet :: "jsLib \<Rightarrow> bytes \<Rightarrow> bytes list \<Rightarrow> ('a tokenCtx_scheme, unit) m" where
  "supportedSet lib = storeSet (supportedSchema lib) supportedStore_update"

definition supportedHas :: "bytes \<Rightarrow> ('a tokenCtx_scheme, bool) m" where
  "supportedHas = storeHas supportedStore"

definition supportedDel :: "bytes \<Rightarrow> ('a tokenCtx_scheme, unit) m" where
  "supportedDel = storeDel supportedStore_update"

definition getMainchainID :: "bytes \<Rightarrow> bytes" where
  "getMainchainID chainID = take 1 chainID @ replicate (CHAIN_ID_LENGTH - 1) 0"

definition isMainchainOrNative :: "tokenConfig \<Rightarrow> bytes \<Rightarrow> err + bool" where
  "isMainchainOrNative cfg tokenID = rbind (splitTokenID tokenID) (\<lambda>(chainID, _).
     Inr (chainID = ownChainID cfg \<or>
          take 1 chainID = take 1 (ownChainID cfg) \<and> getMainchainID chainID = chainID \<and>
          tokenID = take 1 chainID @ [0, 0, 0] @ replicate LOCAL_ID_LENGTH 0))"

definition allSupported :: "('a tokenCtx_scheme, bool) m" where
  "allSupported = supportedHas ALL_SUPPORTED_TOKENS_KEY"

definition isSupported :: "tokenConfig \<Rightarrow> bytes \<Rightarrow> ('a tokenCtx_scheme, bool) m" where
  "isSupported cfg tokenID =
     bind (liftE (isMainchainOrNative cfg tokenID)) (\<lambda>own.
     if own then ret True else
     bind allSupported (\<lambda>a.
     if a then ret True else
     bind (liftE (splitTokenID tokenID)) (\<lambda>(chainID, _).
     tryCatch (bind (supportedGet (jslib cfg) chainID) (\<lambda>supported.
                 ret (supported = [] \<or> tokenID \<in> set supported)))
       (\<lambda>e. if e \<noteq> NotFoundError then throw e else ret False))))"

definition supportedGetAll :: "jsLib \<Rightarrow> ('a tokenCtx_scheme, (bytes \<times> bytes list) list) m" where
  "supportedGetAll lib =
     storeIterate (supportedSchema lib) supportedStore (replicate TOKEN_ID_LENGTH 0) (replicate TOKEN_ID_LENGTH 255)"

definition supportedRemoveAll :: "jsLib \<Rightarrow> ('a tokenCtx_scheme, unit) m" where
  "supportedRemoveAll lib = bind (supportedGetAll lib) (\<lambda>entries. forEach entries (\<lambda>(key, _). supportedDel key))"

definition supportAll :: "jsLib \<Rightarrow> ('a tokenCtx_scheme, unit) m" where
  "supportAll lib = andThen (supportedRemoveAll lib) (supportedSet lib ALL_SUPPORTED_TOKENS_KEY [])"

definition supportChain :: "tokenConfig \<Rightarrow> bytes \<Rightarrow> ('a tokenCtx_scheme, unit) m" where
  "supportChain cfg chainID =
     bind (liftE (isMainchainOrNative cfg (chainID @ replicate LOCAL_ID_LENGTH 0))) (\<lambda>own.
     if own then ret () else
     bind allSupported (\<lambda>a. if a then ret () else supportedSet (jslib cfg) chainID []))"

definition removeSupportForChain :: "tokenConfig \<Rightarrow> bytes \<Rightarrow> ('a tokenCtx_scheme, unit) m" where
  "removeSupportForChain cfg chainID =
     bind (liftE (isMainchainOrNative cfg (chainID @ replicate LOCAL_ID_LENGTH 0))) (\<lambda>own.
     if own then ret () else
     bind allSupported (\<lambda>a.
     if a then throw (Error ''Invalid operation. All tokens from all chains are supported.'') else
     bind (supportedHas chainID) (\<lambda>exist. if \<not> exist then ret () else supportedDel chainID)))"

definition supportToken :: "tokenConfig \<Rightarrow> bytes \<Rightarrow> ('a tokenCtx_scheme, unit) m" where
  "supportToken cfg tokenID =
     bind (liftE (isMainchainOrNative cfg tokenID)) (\<lambda>own.
     if own then ret () else
     bind allSupported (\<lambda>a.
     if a then ret () else
     bind (liftE (splitTokenID tokenID)) (\<lambda>(chainID, _).
     bind (tryCatch (bind (supportedGet (jslib cfg) chainID) (\<lambda>supported. ret (Some supported)))
             (\<lambda>e. if e \<noteq> NotFoundError then throw e else ret None)) (\<lambda>stored.
     let supported = (case stored of None \<Rightarrow> [] | Some ts \<Rightarrow> ts) in
     if stored = Some [] then ret ()
     else if tokenID \<notin> set supported
     then supportedSet (jslib cfg) chainID (sortBy bufferCompare (supported @ [tokenID]))
     else ret ()))))"

definition removeSupportForToken :: "tokenConfig \<Rightarrow> bytes \<Rightarrow> ('a tokenCtx_scheme, unit) m" where
  "removeSupportForToken cfg tokenID =
     bind (liftE (isMainchainOrNative cfg tokenID)) (\<lambda>own.
     if own then throw (Error ''Cannot remove support for LSK or native token.'') else
     bind allSupported (\<lambda>a.
     if a then throw (Error ''All tokens are supported.'') else
     bind (liftE (splitTokenID tokenID)) (\<lambda>(chainID, _).
     bind (supportedHas chainID) (\<lambda>exist.
     if \<not> exist then ret () else
     bind (supportedGet (jslib cfg) chainID) (\<lambda>supported.
     if supported = [] then throw (Error ''All tokens from the specified chain are supported.'') else
     case findIndex (\<lambda>i. i = tokenID) supported of
       None \<Rightarrow> ret ()
     | Some index \<Rightarrow>
         let rest = take index supported @ drop (Suc index) supported in
         andThen (supportedSet (jslib cfg) chainID rest)
         (whenM (rest = []) (supportedDel chainID)))))))"

section \<open>Method: supported tokens\<close>

definition isTokenSupported :: "tokenConfig \<Rightarrow> bytes \<Rightarrow> ('a tokenCtx_scheme, bool) m" where
  "isTokenSupported cfg tokenID = isSupported cfg tokenID"

definition supportAllTokens :: "tokenConfig \<Rightarrow> ('a tokenCtx_scheme, unit) m" where
  "supportAllTokens cfg = andThen (supportAll (jslib cfg)) (plainEvent (jslib cfg) ''allTokensSupported'')"

definition removeAllTokensSupport :: "tokenConfig \<Rightarrow> ('a tokenCtx_scheme, unit) m" where
  "removeAllTokensSupport cfg = andThen (supportedRemoveAll (jslib cfg)) (plainEvent (jslib cfg) ''allTokensSupportRemoved'')"

definition supportAllTokensFromChainID :: "tokenConfig \<Rightarrow> bytes \<Rightarrow> ('a tokenCtx_scheme, unit) m" where
  "supportAllTokensFromChainID cfg chainID =
     bind (supportedHas ALL_SUPPORTED_TOKENS_KEY) (\<lambda>all.
     if all then ret ()
     else if chainID = ownChainID cfg then ret ()
     else andThen (supportedSet (jslib cfg) chainID [])
            (idEvent (jslib cfg) ''allTokensFromChainSupported'' chainID))"

definition removeAllTokensSupportFromChainID :: "tokenConfig \<Rightarrow> bytes \<Rightarrow> ('a tokenCtx_scheme, unit) m" where
  "removeAllTokensSupportFromChainID cfg chainID =
     bind (supportedHas ALL_SUPPORTED_TOKENS_KEY) (\<lambda>all.
     if all then throw (Error ''Invalid operation. All tokens from all chains are supported.'')
     else if chainID = ownChainID cfg
     then throw (Error ''Invalid operation. All tokens from all the specified chain should be supported.'')
     else bind (supportedHas chainID) (\<lambda>isChainSupported.
          if \<not> isChainSupported then ret ()
          else andThen (supportedDel chainID)
                 (idEvent (jslib cfg) ''allTokensFromChainSupportRemoved'' chainID)))"

definition supportTokenID :: "tokenConfig \<Rightarrow> bytes \<Rightarrow> ('a tokenCtx_scheme, unit) m" where
  "supportTokenID cfg tokenID = andThen (supportToken cfg tokenID) (idEvent (jslib cfg) ''tokenIDSupported'' tokenID)"

text \<open>
  \<open>removeSupport\<close>. \<open>Array.prototype.indexOf\<close> compares Buffers by identity; the list was just
  decoded from the store, so that no element is the argument: the index is always \<open>-1\<close> and
  the branch that splices the list and may delete the entry is never taken.
\<close>

definition indexOfBuffer :: "bytes \<Rightarrow> bytes list \<Rightarrow> nat option" where
  "indexOfBuffer argument freshlyDecoded = None"

definition removeSupport :: "tokenConfig \<Rightarrow> bytes \<Rightarrow> ('a tokenCtx_scheme, unit) m" where
  "removeSupport cfg tokenID =
     bind (liftE (splitTokenID tokenID)) (\<lambda>(chainID, _).
     bind (supportedHas ALL_SUPPORTED_TOKENS_KEY) (\<lambda>all.
     if all then throw (Error ''All tokens are supported.'')
     else if tokenID = getTokenIDKLY cfg \<or> chainID = ownChainID cfg
     then throw (Error ''Cannot remove support for the specified token.'')
     else bind (supportedHas chainID) (\<lambda>isChainSupported.
     if \<not> isChainSupported then idEvent (jslib cfg) ''tokenIDSupportRemoved'' tokenID
     else bind (supportedGet (jslib cfg) chainID) (\<lambda>supportedTokens.
     if supportedTokens = [] then throw (Error ''All tokens from the specified chain are supported.'')
     else
     andThen (case indexOfBuffer tokenID supportedTokens of
                None \<Rightarrow> ret ()
              | Some tokenIndex \<Rightarrow>
                  whenM (take tokenIndex supportedTokens @ drop (Suc tokenIndex) supportedTokens = [])
                    (supportedDel chainID))
     (idEvent (jslib cfg) ''tokenIDSupportRemoved'' tokenID)))))"

definition getTotalSupply :: "tokenConfig \<Rightarrow> ('a tokenCtx_scheme, (bytes \<times> int) list) m" where
  "getTotalSupply cfg = supplyGetAll (jslib cfg)"

definition escrowSubstoreExists :: "bytes \<Rightarrow> bytes \<Rightarrow> ('a tokenCtx_scheme, bool) m" where
  "escrowSubstoreExists chainID tokenID = escrowHas (escrowKey chainID tokenID)"

end
