(* ===== verification/SchemaLaws.thy ===== *)
theory SchemaLaws
  imports BaseStore
begin

text \<open>
  The contract of an encoded substore: what was written is read back. The locale
  \<open>store_schema\<close> is interpreted on the schemas of the modules; the writer checks upper
  bounds itself, so that only values that are not negative have to be assumed
  (\<open>conf_of_encode\<close>).
\<close>

section \<open>Values that only lack the upper bounds\<close>

fun lowScalar :: "jsLib \<Rightarrow> wireKind \<Rightarrow> val \<Rightarrow> bool" where
  "lowScalar lib UInt32T (VInt n) = (0 \<le> n)"
| "lowScalar lib UInt64T (VInt n) = (0 \<le> n)"
| "lowScalar lib t v = confScalar lib t v"

fun lowConf :: "jsLib \<Rightarrow> schemaProp list \<Rightarrow> val option list \<Rightarrow> bool" where
  "lowConf lib [] vs = (vs = [])"
| "lowConf lib (PScalar n t # ps) vs =
     (case vs of Some v # r \<Rightarrow> lowScalar lib t v \<and> lowConf lib ps r | _ \<Rightarrow> False)"
| "lowConf lib (PArray n t # ps) vs =
     (case vs of Some (VArr xs) # r \<Rightarrow> list_all (lowScalar lib t) xs \<and> lowConf lib ps r | _ \<Rightarrow> False)"
| "lowConf lib (PObject n inner # ps) vs =
     (case vs of Some (VObj ws) # r \<Rightarrow> lowConf lib inner ws \<and> lowConf lib ps r | _ \<Rightarrow> False)"
| "lowConf lib (PArrayObj n inner # ps) vs =
     (case vs of Some (VArr xs) # r \<Rightarrow>
        list_all (\<lambda>x. case x of VObj ws \<Rightarrow> lowConf lib inner ws | _ \<Rightarrow> False) xs \<and> lowConf lib ps r | _ \<Rightarrow> False)"

lemma scalar_of_write: "writeScalar lib t v = Inr bs \<Longrightarrow> lowScalar lib t v \<Longrightarrow> confScalar lib t v"
  by (cases "(lib, t, v)" rule: lowScalar.cases) (auto simp: writeUInt32_def writeUInt64_def split: if_splits)

lemma keyed_of_write: "writeKeyed lib k t vs = Inr r \<Longrightarrow> list_all (lowScalar lib t) vs \<Longrightarrow> list_all (confScalar lib t) vs"
  by (induction vs arbitrary: r) (auto simp: rbind_Inr intro: scalar_of_write)

lemma packed_of_write: "writePacked lib t vs = Inr r \<Longrightarrow> list_all (lowScalar lib t) vs \<Longrightarrow> list_all (confScalar lib t) vs"
  by (induction vs arbitrary: r) (auto simp: rbind_Inr intro: scalar_of_write)

lemma array_of_write:
  "writeScalarArray lib n t vs = Inr r \<Longrightarrow> list_all (lowScalar lib t) vs \<Longrightarrow> list_all (confScalar lib t) vs"
  by (auto simp: writeScalarArray_def rbind_Inr split: if_splits intro: keyed_of_write packed_of_write)

abbreviation lowObject :: "jsLib \<Rightarrow> schemaProp list \<Rightarrow> val \<Rightarrow> bool" where
  "lowObject lib inner x \<equiv> (case x of VObj ws \<Rightarrow> lowConf lib inner ws | _ \<Rightarrow> False)"

abbreviation confObject :: "jsLib \<Rightarrow> schemaProp list \<Rightarrow> val \<Rightarrow> bool" where
  "confObject lib inner x \<equiv> (case x of VObj ws \<Rightarrow> conf lib inner ws | _ \<Rightarrow> False)"

lemma conf_of_write:
  "writeObject lib ps vs = Inr r \<Longrightarrow> lowConf lib ps vs \<Longrightarrow> conf lib ps vs"
  "writeObjects lib key inner xs = Inr r \<Longrightarrow> list_all (lowObject lib inner) xs \<Longrightarrow> list_all (confObject lib inner) xs"
proof (induction lib ps vs and lib key inner xs arbitrary: r and r rule: writeObject_writeObjects.induct)
  case (2 lib fieldNumber t ps message)
  then show ?case by (auto simp: rbind_Inr split: list.splits option.splits intro: scalar_of_write)
next
  case (3 lib fieldNumber inner ps message)
  then show ?case by (auto simp: rbind_Inr split: list.splits option.splits val.splits)
next
  case (4 lib fieldNumber t ps message)
  then show ?case by (auto simp: rbind_Inr split: list.splits option.splits val.splits intro: array_of_write)
next
  case (5 lib fieldNumber inner ps message)
  then show ?case by (fastforce simp: rbind_Inr split: list.splits option.splits val.splits)
next
  case (7 lib binaryKey inner v vs)
  then show ?case by (auto simp: rbind_Inr split: val.splits)
qed auto

lemma conf_of_encode: "encode lib schema vs = Inr bs \<Longrightarrow> lowConf lib schema vs \<Longrightarrow> conf lib schema vs"
  by (auto simp: encode_def rbind_Inr intro: conf_of_write(1))

lemma encode_reads:
  assumes "schemaOk schema" "lowConf lib schema vs" "encode lib schema vs = Inr bs"
  shows "decode lib schema bs = Inr vs"
  using assms codec_reads conf_of_encode by blast

section \<open>The contract\<close>

locale store_schema =
  fixes sch :: "'v storeSchema"
    and valid :: "'v \<Rightarrow> bool"
  assumes dec_enc: "valid v \<Longrightarrow> enc sch v = Inr bs \<Longrightarrow> dec sch bs = Inr v"
begin

lemma get_after_set:
  assumes "valid v" "\<And>f s. sel (upd f s) = f (sel s)"
  shows "wp (andThen (storeSet sch upd key v) (storeGet sch sel key)) (\<lambda>r t. r = v) (\<lambda>e t. enc sch v = Inl e) s"
proof (cases "enc sch v")
  case (Inl e)
  then show ?thesis by (simp add: wp)
next
  case (Inr bs)
  then show ?thesis using assms dec_enc[OF assms(1) Inr] by (simp add: wp)
qed

lemma enc_inj: "valid v \<Longrightarrow> valid w \<Longrightarrow> enc sch v = Inr bs \<Longrightarrow> enc sch w = Inr bs \<Longrightarrow> v = w"
  using dec_enc[of v bs] dec_enc[of w bs] by simp

end

end
