(* ===== verification/TokenProps.thy ===== *)
theory TokenProps
  imports TokenMethod SchemaLaws
begin

text \<open>
  Correctness of the token module: the invariant on its stores, conservation of the supply
  of native tokens by every operation of the method, and what each operation does to the
  balances.
\<close>

section \<open>Stored values\<close>

definition nameOk :: "jsLib \<Rightarrow> string \<Rightarrow> bool" where
  "nameOk lib s = (nfc lib s = s \<and> utf8Valid lib s \<and> stripBOM s = s)"

definition accountPre :: "jsLib \<Rightarrow> userAccount \<Rightarrow> bool" where
  "accountPre lib a = (0 \<le> availableBalance a \<and> distinct (map lbModule (lockedBalances a)) \<and> (\<forall>l \<in> set (lockedBalances a). 0 \<le> lbAmount l \<and> nameOk lib (lbModule l)))"

definition accountOk :: "jsLib \<Rightarrow> userAccount \<Rightarrow> bool" where
  "accountOk lib a = (accountPre lib a \<and> availableBalance a \<le> MAX_UINT64 \<and> (\<forall>l \<in> set (lockedBalances a). lbAmount l \<le> MAX_UINT64))"

definition weight :: "userAccount \<Rightarrow> int" where
  "weight a = availableBalance a + sum_list (map lbAmount (lockedBalances a))"

lemma weight_nonneg: "accountPre lib a \<Longrightarrow> 0 \<le> weight a"
  by (auto simp: weight_def accountPre_def intro!: add_nonneg_nonneg sum_list_nonneg)

lemma writeUInt64_Inr: "writeUInt64 v = Inr bs \<Longrightarrow> v \<le> MAX_UINT64"
  by (auto simp: writeUInt64_def split: if_splits)

lemma writeLocked_bound:
  "writeObjects lib key [PScalar 1 StringT, PScalar 2 UInt64T] (map lockedVal ls) = Inr r \<Longrightarrow> \<forall>l \<in> set ls. lbAmount l \<le> MAX_UINT64"
  by (induction ls arbitrary: r) (auto simp: rbind_Inr dest!: writeUInt64_Inr)

lemma user_enc_bound:
  assumes "enc (userSchema lib) a = Inr bs" "accountPre lib a"
  shows "accountOk lib a"
  using assms writeLocked_bound
  by (auto simp: userSchema_def encode_def userStoreSchema_def userVals_def rbind_Inr accountOk_def dest!: writeUInt64_Inr)

lemma valLocked_map [simp]: "map (valLocked \<circ> lockedVal) ls = ls"
  by (induction ls) auto

lemma conf_locked:
  "(\<forall>l \<in> set ls. 0 \<le> lbAmount l \<and> lbAmount l \<le> MAX_UINT64 \<and> nameOk lib (lbModule l)) \<Longrightarrow>
   list_all (\<lambda>x. case x of VObj ws \<Rightarrow> conf lib [PScalar 1 StringT, PScalar 2 UInt64T] ws | _ \<Rightarrow> False) (map lockedVal ls)"
  by (induction ls) (auto simp: nameOk_def)

text \<open>An account that was written is read back.\<close>

lemma user_enc_dec:
  assumes "enc (userSchema lib) a = Inr bs" "accountPre lib a"
  shows "dec (userSchema lib) bs = Inr a"
proof -
  have ok: "accountOk lib a" using user_enc_bound[OF assms] .
  have "decode lib userStoreSchema bs = Inr (userVals a)"
  proof (rule codec_reads)
    show "schemaOk userStoreSchema" by (simp add: userStoreSchema_def schemaOk_def)
    show "conf lib userStoreSchema (userVals a)"
      using ok conf_locked[of "lockedBalances a" lib]
      by (auto simp: userStoreSchema_def userVals_def accountOk_def accountPre_def)
    show "encode lib userStoreSchema (userVals a) = Inr bs" using assms(1) by (simp add: userSchema_def)
  qed
  then show ?thesis by (simp add: userSchema_def userVals_def)
qed

lemma amount_enc_dec:
  assumes "enc (amountStoreSchema lib) n = Inr bs" "0 \<le> n"
  shows "dec (amountStoreSchema lib) bs = Inr n" "n \<le> MAX_UINT64"
proof -
  have e: "encode lib [PScalar 1 UInt64T] [Some (VInt n)] = Inr bs" using assms(1) by (simp add: amountStoreSchema_def)
  then show n: "n \<le> MAX_UINT64" by (auto simp: encode_def rbind_Inr dest!: writeUInt64_Inr)
  have "decode lib [PScalar 1 UInt64T] bs = Inr [Some (VInt n)]"
    by (rule codec_reads[OF _ _ e]) (use n assms(2) in \<open>auto simp: schemaOk_def\<close>)
  then show "dec (amountStoreSchema lib) bs = Inr n" by (simp add: amountStoreSchema_def)
qed

interpretation user_sch: store_schema "userSchema lib" "accountPre lib" for lib
  by unfold_locales (rule user_enc_dec)

interpretation amount_sch: store_schema "amountStoreSchema lib" "\<lambda>n. 0 \<le> n" for lib
  by unfold_locales (rule amount_enc_dec(1))

section \<open>The invariant\<close>

definition acctAt :: "jsLib \<Rightarrow> bytes kv \<Rightarrow> bytes \<Rightarrow> userAccount option" where
  "acctAt lib us k = (case kvget us k of None \<Rightarrow> None
     | Some bs \<Rightarrow> (case dec (userSchema lib) bs of Inl _ \<Rightarrow> None | Inr a \<Rightarrow> Some a))"

definition amountAt :: "jsLib \<Rightarrow> bytes kv \<Rightarrow> bytes \<Rightarrow> int option" where
  "amountAt lib es k = (case kvget es k of None \<Rightarrow> None
     | Some bs \<Rightarrow> (case dec (amountStoreSchema lib) bs of Inl _ \<Rightarrow> None | Inr a \<Rightarrow> Some a))"

definition bytesWeight :: "jsLib \<Rightarrow> bytes \<Rightarrow> int" where
  "bytesWeight lib bs = (case dec (userSchema lib) bs of Inl _ \<Rightarrow> 0 | Inr a \<Rightarrow> weight a)"

definition bytesAmount :: "jsLib \<Rightarrow> bytes \<Rightarrow> int" where
  "bytesAmount lib bs = (case dec (amountStoreSchema lib) bs of Inl _ \<Rightarrow> 0 | Inr n \<Rightarrow> n)"

text \<open>What the users and the escrow accounts hold of a token.\<close>

definition userTotal :: "jsLib \<Rightarrow> bytes kv \<Rightarrow> bytes \<Rightarrow> int" where
  "userTotal lib us t = kvsum (\<lambda>k bs. if drop ADDRESS_LENGTH k = t then bytesWeight lib bs else 0) us"

definition escrowTotal :: "jsLib \<Rightarrow> bytes kv \<Rightarrow> bytes \<Rightarrow> int" where
  "escrowTotal lib es t = kvsum (\<lambda>k bs. if drop CHAIN_ID_LENGTH k = t then bytesAmount lib bs else 0) es"

definition supplyOf :: "jsLib \<Rightarrow> bytes kv \<Rightarrow> bytes \<Rightarrow> int" where
  "supplyOf lib ss t = (case amountAt lib ss t of None \<Rightarrow> 0 | Some n \<Rightarrow> n)"

definition usersOk :: "jsLib \<Rightarrow> bytes kv \<Rightarrow> bool" where
  "usersOk lib us = (kvok us \<and> (\<forall>k bs. kvget us k = Some bs \<longrightarrow> (\<exists>a. dec (userSchema lib) bs = Inr a \<and> accountOk lib a)))"

definition amountsOk :: "jsLib \<Rightarrow> bytes kv \<Rightarrow> bool" where
  "amountsOk lib es = (kvok es \<and>
     (\<forall>k bs. kvget es k = Some bs \<longrightarrow> (\<exists>n. dec (amountStoreSchema lib) bs = Inr n \<and> 0 \<le> n \<and> n \<le> MAX_UINT64)))"

definition nativeID :: "tokenConfig \<Rightarrow> bytes \<Rightarrow> bool" where
  "nativeID cfg t = (length t = TOKEN_ID_LENGTH \<and> take CHAIN_ID_LENGTH t = ownChainID cfg)"

text \<open>
  Well-formed stores in which, for every native token, users and escrow accounts together
  hold the supply up to the difference \<open>d\<close>; between operations the difference is zero.
\<close>

definition tokenInv :: "tokenConfig \<Rightarrow> (bytes \<Rightarrow> int) \<Rightarrow> 'a tokenCtx_scheme \<Rightarrow> bool" where
  "tokenInv cfg d s = (let lib = jslib cfg in
     usersOk lib (userStore s) \<and> amountsOk lib (escrowStore s) \<and> amountsOk lib (supplyStore s) \<and>
     (\<forall>t. nativeID cfg t \<longrightarrow>
        userTotal lib (userStore s) t + escrowTotal lib (escrowStore s) t = supplyOf lib (supplyStore s) t + d t))"

lemma tokenInv_frame [simp]:
  "tokenInv cfg d (s\<lparr>cEvents := e\<rparr>) = tokenInv cfg d s"
  "tokenInv cfg d (s\<lparr>cStore := c\<rparr>) = tokenInv cfg d s"
  "tokenInv cfg d (s\<lparr>supportedStore := x\<rparr>) = tokenInv cfg d s"
  by (simp_all add: tokenInv_def)

definition oldWeight :: "jsLib \<Rightarrow> bytes kv \<Rightarrow> bytes \<Rightarrow> int" where
  "oldWeight lib us k = (case acctAt lib us k of None \<Rightarrow> 0 | Some a \<Rightarrow> weight a)"

lemma usersOk_set:
  assumes "usersOk lib us" "enc (userSchema lib) a = Inr bs" "accountPre lib a"
  shows "usersOk lib (kvset k bs us)"
  using assms user_enc_dec[OF assms(2,3)] user_enc_bound[OF assms(2,3)] by (auto simp: usersOk_def)

lemma acctAt_set:
  assumes "enc (userSchema lib) a = Inr bs" "accountPre lib a"
  shows "acctAt lib (kvset k bs us) = (acctAt lib us)(k \<mapsto> a)"
  using user_enc_dec[OF assms] by (auto simp: acctAt_def)

lemma userTotal_set:
  assumes "usersOk lib us" "enc (userSchema lib) a = Inr bs" "accountPre lib a" "length address = ADDRESS_LENGTH"
  shows "userTotal lib (kvset (userKey address tokenID) bs us) t =
    userTotal lib us t + (if t = tokenID then weight a - oldWeight lib us (userKey address tokenID) else 0)"
proof -
  have w: "bytesWeight lib bs = weight a" using user_enc_dec[OF assms(2,3)] by (simp add: bytesWeight_def)
  have k: "drop ADDRESS_LENGTH (userKey address tokenID) = tokenID" using assms(4) by (simp add: userKey_def)
  have ok: "kvok us" using assms(1) by (simp add: usersOk_def)
  show ?thesis
    using w k by (auto simp: userTotal_def kvsum_kvset[OF ok] oldWeight_def acctAt_def bytesWeight_def split: option.splits sum.splits)
qed

lemma amountsOk_set:
  assumes "amountsOk lib es" "enc (amountStoreSchema lib) n = Inr bs" "0 \<le> n"
  shows "amountsOk lib (kvset k bs es)"
  using assms amount_enc_dec[OF assms(2,3)] by (auto simp: amountsOk_def)

lemma amountAt_set:
  assumes "enc (amountStoreSchema lib) n = Inr bs" "0 \<le> n"
  shows "amountAt lib (kvset k bs es) = (amountAt lib es)(k \<mapsto> n)"
  using amount_enc_dec(1)[OF assms] by (auto simp: amountAt_def)

definition oldAmount :: "jsLib \<Rightarrow> bytes kv \<Rightarrow> bytes \<Rightarrow> int" where
  "oldAmount lib es k = (case amountAt lib es k of None \<Rightarrow> 0 | Some n \<Rightarrow> n)"

lemma escrowTotal_set:
  assumes "amountsOk lib es" "enc (amountStoreSchema lib) n = Inr bs" "0 \<le> n" "length chainID = CHAIN_ID_LENGTH"
  shows "escrowTotal lib (kvset (escrowKey chainID tokenID) bs es) t =
    escrowTotal lib es t + (if t = tokenID then n - oldAmount lib es (escrowKey chainID tokenID) else 0)"
proof -
  have w: "bytesAmount lib bs = n" using amount_enc_dec(1)[OF assms(2,3)] by (simp add: bytesAmount_def)
  have k: "drop CHAIN_ID_LENGTH (escrowKey chainID tokenID) = tokenID" using assms(4) by (simp add: escrowKey_def)
  have ok: "kvok es" using assms(1) by (simp add: amountsOk_def)
  show ?thesis
    using w k by (auto simp: escrowTotal_def kvsum_kvset[OF ok] oldAmount_def amountAt_def bytesAmount_def split: option.splits sum.splits)
qed

lemma supplyOf_set:
  assumes "enc (amountStoreSchema lib) n = Inr bs" "0 \<le> n"
  shows "supplyOf lib (kvset k bs ss) t = (if t = k then n else supplyOf lib ss t)"
  using amountAt_set[OF assms, of k ss] by (simp add: supplyOf_def)

text \<open>What \<open>save\<close> stores: without zero locks, sorted by module.\<close>

definition normalised :: "jsLib \<Rightarrow> userAccount \<Rightarrow> userAccount" where
  "normalised lib a = a\<lparr>lockedBalances := sortBy (\<lambda>a b. localeCompare lib (lbModule a) (lbModule b))
     (filter (\<lambda>l. lbAmount l \<noteq> 0) (lockedBalances a))\<rparr>"

lemma sum_list_nonzero: "sum_list (map f (filter (\<lambda>l. f l \<noteq> 0) ls)) = (sum_list (map f ls) :: int)"
  by (induction ls) auto

lemma weight_normalised [simp]: "weight (normalised lib a) = weight a"
  by (simp add: weight_def normalised_def sum_list_nonzero)

lemma normalised_pre: "accountPre lib a \<Longrightarrow> accountPre lib (normalised lib a)"
  by (auto simp: accountPre_def normalised_def distinct_map_filter)

lemma normalised_balance [simp]: "availableBalance (normalised lib a) = availableBalance a"
  by (simp add: normalised_def)

section \<open>Triples\<close>

text \<open>On success \<open>Q\<close> holds; a failure is undone by the snapshot of the caller.\<close>

abbreviation ok :: "('s, 'a) m \<Rightarrow> ('a \<Rightarrow> 's \<Rightarrow> bool) \<Rightarrow> 's \<Rightarrow> bool" where
  "ok c Q s \<equiv> wp c Q (\<lambda>_ _. True) s"

lemma ok_mono: "ok c P s \<Longrightarrow> (\<And>a t. P a t \<Longrightarrow> Q a t) \<Longrightarrow> ok c Q s"
  by (erule wp_mono) auto

lemma ok_event:
  assumes "\<And>evs. Q () (s\<lparr>cEvents := evs\<rparr>)"
  shows "ok (eventAdd lib module name schema vals topics nr) Q s"
  using assms by (simp add: wp split: sum.split)

lemmas tokenEvents = tokenEvent_def transferEvent_def transferCrossChainEvent_def ccmTransferEvent_def mintEvent_def
  burnEvent_def initializeUserAccountEvent_def initializeEscrowAccountEvent_def recoverEvent_def initializeTokenEvent_def
  lockEvent_def unlockEvent_def beforeCCCExecutionEvent_def beforeCCMForwardingEvent_def plainEvent_def idEvent_def

lemma ok_tokenEvents:
  assumes "\<And>evs. Q () (s\<lparr>cEvents := evs\<rparr>)"
  shows "ok (transferEvent lib x1 x2 x3 n r) Q s" "ok (transferCrossChainEvent lib x1 x2 x3 n x4 r) Q s"
    "ok (ccmTransferEvent lib x1 x2 x3 n x4 r) Q s" "ok (mintEvent lib x1 x2 n r) Q s" "ok (burnEvent lib x1 x2 n r) Q s"
    "ok (initializeUserAccountEvent lib x1 x2 n r) Q s" "ok (initializeEscrowAccountEvent lib x1 x2 n r) Q s"
    "ok (recoverEvent lib x1 x2 x3 n r) Q s" "ok (initializeTokenEvent lib x1 r) Q s"
    "ok (lockEvent lib x1 m x2 n r) Q s" "ok (unlockEvent lib x1 m x2 n r) Q s"
    "ok (beforeCCCExecutionEvent lib x1 x2 x3 r) Q s" "ok (beforeCCMForwardingEvent lib x1 x2 x3 x4 r) Q s"
    "ok (plainEvent lib m) Q s" "ok (idEvent lib m x1) Q s"
  by (simp_all only: tokenEvents) (intro ok_event assms)+

lemma ok_throw [simp]: "ok (throw e) Q s"
  by (simp add: wp)

lemma ok_fail: "ok c (\<lambda>_ _. True) s"
  by (simp add: wp_def split: prod.split sum.split)

lemma ok_then_throw [simp]: "ok (andThen c (throw e)) Q s"
  by (simp add: wp ok_fail)

lemma ok_if: "(b \<Longrightarrow> ok c Q s) \<Longrightarrow> (\<not> b \<Longrightarrow> ok d Q s) \<Longrightarrow> ok (if b then c else d) Q s"
  by simp

lemma ok_catch: "ok c Q s \<Longrightarrow> (\<And>e t. ok (h e) Q t) \<Longrightarrow> ok (tryCatch c h) Q s"
  unfolding wp_tryCatch by (erule wp_mono) auto

lemma ok_payFee:
  assumes "\<And>st. Q () (s\<lparr>cStore := st\<rparr>)"
  shows "ok (payFee lib amount) Q s"
  using assms
  by (simp add: payFee_def deductFeeFromKey_def wp ok_fail split: sum.split)

text \<open>Same token stores.\<close>

definition sameStores :: "'a tokenCtx_scheme \<Rightarrow> 'a tokenCtx_scheme \<Rightarrow> bool" where
  "sameStores s t = (userStore t = userStore s \<and> escrowStore t = escrowStore s \<and> supplyStore t = supplyStore s)"

lemma ok_userGet:
  assumes "tokenInv cfg d s" "\<And>a. acctAt (jslib cfg) (userStore s) k = Some a \<Longrightarrow> accountOk (jslib cfg) a \<Longrightarrow> Q a s"
  shows "ok (userGet (jslib cfg) k) Q s"
  using assms
  by (fastforce simp: userGet_def wp tokenInv_def Let_def usersOk_def acctAt_def split: option.split sum.split)

lemma ok_userSet:
  assumes "tokenInv cfg d s" "accountPre (jslib cfg) a" "length address = ADDRESS_LENGTH"
    and "\<And>bs. tokenInv cfg (d(tokenID := d tokenID + weight a - oldWeight (jslib cfg) (userStore s) (userKey address tokenID)))
               (userStore_update (kvset (userKey address tokenID) bs) s) \<Longrightarrow>
             acctAt (jslib cfg) (kvset (userKey address tokenID) bs (userStore s)) =
               (acctAt (jslib cfg) (userStore s))(userKey address tokenID \<mapsto> a) \<Longrightarrow>
             accountOk (jslib cfg) a \<Longrightarrow>
             Q () (userStore_update (kvset (userKey address tokenID) bs) s)"
  shows "ok (userSet (jslib cfg) (userKey address tokenID) a) Q s"
proof -
  have u: "usersOk (jslib cfg) (userStore s)" using assms(1) by (simp add: tokenInv_def Let_def)
  have "Q () (userStore_update (kvset (userKey address tokenID) bs) s)"
    if e: "enc (userSchema (jslib cfg)) a = Inr bs" for bs
  proof (rule assms(4))
    show "tokenInv cfg (d(tokenID := d tokenID + weight a - oldWeight (jslib cfg) (userStore s) (userKey address tokenID)))
               (userStore_update (kvset (userKey address tokenID) bs) s)"
      using assms(1) usersOk_set[OF u e assms(2)] userTotal_set[OF u e assms(2,3), of tokenID]
      by (simp add: tokenInv_def Let_def)
    show "acctAt (jslib cfg) (kvset (userKey address tokenID) bs (userStore s)) =
               (acctAt (jslib cfg) (userStore s))(userKey address tokenID \<mapsto> a)" by (rule acctAt_set[OF e assms(2)])
    show "accountOk (jslib cfg) a" by (rule user_enc_bound[OF e assms(2)])
  qed
  then show ?thesis by (simp add: userSet_def wp split: sum.split)
qed

lemma ok_userSave:
  assumes "tokenInv cfg d s" "accountPre (jslib cfg) a" "length address = ADDRESS_LENGTH"
    and "\<And>bs a'. tokenInv cfg (d(tokenID := d tokenID + weight a - oldWeight (jslib cfg) (userStore s) (userKey address tokenID)))
               (userStore_update (kvset (userKey address tokenID) bs) s) \<Longrightarrow>
             acctAt (jslib cfg) (kvset (userKey address tokenID) bs (userStore s)) =
               (acctAt (jslib cfg) (userStore s))(userKey address tokenID \<mapsto> a') \<Longrightarrow>
             a' = normalised (jslib cfg) a \<Longrightarrow> accountOk (jslib cfg) a' \<Longrightarrow>
             Q () (userStore_update (kvset (userKey address tokenID) bs) s)"
  shows "ok (userSave (jslib cfg) address tokenID a) Q s"
  unfolding userSave_def normalised_def[symmetric]
proof (rule ok_userSet[OF assms(1) _ assms(3)])
  show "accountPre (jslib cfg) (normalised (jslib cfg) a)" by (rule normalised_pre[OF assms(2)])
qed (use assms(4) in \<open>auto simp: weight_normalised\<close>)

lemma ok_escrowGet:
  assumes "tokenInv cfg d s"
    "\<And>n. amountAt (jslib cfg) (escrowStore s) k = Some n \<Longrightarrow> 0 \<le> n \<Longrightarrow> n \<le> MAX_UINT64 \<Longrightarrow> Q n s"
  shows "ok (escrowGet (jslib cfg) k) Q s"
  using assms
  by (fastforce simp: escrowGet_def wp tokenInv_def Let_def amountsOk_def amountAt_def split: option.split sum.split)

lemma ok_escrowGetOrDefault:
  assumes "tokenInv cfg d s"
    "\<And>n. oldAmount (jslib cfg) (escrowStore s) k = n \<Longrightarrow> 0 \<le> n \<Longrightarrow> n \<le> MAX_UINT64 \<Longrightarrow> Q n s"
  shows "ok (escrowGetOrDefault (jslib cfg) k) Q s"
  using assms
  by (fastforce simp: escrowGetOrDefault_def escrowGet_def wp tokenInv_def Let_def amountsOk_def amountAt_def oldAmount_def
      split: option.split sum.split)

lemma ok_escrowSet:
  assumes "tokenInv cfg d s" "0 \<le> n" "length chainID = CHAIN_ID_LENGTH"
    and "\<And>bs. tokenInv cfg (d(tokenID := d tokenID + n - oldAmount (jslib cfg) (escrowStore s) (escrowKey chainID tokenID)))
               (escrowStore_update (kvset (escrowKey chainID tokenID) bs) s) \<Longrightarrow>
             amountAt (jslib cfg) (kvset (escrowKey chainID tokenID) bs (escrowStore s)) =
               (amountAt (jslib cfg) (escrowStore s))(escrowKey chainID tokenID \<mapsto> n) \<Longrightarrow>
             Q () (escrowStore_update (kvset (escrowKey chainID tokenID) bs) s)"
  shows "ok (escrowSet (jslib cfg) (escrowKey chainID tokenID) n) Q s"
proof -
  have u: "amountsOk (jslib cfg) (escrowStore s)" using assms(1) by (simp add: tokenInv_def Let_def)
  have "Q () (escrowStore_update (kvset (escrowKey chainID tokenID) bs) s)"
    if e: "enc (amountStoreSchema (jslib cfg)) n = Inr bs" for bs
    using assms(1) amountsOk_set[OF u e assms(2)] escrowTotal_set[OF u e assms(2,3), of tokenID] amountAt_set[OF e assms(2)]
    by (intro assms(4)) (simp_all add: tokenInv_def Let_def)
  then show ?thesis by (simp add: escrowSet_def wp split: sum.split)
qed

lemma ok_supplyGet:
  assumes "tokenInv cfg d s"
    "\<And>n. amountAt (jslib cfg) (supplyStore s) k = Some n \<Longrightarrow> 0 \<le> n \<Longrightarrow> n \<le> MAX_UINT64 \<Longrightarrow> Q n s"
  shows "ok (supplyGet (jslib cfg) k) Q s"
  using assms
  by (fastforce simp: supplyGet_def wp tokenInv_def Let_def amountsOk_def amountAt_def split: option.split sum.split)

lemma ok_supplySet:
  assumes "tokenInv cfg d s" "0 \<le> n"
    and "\<And>bs. tokenInv cfg (d(tokenID := d tokenID - n + supplyOf (jslib cfg) (supplyStore s) tokenID))
               (supplyStore_update (kvset tokenID bs) s) \<Longrightarrow>
             amountAt (jslib cfg) (kvset tokenID bs (supplyStore s)) = (amountAt (jslib cfg) (supplyStore s))(tokenID \<mapsto> n) \<Longrightarrow>
             Q () (supplyStore_update (kvset tokenID bs) s)"
  shows "ok (supplySet (jslib cfg) tokenID n) Q s"
proof -
  have u: "amountsOk (jslib cfg) (supplyStore s)" using assms(1) by (simp add: tokenInv_def Let_def)
  have "Q () (supplyStore_update (kvset tokenID bs) s)" if e: "enc (amountStoreSchema (jslib cfg)) n = Inr bs" for bs
    using assms(1) amountsOk_set[OF u e assms(2)] supplyOf_set[OF e assms(2), of tokenID] amountAt_set[OF e assms(2)]
    by (intro assms(3)) (simp_all add: tokenInv_def Let_def)
  then show ?thesis by (simp add: supplySet_def wp split: sum.split)
qed

section \<open>Operations\<close>

text \<open>The abstract state: accounts, escrow amounts and supplies by key.\<close>

definition tokenView :: "tokenConfig \<Rightarrow> 'a tokenCtx_scheme \<Rightarrow>
    (bytes \<Rightarrow> userAccount option) \<times> (bytes \<Rightarrow> int option) \<times> (bytes \<Rightarrow> int option)" where
  "tokenView cfg s = (acctAt (jslib cfg) (userStore s), amountAt (jslib cfg) (escrowStore s), amountAt (jslib cfg) (supplyStore s))"

lemma tokenView_frame [simp]:
  "tokenView cfg (s\<lparr>cEvents := e\<rparr>) = tokenView cfg s"
  "tokenView cfg (s\<lparr>cStore := c\<rparr>) = tokenView cfg s"
  by (simp_all add: tokenView_def)

lemma acctAt_None: "tokenInv cfg d s \<Longrightarrow> acctAt (jslib cfg) (userStore s) k = None \<longleftrightarrow> \<not> kvhas (userStore s) k"
  by (fastforce simp: acctAt_def kvhas_def tokenInv_def Let_def usersOk_def split: option.split sum.split)

lemma amountAt_None: "tokenInv cfg d s \<Longrightarrow> amountAt (jslib cfg) (escrowStore s) k = None \<longleftrightarrow> \<not> kvhas (escrowStore s) k"
  "tokenInv cfg d s \<Longrightarrow> amountAt (jslib cfg) (supplyStore s) k = None \<longleftrightarrow> \<not> kvhas (supplyStore s) k"
  by (fastforce simp: amountAt_def kvhas_def tokenInv_def Let_def amountsOk_def split: option.split sum.split)+

lemma emptyAccount_facts [simp]: "accountPre lib emptyAccount" "weight emptyAccount = 0"
  by (simp_all add: emptyAccount_def accountPre_def weight_def)

lemma ok_initUser:
  assumes "tokenInv cfg d s" "\<not> kvhas (userStore s) (userKey address tokenID)" "length address = ADDRESS_LENGTH"
    and "\<And>s'. tokenInv cfg d s' \<Longrightarrow> tokenView cfg s' = (case tokenView cfg s of (A, X, S) \<Rightarrow>
            (A(userKey address tokenID \<mapsto> emptyAccount), X, S)) \<Longrightarrow> Q () s'"
  shows "ok (internalInitializeUserAccount cfg address tokenID) Q s"
proof -
  have z: "oldWeight (jslib cfg) (userStore s) (userKey address tokenID) = 0"
    using assms(2) acctAt_None[OF assms(1), of "userKey address tokenID"] by (simp add: oldWeight_def)
  show ?thesis
    unfolding internalInitializeUserAccount_def userCreateDefaultAccount_def wp_andThen
  proof (rule ok_payFee, rule ok_userSet[where d = d, OF _ _ assms(3)], goal_cases)
    case (1 st)
    then show ?case using assms(1) by simp
  next
    case (3 st bs)
    then show ?case
      using z by (intro ok_tokenEvents assms(4)) (simp_all add: tokenView_def)
  qed simp
qed

lemma ok_initEscrow:
  assumes "tokenInv cfg d s" "\<not> kvhas (escrowStore s) (escrowKey chainID tokenID)" "length chainID = CHAIN_ID_LENGTH"
    and "\<And>s'. tokenInv cfg d s' \<Longrightarrow> tokenView cfg s' = (case tokenView cfg s of (A, X, S) \<Rightarrow>
            (A, X(escrowKey chainID tokenID \<mapsto> 0), S)) \<Longrightarrow> Q () s'"
  shows "ok (internalInitializeEscrowAccount cfg chainID tokenID) Q s"
proof -
  have z: "oldAmount (jslib cfg) (escrowStore s) (escrowKey chainID tokenID) = 0"
    using assms(2) amountAt_None(1)[OF assms(1), of "escrowKey chainID tokenID"] by (simp add: oldAmount_def)
  show ?thesis
    unfolding internalInitializeEscrowAccount_def escrowCreateDefaultAccount_def wp_andThen
  proof (rule ok_payFee, rule ok_escrowSet[where d = d, OF _ _ assms(3)], goal_cases)
    case (1 st)
    then show ?case using assms(1) by simp
  next
    case (3 st bs)
    then show ?case
      using z by (intro ok_tokenEvents assms(4)) (simp_all add: tokenView_def)
  qed simp
qed

lemma oldWeight_Some [simp]: "acctAt lib us k = Some a \<Longrightarrow> oldWeight lib us k = weight a"
  by (simp add: oldWeight_def)

definition credit :: "int \<Rightarrow> userAccount \<Rightarrow> userAccount" where
  "credit n a = a\<lparr>availableBalance := availableBalance a + n\<rparr>"

lemma credit_facts [simp]:
  "weight (credit n a) = weight a + n" "availableBalance (credit n a) = availableBalance a + n"
  "lockedBalances (credit n a) = lockedBalances a"
  by (simp_all add: credit_def weight_def)

lemma credit_pre: "accountOk lib a \<Longrightarrow> 0 \<le> availableBalance a + n \<Longrightarrow> accountPre lib (credit n a)"
  by (simp add: accountOk_def accountPre_def)

lemma credit_alt: "a\<lparr>availableBalance := availableBalance a + n\<rparr> = credit n a"
  "a\<lparr>availableBalance := availableBalance a - n\<rparr> = credit (- n) a"
  by (simp_all add: credit_def)

text \<open>The accounts after a transfer.\<close>

definition moved :: "jsLib \<Rightarrow> bytes \<Rightarrow> bytes \<Rightarrow> int \<Rightarrow> (bytes \<Rightarrow> userAccount option) \<Rightarrow> (bytes \<Rightarrow> userAccount option)" where
  "moved lib from to n A =
     (let A1 = A(from \<mapsto> normalised lib (credit (- n) (the (A from)))) in
      A1(to \<mapsto> normalised lib (credit n (the (A1 to)))))"

lemma ok_internalTransfer:
  assumes "tokenInv cfg d s" "0 \<le> amount" "length sender = ADDRESS_LENGTH" "length recipient = ADDRESS_LENGTH"
    and "\<And>s' A X S a r. tokenInv cfg d s' \<Longrightarrow> tokenView cfg s = (A, X, S) \<Longrightarrow>
            A (userKey sender tokenID) = Some a \<Longrightarrow> amount \<le> availableBalance a \<Longrightarrow> A (userKey recipient tokenID) = Some r \<Longrightarrow>
            tokenView cfg s' = (moved (jslib cfg) (userKey sender tokenID) (userKey recipient tokenID) amount A, X, S) \<Longrightarrow> Q () s'"
  shows "ok (internalTransfer cfg sender recipient tokenID amount) Q s"
  unfolding internalTransfer_def wp_bind wp_if credit_alt
proof (rule ok_userGet[OF assms(1)], goal_cases)
  case (1 a)
  let ?lib = "jslib cfg" and ?ks = "userKey sender tokenID" and ?kr = "userKey recipient tokenID"
  have "ok (userSave ?lib sender tokenID (credit (- amount) a))
      (\<lambda>_. ok (bind (userGet ?lib ?kr) (\<lambda>r. andThen (userSave ?lib recipient tokenID (credit amount r))
         (transferEvent ?lib sender recipient tokenID amount SUCCESSFUL))) Q) s" if b: "amount \<le> availableBalance a"
  proof (rule ok_userSave[OF assms(1) _ assms(3)], goal_cases)
    case 1
    then show ?case using \<open>accountOk ?lib a\<close> b by (intro credit_pre) auto
  next
    case (2 bs a')
    let ?s1 = "userStore_update (kvset ?ks bs) s"
    show ?case
      unfolding wp_bind wp_andThen
    proof (rule ok_userGet[OF 2(1)], rule ok_userSave[OF 2(1) _ assms(4)], goal_cases)
      case (1 r)
      then show ?case using assms(2) by (intro credit_pre) (auto simp: accountOk_def accountPre_def)
    next
      case (2 r bs2 r')
      have k: "?ks \<noteq> ?kr \<Longrightarrow> acctAt ?lib (userStore s) ?kr = Some r"
        "?ks = ?kr \<Longrightarrow> acctAt ?lib (userStore s) ?kr = Some a"
        using 2 \<open>acctAt ?lib (kvset ?ks bs (userStore s)) = _\<close> \<open>acctAt ?lib (userStore s) ?ks = Some a\<close> by auto
      have inv: "tokenInv cfg d (userStore_update (kvset ?kr bs2) ?s1)"
        using 2 \<open>acctAt ?lib (userStore s) ?ks = Some a\<close> by (simp add: fun_upd_idem)
      have "tokenView cfg (userStore_update (kvset ?kr bs2) ?s1) =
          (moved ?lib ?ks ?kr amount (acctAt ?lib (userStore s)), amountAt ?lib (escrowStore s), amountAt ?lib (supplyStore s))"
        using 2 \<open>acctAt ?lib (kvset ?ks bs (userStore s)) = _\<close> \<open>acctAt ?lib (userStore s) ?ks = Some a\<close> \<open>a' = _\<close>
        by (simp add: tokenView_def moved_def Let_def)
      with inv k b \<open>acctAt ?lib (userStore s) ?ks = Some a\<close> show ?case
        by (cases "?ks = ?kr") (auto intro!: ok_tokenEvents assms(5) simp: tokenView_def)
    qed
  qed
  then show ?case by (auto simp: wp)
qed

lemma ok_getFunded:
  assumes "tokenInv cfg d s"
    and "\<And>a. acctAt (jslib cfg) (userStore s) (userKey address tokenID) = Some a \<Longrightarrow> accountOk (jslib cfg) a \<Longrightarrow>
            amount \<le> availableBalance a \<Longrightarrow> Q a s"
  shows "ok (getFunded cfg address tokenID amount ev) Q s"
proof -
  have "wp (userGet (jslib cfg) (userKey address tokenID))
      (\<lambda>a s. if availableBalance a < amount then True else Q a s) (\<lambda>_ _. True) s"
    by (rule ok_userGet[OF assms(1)]) (use assms(2) in auto)
  then show ?thesis
    unfolding getFunded_def wp_tryCatch wp_bind wp_if
    by (rule wp_mono) (auto simp: wp_def andThen_def bind_def throw_def ret_def split: prod.splits sum.splits)
qed

lemma ok_getAvailableBalance:
  assumes "tokenInv cfg d s"
    and "\<And>n. n = (case acctAt (jslib cfg) (userStore s) (userKey address tokenID) of None \<Rightarrow> 0 | Some a \<Rightarrow> availableBalance a) \<Longrightarrow>
           Q n s"
  shows "ok (getAvailableBalance cfg address tokenID) Q s"
  using assms
  by (fastforce simp: getAvailableBalance_def userGet_def wp tokenInv_def Let_def usersOk_def acctAt_def split: option.split sum.split)

lemma isNative_Inr: "isNativeToken cfg t = Inr b \<longleftrightarrow> length t = TOKEN_ID_LENGTH \<and> b = nativeID cfg t"
  by (auto simp: isNativeToken_def splitTokenID_def nativeID_def)

lemma ok_transfer:
  assumes "tokenInv cfg d s" "length sender = ADDRESS_LENGTH" "length recipient = ADDRESS_LENGTH" "0 < amount"
    and "\<And>s' A X S a. tokenInv cfg d s' \<Longrightarrow> tokenView cfg s = (A, X, S) \<Longrightarrow>
            A (userKey sender tokenID) = Some a \<Longrightarrow> amount \<le> availableBalance a \<Longrightarrow>
            tokenView cfg s' = (moved (jslib cfg) (userKey sender tokenID) (userKey recipient tokenID) amount
              (if A (userKey recipient tokenID) = None then A(userKey recipient tokenID \<mapsto> emptyAccount) else A), X, S) \<Longrightarrow> Q () s'"
  shows "ok (transfer cfg sender recipient tokenID amount) Q s"
proof -
  let ?kr = "userKey recipient tokenID" and ?ks = "userKey sender tokenID"
  have t: "ok (internalTransfer cfg sender recipient tokenID amount) Q s1"
    if i: "tokenInv cfg d s1" and a: "acctAt (jslib cfg) (userStore s) ?ks = Some a" and b: "amount \<le> availableBalance a"
      and v: "tokenView cfg s1 = (case tokenView cfg s of (A, X, S) \<Rightarrow> ((if A ?kr = None then A(?kr \<mapsto> emptyAccount) else A), X, S))"
    for s1 a
    by (rule ok_internalTransfer[OF i _ assms(2,3)], use assms(4) in simp, rule assms(5))
       (use a b v in \<open>auto simp: tokenView_def split: if_splits\<close>)
  show ?thesis
    unfolding transfer_def wp_if wp_bind wp_andThen wp_whenM userHas_def wp_storeHas
    using assms(4)
    apply simp
    apply (rule ok_getFunded[OF assms(1)])
    subgoal for a
      using acctAt_None[OF assms(1), of ?kr]
      by (auto intro!: t[of _ a] ok_initUser[OF assms(1) _ assms(3)] assms(1) simp: tokenView_def split: prod.splits)
    done
qed

lemma ok_mint:
  assumes "tokenInv cfg d s" "length address = ADDRESS_LENGTH" "0 < amount"
    and "\<And>s' A X S n. tokenInv cfg d s' \<Longrightarrow> nativeID cfg tokenID \<Longrightarrow> tokenView cfg s = (A, X, S) \<Longrightarrow> S tokenID = Some n \<Longrightarrow>
            n + amount < 2 ^ 64 \<Longrightarrow>
            tokenView cfg s' = (A(userKey address tokenID \<mapsto> normalised (jslib cfg) (credit amount
                (case A (userKey address tokenID) of None \<Rightarrow> emptyAccount | Some a \<Rightarrow> a))), X, S(tokenID \<mapsto> n + amount)) \<Longrightarrow> Q () s'"
  shows "ok (mint cfg address tokenID amount) Q s"
proof -
  let ?k = "userKey address tokenID" and ?lib = "jslib cfg"
  let ?rest = "\<lambda>supply. bind (userGet ?lib ?k) (\<lambda>a. andThen (userSave ?lib address tokenID (credit amount a))
      (andThen (supplySet ?lib tokenID (supply + amount)) (mintEvent ?lib address tokenID amount SUCCESSFUL)))"
  have t: "ok (?rest n) Q s1"
    if i: "tokenInv cfg d s1" and nat: "nativeID cfg tokenID" and sup: "amountAt ?lib (supplyStore s) tokenID = Some n" "0 \<le> n" "n + amount < 2 ^ 64"
      and v: "tokenView cfg s1 = (case tokenView cfg s of (A, X, S) \<Rightarrow> ((if A ?k = None then A(?k \<mapsto> emptyAccount) else A), X, S))"
    for s1 n
    unfolding wp_bind wp_andThen
  proof (rule ok_userGet[OF i], rule ok_userSave[OF i _ assms(2)], goal_cases)
    case (1 a)
    then show ?case using assms(3) by (intro credit_pre) (auto simp: accountOk_def accountPre_def)
  next
    case (2 a bs a')
    let ?s2 = "userStore_update (kvset ?k bs) s1"
    have i2: "tokenInv cfg (d(tokenID := d tokenID + amount)) ?s2" using 2 by simp
    show ?case
    proof (rule ok_supplySet[OF i2], goal_cases)
      case 1
      then show ?case using sup assms(3) by simp
    next
      case (2 bs2)
      have "supplyOf ?lib (supplyStore ?s2) tokenID = n" using v sup by (simp add: supplyOf_def tokenView_def)
      with 2(1) have i3: "tokenInv cfg d (supplyStore_update (kvset tokenID bs2) ?s2)" by (simp add: fun_upd_idem)
      show ?case
        by (rule ok_tokenEvents, rule assms(4)[of _ "acctAt ?lib (userStore s)" "amountAt ?lib (escrowStore s)" "amountAt ?lib (supplyStore s)" n])
           (use i3 nat v sup 2(2) \<open>acctAt ?lib (kvset ?k bs (userStore s1)) = _\<close> \<open>a' = _\<close> \<open>acctAt ?lib (userStore s1) ?k = Some a\<close>
            in \<open>auto simp: tokenView_def split: option.splits if_splits\<close>)
    qed
  qed
  have n: "ok (bind (userHas ?k) (\<lambda>userExist. andThen (whenM (\<not> userExist) (internalInitializeUserAccount cfg address tokenID)) (?rest n))) Q s"
    if nat: "nativeID cfg tokenID" and sup: "amountAt ?lib (supplyStore s) tokenID = Some n" "0 \<le> n" "n + amount < 2 ^ 64" for n
    unfolding wp_bind wp_andThen[THEN ext] wp_whenM userHas_def wp_storeHas
    using acctAt_None[OF assms(1), of ?k]
    by (auto intro!: t[unfolded wp_bind wp_andThen[THEN ext]] nat sup ok_initUser[OF assms(1) _ assms(2)] assms(1) simp: tokenView_def split: prod.splits)
  have b: "ok (bind (getAvailableBalance cfg address tokenID) (\<lambda>balance. if balance + amount \<ge> 2 ^ 64 then
       andThen (mintEvent ?lib address tokenID amount MINT_FAIL_TOTAL_SUPPLY_TOO_BIG) (throw (Error e))
     else bind (userHas ?k) (\<lambda>userExist. andThen (whenM (\<not> userExist) (internalInitializeUserAccount cfg address tokenID)) (?rest n)))) Q s"
    if nat: "nativeID cfg tokenID" and sup: "amountAt ?lib (supplyStore s) tokenID = Some n" "0 \<le> n" "n + amount < 2 ^ 64" for n e
    unfolding wp_bind[of "getAvailableBalance cfg address tokenID"]
    by (rule ok_getAvailableBalance[OF assms(1)]) (simp add: n[OF that])
  have "ok (bind (tryCatch (supplyGet ?lib tokenID) h) (\<lambda>supply. if supply + amount \<ge> 2 ^ 64 then
       andThen (mintEvent ?lib address tokenID amount MINT_FAIL_TOTAL_SUPPLY_TOO_BIG) (throw (Error e)) else
       bind (getAvailableBalance cfg address tokenID) (\<lambda>balance. if balance + amount \<ge> 2 ^ 64 then
       andThen (mintEvent ?lib address tokenID amount MINT_FAIL_TOTAL_SUPPLY_TOO_BIG) (throw (Error e))
     else bind (userHas ?k) (\<lambda>userExist. andThen (whenM (\<not> userExist) (internalInitializeUserAccount cfg address tokenID)) (?rest supply))))) Q s"
    if nat: "nativeID cfg tokenID" and h: "\<And>e Q s. ok (h e) Q s" for h e
    unfolding wp_bind[of "tryCatch _ _"]
    by (rule ok_catch[OF _ h], rule ok_supplyGet[OF assms(1)], rule ok_if, rule ok_then_throw, rule b[OF nat]) simp_all
  then show ?thesis
    unfolding mint_def credit_alt wp_if
    using assms(3) isNative_Inr[of cfg tokenID]
    by (auto simp: wp_bind[of "liftE _"] wp_liftE split: sum.split)
qed

lemma ok_burn:
  assumes "tokenInv cfg d s" "length address = ADDRESS_LENGTH" "0 < amount"
    "\<And>a n. nativeID cfg tokenID \<Longrightarrow> acctAt (jslib cfg) (userStore s) (userKey address tokenID) = Some a \<Longrightarrow>
       amount \<le> availableBalance a \<Longrightarrow> accountOk (jslib cfg) a \<Longrightarrow>
       amountAt (jslib cfg) (supplyStore s) tokenID = Some n \<Longrightarrow> amount \<le> n"
    and "\<And>s' A X S a. tokenInv cfg d s' \<Longrightarrow> length tokenID = TOKEN_ID_LENGTH \<Longrightarrow>
            tokenView cfg s = (A, X, S) \<Longrightarrow> A (userKey address tokenID) = Some a \<Longrightarrow> amount \<le> availableBalance a \<Longrightarrow>
            (nativeID cfg tokenID \<Longrightarrow> S tokenID \<noteq> None) \<Longrightarrow>
            tokenView cfg s' = (A(userKey address tokenID \<mapsto> credit (- amount) a), X,
              if nativeID cfg tokenID then S(tokenID \<mapsto> the (S tokenID) - amount) else S) \<Longrightarrow> Q () s'"
  shows "ok (burn cfg address tokenID amount) Q s"
proof -
  let ?k = "userKey address tokenID" and ?lib = "jslib cfg"
  have c: "ok (andThen (userSet ?lib ?k (credit (- amount) a))
      (bind (liftE (isNativeToken cfg tokenID)) (\<lambda>native. andThen (whenM native
         (bind (supplyGet ?lib tokenID) (\<lambda>supply. supplySet ?lib tokenID (supply - amount))))
        (burnEvent ?lib address tokenID amount SUCCESSFUL)))) Q s"
    if a: "acctAt ?lib (userStore s) ?k = Some a" "accountOk ?lib a" "amount \<le> availableBalance a" for a
    unfolding wp_andThen
  proof (rule ok_userSet[OF assms(1) _ assms(2)], goal_cases)
    case 1
    then show ?case using a by (intro credit_pre) auto
  next
    case (2 bs)
    let ?s2 = "userStore_update (kvset ?k bs) s"
    have i2: "tokenInv cfg (d(tokenID := d tokenID - amount)) ?s2" using 2(1) a by simp
    have nn: "ok (burnEvent ?lib address tokenID amount SUCCESSFUL) Q ?s2"
      if n: "\<not> nativeID cfg tokenID" "length tokenID = TOKEN_ID_LENGTH"
    proof (rule ok_tokenEvents, rule assms(5)[of _ "acctAt ?lib (userStore s)" "amountAt ?lib (escrowStore s)" "amountAt ?lib (supplyStore s)" a], goal_cases)
      case (1 evs)
      have "tokenInv cfg d ?s2" using i2 n by (auto simp: tokenInv_def Let_def)
      with n show ?case by simp
    qed (use a 2(2) n in \<open>simp_all add: tokenView_def\<close>)
    have nat: "ok (supplyGet ?lib tokenID) (\<lambda>supply. ok (supplySet ?lib tokenID (supply - amount))
       (\<lambda>_. ok (burnEvent ?lib address tokenID amount SUCCESSFUL) Q)) ?s2" if n: "nativeID cfg tokenID"
    proof (rule ok_supplyGet[OF i2], rule ok_supplySet[OF i2], goal_cases)
      case (1 n)
      then show ?case using assms(4)[OF that a(1,3,2)] by simp
    next
      case (2 n bs2)
      then have i3: "tokenInv cfg d (supplyStore_update (kvset tokenID bs2) ?s2)" by (simp add: supplyOf_def fun_upd_idem)
      show ?case
        by (rule ok_tokenEvents, rule assms(5)[of _ "acctAt ?lib (userStore s)" "amountAt ?lib (escrowStore s)" "amountAt ?lib (supplyStore s)" a])
           (use a i3 2 that \<open>acctAt ?lib (kvset ?k bs (userStore s)) = _\<close> in \<open>simp_all add: tokenView_def nativeID_def\<close>)
    qed
    show ?case
      using nn nat by (auto simp: wp isNative_Inr nativeID_def split: sum.split)
  qed
  show ?thesis
    unfolding burn_def credit_alt wp_if wp_bind[of "getFunded _ _ _ _ _"]
    using assms(3) by (simp, intro ok_getFunded[OF assms(1)] c)
qed

lemma ok_initializeToken:
  assumes "tokenInv cfg d s"
    and "\<And>s' A X S. tokenInv cfg d s' \<Longrightarrow> tokenView cfg s = (A, X, S) \<Longrightarrow> nativeID cfg tokenID \<Longrightarrow> S tokenID = None \<Longrightarrow>
            tokenView cfg s' = (A, X, S(tokenID \<mapsto> 0)) \<Longrightarrow> Q () s'"
  shows "ok (initializeToken cfg tokenID) Q s"
proof -
  let ?lib = "jslib cfg"
  have "ok (supplySet ?lib tokenID 0) (\<lambda>_. ok (initializeTokenEvent ?lib tokenID SUCCESSFUL) Q) s"
    if n: "nativeID cfg tokenID" "\<not> kvhas (supplyStore s) tokenID"
  proof (rule ok_supplySet[OF assms(1)], goal_cases)
    case (2 bs)
    have z: "amountAt ?lib (supplyStore s) tokenID = None" using amountAt_None(2)[OF assms(1), of tokenID] n by simp
    with 2 have i: "tokenInv cfg d (supplyStore_update (kvset tokenID bs) s)" by (simp add: supplyOf_def fun_upd_idem)
    show ?case
      by (rule ok_tokenEvents, rule assms(2)[of _ "acctAt ?lib (userStore s)" "amountAt ?lib (escrowStore s)" "amountAt ?lib (supplyStore s)"])
         (use i n z 2 in \<open>simp_all add: tokenView_def\<close>)
  qed simp
  then show ?thesis
    unfolding initializeToken_def isTokenIDAvailable_def
    by (auto simp: wp ok_fail isNative_Inr split: sum.split)
qed

text \<open>Locking and unlocking move between the available and the locked part of one account.\<close>

lemma sum_list_update_int:
  fixes f :: "'b \<Rightarrow> int"
  shows "i < length xs \<Longrightarrow> sum_list (map f (xs[i := v])) = sum_list (map f xs) - f (xs ! i) + f v"
proof (induction xs arbitrary: i)
  case (Cons x xs)
  then show ?case by (cases i) auto
qed simp

lemma lockIn_sum: "sum_list (map lbAmount (lockIn module amount ls)) = sum_list (map lbAmount ls) + amount"
  by (auto simp: lockIn_def sum_list_update_int dest: findIndex_Some split: option.split)

lemma lockIn_pre:
  assumes "\<forall>l \<in> set ls. 0 \<le> lbAmount l \<and> nameOk lib (lbModule l)" "nameOk lib module" "0 \<le> amount"
  shows "\<forall>l \<in> set (lockIn module amount ls). 0 \<le> lbAmount l \<and> nameOk lib (lbModule l)"
proof (cases "findIndex (\<lambda>b. lbModule b = module) ls")
  case None
  then show ?thesis using assms by (simp add: lockIn_def)
next
  case (Some i)
  then have "ls ! i \<in> set ls" using findIndex_Some by fastforce
  then have "0 \<le> lbAmount (ls ! i)" using assms(1) by blast
  then show ?thesis using Some assms
    by (auto simp: lockIn_def dest!: set_update_subset_insert[THEN subsetD])
qed

lemma lockIn_distinct: "distinct (map lbModule ls) \<Longrightarrow> distinct (map lbModule (lockIn module amount ls))"
proof (cases "findIndex (\<lambda>b. lbModule b = module) ls")
  case None
  moreover from None have "module \<notin> lbModule ` set ls" by (auto simp: findIndex_None)
  ultimately show "distinct (map lbModule ls) \<Longrightarrow> ?thesis" by (simp add: lockIn_def)
next
  case (Some i)
  then have "map lbModule (lockIn module amount ls) = map lbModule ls"
    using findIndex_Some[OF Some] by (simp add: lockIn_def map_update list_update_same_conv)
  then show "distinct (map lbModule ls) \<Longrightarrow> ?thesis" by simp
qed

lemma ok_lock:
  assumes "tokenInv cfg d s" "length address = ADDRESS_LENGTH" "0 < amount" "nameOk (jslib cfg) module"
    and "\<And>s' A X S a. tokenInv cfg d s' \<Longrightarrow> tokenView cfg s = (A, X, S) \<Longrightarrow> A (userKey address tokenID) = Some a \<Longrightarrow>
            amount \<le> availableBalance a \<Longrightarrow>
            tokenView cfg s' = (A(userKey address tokenID \<mapsto> normalised (jslib cfg)
              \<lparr>availableBalance = availableBalance a - amount, lockedBalances = lockIn module amount (lockedBalances a)\<rparr>), X, S) \<Longrightarrow> Q () s'"
  shows "ok (lock cfg address module tokenID amount) Q s"
proof -
  let ?k = "userKey address tokenID" and ?lib = "jslib cfg"
  let ?b = "\<lambda>a. \<lparr>availableBalance = availableBalance a - amount, lockedBalances = lockIn module amount (lockedBalances a)\<rparr>"
  have m: "ok (userSave ?lib address tokenID (?b a)) (\<lambda>_. ok (lockEvent ?lib address module tokenID amount SUCCESSFUL) Q) s"
    if a: "acctAt ?lib (userStore s) ?k = Some a" "accountOk ?lib a" "amount \<le> availableBalance a" for a
  proof (rule ok_userSave[OF assms(1) _ assms(2)], goal_cases)
    case 1
    have "\<forall>l \<in> set (lockIn module amount (lockedBalances a)). 0 \<le> lbAmount l \<and> nameOk ?lib (lbModule l)"
      using a(2) assms(3) by (intro lockIn_pre[OF _ assms(4)]) (simp_all add: accountPre_def accountOk_def)
    then show ?case using a(2,3) lockIn_distinct by (simp add: accountPre_def accountOk_def)
  next
    case (2 bs a')
    have "weight (?b a) = weight a" by (simp add: weight_def lockIn_sum)
    with 2(1) a have i: "tokenInv cfg d (userStore_update (kvset ?k bs) s)" by (simp add: fun_upd_idem)
    show ?case
      by (rule ok_tokenEvents, rule assms(5)[of _ "acctAt ?lib (userStore s)" "amountAt ?lib (escrowStore s)" "amountAt ?lib (supplyStore s)" a])
         (use i a 2 in \<open>simp_all add: tokenView_def\<close>)
  qed
  show ?thesis
    unfolding lock_def wp_if wp_bind[of "getFunded _ _ _ _ _"] wp_andThen[THEN ext]
    using assms(3) by (simp, intro ok_getFunded[OF assms(1)] m)
qed

lemma ok_unlock:
  assumes "tokenInv cfg d s" "length address = ADDRESS_LENGTH" "0 < amount"
    and "\<And>s' A X S a i. tokenInv cfg d s' \<Longrightarrow> tokenView cfg s = (A, X, S) \<Longrightarrow> A (userKey address tokenID) = Some a \<Longrightarrow>
            findIndex (\<lambda>b. lbModule b = module) (lockedBalances a) = Some i \<Longrightarrow> amount \<le> lbAmount (lockedBalances a ! i) \<Longrightarrow>
            tokenView cfg s' = (A(userKey address tokenID \<mapsto> normalised (jslib cfg)
              \<lparr>availableBalance = availableBalance a + amount,
               lockedBalances = (lockedBalances a)[i := (lockedBalances a ! i)\<lparr>lbAmount := lbAmount (lockedBalances a ! i) - amount\<rparr>]\<rparr>), X, S) \<Longrightarrow> Q () s'"
  shows "ok (unlock cfg address module tokenID amount) Q s"
proof -
  let ?k = "userKey address tokenID" and ?lib = "jslib cfg"
  let ?b = "\<lambda>a i. \<lparr>availableBalance = availableBalance a + amount,
     lockedBalances = (lockedBalances a)[i := (lockedBalances a ! i)\<lparr>lbAmount := lbAmount (lockedBalances a ! i) - amount\<rparr>]\<rparr>"
  have t: "ok (userSave ?lib address tokenID (?b a i)) (\<lambda>_. ok (unlockEvent ?lib address module tokenID amount SUCCESSFUL) Q) s"
    if a: "acctAt ?lib (userStore s) ?k = Some a" "accountOk ?lib a" and i: "findIndex (\<lambda>b. lbModule b = module) (lockedBalances a) = Some i"
      and b: "amount \<le> lbAmount (lockedBalances a ! i)" for a i
  proof (rule ok_userSave[OF assms(1) _ assms(2)], goal_cases)
    have len: "i < length (lockedBalances a)" using findIndex_Some[OF i] by simp
    {
      case 1
      have "lockedBalances a ! i \<in> set (lockedBalances a)" using len by simp
      moreover have "map lbModule (lockedBalances (?b a i)) = map lbModule (lockedBalances a)"
        using len by (simp add: map_update list_update_same_conv)
      ultimately show ?case using a b assms(3)
        by (auto simp: accountPre_def accountOk_def dest!: set_update_subset_insert[THEN subsetD])
    next
      case (2 bs a')
      have "weight (?b a i) = weight a" using len by (simp add: weight_def sum_list_update_int)
      with 2(1) a have inv: "tokenInv cfg d (userStore_update (kvset ?k bs) s)" by (simp add: fun_upd_idem)
      show ?case
        by (rule ok_tokenEvents, rule assms(4)[of _ "acctAt ?lib (userStore s)" "amountAt ?lib (escrowStore s)" "amountAt ?lib (supplyStore s)" a i])
           (use inv a 2 i b in \<open>simp_all add: tokenView_def\<close>)
    }
  qed
  have m: "ok (bind (tryCatch (userGet ?lib ?k) h) (\<lambda>account. case findIndex (\<lambda>b. lbModule b = module) (lockedBalances account) of
      None \<Rightarrow> andThen e1 (throw x1)
    | Some i \<Rightarrow> let lb = lockedBalances account ! i in if lbAmount lb < amount then andThen e2 (throw x2)
       else andThen (userSave ?lib address tokenID (?b account i)) (unlockEvent ?lib address module tokenID amount SUCCESSFUL))) Q s"
    if h: "\<And>e Q s. ok (h e) Q s" for h e1 e2 x1 x2
    unfolding wp_bind[of "tryCatch _ _"]
    by (rule ok_catch[OF _ h], rule ok_userGet[OF assms(1)])
       (auto simp: Let_def wp_andThen[of "userSave _ _ _ _"] not_less intro!: t split: option.split)
  show ?thesis
    unfolding unlock_def Let_def wp_if using assms(3) by (simp, intro m[unfolded Let_def]) simp
qed

lemma tokenInv_nonnative: "\<not> nativeID cfg t \<Longrightarrow> tokenInv cfg (d(t := x)) s = tokenInv cfg d s"
  by (auto simp: tokenInv_def Let_def)

text \<open>The supply covers every account.\<close>

lemma supply_covers:
  assumes "tokenInv cfg d s" "nativeID cfg t" "d t = 0" "length address = ADDRESS_LENGTH"
    "acctAt (jslib cfg) (userStore s) (userKey address t) = Some a"
  shows "weight a \<le> supplyOf (jslib cfg) (supplyStore s) t"
proof -
  let ?lib = "jslib cfg"
  let ?f = "\<lambda>k bs. if drop ADDRESS_LENGTH k = t then bytesWeight ?lib bs else 0"
  have u: "usersOk ?lib (userStore s)" and e: "amountsOk ?lib (escrowStore s)"
    and eq: "userTotal ?lib (userStore s) t + escrowTotal ?lib (escrowStore s) t = supplyOf ?lib (supplyStore s) t"
    using assms by (auto simp: tokenInv_def Let_def)
  obtain bs where bs: "kvget (userStore s) (userKey address t) = Some bs" "dec (userSchema ?lib) bs = Inr a"
    using assms(5) by (auto simp: acctAt_def split: option.splits sum.splits)
  have nn: "0 \<le> bytesWeight ?lib b" if "(k, b) \<in> set (userStore s)" for k b
  proof -
    have "kvget (userStore s) k = Some b" using that u by (simp add: usersOk_def kvget_member)
    then obtain a' where "dec (userSchema ?lib) b = Inr a'" "accountOk ?lib a'" using u unfolding usersOk_def by blast
    then show ?thesis using weight_nonneg by (auto simp: bytesWeight_def accountOk_def)
  qed
  have "?f (userKey address t) bs \<le> kvsum ?f (userStore s)"
    by (rule kvsum_member_le[OF bs(1)]) (use nn in auto)
  then have "weight a \<le> userTotal ?lib (userStore s) t"
    using bs(2) assms(4) by (simp add: userTotal_def bytesWeight_def userKey_def)
  moreover have "0 \<le> bytesAmount ?lib b" if "(k, b) \<in> set (escrowStore s)" for k b
  proof -
    have "kvget (escrowStore s) k = Some b" using that e by (simp add: amountsOk_def kvget_member)
    then obtain n where "dec (amountStoreSchema ?lib) b = Inr n" "0 \<le> n" using e unfolding amountsOk_def by blast
    then show ?thesis by (simp add: bytesAmount_def)
  qed
  then have "0 \<le> escrowTotal ?lib (escrowStore s) t" unfolding escrowTotal_def by (intro kvsum_nonneg) auto
  ultimately show ?thesis using eq by simp
qed

lemma ok_addAvailableBalance:
  assumes "tokenInv cfg d s" "length address = ADDRESS_LENGTH"
    "\<And>a. acctAt (jslib cfg) (userStore s) (userKey address tokenID) = Some a \<Longrightarrow> accountOk (jslib cfg) a \<Longrightarrow> 0 \<le> availableBalance a + n"
    and "\<And>bs a. tokenInv cfg (d(tokenID := d tokenID + n)) (userStore_update (kvset (userKey address tokenID) bs) s) \<Longrightarrow>
            acctAt (jslib cfg) (userStore s) (userKey address tokenID) = Some a \<Longrightarrow>
            acctAt (jslib cfg) (kvset (userKey address tokenID) bs (userStore s)) =
              (acctAt (jslib cfg) (userStore s))(userKey address tokenID \<mapsto> credit n a) \<Longrightarrow>
            Q () (userStore_update (kvset (userKey address tokenID) bs) s)"
  shows "ok (addAvailableBalance (jslib cfg) address tokenID n) Q s"
  unfolding addAvailableBalance_def wp_bind credit_alt
proof (rule ok_userGet[OF assms(1)], rule ok_userSet[OF assms(1) _ assms(2)], goal_cases)
  case (1 a)
  then show ?case using assms(3) by (intro credit_pre) auto
next
  case (2 a bs)
  then show ?case by (intro assms(4)[of _ a]) simp_all
qed

lemma ok_addAmount:
  assumes "tokenInv cfg d s" "length chainID = CHAIN_ID_LENGTH" "0 \<le> n"
    and "\<And>bs. tokenInv cfg (d(tokenID := d tokenID + n)) (escrowStore_update (kvset (escrowKey chainID tokenID) bs) s) \<Longrightarrow>
            amountAt (jslib cfg) (kvset (escrowKey chainID tokenID) bs (escrowStore s)) =
              (amountAt (jslib cfg) (escrowStore s))(escrowKey chainID tokenID \<mapsto>
                 oldAmount (jslib cfg) (escrowStore s) (escrowKey chainID tokenID) + n) \<Longrightarrow>
            Q () (escrowStore_update (kvset (escrowKey chainID tokenID) bs) s)"
  shows "ok (addAmount (jslib cfg) chainID tokenID n) Q s"
  unfolding addAmount_def wp_bind
proof (rule ok_escrowGetOrDefault[OF assms(1)], rule ok_escrowSet[OF assms(1) _ assms(2)], goal_cases)
  case (2 m bs)
  then show ?case by (intro assms(4)) simp_all
qed (use assms(3) in simp)

lemma ok_payMessageFee:
  assumes "tokenInv cfg d s" "length address = ADDRESS_LENGTH" "length chainID = CHAIN_ID_LENGTH"
    and "\<And>s' A X S a t. tokenInv cfg d s' \<Longrightarrow> tokenView cfg s = (A, X, S) \<Longrightarrow>
            getMessageFeeTokenID io chainID s = Inr t \<Longrightarrow> A (userKey address t) = Some a \<Longrightarrow> fee \<le> availableBalance a \<Longrightarrow> 0 \<le> fee \<Longrightarrow>
            tokenView cfg s' = (A(userKey address t \<mapsto> normalised (jslib cfg) (credit (- fee) a)),
              if nativeID cfg t then X(escrowKey chainID t \<mapsto> (case X (escrowKey chainID t) of None \<Rightarrow> 0 | Some n \<Rightarrow> n) + fee) else X, S) \<Longrightarrow>
            Q () s'"
  shows "ok (payMessageFee cfg io address chainID fee) Q s"
proof -
  let ?lib = "jslib cfg"
  have c: "ok (userSave ?lib address t (credit (- fee) a)) (\<lambda>_. ok (bind (liftE (isNativeToken cfg t))
      (\<lambda>native. whenM native (addAmount ?lib chainID t fee))) Q) s"
    if f: "0 \<le> fee" and t: "getMessageFeeTokenID io chainID s = Inr t"
      and a: "acctAt ?lib (userStore s) (userKey address t) = Some a" "accountOk ?lib a" "fee \<le> availableBalance a" for t a
  proof (rule ok_userSave[OF assms(1) _ assms(2)], goal_cases)
    case 1
    then show ?case using a by (intro credit_pre) auto
  next
    case (2 bs a')
    let ?s2 = "userStore_update (kvset (userKey address t) bs) s"
    have i: "tokenInv cfg (d(t := d t - fee)) ?s2" using 2 a by simp
    have nn: "Q () ?s2" if "\<not> nativeID cfg t"
      by (rule assms(4)[of _ "acctAt ?lib (userStore s)" "amountAt ?lib (escrowStore s)" "amountAt ?lib (supplyStore s)" t a])
         (use i f t a 2 that in \<open>simp_all add: tokenView_def tokenInv_nonnative\<close>)
    have nat: "ok (addAmount ?lib chainID t fee) Q ?s2" if "nativeID cfg t"
    proof (rule ok_addAmount[OF i assms(3) f], goal_cases)
      case (1 bs2)
      then show ?case
        by (intro assms(4)[of _ "acctAt ?lib (userStore s)" "amountAt ?lib (escrowStore s)" "amountAt ?lib (supplyStore s)" t a])
           (use f t a \<open>acctAt ?lib (kvset _ bs (userStore s)) = _\<close> \<open>a' = _\<close> that in \<open>simp_all add: tokenView_def oldAmount_def\<close>)
    qed
    show ?case using nn nat by (auto simp: wp isNative_Inr split: sum.split)
  qed
  have g: "ok (userGet ?lib (userKey address t)) (\<lambda>a. ok (if availableBalance a < fee then throw x else
      andThen (userSave ?lib address t (credit (- fee) a)) (bind (liftE (isNativeToken cfg t))
      (\<lambda>native. whenM native (addAmount ?lib chainID t fee)))) Q) s"
    if "0 \<le> fee" "getMessageFeeTokenID io chainID s = Inr t" for t x
    by (rule ok_userGet[OF assms(1)]) (use c[OF that] in \<open>simp add: wp_andThen\<close>)
  show ?thesis
    unfolding payMessageFee_def credit_alt
    by (rule ok_if) (auto simp: wp_bind[of "query _"] wp_query wp_bind[of "userGet _ _"] split: sum.split intro!: g)
qed

lemma ok_initializeUserAccount:
  assumes "tokenInv cfg d s" "length address = ADDRESS_LENGTH"
  shows "ok (initializeUserAccount cfg address tokenID) (\<lambda>_. tokenInv cfg d) s"
  unfolding initializeUserAccount_def userSubstoreExists_def userHas_def wp_bind wp_storeHas
  using assms by (cases "kvhas (userStore s) (userKey address tokenID)") (auto simp: wp intro: ok_initUser)

lemma ok_initializeEscrowAccount:
  assumes "tokenInv cfg d s" "length chainID = CHAIN_ID_LENGTH"
  shows "ok (initializeEscrowAccount cfg chainID tokenID) (\<lambda>_. tokenInv cfg d) s"
proof -
  have "\<not> kvhas (escrowStore s) (escrowKey chainID tokenID) \<Longrightarrow>
      ok (internalInitializeEscrowAccount cfg chainID tokenID) (\<lambda>_. tokenInv cfg d) s"
    by (rule ok_initEscrow[OF assms(1) _ assms(2)])
  then show ?thesis
    unfolding initializeEscrowAccount_def escrowHas_def
    using assms by (auto simp: wp split: sum.split)
qed

text \<open>
  What the token module relies on when it sends a cross-chain message: sending keeps the
  invariant (the interoperability module only pays the message fee, by \<open>payMessageFee\<close>).
\<close>

definition sendOk :: "tokenConfig \<Rightarrow> 'a tokenCtx_scheme interop \<Rightarrow> bool" where
  "sendOk cfg io = (\<forall>f mo c r fee p ts s. length f = ADDRESS_LENGTH \<longrightarrow> length r = CHAIN_ID_LENGTH \<longrightarrow> tokenInv cfg (\<lambda>_. 0) s \<longrightarrow>
     ok (send io f mo c r fee p ts) (\<lambda>_. tokenInv cfg (\<lambda>_. 0)) s)"

lemma ok_checks:
  assumes "tokenInv cfg d s"
    and "amount \<le> (case acctAt (jslib cfg) (userStore s) (userKey address t) of None \<Rightarrow> 0 | Some a \<Rightarrow> availableBalance a) \<Longrightarrow> Q () s"
    and "0 \<le> fee"
  shows "ok (forEach (balanceChecks t amount ft fee) (\<lambda>(ct, ca). bind (getAvailableBalance cfg address ct)
      (\<lambda>b. if b < ca then andThen ev (throw x) else ret ()))) Q s"
proof -
  have one: "ok (bind (getAvailableBalance cfg address ct) (\<lambda>b. if b < ca then andThen ev (throw x) else ret ())) P s"
    if "ca \<le> (case acctAt (jslib cfg) (userStore s) (userKey address ct) of None \<Rightarrow> 0 | Some a \<Rightarrow> availableBalance a) \<Longrightarrow> P () s"
    for ct ca P
    unfolding wp_bind by (rule ok_getAvailableBalance[OF assms(1)]) (use that in \<open>auto simp: wp_ret\<close>)
  show ?thesis
  proof (cases "ft = t")
    case True
    then show ?thesis using assms(2,3)
      by (auto simp: balanceChecks_def wp_andThen wp_ret[THEN ext] intro!: one)
  next
    case False
    then show ?thesis using assms(2,3)
      by (auto simp: balanceChecks_def wp_andThen[THEN ext] wp_andThen wp_ret[THEN ext] intro!: one)
  qed
qed

lemma ok_transferCrossChain:
  assumes "tokenInv cfg (\<lambda>_. 0) s" "length sender = ADDRESS_LENGTH" "length chainID = CHAIN_ID_LENGTH" "sendOk cfg io"
  shows "ok (transferCrossChain cfg io sender chainID recipient t amount fee data) (\<lambda>_. tokenInv cfg (\<lambda>_. 0)) s"
proof -
  let ?lib = "jslib cfg" and ?inv = "\<lambda>_ :: unit. tokenInv cfg (\<lambda>_. 0)"
  let ?bal = "\<lambda>s. case acctAt ?lib (userStore s) (userKey sender t) of None \<Rightarrow> 0 | Some a \<Rightarrow> availableBalance a"
  let ?fin = "andThen (transferCrossChainEvent ?lib sender recipient t amount chainID SUCCESSFUL)
     (bind (liftE (encodeCCTransfer ?lib t amount sender recipient data)) (\<lambda>params.
      send io sender ''token'' CROSS_CHAIN_COMMAND_NAME_TRANSFER chainID fee params None))"
  have fin: "ok ?fin ?inv s1" if "tokenInv cfg (\<lambda>_. 0) s1" for s1
    unfolding wp_andThen
    by (rule ok_tokenEvents) (use that assms(2,3,4) in \<open>auto simp: wp sendOk_def split: sum.split\<close>)
  let ?mv = "\<lambda>native. andThen (addAvailableBalance ?lib sender t (- amount)) (andThen (whenM native (addAmount ?lib chainID t amount)) ?fin)"
  have mv: "ok (?mv native) ?inv s1"
    if i: "tokenInv cfg (\<lambda>_. 0) s1" and n: "native = nativeID cfg t" and b: "amount \<le> ?bal s1" "0 < amount" for s1 native
    unfolding wp_andThen[of "addAvailableBalance _ _ _ _"]
  proof (rule ok_addAvailableBalance[OF i assms(2)], goal_cases)
    case (1 a)
    then show ?case using b by simp
  next
    case (2 bs a)
    let ?s2 = "userStore_update (kvset (userKey sender t) bs) s1"
    have "ok (addAmount ?lib chainID t amount) (\<lambda>_. ok ?fin ?inv) ?s2"
      by (rule ok_addAmount[OF 2(1) assms(3)]) (use b(2) in \<open>auto intro!: fin simp: fun_upd_idem\<close>)
    moreover have "\<not> nativeID cfg t \<Longrightarrow> ok ?fin ?inv ?s2" using 2(1) by (intro fin) (simp add: tokenInv_nonnative)
    ultimately show ?case using n by (auto simp: wp_andThen[of "whenM _ _"] wp_whenM)
  qed
  let ?es = "\<lambda>native. andThen (whenM native (bind (escrowHas (escrowKey chainID t)) (\<lambda>escrowExist.
                 whenM (\<not> escrowExist) (internalInitializeEscrowAccount cfg chainID t)))) (?mv native)"
  have es: "ok (?es native) ?inv s" if n: "native = nativeID cfg t" and b: "amount \<le> ?bal s" "0 < amount" for native
  proof -
    have "ok (internalInitializeEscrowAccount cfg chainID t) (\<lambda>_. ok (?mv native) ?inv) s"
      if "\<not> kvhas (escrowStore s) (escrowKey chainID t)"
      by (rule ok_initEscrow[OF assms(1) that assms(3)], rule mv[OF _ n _ b(2)])
         (use b(1) in \<open>auto simp: tokenView_def\<close>)
    then show ?thesis using mv[OF assms(1) n b]
      by (auto simp: wp_andThen[of "whenM _ _"] wp_whenM wp_bind escrowHas_def wp_storeHas)
  qed
  show ?thesis
    unfolding transferCrossChain_def Let_def
    apply (intro ok_if ok_then_throw)
      apply (simp_all add: wp_ret assms(1) wp_bind[of "query _"] wp_query split: sum.split)
    apply (intro impI allI)
    subgoal for ft
      unfolding wp_andThen[of "forEach _ _"]
      by (rule ok_checks[OF assms(1)])
         (simp_all add: wp_bind[of "liftE _"] wp_liftE splitTokenID_def isNative_Inr not_le not_less es split: sum.split)
    done
qed

end
