(* ===== verification/TokenTheorems.thy ===== *)
theory TokenTheorems
  imports TokenProps
begin

text \<open>
  The token method as a state machine: the steps a caller can take, the supply invariant on
  every reachable state, and the effect of the operations on balances, locks and supply.
\<close>

section \<open>Steps\<close>

lemma tokenInv_supported [simp]: "tokenInv cfg d (supportedStore_update f s) = tokenInv cfg d s"
  by (simp add: tokenInv_def)

lemma ok_supportedDels: "tokenInv cfg d s \<Longrightarrow> ok (forEach es (\<lambda>(key, _). supportedDel key)) (\<lambda>_. tokenInv cfg d) s"
  by (rule wp_forEach) (auto simp: supportedDel_def wp split: prod.split)

lemma ok_removeAll:
  "(\<And>t. tokenInv cfg d t \<Longrightarrow> Q () t) \<Longrightarrow> tokenInv cfg d s \<Longrightarrow> ok (supportedRemoveAll lib) Q s"
  unfolding supportedRemoveAll_def supportedGetAll_def
  by (auto simp: wp split: sum.split intro: ok_mono[OF ok_supportedDels])

text \<open>The operations on supported tokens leave balances and supply alone.\<close>

datatype supportOp =
    SupportAll | RemoveAll | SupportChain bytes | RemoveChain bytes | SupportToken bytes | RemoveToken bytes

fun runSupport :: "tokenConfig \<Rightarrow> supportOp \<Rightarrow> ('a tokenCtx_scheme, unit) m" where
  "runSupport cfg SupportAll = supportAllTokens cfg"
| "runSupport cfg RemoveAll = removeAllTokensSupport cfg"
| "runSupport cfg (SupportChain c) = supportAllTokensFromChainID cfg c"
| "runSupport cfg (RemoveChain c) = removeAllTokensSupportFromChainID cfg c"
| "runSupport cfg (SupportToken t) = supportTokenID cfg t"
| "runSupport cfg (RemoveToken t) = removeSupport cfg t"

lemma ok_runSupport: "tokenInv cfg d s \<Longrightarrow> ok (runSupport cfg x) (\<lambda>_. tokenInv cfg d) s"
proof (cases x)
  case SupportAll
  assume "tokenInv cfg d s"
  then show ?thesis unfolding SupportAll runSupport.simps supportAllTokens_def supportAll_def wp_andThen
    by (rule ok_removeAll[rotated]) (auto simp: supportedSet_def wp split: sum.split intro!: ok_tokenEvents)
next
  case RemoveAll
  assume "tokenInv cfg d s"
  then show ?thesis unfolding RemoveAll runSupport.simps removeAllTokensSupport_def wp_andThen
    by (rule ok_removeAll[rotated]) (auto intro!: ok_tokenEvents)
next
  case (SupportChain c)
  assume "tokenInv cfg d s"
  then show ?thesis unfolding SupportChain runSupport.simps supportAllTokensFromChainID_def
    by (auto simp: supportedHas_def supportedSet_def wp split: sum.split intro!: ok_tokenEvents)
next
  case (RemoveChain c)
  assume "tokenInv cfg d s"
  then show ?thesis unfolding RemoveChain runSupport.simps removeAllTokensSupportFromChainID_def
    by (auto simp: supportedHas_def supportedDel_def wp split: sum.split intro!: ok_tokenEvents)
next
  case (SupportToken t)
  assume i: "tokenInv cfg d s"
  have "ok (supportToken cfg t) (\<lambda>_. tokenInv cfg d) s"
    unfolding supportToken_def allSupported_def
    using i by (auto simp: supportedHas_def supportedGet_def supportedSet_def Let_def wp split: sum.split option.split prod.split)
  then show ?thesis unfolding SupportToken runSupport.simps supportTokenID_def wp_andThen
    by (rule ok_mono) (auto intro!: ok_tokenEvents)
next
  case (RemoveToken t)
  assume "tokenInv cfg d s"
  then show ?thesis unfolding RemoveToken runSupport.simps removeSupport_def
    by (auto simp: supportedHas_def supportedGet_def supportedDel_def indexOfBuffer_def wp split: sum.split option.split prod.split intro!: ok_tokenEvents)
qed

text \<open>
  One successful call of a method of the module. Addresses have 20 bytes, chain IDs 4, and
  module names are what the codec stores unchanged.
\<close>

inductive tokenStep :: "tokenConfig \<Rightarrow> 'a tokenCtx_scheme interop \<Rightarrow> 'a tokenCtx_scheme \<Rightarrow> 'a tokenCtx_scheme \<Rightarrow> bool"
  for cfg io where
  stepInitToken: "initializeToken cfg t s = (Inr (), s') \<Longrightarrow> tokenStep cfg io s s'"
| stepMint: "length a = ADDRESS_LENGTH \<Longrightarrow> mint cfg a t n s = (Inr (), s') \<Longrightarrow> tokenStep cfg io s s'"
| stepBurn: "length a = ADDRESS_LENGTH \<Longrightarrow> burn cfg a t n s = (Inr (), s') \<Longrightarrow> tokenStep cfg io s s'"
| stepInitUser: "length a = ADDRESS_LENGTH \<Longrightarrow> initializeUserAccount cfg a t s = (Inr (), s') \<Longrightarrow> tokenStep cfg io s s'"
| stepInitEscrow: "length c = CHAIN_ID_LENGTH \<Longrightarrow> initializeEscrowAccount cfg c t s = (Inr (), s') \<Longrightarrow> tokenStep cfg io s s'"
| stepTransfer: "length a = ADDRESS_LENGTH \<Longrightarrow> length b = ADDRESS_LENGTH \<Longrightarrow> transfer cfg a b t n s = (Inr (), s') \<Longrightarrow> tokenStep cfg io s s'"
| stepTransferCC: "length a = ADDRESS_LENGTH \<Longrightarrow> length c = CHAIN_ID_LENGTH \<Longrightarrow>
     transferCrossChain cfg io a c b t n fee data s = (Inr (), s') \<Longrightarrow> tokenStep cfg io s s'"
| stepLock: "length a = ADDRESS_LENGTH \<Longrightarrow> nameOk (jslib cfg) mo \<Longrightarrow> lock cfg a mo t n s = (Inr (), s') \<Longrightarrow> tokenStep cfg io s s'"
| stepUnlock: "length a = ADDRESS_LENGTH \<Longrightarrow> unlock cfg a mo t n s = (Inr (), s') \<Longrightarrow> tokenStep cfg io s s'"
| stepPayMessageFee: "length a = ADDRESS_LENGTH \<Longrightarrow> length c = CHAIN_ID_LENGTH \<Longrightarrow>
     payMessageFee cfg io a c fee s = (Inr (), s') \<Longrightarrow> tokenStep cfg io s s'"
| stepSupport: "runSupport cfg x s = (Inr (), s') \<Longrightarrow> tokenStep cfg io s s'"

lemma okD: "ok c (\<lambda>_. P) s \<Longrightarrow> c s = (Inr a, t) \<Longrightarrow> P t"
  by (drule (1) wp_success)

lemma ok_nonpos: "n \<le> 0 \<Longrightarrow> tokenInv cfg d s \<Longrightarrow> ok (mint cfg a t n) (\<lambda>_. tokenInv cfg d) s"
  "n \<le> 0 \<Longrightarrow> tokenInv cfg d s \<Longrightarrow> ok (burn cfg a t n) (\<lambda>_. tokenInv cfg d) s"
  "n \<le> 0 \<Longrightarrow> tokenInv cfg d s \<Longrightarrow> ok (transfer cfg a b t n) (\<lambda>_. tokenInv cfg d) s"
  "n \<le> 0 \<Longrightarrow> tokenInv cfg d s \<Longrightarrow> ok (lock cfg a mo t n) (\<lambda>_. tokenInv cfg d) s"
  "n \<le> 0 \<Longrightarrow> tokenInv cfg d s \<Longrightarrow> ok (unlock cfg a mo t n) (\<lambda>_. tokenInv cfg d) s"
  by (simp_all add: mint_def burn_def transfer_def lock_def unlock_def wp)

lemma ok_burn_inv:
  assumes "tokenInv cfg (\<lambda>_. 0) s" "length a = ADDRESS_LENGTH"
  shows "ok (burn cfg a t n) (\<lambda>_. tokenInv cfg (\<lambda>_. 0)) s"
proof (cases "n \<le> 0")
  case False
  show ?thesis
  proof (rule ok_burn[OF assms])
    fix u m
    assume u: "nativeID cfg t" "acctAt (jslib cfg) (userStore s) (userKey a t) = Some u" "n \<le> availableBalance u"
      "accountOk (jslib cfg) u" "amountAt (jslib cfg) (supplyStore s) t = Some m"
    have "availableBalance u \<le> weight u"
      using u(4) by (auto simp: weight_def accountOk_def accountPre_def intro!: sum_list_nonneg)
    with supply_covers[OF assms(1) u(1) _ assms(2) u(2)] u(3,5) show "n \<le> m" by (simp add: supplyOf_def)
  qed (use False in auto)
qed (use assms in \<open>simp add: ok_nonpos\<close>)

lemma ok_inv:
  assumes "tokenInv cfg d s" "length a = ADDRESS_LENGTH"
  shows "ok (mint cfg a t n) (\<lambda>_. tokenInv cfg d) s"
    and "length b = ADDRESS_LENGTH \<Longrightarrow> ok (transfer cfg a b t n) (\<lambda>_. tokenInv cfg d) s"
    and "nameOk (jslib cfg) mo \<Longrightarrow> ok (lock cfg a mo t n) (\<lambda>_. tokenInv cfg d) s"
    and "ok (unlock cfg a mo t n) (\<lambda>_. tokenInv cfg d) s"
    and "length c = CHAIN_ID_LENGTH \<Longrightarrow> ok (payMessageFee cfg io a c n) (\<lambda>_. tokenInv cfg d) s"
proof -
  show "ok (mint cfg a t n) (\<lambda>_. tokenInv cfg d) s"
    by (cases "n \<le> 0", simp add: ok_nonpos assms, rule ok_mint[OF assms]) auto
  show "ok (transfer cfg a b t n) (\<lambda>_. tokenInv cfg d) s" if "length b = ADDRESS_LENGTH"
    by (cases "n \<le> 0", simp add: ok_nonpos assms, rule ok_transfer[OF assms that]) auto
  show "ok (lock cfg a mo t n) (\<lambda>_. tokenInv cfg d) s" if "nameOk (jslib cfg) mo"
    by (cases "n \<le> 0", simp add: ok_nonpos assms, rule ok_lock[OF assms _ that]) auto
  show "ok (unlock cfg a mo t n) (\<lambda>_. tokenInv cfg d) s"
    by (cases "n \<le> 0", simp add: ok_nonpos assms, rule ok_unlock[OF assms]) auto
  show "ok (payMessageFee cfg io a c n) (\<lambda>_. tokenInv cfg d) s" if "length c = CHAIN_ID_LENGTH"
    by (rule ok_payMessageFee[OF assms that])
qed

text \<open>
  C2: supply is conserved. For every native token, what users hold (available and locked)
  plus what is in escrow equals the recorded total supply, with every amount in the uint64
  range; this holds after any sequence of successful calls of the token method, from any
  state in which it holds, given that sending a cross-chain message keeps it.
\<close>

theorem token_supply_conserved:
  assumes "(tokenStep cfg io)\<^sup>*\<^sup>* s s'" "tokenInv cfg (\<lambda>_. 0) s" "sendOk cfg io"
  shows "tokenInv cfg (\<lambda>_. 0) s'"
  using assms(1,2)
proof (induction rule: rtranclp_induct)
  case (step s1 s2)
  have i: "tokenInv cfg (\<lambda>_. 0) s1" using step by simp
  from step(2) show ?case
  proof cases
    case (stepInitToken t)
    then show ?thesis by (rule okD[rotated]) (rule ok_initializeToken[OF i])
  next
    case (stepMint a t n)
    then show ?thesis using okD[OF ok_inv(1)[OF i]] by blast
  next
    case (stepBurn a t n)
    then show ?thesis using ok_burn_inv[OF i] by (auto intro: okD)
  next
    case (stepInitUser a t)
    then show ?thesis using ok_initializeUserAccount[OF i] by (auto intro: okD)
  next
    case (stepInitEscrow c t)
    then show ?thesis using ok_initializeEscrowAccount[OF i] by (auto intro: okD)
  next
    case (stepTransfer a b t n)
    then show ?thesis using okD[OF ok_inv(2)[OF i]] by blast
  next
    case (stepTransferCC a c b t n fee data)
    then show ?thesis using okD[OF ok_transferCrossChain[OF i _ _ assms(3)]] by blast
  next
    case (stepLock a mo t n)
    then show ?thesis using okD[OF ok_inv(3)[OF i]] by blast
  next
    case (stepUnlock a mo t n)
    then show ?thesis using okD[OF ok_inv(4)[OF i]] by blast
  next
    case (stepPayMessageFee a c fee)
    then show ?thesis using okD[OF ok_inv(5)[OF i]] by blast
  next
    case (stepSupport x)
    then show ?thesis using ok_runSupport[OF i] by (auto intro: okD)
  qed
qed

definition exCfg :: tokenConfig where
  "exCfg = \<lparr>jslib = asciiLib, ownChainID = [0, 0, 0, 1], userAccountInitializationFee = 5, escrowAccountInitializationFee = 5\<rparr>"

definition exState :: tokenCtx where
  "exState = \<lparr>cHeight = 1, cTopics = [], cEvents = [], cStore = [CONTEXT_STORE_KEY_AVAILABLE_FEE \<mapsto> CBigInt 100],
     userStore = [], escrowStore = [], supplyStore = [], supportedStore = []\<rparr>"

definition exToken :: bytes where "exToken = [0, 0, 0, 1, 0, 0, 0, 0]"
definition exAlice :: bytes where "exAlice = replicate 20 1"
definition exBob :: bytes where "exBob = replicate 20 2"

definition exInterop :: "tokenCtx interop" where
  "exInterop = (let io = \<lparr>getMessageFeeTokenID = (\<lambda>_ _. Inr exToken), getMessageFeeTokenIDFromCCM = (\<lambda>_ _. Inr exToken),
       send = (\<lambda>_ _ _ _ _ _ _. ret ()), terminateChain = (\<lambda>_. ret ())\<rparr> in
     io\<lparr>send := (\<lambda>f _ _ r fee _ _. payMessageFee exCfg io f r fee)\<rparr>)"

definition "exState1 = snd (initializeToken exCfg exToken exState)"
definition "exState2 = snd (mint exCfg exAlice exToken 1000 exState1)"
definition "exState3 = snd (transfer exCfg exAlice exBob exToken 300 exState2)"

lemma exRuns:
  "fst (initializeToken exCfg exToken exState) = Inr ()"
  "fst (mint exCfg exAlice exToken 1000 exState1) = Inr ()"
  "fst (transfer exCfg exAlice exBob exToken 300 exState2) = Inr ()"
  by code_simp+

lemma exSend: "sendOk exCfg exInterop"
  unfolding sendOk_def exInterop_def Let_def by (simp add: ok_inv(5))

lemma exInv:
  "tokenInv exCfg (\<lambda>_. 0) exState" "tokenInv exCfg (\<lambda>_. 0) exState1" "tokenInv exCfg (\<lambda>_. 0) exState2"
proof -
  show 0: "tokenInv exCfg (\<lambda>_. 0) exState"
    by (simp add: tokenInv_def exState_def usersOk_def amountsOk_def userTotal_def escrowTotal_def supplyOf_def amountAt_def Let_def)
  show 1: "tokenInv exCfg (\<lambda>_. 0) exState1"
    using okD[OF ok_initializeToken[OF 0], of exToken "tokenInv exCfg (\<lambda>_. 0)" "()" exState1] exRuns(1)
    by (metis exState1_def prod.collapse)
  show "tokenInv exCfg (\<lambda>_. 0) exState2"
    using okD[OF ok_inv(1)[OF 1], of exAlice exToken 1000 "()" exState2] exRuns(2)
    by (metis exState2_def prod.collapse ADDRESS_LENGTH_def exAlice_def length_replicate)
qed

theorem token_supply_conserved_witness:
  "tokenInv exCfg (\<lambda>_. 0) exState3 \<and>
   amountAt asciiLib (supplyStore exState3) exToken = Some 1000 \<and>
   map_option availableBalance (acctAt asciiLib (userStore exState3) (userKey exAlice exToken)) = Some 700 \<and>
   map_option availableBalance (acctAt asciiLib (userStore exState3) (userKey exBob exToken)) = Some 300"
proof -
  have "tokenStep exCfg exInterop exState exState1"
    by (rule stepInitToken[of _ exToken], rule prod_eqI) (simp_all add: exRuns exState1_def)
  moreover have "tokenStep exCfg exInterop exState1 exState2"
    by (rule stepMint[of exAlice _ exToken 1000], simp add: exAlice_def ADDRESS_LENGTH_def, rule prod_eqI) (simp_all add: exRuns exState2_def)
  moreover have "tokenStep exCfg exInterop exState2 exState3"
    by (rule stepTransfer[of exAlice exBob _ exToken 300], simp add: exAlice_def ADDRESS_LENGTH_def,
        simp add: exBob_def ADDRESS_LENGTH_def, rule prod_eqI) (simp_all add: exRuns exState3_def)
  ultimately have "(tokenStep exCfg exInterop)\<^sup>*\<^sup>* exState exState3" by (meson r_into_rtranclp rtranclp_trans)
  then have "tokenInv exCfg (\<lambda>_. 0) exState3" using token_supply_conserved exInv(1) exSend by blast
  moreover have "amountAt asciiLib (supplyStore exState3) exToken = Some 1000" by code_simp
  moreover have "map_option availableBalance (acctAt asciiLib (userStore exState3) (userKey exAlice exToken)) = Some 700" by code_simp
  moreover have "map_option availableBalance (acctAt asciiLib (userStore exState3) (userKey exBob exToken)) = Some 300" by code_simp
  ultimately show ?thesis by simp
qed

section \<open>Effects of the operations\<close>

text \<open>
  a transfer moves exactly the amount. A successful \<open>transfer\<close> between two different
  accounts needs a sender account with enough available balance; it takes the amount from
  it, adds it to the recipient's account (created when it does not exist), and changes no
  other account, no escrow and no supply.
\<close>

theorem transfer_moves_amount:
  assumes "tokenInv cfg d s" "length sender = ADDRESS_LENGTH" "length recipient = ADDRESS_LENGTH" "sender \<noteq> recipient"
    "0 < amount" "transfer cfg sender recipient t amount s = (Inr (), s')" "tokenView cfg s = (A, X, S)"
  shows "\<exists>a. A (userKey sender t) = Some a \<and> amount \<le> availableBalance a \<and>
     tokenView cfg s' = (A(userKey sender t \<mapsto> normalised (jslib cfg) (credit (- amount) a),
       userKey recipient t \<mapsto> normalised (jslib cfg) (credit amount
         (case A (userKey recipient t) of None \<Rightarrow> emptyAccount | Some r \<Rightarrow> r))), X, S)"
proof -
  have k: "userKey sender t \<noteq> userKey recipient t" using assms(4) by (simp add: userKey_def)
  have "ok (transfer cfg sender recipient t amount) (\<lambda>_ s'. \<exists>a. A (userKey sender t) = Some a \<and> amount \<le> availableBalance a \<and>
     tokenView cfg s' = (A(userKey sender t \<mapsto> normalised (jslib cfg) (credit (- amount) a),
       userKey recipient t \<mapsto> normalised (jslib cfg) (credit amount
         (case A (userKey recipient t) of None \<Rightarrow> emptyAccount | Some r \<Rightarrow> r))), X, S)) s"
    by (rule ok_transfer[OF assms(1,2,3,5)])
       (use assms(7) k in \<open>auto simp: moved_def Let_def fun_upd_twist[OF k] split: option.splits if_splits\<close>)
  from wp_success[OF this assms(6)] show ?thesis .
qed

theorem transfer_moves_amount_witness:
  "\<exists>a A X S. tokenView exCfg exState2 = (A, X, S) \<and> A (userKey exAlice exToken) = Some a \<and> 300 \<le> availableBalance a \<and>
     tokenView exCfg exState3 = (A(userKey exAlice exToken \<mapsto> normalised asciiLib (credit (- 300) a),
       userKey exBob exToken \<mapsto> normalised asciiLib (credit 300
         (case A (userKey exBob exToken) of None \<Rightarrow> emptyAccount | Some r \<Rightarrow> r))), X, S)"
proof -
  obtain A X S where v: "tokenView exCfg exState2 = (A, X, S)" by (cases "tokenView exCfg exState2")
  have "transfer exCfg exAlice exBob exToken 300 exState2 = (Inr (), exState3)"
    using exRuns(3) by (metis exState3_def prod.collapse)
  then show ?thesis
    using transfer_moves_amount[of exCfg "\<lambda>_. 0" exState2 exAlice exBob 300 exToken exState3 A X S] v exInv(3)
    by (auto simp: exAlice_def exBob_def ADDRESS_LENGTH_def exCfg_def)
qed

text \<open>Locked amounts, by module.\<close>

definition lockedSum :: "string \<Rightarrow> lockedBalance list \<Rightarrow> int" where
  "lockedSum mo ls = sum_list (map (\<lambda>l. if lbModule l = mo then lbAmount l else 0) ls)"

lemma lockedSum_zero: "mo \<notin> lbModule ` set ls \<Longrightarrow> lockedSum mo ls = 0"
  by (induction ls) (auto simp: lockedSum_def)

lemma find_lockedSum:
  "distinct (map lbModule ls) \<Longrightarrow> (case find (\<lambda>lb. lbModule lb = mo) ls of None \<Rightarrow> 0 | Some lb \<Rightarrow> lbAmount lb) = lockedSum mo ls"
proof (induction ls)
  case (Cons l ls)
  show ?case
  proof (cases "lbModule l = mo")
    case True
    then have "lockedSum mo ls = 0" using Cons.prems by (intro lockedSum_zero) auto
    with True show ?thesis by (simp add: lockedSum_def)
  qed (use Cons in \<open>simp add: lockedSum_def\<close>)
qed (simp add: lockedSum_def)

lemma lockedAmount_sum: "distinct (map lbModule (lockedBalances a)) \<Longrightarrow> lockedAmount a mo = lockedSum mo (lockedBalances a)"
  by (simp add: lockedAmount_def find_lockedSum)

lemma lockedSum_normalised: "lockedSum mo (lockedBalances (normalised lib a)) = lockedSum mo (lockedBalances a)"
proof -
  have "lockedSum mo (filter (\<lambda>l. lbAmount l \<noteq> 0) ls) = lockedSum mo ls" for ls
    by (induction ls) (auto simp: lockedSum_def)
  then show ?thesis by (simp add: normalised_def lockedSum_def)
qed

lemma lockIn_lockedSum:
  "lockedSum mo' (lockIn mo n ls) = lockedSum mo' ls + (if mo' = mo then n else 0)"
  using findIndex_Some[of "\<lambda>b. lbModule b = mo" ls]
  by (cases "findIndex (\<lambda>b. lbModule b = mo) ls") (auto simp: lockIn_def lockedSum_def sum_list_update_int)

lemma accountOk_distinct: "accountOk lib a \<Longrightarrow> distinct (map lbModule (lockedBalances a))"
  by (simp add: accountOk_def accountPre_def)

lemma tokenInv_account:
  "tokenInv cfg d s \<Longrightarrow> acctAt (jslib cfg) (userStore s) k = Some a \<Longrightarrow> accountOk (jslib cfg) a"
  by (fastforce simp: tokenInv_def Let_def usersOk_def acctAt_def split: option.splits sum.splits)

definition locksTo :: "(bytes \<Rightarrow> userAccount option) \<Rightarrow> bytes \<Rightarrow> string \<Rightarrow> int \<Rightarrow> (bytes \<Rightarrow> userAccount option) \<Rightarrow> bool" where
  "locksTo A k mo n A' = (\<exists>a a'. A k = Some a \<and> A' = A(k \<mapsto> a') \<and> availableBalance a' = availableBalance a - n \<and>
     (\<forall>mo'. lockedAmount a' mo' = lockedAmount a mo' + (if mo' = mo then n else 0)))"

lemma lock_locksTo:
  assumes "tokenInv cfg d s" "length address = ADDRESS_LENGTH" "0 < n" "nameOk (jslib cfg) mo" "lock cfg address mo t n s = (Inr (), s')"
    "tokenView cfg s = (A, X, S)" "tokenView cfg s' = (A', X', S')"
  shows "locksTo A (userKey address t) mo n A'" "X' = X" "S' = S" "tokenInv cfg d s'"
proof -
  have "ok (lock cfg address mo t n) (\<lambda>_ s'. tokenInv cfg d s' \<and>
      (\<exists>A'. locksTo A (userKey address t) mo n A' \<and> tokenView cfg s' = (A', X, S))) s"
  proof (rule ok_lock[OF assms(1-4)], goal_cases)
    case (1 s1 A1 X1 S1 a)
    let ?a' = "normalised (jslib cfg) \<lparr>availableBalance = availableBalance a - n, lockedBalances = lockIn mo n (lockedBalances a)\<rparr>"
    have A: "A1 = A" "X1 = X" "S1 = S" using 1 assms(6) by auto
    have a: "accountOk (jslib cfg) a" using 1 tokenInv_account[OF assms(1)] by (auto simp: tokenView_def)
    have a': "accountOk (jslib cfg) ?a'"
      using tokenInv_account[OF 1(1), of "userKey address t"] 1(5) by (simp add: tokenView_def)
    have "lockedAmount ?a' mo' = lockedAmount a mo' + (if mo' = mo then n else 0)" for mo'
      by (simp add: lockedAmount_sum accountOk_distinct[OF a] accountOk_distinct[OF a'] lockedSum_normalised lockIn_lockedSum)
    then show ?case using 1 A unfolding locksTo_def by fastforce
  qed
  from wp_success[OF this assms(5)] assms(7)
  show "locksTo A (userKey address t) mo n A'" "X' = X" "S' = S" "tokenInv cfg d s'" by auto
qed

lemma unlock_locksTo:
  assumes "tokenInv cfg d s" "length address = ADDRESS_LENGTH" "0 < n" "unlock cfg address mo t n s = (Inr (), s')"
    "tokenView cfg s = (A, X, S)" "tokenView cfg s' = (A', X', S')"
  shows "locksTo A (userKey address t) mo (- n) A'" "X' = X" "S' = S" "tokenInv cfg d s'"
    "\<exists>a. A (userKey address t) = Some a \<and> n \<le> lockedAmount a mo"
proof -
  have "ok (unlock cfg address mo t n) (\<lambda>_ s'. tokenInv cfg d s' \<and> (\<exists>a. A (userKey address t) = Some a \<and> n \<le> lockedAmount a mo) \<and>
      (\<exists>A'. locksTo A (userKey address t) mo (- n) A' \<and> tokenView cfg s' = (A', X, S))) s"
  proof (rule ok_unlock[OF assms(1-3)], goal_cases)
    case (1 s1 A1 X1 S1 a i)
    let ?l = "lockedBalances a ! i"
    let ?a' = "normalised (jslib cfg) \<lparr>availableBalance = availableBalance a + n, lockedBalances = (lockedBalances a)[i := ?l\<lparr>lbAmount := lbAmount ?l - n\<rparr>]\<rparr>"
    have A: "A1 = A" "X1 = X" "S1 = S" using 1 assms(5) by auto
    have i: "i < length (lockedBalances a)" "lbModule ?l = mo" using findIndex_Some[OF 1(4)] by auto
    have a: "accountOk (jslib cfg) a" using 1 tokenInv_account[OF assms(1)] by (auto simp: tokenView_def)
    have a': "accountOk (jslib cfg) ?a'"
      using tokenInv_account[OF 1(1), of "userKey address t"] 1(6) by (simp add: tokenView_def)
    have L: "lockedAmount ?a' mo' = lockedAmount a mo' + (if mo' = mo then - n else 0)" for mo'
      using i by (simp add: lockedAmount_sum accountOk_distinct[OF a] accountOk_distinct[OF a'] lockedSum_normalised)
        (simp add: lockedSum_def sum_list_update_int)
    have "lockedAmount ?a' mo \<ge> 0"
      using a' by (simp add: lockedAmount_sum accountOk_distinct[OF a'] lockedSum_def)
        (auto simp: accountOk_def accountPre_def intro!: sum_list_nonneg)
    then have "n \<le> lockedAmount a mo" using L[of mo] by simp
    then show ?case using 1 A L unfolding locksTo_def by fastforce
  qed
  from wp_success[OF this assms(4)] assms(6)
  show "locksTo A (userKey address t) mo (- n) A'" "X' = X" "S' = S" "tokenInv cfg d s'"
    "\<exists>a. A (userKey address t) = Some a \<and> n \<le> lockedAmount a mo" by auto
qed

text \<open>
  locks. A successful \<open>lock\<close> moves the amount from the available balance of the account
  to the locked amount of that module and of no other; a successful \<open>unlock\<close> moves at most
  what the module has locked back; locking and then unlocking the same amount restores the
  available balance and every module's locked amount, and touches no other account.
\<close>

theorem lock_unlock:
  assumes "tokenInv cfg d s" "length address = ADDRESS_LENGTH" "0 < n" "nameOk (jslib cfg) mo"
    "lock cfg address mo t n s = (Inr (), s1)" "unlock cfg address mo t n s1 = (Inr (), s2)"
    "tokenView cfg s = (A, X, S)" "tokenView cfg s1 = (A1, X1, S1)" "tokenView cfg s2 = (A2, X2, S2)"
  shows "locksTo A (userKey address t) mo n A1 \<and> locksTo A1 (userKey address t) mo (- n) A2 \<and> X2 = X \<and> S2 = S \<and>
    (\<exists>a a2. A (userKey address t) = Some a \<and> A2 = A(userKey address t \<mapsto> a2) \<and>
       availableBalance a2 = availableBalance a \<and> (\<forall>mo'. lockedAmount a2 mo' = lockedAmount a mo'))"
proof -
  note l = lock_locksTo[OF assms(1-5,7,8)]
  note u = unlock_locksTo[OF l(4) assms(2,3,6,8,9)]
  have "\<exists>a a2. A (userKey address t) = Some a \<and> A2 = A(userKey address t \<mapsto> a2) \<and>
       availableBalance a2 = availableBalance a \<and> (\<forall>mo'. lockedAmount a2 mo' = lockedAmount a mo')"
    using l(1) u(1) unfolding locksTo_def by fastforce
  with l u show ?thesis by simp
qed

definition "exState4 = snd (lock exCfg exAlice ''pos'' exToken 200 exState2)"
definition "exState5 = snd (unlock exCfg exAlice ''pos'' exToken 200 exState4)"

theorem lock_unlock_witness:
  "\<exists>A A1 A2. acctAt asciiLib (userStore exState2) = A \<and> acctAt asciiLib (userStore exState4) = A1 \<and> acctAt asciiLib (userStore exState5) = A2 \<and>
     locksTo A (userKey exAlice exToken) ''pos'' 200 A1 \<and> locksTo A1 (userKey exAlice exToken) ''pos'' (- 200) A2"
proof -
  have "fst (lock exCfg exAlice ''pos'' exToken 200 exState2) = Inr ()" by code_simp
  then have l: "lock exCfg exAlice ''pos'' exToken 200 exState2 = (Inr (), exState4)" by (metis exState4_def prod.collapse)
  have "fst (unlock exCfg exAlice ''pos'' exToken 200 exState4) = Inr ()" by code_simp
  then have u: "unlock exCfg exAlice ''pos'' exToken 200 exState4 = (Inr (), exState5)" by (metis exState5_def prod.collapse)
  have n: "nameOk (jslib exCfg) ''pos''" by code_simp
  have j: "jslib exCfg = asciiLib" "length exAlice = ADDRESS_LENGTH" by (simp_all add: exCfg_def exAlice_def ADDRESS_LENGTH_def)
  from lock_unlock[OF exInv(3) j(2) _ n l u] show ?thesis by (simp add: tokenView_def j(1))
qed

text \<open>
  minting. A successful \<open>mint\<close> of a positive amount is of an initialised native token,
  keeps the total supply below \<open>2 ^ 64\<close>, raises the supply and the available balance of the
  account (created when it does not exist) by the amount, and changes nothing else.
\<close>

theorem mint_effect:
  assumes "tokenInv cfg d s" "length address = ADDRESS_LENGTH" "0 < amount" "mint cfg address t amount s = (Inr (), s')"
    "tokenView cfg s = (A, X, S)"
  shows "\<exists>n. nativeID cfg t \<and> S t = Some n \<and> n + amount < 2 ^ 64 \<and>
     tokenView cfg s' = (A(userKey address t \<mapsto> normalised (jslib cfg) (credit amount
       (case A (userKey address t) of None \<Rightarrow> emptyAccount | Some a \<Rightarrow> a))), X, S(t \<mapsto> n + amount))"
proof -
  have "ok (mint cfg address t amount) (\<lambda>_ s'. \<exists>n. nativeID cfg t \<and> S t = Some n \<and> n + amount < 2 ^ 64 \<and>
     tokenView cfg s' = (A(userKey address t \<mapsto> normalised (jslib cfg) (credit amount
       (case A (userKey address t) of None \<Rightarrow> emptyAccount | Some a \<Rightarrow> a))), X, S(t \<mapsto> n + amount))) s"
    by (rule ok_mint[OF assms(1-3)]) (use assms(5) in auto)
  from wp_success[OF this assms(4)] show ?thesis .
qed

theorem mint_effect_witness:
  "\<exists>n. amountAt asciiLib (supplyStore exState1) exToken = Some n \<and> n + 1000 < 2 ^ 64 \<and>
     amountAt asciiLib (supplyStore exState2) exToken = Some (n + 1000)"
proof -
  have m: "mint exCfg exAlice exToken 1000 exState1 = (Inr (), exState2)" using exRuns(2) by (metis exState2_def prod.collapse)
  have n: "jslib exCfg = asciiLib" "length exAlice = ADDRESS_LENGTH" by (simp_all add: exCfg_def exAlice_def ADDRESS_LENGTH_def)
  from mint_effect[OF exInv(2) n(2) _ m] show ?thesis by (auto simp: tokenView_def n(1))
qed

section \<open>Supported tokens\<close>

lemma supported_enc_dec:
  assumes "enc (supportedSchema lib) ts = Inr bs"
  shows "dec (supportedSchema lib) bs = Inr ts"
proof -
  have "decode lib [PArray 1 BytesT] bs = Inr [Some (VArr (map VBytes ts))]"
    by (rule codec_reads) (use assms in \<open>simp_all add: supportedSchema_def schemaOk_def list_all_iff\<close>)
  then show ?thesis by (simp add: supportedSchema_def comp_def)
qed

lemma isSupported_true:
  assumes "isMainchainOrNative cfg t = Inr own" "splitTokenID t = Inr (c, l)"
    "own \<or> kvhas (supportedStore s) [] \<or>
     (\<exists>bs ts. kvget (supportedStore s) c = Some bs \<and> dec (supportedSchema (jslib cfg)) bs = Inr ts \<and> (ts = [] \<or> t \<in> set ts))"
  shows "fst (isSupported cfg t s) = Inr True"
proof -
  have "wp (isSupported cfg t) (\<lambda>b _. b) (\<lambda>_ _. False) s"
    using assms by (auto simp: isSupported_def allSupported_def supportedHas_def supportedGet_def ALL_SUPPORTED_TOKENS_KEY_def wp)
  then show ?thesis by (cases "isSupported cfg t s") (auto simp: wp_def split: sum.splits)
qed

text \<open>
  supporting a token works. After a successful \<open>supportToken\<close> the token is supported,
  and after a successful \<open>supportAll\<close> every token with a well-formed ID is.
\<close>

theorem support_effect:
  "(supportToken cfg t s = (Inr (), s1) \<longrightarrow> fst (isSupported cfg t s1) = Inr True) \<and>
   (supportAll (jslib cfg) s = (Inr (), s2) \<and> length t' = TOKEN_ID_LENGTH \<longrightarrow> fst (isSupported cfg t' s2) = Inr True)"
proof (intro conjI impI)
  assume a: "supportToken cfg t s = (Inr (), s1)"
  obtain own c l where o: "isMainchainOrNative cfg t = Inr own" "splitTokenID t = Inr (c, l)"
    using a by (auto simp: supportToken_def isMainchainOrNative_def splitTokenID_def bind_def liftE_def split: if_splits)
  have "ok (supportToken cfg t) (\<lambda>_ s1. own \<or> kvhas (supportedStore s1) [] \<or>
     (\<exists>bs ts. kvget (supportedStore s1) c = Some bs \<and> dec (supportedSchema (jslib cfg)) bs = Inr ts \<and> (ts = [] \<or> t \<in> set ts))) s"
    using o supported_enc_dec[of "jslib cfg"]
    by (auto simp: supportToken_def allSupported_def supportedHas_def supportedGet_def supportedSet_def ALL_SUPPORTED_TOKENS_KEY_def
        Let_def wp split: sum.split option.split)
  from wp_success[OF this a] isSupported_true[OF o] show "fst (isSupported cfg t s1) = Inr True" by simp
next
  assume a: "supportAll (jslib cfg) s = (Inr (), s2) \<and> length t' = TOKEN_ID_LENGTH"
  have "ok (supportAll (jslib cfg)) (\<lambda>_ s2. kvhas (supportedStore s2) []) s"
    unfolding supportAll_def wp_andThen
    by (rule ok_mono[OF ok_fail]) (auto simp: supportedSet_def ALL_SUPPORTED_TOKENS_KEY_def wp split: sum.split)
  then have "kvhas (supportedStore s2) []" using a wp_success by fastforce
  moreover obtain own c l where "isMainchainOrNative cfg t' = Inr own" "splitTokenID t' = Inr (c, l)"
    using a by (auto simp: isMainchainOrNative_def splitTokenID_def)
  ultimately show "fst (isSupported cfg t' s2) = Inr True" using isSupported_true by blast
qed

definition exForeign :: bytes where "exForeign = [0, 0, 0, 9, 0, 0, 0, 7]"

theorem support_effect_witness:
  "fst (isSupported exCfg exForeign exState) = Inr False \<and>
   fst (isSupported exCfg exForeign (snd (supportToken exCfg exForeign exState))) = Inr True \<and>
   fst (isSupported exCfg exForeign (snd (supportAll asciiLib exState))) = Inr True"
proof -
  have "fst (supportToken exCfg exForeign exState) = Inr ()" "fst (supportAll (jslib exCfg) exState) = Inr ()" by code_simp+
  then have "supportToken exCfg exForeign exState = (Inr (), snd (supportToken exCfg exForeign exState))"
    "supportAll (jslib exCfg) exState = (Inr (), snd (supportAll (jslib exCfg) exState))" by (metis prod.collapse)+
  moreover have "fst (isSupported exCfg exForeign exState) = Inr False" by code_simp
  moreover have "length exForeign = TOKEN_ID_LENGTH" "jslib exCfg = asciiLib" by code_simp (simp add: exCfg_def)
  ultimately show ?thesis using support_effect[of exCfg exForeign exState _ _ exForeign] by simp
qed

text \<open>
  \<open>removeSupport\<close> removes nothing. The list of supported tokens is searched with
  \<open>indexOf\<close>, which compares Buffers by identity, so that the token is never found: whatever
  its outcome, the method leaves the store of supported tokens as it was.
\<close>

theorem remove_support_is_noop:
  "supportedStore (snd (removeSupport cfg t s)) = supportedStore s"
proof -
  have ev: "wp (idEvent lib name i) (\<lambda>_ t. supportedStore t = supportedStore u) (\<lambda>_ t. supportedStore t = supportedStore u) u"
    for lib name i and u :: "'a tokenCtx_scheme"
    by (simp add: idEvent_def wp split: sum.split)
  have "wp (removeSupport cfg t) (\<lambda>_ t. supportedStore t = supportedStore s) (\<lambda>_ t. supportedStore t = supportedStore s) s"
    by (auto simp: removeSupport_def supportedHas_def supportedGet_def indexOfBuffer_def wp ev split: sum.split option.split prod.split)
  then show ?thesis by (cases "removeSupport cfg t s") (auto simp: wp_def split: sum.splits)
qed

lemma decodeAll_keys: "decodeAll sch es = Inr r \<Longrightarrow> map fst r = map fst es"
  by (induction es arbitrary: r) (auto simp: rbind_Inr)

text \<open>
  \<open>removeAllTokensSupport\<close> does not undo \<open>supportAllTokens\<close>. The range it deletes starts
  at eight zero bytes, after the empty key that stands for all tokens: when that entry
  exists it stays, and every token remains supported.
\<close>

theorem remove_all_keeps_all:
  assumes "kvhas (supportedStore s) ALL_SUPPORTED_TOKENS_KEY"
  shows "kvhas (supportedStore (snd (removeAllTokensSupport cfg s))) ALL_SUPPORTED_TOKENS_KEY"
proof -
  let ?P = "\<lambda>s. kvhas (supportedStore s) ALL_SUPPORTED_TOKENS_KEY"
  have "wp (forEach r (\<lambda>(key, _). supportedDel key)) (\<lambda>_. ?P) (\<lambda>_. ?P) s"
    if "decodeAll (supportedSchema (jslib cfg)) (kvrange (replicate TOKEN_ID_LENGTH 0) (replicate TOKEN_ID_LENGTH 255) (supportedStore s)) = Inr r" for r
  proof (rule wp_forEach)
    fix e s assume e: "e \<in> set r" "?P s"
    have "fst e \<in> set (map fst r)" using e(1) by simp
    then have "replicate TOKEN_ID_LENGTH 0 \<le> fst e" using decodeAll_keys[OF that] by (auto simp: kvrange_def)
    then have "fst e \<noteq> []" by (auto simp: TOKEN_ID_LENGTH_def CHAIN_ID_LENGTH_def LOCAL_ID_LENGTH_def numeral_eq_Suc)
    with e(2) show "wp (case e of (key, _) \<Rightarrow> supportedDel key) (\<lambda>_. ?P) (\<lambda>_. ?P) s"
      by (auto simp: supportedDel_def wp kvhas_def ALL_SUPPORTED_TOKENS_KEY_def split: prod.split)
  qed (rule assms)
  then have "wp (supportedRemoveAll (jslib cfg)) (\<lambda>_. ?P) (\<lambda>_. ?P) s"
    using assms by (simp add: supportedRemoveAll_def supportedGetAll_def wp split: sum.split)
  then have "wp (removeAllTokensSupport cfg) (\<lambda>_. ?P) (\<lambda>_. ?P) s"
    unfolding removeAllTokensSupport_def wp_andThen
    by (rule wp_mono) (auto simp: plainEvent_def wp split: sum.split)
  then show ?thesis by (cases "removeAllTokensSupport cfg s") (auto simp: wp_def split: sum.splits)
qed

theorem remove_all_keeps_all_witness:
  "fst (isSupported exCfg exForeign (snd (removeAllTokensSupport exCfg (snd (supportAllTokens exCfg exState))))) = Inr True \<and>
   kvhas (supportedStore (snd (removeAllTokensSupport exCfg (snd (supportAllTokens exCfg exState))))) ALL_SUPPORTED_TOKENS_KEY"
proof -
  have "kvhas (supportedStore (snd (supportAllTokens exCfg exState))) ALL_SUPPORTED_TOKENS_KEY" by code_simp
  then have k: "kvhas (supportedStore (snd (removeAllTokensSupport exCfg (snd (supportAllTokens exCfg exState))))) ALL_SUPPORTED_TOKENS_KEY"
    by (rule remove_all_keeps_all)
  have "length exForeign = TOKEN_ID_LENGTH" by code_simp
  then obtain own c l where o: "isMainchainOrNative exCfg exForeign = Inr own" "splitTokenID exForeign = Inr (c, l)"
    by (auto simp: isMainchainOrNative_def splitTokenID_def)
  have "fst (isSupported exCfg exForeign (snd (removeAllTokensSupport exCfg (snd (supportAllTokens exCfg exState))))) = Inr True"
    by (rule isSupported_true[OF o]) (use k in \<open>simp add: ALL_SUPPORTED_TOKENS_KEY_def\<close>)
  with k show ?thesis by simp
qed

end
