(* ===== verification/StateStore.thy ===== *)
theory StateStore
  imports Varint
begin

text \<open>
  The state store of the engine: \<open>CacheDB\<close> (\<open>elements/chain/src/state_store/cache_db.ts\<close>),
  \<open>StateStore\<close> (\<open>state_store.ts\<close>) and the part of \<open>Storage.deleteBlock\<close>
  (\<open>elements/chain/src/data_access/storage.ts\<close>) that undoes a block from its state diff.

  A \<open>CacheDB\<close> is an object that several \<open>StateStore\<close>s share by reference, so caches live
  in a heap (a list) and a store holds the index of its cache. The cache is an ordered
  key/value list; the code keeps the entries of a JavaScript object, whose property order is
  not observable but for the order of the entries inside a state diff. The persistent
  database is the third-party package lisk-db: a parameter with a \<open>get\<close> and a
  range stream, and \<open>db_ok\<close> states its documented behaviour.
\<close>

section \<open>The database interface and batches\<close>

record database =
  dbGet :: "bytes \<Rightarrow> bytes option"
  dbStream :: "bytes \<Rightarrow> bytes \<Rightarrow> bool \<Rightarrow> int option \<Rightarrow> (bytes \<times> bytes) list"

datatype batchOp = BSet bytes bytes | BDel bytes

fun applyOp :: "batchOp \<Rightarrow> (bytes \<Rightarrow> bytes option) \<Rightarrow> (bytes \<Rightarrow> bytes option)" where
  "applyOp (BSet k v) d = d(k \<mapsto> v)"
| "applyOp (BDel k) d = d(k := None)"

definition applyBatch :: "batchOp list \<Rightarrow> (bytes \<Rightarrow> bytes option) \<Rightarrow> (bytes \<Rightarrow> bytes option)" where
  "applyBatch ops d = fold applyOp ops d"

text \<open>
  Documented behaviour of the database: a read stream with no limit delivers, in key
  order, the pairs whose key lies between \<open>gte\<close> and \<open>lte\<close>.
\<close>

definition db_ok :: "database \<Rightarrow> bool" where
  "db_ok db \<longleftrightarrow> (\<forall>lo hi reverse.
     distinct (map fst (dbStream db lo hi reverse None)) \<and>
     (\<forall>k v. (k, v) \<in> set (dbStream db lo hi reverse None) \<longleftrightarrow> lo \<le> k \<and> k \<le> hi \<and> dbGet db k = Some v))"

section \<open>CacheDB\<close>

record cacheValue =
  cvInit :: "bytes option"
  cvValue :: bytes
  cvDirty :: bool
  cvDeleted :: bool

type_synonym cacheDB = "cacheValue kv"

definition cdAdd :: "bytes \<Rightarrow> bytes \<Rightarrow> cacheDB \<Rightarrow> cacheDB" where
  "cdAdd key v c = kvset key \<lparr>cvInit = None, cvValue = v, cvDirty = False, cvDeleted = False\<rparr> c"

definition cdCache :: "bytes \<Rightarrow> bytes \<Rightarrow> cacheDB \<Rightarrow> cacheDB" where
  "cdCache key v c = kvset key \<lparr>cvInit = Some v, cvValue = v, cvDirty = False, cvDeleted = False\<rparr> c"

definition cdSet :: "bytes \<Rightarrow> bytes \<Rightarrow> cacheDB \<Rightarrow> err + cacheDB" where
  "cdSet key v c =
     (case kvget c key of
        None \<Rightarrow> Inl (Error ''Key must exist in the cache before calling set'')
      | Some ex \<Rightarrow> Inr (kvset key (ex\<lparr>cvDirty := True, cvDeleted := False, cvValue := v\<rparr>) c))"

text \<open>The result is the pair of \<open>value\<close> (\<open>None\<close> for \<open>undefined\<close>) and \<open>deleted\<close>.\<close>

definition cdGet :: "bytes \<Rightarrow> cacheDB \<Rightarrow> bytes option \<times> bool" where
  "cdGet key c =
     (case kvget c key of
        None \<Rightarrow> (None, False)
      | Some ex \<Rightarrow> if cvDeleted ex then (None, True) else (Some (cvValue ex), False))"

definition cdDel :: "bytes \<Rightarrow> cacheDB \<Rightarrow> cacheDB" where
  "cdDel key c =
     (case kvget c key of
        None \<Rightarrow> c
      | Some ex \<Rightarrow> if cvInit ex = None then kvdel key c
                 else kvset key (ex\<lparr>cvDeleted := True\<rparr>) c)"

definition cdExistAny :: "bytes \<Rightarrow> cacheDB \<Rightarrow> bool" where
  "cdExistAny key c = (kvget c key \<noteq> None)"

definition cdExist :: "bytes \<Rightarrow> cacheDB \<Rightarrow> bool" where
  "cdExist key c = (case kvget c key of None \<Rightarrow> False | Some ex \<Rightarrow> \<not> cvDeleted ex)"

definition cdGetRange :: "bytes \<Rightarrow> bytes \<Rightarrow> cacheDB \<Rightarrow> (bytes \<times> bytes) list" where
  "cdGetRange start end c =
     map (\<lambda>(k, e). (k, cvValue e))
       (filter (\<lambda>(k, e). bufferCompare k start \<ge> 0 \<and> bufferCompare k end \<le> 0 \<and> \<not> cvDeleted e) c)"

record stateDiff =
  created :: "bytes list"
  deleted :: "(bytes \<times> bytes) list"
  updated :: "(bytes \<times> bytes) list"

text \<open>The loop of \<open>finalize\<close>: the operations sent to the batch, and the diff.\<close>

fun cdFinalize :: "cacheDB \<Rightarrow> batchOp list \<times> stateDiff" where
  "cdFinalize [] = ([], \<lparr>created = [], deleted = [], updated = []\<rparr>)"
| "cdFinalize ((key, e) # r) =
     (let (ops, diff) = cdFinalize r in
      case cvInit e of
        None \<Rightarrow> (BSet key (cvValue e) # ops, diff\<lparr>created := key # created diff\<rparr>)
      | Some i \<Rightarrow>
          if cvDeleted e then (BDel key # ops, diff\<lparr>deleted := (key, i) # deleted diff\<rparr>)
          else if cvDirty e then (BSet key (cvValue e) # ops, diff\<lparr>updated := (key, i) # updated diff\<rparr>)
          else (ops, diff))"

text \<open>The loops of \<open>Storage.deleteBlock\<close> that undo the stored diff.\<close>

definition revertOps :: "stateDiff \<Rightarrow> batchOp list" where
  "revertOps d = map BDel (created d) @ map (\<lambda>(k, v). BSet k v) (deleted d)
                 @ map (\<lambda>(k, v). BSet k v) (updated d)"

section \<open>StateStore\<close>

record stateStore =
  ssPrefix :: bytes
  ssCache :: nat
  ssSnapshot :: "nat option"
  ssLatest :: int

type_synonym cheap = "cacheDB list"

definition DB_KEY_STATE_STORE :: bytes where
  "DB_KEY_STATE_STORE = [10]"

abbreviation MAX_SAFE_INTEGER :: int where "MAX_SAFE_INTEGER \<equiv> 9007199254740991"

definition ssNew :: "cheap \<Rightarrow> stateStore \<times> cheap" where
  "ssNew h = (\<lparr>ssPrefix = DB_KEY_STATE_STORE, ssCache = length h, ssSnapshot = None, ssLatest = -1\<rparr>,
              h @ [[]])"

definition ssGetStore :: "stateStore \<Rightarrow> bytes \<Rightarrow> bytes \<Rightarrow> stateStore" where
  "ssGetStore st storePrefix subStorePrefix =
     \<lparr>ssPrefix = DB_KEY_STATE_STORE @ storePrefix @ subStorePrefix,
      ssCache = ssCache st, ssSnapshot = None, ssLatest = -1\<rparr>"

definition ssKey :: "stateStore \<Rightarrow> bytes \<Rightarrow> bytes" where
  "ssKey st key = ssPrefix st @ key"

definition updCache :: "stateStore \<Rightarrow> (cacheDB \<Rightarrow> cacheDB) \<Rightarrow> (cheap, unit) m" where
  "updCache st f = modify (\<lambda>h. h[ssCache st := f (h ! ssCache st)])"

definition ssEnsureCache :: "database \<Rightarrow> stateStore \<Rightarrow> bytes \<Rightarrow> (cheap, bool) m" where
  "ssEnsureCache db st prefixedKey =
     (case dbGet db prefixedKey of
        None \<Rightarrow> ret False
      | Some v \<Rightarrow> andThen (updCache st (cdCache prefixedKey v)) (ret True))"

definition ssGet :: "database \<Rightarrow> stateStore \<Rightarrow> bytes \<Rightarrow> (cheap, bytes) m" where
  "ssGet db st key =
     (let prefixedKey = ssKey st key in
      bind (gets (\<lambda>h. cdGet prefixedKey (h ! ssCache st))) (\<lambda>(v, del).
      case v of
        Some x \<Rightarrow> ret x
      | None \<Rightarrow>
          if del then throw NotFoundError
          else case dbGet db prefixedKey of
                 None \<Rightarrow> throw NotFoundError
               | Some p \<Rightarrow> andThen (updCache st (cdCache prefixedKey p)) (ret p)))"

definition ssHas :: "database \<Rightarrow> stateStore \<Rightarrow> bytes \<Rightarrow> (cheap, bool) m" where
  "ssHas db st key =
     tryCatch (andThen (ssGet db st key) (ret True))
       (\<lambda>e. if e = NotFoundError then ret False else throw e)"

definition cacheSet :: "stateStore \<Rightarrow> bytes \<Rightarrow> bytes \<Rightarrow> (cheap, unit) m" where
  "cacheSet st prefixedKey v =
     bind (gets (\<lambda>h. cdSet prefixedKey v (h ! ssCache st))) (\<lambda>r.
     bind (liftE r) (\<lambda>c. updCache st (\<lambda>_. c)))"

definition ssSet :: "database \<Rightarrow> stateStore \<Rightarrow> bytes \<Rightarrow> bytes \<Rightarrow> (cheap, unit) m" where
  "ssSet db st key v =
     (let prefixedKey = ssKey st key in
      bind (gets (\<lambda>h. cdExistAny prefixedKey (h ! ssCache st))) (\<lambda>any.
      if any then cacheSet st prefixedKey v
      else bind (ssEnsureCache db st prefixedKey) (\<lambda>dataExist.
           if dataExist then cacheSet st prefixedKey v
           else updCache st (cdAdd prefixedKey v))))"

definition ssDel :: "database \<Rightarrow> stateStore \<Rightarrow> bytes \<Rightarrow> (cheap, unit) m" where
  "ssDel db st key =
     (let prefixedKey = ssKey st key in
      bind (gets (\<lambda>h. cdExistAny prefixedKey (h ! ssCache st))) (\<lambda>any.
      andThen (if any then ret () else andThen (ssEnsureCache db st prefixedKey) (ret ()))
              (updCache st (cdDel prefixedKey))))"

definition ssGetWithSchema :: "(bytes \<Rightarrow> err + 'v) \<Rightarrow> database \<Rightarrow> stateStore \<Rightarrow> bytes \<Rightarrow> (cheap, 'v) m" where
  "ssGetWithSchema decode db st key = bind (ssGet db st key) (\<lambda>v. liftE (decode v))"

definition ssSetWithSchema :: "('v \<Rightarrow> err + bytes) \<Rightarrow> database \<Rightarrow> stateStore \<Rightarrow> bytes \<Rightarrow> 'v \<Rightarrow> (cheap, unit) m" where
  "ssSetWithSchema encode db st key v =
     bind (liftE (encode v)) (\<lambda>encodedValue. ssSet db st key encodedValue)"

text \<open>The data handler of the read stream of \<open>iterate\<close>.\<close>

fun streamFold :: "(bytes \<times> bytes) list \<Rightarrow> cacheDB \<Rightarrow> (bytes \<times> bytes) list \<times> cacheDB" where
  "streamFold [] c = ([], c)"
| "streamFold ((prefixedKey, v) # r) c =
     (case cdGet prefixedKey c of
        (Some cachedValue, _) \<Rightarrow>
          (let (vs, c') = streamFold r c in ((prefixedKey, cachedValue) # vs, c'))
      | (None, True) \<Rightarrow> streamFold r c
      | (None, False) \<Rightarrow>
          (let (vs, c') = streamFold r (cdCache prefixedKey v c) in ((prefixedKey, v) # vs, c')))"

text \<open>\<open>Array.splice(n)\<close> keeps the first \<open>n\<close> elements, or all but the last \<open>-n\<close>.\<close>

definition spliceKeep :: "int \<Rightarrow> 'a list \<Rightarrow> 'a list" where
  "spliceKeep n xs = (if n \<ge> 0 then take (nat n) xs else take (nat (int (length xs) + n)) xs)"

definition iterCompare :: "bool \<Rightarrow> bytes \<times> bytes \<Rightarrow> bytes \<times> bytes \<Rightarrow> int" where
  "iterCompare reverse a b = (if reverse then bufferCompare (fst b) (fst a) else bufferCompare (fst a) (fst b))"

definition ssIterate :: "database \<Rightarrow> stateStore \<Rightarrow> bytes \<Rightarrow> bytes \<Rightarrow> bool \<Rightarrow> int option \<Rightarrow>
    (cheap, (bytes \<times> bytes) list) m" where
  "ssIterate db st gte lte reverse limit =
     (let start = ssKey st gte; end = ssKey st lte;
          stream = dbStream db start end reverse limit;
          strip = (\<lambda>(k, v). (drop (length (ssPrefix st)) k, v)) in
      bind (gets (\<lambda>h. streamFold stream (h ! ssCache st))) (\<lambda>(storedData, c).
      andThen (updCache st (\<lambda>_. c))
      (let cachedValues = cdGetRange start end c;
           existing = map fst cachedValues;
           result = map strip cachedValues
                    @ map strip (filter (\<lambda>(k, v). k \<notin> set existing) storedData);
           ordered = sortBy (iterCompare reverse) result in
       ret (case limit of
              None \<Rightarrow> ordered
            | Some n \<Rightarrow> if n = 0 then ordered else spliceKeep n ordered))))"

definition ssCreateSnapshot :: "stateStore \<Rightarrow> cheap \<Rightarrow> int \<times> stateStore \<times> cheap" where
  "ssCreateSnapshot st h =
     (let n = ssLatest st + 1; n' = (if n = MAX_SAFE_INTEGER then 0 else n) in
      (n', st\<lparr>ssSnapshot := Some (length h), ssLatest := n'\<rparr>, h @ [h ! ssCache st]))"

definition ssRestoreSnapshot :: "stateStore \<Rightarrow> int \<Rightarrow> err + stateStore" where
  "ssRestoreSnapshot st i =
     (if i \<noteq> ssLatest st then Inl (Error ''Invalid snapshot ID. Cannot revert to an older snapshot.'')
      else case ssSnapshot st of
             None \<Rightarrow> Inl (Error ''Snapshot must be taken first before reverting'')
           | Some r \<Rightarrow> Inr (st\<lparr>ssCache := r, ssSnapshot := None\<rparr>))"

definition ssFinalize :: "stateStore \<Rightarrow> cheap \<Rightarrow> batchOp list \<times> stateDiff" where
  "ssFinalize st h = cdFinalize (h ! ssCache st)"

section \<open>The store as one map\<close>

text \<open>What a cache over a database means: the map it presents to its clients.\<close>

definition view :: "database \<Rightarrow> cacheDB \<Rightarrow> bytes \<Rightarrow> bytes option" where
  "view db c k = (case kvget c k of
       None \<Rightarrow> dbGet db k
     | Some e \<Rightarrow> if cvDeleted e then None else Some (cvValue e))"

definition entry_ok :: "database \<Rightarrow> bytes \<Rightarrow> cacheValue \<Rightarrow> bool" where
  "entry_ok db k e \<longleftrightarrow> cvInit e = dbGet db k \<and> (cvInit e = None \<longrightarrow> \<not> cvDeleted e) \<and>
     (\<forall>i. cvInit e = Some i \<and> \<not> cvDirty e \<and> \<not> cvDeleted e \<longrightarrow> cvValue e = i)"

definition cache_ok :: "database \<Rightarrow> cacheDB \<Rightarrow> bool" where
  "cache_ok db c \<longleftrightarrow> kvok c \<and> (\<forall>k e. kvget c k = Some e \<longrightarrow> entry_ok db k e)"

lemma cache_ok_empty [simp]: "cache_ok db []"
  by (simp add: cache_ok_def)

lemma cache_okD: "cache_ok db c \<Longrightarrow> kvget c k = Some e \<Longrightarrow> entry_ok db k e"
  by (simp add: cache_ok_def)

lemma cache_ok_kvset: "cache_ok db c \<Longrightarrow> entry_ok db k e \<Longrightarrow> cache_ok db (kvset k e c)"
  by (auto simp: cache_ok_def)

lemma view_kvset:
  "view db (kvset k e c) = (view db c)(k := if cvDeleted e then None else Some (cvValue e))"
  by (auto simp: view_def fun_eq_iff)

lemma view_kvdel: "view db (kvdel k c) = (view db c)(k := dbGet db k)"
  by (auto simp: view_def fun_eq_iff)

lemma view_cdGet: "cdGet k c = (Some v, d) \<Longrightarrow> view db c k = Some v"
  by (auto simp: cdGet_def view_def split: option.splits if_splits)

lemma view_cdGet_deleted: "cdGet k c = (None, True) \<Longrightarrow> view db c k = None"
  by (auto simp: cdGet_def view_def split: option.splits if_splits)

lemma cdGet_miss: "cdGet k c = (None, False) \<longleftrightarrow> kvget c k = None"
  by (auto simp: cdGet_def split: option.splits if_splits)

lemma cdCache_correct:
  assumes "cache_ok db c" "dbGet db k = Some v" "kvget c k = None"
  shows "cache_ok db (cdCache k v c)" "view db (cdCache k v c) = view db c"
  using assms by (auto simp: cdCache_def entry_ok_def intro!: cache_ok_kvset)
     (auto simp: view_def fun_eq_iff)

lemma cdAdd_correct:
  assumes "cache_ok db c" "dbGet db k = None"
  shows "cache_ok db (cdAdd k v c)" "view db (cdAdd k v c) = (view db c)(k \<mapsto> v)"
  using assms by (auto simp: cdAdd_def entry_ok_def view_kvset intro!: cache_ok_kvset)

lemma cdSet_correct:
  assumes "cache_ok db c" "kvget c k \<noteq> None"
  obtains c' where "cdSet k v c = Inr c'" "cache_ok db c'" "view db c' = (view db c)(k \<mapsto> v)"
proof -
  obtain e where e: "kvget c k = Some e" using assms by auto
  then have "entry_ok db k (e\<lparr>cvDirty := True, cvDeleted := False, cvValue := v\<rparr>)"
    using cache_okD[OF assms(1) e] by (auto simp: entry_ok_def)
  note ok = this
  show ?thesis
  proof (rule that)
    show "cdSet k v c = Inr (kvset k (e\<lparr>cvDirty := True, cvDeleted := False, cvValue := v\<rparr>) c)"
      using e by (simp add: cdSet_def)
  qed (use ok assms(1) in \<open>auto simp: view_kvset intro: cache_ok_kvset\<close>)
qed

lemma cdDel_correct:
  assumes "cache_ok db c" "kvget c k \<noteq> None \<or> dbGet db k = None"
  shows "cache_ok db (cdDel k c)" "view db (cdDel k c) = (view db c)(k := None)"
proof -
  have "cache_ok db (cdDel k c) \<and> view db (cdDel k c) = (view db c)(k := None)"
  proof (cases "kvget c k")
    case None
    with assms show ?thesis by (auto simp: cdDel_def view_def fun_eq_iff)
  next
    case (Some e)
    from cache_okD[OF assms(1) Some] have e: "entry_ok db k e" .
    show ?thesis
    proof (cases "cvInit e")
      case None
      with Some e assms(1) show ?thesis
        by (auto simp: cdDel_def view_kvdel entry_ok_def cache_ok_def)
    next
      case (Some i)
      with \<open>kvget c k = Some e\<close> e assms(1) show ?thesis
        by (auto simp: cdDel_def view_kvset entry_ok_def intro!: cache_ok_kvset)
    qed
  qed
  then show "cache_ok db (cdDel k c)" "view db (cdDel k c) = (view db c)(k := None)" by auto
qed

section \<open>The interface and its implementation\<close>

text \<open>
  What the modules rely on: a store whose operations act on one map \<open>m\<close> from keys to
  values, seen through an abstraction of the concrete state.
\<close>

locale kv_store =
  fixes abs :: "'s \<Rightarrow> bytes \<Rightarrow> bytes option"
    and inv :: "'s \<Rightarrow> bool"
    and get :: "bytes \<Rightarrow> ('s, bytes) m"
    and has :: "bytes \<Rightarrow> ('s, bool) m"
    and set :: "bytes \<Rightarrow> bytes \<Rightarrow> ('s, unit) m"
    and del :: "bytes \<Rightarrow> ('s, unit) m"
  assumes get_spec: "inv s \<Longrightarrow> wp (get k) (\<lambda>v t. inv t \<and> abs t = abs s \<and> abs s k = Some v)
                        (\<lambda>e t. e = NotFoundError \<and> inv t \<and> abs t = abs s \<and> abs s k = None) s"
    and has_spec: "inv s \<Longrightarrow> wp (has k) (\<lambda>b t. inv t \<and> abs t = abs s \<and> b = (abs s k \<noteq> None)) (\<lambda>_ _. False) s"
    and set_spec: "inv s \<Longrightarrow> wp (set k v) (\<lambda>_ t. inv t \<and> abs t = (abs s)(k \<mapsto> v)) (\<lambda>_ _. False) s"
    and del_spec: "inv s \<Longrightarrow> wp (del k) (\<lambda>_ t. inv t \<and> abs t = (abs s)(k := None)) (\<lambda>_ _. False) s"
begin

lemma get_after_set:
  assumes "inv s"
  shows "wp (andThen (set k v) (get k')) (\<lambda>w t. inv t \<and> (if k' = k then w = v else abs s k' = Some w))
           (\<lambda>e t. k' \<noteq> k \<and> abs s k' = None) s"
  unfolding wp_andThen
  by (rule wp_mono[OF set_spec[OF assms]]) (auto intro: wp_mono[OF get_spec] split: if_splits)

lemma get_after_del:
  assumes "inv s"
  shows "wp (andThen (del k) (get k)) (\<lambda>_ _. False) (\<lambda>e t. e = NotFoundError \<and> inv t) s"
  unfolding wp_andThen
  by (rule wp_mono[OF del_spec[OF assms]]) (auto intro: wp_mono[OF get_spec])

text \<open>Writes to different keys commute, as far as any client can tell.\<close>

lemma set_set_commute:
  assumes "inv s" "k \<noteq> k'"
    and "andThen (set k v) (set k' v') s = (Inr a, t)" "andThen (set k' v') (set k v) s = (Inr b, u)"
  shows "abs t = abs u"
proof -
  have "wp (andThen (set k v) (set k' v')) (\<lambda>_ t. abs t = (abs s)(k \<mapsto> v, k' \<mapsto> v')) (\<lambda>_ _. False) s"
    unfolding wp_andThen by (rule wp_mono[OF set_spec[OF assms(1)]]) (auto intro: wp_mono[OF set_spec])
  moreover have "wp (andThen (set k' v') (set k v)) (\<lambda>_ t. abs t = (abs s)(k' \<mapsto> v', k \<mapsto> v)) (\<lambda>_ _. False) s"
    unfolding wp_andThen by (rule wp_mono[OF set_spec[OF assms(1)]]) (auto intro: wp_mono[OF set_spec])
  ultimately show ?thesis using assms(2-) by (auto dest!: wp_success simp: fun_upd_twist)
qed

end

definition store_inv :: "database \<Rightarrow> stateStore \<Rightarrow> cheap \<Rightarrow> bool" where
  "store_inv db st h \<longleftrightarrow> ssCache st < length h \<and> cache_ok db (h ! ssCache st)"

definition store_abs :: "database \<Rightarrow> stateStore \<Rightarrow> cheap \<Rightarrow> bytes \<Rightarrow> bytes option" where
  "store_abs db st h k = view db (h ! ssCache st) (ssKey st k)"

lemma ssKey_inj [simp]: "ssKey st k = ssKey st k' \<longleftrightarrow> k = k'"
  by (simp add: ssKey_def)

lemma ssGet_spec:
  assumes "store_inv db st h"
  shows "wp (ssGet db st k)
    (\<lambda>v t. store_inv db st t \<and> store_abs db st t = store_abs db st h \<and> store_abs db st h k = Some v)
    (\<lambda>e t. e = NotFoundError \<and> store_inv db st t \<and> store_abs db st t = store_abs db st h \<and>
           store_abs db st h k = None) h"
  using assms cdCache_correct[of db "h ! ssCache st" "ssKey st k"]
  by (auto simp: ssGet_def Let_def wp updCache_def store_inv_def store_abs_def fun_eq_iff cdGet_def view_def
           split: option.splits if_splits)

lemma ssHas_spec:
  assumes "store_inv db st h"
  shows "wp (ssHas db st k)
    (\<lambda>b t. store_inv db st t \<and> store_abs db st t = store_abs db st h \<and> b = (store_abs db st h k \<noteq> None))
    (\<lambda>_ _. False) h"
  unfolding ssHas_def wp by (rule wp_mono[OF ssGet_spec[OF assms]]) (auto simp: wp)

lemma store_abs_fun_upd:
  assumes "ssCache st < length h" "view db c = (view db (h ! ssCache st))(ssKey st k := x)"
  shows "store_abs db st (h[ssCache st := c]) = (store_abs db st h)(k := x)"
  using assms by (auto simp: store_abs_def fun_eq_iff)

lemma cacheSet_spec:
  assumes "store_inv db st h" "kvget (h ! ssCache st) (ssKey st k) \<noteq> None"
  shows "wp (cacheSet st (ssKey st k) v)
    (\<lambda>_ t. store_inv db st t \<and> store_abs db st t = (store_abs db st h)(k \<mapsto> v)) (\<lambda>_ _. False) h"
proof -
  from assms have ok: "cache_ok db (h ! ssCache st)" and len: "ssCache st < length h"
    by (auto simp: store_inv_def)
  from cdSet_correct[OF ok assms(2), of v] obtain c' where
    "cdSet (ssKey st k) v (h ! ssCache st) = Inr c'" "cache_ok db c'"
    "view db c' = (view db (h ! ssCache st))(ssKey st k \<mapsto> v)" by blast
  then show ?thesis using len store_abs_fun_upd[OF len, of db c' k "Some v"]
    by (simp add: cacheSet_def wp updCache_def store_inv_def)
qed

lemma ensure_then:
  assumes "store_inv db st h" "kvget (h ! ssCache st) (ssKey st k) = None"
  shows "wp (ssEnsureCache db st (ssKey st k))
    (\<lambda>b t. store_inv db st t \<and> store_abs db st t = store_abs db st h \<and>
       (if b then kvget (t ! ssCache st) (ssKey st k) \<noteq> None else t = h \<and> dbGet db (ssKey st k) = None))
    (\<lambda>_ _. False) h"
  using assms cdCache_correct[of db "h ! ssCache st" "ssKey st k"]
  by (auto simp: ssEnsureCache_def wp updCache_def store_inv_def store_abs_def fun_eq_iff split: option.splits)
     (auto simp: cdCache_def)

lemma ssSet_spec:
  assumes "store_inv db st h"
  shows "wp (ssSet db st k v)
    (\<lambda>_ t. store_inv db st t \<and> store_abs db st t = (store_abs db st h)(k \<mapsto> v)) (\<lambda>_ _. False) h"
proof (cases "kvget (h ! ssCache st) (ssKey st k)")
  case None
  have add: "wp (updCache st (cdAdd (ssKey st k) v))
    (\<lambda>_ t. store_inv db st t \<and> store_abs db st t = (store_abs db st h)(k \<mapsto> v)) (\<lambda>_ _. False) h"
    if "dbGet db (ssKey st k) = None"
    using assms that cdAdd_correct[of db "h ! ssCache st" "ssKey st k" v] store_abs_fun_upd[of st h db]
    by (simp add: wp updCache_def store_inv_def)
  show ?thesis
    unfolding ssSet_def Let_def wp using None
    by (simp add: cdExistAny_def)
       (rule wp_mono[OF ensure_then[OF assms None]], auto simp: add dest: cacheSet_spec split: if_splits)
next
  case (Some e)
  then show ?thesis using cacheSet_spec[OF assms, of k v]
    by (simp add: ssSet_def Let_def wp cdExistAny_def)
qed

lemma updCache_del_spec:
  assumes "store_inv db st h" "kvget (h ! ssCache st) (ssKey st k) \<noteq> None \<or> dbGet db (ssKey st k) = None"
  shows "wp (updCache st (cdDel (ssKey st k)))
    (\<lambda>_ t. store_inv db st t \<and> store_abs db st t = (store_abs db st h)(k := None)) (\<lambda>_ _. False) h"
  using assms cdDel_correct[of db "h ! ssCache st" "ssKey st k"] store_abs_fun_upd[of st h db]
  by (simp add: wp updCache_def store_inv_def)

lemma ssDel_spec:
  assumes "store_inv db st h"
  shows "wp (ssDel db st k)
    (\<lambda>_ t. store_inv db st t \<and> store_abs db st t = (store_abs db st h)(k := None)) (\<lambda>_ _. False) h"
proof (cases "kvget (h ! ssCache st) (ssKey st k)")
  case None
  show ?thesis
    unfolding ssDel_def Let_def wp using None
    by (simp add: cdExistAny_def wp)
       (rule wp_mono[OF ensure_then[OF assms None]],
        auto intro!: wp_mono[OF updCache_del_spec] split: if_splits)
next
  case (Some e)
  then show ?thesis using updCache_del_spec[OF assms, of k]
    by (simp add: ssDel_def Let_def wp cdExistAny_def)
qed

interpretation ss: kv_store "store_abs db st" "store_inv db st" "ssGet db st" "ssHas db st"
  "ssSet db st" "ssDel db st" for db st
  by unfold_locales (erule ssGet_spec ssHas_spec ssSet_spec ssDel_spec)+

section \<open>Committing and undoing a block\<close>

fun opKey :: "batchOp \<Rightarrow> bytes" where
  "opKey (BSet k v) = k"
| "opKey (BDel k) = k"

fun opVal :: "batchOp \<Rightarrow> bytes option" where
  "opVal (BSet k v) = Some v"
| "opVal (BDel k) = None"

lemma applyOp_alt: "applyOp op d = d(opKey op := opVal op)"
  by (cases op) auto

lemma applyBatch_other: "k \<notin> opKey ` set ops \<Longrightarrow> applyBatch ops d k = d k"
  by (induction ops arbitrary: d) (auto simp: applyBatch_def applyOp_alt)

lemma applyBatch_member:
  "distinct (map opKey ops) \<Longrightarrow> op \<in> set ops \<Longrightarrow> applyBatch ops d (opKey op) = opVal op"
proof (induction ops arbitrary: d)
  case (Cons a ops)
  show ?case
  proof (cases "op = a")
    case True
    with Cons.prems have "applyBatch ops (applyOp a d) (opKey op) = applyOp a d (opKey op)"
      by (intro applyBatch_other) auto
    with True show ?thesis by (simp add: applyBatch_def applyOp_alt)
  next
    case False
    with Cons have "applyBatch ops (applyOp a d) (opKey op) = opVal op" by auto
    then show ?thesis by (simp add: applyBatch_def)
  qed
qed simp

text \<open>One entry of the cache: what is written, and what undoing it restores.\<close>

definition entryOp :: "bytes \<Rightarrow> cacheValue \<Rightarrow> batchOp option" where
  "entryOp k e = (case cvInit e of
      None \<Rightarrow> Some (BSet k (cvValue e))
    | Some i \<Rightarrow> if cvDeleted e then Some (BDel k) else if cvDirty e then Some (BSet k (cvValue e)) else None)"

definition entryUndo :: "bytes \<Rightarrow> cacheValue \<Rightarrow> batchOp option" where
  "entryUndo k e = (case cvInit e of
      None \<Rightarrow> Some (BDel k)
    | Some i \<Rightarrow> if cvDeleted e \<or> cvDirty e then Some (BSet k i) else None)"

lemma entryOp_key: "entryOp k e = Some op \<Longrightarrow> opKey op = k"
  by (auto simp: entryOp_def split: option.splits if_splits)

lemma entryUndo_key: "entryUndo k e = Some op \<Longrightarrow> opKey op = k"
  by (auto simp: entryUndo_def split: option.splits if_splits)

lemma finalize_Cons:
  "fst (cdFinalize ((k, e) # r)) =
     (case entryOp k e of None \<Rightarrow> fst (cdFinalize r) | Some op \<Rightarrow> op # fst (cdFinalize r))"
  by (cases "cdFinalize r") (auto simp: entryOp_def split: option.splits)

lemma revert_Cons:
  "set (revertOps (snd (cdFinalize ((k, e) # r)))) =
     set_option (entryUndo k e) \<union> set (revertOps (snd (cdFinalize r)))"
  by (cases "cdFinalize r") (auto simp: revertOps_def entryUndo_def split: option.splits)

lemma finalize_set: "set (fst (cdFinalize c)) = (\<Union>(k, e) \<in> set c. set_option (entryOp k e))"
  by (induction c) (auto simp: finalize_Cons simp del: cdFinalize.simps(2) split: option.splits)

lemma revert_set: "set (revertOps (snd (cdFinalize c))) = (\<Union>(k, e) \<in> set c. set_option (entryUndo k e))"
  by (induction c) (auto simp: revert_Cons revertOps_def[of "\<lparr>created = [], deleted = [], updated = []\<rparr>"]
      simp del: cdFinalize.simps(2))

lemma finalize_keys: "op \<in> set (fst (cdFinalize c)) \<Longrightarrow> opKey op \<in> fst ` set c"
  by (force simp: finalize_set dest: entryOp_key)

lemma revert_keys: "op \<in> set (revertOps (snd (cdFinalize c))) \<Longrightarrow> opKey op \<in> fst ` set c"
  by (force simp: revert_set dest: entryUndo_key)

lemma finalize_distinct: "distinct (map fst c) \<Longrightarrow> distinct (map opKey (fst (cdFinalize c)))"
proof (induction c)
  case (Cons x c)
  obtain k e where x: "x = (k, e)" by (cases x)
  with Cons finalize_keys[of _ c] show ?case
    by (auto simp: finalize_Cons simp del: cdFinalize.simps(2) split: option.splits dest!: entryOp_key)
qed simp

lemma revert_keys_list: "map opKey (revertOps d) = created d @ map fst (deleted d) @ map fst (updated d)"
  for d :: stateDiff
  by (auto simp: revertOps_def o_def split_def)

lemma revert_distinct: "distinct (map fst c) \<Longrightarrow> distinct (map opKey (revertOps (snd (cdFinalize c))))"
proof (induction c)
  case (Cons x c)
  obtain k e ops diff where x: "x = (k, e)" "cdFinalize c = (ops, diff)" by (cases x, cases "cdFinalize c")
  have "k \<notin> opKey ` set (revertOps diff)" using revert_keys[of _ c] Cons.prems x by auto
  then have "k \<notin> set (map opKey (revertOps diff))" by simp
  with Cons x show ?case unfolding revert_keys_list by (auto split: option.splits)
qed (simp add: revertOps_def)

lemma applyBatch_by_entry:
  assumes "kvok c" "distinct (map opKey ops)"
    and "set ops = (\<Union>(k, e) \<in> set c. set_option (f k e))" "\<And>k e op. f k e = Some op \<Longrightarrow> opKey op = k"
  shows "applyBatch ops d k = (case kvget c k of None \<Rightarrow> d k
           | Some e \<Rightarrow> (case f k e of None \<Rightarrow> d k | Some op \<Rightarrow> opVal op))"
proof (cases "\<exists>e op. kvget c k = Some e \<and> f k e = Some op")
  case True
  then obtain e op where e: "kvget c k = Some e" "f k e = Some op" by auto
  then have "op \<in> set ops" using assms(1,3) by (auto simp: kvget_member)
  from applyBatch_member[OF assms(2) this] e assms(4) show ?thesis by auto
next
  case False
  then have "k \<notin> opKey ` set ops" using assms(1,3,4) by (auto simp: kvget_member)
  from applyBatch_other[OF this] False show ?thesis by (auto split: option.splits)
qed

lemma finalize_view:
  assumes "cache_ok db c"
  shows "applyBatch (fst (cdFinalize c)) (dbGet db) = view db c"
proof
  fix k
  have kv: "kvok c" using assms by (simp add: cache_ok_def)
  have "applyBatch (fst (cdFinalize c)) (dbGet db) k = (case kvget c k of None \<Rightarrow> dbGet db k
           | Some e \<Rightarrow> (case entryOp k e of None \<Rightarrow> dbGet db k | Some op \<Rightarrow> opVal op))"
    by (rule applyBatch_by_entry[OF kv finalize_distinct[OF kvok_distinct[OF kv]] finalize_set entryOp_key])
  then show "applyBatch (fst (cdFinalize c)) (dbGet db) k = view db c k"
    using cache_okD[OF assms, of k]
    by (cases "kvget c k") (auto simp: view_def entryOp_def entry_ok_def split: option.splits)
qed

lemma revert_view:
  assumes "cache_ok db c"
  shows "applyBatch (revertOps (snd (cdFinalize c))) (view db c) = dbGet db"
proof
  fix k
  have kv: "kvok c" using assms by (simp add: cache_ok_def)
  have "applyBatch (revertOps (snd (cdFinalize c))) (view db c) k = (case kvget c k of None \<Rightarrow> view db c k
           | Some e \<Rightarrow> (case entryUndo k e of None \<Rightarrow> view db c k | Some op \<Rightarrow> opVal op))"
    by (rule applyBatch_by_entry[OF kv revert_distinct[OF kvok_distinct[OF kv]] revert_set entryUndo_key])
  then show "applyBatch (revertOps (snd (cdFinalize c))) (view db c) k = dbGet db k"
    using cache_okD[OF assms, of k]
    by (cases "kvget c k") (auto simp: view_def entryUndo_def entry_ok_def split: option.splits if_splits)
qed

section \<open>Iteration\<close>

lemma cdGet_cases:
  "(\<exists>w. cdGet k c = (Some w, False)) \<or> cdGet k c = (None, True) \<or> cdGet k c = (None, False)"
  by (auto simp: cdGet_def split: option.split)

lemma streamFold_correct:
  assumes "cache_ok db c" "distinct (map fst r)" "\<And>k v. (k, v) \<in> set r \<Longrightarrow> dbGet db k = Some v"
    and "streamFold r c = (vs, c')"
  shows "cache_ok db c' \<and> view db c' = view db c \<and>
     fst ` set r \<subseteq> fst ` set c' \<and> fst ` set c \<subseteq> fst ` set c' \<and>
     (\<forall>(k, v) \<in> set vs. k \<in> fst ` set r \<and> view db c k = Some v)"
  using assms
proof (induction r arbitrary: c vs c')
  case (Cons x r)
  obtain k v where x: "x = (k, v)" by (cases x)
  have dbk: "dbGet db k = Some v" using Cons.prems(3) x by auto
  have dr: "distinct (map fst r)" "\<And>k v. (k, v) \<in> set r \<Longrightarrow> dbGet db k = Some v"
    using Cons.prems(2,3) by auto
  consider (hit) w where "cdGet k c = (Some w, False)" | (del) "cdGet k c = (None, True)" | (miss) "cdGet k c = (None, False)"
    using cdGet_cases[of k c] by blast
  then show ?case
  proof cases
    case hit
    with Cons.prems(4) x obtain vs' where r: "streamFold r c = (vs', c')" "vs = (k, w) # vs'"
      by (auto simp: Let_def split: prod.splits)
    have "k \<in> fst ` set c"
      using hit by (force simp: cdGet_def split: option.splits if_splits dest: map_of_SomeD)
    with Cons.IH[OF Cons.prems(1) dr r(1)] r(2) x view_cdGet[OF hit, of db] show ?thesis by auto
  next
    case del
    with Cons.prems(4) x have r: "streamFold r c = (vs, c')" by simp
    have "k \<in> fst ` set c"
      using del by (force simp: cdGet_def split: option.splits if_splits dest: map_of_SomeD)
    with Cons.IH[OF Cons.prems(1) dr r] x show ?thesis by auto
  next
    case miss
    with Cons.prems(4) x obtain vs' where r: "streamFold r (cdCache k v c) = (vs', c')" "vs = (k, v) # vs'"
      by (auto simp: Let_def split: prod.splits)
    have kc: "kvget c k = None" using miss cdGet_miss by auto
    note cc = cdCache_correct[OF Cons.prems(1) dbk kc]
    have "view db c k = Some v" using kc dbk by (simp add: view_def)
    moreover have "fst ` set (cdCache k v c) = insert k (fst ` set c)" by (simp add: cdCache_def)
    ultimately show ?thesis using Cons.IH[OF cc(1) dr r(1)] cc(2) r(2) x by auto
  qed
qed simp

definition keyOrder :: "bool \<Rightarrow> bytes \<Rightarrow> bytes \<Rightarrow> bool" where
  "keyOrder reverse a b = (if reverse then b \<le> a else a \<le> b)"

lemma sorted_iter: "sorted_wrt (\<lambda>a b. keyOrder reverse (fst a) (fst b)) (sortBy (iterCompare reverse) xs)"
proof -
  have "sorted_wrt (\<lambda>a b. iterCompare reverse a b \<le> 0) (sortBy (iterCompare reverse) xs)"
    by (rule sorted_sortBy) (auto simp: iterCompare_def split: if_splits)
  then show ?thesis
    by (rule sorted_wrt_mono_rel[rotated]) (auto simp: iterCompare_def keyOrder_def split: if_splits)
qed

lemma getRange_set:
  assumes "cache_ok db c"
  shows "(k, v) \<in> set (cdGetRange lo hi c) \<longleftrightarrow>
    lo \<le> k \<and> k \<le> hi \<and> k \<in> fst ` set c \<and> view db c k = Some v"
proof -
  have kv: "kvok c" using assms by (simp add: cache_ok_def)
  have "(k, v) \<in> set (cdGetRange lo hi c) \<longleftrightarrow>
     (\<exists>e. kvget c k = Some e \<and> lo \<le> k \<and> k \<le> hi \<and> \<not> cvDeleted e \<and> v = cvValue e)"
    by (force simp: cdGetRange_def kvget_member[OF kv])
  moreover have "k \<in> fst ` set c \<longleftrightarrow> (\<exists>e. kvget c k = Some e)"
    by (metis domIff dom_map_of_conv_image_fst not_None_eq)
  ultimately show ?thesis by (auto simp: view_def split: if_splits)
qed

lemma getRange_distinct: "distinct (map fst c) \<Longrightarrow> distinct (map fst (cdGetRange lo hi c))"
  by (auto simp: cdGetRange_def o_def split_def distinct_map inj_on_def)

lemma streamFold_range:
  assumes db: "db_ok db" and c: "cache_ok db c"
    and s: "streamFold (dbStream db lo hi reverse None) c = (vs, c')"
  shows "cache_ok db c'" "view db c' = view db c"
    and "filter (\<lambda>(k, v). k \<notin> set (map fst (cdGetRange lo hi c'))) vs = []"
    and "\<And>k v. (k, v) \<in> set (cdGetRange lo hi c') \<longleftrightarrow> lo \<le> k \<and> k \<le> hi \<and> view db c k = Some v"
proof -
  let ?r = "dbStream db lo hi reverse None"
  have d: "distinct (map fst ?r)" "(k, v) \<in> set ?r \<longleftrightarrow> lo \<le> k \<and> k \<le> hi \<and> dbGet db k = Some v" for k v
    using db by (auto simp: db_ok_def)
  have sf: "cache_ok db c' \<and> view db c' = view db c \<and> fst ` set ?r \<subseteq> fst ` set c' \<and>
     fst ` set c \<subseteq> fst ` set c' \<and> (\<forall>(k, v) \<in> set vs. k \<in> fst ` set ?r \<and> view db c k = Some v)"
    by (rule streamFold_correct[OF c d(1) _ s]) (use d(2) in auto)
  then show c': "cache_ok db c'" and v: "view db c' = view db c" by auto
  show r: "(k, v) \<in> set (cdGetRange lo hi c') \<longleftrightarrow> lo \<le> k \<and> k \<le> hi \<and> view db c k = Some v" for k v
  proof -
    have "k \<in> fst ` set c'" if "lo \<le> k" "k \<le> hi" "view db c k = Some v"
    proof (rule ccontr)
      assume "k \<notin> fst ` set c'"
      then have "kvget c' k = None" by (simp add: map_of_eq_None_iff)
      then have "dbGet db k = Some v" using that(3) v[symmetric] by (simp add: view_def)
      then have "(k, v) \<in> set ?r" using d(2) that by auto
      then have "k \<in> fst ` set ?r" by (rule image_eqI[rotated]) simp
      moreover from sf have "fst ` set ?r \<subseteq> fst ` set c'" by blast
      ultimately show False using \<open>k \<notin> fst ` set c'\<close> by blast
    qed
    then show ?thesis unfolding getRange_set[OF c'] v by auto
  qed
  have "(k, v) \<in> set (cdGetRange lo hi c')" if "(k, v) \<in> set vs" for k v
  proof -
    from sf have "\<forall>(k, v) \<in> set vs. k \<in> fst ` set ?r \<and> view db c k = Some v" by blast
    with that have "k \<in> fst ` set ?r" "view db c k = Some v" by auto
    then obtain w where "(k, w) \<in> set ?r" by force
    then have "lo \<le> k \<and> k \<le> hi" using d(2) by blast
    with \<open>view db c k = Some v\<close> show ?thesis using r by blast
  qed
  then have "\<And>k v. (k, v) \<in> set vs \<Longrightarrow> k \<in> set (map fst (cdGetRange lo hi c'))"
    by (metis fst_conv image_eqI list.set_map)
  then show "filter (\<lambda>(k, v). k \<notin> set (map fst (cdGetRange lo hi c'))) vs = []"
    unfolding filter_empty_conv by auto
qed

lemma ssIterate_spec:
  assumes db: "db_ok db" and inv: "store_inv db st h"
  shows "wp (ssIterate db st gte lte reverse None)
    (\<lambda>r t. store_inv db st t \<and> store_abs db st t = store_abs db st h \<and>
       distinct (map fst r) \<and> sorted_wrt (\<lambda>a b. keyOrder reverse (fst a) (fst b)) r \<and>
       (\<forall>k v. (k, v) \<in> set r \<longleftrightarrow> gte \<le> k \<and> k \<le> lte \<and> store_abs db st h k = Some v))
    (\<lambda>_ _. False) h"
proof -
  define lo hi where "lo = ssKey st gte" and "hi = ssKey st lte"
  obtain vs c' where s: "streamFold (dbStream db lo hi reverse None) (h ! ssCache st) = (vs, c')"
    by fastforce
  from inv have c: "cache_ok db (h ! ssCache st)" and len: "ssCache st < length h"
    by (auto simp: store_inv_def)
  note sr = streamFold_range[OF db c s]
  let ?strip = "\<lambda>(k, v). (drop (length (ssPrefix st)) k, v)"
  let ?res = "map ?strip (cdGetRange lo hi c')"
  have mem: "(k, v) \<in> set ?res \<longleftrightarrow> gte \<le> k \<and> k \<le> lte \<and> store_abs db st h k = Some v" for k v
  proof
    assume "(k, v) \<in> set ?res"
    then obtain k' where k': "k = drop (length (ssPrefix st)) k'" "(k', v) \<in> set (cdGetRange lo hi c')"
      by auto
    then have "lo \<le> k'" "k' \<le> hi" using sr(4) by auto
    then obtain k'' where "k' = ssPrefix st @ k''"
      unfolding lo_def hi_def ssKey_def using prefix_convex by blast
    with k' sr(4) show "gte \<le> k \<and> k \<le> lte \<and> store_abs db st h k = Some v"
      by (auto simp: lo_def hi_def ssKey_def store_abs_def)
  next
    assume "gte \<le> k \<and> k \<le> lte \<and> store_abs db st h k = Some v"
    then have "(ssKey st k, v) \<in> set (cdGetRange lo hi c')"
      unfolding sr(4) by (auto simp: lo_def hi_def ssKey_def store_abs_def)
    then show "(k, v) \<in> set ?res" by (force simp: ssKey_def)
  qed
  have "map fst (cdGetRange lo hi c') = map (\<lambda>k. ssPrefix st @ k) (map fst ?res)"
    using sr(4) prefix_convex[of "ssPrefix st" gte _ lte]
    by (auto simp: lo_def hi_def ssKey_def) (metis append_eq_conv_conj)
  moreover have "distinct (map fst (cdGetRange lo hi c'))"
    using sr(1) by (intro getRange_distinct kvok_distinct) (simp add: cache_ok_def)
  ultimately have dist: "distinct (map fst ?res)" by (simp only: distinct_map)
  have keep: "store_inv db st (h[ssCache st := c'])"
    "store_abs db st (h[ssCache st := c']) = store_abs db st h"
    using sr(1,2) len by (auto simp: store_inv_def store_abs_def fun_eq_iff)
  show ?thesis
    unfolding ssIterate_def Let_def lo_def[symmetric] hi_def[symmetric] wp s updCache_def prod.case sr(3)
    using keep dist sorted_iter[of reverse ?res] mem by simp
qed

section \<open>Runs of operations\<close>

datatype storeOp = OpGet bytes | OpHas bytes | OpSet bytes bytes | OpDel bytes
datatype storeRes = RVal "bytes option" | RBool bool | RUnit

text \<open>A client call; a missing key is reported as \<open>RVal None\<close>.\<close>

fun runOp :: "database \<Rightarrow> stateStore \<Rightarrow> storeOp \<Rightarrow> (cheap, storeRes) m" where
  "runOp db st (OpGet k) =
     tryCatch (bind (ssGet db st k) (\<lambda>v. ret (RVal (Some v))))
       (\<lambda>e. if e = NotFoundError then ret (RVal None) else throw e)"
| "runOp db st (OpHas k) = bind (ssHas db st k) (\<lambda>b. ret (RBool b))"
| "runOp db st (OpSet k v) = andThen (ssSet db st k v) (ret RUnit)"
| "runOp db st (OpDel k) = andThen (ssDel db st k) (ret RUnit)"

fun runOps :: "database \<Rightarrow> stateStore \<Rightarrow> storeOp list \<Rightarrow> (cheap, storeRes list) m" where
  "runOps db st [] = ret []"
| "runOps db st (op # ops) =
     bind (runOp db st op) (\<lambda>r. bind (runOps db st ops) (\<lambda>rs. ret (r # rs)))"

text \<open>The specification: the same calls on one plain map.\<close>

fun absOp :: "storeOp \<Rightarrow> (bytes \<Rightarrow> bytes option) \<Rightarrow> storeRes \<times> (bytes \<Rightarrow> bytes option)" where
  "absOp (OpGet k) d = (RVal (d k), d)"
| "absOp (OpHas k) d = (RBool (d k \<noteq> None), d)"
| "absOp (OpSet k v) d = (RUnit, d(k \<mapsto> v))"
| "absOp (OpDel k) d = (RUnit, d(k := None))"

fun absOps :: "storeOp list \<Rightarrow> (bytes \<Rightarrow> bytes option) \<Rightarrow> storeRes list \<times> (bytes \<Rightarrow> bytes option)" where
  "absOps [] d = ([], d)"
| "absOps (op # ops) d =
     (let (r, d') = absOp op d; (rs, d'') = absOps ops d' in (r # rs, d''))"

lemma runOp_spec:
  assumes "store_inv db st h"
  shows "wp (runOp db st op)
    (\<lambda>r t. store_inv db st t \<and> (r, store_abs db st t) = absOp op (store_abs db st h)) (\<lambda>_ _. False) h"
proof (cases op)
  case (OpGet k)
  show ?thesis unfolding OpGet runOp.simps wp
    by (rule wp_mono[OF ss.get_spec[OF assms, of k]]) (auto simp: wp)
next
  case (OpHas k)
  show ?thesis unfolding OpHas runOp.simps wp by (rule wp_mono[OF ss.has_spec[OF assms, of k]]) auto
next
  case (OpSet k v)
  show ?thesis unfolding OpSet runOp.simps wp by (rule wp_mono[OF ss.set_spec[OF assms, of k v]]) auto
next
  case (OpDel k)
  show ?thesis unfolding OpDel runOp.simps wp by (rule wp_mono[OF ss.del_spec[OF assms, of k]]) auto
qed

lemma runOps_spec:
  assumes "store_inv db st h"
  shows "wp (runOps db st ops)
    (\<lambda>rs t. store_inv db st t \<and> (rs, store_abs db st t) = absOps ops (store_abs db st h)) (\<lambda>_ _. False) h"
  using assms
proof (induction ops arbitrary: h)
  case (Cons op ops)
  show ?case
    unfolding runOps.simps wp
  proof (rule wp_mono[OF runOp_spec[OF Cons.prems]])
    fix r t
    assume t: "store_inv db st t \<and> (r, store_abs db st t) = absOp op (store_abs db st h)"
    show "wp (runOps db st ops) (\<lambda>rs u. store_inv db st u \<and>
        (r # rs, store_abs db st u) = absOps (op # ops) (store_abs db st h)) (\<lambda>_ _. False) t"
      by (rule wp_mono[OF Cons.IH[of t]]) (use t in \<open>auto simp: Let_def split: prod.splits\<close>)
  qed simp
qed (simp add: wp)

text \<open>No operation touches a cache other than its own.\<close>

definition same_but :: "nat \<Rightarrow> cheap \<Rightarrow> cheap \<Rightarrow> bool" where
  "same_but r h t \<longleftrightarrow> length t = length h \<and> (\<forall>i. i \<noteq> r \<longrightarrow> t ! i = h ! i)"

lemma same_but_refl [simp]: "same_but r h h"
  by (simp add: same_but_def)

lemma same_but_upd [simp]: "same_but r h t \<Longrightarrow> same_but r h (t[r := c])"
  by (simp add: same_but_def)

lemma same_but_trans: "same_but r h t \<Longrightarrow> same_but r t u \<Longrightarrow> same_but r h u"
  by (simp add: same_but_def)

lemma runOp_frame: "wp (runOp db st op) (\<lambda>_ t. same_but (ssCache st) h t) (\<lambda>_ t. same_but (ssCache st) h t) h"
  by (cases op)
     (auto simp: wp ssGet_def ssHas_def ssSet_def ssDel_def ssEnsureCache_def cacheSet_def updCache_def Let_def
           split: option.splits prod.splits sum.splits)

lemma runOps_frame: "wp (runOps db st ops) (\<lambda>_ t. same_but (ssCache st) h t) (\<lambda>_ t. same_but (ssCache st) h t) h"
proof (induction ops arbitrary: h)
  case (Cons op ops)
  show ?case
    unfolding runOps.simps wp
  proof (rule wp_mono[OF runOp_frame])
    fix t assume t: "same_but (ssCache st) h t"
    show "wp (runOps db st ops) (\<lambda>_ t. same_but (ssCache st) h t) (\<lambda>_ t. same_but (ssCache st) h t) t"
      by (rule wp_mono[OF Cons.IH]) (use t in \<open>auto intro: same_but_trans\<close>)
  qed
qed (simp add: wp)

text \<open>A database held in memory, on which the properties below are evaluated.\<close>

definition memDB :: "bytes kv \<Rightarrow> database" where
  "memDB kvs = \<lparr>dbGet = kvget kvs,
     dbStream = (\<lambda>lo hi reverse limit.
       let r = kvrange lo hi kvs; r = (if reverse then rev r else r)
       in case limit of None \<Rightarrow> r | Some n \<Rightarrow> take (nat n) r)\<rparr>"

lemma memDB_ok: "kvok kvs \<Longrightarrow> db_ok (memDB kvs)"
  by (auto simp: db_ok_def memDB_def kvrange_def Let_def kvget_member[symmetric] rev_map[symmetric]
      intro!: distinct_map_filter dest: kvok_distinct)

section \<open>Properties\<close>

text \<open>
  C18: the state store, with its cache, its dirty and deleted flags and its lazy reads, is
  indistinguishable from one map. Any sequence of get, has, set and del on a store returns,
  without an error, exactly what the same sequence returns on the map the store stands for,
  and leaves the store standing for the resulting map.
\<close>

theorem state_store_refines_map:
  assumes "store_inv db st h"
  shows "\<exists>rs t. runOps db st ops h = (Inr rs, t) \<and> store_inv db st t \<and>
    (rs, store_abs db st t) = absOps ops (store_abs db st h)"
  using runOps_spec[OF assms, of ops] by (auto simp: wp_def split: prod.splits sum.splits)

theorem state_store_refines_map_witness:
  "\<exists>rs t. runOps (memDB [([10, 1], [7])]) (fst (ssNew [])) [OpGet [1], OpDel [1], OpHas [1], OpSet [2] [5], OpGet [2]]
       (snd (ssNew [])) = (Inr rs, t) \<and>
     store_inv (memDB [([10, 1], [7])]) (fst (ssNew [])) t \<and>
     (rs, store_abs (memDB [([10, 1], [7])]) (fst (ssNew [])) t) =
       absOps [OpGet [1], OpDel [1], OpHas [1], OpSet [2] [5], OpGet [2]]
         (store_abs (memDB [([10, 1], [7])]) (fst (ssNew [])) (snd (ssNew [])))"
  by (rule state_store_refines_map) (simp add: store_inv_def ssNew_def)

text \<open>
  C19: committing and undoing. Writing the batch of \<open>finalize\<close> to the database makes it
  the map the store stands for; applying the inverse that \<open>deleteBlock\<close> derives from the
  state diff then restores the database as it was before the block.
\<close>

theorem finalize_commits_and_diff_undoes:
  assumes "store_inv db st h" "ssFinalize st h = (ops, diff)"
  shows "applyBatch ops (dbGet db) = view db (h ! ssCache st) \<and>
    applyBatch (revertOps diff) (applyBatch ops (dbGet db)) = dbGet db"
proof -
  have c: "cache_ok db (h ! ssCache st)" using assms(1) by (simp add: store_inv_def)
  have f: "ops = fst (cdFinalize (h ! ssCache st))" "diff = snd (cdFinalize (h ! ssCache st))"
    using assms(2) by (simp_all add: ssFinalize_def)
  show ?thesis unfolding f finalize_view[OF c] revert_view[OF c] by simp
qed

theorem finalize_commits_and_diff_undoes_witness:
  "applyBatch [BDel [10, 1], BSet [10, 2] [5]] (dbGet (memDB [([10, 1], [7])])) =
     view (memDB [([10, 1], [7])])
       ([[([10, 1], \<lparr>cvInit = Some [7], cvValue = [7], cvDirty = False, cvDeleted = True\<rparr>),
          ([10, 2], \<lparr>cvInit = None, cvValue = [5], cvDirty = False, cvDeleted = False\<rparr>)]] ! 0) \<and>
   applyBatch (revertOps \<lparr>created = [[10, 2]], deleted = [([10, 1], [7])], updated = []\<rparr>)
     (applyBatch [BDel [10, 1], BSet [10, 2] [5]] (dbGet (memDB [([10, 1], [7])]))) =
     dbGet (memDB [([10, 1], [7])])"
proof -
  let ?c = "[([10, 1], \<lparr>cvInit = Some [7], cvValue = [7], cvDirty = False, cvDeleted = True\<rparr>),
             ([10, 2], \<lparr>cvInit = None, cvValue = [5], cvDirty = False, cvDeleted = False\<rparr>)] :: cacheDB"
  have i: "store_inv (memDB [([10, 1], [7])]) (fst (ssNew [])) [?c]"
    by (auto simp: store_inv_def ssNew_def cache_ok_def kvok_def entry_ok_def memDB_def split: if_splits)
  have f: "ssFinalize (fst (ssNew [])) [?c] =
      ([BDel [10, 1], BSet [10, 2] [5]], \<lparr>created = [[10, 2]], deleted = [([10, 1], [7])], updated = []\<rparr>)"
    by (simp add: ssFinalize_def ssNew_def)
  have s: "ssCache (fst (ssNew [])) = 0" by (simp add: ssNew_def)
  show ?thesis using finalize_commits_and_diff_undoes[OF i f] unfolding s .
qed

text \<open>
  iteration. Over a database that streams its range in key order, iterating without a
  limit returns, in key order (or the reverse), every entry of the range that the store
  holds, cached or persisted, each once, and none that was deleted; it changes nothing a
  client can see.
\<close>

theorem iterate_complete:
  assumes "db_ok db" "store_inv db st h"
  shows "\<exists>r t. ssIterate db st gte lte reverse None h = (Inr r, t) \<and>
    store_inv db st t \<and> store_abs db st t = store_abs db st h \<and>
    distinct (map fst r) \<and> sorted_wrt (\<lambda>a b. keyOrder reverse (fst a) (fst b)) r \<and>
    (\<forall>k v. (k, v) \<in> set r \<longleftrightarrow> gte \<le> k \<and> k \<le> lte \<and> store_abs db st h k = Some v)"
  using ssIterate_spec[OF assms, of gte lte reverse] by (auto simp: wp_def split: prod.splits sum.splits)

theorem iterate_complete_witness:
  "\<exists>r t. ssIterate (memDB [([10, 1], [7])]) (fst (ssNew [])) [0] [9] False None (snd (ssNew [])) = (Inr r, t) \<and>
    store_inv (memDB [([10, 1], [7])]) (fst (ssNew [])) t \<and>
    store_abs (memDB [([10, 1], [7])]) (fst (ssNew [])) t =
      store_abs (memDB [([10, 1], [7])]) (fst (ssNew [])) (snd (ssNew [])) \<and>
    distinct (map fst r) \<and> sorted_wrt (\<lambda>a b. keyOrder False (fst a) (fst b)) r \<and>
    (\<forall>k v. (k, v) \<in> set r \<longleftrightarrow> [0] \<le> k \<and> k \<le> [9] \<and>
       store_abs (memDB [([10, 1], [7])]) (fst (ssNew [])) (snd (ssNew [])) k = Some v)"
  by (rule iterate_complete) (simp_all add: memDB_ok kvok_def store_inv_def ssNew_def)

text \<open>
  with a limit, iteration can miss entries. The limit is handed to the database stream
  before the entries deleted in the cache are left out: over a database with the keys 1 and
  2, after deleting key 1, iterating with limit 1 returns nothing although the store still
  holds key 2.
\<close>

theorem iterate_limit_misses_entries:
  "let db = memDB [([10, 1], [7]), ([10, 2], [8])]; (st, h) = ssNew []; (r, t) = ssDel db st [1] h
   in r = Inr () \<and> store_abs db st t [2] = Some [8] \<and>
      fst (ssIterate db st [0] [9] False (Some 1) t) = Inr []"
  by code_simp

text \<open>
  snapshots. After \<open>createSnapshot\<close>, whatever operations run on the store, restoring
  that snapshot succeeds and brings back the map the store stood for when it was taken.
\<close>

theorem snapshot_restores:
  assumes "store_inv db st h" "ssCreateSnapshot st h = (n, st', h')"
    and "runOps db st' ops h' = (r, h'')"
  shows "\<exists>st''. ssRestoreSnapshot st' n = Inr st'' \<and> store_inv db st'' h'' \<and>
    store_abs db st'' h'' = store_abs db st h"
proof -
  from assms(2) have st': "ssSnapshot st' = Some (length h)" "ssLatest st' = n"
      "ssCache st' = ssCache st" "ssPrefix st' = ssPrefix st" "h' = h @ [h ! ssCache st]"
    by (auto simp: ssCreateSnapshot_def Let_def)
  have len: "ssCache st < length h" using assms(1) by (simp add: store_inv_def)
  have "same_but (ssCache st') h' h''"
    using runOps_frame[of db st' ops h'] assms(3) by (auto simp: wp_def split: sum.splits)
  then have "h'' ! length h = h ! ssCache st" "length h'' = Suc (length h)"
    using len st' by (auto simp: same_but_def nth_append)
  with assms(1) st' show ?thesis
    by (auto simp: ssRestoreSnapshot_def store_inv_def store_abs_def ssKey_def fun_eq_iff)
qed

theorem snapshot_restores_witness:
  "\<exists>st''. ssRestoreSnapshot (fst (snd (ssCreateSnapshot (fst (ssNew [])) (snd (ssNew []))))) 0 = Inr st'' \<and>
    store_inv (memDB []) st'' (snd (runOps (memDB []) (fst (snd (ssCreateSnapshot (fst (ssNew [])) (snd (ssNew [])))))
      [OpSet [1] [2]] (snd (snd (ssCreateSnapshot (fst (ssNew [])) (snd (ssNew []))))))) \<and>
    store_abs (memDB []) st'' (snd (runOps (memDB []) (fst (snd (ssCreateSnapshot (fst (ssNew [])) (snd (ssNew [])))))
      [OpSet [1] [2]] (snd (snd (ssCreateSnapshot (fst (ssNew [])) (snd (ssNew []))))))) =
    store_abs (memDB []) (fst (ssNew [])) (snd (ssNew []))"
  by (rule snapshot_restores[of _ _ _ _ _ "snd (snd (ssCreateSnapshot (fst (ssNew [])) (snd (ssNew []))))"
        "[OpSet [1] [2]]" "fst (runOps (memDB []) (fst (snd (ssCreateSnapshot (fst (ssNew [])) (snd (ssNew [])))))
      [OpSet [1] [2]] (snd (snd (ssCreateSnapshot (fst (ssNew [])) (snd (ssNew []))))))"])
     (simp_all add: store_inv_def ssNew_def ssCreateSnapshot_def)

text \<open>
  a restore does not reach the sub-stores handed out before it. \<open>getStore\<close> shares the
  cache object; \<open>restoreSnapshot\<close> replaces the reference of the parent only. A sub-store
  that wrote after the snapshot still reads its write after the restore, while a sub-store
  obtained from the parent after the restore does not see it.
\<close>

theorem restore_leaves_substores_stale:
  "let (st, h) = ssNew []; sub = ssGetStore st [1] [2]; (n, st1, h1) = ssCreateSnapshot st h;
       (_, h2) = ssSet (memDB []) sub [3] [4] h1
   in \<exists>st2. ssRestoreSnapshot st1 n = Inr st2 \<and>
        fst (ssGet (memDB []) sub [3] h2) = Inr [4] \<and>
        fst (ssGet (memDB []) (ssGetStore st2 [1] [2]) [3] h2) = Inl NotFoundError"
  by (simp add: ssNew_def ssGetStore_def ssCreateSnapshot_def ssRestoreSnapshot_def ssSet_def ssGet_def ssKey_def
      DB_KEY_STATE_STORE_def Let_def bind_def andThen_def gets_def modify_def updCache_def cdExistAny_def
      ssEnsureCache_def memDB_def cdAdd_def cdGet_def ret_def throw_def)

end
