(* ===== verification/MerkleTree.thy ===== *)
theory MerkleTree
  imports BaseStore
begin

text \<open>
  The regular Merkle tree (\<open>elements/tree/src/merkle_tree\<close>): the recursive root of a list of
  leaves, the incremental root with an append path, the layer-by-layer construction of the
  class \<open>MerkleTree\<close>, right witnesses and the path nodes of an inclusion proof.

  The hash function is a parameter. \<open>Math.log2\<close> is only applied to sizes below \<open>2 ^ 32\<close>,
  where its rounding is exact for the floor and the ceiling the code takes; \<open>floorLog2\<close> and
  \<open>ceilLog2\<close> are these. Bitwise operators work on 32 bits and take the shift modulo 32.
\<close>

section \<open>Helpers\<close>

fun floorLog2 :: "nat \<Rightarrow> nat" where
  "floorLog2 n = (if n < 2 then 0 else Suc (floorLog2 (n div 2)))"

declare floorLog2.simps [simp del]

definition ceilLog2 :: "nat \<Rightarrow> nat" where
  "ceilLog2 n = (if n < 2 then 0 else Suc (floorLog2 (n - 1)))"

definition LEAF_PREFIX :: bytes where "LEAF_PREFIX = [0]"
definition BRANCH_PREFIX :: bytes where "BRANCH_PREFIX = [1]"

definition generateHash :: "(bytes \<Rightarrow> bytes) \<Rightarrow> bytes \<Rightarrow> bytes \<Rightarrow> bytes \<Rightarrow> bytes" where
  "generateHash hash pre leftHash rightHash = hash (pre @ leftHash @ rightHash)"

definition leafHash :: "(bytes \<Rightarrow> bytes) \<Rightarrow> bytes \<Rightarrow> bytes" where
  "leafHash hash value = hash (LEAF_PREFIX @ value)"

text \<open>\<open>(n >>> i) & 1\<close> and \<open>(n >> i) & 1\<close>: bit \<open>i mod 32\<close> of the 32-bit value; \<open>1 << i\<close>.\<close>

definition shrBit :: "int \<Rightarrow> nat \<Rightarrow> bool" where
  "shrBit n i = bit (word_of_int n :: 32 word) (i mod 32)"

definition shl1 :: "nat \<Rightarrow> int" where
  "shl1 i = sint (push_bit (i mod 32) 1 :: 32 word)"

definition getHeight :: "nat \<Rightarrow> nat" where
  "getHeight n = ceilLog2 n + 1"

section \<open>Root of a list of leaves\<close>

definition largestPowerOfTwoSmallerThan :: "nat \<Rightarrow> nat" where
  "largestPowerOfTwoSmallerThan n = 2 ^ floorLog2 (n - 1)"

lemma floorLog2_bounds: "0 < n \<Longrightarrow> 2 ^ floorLog2 n \<le> n \<and> n < 2 * 2 ^ floorLog2 n"
proof (induction n rule: floorLog2.induct)
  case (1 n)
  then show ?case
    by (cases "n < 2") (auto simp: floorLog2.simps[of n])
qed

lemma floorLog2_unique:
  assumes "2 ^ k \<le> n" "n < 2 * 2 ^ k"
  shows "floorLog2 n = k"
proof -
  have "0 < n" using assms(1) by (metis gr_zeroI le_zero_eq power_not_zero zero_neq_numeral)
  then have b: "2 ^ floorLog2 n \<le> n" "n < 2 ^ Suc (floorLog2 n)" using floorLog2_bounds[of n] by auto
  have "(2::nat) ^ k < 2 ^ Suc (floorLog2 n)" "(2::nat) ^ floorLog2 n < 2 ^ Suc k" using assms b by auto
  then have "k < Suc (floorLog2 n)" "floorLog2 n < Suc k" by (simp_all only: power_strict_increasing_iff)
  then show ?thesis by simp
qed

lemma split_bounds:
  assumes "2 \<le> n"
  shows "0 < largestPowerOfTwoSmallerThan n" "largestPowerOfTwoSmallerThan n < n"
  using floorLog2_bounds[of "n - 1"] assms by (auto simp: largestPowerOfTwoSmallerThan_def)

function calculateMerkleRootWithLeaves :: "(bytes \<Rightarrow> bytes) \<Rightarrow> bytes list \<Rightarrow> bytes" where
  "calculateMerkleRootWithLeaves hash data =
     (if length data = 0 then hash []
      else if length data = 1 then leafHash hash (data ! 0)
      else let k = largestPowerOfTwoSmallerThan (length data) in
        generateHash hash BRANCH_PREFIX (calculateMerkleRootWithLeaves hash (take k data))
          (calculateMerkleRootWithLeaves hash (drop k data)))"
  by pat_completeness auto
termination
proof (relation "measure (\<lambda>(h, xs). length xs)", goal_cases)
  case (2 hash data x)
  then have "2 \<le> length data" by linarith
  then show ?case using split_bounds[of "length data"] 2 by simp
next
  case (3 hash data x)
  then have "2 \<le> length data" by linarith
  then show ?case using split_bounds[of "length data"] 3 by simp
qed simp

declare calculateMerkleRootWithLeaves.simps [simp del]

section \<open>Incremental root\<close>

record merkleRootInfo =
  miRoot :: bytes
  miAppendPath :: "bytes list"
  miSize :: nat

text \<open>An index outside the append path yields \<open>undefined\<close>, on which \<open>Buffer.concat\<close> throws.\<close>

primrec rootLoop :: "(bytes \<Rightarrow> bytes) \<Rightarrow> bytes list \<Rightarrow> nat \<Rightarrow> nat list \<Rightarrow> nat \<Rightarrow> bytes \<Rightarrow> err + bytes" where
  "rootLoop hash path n [] count cur = Inr cur"
| "rootLoop hash path n (i # is) count cur =
     (if shrBit (int n) i then
        (if count < length path
         then rootLoop hash path n is (Suc count) (generateHash hash BRANCH_PREFIX (path ! count) cur)
         else Inl (Error ''TypeError''))
      else rootLoop hash path n is count cur)"

text \<open>The loop bound is \<open>ceil (log2 size) + 1\<close>, which is minus infinity for size 0.\<close>

definition subTreeIndex :: "nat \<Rightarrow> nat" where
  "subTreeIndex n = length (takeWhile (shrBit (int n)) [0..<(if n = 0 then 0 else ceilLog2 n + 1)])"

definition calculateMerkleRoot :: "(bytes \<Rightarrow> bytes) \<Rightarrow> bytes \<Rightarrow> bytes list \<Rightarrow> nat \<Rightarrow> err + merkleRootInfo" where
  "calculateMerkleRoot hash value appendPath n =
     (let newLeafHash = leafHash hash value in
      rbind (rootLoop hash appendPath n [0..<length (toBinary n)] 0 newLeafHash) (\<lambda>newRoot.
      let currentAppendPath = take (subTreeIndex n) appendPath;
          splicedPath = drop (subTreeIndex n) appendPath;
          currentHash = foldl (\<lambda>cur sibling. generateHash hash BRANCH_PREFIX sibling cur) newLeafHash currentAppendPath in
      Inr \<lparr>miRoot = newRoot, miAppendPath = currentHash # splicedPath, miSize = n + 1\<rparr>))"

section \<open>Construction by layers\<close>

text \<open>The two prefix stores of the tree.\<close>

record treeStore =
  hashToValue :: "bytes \<Rightarrow> bytes option"
  locationToHash :: "string \<Rightarrow> bytes option"

definition int32Buffer :: "nat \<Rightarrow> bytes" where
  "int32Buffer n = [word_of_nat (n div 2 ^ 24), word_of_nat (n div 2 ^ 16), word_of_nat (n div 2 ^ 8), word_of_nat n, 0, 0, 0, 0]"

definition getBinaryString :: "nat \<Rightarrow> nat \<Rightarrow> string" where
  "getBinaryString nodeIndex len =
     (if len = 0 then []
      else let b = map (\<lambda>d. if d then CHR ''1'' else CHR ''0'') (toBinary nodeIndex) in
        replicate (len - length b) (CHR ''0'') @ b)"

definition generateLeaf :: "(bytes \<Rightarrow> bytes) \<Rightarrow> bool \<Rightarrow> nat \<Rightarrow> bytes \<Rightarrow> nat \<Rightarrow> treeStore \<Rightarrow> bytes \<times> treeStore" where
  "generateLeaf hash preHashedLeaf n value nodeIndex db =
     (let h = (if preHashedLeaf then value else leafHash hash value) in
      (h, db\<lparr>hashToValue := (hashToValue db)(h \<mapsto> LEAF_PREFIX @ int32Buffer nodeIndex @ value),
             locationToHash := (locationToHash db)(getBinaryString nodeIndex (getHeight n) \<mapsto> h)\<rparr>))"

definition generateBranch :: "(bytes \<Rightarrow> bytes) \<Rightarrow> nat \<Rightarrow> bytes \<Rightarrow> bytes \<Rightarrow> nat \<Rightarrow> nat \<Rightarrow> treeStore \<Rightarrow> bytes \<times> treeStore" where
  "generateBranch hash n leftHash rightHash layerIndex nodeIndex db =
     (let h = generateHash hash BRANCH_PREFIX leftHash rightHash in
      (h, db\<lparr>hashToValue := (hashToValue db)(h \<mapsto>
               BRANCH_PREFIX @ [word_of_nat layerIndex] @ int32Buffer nodeIndex @ leftHash @ rightHash),
             locationToHash := (locationToHash db)(getBinaryString nodeIndex (getHeight n - layerIndex) \<mapsto> h)\<rparr>))"

primrec buildLeaves :: "(bytes \<Rightarrow> bytes) \<Rightarrow> bool \<Rightarrow> nat \<Rightarrow> nat \<Rightarrow> bytes list \<Rightarrow> treeStore \<Rightarrow> bytes list \<times> treeStore" where
  "buildLeaves hash pre n i [] db = ([], db)"
| "buildLeaves hash pre n i (v # vs) db =
     (let (h, db1) = generateLeaf hash pre n v i db;
          (hs, db2) = buildLeaves hash pre n (Suc i) vs db1 in (h # hs, db2))"

text \<open>The pairs of the current layer, without and with the orphan of the layers below.\<close>

fun pairsOf :: "bytes list \<Rightarrow> (bytes \<times> bytes) list" where
  "pairsOf (a # b # r) = (a, b) # pairsOf r"
| "pairsOf _ = []"

primrec buildBranches :: "(bytes \<Rightarrow> bytes) \<Rightarrow> nat \<Rightarrow> nat \<Rightarrow> nat \<Rightarrow> (bytes \<times> bytes) list \<Rightarrow> treeStore \<Rightarrow> bytes list \<times> treeStore" where
  "buildBranches hash n layer i [] db = ([], db)"
| "buildBranches hash n layer i (p # ps) db =
     (let (h, db1) = generateBranch hash n (fst p) (snd p) layer i db;
          (hs, db2) = buildBranches hash n layer (Suc i) ps db1 in (h # hs, db2))"

definition layerPairs :: "bytes list \<Rightarrow> bytes option \<Rightarrow> (bytes \<times> bytes) list \<times> bytes option" where
  "layerPairs hs orphan =
     (let pairs = pairsOf hs in
      if odd (length hs) then
        (case orphan of None \<Rightarrow> (pairs, Some (last hs)) | Some o' \<Rightarrow> (pairs @ [(last hs, o')], None))
      else (pairs, orphan))"

lemma length_pairsOf: "length (pairsOf hs) = length hs div 2"
  by (induction hs rule: pairsOf.induct) auto

lemma length_buildBranches: "length (fst (buildBranches hash n layer i ps db)) = length ps"
  by (induction ps arbitrary: i db) (simp_all add: split_beta)

text \<open>The \<open>while\<close> loop over the layers, in \<open>option\<close>: not returning would be \<open>None\<close>.\<close>

partial_function (option) buildLoop ::
  "(bytes \<Rightarrow> bytes) \<Rightarrow> nat \<Rightarrow> nat \<Rightarrow> bytes list \<Rightarrow> bytes option \<Rightarrow> treeStore \<Rightarrow> (bytes \<times> treeStore) option" where
  [code]: "buildLoop hash n layer hs orphan db =
     (if length hs > 1 \<or> orphan \<noteq> None then
        (let (pairs, orphan') = layerPairs hs orphan;
             (parents, db') = buildBranches hash n (layer + 1) 0 pairs db in
         buildLoop hash n (layer + 1) parents orphan' db')
      else Some (hs ! 0, db))"

definition build :: "(bytes \<Rightarrow> bytes) \<Rightarrow> bool \<Rightarrow> bytes list \<Rightarrow> treeStore \<Rightarrow> (bytes \<times> treeStore) option" where
  "build hash preHashedLeaf initValues db =
     (let (leafHashes, db') = buildLeaves hash preHashedLeaf (length initValues) 0 initValues db in
      buildLoop hash (length initValues) 0 leafHashes None db')"

record merkleTree =
  mtRoot :: bytes
  mtSize :: nat
  mtStore :: treeStore

text \<open>
  \<open>init\<close>. While it handles at most one value the size is still 0, so that the height is
  minus infinity and no padding is added to the location.
\<close>

definition merkleInit :: "(bytes \<Rightarrow> bytes) \<Rightarrow> bool \<Rightarrow> bytes list \<Rightarrow> treeStore \<Rightarrow> merkleTree option" where
  "merkleInit hash preHashedLeaf initValues db =
     (if length initValues \<le> 1 then
        (let (h, v, db1) = (case initValues of
               [] \<Rightarrow> (hash [], [], db)
             | x # _ \<Rightarrow> (let h = (if preHashedLeaf then x else leafHash hash x); v = LEAF_PREFIX @ int32Buffer 0 @ x in
                 (h, v, db\<lparr>hashToValue := (hashToValue db)(h \<mapsto> v),
                           locationToHash := (locationToHash db)(getBinaryString 0 1 \<mapsto> h)\<rparr>))) in
         Some \<lparr>mtRoot = h, mtSize = length initValues,
               mtStore = db1\<lparr>hashToValue := (hashToValue db1)(h \<mapsto> v),
                             locationToHash := (locationToHash db1)(getBinaryString 0 1 \<mapsto> h)\<rparr>\<rparr>)
      else map_option (\<lambda>(r, db'). \<lparr>mtRoot = r, mtSize = length initValues, mtStore = db'\<rparr>)
             (build hash preHashedLeaf initValues db))"

section \<open>Right witness\<close>

definition getRootFromPath :: "(bytes \<Rightarrow> bytes) \<Rightarrow> bytes list \<Rightarrow> err + bytes" where
  "getRootFromPath hash paths =
     (case paths of [] \<Rightarrow> Inl (Error ''Invalid append path'')
      | p # ps \<Rightarrow> Inr (foldl (\<lambda>cur sibling. generateHash hash BRANCH_PREFIX sibling cur) p ps))"

text \<open>
  One round of the loop of \<open>calculateRootFromRightWitness\<close>: the append path, the right
  witness, the current hash, the incremental index and its initialisation flag.
\<close>

definition witnessStep :: "(bytes \<Rightarrow> bytes) \<Rightarrow> int \<Rightarrow> nat \<Rightarrow> bytes list \<Rightarrow> bytes list \<Rightarrow> bytes \<Rightarrow> int \<Rightarrow> bool \<Rightarrow>
    bytes list \<times> bytes list \<times> bytes \<times> int \<times> bool" where
  "witnessStep hash idx layer ap rw cur inc initialized =
     (let (ap, cur, inc, initialized) =
            (if ap \<noteq> [] \<and> shrBit idx layer then
               (if \<not> initialized then (ap, cur, inc + shl1 layer, True)
                else (tl ap, generateHash hash BRANCH_PREFIX (hd ap) cur, inc, initialized))
             else (ap, cur, inc, initialized)) in
      if rw \<noteq> [] \<and> shrBit inc layer
      then (ap, tl rw, generateHash hash BRANCH_PREFIX cur (hd rw), inc + shl1 layer, initialized)
      else (ap, rw, cur, inc, initialized))"

partial_function (option) witnessLoop :: "(bytes \<Rightarrow> bytes) \<Rightarrow> int \<Rightarrow> nat \<Rightarrow> bytes list \<Rightarrow> bytes list \<Rightarrow> bytes \<Rightarrow> int \<Rightarrow> bool \<Rightarrow>
    bytes option" where
  [code]: "witnessLoop hash idx layer ap rw cur inc initialized =
     (if ap = [] \<and> rw = [] then Some cur
      else (let (ap', rw', cur', inc', init') = witnessStep hash idx layer ap rw cur inc initialized in
            witnessLoop hash idx (layer + 1) ap' rw' cur' inc' init'))"

definition calculateRootFromRightWitness :: "(bytes \<Rightarrow> bytes) \<Rightarrow> int \<Rightarrow> bytes list \<Rightarrow> bytes list \<Rightarrow> (err + bytes) option" where
  "calculateRootFromRightWitness hash idx appendPath rightWitness =
     (if appendPath = [] then Some (getRootFromPath hash rightWitness)
      else if rightWitness = [] then Some (getRootFromPath hash appendPath)
      else map_option Inr (witnessLoop hash idx 0 (tl appendPath) (tl rightWitness)
             (generateHash hash BRANCH_PREFIX (hd appendPath) (hd rightWitness)) idx False))"

definition verifyRightWitness :: "(bytes \<Rightarrow> bytes) \<Rightarrow> int \<Rightarrow> bytes list \<Rightarrow> bytes list \<Rightarrow> bytes \<Rightarrow> (err + bool) option" where
  "verifyRightWitness hash idx appendPath rightWitness root =
     map_option (\<lambda>r. rbind r (\<lambda>calculatedRoot. Inr (calculatedRoot = root)))
       (calculateRootFromRightWitness hash idx appendPath rightWitness)"

fun nextHashes :: "(bytes \<Rightarrow> bytes) \<Rightarrow> bytes list \<Rightarrow> bytes list" where
  "nextHashes hash (a # b # r) = generateHash hash BRANCH_PREFIX a b # nextHashes hash r"
| "nextHashes hash hs = hs"

primrec rightWitnessLoop :: "(bytes \<Rightarrow> bytes) \<Rightarrow> nat list \<Rightarrow> int \<Rightarrow> bytes list \<Rightarrow> bytes list" where
  "rightWitnessLoop hash [] inc hashes = []"
| "rightWitnessLoop hash (l # ls) inc hashes =
     (if hashes = [] then []
      else if shrBit inc l
      then hd hashes # rightWitnessLoop hash ls (inc + shl1 l) (nextHashes hash (tl hashes))
      else rightWitnessLoop hash ls inc (nextHashes hash hashes))"

definition calculateRightWitness :: "(bytes \<Rightarrow> bytes) \<Rightarrow> nat \<Rightarrow> bytes list \<Rightarrow> err + bytes list" where
  "calculateRightWitness hash n values =
     (if n = 0 then Inl (Error ''witness cannot be generated for empty tree.'')
      else if values = [] then Inr []
      else Inr (rightWitnessLoop hash [0..<getHeight (n + length values)] (int n) (map (leafHash hash) values)))"

section \<open>Top-down and bottom-up roots agree\<close>

text \<open>
  The reference on lists of hashes: \<open>td\<close> splits at the largest power of two, \<open>pairO\<close> pairs
  neighbours and promotes the odd one out. All variants in the code are shown to be iterated
  \<open>pairO\<close>.
\<close>

abbreviation br :: "(bytes \<Rightarrow> bytes) \<Rightarrow> bytes \<Rightarrow> bytes \<Rightarrow> bytes" where
  "br hash \<equiv> generateHash hash BRANCH_PREFIX"

function td :: "(bytes \<Rightarrow> bytes) \<Rightarrow> bytes list \<Rightarrow> bytes" where
  "td hash hs = (if length hs \<le> 1 then hd hs
     else let k = largestPowerOfTwoSmallerThan (length hs) in br hash (td hash (take k hs)) (td hash (drop k hs)))"
  by pat_completeness auto
termination
proof (relation "measure (\<lambda>(h, xs). length xs)", goal_cases)
  case (2 hash data x)
  then show ?case using split_bounds[of "length data"] by simp
next
  case (3 hash data x)
  then show ?case using split_bounds[of "length data"] by simp
qed simp

declare td.simps [simp del]

abbreviation pairO :: "(bytes \<Rightarrow> bytes) \<Rightarrow> bytes list \<Rightarrow> bytes list" where
  "pairO \<equiv> nextHashes"

lemma length_pairO [simp]: "length (pairO hash hs) = (length hs + 1) div 2"
  by (induction hash hs rule: nextHashes.induct) auto

lemma pairO_append: "even (length xs) \<Longrightarrow> pairO hash (xs @ ys) = pairO hash xs @ pairO hash ys"
  by (induction hash xs rule: nextHashes.induct) auto

lemma root_td: "data \<noteq> [] \<Longrightarrow> calculateMerkleRootWithLeaves hash data = td hash (map (leafHash hash) data)"
proof (induction hash data rule: calculateMerkleRootWithLeaves.induct)
  case (1 hash data)
  show ?case
  proof (cases "length data = 1")
    case True
    then obtain x where "data = [x]" by (auto simp: length_Suc_conv)
    then show ?thesis by (simp add: calculateMerkleRootWithLeaves.simps td.simps)
  next
    case False
    with "1.prems" have l: "length data \<noteq> 0" "2 \<le> length data" by (cases data; auto; cases "tl data"; auto)+
    note s = split_bounds[OF l(2)]
    have n: "take (largestPowerOfTwoSmallerThan (length data)) data \<noteq> []" "drop (largestPowerOfTwoSmallerThan (length data)) data \<noteq> []"
      using s l by auto
    show ?thesis using "1.IH"(1)[OF l(1) False refl n(1)] "1.IH"(2)[OF l(1) False refl n(2)] False l
      by (subst calculateMerkleRootWithLeaves.simps, subst td.simps) (simp add: Let_def take_map drop_map)
  qed
qed

lemma split_half:
  assumes "3 \<le> n"
  shows "largestPowerOfTwoSmallerThan n = 2 * largestPowerOfTwoSmallerThan ((n + 1) div 2)"
proof -
  have "floorLog2 (n - 1) = Suc (floorLog2 ((n - 1) div 2))" using assms by (subst floorLog2.simps) simp
  moreover have "(n + 1) div 2 - 1 = (n - 1) div 2" using assms by linarith
  ultimately show ?thesis by (simp add: largestPowerOfTwoSmallerThan_def)
qed

lemma td_pairO: "2 \<le> length hs \<Longrightarrow> td hash (pairO hash hs) = td hash hs"
proof (induction hs rule: length_induct)
  case (1 hs)
  show ?case
  proof (cases "length hs = 2")
    case True
    then obtain a b where "hs = [a, b]" by (auto simp: length_Suc_conv numeral_2_eq_2)
    then show ?thesis by (simp add: td.simps largestPowerOfTwoSmallerThan_def floorLog2.simps)
  next
    case False
    with "1.prems" have n3: "3 \<le> length hs" by simp
    define k where "k = largestPowerOfTwoSmallerThan (length hs)"
    define j where "j = largestPowerOfTwoSmallerThan ((length hs + 1) div 2)"
    have k: "k = 2 * j" "0 < k" "k < length hs" using split_half[OF n3] split_bounds[of "length hs"] n3 by (auto simp: k_def j_def)
    have p: "pairO hash hs = pairO hash (take k hs) @ pairO hash (drop k hs)"
      using pairO_append[of "take k hs" hash "drop k hs"] k by (simp add: min_def)
    have IH: "td hash (pairO hash xs) = td hash xs" if "length xs < length hs" "xs \<noteq> []" for xs
    proof (cases "2 \<le> length xs")
      case True
      then show ?thesis using 1 that by blast
    next
      case False
      with that obtain x where "xs = [x]" by (cases xs) (auto simp: not_le)
      then show ?thesis by simp
    qed
    have l: "length (pairO hash (take k hs)) = j" using k by simp
    have lp: "length (pairO hash hs) = (length hs + 1) div 2" by simp
    have "\<not> (length hs + 1) div 2 \<le> 1" using n3 by simp
    then have "td hash (pairO hash hs) = br hash (td hash (take j (pairO hash hs))) (td hash (drop j (pairO hash hs)))"
      by (subst td.simps) (simp only: lp Let_def j_def[symmetric] if_False)
    also have "\<dots> = br hash (td hash (pairO hash (take k hs))) (td hash (pairO hash (drop k hs)))"
      using l by (simp add: p)
    also have "\<dots> = br hash (td hash (take k hs)) (td hash (drop k hs))" using IH[of "take k hs"] IH[of "drop k hs"] k n3 by (cases hs) auto
    also have "\<dots> = td hash hs" using n3 by (subst (3) td.simps) (simp only: Let_def k_def, simp)
    finally show ?thesis .
  qed
qed

subsection \<open>The layers of \<open>build\<close>\<close>

lemma buildLeaves_hashes:
  "fst (buildLeaves hash pre n i vs db) = map (\<lambda>v. if pre then v else leafHash hash v) vs"
proof (induction vs arbitrary: i db)
  case (Cons v vs)
  obtain h db1 where g: "generateLeaf hash pre n v i db = (h, db1)" by fastforce
  then have "h = (if pre then v else leafHash hash v)" by (auto simp: generateLeaf_def Let_def)
  with g Cons.IH[of "Suc i" db1] show ?case by (simp add: split_beta)
qed simp

lemma buildBranches_hashes:
  "fst (buildBranches hash n layer i ps db) = map (\<lambda>p. br hash (fst p) (snd p)) ps"
proof (induction ps arbitrary: i db)
  case (Cons p ps)
  obtain h db1 where g: "generateBranch hash n (fst p) (snd p) layer i db = (h, db1)" by fastforce
  then have "h = br hash (fst p) (snd p)" by (auto simp: generateBranch_def Let_def)
  with g Cons.IH[of "Suc i" db1] show ?case by (simp add: split_beta)
qed simp

definition withOrphan :: "bytes list \<Rightarrow> bytes option \<Rightarrow> bytes list" where
  "withOrphan hs orphan = hs @ (case orphan of None \<Rightarrow> [] | Some x \<Rightarrow> [x])"

lemma pairsOf_pairO:
  "even (length hs) \<Longrightarrow> map (\<lambda>p. br hash (fst p) (snd p)) (pairsOf hs) = pairO hash hs"
  "odd (length hs) \<Longrightarrow> map (\<lambda>p. br hash (fst p) (snd p)) (pairsOf hs) @ [last hs] = pairO hash hs"
  by (induction hs rule: pairsOf.induct) auto

lemma pairO_snoc:
  "odd (length hs) \<Longrightarrow> pairO hash (hs @ [x]) = map (\<lambda>p. br hash (fst p) (snd p)) (pairsOf hs) @ [br hash (last hs) x]"
  by (induction hs rule: pairsOf.induct) auto

lemma layerPairs_pairO:
  assumes "layerPairs hs orphan = (pairs, orphan')" "hs \<noteq> []"
  shows "withOrphan (map (\<lambda>p. br hash (fst p) (snd p)) pairs) orphan' = pairO hash (withOrphan hs orphan)"
  using assms
  by (auto simp: layerPairs_def Let_def withOrphan_def pairsOf_pairO pairO_append pairO_snoc split: if_splits option.splits)

lemma buildLoop_root:
  assumes "hs \<noteq> []"
  shows "\<exists>db'. buildLoop hash n layer hs orphan db = Some (td hash (withOrphan hs orphan), db')"
  using assms
proof (induction "length (withOrphan hs orphan)" arbitrary: hs orphan layer db rule: less_induct)
  case less
  show ?case
  proof (cases "length hs > 1 \<or> orphan \<noteq> None")
    case False
    with less.prems obtain x where "hs = [x]" "orphan = None" by (cases hs) auto
    then show ?thesis by (subst buildLoop.simps) (simp add: withOrphan_def td.simps)
  next
    case True
    obtain pairs orphan' where lp: "layerPairs hs orphan = (pairs, orphan')" by fastforce
    obtain parents db' where bb: "buildBranches hash n (layer + 1) 0 pairs db = (parents, db')" by fastforce
    have par: "parents = map (\<lambda>p. br hash (fst p) (snd p)) pairs" using buildBranches_hashes[of hash n "layer + 1" 0 pairs db] bb by simp
    have eq: "withOrphan parents orphan' = pairO hash (withOrphan hs orphan)"
      using layerPairs_pairO[OF lp less.prems] par by simp
    have two: "2 \<le> length (withOrphan hs orphan)" using True less.prems by (cases hs) (auto simp: withOrphan_def Suc_le_eq split: option.splits)
    have "pairs \<noteq> []" using lp True less.prems
      by (cases hs rule: pairsOf.cases) (auto simp: layerPairs_def Let_def split: if_splits option.splits)
    then have "parents \<noteq> []" using par by simp
    moreover have "length (withOrphan parents orphan') < length (withOrphan hs orphan)" using two eq by simp
    ultimately obtain db'' where "buildLoop hash n (layer + 1) parents orphan' db' = Some (td hash (withOrphan parents orphan'), db'')"
      using less.hyps by blast
    then show ?thesis using True lp bb eq td_pairO[OF two, of hash] by (subst buildLoop.simps) simp
  qed
qed

text \<open>
  C20: building a tree layer by layer returns, for every non-empty list of values, and its
  root is the root that the recursive definition computes from the leaves; the empty tree
  has the hash of the empty string as its root.
\<close>

theorem build_root_equals_recursive_root:
  "\<exists>t. merkleInit hash False values db = Some t \<and> mtRoot t = calculateMerkleRootWithLeaves hash values \<and>
       mtSize t = length values"
proof (cases "length values \<le> 1")
  case True
  then consider "values = []" | x where "values = [x]" by (cases "values") auto
  then show ?thesis
    by cases (simp_all add: merkleInit_def calculateMerkleRootWithLeaves.simps Let_def)
next
  case False
  obtain hs db' where b: "buildLeaves hash False (length values) 0 values db = (hs, db')" by fastforce
  have hs: "hs = map (leafHash hash) values" using buildLeaves_hashes[of hash False "length values" 0 "values" db] b by simp
  with False have "hs \<noteq> []" by auto
  then obtain db'' where "buildLoop hash (length values) 0 hs None db' = Some (td hash hs, db'')"
    using buildLoop_root[of hs hash "length values" 0 None db'] by (auto simp: withOrphan_def)
  moreover have "td hash hs = calculateMerkleRootWithLeaves hash values" using root_td[of "values" hash] False hs by fastforce
  ultimately show ?thesis using False b by (simp add: merkleInit_def build_def)
qed

subsection \<open>Append paths\<close>

lemma shrBit_nat: "n < 2 ^ 32 \<Longrightarrow> i < 32 \<Longrightarrow> shrBit (int n) i = odd (n div 2 ^ i)"
proof -
  assume a: "n < 2 ^ 32" "i < 32"
  have "bit (word_of_int (int n) :: 32 word) i = bit (int n) i"
    using a(2) by (simp only: bit_word_of_int_iff) simp
  then have "shrBit (int n) i = bit (int n) i" using a(2) by (simp only: shrBit_def mod_less)
  also have "\<dots> = odd (n div 2 ^ i)"
    by (simp add: bit_iff_odd flip: of_nat_power of_nat_div) (metis even_of_nat of_nat_numeral of_nat_power zdiv_int)
  finally show ?thesis .
qed

lemma shl1_nat: "i < 31 \<Longrightarrow> shl1 i = 2 ^ i"
proof -
  assume i: "i < 31"
  have p: "(2::int) ^ i < 2 ^ 31" using i by (intro power_strict_increasing) auto
  have "(push_bit (i mod 32) 1 :: 32 word) = word_of_int (2 ^ i)" using i by (simp add: push_bit_eq_mult)
  then have "shl1 i = signed_take_bit 31 (2 ^ i)" by (simp only: shl1_def sint_sbintrunc') simp
  also have "\<dots> = 2 ^ i"
    by (rule signed_take_bit_int_eq_self) (use p in \<open>auto intro: order.trans[of _ 0]\<close>)
  finally show ?thesis .
qed

text \<open>The roots of the maximal complete subtrees, from the smallest to the largest.\<close>

function apOf :: "(bytes \<Rightarrow> bytes) \<Rightarrow> bytes list \<Rightarrow> bytes list" where
  "apOf hash hs = (if hs = [] then [] else if odd (length hs) then last hs # apOf hash (pairO hash (butlast hs))
     else apOf hash (pairO hash hs))"
  by pat_completeness auto
termination
proof (relation "measure (\<lambda>(h, xs). length xs)", goal_cases)
  case (2 hash hs)
  then show ?case by (cases hs) auto
next
  case (3 hash hs)
  then show ?case by (cases hs; cases "tl hs") auto
qed simp

declare apOf.simps [simp del]

lemma apOf_Nil [simp]: "apOf hash [] = []"
  by (simp add: apOf.simps)

lemma apOf_even: "even (length hs) \<Longrightarrow> apOf hash (pairO hash hs) = apOf hash hs"
  by (cases "hs = []") (simp_all add: apOf.simps[of hash hs])

lemma apOf_odd: "odd (length hs) \<Longrightarrow> apOf hash hs = last hs # apOf hash (pairO hash (butlast hs))"
  by (cases "hs = []") (simp_all add: apOf.simps[of hash hs])

lemma pairO_snoc_odd:
  "odd (length hs) \<Longrightarrow> pairO hash (hs @ [x]) = pairO hash (butlast hs) @ [br hash (last hs) x]"
  by (induction hash hs rule: nextHashes.induct) auto

lemma td_snoc_even: "even (length hs) \<Longrightarrow> td hash (pairO hash hs @ [x]) = td hash (hs @ [x])"
proof (cases "hs = []")
  case False
  assume "even (length hs)"
  then show ?thesis using td_pairO[of "hs @ [x]" hash] pairO_append[of hs hash "[x]"] False by (simp add: Suc_le_eq)
qed simp

lemma rootLoop_td:
  assumes "n < 2 ^ 32" "length hs = n div 2 ^ i" "drop count path = apOf hash hs" "count \<le> length path"
    "n < 2 ^ (i + m)" "i + m \<le> 32"
  shows "rootLoop hash path n [i..<i + m] count cur = Inr (td hash (hs @ [cur]))"
  using assms(2-)
proof (induction m arbitrary: i hs count cur)
  case 0
  then have "hs = []" by simp
  then show ?case by (simp add: td.simps)
next
  case (Suc m)
  have u: "[i..<i + Suc m] = i # [Suc i..<Suc i + m]" by (simp add: upt_rec)
  have b: "shrBit (int n) i = odd (length hs)" using shrBit_nat[OF assms(1), of i] Suc.prems by simp
  have d: "n div 2 ^ Suc i = length hs div 2" using Suc.prems(1) by (simp add: div_mult2_eq[symmetric] mult.commute)
  show ?case
  proof (cases "odd (length hs)")
    case True
    have p: "drop count path = last hs # apOf hash (pairO hash (butlast hs))" using Suc.prems(2) apOf_odd[OF True] by simp
    then have c: "count < length path" "path ! count = last hs" "drop (Suc count) path = apOf hash (pairO hash (butlast hs))"
      by (metis drop_eq_Nil linorder_not_le list.distinct(1), metis hd_drop_conv_nth list.sel(1) drop_eq_Nil linorder_not_le list.distinct(1),
          metis drop_Suc list.sel(3) tl_drop)
    have "rootLoop hash path n [Suc i..<Suc i + m] (Suc count) (br hash (last hs) cur) =
        Inr (td hash (pairO hash (butlast hs) @ [br hash (last hs) cur]))"
      using Suc.prems True c d by (intro Suc.IH) auto
    then show ?thesis using True b c u td_pairO[of "hs @ [cur]" hash] pairO_snoc_odd[OF True, of hash cur] by (cases hs) auto
  next
    case False
    have "rootLoop hash path n [Suc i..<Suc i + m] count cur = Inr (td hash (pairO hash hs @ [cur]))"
      using Suc.prems False d apOf_even[of hs hash] by (intro Suc.IH) auto
    then show ?thesis using False b u td_snoc_even[of hs hash cur] by simp
  qed
qed

function trailingOnes :: "nat \<Rightarrow> nat" where
  "trailingOnes n = (if odd n then Suc (trailingOnes (n div 2)) else 0)"
  by pat_completeness auto
termination by (relation "measure id") (auto elim: oddE)

declare trailingOnes.simps [simp del]

lemma apOf_snoc:
  "apOf hash (hs @ [c]) =
     foldl (\<lambda>cur sibling. br hash sibling cur) c (take (trailingOnes (length hs)) (apOf hash hs)) #
     drop (trailingOnes (length hs)) (apOf hash hs)"
proof (induction "length hs" arbitrary: hs c rule: less_induct)
  case less
  show ?case
  proof (cases "odd (length hs)")
    case True
    then have e: "apOf hash (hs @ [c]) = apOf hash (pairO hash (butlast hs) @ [br hash (last hs) c])"
      using apOf_even[of "hs @ [c]" hash] pairO_snoc_odd[OF True, of hash c] by simp
    have l: "length (pairO hash (butlast hs)) = length hs div 2" using True by simp
    have "length (pairO hash (butlast hs)) < length hs" using True by (cases hs) auto
    from less[OF this, of "br hash (last hs) c"] l e apOf_odd[OF True, of hash] show ?thesis
      using trailingOnes.simps[of "length hs"] True by simp
  next
    case False
    then show ?thesis using apOf_odd[of "hs @ [c]" hash] apOf_even[of hs hash] by (simp add: trailingOnes.simps[of "length hs"])
  qed
qed

lemma takeWhile_bits: "length (takeWhile (\<lambda>i. odd (n div 2 ^ i)) [0..<m]) = min m (trailingOnes n)"
proof (induction m arbitrary: n)
  case (Suc m)
  have "[0..<Suc m] = 0 # map Suc [0..<m]" by (simp add: map_Suc_upt upt_conv_Cons del: upt_Suc)
  moreover have "takeWhile (\<lambda>i. odd (n div 2 ^ i)) (map Suc [0..<m]) = map Suc (takeWhile (\<lambda>i. odd (n div 2 div 2 ^ i)) [0..<m])"
    by (simp add: takeWhile_map comp_def div_mult2_eq)
  ultimately show ?case using Suc.IH[of "n div 2"] by (simp add: trailingOnes.simps[of n] del: upt_Suc)
qed simp

lemma trailingOnes_le: "2 ^ trailingOnes n \<le> n + 1"
proof (induction n rule: trailingOnes.induct)
  case (1 n)
  show ?case
  proof (cases "odd n")
    case True
    then have "2 * (n div 2) + 1 = n" by presburger
    then show ?thesis using 1[OF True] trailingOnes.simps[of n] True by (simp del: Suc_eq_plus1) presburger
  qed (simp add: trailingOnes.simps[of n])
qed

lemma ceilLog2_ge: "n \<le> 2 ^ ceilLog2 n"
  using floorLog2_bounds[of "n - 1"] by (auto simp: ceilLog2_def)

lemma ceilLog2_le: "0 < n \<Longrightarrow> n \<le> 2 ^ k \<Longrightarrow> ceilLog2 n \<le> k"
proof -
  assume a: "0 < n" "n \<le> 2 ^ k"
  show ?thesis
  proof (cases "n < 2")
    case False
    then have "2 ^ floorLog2 (n - 1) < (2::nat) ^ k" using floorLog2_bounds[of "n - 1"] a by linarith
    then have "floorLog2 (n - 1) < k" by (simp only: power_strict_increasing_iff one_less_numeral_iff semiring_norm)
    then show ?thesis using False by (simp add: ceilLog2_def)
  qed (simp add: ceilLog2_def)
qed

lemma subTreeIndex_eq:
  assumes "n < 2 ^ 31"
  shows "subTreeIndex n = trailingOnes n"
proof (cases "n = 0")
  case True
  then show ?thesis by (simp add: subTreeIndex_def trailingOnes.simps)
next
  case False
  have c: "ceilLog2 n \<le> 31" using ceilLog2_le[of n 31] False assms by simp
  have "takeWhile (shrBit (int n)) [0..<ceilLog2 n + 1] = takeWhile (\<lambda>i. odd (n div 2 ^ i)) [0..<ceilLog2 n + 1]"
    using c assms by (intro takeWhile_cong) (auto simp: shrBit_nat)
  moreover have "trailingOnes n \<le> ceilLog2 n + 1"
  proof -
    have "2 ^ trailingOnes n \<le> 2 ^ ceilLog2 n + (1::nat)" using trailingOnes_le[of n] ceilLog2_ge[of n] by linarith
    also have "\<dots> \<le> 2 ^ (ceilLog2 n + 1)" by simp
    finally have "(2::nat) ^ trailingOnes n \<le> 2 ^ (ceilLog2 n + 1)" .
    then show ?thesis by (simp only: power_increasing_iff one_less_numeral_iff semiring_norm)
  qed
  ultimately show ?thesis using False takeWhile_bits[of n "ceilLog2 n + 1"] by (simp add: subTreeIndex_def)
qed

lemma toBinary_length_le: "n < 2 ^ length (toBinary n)"
  using parseBinary_less[of "toBinary n"] by simp

text \<open>
  C21: the incremental Merkle root. For a tree with leaves \<open>xs\<close> whose append path is the list of
  roots of its maximal complete subtrees, adding the value \<open>v\<close> returns the root of the
  list \<open>xs @ [v]\<close> as the recursive definition computes it, its append path and its size.
\<close>

theorem append_root_equals_recursive_root:
  assumes "length xs < 2 ^ 31"
  shows "calculateMerkleRoot hash v (apOf hash (map (leafHash hash) xs)) (length xs) =
     Inr \<lparr>miRoot = calculateMerkleRootWithLeaves hash (xs @ [v]),
          miAppendPath = apOf hash (map (leafHash hash) (xs @ [v])), miSize = length xs + 1\<rparr>"
proof -
  let ?hs = "map (leafHash hash) xs" and ?n = "length xs"
  have l: "length (toBinary ?n) \<le> 32" using toBinary_length[of ?n 32] assms by simp
  have "rootLoop hash (apOf hash ?hs) ?n [0..<0 + length (toBinary ?n)] 0 (leafHash hash v) = Inr (td hash (?hs @ [leafHash hash v]))"
    by (rule rootLoop_td) (use assms l toBinary_length_le[of ?n] in auto)
  moreover have "td hash (?hs @ [leafHash hash v]) = calculateMerkleRootWithLeaves hash (xs @ [v])"
    using root_td[of "xs @ [v]" hash] by simp
  ultimately show ?thesis using apOf_snoc[of hash ?hs "leafHash hash v"] subTreeIndex_eq[OF assms]
    by (simp add: calculateMerkleRoot_def Let_def)
qed


theorem append_root_equals_recursive_root_witness:
  "calculateMerkleRoot id [4] [[0, 3], [1, 0, 1, 0, 2]] 3 =
     Inr \<lparr>miRoot = [1, 1, 0, 1, 0, 2, 1, 0, 3, 0, 4], miAppendPath = [[1, 1, 0, 1, 0, 2, 1, 0, 3, 0, 4]], miSize = 4\<rparr>"
proof -
  let ?xs = "[[1], [2], [3]] :: bytes list"
  have e: "length ?xs = 3" "apOf id (map (leafHash id) ?xs) = [[0, 3], [1, 0, 1, 0, 2]]"
    "apOf id (map (leafHash id) (?xs @ [[4]])) = [[1, 1, 0, 1, 0, 2, 1, 0, 3, 0, 4]]"
    "calculateMerkleRootWithLeaves id (?xs @ [[4]]) = [1, 1, 0, 1, 0, 2, 1, 0, 3, 0, 4]" "3 + 1 = (4::nat)" by (simp, code_simp+)
  have "length ?xs < 2 ^ 31" by simp
  from append_root_equals_recursive_root[OF this, of id "[4]", unfolded e] show ?thesis .
qed

subsection \<open>Right witnesses\<close>

lemma rightWitnessLoop_Nil [simp]: "rightWitnessLoop hash ls inc [] = []"
  by (cases ls) auto

lemma length_rightWitnessLoop: "length (rightWitnessLoop hash ls inc hs) \<le> length ls"
  by (induction ls arbitrary: inc hs) (auto simp: le_SucI)

lemma apOf_eq_Nil [simp]: "apOf hash hs = [] \<longleftrightarrow> hs = []"
proof (induction hash hs rule: apOf.induct)
  case (1 hash hs)
  show ?case
  proof (cases "hs = [] \<or> odd (length hs)")
    case True
    then show ?thesis by (auto simp: apOf.simps[of hash hs])
  next
    case False
    moreover have "pairO hash hs \<noteq> []" using False by (cases "(hash, hs)" rule: nextHashes.cases) auto
    ultimately show ?thesis using 1 by (simp add: apOf.simps[of hash hs])
  qed
qed

lemma pairO_eq_Nil [simp]: "pairO hash hs = [] \<longleftrightarrow> hs = []"
  by (cases "(hash, hs)" rule: nextHashes.cases) auto

lemma upt_step: "[l..<l + Suc m] = l # [Suc l..<Suc l + m]"
  by (simp add: upt_rec)

lemma pairO_odd_left:
  assumes "odd (length L)"
  shows "pairO hash (L @ c # R) = pairO hash (butlast L) @ br hash (last L) c # pairO hash R"
  using pairO_append[of "L @ [c]" hash R] pairO_snoc_odd[OF assms, of hash c] assms by simp

lemma td_left:
  assumes "odd (length L)"
  shows "td hash (pairO hash (butlast L) @ br hash (last L) c # pairO hash R) = td hash (L @ c # R)"
  using td_pairO[of "L @ c # R" hash] pairO_odd_left[OF assms, of hash c R] assms by (cases L) auto

lemma td_right:
  assumes "even (length L)"
  shows "td hash (pairO hash L @ br hash c r # pairO hash R) = td hash (L @ c # r # R)"
  using td_pairO[of "L @ c # r # R" hash] pairO_append[OF assms, of hash "c # r # R"] by simp

lemma shrBit_mult: "a * 2 ^ l < 2 ^ 32 \<Longrightarrow> l < 32 \<Longrightarrow> shrBit (int a * 2 ^ l) l = odd a"
  using shrBit_nat[of "a * 2 ^ l" l] by simp

lemma shrBit_power: "l < 31 \<Longrightarrow> shrBit (2 ^ l) l"
proof -
  assume l: "l < 31"
  have "(2::nat) ^ l < 2 ^ 32" using l by (intro power_strict_increasing) auto
  then show ?thesis using shrBit_mult[of 1 l] l by simp
qed

text \<open>Only right siblings are left.\<close>

lemma loop_right:
  assumes "l + length rw \<le> 31"
  shows "witnessLoop hash idx l [] rw c (2 ^ l) i = Some (foldl (br hash) c rw)"
  using assms
proof (induction rw arbitrary: l c)
  case Nil
  then show ?case by (subst witnessLoop.simps) simp
next
  case (Cons r rw)
  have "shrBit (2 ^ l) l" using shrBit_power[of l] Cons.prems by simp
  then show ?case using Cons.IH[of "Suc l" "br hash c r"] Cons.prems shl1_nat[of l]
    by (subst witnessLoop.simps) (simp add: witnessStep_def)
qed

lemma td_right_only:
  assumes "1 + length R \<le> 2 ^ m" "l + m \<le> 31"
  shows "td hash (c # R) = foldl (br hash) c (rightWitnessLoop hash [l..<l + m] (2 ^ l) R)"
  using assms
proof (induction m arbitrary: l c R)
  case 0
  then show ?case by (simp add: td.simps)
next
  case (Suc m)
  show ?case
  proof (cases R)
    case Nil
    then show ?thesis by (simp add: td.simps)
  next
    case (Cons r R')
    have "shrBit (2 ^ l) l" using shrBit_power[of l] Suc.prems by simp
    then have "rightWitnessLoop hash [l..<l + Suc m] (2 ^ l) R = r # rightWitnessLoop hash [Suc l..<Suc l + m] (2 ^ Suc l) (pairO hash R')"
      using Cons shl1_nat[of l] Suc.prems by (subst upt_step) simp
    moreover have "1 + length (pairO hash R') \<le> 2 ^ m" using Suc.prems(1) Cons by simp
    ultimately show ?thesis using Suc.IH[of "pairO hash R'" "Suc l" "br hash c r"] Suc.prems(2) td_right[of "[]" hash c r R'] Cons
      by (simp del: upt_Suc)
  qed
qed

lemma phase2:
  assumes "n < 2 ^ 31" "length L = n div 2 ^ l" "length L + 1 + length R \<le> 2 ^ m" "l + m \<le> 31"
    "R \<noteq> [] \<Longrightarrow> inc = int (length L + 1) * 2 ^ l"
  shows "witnessLoop hash (int n) l (apOf hash L) (rightWitnessLoop hash [l..<l + m] inc R) cur inc True = Some (td hash (L @ cur # R))"
  using assms(2-)
proof (induction m arbitrary: l L R cur inc)
  case 0
  then show ?case by (subst witnessLoop.simps) (simp add: td.simps)
next
  case (Suc m)
  note upt = upt_step[of l m]
  have l31: "l < 31" using Suc.prems by simp
  have b: "shrBit (int n) l = odd (length L)" using shrBit_nat[of n l] assms(1) Suc.prems l31 by simp
  have d: "n div 2 ^ Suc l = length L div 2" using Suc.prems(1) by (simp add: div_mult2_eq[symmetric] mult.commute)
  have "length L * 2 ^ l \<le> n" using Suc.prems(1) by (simp add: div_times_less_eq_dividend)
  moreover have "(2::nat) ^ l \<le> 2 ^ 31" using l31 by (intro power_increasing) auto
  ultimately have small: "(length L + 1) * 2 ^ l < 2 ^ 32" using assms(1) by (simp add: algebra_simps)
  have ib: "R \<noteq> [] \<Longrightarrow> shrBit inc l = even (length L)"
    using Suc.prems(4) shrBit_mult[OF small, of] l31 by simp
  consider "L = []" "R = []" | "odd (length L)" | "even (length L)" "L \<noteq> []" "R = []" | r R' where "even (length L)" "R = r # R'"
    by (cases R) auto
  then show ?case
  proof cases
    case 1
    then show ?thesis by (subst witnessLoop.simps) (simp add: td.simps)
  next
    case 2
    have rw: "rightWitnessLoop hash [l..<l + Suc m] inc R = rightWitnessLoop hash [Suc l..<Suc l + m] inc (pairO hash R)"
      using ib 2 by (subst upt) simp
    have "witnessLoop hash (int n) (Suc l) (apOf hash (pairO hash (butlast L)))
        (rightWitnessLoop hash [Suc l..<Suc l + m] inc (pairO hash R)) (br hash (last L) cur) inc True =
        Some (td hash (pairO hash (butlast L) @ br hash (last L) cur # pairO hash R))"
    proof (rule Suc.IH)
      show "length (pairO hash (butlast L)) = n div 2 ^ Suc l" using 2 d by simp
      show "length (pairO hash (butlast L)) + 1 + length (pairO hash R) \<le> 2 ^ m" using Suc.prems(2) 2 by simp presburger
      show "inc = int (length (pairO hash (butlast L)) + 1) * 2 ^ Suc l" if "pairO hash R \<noteq> []"
      proof -
        have "inc = int (length L + 1) * 2 ^ l" using that Suc.prems(4) by simp
        moreover have "length L + 1 = (length L div 2 + 1) * 2" using 2 by presburger
        ultimately show ?thesis using 2 by simp
      qed
    qed (use Suc.prems in auto)
    moreover have "R \<noteq> [] \<Longrightarrow> \<not> shrBit inc l" using ib 2 by simp
    moreover have "rightWitnessLoop hash [Suc l..<Suc l + m] inc (pairO hash R) \<noteq> [] \<Longrightarrow> R \<noteq> []" by auto
    ultimately show ?thesis using 2 b rw apOf_odd[OF 2, of hash] td_left[OF 2, of hash cur R]
      by (subst witnessLoop.simps) (auto simp: witnessStep_def simp del: upt_Suc)
  next
    case 3
    have "witnessLoop hash (int n) (Suc l) (apOf hash (pairO hash L)) (rightWitnessLoop hash [Suc l..<Suc l + m] inc []) cur inc True =
        Some (td hash (pairO hash L @ [cur]))"
      by (rule Suc.IH) (use Suc.prems 3 d in auto)
    then show ?thesis using 3 b apOf_even[of L hash] td_snoc_even[of L hash cur]
      by (subst witnessLoop.simps) (simp add: witnessStep_def)
  next
    case 4
    have i: "inc = int (length L + 1) * 2 ^ l" using Suc.prems(4) 4 by simp
    have rw: "rightWitnessLoop hash [l..<l + Suc m] inc R = r # rightWitnessLoop hash [Suc l..<Suc l + m] (inc + 2 ^ l) (pairO hash R')"
      using ib 4 shl1_nat[OF l31] by (subst upt) simp
    have "witnessLoop hash (int n) (Suc l) (apOf hash (pairO hash L))
        (rightWitnessLoop hash [Suc l..<Suc l + m] (inc + 2 ^ l) (pairO hash R')) (br hash cur r) (inc + 2 ^ l) True =
        Some (td hash (pairO hash L @ br hash cur r # pairO hash R'))"
    proof (rule Suc.IH)
      show "length (pairO hash L) + 1 + length (pairO hash R') \<le> 2 ^ m" using Suc.prems(2) 4 by simp
      have "int (length L + 1) + 1 = int (length L div 2 + 1) * 2" using 4 by presburger
      then show "inc + 2 ^ l = int (length (pairO hash L) + 1) * 2 ^ Suc l" using 4 i
        by (simp add: algebra_simps)
    qed (use Suc.prems 4 d in auto)
    moreover have "shrBit inc l" using ib 4 by simp
    ultimately show ?thesis using 4 b rw apOf_even[of L hash] td_right[of L hash cur r R'] shl1_nat[OF l31]
      by (subst witnessLoop.simps) (simp add: witnessStep_def)
  qed
qed

lemma phase1:
  assumes "n < 2 ^ 31" "length L * 2 ^ l = n" "length L + length R \<le> 2 ^ m" "l + m \<le> 31" "L \<noteq> []" "R \<noteq> []"
    "rw = rightWitnessLoop hash [l..<l + m] (int n) R"
  shows "rw \<noteq> [] \<and> witnessLoop hash (int n) l (tl (apOf hash L)) (tl rw) (br hash (hd (apOf hash L)) (hd rw)) (int n) False =
     Some (td hash (L @ R))"
  using assms(2-)
proof (induction m arbitrary: l L R rw)
  case 0
  then have "length L + length R \<ge> 2" by (cases L; cases R) auto
  with 0 show ?case by simp
next
  case (Suc m)
  note upt = upt_step[of l m]
  have l31: "l < 31" using Suc.prems by simp
  have b: "shrBit (int n) l = odd (length L)" using shrBit_mult[of "length L" l] assms(1) Suc.prems(1) l31 by auto
  show ?case
  proof (cases "even (length L)")
    case True
    have rw: "rw = rightWitnessLoop hash [Suc l..<Suc l + m] (int n) (pairO hash R)" using Suc.prems b True by (subst (asm) upt) simp
    have "td hash (L @ R) = td hash (pairO hash L @ pairO hash R)"
      using td_pairO[of "L @ R" hash] pairO_append[OF True, of hash R] Suc.prems True by (cases L; cases R) auto
    moreover have "rw \<noteq> [] \<and> witnessLoop hash (int n) (Suc l) (tl (apOf hash (pairO hash L))) (tl rw)
        (br hash (hd (apOf hash (pairO hash L))) (hd rw)) (int n) False = Some (td hash (pairO hash L @ pairO hash R))"
    proof (rule Suc.IH)
      have "length L div 2 * 2 = length L" using True by simp
      then show "length (pairO hash L) * 2 ^ Suc l = n" using Suc.prems(1) True by (simp add: mult.assoc[symmetric])
      show "length (pairO hash L) + length (pairO hash R) \<le> 2 ^ m" using Suc.prems(2) True by simp
    qed (use Suc.prems rw in auto)
    ultimately show ?thesis using b True apOf_even[OF True, of hash]
      by (subst witnessLoop.simps, subst (asm) (2) witnessLoop.simps) (auto simp: witnessStep_def)
  next
    case False
    obtain r R' where R: "R = r # R'" using Suc.prems by (cases R) auto
    define inc where "inc = int n + 2 ^ l"
    define rw' where "rw' = rightWitnessLoop hash [Suc l..<Suc l + m] inc (pairO hash R')"
    define L' where "L' = pairO hash (butlast L)"
    have rw: "rw = r # rw'" using Suc.prems(6) b False R shl1_nat[OF l31] by (subst (asm) upt) (simp add: rw'_def inc_def)
    have ap: "apOf hash L = last L # apOf hash L'" using apOf_odd[of L hash] False by (simp add: L'_def)
    have td: "td hash (L @ R) = td hash (L' @ br hash (last L) r # pairO hash R')" using td_left[of L hash r R'] False R by (simp add: L'_def)
    have l1: "length L + 1 = (length L' + 1) * 2" using False by (simp add: L'_def) presburger
    have inc: "inc = int (length L' + 1) * 2 ^ Suc l"
    proof -
      have "inc = int ((length L + 1) * 2 ^ l)" using Suc.prems(1) by (simp add: inc_def distrib_right)
      then show ?thesis unfolding l1 by (simp add: algebra_simps)
    qed
    have cap: "length L' + 1 + length (pairO hash R') \<le> 2 ^ m" using Suc.prems(2) R l1 by simp
    show ?thesis
    proof (cases "L' = []")
      case True
      then have n: "n = 2 ^ l" using l1 Suc.prems(1) by simp
      have e: "inc = 2 ^ Suc l" using inc True by simp
      have "td hash (L @ R) = foldl (br hash) (br hash (last L) r) rw'"
        using td_right_only[of "pairO hash R'" m "Suc l" hash "br hash (last L) r"] cap Suc.prems(3) td True
        unfolding rw'_def e by (simp del: upt_Suc)
      moreover have "l + length rw' \<le> 31" using length_rightWitnessLoop[of hash "[Suc l..<Suc l + m]" inc "pairO hash R'"] Suc.prems(3)
        by (simp add: rw'_def del: upt_Suc)
      ultimately show ?thesis using loop_right[of l rw' hash "int n" "br hash (last L) r" False] rw ap True n by simp
    next
      case False': False
      have nb: "\<not> shrBit inc l"
      proof -
        have "(length L + 1) * 2 ^ l < 2 ^ 32"
        proof -
          have "(2::nat) ^ l \<le> 2 ^ 31" using l31 by (intro power_increasing) auto
          then show ?thesis using Suc.prems(1) assms(1) by (simp add: algebra_simps)
        qed
        moreover have "inc = int (length L + 1) * 2 ^ l" using Suc.prems(1) by (auto simp: inc_def distrib_right)
        ultimately show ?thesis using shrBit_mult[of "length L + 1" l] l31 \<open>odd (length L)\<close> by simp
      qed
      have "length L' = n div 2 ^ Suc l"
      proof -
        have "n div 2 ^ Suc l = n div 2 ^ l div 2" by (simp add: div_mult2_eq[symmetric] mult.commute)
        also have "n div 2 ^ l = length L" using Suc.prems(1) by (metis nonzero_mult_div_cancel_right power_not_zero zero_neq_numeral)
        finally show ?thesis using False by (simp add: L'_def)
      qed
      then have "witnessLoop hash (int n) (Suc l) (apOf hash L') rw' (br hash (last L) r) inc True = Some (td hash (L @ R))"
        unfolding rw'_def td using Suc.prems(3) cap inc by (intro phase2 assms(1)) auto
      then show ?thesis using False' rw ap b nb \<open>odd (length L)\<close> shl1_nat[OF l31]
        by (subst witnessLoop.simps) (simp add: witnessStep_def inc_def)
    qed
  qed
qed

lemma path_fold_td: "foldl (\<lambda>cur sibling. br hash sibling cur) c (apOf hash L) = td hash (L @ [c])"
proof (induction "length L" arbitrary: L c rule: less_induct)
  case less
  consider "L = []" | "odd (length L)" | "even (length L)" "L \<noteq> []" by auto
  then show ?case
  proof cases
    case 1
    then show ?thesis by (simp add: td.simps)
  next
    case 2
    moreover have "length (pairO hash (butlast L)) < length L" using 2 by (cases L) auto
    ultimately show ?thesis using less td_left[of L hash c "[]"] by (simp add: apOf_odd)
  next
    case 3
    moreover have "length (pairO hash L) < length L" using 3 by (cases L; cases "tl L") auto
    ultimately show ?thesis using less[of "pairO hash L" c] td_snoc_even[of L hash c] by (simp add: apOf_even)
  qed
qed

lemma getRootFromPath_td: "hs \<noteq> [] \<Longrightarrow> getRootFromPath hash (apOf hash hs) = Inr (td hash hs)"
proof (induction hash hs rule: apOf.induct)
  case (1 hash hs)
  show ?case
  proof (cases "odd (length hs)")
    case True
    have "td hash (pairO hash (butlast hs) @ [last hs]) = td hash hs"
      using td_snoc_even[of "butlast hs" hash "last hs"] True 1(3) by simp
    then show ?thesis by (simp add: apOf_odd[OF True] getRootFromPath_def path_fold_td)
  next
    case False
    then show ?thesis using 1 td_pairO[of hs hash] apOf_even[of hs hash] by (cases hs; cases "tl hs") auto
  qed
qed

text \<open>
  C27: right witnesses are correct. The witness computed for values \<open>ys\<close> to be added behind
  a tree of the leaves \<open>xs\<close>, together with the append path of that tree, makes
  \<open>calculateRootFromRightWitness\<close> return (its loop ends) the root of the joint list
  \<open>xs @ ys\<close>, and \<open>verifyRightWitness\<close> accept exactly this root.
\<close>

theorem right_witness_root:
  assumes "xs \<noteq> []" "length xs + length ys \<le> 2 ^ 30"
  shows "\<exists>rightWitness. calculateRightWitness hash (length xs) ys = Inr rightWitness \<and>
     calculateRootFromRightWitness hash (int (length xs)) (apOf hash (map (leafHash hash) xs)) rightWitness =
       Some (Inr (calculateMerkleRootWithLeaves hash (xs @ ys))) \<and>
     verifyRightWitness hash (int (length xs)) (apOf hash (map (leafHash hash) xs)) rightWitness root =
       Some (Inr (root = calculateMerkleRootWithLeaves hash (xs @ ys)))"
proof (cases "ys = []")
  case True
  then show ?thesis using assms root_td[of xs hash] getRootFromPath_td[of "map (leafHash hash) xs" hash]
    by (auto simp: calculateRightWitness_def calculateRootFromRightWitness_def verifyRightWitness_def)
next
  case False
  let ?L = "map (leafHash hash) xs" and ?R = "map (leafHash hash) ys" and ?h = "getHeight (length xs + length ys)"
  define rw where "rw = rightWitnessLoop hash [0..<0 + ?h] (int (length xs)) ?R"
  have c: "length xs + length ys \<le> 2 ^ ceilLog2 (length xs + length ys)" by (rule ceilLog2_ge)
  have h: "?h \<le> 31" using ceilLog2_le[of "length xs + length ys" 30] assms by (auto simp: getHeight_def)
  have "rw \<noteq> [] \<and> witnessLoop hash (int (length xs)) 0 (tl (apOf hash ?L)) (tl rw) (br hash (hd (apOf hash ?L)) (hd rw)) (int (length xs)) False =
     Some (td hash (?L @ ?R))"
    by (rule phase1[where m = ?h]) (use assms False c h rw_def in \<open>auto simp: getHeight_def\<close>)
  moreover have "td hash (?L @ ?R) = calculateMerkleRootWithLeaves hash (xs @ ys)" using root_td[of "xs @ ys" hash] assms by simp
  moreover have "calculateRightWitness hash (length xs) ys = Inr rw" using assms False by (simp add: calculateRightWitness_def rw_def)
  ultimately show ?thesis using assms
    by (auto simp: calculateRootFromRightWitness_def verifyRightWitness_def)
qed

theorem right_witness_root_witness:
  "calculateRightWitness id 3 [[4], [5]] = Inr [[0, 4], [0, 5]] \<and>
   verifyRightWitness id 3 [[0, 3], [1, 0, 1, 0, 2]] [[0, 4], [0, 5]] [1, 1, 1, 0, 1, 0, 2, 1, 0, 3, 0, 4, 0, 5] = Some (Inr True)"
proof -
  let ?xs = "[[1], [2], [3]] :: bytes list" and ?root = "[1, 1, 1, 0, 1, 0, 2, 1, 0, 3, 0, 4, 0, 5] :: bytes"
  have e: "length ?xs = 3" "apOf id (map (leafHash id) ?xs) = [[0, 3], [1, 0, 1, 0, 2]]"
    "calculateMerkleRootWithLeaves id (?xs @ [[4], [5]]) = ?root" "int 3 = 3" by (simp, code_simp, code_simp, simp)
  have w: "calculateRightWitness id 3 [[4], [5]] = Inr [[0, 4], [0, 5]]" by code_simp
  have p: "?xs \<noteq> []" "length ?xs + length [[4::byte], [5]] \<le> 2 ^ 30" by simp_all
  from right_witness_root[OF p, of id ?root, unfolded e w] w show ?thesis by auto
qed

end
