(* ===== verification/Block.thy ===== *)
theory Block
  imports MerkleTree
begin

text \<open>
  Blocks (\<open>elements/chain/src\<close>): the header with its cached identifier
  (\<open>block_header.ts\<close>), transactions (\<open>transaction.ts\<close>), assets (\<open>block_assets.ts\<close>) and
  the block made of them (\<open>block.ts\<close>).

  SHA-256 and the verification and creation of Ed25519 signatures are parameters. The
  schema validation that \<open>validate\<close> starts with (a third-party library) is the parameter
  \<open>schemaValid\<close>. JavaScript's order of strings is that of their UTF-16 code units; module
  names are ASCII here, where it is the order of bytes. JSON conversion is not modelled.
\<close>

section \<open>Header\<close>

record aggregateCommit =
  acHeight :: int
  acAggregationBits :: bytes
  acCertificateSignature :: bytes

record blockHeader =
  hVersion :: int
  hTimestamp :: int
  hHeight :: int
  hPreviousBlockID :: bytes
  hGeneratorAddress :: bytes
  hTransactionRoot :: "bytes option"
  hAssetRoot :: "bytes option"
  hEventRoot :: "bytes option"
  hStateRoot :: "bytes option"
  hMaxHeightPrevoted :: int
  hMaxHeightGenerated :: int
  hImpliesMaxPrevotes :: bool
  hValidatorsHash :: "bytes option"
  hAggregateCommit :: aggregateCommit
  hSignature :: "bytes option"
  hId :: "bytes option"

definition aggregateCommitSchema :: "schemaProp list" where
  "aggregateCommitSchema = [PScalar 1 UInt32T, PScalar 2 BytesT, PScalar 3 BytesT]"

definition signingBlockHeaderSchema :: "schemaProp list" where
  "signingBlockHeaderSchema =
     [PScalar 1 UInt32T, PScalar 2 UInt32T, PScalar 3 UInt32T, PScalar 4 BytesT, PScalar 5 BytesT, PScalar 6 BytesT,
      PScalar 7 BytesT, PScalar 8 BytesT, PScalar 9 BytesT, PScalar 10 UInt32T, PScalar 11 UInt32T, PScalar 12 BooleanT,
      PScalar 13 BytesT, PObject 14 aggregateCommitSchema]"

definition blockHeaderSchema :: "schemaProp list" where
  "blockHeaderSchema = signingBlockHeaderSchema @ [PScalar 15 BytesT]"

definition orThrow :: "string \<Rightarrow> 'a option \<Rightarrow> err + 'a" where
  "orThrow text x = (case x of None \<Rightarrow> Inl (Error text) | Some a \<Rightarrow> Inr a)"

definition commitVals :: "aggregateCommit \<Rightarrow> val option list" where
  "commitVals c = [Some (VInt (acHeight c)), Some (VBytes (acAggregationBits c)), Some (VBytes (acCertificateSignature c))]"

definition getSigningProps :: "blockHeader \<Rightarrow> err + val option list" where
  "getSigningProps h =
     rbind (orThrow ''Asset root is empty.'' (hAssetRoot h)) (\<lambda>assetRoot.
     rbind (orThrow ''Event root is empty.'' (hEventRoot h)) (\<lambda>eventRoot.
     rbind (orThrow ''State root is empty.'' (hStateRoot h)) (\<lambda>stateRoot.
     rbind (orThrow ''Transaction root is empty.'' (hTransactionRoot h)) (\<lambda>transactionRoot.
     rbind (orThrow ''Validators hash is empty.'' (hValidatorsHash h)) (\<lambda>validatorsHash.
     Inr [Some (VInt (hVersion h)), Some (VInt (hTimestamp h)), Some (VInt (hHeight h)), Some (VBytes (hPreviousBlockID h)),
          Some (VBytes (hGeneratorAddress h)), Some (VBytes transactionRoot), Some (VBytes assetRoot), Some (VBytes eventRoot),
          Some (VBytes stateRoot), Some (VInt (hMaxHeightPrevoted h)), Some (VInt (hMaxHeightGenerated h)),
          Some (VBool (hImpliesMaxPrevotes h)), Some (VBytes validatorsHash), Some (VObj (commitVals (hAggregateCommit h)))])))))"

definition headerSignature :: "blockHeader \<Rightarrow> err + bytes" where
  "headerSignature h = orThrow ''Block header is not signed.'' (hSignature h)"

definition getBlockHeaderProps :: "blockHeader \<Rightarrow> err + val option list" where
  "getBlockHeaderProps h =
     rbind (getSigningProps h) (\<lambda>p. rbind (headerSignature h) (\<lambda>s. Inr (p @ [Some (VBytes s)])))"

definition headerGetBytes :: "jsLib \<Rightarrow> blockHeader \<Rightarrow> err + bytes" where
  "headerGetBytes lib h = rbind (getBlockHeaderProps h) (encode lib blockHeaderSchema)"

definition getSigningBytes :: "jsLib \<Rightarrow> blockHeader \<Rightarrow> err + bytes" where
  "getSigningBytes lib h = rbind (getSigningProps h) (encode lib signingBlockHeaderSchema)"

text \<open>The fields of a decoded object; the decoder gives each field a value of its type.\<close>

definition fieldInt :: "val option list \<Rightarrow> nat \<Rightarrow> int" where
  "fieldInt ps i = (case ps ! i of Some (VInt n) \<Rightarrow> n | _ \<Rightarrow> 0)"

definition fieldBytes :: "val option list \<Rightarrow> nat \<Rightarrow> bytes" where
  "fieldBytes ps i = (case ps ! i of Some (VBytes b) \<Rightarrow> b | _ \<Rightarrow> [])"

definition fieldString :: "val option list \<Rightarrow> nat \<Rightarrow> string" where
  "fieldString ps i = (case ps ! i of Some (VStr b) \<Rightarrow> b | _ \<Rightarrow> [])"

definition fieldBool :: "val option list \<Rightarrow> nat \<Rightarrow> bool" where
  "fieldBool ps i = (case ps ! i of Some (VBool b) \<Rightarrow> b | _ \<Rightarrow> False)"

definition fieldArray :: "val option list \<Rightarrow> nat \<Rightarrow> val list" where
  "fieldArray ps i = (case ps ! i of Some (VArr b) \<Rightarrow> b | _ \<Rightarrow> [])"

definition fieldObject :: "val option list \<Rightarrow> nat \<Rightarrow> val option list" where
  "fieldObject ps i = (case ps ! i of Some (VObj b) \<Rightarrow> b | _ \<Rightarrow> [])"

definition valBytes :: "val \<Rightarrow> bytes" where
  "valBytes v = (case v of VBytes b \<Rightarrow> b | _ \<Rightarrow> [])"

definition headerOfProps :: "val option list \<Rightarrow> blockHeader" where
  "headerOfProps ps =
     (let ac = fieldObject ps 13 in
      \<lparr>hVersion = fieldInt ps 0, hTimestamp = fieldInt ps 1, hHeight = fieldInt ps 2, hPreviousBlockID = fieldBytes ps 3,
       hGeneratorAddress = fieldBytes ps 4, hTransactionRoot = Some (fieldBytes ps 5), hAssetRoot = Some (fieldBytes ps 6),
       hEventRoot = Some (fieldBytes ps 7), hStateRoot = Some (fieldBytes ps 8), hMaxHeightPrevoted = fieldInt ps 9,
       hMaxHeightGenerated = fieldInt ps 10, hImpliesMaxPrevotes = fieldBool ps 11, hValidatorsHash = Some (fieldBytes ps 12),
       hAggregateCommit = \<lparr>acHeight = fieldInt ac 0, acAggregationBits = fieldBytes ac 1, acCertificateSignature = fieldBytes ac 2\<rparr>,
       hSignature = Some (fieldBytes ps 14), hId = None\<rparr>)"

definition headerFromBytes :: "jsLib \<Rightarrow> bytes \<Rightarrow> err + blockHeader" where
  "headerFromBytes lib bs = rbind (decode lib blockHeaderSchema bs) (\<lambda>ps. Inr (headerOfProps ps))"

text \<open>The getter \<open>id\<close> computes the identifier on first use and keeps it.\<close>

definition headerId :: "jsLib \<Rightarrow> (bytes \<Rightarrow> bytes) \<Rightarrow> blockHeader \<Rightarrow> err + (bytes \<times> blockHeader)" where
  "headerId lib hash h =
     (case hId h of
        Some i \<Rightarrow> Inr (i, h)
      | None \<Rightarrow>
          (case hSignature h of
             None \<Rightarrow> Inl (Error ''Can not generate the id for unsigned block header.'')
           | Some sig \<Rightarrow>
               rbind (getSigningProps h) (\<lambda>p.
               rbind (encode lib blockHeaderSchema (p @ [Some (VBytes sig)])) (\<lambda>bs.
               Inr (hash bs, h\<lparr>hId := Some (hash bs)\<rparr>)))))"

text \<open>The setters forget the identifier.\<close>

definition setStateRoot :: "bytes option \<Rightarrow> blockHeader \<Rightarrow> blockHeader" where
  "setStateRoot v h = h\<lparr>hStateRoot := v, hId := None\<rparr>"

definition setEventRoot :: "bytes option \<Rightarrow> blockHeader \<Rightarrow> blockHeader" where
  "setEventRoot v h = h\<lparr>hEventRoot := v, hId := None\<rparr>"

definition setAssetRoot :: "bytes option \<Rightarrow> blockHeader \<Rightarrow> blockHeader" where
  "setAssetRoot v h = h\<lparr>hAssetRoot := v, hId := None\<rparr>"

definition setTransactionRoot :: "bytes option \<Rightarrow> blockHeader \<Rightarrow> blockHeader" where
  "setTransactionRoot v h = h\<lparr>hTransactionRoot := v, hId := None\<rparr>"

definition setValidatorsHash :: "bytes option \<Rightarrow> blockHeader \<Rightarrow> blockHeader" where
  "setValidatorsHash v h = h\<lparr>hValidatorsHash := v, hId := None\<rparr>"

definition setAggregateCommit :: "aggregateCommit \<Rightarrow> blockHeader \<Rightarrow> blockHeader" where
  "setAggregateCommit v h = h\<lparr>hAggregateCommit := v, hId := None\<rparr>"

text \<open>\<open>ed\<close> signs a tagged message for a chain with a private key.\<close>

definition TAG_BLOCK_HEADER :: string where "TAG_BLOCK_HEADER = ''KLY_BH_''"

definition headerSign :: "jsLib \<Rightarrow> (string \<Rightarrow> bytes \<Rightarrow> bytes \<Rightarrow> bytes \<Rightarrow> bytes) \<Rightarrow> bytes \<Rightarrow> bytes \<Rightarrow> blockHeader \<Rightarrow> err + blockHeader" where
  "headerSign lib signData chainID privateKey h =
     rbind (getSigningBytes lib h) (\<lambda>msg. Inr (h\<lparr>hSignature := Some (signData TAG_BLOCK_HEADER chainID msg privateKey)\<rparr>))"

definition validateSignature :: "jsLib \<Rightarrow> (string \<Rightarrow> bytes \<Rightarrow> bytes \<Rightarrow> bytes \<Rightarrow> bytes \<Rightarrow> bool) \<Rightarrow> bytes \<Rightarrow> bytes \<Rightarrow>
    blockHeader \<Rightarrow> err + unit" where
  "validateSignature lib verifyData publicKey chainID h =
     rbind (getSigningBytes lib h) (\<lambda>msg.
     rbind (headerSignature h) (\<lambda>sig.
     if verifyData TAG_BLOCK_HEADER chainID msg sig publicKey then Inr ()
     else Inl (Error ''Invalid block signature.'')))"

definition SIGNATURE_LENGTH_BYTES :: nat where "SIGNATURE_LENGTH_BYTES = 64"
definition LENGTH_ADDRESS :: nat where "LENGTH_ADDRESS = 20"

definition headerValidate :: "(val option list \<Rightarrow> bool) \<Rightarrow> blockHeader \<Rightarrow> err + unit" where
  "headerValidate schemaValid h =
     rbind (getBlockHeaderProps h) (\<lambda>p.
     if \<not> schemaValid p then Inl (Error ''KlayrvalidationError'')
     else if length (hPreviousBlockID h) = 0 then Inl (Error ''Previous block id must not be empty.'')
     else rbind (headerSignature h) (\<lambda>s.
       if length s \<noteq> SIGNATURE_LENGTH_BYTES then Inl (Error ''Signature length must be 64 bytes.'') else Inr ()))"

text \<open>The violations that \<open>validateGenesis\<close> collects, in order.\<close>

definition genesisErrors :: "(bytes \<Rightarrow> bytes) \<Rightarrow> blockHeader \<Rightarrow> string list" where
  "genesisErrors hash h =
     (if length (hPreviousBlockID h) \<noteq> 32 then [''previousBlockID''] else []) @
     (if hGeneratorAddress h \<noteq> replicate LENGTH_ADDRESS 0 then [''generatorAddress''] else []) @
     (if hTransactionRoot h \<noteq> Some (hash []) then [''transactionRoot''] else []) @
     (if hMaxHeightPrevoted h \<noteq> hHeight h then [''maxHeightPrevoted''] else []) @
     (if hMaxHeightGenerated h \<noteq> 0 then [''maxHeightGenerated''] else []) @
     (if \<not> hImpliesMaxPrevotes h then [''impliesMaxPrevotes''] else []) @
     (if acHeight (hAggregateCommit h) \<noteq> hHeight h then [''aggregateCommit.height''] else []) @
     (if acCertificateSignature (hAggregateCommit h) \<noteq> [] then [''certificateSignature''] else []) @
     (if acAggregationBits (hAggregateCommit h) \<noteq> [] then [''aggregationBits''] else []) @
     (if hSignature h \<noteq> Some [] then [''signature''] else [])"

definition headerValidateGenesis :: "(val option list \<Rightarrow> bool) \<Rightarrow> (bytes \<Rightarrow> bytes) \<Rightarrow> blockHeader \<Rightarrow> err + unit" where
  "headerValidateGenesis schemaValid hash h =
     rbind (getBlockHeaderProps h) (\<lambda>p.
     if \<not> schemaValid p then Inl (Error ''KlayrvalidationError'')
     else if genesisErrors hash h \<noteq> [] then Inl (Error ''KlayrvalidationError'')
     else Inr ())"

section \<open>Transactions\<close>

record transaction =
  txModule :: string
  txCommand :: string
  txNonce :: int
  txFee :: int
  txSenderPublicKey :: bytes
  txParams :: bytes
  txSignatures :: "bytes list"

definition transactionSchema :: "schemaProp list" where
  "transactionSchema = [PScalar 1 StringT, PScalar 2 StringT, PScalar 3 UInt64T, PScalar 4 UInt64T, PScalar 5 BytesT,
     PScalar 6 BytesT, PArray 7 BytesT]"

definition transactionVals :: "transaction \<Rightarrow> val option list" where
  "transactionVals tx = [Some (VStr (txModule tx)), Some (VStr (txCommand tx)), Some (VInt (txNonce tx)), Some (VInt (txFee tx)),
     Some (VBytes (txSenderPublicKey tx)), Some (VBytes (txParams tx)), Some (VArr (map VBytes (txSignatures tx)))]"

definition txGetBytes :: "jsLib \<Rightarrow> transaction \<Rightarrow> err + bytes" where
  "txGetBytes lib tx = encode lib transactionSchema (transactionVals tx)"

definition txGetSigningBytes :: "jsLib \<Rightarrow> transaction \<Rightarrow> err + bytes" where
  "txGetSigningBytes lib tx = encode lib transactionSchema (transactionVals (tx\<lparr>txSignatures := []\<rparr>))"

definition transactionOfVals :: "val option list \<Rightarrow> transaction" where
  "transactionOfVals ps =
     \<lparr>txModule = fieldString ps 0, txCommand = fieldString ps 1, txNonce = fieldInt ps 2, txFee = fieldInt ps 3,
      txSenderPublicKey = fieldBytes ps 4, txParams = fieldBytes ps 5, txSignatures = map valBytes (fieldArray ps 6)\<rparr>"

definition txFromBytes :: "jsLib \<Rightarrow> bytes \<Rightarrow> err + transaction" where
  "txFromBytes lib bs = rbind (decode lib transactionSchema bs) (\<lambda>ps. Inr (transactionOfVals ps))"

definition txId :: "jsLib \<Rightarrow> (bytes \<Rightarrow> bytes) \<Rightarrow> transaction \<Rightarrow> err + bytes" where
  "txId lib hash tx = rbind (txGetBytes lib tx) (\<lambda>bs. Inr (hash bs))"

text \<open>\<open>getAddressFromPublicKey\<close>: the first 20 bytes of the hash of the key.\<close>

definition txSenderAddress :: "(bytes \<Rightarrow> bytes) \<Rightarrow> transaction \<Rightarrow> bytes" where
  "txSenderAddress hash tx = take 20 (hash (txSenderPublicKey tx))"

definition TAG_TRANSACTION :: string where "TAG_TRANSACTION = ''KLY_TX_''"
definition MAX_PARAMS_SIZE :: int where "MAX_PARAMS_SIZE = 14 * 1024"

definition txSign :: "jsLib \<Rightarrow> (string \<Rightarrow> bytes \<Rightarrow> bytes \<Rightarrow> bytes \<Rightarrow> bytes) \<Rightarrow> bytes \<Rightarrow> bytes \<Rightarrow> transaction \<Rightarrow> err + transaction" where
  "txSign lib signData chainID privateKey tx =
     rbind (txGetSigningBytes lib tx) (\<lambda>msg.
     Inr (tx\<lparr>txSignatures := txSignatures tx @ [signData TAG_TRANSACTION chainID msg privateKey]\<rparr>))"

text \<open>\<open>NAME_REGEX\<close>: letters and digits only (the empty name matches).\<close>

definition nameRegex :: "string \<Rightarrow> bool" where
  "nameRegex s = list_all (\<lambda>c. let n = of_char c :: nat in
     (97 \<le> n \<and> n \<le> 122) \<or> (65 \<le> n \<and> n \<le> 90) \<or> (48 \<le> n \<and> n \<le> 57)) s"

definition txValidate :: "(val option list \<Rightarrow> bool) \<Rightarrow> transaction \<Rightarrow> err + unit" where
  "txValidate schemaValid tx =
     (if \<not> schemaValid (transactionVals tx) then Inl (Error ''KlayrvalidationError'')
      else if \<not> nameRegex (txModule tx) then Inl (Error ''Invalid module name'')
      else if \<not> nameRegex (txCommand tx) then Inl (Error ''Invalid command name'')
      else if int (length (txParams tx)) > MAX_PARAMS_SIZE then Inl (Error ''Params exceeds max size allowed'')
      else if txSignatures tx = [] then Inl (Error ''Signatures must not be empty'')
      else if list_ex (\<lambda>s. length s \<noteq> 0 \<and> length s \<noteq> 64) (txSignatures tx)
      then Inl (Error ''Signature must be empty or 64 bytes'')
      else Inr ())"

section \<open>Assets\<close>

record blockAsset =
  asModule :: string
  asData :: bytes

definition MAX_ASSET_DATA_SIZE_BYTES :: nat where "MAX_ASSET_DATA_SIZE_BYTES = 18"

definition blockAssetSchema :: "schemaProp list" where
  "blockAssetSchema = [PScalar 1 StringT, PScalar 2 BytesT]"

definition assetVals :: "blockAsset \<Rightarrow> val option list" where
  "assetVals a = [Some (VStr (asModule a)), Some (VBytes (asData a))]"

fun mapE :: "('a \<Rightarrow> err + 'b) \<Rightarrow> 'a list \<Rightarrow> err + 'b list" where
  "mapE f [] = Inr []"
| "mapE f (x # xs) = rbind (f x) (\<lambda>y. rbind (mapE f xs) (\<lambda>ys. Inr (y # ys)))"

definition assetsGetBytes :: "jsLib \<Rightarrow> blockAsset list \<Rightarrow> err + bytes list" where
  "assetsGetBytes lib assets = mapE (\<lambda>a. encode lib blockAssetSchema (assetVals a)) assets"

definition assetOfVals :: "val option list \<Rightarrow> blockAsset" where
  "assetOfVals ps = \<lparr>asModule = fieldString ps 0, asData = fieldBytes ps 1\<rparr>"

definition assetsFromBytes :: "jsLib \<Rightarrow> bytes list \<Rightarrow> err + blockAsset list" where
  "assetsFromBytes lib = mapE (\<lambda>b. rbind (decode lib blockAssetSchema b) (\<lambda>ps. Inr (assetOfVals ps)))"

definition getAsset :: "blockAsset list \<Rightarrow> string \<Rightarrow> bytes option" where
  "getAsset assets module = map_option asData (find (\<lambda>a. asModule a = module) assets)"

text \<open>A found buffer is truthy, also the empty one.\<close>

definition setAsset :: "string \<Rightarrow> bytes \<Rightarrow> blockAsset list \<Rightarrow> err + blockAsset list" where
  "setAsset module value assets =
     (if getAsset assets module \<noteq> None then Inl (Error ''Module asset is already set.'')
      else Inr (assets @ [\<lparr>asModule = module, asData = value\<rparr>]))"

definition sortAssets :: "jsLib \<Rightarrow> blockAsset list \<Rightarrow> blockAsset list" where
  "sortAssets lib = sortBy (\<lambda>a b. localeCompare lib (asModule a) (asModule b))"

definition nameLess :: "string \<Rightarrow> string \<Rightarrow> bool" where
  "nameLess a b = (stringToBytes a < stringToBytes b)"

text \<open>The loop of \<open>validate\<close>; \<open>full\<close> adds the checks that \<open>validateGenesis\<close> does not make.\<close>

primrec validateAssetsLoop :: "bool \<Rightarrow> (val option list \<Rightarrow> bool) \<Rightarrow> blockAsset \<Rightarrow> nat \<Rightarrow> blockAsset list \<Rightarrow> err + unit" where
  "validateAssetsLoop full schemaValid prev i [] = Inr ()"
| "validateAssetsLoop full schemaValid prev i (a # as) =
     (if \<not> schemaValid (assetVals a) then Inl (Error ''KlayrvalidationError'')
      else if full \<and> \<not> nameRegex (asModule a) then Inl (Error ''Invalid module name'')
      else if full \<and> length (asData a) > MAX_ASSET_DATA_SIZE_BYTES then Inl (Error ''data size'')
      else if nameLess (asModule a) (asModule prev) then Inl (Error ''Assets are not sorted'')
      else if i > 0 \<and> asModule a = asModule prev then Inl (Error ''duplicate entries'')
      else validateAssetsLoop full schemaValid a (Suc i) as)"

definition validateAssets :: "bool \<Rightarrow> (val option list \<Rightarrow> bool) \<Rightarrow> blockAsset list \<Rightarrow> err + unit" where
  "validateAssets full schemaValid assets =
     (case assets of [] \<Rightarrow> Inr () | a # _ \<Rightarrow> validateAssetsLoop full schemaValid a 0 assets)"

section \<open>Blocks\<close>

record block =
  bHeader :: blockHeader
  bTransactions :: "transaction list"
  bAssets :: "blockAsset list"

definition blockSchema :: "schemaProp list" where
  "blockSchema = [PScalar 1 BytesT, PArray 2 BytesT, PArray 3 BytesT]"

definition blockGetBytes :: "jsLib \<Rightarrow> block \<Rightarrow> err + bytes" where
  "blockGetBytes lib b =
     rbind (headerGetBytes lib (bHeader b)) (\<lambda>hb.
     rbind (mapE (txGetBytes lib) (bTransactions b)) (\<lambda>tbs.
     rbind (assetsGetBytes lib (bAssets b)) (\<lambda>abs.
     encode lib blockSchema [Some (VBytes hb), Some (VArr (map VBytes tbs)), Some (VArr (map VBytes abs))])))"

definition blockFromBytes :: "jsLib \<Rightarrow> bytes \<Rightarrow> err + block" where
  "blockFromBytes lib bs =
     rbind (decode lib blockSchema bs) (\<lambda>vs.
     rbind (headerFromBytes lib (fieldBytes vs 0)) (\<lambda>h.
     rbind (mapE (txFromBytes lib) (map valBytes (fieldArray vs 1))) (\<lambda>txs.
     rbind (assetsFromBytes lib (map valBytes (fieldArray vs 2))) (\<lambda>assets.
     Inr \<lparr>bHeader = h, bTransactions = txs, bAssets = assets\<rparr>))))"

record chainValidator =
  headerSchemaValid :: "val option list \<Rightarrow> bool"
  txSchemaValid :: "val option list \<Rightarrow> bool"
  assetSchemaValid :: "val option list \<Rightarrow> bool"

definition blockValidate :: "jsLib \<Rightarrow> (bytes \<Rightarrow> bytes) \<Rightarrow> chainValidator \<Rightarrow> block \<Rightarrow> err + unit" where
  "blockValidate lib hash cv b =
     rbind (headerValidate (headerSchemaValid cv) (bHeader b)) (\<lambda>_.
     rbind (mapE (txValidate (txSchemaValid cv)) (bTransactions b)) (\<lambda>_.
     rbind (validateAssets True (assetSchemaValid cv) (bAssets b)) (\<lambda>_.
     rbind (mapE (txId lib hash) (bTransactions b)) (\<lambda>ids.
     if hTransactionRoot (bHeader b) \<noteq> Some (calculateMerkleRootWithLeaves hash ids)
     then Inl (Error ''Invalid transaction root'')
     else rbind (assetsGetBytes lib (bAssets b)) (\<lambda>abs.
     if hAssetRoot (bHeader b) \<noteq> Some (calculateMerkleRootWithLeaves hash abs)
     then Inl (Error ''Invalid assets root'')
     else Inr ())))))"

definition blockValidateGenesis :: "jsLib \<Rightarrow> (bytes \<Rightarrow> bytes) \<Rightarrow> chainValidator \<Rightarrow> block \<Rightarrow> err + unit" where
  "blockValidateGenesis lib hash cv b =
     rbind (headerValidateGenesis (headerSchemaValid cv) hash (bHeader b)) (\<lambda>_.
     if bTransactions b \<noteq> [] then Inl (Error ''Transactions length must be zero'')
     else rbind (validateAssets False (assetSchemaValid cv) (bAssets b)) (\<lambda>_.
     rbind (assetsGetBytes lib (bAssets b)) (\<lambda>abs.
     if hAssetRoot (bHeader b) \<noteq> Some (calculateMerkleRootWithLeaves hash abs)
     then Inl (Error ''Invalid assets root'')
     else Inr ())))"


section \<open>Round trip\<close>

definition isUInt32 :: "int \<Rightarrow> bool" where
  "isUInt32 n = (0 \<le> n \<and> n \<le> MAX_UINT32)"

definition isUInt64 :: "int \<Rightarrow> bool" where
  "isUInt64 n = (0 \<le> n \<and> n \<le> MAX_UINT64)"

definition isText :: "jsLib \<Rightarrow> string \<Rightarrow> bool" where
  "isText lib s = (nfc lib s = s \<and> utf8Valid lib s \<and> stripBOM s = s)"

definition headerOk :: "blockHeader \<Rightarrow> bool" where
  "headerOk h = (list_all isUInt32 [hVersion h, hTimestamp h, hHeight h, hMaxHeightPrevoted h, hMaxHeightGenerated h, acHeight (hAggregateCommit h)])"

definition transactionOk :: "jsLib \<Rightarrow> transaction \<Rightarrow> bool" where
  "transactionOk lib tx = (isText lib (txModule tx) \<and> isText lib (txCommand tx) \<and> isUInt64 (txNonce tx) \<and> isUInt64 (txFee tx))"

definition blockOk :: "jsLib \<Rightarrow> block \<Rightarrow> bool" where
  "blockOk lib b = (headerOk (bHeader b) \<and> list_all (transactionOk lib) (bTransactions b) \<and>
     list_all (\<lambda>a. isText lib (asModule a)) (bAssets b))"

lemmas field_defs = fieldInt_def fieldBytes_def fieldString_def fieldBool_def fieldArray_def fieldObject_def

lemma orThrow_Inr [simp]: "orThrow m x = Inr a \<longleftrightarrow> x = Some a"
  by (auto simp: orThrow_def split: option.splits)

lemma map_valBytes [simp]: "map (valBytes \<circ> VBytes) bs = bs"
  by (induction bs) (auto simp: valBytes_def)

lemma conf_bytes_list [simp]: "list_all (confScalar lib BytesT) (map VBytes bs)"
  by (induction bs) auto

lemma header_schema_ok [simp]: "schemaOk blockHeaderSchema"
  by (simp add: schemaOk_def blockHeaderSchema_def signingBlockHeaderSchema_def aggregateCommitSchema_def)

lemma header_roundtrip:
  assumes "headerOk h" "headerGetBytes lib h = Inr bs"
  shows "headerFromBytes lib bs = Inr (h\<lparr>hId := None\<rparr>)"
proof -
  obtain p where p: "getBlockHeaderProps h = Inr p" "encode lib blockHeaderSchema p = Inr bs"
    using assms(2) by (auto simp: headerGetBytes_def rbind_Inr)
  obtain sr er ar tr vh sg where r: "hAssetRoot h = Some ar" "hEventRoot h = Some er" "hStateRoot h = Some sr"
    "hTransactionRoot h = Some tr" "hValidatorsHash h = Some vh" "hSignature h = Some sg"
    using p(1) by (auto simp: getBlockHeaderProps_def getSigningProps_def headerSignature_def rbind_Inr)
  have pe: "p = [Some (VInt (hVersion h)), Some (VInt (hTimestamp h)), Some (VInt (hHeight h)), Some (VBytes (hPreviousBlockID h)),
          Some (VBytes (hGeneratorAddress h)), Some (VBytes tr), Some (VBytes ar), Some (VBytes er),
          Some (VBytes sr), Some (VInt (hMaxHeightPrevoted h)), Some (VInt (hMaxHeightGenerated h)),
          Some (VBool (hImpliesMaxPrevotes h)), Some (VBytes vh), Some (VObj (commitVals (hAggregateCommit h))), Some (VBytes sg)]"
    using p(1) r by (simp add: getBlockHeaderProps_def getSigningProps_def headerSignature_def orThrow_def)
  have "conf lib blockHeaderSchema p"
    using assms(1) by (simp add: pe blockHeaderSchema_def signingBlockHeaderSchema_def aggregateCommitSchema_def commitVals_def headerOk_def isUInt32_def)
  then have "decode lib blockHeaderSchema bs = Inr p" using p(2) by (simp add: codec_reads)
  moreover have "headerOfProps p = h\<lparr>hId := None\<rparr>"
    using r by (simp add: headerOfProps_def pe field_defs commitVals_def Let_def)
  ultimately show ?thesis by (simp add: headerFromBytes_def)
qed

lemma transaction_roundtrip:
  assumes "transactionOk lib tx" "txGetBytes lib tx = Inr bs"
  shows "txFromBytes lib bs = Inr tx"
proof -
  have "decode lib transactionSchema bs = Inr (transactionVals tx)"
    by (rule codec_reads)
      (use assms in \<open>auto simp: schemaOk_def transactionSchema_def transactionVals_def transactionOk_def isText_def isUInt64_def txGetBytes_def\<close>)
  then show ?thesis by (simp add: txFromBytes_def transactionOfVals_def transactionVals_def field_defs)
qed

lemma asset_roundtrip:
  assumes "isText lib (asModule a)" "encode lib blockAssetSchema (assetVals a) = Inr bs"
  shows "rbind (decode lib blockAssetSchema bs) (\<lambda>ps. Inr (assetOfVals ps)) = Inr a"
proof -
  have "decode lib blockAssetSchema bs = Inr (assetVals a)"
    by (rule codec_reads) (use assms in \<open>auto simp: schemaOk_def blockAssetSchema_def assetVals_def isText_def\<close>)
  then show ?thesis by (simp add: assetOfVals_def assetVals_def field_defs)
qed

lemma mapE_roundtrip:
  assumes "mapE f xs = Inr ys" "\<And>x y. x \<in> set xs \<Longrightarrow> f x = Inr y \<Longrightarrow> g y = Inr x"
  shows "mapE g ys = Inr xs"
  using assms by (induction xs arbitrary: ys) (auto simp: rbind_Inr)

text \<open>
  C22: blocks survive transport. A block whose numbers fit their types and whose names are
  normalised text, and that can be serialised, is read back from its bytes with header,
  transactions and assets unchanged (only the cached identifier of the header is not part
  of the bytes).
\<close>

theorem block_roundtrip:
  assumes "blockOk lib b" "blockGetBytes lib b = Inr bs"
  shows "blockFromBytes lib bs = Inr (b\<lparr>bHeader := (bHeader b)\<lparr>hId := None\<rparr>\<rparr>)"
proof -
  obtain hb tbs abs where e: "headerGetBytes lib (bHeader b) = Inr hb" "mapE (txGetBytes lib) (bTransactions b) = Inr tbs"
    "assetsGetBytes lib (bAssets b) = Inr abs"
    "encode lib blockSchema [Some (VBytes hb), Some (VArr (map VBytes tbs)), Some (VArr (map VBytes abs))] = Inr bs"
    using assms(2) by (auto simp: blockGetBytes_def rbind_Inr)
  have d: "decode lib blockSchema bs = Inr [Some (VBytes hb), Some (VArr (map VBytes tbs)), Some (VArr (map VBytes abs))]"
    by (rule codec_reads[OF _ _ e(4)]) (auto simp: schemaOk_def blockSchema_def)
  have "headerFromBytes lib hb = Inr ((bHeader b)\<lparr>hId := None\<rparr>)" using header_roundtrip e(1) assms(1) by (simp add: blockOk_def)
  moreover have "mapE (txFromBytes lib) tbs = Inr (bTransactions b)"
    using e(2) by (rule mapE_roundtrip) (use assms(1) transaction_roundtrip in \<open>auto simp: blockOk_def list_all_iff\<close>)
  moreover have "assetsFromBytes lib abs = Inr (bAssets b)"
    unfolding assetsFromBytes_def using e(3)[unfolded assetsGetBytes_def]
    by (rule mapE_roundtrip) (use assms(1) asset_roundtrip in \<open>auto simp: blockOk_def list_all_iff\<close>)
  ultimately show ?thesis using d by (simp add: blockFromBytes_def field_defs)
qed

section \<open>The cached identifier\<close>

text \<open>The identifier the current contents of a header have.\<close>

definition freshId :: "jsLib \<Rightarrow> (bytes \<Rightarrow> bytes) \<Rightarrow> blockHeader \<Rightarrow> err + bytes" where
  "freshId lib hash h = rbind (headerGetBytes lib h) (\<lambda>bs. Inr (hash bs))"

definition idCoherent :: "jsLib \<Rightarrow> (bytes \<Rightarrow> bytes) \<Rightarrow> blockHeader \<Rightarrow> bool" where
  "idCoherent lib hash h = (case hId h of None \<Rightarrow> True | Some i \<Rightarrow> freshId lib hash h = Inr i)"

text \<open>The operations on a header other than signing it.\<close>

inductive headerStep :: "jsLib \<Rightarrow> (bytes \<Rightarrow> bytes) \<Rightarrow> blockHeader \<Rightarrow> blockHeader \<Rightarrow> bool" for lib hash where
  "headerStep lib hash h (setStateRoot v h)"
| "headerStep lib hash h (setEventRoot v h)"
| "headerStep lib hash h (setAssetRoot v h)"
| "headerStep lib hash h (setTransactionRoot v h)"
| "headerStep lib hash h (setValidatorsHash v h)"
| "headerStep lib hash h (setAggregateCommit c h)"
| "headerId lib hash h = Inr (i, h') \<Longrightarrow> headerStep lib hash h h'"

lemma freshId_irrelevant [simp]: "freshId lib hash (h\<lparr>hId := i\<rparr>) = freshId lib hash h"
  by (simp add: freshId_def headerGetBytes_def getBlockHeaderProps_def getSigningProps_def headerSignature_def)

lemma headerId_fresh:
  assumes "headerId lib hash h = Inr (i, h')" "idCoherent lib hash h"
  shows "freshId lib hash h = Inr i \<and> h' = h\<lparr>hId := Some i\<rparr>"
  using assms
  by (cases h) (auto simp: headerId_def idCoherent_def freshId_def headerGetBytes_def getBlockHeaderProps_def headerSignature_def rbind_Inr
      split: option.splits)

lemma headerStep_coherent: "headerStep lib hash h h' \<Longrightarrow> idCoherent lib hash h \<Longrightarrow> idCoherent lib hash h'"
  by (induction rule: headerStep.induct)
    (auto simp: setStateRoot_def setEventRoot_def setAssetRoot_def setTransactionRoot_def setValidatorsHash_def setAggregateCommit_def
      idCoherent_def dest: headerId_fresh[unfolded idCoherent_def])

text \<open>
  the identifier of a header is never stale. Starting from a header without a cached
  identifier (as \<open>fromBytes\<close> makes it), after any sequence of setters and reads of \<open>id\<close>, the
  getter returns the hash of the header's current bytes; but signing a header keeps the
  identifier computed for the earlier signature.
\<close>

theorem header_id_never_stale:
  assumes "(headerStep lib hash)\<^sup>*\<^sup>* h h'" "hId h = None" "headerId lib hash h' = Inr (i, h'')"
  shows "freshId lib hash h' = Inr i"
proof -
  have "idCoherent lib hash h'" using assms(1)
    by (induction rule: rtranclp_induct) (auto simp: idCoherent_def assms(2) dest: headerStep_coherent[unfolded idCoherent_def])
  then show ?thesis using headerId_fresh assms(3) by blast
qed

definition exHeader :: blockHeader where
  "exHeader = \<lparr>hVersion = 2, hTimestamp = 10, hHeight = 1, hPreviousBlockID = [1], hGeneratorAddress = [7], hTransactionRoot = Some [],
     hAssetRoot = Some [], hEventRoot = Some [], hStateRoot = Some [9], hMaxHeightPrevoted = 0, hMaxHeightGenerated = 0,
     hImpliesMaxPrevotes = True, hValidatorsHash = Some [], hAggregateCommit = \<lparr>acHeight = 0, acAggregationBits = [], acCertificateSignature = []\<rparr>,
     hSignature = Some [5], hId = None\<rparr>"

definition exBlock :: block where
  "exBlock = \<lparr>bHeader = exHeader,
     bTransactions = [\<lparr>txModule = ''token'', txCommand = ''transfer'', txNonce = 3, txFee = 100, txSenderPublicKey = [2], txParams = [8, 1], txSignatures = [[4], []]\<rparr>],
     bAssets = [\<lparr>asModule = ''random'', asData = [1, 2]\<rparr>]\<rparr>"

definition exBlockBytes :: bytes where
  "exBlockBytes = (case blockGetBytes asciiLib exBlock of Inr bs \<Rightarrow> bs | Inl _ \<Rightarrow> [])"

theorem block_roundtrip_witness:
  "blockGetBytes asciiLib exBlock = Inr exBlockBytes \<and> exBlockBytes \<noteq> [] \<and> blockFromBytes asciiLib exBlockBytes = Inr exBlock"
proof -
  have ok: "blockOk asciiLib exBlock" by code_simp
  have e: "blockGetBytes asciiLib exBlock = Inr exBlockBytes" "exBlockBytes \<noteq> []" by code_simp+
  have "exBlock\<lparr>bHeader := (bHeader exBlock)\<lparr>hId := None\<rparr>\<rparr> = exBlock" by (simp add: exBlock_def exHeader_def)
  with block_roundtrip[OF ok e(1)] e show ?thesis by simp
qed

theorem header_id_never_stale_witness:
  "\<exists>i h''. headerId asciiLib (take 60) (setStateRoot (Some [6]) exHeader) = Inr (i, h'') \<and>
     freshId asciiLib (take 60) (setStateRoot (Some [6]) exHeader) = Inr i"
proof -
  have s: "(headerStep asciiLib (take 60))\<^sup>*\<^sup>* exHeader (setStateRoot (Some [6]) exHeader)" by (auto intro: headerStep.intros)
  have n: "hId exHeader = None" by (simp add: exHeader_def)
  have "isl (headerId asciiLib (take 60) (setStateRoot (Some [6]) exHeader)) = False" by code_simp
  then obtain i h'' where "headerId asciiLib (take 60) (setStateRoot (Some [6]) exHeader) = Inr (i, h'')"
    by (cases "headerId asciiLib (take 60) (setStateRoot (Some [6]) exHeader)") auto
  with header_id_never_stale[OF s n] show ?thesis by blast
qed

text \<open>
  signing keeps a stale identifier. After \<open>id\<close> was read, \<open>sign\<close> replaces the
  signature but not the cached identifier, which then differs from the hash of the signed
  header.
\<close>

theorem sign_keeps_stale_id:
  "rbind (headerId asciiLib id exHeader) (\<lambda>(i, h).
   rbind (headerSign asciiLib (\<lambda>tag chain msg key. key) [] [6] h) (\<lambda>h2.
   rbind (headerId asciiLib id h2) (\<lambda>(j, _).
   rbind (freshId asciiLib id h2) (\<lambda>k. Inr (j = i \<and> j \<noteq> k))))) = Inr True"
  by code_simp

section \<open>Validated blocks\<close>

lemma validateAssetsLoop_sorted:
  assumes "validateAssetsLoop full sv prev i as = Inr ()" "0 < i"
  shows "sorted_wrt (\<lambda>a b. nameLess (asModule a) (asModule b)) (prev # as)"
  using assms
proof (induction as arbitrary: prev i)
  case (Cons a as)
  have "sorted_wrt (\<lambda>a b. nameLess (asModule a) (asModule b)) (a # as)" using Cons by (auto split: if_splits)
  moreover have "nameLess (asModule prev) (asModule a)"
  proof -
    have "\<not> nameLess (asModule a) (asModule prev)" "asModule a \<noteq> asModule prev" using Cons.prems by (auto split: if_splits)
    moreover have "stringToBytes (asModule a) \<noteq> stringToBytes (asModule prev)"
      using calculation(2) bytesToString_inverse by metis
    ultimately show ?thesis by (auto simp: nameLess_def)
  qed
  ultimately show ?case by (fastforce simp: nameLess_def)
qed simp

lemma validateAssetsLoop_each:
  "validateAssetsLoop True sv prev i as = Inr () \<Longrightarrow> a \<in> set as \<Longrightarrow> nameRegex (asModule a) \<and> length (asData a) \<le> MAX_ASSET_DATA_SIZE_BYTES"
  by (induction as arbitrary: prev i) (auto split: if_splits)

lemma mapE_all: "mapE f xs = Inr ys \<Longrightarrow> x \<in> set xs \<Longrightarrow> \<exists>y. f x = Inr y"
  by (induction xs arbitrary: ys) (auto simp: rbind_Inr)

text \<open>
  C28: what a block that passes validation guarantees. Its header is signed with 64 bytes and
  commits by its two roots to the identifiers of the transactions and to the assets; every
  transaction has names of letters and digits, parameters of at most 14 KiB and at least
  one signature, each empty or of 64 bytes; the assets have at most 18 bytes and are
  strictly sorted by module, so that no module has two.
\<close>

theorem validated_block:
  assumes "blockValidate lib hash cv b = Inr ()"
  shows "(\<exists>s. hSignature (bHeader b) = Some s \<and> length s = 64) \<and> hPreviousBlockID (bHeader b) \<noteq> [] \<and>
    (\<exists>ids abs. mapE (txId lib hash) (bTransactions b) = Inr ids \<and> assetsGetBytes lib (bAssets b) = Inr abs \<and>
       hTransactionRoot (bHeader b) = Some (calculateMerkleRootWithLeaves hash ids) \<and>
       hAssetRoot (bHeader b) = Some (calculateMerkleRootWithLeaves hash abs)) \<and>
    (\<forall>tx \<in> set (bTransactions b). nameRegex (txModule tx) \<and> nameRegex (txCommand tx) \<and>
       int (length (txParams tx)) \<le> MAX_PARAMS_SIZE \<and> txSignatures tx \<noteq> [] \<and>
       (\<forall>s \<in> set (txSignatures tx). length s = 0 \<or> length s = 64)) \<and>
    (\<forall>a \<in> set (bAssets b). nameRegex (asModule a) \<and> length (asData a) \<le> 18) \<and>
    sorted_wrt (\<lambda>a c. nameLess (asModule a) (asModule c)) (bAssets b)"
proof -
  obtain r1 ids abs where v: "headerValidate (headerSchemaValid cv) (bHeader b) = Inr ()"
    "mapE (txValidate (txSchemaValid cv)) (bTransactions b) = Inr r1" "validateAssets True (assetSchemaValid cv) (bAssets b) = Inr ()"
    "mapE (txId lib hash) (bTransactions b) = Inr ids" "assetsGetBytes lib (bAssets b) = Inr abs"
    "hTransactionRoot (bHeader b) = Some (calculateMerkleRootWithLeaves hash ids)"
    "hAssetRoot (bHeader b) = Some (calculateMerkleRootWithLeaves hash abs)"
    using assms by (auto simp: blockValidate_def rbind_Inr split: if_splits)
  have h: "(\<exists>s. hSignature (bHeader b) = Some s \<and> length s = 64) \<and> hPreviousBlockID (bHeader b) \<noteq> []"
    using v(1) by (auto simp: headerValidate_def rbind_Inr headerSignature_def SIGNATURE_LENGTH_BYTES_def split: if_splits)
  have t: "nameRegex (txModule tx) \<and> nameRegex (txCommand tx) \<and> int (length (txParams tx)) \<le> MAX_PARAMS_SIZE \<and> txSignatures tx \<noteq> [] \<and>
       (\<forall>s \<in> set (txSignatures tx). length s = 0 \<or> length s = 64)" if "tx \<in> set (bTransactions b)" for tx
    using mapE_all[OF v(2) that] by (auto simp: txValidate_def list_ex_iff split: if_splits)
  have a: "(\<forall>a \<in> set (bAssets b). nameRegex (asModule a) \<and> length (asData a) \<le> 18) \<and>
    sorted_wrt (\<lambda>a c. nameLess (asModule a) (asModule c)) (bAssets b)"
  proof (cases "bAssets b")
    case (Cons x xs)
    then have l: "validateAssetsLoop True (assetSchemaValid cv) x 0 (x # xs) = Inr ()" using v(3) by (simp add: validateAssets_def)
    then have "validateAssetsLoop True (assetSchemaValid cv) x 1 xs = Inr ()" by (auto split: if_splits)
    with validateAssetsLoop_sorted[of True _ x 1 xs] validateAssetsLoop_each[OF l] Cons show ?thesis
      by (simp add: MAX_ASSET_DATA_SIZE_BYTES_def)
  qed simp
  show ?thesis using v h t a by blast
qed

definition exValidator :: chainValidator where
  "exValidator = \<lparr>headerSchemaValid = (\<lambda>_. True), txSchemaValid = (\<lambda>_. True), assetSchemaValid = (\<lambda>_. True)\<rparr>"

definition exValidBlock :: block where
  "exValidBlock = \<lparr>bHeader = exHeader\<lparr>hSignature := Some (replicate 64 1), hTransactionRoot := Some [], hAssetRoot := Some [0, 10, 6, 114, 97, 110, 100, 111, 109, 18, 2, 1, 2]\<rparr>,
     bTransactions = [], bAssets = [\<lparr>asModule = ''random'', asData = [1, 2]\<rparr>]\<rparr>"

theorem validated_block_witness:
  "blockValidate asciiLib id exValidator exValidBlock = Inr () \<and> (\<exists>s. hSignature (bHeader exValidBlock) = Some s \<and> length s = 64)"
proof -
  have "blockValidate asciiLib id exValidator exValidBlock = Inr ()" by code_simp
  with validated_block[OF this] show ?thesis by blast
qed

end
