(* ===== verification/BFT.thy ===== *)
theory BFT
  imports Block
begin

text \<open>
  The BFT component of the consensus engine (\<open>framework/src/engine/bft\<close>): vote counting
  (\<open>bft_votes.ts\<close>), the parameters per height and their cache (\<open>bft_params.ts\<close>), the
  comparison of headers (\<open>utils.ts\<close>), the method and the module (\<open>method.ts\<close>,
  \<open>module.ts\<close>).

  The state are the two substores as the state store presents them: the votes under the
  empty key and the parameters under the big-endian heights, both encoded with their
  schemas. Objects that the code mutates in place are passed and returned.
\<close>

section \<open>Data\<close>

record blockBFTInfo =
  biHeight :: int
  biGeneratorAddress :: bytes
  biMaxHeightGenerated :: int
  biMaxHeightPrevoted :: int
  biPrevoteWeight :: int
  biPrecommitWeight :: int

record voteInfo =
  viAddress :: bytes
  viMinActiveHeight :: int
  viLargestHeightPrecommit :: int

record bftVotes =
  maxHeightPrevoted :: int
  maxHeightPrecommitted :: int
  maxHeightCertified :: int
  blockBFTInfos :: "blockBFTInfo list"
  activeValidatorsVoteInfo :: "voteInfo list"

record validator =
  vAddress :: bytes
  vBftWeight :: int
  vGeneratorKey :: bytes
  vBlsKey :: bytes

record bftParams =
  prevoteThreshold :: int
  precommitThreshold :: int
  certificateThreshold :: int
  validators :: "validator list"
  validatorsHash :: bytes

record bftStores =
  votesStore :: "bytes kv"
  paramsStore :: "bytes kv"

section \<open>Schemas\<close>

definition blockBFTInfoSchema :: "schemaProp list" where
  "blockBFTInfoSchema = [PScalar 1 UInt32T, PScalar 2 BytesT, PScalar 3 UInt32T, PScalar 4 UInt32T, PScalar 5 UInt64T, PScalar 6 UInt64T]"

definition voteInfoSchema :: "schemaProp list" where
  "voteInfoSchema = [PScalar 1 BytesT, PScalar 2 UInt32T, PScalar 3 UInt32T]"

definition bftVotesSchema :: "schemaProp list" where
  "bftVotesSchema = [PScalar 1 UInt32T, PScalar 2 UInt32T, PScalar 3 UInt32T, PArrayObj 4 blockBFTInfoSchema, PArrayObj 5 voteInfoSchema]"

definition validatorSchema :: "schemaProp list" where
  "validatorSchema = [PScalar 1 BytesT, PScalar 2 UInt64T, PScalar 3 BytesT, PScalar 4 BytesT]"

definition bftParametersSchema :: "schemaProp list" where
  "bftParametersSchema = [PScalar 1 UInt64T, PScalar 2 UInt64T, PScalar 3 UInt64T, PArrayObj 4 validatorSchema, PScalar 5 BytesT]"

definition validatorsHashInputSchema :: "schemaProp list" where
  "validatorsHashInputSchema = [PArrayObj 1 [PScalar 1 BytesT, PScalar 2 UInt64T], PScalar 2 UInt64T]"

definition infoVals :: "blockBFTInfo \<Rightarrow> val" where
  "infoVals b = VObj [Some (VInt (biHeight b)), Some (VBytes (biGeneratorAddress b)), Some (VInt (biMaxHeightGenerated b)),
     Some (VInt (biMaxHeightPrevoted b)), Some (VInt (biPrevoteWeight b)), Some (VInt (biPrecommitWeight b))]"

definition valObject :: "val \<Rightarrow> val option list" where
  "valObject v = (case v of VObj ps \<Rightarrow> ps | _ \<Rightarrow> [])"

definition infoOf :: "val \<Rightarrow> blockBFTInfo" where
  "infoOf v = (let ps = valObject v in \<lparr>biHeight = fieldInt ps 0, biGeneratorAddress = fieldBytes ps 1, biMaxHeightGenerated = fieldInt ps 2,
     biMaxHeightPrevoted = fieldInt ps 3, biPrevoteWeight = fieldInt ps 4, biPrecommitWeight = fieldInt ps 5\<rparr>)"

definition voteInfoVals :: "voteInfo \<Rightarrow> val" where
  "voteInfoVals v = VObj [Some (VBytes (viAddress v)), Some (VInt (viMinActiveHeight v)), Some (VInt (viLargestHeightPrecommit v))]"

definition voteInfoOf :: "val \<Rightarrow> voteInfo" where
  "voteInfoOf v = (let ps = valObject v in \<lparr>viAddress = fieldBytes ps 0, viMinActiveHeight = fieldInt ps 1, viLargestHeightPrecommit = fieldInt ps 2\<rparr>)"

definition votesVals :: "bftVotes \<Rightarrow> val option list" where
  "votesVals v = [Some (VInt (maxHeightPrevoted v)), Some (VInt (maxHeightPrecommitted v)), Some (VInt (maxHeightCertified v)),
     Some (VArr (map infoVals (blockBFTInfos v))), Some (VArr (map voteInfoVals (activeValidatorsVoteInfo v)))]"

definition votesOf :: "val option list \<Rightarrow> bftVotes" where
  "votesOf ps = \<lparr>maxHeightPrevoted = fieldInt ps 0, maxHeightPrecommitted = fieldInt ps 1, maxHeightCertified = fieldInt ps 2,
     blockBFTInfos = map infoOf (fieldArray ps 3), activeValidatorsVoteInfo = map voteInfoOf (fieldArray ps 4)\<rparr>"

definition votesSchema :: "jsLib \<Rightarrow> bftVotes storeSchema" where
  "votesSchema lib = \<lparr>enc = (\<lambda>v. encode lib bftVotesSchema (votesVals v)),
     dec = (\<lambda>bs. rbind (decode lib bftVotesSchema bs) (\<lambda>ps. Inr (votesOf ps)))\<rparr>"

definition validatorVals :: "validator \<Rightarrow> val" where
  "validatorVals v = VObj [Some (VBytes (vAddress v)), Some (VInt (vBftWeight v)), Some (VBytes (vGeneratorKey v)), Some (VBytes (vBlsKey v))]"

definition validatorOf :: "val \<Rightarrow> validator" where
  "validatorOf v = (let ps = valObject v in \<lparr>vAddress = fieldBytes ps 0, vBftWeight = fieldInt ps 1, vGeneratorKey = fieldBytes ps 2, vBlsKey = fieldBytes ps 3\<rparr>)"

definition paramsVals :: "bftParams \<Rightarrow> val option list" where
  "paramsVals p = [Some (VInt (prevoteThreshold p)), Some (VInt (precommitThreshold p)), Some (VInt (certificateThreshold p)),
     Some (VArr (map validatorVals (validators p))), Some (VBytes (validatorsHash p))]"

definition paramsOf :: "val option list \<Rightarrow> bftParams" where
  "paramsOf ps = \<lparr>prevoteThreshold = fieldInt ps 0, precommitThreshold = fieldInt ps 1, certificateThreshold = fieldInt ps 2,
     validators = map validatorOf (fieldArray ps 3), validatorsHash = fieldBytes ps 4\<rparr>"

definition paramsSchema :: "jsLib \<Rightarrow> bftParams storeSchema" where
  "paramsSchema lib = \<lparr>enc = (\<lambda>p. encode lib bftParametersSchema (paramsVals p)),
     dec = (\<lambda>bs. rbind (decode lib bftParametersSchema bs) (\<lambda>ps. Inr (paramsOf ps)))\<rparr>"

definition EMPTY_KEY :: bytes where "EMPTY_KEY = []"
definition BLS_PUBLIC_KEY_LENGTH :: nat where "BLS_PUBLIC_KEY_LENGTH = 48"
definition EMPTY_BLS_KEY :: bytes where "EMPTY_BLS_KEY = replicate BLS_PUBLIC_KEY_LENGTH 0"

section \<open>Comparison of headers\<close>

record bftHeader =
  bhHeight :: int
  bhGeneratorAddress :: bytes
  bhMaxHeightGenerated :: int
  bhMaxHeightPrevoted :: int

definition bftHeaderOf :: "blockHeader \<Rightarrow> bftHeader" where
  "bftHeaderOf h = \<lparr>bhHeight = hHeight h, bhGeneratorAddress = hGeneratorAddress h,
     bhMaxHeightGenerated = hMaxHeightGenerated h, bhMaxHeightPrevoted = hMaxHeightPrevoted h\<rparr>"

definition bftHeaderOfInfo :: "blockBFTInfo \<Rightarrow> bftHeader" where
  "bftHeaderOfInfo b = \<lparr>bhHeight = biHeight b, bhGeneratorAddress = biGeneratorAddress b,
     bhMaxHeightGenerated = biMaxHeightGenerated b, bhMaxHeightPrevoted = biMaxHeightPrevoted b\<rparr>"

definition areDistinctHeadersContradicting :: "bftHeader \<Rightarrow> bftHeader \<Rightarrow> bool" where
  "areDistinctHeadersContradicting b1 b2 =
     (let higherMaxHeightGenerated = bhMaxHeightGenerated b1 > bhMaxHeightGenerated b2;
          sameMaxHeightGenerated = (bhMaxHeightGenerated b1 = bhMaxHeightGenerated b2);
          higherMaxHeightPrevoted = bhMaxHeightPrevoted b1 > bhMaxHeightPrevoted b2;
          sameMaxHeightPrevoted = (bhMaxHeightPrevoted b1 = bhMaxHeightPrevoted b2);
          higherHeight = bhHeight b1 > bhHeight b2;
          (earlierBlock, laterBlock) =
            (if higherMaxHeightGenerated \<or> (sameMaxHeightGenerated \<and> higherMaxHeightPrevoted) \<or>
                (sameMaxHeightGenerated \<and> sameMaxHeightPrevoted \<and> higherHeight)
             then (b2, b1) else (b1, b2)) in
      if bhGeneratorAddress earlierBlock \<noteq> bhGeneratorAddress laterBlock then False
      else if bhMaxHeightPrevoted earlierBlock = bhMaxHeightPrevoted laterBlock \<and> bhHeight earlierBlock \<ge> bhHeight laterBlock then True
      else if bhHeight earlierBlock > bhMaxHeightGenerated laterBlock then True
      else if bhMaxHeightPrevoted earlierBlock > bhMaxHeightPrevoted laterBlock then True
      else False)"

definition getBlockBFTProperties :: "blockHeader \<Rightarrow> blockBFTInfo" where
  "getBlockBFTProperties h = \<lparr>biHeight = hHeight h, biGeneratorAddress = hGeneratorAddress h, biMaxHeightGenerated = hMaxHeightGenerated h,
     biMaxHeightPrevoted = hMaxHeightPrevoted h, biPrevoteWeight = 0, biPrecommitWeight = 0\<rparr>"

definition sortValidatorsByAddress :: "voteInfo list \<Rightarrow> voteInfo list" where
  "sortValidatorsByAddress = sortBy (\<lambda>a b. bufferCompare (viAddress a) (viAddress b))"

definition sortValidatorsByBLSKey :: "(bytes \<times> int) list \<Rightarrow> (bytes \<times> int) list" where
  "sortValidatorsByBLSKey = sortBy (\<lambda>a b. bufferCompare (fst a) (fst b))"

definition computeValidatorsHash :: "jsLib \<Rightarrow> (bytes \<Rightarrow> bytes) \<Rightarrow> (bytes \<times> int) list \<Rightarrow> int \<Rightarrow> err + bytes" where
  "computeValidatorsHash lib hash activeValidators threshold =
     rbind (encode lib validatorsHashInputSchema
        [Some (VArr (map (\<lambda>(k, w). VObj [Some (VBytes k), Some (VInt w)]) activeValidators)), Some (VInt threshold)])
       (\<lambda>bs. Inr (hash bs))"

section \<open>Parameters\<close>

text \<open>\<open>iterate\<close> with \<open>limit: 1\<close> and \<open>reverse\<close>: the last entry of the range, if any.\<close>

definition getBFTParameters :: "jsLib \<Rightarrow> int \<Rightarrow> ('a bftStores_scheme, bftParams) m" where
  "getBFTParameters lib height =
     bind (liftE (uint32BE 0)) (\<lambda>start.
     bind (liftE (uint32BE height)) (\<lambda>end'.
     bind (gets (\<lambda>s. take 1 (rev (kvrange start end' (paramsStore s))))) (\<lambda>results.
     if length results \<noteq> 1 then throw (Error ''BFTParameterNotFoundError'')
     else liftE (dec (paramsSchema lib) (snd (hd results))))))"

definition deleteBFTParameters :: "int \<Rightarrow> ('a bftStores_scheme, unit) m" where
  "deleteBFTParameters height =
     bind (liftE (uint32BE 0)) (\<lambda>start.
     bind (liftE (uint32BE height)) (\<lambda>end'.
     bind (gets (\<lambda>s. kvrange start end' (paramsStore s))) (\<lambda>results.
     if length results \<le> 1 then ret ()
     else forEach (butlast results) (\<lambda>e. storeDel paramsStore_update (fst e)))))"

type_synonym paramsCache = "int \<Rightarrow> bftParams option"

definition readUInt32BE :: "bytes \<Rightarrow> int" where
  "readUInt32BE bs = foldl (\<lambda>acc b. 256 * acc + uint b) 0 (take 4 bs)"

primrec cacheLoop :: "(bytes \<times> bftParams) list \<Rightarrow> int list \<Rightarrow> paramsCache \<Rightarrow> err + paramsCache" where
  "cacheLoop results [] cache = Inr cache"
| "cacheLoop results (height # hs) cache =
     (case find (\<lambda>r. readUInt32BE (fst r) \<le> height) results of
        None \<Rightarrow> Inl (Error ''Invalid state. BFT parameters should always exist in cache range'')
      | Some paramKV \<Rightarrow> cacheLoop results hs (cache(height \<mapsto> snd paramKV)))"

definition cacheParameters :: "jsLib \<Rightarrow> int \<Rightarrow> int \<Rightarrow> paramsCache \<Rightarrow> ('a bftStores_scheme, paramsCache) m" where
  "cacheParameters lib from' to cache =
     bind (liftE (uint32BE from')) (\<lambda>start.
     bind (liftE (uint32BE to)) (\<lambda>end'.
     bind (gets (\<lambda>s. decodeAll (paramsSchema lib) (rev (kvrange start end' (paramsStore s))))) (\<lambda>r.
     bind (liftE r) (\<lambda>results.
     bind (if from' > 0
           then bind (getBFTParameters lib from') (\<lambda>nextLowest. ret (results @ [(start, nextLowest)]))
           else ret results) (\<lambda>results.
     liftE (cacheLoop results [from'..to] cache))))))"

definition getParameters :: "jsLib \<Rightarrow> paramsCache \<Rightarrow> int \<Rightarrow> ('a bftStores_scheme, bftParams \<times> paramsCache) m" where
  "getParameters lib cache height =
     (case cache height of
        Some p \<Rightarrow> ret (p, cache)
      | None \<Rightarrow> bind (getBFTParameters lib height) (\<lambda>p. ret (p, cache(height \<mapsto> p))))"

section \<open>Votes\<close>

definition insertBlockBFTInfo :: "bftVotes \<Rightarrow> blockHeader \<Rightarrow> nat \<Rightarrow> bftVotes" where
  "insertBlockBFTInfo v header maxLength =
     v\<lparr>blockBFTInfos := take maxLength (getBlockBFTProperties header # blockBFTInfos v)\<rparr>"

text \<open>
  The loop of \<open>getHeightNotPrevoted\<close>. The index \<open>currentHeight - heightPreviousBlock\<close> grows in
  every round; reading a negative index gives \<open>undefined\<close> and throws.
\<close>

function heightNotPrevotedLoop :: "blockBFTInfo list \<Rightarrow> int \<Rightarrow> bytes \<Rightarrow> int \<Rightarrow> err + int" where
  "heightNotPrevotedLoop infos currentHeight generator heightPreviousBlock =
     (let i = currentHeight - heightPreviousBlock in
      if i < int (length infos) then
        (if i < 0 then Inl (Error ''TypeError'')
         else let b = infos ! nat i in
          if biGeneratorAddress b \<noteq> generator \<or> biMaxHeightGenerated b \<ge> heightPreviousBlock then Inr heightPreviousBlock
          else heightNotPrevotedLoop infos currentHeight generator (biMaxHeightGenerated b))
      else Inr (biHeight (last infos) - 1))"
  by pat_completeness auto
termination
  by (relation "measure (\<lambda>(infos, cur, g, h). nat (int (length infos) - (cur - h)))") auto

declare heightNotPrevotedLoop.simps [simp del]

definition getHeightNotPrevoted :: "bftVotes \<Rightarrow> err + int" where
  "getHeightNotPrevoted v =
     (case blockBFTInfos v of
        [] \<Rightarrow> Inl (Error ''TypeError'')
      | b # _ \<Rightarrow> heightNotPrevotedLoop (blockBFTInfos v) (biHeight b) (biGeneratorAddress b) (biMaxHeightGenerated b))"

definition invalidState :: err where
  "invalidState = Error ''Invalid state. Validator must be in the BFT parameters''"

text \<open>The first loop of \<open>updatePrevotesPrecommits\<close>: precommits.\<close>

primrec precommitLoop :: "jsLib \<Rightarrow> bytes \<Rightarrow> int \<Rightarrow> blockBFTInfo list \<Rightarrow> voteInfo list \<Rightarrow> bool \<Rightarrow> paramsCache \<Rightarrow>
    ('a bftStores_scheme, blockBFTInfo list \<times> voteInfo list \<times> paramsCache) m" where
  "precommitLoop lib gen minHeight [] active hasPrecommitted cache = ret ([], active, cache)"
| "precommitLoop lib gen minHeight (b # bs) active hasPrecommitted cache =
     (if biHeight b < minHeight then ret (b # bs, active, cache)
      else bind (getParameters lib cache (biHeight b)) (\<lambda>(params, cache).
        if biPrevoteWeight b \<ge> prevoteThreshold params then
          (case find (\<lambda>v. vAddress v = gen) (validators params) of
             None \<Rightarrow> throw invalidState
           | Some bftValidator \<Rightarrow>
               (let b' = b\<lparr>biPrecommitWeight := biPrecommitWeight b + vBftWeight bftValidator\<rparr>;
                    active' = (if hasPrecommitted then active
                      else case findIndex (\<lambda>v. viAddress v = gen) active of
                          None \<Rightarrow> active
                        | Some i \<Rightarrow> active[i := (active ! i)\<lparr>viLargestHeightPrecommit := biHeight b\<rparr>]) in
                bind (precommitLoop lib gen minHeight bs active' True cache) (\<lambda>(bs', active'', cache).
                ret (b' # bs', active'', cache))))
        else bind (precommitLoop lib gen minHeight bs active hasPrecommitted cache) (\<lambda>(bs', active'', cache).
             ret (b # bs', active'', cache))))"

text \<open>The second loop: prevotes.\<close>

primrec prevoteLoop :: "jsLib \<Rightarrow> bytes \<Rightarrow> int \<Rightarrow> blockBFTInfo list \<Rightarrow> paramsCache \<Rightarrow>
    ('a bftStores_scheme, blockBFTInfo list \<times> paramsCache) m" where
  "prevoteLoop lib gen minHeight [] cache = ret ([], cache)"
| "prevoteLoop lib gen minHeight (b # bs) cache =
     (if biHeight b < minHeight then ret (b # bs, cache)
      else bind (getParameters lib cache (biHeight b)) (\<lambda>(params, cache).
        case find (\<lambda>v. vAddress v = gen) (validators params) of
          None \<Rightarrow> throw invalidState
        | Some bftValidator \<Rightarrow>
            bind (prevoteLoop lib gen minHeight bs cache) (\<lambda>(bs', cache).
            ret (b\<lparr>biPrevoteWeight := biPrevoteWeight b + vBftWeight bftValidator\<rparr> # bs', cache))))"

definition updatePrevotesPrecommits :: "jsLib \<Rightarrow> bftVotes \<Rightarrow> paramsCache \<Rightarrow> ('a bftStores_scheme, bftVotes \<times> paramsCache) m" where
  "updatePrevotesPrecommits lib v cache =
     (case blockBFTInfos v of
        [] \<Rightarrow> ret (v, cache)
      | newBlock # _ \<Rightarrow>
          if biMaxHeightGenerated newBlock \<ge> biHeight newBlock then ret (v, cache)
          else (case find (\<lambda>a. viAddress a = biGeneratorAddress newBlock) (activeValidatorsVoteInfo v) of
             None \<Rightarrow> ret (v, cache)
           | Some validatorInfo \<Rightarrow>
               bind (liftE (getHeightNotPrevoted v)) (\<lambda>heightNotPrevoted.
               let minPrecommitHeight = max (max (viMinActiveHeight validatorInfo) (heightNotPrevoted + 1)) (viLargestHeightPrecommit validatorInfo + 1) in
               bind (precommitLoop lib (biGeneratorAddress newBlock) minPrecommitHeight (blockBFTInfos v) (activeValidatorsVoteInfo v) False cache)
                 (\<lambda>(infos, active, cache).
               let minPrevoteHeight = max (biMaxHeightGenerated newBlock + 1) (viMinActiveHeight validatorInfo) in
               bind (prevoteLoop lib (biGeneratorAddress newBlock) minPrevoteHeight infos cache) (\<lambda>(infos, cache).
               ret (v\<lparr>blockBFTInfos := infos, activeValidatorsVoteInfo := active\<rparr>, cache))))))"

text \<open>The first block, from the top, whose weight reaches the threshold.\<close>

primrec firstReaching :: "jsLib \<Rightarrow> (blockBFTInfo \<Rightarrow> int) \<Rightarrow> (bftParams \<Rightarrow> int) \<Rightarrow> blockBFTInfo list \<Rightarrow> paramsCache \<Rightarrow>
    ('a bftStores_scheme, int option \<times> paramsCache) m" where
  "firstReaching lib wt threshold [] cache = ret (None, cache)"
| "firstReaching lib wt threshold (b # bs) cache =
     bind (getParameters lib cache (biHeight b)) (\<lambda>(params, cache).
     if wt b \<ge> threshold params then ret (Some (biHeight b), cache)
     else firstReaching lib wt threshold bs cache)"

definition updateMaxHeightPrevoted :: "jsLib \<Rightarrow> bftVotes \<Rightarrow> paramsCache \<Rightarrow> ('a bftStores_scheme, bftVotes \<times> paramsCache) m" where
  "updateMaxHeightPrevoted lib v cache =
     bind (firstReaching lib biPrevoteWeight prevoteThreshold (blockBFTInfos v) cache) (\<lambda>(r, cache).
     ret (case r of None \<Rightarrow> v | Some h \<Rightarrow> v\<lparr>maxHeightPrevoted := h\<rparr>, cache))"

definition updateMaxHeightPrecommitted :: "jsLib \<Rightarrow> bftVotes \<Rightarrow> paramsCache \<Rightarrow> ('a bftStores_scheme, bftVotes \<times> paramsCache) m" where
  "updateMaxHeightPrecommitted lib v cache =
     bind (firstReaching lib biPrecommitWeight precommitThreshold (blockBFTInfos v) cache) (\<lambda>(r, cache).
     ret (case r of None \<Rightarrow> v | Some h \<Rightarrow> v\<lparr>maxHeightPrecommitted := h\<rparr>, cache))"

definition updateMaxHeightCertified :: "bftVotes \<Rightarrow> blockHeader \<Rightarrow> bftVotes" where
  "updateMaxHeightCertified v header =
     (if acAggregationBits (hAggregateCommit header) = [] \<and> acCertificateSignature (hAggregateCommit header) = [] then v
      else v\<lparr>maxHeightCertified := acHeight (hAggregateCommit header)\<rparr>)"

section \<open>Module\<close>

record bftConfig =
  bftLib :: jsLib
  bftHash :: "bytes \<Rightarrow> bytes"
  batchSize :: nat
  blockTime :: int

definition maxLengthBlockBFTInfos :: "bftConfig \<Rightarrow> nat" where
  "maxLengthBlockBFTInfos cfg = 3 * batchSize cfg"

definition getVotes :: "bftConfig \<Rightarrow> ('a bftStores_scheme, bftVotes) m" where
  "getVotes cfg = storeGet (votesSchema (bftLib cfg)) votesStore EMPTY_KEY"

definition setVotes :: "bftConfig \<Rightarrow> bftVotes \<Rightarrow> ('a bftStores_scheme, unit) m" where
  "setVotes cfg = storeSet (votesSchema (bftLib cfg)) votesStore_update EMPTY_KEY"

definition bftInitGenesisState :: "bftConfig \<Rightarrow> blockHeader \<Rightarrow> ('a bftStores_scheme, unit) m" where
  "bftInitGenesisState cfg header =
     setVotes cfg \<lparr>maxHeightPrevoted = hHeight header, maxHeightPrecommitted = hHeight header, maxHeightCertified = hHeight header,
       blockBFTInfos = [], activeValidatorsVoteInfo = []\<rparr>"

text \<open>With batch size 0 the list of block infos stays empty and reading its last element throws.\<close>

definition bftBeforeTransactionsExecute :: "bftConfig \<Rightarrow> blockHeader \<Rightarrow> int \<Rightarrow> ('a bftStores_scheme, unit) m" where
  "bftBeforeTransactionsExecute cfg header maxRemovalHeight =
     bind (getVotes cfg) (\<lambda>v.
     let v = insertBlockBFTInfo v header (maxLengthBlockBFTInfos cfg) in
     if blockBFTInfos v = [] then throw (Error ''TypeError'')
     else
     bind (cacheParameters (bftLib cfg) (biHeight (last (blockBFTInfos v))) (biHeight (hd (blockBFTInfos v))) Map.empty) (\<lambda>cache.
     bind (updatePrevotesPrecommits (bftLib cfg) v cache) (\<lambda>(v, cache).
     bind (updateMaxHeightPrevoted (bftLib cfg) v cache) (\<lambda>(v, cache).
     bind (updateMaxHeightPrecommitted (bftLib cfg) v cache) (\<lambda>(v, cache).
     let v = updateMaxHeightCertified v header in
     andThen (setVotes cfg v)
       (deleteBFTParameters (min (biHeight (last (blockBFTInfos v))) maxRemovalHeight)))))))"

section \<open>Method\<close>

definition areHeadersContradicting :: "bytes \<Rightarrow> bftHeader \<Rightarrow> bytes \<Rightarrow> bftHeader \<Rightarrow> bool" where
  "areHeadersContradicting id1 h1 id2 h2 = (if id1 = id2 then False else areDistinctHeadersContradicting h1 h2)"

definition contradictsInfos :: "blockBFTInfo list \<Rightarrow> blockHeader \<Rightarrow> bool" where
  "contradictsInfos infos header =
     (case find (\<lambda>b. biGeneratorAddress b = hGeneratorAddress header) infos of
        None \<Rightarrow> False
      | Some b \<Rightarrow> areDistinctHeadersContradicting (bftHeaderOfInfo b) (bftHeaderOf header))"

definition isHeaderContradictingChain :: "bftConfig \<Rightarrow> blockHeader \<Rightarrow> ('a bftStores_scheme, bool) m" where
  "isHeaderContradictingChain cfg header =
     bind (getVotes cfg) (\<lambda>v. ret (contradictsInfos (blockBFTInfos v) header))"

definition existBFTParameters :: "int \<Rightarrow> ('a bftStores_scheme, bool) m" where
  "existBFTParameters height = bind (liftE (uint32BE height)) (storeHas paramsStore)"

definition getBFTParametersActiveValidators :: "bftConfig \<Rightarrow> int \<Rightarrow> ('a bftStores_scheme, bftParams) m" where
  "getBFTParametersActiveValidators cfg height =
     bind (getBFTParameters (bftLib cfg) height) (\<lambda>p. ret (p\<lparr>validators := filter (\<lambda>v. vBftWeight v > 0) (validators p)\<rparr>))"

record bftHeights =
  bhMaxPrevoted :: int
  bhMaxPrecommitted :: int
  bhMaxCertified :: int

definition getBFTHeights :: "bftConfig \<Rightarrow> ('a bftStores_scheme, bftHeights) m" where
  "getBFTHeights cfg = bind (getVotes cfg) (\<lambda>v.
     ret \<lparr>bhMaxPrevoted = maxHeightPrevoted v, bhMaxPrecommitted = maxHeightPrecommitted v, bhMaxCertified = maxHeightCertified v\<rparr>)"

definition impliesMaximalPrevotes :: "bftConfig \<Rightarrow> blockHeader \<Rightarrow> ('a bftStores_scheme, bool) m" where
  "impliesMaximalPrevotes cfg header =
     bind (getVotes cfg) (\<lambda>v.
     case blockBFTInfos v of
       [] \<Rightarrow> ret (hHeight header > hMaxHeightGenerated header)
     | currentTip # _ \<Rightarrow>
         if biHeight currentTip + 1 \<noteq> hHeight header then throw (Error ''Input header is invalid.'')
         else if hMaxHeightGenerated header \<ge> hHeight header then ret False
         else let offset = biHeight currentTip - hMaxHeightGenerated header in
           if offset \<ge> int (length (blockBFTInfos v)) then ret True
           else if biGeneratorAddress (blockBFTInfos v ! nat offset) \<noteq> hGeneratorAddress header then ret False
           else ret True)"

definition getNextHeightBFTParameters :: "int \<Rightarrow> ('a bftStores_scheme, int) m" where
  "getNextHeightBFTParameters height =
     bind (liftE (uint32BE (height + 1))) (\<lambda>start.
     bind (liftE (uint32BE MAX_UINT32)) (\<lambda>end'.
     bind (gets (\<lambda>s. take 1 (kvrange start end' (paramsStore s)))) (\<lambda>results.
     if length results \<noteq> 1 then throw (Error ''BFTParameterNotFoundError'')
     else ret (readUInt32BE (fst (hd results))))))"

definition aggregateBFTWeight :: "validator list \<Rightarrow> int" where
  "aggregateBFTWeight vs = sum_list (map vBftWeight vs)"

text \<open>The checks of \<open>setBFTParameters\<close>. Division of bigints truncates; the weights are not negative here.\<close>

definition checkBFTParameters :: "bftConfig \<Rightarrow> int \<Rightarrow> int \<Rightarrow> validator list \<Rightarrow> err + unit" where
  "checkBFTParameters cfg precommitT certificateT vs =
     (let agg = aggregateBFTWeight vs in
      if length vs > batchSize cfg then Inl (Error ''Invalid validators size.'')
      else if \<not> distinct (map vAddress vs) then Inl (Error ''Provided validator addresses are not unique.'')
      else if \<not> distinct (filter (\<lambda>k. k \<noteq> EMPTY_BLS_KEY) (map vBlsKey vs)) then Inl (Error ''Provided validator BLS keys are not unique.'')
      else if list_ex (\<lambda>v. vBftWeight v < 0) vs then Inl (Error ''BFT Weight must be 0 or greater.'')
      else if agg div 3 + 1 > precommitT \<or> precommitT > agg then Inl (Error ''Invalid precommitThreshold input.'')
      else if agg div 3 + 1 > certificateT \<or> certificateT > agg then Inl (Error ''Invalid certificateThreshold input.'')
      else Inr ())"

definition nextActiveValidators :: "voteInfo list \<Rightarrow> int \<Rightarrow> validator list \<Rightarrow> voteInfo list" where
  "nextActiveValidators active nextHeight vs =
     sortValidatorsByAddress (map (\<lambda>v. case find (\<lambda>a. viAddress a = vAddress v) active of
        Some a \<Rightarrow> a
      | None \<Rightarrow> \<lparr>viAddress = vAddress v, viMinActiveHeight = nextHeight, viLargestHeightPrecommit = nextHeight - 1\<rparr>) vs)"

definition nextHeightOf :: "bftVotes \<Rightarrow> int" where
  "nextHeightOf v = (case blockBFTInfos v of b # _ \<Rightarrow> biHeight b | [] \<Rightarrow> maxHeightPrevoted v) + 1"

definition setBFTParameters :: "bftConfig \<Rightarrow> int \<Rightarrow> int \<Rightarrow> validator list \<Rightarrow> ('a bftStores_scheme, unit) m" where
  "setBFTParameters cfg precommitT certificateT vs =
     andThen (liftE (checkBFTParameters cfg precommitT certificateT vs))
     (bind (liftE (computeValidatorsHash (bftLib cfg) (bftHash cfg)
         (sortValidatorsByBLSKey (map (\<lambda>v. (vBlsKey v, vBftWeight v)) (filter (\<lambda>v. vBftWeight v > 0) vs))) certificateT)) (\<lambda>vh.
      bind (getVotes cfg) (\<lambda>v.
      let nextHeight = nextHeightOf v in
      bind (liftE (uint32BE nextHeight)) (\<lambda>nextHeightBytes.
      andThen (storeSet (paramsSchema (bftLib cfg)) paramsStore_update nextHeightBytes
          \<lparr>prevoteThreshold = 2 * aggregateBFTWeight vs div 3 + 1, precommitThreshold = precommitT, certificateThreshold = certificateT,
           validators = vs, validatorsHash = vh\<rparr>)
        (setVotes cfg (v\<lparr>activeValidatorsVoteInfo := nextActiveValidators (activeValidatorsVoteInfo v) nextHeight vs\<rparr>))))))"

definition getSlotNumber :: "bftConfig \<Rightarrow> int \<Rightarrow> int" where
  "getSlotNumber cfg timestamp = timestamp div blockTime cfg"

definition getSlotTime :: "bftConfig \<Rightarrow> int \<Rightarrow> int" where
  "getSlotTime cfg slot = slot * blockTime cfg"

definition isWithinTimeslot :: "bftConfig \<Rightarrow> int \<Rightarrow> int \<Rightarrow> bool" where
  "isWithinTimeslot cfg slot timestamp = (getSlotNumber cfg timestamp = slot)"

text \<open>Without validators the index is \<open>NaN\<close> and the generator \<open>undefined\<close>.\<close>

definition getGeneratorAtTimestamp :: "bftConfig \<Rightarrow> int \<Rightarrow> int \<Rightarrow> ('a bftStores_scheme, validator option) m" where
  "getGeneratorAtTimestamp cfg height timestamp =
     bind (getBFTParameters (bftLib cfg) height) (\<lambda>p.
     let vs = validators p in
     ret (if vs = [] then None else Some (vs ! nat (getSlotNumber cfg timestamp mod int (length vs)))))"

end
