(* ===== verification/BFTProps.thy ===== *)
theory BFTProps
  imports BFT SchemaLaws
begin

text \<open>
  Correctness of the BFT component: lookup and cache of the parameters, every validator
  is counted once per block, the finality heights only grow, quorums intersect.
\<close>

section \<open>Stored values\<close>

definition nonNegInfo :: "blockBFTInfo \<Rightarrow> bool" where
  "nonNegInfo b = list_all (\<lambda>n. 0 \<le> n) [biHeight b, biMaxHeightGenerated b, biMaxHeightPrevoted b, biPrevoteWeight b, biPrecommitWeight b]"

definition votesValid :: "bftVotes \<Rightarrow> bool" where
  "votesValid v = (0 \<le> maxHeightPrevoted v \<and> 0 \<le> maxHeightPrecommitted v \<and> 0 \<le> maxHeightCertified v \<and>
     list_all nonNegInfo (blockBFTInfos v) \<and>
     list_all (\<lambda>a. 0 \<le> viMinActiveHeight a \<and> 0 \<le> viLargestHeightPrecommit a) (activeValidatorsVoteInfo v))"

definition paramsValid :: "bftParams \<Rightarrow> bool" where
  "paramsValid p = (0 \<le> prevoteThreshold p \<and> 0 \<le> precommitThreshold p \<and> 0 \<le> certificateThreshold p \<and>
     list_all (\<lambda>v. 0 \<le> vBftWeight v) (validators p))"

lemma infoOf_map [simp]: "map (infoOf \<circ> infoVals) bs = bs"
  by (induction bs) (auto simp: infoOf_def infoVals_def valObject_def field_defs Let_def)

lemma voteInfoOf_map [simp]: "map (voteInfoOf \<circ> voteInfoVals) bs = bs"
  by (induction bs) (auto simp: voteInfoOf_def voteInfoVals_def valObject_def field_defs Let_def)

lemma validatorOf_map [simp]: "map (validatorOf \<circ> validatorVals) bs = bs"
  by (induction bs) (auto simp: validatorOf_def validatorVals_def valObject_def field_defs Let_def)

lemma votes_low: "votesValid v \<Longrightarrow> lowConf lib bftVotesSchema (votesVals v)"
  by (auto simp: bftVotesSchema_def votesVals_def votesValid_def list_all_iff nonNegInfo_def infoVals_def voteInfoVals_def
      blockBFTInfoSchema_def voteInfoSchema_def)

lemma params_low: "paramsValid p \<Longrightarrow> lowConf lib bftParametersSchema (paramsVals p)"
  by (auto simp: bftParametersSchema_def paramsVals_def paramsValid_def list_all_iff validatorVals_def validatorSchema_def)

interpretation votes_sch: store_schema "votesSchema lib" votesValid for lib
proof
  fix v bs
  assume "votesValid v" "enc (votesSchema lib) v = Inr bs"
  then have "decode lib bftVotesSchema bs = Inr (votesVals v)"
    by (intro encode_reads votes_low) (auto simp: schemaOk_def bftVotesSchema_def blockBFTInfoSchema_def voteInfoSchema_def votesSchema_def)
  then show "dec (votesSchema lib) bs = Inr v" by (simp add: votesSchema_def votesOf_def votesVals_def field_defs)
qed

interpretation params_sch: store_schema "paramsSchema lib" paramsValid for lib
proof
  fix p bs
  assume "paramsValid p" "enc (paramsSchema lib) p = Inr bs"
  then have "decode lib bftParametersSchema bs = Inr (paramsVals p)"
    by (intro encode_reads params_low) (auto simp: schemaOk_def bftParametersSchema_def validatorSchema_def paramsSchema_def)
  then show "dec (paramsSchema lib) bs = Inr p" by (simp add: paramsSchema_def paramsOf_def paramsVals_def field_defs)
qed

section \<open>Heights as keys\<close>

lemma uint32BE_Inr: "uint32BE a = Inr x \<longleftrightarrow> 0 \<le> a \<and> a \<le> MAX_UINT32 \<and>
    x = [word_of_int (a div 2 ^ 24), word_of_int (a div 2 ^ 16), word_of_int (a div 2 ^ 8), word_of_int a]"
  by (auto simp: uint32BE_def)

lemma uint_byte_conv: "uint (word_of_int n :: byte) = n mod 256"
  by (simp add: uint_word_of_int)

lemma readUInt32BE_uint32BE: "uint32BE a = Inr x \<Longrightarrow> readUInt32BE x = a"
proof -
  assume a: "uint32BE a = Inr x"
  then have b: "0 \<le> a" "a < 2 ^ 32" by (auto simp: uint32BE_Inr)
  have "a div 2 ^ 24 < 256" using b by simp
  then have d: "a div 2 ^ 24 mod 256 = a div 2 ^ 24" using b by (simp add: mod_pos_pos_trivial)
  have "readUInt32BE x = 256 * (256 * (256 * (a div 2 ^ 24) + a div 2 ^ 16 mod 256) + a div 2 ^ 8 mod 256) + a mod 256"
    using a d by (auto simp: uint32BE_Inr readUInt32BE_def uint_byte_conv)
  moreover have "a div 2 ^ 24 = a div 2 ^ 16 div 256" "a div 2 ^ 16 = a div 2 ^ 8 div 256" "a div 2 ^ 8 = a div 256"
    by (simp_all add: zdiv_zmult2_eq[symmetric])
  ultimately show ?thesis by (metis mult_div_mod_eq)
qed

lemma digit_order:
  fixes q q' r r' :: int
  assumes "0 \<le> r" "r < 256" "0 \<le> r'" "r' < 256"
  shows "256 * q + r \<le> 256 * q' + r' \<longleftrightarrow> q < q' \<or> q = q' \<and> r \<le> r'"
    "256 * q + r < 256 * q' + r' \<longleftrightarrow> q < q' \<or> q = q' \<and> r < r'"
    "256 * q + r = 256 * q' + r' \<longleftrightarrow> q = q' \<and> r = r'"
  using assms by (cases q q' rule: linorder_cases; linarith)+

lemma value4_le:
  fixes a b c d a' b' c' d' :: byte
  shows "[a, b, c, d] \<le> [a', b', c', d'] \<longleftrightarrow> readUInt32BE [a, b, c, d] \<le> readUInt32BE [a', b', c', d']"
proof -
  have u: "0 \<le> uint x" "uint x < 256" for x :: byte using uint_lt2p[of x] by simp_all
  have v: "readUInt32BE [w, x, y, z] = 256 * (256 * (256 * uint w + uint x) + uint y) + uint z" for w x y z
    by (simp add: readUInt32BE_def)
  show ?thesis unfolding v digit_order[OF u u] by (auto simp: word_less_def word_le_def word_uint_eq_iff)
qed

lemma uint32BE_le: "uint32BE a = Inr x \<Longrightarrow> uint32BE b = Inr y \<Longrightarrow> x \<le> y \<longleftrightarrow> a \<le> b"
proof -
  assume a: "uint32BE a = Inr x" "uint32BE b = Inr y"
  then obtain x1 x2 x3 x4 y1 y2 y3 y4 where "x = [x1, x2, x3, x4]" "y = [y1, y2, y3, y4]" unfolding uint32BE_Inr by blast
  then show ?thesis using value4_le readUInt32BE_uint32BE[OF a(1)] readUInt32BE_uint32BE[OF a(2)] by metis
qed

lemma uint32BE_0: "uint32BE 0 = Inr [0, 0, 0, 0]"
  by (simp add: uint32BE_def)

definition keysOk :: "bytes kv \<Rightarrow> bool" where
  "keysOk r = (kvok r \<and> (\<forall>e \<in> set r. \<exists>h. uint32BE h = Inr (fst e)))"

section \<open>Lookup of parameters\<close>

text \<open>The entry in force at a height: the one of the largest key up to it.\<close>

definition paramsAt :: "jsLib \<Rightarrow> bytes kv \<Rightarrow> int \<Rightarrow> bftParams option" where
  "paramsAt lib r h = (case uint32BE h of Inl _ \<Rightarrow> None | Inr e \<Rightarrow>
     (let f = kvrange [0, 0, 0, 0] e r in
      if f = [] then None else case dec (paramsSchema lib) (snd (last f)) of Inl _ \<Rightarrow> None | Inr p \<Rightarrow> Some p))"

lemma take1_rev: "take 1 (rev f) = (if f = [] then [] else [last f])"
  by (induction f rule: rev_induct) auto

lemma getBFTParameters_paramsAt:
  "getBFTParameters lib h s = (Inr p, s') \<longleftrightarrow> paramsAt lib (paramsStore s) h = Some p \<and> s' = s"
proof (cases "uint32BE h")
  case (Inr e)
  then show ?thesis
    by (simp add: getBFTParameters_def bind_def liftE_def gets_def uint32BE_0 paramsAt_def take1_rev[simplified] throw_def Let_def split: sum.splits)
      auto
qed (simp add: getBFTParameters_def bind_def liftE_def uint32BE_0 paramsAt_def)

lemma wp_getBFTParameters:
  assumes "\<And>p. paramsAt lib (paramsStore s) h = Some p \<Longrightarrow> Q p s"
  shows "wp (getBFTParameters lib h) Q (\<lambda>_ _. True) s"
  using assms getBFTParameters_paramsAt[of lib h s] by (auto simp: wp_def split: prod.splits sum.splits)

lemma last_filter: "f \<noteq> [] \<Longrightarrow> P (last f) \<Longrightarrow> last (filter P f) = last f \<and> filter P f \<noteq> []"
  by (induction f rule: rev_induct) auto

lemma kvok_last: "kvok r \<Longrightarrow> e \<in> set r \<Longrightarrow> fst e \<le> fst (last r)"
  by (induction r) (auto simp: kvok_Cons less_imp_le split: if_splits)

lemma kvok_filter: "kvok r \<Longrightarrow> kvok (filter P r)"
  by (induction r) (auto simp: kvok_Cons)

lemma kvok_butlast: "kvok r \<Longrightarrow> e \<in> set (butlast r) \<Longrightarrow> fst e < fst (last r)"
  by (induction r) (auto simp: kvok_Cons split: if_splits)

lemma wp_delete:
  "wp (forEach xs (\<lambda>e. storeDel paramsStore_update (fst e))) Q E s =
     Q () (s\<lparr>paramsStore := filter (\<lambda>e. fst e \<notin> fst ` set xs) (paramsStore s)\<rparr>)"
proof (induction xs arbitrary: s)
  case (Cons x xs)
  have "filter (\<lambda>e. fst e \<notin> fst ` set xs) (kvdel (fst x) (paramsStore s)) = filter (\<lambda>e. fst e \<notin> fst ` set (x # xs)) (paramsStore s)"
    by (auto simp: kvdel_def intro: filter_cong)
  then show ?case using Cons by (simp add: wp)
qed (simp add: wp)

definition pruned :: "bytes \<Rightarrow> bytes kv \<Rightarrow> bytes kv" where
  "pruned e r = filter (\<lambda>x. fst x \<notin> fst ` set (butlast (kvrange [0, 0, 0, 0] e r))) r"

lemma deleteBFTParameters_eq:
  "deleteBFTParameters h s = (case uint32BE h of Inl e \<Rightarrow> (Inl e, s) | Inr e \<Rightarrow> (Inr (), s\<lparr>paramsStore := pruned e (paramsStore s)\<rparr>))"
proof (cases "uint32BE h")
  case (Inr e)
  have "wp (deleteBFTParameters h) (\<lambda>_ t. t = s\<lparr>paramsStore := pruned e (paramsStore s)\<rparr>) (\<lambda>_ _. False) s"
  proof (cases "length (kvrange [0, 0, 0, 0] e (paramsStore s)) \<le> 1")
    case True
    then have "butlast (kvrange [0, 0, 0, 0] e (paramsStore s)) = []" by (cases "kvrange [0, 0, 0, 0] e (paramsStore s)") auto
    then show ?thesis using True Inr by (simp add: deleteBFTParameters_def wp uint32BE_0 pruned_def)
  next
    case False
    then show ?thesis using Inr by (simp add: deleteBFTParameters_def wp uint32BE_0 wp_delete pruned_def)
  qed
  then show ?thesis using Inr by (auto simp: wp_def split: prod.splits sum.splits)
qed (simp add: deleteBFTParameters_def bind_def liftE_def uint32BE_0)

lemma paramsAt_pruned:
  assumes "keysOk r" "uint32BE m = Inr e" "m \<le> h"
  shows "paramsAt lib (pruned e r) h = paramsAt lib r h"
proof (cases "uint32BE h")
  case (Inr eh)
  have le: "e \<le> eh" using uint32BE_le[OF assms(2) Inr] assms(3) by simp
  let ?z = "[0, 0, 0, 0] :: bytes" and ?P = "\<lambda>x. fst x \<notin> fst ` set (butlast (kvrange [0, 0, 0, 0] e r))"
  let ?A = "kvrange ?z e r" and ?f = "kvrange ?z eh r"
  have f: "kvrange ?z eh (pruned e r) = filter ?P ?f" by (auto simp: pruned_def kvrange_def intro: filter_cong)
  have ok: "kvok ?f" "kvok ?A" using assms(1) by (auto simp: keysOk_def kvrange_def kvok_filter)
  have sub: "set ?A \<subseteq> set ?f" using le by (auto simp: kvrange_def)
  have P: "?P (last ?f)" if "?f \<noteq> []"
  proof
    assume "fst (last ?f) \<in> fst ` set (butlast ?A)"
    then have "fst (last ?f) < fst (last ?A)" "?A \<noteq> []" using kvok_butlast[OF ok(2)] by auto
    moreover have "fst (last ?A) \<le> fst (last ?f)" using kvok_last[OF ok(1)] sub calculation(2) last_in_set by blast
    ultimately show False by simp
  qed
  show ?thesis
  proof (cases "?f = []")
    case True
    then show ?thesis using f Inr by (simp add: paramsAt_def)
  next
    case False
    then show ?thesis using f Inr last_filter[OF False, of ?P] P by (auto simp: paramsAt_def Let_def)
  qed
qed (simp add: paramsAt_def)

lemma keysOk_pruned: "keysOk r \<Longrightarrow> keysOk (pruned e r)"
  by (auto simp: keysOk_def pruned_def kvok_filter)

lemma filter_kvset: "\<not> P k \<Longrightarrow> filter (\<lambda>e. P (fst e)) (kvset k v r) = filter (\<lambda>e. P (fst e)) r"
  by (induction k v r rule: kvset.induct) auto

lemma set_kvset: "set (kvset k v r) \<subseteq> insert (k, v) (set r)"
  by (induction k v r rule: kvset.induct) auto

lemma keysOk_set: "keysOk r \<Longrightarrow> uint32BE n = Inr k \<Longrightarrow> keysOk (kvset k v r)"
  using set_kvset[of k v r] by (fastforce simp: keysOk_def)

lemma paramsAt_set_before:
  assumes "uint32BE n = Inr k" "h < n"
  shows "paramsAt lib (kvset k v r) h = paramsAt lib r h"
proof (cases "uint32BE h")
  case (Inr e)
  have "\<not> k \<le> e" using uint32BE_le[OF assms(1) Inr] assms(2) by simp
  then have "kvrange [0, 0, 0, 0] e (kvset k v r) = kvrange [0, 0, 0, 0] e r"
    unfolding kvrange_def by (intro filter_kvset) simp
  then show ?thesis using Inr by (simp add: paramsAt_def)
qed (simp add: paramsAt_def)

lemma paramsAt_set_at:
  assumes "keysOk r" "uint32BE n = Inr k" "paramsValid p" "enc (paramsSchema lib) p = Inr bs"
  shows "paramsAt lib (kvset k bs r) n = Some p"
proof -
  let ?f = "kvrange [0, 0, 0, 0] k (kvset k bs r)"
  have z: "[0, 0, 0, 0] \<le> k" using uint32BE_le[OF uint32BE_0 assms(2)] assms(2) by (auto simp: uint32BE_Inr)
  have ok: "kvok (kvset k bs r)" using assms(1) by (auto simp: keysOk_def)
  have "map_of (kvset k bs r) k = Some bs" by simp
  then have m: "(k, bs) \<in> set (kvset k bs r)" using kvget_member[OF ok] by blast
  then have f: "(k, bs) \<in> set ?f" using z by (simp add: kvrange_def)
  have "last ?f \<in> set ?f" using f by (metis empty_iff empty_set last_in_set)
  then have l: "fst (last ?f) \<le> k" "last ?f \<in> set (kvset k bs r)" by (auto simp: kvrange_def)
  moreover have "k \<le> fst (last ?f)" using kvok_last[OF _ f] ok by (simp add: kvrange_def kvok_filter)
  ultimately have k: "fst (last ?f) = k" by simp
  have "map_of (kvset k bs r) (fst (last ?f)) = Some (snd (last ?f))" using l(2) kvget_member[OF ok] by (metis prod.collapse)
  then have "snd (last ?f) = bs" using k by simp
  then show ?thesis using assms(2) f params_sch.dec_enc[OF assms(3,4)] by (auto simp: paramsAt_def Let_def)
qed

section \<open>The cache of parameters\<close>

lemma find_filter: "find P xs = (case filter P xs of [] \<Rightarrow> None | x # _ \<Rightarrow> Some x)"
  by (induction xs) auto

lemma find_rev: "find P (rev xs) = (if filter P xs = [] then None else Some (last (filter P xs)))"
  by (cases "filter P xs" rule: rev_cases) (simp_all add: find_filter rev_filter[symmetric] split: list.split)

lemma decodeAll_find:
  assumes "decodeAll sch es = Inr rs"
  shows "case find (\<lambda>e. f (fst e)) es of None \<Rightarrow> find (\<lambda>r. f (fst r)) rs = None
    | Some e \<Rightarrow> \<exists>v. dec sch (snd e) = Inr v \<and> find (\<lambda>r. f (fst r)) rs = Some (fst e, v)"
  using assms by (induction es arbitrary: rs) (auto simp: rbind_Inr split: option.splits if_splits)

lemma cacheLoop_spec:
  assumes "cacheLoop results hs c0 = Inr c"
  shows "(h \<in> set hs \<longrightarrow> (\<exists>kv. find (\<lambda>r. readUInt32BE (fst r) \<le> h) results = Some kv \<and> c h = Some (snd kv))) \<and>
    (h \<notin> set hs \<longrightarrow> c h = c0 h)"
  using assms
proof (induction hs arbitrary: c0)
  case (Cons a hs)
  then obtain kv where kv: "find (\<lambda>r. readUInt32BE (fst r) \<le> a) results = Some kv" "cacheLoop results hs (c0(a \<mapsto> snd kv)) = Inr c"
    by (auto split: option.splits)
  then show ?case using Cons.IH[OF kv(2)] by (cases "h \<in> set hs"; cases "h = a") auto
qed simp

lemma kvrange_last:
  assumes "kvok r" "kvrange b e r \<noteq> []" "z \<le> b"
  shows "last (kvrange z e r) = last (kvrange b e r) \<and> kvrange z e r \<noteq> []"
proof -
  let ?f = "kvrange z e r"
  have sub: "kvrange b e r = filter (\<lambda>x. b \<le> fst x) ?f" using assms(3) by (auto simp: kvrange_def intro!: filter_cong)
  have ok: "kvok ?f" using assms(1) by (simp add: kvrange_def kvok_filter)
  obtain x where x: "x \<in> set ?f" "b \<le> fst x" using assms(2) sub by (auto simp: filter_empty_conv)
  then have "b \<le> fst (last ?f)" using kvok_last[OF ok x(1)] by simp
  moreover have "?f \<noteq> []" using x by auto
  ultimately show ?thesis using last_filter[of ?f "\<lambda>x. b \<le> fst x"] sub by simp
qed

lemma cached_lookup:
  assumes ok: "keysOk r" and key: "uint32BE from' = Inr b" "uint32BE to = Inr e" and h: "from' \<le> h" "h \<le> to"
    and dec: "decodeAll (paramsSchema lib) (rev (kvrange b e r)) = Inr rs"
    and res: "results = (if from' > 0 then rs @ [(b, p)] else rs)" "from' > 0 \<Longrightarrow> paramsAt lib r from' = Some p"
    and found: "find (\<lambda>q. readUInt32BE (fst q) \<le> h) results = Some kv"
  shows "paramsAt lib r h = Some (snd kv)"
proof -
  have fr: "0 \<le> from'" "to \<le> MAX_UINT32" using key by (auto simp: uint32BE_Inr)
  obtain eh where eh: "uint32BE h = Inr eh" using fr h by (auto simp: uint32BE_def)
  have le: "b \<le> eh" "eh \<le> e" "[0, 0, 0, 0] \<le> b" using uint32BE_le[OF key(1) eh] uint32BE_le[OF eh key(2)] uint32BE_le[OF uint32BE_0 key(1)] h fr by auto
  have keyle: "readUInt32BE (fst x) \<le> h \<longleftrightarrow> fst x \<le> eh" if x: "x \<in> set r" for x
  proof -
    obtain k where k: "uint32BE k = Inr (fst x)" using ok x by (auto simp: keysOk_def)
    show ?thesis using readUInt32BE_uint32BE[OF k] uint32BE_le[OF k eh] by simp
  qed
  have R: "filter (\<lambda>x. readUInt32BE (fst x) \<le> h) (kvrange b e r) = kvrange b eh r"
    using le keyle by (auto simp: kvrange_def intro!: filter_cong)
  note fd = decodeAll_find[OF dec, of "\<lambda>k. readUInt32BE k \<le> h", unfolded find_rev R]
  show ?thesis
  proof (cases "kvrange b eh r = []")
    case False
    then obtain v where v: "dec (paramsSchema lib) (snd (last (kvrange b eh r))) = Inr v"
      "find (\<lambda>q. readUInt32BE (fst q) \<le> h) rs = Some (fst (last (kvrange b eh r)), v)"
      using fd by auto
    then have "kv = (fst (last (kvrange b eh r)), v)" using found res(1) by (auto simp: find_filter split: list.splits if_splits)
    then show ?thesis using v kvrange_last[OF _ False le(3)] ok eh by (auto simp: keysOk_def paramsAt_def Let_def)
  next
    case True
    then have n: "find (\<lambda>q. readUInt32BE (fst q) \<le> h) rs = None" using fd by simp
    then have pos: "from' > 0" using found res(1) by (cases "from' > 0") auto
    then have "kv = (b, p)" using found res(1) n by (auto simp: find_filter split: list.splits if_splits)
    moreover have "kvrange [0, 0, 0, 0] eh r = kvrange [0, 0, 0, 0] b r"
      using True le by (fastforce simp: kvrange_def filter_empty_conv intro!: filter_cong)
    ultimately show ?thesis using res(2)[OF pos] eh key(1) by (simp add: paramsAt_def)
  qed
qed

lemma cacheParameters_lookup:
  assumes "keysOk (paramsStore s)" "cacheParameters lib from' to cache s = (Inr c, s')"
  shows "s' = s \<and> (\<forall>h. if from' \<le> h \<and> h \<le> to then \<exists>p. c h = Some p \<and> getBFTParameters lib h s = (Inr p, s) else c h = cache h)"
proof -
  let ?r = "paramsStore s"
  obtain b e where key: "uint32BE from' = Inr b" "uint32BE to = Inr e"
    using assms(2) by (auto simp: cacheParameters_def bind_def liftE_def split: sum.splits prod.splits)
  obtain rs where rs: "decodeAll (paramsSchema lib) (rev (kvrange b e ?r)) = Inr rs"
    using assms(2) key by (auto simp: cacheParameters_def bind_def liftE_def gets_def split: sum.splits prod.splits)
  obtain p results where r: "results = (if from' > 0 then rs @ [(b, p)] else rs)" "from' > 0 \<longrightarrow> paramsAt lib ?r from' = Some p"
    "cacheLoop results [from'..to] cache = Inr c" "s' = s"
  proof (cases "from' > 0")
    case True
    obtain p s2 where p: "getBFTParameters lib from' s = (Inr p, s2)"
      using assms(2) key rs True by (auto simp: cacheParameters_def bind_def liftE_def gets_def split: sum.splits prod.splits)
    then have "paramsAt lib ?r from' = Some p \<and> s2 = s" by (simp add: getBFTParameters_paramsAt)
    then show ?thesis using that[of "rs @ [(b, p)]" p] assms(2) key rs True p
      by (auto simp: cacheParameters_def bind_def liftE_def gets_def ret_def)
  next
    case False
    then show ?thesis using that[of rs] assms(2) key rs by (auto simp: cacheParameters_def bind_def liftE_def gets_def ret_def)
  qed
  have "if from' \<le> h \<and> h \<le> to then \<exists>p. c h = Some p \<and> getBFTParameters lib h s = (Inr p, s) else c h = cache h" for h
  proof (cases "from' \<le> h \<and> h \<le> to")
    case True
    then obtain kv where kv: "find (\<lambda>q. readUInt32BE (fst q) \<le> h) results = Some kv" "c h = Some (snd kv)"
      using cacheLoop_spec[OF r(3), of h] by auto
    have "paramsAt lib ?r h = Some (snd kv)"
      by (rule cached_lookup[OF assms(1) key _ _ rs r(1) _ kv(1)]) (use True r(2) in auto)
    then show ?thesis using kv(2) True by (simp add: getBFTParameters_paramsAt)
  next
    case False
    then show ?thesis using cacheLoop_spec[OF r(3), of h] by auto
  qed
  with r(4) show ?thesis by blast
qed

definition cacheOk :: "jsLib \<Rightarrow> bytes kv \<Rightarrow> paramsCache \<Rightarrow> bool" where
  "cacheOk lib r c = (\<forall>h p. c h = Some p \<longrightarrow> paramsAt lib r h = Some p)"

lemma wp_getParameters:
  assumes "cacheOk lib (paramsStore s) c"
    "\<And>p c'. paramsAt lib (paramsStore s) h = Some p \<Longrightarrow> cacheOk lib (paramsStore s) c' \<Longrightarrow> Q (p, c') s"
  shows "wp (getParameters lib c h) Q (\<lambda>_ _. True) s"
proof (cases "c h")
  case None
  have "wp (getBFTParameters lib h) (\<lambda>p s'. Q (p, c(h \<mapsto> p)) s') (\<lambda>_ _. True) s"
    by (rule wp_getBFTParameters) (use assms in \<open>auto simp: cacheOk_def\<close>)
  then show ?thesis using None by (simp add: getParameters_def wp)
next
  case (Some p)
  then show ?thesis using assms by (auto simp: getParameters_def wp cacheOk_def)
qed

end
