(* ===== verification/BFTSafety.thy ===== *)
theory BFTSafety
  imports BFTProps
begin

text \<open>
  Safety of vote counting. For every block in the window the prevotes and precommits are
  the weights of a set of distinct validators of the parameters in force at its height
  (the sets are the ghost functions \<open>PV\<close> and \<open>PC\<close>); the finality heights only grow.
\<close>

section \<open>Weights\<close>

definition weightIn :: "bftParams \<Rightarrow> bytes \<Rightarrow> int" where
  "weightIn p a = (case find (\<lambda>v. vAddress v = a) (validators p) of None \<Rightarrow> 0 | Some v \<Rightarrow> vBftWeight v)"

definition addrs :: "bftParams \<Rightarrow> bytes set" where
  "addrs p = vAddress ` set (validators p)"

definition wsum :: "bftParams \<Rightarrow> bytes set \<Rightarrow> int" where
  "wsum p A = (\<Sum>a\<in>A. weightIn p a)"

definition paramsGood :: "bftParams \<Rightarrow> bool" where
  "paramsGood p = (paramsValid p \<and> distinct (map vAddress (validators p)) \<and>
     prevoteThreshold p = 2 * aggregateBFTWeight (validators p) div 3 + 1 \<and>
     aggregateBFTWeight (validators p) div 3 + 1 \<le> precommitThreshold p \<and> precommitThreshold p \<le> aggregateBFTWeight (validators p) \<and>
     aggregateBFTWeight (validators p) div 3 + 1 \<le> certificateThreshold p \<and> certificateThreshold p \<le> aggregateBFTWeight (validators p))"

lemma finite_addrs [simp]: "finite (addrs p)"
  by (simp add: addrs_def)

lemma find_distinct:
  "distinct (map f xs) \<Longrightarrow> x \<in> set xs \<Longrightarrow> find (\<lambda>y. f y = f x) xs = Some x"
  by (induction xs) (auto simp: image_iff)

lemma weightIn_nonneg: "paramsValid p \<Longrightarrow> 0 \<le> weightIn p a"
  by (auto simp: weightIn_def paramsValid_def list_all_iff find_Some_iff split: option.split)

lemma wsum_mono: "paramsValid p \<Longrightarrow> A \<subseteq> B \<Longrightarrow> B \<subseteq> addrs p \<Longrightarrow> wsum p A \<le> wsum p B"
  unfolding wsum_def by (intro sum_mono2) (auto intro: finite_subset weightIn_nonneg)

lemma wsum_addrs: "distinct (map vAddress (validators p)) \<Longrightarrow> wsum p (addrs p) = aggregateBFTWeight (validators p)"
proof -
  assume d: "distinct (map vAddress (validators p))"
  have "wsum p (addrs p) = (\<Sum>v\<in>set (validators p). weightIn p (vAddress v))"
    unfolding wsum_def addrs_def by (rule sum.reindex_cong[of vAddress]) (use d in \<open>auto simp: distinct_map\<close>)
  also have "\<dots> = (\<Sum>v\<in>set (validators p). vBftWeight v)"
    by (rule sum.cong) (use d in \<open>auto simp: weightIn_def find_distinct\<close>)
  also have "\<dots> = aggregateBFTWeight (validators p)"
    using d by (simp add: aggregateBFTWeight_def sum_list_distinct_conv_sum_set distinct_map)
  finally show ?thesis .
qed

lemma wsum_le_aggregate: "paramsGood p \<Longrightarrow> A \<subseteq> addrs p \<Longrightarrow> 0 \<le> wsum p A \<and> wsum p A \<le> aggregateBFTWeight (validators p)"
  using wsum_mono[of p A "addrs p"] wsum_mono[of p "{}" A] wsum_addrs[of p] by (auto simp: paramsGood_def wsum_def)

lemma wsum_insert: "a \<notin> A \<Longrightarrow> A \<subseteq> addrs p \<Longrightarrow> wsum p (insert a A) = wsum p A + weightIn p a"
  unfolding wsum_def using finite_subset[OF _ finite_addrs, of A p] by simp

section \<open>The effect of a block on the counts\<close>

type_synonym heightParams = "int \<Rightarrow> bftParams option"

definition pvUpd :: "heightParams \<Rightarrow> bytes \<Rightarrow> int \<Rightarrow> blockBFTInfo \<Rightarrow> blockBFTInfo" where
  "pvUpd P gen minH b = (case P (biHeight b) of None \<Rightarrow> b | Some p \<Rightarrow>
     if minH \<le> biHeight b then b\<lparr>biPrevoteWeight := biPrevoteWeight b + weightIn p gen\<rparr> else b)"

definition pcHit :: "heightParams \<Rightarrow> int \<Rightarrow> blockBFTInfo \<Rightarrow> bool" where
  "pcHit P minH b = (minH \<le> biHeight b \<and> (case P (biHeight b) of None \<Rightarrow> False | Some p \<Rightarrow> prevoteThreshold p \<le> biPrevoteWeight b))"

definition pcUpd :: "heightParams \<Rightarrow> bytes \<Rightarrow> int \<Rightarrow> blockBFTInfo \<Rightarrow> blockBFTInfo" where
  "pcUpd P gen minH b = (if pcHit P minH b
     then b\<lparr>biPrecommitWeight := biPrecommitWeight b + (case P (biHeight b) of None \<Rightarrow> 0 | Some p \<Rightarrow> weightIn p gen)\<rparr> else b)"

definition setLargest :: "bytes \<Rightarrow> int \<Rightarrow> voteInfo list \<Rightarrow> voteInfo list" where
  "setLargest gen h active = (case findIndex (\<lambda>v. viAddress v = gen) active of None \<Rightarrow> active
     | Some i \<Rightarrow> active[i := (active ! i)\<lparr>viLargestHeightPrecommit := h\<rparr>])"

abbreviation descending :: "blockBFTInfo list \<Rightarrow> bool" where
  "descending bs \<equiv> sorted_wrt (\<lambda>a b. biHeight b < biHeight a) bs"

abbreviation known :: "heightParams \<Rightarrow> bytes \<Rightarrow> blockBFTInfo \<Rightarrow> bool" where
  "known P gen b \<equiv> (\<exists>p. P (biHeight b) = Some p \<and> gen \<in> addrs p)"

lemma below_unchanged:
  "descending (b # bs) \<Longrightarrow> biHeight b < minH \<Longrightarrow> map (pcUpd P gen minH) (b # bs) = b # bs \<and> filter (pcHit P minH) (b # bs) = []"
  "descending (b # bs) \<Longrightarrow> biHeight b < minH \<Longrightarrow> map (pvUpd P gen minH) (b # bs) = b # bs \<and> (\<forall>c \<in> set (b # bs). \<not> minH \<le> biHeight c)"
  by (auto simp: pcUpd_def pvUpd_def pcHit_def filter_empty_conv intro!: map_idI split: option.split)

lemma find_SomeD: "find P xs = Some x \<Longrightarrow> x \<in> set xs \<and> P x"
  by (induction xs) (auto split: if_splits)

lemma find_addrs: "find (\<lambda>v. vAddress v = gen) (validators p) = Some v \<Longrightarrow> gen \<in> addrs p \<and> vBftWeight v = weightIn p gen"
  using find_SomeD[of "\<lambda>v. vAddress v = gen" "validators p" v] by (auto simp: addrs_def weightIn_def)

lemma sorted_wrt_tail_desc: "descending (b # bs) \<Longrightarrow> descending bs"
  by simp

definition pcPost :: "jsLib \<Rightarrow> bytes kv \<Rightarrow> bytes \<Rightarrow> int \<Rightarrow> blockBFTInfo list \<Rightarrow> voteInfo list \<Rightarrow> bool \<Rightarrow>
    blockBFTInfo list \<times> voteInfo list \<times> paramsCache \<Rightarrow> bool" where
  "pcPost lib r gen minH bs active hasPre res =
     (let P = paramsAt lib r; hits = filter (pcHit P minH) bs; (bs', active', c') = res in
      cacheOk lib r c' \<and> bs' = map (pcUpd P gen minH) bs \<and> (\<forall>b \<in> set hits. known P gen b) \<and>
      active' = (if hasPre \<or> hits = [] then active else setLargest gen (biHeight (hd hits)) active))"

lemma pcPost_hit:
  assumes "paramsAt lib r (biHeight b) = Some p" "minH \<le> biHeight b" "prevoteThreshold p \<le> biPrevoteWeight b" "gen \<in> addrs p"
    "pcPost lib r gen minH bs (if hasPre then active else setLargest gen (biHeight b) active) True (bs', active', c')"
  shows "pcPost lib r gen minH (b # bs) active hasPre (b\<lparr>biPrecommitWeight := biPrecommitWeight b + weightIn p gen\<rparr> # bs', active', c')"
  using assms by (auto simp: pcPost_def Let_def pcUpd_def pcHit_def)

lemma pcPost_miss:
  assumes "\<not> pcHit (paramsAt lib r) minH b" "pcPost lib r gen minH bs active hasPre (bs', active', c')"
  shows "pcPost lib r gen minH (b # bs) active hasPre (b # bs', active', c')"
  using assms by (auto simp: pcPost_def Let_def pcUpd_def)

lemma wp_precommitLoop:
  assumes "cacheOk lib (paramsStore s) c" "descending bs"
  shows "wp (precommitLoop lib gen minH bs active hasPre c)
    (\<lambda>res t. t = s \<and> pcPost lib (paramsStore s) gen minH bs active hasPre res) (\<lambda>_ _. True) s"
  using assms
proof (induction bs arbitrary: active hasPre c)
  case Nil
  then show ?case by (simp add: wp pcPost_def)
next
  case (Cons b bs)
  let ?r = "paramsStore s"
  note IH = Cons.IH[OF _ sorted_wrt_tail_desc[OF Cons.prems(2)]]
  show ?case
  proof (cases "biHeight b < minH")
    case True
    then show ?thesis using below_unchanged(1)[OF Cons.prems(2) True, of "paramsAt lib ?r" gen] Cons.prems(1) by (simp add: wp pcPost_def Let_def)
  next
    case False
    show ?thesis unfolding precommitLoop.simps if_not_P[OF False] wp_bind
    proof (rule wp_getParameters[OF Cons.prems(1)], goal_cases)
      case (1 p c')
      show ?case
      proof (cases "prevoteThreshold p \<le> biPrevoteWeight b")
        case hit: True
        show ?thesis
        proof (cases "find (\<lambda>v. vAddress v = gen) (validators p)")
          case None
          then show ?thesis using hit by (simp add: wp)
        next
          case (Some v)
          have v: "gen \<in> addrs p" "vBftWeight v = weightIn p gen" using find_addrs[OF Some] by auto
          have "wp (precommitLoop lib gen minH bs (if hasPre then active else setLargest gen (biHeight b) active) True c')
             (\<lambda>(bs', active', c') t. t = s \<and> pcPost lib ?r gen minH (b # bs) active hasPre
                (b\<lparr>biPrecommitWeight := biPrecommitWeight b + weightIn p gen\<rparr> # bs', active', c')) (\<lambda>_ _. True) s"
            using IH[OF 1(2)] by (rule wp_mono) (use pcPost_hit[OF 1(1) _ hit v(1)] False in auto)
          then show ?thesis using hit v Some by (cases hasPre) (simp_all add: wp setLargest_def Let_def split_def)
        qed
      next
        case miss: False
        then have "\<not> pcHit (paramsAt lib ?r) minH b" using 1(1) by (simp add: pcHit_def)
        then have "wp (precommitLoop lib gen minH bs active hasPre c')
             (\<lambda>(bs', active', c') t. t = s \<and> pcPost lib ?r gen minH (b # bs) active hasPre (b # bs', active', c')) (\<lambda>_ _. True) s"
          by (intro wp_mono[OF IH[OF 1(2)]]) (auto intro: pcPost_miss)
        then show ?thesis using miss by (simp add: wp split_def)
      qed
    qed
  qed
qed

definition pvPost :: "jsLib \<Rightarrow> bytes kv \<Rightarrow> bytes \<Rightarrow> int \<Rightarrow> blockBFTInfo list \<Rightarrow> blockBFTInfo list \<times> paramsCache \<Rightarrow> bool" where
  "pvPost lib r gen minH bs res =
     (let P = paramsAt lib r; (bs', c') = res in
      cacheOk lib r c' \<and> bs' = map (pvUpd P gen minH) bs \<and> (\<forall>b \<in> set bs. minH \<le> biHeight b \<longrightarrow> known P gen b))"

lemma wp_prevoteLoop:
  assumes "cacheOk lib (paramsStore s) c" "descending bs"
  shows "wp (prevoteLoop lib gen minH bs c) (\<lambda>res t. t = s \<and> pvPost lib (paramsStore s) gen minH bs res) (\<lambda>_ _. True) s"
  using assms
proof (induction bs arbitrary: c)
  case Nil
  then show ?case by (simp add: wp pvPost_def)
next
  case (Cons b bs)
  let ?r = "paramsStore s"
  note IH = Cons.IH[OF _ sorted_wrt_tail_desc[OF Cons.prems(2)]]
  show ?case
  proof (cases "biHeight b < minH")
    case True
    then show ?thesis using below_unchanged(2)[OF Cons.prems(2) True, of "paramsAt lib ?r" gen] Cons.prems(1) by (simp add: wp pvPost_def Let_def)
  next
    case False
    show ?thesis unfolding prevoteLoop.simps if_not_P[OF False] wp_bind
    proof (rule wp_getParameters[OF Cons.prems(1)], goal_cases)
      case (1 p c')
      show ?case
      proof (cases "find (\<lambda>v. vAddress v = gen) (validators p)")
        case None
        then show ?thesis by (simp add: wp)
      next
        case (Some v)
        have v: "gen \<in> addrs p" "vBftWeight v = weightIn p gen" using find_addrs[OF Some] by auto
        have "wp (prevoteLoop lib gen minH bs c')
           (\<lambda>(bs', c') t. t = s \<and> pvPost lib ?r gen minH (b # bs) (b\<lparr>biPrevoteWeight := biPrevoteWeight b + weightIn p gen\<rparr> # bs', c')) (\<lambda>_ _. True) s"
          using IH[OF 1(2)] by (rule wp_mono) (use 1(1) v False in \<open>auto simp: pvPost_def Let_def pvUpd_def\<close>)
        then show ?thesis using v Some by (simp add: wp split_def)
      qed
    qed
  qed
qed

definition reaches :: "heightParams \<Rightarrow> (blockBFTInfo \<Rightarrow> int) \<Rightarrow> (bftParams \<Rightarrow> int) \<Rightarrow> blockBFTInfo \<Rightarrow> bool" where
  "reaches P wt threshold b = (case P (biHeight b) of None \<Rightarrow> False | Some p \<Rightarrow> threshold p \<le> wt b)"

lemma wp_firstReaching:
  assumes "cacheOk lib (paramsStore s) c"
  shows "wp (firstReaching lib wt threshold bs c)
    (\<lambda>(res, c') t. t = s \<and> cacheOk lib (paramsStore s) c' \<and>
       res = map_option biHeight (find (reaches (paramsAt lib (paramsStore s)) wt threshold) bs)) (\<lambda>_ _. True) s"
  using assms
proof (induction bs arbitrary: c)
  case Nil
  then show ?case by (simp add: wp)
next
  case (Cons b bs)
  show ?case unfolding firstReaching.simps wp_bind
  proof (rule wp_getParameters[OF Cons.prems], goal_cases)
    case (1 p c')
    have r: "reaches (paramsAt lib (paramsStore s)) wt threshold b \<longleftrightarrow> threshold p \<le> wt b" using 1(1) by (simp add: reaches_def)
    show ?case
    proof (cases "threshold p \<le> wt b")
      case True
      then show ?thesis using 1(2) r by (simp add: wp)
    next
      case False
      then show ?thesis using Cons.IH[OF 1(2)] r by simp
    qed
  qed
qed

section \<open>Every validator is counted once\<close>

definition consec :: "blockBFTInfo list \<Rightarrow> bool" where
  "consec infos = (\<forall>i < length infos. biHeight (infos ! i) = biHeight (infos ! 0) - int i)"

definition entryOk :: "heightParams \<Rightarrow> (int \<Rightarrow> bytes set) \<Rightarrow> (int \<Rightarrow> bytes set) \<Rightarrow> blockBFTInfo \<Rightarrow> bool" where
  "entryOk P PV PC b = (\<exists>p. P (biHeight b) = Some p \<and> paramsGood p \<and>
     PV (biHeight b) \<subseteq> addrs p \<and> biPrevoteWeight b = wsum p (PV (biHeight b)) \<and>
     PC (biHeight b) \<subseteq> addrs p \<and> biPrecommitWeight b = wsum p (PC (biHeight b)) \<and>
     (PC (biHeight b) \<noteq> {} \<longrightarrow> prevoteThreshold p \<le> biPrevoteWeight b))"

definition countInv :: "heightParams \<Rightarrow> blockBFTInfo list \<Rightarrow> voteInfo list \<Rightarrow> (int \<Rightarrow> bytes set) \<Rightarrow> (int \<Rightarrow> bytes set) \<Rightarrow> bool" where
  "countInv P infos active PV PC = (consec infos \<and> distinct (map viAddress active) \<and>
     (\<forall>b \<in> set infos. entryOk P PV PC b \<and>
        (\<forall>a \<in> PV (biHeight b). \<exists>c \<in> set infos. biGeneratorAddress c = a \<and> biHeight b \<le> biHeight c) \<and>
        (\<forall>a \<in> PC (biHeight b). \<forall>vi \<in> set active. viAddress vi = a \<longrightarrow> biHeight b \<le> viLargestHeightPrecommit vi)))"

lemma countInv_PV:
  "countInv P infos active PV PC \<Longrightarrow> b \<in> set infos \<Longrightarrow> a \<in> PV (biHeight b) \<Longrightarrow>
   \<exists>c \<in> set infos. biGeneratorAddress c = a \<and> biHeight b \<le> biHeight c"
  unfolding countInv_def by blast

lemma consec_descending: "consec infos \<Longrightarrow> descending infos"
  by (auto simp: consec_def sorted_wrt_iff_nth_less)

lemma consec_take: "consec infos \<Longrightarrow> consec (take n infos)"
  by (cases "n = 0") (auto simp: consec_def)

lemma consec_Cons:
  assumes "consec infos" "infos = [] \<or> biHeight b = biHeight (hd infos) + 1"
  shows "consec (b # infos)"
proof -
  have "biHeight ((b # infos) ! i) = biHeight b - int i" if "i < Suc (length infos)" for i
    using assms that by (cases i; cases infos) (auto simp: consec_def)
  then show ?thesis by (simp add: consec_def)
qed

lemma consec_map: "consec infos \<Longrightarrow> (\<And>b. biHeight (f b) = biHeight b) \<Longrightarrow> consec (map f infos)"
proof -
  assume a: "consec infos" "\<And>b. biHeight (f b) = biHeight b"
  show ?thesis unfolding consec_def
  proof (intro allI impI)
    fix i assume "i < length (map f infos)"
    then have i: "i < length infos" "0 < length infos" by (cases infos, auto)
    then show "biHeight (map f infos ! i) = biHeight (map f infos ! 0) - int i"
      using a(1)[unfolded consec_def, rule_format, OF i(1)] by (simp add: a(2))
  qed
qed

lemma consec_index:
  assumes "consec infos" "b \<in> set (take n infos)" "c \<in> set infos" "biHeight b \<le> biHeight c"
  shows "c \<in> set (take n infos)"
proof -
  obtain i j where ij: "i < n" "i < length infos" "b = infos ! i" "j < length infos" "c = infos ! j"
    using assms(2,3) by (auto simp: in_set_conv_nth)
  have "biHeight (infos ! i) = biHeight (infos ! 0) - int i" "biHeight (infos ! j) = biHeight (infos ! 0) - int j"
    using assms(1) ij by (auto simp: consec_def)
  then have "j \<le> i" using assms(4) ij by simp
  then show ?thesis using ij by (metis in_set_conv_nth length_take min_less_iff_conj nth_take order_le_less_trans)
qed

lemma below_head: "consec (b # infos) \<Longrightarrow> c \<in> set infos \<Longrightarrow> biHeight c < biHeight b"
  using consec_descending[of "b # infos"] by auto

lemma count_insert:
  assumes inv: "countInv P infos active PV PC" and h: "infos = [] \<or> biHeight b0 = biHeight (hd infos) + 1"
    and b0: "biPrevoteWeight b0 = 0" "biPrecommitWeight b0 = 0" and p: "P (biHeight b0) = Some p" "paramsGood p"
  shows "countInv P (take n (b0 # infos)) active (PV(biHeight b0 := {})) (PC(biHeight b0 := {}))"
proof -
  let ?h = "biHeight b0" and ?w = "take n (b0 # infos)"
  have c: "consec (b0 # infos)" using inv h by (intro consec_Cons) (auto simp: countInv_def)
  have "entryOk P (PV(?h := {})) (PC(?h := {})) b \<and>
        (\<forall>a \<in> (PV(?h := {})) (biHeight b). \<exists>c \<in> set ?w. biGeneratorAddress c = a \<and> biHeight b \<le> biHeight c) \<and>
        (\<forall>a \<in> (PC(?h := {})) (biHeight b). \<forall>vi \<in> set active. viAddress vi = a \<longrightarrow> biHeight b \<le> viLargestHeightPrecommit vi)"
    if b: "b \<in> set ?w" for b
  proof (cases "b = b0")
    case True
    then show ?thesis using b0 p by (simp add: entryOk_def wsum_def)
  next
    case False
    then have bi: "b \<in> set infos" using b in_set_takeD[of b n "b0 # infos"] by auto
    then have ne: "biHeight b \<noteq> ?h" using below_head[OF c, of b] by auto
    have e: "entryOk P PV PC b" "\<forall>a \<in> PC (biHeight b). \<forall>vi \<in> set active. viAddress vi = a \<longrightarrow> biHeight b \<le> viLargestHeightPrecommit vi"
      using inv bi by (auto simp: countInv_def)
    have "\<exists>c \<in> set ?w. biGeneratorAddress c = a \<and> biHeight b \<le> biHeight c" if "a \<in> PV (biHeight b)" for a
    proof -
      obtain c' where c': "c' \<in> set infos" "biGeneratorAddress c' = a" "biHeight b \<le> biHeight c'"
        using countInv_PV[OF inv bi \<open>a \<in> PV (biHeight b)\<close>] by blast
      then have "c' \<in> set ?w" using consec_index[OF c b, of c'] by simp
      then show ?thesis using c'(2,3) by (intro bexI[of _ c']) simp_all
    qed
    then show ?thesis using e ne by (simp add: entryOk_def)
  qed
  then show ?thesis using inv consec_take[OF c] by (simp add: countInv_def)
qed

lemma setLargest_map:
  "distinct (map viAddress active) \<Longrightarrow>
   setLargest gen h active = map (\<lambda>v. if viAddress v = gen then v\<lparr>viLargestHeightPrecommit := h\<rparr> else v) active"
proof (induction active)
  case (Cons v active)
  show ?case
  proof (cases "viAddress v = gen")
    case True
    then have "map (\<lambda>v. if viAddress v = gen then v\<lparr>viLargestHeightPrecommit := h\<rparr> else v) active = active"
      using Cons.prems by (intro map_idI) (auto simp: image_iff)
    then show ?thesis using True by (simp add: setLargest_def)
  next
    case False
    then show ?thesis using Cons by (auto simp: setLargest_def split: option.splits)
  qed
qed (simp add: setLargest_def)

definition pvGhost :: "bytes \<Rightarrow> int \<Rightarrow> (int \<Rightarrow> bytes set) \<Rightarrow> int \<Rightarrow> bytes set" where
  "pvGhost gen minPv PV h = (if minPv \<le> h then insert gen (PV h) else PV h)"

definition pcGhost :: "heightParams \<Rightarrow> bytes \<Rightarrow> int \<Rightarrow> blockBFTInfo list \<Rightarrow> (int \<Rightarrow> bytes set) \<Rightarrow> int \<Rightarrow> bytes set" where
  "pcGhost P gen minPc infos PC h = (if \<exists>b \<in> set infos. biHeight b = h \<and> pcHit P minPc b then insert gen (PC h) else PC h)"

lemma upd_fields [simp]:
  "biHeight (pvUpd P gen m b) = biHeight b" "biGeneratorAddress (pvUpd P gen m b) = biGeneratorAddress b"
  "biHeight (pcUpd P gen m b) = biHeight b" "biGeneratorAddress (pcUpd P gen m b) = biGeneratorAddress b"
  "biPrevoteWeight (pcUpd P gen m b) = biPrevoteWeight b" "biPrecommitWeight (pvUpd P gen m b) = biPrecommitWeight b"
  "biMaxHeightPrevoted (pvUpd P gen m b) = biMaxHeightPrevoted b" "biMaxHeightPrevoted (pcUpd P gen m b) = biMaxHeightPrevoted b"
  "biMaxHeightGenerated (pvUpd P gen m b) = biMaxHeightGenerated b" "biMaxHeightGenerated (pcUpd P gen m b) = biMaxHeightGenerated b"
  by (auto simp: pvUpd_def pcUpd_def split: option.split)

lemma height_unique: "descending infos \<Longrightarrow> b \<in> set infos \<Longrightarrow> c \<in> set infos \<Longrightarrow> biHeight b = biHeight c \<Longrightarrow> b = c"
  by (induction infos) auto

text \<open>The hypotheses under which the votes of a block are added.\<close>

definition voteOk :: "heightParams \<Rightarrow> bytes \<Rightarrow> int \<Rightarrow> int \<Rightarrow> blockBFTInfo list \<Rightarrow> voteInfo list \<Rightarrow> (int \<Rightarrow> bytes set) \<Rightarrow> bool" where
  "voteOk P gen minPc minPv infos active PV = (
     (\<exists>vi \<in> set active. viAddress vi = gen \<and> viLargestHeightPrecommit vi < minPc) \<and>
     (\<forall>b \<in> set infos. pcHit P minPc b \<longrightarrow> known P gen b) \<and>
     (\<forall>b \<in> set infos. minPv \<le> biHeight b \<longrightarrow> known P gen b \<and> gen \<notin> PV (biHeight b)) \<and>
     (infos \<noteq> [] \<longrightarrow> biGeneratorAddress (hd infos) = gen))"

lemma entry_vote:
  assumes inv: "countInv P infos active PV PC" and v: "voteOk P gen minPc minPv infos active PV" and b: "b \<in> set infos"
  shows "entryOk P (pvGhost gen minPv PV) (pcGhost P gen minPc infos PC) (pvUpd P gen minPv (pcUpd P gen minPc b))"
proof -
  let ?h = "biHeight b" and ?b = "pvUpd P gen minPv (pcUpd P gen minPc b)"
  obtain p where p: "P ?h = Some p" "paramsGood p" "PV ?h \<subseteq> addrs p" "biPrevoteWeight b = wsum p (PV ?h)"
    "PC ?h \<subseteq> addrs p" "biPrecommitWeight b = wsum p (PC ?h)" "PC ?h \<noteq> {} \<longrightarrow> prevoteThreshold p \<le> biPrevoteWeight b"
    using inv b by (auto simp: countInv_def entryOk_def)
  have d: "descending infos" using inv by (simp add: countInv_def consec_descending)
  have hit: "(\<exists>c \<in> set infos. biHeight c = ?h \<and> pcHit P minPc c) \<longleftrightarrow> pcHit P minPc b" using height_unique[OF d _ b] b by blast
  have pv: "biPrevoteWeight ?b = wsum p (pvGhost gen minPv PV ?h) \<and> pvGhost gen minPv PV ?h \<subseteq> addrs p \<and> biPrevoteWeight b \<le> biPrevoteWeight ?b"
  proof (cases "minPv \<le> ?h")
    case True
    then have "gen \<in> addrs p" "gen \<notin> PV ?h" using v b p(1) by (auto simp: voteOk_def)
    then show ?thesis using True p wsum_insert[of gen "PV ?h" p] weightIn_nonneg[of p gen] by (auto simp: pvUpd_def pvGhost_def paramsGood_def)
  qed (use p in \<open>simp add: pvUpd_def pvGhost_def\<close>)
  have pc: "biPrecommitWeight ?b = wsum p (pcGhost P gen minPc infos PC ?h) \<and> pcGhost P gen minPc infos PC ?h \<subseteq> addrs p"
  proof (cases "pcHit P minPc b")
    case True
    then have g: "gen \<in> addrs p" "minPc \<le> ?h" using v b p(1) by (auto simp: voteOk_def pcHit_def)
    have "gen \<notin> PC ?h"
    proof
      assume "gen \<in> PC ?h"
      moreover obtain vi where "vi \<in> set active" "viAddress vi = gen" "viLargestHeightPrecommit vi < minPc" using v by (auto simp: voteOk_def)
      ultimately show False using inv b g(2) by (fastforce simp: countInv_def)
    qed
    then show ?thesis using True g p wsum_insert[of gen "PC ?h" p] hit by (auto simp: pcUpd_def pcGhost_def)
  qed (use p hit in \<open>auto simp: pcUpd_def pcGhost_def\<close>)
  have "pcGhost P gen minPc infos PC ?h \<noteq> {} \<longrightarrow> prevoteThreshold p \<le> biPrevoteWeight ?b"
    using pv p(1,7) hit by (auto simp: pcGhost_def pcHit_def)
  with pv pc p(1,2) show ?thesis by (auto simp: entryOk_def)
qed

lemma count_vote:
  assumes inv: "countInv P infos active PV PC" and v: "voteOk P gen minPc minPv infos active PV"
    and act: "active' = (let hits = filter (pcHit P minPc) infos in if hits = [] then active else setLargest gen (biHeight (hd hits)) active)"
  shows "countInv P (map (pvUpd P gen minPv) (map (pcUpd P gen minPc) infos)) active' (pvGhost gen minPv PV) (pcGhost P gen minPc infos PC)"
proof -
  let ?f = "\<lambda>b. pvUpd P gen minPv (pcUpd P gen minPc b)" and ?hits = "filter (pcHit P minPc) infos"
  have con: "consec infos" and dist: "distinct (map viAddress active)" using inv by (auto simp: countInv_def)
  have d: "descending infos" using con by (rule consec_descending)
  have act': "active' = (if ?hits = [] then active else map (\<lambda>v. if viAddress v = gen then v\<lparr>viLargestHeightPrecommit := biHeight (hd ?hits)\<rparr> else v) active)"
    using act setLargest_map[OF dist] by (simp add: Let_def)
  have dist': "distinct (map viAddress active')"
  proof -
    have "map viAddress active' = map viAddress active" unfolding act' by auto
    then show ?thesis using dist by simp
  qed
  have top: "biHeight b \<le> biHeight (hd ?hits)" if "b \<in> set infos" "pcHit P minPc b" for b
  proof -
    have "descending ?hits" using d by (rule sorted_wrt_filter)
    moreover have "b \<in> set ?hits" using that by simp
    ultimately show ?thesis by (cases ?hits) auto
  qed
  have "(\<forall>a \<in> pvGhost gen minPv PV (biHeight b). \<exists>c \<in> set (map ?f infos). biGeneratorAddress c = a \<and> biHeight b \<le> biHeight c) \<and>
     (\<forall>a \<in> pcGhost P gen minPc infos PC (biHeight b). \<forall>vi \<in> set active'. viAddress vi = a \<longrightarrow> biHeight b \<le> viLargestHeightPrecommit vi)"
    if b: "b \<in> set infos" for b
  proof
    show "\<forall>a \<in> pvGhost gen minPv PV (biHeight b). \<exists>c \<in> set (map ?f infos). biGeneratorAddress c = a \<and> biHeight b \<le> biHeight c"
    proof
      fix a assume a: "a \<in> pvGhost gen minPv PV (biHeight b)"
      have "\<exists>c \<in> set infos. biGeneratorAddress c = a \<and> biHeight b \<le> biHeight c"
      proof (cases "a \<in> PV (biHeight b)")
        case True
        then show ?thesis using inv b by (simp add: countInv_def)
      next
        case False
        then have "a = gen" using a by (auto simp: pvGhost_def split: if_splits)
        moreover have "biHeight b \<le> biHeight (hd infos)" using d b by (cases infos) auto
        ultimately show ?thesis using v b by (intro bexI[of _ "hd infos"]) (auto simp: voteOk_def intro: hd_in_set)
      qed
      then show "\<exists>c \<in> set (map ?f infos). biGeneratorAddress c = a \<and> biHeight b \<le> biHeight c" by auto
    qed
    show "\<forall>a \<in> pcGhost P gen minPc infos PC (biHeight b). \<forall>vi \<in> set active'. viAddress vi = a \<longrightarrow> biHeight b \<le> viLargestHeightPrecommit vi"
    proof (intro ballI impI)
      fix a vi assume a: "a \<in> pcGhost P gen minPc infos PC (biHeight b)" and vi: "vi \<in> set active'" "viAddress vi = a"
      have old: "biHeight b \<le> viLargestHeightPrecommit w" if "a \<in> PC (biHeight b)" "w \<in> set active" "viAddress w = a" for w
        using inv b that by (simp add: countInv_def)
      obtain w where w: "w \<in> set active" "viAddress w = gen" "viLargestHeightPrecommit w < minPc" using v by (auto simp: voteOk_def)
      show "biHeight b \<le> viLargestHeightPrecommit vi"
      proof (cases "?hits = []")
        case True
        then have "a \<in> PC (biHeight b)" "vi \<in> set active" using a vi act' by (auto simp: pcGhost_def filter_empty_conv split: if_splits)
        then show ?thesis using old vi by blast
      next
        case False
        then obtain u where u: "u \<in> set active" "vi = (if viAddress u = gen then u\<lparr>viLargestHeightPrecommit := biHeight (hd ?hits)\<rparr> else u)"
          using vi(1) act' by auto
        show ?thesis
        proof (cases "viAddress u = gen")
          case True
          then have ag: "a = gen" "viLargestHeightPrecommit vi = biHeight (hd ?hits)" using u vi by auto
          show ?thesis
          proof (cases "a \<in> PC (biHeight b)")
            case True
            then have "biHeight b < minPc" using old[OF True w(1)] w ag by simp
            also have "minPc \<le> biHeight (hd ?hits)"
            proof -
              have "hd ?hits \<in> set ?hits" using False by (rule hd_in_set)
              then show ?thesis by (simp add: pcHit_def)
            qed
            finally show ?thesis using ag by simp
          next
            case nin: False
            then obtain c where "c \<in> set infos" "biHeight c = biHeight b" "pcHit P minPc c" using a by (auto simp: pcGhost_def split: if_splits)
            then show ?thesis using top[of c] ag by simp
          qed
        next
          case ng: False
          then have "vi = u" "a \<noteq> gen" using u vi by auto
          moreover have "a \<in> PC (biHeight b)" using a \<open>a \<noteq> gen\<close> by (auto simp: pcGhost_def split: if_splits)
          ultimately show ?thesis using old u vi by blast
        qed
      qed
    qed
  qed
  then show ?thesis using dist' con entry_vote[OF inv v] consec_map[OF con, of ?f] by (auto simp: countInv_def comp_def)
qed


section \<open>The votes of one block\<close>

definition grows :: "blockBFTInfo \<Rightarrow> blockBFTInfo \<Rightarrow> bool" where
  "grows b b' = (biHeight b' = biHeight b \<and> biGeneratorAddress b' = biGeneratorAddress b \<and> biMaxHeightGenerated b' = biMaxHeightGenerated b \<and>
     biMaxHeightPrevoted b' = biMaxHeightPrevoted b \<and> biPrevoteWeight b \<le> biPrevoteWeight b' \<and> biPrecommitWeight b \<le> biPrecommitWeight b')"

definition activeOk :: "voteInfo list \<Rightarrow> bool" where
  "activeOk active = list_all (\<lambda>a. 0 \<le> viMinActiveHeight a \<and> 0 \<le> viLargestHeightPrecommit a) active"

definition votePost :: "heightParams \<Rightarrow> bftVotes \<Rightarrow> bftVotes \<Rightarrow> bool" where
  "votePost P v v' = ((\<exists>PV PC. countInv P (blockBFTInfos v') (activeValidatorsVoteInfo v') PV PC) \<and>
     list_all2 grows (blockBFTInfos v) (blockBFTInfos v') \<and> activeOk (activeValidatorsVoteInfo v') \<and>
     (\<exists>infos active. v' = v\<lparr>blockBFTInfos := infos, activeValidatorsVoteInfo := active\<rparr>))"

lemma grows_refl [simp]: "grows b b"
  by (simp add: grows_def)

lemma votePost_refl:
  "countInv P (blockBFTInfos v) (activeValidatorsVoteInfo v) PV PC \<Longrightarrow> activeOk (activeValidatorsVoteInfo v) \<Longrightarrow> votePost P v v"
  by (auto simp: votePost_def list_all2_refl intro!: exI[of _ "blockBFTInfos v"] exI[of _ "activeValidatorsVoteInfo v"])

lemma grows_upd:
  assumes "\<forall>p. P (biHeight b) = Some p \<longrightarrow> paramsValid p"
  shows "grows b (pvUpd P gen m (pcUpd P gen k b))"
  using assms weightIn_nonneg by (auto simp: grows_def pvUpd_def pcUpd_def split: option.split)

lemma paramsGood_valid: "paramsGood p \<Longrightarrow> paramsValid p"
  by (simp add: paramsGood_def)

lemma countInv_valid: "countInv P infos active PV PC \<Longrightarrow> b \<in> set infos \<Longrightarrow> P (biHeight b) = Some p \<Longrightarrow> paramsGood p"
  by (fastforce simp: countInv_def entryOk_def)

lemma activeOk_setLargest: "activeOk active \<Longrightarrow> 0 \<le> h \<Longrightarrow> activeOk (setLargest gen h active)"
  by (auto simp: activeOk_def setLargest_def list_all_length nth_list_update dest!: findIndex_Some split: option.split)

lemma vote_result:
  assumes inv: "countInv P (blockBFTInfos v) (activeValidatorsVoteInfo v) PV PC" and act: "activeOk (activeValidatorsVoteInfo v)"
    and vote: "voteOk P gen minPc minPv (blockBFTInfos v) (activeValidatorsVoteInfo v) PV" and pos: "0 \<le> minPc"
    and eq: "active' = (let hits = filter (pcHit P minPc) (blockBFTInfos v) in
       if hits = [] then activeValidatorsVoteInfo v else setLargest gen (biHeight (hd hits)) (activeValidatorsVoteInfo v))"
  shows "votePost P v (v\<lparr>blockBFTInfos := map (pvUpd P gen minPv) (map (pcUpd P gen minPc) (blockBFTInfos v)), activeValidatorsVoteInfo := active'\<rparr>)"
proof -
  have hit: "0 \<le> biHeight (hd (filter (pcHit P minPc) (blockBFTInfos v)))" if "filter (pcHit P minPc) (blockBFTInfos v) \<noteq> []"
  proof -
    have "pcHit P minPc (hd (filter (pcHit P minPc) (blockBFTInfos v)))" using hd_in_set[OF that] by simp
    then show ?thesis using pos by (simp add: pcHit_def)
  qed
  have "activeOk active'" unfolding eq Let_def using act hit activeOk_setLargest by simp
  moreover have "list_all2 grows (blockBFTInfos v) (map (pvUpd P gen minPv) (map (pcUpd P gen minPc) (blockBFTInfos v)))"
    using countInv_valid[OF inv nth_mem] by (auto simp: list_all2_conv_all_nth intro!: grows_upd dest: paramsGood_valid)
  ultimately show ?thesis using count_vote[OF inv vote eq] by (auto simp: votePost_def)
qed

lemma wp_updatePrevotesPrecommits:
  assumes inv: "countInv (paramsAt lib (paramsStore s)) (blockBFTInfos v) (activeValidatorsVoteInfo v) PV PC"
    and act: "activeOk (activeValidatorsVoteInfo v)" and c: "cacheOk lib (paramsStore s) c"
    and fresh: "\<And>b0 bs b. blockBFTInfos v = b0 # bs \<Longrightarrow> b \<in> set (b0 # bs) \<Longrightarrow> biMaxHeightGenerated b0 < biHeight b \<Longrightarrow>
       biGeneratorAddress b0 \<notin> PV (biHeight b)"
  shows "wp (updatePrevotesPrecommits lib v c)
    (\<lambda>(v', c') t. t = s \<and> cacheOk lib (paramsStore s) c' \<and> votePost (paramsAt lib (paramsStore s)) v v') (\<lambda>_ _. True) s"
proof (cases "blockBFTInfos v")
  case Nil
  then show ?thesis using votePost_refl[OF inv act] c by (simp add: updatePrevotesPrecommits_def wp)
next
  case (Cons b0 bs)
  let ?P = "paramsAt lib (paramsStore s)" and ?gen = "biGeneratorAddress b0" and ?infos = "blockBFTInfos v" and ?active = "activeValidatorsVoteInfo v"
  have d: "descending ?infos" using inv consec_descending by (simp add: countInv_def)
  show ?thesis
  proof (cases "biMaxHeightGenerated b0 \<ge> biHeight b0 \<or> find (\<lambda>a. viAddress a = ?gen) ?active = None")
    case True
    then show ?thesis using votePost_refl[OF inv act] c Cons by (auto simp: updatePrevotesPrecommits_def wp)
  next
    case False
    then obtain vi where lt: "biMaxHeightGenerated b0 < biHeight b0" and vi: "find (\<lambda>a. viAddress a = ?gen) ?active = Some vi" by auto
    have vi2: "vi \<in> set ?active" "viAddress vi = ?gen" using find_SomeD[OF vi] by auto
    show ?thesis
    proof (cases "getHeightNotPrevoted v")
      case (Inl e)
      then show ?thesis using Cons lt vi by (simp add: updatePrevotesPrecommits_def wp)
    next
      case (Inr hnp)
      define minPc where "minPc = max (max (viMinActiveHeight vi) (hnp + 1)) (viLargestHeightPrecommit vi + 1)"
      define minPv where "minPv = max (biMaxHeightGenerated b0 + 1) (viMinActiveHeight vi)"
      have pos: "0 \<le> minPc" using act vi2 by (auto simp: activeOk_def list_all_iff minPc_def)
      have main: "wp (precommitLoop lib ?gen minPc ?infos ?active False c) (\<lambda>(infos, active, cache).
          wp (prevoteLoop lib ?gen minPv infos cache) (\<lambda>(infos, cache) t. t = s \<and> cacheOk lib (paramsStore s) cache \<and>
             votePost ?P v (v\<lparr>blockBFTInfos := infos, activeValidatorsVoteInfo := active\<rparr>)) (\<lambda>_ _. True)) (\<lambda>_ _. True) s"
      proof (rule wp_mono[OF wp_precommitLoop[OF c d]], goal_cases)
        case (1 res t)
        obtain infos1 active1 c1 where res: "res = (infos1, active1, c1)" by (cases res)
        have pc: "t = s" "cacheOk lib (paramsStore s) c1" "infos1 = map (pcUpd ?P ?gen minPc) ?infos"
          "\<forall>b \<in> set ?infos. pcHit ?P minPc b \<longrightarrow> known ?P ?gen b"
          "active1 = (let hits = filter (pcHit ?P minPc) ?infos in if hits = [] then ?active else setLargest ?gen (biHeight (hd hits)) ?active)"
          using 1 res by (auto simp: pcPost_def Let_def)
        have d1: "descending infos1" unfolding pc(3) using d by (simp add: sorted_wrt_map)
        have "wp (prevoteLoop lib ?gen minPv infos1 c1) (\<lambda>(infos, cache) t. t = s \<and> cacheOk lib (paramsStore s) cache \<and>
             votePost ?P v (v\<lparr>blockBFTInfos := infos, activeValidatorsVoteInfo := active1\<rparr>)) (\<lambda>_ _. True) s"
        proof (rule wp_mono[OF wp_prevoteLoop[OF pc(2) d1]], goal_cases)
          case (1 res2 t2)
          obtain infos2 c2 where res2: "res2 = (infos2, c2)" by (cases res2)
          have pv: "t2 = s" "cacheOk lib (paramsStore s) c2" "infos2 = map (pvUpd ?P ?gen minPv) infos1"
            "\<forall>b \<in> set infos1. minPv \<le> biHeight b \<longrightarrow> known ?P ?gen b"
            using 1 res2 by (auto simp: pvPost_def Let_def)
          have "\<forall>b \<in> set ?infos. minPv \<le> biHeight b \<longrightarrow> known ?P ?gen b \<and> ?gen \<notin> PV (biHeight b)"
            using pv(4) fresh[OF Cons] unfolding pc(3) by (auto simp: minPv_def Cons)
          then have vote: "voteOk ?P ?gen minPc minPv ?infos ?active PV"
            unfolding voteOk_def using vi2 pc(4) Cons by (auto simp: minPc_def)
          then show ?case using vote_result[OF inv act vote pos pc(5)] pv pc(3) res2 by simp
        qed simp
        then show ?case using res pc(1) by simp
      qed simp
      then show ?thesis using Cons lt vi Inr
        by (simp add: updatePrevotesPrecommits_def wp Let_def minPc_def[symmetric] minPv_def[symmetric] split_def del: precommitLoop.simps)
    qed
  qed
qed

end
