(* ===== verification/BFTSteps.thy ===== *)
theory BFTSteps
  imports BFTSafety
begin

text \<open>
  The BFT component as a state machine. A step is the execution of the next block, with
  what the consensus component has verified of its header, or a change of the parameters;
  every reachable state satisfies \<open>bftInv\<close>.
\<close>

section \<open>Heights\<close>

definition highest :: "(blockBFTInfo \<Rightarrow> bool) \<Rightarrow> blockBFTInfo list \<Rightarrow> int \<Rightarrow> int" where
  "highest R infos m = (case find R infos of None \<Rightarrow> m | Some b \<Rightarrow> biHeight b)"

lemma consec_range:
  assumes "consec infos" "infos \<noteq> []" "biHeight (last infos) \<le> m" "m \<le> biHeight (hd infos)"
  shows "\<exists>b \<in> set infos. biHeight b = m"
proof -
  note nth = assms(1)[unfolded consec_def, rule_format]
  have l: "biHeight (last infos) = biHeight (infos ! 0) - int (length infos - 1)"
    using nth[of "length infos - 1"] assms(2) by (simp add: last_conv_nth)
  let ?i = "nat (biHeight (infos ! 0) - m)"
  have hd: "hd infos = infos ! 0" using assms(2) by (simp add: hd_conv_nth)
  have i: "?i < length infos" using l assms(2,3,4) hd by (cases infos) auto
  have "biHeight (infos ! ?i) = m" using nth[OF i] assms(4) hd by simp
  then show ?thesis using i nth_mem by blast
qed

lemma consec_last: "consec infos \<Longrightarrow> b \<in> set infos \<Longrightarrow> biHeight (last infos) \<le> biHeight b"
proof -
  assume a: "consec infos" "b \<in> set infos"
  then have "descending infos" by (simp add: consec_descending)
  then show ?thesis using a(2) by (induction infos) (auto simp: less_imp_le)
qed

lemma find_top: "descending infos \<Longrightarrow> find R infos = Some c \<Longrightarrow> b \<in> set infos \<Longrightarrow> R b \<Longrightarrow> biHeight b \<le> biHeight c"
  by (induction infos) (auto split: if_splits)

lemma highest_spec:
  assumes c: "consec infos" "infos \<noteq> []" and m: "m \<le> biHeight (hd infos)" "\<And>b. b \<in> set infos \<Longrightarrow> biHeight b = m \<Longrightarrow> R b"
  shows "m \<le> highest R infos m" "highest R infos m \<le> biHeight (hd infos)"
    "b \<in> set infos \<Longrightarrow> biHeight b = highest R infos m \<Longrightarrow> R b" "b \<in> set infos \<Longrightarrow> R b \<Longrightarrow> biHeight b \<le> highest R infos m"
proof -
  have d: "descending infos" using c(1) by (rule consec_descending)
  have top: "biHeight b \<le> biHeight (hd infos)" if "b \<in> set infos" for b using d that by (cases infos) auto
  show "m \<le> highest R infos m"
  proof (cases "find R infos")
    case (Some x)
    have x: "x \<in> set infos" using find_SomeD[OF Some] by simp
    show ?thesis
    proof (cases "biHeight (last infos) \<le> m")
      case True
      then obtain b where "b \<in> set infos" "biHeight b = m" using consec_range[OF c _ m(1)] by blast
      then show ?thesis using find_top[OF d Some, of b] m(2) Some by (simp add: highest_def)
    next
      case False
      then show ?thesis using consec_last[OF c(1) x] Some by (simp add: highest_def)
    qed
  qed (simp add: highest_def)
  show "highest R infos m \<le> biHeight (hd infos)"
    using m(1) top find_SomeD[of R infos] by (auto simp: highest_def split: option.split)
  show "b \<in> set infos \<Longrightarrow> biHeight b = highest R infos m \<Longrightarrow> R b"
  proof (cases "find R infos")
    case None
    assume "b \<in> set infos" "biHeight b = highest R infos m"
    with None m(2) show ?thesis by (simp add: highest_def)
  next
    case (Some x)
    assume "b \<in> set infos" "biHeight b = highest R infos m"
    with Some have "b = x" using height_unique[OF d, of b x] find_SomeD[OF Some] by (simp add: highest_def)
    with find_SomeD[OF Some] show ?thesis by simp
  qed
  show "b \<in> set infos \<Longrightarrow> R b \<Longrightarrow> biHeight b \<le> highest R infos m"
    using find_top[OF d] by (cases "find R infos") (auto simp: highest_def find_None_iff)
qed

definition heightsInv :: "heightParams \<Rightarrow> bftVotes \<Rightarrow> bool" where
  "heightsInv P v = (maxHeightPrecommitted v \<le> maxHeightPrevoted v \<and> maxHeightPrevoted v < nextHeightOf v \<and>
     (\<forall>b \<in> set (blockBFTInfos v). biMaxHeightPrevoted b \<le> maxHeightPrevoted v) \<and>
     (\<forall>b \<in> set (blockBFTInfos v). biHeight b = maxHeightPrevoted v \<longrightarrow> reaches P biPrevoteWeight prevoteThreshold b) \<and>
     (\<forall>b \<in> set (blockBFTInfos v). biHeight b = maxHeightPrecommitted v \<longrightarrow> reaches P biPrecommitWeight precommitThreshold b))"

lemma precommitted_is_prevoted:
  assumes "countInv P infos active PV PC" "b \<in> set infos" "reaches P biPrecommitWeight precommitThreshold b"
  shows "reaches P biPrevoteWeight prevoteThreshold b"
proof -
  obtain p where p: "P (biHeight b) = Some p" "paramsGood p" "biPrecommitWeight b = wsum p (PC (biHeight b))"
    "PC (biHeight b) \<noteq> {} \<longrightarrow> prevoteThreshold p \<le> biPrevoteWeight b"
    using assms(1,2) by (auto simp: countInv_def entryOk_def)
  have "0 \<le> aggregateBFTWeight (validators p)" using wsum_le_aggregate[OF p(2), of "{}"] by (simp add: wsum_def)
  then have "0 < precommitThreshold p" using p(2) by (auto simp: paramsGood_def intro: less_le_trans[of _ "aggregateBFTWeight (validators p) div 3 + 1"])
  then have "PC (biHeight b) \<noteq> {}" using assms(3) p by (auto simp: reaches_def wsum_def)
  then show ?thesis using p by (simp add: reaches_def)
qed

definition raiseHeights :: "heightParams \<Rightarrow> bftVotes \<Rightarrow> bftVotes" where
  "raiseHeights P v = v\<lparr>maxHeightPrevoted := highest (reaches P biPrevoteWeight prevoteThreshold) (blockBFTInfos v) (maxHeightPrevoted v),
     maxHeightPrecommitted := highest (reaches P biPrecommitWeight precommitThreshold) (blockBFTInfos v) (maxHeightPrecommitted v)\<rparr>"

definition beforeRaise :: "heightParams \<Rightarrow> bftVotes \<Rightarrow> bool" where
  "beforeRaise P v = (blockBFTInfos v \<noteq> [] \<and> maxHeightPrecommitted v \<le> maxHeightPrevoted v \<and>
     maxHeightPrevoted v \<le> biHeight (hd (blockBFTInfos v)) \<and>
     (\<forall>b \<in> set (blockBFTInfos v). biMaxHeightPrevoted b \<le> maxHeightPrevoted v) \<and>
     (\<forall>b \<in> set (blockBFTInfos v). biHeight b = maxHeightPrevoted v \<longrightarrow> reaches P biPrevoteWeight prevoteThreshold b) \<and>
     (\<forall>b \<in> set (blockBFTInfos v). biHeight b = maxHeightPrecommitted v \<longrightarrow> reaches P biPrecommitWeight precommitThreshold b))"

lemma raise_heights:
  assumes inv: "countInv P (blockBFTInfos v) (activeValidatorsVoteInfo v) PV PC" and b: "beforeRaise P v"
  shows "heightsInv P (raiseHeights P v)" "maxHeightPrevoted v \<le> maxHeightPrevoted (raiseHeights P v)"
    "maxHeightPrecommitted v \<le> maxHeightPrecommitted (raiseHeights P v)"
proof -
  let ?v = "raiseHeights P v" and ?infos = "blockBFTInfos v"
  let ?R = "reaches P biPrevoteWeight prevoteThreshold" and ?C = "reaches P biPrecommitWeight precommitThreshold"
  have c: "consec ?infos" "?infos \<noteq> []" using inv b by (auto simp: countInv_def beforeRaise_def)
  note r = highest_spec[OF c, of "maxHeightPrevoted v" ?R] and k = highest_spec[OF c, of "maxHeightPrecommitted v" ?C]
  have le: "maxHeightPrecommitted v \<le> maxHeightPrevoted v" "maxHeightPrevoted v \<le> biHeight (hd ?infos)" using b by (auto simp: beforeRaise_def)
  have hyps: "\<And>b. b \<in> set ?infos \<Longrightarrow> biHeight b = maxHeightPrevoted v \<Longrightarrow> ?R b" "\<And>b. b \<in> set ?infos \<Longrightarrow> biHeight b = maxHeightPrecommitted v \<Longrightarrow> ?C b"
    using b by (auto simp: beforeRaise_def)
  have le': "maxHeightPrecommitted v \<le> biHeight (hd ?infos)" using le by simp
  show up: "maxHeightPrevoted v \<le> maxHeightPrevoted ?v" using r(1)[OF le(2) hyps(1)] by (simp add: raiseHeights_def)
  show "maxHeightPrecommitted v \<le> maxHeightPrecommitted ?v" using k(1)[OF le' hyps(2)] by (simp add: raiseHeights_def)
  have "maxHeightPrecommitted ?v \<le> maxHeightPrevoted ?v"
  proof (cases "find ?C ?infos")
    case None
    then show ?thesis using le up by (simp add: raiseHeights_def highest_def)
  next
    case (Some x)
    then have "?R x" using precommitted_is_prevoted[OF inv] find_SomeD[OF Some] by blast
    then show ?thesis using Some r(4)[OF le(2) hyps(1), of x] find_SomeD[OF Some] by (simp add: raiseHeights_def highest_def)
  qed
  moreover have "maxHeightPrevoted ?v < nextHeightOf ?v"
    using r(2)[OF le(2) hyps(1)] c(2) by (cases ?infos) (auto simp: raiseHeights_def nextHeightOf_def)
  moreover have "biMaxHeightPrevoted x \<le> maxHeightPrevoted ?v" if "x \<in> set ?infos" for x
    using that up b by (fastforce simp: beforeRaise_def)
  ultimately show "heightsInv P ?v" using r(3)[OF le(2) hyps(1)] k(3)[OF le' hyps(2)]
    by (simp add: heightsInv_def raiseHeights_def)
qed

section \<open>A new block in the window\<close>

text \<open>
  A header that does not contradict the generator's latest block names a largest height
  generated that covers that block.
\<close>

lemma not_contradicting_covers:
  assumes "\<not> areDistinctHeadersContradicting b h" "bhGeneratorAddress b = bhGeneratorAddress h"
    "bhHeight b < bhHeight h" "bhMaxHeightPrevoted b \<le> bhMaxHeightPrevoted h"
  shows "bhHeight b \<le> bhMaxHeightGenerated h"
  using assms by (auto simp: areDistinctHeadersContradicting_def Let_def split: if_splits)

lemma find_first_top:
  assumes "descending infos" "c \<in> set infos" "biGeneratorAddress c = gen"
  shows "\<exists>d. find (\<lambda>b. biGeneratorAddress b = gen) infos = Some d \<and> biHeight c \<le> biHeight d"
proof (cases "find (\<lambda>b. biGeneratorAddress b = gen) infos")
  case None
  then show ?thesis using assms by (auto simp: find_None_iff)
next
  case (Some d)
  then show ?thesis using find_top[OF assms(1) Some assms(2)] assms(3) by simp
qed

definition headerNonNeg :: "blockHeader \<Rightarrow> bool" where
  "headerNonNeg h = list_all (\<lambda>n. 0 \<le> n) [hHeight h, hMaxHeightGenerated h, hMaxHeightPrevoted h, acHeight (hAggregateCommit h)]"

text \<open>What the consensus component verifies of a header before it executes the block.\<close>

definition verified :: "bftVotes \<Rightarrow> blockHeader \<Rightarrow> bool" where
  "verified v h = (headerNonNeg h \<and> hHeight h = nextHeightOf v \<and> hMaxHeightPrevoted h = maxHeightPrevoted v \<and>
     \<not> contradictsInfos (blockBFTInfos v) h)"

lemma tip_below_next: "consec (blockBFTInfos v) \<Longrightarrow> b \<in> set (blockBFTInfos v) \<Longrightarrow> biHeight b < nextHeightOf v"
  using consec_descending[of "blockBFTInfos v"] by (cases "blockBFTInfos v") (auto simp: nextHeightOf_def)

lemma prevote_fresh:
  assumes inv: "countInv P (blockBFTInfos v) active PV PC" "heightsInv P v" and h: "verified v h"
    and b: "b \<in> set (blockBFTInfos v)" "hMaxHeightGenerated h < biHeight b"
  shows "hGeneratorAddress h \<notin> PV (biHeight b)"
proof
  let ?infos = "blockBFTInfos v" and ?g = "hGeneratorAddress h"
  assume "?g \<in> PV (biHeight b)"
  then obtain c where c: "c \<in> set ?infos" "biGeneratorAddress c = ?g" "biHeight b \<le> biHeight c" using countInv_PV[OF inv(1) b(1)] by blast
  have con: "consec ?infos" using inv(1) by (simp add: countInv_def)
  obtain d where d: "find (\<lambda>b. biGeneratorAddress b = ?g) ?infos = Some d" "biHeight c \<le> biHeight d"
    using find_first_top[OF consec_descending[OF con] c(1,2)] by blast
  have d2: "d \<in> set ?infos" "biGeneratorAddress d = ?g" using find_SomeD[OF d(1)] by auto
  have "\<not> areDistinctHeadersContradicting (bftHeaderOfInfo d) (bftHeaderOf h)" using h d(1) by (simp add: verified_def contradictsInfos_def)
  then have "biHeight d \<le> hMaxHeightGenerated h"
    using not_contradicting_covers[of "bftHeaderOfInfo d" "bftHeaderOf h"] d2 h inv(2) tip_below_next[OF con d2(1)]
    by (simp add: bftHeaderOf_def bftHeaderOfInfo_def verified_def heightsInv_def)
  then show False using b(2) c(3) d(2) by simp
qed

lemma insert_block:
  assumes inv: "countInv P (blockBFTInfos v) (activeValidatorsVoteInfo v) PV PC" "heightsInv P v" and h: "verified v h"
    and p: "P (hHeight h) = Some p" "paramsGood p" and n: "0 < n" and v0: "v0 = insertBlockBFTInfo v h n"
  shows "countInv P (blockBFTInfos v0) (activeValidatorsVoteInfo v0) (PV(hHeight h := {})) (PC(hHeight h := {})) \<and> beforeRaise P v0"
proof -
  let ?b0 = "getBlockBFTProperties h"
  have f: "biHeight ?b0 = hHeight h" "biPrevoteWeight ?b0 = 0" "biPrecommitWeight ?b0 = 0" "biMaxHeightPrevoted ?b0 = hMaxHeightPrevoted h"
    by (simp_all add: getBlockBFTProperties_def)
  have i: "blockBFTInfos v0 = take n (?b0 # blockBFTInfos v)" "activeValidatorsVoteInfo v0 = activeValidatorsVoteInfo v"
    "maxHeightPrevoted v0 = maxHeightPrevoted v" "maxHeightPrecommitted v0 = maxHeightPrecommitted v" by (simp_all add: v0 insertBlockBFTInfo_def)
  have hd: "blockBFTInfos v = [] \<or> biHeight ?b0 = biHeight (hd (blockBFTInfos v)) + 1"
    using h by (cases "blockBFTInfos v") (auto simp: f verified_def nextHeightOf_def)
  have lt: "maxHeightPrevoted v < hHeight h" "maxHeightPrecommitted v < hHeight h" using inv(2) h by (auto simp: heightsInv_def verified_def)
  have mem: "b = ?b0 \<or> b \<in> set (blockBFTInfos v)" if "b \<in> set (blockBFTInfos v0)" for b using that in_set_takeD[of b n] unfolding i by fastforce
  have "beforeRaise P v0" unfolding beforeRaise_def i(3,4)
  proof (intro conjI ballI impI)
    show "blockBFTInfos v0 \<noteq> []" "maxHeightPrevoted v \<le> biHeight (hd (blockBFTInfos v0))" using n lt f by (auto simp: i(1) hd_take)
    show "maxHeightPrecommitted v \<le> maxHeightPrevoted v" using inv(2) by (simp add: heightsInv_def)
  next
    fix b assume b: "b \<in> set (blockBFTInfos v0)"
    show "biMaxHeightPrevoted b \<le> maxHeightPrevoted v" using mem[OF b] inv(2) f h by (auto simp: heightsInv_def verified_def)
    show "biHeight b = maxHeightPrevoted v \<Longrightarrow> reaches P biPrevoteWeight prevoteThreshold b"
      using mem[OF b] inv(2) f lt by (auto simp: heightsInv_def)
    show "biHeight b = maxHeightPrecommitted v \<Longrightarrow> reaches P biPrecommitWeight precommitThreshold b"
      using mem[OF b] inv(2) f lt by (auto simp: heightsInv_def)
  qed
  then show ?thesis using count_insert[OF inv(1) hd f(2,3), of p n] p by (simp add: i f)
qed

lemma reaches_grows:
  "grows b b' \<Longrightarrow> reaches P biPrevoteWeight t b \<Longrightarrow> reaches P biPrevoteWeight t b'"
  "grows b b' \<Longrightarrow> reaches P biPrecommitWeight t b \<Longrightarrow> reaches P biPrecommitWeight t b'"
  by (auto simp: reaches_def grows_def split: option.splits)

lemma grows_member: "list_all2 grows bs bs' \<Longrightarrow> b' \<in> set bs' \<Longrightarrow> \<exists>b \<in> set bs. grows b b'"
  by (induction bs bs' rule: list_all2_induct) auto

lemma beforeRaise_grows:
  assumes "beforeRaise P v" "votePost P v v'"
  shows "beforeRaise P v'"
proof -
  have g: "list_all2 grows (blockBFTInfos v) (blockBFTInfos v')" and m: "maxHeightPrevoted v' = maxHeightPrevoted v" "maxHeightPrecommitted v' = maxHeightPrecommitted v"
    using assms(2) by (auto simp: votePost_def)
  have ne: "blockBFTInfos v' \<noteq> []" "biHeight (hd (blockBFTInfos v')) = biHeight (hd (blockBFTInfos v))"
    using g assms(1) by (cases "blockBFTInfos v"; cases "blockBFTInfos v'"; auto simp: beforeRaise_def grows_def)+
  show ?thesis unfolding beforeRaise_def m
  proof (intro conjI ballI impI)
    show "blockBFTInfos v' \<noteq> []" "maxHeightPrevoted v \<le> biHeight (hd (blockBFTInfos v'))" "maxHeightPrecommitted v \<le> maxHeightPrevoted v"
      using ne assms(1) by (auto simp: beforeRaise_def)
  next
    fix b' assume "b' \<in> set (blockBFTInfos v')"
    then obtain b where b: "b \<in> set (blockBFTInfos v)" "grows b b'" using grows_member[OF g] by blast
    show "biMaxHeightPrevoted b' \<le> maxHeightPrevoted v" using b assms(1) by (simp add: beforeRaise_def grows_def)
    show "biHeight b' = maxHeightPrevoted v \<Longrightarrow> reaches P biPrevoteWeight prevoteThreshold b'"
      using b assms(1) reaches_grows(1)[OF b(2)] by (simp add: beforeRaise_def grows_def)
    show "biHeight b' = maxHeightPrecommitted v \<Longrightarrow> reaches P biPrecommitWeight precommitThreshold b'"
      using b assms(1) reaches_grows(2)[OF b(2)] by (simp add: beforeRaise_def grows_def)
  qed
qed

section \<open>The invariant of the stores\<close>

definition goodStore :: "jsLib \<Rightarrow> bytes kv \<Rightarrow> bool" where
  "goodStore lib r = (\<forall>e \<in> set r. \<exists>p. dec (paramsSchema lib) (snd e) = Inr p \<and> paramsGood p)"

definition bftInv :: "bftConfig \<Rightarrow> 'a bftStores_scheme \<Rightarrow> bftVotes \<Rightarrow> bool" where
  "bftInv cfg s v = (getVotes cfg s = (Inr v, s) \<and> votesValid v \<and> keysOk (paramsStore s) \<and> goodStore (bftLib cfg) (paramsStore s) \<and>
     (\<exists>PV PC. countInv (paramsAt (bftLib cfg) (paramsStore s)) (blockBFTInfos v) (activeValidatorsVoteInfo v) PV PC) \<and>
     heightsInv (paramsAt (bftLib cfg) (paramsStore s)) v)"

lemma goodStore_at: "goodStore lib r \<Longrightarrow> paramsAt lib r h = Some p \<Longrightarrow> paramsGood p"
proof -
  assume g: "goodStore lib r" and p: "paramsAt lib r h = Some p"
  obtain e where e: "kvrange [0, 0, 0, 0] e r \<noteq> []" "dec (paramsSchema lib) (snd (last (kvrange [0, 0, 0, 0] e r))) = Inr p"
    using p by (auto simp: paramsAt_def Let_def split: sum.splits if_splits)
  have "last (kvrange [0, 0, 0, 0] e r) \<in> set r" using last_in_set[OF e(1)] by (simp add: kvrange_def)
  then show ?thesis using g e(2) by (fastforce simp: goodStore_def)
qed

lemma wp_known: "c s = (Inr a, t) \<Longrightarrow> wp c Q E s = Q a t"
  by (simp add: wp_def)

lemma wp_cacheParameters:
  assumes "keysOk (paramsStore s)"
    "\<And>c. cacheOk lib (paramsStore s) c \<Longrightarrow> (\<And>h. from' \<le> h \<Longrightarrow> h \<le> to \<Longrightarrow> \<exists>p. paramsAt lib (paramsStore s) h = Some p) \<Longrightarrow> Q c s"
  shows "wp (cacheParameters lib from' to Map.empty) Q (\<lambda>_ _. True) s"
proof -
  have "Q c t" if "cacheParameters lib from' to Map.empty s = (Inr c, t)" for c t
  proof -
    note c = cacheParameters_lookup[OF assms(1) that]
    have "c h = Some p \<Longrightarrow> paramsAt lib (paramsStore s) h = Some p" for h p
      using c[THEN conjunct2, rule_format, of h] by (cases "from' \<le> h \<and> h \<le> to") (auto simp: getBFTParameters_paramsAt)
    moreover have "from' \<le> h \<Longrightarrow> h \<le> to \<Longrightarrow> \<exists>p. paramsAt lib (paramsStore s) h = Some p" for h
      using c[THEN conjunct2, rule_format, of h] by (auto simp: getBFTParameters_paramsAt)
    ultimately show ?thesis using assms(2)[of c] c by (simp add: cacheOk_def)
  qed
  then show ?thesis by (auto simp: wp_def split: prod.splits sum.splits)
qed

lemma highest_find: "(case map_option biHeight (find R infos) of None \<Rightarrow> m | Some h \<Rightarrow> h) = highest R infos m"
  by (simp add: highest_def split: option.split)

lemma wp_updateMaxHeights:
  assumes "cacheOk lib (paramsStore s) c"
    "\<And>c'. cacheOk lib (paramsStore s) c' \<Longrightarrow> Q (raiseHeights (paramsAt lib (paramsStore s)) v, c') s"
  shows "wp (bind (updateMaxHeightPrevoted lib v c) (\<lambda>(v, c). updateMaxHeightPrecommitted lib v c)) Q (\<lambda>_ _. True) s"
proof -
  let ?P = "paramsAt lib (paramsStore s)"
  let ?v = "v\<lparr>maxHeightPrevoted := highest (reaches ?P biPrevoteWeight prevoteThreshold) (blockBFTInfos v) (maxHeightPrevoted v)\<rparr>"
  have 2: "wp (updateMaxHeightPrecommitted lib ?v c') Q (\<lambda>_ _. True) s" if c': "cacheOk lib (paramsStore s) c'" for c'
    unfolding updateMaxHeightPrecommitted_def wp_bind
    by (rule wp_mono[OF wp_firstReaching[OF c']])
      (use assms(2) in \<open>auto simp: wp raiseHeights_def highest_def split: option.splits\<close>)
  show ?thesis unfolding updateMaxHeightPrevoted_def wp_bind
  proof (rule wp_mono[OF wp_firstReaching[OF assms(1)]], goal_cases)
    case (1 res t)
    obtain r c' where res: "res = (r, c')" by (cases res)
    have "(case r of None \<Rightarrow> v | Some h \<Rightarrow> v\<lparr>maxHeightPrevoted := h\<rparr>) = ?v"
      using 1 res by (auto simp: highest_def split: option.split)
    then show ?case using 1 res 2[of c'] by (simp add: wp)
  qed simp
qed

lemma entryOk_cong: "P (biHeight b) = P' (biHeight b) \<Longrightarrow> entryOk P PV PC b = entryOk P' PV PC b"
  by (simp add: entryOk_def)

lemma countInv_cong:
  "(\<And>b. b \<in> set infos \<Longrightarrow> P (biHeight b) = P' (biHeight b)) \<Longrightarrow> countInv P infos active PV PC = countInv P' infos active PV PC"
  unfolding countInv_def using entryOk_cong[of P _ P' PV PC] by (simp cong: ball_cong)

lemma reaches_cong: "P (biHeight b) = P' (biHeight b) \<Longrightarrow> reaches P w t b = reaches P' w t b"
  by (simp add: reaches_def)

lemma heightsInv_cong:
  "(\<And>b. b \<in> set (blockBFTInfos v) \<Longrightarrow> P (biHeight b) = P' (biHeight b)) \<Longrightarrow> heightsInv P v = heightsInv P' v"
  unfolding heightsInv_def using reaches_cong[of P _ P'] by blast

text \<open>Storing the votes and pruning the parameters below the window.\<close>

lemma store_votes:
  assumes ok: "keysOk (paramsStore s)" "goodStore (bftLib cfg) (paramsStore s)" and v: "votesValid v" "blockBFTInfos v \<noteq> []"
    and inv: "countInv (paramsAt (bftLib cfg) (paramsStore s)) (blockBFTInfos v) (activeValidatorsVoteInfo v) PV PC"
      "heightsInv (paramsAt (bftLib cfg) (paramsStore s)) v"
  shows "wp (andThen (setVotes cfg v) (deleteBFTParameters (min (biHeight (last (blockBFTInfos v))) m))) (\<lambda>_ t. bftInv cfg t v) (\<lambda>_ _. True) s"
proof (cases "enc (votesSchema (bftLib cfg)) v")
  case (Inl e)
  then show ?thesis by (simp add: setVotes_def wp)
next
  case (Inr bs)
  let ?m = "min (biHeight (last (blockBFTInfos v))) m" and ?r = "paramsStore s"
  define s1 where "s1 = s\<lparr>votesStore := kvset EMPTY_KEY bs (votesStore s)\<rparr>"
  have "bftInv cfg (s1\<lparr>paramsStore := pruned e ?r\<rparr>) v" if e: "uint32BE ?m = Inr e" for e
  proof -
    have at: "paramsAt (bftLib cfg) (pruned e ?r) (biHeight b) = paramsAt (bftLib cfg) ?r (biHeight b)" if "b \<in> set (blockBFTInfos v)" for b
      using paramsAt_pruned[OF ok(1) e] consec_last[OF _ that] inv(1) by (simp add: countInv_def)
    have "goodStore (bftLib cfg) (pruned e ?r)" using ok(2) by (auto simp: goodStore_def pruned_def)
    moreover have "getVotes cfg (s1\<lparr>paramsStore := pruned e ?r\<rparr>) = (Inr v, s1\<lparr>paramsStore := pruned e ?r\<rparr>)"
      using votes_sch.dec_enc[OF v(1) Inr] by (simp add: getVotes_def storeGet_def s1_def bind_def gets_def liftE_def)
    ultimately show ?thesis using v keysOk_pruned[OF ok(1)] inv
        countInv_cong[of _ "paramsAt (bftLib cfg) (pruned e ?r)", OF at] heightsInv_cong[of _ "paramsAt (bftLib cfg) (pruned e ?r)", OF at]
      by (auto simp: bftInv_def s1_def)
  qed
  note inv1 = this
  have set: "wp (setVotes cfg v) Q E s = Q () s1" for Q E using Inr by (simp add: setVotes_def wp s1_def, cases s, simp)
  have "paramsStore s1 = ?r" by (simp add: s1_def)
  with inv1 have "wp (deleteBFTParameters ?m) (\<lambda>_ t. bftInv cfg t v) (\<lambda>_ _. True) s1"
    by (cases "uint32BE ?m") (simp_all add: wp_def deleteBFTParameters_eq)
  then show ?thesis unfolding wp_andThen set .
qed

lemma insert_valid: "votesValid v \<Longrightarrow> headerNonNeg h \<Longrightarrow> votesValid (insertBlockBFTInfo v h n)"
  by (auto simp: votesValid_def insertBlockBFTInfo_def list_all_iff nonNegInfo_def getBlockBFTProperties_def headerNonNeg_def dest!: in_set_takeD)

lemma votePost_grows: "votePost P v v' \<Longrightarrow> list_all2 grows (blockBFTInfos v) (blockBFTInfos v')"
  by (simp add: votePost_def)

lemma votePost_valid:
  assumes "votesValid v" "votePost P v v'"
  shows "votesValid v'"
proof -
  have "nonNegInfo b'" if m: "b' \<in> set (blockBFTInfos v')" for b'
  proof -
    obtain b where "b \<in> set (blockBFTInfos v)" "grows b b'" using grows_member[OF votePost_grows[OF assms(2)] m] by blast
    then show ?thesis using assms(1) by (auto simp: votesValid_def list_all_iff nonNegInfo_def grows_def)
  qed
  then show ?thesis using assms by (auto simp: votesValid_def votePost_def activeOk_def list_all_iff)
qed

definition raisePost :: "bftVotes \<Rightarrow> bftVotes \<Rightarrow> bool" where
  "raisePost v v' = (maxHeightPrevoted v \<le> maxHeightPrevoted v' \<and> maxHeightPrecommitted v \<le> maxHeightPrecommitted v' \<and>
     (maxHeightPrecommitted v < maxHeightPrecommitted v' \<longrightarrow> (\<exists>b \<in> set (blockBFTInfos v'). biHeight b = maxHeightPrecommitted v')))"

definition blockPost :: "bftVotes \<Rightarrow> bftVotes \<Rightarrow> bool" where
  "blockPost v v' = (raisePost v v' \<and> nextHeightOf v' = nextHeightOf v + 1)"

lemma highest_member: "m < highest R infos m \<Longrightarrow> \<exists>b \<in> set infos. biHeight b = highest R infos m"
  by (auto simp: highest_def dest: find_SomeD split: option.splits)

lemma raise_post: "countInv P (blockBFTInfos v) (activeValidatorsVoteInfo v) PV PC \<Longrightarrow> beforeRaise P v \<Longrightarrow>
    raisePost v (updateMaxHeightCertified (raiseHeights P v) h)"
  using raise_heights(2,3)[of P v PV PC] highest_member by (auto simp: raisePost_def raiseHeights_def updateMaxHeightCertified_def)

lemma next_after_insert:
  assumes "blockBFTInfos v0 = take n (b # bs)" "0 < n" "votePost P v0 v1"
  shows "nextHeightOf v1 = biHeight b + 1"
proof -
  have "blockBFTInfos v0 = b # take (n - 1) bs" using assms(1,2) by (cases n) auto
  then obtain c cs where "blockBFTInfos v1 = c # cs" "grows b c" using assms(3) by (auto simp: votePost_def list_all2_Cons1)
  then show ?thesis by (simp add: nextHeightOf_def grows_def)
qed

lemma certified_fields [simp]:
  "blockBFTInfos (updateMaxHeightCertified v h) = blockBFTInfos v" "activeValidatorsVoteInfo (updateMaxHeightCertified v h) = activeValidatorsVoteInfo v"
  "maxHeightPrevoted (updateMaxHeightCertified v h) = maxHeightPrevoted v" "maxHeightPrecommitted (updateMaxHeightCertified v h) = maxHeightPrecommitted v"
  by (simp_all add: updateMaxHeightCertified_def)

lemma raise_fields [simp]:
  "blockBFTInfos (raiseHeights P v) = blockBFTInfos v" "activeValidatorsVoteInfo (raiseHeights P v) = activeValidatorsVoteInfo v"
  by (simp_all add: raiseHeights_def)

lemma certified_heights: "heightsInv P v \<Longrightarrow> heightsInv P (updateMaxHeightCertified v h)"
  by (cases "blockBFTInfos v") (simp_all add: heightsInv_def nextHeightOf_def)

lemma finish_block:
  assumes ok: "keysOk (paramsStore s)" "goodStore (bftLib cfg) (paramsStore s)" and c: "cacheOk (bftLib cfg) (paramsStore s) c"
    and v: "votesValid v" "beforeRaise P v" "headerNonNeg h" and inv: "countInv P (blockBFTInfos v) (activeValidatorsVoteInfo v) PV PC"
    and P: "P = paramsAt (bftLib cfg) (paramsStore s)"
  shows "wp (bind (bind (updateMaxHeightPrevoted (bftLib cfg) v c) (\<lambda>(v, c). updateMaxHeightPrecommitted (bftLib cfg) v c)) (\<lambda>(v, c).
      let v = updateMaxHeightCertified v h in andThen (setVotes cfg v) (deleteBFTParameters (min (biHeight (last (blockBFTInfos v))) m))))
    (\<lambda>_ t. \<exists>v'. bftInv cfg t v' \<and> raisePost v v' \<and> nextHeightOf v' = nextHeightOf v) (\<lambda>_ _. True) s"
proof (subst wp_bind, rule wp_updateMaxHeights[OF c])
  fix c'
  let ?v = "updateMaxHeightCertified (raiseHeights P v) h"
  note r = raise_heights[OF inv v(2)]
  have val: "votesValid ?v" using v r(2,3)
    by (auto simp: votesValid_def raiseHeights_def updateMaxHeightCertified_def headerNonNeg_def)
  have ne: "blockBFTInfos v \<noteq> []" using v(2) by (simp add: beforeRaise_def)
  then have nx: "nextHeightOf ?v = nextHeightOf v" by (cases "blockBFTInfos v") (simp_all add: nextHeightOf_def)
  have "wp (andThen (setVotes cfg ?v) (deleteBFTParameters (min (biHeight (last (blockBFTInfos ?v))) m))) (\<lambda>_ t. bftInv cfg t ?v) (\<lambda>_ _. True) s"
    using ne store_votes[OF ok val, of PV PC m] inv certified_heights[OF r(1)] P by simp
  then have "wp (andThen (setVotes cfg ?v) (deleteBFTParameters (min (biHeight (last (blockBFTInfos ?v))) m)))
     (\<lambda>_ t. \<exists>v'. bftInv cfg t v' \<and> raisePost v v' \<and> nextHeightOf v' = nextHeightOf v) (\<lambda>_ _. True) s"
    by (rule wp_mono) (use raise_post[OF inv v(2)] nx in \<open>auto intro!: exI[of _ ?v]\<close>)
  then show "wp (case (raiseHeights (paramsAt (bftLib cfg) (paramsStore s)) v, c') of (v, c) \<Rightarrow>
      let v = updateMaxHeightCertified v h in andThen (setVotes cfg v) (deleteBFTParameters (min (biHeight (last (blockBFTInfos v))) m)))
    (\<lambda>_ t. \<exists>v'. bftInv cfg t v' \<and> raisePost v v' \<and> nextHeightOf v' = nextHeightOf v) (\<lambda>_ _. True) s"
    using P by (simp add: Let_def)
qed

lemma bind_assoc_pair:
  "bind a (\<lambda>(v, c). bind (b v c) (\<lambda>(v, c). d v c)) = bind (bind a (\<lambda>(v, c). b v c)) (\<lambda>(v, c). d v c)"
  by (rule ext) (auto simp: bind_def split: prod.splits sum.splits)

lemma block_step:
  assumes inv: "bftInv cfg s v" and h: "verified v h"
  shows "wp (bftBeforeTransactionsExecute cfg h m) (\<lambda>_ t. \<exists>v'. bftInv cfg t v' \<and> blockPost v v') (\<lambda>_ _. True) s"
proof -
  let ?lib = "bftLib cfg" and ?n = "maxLengthBlockBFTInfos cfg" and ?r = "paramsStore s"
  let ?P = "paramsAt ?lib ?r"
  define v0 where "v0 = insertBlockBFTInfo v h ?n"
  obtain PV PC where i: "getVotes cfg s = (Inr v, s)" "votesValid v" "keysOk ?r" "goodStore ?lib ?r"
    "countInv ?P (blockBFTInfos v) (activeValidatorsVoteInfo v) PV PC" "heightsInv ?P v" using inv by (auto simp: bftInv_def)
  have v0: "blockBFTInfos v0 = take ?n (getBlockBFTProperties h # blockBFTInfos v)" by (simp add: v0_def insertBlockBFTInfo_def)
  have val: "votesValid v0" using i(2) h by (simp add: v0_def insert_valid verified_def)
  show ?thesis
  proof (cases "blockBFTInfos v0 = []")
    case True
    then show ?thesis using i(1) by (simp add: bftBeforeTransactionsExecute_def wp_bind wp_known v0_def[symmetric] wp)
  next
    case False
    then have n: "0 < ?n" using v0 by (cases ?n) auto
    then have hd: "hd (blockBFTInfos v0) = getBlockBFTProperties h" using v0 by (simp add: hd_take)
    have cont: "wp (bind (updatePrevotesPrecommits ?lib v0 c) (\<lambda>(v, cache).
          bind (bind (updateMaxHeightPrevoted ?lib v cache) (\<lambda>(v, c). updateMaxHeightPrecommitted ?lib v c)) (\<lambda>(v, c).
            let v = updateMaxHeightCertified v h in andThen (setVotes cfg v) (deleteBFTParameters (min (biHeight (last (blockBFTInfos v))) m)))))
        (\<lambda>_ t. \<exists>v'. bftInv cfg t v' \<and> blockPost v v') (\<lambda>_ _. True) s"
      if c: "cacheOk ?lib ?r c" and at: "?P (hHeight h) = Some p" for c p
    proof -
      have b: "countInv ?P (blockBFTInfos v0) (activeValidatorsVoteInfo v0) (PV(hHeight h := {})) (PC(hHeight h := {}))" "beforeRaise ?P v0"
        using insert_block[OF i(5,6) h at goodStore_at[OF i(4) at] n v0_def] by auto
      have act: "activeOk (activeValidatorsVoteInfo v0)" using val by (simp add: votesValid_def activeOk_def)
      have fresh: "biGeneratorAddress b0 \<notin> (PV(hHeight h := {})) (biHeight b)"
        if e: "blockBFTInfos v0 = b0 # bs" "b \<in> set (b0 # bs)" "biMaxHeightGenerated b0 < biHeight b" for b0 bs b
      proof (cases "biHeight b = hHeight h")
        case ne: False
        have b0: "b0 = getBlockBFTProperties h" using hd e(1) by simp
        have "b \<in> set (blockBFTInfos v0)" using e by simp
        then have "b = getBlockBFTProperties h \<or> b \<in> set (blockBFTInfos v)" using in_set_takeD[of b ?n] unfolding v0 by fastforce
        then have "b \<in> set (blockBFTInfos v)" using ne by (auto simp: getBlockBFTProperties_def)
        then show ?thesis using prevote_fresh[OF i(5,6) h, of b] e(3) ne b0 by (simp add: getBlockBFTProperties_def)
      qed simp
      show ?thesis
      proof (subst wp_bind, rule wp_mono[OF wp_updatePrevotesPrecommits[OF b(1) act c]], goal_cases)
        case (1 b0 bs b)
        then show ?case by (rule fresh)
      next
        case (2 res t)
        then obtain v1 c1 where res: "res = (v1, c1)" "t = s" "cacheOk ?lib ?r c1" "votePost ?P v0 v1" by auto
        obtain PV1 PC1 where i1: "countInv ?P (blockBFTInfos v1) (activeValidatorsVoteInfo v1) PV1 PC1" using res(4) by (auto simp: votePost_def)
        have m: "maxHeightPrevoted v1 = maxHeightPrevoted v" "maxHeightPrecommitted v1 = maxHeightPrecommitted v"
          using res(4) by (auto simp: votePost_def v0_def insertBlockBFTInfo_def)
        have nx: "nextHeightOf v1 = nextHeightOf v + 1"
          using next_after_insert[OF v0 n res(4)] h by (simp add: verified_def getBlockBFTProperties_def)
        show ?case unfolding res(1,2) prod.case
          by (rule wp_mono[OF finish_block[OF i(3,4) res(3) votePost_valid[OF val res(4)] beforeRaise_grows[OF b(2) res(4)] _ i1 refl]])
            (use m nx h in \<open>auto simp: blockPost_def raisePost_def verified_def\<close>)
      qed simp
    qed
    have at: "\<exists>p. ?P (hHeight h) = Some p" if "\<And>k. biHeight (last (blockBFTInfos v0)) \<le> k \<Longrightarrow> k \<le> biHeight (hd (blockBFTInfos v0)) \<Longrightarrow> \<exists>p. ?P k = Some p"
    proof -
      have con: "consec (getBlockBFTProperties h # blockBFTInfos v)" using i(5) h
        by (intro consec_Cons) (auto simp: countInv_def verified_def nextHeightOf_def getBlockBFTProperties_def split: list.split)
      have "biHeight (last (blockBFTInfos v0)) \<le> biHeight (hd (blockBFTInfos v0))"
        using consec_last[OF consec_take[OF con, of ?n], of "hd (blockBFTInfos v0)"] hd_in_set[OF False] v0 by simp
      then show ?thesis using that[of "hHeight h"] hd by (simp add: getBlockBFTProperties_def)
    qed
    have "wp (cacheParameters ?lib (biHeight (last (blockBFTInfos v0))) (biHeight (hd (blockBFTInfos v0))) Map.empty) (\<lambda>c.
       wp (bind (updatePrevotesPrecommits ?lib v0 c) (\<lambda>(v, cache).
          bind (bind (updateMaxHeightPrevoted ?lib v cache) (\<lambda>(v, c). updateMaxHeightPrecommitted ?lib v c)) (\<lambda>(v, c).
            let v = updateMaxHeightCertified v h in andThen (setVotes cfg v) (deleteBFTParameters (min (biHeight (last (blockBFTInfos v))) m)))))
        (\<lambda>_ t. \<exists>v'. bftInv cfg t v' \<and> blockPost v v') (\<lambda>_ _. True)) (\<lambda>_ _. True) s"
      by (rule wp_cacheParameters[OF i(3)]) (use at cont in blast)
    then show ?thesis using i(1) False
      by (simp only: bftBeforeTransactionsExecute_def wp_bind wp_known v0_def[symmetric] Let_def if_False bind_assoc_pair)
  qed
qed

section \<open>A change of the parameters\<close>

definition newParams :: "int \<Rightarrow> int \<Rightarrow> validator list \<Rightarrow> bytes \<Rightarrow> bftParams" where
  "newParams precommitT certificateT vs vh = \<lparr>prevoteThreshold = 2 * aggregateBFTWeight vs div 3 + 1, precommitThreshold = precommitT,
     certificateThreshold = certificateT, validators = vs, validatorsHash = vh\<rparr>"

lemma checked_good:
  assumes "checkBFTParameters cfg pt ct vs = Inr u"
  shows "paramsGood (newParams pt ct vs vh)" "distinct (map vAddress vs)"
proof -
  have c: "distinct (map vAddress vs)" "\<forall>v \<in> set vs. 0 \<le> vBftWeight v"
    "aggregateBFTWeight vs div 3 + 1 \<le> pt" "pt \<le> aggregateBFTWeight vs" "aggregateBFTWeight vs div 3 + 1 \<le> ct" "ct \<le> aggregateBFTWeight vs"
    using assms by (auto simp: checkBFTParameters_def Let_def list_ex_iff not_less split: if_splits)
  moreover have "0 \<le> aggregateBFTWeight vs" using c(2) by (auto simp: aggregateBFTWeight_def intro!: sum_list_nonneg)
  moreover have "0 \<le> aggregateBFTWeight vs div 3" "0 \<le> 2 * aggregateBFTWeight vs div 3" using calculation by auto
  ultimately have "paramsValid (newParams pt ct vs vh)" by (auto simp: paramsValid_def newParams_def list_all_iff)
  with c show "paramsGood (newParams pt ct vs vh)" "distinct (map vAddress vs)" by (auto simp: paramsGood_def newParams_def)
qed

lemma nextActive_addresses: "viAddress ` set (nextActiveValidators active h vs) = vAddress ` set vs"
  by (force simp: nextActiveValidators_def sortValidatorsByAddress_def image_iff dest: find_SomeD split: option.split)

lemma nextActive_distinct:
  assumes "distinct (map vAddress vs)"
  shows "distinct (map viAddress (nextActiveValidators active h vs))"
proof -
  have "map (\<lambda>v. viAddress (case find (\<lambda>a. viAddress a = vAddress v) active of Some a \<Rightarrow> a
      | None \<Rightarrow> \<lparr>viAddress = vAddress v, viMinActiveHeight = h, viLargestHeightPrecommit = h - 1\<rparr>)) vs = map vAddress vs"
    by (rule map_cong) (auto dest: find_SomeD split: option.split)
  then show ?thesis using assms unfolding nextActiveValidators_def sortValidatorsByAddress_def by (simp only: distinct_map_sortBy map_map comp_def)
qed

lemma nextActive_member:
  "vi \<in> set (nextActiveValidators active h vs) \<Longrightarrow> vi \<in> set active \<or> (viMinActiveHeight vi = h \<and> viLargestHeightPrecommit vi = h - 1)"
  by (auto simp: nextActiveValidators_def sortValidatorsByAddress_def dest: find_SomeD split: option.splits)

lemma countInv_active:
  assumes inv: "countInv P infos active PV PC" and h: "\<And>b. b \<in> set infos \<Longrightarrow> biHeight b < h" and d: "distinct (map vAddress vs)"
  shows "countInv P infos (nextActiveValidators active h vs) PV PC"
proof -
  have "biHeight b \<le> viLargestHeightPrecommit vi"
    if b: "b \<in> set infos" "viAddress vi \<in> PC (biHeight b)" and vi: "vi \<in> set (nextActiveValidators active h vs)" for b vi
  proof (cases "vi \<in> set active")
    case True
    then show ?thesis using inv b by (simp add: countInv_def)
  next
    case False
    then show ?thesis using nextActive_member[OF vi] h[OF b(1)] by simp
  qed
  then show ?thesis using inv nextActive_distinct[OF d] by (simp add: countInv_def)
qed

lemma nextHeight_active [simp]: "nextHeightOf (v\<lparr>activeValidatorsVoteInfo := a\<rparr>) = nextHeightOf v"
  by (cases "blockBFTInfos v") (simp_all add: nextHeightOf_def)

lemma heightsInv_active [simp]: "heightsInv P (v\<lparr>activeValidatorsVoteInfo := a\<rparr>) = heightsInv P v"
  by (simp add: heightsInv_def)

lemma params_step:
  assumes inv: "bftInv cfg s v"
  shows "wp (setBFTParameters cfg pt ct vs) (\<lambda>_ t. \<exists>vh. bftInv cfg t (v\<lparr>activeValidatorsVoteInfo := nextActiveValidators (activeValidatorsVoteInfo v) (nextHeightOf v) vs\<rparr>) \<and>
     paramsAt (bftLib cfg) (paramsStore t) (nextHeightOf v) = Some (newParams pt ct vs vh) \<and> paramsGood (newParams pt ct vs vh) \<and>
     (\<forall>h < nextHeightOf v. paramsAt (bftLib cfg) (paramsStore t) h = paramsAt (bftLib cfg) (paramsStore s) h)) (\<lambda>_ _. True) s"
proof -
  let ?lib = "bftLib cfg" and ?r = "paramsStore s" and ?h = "nextHeightOf v"
  let ?v = "v\<lparr>activeValidatorsVoteInfo := nextActiveValidators (activeValidatorsVoteInfo v) ?h vs\<rparr>"
  obtain PV PC where i: "getVotes cfg s = (Inr v, s)" "votesValid v" "keysOk ?r" "goodStore ?lib ?r"
    "countInv (paramsAt ?lib ?r) (blockBFTInfos v) (activeValidatorsVoteInfo v) PV PC" "heightsInv (paramsAt ?lib ?r) v" using inv by (auto simp: bftInv_def)
  have below: "biHeight b < ?h" if "b \<in> set (blockBFTInfos v)" for b using tip_below_next[OF _ that] i(5) by (simp add: countInv_def)
  have key: "bftInv cfg (votesStore_update (kvset EMPTY_KEY bs2) (paramsStore_update (kvset k bs) s)) ?v \<and>
      paramsAt ?lib (kvset k bs ?r) ?h = Some (newParams pt ct vs vh) \<and> (\<forall>h < ?h. paramsAt ?lib (kvset k bs ?r) h = paramsAt ?lib ?r h)"
    if c: "checkBFTParameters cfg pt ct vs = Inr u" and k: "uint32BE ?h = Inr k"
      and e: "enc (paramsSchema ?lib) (newParams pt ct vs vh) = Inr bs" "enc (votesSchema ?lib) ?v = Inr bs2" for u k bs bs2 vh
  proof -
    let ?p = "newParams pt ct vs vh" and ?r' = "kvset k bs ?r"
    note g = checked_good[OF c]
    have at: "paramsAt ?lib ?r' (biHeight b) = paramsAt ?lib ?r (biHeight b)" if "b \<in> set (blockBFTInfos v)" for b
      using paramsAt_set_before[OF k below[OF that]] .
    have c1: "countInv (paramsAt ?lib ?r') (blockBFTInfos v) (activeValidatorsVoteInfo ?v) PV PC"
      using countInv_active[OF i(5) below g(2)] countInv_cong[of _ "paramsAt ?lib ?r'", OF at] by simp
    have h1: "heightsInv (paramsAt ?lib ?r') ?v"
      using i(6) heightsInv_cong[of v "paramsAt ?lib ?r'" "paramsAt ?lib ?r"] at heightsInv_active by simp
    have gs: "goodStore ?lib ?r'" using i(4) set_kvset[of k bs ?r] params_sch.dec_enc[OF paramsGood_valid[OF g(1)] e(1)] g(1)
      by (fastforce simp: goodStore_def)
    have "0 < ?h" using i(2) by (auto simp: nextHeightOf_def votesValid_def nonNegInfo_def split: list.split)
    then have val: "votesValid ?v" using i(2) nextActive_member by (fastforce simp: votesValid_def list_all_iff)
    have "getVotes cfg (votesStore_update (kvset EMPTY_KEY bs2) (paramsStore_update (kvset k bs) s)) = (Inr ?v, votesStore_update (kvset EMPTY_KEY bs2) (paramsStore_update (kvset k bs) s))"
      using votes_sch.dec_enc[OF val e(2)] by (simp add: getVotes_def storeGet_def bind_def gets_def liftE_def)
    then show ?thesis using val keysOk_set[OF i(3) k] gs c1 h1 paramsAt_set_at[OF i(3) k paramsGood_valid[OF g(1)] e(1)] paramsAt_set_before[OF k]
      by (auto simp: bftInv_def)
  qed
  have gv: "wp (getVotes cfg) Q E s = Q v s" for Q E using wp_known[of "getVotes cfg", OF i(1)] .
  show ?thesis unfolding setBFTParameters_def wp_bind wp_andThen wp_liftE Let_def
    using key checked_good(1) by (force simp: wp gv setVotes_def newParams_def[symmetric] split: sum.splits)
qed

section \<open>Reachable states\<close>

definition emptyStores :: bftStores where
  "emptyStores = \<lparr>votesStore = [], paramsStore = []\<rparr>"

inductive bftStep :: "bftConfig \<Rightarrow> bftStores \<Rightarrow> bftStores \<Rightarrow> bool" for cfg where
  block: "getVotes cfg s = (Inr v, s) \<Longrightarrow> verified v h \<Longrightarrow> bftBeforeTransactionsExecute cfg h m s = (Inr (), s') \<Longrightarrow> bftStep cfg s s'"
| params: "setBFTParameters cfg pt ct vs s = (Inr (), s') \<Longrightarrow> bftStep cfg s s'"

inductive bftReachable :: "bftConfig \<Rightarrow> bftStores \<Rightarrow> bool" for cfg where
  genesis: "headerNonNeg h \<Longrightarrow> bftInitGenesisState cfg h emptyStores = (Inr (), s) \<Longrightarrow> bftReachable cfg s"
| step: "bftReachable cfg s \<Longrightarrow> bftStep cfg s s' \<Longrightarrow> bftReachable cfg s'"

lemma bftInv_genesis:
  assumes "headerNonNeg h" "bftInitGenesisState cfg h emptyStores = (Inr (), s)"
  shows "\<exists>v. bftInv cfg s v"
proof -
  let ?v = "\<lparr>maxHeightPrevoted = hHeight h, maxHeightPrecommitted = hHeight h, maxHeightCertified = hHeight h, blockBFTInfos = [], activeValidatorsVoteInfo = []\<rparr>"
  have val: "votesValid ?v" using assms(1) by (simp add: votesValid_def headerNonNeg_def)
  obtain bs where bs: "enc (votesSchema (bftLib cfg)) ?v = Inr bs" "s = votesStore_update (kvset EMPTY_KEY bs) emptyStores"
    using assms(2) by (auto simp: bftInitGenesisState_def setVotes_def storeSet_def bind_def liftE_def modify_def split: sum.splits)
  have "getVotes cfg s = (Inr ?v, s)" using votes_sch.dec_enc[OF val bs(1)] bs(2)
    by (simp add: getVotes_def storeGet_def bind_def gets_def liftE_def emptyStores_def)
  then have "bftInv cfg s ?v" using val bs(2)
    by (simp add: bftInv_def emptyStores_def keysOk_def goodStore_def countInv_def consec_def heightsInv_def nextHeightOf_def)
  then show ?thesis by blast
qed

lemma bftInv_unique: "bftInv cfg s v \<Longrightarrow> getVotes cfg s = (Inr w, t) \<Longrightarrow> w = v \<and> t = s"
  by (simp add: bftInv_def)

lemma bftInv_step:
  assumes "bftInv cfg s v" "bftStep cfg s s'"
  shows "\<exists>v'. bftInv cfg s' v' \<and> raisePost v v'"
  using assms(2)
proof cases
  case (block w h m)
  then have "verified v h" using bftInv_unique[OF assms(1) block(1)] by simp
  from wp_success[OF block_step[OF assms(1) this] block(3)] show ?thesis by (auto simp: blockPost_def)
next
  case (params pt ct vs)
  obtain v' where "bftInv cfg s' v'" "maxHeightPrevoted v' = maxHeightPrevoted v" "maxHeightPrecommitted v' = maxHeightPrecommitted v"
    using wp_success[OF params_step[OF assms(1)] params] by fastforce
  then show ?thesis by (auto simp: raisePost_def)
qed

lemma reachable_inv: "bftReachable cfg s \<Longrightarrow> \<exists>v. bftInv cfg s v"
  by (induction rule: bftReachable.induct) (use bftInv_genesis bftInv_step in blast)+

end
