(* ===== verification/BFTTheorems.thy ===== *)
theory BFTTheorems
  imports BFTSteps
begin

text \<open>
  The theorems of the BFT component: transparency of the parameter cache, counting of
  votes, finality heights, parameters and quorums.
\<close>

section \<open>Quorums\<close>

text \<open>Weighted quorum systems, indexed by a configuration.\<close>

locale weighted_quorums =
  fixes good :: "'p \<Rightarrow> bool" and members :: "'p \<Rightarrow> 'a set" and weight :: "'p \<Rightarrow> 'a \<Rightarrow> int"
  assumes finite_members: "good p \<Longrightarrow> finite (members p)"
    and weight_nonneg: "good p \<Longrightarrow> 0 \<le> weight p a"
begin

definition total :: "'p \<Rightarrow> 'a set \<Rightarrow> int" where
  "total p A = (\<Sum>a\<in>A. weight p a)"

lemma total_mono: "good p \<Longrightarrow> A \<subseteq> B \<Longrightarrow> B \<subseteq> members p \<Longrightarrow> total p A \<le> total p B"
  unfolding total_def using finite_members[of p] by (intro sum_mono2) (auto intro: finite_subset weight_nonneg)

lemma intersection:
  assumes "good p" "A \<subseteq> members p" "B \<subseteq> members p"
  shows "total p A + total p B - total p (members p) \<le> total p (A \<inter> B)"
proof -
  have f: "finite A" "finite B" using assms finite_members[of p] finite_subset by auto
  have "total p A + total p B = total p (A \<union> B) + total p (A \<inter> B)" unfolding total_def by (rule sum.union_inter[OF f, symmetric])
  moreover have "total p (A \<union> B) \<le> total p (members p)" using assms by (intro total_mono) auto
  ultimately show ?thesis by simp
qed

end

interpretation bft_quorums: weighted_quorums paramsGood addrs weightIn
  by unfold_locales (auto intro: weightIn_nonneg paramsGood_valid)

lemma total_wsum: "bft_quorums.total p A = wsum p A"
  by (simp add: bft_quorums.total_def wsum_def)

definition votersOf :: "bftParams \<Rightarrow> bytes set \<Rightarrow> validator set" where
  "votersOf p A = {w \<in> set (validators p). vAddress w \<in> A}"

lemma wsum_voters:
  assumes "distinct (map vAddress (validators p))" "A \<subseteq> addrs p"
  shows "wsum p A = (\<Sum>w\<in>votersOf p A. vBftWeight w)"
proof -
  have inj: "inj_on vAddress (votersOf p A)" using assms(1) by (auto simp: distinct_map votersOf_def inj_on_def)
  have im: "vAddress ` votersOf p A = A" using assms(2) by (auto simp: votersOf_def addrs_def)
  have "wsum p A = (\<Sum>w\<in>votersOf p A. weightIn p (vAddress w))"
    unfolding wsum_def by (subst im[symmetric], subst sum.reindex[OF inj]) simp
  also have "\<dots> = (\<Sum>w\<in>votersOf p A. vBftWeight w)"
    by (rule sum.cong) (use assms(1) in \<open>auto simp: votersOf_def weightIn_def find_distinct\<close>)
  finally show ?thesis .
qed

lemma wsum_image:
  assumes "distinct (map vAddress (validators p))" "V \<subseteq> set (validators p)"
  shows "wsum p (vAddress ` V) = (\<Sum>w\<in>V. vBftWeight w)" "vAddress ` V \<subseteq> addrs p"
proof -
  have "votersOf p (vAddress ` V) = V" using assms by (auto simp: votersOf_def distinct_map inj_on_def)
  moreover show "vAddress ` V \<subseteq> addrs p" using assms(2) by (auto simp: addrs_def)
  ultimately show "wsum p (vAddress ` V) = (\<Sum>w\<in>V. vBftWeight w)" using wsum_voters[OF assms(1)] by simp
qed

lemma prevote_third:
  assumes g: "paramsGood p" and V: "V \<subseteq> set (validators p)" "W \<subseteq> set (validators p)"
    and q: "prevoteThreshold p \<le> (\<Sum>w\<in>V. vBftWeight w)" "prevoteThreshold p \<le> (\<Sum>w\<in>W. vBftWeight w)"
  shows "aggregateBFTWeight (validators p) < 3 * (\<Sum>w\<in>V \<inter> W. vBftWeight w)"
proof -
  have d: "distinct (map vAddress (validators p))" using g by (simp add: paramsGood_def)
  note v = wsum_image[OF d V(1)] and w = wsum_image[OF d V(2)]
  have i: "vAddress ` V \<inter> vAddress ` W = vAddress ` (V \<inter> W)"
    using inj_on_image_Int[of vAddress "set (validators p)" V W] V d by (simp add: distinct_map)
  have "wsum p (vAddress ` V) + wsum p (vAddress ` W) - wsum p (addrs p) \<le> wsum p (vAddress ` V \<inter> vAddress ` W)"
    using bft_quorums.intersection[OF g v(2) w(2)] by (simp add: total_wsum)
  moreover have "wsum p (vAddress ` (V \<inter> W)) = (\<Sum>w\<in>V \<inter> W. vBftWeight w)" using V by (intro wsum_image[OF d]) auto
  ultimately have "2 * prevoteThreshold p - aggregateBFTWeight (validators p) \<le> (\<Sum>w\<in>V \<inter> W. vBftWeight w)"
    using q v(1) w(1) wsum_addrs[OF d] i by simp
  moreover have "prevoteThreshold p = 2 * aggregateBFTWeight (validators p) div 3 + 1" using g by (simp add: paramsGood_def)
  ultimately show ?thesis by linarith
qed

section \<open>Theorems\<close>

text \<open>
  C29: the cache of BFT parameters is transparent. When \<open>cache\<close> succeeds for a range of
  heights, then for every height of the range it holds exactly the parameters that a
  lookup in the store returns, and it leaves the store and the entries of other heights
  alone.
\<close>

theorem cache_equals_lookup:
  assumes "keysOk (paramsStore s)" "cacheParameters lib from' to cache s = (Inr c, s')"
  shows "s' = s \<and> (\<forall>h. if from' \<le> h \<and> h \<le> to then \<exists>p. c h = Some p \<and> getBFTParameters lib h s = (Inr p, s) else c h = cache h)"
  using assms by (rule cacheParameters_lookup)

text \<open>
  C4: every validator is counted at most once. In every reachable state the prevote weight
  of a block in the window is the sum of the weights of a set of validators of the
  parameters in force at its height, and so is its precommit weight; hence both lie
  between zero and the aggregate weight. Validators have distinct addresses.
\<close>

theorem votes_counted_once:
  assumes "bftReachable cfg s" "getVotes cfg s = (Inr v, s')" "b \<in> set (blockBFTInfos v)"
  shows "\<exists>p V W. getBFTParameters (bftLib cfg) (biHeight b) s = (Inr p, s) \<and> distinct (map vAddress (validators p)) \<and>
     V \<subseteq> set (validators p) \<and> biPrevoteWeight b = (\<Sum>w\<in>V. vBftWeight w) \<and>
     W \<subseteq> set (validators p) \<and> biPrecommitWeight b = (\<Sum>w\<in>W. vBftWeight w) \<and>
     0 \<le> biPrevoteWeight b \<and> biPrevoteWeight b \<le> aggregateBFTWeight (validators p) \<and>
     0 \<le> biPrecommitWeight b \<and> biPrecommitWeight b \<le> aggregateBFTWeight (validators p)"
proof -
  obtain w where w: "bftInv cfg s w" using reachable_inv[OF assms(1)] by blast
  then have v: "bftInv cfg s v" using bftInv_unique[OF w assms(2)] by simp
  then obtain PV PC where c: "countInv (paramsAt (bftLib cfg) (paramsStore s)) (blockBFTInfos v) (activeValidatorsVoteInfo v) PV PC" by (auto simp: bftInv_def)
  then have e: "entryOk (paramsAt (bftLib cfg) (paramsStore s)) PV PC b" using assms(3) by (simp add: countInv_def)
  then obtain p where p: "paramsAt (bftLib cfg) (paramsStore s) (biHeight b) = Some p" "paramsGood p"
    "PV (biHeight b) \<subseteq> addrs p" "biPrevoteWeight b = wsum p (PV (biHeight b))"
    "PC (biHeight b) \<subseteq> addrs p" "biPrecommitWeight b = wsum p (PC (biHeight b))" by (auto simp: entryOk_def)
  have d: "distinct (map vAddress (validators p))" using p(2) by (simp add: paramsGood_def)
  have "votersOf p A \<subseteq> set (validators p)" for A by (auto simp: votersOf_def)
  then show ?thesis
    using p d wsum_voters[OF d] wsum_le_aggregate[OF p(2)] getBFTParameters_paramsAt[of "bftLib cfg" "biHeight b" s p s]
    by (intro exI[of _ p] exI[of _ "votersOf p (PV (biHeight b))"] exI[of _ "votersOf p (PC (biHeight b))"]) auto
qed

text \<open>
  C6: finality only grows. In every step from a reachable state, the largest prevoted
  height and the largest precommitted height do not decrease; afterwards the precommitted
  height is at most the prevoted height, which is at most the height of the tip; and when
  the precommitted height rises, the block at the new height is in the window with at
  least the precommit threshold of precommits and at least the prevote threshold of
  prevotes.
\<close>

theorem finality_monotone:
  assumes "bftReachable cfg s" "bftStep cfg s s'" "getVotes cfg s = (Inr v, s)" "getVotes cfg s' = (Inr v', s')"
  shows "maxHeightPrevoted v \<le> maxHeightPrevoted v' \<and> maxHeightPrecommitted v \<le> maxHeightPrecommitted v' \<and>
     maxHeightPrecommitted v' \<le> maxHeightPrevoted v' \<and> maxHeightPrevoted v' < nextHeightOf v' \<and>
     (maxHeightPrecommitted v < maxHeightPrecommitted v' \<longrightarrow>
       (\<exists>b \<in> set (blockBFTInfos v'). \<exists>p. biHeight b = maxHeightPrecommitted v' \<and>
          getBFTParameters (bftLib cfg) (biHeight b) s' = (Inr p, s') \<and>
          precommitThreshold p \<le> biPrecommitWeight b \<and> prevoteThreshold p \<le> biPrevoteWeight b))"
proof -
  obtain w where w: "bftInv cfg s w" using reachable_inv[OF assms(1)] by blast
  then have v: "bftInv cfg s v" using bftInv_unique[OF w assms(3)] by simp
  obtain w' where w': "bftInv cfg s' w'" "raisePost v w'" using bftInv_step[OF v assms(2)] by blast
  then have v': "bftInv cfg s' v'" "raisePost v v'" using bftInv_unique[OF w'(1) assms(4)] by auto
  let ?P = "paramsAt (bftLib cfg) (paramsStore s')"
  obtain PV PC where c: "countInv ?P (blockBFTInfos v') (activeValidatorsVoteInfo v') PV PC" and h: "heightsInv ?P v'" using v'(1) by (auto simp: bftInv_def)
  have "\<exists>b \<in> set (blockBFTInfos v'). \<exists>p. biHeight b = maxHeightPrecommitted v' \<and> ?P (biHeight b) = Some p \<and>
      precommitThreshold p \<le> biPrecommitWeight b \<and> prevoteThreshold p \<le> biPrevoteWeight b"
    if up: "maxHeightPrecommitted v < maxHeightPrecommitted v'"
  proof -
    obtain b where b: "b \<in> set (blockBFTInfos v')" "biHeight b = maxHeightPrecommitted v'" using v'(2) up unfolding raisePost_def by blast
    have r: "reaches ?P biPrecommitWeight precommitThreshold b" using h b by (simp add: heightsInv_def)
    show ?thesis using b r precommitted_is_prevoted[OF c b(1) r] by (intro bexI[of _ b]) (auto simp: reaches_def split: option.splits)
  qed
  then show ?thesis using v'(2) h by (auto simp: raisePost_def heightsInv_def getBFTParameters_paramsAt)
qed

text \<open>
  new parameters. When \<open>setBFTParameters\<close> succeeds in a reachable state, the given
  validators are in force from the next height on and every earlier height keeps its
  parameters; addresses are distinct; the precommit and certificate thresholds exceed a
  third of the aggregate weight and do not exceed the aggregate weight; and any two sets of
  validators that reach the prevote threshold share validators of more than a third of the
  aggregate weight.
\<close>

theorem set_parameters_effect:
  assumes "bftReachable cfg s" "getVotes cfg s = (Inr v, s)" "setBFTParameters cfg pt ct vs s = (Inr (), s')"
  shows "\<exists>p. getBFTParameters (bftLib cfg) (nextHeightOf v) s' = (Inr p, s') \<and> validators p = vs \<and> distinct (map vAddress vs) \<and>
     precommitThreshold p = pt \<and> certificateThreshold p = ct \<and>
     aggregateBFTWeight vs < 3 * pt \<and> pt \<le> aggregateBFTWeight vs \<and> aggregateBFTWeight vs < 3 * ct \<and> ct \<le> aggregateBFTWeight vs \<and>
     (\<forall>h q. h < nextHeightOf v \<longrightarrow> (getBFTParameters (bftLib cfg) h s' = (Inr q, s') \<longleftrightarrow> getBFTParameters (bftLib cfg) h s = (Inr q, s))) \<and>
     (\<forall>V W. V \<subseteq> set vs \<longrightarrow> W \<subseteq> set vs \<longrightarrow> prevoteThreshold p \<le> (\<Sum>w\<in>V. vBftWeight w) \<longrightarrow> prevoteThreshold p \<le> (\<Sum>w\<in>W. vBftWeight w) \<longrightarrow>
        aggregateBFTWeight vs < 3 * (\<Sum>w\<in>V \<inter> W. vBftWeight w))"
proof -
  obtain w where w: "bftInv cfg s w" using reachable_inv[OF assms(1)] by blast
  then have v: "bftInv cfg s v" using bftInv_unique[OF w assms(2)] by simp
  obtain vh where p: "paramsAt (bftLib cfg) (paramsStore s') (nextHeightOf v) = Some (newParams pt ct vs vh)" "paramsGood (newParams pt ct vs vh)"
    "\<forall>h < nextHeightOf v. paramsAt (bftLib cfg) (paramsStore s') h = paramsAt (bftLib cfg) (paramsStore s) h"
    using wp_success[OF params_step[OF v] assms(3)] by blast
  have f: "validators (newParams pt ct vs vh) = vs" "precommitThreshold (newParams pt ct vs vh) = pt" "certificateThreshold (newParams pt ct vs vh) = ct"
    by (simp_all add: newParams_def)
  have g: "distinct (map vAddress vs)" "aggregateBFTWeight vs div 3 + 1 \<le> pt" "aggregateBFTWeight vs div 3 + 1 \<le> ct" "pt \<le> aggregateBFTWeight vs" "ct \<le> aggregateBFTWeight vs"
    using p(2) f by (simp_all add: paramsGood_def)
  have "aggregateBFTWeight vs < 3 * pt" "aggregateBFTWeight vs < 3 * ct" using g(2,3) by linarith+
  then show ?thesis using p g f prevote_third[OF p(2)]
    by (intro exI[of _ "newParams pt ct vs vh"]) (auto simp: getBFTParameters_paramsAt)
qed

text \<open>
  contradicting headers. The relation is symmetric (the two blocks are ordered before
  they are compared), and it never holds between headers of different generators.
\<close>

theorem contradicting_symmetric:
  "areDistinctHeadersContradicting a b = areDistinctHeadersContradicting b a \<and>
   (bhGeneratorAddress a \<noteq> bhGeneratorAddress b \<longrightarrow> \<not> areDistinctHeadersContradicting a b)"
  by (auto simp: areDistinctHeadersContradicting_def Let_def split: if_splits)

section \<open>A run with two validators\<close>

definition exCfg :: bftConfig where
  "exCfg = \<lparr>bftLib = asciiLib, bftHash = (\<lambda>b. take 2 b), batchSize = 2, blockTime = 10\<rparr>"

definition exGenesis :: blockHeader where
  "exGenesis = exHeader\<lparr>hHeight := 0, hMaxHeightPrevoted := 0, hMaxHeightGenerated := 0\<rparr>"

definition exValidators :: "validator list" where
  "exValidators = map (\<lambda>i. \<lparr>vAddress = [i], vBftWeight = 1, vGeneratorKey = [], vBlsKey = [i]\<rparr>) [1, 2]"

definition exNext :: "int \<Rightarrow> byte \<Rightarrow> int \<Rightarrow> int \<Rightarrow> blockHeader" where
  "exNext h g mhg mhp = exHeader\<lparr>hHeight := h, hGeneratorAddress := [g], hMaxHeightGenerated := mhg, hMaxHeightPrevoted := mhp\<rparr>"

definition ex0 :: bftStores where "ex0 = snd (bftInitGenesisState exCfg exGenesis emptyStores)"
definition ex1 :: bftStores where "ex1 = snd (setBFTParameters exCfg 1 1 exValidators ex0)"
definition ex2 :: bftStores where "ex2 = snd (bftBeforeTransactionsExecute exCfg (exNext 1 1 0 0) 0 ex1)"
definition ex3 :: bftStores where "ex3 = snd (bftBeforeTransactionsExecute exCfg (exNext 2 2 0 0) 0 ex2)"
definition ex4 :: bftStores where "ex4 = snd (bftBeforeTransactionsExecute exCfg (exNext 3 1 1 1) 0 ex3)"

definition votesIn :: "bftStores \<Rightarrow> bftVotes" where
  "votesIn s = (case fst (getVotes exCfg s) of Inr v \<Rightarrow> v | Inl _ \<Rightarrow> votesOf [])"

definition stepOk :: "bftStores \<Rightarrow> blockHeader \<Rightarrow> bool" where
  "stepOk s h = (fst (getVotes exCfg s) = Inr (votesIn s) \<and> verified (votesIn s) h \<and> fst (bftBeforeTransactionsExecute exCfg h 0 s) = Inr ())"

lemma getVotes_state: "fst (getVotes cfg s) = Inr v \<Longrightarrow> getVotes cfg s = (Inr v, s)"
  by (auto simp: getVotes_def storeGet_def bind_def gets_def liftE_def throw_def split: option.splits sum.splits)

lemma stepOk_step: "stepOk s h \<Longrightarrow> bftStep exCfg s (snd (bftBeforeTransactionsExecute exCfg h 0 s))"
  unfolding stepOk_def using bftStep.block[of exCfg s "votesIn s" h 0] getVotes_state by (metis prod.collapse)

lemma ex_steps:
  "bftReachable exCfg ex1" "bftStep exCfg ex1 ex2" "bftStep exCfg ex2 ex3" "bftStep exCfg ex3 ex4"
proof -
  have g: "fst (bftInitGenesisState exCfg exGenesis emptyStores) = Inr ()" "headerNonNeg exGenesis" by code_simp+
  then have r: "bftReachable exCfg ex0" unfolding ex0_def by (metis bftReachable.genesis prod.collapse)
  have "fst (setBFTParameters exCfg 1 1 exValidators ex0) = Inr ()" by code_simp
  then have "bftStep exCfg ex0 ex1" unfolding ex1_def by (metis bftStep.params prod.collapse)
  with r show "bftReachable exCfg ex1" by (rule bftReachable.step)
  have "stepOk ex1 (exNext 1 1 0 0)" by code_simp
  then show "bftStep exCfg ex1 ex2" unfolding ex2_def by (rule stepOk_step)
  have "stepOk ex2 (exNext 2 2 0 0)" by code_simp
  then show "bftStep exCfg ex2 ex3" unfolding ex3_def by (rule stepOk_step)
  have "stepOk ex3 (exNext 3 1 1 1)" by code_simp
  then show "bftStep exCfg ex3 ex4" unfolding ex4_def by (rule stepOk_step)
qed

lemma ex_reachable: "bftReachable exCfg ex3" "bftReachable exCfg ex4"
  using ex_steps by (blast intro: bftReachable.step)+

lemma votesIn_reachable: "bftReachable exCfg s \<Longrightarrow> getVotes exCfg s = (Inr (votesIn s), s)"
  using reachable_inv[of exCfg s] by (auto simp: bftInv_def votesIn_def)

lemmas ex_votes = votesIn_reachable[OF ex_reachable(1)] votesIn_reachable[OF ex_reachable(2)]

theorem votes_counted_once_witness:
  "\<exists>b \<in> set (blockBFTInfos (votesIn ex3)). biHeight b = 1 \<and> biPrevoteWeight b = 2 \<and>
     (\<exists>p V. getBFTParameters asciiLib 1 ex3 = (Inr p, ex3) \<and> V \<subseteq> set (validators p) \<and> 2 = (\<Sum>w\<in>V. vBftWeight w))"
proof -
  let ?b = "blockBFTInfos (votesIn ex3) ! 1"
  have b: "1 < length (blockBFTInfos (votesIn ex3)) \<and> biHeight ?b = 1 \<and> biPrevoteWeight ?b = 2" by code_simp
  then have m: "?b \<in> set (blockBFTInfos (votesIn ex3))" by simp
  have "bftLib exCfg = asciiLib" by (simp add: exCfg_def)
  then show ?thesis using votes_counted_once[OF ex_reachable(1) ex_votes(1) m] b m by metis
qed

theorem finality_monotone_witness:
  "maxHeightPrecommitted (votesIn ex3) = 0 \<and> maxHeightPrecommitted (votesIn ex4) = 1 \<and>
   (\<exists>b \<in> set (blockBFTInfos (votesIn ex4)). \<exists>p. biHeight b = 1 \<and> getBFTParameters asciiLib 1 ex4 = (Inr p, ex4) \<and>
      precommitThreshold p \<le> biPrecommitWeight b)"
proof -
  have e: "maxHeightPrecommitted (votesIn ex3) = 0" "maxHeightPrecommitted (votesIn ex4) = 1" by code_simp+
  have l: "bftLib exCfg = asciiLib" by (simp add: exCfg_def)
  note finality_monotone[OF ex_reachable(1) ex_steps(4) ex_votes, unfolded e l]
  then show ?thesis using e by fastforce
qed

theorem set_parameters_effect_witness:
  "\<exists>p. getBFTParameters asciiLib 4 (snd (setBFTParameters exCfg 2 2 exValidators ex4)) = (Inr p, snd (setBFTParameters exCfg 2 2 exValidators ex4)) \<and>
     precommitThreshold p = 2 \<and> validators p = exValidators"
proof -
  have e: "nextHeightOf (votesIn ex4) = 4" "fst (setBFTParameters exCfg 2 2 exValidators ex4) = Inr ()" by code_simp+
  then have s: "setBFTParameters exCfg 2 2 exValidators ex4 = (Inr (), snd (setBFTParameters exCfg 2 2 exValidators ex4))" by (metis prod.collapse)
  have "bftLib exCfg = asciiLib" by (simp add: exCfg_def)
  then show ?thesis using set_parameters_effect[OF ex_reachable(2) ex_votes(2) s] e(1) by metis
qed

theorem cache_equals_lookup_witness:
  "\<exists>c p. cacheParameters asciiLib 1 3 Map.empty ex4 = (Inr c, ex4) \<and> c 2 = Some p \<and> getBFTParameters asciiLib 2 ex4 = (Inr p, ex4) \<and> c 4 = None"
proof -
  obtain v where "bftInv exCfg ex4 v" using reachable_inv[OF ex_reachable(2)] by blast
  then have k: "keysOk (paramsStore ex4)" by (simp add: bftInv_def)
  have "isl (fst (cacheParameters asciiLib 1 3 Map.empty ex4)) = False" by code_simp
  then obtain c s where c: "cacheParameters asciiLib 1 3 Map.empty ex4 = (Inr c, s)"
    by (cases "cacheParameters asciiLib 1 3 Map.empty ex4"; cases "fst (cacheParameters asciiLib 1 3 Map.empty ex4)") auto
  note t = cache_equals_lookup[OF k c]
  have "s = ex4" "\<exists>p. c 2 = Some p \<and> getBFTParameters asciiLib 2 ex4 = (Inr p, ex4)" "c 4 = None"
    using t[THEN conjunct1] t[THEN conjunct2, rule_format, of 2] t[THEN conjunct2, rule_format, of 4] by auto
  then show ?thesis using c by blast
qed

theorem contradicting_symmetric_witness:
  "\<not> areDistinctHeadersContradicting (bftHeaderOf (exNext 1 1 0 0)) (bftHeaderOf (exNext 2 2 0 0)) \<and>
   areDistinctHeadersContradicting (bftHeaderOf (exNext 3 1 0 0)) (bftHeaderOf (exNext 1 1 0 0))"
proof -
  have "areDistinctHeadersContradicting (bftHeaderOf (exNext 1 1 0 0)) (bftHeaderOf (exNext 3 1 0 0))" by code_simp
  moreover have "bhGeneratorAddress (bftHeaderOf (exNext 1 1 0 0)) \<noteq> bhGeneratorAddress (bftHeaderOf (exNext 2 2 0 0))" by code_simp
  ultimately show ?thesis
    using contradicting_symmetric[of "bftHeaderOf (exNext 1 1 0 0)" "bftHeaderOf (exNext 2 2 0 0)"]
      contradicting_symmetric[of "bftHeaderOf (exNext 3 1 0 0)" "bftHeaderOf (exNext 1 1 0 0)"] by blast
qed

end
