(* ===== verification/CodecTyping.thy ===== *)
theory CodecTyping
  imports SchemaLaws
begin

text \<open>
  What decoding guarantees for arbitrary input: the result is well typed for the schema,
  and the loops always end (the fuel of the model never runs out).
\<close>

section \<open>Well-typed results\<close>

fun typedScalar :: "wireKind \<Rightarrow> val \<Rightarrow> bool" where
  "typedScalar UInt32T (VInt n) = (0 \<le> n \<and> n \<le> MAX_UINT32)"
| "typedScalar SInt32T (VInt n) = (- MAX_SINT32 - 1 \<le> n \<and> n \<le> MAX_SINT32)"
| "typedScalar UInt64T (VInt n) = (0 \<le> n \<and> n \<le> MAX_UINT64)"
| "typedScalar SInt64T (VInt n) = (- MAX_SINT64 - 1 \<le> n \<and> n \<le> MAX_SINT64)"
| "typedScalar StringT (VStr s) = True"
| "typedScalar BytesT (VBytes b) = True"
| "typedScalar BooleanT (VBool b) = True"
| "typedScalar _ _ = False"

fun typed :: "schemaProp list \<Rightarrow> val option list \<Rightarrow> bool" where
  "typed [] vs = (vs = [])"
| "typed (PScalar n t # ps) vs = (case vs of Some v # r \<Rightarrow> typedScalar t v \<and> typed ps r | _ \<Rightarrow> False)"
| "typed (PArray n t # ps) vs = (case vs of Some (VArr xs) # r \<Rightarrow> list_all (typedScalar t) xs \<and> typed ps r | _ \<Rightarrow> False)"
| "typed (PObject n inner # ps) vs = (case vs of Some (VObj ws) # r \<Rightarrow> typed inner ws \<and> typed ps r | _ \<Rightarrow> False)"
| "typed (PArrayObj n inner # ps) vs =
     (case vs of Some (VArr xs) # r \<Rightarrow> list_all (\<lambda>x. case x of VObj ws \<Rightarrow> typed inner ws | _ \<Rightarrow> False) xs \<and> typed ps r | _ \<Rightarrow> False)"

lemma uint32_range: "0 \<le> uint (w :: 32 word) \<and> uint w \<le> MAX_UINT32"
  using uint_lt2p[of w] by simp

lemma half_range:
  fixes u :: int
  assumes "0 \<le> u" "u \<le> 2 * M + 1"
  shows "- M - 1 \<le> - (u + 1) div 2 \<and> - (u + 1) div 2 \<le> M" "- M - 1 \<le> u div 2 \<and> u div 2 \<le> M"
  using assms by linarith+

lemma readScalar_typed: "readScalar lib t m i = Inr (v, n) \<Longrightarrow> typedScalar t v"
proof (cases t)
  case SInt32T
  assume "readScalar lib t m i = Inr (v, n)"
  then have "\<exists>w :: 32 word. v = VInt (uint w div 2) \<or> v = VInt (- (uint w + 1) div 2)"
    using SInt32T by (auto simp: rbind_Inr readSInt32_def Let_def split: sum.splits if_splits)
  then obtain w :: "32 word" where "v = VInt (uint w div 2) \<or> v = VInt (- (uint w + 1) div 2)" by blast
  then show ?thesis using SInt32T half_range[of "uint w" MAX_SINT32] uint32_range[of w] by auto
next
  case SInt64T
  assume "readScalar lib t m i = Inr (v, n)"
  then obtain u k where "readUInt64 m i = Inr (u, k)" "v = VInt (u div 2) \<or> v = VInt (- (u + 1) div 2)"
    using SInt64T by (auto simp: rbind_Inr readSInt64_def split: sum.splits if_splits)
  then show ?thesis using SInt64T half_range[of u MAX_SINT64] readUInt64_canonical[of m i u k] by auto
qed (use uint32_range readUInt64_canonical in \<open>fastforce simp: rbind_Inr\<close>)+

lemma readKeyed_typed:
  "t = StringT \<or> t = BytesT \<Longrightarrow> readKeyed lib fuel t b m i term = Inr (vs, n) \<Longrightarrow> list_all (typedScalar t) vs"
proof (induction fuel arbitrary: i vs n)
  case (Suc fuel)
  have e: "typedScalar t (if t = StringT then VStr [] else VBytes [])" using Suc.prems(1) by auto
  show ?case using Suc.prems Suc.IH e by (auto simp: readKeyed.simps rbind_Inr Let_def split: if_splits dest: readScalar_typed)
qed (simp add: readKeyed.simps)

lemma readPacked_typed: "readPacked lib fuel t m i e = Inr (vs, n) \<Longrightarrow> list_all (typedScalar t) vs"
  by (induction fuel arbitrary: i vs n) (auto simp: readPacked.simps rbind_Inr split: if_splits dest: readScalar_typed)

lemma readScalarArray_typed: "readScalarArray lib fn t m i term = Inr (vs, n) \<Longrightarrow> list_all (typedScalar t) vs"
proof -
  assume a: "readScalarArray lib fn t m i term = Inr (vs, n)"
  then obtain p where p: "peekArray m i fn = Inr p" by (auto simp: readScalarArray_def rbind_Inr)
  show ?thesis
  proof (cases p)
    case None
    then show ?thesis using a p by (simp add: readScalarArray_def)
  next
    case (Some b)
    then show ?thesis using a p
      by (auto simp: readScalarArray_def rbind_Inr Let_def split: if_splits dest: readKeyed_typed[rotated] readPacked_typed)
  qed
qed

abbreviation typedObjects :: "schemaProp list \<Rightarrow> val list \<Rightarrow> bool" where
  "typedObjects ps xs \<equiv> list_all (\<lambda>x. case x of VObj ws \<Rightarrow> typed ps ws | _ \<Rightarrow> False) xs"

lemma readObjects_typed:
  assumes "\<And>i e vs n. readObject lib m i inner e = Inr (vs, n) \<Longrightarrow> typed inner vs" "readObjects lib f b m i inner e = Inr (xs, n)"
  shows "typedObjects inner xs"
  using assms(2)
proof (induction f arbitrary: i xs n)
  case (Suc f)
  show ?case
  proof (cases "byteAt m i b \<and> i \<noteq> e")
    case True
    then obtain w k l o1 where k: "readUInt32 m i = Inr (w, k)" "readUInt32 m (i + k) = Inr (l, o1)"
      using Suc.prems by (auto simp: readObjects.simps rbind_Inr Let_def)
    show ?thesis
    proof (cases "l = 0")
      case True
      then show ?thesis using Suc.prems Suc.IH k \<open>byteAt m i b \<and> i \<noteq> e\<close> by (auto simp: readObjects.simps Let_def)
    next
      case False
      then obtain res nxt r n' where r: "readObject lib m (i + k + o1) inner (i + k + o1 + unat l) = Inr (res, nxt)"
        "readObjects lib f b m nxt inner e = Inr (r, n')" "xs = VObj res # r"
        using Suc.prems k True by (auto simp: readObjects.simps rbind_Inr Let_def)
      then show ?thesis using assms(1)[OF r(1)] Suc.IH[OF r(2)] by simp
    qed
  next
    case False
    then show ?thesis using Suc.prems by (auto simp: readObjects.simps)
  qed
qed (simp add: readObjects.simps)

lemma readObject_typed: "readObject lib m i ps e = Inr (vs, n) \<Longrightarrow> typed ps vs"
proof (induction ps arbitrary: i e vs n rule: measure_induct_rule[of "size_list size"])
  case (less ps)
  show ?case
  proof (cases ps)
    case Nil
    then show ?thesis using less.prems by (auto split: if_splits)
  next
    case (Cons p qs)
    have qs: "readObject lib m j qs e' = Inr (ws, n') \<Longrightarrow> typed qs ws" for j e' ws n' using Cons by (intro less.IH) auto
    show ?thesis
    proof (cases p)
      case (PScalar fn t)
      then show ?thesis using Cons less.prems qs by (auto simp: rbind_Inr split: if_splits dest: readScalar_typed)
    next
      case (PObject fn inner)
      have inner: "readObject lib m j inner e' = Inr (ws, n') \<Longrightarrow> typed inner ws" for j e' ws n' using Cons PObject by (intro less.IH) auto
      then show ?thesis using Cons PObject less.prems qs by (auto simp: rbind_Inr Let_def)
    next
      case (PArray fn t)
      then show ?thesis using Cons less.prems qs by (auto simp: rbind_Inr split: if_splits dest: readScalarArray_typed)
    next
      case (PArrayObj fn inner)
      have inner: "readObject lib m j inner e' = Inr (ws, n') \<Longrightarrow> typed inner ws" for j e' ws n' using Cons PArrayObj by (intro less.IH) auto
      obtain arr nxt r n' where r: "(if i \<ge> e then Inr ([], i) else rbind (peekArray m i fn) (\<lambda>p. case p of None \<Rightarrow> Inr ([], i)
           | Some b \<Rightarrow> readObjects lib (Suc (length m)) b m i inner e)) = Inr (arr, nxt)"
        "readObject lib m nxt qs e = Inr (r, n')" "vs = Some (VArr arr) # r"
        using less.prems Cons PArrayObj by (auto simp: rbind_Inr)
      have "typedObjects inner arr"
        using r(1) readObjects_typed[OF inner] by (auto simp: rbind_Inr split: if_splits option.splits)
      then show ?thesis using r(3) qs[OF r(2)] Cons PArrayObj by simp
    qed
  qed
qed

section \<open>The loops end\<close>

definition ends :: "err + 'a \<Rightarrow> bool" where
  "ends r = (r \<noteq> Inl (Error ''fuel''))"

lemma ends_simps [simp]: "ends (Inr a)" "ends (Inl e) = (e \<noteq> Error ''fuel'')"
  by (auto simp: ends_def)

lemma rbind_fuel: "ends r \<Longrightarrow> (\<And>a. r = Inr a \<Longrightarrow> ends (f a)) \<Longrightarrow> ends (rbind r f)"
  by (cases r) auto

lemma ends_if: "(c \<Longrightarrow> ends a) \<Longrightarrow> (\<not> c \<Longrightarrow> ends b) \<Longrightarrow> ends (if c then a else b)"
  by simp

lemma readLoop32_fuel: "ends (readLoop32 m off sh r i)"
proof (induction m off sh r i rule: readLoop32.induct)
  case (1 buffer offset shift result index)
  then show ?case by (subst readLoop32.simps) (auto simp: Let_def validateVarintSize_def ends_def split: sum.splits)
qed

lemma readLoop64_fuel: "ends (readLoop64 m off sh r i)"
proof (induction m off sh r i rule: readLoop64.induct)
  case (1 buffer offset shift result index)
  then show ?case by (subst readLoop64.simps) (auto simp: Let_def validateVarintSize_def ends_def split: sum.splits)
qed

lemma readUInt32_fuel [simp]: "ends (readUInt32 m i)"
  by (simp add: readUInt32_def readLoop32_fuel)

lemma readUInt64_fuel [simp]: "ends (readUInt64 m i)"
  by (simp add: readUInt64_def readLoop64_fuel)

lemma readUInt32_progress: "readUInt32 m i = Inr (w, k) \<Longrightarrow> 0 < k \<and> i < length m"
proof -
  assume a: "readUInt32 m i = Inr (w, k)"
  have "take k (drop i m) = writeLoop (uint w)" using readUInt32_canonical[OF a] by (auto simp: writeUInt32_def split: if_splits)
  then have "take k (drop i m) \<noteq> []" by simp
  then show ?thesis by (cases k) auto
qed

lemma readUInt64_progress: "readUInt64 m i = Inr (w, k) \<Longrightarrow> 0 < k \<and> i < length m"
proof -
  assume a: "readUInt64 m i = Inr (w, k)"
  have "take k (drop i m) = writeLoop w" using readUInt64_canonical[OF a] by (auto simp: writeUInt64_def split: if_splits)
  then have "take k (drop i m) \<noteq> []" by simp
  then show ?thesis by (cases k) auto
qed

lemma readBytes_fuel: "ends (readBytes m i)"
  using readUInt32_fuel[of m i] by (auto simp: ends_def readBytes_def split: sum.splits)

lemma readScalar_fuel: "ends (readScalar lib t m i)"
  using readUInt32_fuel[of m i] readUInt64_fuel[of m i] readBytes_fuel[of m i]
  by (cases t) (auto simp: ends_def rbind_def readSInt32_def readSInt64_def readString_def readBoolean_def Let_def split: sum.splits)

lemma readScalar_progress: "readScalar lib t m i = Inr (v, n) \<Longrightarrow> 0 < n \<and> i < length m"
  by (cases t)
    (auto simp: rbind_Inr readSInt32_def readSInt64_def readString_def readBytes_def readBoolean_def Let_def
      split: sum.splits if_splits dest: readUInt32_progress readUInt64_progress)

lemma readKeyed_fuel: "length m - i < fuel \<Longrightarrow> ends (readKeyed lib fuel t b m i term)"
proof (induction fuel arbitrary: i)
  case (Suc fuel)
  have step: "ends (readKeyed lib fuel t b m (i + k + sz) term)" if "byteAt m i b" "readUInt32 m i = Inr (w, k)" for w k sz
    using that Suc readUInt32_progress[OF that(2)] by (intro Suc.IH) auto
  show ?case
  proof (cases "byteAt m i b \<and> i \<noteq> term")
    case True
    then show ?thesis using step readScalar_fuel[of lib t m]
      by (auto simp: readKeyed.simps Let_def split_def intro!: rbind_fuel ends_if)
  qed (auto simp: readKeyed.simps)
qed simp

lemma readPacked_fuel: "length m - i < fuel \<Longrightarrow> ends (readPacked lib fuel t m i e)"
proof (induction fuel arbitrary: i)
  case (Suc fuel)
  have step: "ends (readPacked lib fuel t m (i + sz) e)" if "readScalar lib t m i = Inr (v, sz)" for v sz
    using Suc readScalar_progress[OF that] by (intro Suc.IH) auto
  show ?case using step readScalar_fuel[of lib t m i] by (auto simp: readPacked.simps split_def intro!: rbind_fuel ends_if)
qed simp

lemma readKey_fuel: "ends (readKey k)"
  by (simp add: readKey_def Let_def)

lemma peekArray_fuel: "ends (peekArray m i fn)"
  using readKey_fuel by (auto simp: peekArray_def split_def intro!: rbind_fuel ends_if)

lemma expectKey_fuel: "ends (expectKey m i fn t)"
  using readKey_fuel by (auto simp: expectKey_def split_def intro!: rbind_fuel ends_if)

lemma readScalarArray_fuel: "ends (readScalarArray lib fn t m i term)"
proof -
  have "ends (readKeyed lib (Suc (length m)) t b m j term)" "ends (readPacked lib (Suc (length m)) t m j e)" for b j e
    using readKeyed_fuel[of m j "Suc (length m)"] readPacked_fuel[of m j "Suc (length m)"] by auto
  then show ?thesis using peekArray_fuel[of m i fn]
    by (auto simp: readScalarArray_def split_def Let_def split: option.split intro!: rbind_fuel ends_if)
qed

lemma readObject_next: "readObject lib m i ps e = Inr (vs, n) \<Longrightarrow> n = e"
proof (induction ps arbitrary: i vs n)
  case (Cons p ps)
  then show ?case by (cases p) (auto simp: rbind_Inr Let_def split: if_splits)
qed (simp split: if_splits)

lemma readObjects_fuel:
  assumes "\<And>i e. ends (readObject lib m i inner e)" "length m - i < f"
  shows "ends (readObjects lib f b m i inner e)"
  using assms(2)
proof (induction f arbitrary: i)
  case (Suc f)
  have step: "ends (readObjects lib f b m j inner e)" if "byteAt m i b" "i < j" for j
    using that Suc.prems by (intro Suc.IH) (auto simp: byteAt_def)
  show ?case
  proof (cases "byteAt m i b \<and> i \<noteq> e")
    case True
    show ?thesis unfolding readObjects.simps if_P[OF True] Let_def
    proof (intro rbind_fuel, goal_cases)
      case (2 a)
      obtain w k where a: "a = (w, k)" by (cases a)
      show ?case unfolding a prod.case
      proof (intro rbind_fuel, goal_cases)
        case (2 c)
        obtain l n where c: "c = (l, n)" by (cases c)
        have less: "ends (readObjects lib f b m j inner e)" if "i + k + n \<le> j" for j
          using step[of j] True that readUInt32_progress[of m i w k] \<open>readUInt32 m i = Inr a\<close> a by simp
        have "ends (readObject lib m (i + k + n) inner (i + k + n + unat l))" by (rule assms(1))
        moreover have "ends (readObjects lib f b m nxt inner e)"
          if "readObject lib m (i + k + n) inner (i + k + n + unat l) = Inr (r, nxt)" for r nxt
          using less[of nxt] readObject_next[OF that] by simp
        ultimately show ?case unfolding c prod.case using less[of "i + k + n"] by (auto intro!: rbind_fuel)
      qed simp
    qed simp
  qed (auto simp: readObjects.simps)
qed simp

lemma readObject_fuel: "ends (readObject lib m i ps e)"
proof (induction ps arbitrary: i e rule: measure_induct_rule[of "size_list size"])
  case (less ps)
  show ?case
  proof (cases ps)
    case (Cons p qs)
    have qs: "ends (readObject lib m j qs e')" for j e' using Cons by (intro less.IH) simp
    show ?thesis
    proof (cases p)
      case (PScalar fn t)
      then show ?thesis using Cons qs expectKey_fuel readScalar_fuel by (auto simp: split_def intro!: rbind_fuel)
    next
      case (PObject fn inner)
      then have "ends (readObject lib m j inner e')" for j e' using Cons by (intro less.IH) simp
      then show ?thesis using Cons PObject qs expectKey_fuel by (auto simp: Let_def split_def intro!: rbind_fuel)
    next
      case (PArray fn t)
      then show ?thesis using Cons qs readScalarArray_fuel by (auto simp: split_def intro!: rbind_fuel)
    next
      case (PArrayObj fn inner)
      then have "ends (readObject lib m j inner e')" for j e' using Cons by (intro less.IH) simp
      then have "ends (readObjects lib (Suc (length m)) b m j inner e')" for b j e' by (intro readObjects_fuel) auto
      then show ?thesis using Cons PArrayObj qs peekArray_fuel by (auto simp: split_def split: option.split intro!: rbind_fuel)
    qed
  qed simp
qed

lemma decode_typed: "decode lib schema bs = Inr vs \<Longrightarrow> typed schema vs"
  using readObject_typed by (auto simp: decode_def rbind_Inr)

text \<open>
  C24: decoding is type safe. Whatever the bytes, when \<open>decode\<close> succeeds the result has a
  value for every property of the schema, of the property's type and within the range of
  the type, also inside nested objects and arrays.
\<close>

theorem decode_well_typed:
  assumes "decode lib schema bs = Inr vs"
  shows "typed schema vs"
  using assms by (rule decode_typed)

text \<open>
  C30: decoding terminates. Every round of the loops over arrays consumes at least one byte,
  so that the number of rounds allowed by the model (one more than the bytes of the
  message) is never exhausted, whatever the bytes.
\<close>

theorem decode_terminates:
  "decode lib schema bs \<noteq> Inl (Error ''fuel'')"
  using readObject_fuel[of lib bs 0 schema "length bs"] by (auto simp: decode_def ends_def rbind_def split: sum.splits)

theorem decode_well_typed_witness:
  "decode asciiLib [PScalar 1 UInt32T, PArray 2 BooleanT] [8, 5, 18, 2, 1, 0] = Inr [Some (VInt 5), Some (VArr [VBool True, VBool False])] \<and>
   typed [PScalar 1 UInt32T, PArray 2 BooleanT] [Some (VInt 5), Some (VArr [VBool True, VBool False])]"
proof -
  have "decode asciiLib [PScalar 1 UInt32T, PArray 2 BooleanT] [8, 5, 18, 2, 1, 0] = Inr [Some (VInt 5), Some (VArr [VBool True, VBool False])]"
    by code_simp
  with decode_well_typed[OF this] show ?thesis by blast
qed

end
