(* ===== verification/StateMachine.thy ===== *)
theory StateMachine
  imports BFT Context
begin

text \<open>
  The state machine (\<open>framework/src/state_machine/state_machine.ts\<close>) runs the hooks of the
  registered modules on the contexts of \<open>block_context.ts\<close>, \<open>transaction_context.ts\<close> and
  \<open>genesis_block_context.ts\<close>.

  A module is a record of its hooks; a hook that a module does not define is \<open>None\<close>. The
  context of a hook is the record \<open>sctx\<close>: the event queue and the context store of theory
  \<open>Context\<close>, the state store and the next validators. The state store is a read-writer
  of the state database, which is native code: its snapshots are the parameter \<open>rw\<close>, and the
  law the state machine relies on is \<open>snapshotLaw\<close>.
\<close>

section \<open>Contexts\<close>

record nextValidators =
  nvPrecommitThreshold :: int
  nvCertificateThreshold :: int
  nvValidators :: "validator list"

record 'st sctx = ctx +
  sState :: 'st
  sNext :: "nextValidators option"

record 'st readWriter =
  rwSnapshot :: "'st \<Rightarrow> nat \<times> 'st"
  rwRestore :: "nat \<Rightarrow> 'st \<Rightarrow> 'st"

definition EVENT_INDEX_INIT_GENESIS_STATE :: bytes where "EVENT_INDEX_INIT_GENESIS_STATE = [0]"
definition EVENT_INDEX_FINALIZE_GENESIS_STATE :: bytes where "EVENT_INDEX_FINALIZE_GENESIS_STATE = [1]"
definition EVENT_INDEX_BEFORE_TRANSACTIONS :: bytes where "EVENT_INDEX_BEFORE_TRANSACTIONS = [2]"
definition EVENT_INDEX_AFTER_TRANSACTIONS :: bytes where "EVENT_INDEX_AFTER_TRANSACTIONS = [3]"
definition EVENT_TOPIC_TRANSACTION_EXECUTION :: bytes where "EVENT_TOPIC_TRANSACTION_EXECUTION = [4]"
definition EVENT_TRANSACTION_NAME :: string where "EVENT_TRANSACTION_NAME = ''commandExecutionResult''"

definition standardEventDataSchema :: "schemaProp list" where
  "standardEventDataSchema = [PScalar 1 BooleanT]"

text \<open>\<open>setNextValidators\<close> of the contexts that are executed after the transactions and for the genesis block.\<close>

definition setNextValidators :: "int \<Rightarrow> int \<Rightarrow> validator list \<Rightarrow> ('st sctx, unit) m" where
  "setNextValidators precommitT certificateT vs =
     bind (gets sNext) (\<lambda>n.
     if n \<noteq> None then throw (Error ''Next validators can be set only once'')
     else modify (\<lambda>s. s\<lparr>sNext := Some \<lparr>nvPrecommitThreshold = precommitT, nvCertificateThreshold = certificateT, nvValidators = vs\<rparr>\<rparr>))"

definition nextValidatorsOf :: "'st sctx \<Rightarrow> nextValidators" where
  "nextValidatorsOf s = (case sNext s of None \<Rightarrow> \<lparr>nvPrecommitThreshold = 0, nvCertificateThreshold = 0, nvValidators = []\<rparr> | Some n \<Rightarrow> n)"

section \<open>Modules\<close>

datatype verifyStatus = VerifyFAIL | VerifyPENDING | VerifyOK

type_synonym verificationResult = "verifyStatus \<times> err option"

record 'st smCommand =
  cmdName :: string
  cmdSchema :: "schemaProp list"
  cmdSchemaValid :: "val option list \<Rightarrow> bool"
  cmdVerify :: "(blockHeader \<Rightarrow> transaction \<Rightarrow> val option list \<Rightarrow> ('st sctx, verificationResult) m) option"
  cmdExecute :: "blockHeader \<Rightarrow> blockAsset list \<Rightarrow> transaction \<Rightarrow> val option list \<Rightarrow> ('st sctx, unit) m"

record 'st smModule =
  modName :: string
  modCommands :: "'st smCommand list"
  modEvents :: "bytes list"
  modStores :: "bytes list"
  modVerifyTransaction :: "(blockHeader \<Rightarrow> transaction \<Rightarrow> ('st sctx, verificationResult) m) option"
  modBeforeCommandExecute :: "(blockHeader \<Rightarrow> blockAsset list \<Rightarrow> transaction \<Rightarrow> ('st sctx, unit) m) option"
  modAfterCommandExecute :: "(blockHeader \<Rightarrow> blockAsset list \<Rightarrow> transaction \<Rightarrow> ('st sctx, unit) m) option"
  modVerifyAssets :: "(blockHeader \<Rightarrow> blockAsset list \<Rightarrow> ('st sctx, unit) m) option"
  modBeforeTransactionsExecute :: "(blockHeader \<Rightarrow> blockAsset list \<Rightarrow> ('st sctx, unit) m) option"
  modAfterTransactionsExecute :: "(blockHeader \<Rightarrow> blockAsset list \<Rightarrow> transaction list \<Rightarrow> ('st sctx, unit) m) option"
  modInitGenesisState :: "(blockHeader \<Rightarrow> blockAsset list \<Rightarrow> ('st sctx, unit) m) option"
  modFinalizeGenesisState :: "(blockHeader \<Rightarrow> blockAsset list \<Rightarrow> ('st sctx, unit) m) option"

text \<open>The defined hooks, in the order of registration.\<close>

definition hooksOf :: "('a \<Rightarrow> 'h option) \<Rightarrow> 'a list \<Rightarrow> 'h list" where
  "hooksOf f ms = List.map_filter f ms"

definition findModule :: "'st smModule list \<Rightarrow> string \<Rightarrow> 'st smModule option" where
  "findModule ms name = find (\<lambda>md. modName md = name) ms"

definition getCommand :: "'st smModule list \<Rightarrow> string \<Rightarrow> string \<Rightarrow> err + 'st smCommand" where
  "getCommand ms module command =
     (case findModule ms module of
        None \<Rightarrow> Inl (Error ''Module is not registered.'')
      | Some md \<Rightarrow> (case find (\<lambda>c. cmdName c = command) (modCommands md) of
          None \<Rightarrow> Inl (Error ''Module does not have command registered.'')
        | Some c \<Rightarrow> Inr c))"

primrec checkKeys :: "bytes list \<Rightarrow> bytes list \<Rightarrow> string \<Rightarrow> err + unit" where
  "checkKeys existing [] t = Inr ()"
| "checkKeys existing (k # ks) t = (if k \<in> set existing then Inl (Error t) else checkKeys (existing @ [k]) ks t)"

definition validateExisting :: "'st smModule list \<Rightarrow> 'st smModule \<Rightarrow> err + unit" where
  "validateExisting ms md =
     (if findModule ms (modName md) \<noteq> None then Inl (Error ''Module is registered.'')
      else rbind (checkKeys (concat (map modEvents ms)) (modEvents md) ''Module has conflicting event'') (\<lambda>_.
      checkKeys (concat (map modStores ms)) (modStores md) ''Module has conflicting store''))"

definition registerModule :: "'st smModule \<Rightarrow> 'st smModule list \<Rightarrow> err + 'st smModule list" where
  "registerModule md ms = rbind (validateExisting ms md) (\<lambda>_. Inr (ms @ [md]))"

section \<open>Transactions\<close>

text \<open>The loop over the modules stops at the first result that is not \<open>OK\<close>.\<close>

primrec verifyHooks :: "('s, verificationResult) m list \<Rightarrow> ('s, verificationResult) m \<Rightarrow> ('s, verificationResult) m" where
  "verifyHooks [] c = c"
| "verifyHooks (h # hs) c = bind h (\<lambda>r. if fst r \<noteq> VerifyOK then ret r else verifyHooks hs c)"

definition smVerifyTransaction :: "jsLib \<Rightarrow> 'st smModule list \<Rightarrow> blockHeader \<Rightarrow> transaction \<Rightarrow> bool \<Rightarrow> ('st sctx, verificationResult) m" where
  "smVerifyTransaction lib ms header tx onlyCommand =
     tryCatch
       (verifyHooks (if onlyCommand then [] else map (\<lambda>h. h header tx) (hooksOf modVerifyTransaction ms))
         (bind (liftE (getCommand ms (txModule tx) (txCommand tx))) (\<lambda>command.
          bind (liftE (decode lib (cmdSchema command) (txParams tx))) (\<lambda>params.
          if \<not> cmdSchemaValid command params then throw (Error ''KlayrvalidationError'')
          else (case cmdVerify command of
              None \<Rightarrow> ret (VerifyOK, None)
            | Some v \<Rightarrow> bind (v header tx params) (\<lambda>r. if fst r \<noteq> VerifyOK then ret r else ret (VerifyOK, None)))))))
       (\<lambda>e. ret (VerifyFAIL, Some e))"

datatype transactionExecutionResult = ExecuteINVALID | ExecuteFAIL | ExecuteOK

definition snapshotBoth :: "'st readWriter \<Rightarrow> ('st sctx, nat \<times> nat) m" where
  "snapshotBoth rw =
     bind (gets (\<lambda>s. createSnapshot (cEvents s))) (\<lambda>q.
     bind (gets (\<lambda>s. fst (rwSnapshot rw (sState s)))) (\<lambda>i.
     andThen (modify (\<lambda>s. s\<lparr>sState := snd (rwSnapshot rw (sState s))\<rparr>)) (ret (q, i))))"

definition restoreBoth :: "'st readWriter \<Rightarrow> nat \<times> nat \<Rightarrow> ('st sctx, unit) m" where
  "restoreBoth rw snap = modify (\<lambda>s. s\<lparr>cEvents := restoreSnapshot (fst snap) (cEvents s), sState := rwRestore rw (snd snap) (sState s)\<rparr>)"

text \<open>A loop over hooks, each in its own \<open>try\<close>: the first failure restores the snapshot and ends the loop.\<close>

primrec runHooks :: "'st readWriter \<Rightarrow> nat \<times> nat \<Rightarrow> ('st sctx, unit) m list \<Rightarrow> ('st sctx, bool) m" where
  "runHooks rw snap [] = ret True"
| "runHooks rw snap (h # hs) =
     bind (tryCatch (andThen h (ret True)) (\<lambda>_. andThen (restoreBoth rw snap) (ret False))) (\<lambda>success.
     if success then runHooks rw snap hs else ret False)"

definition commandHooks :: "bytes \<Rightarrow> blockHeader \<Rightarrow> blockAsset list \<Rightarrow> transaction \<Rightarrow>
    ('st smModule \<Rightarrow> (blockHeader \<Rightarrow> blockAsset list \<Rightarrow> transaction \<Rightarrow> ('st sctx, unit) m) option) \<Rightarrow> 'st smModule list \<Rightarrow> ('st sctx, unit) m list" where
  "commandHooks topic header assets tx hook ms = map (\<lambda>h. withTopics [topic] (h header assets tx)) (hooksOf hook ms)"

definition smExecuteTransaction :: "jsLib \<Rightarrow> (bytes \<Rightarrow> bytes) \<Rightarrow> 'st readWriter \<Rightarrow> 'st smModule list \<Rightarrow> blockHeader \<Rightarrow> blockAsset list \<Rightarrow> transaction \<Rightarrow>
    ('st sctx, transactionExecutionResult) m" where
  "smExecuteTransaction lib hash rw ms header assets tx =
     bind (liftE (txId lib hash tx)) (\<lambda>txid.
     let topic = EVENT_TOPIC_TRANSACTION_EXECUTION @ txid in
     bind (snapshotBoth rw) (\<lambda>snap.
     bind (runHooks rw snap (commandHooks topic header assets tx modBeforeCommandExecute ms)) (\<lambda>success.
     if \<not> success then ret ExecuteINVALID
     else bind (liftE (getCommand ms (txModule tx) (txCommand tx))) (\<lambda>command.
     bind (snapshotBoth rw) (\<lambda>commandSnap.
     bind (liftE (decode lib (cmdSchema command) (txParams tx))) (\<lambda>params.
     bind (tryCatch (andThen (withTopics [topic] (cmdExecute command header assets tx params)) (ret ExecuteOK))
             (\<lambda>_. andThen (restoreBoth rw commandSnap) (ret ExecuteFAIL))) (\<lambda>status.
     bind (runHooks rw snap (commandHooks topic header assets tx modAfterCommandExecute ms)) (\<lambda>success.
     if \<not> success then ret ExecuteINVALID
     else bind (liftE (encode lib standardEventDataSchema [Some (VBool (status = ExecuteOK))])) (\<lambda>data.
     andThen (modify (\<lambda>s. s\<lparr>cEvents := unsafeAdd (cHeight s) (cTopics s) (txModule tx) EVENT_TRANSACTION_NAME data [topic] False (cEvents s)\<rparr>))
       (ret status))))))))))"

section \<open>Blocks\<close>

definition smVerifyAssets :: "'st smModule list \<Rightarrow> blockHeader \<Rightarrow> blockAsset list \<Rightarrow> ('st sctx, unit) m" where
  "smVerifyAssets ms header assets =
     (if list_ex (\<lambda>a. findModule ms (asModule a) = None) assets then throw (Error ''Module is not registered.'')
      else forEach (hooksOf modVerifyAssets ms) (\<lambda>h. h header assets))"

definition smBeforeTransactionsExecute :: "'st smModule list \<Rightarrow> blockHeader \<Rightarrow> blockAsset list \<Rightarrow> ('st sctx, unit) m" where
  "smBeforeTransactionsExecute ms header assets =
     withTopics [EVENT_INDEX_BEFORE_TRANSACTIONS] (forEach (hooksOf modBeforeTransactionsExecute ms) (\<lambda>h. h header assets))"

definition smAfterExecuteBlock :: "'st smModule list \<Rightarrow> blockHeader \<Rightarrow> blockAsset list \<Rightarrow> transaction list \<Rightarrow> ('st sctx, unit) m" where
  "smAfterExecuteBlock ms header assets txs =
     withTopics [EVENT_INDEX_AFTER_TRANSACTIONS] (forEach (hooksOf modAfterTransactionsExecute ms) (\<lambda>h. h header assets txs))"

definition smExecuteGenesisBlock :: "'st smModule list \<Rightarrow> blockHeader \<Rightarrow> blockAsset list \<Rightarrow> ('st sctx, unit) m" where
  "smExecuteGenesisBlock ms header assets =
     andThen (withTopics [EVENT_INDEX_INIT_GENESIS_STATE] (forEach (hooksOf modInitGenesisState ms) (\<lambda>h. h header assets)))
       (withTopics [EVENT_INDEX_FINALIZE_GENESIS_STATE] (forEach (hooksOf modFinalizeGenesisState ms) (\<lambda>h. h header assets)))"


section \<open>What the state machine relies on\<close>

text \<open>
  \<open>later s t\<close>: \<open>t\<close> comes from \<open>s\<close> by reads, writes, new snapshots and restoring them;
  \<open>view\<close> is the content. Restoring a snapshot brings the content of its time back.
\<close>

definition snapshotLaw :: "'st readWriter \<Rightarrow> ('st \<Rightarrow> 'v) \<Rightarrow> ('st \<Rightarrow> 'st \<Rightarrow> bool) \<Rightarrow> bool" where
  "snapshotLaw rw view later = ((\<forall>s. later s s) \<and> (\<forall>s t u. later s t \<longrightarrow> later t u \<longrightarrow> later s u) \<and>
     (\<forall>s. later s (snd (rwSnapshot rw s)) \<and> view (snd (rwSnapshot rw s)) = view s) \<and>
     (\<forall>s t. later (snd (rwSnapshot rw s)) t \<longrightarrow>
        view (rwRestore rw (fst (rwSnapshot rw s)) t) = view s \<and> later s (rwRestore rw (fst (rwSnapshot rw s)) t)))"

text \<open>A hook moves the state forward and only appends to the event queue, also when it fails.\<close>

definition forward :: "('st \<Rightarrow> 'st \<Rightarrow> bool) \<Rightarrow> 'st sctx \<Rightarrow> 'st sctx \<Rightarrow> bool" where
  "forward later s t = (later (sState s) (sState t) \<and> (\<exists>xs. cEvents t = cEvents s @ xs) \<and> (queueOk (cEvents s) \<longrightarrow> queueOk (cEvents t)) \<and>
     cHeight t = cHeight s \<and> cTopics t = cTopics s)"

definition hookOk :: "('st \<Rightarrow> 'st \<Rightarrow> bool) \<Rightarrow> ('st sctx, 'a) m \<Rightarrow> bool" where
  "hookOk later h = (\<forall>s. forward later s (snd (h s)))"

definition modulesOk :: "('st \<Rightarrow> 'st \<Rightarrow> bool) \<Rightarrow> 'st smModule list \<Rightarrow> bool" where
  "modulesOk later ms = (\<forall>md \<in> set ms.
     (\<forall>h. modBeforeCommandExecute md = Some h \<longrightarrow> (\<forall>header assets tx. hookOk later (h header assets tx))) \<and>
     (\<forall>h. modAfterCommandExecute md = Some h \<longrightarrow> (\<forall>header assets tx. hookOk later (h header assets tx))) \<and>
     (\<forall>c \<in> set (modCommands md). \<forall>header assets tx params. hookOk later (cmdExecute c header assets tx params)))"

text \<open>The state of \<open>s\<close> is back and of the events after it only non-revertible ones are left.\<close>

definition rolledBack :: "('st \<Rightarrow> 'v) \<Rightarrow> 'st sctx \<Rightarrow> 'st sctx \<Rightarrow> bool" where
  "rolledBack view s t = (view (sState t) = view (sState s) \<and> (\<exists>xs. cEvents t = cEvents s @ xs \<and> list_all (\<lambda>e. \<not> noRevert e) xs) \<and>
     (queueOk (cEvents s) \<longrightarrow> queueOk (cEvents t)))"

lemma forward_refl: "snapshotLaw rw view later \<Longrightarrow> forward later s s"
  by (simp add: forward_def snapshotLaw_def)

lemma forward_trans: "snapshotLaw rw view later \<Longrightarrow> forward later s t \<Longrightarrow> forward later t u \<Longrightarrow> forward later s u"
  unfolding forward_def snapshotLaw_def by (metis append.assoc)

lemma forward_snapshot: "snapshotLaw rw view later \<Longrightarrow> forward later s (s\<lparr>sState := snd (rwSnapshot rw (sState s))\<rparr>)"
  by (simp add: forward_def snapshotLaw_def)

lemma hookOk_withTopics: "hookOk later h \<Longrightarrow> hookOk later (withTopics ts h)"
proof -
  assume h: "hookOk later h"
  have "forward later s (snd (withTopics ts h s))" for s
    using h[unfolded hookOk_def, rule_format, of "s\<lparr>cTopics := ts\<rparr>"] by (auto simp: withTopics_def forward_def Let_def split: prod.split)
  then show ?thesis by (simp add: hookOk_def)
qed

lemma hooksOf_set: "h \<in> set (hooksOf f ms) \<longleftrightarrow> (\<exists>md \<in> set ms. f md = Some h)"
  by (induction ms) (auto simp: hooksOf_def List.map_filter_simps split: option.splits)

lemma reindex_revertible: "list_all (\<lambda>e. \<not> noRevert e) (reindex i rs)"
  by (induction rs arbitrary: i) auto

lemma snapshot_wp: "wp (snapshotBoth rw) Q E s = Q (length (cEvents s), fst (rwSnapshot rw (sState s))) (s\<lparr>sState := snd (rwSnapshot rw (sState s))\<rparr>)"
  by (simp add: snapshotBoth_def wp createSnapshot_def)

lemma restore_rolls_back:
  assumes "snapshotLaw rw view later" "forward later (s\<lparr>sState := snd (rwSnapshot rw (sState s))\<rparr>) t"
  shows "wp (restoreBoth rw (length (cEvents s), fst (rwSnapshot rw (sState s)))) (\<lambda>_ u. rolledBack view s u \<and> forward later s u) E t"
proof -
  obtain xs where x: "cEvents t = cEvents s @ xs" "later (snd (rwSnapshot rw (sState s))) (sState t)" "queueOk (cEvents s) \<Longrightarrow> queueOk (cEvents t)"
    "cHeight t = cHeight s" "cTopics t = cTopics s"
    using assms(2) by (auto simp: forward_def)
  let ?k = "length (cEvents s)"
  have r: "restoreSnapshot ?k (cEvents t) = cEvents s @ reindex ?k (filter noRevert xs)" by (simp add: restoreSnapshot_def x(1))
  have q: "queueOk (cEvents s) \<Longrightarrow> queueOk (restoreSnapshot ?k (cEvents t))" using queueOk_restore[of "cEvents t" ?k] x(1,3) by simp
  show ?thesis using assms(1) x(2,4,5) r q reindex_revertible[of ?k "filter noRevert xs"]
    by (simp add: restoreBoth_def wp rolledBack_def forward_def snapshotLaw_def)
qed

lemma runHooks_wp:
  assumes law: "snapshotLaw rw view later" and hs: "\<forall>h \<in> set hs. hookOk later h"
    and s: "forward later (s0\<lparr>sState := snd (rwSnapshot rw (sState s0))\<rparr>) s"
  shows "wp (runHooks rw (length (cEvents s0), fst (rwSnapshot rw (sState s0))) hs) (\<lambda>success t. if success then forward later s t else rolledBack view s0 t) (\<lambda>_ _. False) s"
  using hs s
proof (induction hs arbitrary: s)
  case Nil
  then show ?case using forward_refl[OF law] by (simp add: wp)
next
  case (Cons h hs)
  obtain r t where t: "h s = (r, t)" by fastforce
  have f: "forward later s t" using Cons.prems(1) t by (metis hookOk_def list.set_intros(1) snd_conv)
  note ft = forward_trans[OF law Cons.prems(2) f]
  show ?case
  proof (cases r)
    case (Inl e)
    have "h s = (Inl e, t)" using t Inl by simp
    then have "wp h Q E s = E e t" for Q E by (simp add: wp_def)
    then show ?thesis using wp_mono[OF restore_rolls_back[OF law ft]] by (simp add: wp)
  next
    case (Inr a)
    have "h s = (Inr a, t)" using t Inr by simp
    then have w: "wp h Q E s = Q a t" for Q E by (simp add: wp_def)
    have "wp (runHooks rw (length (cEvents s0), fst (rwSnapshot rw (sState s0))) hs) (\<lambda>success u. if success then forward later s u else rolledBack view s0 u) (\<lambda>_ _. False) t"
      by (rule wp_mono[OF Cons.IH[OF _ ft]]) (use Cons.prems(1) forward_trans[OF law f] in \<open>auto split: if_splits\<close>)
    then show ?thesis by (simp add: wp w)
  qed
qed


section \<open>Execution of a transaction\<close>

definition started :: "'st readWriter \<Rightarrow> 'st sctx \<Rightarrow> 'st sctx" where
  "started rw s = s\<lparr>sState := snd (rwSnapshot rw (sState s))\<rparr>"

definition snapOf :: "'st readWriter \<Rightarrow> 'st sctx \<Rightarrow> nat \<times> nat" where
  "snapOf rw s = (length (cEvents s), fst (rwSnapshot rw (sState s)))"

lemma bind_Inr: "bind c f s = (Inr b, u) \<longleftrightarrow> (\<exists>a t. c s = (Inr a, t) \<and> f a t = (Inr b, u))"
  by (auto simp: bind_def split: prod.splits sum.splits)

lemma liftE_Inr: "liftE r s = (Inr a, t) \<longleftrightarrow> r = Inr a \<and> t = s"
  by (auto simp: liftE_def)

lemma snapshot_run: "snapshotBoth rw s = (Inr (snapOf rw s), started rw s)"
  by (simp add: snapshotBoth_def bind_def gets_def modify_def andThen_def ret_def createSnapshot_def snapOf_def started_def)

lemma commandHooks_ok:
  assumes "modulesOk later ms" "hook = modBeforeCommandExecute \<or> hook = modAfterCommandExecute"
  shows "\<forall>h \<in> set (commandHooks topic header assets tx hook ms). hookOk later h"
  using assms by (auto simp: commandHooks_def hooksOf_set modulesOk_def intro!: hookOk_withTopics)

lemma find_member: "find P xs = Some x \<Longrightarrow> x \<in> set xs"
  by (auto simp: find_Some_iff)

lemma command_ok: "modulesOk later ms \<Longrightarrow> getCommand ms m c = Inr command \<Longrightarrow> hookOk later (cmdExecute command header assets tx params)"
  by (auto simp: getCommand_def findModule_def modulesOk_def split: option.splits dest!: find_member)

lemma hooks_forward:
  assumes "snapshotLaw rw view later" "\<forall>h \<in> set hs. hookOk later h" "forward later (started rw s0) s" "runHooks rw (snapOf rw s0) hs s = (Inr success, t)"
  shows "if success then forward later s t else rolledBack view s0 t"
  using runHooks_wp[OF assms(1,2), of s0 s] assms(3,4) by (simp add: wp_def started_def snapOf_def)

lemma command_phase:
  assumes law: "snapshotLaw rw view later" and c: "hookOk later c"
    and run: "tryCatch (andThen c (ret ExecuteOK)) (\<lambda>_. andThen (restoreBoth rw (snapOf rw u)) (ret ExecuteFAIL)) (started rw u) = (Inr status, w)"
  shows "forward later u w \<and> status \<noteq> ExecuteINVALID \<and> (if status = ExecuteFAIL then rolledBack view u w else c (started rw u) = (Inr (), w))"
proof -
  obtain r v where v: "c (started rw u) = (r, v)" by fastforce
  have f: "forward later (started rw u) v" using c v by (metis hookOk_def snd_conv)
  have su: "forward later u (started rw u)" using forward_snapshot[OF law] by (simp add: started_def)
  show ?thesis
  proof (cases r)
    case (Inl e)
    have "wp (restoreBoth rw (snapOf rw u)) (\<lambda>_ x. rolledBack view u x \<and> forward later u x) (\<lambda>_ _. False) v"
      using restore_rolls_back[OF law] f by (simp add: started_def snapOf_def)
    then show ?thesis using run v Inl by (auto simp: tryCatch_def andThen_def bind_def ret_def wp_def split: prod.splits sum.splits)
  next
    case (Inr a)
    then show ?thesis using run v forward_trans[OF law su f] by (auto simp: tryCatch_def andThen_def bind_def ret_def)
  qed
qed

lemma transaction_parts:
  assumes "snapshotLaw rw view later" "modulesOk later ms" "queueOk (cEvents s)"
    "smExecuteTransaction lib hash rw ms header assets tx s = (Inr r, t)"
  shows "queueOk (cEvents t) \<and>
    (if r = ExecuteINVALID then rolledBack view s t
     else \<exists>txid command params u w a data. txId lib hash tx = Inr txid \<and> getCommand ms (txModule tx) (txCommand tx) = Inr command \<and>
       decode lib (cmdSchema command) (txParams tx) = Inr params \<and>
       runHooks rw (snapOf rw s) (commandHooks (EVENT_TOPIC_TRANSACTION_EXECUTION @ txid) header assets tx modBeforeCommandExecute ms) (started rw s) = (Inr True, u) \<and>
       (if r = ExecuteFAIL then rolledBack view u w
        else withTopics [EVENT_TOPIC_TRANSACTION_EXECUTION @ txid] (cmdExecute command header assets tx params) (started rw u) = (Inr (), w)) \<and>
       runHooks rw (snapOf rw s) (commandHooks (EVENT_TOPIC_TRANSACTION_EXECUTION @ txid) header assets tx modAfterCommandExecute ms) w = (Inr True, a) \<and>
       encode lib standardEventDataSchema [Some (VBool (r = ExecuteOK))] = Inr data \<and> sState t = sState a \<and>
       cEvents t = unsafeAdd (cHeight s) (cTopics s) (txModule tx) EVENT_TRANSACTION_NAME data [EVENT_TOPIC_TRANSACTION_EXECUTION @ txid] False (cEvents a))"
proof -
  note law = assms(1) and mods = assms(2)
  obtain txid where id: "txId lib hash tx = Inr txid" using assms(4) by (auto simp: smExecuteTransaction_def bind_Inr liftE_Inr)
  define topic where "topic = EVENT_TOPIC_TRANSACTION_EXECUTION @ txid"
  let ?hooks = "\<lambda>f. commandHooks topic header assets tx f ms"
  obtain ok1 u where u: "runHooks rw (snapOf rw s) (?hooks modBeforeCommandExecute) (started rw s) = (Inr ok1, u)"
    using assms(4) id by (auto simp: smExecuteTransaction_def bind_Inr liftE_Inr snapshot_run topic_def Let_def)
  have f1: "if ok1 then forward later (started rw s) u else rolledBack view s u"
    using hooks_forward[OF law commandHooks_ok[OF mods] forward_refl[OF law] u] by simp
  show ?thesis
  proof (cases ok1)
    case False
    then have "r = ExecuteINVALID" "t = u" using assms(4) id u by (auto simp: smExecuteTransaction_def bind_Inr liftE_Inr snapshot_run topic_def Let_def ret_def)
    then show ?thesis using f1 False assms(3) by (simp add: rolledBack_def)
  next
    case True
    then obtain command params status w ok2 a where st:
      "getCommand ms (txModule tx) (txCommand tx) = Inr command" "decode lib (cmdSchema command) (txParams tx) = Inr params"
      "tryCatch (andThen (withTopics [topic] (cmdExecute command header assets tx params)) (ret ExecuteOK))
         (\<lambda>_. andThen (restoreBoth rw (snapOf rw u)) (ret ExecuteFAIL)) (started rw u) = (Inr status, w)"
      "runHooks rw (snapOf rw s) (?hooks modAfterCommandExecute) w = (Inr ok2, a)"
      using assms(4) id u by (auto simp: smExecuteTransaction_def bind_Inr liftE_Inr snapshot_run topic_def Let_def)
    note cp = command_phase[OF law hookOk_withTopics[OF command_ok[OF mods st(1)]] st(3)]
    have su: "forward later (started rw s) w" using forward_trans[OF law] f1 True cp by auto
    have f2: "if ok2 then forward later w a else rolledBack view s a" using hooks_forward[OF law commandHooks_ok[OF mods] su st(4)] by simp
    show ?thesis
    proof (cases ok2)
      case False
      then have "r = ExecuteINVALID" "t = a"
        using assms(4) id u st \<open>ok1\<close> by (auto simp: smExecuteTransaction_def bind_Inr liftE_Inr snapshot_run topic_def Let_def ret_def)
      then show ?thesis using f2 False assms(3) by (simp add: rolledBack_def)
    next
      case ok2: True
      obtain data where t: "encode lib standardEventDataSchema [Some (VBool (r = ExecuteOK))] = Inr data" "r = status"
        "t = a\<lparr>cEvents := unsafeAdd (cHeight a) (cTopics a) (txModule tx) EVENT_TRANSACTION_NAME data [topic] False (cEvents a)\<rparr>"
        using assms(4) id u st \<open>ok1\<close> ok2 by (auto simp: smExecuteTransaction_def bind_Inr liftE_Inr snapshot_run topic_def Let_def ret_def andThen_def modify_def)
      have fa: "forward later (started rw s) a" using forward_trans[OF law su] f2 ok2 by simp
      then have "queueOk (cEvents a)" "cHeight a = cHeight s" "cTopics a = cTopics s" using assms(3) by (auto simp: forward_def started_def)
      then show ?thesis using t cp id st(1,2,4) u \<open>ok1\<close> ok2 queueOk_unsafeAdd by (auto simp: topic_def)
    qed
  qed
qed


text \<open>
  C31: Execution of a transaction is all or nothing. A transaction that is \<open>INVALID\<close>, because
  a hook of a module failed, leaves the state store as it was and keeps of its events only
  those that must not be reverted. Otherwise the result is what the hooks before the command,
  the command and the hooks after it produce in this order, followed by one event that tells
  whether the command succeeded; when the command failed, its changes of the state and its
  revertible events are gone and the hooks after it run on the state from before it. The
  indices of the events stay consecutive. The hypotheses are the law of snapshots and that
  hooks only append events.
\<close>

theorem transaction_atomic:
  assumes "snapshotLaw rw view later" "modulesOk later ms" "queueOk (cEvents s)"
    "smExecuteTransaction lib hash rw ms header assets tx s = (Inr r, t)"
  shows "queueOk (cEvents t) \<and>
    (if r = ExecuteINVALID then rolledBack view s t
     else \<exists>txid command params u w a data. txId lib hash tx = Inr txid \<and> getCommand ms (txModule tx) (txCommand tx) = Inr command \<and>
       decode lib (cmdSchema command) (txParams tx) = Inr params \<and>
       runHooks rw (snapOf rw s) (commandHooks (EVENT_TOPIC_TRANSACTION_EXECUTION @ txid) header assets tx modBeforeCommandExecute ms) (started rw s) = (Inr True, u) \<and>
       (if r = ExecuteFAIL then rolledBack view u w
        else withTopics [EVENT_TOPIC_TRANSACTION_EXECUTION @ txid] (cmdExecute command header assets tx params) (started rw u) = (Inr (), w)) \<and>
       runHooks rw (snapOf rw s) (commandHooks (EVENT_TOPIC_TRANSACTION_EXECUTION @ txid) header assets tx modAfterCommandExecute ms) w = (Inr True, a) \<and>
       encode lib standardEventDataSchema [Some (VBool (r = ExecuteOK))] = Inr data \<and> sState t = sState a \<and>
       cEvents t = unsafeAdd (cHeight s) (cTopics s) (txModule tx) EVENT_TRANSACTION_NAME data [EVENT_TOPIC_TRANSACTION_EXECUTION @ txid] False (cEvents a))"
  by (rule transaction_parts[OF assms])

section \<open>A failing command\<close>

text \<open>
  The state is a number with the stack of its snapshots. The hook before the command adds 1
  and emits an event, the command adds 100, emits an event and fails, the hook after it adds
  10.
\<close>

definition stackRW :: "(int \<times> int list) readWriter" where
  "stackRW = \<lparr>rwSnapshot = (\<lambda>(n, st). (length st, (n, st @ [n]))), rwRestore = (\<lambda>i (n, st). (if i < length st then st ! i else n, st))\<rparr>"

definition stackLater :: "int \<times> int list \<Rightarrow> int \<times> int list \<Rightarrow> bool" where
  "stackLater s t = (\<exists>xs. snd t = snd s @ xs)"

definition addAndEmit :: "int \<Rightarrow> string \<Rightarrow> ((int \<times> int list) sctx, unit) m" where
  "addAndEmit k name = modify (\<lambda>s. s\<lparr>sState := (fst (sState s) + k, snd (sState s)),
     cEvents := unsafeAdd (cHeight s) (cTopics s) ''demo'' name [] [] False (cEvents s)\<rparr>)"

definition demoCommand :: "(int \<times> int list) smCommand" where
  "demoCommand = \<lparr>cmdName = ''fail'', cmdSchema = [], cmdSchemaValid = (\<lambda>_. True), cmdVerify = None,
     cmdExecute = (\<lambda>_ _ _ _. andThen (addAndEmit 100 ''command'') (throw (Error ''failed'')))\<rparr>"

definition demoModule :: "(int \<times> int list) smModule" where
  "demoModule = \<lparr>modName = ''demo'', modCommands = [demoCommand], modEvents = [], modStores = [], modVerifyTransaction = None,
     modBeforeCommandExecute = Some (\<lambda>_ _ _. addAndEmit 1 ''before''), modAfterCommandExecute = Some (\<lambda>_ _ _. addAndEmit 10 ''after''), modVerifyAssets = None,
     modBeforeTransactionsExecute = None, modAfterTransactionsExecute = None, modInitGenesisState = None, modFinalizeGenesisState = None\<rparr>"

definition demoTx :: transaction where
  "demoTx = \<lparr>txModule = ''demo'', txCommand = ''fail'', txNonce = 0, txFee = 0, txSenderPublicKey = [], txParams = [], txSignatures = []\<rparr>"

definition demoCtx :: "(int \<times> int list) sctx" where
  "demoCtx = \<lparr>cHeight = 1, cTopics = [], cEvents = [], cStore = Map.empty, sState = (0, []), sNext = None\<rparr>"

lemma stack_law: "snapshotLaw stackRW fst stackLater"
  unfolding snapshotLaw_def stackRW_def stackLater_def by (auto split: prod.splits)

lemma addAndEmit_ok: "hookOk stackLater (addAndEmit k n)" "hookOk stackLater (andThen (addAndEmit k n) (throw e))"
  by (auto simp: hookOk_def forward_def addAndEmit_def modify_def stackLater_def queueOk_unsafeAdd andThen_def bind_def throw_def) (simp_all add: unsafeAdd_def)

lemma failing_parts: "getCommand [demoModule] ''demo'' ''fail'' = Inr demoCommand" "decode asciiLib [] [] = Inr []"
  "encode asciiLib standardEventDataSchema [Some (VBool False)] = Inr [8, 0]"
  by (simp add: getCommand_def findModule_def demoModule_def demoCommand_def, code_simp+)

lemma failing_id: "\<exists>i. txId asciiLib id demoTx = Inr i"
proof -
  have "isl (txId asciiLib id demoTx) = False" by code_simp
  then show ?thesis by (cases "txId asciiLib id demoTx") auto
qed

lemma failing_run: "\<exists>t. smExecuteTransaction asciiLib id stackRW [demoModule] exHeader [] demoTx demoCtx = (Inr ExecuteFAIL, t) \<and> fst (sState t) = 11 \<and>
    map (evName \<circ> rEvent) (cEvents t) = [''before'', ''after'', ''commandExecutionResult'']"
proof -
  obtain i where i: "txId asciiLib id demoTx = Inr i" using failing_id by blast
  have m: "hooksOf modBeforeCommandExecute [demoModule] = [\<lambda>_ _ _. addAndEmit 1 ''before'']" "hooksOf modAfterCommandExecute [demoModule] = [\<lambda>_ _ _. addAndEmit 10 ''after'']"
    by (simp_all add: hooksOf_def demoModule_def List.map_filter_simps)
  have d: "txModule demoTx = ''demo''" "txCommand demoTx = ''fail''" "txParams demoTx = []" "cmdSchema demoCommand = []"
    "cmdExecute demoCommand = (\<lambda>_ _ _ _. andThen (addAndEmit 100 ''command'') (throw (Error ''failed'')))" by (simp_all add: demoTx_def demoCommand_def)
  show ?thesis unfolding smExecuteTransaction_def i d(1-3) commandHooks_def m Let_def
    by (simp add: d bind_def liftE_def snapshotBoth_def gets_def modify_def andThen_def ret_def tryCatch_def throw_def withTopics_def addAndEmit_def restoreBoth_def
        failing_parts demoCtx_def stackRW_def createSnapshot_def restoreSnapshot_def unsafeAdd_def EVENT_TRANSACTION_NAME_def)
qed

theorem transaction_atomic_witness:
  "\<exists>t. smExecuteTransaction asciiLib id stackRW [demoModule] exHeader [] demoTx demoCtx = (Inr ExecuteFAIL, t) \<and> fst (sState t) = 11 \<and>
     map (evName \<circ> rEvent) (cEvents t) = [''before'', ''after'', ''commandExecutionResult''] \<and> queueOk (cEvents t)"
proof -
  have m: "modulesOk stackLater [demoModule]" by (simp add: modulesOk_def demoModule_def demoCommand_def addAndEmit_ok)
  have q: "queueOk (cEvents demoCtx)" by (simp add: demoCtx_def)
  from failing_run show ?thesis
  proof (elim exE conjE, intro exI conjI)
    fix t assume "smExecuteTransaction asciiLib id stackRW [demoModule] exHeader [] demoTx demoCtx = (Inr ExecuteFAIL, t)"
    from transaction_atomic[OF stack_law m q this] show "queueOk (cEvents t)" by (rule conjunct1)
  qed
qed

end
