(* ===== verification/ForkChoice.thy ===== *)
theory ForkChoice
  imports BFT
begin

text \<open>
  The fork choice rule (\<open>framework/src/engine/consensus/fork_choice/fork_choice_rule.ts\<close>).
  A header the rule looks at may carry the time it was received; the class
  \<open>BlockHeader\<close> has no such field, so that the last applied block never carries one.
\<close>

datatype forkStatus = IDENTICAL_BLOCK | VALID_BLOCK | DOUBLE_FORGING | TIE_BREAK | DIFFERENT_CHAIN | DISCARD

record fcHeader =
  fcId :: bytes
  fcPreviousBlockID :: bytes
  fcGeneratorAddress :: bytes
  fcTimestamp :: int
  fcHeight :: int
  fcMaxHeightPrevoted :: int
  fcMaxHeightGenerated :: int
  fcReceivedAt :: "int option"

definition fcHeaderOf :: "jsLib \<Rightarrow> (bytes \<Rightarrow> bytes) \<Rightarrow> blockHeader \<Rightarrow> err + fcHeader" where
  "fcHeaderOf lib hash h = rbind (headerId lib hash h) (\<lambda>(i, _).
     Inr \<lparr>fcId = i, fcPreviousBlockID = hPreviousBlockID h, fcGeneratorAddress = hGeneratorAddress h, fcTimestamp = hTimestamp h,
       fcHeight = hHeight h, fcMaxHeightPrevoted = hMaxHeightPrevoted h, fcMaxHeightGenerated = hMaxHeightGenerated h, fcReceivedAt = None\<rparr>)"

definition forgingSlot :: "bftConfig \<Rightarrow> fcHeader \<Rightarrow> int" where
  "forgingSlot cfg b = getSlotNumber cfg (fcTimestamp b)"

definition isBlockReceivedWithinForgingSlot :: "bftConfig \<Rightarrow> int \<Rightarrow> fcHeader \<Rightarrow> bool" where
  "isBlockReceivedWithinForgingSlot cfg now b =
     isWithinTimeslot cfg (getSlotNumber cfg (fcTimestamp b)) (case fcReceivedAt b of Some t \<Rightarrow> t | None \<Rightarrow> now)"

text \<open>An absent time and the time 0 are both falsy.\<close>

definition isLastAppliedBlockReceivedWithinForgingSlot :: "bftConfig \<Rightarrow> int \<Rightarrow> fcHeader \<Rightarrow> bool" where
  "isLastAppliedBlockReceivedWithinForgingSlot cfg now lastApplied =
     (if fcReceivedAt lastApplied = None \<or> fcReceivedAt lastApplied = Some 0 then True
      else isBlockReceivedWithinForgingSlot cfg now lastApplied)"

definition isValidBlock :: "fcHeader \<Rightarrow> fcHeader \<Rightarrow> bool" where
  "isValidBlock lastB cur = (fcHeight lastB + 1 = fcHeight cur \<and> fcId lastB = fcPreviousBlockID cur)"

definition isIdenticalBlock :: "fcHeader \<Rightarrow> fcHeader \<Rightarrow> bool" where
  "isIdenticalBlock lastB cur = (fcId lastB = fcId cur)"

definition isDuplicateBlock :: "fcHeader \<Rightarrow> fcHeader \<Rightarrow> bool" where
  "isDuplicateBlock lastB cur = (fcHeight lastB = fcHeight cur \<and> fcMaxHeightPrevoted lastB = fcMaxHeightPrevoted cur \<and>
     fcPreviousBlockID lastB = fcPreviousBlockID cur)"

definition isDoubleForging :: "fcHeader \<Rightarrow> fcHeader \<Rightarrow> bool" where
  "isDoubleForging lastB cur = (isDuplicateBlock lastB cur \<and> fcGeneratorAddress lastB = fcGeneratorAddress cur)"

definition isTieBreak :: "bftConfig \<Rightarrow> int \<Rightarrow> fcHeader \<Rightarrow> fcHeader \<Rightarrow> bool" where
  "isTieBreak cfg now lastApplied received =
     (isDuplicateBlock lastApplied received \<and> forgingSlot cfg lastApplied < forgingSlot cfg received \<and>
      \<not> isLastAppliedBlockReceivedWithinForgingSlot cfg now lastApplied \<and> isBlockReceivedWithinForgingSlot cfg now received)"

definition isDifferentChain :: "fcHeader \<Rightarrow> fcHeader \<Rightarrow> bool" where
  "isDifferentChain lastB cur =
     (fcMaxHeightPrevoted lastB < fcMaxHeightPrevoted cur \<or>
      (fcHeight lastB < fcHeight cur \<and> fcMaxHeightPrevoted lastB = fcMaxHeightPrevoted cur))"

definition forkStatusOf :: "bftConfig \<Rightarrow> int \<Rightarrow> fcHeader \<Rightarrow> fcHeader \<Rightarrow> forkStatus" where
  "forkStatusOf cfg now cur lastB =
     (let received = cur\<lparr>fcReceivedAt := Some now\<rparr> in
      if isValidBlock lastB cur then VALID_BLOCK
      else if isIdenticalBlock lastB cur then IDENTICAL_BLOCK
      else if isDoubleForging lastB cur then DOUBLE_FORGING
      else if isTieBreak cfg now lastB received then TIE_BREAK
      else if isDifferentChain lastB cur then DIFFERENT_CHAIN
      else DISCARD)"

definition forkChoice :: "jsLib \<Rightarrow> (bytes \<Rightarrow> bytes) \<Rightarrow> bftConfig \<Rightarrow> int \<Rightarrow> blockHeader \<Rightarrow> blockHeader \<Rightarrow> err + forkStatus" where
  "forkChoice lib hash cfg now blockH lastH =
     rbind (fcHeaderOf lib hash blockH) (\<lambda>cur. rbind (fcHeaderOf lib hash lastH) (\<lambda>lastB. Inr (forkStatusOf cfg now cur lastB)))"

section \<open>Correctness\<close>



lemma no_tie_break: "fcHeaderOf lib hash h = Inr lastB \<Longrightarrow> \<not> isTieBreak cfg now lastB cur"
  by (auto simp: fcHeaderOf_def rbind_Inr isTieBreak_def isLastAppliedBlockReceivedWithinForgingSlot_def)




text \<open>
  a tie break never happens. Two blocks that compete for the same height under the same
  parent are meant to be decided by the slot in which the applied block was received, but
  the applied block carries no time of receipt, so that the status \<open>TIE_BREAK\<close> is never
  returned and the first block applied stands.
\<close>

theorem tie_break_unreachable:
  "forkChoice lib hash cfg now h l \<noteq> Inr TIE_BREAK"
  using no_tie_break by (fastforce simp: forkChoice_def rbind_Inr forkStatusOf_def Let_def split: if_splits)



end
