(* ===== verification/Consensus.thy ===== *)
theory Consensus
  imports BFTSteps ForkChoice
begin

text \<open>
  Block processing (\<open>framework/src/engine/consensus/consensus.ts\<close>) on top of the chain
  (\<open>elements/chain/src/chain.ts\<close>, \<open>data_access/storage.ts\<close>) and the BFT component.

  The node keeps the persisted blocks (newest first), the finalized height, the persisted
  engine state and one undo record per block: the state diff saved with a block is
  represented by the state that reverting it restores. \<open>new StateStore(db)\<close> makes the
  inherited fields \<open>votesStore\<close> and \<open>paramsStore\<close> a copy of the persisted state;
  only \<open>saveBlock\<close> writes them back.

  The application behind the ABI, the commit pool, the root of the event tree, the
  signature scheme and the clock are parameters; messages and events that the component
  sends are recorded in order.
\<close>

section \<open>State\<close>

datatype outMsg =
    SendBlock block
  | EventBlockBroadcast block
  | EventForkDetected block
  | EventBlockNew block
  | EventNetworkBlockNew block
  | EventBlockDelete block
  | EventFinalizedHeightChanged int int
  | EventValidatorsChanged int int "validator list"
  | ApplyPenaltyOnPeer string int
  | ApplyNodeInfo int bytes int int

record 'app node = bftStores +
  dbStores :: bftStores
  dbDiffs :: "(int \<times> bftStores) list"
  dbBlocks :: "block list"
  chainLast :: "block option"
  dbTempBlocks :: "(int \<times> block) list"
  dbInclusionProofs :: "(int \<times> bytes) list"
  finalizedHeight :: int
  stopped :: bool
  syncActive :: bool
  appState :: 'app
  outputs :: "outMsg list"

record consensusUpdate =
  cuEvents :: "event list"
  cuPreCommitThreshold :: int
  cuCertificateThreshold :: int
  cuNextValidators :: "validator list"

datatype verifyResult = VerifyInvalid | VerifyPending | VerifyOk
datatype executionResult = ExecInvalid | ExecFail | ExecOk

record 'app abi =
  initStateMachine :: "blockHeader \<Rightarrow> ('app, bytes) m"
  abiVerifyAssets :: "bytes \<Rightarrow> blockAsset list \<Rightarrow> ('app, unit) m"
  abiInitGenesisState :: "bytes \<Rightarrow> bytes \<Rightarrow> ('app, consensusUpdate) m"
  beforeTransactionsExecute :: "bytes \<Rightarrow> blockAsset list \<Rightarrow> ('app, event list) m"
  verifyTransaction :: "bytes \<Rightarrow> transaction \<Rightarrow> blockHeader \<Rightarrow> ('app, verifyResult) m"
  executeTransaction :: "bytes \<Rightarrow> blockAsset list \<Rightarrow> blockHeader \<Rightarrow> transaction \<Rightarrow> ('app, executionResult \<times> event list) m"
  afterTransactionsExecute :: "bytes \<Rightarrow> blockAsset list \<Rightarrow> transaction list \<Rightarrow> ('app, consensusUpdate) m"
  abiCommit :: "bytes \<Rightarrow> bytes option \<Rightarrow> bytes option \<Rightarrow> ('app, unit) m"
  abiRevert :: "bytes \<Rightarrow> bytes option \<Rightarrow> bytes option \<Rightarrow> ('app, unit) m"
  abiFinalize :: "int \<Rightarrow> ('app, unit) m"
  abiProve :: "bytes list \<Rightarrow> bytes option \<Rightarrow> ('app, bytes) m"
  abiClear :: "('app, unit) m"

record 'app consensusEnv =
  ceBft :: bftConfig
  ceAbi :: "'app abi"
  ceHash :: "bytes \<Rightarrow> bytes"
  ceValidator :: chainValidator
  ceChainID :: bytes
  ceVerifySignature :: "string \<Rightarrow> bytes \<Rightarrow> bytes \<Rightarrow> bytes \<Rightarrow> bytes \<Rightarrow> bool"
  ceEventRoot :: "(bytes \<times> bytes) list \<Rightarrow> bytes"
  ceVerifyAggregateCommit :: "bftStores \<Rightarrow> block list \<Rightarrow> aggregateCommit \<Rightarrow> err + bool"
  ceMaxRemovalHeight :: "bftStores \<Rightarrow> err + int"
  ceMaxTransactionsSize :: int
  ceKeepInclusionProofs :: int
  ceInclusionProofKeys :: "bytes list"
  ceSync :: "block \<Rightarrow> string \<Rightarrow> ('app node, unit) m"
  ceNow :: int

abbreviation ceLib :: "'app consensusEnv \<Rightarrow> jsLib" where
  "ceLib env \<equiv> bftLib (ceBft env)"

definition BLOCK_VERSION :: int where "BLOCK_VERSION = 2"
definition GENESIS_BLOCK_VERSION :: int where "GENESIS_BLOCK_VERSION = 0"
definition MAX_EVENTS_PER_BLOCK :: int where "MAX_EVENTS_PER_BLOCK = 2 ^ 30"

definition viaAbi :: "('app, 'a) m \<Rightarrow> ('app node, 'a) m" where
  "viaAbi c s = (case c (appState s) of (r, a) \<Rightarrow> (r, s\<lparr>appState := a\<rparr>))"

definition emit :: "outMsg \<Rightarrow> ('app node, unit) m" where
  "emit x = modify (\<lambda>s. s\<lparr>outputs := outputs s @ [x]\<rparr>)"

text \<open>\<open>try { c } finally { d }\<close>\<close>

definition tryFinally :: "('s, 'a) m \<Rightarrow> ('s, unit) m \<Rightarrow> ('s, 'a) m" where
  "tryFinally c d s = (case c s of (r, s') \<Rightarrow> (case d s' of (Inl e, s'') \<Rightarrow> (Inl e, s'') | (Inr _, s'') \<Rightarrow> (r, s'')))"

definition newStateStore :: "('app node, unit) m" where
  "newStateStore = modify (\<lambda>s. s\<lparr>votesStore := votesStore (dbStores s), paramsStore := paramsStore (dbStores s)\<rparr>)"

definition storesOf :: "'a bftStores_scheme \<Rightarrow> bftStores" where
  "storesOf s = \<lparr>votesStore = votesStore s, paramsStore = paramsStore s\<rparr>"

definition blockId :: "'app consensusEnv \<Rightarrow> block \<Rightarrow> err + bytes" where
  "blockId env b = rbind (headerId (ceLib env) (ceHash env) (bHeader b)) (\<lambda>(i, _). Inr i)"

definition lastBlock :: "('app node, block) m" where
  "lastBlock = bind (gets chainLast) (\<lambda>r. case r of None \<Rightarrow> throw (Error ''Chain has not been initialized.'') | Some b \<Rightarrow> ret b)"

section \<open>Chain\<close>

definition validateBlock :: "'app consensusEnv \<Rightarrow> block \<Rightarrow> err + unit" where
  "validateBlock env b =
     rbind (blockValidate (ceLib env) (ceHash env) (ceValidator env) b) (\<lambda>_.
     if hVersion (bHeader b) \<noteq> BLOCK_VERSION then Inl (Error ''Block version must be 2.'')
     else rbind (mapE (txId (ceLib env) (ceHash env)) (bTransactions b)) (\<lambda>ids.
     rbind (mapE (txGetBytes (ceLib env)) (bTransactions b)) (\<lambda>txs.
     if sum_list (map (\<lambda>t. int (length t)) txs) > ceMaxTransactionsSize env
     then Inl (Error ''Transactions length is longer than configured length.'')
     else if Some (calculateMerkleRootWithLeaves (ceHash env) ids) \<noteq> hTransactionRoot (bHeader b)
     then Inl (Error ''Invalid transaction root.'') else Inr ())))"

text \<open>
  \<open>storage.saveBlock\<close> writes everything in one batch and then removes the diffs below the
  finalized height.
\<close>

definition saveBlock :: "block \<Rightarrow> int \<Rightarrow> bool \<Rightarrow> ('app node, unit) m" where
  "saveBlock b fin removeFromTempTable = modify (\<lambda>s. s\<lparr>
     dbBlocks := b # dbBlocks s, chainLast := Some b,
     dbTempBlocks := (if removeFromTempTable then filter (\<lambda>e. fst e \<noteq> hHeight (bHeader b)) (dbTempBlocks s) else dbTempBlocks s),
     dbDiffs := filter (\<lambda>e. \<not> (fin > 0 \<and> fst e \<le> fin - 1)) ((hHeight (bHeader b), dbStores s) # filter (\<lambda>e. fst e \<noteq> hHeight (bHeader b)) (dbDiffs s)),
     dbStores := storesOf s,
     finalizedHeight := fin\<rparr>)"

text \<open>
  \<open>removeBlock\<close> of the last block: the diff of its height is read and reverted, the
  previous block becomes the last one.
\<close>

definition removeBlock :: "'app consensusEnv \<Rightarrow> block \<Rightarrow> bool \<Rightarrow> ('app node, unit) m" where
  "removeBlock env b saveTempBlock =
     (if hVersion (bHeader b) = GENESIS_BLOCK_VERSION then throw (Error ''Cannot delete genesis block.'')
      else bind (gets dbBlocks) (\<lambda>bs.
      case find (\<lambda>c. blockId env c = Inr (hPreviousBlockID (bHeader b))) bs of
        None \<Rightarrow> throw (Error ''PreviousBlock is null.'')
      | Some secondLastBlock \<Rightarrow> bind (gets dbDiffs) (\<lambda>ds.
      case map_of ds (hHeight (bHeader b)) of
        None \<Rightarrow> throw NotFoundError
      | Some d \<Rightarrow> modify (\<lambda>s. s\<lparr>
          dbBlocks := filter (\<lambda>c. blockId env c \<noteq> blockId env b) bs, chainLast := Some secondLastBlock,
          dbInclusionProofs := filter (\<lambda>e. fst e \<noteq> hHeight (bHeader b)) (dbInclusionProofs s),
          dbTempBlocks := (if saveTempBlock then (hHeight (bHeader b), b) # filter (\<lambda>e. fst e \<noteq> hHeight (bHeader b)) (dbTempBlocks s) else dbTempBlocks s),
          dbDiffs := filter (\<lambda>e. fst e \<noteq> hHeight (bHeader b)) ds,
          dbStores := d\<rparr>))))"

section \<open>Verification of a block\<close>

definition verifyTimestamp :: "'app consensusEnv \<Rightarrow> block \<Rightarrow> ('app node, unit) m" where
  "verifyTimestamp env b =
     bind lastBlock (\<lambda>lastB.
     let slot = getSlotNumber (ceBft env) (hTimestamp (bHeader b)) in
     if slot > getSlotNumber (ceBft env) (ceNow env) then throw (Error ''Invalid timestamp'')
     else if slot \<le> getSlotNumber (ceBft env) (hTimestamp (bHeader lastB)) then throw (Error ''Invalid timestamp'')
     else ret ())"

definition verifyPreviousBlockID :: "'app consensusEnv \<Rightarrow> block \<Rightarrow> ('app node, unit) m" where
  "verifyPreviousBlockID env b =
     bind lastBlock (\<lambda>lastB. bind (liftE (blockId env lastB)) (\<lambda>i.
     if hPreviousBlockID (bHeader b) \<noteq> i then throw (Error ''Invalid previousBlockID'') else ret ()))"

definition verifyBlockHeight :: "block \<Rightarrow> ('app node, unit) m" where
  "verifyBlockHeight b =
     bind lastBlock (\<lambda>lastB. if hHeight (bHeader b) \<noteq> hHeight (bHeader lastB) + 1 then throw (Error ''Invalid height'') else ret ())"

definition verifyGeneratorAddress :: "'app consensusEnv \<Rightarrow> block \<Rightarrow> ('app node, unit) m" where
  "verifyGeneratorAddress env b =
     (if length (hGeneratorAddress (bHeader b)) \<noteq> 20 then throw (Error ''Invalid length of generatorAddress'')
      else bind (getGeneratorAtTimestamp (ceBft env) (hHeight (bHeader b)) (hTimestamp (bHeader b))) (\<lambda>g.
      case g of
        None \<Rightarrow> throw (Error ''TypeError'')
      | Some expected \<Rightarrow> if hGeneratorAddress (bHeader b) \<noteq> vAddress expected
          then throw (Error ''Generator is ineligible to generate block for the current slot'') else ret ()))"

definition verifyBFTProperties :: "'app consensusEnv \<Rightarrow> block \<Rightarrow> ('app node, unit) m" where
  "verifyBFTProperties env b =
     bind (getBFTHeights (ceBft env)) (\<lambda>heights.
     if hMaxHeightPrevoted (bHeader b) \<noteq> bhMaxPrevoted heights then throw (Error ''Invalid maxHeightPrevoted'')
     else bind (isHeaderContradictingChain (ceBft env) (bHeader b)) (\<lambda>contradicting.
     if contradicting then throw (Error ''Contradicting headers'')
     else bind (impliesMaximalPrevotes (ceBft env) (bHeader b)) (\<lambda>implyMax.
     if hImpliesMaxPrevotes (bHeader b) \<noteq> implyMax then throw (Error ''Invalid imply max prevote.'') else ret ())))"

definition verifyBlockSignature :: "'app consensusEnv \<Rightarrow> block \<Rightarrow> ('app node, unit) m" where
  "verifyBlockSignature env b =
     bind (getBFTParameters (ceLib env) (hHeight (bHeader b))) (\<lambda>p.
     case find (\<lambda>v. vAddress v = hGeneratorAddress (bHeader b)) (validators p) of
       None \<Rightarrow> throw (Error ''Validator does not exist for height'')
     | Some generator \<Rightarrow>
         (case validateSignature (ceLib env) (ceVerifySignature env) (vGeneratorKey generator) (ceChainID env) (bHeader b) of
            Inl _ \<Rightarrow> throw (Error ''Invalid signature'')
          | Inr _ \<Rightarrow> ret ()))"

definition verifyAggregateCommit :: "'app consensusEnv \<Rightarrow> block \<Rightarrow> ('app node, unit) m" where
  "verifyAggregateCommit env b =
     bind (gets (\<lambda>s. ceVerifyAggregateCommit env (storesOf s) (dbBlocks s) (hAggregateCommit (bHeader b)))) (\<lambda>r.
     bind (liftE r) (\<lambda>isVerified. if \<not> isVerified then throw (Error ''Invalid aggregateCommit'') else ret ()))"

definition verifyBlock :: "'app consensusEnv \<Rightarrow> block \<Rightarrow> ('app node, unit) m" where
  "verifyBlock env b =
     andThen newStateStore
     (andThen (verifyTimestamp env b)
     (andThen (verifyBlockHeight b)
     (andThen (verifyPreviousBlockID env b)
     (andThen (verifyGeneratorAddress env b)
     (andThen (verifyBFTProperties env b)
     (andThen (verifyBlockSignature env b)
     (verifyAggregateCommit env b)))))))"

definition verifyAssets :: "'app consensusEnv \<Rightarrow> block \<Rightarrow> ('app node, bytes) m" where
  "verifyAssets env b =
     tryCatch
       (bind (viaAbi (initStateMachine (ceAbi env) (bHeader b))) (\<lambda>contextID.
        andThen (viaAbi (abiVerifyAssets (ceAbi env) contextID (bAssets b))) (ret contextID)))
       (\<lambda>e. andThen (viaAbi (abiClear (ceAbi env))) (throw e))"

definition verifyValidatorsHash :: "'app consensusEnv \<Rightarrow> block \<Rightarrow> ('app node, unit) m" where
  "verifyValidatorsHash env b =
     (case hValidatorsHash (bHeader b) of
        None \<Rightarrow> throw (Error ''Validators hash is undefined'')
      | Some vh \<Rightarrow> bind (getBFTParameters (ceLib env) (hHeight (bHeader b) + 1)) (\<lambda>p.
          if vh \<noteq> validatorsHash p then throw (Error ''Invalid validatorsHash'') else ret ()))"

definition verifyEventRoot :: "'app consensusEnv \<Rightarrow> block \<Rightarrow> event list \<Rightarrow> ('app node, unit) m" where
  "verifyEventRoot env b evs =
     (if int (length evs) > MAX_EVENTS_PER_BLOCK then throw (Error ''Number of events cannot exceed the maximum per block'')
      else bind (liftE (mapE (keyPair (ceLib env) (ceHash env)) evs)) (\<lambda>pairs.
      if hEventRoot (bHeader b) \<noteq> Some (ceEventRoot env (concat pairs)) then throw (Error ''Event root is not valid'') else ret ()))"

section \<open>Execution of a block\<close>

definition isEmptyConsensusUpdate :: "int \<Rightarrow> int \<Rightarrow> validator list \<Rightarrow> bool" where
  "isEmptyConsensusUpdate preCommitT certificateT nextValidators = (nextValidators = [] \<and> preCommitT = 0 \<and> certificateT = 0)"

primrec executeTransactions :: "'app consensusEnv \<Rightarrow> bytes \<Rightarrow> block \<Rightarrow> transaction list \<Rightarrow> ('app node, event list) m" where
  "executeTransactions env contextID b [] = ret []"
| "executeTransactions env contextID b (tx # txs) =
     bind (viaAbi (verifyTransaction (ceAbi env) contextID tx (bHeader b))) (\<lambda>v.
     if v \<noteq> VerifyOk then throw (Error ''Failed to verify transaction'')
     else bind (viaAbi (executeTransaction (ceAbi env) contextID (bAssets b) (bHeader b) tx)) (\<lambda>(r, evs).
     if r = ExecInvalid then throw (Error ''Failed to execute transaction'')
     else bind (executeTransactions env contextID b txs) (\<lambda>evs'. ret (evs @ evs'))))"

definition numberEvents :: "event list \<Rightarrow> event list" where
  "numberEvents evs = map (\<lambda>(i, e). e\<lparr>evIndex := i\<rparr>) (enumerate 0 evs)"

definition executeBlock :: "'app consensusEnv \<Rightarrow> bytes \<Rightarrow> block \<Rightarrow> ('app node, event list) m" where
  "executeBlock env contextID b =
     tryCatch
       (bind (gets (\<lambda>s. ceMaxRemovalHeight env (dbStores s))) (\<lambda>r. bind (liftE r) (\<lambda>maxRemovalHeight.
        andThen (bftBeforeTransactionsExecute (ceBft env) (bHeader b) maxRemovalHeight)
        (bind (viaAbi (beforeTransactionsExecute (ceAbi env) contextID (bAssets b))) (\<lambda>evs1.
        bind (executeTransactions env contextID b (bTransactions b)) (\<lambda>evs2.
        bind (viaAbi (afterTransactionsExecute (ceAbi env) contextID (bAssets b) (bTransactions b))) (\<lambda>upd.
        andThen
          (if isEmptyConsensusUpdate (cuPreCommitThreshold upd) (cuCertificateThreshold upd) (cuNextValidators upd) then ret ()
           else andThen (setBFTParameters (ceBft env) (cuPreCommitThreshold upd) (cuCertificateThreshold upd) (cuNextValidators upd))
             (emit (EventValidatorsChanged (cuPreCommitThreshold upd) (cuCertificateThreshold upd) (cuNextValidators upd))))
          (ret (numberEvents (evs1 @ evs2 @ cuEvents upd))))))))))
       (\<lambda>e. andThen (viaAbi (abiClear (ceAbi env))) (throw e))"

definition commitBlock :: "'app consensusEnv \<Rightarrow> bytes \<Rightarrow> block \<Rightarrow> ('app node, unit) m" where
  "commitBlock env contextID b =
     tryFinally (bind lastBlock (\<lambda>lastB. viaAbi (abiCommit (ceAbi env) contextID (hStateRoot (bHeader b)) (hStateRoot (bHeader lastB)))))
       (viaAbi (abiClear (ceAbi env)))"

definition executeValidated :: "'app consensusEnv \<Rightarrow> block \<Rightarrow> bool \<Rightarrow> bool \<Rightarrow> ('app node, unit) m" where
  "executeValidated env b skipBroadcast removeFromTempTable =
     bind (tryCatch (andThen (verifyBlock env b) (verifyAssets env b)) (\<lambda>e. throw (ApplyPenaltyError e))) (\<lambda>contextID.
     andThen (whenM (\<not> skipBroadcast) (andThen (bind (liftE (blockGetBytes (ceLib env) b)) (\<lambda>_. emit (SendBlock b))) (emit (EventBlockBroadcast b))))
     (andThen newStateStore
     (bind (executeBlock env contextID b) (\<lambda>evs.
     bind (getBFTHeights (ceBft env)) (\<lambda>heights.
     bind (gets finalizedHeight) (\<lambda>fin.
     let changed = bhMaxPrecommitted heights > fin;
         fin' = (if changed then bhMaxPrecommitted heights else fin) in
     andThen (verifyValidatorsHash env b)
     (andThen (verifyEventRoot env b evs)
     (andThen (commitBlock env contextID b)
     (andThen (saveBlock b fin' removeFromTempTable)
     (andThen (whenM changed (andThen (viaAbi (abiFinalize (ceAbi env) fin')) (emit (EventFinalizedHeightChanged fin fin'))))
     (emit (EventBlockNew b))))))))))))"

definition headerAtHeight :: "int \<Rightarrow> ('app node, blockHeader) m" where
  "headerAtHeight h = bind (gets dbBlocks) (\<lambda>bs.
     case find (\<lambda>b. hHeight (bHeader b) = h) bs of None \<Rightarrow> throw NotFoundError | Some b \<Rightarrow> ret (bHeader b))"

definition deleteBlock :: "'app consensusEnv \<Rightarrow> block \<Rightarrow> bool \<Rightarrow> ('app node, unit) m" where
  "deleteBlock env b saveTempBlock =
     bind (gets finalizedHeight) (\<lambda>fin.
     if hHeight (bHeader b) \<le> fin then throw (Error ''Can not delete block below or same as finalized height'')
     else bind (if hHeight (bHeader b) - 1 > 0 then bind (headerAtHeight (hHeight (bHeader b) - 1)) (\<lambda>h. ret (hStateRoot h)) else ret (Some (ceHash env []))) (\<lambda>expectedStateRoot.
     andThen (tryFinally
         (bind (viaAbi (initStateMachine (ceAbi env) (bHeader b))) (\<lambda>contextID.
          viaAbi (abiRevert (ceAbi env) contextID expectedStateRoot (hStateRoot (bHeader b)))))
         (viaAbi (abiClear (ceAbi env))))
     (andThen newStateStore
     (andThen (removeBlock env b saveTempBlock)
     (emit (EventBlockDelete b))))))"

definition deleteLastBlock :: "'app consensusEnv \<Rightarrow> bool \<Rightarrow> ('app node, unit) m" where
  "deleteLastBlock env saveTempBlock =
     bind (gets stopped) (\<lambda>st. if st then ret () else bind lastBlock (\<lambda>b. deleteBlock env b saveTempBlock))"

text \<open>
  \<open>_sync\<close> calls the synchronizer (the parameter \<open>ceSync\<close>) again after a restart error;
  the fuel bounds the number of restarts, which the code does not.
\<close>

primrec sync :: "nat \<Rightarrow> 'app consensusEnv \<Rightarrow> block \<Rightarrow> string \<Rightarrow> ('app node, unit) m" where
  "sync 0 env b peerID = throw (Error ''out of fuel'')"
| "sync (Suc n) env b peerID =
     bind (gets stopped) (\<lambda>st.
     if st then ret ()
     else tryCatch (ceSync env b peerID) (\<lambda>e.
       case e of
         ApplyPenaltyAndRestartError p r \<Rightarrow> andThen (emit (ApplyPenaltyOnPeer peerID 100)) (sync n env b peerID)
       | RestartError r \<Rightarrow> sync n env b peerID
       | AbortError r \<Rightarrow> ret ()
       | _ \<Rightarrow> throw e))"

definition saveInclusionProofs :: "'app consensusEnv \<Rightarrow> block \<Rightarrow> ('app node, unit) m" where
  "saveInclusionProofs env b =
     tryCatch
       (whenM ((ceKeepInclusionProofs env > 0 \<or> ceKeepInclusionProofs env = -1) \<and> ceInclusionProofKeys env \<noteq> [])
          (bind (viaAbi (abiProve (ceAbi env) (ceInclusionProofKeys env) (hStateRoot (bHeader b)))) (\<lambda>proof.
           modify (\<lambda>s. s\<lparr>dbInclusionProofs := (hHeight (bHeader b), proof) # filter (\<lambda>e. fst e \<noteq> hHeight (bHeader b)) (dbInclusionProofs s)\<rparr>))))
       (\<lambda>_. ret ())"

definition executeReceived :: "nat \<Rightarrow> 'app consensusEnv \<Rightarrow> block \<Rightarrow> string \<Rightarrow> ('app node, unit) m" where
  "executeReceived n env b peerID =
     bind (gets stopped) (\<lambda>st.
     if st then ret ()
     else bind lastBlock (\<lambda>lastB.
     bind (liftE (forkChoice (ceLib env) (ceHash env) (ceBft env) (ceNow env) (bHeader b) (bHeader lastB))) (\<lambda>status.
     case status of
       DISCARD \<Rightarrow> emit (EventForkDetected b)
     | IDENTICAL_BLOCK \<Rightarrow> ret ()
     | DOUBLE_FORGING \<Rightarrow> emit (EventForkDetected b)
     | DIFFERENT_CHAIN \<Rightarrow> andThen (emit (EventForkDetected b)) (sync n env b peerID)
     | TIE_BREAK \<Rightarrow>
         andThen (emit (EventForkDetected b))
         (andThen (tryCatch (liftE (validateBlock env b)) (\<lambda>e. throw (ApplyPenaltyError e)))
         (andThen (deleteBlock env lastB False)
         (tryCatch (executeValidated env b False False) (\<lambda>_. executeValidated env lastB True False))))
     | VALID_BLOCK \<Rightarrow>
         andThen (tryCatch (liftE (validateBlock env b)) (\<lambda>e. throw (ApplyPenaltyError e)))
         (andThen (executeValidated env b False False)
         (bind (liftE (blockId env b)) (\<lambda>i.
          andThen (emit (ApplyNodeInfo (hHeight (bHeader b)) i (hMaxHeightPrevoted (bHeader b)) (hVersion (bHeader b))))
          (saveInclusionProofs env b)))))))"

definition onBlockReceive :: "nat \<Rightarrow> 'app consensusEnv \<Rightarrow> (bytes option) \<Rightarrow> string \<Rightarrow> ('app node, unit) m" where
  "onBlockReceive n env data peerId =
     bind (gets syncActive) (\<lambda>syncing.
     if syncing then ret ()
     else (case data of
       None \<Rightarrow> emit (ApplyPenaltyOnPeer peerId 100)
     | Some bs \<Rightarrow>
         (case decode (ceLib env) [PScalar 1 BytesT] bs of
            Inl e \<Rightarrow> andThen (emit (ApplyPenaltyOnPeer peerId 100)) (throw e)
          | Inr ps \<Rightarrow>
              (case blockFromBytes (ceLib env) (fieldBytes ps 0) of
                 Inl e \<Rightarrow> andThen (emit (ApplyPenaltyOnPeer peerId 100)) (throw e)
               | Inr b \<Rightarrow>
                   andThen (emit (EventNetworkBlockNew b))
                   (tryCatch (executeReceived n env b peerId) (\<lambda>e.
                     case e of
                       ApplyPenaltyError _ \<Rightarrow> andThen (emit (ApplyPenaltyOnPeer peerId 100)) (throw e)
                     | _ \<Rightarrow> throw e))))))"

definition executeOwn :: "nat \<Rightarrow> 'app consensusEnv \<Rightarrow> block \<Rightarrow> ('app node, unit) m" where
  "executeOwn n env b = tryCatch (executeReceived n env b ''127.0.0.1:0'') (\<lambda>_. viaAbi (abiClear (ceAbi env)))"

definition isSynced :: "int \<Rightarrow> int \<Rightarrow> ('app node, bool) m" where
  "isSynced height mhp =
     bind lastBlock (\<lambda>b. let h = bHeader b in
     ret (if hVersion h = 0 then height \<le> hHeight h \<and> mhp \<le> hHeight h
          else mhp < hMaxHeightPrevoted h \<or> (mhp = hMaxHeightPrevoted h \<and> height < hHeight h)))"

section \<open>Genesis\<close>

definition executeGenesisBlock :: "'app consensusEnv \<Rightarrow> block \<Rightarrow> ('app node, event list) m" where
  "executeGenesisBlock env g =
     tryFinally
       (bind (viaAbi (initStateMachine (ceAbi env) (bHeader g))) (\<lambda>contextID.
        case hStateRoot (bHeader g) of
          None \<Rightarrow> throw (Error ''Genesis block stateRoot must not be empty.'')
        | Some stateRoot \<Rightarrow>
            andThen (bftInitGenesisState (ceBft env) (bHeader g))
            (bind (viaAbi (abiInitGenesisState (ceAbi env) contextID stateRoot)) (\<lambda>upd.
             andThen (setBFTParameters (ceBft env) (cuPreCommitThreshold upd) (cuCertificateThreshold upd) (cuNextValidators upd))
             (andThen (emit (EventValidatorsChanged (cuPreCommitThreshold upd) (cuCertificateThreshold upd) (cuNextValidators upd)))
             (andThen (viaAbi (abiCommit (ceAbi env) contextID (Some stateRoot) (Some (ceHash env []))))
             (ret (numberEvents (cuEvents upd)))))))))
       (viaAbi (abiClear (ceAbi env)))"

text \<open>The part of \<open>init\<close> that runs when the database has no genesis block yet.\<close>

definition initGenesis :: "'app consensusEnv \<Rightarrow> block \<Rightarrow> ('app node, unit) m" where
  "initGenesis env g =
     andThen newStateStore
     (andThen (liftE (blockValidateGenesis (ceLib env) (ceHash env) (ceValidator env) g))
     (bind (executeGenesisBlock env g) (\<lambda>evs.
      bind (getBFTParameters (ceLib env) (hHeight (bHeader g) + 1)) (\<lambda>p.
      if hValidatorsHash (bHeader g) \<noteq> Some (validatorsHash p) then throw (Error ''Genesis block validators hash is invalid'')
      else andThen (verifyValidatorsHash env g)
      (andThen (verifyEventRoot env g evs)
      (saveBlock g (hHeight (bHeader g)) False))))))"

end
