(* ===== verification/ConsensusProps.thy ===== *)
theory ConsensusProps
  imports Consensus CodecTyping
begin

text \<open>
  Safety of block processing: the chain of a node is linked, its engine state satisfies the
  BFT invariant, and finalized blocks are never removed or replaced.
\<close>

section \<open>Decoded blocks\<close>

definition freshBlock :: "block \<Rightarrow> bool" where
  "freshBlock b = (headerOk (bHeader b) \<and> hId (bHeader b) = None)"

lemma typed_uint32: "typed ps vs \<Longrightarrow> i < length ps \<Longrightarrow> ps ! i = PScalar fn UInt32T \<Longrightarrow> isUInt32 (fieldInt vs i)"
proof (induction ps arbitrary: vs i)
  case (Cons p ps)
  obtain v r where v: "vs = v # r" "typed ps r" using Cons.prems(1) by (cases p) (auto split: list.splits option.splits val.splits)
  show ?case
  proof (cases i)
    case 0
    then obtain w where "v = Some w" "typedScalar UInt32T w" using Cons.prems v by (auto split: option.splits)
    then show ?thesis using 0 v by (cases w) (auto simp: fieldInt_def isUInt32_def)
  next
    case (Suc j)
    then show ?thesis using Cons.IH[OF v(2), of j] Cons.prems v by (simp add: fieldInt_def)
  qed
qed simp

lemma typed_object: "typed ps vs \<Longrightarrow> i < length ps \<Longrightarrow> ps ! i = PObject fn inner \<Longrightarrow> typed inner (fieldObject vs i)"
proof (induction ps arbitrary: vs i)
  case (Cons p ps)
  obtain v r where v: "vs = v # r" "typed ps r" using Cons.prems(1) by (cases p) (auto split: list.splits option.splits val.splits)
  show ?case
  proof (cases i)
    case 0
    then show ?thesis using Cons.prems v by (auto simp: fieldObject_def split: option.splits val.splits)
  next
    case (Suc j)
    then show ?thesis using Cons.IH[OF v(2), of j] Cons.prems v by (simp add: fieldObject_def)
  qed
qed simp

lemma typed_header_ok:
  assumes "typed blockHeaderSchema ps"
  shows "headerOk (headerOfProps ps)"
proof -
  have ac: "typed aggregateCommitSchema (fieldObject ps 13)"
    by (rule typed_object[OF assms]) (simp_all add: blockHeaderSchema_def signingBlockHeaderSchema_def)
  have "isUInt32 (fieldInt (fieldObject ps 13) 0)" by (rule typed_uint32[OF ac]) (simp_all add: aggregateCommitSchema_def)
  moreover have "isUInt32 (fieldInt ps i)" if "i \<in> {0, 1, 2, 9, 10}" for i
    using that typed_uint32[OF assms, of i] by (auto simp: blockHeaderSchema_def signingBlockHeaderSchema_def)
  ultimately show ?thesis by (simp add: headerOfProps_def headerOk_def Let_def)
qed

lemma decoded_fresh:
  assumes "blockFromBytes lib bs = Inr b"
  shows "freshBlock b"
proof -
  obtain hb where "headerFromBytes lib hb = Inr (bHeader b)" using assms by (auto simp: blockFromBytes_def rbind_Inr)
  then obtain ps where "decode lib blockHeaderSchema hb = Inr ps" "bHeader b = headerOfProps ps" by (auto simp: headerFromBytes_def rbind_Inr)
  then show ?thesis using typed_header_ok decode_typed by (auto simp: freshBlock_def headerOfProps_def Let_def)
qed

section \<open>The invariant of a node\<close>

text \<open>
  Identifiers do not collide: two signed headers with the same identifier have the same
  height. With SHA-256 this is the collision resistance the database keyed by identifiers
  relies on.
\<close>

definition collisionFree :: "'app consensusEnv \<Rightarrow> bool" where
  "collisionFree env = (\<forall>b c i. freshBlock b \<longrightarrow> freshBlock c \<longrightarrow> blockId env b = Inr i \<longrightarrow> blockId env c = Inr i \<longrightarrow>
     hHeight (bHeader b) = hHeight (bHeader c))"

type_synonym history = "(block \<times> bftStores) list"

abbreviation heightOf :: "block \<Rightarrow> int" where
  "heightOf b \<equiv> hHeight (bHeader b)"

text \<open>The chain with the engine state after every block, newest first.\<close>

definition entryValid :: "'app consensusEnv \<Rightarrow> block \<times> bftStores \<Rightarrow> bool" where
  "entryValid env e = (freshBlock (fst e) \<and> (\<exists>v. bftInv (ceBft env) (snd e) v \<and> nextHeightOf v = heightOf (fst e) + 1))"

definition linked :: "'app consensusEnv \<Rightarrow> block \<Rightarrow> block \<Rightarrow> bool" where
  "linked env c b = (heightOf c = heightOf b + 1 \<and> blockId env b = Inr (hPreviousBlockID (bHeader c)))"

fun histOk :: "'app consensusEnv \<Rightarrow> history \<Rightarrow> bool" where
  "histOk env [] = False"
| "histOk env [e] = entryValid env e"
| "histOk env (e # f # H) = (entryValid env e \<and> linked env (fst e) (fst f) \<and> histOk env (f # H))"

definition diffsOk :: "history \<Rightarrow> (int \<times> bftStores) list \<Rightarrow> bool" where
  "diffsOk H ds = (\<forall>i d. Suc i < length H \<longrightarrow> map_of ds (heightOf (fst (H ! i))) = Some d \<longrightarrow> d = snd (H ! Suc i))"

definition nodeHist :: "'app consensusEnv \<Rightarrow> history \<Rightarrow> 'app node \<Rightarrow> bool" where
  "nodeHist env H s = (histOk env H \<and> map fst H = dbBlocks s \<and> dbStores s = snd (hd H) \<and> chainLast s = Some (fst (hd H)) \<and>
     diffsOk H (dbDiffs s) \<and> finalizedHeight s \<le> heightOf (fst (hd H)) \<and> heightOf (fst (last H)) \<le> finalizedHeight s)"

definition nodeInv :: "'app consensusEnv \<Rightarrow> 'app node \<Rightarrow> bool" where
  "nodeInv env s = (\<exists>H. nodeHist env H s)"

definition finalizedPart :: "int \<Rightarrow> 'app node \<Rightarrow> block list" where
  "finalizedPart fin s = filter (\<lambda>b. heightOf b \<le> fin) (dbBlocks s)"

definition keeps :: "'app node \<Rightarrow> 'app node \<Rightarrow> bool" where
  "keeps s t = (finalizedHeight s \<le> finalizedHeight t \<and> finalizedPart (finalizedHeight s) t = finalizedPart (finalizedHeight s) s)"

lemma keeps_refl [simp]: "keeps s s"
  by (simp add: keeps_def)

lemma keeps_trans: "keeps s t \<Longrightarrow> keeps t u \<Longrightarrow> keeps s u"
proof -
  assume a: "keeps s t" "keeps t u"
  have "filter (\<lambda>b. heightOf b \<le> finalizedHeight s) (filter (\<lambda>b. heightOf b \<le> finalizedHeight t) (dbBlocks x)) =
      filter (\<lambda>b. heightOf b \<le> finalizedHeight s) (dbBlocks x)" for x :: "'a node"
    using a(1) by (auto simp: keeps_def intro: filter_cong)
  then show ?thesis using a unfolding keeps_def finalizedPart_def by (metis order_trans)
qed

text \<open>Changes that do not touch the chain.\<close>

definition chainOf :: "'app node \<Rightarrow> bftStores \<times> (int \<times> bftStores) list \<times> block list \<times> block option \<times> int" where
  "chainOf s = (dbStores s, dbDiffs s, dbBlocks s, chainLast s, finalizedHeight s)"

lemma same_chain: "chainOf t = chainOf s \<Longrightarrow> nodeHist env H s \<Longrightarrow> nodeHist env H t \<and> keeps s t"
  by (auto simp: chainOf_def nodeHist_def keeps_def finalizedPart_def)

definition goodPost :: "'app consensusEnv \<Rightarrow> 'app node \<Rightarrow> 'app node \<Rightarrow> bool" where
  "goodPost env s t = (nodeInv env t \<and> keeps s t)"

lemma goodPost_refl: "nodeInv env s \<Longrightarrow> goodPost env s s"
  by (simp add: goodPost_def)

lemma goodPost_same: "nodeInv env s \<Longrightarrow> chainOf t = chainOf s \<Longrightarrow> goodPost env s t"
  unfolding goodPost_def nodeInv_def using same_chain by blast

lemma goodPost_trans: "goodPost env s t \<Longrightarrow> goodPost env t u \<Longrightarrow> goodPost env s u"
  by (auto simp: goodPost_def intro: keeps_trans)

section \<open>Computations that leave the chain alone\<close>

definition quiet :: "('app node, 'a) m \<Rightarrow> bool" where
  "quiet c = (\<forall>s. chainOf (snd (c s)) = chainOf s)"

lemma quiet_wp: "quiet c \<Longrightarrow> wp c (\<lambda>_ t. chainOf t = chainOf s) (\<lambda>_ t. chainOf t = chainOf s) s"
  by (auto simp: quiet_def wp_def split: prod.splits sum.splits) (metis snd_conv)+

lemma quiet_ret: "quiet (ret a)" by (simp add: quiet_def ret_def)
lemma quiet_throw: "quiet (throw e)" by (simp add: quiet_def throw_def)
lemma quiet_liftE: "quiet (liftE r)" by (simp add: quiet_def liftE_def)
lemma quiet_gets: "quiet (gets f)" by (simp add: quiet_def gets_def)
lemma quiet_viaAbi: "quiet (viaAbi c)" by (auto simp: quiet_def viaAbi_def chainOf_def split: prod.split)
lemma quiet_emit: "quiet (emit x)" by (simp add: quiet_def emit_def modify_def chainOf_def)
lemma dbStores_engine [simp]: "dbStores (votesStore_update f s) = dbStores s" "dbStores (paramsStore_update f s) = dbStores s"
  by (cases s; simp)+
lemma chainOf_stores [simp]: "chainOf (s\<lparr>votesStore := a, paramsStore := b\<rparr>) = chainOf s" by (simp add: chainOf_def)
lemma quiet_newStateStore: "quiet newStateStore" by (simp add: quiet_def newStateStore_def modify_def)

lemma quiet_bind: "quiet c \<Longrightarrow> (\<And>a. quiet (f a)) \<Longrightarrow> quiet (bind c f)"
  unfolding quiet_def bind_def by (simp split: prod.split sum.split) (metis snd_conv)

lemma quiet_andThen: "quiet c \<Longrightarrow> quiet d \<Longrightarrow> quiet (andThen c d)"
  unfolding andThen_def by (rule quiet_bind)

lemma quiet_tryCatch: "quiet c \<Longrightarrow> (\<And>e. quiet (h e)) \<Longrightarrow> quiet (tryCatch c h)"
  unfolding quiet_def tryCatch_def by (simp split: prod.split sum.split) (metis snd_conv)

lemma quiet_tryFinally: "quiet c \<Longrightarrow> quiet d \<Longrightarrow> quiet (tryFinally c d)"
  unfolding quiet_def tryFinally_def by (simp split: prod.split sum.split) (metis snd_conv)

lemma quiet_whenM: "quiet c \<Longrightarrow> quiet (whenM b c)"
  by (simp add: whenM_def quiet_ret)

lemma quiet_if: "quiet c \<Longrightarrow> quiet d \<Longrightarrow> quiet (if b then c else d)"
  by simp

lemma quiet_option: "quiet c \<Longrightarrow> (\<And>a. quiet (d a)) \<Longrightarrow> quiet (case x of None \<Rightarrow> c | Some a \<Rightarrow> d a)"
  by (simp split: option.split)

lemma quiet_sum: "(\<And>a. quiet (c a)) \<Longrightarrow> (\<And>a. quiet (d a)) \<Longrightarrow> quiet (case x of Inl a \<Rightarrow> c a | Inr a \<Rightarrow> d a)"
  by (simp split: sum.split)

lemma quiet_prod: "(\<And>a b. quiet (c a b)) \<Longrightarrow> quiet (case x of (a, b) \<Rightarrow> c a b)"
  by (simp split: prod.split)

lemma quiet_lastBlock: "quiet lastBlock"
  unfolding lastBlock_def by (intro quiet_bind quiet_gets quiet_option quiet_throw quiet_ret)

lemmas quiet_intros = quiet_ret quiet_throw quiet_liftE quiet_gets quiet_viaAbi quiet_emit quiet_newStateStore quiet_bind quiet_andThen
  quiet_tryCatch quiet_tryFinally quiet_whenM quiet_if quiet_option quiet_sum quiet_prod quiet_lastBlock

lemma quiet_votes: "quiet (modify (votesStore_update f))"
  by (simp add: quiet_def modify_def chainOf_def)

lemma quiet_params: "quiet (modify (paramsStore_update f))"
  by (simp add: quiet_def modify_def chainOf_def)

lemma quiet_storeGet: "quiet (storeGet sch sel key)"
  unfolding storeGet_def by (intro quiet_intros)

lemma quiet_getVotes: "quiet (getVotes cfg)"
  unfolding getVotes_def by (rule quiet_storeGet)

lemma quiet_setVotes: "quiet (setVotes cfg v)"
  unfolding setVotes_def storeSet_def by (intro quiet_intros quiet_votes)

lemma quiet_forEach: "(\<And>x. quiet (f x)) \<Longrightarrow> quiet (forEach xs f)"
  by (induction xs) (auto intro: quiet_intros)

lemma quiet_getBFTParameters: "quiet (getBFTParameters lib h)"
  unfolding getBFTParameters_def by (intro quiet_intros)

lemma quiet_deleteBFTParameters: "quiet (deleteBFTParameters h)"
  unfolding deleteBFTParameters_def storeDel_def by (intro quiet_intros quiet_forEach quiet_params)

lemma quiet_cacheParameters: "quiet (cacheParameters lib a b c)"
  unfolding cacheParameters_def by (intro quiet_intros quiet_getBFTParameters)

lemma quiet_getParameters: "quiet (getParameters lib c h)"
  unfolding getParameters_def by (intro quiet_intros quiet_getBFTParameters)

lemma quiet_precommitLoop: "quiet (precommitLoop lib g m bs a h c)"
  by (induction bs arbitrary: a h c) (auto simp: Let_def intro!: quiet_intros quiet_getParameters split: option.split)

lemma quiet_prevoteLoop: "quiet (prevoteLoop lib g m bs c)"
  by (induction bs arbitrary: c) (auto intro!: quiet_intros quiet_getParameters split: option.split)

lemma quiet_firstReaching: "quiet (firstReaching lib w t bs c)"
  by (induction bs arbitrary: c) (auto intro!: quiet_intros quiet_getParameters)

lemma quiet_updatePrevotesPrecommits: "quiet (updatePrevotesPrecommits lib v c)"
  unfolding updatePrevotesPrecommits_def Let_def
  by (auto intro!: quiet_intros quiet_precommitLoop quiet_prevoteLoop split: list.split option.split)

lemma quiet_bftBefore: "quiet (bftBeforeTransactionsExecute cfg h m)"
  unfolding bftBeforeTransactionsExecute_def updateMaxHeightPrevoted_def updateMaxHeightPrecommitted_def Let_def
  by (intro quiet_intros quiet_getVotes quiet_cacheParameters quiet_updatePrevotesPrecommits quiet_firstReaching quiet_setVotes quiet_deleteBFTParameters)

lemma quiet_setBFTParameters: "quiet (setBFTParameters cfg a b vs)"
  unfolding setBFTParameters_def Let_def storeSet_def
  by (intro quiet_intros quiet_getVotes quiet_params quiet_setVotes)

lemma quiet_executeTransactions: "quiet (executeTransactions env c b txs)"
  by (induction txs) (auto intro!: quiet_intros)

lemma quiet_executeBlock: "quiet (executeBlock env c b)"
  unfolding executeBlock_def by (intro quiet_intros quiet_bftBefore quiet_executeTransactions quiet_setBFTParameters)

lemmas quiet_engine = quiet_getVotes quiet_getBFTParameters quiet_bftBefore quiet_setBFTParameters quiet_executeBlock quiet_executeTransactions

lemma quiet_verifyBlock: "quiet (verifyBlock env b)"
  unfolding verifyBlock_def verifyTimestamp_def verifyPreviousBlockID_def verifyBlockHeight_def verifyGeneratorAddress_def verifyBFTProperties_def
    verifyBlockSignature_def verifyAggregateCommit_def getGeneratorAtTimestamp_def getBFTHeights_def isHeaderContradictingChain_def
    impliesMaximalPrevotes_def Let_def
  by (auto intro!: quiet_intros quiet_engine split: list.split)

lemma quiet_verifyAssets: "quiet (verifyAssets env b)"
  unfolding verifyAssets_def by (intro quiet_intros)

section \<open>Computations that leave chain and engine state alone\<close>

definition still :: "('app node, 'a) m \<Rightarrow> bool" where
  "still c = (\<forall>s. chainOf (snd (c s)) = chainOf s \<and> storesOf (snd (c s)) = storesOf s)"

lemma still_bind: "still c \<Longrightarrow> (\<And>a. still (f a)) \<Longrightarrow> still (bind c f)"
  unfolding still_def bind_def by (simp split: prod.split sum.split) (metis snd_conv)

lemma still_basic: "still (ret a)" "still (throw e)" "still (liftE r)" "still (gets f)" "still (viaAbi c)" "still (emit x)"
  by (auto simp: still_def ret_def throw_def liftE_def gets_def viaAbi_def emit_def modify_def chainOf_def storesOf_def split: prod.split)

lemma still_andThen: "still c \<Longrightarrow> still d \<Longrightarrow> still (andThen c d)"
  unfolding andThen_def by (rule still_bind)

lemma still_if: "still c \<Longrightarrow> still d \<Longrightarrow> still (if b then c else d)"
  by simp

lemma still_option: "still c \<Longrightarrow> (\<And>a. still (d a)) \<Longrightarrow> still (case x of None \<Rightarrow> c | Some a \<Rightarrow> d a)"
  by (simp split: option.split)

lemma still_prod: "(\<And>a b. still (c a b)) \<Longrightarrow> still (case x of (a, b) \<Rightarrow> c a b)"
  by (simp split: prod.split)

lemma still_tryFinally: "still c \<Longrightarrow> still d \<Longrightarrow> still (tryFinally c d)"
  unfolding still_def tryFinally_def by (simp split: prod.split sum.split) (metis snd_conv)

lemma still_whenM: "still c \<Longrightarrow> still (whenM b c)"
  by (simp add: whenM_def still_basic)

lemma still_lastBlock: "still lastBlock"
  unfolding lastBlock_def by (intro still_bind still_basic still_option)

lemmas still_intros = still_basic still_bind still_andThen still_if still_option still_prod still_tryFinally still_whenM still_lastBlock

lemma still_wp: "still c \<Longrightarrow> wp c (\<lambda>_ t. chainOf t = chainOf s \<and> storesOf t = storesOf s) (\<lambda>_ t. chainOf t = chainOf s) s"
  by (auto simp: still_def wp_def split: prod.splits sum.splits) (metis snd_conv)+

lemma still_getBFTParameters: "still (getBFTParameters lib h)"
  unfolding getBFTParameters_def by (intro still_intros)

lemma still_executeTransactions: "still (executeTransactions env c b txs)"
  by (induction txs) (auto intro!: still_intros)

lemma getVotes_iff:
  "getVotes cfg s = (Inr v, t) \<longleftrightarrow> t = s \<and> (\<exists>bs. map_of (votesStore s) EMPTY_KEY = Some bs \<and> dec (votesSchema (bftLib cfg)) bs = Inr v)"
  by (auto simp: getVotes_def storeGet_def bind_def gets_def liftE_def throw_def split: option.split)

lemma bftInv_storesOf: "bftInv cfg (storesOf s) v = bftInv cfg s v"
  by (simp add: bftInv_def getVotes_iff storesOf_def)

lemma bftInv_same: "storesOf t = storesOf s \<Longrightarrow> bftInv cfg t v = bftInv cfg s v"
  using bftInv_storesOf by metis

section \<open>Execution of a block\<close>

definition ready :: "'app consensusEnv \<Rightarrow> block \<Rightarrow> block \<Rightarrow> bftVotes \<Rightarrow> bool" where
  "ready env b lastB v = (linked env b lastB \<and> hMaxHeightPrevoted (bHeader b) = maxHeightPrevoted v \<and> \<not> contradictsInfos (blockBFTInfos v) (bHeader b))"

lemma wp_conj:
  "wp c Q E s \<Longrightarrow> wp c Q' E' s \<Longrightarrow> wp c (\<lambda>a t. Q a t \<and> Q' a t) (\<lambda>e t. E e t \<and> E' e t) s"
  by (auto simp: wp_def split: prod.splits sum.splits)

lemma wp_skip: "wp c (\<lambda>_. Q) (\<lambda>_ _. True) s \<Longrightarrow> (\<And>a t. Q t \<Longrightarrow> wp (f a) R (\<lambda>_ _. True) t) \<Longrightarrow> wp (bind c f) R (\<lambda>_ _. True) s"
  unfolding wp_bind by (erule wp_mono) auto

lemma wp_True: "wp c (\<lambda>_ _. True) (\<lambda>_ _. True) s"
  by (simp add: wp_def split: prod.split sum.split)

lemma wp_pure_still:
  assumes "still c" "\<And>a t. chainOf t = chainOf s \<Longrightarrow> storesOf t = storesOf s \<Longrightarrow> wp (f a) R (\<lambda>_ _. True) t"
  shows "wp (bind c f) R (\<lambda>_ _. True) s"
  unfolding wp_bind by (rule wp_mono[OF still_wp[OF assms(1)]]) (use assms(2) in auto)

definition reads :: "('s, 'a) m \<Rightarrow> bool" where
  "reads c = (\<forall>s. snd (c s) = s)"

lemma reads_bind: "reads c \<Longrightarrow> (\<And>a. reads (f a)) \<Longrightarrow> reads (bind c f)"
  unfolding reads_def bind_def by (simp split: prod.split sum.split) (metis snd_conv)

lemma reads_basic: "reads (ret a)" "reads (throw e)" "reads (liftE r)" "reads (gets f)"
  by (simp_all add: reads_def ret_def throw_def liftE_def gets_def)

lemma reads_if: "reads c \<Longrightarrow> reads d \<Longrightarrow> reads (if b then c else d)"
  by simp

lemma reads_option: "reads c \<Longrightarrow> (\<And>a. reads (d a)) \<Longrightarrow> reads (case x of None \<Rightarrow> c | Some a \<Rightarrow> d a)"
  by (simp split: option.split)

lemma reads_list: "reads c \<Longrightarrow> (\<And>a b. reads (d a b)) \<Longrightarrow> reads (case x of [] \<Rightarrow> c | a # b \<Rightarrow> d a b)"
  by (simp split: list.split)

lemma reads_lastBlock: "reads lastBlock"
  unfolding lastBlock_def by (intro reads_bind reads_basic reads_option)

lemma reads_getVotes: "reads (getVotes cfg)"
  unfolding getVotes_def storeGet_def by (intro reads_bind reads_basic reads_option)

lemma reads_getBFTParameters: "reads (getBFTParameters lib h)"
  unfolding getBFTParameters_def by (intro reads_bind reads_basic reads_if)

lemmas reads_intros = reads_basic reads_bind reads_if reads_option reads_list reads_lastBlock reads_getVotes reads_getBFTParameters

lemma wp_reads_then:
  assumes "reads a" "wp a (\<lambda>_ _. F) (\<lambda>_ _. True) s" "F \<Longrightarrow> wp b Q (\<lambda>_ _. True) s"
  shows "wp (andThen a b) Q (\<lambda>_ _. True) s"
proof -
  have "snd (a s) = s" using assms(1) by (simp add: reads_def)
  then show ?thesis unfolding wp_andThen using assms(2,3) by (cases "a s"; cases "fst (a s)") (auto simp: wp_def)
qed

lemma reads_verify:
  "reads (verifyTimestamp env b)" "reads (verifyBlockHeight b)" "reads (verifyPreviousBlockID env b)" "reads (verifyGeneratorAddress env b)"
  "reads (verifyBFTProperties env b)" "reads (verifyBlockSignature env b)" "reads (verifyAggregateCommit env b)"
  unfolding verifyTimestamp_def verifyPreviousBlockID_def verifyBlockHeight_def verifyGeneratorAddress_def verifyBFTProperties_def
    verifyBlockSignature_def verifyAggregateCommit_def getGeneratorAtTimestamp_def getBFTHeights_def isHeaderContradictingChain_def
    impliesMaximalPrevotes_def Let_def
  by (auto intro!: reads_intros split: list.split sum.split)

lemma verify_ready:
  fixes env :: "'a consensusEnv" and s :: "'a node"
  assumes h: "nodeHist env H s" and v: "bftInv (ceBft env) (snd (hd H)) v"
  shows "wp (verifyBlock env b) (\<lambda>_ t. ready env b (fst (hd H)) v) (\<lambda>_ _. True) s"
proof -
  let ?l = "fst (hd H)" and ?h = "bHeader b"
  have db: "dbStores s = snd (hd H)" "chainLast s = Some ?l" using h by (auto simp: nodeHist_def)
  define s1 where "s1 = s\<lparr>votesStore := votesStore (dbStores s), paramsStore := paramsStore (dbStores s)\<rparr>"
  have s1: "storesOf s1 = snd (hd H)" "chainLast s1 = Some ?l" unfolding s1_def using db by (simp_all add: storesOf_def)
  have g: "wp (getVotes (ceBft env)) Q E s1 = Q v s1" for Q E
  proof -
    have "getVotes (ceBft env) s1 = (Inr v, s1)"
      using v unfolding s1(1)[symmetric] bftInv_storesOf by (simp add: bftInv_def)
    then show ?thesis by (simp add: wp_def)
  qed
  have 1: "wp (verifyBlockHeight b) (\<lambda>_ _. hHeight ?h = heightOf ?l + 1) (\<lambda>_ _. True) s1"
    using s1(2) by (simp add: verifyBlockHeight_def lastBlock_def wp)
  have 2: "wp (verifyPreviousBlockID env b) (\<lambda>_ _. blockId env ?l = Inr (hPreviousBlockID ?h)) (\<lambda>_ _. True) s1"
    using s1(2) by (simp add: verifyPreviousBlockID_def lastBlock_def wp split: sum.split)
  have 3: "wp (verifyBFTProperties env b) (\<lambda>_ _. hMaxHeightPrevoted ?h = maxHeightPrevoted v \<and> \<not> contradictsInfos (blockBFTInfos v) ?h) (\<lambda>_ _. True) s1"
    by (auto simp: verifyBFTProperties_def getBFTHeights_def isHeaderContradictingChain_def wp_bind wp_fun g wp_True)
  have "wp (andThen (verifyTimestamp env b) (andThen (verifyBlockHeight b) (andThen (verifyPreviousBlockID env b)
     (andThen (verifyGeneratorAddress env b) (andThen (verifyBFTProperties env b) (andThen (verifyBlockSignature env b) (verifyAggregateCommit env b)))))))
     (\<lambda>_ _. ready env b ?l v) (\<lambda>_ _. True) s1"
    apply (rule wp_reads_then[OF reads_verify(1) wp_True])
    apply (rule wp_reads_then[OF reads_verify(2) 1])
    apply (rule wp_reads_then[OF reads_verify(3) 2])
    apply (rule wp_reads_then[OF reads_verify(4) wp_True])
    apply (rule wp_reads_then[OF reads_verify(5) 3])
    apply (rule wp_reads_then[OF reads_verify(6) wp_True])
    apply (rule wp_mono[OF wp_True])
    by (simp_all add: ready_def linked_def)
  moreover have "wp newStateStore Q E s = Q () s1" for Q E by (simp add: newStateStore_def wp s1_def)
  ultimately show ?thesis unfolding verifyBlock_def wp_andThen[of newStateStore] by simp
qed

lemma ready_verified:
  assumes "ready env b l v" "freshBlock b" "nextHeightOf v = heightOf l + 1"
  shows "verified v (bHeader b)"
  using assms by (auto simp: ready_def verified_def linked_def freshBlock_def headerOk_def headerNonNeg_def isUInt32_def)

lemma execute_engine:
  fixes env :: "'a consensusEnv" and s :: "'a node"
  assumes inv: "bftInv (ceBft env) s v" and h: "verified v (bHeader b)"
  shows "wp (executeBlock env contextID b) (\<lambda>_ t. \<exists>v'. bftInv (ceBft env) t v' \<and> nextHeightOf v' = nextHeightOf v + 1) (\<lambda>_ _. True) s"
proof -
  let ?Q = "\<lambda>t. \<exists>v'. bftInv (ceBft env) t v' \<and> nextHeightOf v' = nextHeightOf v + 1"
  have keep: "?Q t" if "?Q u" "storesOf t = storesOf u" for t u :: "'a node" using that bftInv_same by blast
  have upd: "wp (if isEmptyConsensusUpdate a c vs then ret () else andThen (setBFTParameters (ceBft env) a c vs) (emit x)) (\<lambda>_. ?Q) (\<lambda>_ _. True) t"
    if q: "?Q t" for a c vs x and t :: "'a node"
  proof -
    obtain v1 where v1: "bftInv (ceBft env) t v1" "nextHeightOf v1 = nextHeightOf v + 1" using q by blast
    have "wp (setBFTParameters (ceBft env) a c vs) (\<lambda>_. ?Q) (\<lambda>_ _. True) t"
      by (rule wp_mono[OF params_step[OF v1(1), of a c vs]]) (use v1(2) in \<open>auto intro!: exI[of _ "v1\<lparr>activeValidatorsVoteInfo := _\<rparr>"]\<close>)
    then have "wp (andThen (setBFTParameters (ceBft env) a c vs) (emit x)) (\<lambda>_. ?Q) (\<lambda>_ _. True) t"
      unfolding wp_andThen
    proof (rule wp_mono, goal_cases)
      case (1 u w)
      have "storesOf (w\<lparr>outputs := outputs w @ [x]\<rparr>) = storesOf w" by (simp add: storesOf_def)
      then show ?case using keep[OF 1] by (simp add: emit_def wp)
    qed simp
    then show ?thesis using q by (simp add: wp)
  qed
  have main: "wp (bind (gets (\<lambda>s. ceMaxRemovalHeight env (dbStores s))) (\<lambda>r. bind (liftE r) (\<lambda>maxRemovalHeight.
        andThen (bftBeforeTransactionsExecute (ceBft env) (bHeader b) maxRemovalHeight)
        (bind (viaAbi (beforeTransactionsExecute (ceAbi env) contextID (bAssets b))) (\<lambda>evs1.
        bind (executeTransactions env contextID b (bTransactions b)) (\<lambda>evs2.
        bind (viaAbi (afterTransactionsExecute (ceAbi env) contextID (bAssets b) (bTransactions b))) (\<lambda>upd.
        andThen
          (if isEmptyConsensusUpdate (cuPreCommitThreshold upd) (cuCertificateThreshold upd) (cuNextValidators upd) then ret ()
           else andThen (setBFTParameters (ceBft env) (cuPreCommitThreshold upd) (cuCertificateThreshold upd) (cuNextValidators upd))
             (emit (EventValidatorsChanged (cuPreCommitThreshold upd) (cuCertificateThreshold upd) (cuNextValidators upd))))
          (ret (numberEvents (evs1 @ evs2 @ cuEvents upd)))))))))) (\<lambda>_. ?Q) (\<lambda>_ _. True) s"
  proof (subst wp_bind, subst wp_gets, subst wp_bind, subst wp_liftE, simp split: sum.split, intro allI impI, subst wp_andThen, goal_cases)
    case (1 m)
    show ?case
    proof (rule wp_mono[OF block_step[OF inv h, of m]], goal_cases)
      case (1 u t)
      then have q: "?Q t" by (auto simp: blockPost_def)
      show ?case
      proof (rule wp_pure_still[OF still_basic(5)], rule wp_pure_still[OF still_executeTransactions], rule wp_pure_still[OF still_basic(5)], goal_cases)
        case (1 a1 t1 a2 t2 a3 t3)
        then have "?Q t3" using keep[OF q] by simp
        then show ?case unfolding wp_andThen by (rule wp_mono[OF upd]) (auto simp: wp)
      qed
    qed simp
  qed
  show ?thesis unfolding executeBlock_def wp_tryCatch by (rule wp_mono[OF main]) (simp_all add: wp_andThen wp_fun wp_True)
qed

text \<open>Sequencing when the first computation leaves the chain alone.\<close>

lemma wp_quiet_bind:
  assumes "quiet c" "\<And>a t. chainOf t = chainOf s \<Longrightarrow> wp (f a) Q E t" "\<And>e t. chainOf t = chainOf s \<Longrightarrow> E e t"
  shows "wp (bind c f) Q E s"
  unfolding wp_bind by (rule wp_mono[OF quiet_wp[OF assms(1)]]) (use assms(2,3) in auto)

lemma wp_quiet_then:
  assumes "quiet c" "\<And>t. chainOf t = chainOf s \<Longrightarrow> wp d Q E t" "\<And>e t. chainOf t = chainOf s \<Longrightarrow> E e t"
  shows "wp (andThen c d) Q E s"
  unfolding andThen_def by (rule wp_quiet_bind[OF assms(1)]) (use assms(2,3) in auto)

lemma wp_still_then:
  assumes "still c" "\<And>t. chainOf t = chainOf s \<Longrightarrow> storesOf t = storesOf s \<Longrightarrow> wp d Q E t" "\<And>e t. chainOf t = chainOf s \<Longrightarrow> E e t"
  shows "wp (andThen c d) Q E s"
  unfolding wp_andThen by (rule wp_mono[OF still_wp[OF assms(1)]]) (use assms(2,3) in auto)

lemma wp_quiet_end:
  assumes "quiet c" "\<And>t. chainOf t = chainOf s \<Longrightarrow> R t"
  shows "wp c (\<lambda>_. R) (\<lambda>_. R) s"
  by (rule wp_mono[OF quiet_wp[OF assms(1)]]) (use assms(2) in auto)

lemma map_of_filter_key: "map_of (filter (\<lambda>e. P (fst e)) ds) k = (if P k then map_of ds k else None)"
  by (induction ds) auto

lemma histOk_heights: "histOk env H \<Longrightarrow> i < length H \<Longrightarrow> heightOf (fst (H ! i)) = heightOf (fst (hd H)) - int i"
proof (induction env H arbitrary: i rule: histOk.induct)
  case (3 env e f H)
  show ?case
  proof (cases i)
    case (Suc j)
    then show ?thesis using 3 by (simp add: linked_def)
  qed simp
qed auto

lemma histOk_entry: "histOk env H \<Longrightarrow> e \<in> set H \<Longrightarrow> entryValid env e"
  by (induction env H rule: histOk.induct) auto

lemma histOk_ids: "histOk env (e # H) \<Longrightarrow> f \<in> set H \<Longrightarrow> \<exists>i. blockId env (fst f) = Inr i"
  by (induction env "e # H" arbitrary: e H rule: histOk.induct) (auto simp: linked_def)

lemma save_good:
  assumes h: "nodeHist env H s" and t: "chainOf t = chainOf s" and b: "freshBlock b" "linked env b (fst (hd H))"
    and v: "bftInv (ceBft env) t v" "nextHeightOf v = heightOf b + 1"
    and fin: "fin = (if maxHeightPrecommitted v > finalizedHeight s then maxHeightPrecommitted v else finalizedHeight s)"
  shows "wp (saveBlock b fin rm) (\<lambda>_ u. nodeHist env ((b, storesOf t) # H) u \<and> keeps s u \<and> dbBlocks u = b # dbBlocks s \<and> finalizedHeight u = fin) E t"
proof -
  obtain e H' where H: "H = e # H'" using h by (cases H) (auto simp: nodeHist_def)
  let ?N = "(b, storesOf t) # H"
  have hn: "histOk env ?N" using h b v H bftInv_storesOf[of "ceBft env" t v] by (auto simp: nodeHist_def entryValid_def)
  have ht: "heightOf b = heightOf (fst e) + 1" using b(2) H by (simp add: linked_def)
  have le: "fin \<le> heightOf b" "finalizedHeight s \<le> fin"
    using fin v h H ht by (auto simp: bftInv_def heightsInv_def nodeHist_def split: if_splits)
  have st: "dbStores t = snd e" "dbDiffs t = dbDiffs s" "dbBlocks t = map fst H" "finalizedHeight t = finalizedHeight s"
    using t h H by (auto simp: chainOf_def nodeHist_def)
  let ?ds = "filter (\<lambda>x. \<not> (fin > 0 \<and> fst x \<le> fin - 1)) ((heightOf b, dbStores t) # filter (\<lambda>x. fst x \<noteq> heightOf b) (dbDiffs t))"
  have ds: "diffsOk ?N ?ds" unfolding diffsOk_def
  proof (intro allI impI)
    fix i d assume i: "Suc i < length ?N" and d: "map_of ?ds (heightOf (fst (?N ! i))) = Some d"
    have m: "map_of ?ds k = Some d \<Longrightarrow> (if k = heightOf b then d = dbStores t else map_of (dbDiffs t) k = Some d)" for k
      unfolding map_of_filter_key[of "\<lambda>k. \<not> (fin > 0 \<and> k \<le> fin - 1)"] map_of.simps map_of_filter_key[of "\<lambda>k. k \<noteq> heightOf b"]
      by (auto split: if_splits)
    show "d = snd (?N ! Suc i)"
    proof (cases i)
      case 0
      then show ?thesis using m[OF d] st H by simp
    next
      case (Suc j)
      have "heightOf (fst (?N ! i)) = heightOf b - int i" using histOk_heights[OF hn, of i] i by simp
      then have "heightOf (fst (?N ! i)) \<noteq> heightOf b" using Suc by simp
      then have "map_of (dbDiffs s) (heightOf (fst (H ! j))) = Some d" using m[OF d] Suc st by simp
      then show ?thesis using h i Suc by (simp add: nodeHist_def diffsOk_def)
    qed
  qed
  have bl: "map fst H = dbBlocks s" using h by (simp add: nodeHist_def)
  have k: "filter (\<lambda>c. heightOf c \<le> finalizedHeight s) (b # dbBlocks s) = filter (\<lambda>c. heightOf c \<le> finalizedHeight s) (dbBlocks s)"
    using ht h H by (auto simp: nodeHist_def)
  have l: "heightOf (fst (last H)) \<le> finalizedHeight s" "H \<noteq> []" using h H by (auto simp: nodeHist_def)
  show ?thesis unfolding saveBlock_def wp_modify
    using hn ds le l k st bl by (simp add: nodeHist_def keeps_def finalizedPart_def)
qed

text \<open>
  Outcomes of the processing of one block: it becomes the newest block of the history, or
  the chain is left as it was.
\<close>

definition added :: "'app consensusEnv \<Rightarrow> history \<Rightarrow> block \<Rightarrow> 'app node \<Rightarrow> 'app node \<Rightarrow> bool" where
  "added env H b s u = ((\<exists>st. nodeHist env ((b, st) # H) u) \<and> keeps s u)"

definition atomic :: "'app consensusEnv \<Rightarrow> history \<Rightarrow> block \<Rightarrow> 'app node \<Rightarrow> 'app node \<Rightarrow> bool" where
  "atomic env H b s u = (chainOf u = chainOf s \<or> added env H b s u)"

lemma added_same: "added env H b s u \<Longrightarrow> chainOf w = chainOf u \<Longrightarrow> added env H b s w"
  unfolding added_def using same_chain keeps_trans by blast

lemma added_good: "added env H b s u \<Longrightarrow> goodPost env s u"
  by (auto simp: added_def goodPost_def nodeInv_def)

lemma atomic_good: "nodeInv env s \<Longrightarrow> atomic env H b s u \<Longrightarrow> goodPost env s u"
  using goodPost_same added_good by (auto simp: atomic_def)

lemma verify_phase:
  fixes env :: "'a consensusEnv" and s :: "'a node"
  assumes h: "nodeHist env (e # H) s" and v: "bftInv (ceBft env) (snd e) v"
  shows "wp (tryCatch (andThen (verifyBlock env b) (verifyAssets env b)) (\<lambda>e. throw (ApplyPenaltyError e)))
     (\<lambda>_ t. chainOf t = chainOf s \<and> ready env b (fst e) v) (\<lambda>_ t. chainOf t = chainOf s) s"
proof -
  have r: "wp (verifyBlock env b) (\<lambda>_ t. chainOf t = chainOf s \<and> ready env b (fst e) v) (\<lambda>_ t. chainOf t = chainOf s) s"
    using wp_conj[OF quiet_wp[OF quiet_verifyBlock] verify_ready[OF h, of v b]] v by simp
  have "wp (andThen (verifyBlock env b) (verifyAssets env b)) (\<lambda>_ t. chainOf t = chainOf s \<and> ready env b (fst e) v) (\<lambda>_ t. chainOf t = chainOf s) s"
    unfolding wp_andThen
    by (rule wp_mono[OF r], rule wp_mono[OF quiet_wp[OF quiet_verifyAssets]]) auto
  then show ?thesis unfolding wp_tryCatch by (rule wp_mono) (auto simp: wp)
qed

lemma save_phase:
  fixes env :: "'a consensusEnv" and s w :: "'a node"
  assumes h: "nodeHist env H s" and w: "chainOf w = chainOf s" and b: "freshBlock b" "linked env b (fst (hd H))"
    and v: "bftInv (ceBft env) w v" "nextHeightOf v = heightOf b + 1"
    and fin: "fin = (if maxHeightPrecommitted v > finalizedHeight s then maxHeightPrecommitted v else finalizedHeight s)"
  shows "wp (andThen (saveBlock b fin rm) (andThen (whenM c (andThen (viaAbi f) (emit x))) (emit y)))
     (\<lambda>_. added env H b s) (\<lambda>_. atomic env H b s) w"
  unfolding wp_andThen[of "saveBlock b fin rm"]
proof (rule wp_mono[OF save_good[OF h w b v fin, of rm "\<lambda>_ _. False"]], goal_cases)
  case (1 a z)
  then have z: "added env H b s z" by (auto simp: added_def)
  have "wp (andThen (whenM c (andThen (viaAbi f) (emit x))) (emit y)) (\<lambda>_. added env H b s) (\<lambda>_. added env H b s) z"
    using added_same[OF z] by (intro wp_quiet_end quiet_intros)
  then show ?case by (rule wp_mono) (auto simp: atomic_def)
qed simp

lemma heights_wp:
  assumes "bftInv cfg u v"
  shows "wp (getBFTHeights cfg) Q E u = Q \<lparr>bhMaxPrevoted = maxHeightPrevoted v, bhMaxPrecommitted = maxHeightPrecommitted v, bhMaxCertified = maxHeightCertified v\<rparr> u"
proof -
  have "getVotes cfg u = (Inr v, u)" using assms by (simp add: bftInv_def)
  then show ?thesis by (simp add: getBFTHeights_def wp_bind wp_known wp_fun)
qed

lemma run_phase:
  fixes env :: "'a consensusEnv" and s t :: "'a node"
  assumes h: "nodeHist env (e # H) s" and v: "bftInv (ceBft env) (snd e) v" "nextHeightOf v = heightOf (fst e) + 1" and b: "freshBlock b"
    and t: "chainOf t = chainOf s" "storesOf t = snd e" and rd: "ready env b (fst e) v"
  shows "wp (bind (executeBlock env contextID b) (\<lambda>evs.
     bind (getBFTHeights (ceBft env)) (\<lambda>heights.
     bind (gets finalizedHeight) (\<lambda>fin.
     let changed = bhMaxPrecommitted heights > fin;
         fin' = (if changed then bhMaxPrecommitted heights else fin) in
     andThen (verifyValidatorsHash env b)
     (andThen (verifyEventRoot env b evs)
     (andThen (commitBlock env contextID b)
     (andThen (saveBlock b fin' rm)
     (andThen (whenM changed (andThen (viaAbi (abiFinalize (ceAbi env) fin')) (emit (EventFinalizedHeightChanged fin fin'))))
     (emit (EventBlockNew b))))))))))
     (\<lambda>_. added env (e # H) b s) (\<lambda>_. atomic env (e # H) b s) t"
proof -
  have ver: "verified v (bHeader b)" using ready_verified[OF rd b v(2)] .
  have iv: "bftInv (ceBft env) t v" using v(1) t(2) bftInv_storesOf by metis
  have lk: "linked env b (fst (hd (e # H)))" and nb: "nextHeightOf v + 1 = heightOf b + 1" using rd v(2) by (simp_all add: ready_def linked_def)
  have ex: "wp (executeBlock env contextID b) (\<lambda>_ u. chainOf u = chainOf s \<and> (\<exists>v'. bftInv (ceBft env) u v' \<and> nextHeightOf v' = heightOf b + 1))
      (\<lambda>_ u. chainOf u = chainOf s) t"
    using wp_conj[OF quiet_wp[OF quiet_executeBlock] execute_engine[OF iv ver, of contextID]] t(1) nb by simp
  show ?thesis unfolding wp_bind[of "executeBlock env contextID b"]
  proof (rule wp_mono[OF ex], goal_cases)
    case (1 evs u)
    then obtain v' where u: "chainOf u = chainOf s" "bftInv (ceBft env) u v'" "nextHeightOf v' = heightOf b + 1" by blast
    have fu: "finalizedHeight u = finalizedHeight s" using u(1) by (simp add: chainOf_def)
    show ?case unfolding wp_bind heights_wp[OF u(2)] wp_gets Let_def bftHeights.simps fu
    proof (rule wp_still_then[OF _ wp_still_then[OF _ wp_still_then[OF _ save_phase[OF h _ b lk _ u(3) refl]]]], goal_cases)
      case 1
      show ?case unfolding verifyValidatorsHash_def by (intro still_intros still_getBFTParameters)
    next
      case (2 t1)
      show ?case unfolding verifyEventRoot_def by (intro still_intros)
    next
      case (3 t1 t2)
      show ?case unfolding commitBlock_def by (intro still_intros)
    next
      case (5 t1 t2 t3)
      then show ?case using u(2) bftInv_same by metis
    qed (use u(1) in \<open>auto simp: atomic_def\<close>)
  qed (simp add: atomic_def)
qed

lemma executeValidated_atomic:
  fixes env :: "'a consensusEnv" and s :: "'a node"
  assumes h: "nodeHist env H s" and b: "freshBlock b"
  shows "wp (executeValidated env b sk rm) (\<lambda>_. added env H b s) (\<lambda>_. atomic env H b s) s"
proof -
  obtain e H' where H: "H = e # H'" using h by (cases H) (auto simp: nodeHist_def)
  have "entryValid env e" using h H by (cases H') (auto simp: nodeHist_def)
  then obtain v where v: "bftInv (ceBft env) (snd e) v" "nextHeightOf v = heightOf (fst e) + 1" by (auto simp: entryValid_def)
  show ?thesis unfolding executeValidated_def
  proof (subst wp_bind, rule wp_mono[OF verify_phase[OF h[unfolded H] v(1)]], goal_cases)
    case (1 contextID t1)
    show ?case
    proof (rule wp_quiet_then, goal_cases)
      case 1
      show ?case by (intro quiet_intros)
    next
      case (2 t2)
      have c2: "chainOf t2 = chainOf s" using 1 2 by simp
      have "wp newStateStore (\<lambda>_ t. chainOf t = chainOf s \<and> storesOf t = snd e) (\<lambda>_ _. False) t2"
        using c2 h H by (auto simp: newStateStore_def wp chainOf_def nodeHist_def storesOf_def)
      then show ?case unfolding wp_andThen[of newStateStore]
        by (rule wp_mono) (use run_phase[OF h[unfolded H] v b] 1 H in auto)
    qed (use 1 in \<open>auto simp: atomic_def\<close>)
  qed (simp add: atomic_def)
qed

lemma executeValidated_good:
  fixes env :: "'a consensusEnv" and s :: "'a node"
  assumes inv: "nodeInv env s" and b: "freshBlock b"
  shows "wp (executeValidated env b sk rm) (\<lambda>_. goodPost env s) (\<lambda>_. goodPost env s) s"
proof -
  obtain H where h: "nodeHist env H s" using inv by (auto simp: nodeInv_def)
  show ?thesis by (rule wp_mono[OF executeValidated_atomic[OF h b]]) (auto intro: added_good atomic_good[OF inv])
qed

section \<open>Deletion of the last block\<close>

definition removed :: "'app consensusEnv \<Rightarrow> history \<Rightarrow> 'app node \<Rightarrow> 'app node \<Rightarrow> bool" where
  "removed env H s u = (nodeHist env H u \<and> keeps s u)"

lemma ids_distinct:
  assumes cf: "collisionFree env" and ho: "histOk env (e # H)" and c: "c \<in> fst ` set H"
  shows "blockId env c \<noteq> blockId env (fst e)"
proof
  assume eq: "blockId env c = blockId env (fst e)"
  obtain g where g: "g \<in> set H" "c = fst g" using c by blast
  then obtain i where i: "blockId env c = Inr i" using histOk_ids[OF ho] by blast
  have "freshBlock c" "freshBlock (fst e)" using histOk_entry[OF ho, of g] histOk_entry[OF ho, of e] g by (auto simp: entryValid_def)
  then have hh: "heightOf c = heightOf (fst e)" using cf[unfolded collisionFree_def, rule_format, of c "fst e" i] i eq[symmetric] by simp
  obtain j where "j < length H" "H ! j = g" using g(1) unfolding in_set_conv_nth by blast
  then have "heightOf c = heightOf (fst e) - int (Suc j)" using histOk_heights[OF ho, of "Suc j"] g(2) by simp
  with hh show False by simp
qed

lemma diffs_removed:
  assumes "diffsOk (e # H) ds"
  shows "diffsOk H (filter (\<lambda>x. fst x \<noteq> k) ds)"
  unfolding diffsOk_def
proof (intro allI impI)
  fix i x assume i: "Suc i < length H" and x: "map_of (filter (\<lambda>x. fst x \<noteq> k) ds) (heightOf (fst (H ! i))) = Some x"
  have "map_of ds (heightOf (fst ((e # H) ! Suc i))) = Some x"
    using x unfolding map_of_filter_key[of "\<lambda>h. h \<noteq> k"] by (simp split: if_splits)
  then show "x = snd (H ! Suc i)" using assms i unfolding diffsOk_def by (metis Suc_less_eq length_Cons nth_Cons_Suc)
qed

lemma remove_atomic:
  fixes env :: "'a consensusEnv" and s :: "'a node"
  assumes cf: "collisionFree env" and h: "nodeHist env (e # H) s" and t: "chainOf t = chainOf s" and fin: "finalizedHeight s < heightOf (fst e)"
  shows "wp (removeBlock env (fst e) tmp) (\<lambda>_. removed env H s) (\<lambda>_ u. chainOf u = chainOf s) t"
proof -
  let ?b = "fst e"
  have "H \<noteq> []" using h fin by (auto simp: nodeHist_def)
  then obtain f G where H: "H = f # G" by (cases H) auto
  have ho: "histOk env (e # f # G)" "linked env ?b (fst f)" using h H by (auto simp: nodeHist_def)
  have st: "dbBlocks t = ?b # map fst (f # G)" "dbDiffs t = dbDiffs s" "finalizedHeight t = finalizedHeight s" using t h H by (auto simp: chainOf_def nodeHist_def)
  have ne: "blockId env c \<noteq> blockId env ?b" if "c \<in> fst ` set (f # G)" for c using ids_distinct[OF cf ho(1) that] .
  have fd: "find (\<lambda>c. blockId env c = Inr (hPreviousBlockID (bHeader ?b))) (dbBlocks t) = Some (fst f)"
    using ho(2) ne[of "fst f"] st(1) by (auto simp: linked_def)
  have fl: "filter (\<lambda>c. blockId env c \<noteq> blockId env ?b) (dbBlocks t) = map fst (f # G)"
    using ne st(1) by (auto simp: filter_id_conv)
  show ?thesis
  proof (cases "hVersion (bHeader ?b) = GENESIS_BLOCK_VERSION \<or> map_of (dbDiffs s) (heightOf ?b) = None")
    case True
    then show ?thesis using t fd st(2) by (auto simp: removeBlock_def wp)
  next
    case False
    then obtain d where d: "map_of (dbDiffs s) (heightOf ?b) = Some d" "hVersion (bHeader ?b) \<noteq> GENESIS_BLOCK_VERSION" by auto
    have df: "diffsOk (e # f # G) (dbDiffs s)" using h H by (simp add: nodeHist_def)
    then have de: "d = snd f" using d(1) unfolding diffsOk_def by (metis (no_types, lifting) H length_Cons nth_Cons_0 nth_Cons_Suc zero_less_Suc Suc_less_eq)
    define u where "u = t\<lparr>dbBlocks := map fst (f # G), chainLast := Some (fst f),
      dbInclusionProofs := filter (\<lambda>x. fst x \<noteq> heightOf ?b) (dbInclusionProofs t),
      dbTempBlocks := (if tmp then (heightOf ?b, ?b) # filter (\<lambda>x. fst x \<noteq> heightOf ?b) (dbTempBlocks t) else dbTempBlocks t),
      dbDiffs := filter (\<lambda>x. fst x \<noteq> heightOf ?b) (dbDiffs t), dbStores := d\<rparr>"
    have "heightOf ?b = heightOf (fst f) + 1" using ho(2) by (simp add: linked_def)
    then have "nodeHist env (f # G) u" using h H ho fin de st diffs_removed[OF df, of "heightOf ?b"] by (simp add: nodeHist_def u_def)
    moreover have "dbBlocks s = ?b # map fst (f # G)" using h H by (simp add: nodeHist_def)
    then have "keeps s u" using fin st by (simp add: keeps_def finalizedPart_def u_def)
    ultimately have "removed env H s u" using H by (simp add: removed_def)
    then show ?thesis using d fd fl st(2) by (simp add: removeBlock_def wp u_def)
  qed
qed

lemma deleteBlock_atomic:
  fixes env :: "'a consensusEnv" and s :: "'a node"
  assumes cf: "collisionFree env" and h: "nodeHist env (e # H) s"
  shows "wp (deleteBlock env (fst e) tmp) (\<lambda>_. removed env H s) (\<lambda>_ u. chainOf u = chainOf s) s"
proof (cases "heightOf (fst e) \<le> finalizedHeight s")
  case True
  then show ?thesis by (simp add: deleteBlock_def wp)
next
  case False
  have end': "wp (andThen (removeBlock env (fst e) tmp) (emit x)) (\<lambda>_. removed env H s) (\<lambda>_ u. chainOf u = chainOf s) t"
    if t: "chainOf t = chainOf s" for t x
    unfolding wp_andThen
  proof (rule wp_mono[OF remove_atomic[OF cf h t, of tmp]], goal_cases)
    case (2 a u)
    have "removed env H s (u\<lparr>outputs := outputs u @ [x]\<rparr>)" using 2 by (simp add: removed_def nodeHist_def keeps_def finalizedPart_def)
    then show ?case by (simp add: emit_def wp)
  qed (use False in auto)
  show ?thesis unfolding deleteBlock_def
  proof (subst wp_bind, subst wp_gets, subst if_not_P[OF False], rule wp_quiet_bind, goal_cases)
    case 1
    show ?case unfolding headerAtHeight_def by (intro quiet_intros)
  next
    case (2 r t1)
    then show ?case
    proof (intro wp_quiet_then[of "tryFinally _ _"] wp_quiet_then[of newStateStore], goal_cases)
      case 1
      then show ?case by (intro quiet_intros)
    next
      case (2 t2)
      then show ?case by (intro quiet_intros)
    qed (use end' in simp_all)
  qed simp
qed

lemma deleteBlock_good:
  fixes env :: "'a consensusEnv" and s :: "'a node"
  assumes cf: "collisionFree env" and inv: "nodeInv env s" and b: "chainLast s = Some b"
  shows "wp (deleteBlock env b tmp) (\<lambda>_. goodPost env s) (\<lambda>_. goodPost env s) s"
proof -
  obtain H0 where "nodeHist env H0 s" using inv by (auto simp: nodeInv_def)
  then obtain e H where h: "nodeHist env (e # H) s" by (cases H0) (auto simp: nodeHist_def)
  then have "b = fst e" using b by (simp add: nodeHist_def)
  moreover have "goodPost env s u" if "removed env H s u" for u using that by (auto simp: removed_def goodPost_def nodeInv_def)
  ultimately show ?thesis using wp_mono[OF deleteBlock_atomic[OF cf h, of tmp], of "\<lambda>_. goodPost env s" "\<lambda>_. goodPost env s"] goodPost_same[OF inv]
    by simp
qed

lemma deleteLastBlock_good:
  fixes env :: "'a consensusEnv" and s :: "'a node"
  assumes "collisionFree env" "nodeInv env s"
  shows "wp (deleteLastBlock env tmp) (\<lambda>_. goodPost env s) (\<lambda>_. goodPost env s) s"
proof -
  obtain b where "chainLast s = Some b" using assms(2) by (auto simp: nodeInv_def nodeHist_def)
  then show ?thesis using deleteBlock_good[OF assms] goodPost_refl[OF assms(2)] by (simp add: deleteLastBlock_def wp lastBlock_def)
qed

section \<open>Steps of a node\<close>

text \<open>What the synchronizer may do to the chain: the operations of the block executor.\<close>

inductive executorStep :: "'app consensusEnv \<Rightarrow> 'app node \<Rightarrow> 'app node \<Rightarrow> bool" for env where
  execute: "freshBlock b \<Longrightarrow> executorStep env s (snd (executeValidated env b sk rm s))"
| delete: "executorStep env s (snd (deleteLastBlock env tmp s))"
| other: "chainOf t = chainOf s \<Longrightarrow> executorStep env s t"

definition syncOk :: "'app consensusEnv \<Rightarrow> bool" where
  "syncOk env = (\<forall>b peer s. (executorStep env)\<^sup>*\<^sup>* s (snd (ceSync env b peer s)))"

text \<open>Environments of one node at different times: only the configuration and the hash function are fixed.\<close>

definition agrees :: "'app consensusEnv \<Rightarrow> 'app consensusEnv \<Rightarrow> bool" where
  "agrees env env' = (ceBft env' = ceBft env \<and> ceHash env' = ceHash env)"

inductive nodeStep :: "'app consensusEnv \<Rightarrow> 'app node \<Rightarrow> 'app node \<Rightarrow> bool" for env where
  receive: "agrees env env' \<Longrightarrow> syncOk env' \<Longrightarrow> nodeStep env s (snd (onBlockReceive n env' data peer s))"
| own: "agrees env env' \<Longrightarrow> syncOk env' \<Longrightarrow> freshBlock b \<Longrightarrow> nodeStep env s (snd (executeOwn n env' b s))"
| executor: "agrees env env' \<Longrightarrow> executorStep env' s t \<Longrightarrow> nodeStep env s t"

inductive nodeReachable :: "'app consensusEnv \<Rightarrow> 'app node \<Rightarrow> bool" for env where
  genesis: "agrees env env' \<Longrightarrow> freshBlock g \<Longrightarrow> dbBlocks s = [] \<Longrightarrow> dbStores s = emptyStores \<Longrightarrow> initGenesis env' g s = (Inr (), t) \<Longrightarrow> nodeReachable env t"
| step: "nodeReachable env s \<Longrightarrow> nodeStep env s t \<Longrightarrow> nodeReachable env t"

lemma blockId_agrees: "agrees env env' \<Longrightarrow> blockId env' b = blockId env b"
  by (simp add: blockId_def agrees_def)

lemma histOk_agrees: "agrees env env' \<Longrightarrow> histOk env' H = histOk env H"
proof (induction env H rule: histOk.induct)
  case (3 env e f H)
  have "entryValid env' e = entryValid env e" "linked env' (fst e) (fst f) = linked env (fst e) (fst f)"
    using 3(2) by (simp_all add: entryValid_def linked_def blockId_agrees[OF 3(2)] agrees_def)
  then show ?case using 3 by simp
qed (simp_all add: entryValid_def agrees_def)

lemma nodeInv_agrees: "agrees env env' \<Longrightarrow> nodeInv env' s = nodeInv env s"
  by (simp add: nodeInv_def nodeHist_def histOk_agrees)

lemma goodPost_agrees: "agrees env env' \<Longrightarrow> goodPost env' s t = goodPost env s t"
  by (simp add: goodPost_def nodeInv_agrees)

lemma collisionFree_agrees: "agrees env env' \<Longrightarrow> collisionFree env' = collisionFree env"
  by (simp add: collisionFree_def blockId_agrees)

lemma wp_state: "wp c (\<lambda>_. R) (\<lambda>_. R) s \<Longrightarrow> R (snd (c s))"
  by (simp add: wp_def split: prod.splits sum.splits)

lemma state_wp: "R (snd (c s)) \<Longrightarrow> wp c (\<lambda>_. R) (\<lambda>_. R) s"
  by (cases "c s") (simp add: wp_def split: sum.split)

lemma executorStep_good:
  assumes "collisionFree env" "nodeInv env s" "executorStep env s t"
  shows "goodPost env s t"
  using assms(3)
proof cases
  case (execute b sk rm)
  then show ?thesis using wp_state[OF executeValidated_good[OF assms(2)]] by simp
next
  case (delete tmp)
  then show ?thesis using wp_state[OF deleteLastBlock_good[OF assms(1,2)]] by simp
next
  case other
  then show ?thesis using goodPost_same[OF assms(2)] by simp
qed

lemma executorSteps_good:
  assumes "(executorStep env)\<^sup>*\<^sup>* s t" "collisionFree env" "nodeInv env s"
  shows "goodPost env s t"
  using assms(1)
proof induction
  case base
  then show ?case using goodPost_refl[OF assms(3)] .
next
  case (step t u)
  then show ?case using executorStep_good[OF assms(2)] goodPost_trans by (metis goodPost_def)
qed

lemma wp_good_then:
  assumes "wp c (\<lambda>_. goodPost env s) (\<lambda>_. goodPost env s) t" "\<And>a u. goodPost env s u \<Longrightarrow> wp (f a) (\<lambda>_. goodPost env s) (\<lambda>_. goodPost env s) u"
  shows "wp (bind c f) (\<lambda>_. goodPost env s) (\<lambda>_. goodPost env s) t"
  unfolding wp_bind by (rule wp_mono[OF assms(1)]) (use assms(2) in auto)

lemma good_from:
  assumes "goodPost env s u" "\<And>s. nodeInv env s \<Longrightarrow> wp c (\<lambda>_. goodPost env s) (\<lambda>_. goodPost env s) s"
  shows "wp c (\<lambda>_. goodPost env s) (\<lambda>_. goodPost env s) u"
proof -
  have "nodeInv env u" using assms(1) by (simp add: goodPost_def)
  then show ?thesis by (rule wp_mono[OF assms(2)]) (use assms(1) goodPost_trans in blast)+
qed

lemma quiet_good: "quiet c \<Longrightarrow> goodPost env s u \<Longrightarrow> wp c (\<lambda>_. goodPost env s) (\<lambda>_. goodPost env s) u"
  by (rule wp_quiet_end) (auto simp: goodPost_def dest: goodPost_same[unfolded goodPost_def] intro: keeps_trans)


lemma quiet_proofs: "quiet (modify (\<lambda>s. s\<lparr>dbInclusionProofs := f s\<rparr>))"
  by (simp add: quiet_def modify_def chainOf_def)

lemma sync_good:
  fixes env :: "'a consensusEnv" and s :: "'a node"
  assumes cf: "collisionFree env" and ok: "syncOk env"
  shows "nodeInv env s \<Longrightarrow> wp (sync n env b peer) (\<lambda>_. goodPost env s) (\<lambda>_. goodPost env s) s"
proof (induction n arbitrary: s)
  case 0
  then show ?case using goodPost_refl by (simp add: wp)
next
  case (Suc n)
  have run: "goodPost env s (snd (ceSync env b peer s))"
    using executorSteps_good[OF _ cf Suc.prems] ok by (auto simp: syncOk_def)
  have again: "wp (sync n env b peer) (\<lambda>_. goodPost env s) (\<lambda>_. goodPost env s) t" if "goodPost env s t" for t
    by (rule good_from[OF that Suc.IH])
  have hd: "wp (case e of
         ApplyPenaltyAndRestartError p r \<Rightarrow> andThen (emit (ApplyPenaltyOnPeer peer 100)) (sync n env b peer)
       | RestartError r \<Rightarrow> sync n env b peer
       | AbortError r \<Rightarrow> ret ()
       | _ \<Rightarrow> throw e) (\<lambda>_. goodPost env s) (\<lambda>_. goodPost env s) t" if "goodPost env s t" for e t
  proof (cases e)
    case (ApplyPenaltyAndRestartError p r)
    then show ?thesis using that by (auto simp: andThen_def intro!: wp_good_then[OF quiet_good[OF quiet_emit]] again)
  qed (use that again in \<open>simp_all add: wp\<close>)
  show ?case using goodPost_refl[OF Suc.prems] wp_mono[OF state_wp[of "goodPost env s" "ceSync env b peer" s, OF run]] hd by (auto simp: wp)
qed

lemma executeReceived_good:
  fixes env :: "'a consensusEnv" and s :: "'a node"
  assumes cf: "collisionFree env" and ok: "syncOk env" and b: "freshBlock b" and inv: "nodeInv env s"
  shows "wp (executeReceived n env b peer) (\<lambda>_. goodPost env s) (\<lambda>_. goodPost env s) s"
proof -
  let ?G = "\<lambda>_. goodPost env s"
  obtain l where l: "chainLast s = Some l" "freshBlock l"
  proof -
    obtain H where h: "nodeHist env H s" using inv by (auto simp: nodeInv_def)
    then obtain e H' where "H = e # H'" by (cases H) (auto simp: nodeHist_def)
    then show thesis using that[of "fst e"] h histOk_entry[of env H e] by (auto simp: nodeHist_def entryValid_def)
  qed
  have val: "wp (tryCatch (liftE (validateBlock env b)) (\<lambda>e. throw (ApplyPenaltyError e))) ?G ?G t" if "goodPost env s t" for t
    by (rule quiet_good[OF _ that]) (intro quiet_intros)
  have exe: "wp (executeValidated env c sk rm) ?G ?G t" if "goodPost env s t" "freshBlock c" for t c sk rm
    by (rule good_from[OF that(1) executeValidated_good]) (use that(2) in auto)
  have proofs: "wp (saveInclusionProofs env b) ?G ?G t" if "goodPost env s t" for t
    unfolding saveInclusionProofs_def by (rule quiet_good[OF _ that]) (intro quiet_intros quiet_proofs)
  have tie: "wp (andThen (emit (EventForkDetected b))
         (andThen (tryCatch (liftE (validateBlock env b)) (\<lambda>e. throw (ApplyPenaltyError e)))
         (andThen (deleteBlock env l False)
         (tryCatch (executeValidated env b False False) (\<lambda>_. executeValidated env l True False))))) ?G ?G s"
  proof (rule wp_quiet_then[OF quiet_emit], rule wp_quiet_then, goal_cases)
    case (2 t u)
    then have u: "chainOf u = chainOf s" "nodeInv env u" "goodPost env s u" "chainLast u = Some l"
      using goodPost_same[OF inv, of u] l by (auto simp: goodPost_def chainOf_def)
    have "wp (deleteBlock env l False) ?G ?G u"
      by (rule wp_mono[OF deleteBlock_good[OF cf u(2,4)]]) (use u(3) goodPost_trans in blast)+
    then show ?case unfolding wp_andThen
      by (rule wp_mono) (auto simp: wp_tryCatch intro: wp_mono[OF exe[OF _ b]] exe[OF _ l(2)])
  qed (use goodPost_same[OF inv] in \<open>auto intro!: quiet_intros\<close>)
  have valid: "wp (andThen (tryCatch (liftE (validateBlock env b)) (\<lambda>e. throw (ApplyPenaltyError e)))
         (andThen (executeValidated env b False False)
         (bind (liftE (blockId env b)) (\<lambda>i.
          andThen (emit (ApplyNodeInfo (hHeight (bHeader b)) i (hMaxHeightPrevoted (bHeader b)) (hVersion (bHeader b))))
          (saveInclusionProofs env b))))) ?G ?G s"
    unfolding andThen_def
    by (intro wp_good_then[OF val] wp_good_then[OF exe] wp_good_then[OF quiet_good[OF quiet_liftE]] wp_good_then[OF quiet_good[OF quiet_emit]] proofs)
      (use b goodPost_refl[OF inv] in auto)
  have emitted: "wp (emit x) ?G ?G s" for x using quiet_good[OF quiet_emit goodPost_refl[OF inv]] .
  have switch: "wp (andThen (emit x) (sync n env b peer)) ?G ?G s" for x unfolding andThen_def
    by (rule wp_good_then[OF emitted]) (rule good_from[OF _ sync_good[OF cf ok]])
  show ?thesis unfolding executeReceived_def
    using l(1) goodPost_refl[OF inv] tie valid emitted switch
    by (simp add: wp_bind wp_gets wp_if wp_ret lastBlock_def wp_liftE split: sum.split forkStatus.split)
qed

lemma onBlockReceive_good:
  fixes env :: "'a consensusEnv" and s :: "'a node"
  assumes cf: "collisionFree env" and ok: "syncOk env" and inv: "nodeInv env s"
  shows "wp (onBlockReceive n env data peer) (\<lambda>_. goodPost env s) (\<lambda>_. goodPost env s) s"
proof -
  let ?G = "\<lambda>_. goodPost env s"
  have penal: "wp (andThen (emit x) (throw e)) ?G ?G t" if "goodPost env s t" for x e t
    by (rule quiet_good[OF _ that]) (intro quiet_intros)
  have blk: "wp (andThen (emit (EventNetworkBlockNew b)) (tryCatch (executeReceived n env b peer) (\<lambda>e. case e of
       ApplyPenaltyError _ \<Rightarrow> andThen (emit (ApplyPenaltyOnPeer peer 100)) (throw e) | _ \<Rightarrow> throw e))) ?G ?G s" if b: "freshBlock b" for b
    unfolding andThen_def[of "emit (EventNetworkBlockNew b)"]
  proof (rule wp_good_then[OF quiet_good[OF quiet_emit goodPost_refl[OF inv]]], subst wp_tryCatch, goal_cases)
    case (1 a u)
    have "wp (executeReceived n env b peer) ?G ?G u" by (rule good_from[OF 1 executeReceived_good[OF cf ok b]])
    then show ?case by (rule wp_mono) (auto simp: wp_throw penal split: err.split)
  qed
  show ?thesis unfolding onBlockReceive_def
    using blk decoded_fresh quiet_good[OF quiet_emit goodPost_refl[OF inv]] penal[OF goodPost_refl[OF inv]] goodPost_refl[OF inv]
    by (auto simp: wp_bind wp_gets wp_if wp_ret split: option.split sum.split)
qed

lemma executeOwn_good:
  fixes env :: "'a consensusEnv" and s :: "'a node"
  assumes "collisionFree env" "syncOk env" "freshBlock b" "nodeInv env s"
  shows "wp (executeOwn n env b) (\<lambda>_. goodPost env s) (\<lambda>_. goodPost env s) s"
  unfolding executeOwn_def wp_tryCatch
  by (rule wp_mono[OF executeReceived_good[OF assms]]) (auto intro: quiet_good[OF quiet_viaAbi])

lemma nodeStep_good:
  assumes cf: "collisionFree env" and inv: "nodeInv env s" and st: "nodeStep env s t"
  shows "goodPost env s t"
  using st
proof cases
  case (receive env' n data peer)
  then have "goodPost env' s t"
    using wp_state[OF onBlockReceive_good[of env' s]] cf inv by (simp add: collisionFree_agrees nodeInv_agrees)
  then show ?thesis using goodPost_agrees[OF receive(2)] by simp
next
  case (own env' b n)
  then have "goodPost env' s t"
    using wp_state[OF executeOwn_good[of env' b s]] cf inv by (simp add: collisionFree_agrees nodeInv_agrees)
  then show ?thesis using goodPost_agrees[OF own(2)] by simp
next
  case (executor env')
  then have "goodPost env' s t"
    using executorStep_good[of env' s t] cf inv by (simp add: collisionFree_agrees nodeInv_agrees)
  then show ?thesis using goodPost_agrees[OF executor(1)] by simp
qed


section \<open>The genesis block\<close>

lemma wp_finally_still:
  assumes d: "still d" and c: "wp c (\<lambda>_. Q) (\<lambda>_ _. True) s" and keep: "\<And>t u. Q t \<Longrightarrow> chainOf u = chainOf t \<Longrightarrow> storesOf u = storesOf t \<Longrightarrow> Q u"
  shows "wp (tryFinally c d) (\<lambda>_. Q) (\<lambda>_ _. True) s"
proof -
  obtain r t where rt: "c s = (r, t)" by fastforce
  obtain x u where xu: "d t = (x, u)" by fastforce
  have "chainOf u = chainOf t" "storesOf u = storesOf t" using d xu unfolding still_def by (metis snd_conv)+
  then show ?thesis using c keep[of t u] rt xu by (auto simp: tryFinally_def wp_def split: sum.splits)
qed

lemma genesis_votes:
  fixes s :: "'a node"
  assumes b: "freshBlock g" and s: "storesOf s = emptyStores"
  shows "wp (bftInitGenesisState cfg (bHeader g)) (\<lambda>_ t. chainOf t = chainOf s \<and> (\<exists>v. bftInv cfg t v \<and> nextHeightOf v = heightOf g + 1)) (\<lambda>_ _. True) s"
proof -
  let ?v = "\<lparr>maxHeightPrevoted = heightOf g, maxHeightPrecommitted = heightOf g, maxHeightCertified = heightOf g, blockBFTInfos = [], activeValidatorsVoteInfo = []\<rparr>"
  have val: "votesValid ?v" using b by (simp add: votesValid_def freshBlock_def headerOk_def isUInt32_def)
  have "bftInv cfg (votesStore_update (kvset EMPTY_KEY bs) s) ?v \<and> nextHeightOf ?v = heightOf g + 1" if bs: "enc (votesSchema (bftLib cfg)) ?v = Inr bs" for bs
  proof -
    have "votesStore s = []" "paramsStore s = []" using s by (simp_all add: storesOf_def emptyStores_def)
    moreover from this have "getVotes cfg (votesStore_update (kvset EMPTY_KEY bs) s) = (Inr ?v, votesStore_update (kvset EMPTY_KEY bs) s)"
      using votes_sch.dec_enc[OF val bs] by (simp add: getVotes_def storeGet_def bind_def gets_def liftE_def)
    ultimately show ?thesis using val
      by (simp add: bftInv_def keysOk_def goodStore_def countInv_def consec_def heightsInv_def nextHeightOf_def)
  qed
  then show ?thesis by (auto simp: bftInitGenesisState_def setVotes_def storeSet_def wp chainOf_def split: sum.split)
qed

lemma genesis_engine:
  fixes env :: "'a consensusEnv" and s :: "'a node"
  assumes b: "freshBlock g" and s: "storesOf s = emptyStores"
  shows "wp (executeGenesisBlock env g) (\<lambda>_ t. chainOf t = chainOf s \<and> (\<exists>v. bftInv (ceBft env) t v \<and> nextHeightOf v = heightOf g + 1)) (\<lambda>_ _. True) s"
  (is "wp _ (\<lambda>_. ?Q) _ _")
proof -
  have keep: "?Q u" if "?Q t" "chainOf u = chainOf t" "storesOf u = storesOf t" for t u :: "'a node"
    using that bftInv_same[OF that(3)] by auto
  have upd: "wp (setBFTParameters (ceBft env) a c vs) (\<lambda>_. ?Q) (\<lambda>_ _. True) t" if q: "?Q t" for a c vs and t :: "'a node"
  proof -
    obtain v where v: "bftInv (ceBft env) t v" "nextHeightOf v = heightOf g + 1" using q by blast
    show ?thesis
      by (rule wp_mono[OF wp_conj[OF params_step[OF v(1), of a c vs] quiet_wp[OF quiet_setBFTParameters]]])
        (use v(2) q in \<open>auto intro!: exI[of _ "v\<lparr>activeValidatorsVoteInfo := _\<rparr>"]\<close>)
  qed
  show ?thesis unfolding executeGenesisBlock_def
  proof (rule wp_finally_still[OF still_basic(5) _ keep], rule wp_pure_still[OF still_basic(5)], goal_cases)
    case (1 contextID t)
    have g: "wp (bftInitGenesisState (ceBft env) (bHeader g)) (\<lambda>_. ?Q) (\<lambda>_ _. True) t" using genesis_votes[OF b, of t "ceBft env"] 1 s by simp
    show ?case
    proof (cases "hStateRoot (bHeader g)")
      case (Some r)
      show ?thesis unfolding Some option.case
      proof (subst wp_andThen, rule wp_mono[OF g], rule wp_pure_still[OF still_basic(5)], subst wp_andThen, rule wp_mono[OF upd], goal_cases)
        case (2 u x upd t1 w t2)
        then have q: "?Q t2" by simp
        show ?case
        proof (rule wp_mono[OF still_wp], goal_cases)
          case (2 x y)
          then show ?case using keep[OF q] by simp
        qed (intro still_intros, simp)
      next
        case (1 u x upd t1)
        then show ?case using keep[of x t1] by simp
      qed simp_all
    qed (simp add: wp)
  qed
qed

lemma initGenesis_inv:
  fixes env :: "'a consensusEnv" and s :: "'a node"
  assumes b: "freshBlock g" and s: "dbBlocks s = []" "dbStores s = emptyStores"
  shows "wp (initGenesis env g) (\<lambda>_. nodeInv env) (\<lambda>_ _. True) s"
proof -
  let ?Q = "\<lambda>t. chainOf t = chainOf s \<and> (\<exists>v. bftInv (ceBft env) t v \<and> nextHeightOf v = heightOf g + 1)"
  have keep: "?Q u" if "?Q t" "chainOf u = chainOf t" "storesOf u = storesOf t" for t u :: "'a node"
    using that bftInv_same[OF that(3)] by auto
  have save: "wp (saveBlock g (heightOf g) False) (\<lambda>_. nodeInv env) (\<lambda>_ _. True) t" if "?Q t" for t
  proof -
    have "entryValid env (g, storesOf t)" using that b bftInv_storesOf[of "ceBft env" t] by (auto simp: entryValid_def)
    moreover have "dbBlocks t = []" using that s by (simp add: chainOf_def)
    ultimately show ?thesis by (auto simp: saveBlock_def wp nodeInv_def nodeHist_def diffsOk_def storesOf_def intro!: exI[of _ "[(g, storesOf t)]"])
  qed
  have tail: "wp (bind (getBFTParameters (ceLib env) (hHeight (bHeader g) + 1)) (\<lambda>p.
      if hValidatorsHash (bHeader g) \<noteq> Some (validatorsHash p) then throw (Error ''Genesis block validators hash is invalid'')
      else andThen (verifyValidatorsHash env g) (andThen (verifyEventRoot env g evs) (saveBlock g (hHeight (bHeader g)) False))))
      (\<lambda>_. nodeInv env) (\<lambda>_ _. True) t" if q: "?Q t" for t evs
  proof (rule wp_pure_still[OF still_getBFTParameters], subst wp_if, goal_cases)
    case (1 p u)
    have "wp (andThen (verifyValidatorsHash env g) (andThen (verifyEventRoot env g evs) (saveBlock g (hHeight (bHeader g)) False))) (\<lambda>_. nodeInv env) (\<lambda>_ _. True) u"
    proof (rule wp_still_then[OF _ wp_still_then[OF _ save]], goal_cases)
      case 1
      show ?case unfolding verifyValidatorsHash_def by (intro still_intros still_getBFTParameters)
    next
      case 2
      show ?case unfolding verifyEventRoot_def by (intro still_intros)
    next
      case (3 v w)
      then show ?case using keep[OF q, of w] 1 by simp
    qed simp_all
    then show ?case by (simp add: wp_throw)
  qed
  have "wp newStateStore (\<lambda>_ t. chainOf t = chainOf s \<and> storesOf t = emptyStores) (\<lambda>_ _. True) s"
    using s by (auto simp: newStateStore_def wp chainOf_def storesOf_def emptyStores_def)
  then show ?thesis unfolding initGenesis_def wp_andThen[of newStateStore]
  proof (rule wp_mono, goal_cases)
    case (1 u t)
    show ?case
    proof (rule wp_still_then[OF still_basic(3)], subst wp_bind, goal_cases)
      case (1 w)
      then have w: "chainOf w = chainOf s" "storesOf w = emptyStores" using \<open>chainOf t = chainOf s \<and> storesOf t = emptyStores\<close> by simp_all
      show ?case by (rule wp_mono[OF genesis_engine[OF b w(2)]]) (use tail w(1) in simp_all)
    qed simp
  qed simp
qed

lemma reachable_nodeInv:
  assumes "nodeReachable env s" "collisionFree env"
  shows "nodeInv env s"
  using assms(1)
proof induction
  case (genesis env' g s t)
  have "nodeInv env' t" using wp_success[OF initGenesis_inv[OF genesis(2-4), of env'] genesis(5)] .
  then show ?case using nodeInv_agrees[OF genesis(1)] by simp
next
  case (step s t)
  then show ?case using nodeStep_good[OF assms(2)] by (simp add: goodPost_def)
qed

end
