(* ===== verification/AbiHandler.thy ===== *)
theory AbiHandler
  imports StateMachine ConsensusProps
begin

text \<open>
  The application side of the ABI (\<open>framework/src/abi_handler/abi_handler.ts\<close>): one execution
  context at a time, opened by \<open>initStateMachine\<close> and dropped by \<open>clear\<close>; every other
  call runs the state machine on the stores of the open context.

  The state database is native code and a parameter (\<open>appEnv\<close>): new read-writers, the
  current root, commit, revert, finalize and proofs. The asset hooks of the block generator
  (\<open>insertAssets\<close>), metadata and queries are not part of the model, and the genesis state
  is not cached.
\<close>

section \<open>State\<close>

record 'st executionContext =
  ecId :: bytes
  ecHeader :: blockHeader
  ecState :: 'st
  ecStore :: contextStore

record ('st, 'db) application =
  appContext :: "'st executionContext option"
  appDB :: 'db

record ('st, 'db) appEnv =
  aeLib :: jsLib
  aeHash :: "bytes \<Rightarrow> bytes"
  aeModules :: "'st smModule list"
  aeRW :: "'st readWriter"
  aeGenesis :: block
  newReadWriter :: "'db \<Rightarrow> 'st"
  currentRoot :: "'db \<Rightarrow> bytes"
  dbCommit :: "'st \<Rightarrow> int \<Rightarrow> bytes \<Rightarrow> bool \<Rightarrow> bytes \<Rightarrow> ('db, bytes) m"
  dbRevert :: "bytes \<Rightarrow> int \<Rightarrow> ('db, bytes) m"
  dbFinalize :: "int \<Rightarrow> ('db, unit) m"
  dbProve :: "bytes list \<Rightarrow> bytes \<Rightarrow> 'db \<Rightarrow> err + bytes"

text \<open>A call of the state database.\<close>

definition onDB :: "('db, 'a) m \<Rightarrow> (('st, 'db) application, 'a) m" where
  "onDB c s = (case c (appDB s) of (r, d) \<Rightarrow> (r, s\<lparr>appDB := d\<rparr>))"

text \<open>The guard of the calls that need the open context.\<close>

definition checkContext :: "bytes \<Rightarrow> (('st, 'db) application, 'st executionContext) m" where
  "checkContext contextID = bind (gets appContext) (\<lambda>c.
     case c of
       None \<Rightarrow> throw (Error ''Context is not initialized or different.'')
     | Some ec \<Rightarrow> if ecId ec \<noteq> contextID then throw (Error ''Context is not initialized or different.'') else ret ec)"

text \<open>
  Run a computation of the state machine on the stores of a context with a fresh event queue;
  what it wrote stays in the context, also when it throws.
\<close>

definition sctxOf :: "int \<Rightarrow> 'st executionContext \<Rightarrow> 'st sctx" where
  "sctxOf height ec = \<lparr>cHeight = height, cTopics = [], cEvents = [], cStore = ecStore ec, sState = ecState ec, sNext = None\<rparr>"

definition inContext :: "int \<Rightarrow> 'st executionContext \<Rightarrow> ('st sctx, 'a) m \<Rightarrow> (('st, 'db) application, 'a \<times> event list \<times> nextValidators) m" where
  "inContext height ec c s = (case c (sctxOf height ec) of (r, t) \<Rightarrow>
     (case r of Inl e \<Rightarrow> Inl e | Inr a \<Rightarrow> Inr (a, getEvents (cEvents t), nextValidatorsOf t),
      s\<lparr>appContext := Some (ec\<lparr>ecState := sState t, ecStore := cStore t\<rparr>)\<rparr>))"

definition updateOf :: "event list \<Rightarrow> nextValidators \<Rightarrow> consensusUpdate" where
  "updateOf evs nv = \<lparr>cuEvents = evs, cuPreCommitThreshold = nvPrecommitThreshold nv, cuCertificateThreshold = nvCertificateThreshold nv,
     cuNextValidators = nvValidators nv\<rparr>"

section \<open>Calls\<close>

definition ahInitStateMachine :: "('st, 'db) appEnv \<Rightarrow> blockHeader \<Rightarrow> (('st, 'db) application, bytes) m" where
  "ahInitStateMachine ae header =
     bind (gets appContext) (\<lambda>c.
     if c \<noteq> None then throw (Error ''Execution context is already initialized'')
     else bind (liftE (headerGetBytes (aeLib ae) header)) (\<lambda>bs. let i = aeHash ae bs in
     andThen (modify (\<lambda>s. s\<lparr>appContext := Some \<lparr>ecId = i, ecHeader = header, ecState = newReadWriter ae (appDB s), ecStore = Map.empty\<rparr>\<rparr>))
       (ret i)))"

text \<open>The context of the genesis block has a context store of its own.\<close>

definition ahInitGenesisState :: "('st, 'db) appEnv \<Rightarrow> bytes \<Rightarrow> bytes \<Rightarrow> (('st, 'db) application, consensusUpdate) m" where
  "ahInitGenesisState ae contextID stateRoot =
     bind (checkContext contextID) (\<lambda>ec.
     let g = aeGenesis ae in
     tryFinally
       (bind (inContext (hHeight (bHeader g)) (ec\<lparr>ecStore := Map.empty\<rparr>) (smExecuteGenesisBlock (aeModules ae) (bHeader g) (bAssets g)))
          (\<lambda>(_, evs, nv). ret (updateOf evs nv)))
       (modify (\<lambda>s. s\<lparr>appContext := map_option (\<lambda>c. c\<lparr>ecStore := ecStore ec\<rparr>) (appContext s)\<rparr>)))"

definition ahVerifyAssets :: "('st, 'db) appEnv \<Rightarrow> bytes \<Rightarrow> blockAsset list \<Rightarrow> (('st, 'db) application, unit) m" where
  "ahVerifyAssets ae contextID assets =
     bind (checkContext contextID) (\<lambda>ec.
     andThen (inContext (hHeight (ecHeader ec)) ec (smVerifyAssets (aeModules ae) (ecHeader ec) assets)) (ret ()))"

definition ahBeforeTransactionsExecute :: "('st, 'db) appEnv \<Rightarrow> bytes \<Rightarrow> blockAsset list \<Rightarrow> (('st, 'db) application, event list) m" where
  "ahBeforeTransactionsExecute ae contextID assets =
     bind (checkContext contextID) (\<lambda>ec.
     bind (inContext (hHeight (ecHeader ec)) ec (smBeforeTransactionsExecute (aeModules ae) (ecHeader ec) assets)) (\<lambda>(_, evs, _). ret evs))"

definition ahAfterTransactionsExecute :: "('st, 'db) appEnv \<Rightarrow> bytes \<Rightarrow> blockAsset list \<Rightarrow> transaction list \<Rightarrow> (('st, 'db) application, consensusUpdate) m" where
  "ahAfterTransactionsExecute ae contextID assets txs =
     bind (checkContext contextID) (\<lambda>ec.
     bind (inContext (hHeight (ecHeader ec)) ec (smAfterExecuteBlock (aeModules ae) (ecHeader ec) assets txs)) (\<lambda>(_, evs, nv). ret (updateOf evs nv)))"

text \<open>Outside the open context a transaction is verified on a transient read-writer that is closed afterwards.\<close>

definition verifyResultOf :: "verifyStatus \<Rightarrow> verifyResult" where
  "verifyResultOf st = (case st of VerifyOK \<Rightarrow> VerifyOk | VerifyPENDING \<Rightarrow> VerifyPending | VerifyFAIL \<Rightarrow> VerifyInvalid)"

definition ahVerifyTransaction :: "('st, 'db) appEnv \<Rightarrow> bytes \<Rightarrow> transaction \<Rightarrow> blockHeader \<Rightarrow> (('st, 'db) application, verifyResult) m" where
  "ahVerifyTransaction ae contextID tx header =
     bind (gets id) (\<lambda>s.
     case appContext s of
       Some ec \<Rightarrow>
         if ecId ec = contextID
         then bind (inContext 0 ec (smVerifyTransaction (aeLib ae) (aeModules ae) (ecHeader ec) tx False)) (\<lambda>(r, _, _). ret (verifyResultOf (fst r)))
         else liftE (case smVerifyTransaction (aeLib ae) (aeModules ae) header tx False
             (sctxOf 0 \<lparr>ecId = contextID, ecHeader = header, ecState = newReadWriter ae (appDB s), ecStore = Map.empty\<rparr>) of
             (Inl e, _) \<Rightarrow> Inl e | (Inr r, _) \<Rightarrow> Inr (verifyResultOf (fst r)))
     | None \<Rightarrow> liftE (case smVerifyTransaction (aeLib ae) (aeModules ae) header tx False
             (sctxOf 0 \<lparr>ecId = contextID, ecHeader = header, ecState = newReadWriter ae (appDB s), ecStore = Map.empty\<rparr>) of
             (Inl e, _) \<Rightarrow> Inl e | (Inr r, _) \<Rightarrow> Inr (verifyResultOf (fst r))))"

definition executionResultOf :: "transactionExecutionResult \<Rightarrow> executionResult" where
  "executionResultOf r = (case r of ExecuteOK \<Rightarrow> ExecOk | ExecuteFAIL \<Rightarrow> ExecFail | ExecuteINVALID \<Rightarrow> ExecInvalid)"

text \<open>\<open>executeTransaction\<close> with \<open>dryRun: false\<close>.\<close>

definition ahExecuteTransaction :: "('st, 'db) appEnv \<Rightarrow> bytes \<Rightarrow> blockAsset list \<Rightarrow> blockHeader \<Rightarrow> transaction \<Rightarrow> (('st, 'db) application, executionResult \<times> event list) m" where
  "ahExecuteTransaction ae contextID assets header tx =
     bind (checkContext contextID) (\<lambda>ec.
     bind (inContext (hHeight (ecHeader ec)) ec (smExecuteTransaction (aeLib ae) (aeHash ae) (aeRW ae) (aeModules ae) (ecHeader ec) assets tx))
       (\<lambda>(r, evs, _). ret (executionResultOf r, evs)))"

text \<open>The roots are optional in the header; the calls read them as buffers.\<close>

definition ahCommit :: "('st, 'db) appEnv \<Rightarrow> bytes \<Rightarrow> bytes option \<Rightarrow> bytes option \<Rightarrow> (('st, 'db) application, unit) m" where
  "ahCommit ae contextID expectedStateRoot stateRoot =
     bind (checkContext contextID) (\<lambda>ec.
     bind (gets (\<lambda>s. currentRoot ae (appDB s))) (\<lambda>root.
     case (expectedStateRoot, stateRoot) of
       (Some expected, Some previous) \<Rightarrow>
         if expected = root then ret ()
         else andThen (onDB (dbCommit ae (ecState ec) (hHeight (ecHeader ec)) previous (expected \<noteq> []) expected)) (ret ())
     | _ \<Rightarrow> throw (Error ''TypeError'')))"

definition ahRevert :: "('st, 'db) appEnv \<Rightarrow> bytes \<Rightarrow> bytes option \<Rightarrow> bytes option \<Rightarrow> (('st, 'db) application, unit) m" where
  "ahRevert ae contextID expectedStateRoot stateRoot =
     bind (checkContext contextID) (\<lambda>ec.
     case stateRoot of
       None \<Rightarrow> throw (Error ''TypeError'')
     | Some root \<Rightarrow> andThen (onDB (dbRevert ae root (hHeight (ecHeader ec)))) (ret ()))"

definition ahClear :: "(('st, 'db) application, unit) m" where
  "ahClear = modify (\<lambda>s. s\<lparr>appContext := None\<rparr>)"

definition ahFinalize :: "('st, 'db) appEnv \<Rightarrow> int \<Rightarrow> (('st, 'db) application, unit) m" where
  "ahFinalize ae height = (if height = 0 then ret () else onDB (dbFinalize ae height))"

definition ahProve :: "('st, 'db) appEnv \<Rightarrow> bytes list \<Rightarrow> bytes option \<Rightarrow> (('st, 'db) application, bytes) m" where
  "ahProve ae keys stateRoot = (case stateRoot of
     None \<Rightarrow> throw (Error ''TypeError'')
   | Some root \<Rightarrow> bind (gets (\<lambda>s. dbProve ae keys root (appDB s))) liftE)"

definition abiHandler :: "('st, 'db) appEnv \<Rightarrow> (('st, 'db) application) abi" where
  "abiHandler ae = \<lparr>initStateMachine = ahInitStateMachine ae, abiVerifyAssets = ahVerifyAssets ae, abiInitGenesisState = ahInitGenesisState ae,
     beforeTransactionsExecute = ahBeforeTransactionsExecute ae, verifyTransaction = ahVerifyTransaction ae, executeTransaction = ahExecuteTransaction ae,
     afterTransactionsExecute = ahAfterTransactionsExecute ae, abiCommit = ahCommit ae, abiRevert = ahRevert ae, abiFinalize = ahFinalize ae,
     abiProve = ahProve ae, abiClear = ahClear\<rparr>"


section \<open>The execution context\<close>

lemma appState_verifyBlock: "appState (snd (verifyBlock env b s)) = appState s"
proof -
  have r: "reads (andThen (verifyTimestamp env b) (andThen (verifyBlockHeight b) (andThen (verifyPreviousBlockID env b)
     (andThen (verifyGeneratorAddress env b) (andThen (verifyBFTProperties env b) (andThen (verifyBlockSignature env b) (verifyAggregateCommit env b)))))))"
    unfolding andThen_def by (intro reads_bind reads_verify)
  show ?thesis using r unfolding verifyBlock_def reads_def
    by (subst andThen_def) (simp add: bind_def newStateStore_def modify_def)
qed

text \<open>While a context is open, no block can be executed, and the sender is blamed.\<close>

lemma open_context_rejects:
  fixes env :: "(('st, 'db) application) consensusEnv"
  assumes abi: "ceAbi env = abiHandler ae" and s: "appContext (appState s) \<noteq> None"
  shows "wp (executeValidated env b sk rm) (\<lambda>_ _. False) (\<lambda>e t. (\<exists>e'. e = ApplyPenaltyError e') \<and> chainOf t = chainOf s) s"
proof -
  obtain r t where t: "verifyBlock env b s = (r, t)" by fastforce
  have ch: "chainOf t = chainOf s" using quiet_verifyBlock[of env b] t unfolding quiet_def by (metis snd_conv)
  have a: "appContext (appState t) \<noteq> None" using appState_verifyBlock[of env b s] t s by simp
  have "wp (verifyAssets env b) (\<lambda>_ _. False) (\<lambda>_ u. chainOf u = chainOf s) t"
  proof -
    have "wp (viaAbi (initStateMachine (ceAbi env) (bHeader b))) (\<lambda>_ _. False) (\<lambda>_ u. u = t) t"
      using a by (simp add: abi abiHandler_def ahInitStateMachine_def viaAbi_def wp_def bind_def gets_def throw_def split: prod.split sum.split)
    then show ?thesis unfolding verifyAssets_def wp_tryCatch wp_bind
      by (rule wp_mono) (use ch in \<open>auto simp: wp abi abiHandler_def ahClear_def viaAbi_def wp_def modify_def chainOf_def\<close>)
  qed
  then have "wp (andThen (verifyBlock env b) (verifyAssets env b)) (\<lambda>_ _. False) (\<lambda>_ u. chainOf u = chainOf s) s"
    unfolding wp_andThen using t ch by (cases r) (simp_all add: wp_def)
  then show ?thesis unfolding executeValidated_def wp_bind wp_tryCatch by (rule wp_mono) (auto simp: wp)
qed

lemma wp_any: "(\<And>a t. wp (f a) Q (\<lambda>_ _. True) t) \<Longrightarrow> wp (bind c f) Q (\<lambda>_ _. True) s"
  unfolding wp_bind by (rule wp_mono[OF wp_True]) auto

lemma wp_any_then: "(\<And>t. wp d Q (\<lambda>_ _. True) t) \<Longrightarrow> wp (andThen c d) Q (\<lambda>_ _. True) s"
  unfolding andThen_def by (rule wp_any)

lemma closed_after_commit:
  fixes env :: "(('st, 'db) application) consensusEnv"
  assumes "ceAbi env = abiHandler ae"
  shows "wp (commitBlock env contextID b) (\<lambda>_ t. appContext (appState t) = None) (\<lambda>_ _. True) s"
  by (auto simp: assms commitBlock_def tryFinally_def wp_def abiHandler_def ahClear_def viaAbi_def modify_def split: prod.split sum.split)

lemma closed_after_success:
  fixes env :: "(('st, 'db) application) consensusEnv"
  assumes abi: "ceAbi env = abiHandler ae"
  shows "wp (executeValidated env b sk rm) (\<lambda>_ t. appContext (appState t) = None) (\<lambda>_ _. True) s"
proof -
  let ?Q = "\<lambda>_ t. appContext (appState t) = None"
  have tail: "wp (andThen (saveBlock b fin rm) (andThen (whenM c (andThen (viaAbi (abiFinalize (ceAbi env) fin)) (emit x))) (emit y))) ?Q (\<lambda>_ _. True) t"
    if "appContext (appState t) = None" for t fin c x y
    using that by (auto simp: wp saveBlock_def emit_def viaAbi_def wp_def abi abiHandler_def ahFinalize_def onDB_def ret_def split: prod.split sum.split)
  show ?thesis unfolding executeValidated_def Let_def
  proof (rule wp_any, rule wp_any_then, rule wp_any_then, rule wp_any, rule wp_any, rule wp_any, rule wp_any_then, rule wp_any_then, goal_cases)
    case (1 contextID t1 t2 t3 evs t4 heights t5 fin t6 t7 t8)
    show ?case unfolding wp_andThen[of "commitBlock _ _ _"] by (rule wp_mono[OF closed_after_commit[OF abi]]) (use tail in auto)
  qed
qed


end
