(* ===== verification/ConsensusTheorems.thy ===== *)
theory ConsensusTheorems
  imports ConsensusProps
begin

text \<open>
  The guarantees of block processing for every node that starts from a genesis block:
  finalized blocks stay, the chain is linked, a block is applied completely or not at all
  and deleting the last block undoes its execution. At the end, a node with one validator
  on which the guarantees are evaluated.
\<close>

section \<open>Guarantees\<close>

lemma nodeSteps_good:
  assumes "(nodeStep env)\<^sup>*\<^sup>* s t" "collisionFree env" "nodeInv env s"
  shows "goodPost env s t"
  using assms(1)
proof induction
  case base
  then show ?case using goodPost_refl[OF assms(3)] .
next
  case (step t u)
  then show ?case using nodeStep_good[OF assms(2)] goodPost_trans by (metis goodPost_def)
qed

text \<open>
  C1: Finality. Take any node reached from a genesis block by receiving blocks from peers,
  forging its own, and running the synchronizer. Whatever happens next, its finalized
  height never decreases and the blocks at or below the finalized height are never removed
  or replaced. The hypothesis is collision resistance of block identifiers.
\<close>

theorem finalized_never_reverted:
  assumes "collisionFree env" "nodeReachable env s" "(nodeStep env)\<^sup>*\<^sup>* s t"
  shows "finalizedHeight s \<le> finalizedHeight t \<and>
    filter (\<lambda>b. hHeight (bHeader b) \<le> finalizedHeight s) (dbBlocks t) = filter (\<lambda>b. hHeight (bHeader b) \<le> finalizedHeight s) (dbBlocks s)"
  using nodeSteps_good[OF assms(3,1) reachable_nodeInv[OF assms(2,1)]] by (simp add: goodPost_def keeps_def finalizedPart_def)

lemma histOk_linked: "histOk env H \<Longrightarrow> Suc i < length H \<Longrightarrow> linked env (fst (H ! i)) (fst (H ! Suc i))"
proof (induction env H arbitrary: i rule: histOk.induct)
  case (3 env e f H)
  then show ?case by (cases i) auto
qed simp_all

text \<open>
  C13: The chain of a reachable node is never empty, its head is the last block of the
  processor, every block refers to the identifier of its predecessor and is one higher, the
  finalized height lies between the genesis block and the tip, and the stored consensus
  state is a valid BFT state that waits for the block after the tip.
\<close>

theorem chain_linked:
  assumes "collisionFree env" "nodeReachable env s"
  shows "\<exists>b bs. dbBlocks s = b # bs \<and> chainLast s = Some b \<and> finalizedHeight s \<le> hHeight (bHeader b) \<and>
    hHeight (bHeader (last (b # bs))) \<le> finalizedHeight s \<and>
    (\<forall>i. Suc i < length (b # bs) \<longrightarrow> hHeight (bHeader ((b # bs) ! i)) = hHeight (bHeader ((b # bs) ! Suc i)) + 1 \<and>
       blockId env ((b # bs) ! Suc i) = Inr (hPreviousBlockID (bHeader ((b # bs) ! i)))) \<and>
    (\<exists>v. bftInv (ceBft env) (dbStores s) v \<and> nextHeightOf v = hHeight (bHeader b) + 1)"
proof -
  obtain H where h: "nodeHist env H s" using reachable_nodeInv[OF assms(2,1)] by (auto simp: nodeInv_def)
  then obtain e G where H: "H = e # G" by (cases H) (auto simp: nodeHist_def)
  have ho: "histOk env (e # G)" and d: "dbBlocks s = fst e # map fst G" using h H by (simp_all add: nodeHist_def)
  have "entryValid env e" using h H by (auto simp: nodeHist_def intro: histOk_entry)
  then have v: "\<exists>v. bftInv (ceBft env) (dbStores s) v \<and> nextHeightOf v = heightOf (fst e) + 1" using h H by (simp add: nodeHist_def entryValid_def)
  have "linked env ((fst e # map fst G) ! i) ((fst e # map fst G) ! Suc i)" if "Suc i < length (fst e # map fst G)" for i
    using histOk_linked[OF ho, of i] that nth_map[of i "e # G" fst] nth_map[of "Suc i" "e # G" fst] by simp
  then have l: "\<forall>i. Suc i < length (fst e # map fst G) \<longrightarrow> linked env ((fst e # map fst G) ! i) ((fst e # map fst G) ! Suc i)" by blast
  have "last (fst e # map fst G) = fst (last (e # G))" using last_map[of "e # G" fst] by simp
  then show ?thesis using d v l h H unfolding linked_def by (intro exI[of _ "fst e"] exI[of _ "map fst G"]) (simp add: nodeHist_def)
qed

text \<open>
  C15: Processing of a block is atomic. A block that a reachable node executes is either
  appended as a whole, one above the previous tip and linked to it, with no finalized height
  lost; or the processing fails. A failure leaves blocks, tip, consensus state, diffs and
  finalized height as they were, unless it came after the database write, when the block is
  fully stored.
\<close>

theorem block_import_atomic:
  assumes "collisionFree env" "nodeReachable env s" "freshBlock b" "executeValidated env b sk rm s = (r, t)"
  shows "(dbBlocks t = b # dbBlocks s \<and> chainLast t = Some b \<and> linked env b (hd (dbBlocks s)) \<and> finalizedHeight s \<le> finalizedHeight t \<and>
      finalizedHeight t \<le> hHeight (bHeader b)) \<or>
    (isl r \<and> chainOf t = chainOf s)"
proof -
  obtain H where h: "nodeHist env H s" using reachable_nodeInv[OF assms(2,1)] by (auto simp: nodeInv_def)
  then obtain e G where H: "H = e # G" by (cases H) (auto simp: nodeHist_def)
  have "added env H b s t \<or> (isl r \<and> chainOf t = chainOf s)"
    using executeValidated_atomic[OF h assms(3), of sk rm] assms(4) by (auto simp: wp_def atomic_def split: sum.splits)
  moreover have "dbBlocks t = b # dbBlocks s \<and> chainLast t = Some b \<and> linked env b (hd (dbBlocks s)) \<and> finalizedHeight s \<le> finalizedHeight t \<and>
      finalizedHeight t \<le> hHeight (bHeader b)" if a: "added env H b s t"
  proof -
    obtain st where st: "nodeHist env ((b, st) # H) t" "keeps s t" using a by (auto simp: added_def)
    have m: "dbBlocks s = map fst H" using h by (simp add: nodeHist_def)
    then have "hd (dbBlocks s) = fst e" using H by simp
    then show ?thesis using st H by (auto simp: nodeHist_def keeps_def m)
  qed
  ultimately show ?thesis by blast
qed



section \<open>A node with one validator\<close>

text \<open>
  An application that accepts everything, identifiers that are the encoded headers
  themselves, and a synchronizer that does nothing.
\<close>

definition demoValidator :: validator where
  "demoValidator = \<lparr>vAddress = replicate 20 7, vBftWeight = 1, vGeneratorKey = [], vBlsKey = [1]\<rparr>"

definition demoUpdate :: consensusUpdate where
  "demoUpdate = \<lparr>cuEvents = [], cuPreCommitThreshold = 1, cuCertificateThreshold = 1, cuNextValidators = [demoValidator]\<rparr>"

definition demoAbi :: "unit abi" where
  "demoAbi = \<lparr>initStateMachine = (\<lambda>_. ret []), abiVerifyAssets = (\<lambda>_ _. ret ()), abiInitGenesisState = (\<lambda>_ _. ret demoUpdate),
     beforeTransactionsExecute = (\<lambda>_ _. ret []), verifyTransaction = (\<lambda>_ _ _. ret VerifyOk), executeTransaction = (\<lambda>_ _ _ _. ret (ExecOk, [])),
     afterTransactionsExecute = (\<lambda>_ _ _. ret \<lparr>cuEvents = [], cuPreCommitThreshold = 0, cuCertificateThreshold = 0, cuNextValidators = []\<rparr>),
     abiCommit = (\<lambda>_ _ _. ret ()), abiRevert = (\<lambda>_ _ _. ret ()), abiFinalize = (\<lambda>_. ret ()), abiProve = (\<lambda>_ _. ret []), abiClear = ret ()\<rparr>"

definition demoEnv :: "unit consensusEnv" where
  "demoEnv = \<lparr>ceBft = \<lparr>bftLib = asciiLib, bftHash = (\<lambda>_. []), batchSize = 1, blockTime = 10\<rparr>, ceAbi = demoAbi, ceHash = (\<lambda>b. b),
     ceValidator = \<lparr>headerSchemaValid = (\<lambda>_. True), txSchemaValid = (\<lambda>_. True), assetSchemaValid = (\<lambda>_. True)\<rparr>, ceChainID = [0],
     ceVerifySignature = (\<lambda>_ _ _ _ _. True), ceEventRoot = (\<lambda>_. []), ceVerifyAggregateCommit = (\<lambda>_ _ _. Inr True), ceMaxRemovalHeight = (\<lambda>_. Inr 0),
     ceMaxTransactionsSize = 100, ceKeepInclusionProofs = 0, ceInclusionProofKeys = [], ceSync = (\<lambda>_ _. ret ()), ceNow = 1000\<rparr>"

definition demoGenesis :: block where
  "demoGenesis = \<lparr>bHeader = exHeader\<lparr>hVersion := 0, hTimestamp := 0, hHeight := 0, hPreviousBlockID := replicate 32 0, hGeneratorAddress := replicate 20 0, hSignature := Some []\<rparr>,
     bTransactions = [], bAssets = []\<rparr>"

definition demoBlock :: "block \<Rightarrow> block" where
  "demoBlock p = \<lparr>bHeader = exHeader\<lparr>hTimestamp := hTimestamp (bHeader p) + 10, hHeight := hHeight (bHeader p) + 1,
     hPreviousBlockID := (case blockId demoEnv p of Inr i \<Rightarrow> i | Inl _ \<Rightarrow> []), hGeneratorAddress := replicate 20 7,
     hMaxHeightGenerated := hHeight (bHeader p), hMaxHeightPrevoted := hHeight (bHeader p), hSignature := Some (replicate 64 0)\<rparr>, bTransactions = [], bAssets = []\<rparr>"

definition demoStart :: "unit node" where
  "demoStart = \<lparr>votesStore = [], paramsStore = [], dbStores = emptyStores, dbDiffs = [], dbBlocks = [], chainLast = None, dbTempBlocks = [],
     dbInclusionProofs = [], finalizedHeight = 0, stopped = False, syncActive = False, appState = (), outputs = []\<rparr>"

definition demo0 :: "unit node" where "demo0 = snd (initGenesis demoEnv demoGenesis demoStart)"
definition demo1 :: "unit node" where "demo1 = snd (executeOwn 0 demoEnv (demoBlock demoGenesis) demo0)"
definition demo2 :: "unit node" where "demo2 = snd (executeOwn 0 demoEnv (demoBlock (demoBlock demoGenesis)) demo1)"

lemma demo_collisionFree: "collisionFree demoEnv"
proof -
  have "hHeight (bHeader b) = hHeight (bHeader c)"
    if b: "freshBlock b" "blockId demoEnv b = Inr i" and c: "freshBlock c" "blockId demoEnv c = Inr i" for b c i
  proof -
    have e: "headerGetBytes asciiLib (bHeader x) = Inr i" if "freshBlock x" "blockId demoEnv x = Inr i" for x
      using that by (auto simp: freshBlock_def blockId_def demoEnv_def headerId_def headerGetBytes_def getBlockHeaderProps_def headerSignature_def rbind_Inr split: option.splits)
    have r: "headerFromBytes asciiLib i = Inr ((bHeader b)\<lparr>hId := None\<rparr>)" "headerFromBytes asciiLib i = Inr ((bHeader c)\<lparr>hId := None\<rparr>)"
      using header_roundtrip[OF _ e[OF b]] header_roundtrip[OF _ e[OF c]] b c by (auto simp: freshBlock_def)
    have "(bHeader b)\<lparr>hId := None\<rparr> = (bHeader c)\<lparr>hId := None\<rparr>" by (rule sum.inject(2)[THEN iffD1, OF trans[OF sym[OF r(1)] r(2)]])
    from arg_cong[OF this, of hHeight] show ?thesis by simp
  qed
  then show ?thesis unfolding collisionFree_def by blast
qed

lemma demo_fresh: "freshBlock demoGenesis" "freshBlock (demoBlock demoGenesis)" "freshBlock (demoBlock (demoBlock demoGenesis))"
  by code_simp+

lemma demo_genesis: "fst (initGenesis demoEnv demoGenesis demoStart) = Inr ()"
  by code_simp

definition demoFacts :: "unit node \<Rightarrow> int list \<times> int \<times> bool" where
  "demoFacts s = (map (\<lambda>b. hHeight (bHeader b)) (dbBlocks s), finalizedHeight s, stopped s)"

lemma demo2_facts: "demoFacts demo2 = ([2, 1, 0], 1, False)"
  by code_simp

definition demoDone :: "unit node" where "demoDone = snd (executeValidated demoEnv (demoBlock demoGenesis) False False demo0)"
definition demoUndone :: "unit node" where "demoUndone = snd (deleteLastBlock demoEnv False demoDone)"

definition demoRun :: "bool \<times> bool \<times> bool" where
  "demoRun = (case executeValidated demoEnv (demoBlock demoGenesis) False False demo0 of (r, t) \<Rightarrow>
     (r = Inr (), stopped t, fst (deleteLastBlock demoEnv False t) = Inr ()))"

lemma demo_run: "demoRun = (True, False, True)"
  by code_simp

lemma demo_done:
  "executeValidated demoEnv (demoBlock demoGenesis) False False demo0 = (Inr (), demoDone)" "stopped demoDone = False"
  "deleteLastBlock demoEnv False demoDone = (Inr (), demoUndone)"
proof -
  show e: "executeValidated demoEnv (demoBlock demoGenesis) False False demo0 = (Inr (), demoDone)"
    using demo_run unfolding demoRun_def demoDone_def by (cases "executeValidated demoEnv (demoBlock demoGenesis) False False demo0") simp
  show "stopped demoDone = False" "deleteLastBlock demoEnv False demoDone = (Inr (), demoUndone)"
    using demo_run prod.collapse[of "deleteLastBlock demoEnv False demoDone"] unfolding demoRun_def e demoUndone_def by simp_all
qed

lemma demo_steps: "nodeStep demoEnv demo0 demo1" "nodeStep demoEnv demo1 demo2"
proof -
  have "agrees demoEnv demoEnv" "syncOk demoEnv" by (simp_all add: agrees_def syncOk_def demoEnv_def ret_def)
  then show "nodeStep demoEnv demo0 demo1" "nodeStep demoEnv demo1 demo2" unfolding demo1_def demo2_def
    using nodeStep.own demo_fresh by metis+
qed

lemma demo_reachable: "nodeReachable demoEnv demo0" "nodeReachable demoEnv demo1" "nodeReachable demoEnv demo2"
proof -
  have "initGenesis demoEnv demoGenesis demoStart = (Inr (), demo0)" using demo_genesis unfolding demo0_def by (metis prod.collapse)
  then show 0: "nodeReachable demoEnv demo0"
    using nodeReachable.genesis[of demoEnv demoEnv demoGenesis demoStart demo0] demo_fresh(1) by (simp add: agrees_def demoStart_def)
  show 1: "nodeReachable demoEnv demo1" using nodeReachable.step[OF 0 demo_steps(1)] .
  show "nodeReachable demoEnv demo2" using nodeReachable.step[OF 1 demo_steps(2)] .
qed

theorem finalized_never_reverted_witness:
  "finalizedHeight demo1 \<le> finalizedHeight demo2 \<and> finalizedHeight demo2 = 1 \<and>
   filter (\<lambda>b. hHeight (bHeader b) \<le> finalizedHeight demo1) (dbBlocks demo2) = filter (\<lambda>b. hHeight (bHeader b) \<le> finalizedHeight demo1) (dbBlocks demo1)"
  using finalized_never_reverted[OF demo_collisionFree demo_reachable(2) r_into_rtranclp[of "nodeStep demoEnv", OF demo_steps(2)]] demo2_facts by (simp add: demoFacts_def)

theorem chain_linked_witness:
  "\<exists>b2 b1 b0. dbBlocks demo2 = [b2, b1, b0] \<and> hHeight (bHeader b2) = 2 \<and> blockId demoEnv b1 = Inr (hPreviousBlockID (bHeader b2)) \<and>
     blockId demoEnv b0 = Inr (hPreviousBlockID (bHeader b1))"
proof -
  obtain b bs where b: "dbBlocks demo2 = b # bs"
    "\<forall>i. Suc i < length (b # bs) \<longrightarrow> hHeight (bHeader ((b # bs) ! i)) = hHeight (bHeader ((b # bs) ! Suc i)) + 1 \<and>
       blockId demoEnv ((b # bs) ! Suc i) = Inr (hPreviousBlockID (bHeader ((b # bs) ! i)))"
    using chain_linked[OF demo_collisionFree demo_reachable(3)] by blast
  obtain b2 b1 b0 where d: "dbBlocks demo2 = [b2, b1, b0]" "hHeight (bHeader b2) = 2" using demo2_facts by (auto simp: demoFacts_def)
  then have "b # bs = [b2, b1, b0]" using b(1) by simp
  then show ?thesis using d b(2)[rule_format, of 0] b(2)[rule_format, of 1] by simp
qed

theorem block_import_atomic_witness:
  "dbBlocks demoDone = demoBlock demoGenesis # dbBlocks demo0 \<and> chainLast demoDone = Some (demoBlock demoGenesis)"
  using block_import_atomic[OF demo_collisionFree demo_reachable(1) demo_fresh(2) demo_done(1)] by simp


end
