(* ===== verification/AbiTheorems.thy ===== *)
theory AbiTheorems
  imports AbiHandler ConsensusTheorems
begin

text \<open>
  The discipline of the execution context, and a node whose application is the model of
  the ABI handler with one module: an execution that shows how a block with a wrong event root leaves the execution context open, so that
  the next valid block is rejected.
\<close>

text \<open>
  C32: One execution context at a time. After a node has executed a block successfully, the
  application has no open context. A node whose application still has an open context
  rejects every block, even a valid one, with an error that penalizes the peer who sent it,
  and keeps its chain.
\<close>

theorem context_discipline:
  fixes env :: "(('st, 'db) application) consensusEnv"
  assumes "ceAbi env = abiHandler ae" "executeValidated env b sk rm s = (r, t)"
  shows "(r = Inr () \<longrightarrow> appContext (appState t) = None) \<and>
    (appContext (appState s) \<noteq> None \<longrightarrow> (\<exists>e. r = Inl (ApplyPenaltyError e)) \<and> chainOf t = chainOf s)"
proof -
  have "r = Inr () \<Longrightarrow> appContext (appState t) = None" using closed_after_success[OF assms(1), of b sk rm s] assms(2) by (auto simp: wp_def)
  moreover have "appContext (appState s) \<noteq> None \<Longrightarrow> (\<exists>e. r = Inl (ApplyPenaltyError e)) \<and> chainOf t = chainOf s"
    using open_context_rejects[OF assms(1), of s b sk rm] assms(2) by (auto simp: wp_def split: sum.splits)
  ultimately show ?thesis by blast
qed

section \<open>A node with the ABI handler\<close>

definition genesisModule :: "unit smModule" where
  "genesisModule = \<lparr>modName = ''demo'', modCommands = [], modEvents = [], modStores = [], modVerifyTransaction = None,
     modBeforeCommandExecute = None, modAfterCommandExecute = None, modVerifyAssets = None, modBeforeTransactionsExecute = None,
     modAfterTransactionsExecute = None, modInitGenesisState = Some (\<lambda>_ _. setNextValidators 1 1 [demoValidator]), modFinalizeGenesisState = None\<rparr>"

definition demoApp :: "(unit, unit) appEnv" where
  "demoApp = \<lparr>aeLib = asciiLib, aeHash = (\<lambda>b. b), aeModules = [genesisModule], aeRW = \<lparr>rwSnapshot = (\<lambda>_. (0, ())), rwRestore = (\<lambda>_ _. ())\<rparr>,
     aeGenesis = demoGenesis, newReadWriter = (\<lambda>_. ()), currentRoot = (\<lambda>_. []), dbCommit = (\<lambda>_ _ _ _ r. ret r), dbRevert = (\<lambda>r _. ret r),
     dbFinalize = (\<lambda>_. ret ()), dbProve = (\<lambda>_ _ _. Inr [])\<rparr>"

definition appNodeEnv :: "((unit, unit) application) consensusEnv" where
  "appNodeEnv = \<lparr>ceBft = ceBft demoEnv, ceAbi = abiHandler demoApp, ceHash = ceHash demoEnv, ceValidator = ceValidator demoEnv, ceChainID = [0],
     ceVerifySignature = ceVerifySignature demoEnv, ceEventRoot = ceEventRoot demoEnv, ceVerifyAggregateCommit = ceVerifyAggregateCommit demoEnv,
     ceMaxRemovalHeight = ceMaxRemovalHeight demoEnv, ceMaxTransactionsSize = 100, ceKeepInclusionProofs = 0, ceInclusionProofKeys = [],
     ceSync = (\<lambda>_ _. ret ()), ceNow = 1000\<rparr>"

definition appStart :: "((unit, unit) application) node" where
  "appStart = \<lparr>votesStore = [], paramsStore = [], dbStores = emptyStores, dbDiffs = [], dbBlocks = [], chainLast = None, dbTempBlocks = [],
     dbInclusionProofs = [], finalizedHeight = 0, stopped = False, syncActive = False, appState = \<lparr>appContext = None, appDB = ()\<rparr>, outputs = []\<rparr>"

definition goodBlock :: block where "goodBlock = demoBlock demoGenesis"

definition badBlock :: block where
  "badBlock = goodBlock\<lparr>bHeader := (bHeader goodBlock)\<lparr>hEventRoot := Some [1]\<rparr>\<rparr>"

definition app0 :: "((unit, unit) application) node" where "app0 = snd (initGenesis appNodeEnv demoGenesis appStart)"
definition appBad :: "((unit, unit) application) node" where "appBad = snd (executeReceived 0 appNodeEnv badBlock ''peer1'' app0)"

section \<open>An open context\<close>



lemma bad_leaks: "(appContext (appState appBad) \<noteq> None) = True"
  by code_simp


theorem context_discipline_witness:
  "\<exists>e t. executeValidated appNodeEnv goodBlock False False appBad = (Inl (ApplyPenaltyError e), t) \<and> chainOf t = chainOf appBad"
proof -
  obtain r t where t: "executeValidated appNodeEnv goodBlock False False appBad = (r, t)" by (rule prod.exhaust)
  have "ceAbi appNodeEnv = abiHandler demoApp" by (simp add: appNodeEnv_def)
  from context_discipline[OF this t] show ?thesis using bad_leaks t by auto
qed


end
