(* ===== verification/MinHeap.thy ===== *)
theory MinHeap
  imports Prelude "HOL-Library.Multiset"
begin

text \<open>
  The binary heaps of \<open>elements/utils/src/data_structures\<close>: \<open>min_heap.ts\<close> and
  \<open>max_heap.ts\<close>, which overrides the two sift operations with the comparisons reversed. Here the
  operations take the strict order \<open>lt\<close> of the keys: \<open><\<close> for the first and \<open>>\<close> for
  the second. The nodes are the array \<open>_nodes\<close>; \<open>moveUp\<close> and \<open>moveDown\<close> are the
  loops with the hole that moves through the array.

  The contract is the locale \<open>priority_queue\<close>: a multiset of nodes of which the one with the
  first key is taken out. Both heaps are interpretations of it.
\<close>

type_synonym 'v hnode = "int \<times> 'v"

section \<open>Operations\<close>

definition parentIndex :: "nat \<Rightarrow> nat" where "parentIndex i = (i - 1) div 2"
definition leftChildIndex :: "nat \<Rightarrow> nat" where "leftChildIndex i = i * 2 + 1"
definition rightChildIndex :: "nat \<Rightarrow> nat" where "rightChildIndex i = i * 2 + 2"

function moveUpLoop :: "(int \<Rightarrow> int \<Rightarrow> bool) \<Rightarrow> 'v hnode list \<Rightarrow> nat \<Rightarrow> 'v hnode \<Rightarrow> 'v hnode list" where
  "moveUpLoop lt nodes index node =
     (if index > 0 \<and> lt (fst node) (fst (nodes ! parentIndex index))
      then moveUpLoop lt (nodes[index := nodes ! parentIndex index]) (parentIndex index) node
      else nodes[index := node])"
  by pat_completeness auto
termination by (relation "measure (\<lambda>(_, _, i, _). i)") (auto simp: parentIndex_def)

definition moveUp :: "(int \<Rightarrow> int \<Rightarrow> bool) \<Rightarrow> 'v hnode list \<Rightarrow> nat \<Rightarrow> 'v hnode list" where
  "moveUp lt nodes index = moveUpLoop lt nodes index (nodes ! index)"

definition nextPath :: "(int \<Rightarrow> int \<Rightarrow> bool) \<Rightarrow> 'v hnode list \<Rightarrow> nat \<Rightarrow> nat" where
  "nextPath lt nodes index =
     (if rightChildIndex index < length nodes \<and> lt (fst (nodes ! rightChildIndex index)) (fst (nodes ! leftChildIndex index))
      then rightChildIndex index else leftChildIndex index)"

lemma nextPath_cases: "nextPath lt nodes i = leftChildIndex i \<or> nextPath lt nodes i = rightChildIndex i \<and> rightChildIndex i < length nodes"
  by (simp add: nextPath_def)

lemma nextPath_bounds: "i < length nodes div 2 \<Longrightarrow> i < nextPath lt nodes i \<and> nextPath lt nodes i < length nodes"
  using nextPath_cases[of lt nodes i] by (auto simp: leftChildIndex_def rightChildIndex_def)

function moveDownLoop :: "(int \<Rightarrow> int \<Rightarrow> bool) \<Rightarrow> 'v hnode list \<Rightarrow> nat \<Rightarrow> 'v hnode \<Rightarrow> 'v hnode list" where
  "moveDownLoop lt nodes index node =
     (if index < length nodes div 2 then
        if lt (fst node) (fst (nodes ! nextPath lt nodes index)) then nodes[index := node]
        else moveDownLoop lt (nodes[index := nodes ! nextPath lt nodes index]) (nextPath lt nodes index) node
      else nodes[index := node])"
  by pat_completeness auto
termination
proof (relation "measure (\<lambda>(_, nodes, i, _). length nodes - i)", goal_cases)
  case (2 lt nodes index node)
  then show ?case using nextPath_bounds[of index nodes lt] by (simp add: diff_less_mono2)
qed simp

definition moveDown :: "(int \<Rightarrow> int \<Rightarrow> bool) \<Rightarrow> 'v hnode list \<Rightarrow> nat \<Rightarrow> 'v hnode list" where
  "moveDown lt nodes index = moveDownLoop lt nodes index (nodes ! index)"

declare moveUpLoop.simps [simp del] moveDownLoop.simps [simp del]

definition heapPush :: "(int \<Rightarrow> int \<Rightarrow> bool) \<Rightarrow> int \<Rightarrow> 'v \<Rightarrow> 'v hnode list \<Rightarrow> 'v hnode list" where
  "heapPush lt key v nodes = (let nodes = nodes @ [(key, v)] in moveUp lt nodes (length nodes - 1))"

definition heapPop :: "(int \<Rightarrow> int \<Rightarrow> bool) \<Rightarrow> 'v hnode list \<Rightarrow> 'v hnode option \<times> 'v hnode list" where
  "heapPop lt nodes =
     (if length nodes \<le> 0 then (None, nodes)
      else if length nodes = 1 then (Some (nodes ! 0), [])
      else (Some (nodes ! 0), moveDown lt ((butlast nodes)[0 := last nodes]) 0))"

definition heapPeek :: "'v hnode list \<Rightarrow> 'v hnode option" where
  "heapPeek nodes = (if length nodes \<le> 0 then None else Some (nodes ! 0))"

definition heapKeys :: "'v hnode list \<Rightarrow> int list" where
  "heapKeys nodes = map fst nodes"

definition heapValues :: "'v hnode list \<Rightarrow> 'v list" where
  "heapValues nodes = map snd nodes"

primrec pushAll :: "(int \<Rightarrow> int \<Rightarrow> bool) \<Rightarrow> 'v hnode list \<Rightarrow> 'v hnode list \<Rightarrow> 'v hnode list" where
  "pushAll lt [] nodes = nodes"
| "pushAll lt (n # ns) nodes = pushAll lt ns (heapPush lt (fst n) (snd n) nodes)"

definition insertAllFromHeap :: "(int \<Rightarrow> int \<Rightarrow> bool) \<Rightarrow> 'v hnode list \<Rightarrow> 'v hnode list \<Rightarrow> 'v hnode list" where
  "insertAllFromHeap lt heap nodes = (if length nodes \<le> 0 then nodes @ heap else pushAll lt heap nodes)"

definition heapClone :: "(int \<Rightarrow> int \<Rightarrow> bool) \<Rightarrow> 'v hnode list \<Rightarrow> 'v hnode list" where
  "heapClone lt heap = insertAllFromHeap lt heap []"

section \<open>The order of the array\<close>

definition heapOk :: "(int \<Rightarrow> int \<Rightarrow> bool) \<Rightarrow> 'v hnode list \<Rightarrow> bool" where
  "heapOk lt nodes = (\<forall>j. 0 < j \<longrightarrow> j < length nodes \<longrightarrow> \<not> lt (fst (nodes ! j)) (fst (nodes ! parentIndex j)))"

lemma parent_less: "0 < j \<Longrightarrow> parentIndex j < j"
  by (simp add: parentIndex_def)

lemma parent_child: "0 < j \<Longrightarrow> parentIndex j = i \<longleftrightarrow> j = leftChildIndex i \<or> j = rightChildIndex i"
  by (auto simp: parentIndex_def leftChildIndex_def rightChildIndex_def)

text \<open>A hole at \<open>i\<close> that holds \<open>x\<close> exchanged with position \<open>j\<close>.\<close>

lemma hole_move: "i < length xs \<Longrightarrow> j < length xs \<Longrightarrow> i \<noteq> j \<Longrightarrow> mset (xs[i := xs ! j, j := x]) = mset (xs[i := x])"
proof -
  assume a: "i < length xs" "j < length xs" "i \<noteq> j"
  let ?ys = "xs[i := x]"
  have "xs[i := xs ! j, j := x] = ?ys[j := ?ys ! i, i := ?ys ! j]" using a by (auto simp: list_eq_iff_nth_eq nth_list_update)
  then show ?thesis using a mset_swap[of i ?ys j] by simp
qed

locale heap_order =
  fixes lt :: "int \<Rightarrow> int \<Rightarrow> bool"
  assumes asym: "lt a b \<Longrightarrow> \<not> lt b a"
    and le_trans: "\<not> lt b a \<Longrightarrow> \<not> lt c b \<Longrightarrow> \<not> lt c a"
begin

lemma root_first:
  assumes "heapOk lt nodes" "j < length nodes"
  shows "\<not> lt (fst (nodes ! j)) (fst (nodes ! 0))"
  using assms(2)
proof (induction j rule: less_induct)
  case (less j)
  show ?case
  proof (cases "j = 0")
    case True
    then show ?thesis using asym by blast
  next
    case False
    then have "\<not> lt (fst (nodes ! j)) (fst (nodes ! parentIndex j))" using assms(1) less.prems by (simp add: heapOk_def)
    moreover have "\<not> lt (fst (nodes ! parentIndex j)) (fst (nodes ! 0))" using less parent_less[of j] False by simp
    ultimately show ?thesis using le_trans by blast
  qed
qed

text \<open>The array with the moving node in the hole at \<open>i\<close> is ordered but for the edge above \<open>i\<close>.\<close>

definition upInv :: "'v hnode list \<Rightarrow> nat \<Rightarrow> bool" where
  "upInv ys i = ((\<forall>j. 0 < j \<longrightarrow> j < length ys \<longrightarrow> j \<noteq> i \<longrightarrow> \<not> lt (fst (ys ! j)) (fst (ys ! parentIndex j))) \<and>
     (\<forall>j. 0 < i \<longrightarrow> 0 < j \<longrightarrow> j < length ys \<longrightarrow> parentIndex j = i \<longrightarrow> \<not> lt (fst (ys ! j)) (fst (ys ! parentIndex i))))"

lemma up_step:
  assumes inv: "upInv (xs[i := x]) i" and i: "0 < i" "i < length xs" and l: "lt (fst x) (fst (xs ! parentIndex i))"
  shows "upInv (xs[i := xs ! parentIndex i, parentIndex i := x]) (parentIndex i)"
proof -
  let ?p = "parentIndex i" and ?ys = "xs[i := x]"
  let ?zs = "xs[i := xs ! ?p, ?p := x]"
  have p: "?p < i" "?p < length xs" "?p \<noteq> i" using parent_less[OF i(1)] i(2) by auto
  have nz: "?zs ! i = xs ! ?p" "?zs ! ?p = x" "\<And>j. j \<noteq> i \<Longrightarrow> j \<noteq> ?p \<Longrightarrow> ?zs ! j = xs ! j" using p i by (simp_all add: nth_list_update)
  have ny: "?ys ! i = x" "\<And>j. j \<noteq> i \<Longrightarrow> ?ys ! j = xs ! j" using i by (simp_all add: nth_list_update)
  have e: "\<not> lt (fst (xs ! j)) (fst (?ys ! parentIndex j))" if "0 < j" "j < length xs" "j \<noteq> i" for j
    using inv that ny(2)[of j] by (auto simp: upInv_def)
  have g: "\<not> lt (fst (xs ! j)) (fst (xs ! ?p))" if j: "0 < j" "j < length xs" "parentIndex j = i" for j
  proof -
    have "j \<noteq> i" using j parent_less[of j] by auto
    moreover have "\<not> lt (fst (?ys ! j)) (fst (?ys ! ?p))" using inv i j unfolding upInv_def by (metis length_list_update)
    ultimately show ?thesis using ny(2)[of j] ny(2)[of ?p] p by simp
  qed
  have sib: "\<not> lt (fst (xs ! j)) (fst (xs ! ?p))" if "0 < j" "j < length xs" "j \<noteq> i" "parentIndex j = ?p" for j
    using e[OF that(1-3)] that(4) ny(2)[of ?p] p by simp
  have top: "\<not> lt (fst (xs ! ?p)) (fst (xs ! parentIndex ?p))" if "0 < ?p"
    using e[of ?p] that p ny(2)[of "parentIndex ?p"] parent_less[OF that] by simp
  have "\<not> lt (fst (?zs ! j)) (fst (?zs ! parentIndex j))" if j: "0 < j" "j < length xs" "j \<noteq> ?p" for j
  proof (cases "j = i")
    case True
    then show ?thesis using nz asym[OF l] by simp
  next
    case False
    consider (child) "parentIndex j = i" | (sibling) "parentIndex j = ?p" | (other) "parentIndex j \<noteq> i" "parentIndex j \<noteq> ?p" by blast
    then show ?thesis
    proof cases
      case child
      then show ?thesis using g[OF j(1,2)] nz False j(3) by simp
    next
      case sibling
      then show ?thesis using sib[OF j(1,2) False] nz False j(3) asym[OF l] le_trans by metis
    next
      case other
      then show ?thesis using e[OF j(1,2) False] nz False j(3) ny(2)[of "parentIndex j"] by simp
    qed
  qed
  moreover have "\<not> lt (fst (?zs ! j)) (fst (?zs ! parentIndex ?p))" if j: "0 < ?p" "0 < j" "j < length xs" "parentIndex j = ?p" for j
  proof -
    have jp: "j \<noteq> ?p" using j parent_less[of j] by auto
    have q: "?zs ! parentIndex ?p = xs ! parentIndex ?p" using nz(3)[of "parentIndex ?p"] parent_less[OF j(1)] p by simp
    show ?thesis
    proof (cases "j = i")
      case True
      then show ?thesis using q nz(1) top[OF j(1)] by simp
    next
      case False
      then show ?thesis using q nz(3)[OF False jp] sib[OF j(2,3) False j(4)] top[OF j(1)] le_trans by metis
    qed
  qed
  ultimately show ?thesis by (auto simp: upInv_def)
qed

lemma moveUpLoop_heap:
  "upInv (xs[i := x]) i \<Longrightarrow> i < length xs \<Longrightarrow> heapOk lt (moveUpLoop lt xs i x) \<and> mset (moveUpLoop lt xs i x) = mset (xs[i := x])"
proof (induction i arbitrary: xs rule: less_induct)
  case (less i)
  show ?case
  proof (cases "0 < i \<and> lt (fst x) (fst (xs ! parentIndex i))")
    case True
    then have p: "parentIndex i < i" "parentIndex i < length xs" using parent_less[of i] less.prems(2) by auto
    have s: "moveUpLoop lt xs i x = moveUpLoop lt (xs[i := xs ! parentIndex i]) (parentIndex i) x" using True by (subst moveUpLoop.simps) simp
    show ?thesis using less.IH[OF p(1) up_step[OF less.prems(1) _ less.prems(2)]] True p hole_move[of i xs "parentIndex i" x] less.prems(2) s by simp
  next
    case False
    have s: "moveUpLoop lt xs i x = xs[i := x]" by (subst moveUpLoop.simps) (use False in auto)
    have "\<not> lt (fst (xs[i := x] ! i)) (fst (xs[i := x] ! parentIndex i))" if "0 < i"
      using False that less.prems(2) parent_less[OF that] by simp
    then have "\<not> lt (fst (xs[i := x] ! j)) (fst (xs[i := x] ! parentIndex j))" if "0 < j" "j < length (xs[i := x])" for j
      using less.prems(1) that unfolding upInv_def by metis
    then have "heapOk lt (xs[i := x])" by (simp add: heapOk_def)
    then show ?thesis using s by simp
  qed
qed

lemma push_heap:
  assumes "heapOk lt nodes"
  shows "heapOk lt (heapPush lt k v nodes) \<and> mset (heapPush lt k v nodes) = add_mset (k, v) (mset nodes)"
proof -
  let ?n = "length nodes" and ?xs = "nodes @ [(k, v)]"
  have "\<not> lt (fst (?xs ! j)) (fst (?xs ! parentIndex j))" if "0 < j" "j < ?n" for j
    using assms that parent_less[OF that(1)] by (simp add: heapOk_def nth_append)
  moreover have "parentIndex j \<noteq> ?n" if "0 < j" "j < Suc ?n" for j using parent_less[OF that(1)] that(2) by simp
  ultimately have "upInv (?xs[?n := (k, v)]) ?n" by (auto simp: upInv_def)
  from moveUpLoop_heap[OF this] show ?thesis by (simp add: heapPush_def moveUp_def)
qed

text \<open>The array with the moving node in the hole at \<open>i\<close> is ordered but for the edges below \<open>i\<close>.\<close>

definition downInv :: "'v hnode list \<Rightarrow> nat \<Rightarrow> bool" where
  "downInv ys i = ((\<forall>j. 0 < j \<longrightarrow> j < length ys \<longrightarrow> parentIndex j \<noteq> i \<longrightarrow> \<not> lt (fst (ys ! j)) (fst (ys ! parentIndex j))) \<and>
     (\<forall>j. 0 < i \<longrightarrow> 0 < j \<longrightarrow> j < length ys \<longrightarrow> parentIndex j = i \<longrightarrow> \<not> lt (fst (ys ! j)) (fst (ys ! parentIndex i))))"

lemma next_first:
  assumes "0 < j" "j < length xs" "parentIndex j = i"
  shows "\<not> lt (fst (xs ! j)) (fst (xs ! nextPath lt xs i))"
  using assms asym by (auto simp: nextPath_def parent_child)

lemma down_step:
  assumes inv: "downInv (xs[i := x]) i" and i: "i < length xs div 2" and l: "\<not> lt (fst x) (fst (xs ! nextPath lt xs i))"
  shows "downInv (xs[i := xs ! nextPath lt xs i, nextPath lt xs i := x]) (nextPath lt xs i)"
proof -
  let ?c = "nextPath lt xs i" and ?ys = "xs[i := x]"
  let ?zs = "xs[i := xs ! ?c, ?c := x]"
  have c: "i < ?c" "?c < length xs" "?c \<noteq> i" "i < length xs" using nextPath_bounds[OF i, of lt] by auto
  have pc: "parentIndex ?c = i" using nextPath_cases[of lt xs i] c by (auto simp: parent_child)
  have nz: "?zs ! i = xs ! ?c" "?zs ! ?c = x" "\<And>j. j \<noteq> i \<Longrightarrow> j \<noteq> ?c \<Longrightarrow> ?zs ! j = xs ! j" using c by (simp_all add: nth_list_update)
  have ny: "?ys ! i = x" "\<And>j. j \<noteq> i \<Longrightarrow> ?ys ! j = xs ! j" using c by (simp_all add: nth_list_update)
  have e: "\<not> lt (fst (?ys ! j)) (fst (xs ! parentIndex j))" if "0 < j" "j < length xs" "parentIndex j \<noteq> i" for j
    using inv that ny(2)[of "parentIndex j"] by (auto simp: downInv_def)
  have up: "\<not> lt (fst (xs ! ?c)) (fst (xs ! parentIndex i))" if "0 < i"
  proof -
    have "\<not> lt (fst (?ys ! ?c)) (fst (?ys ! parentIndex i))" using inv that pc c unfolding downInv_def by (metis length_list_update order_less_trans)
    then show ?thesis using ny(2)[of ?c] ny(2)[of "parentIndex i"] c(3) parent_less[OF that] by simp
  qed
  have "\<not> lt (fst (?zs ! j)) (fst (?zs ! parentIndex j))" if j: "0 < j" "j < length xs" "parentIndex j \<noteq> ?c" for j
  proof -
    consider (at) "j = i" | (child) "j \<noteq> i" "parentIndex j = i" | (other) "j \<noteq> i" "parentIndex j \<noteq> i" by blast
    then show ?thesis
    proof cases
      case at
      then have "?zs ! parentIndex j = xs ! parentIndex i" using nz(3)[of "parentIndex i"] parent_less[of i] j(1) c(1) by simp
      then show ?thesis using at nz(1) up j(1) by simp
    next
      case child
      then show ?thesis using nz next_first[OF j(1,2) child(2)] l by (cases "j = ?c") auto
    next
      case other
      then have "j \<noteq> ?c" using pc by auto
      then show ?thesis using other e[OF j(1,2) other(2)] nz(3)[of j] nz(3)[of "parentIndex j"] j(3) ny(2)[of j] by simp
    qed
  qed
  moreover have "\<not> lt (fst (?zs ! j)) (fst (?zs ! parentIndex ?c))" if j: "0 < j" "j < length xs" "parentIndex j = ?c" for j
  proof -
    have "j \<noteq> ?c" "j \<noteq> i" using parent_less[OF j(1)] j(3) c(1) by auto
    then show ?thesis using e[OF j(1,2)] j(3) c(3) pc nz ny(2)[of j] by simp
  qed
  ultimately show ?thesis by (auto simp: downInv_def)
qed

lemma moveDownLoop_heap:
  "downInv (xs[i := x]) i \<Longrightarrow> i < length xs \<Longrightarrow> heapOk lt (moveDownLoop lt xs i x) \<and> mset (moveDownLoop lt xs i x) = mset (xs[i := x])"
proof (induction "length xs - i" arbitrary: xs i rule: less_induct)
  case less
  let ?c = "nextPath lt xs i"
  show ?case
  proof (cases "i < length xs div 2 \<and> \<not> lt (fst x) (fst (xs ! ?c))")
    case True
    then have c: "i < ?c" "?c < length xs" using nextPath_bounds[of i xs lt] by auto
    have s: "moveDownLoop lt xs i x = moveDownLoop lt (xs[i := xs ! ?c]) ?c x" by (subst moveDownLoop.simps) (use True in simp)
    show ?thesis using less.hyps[of "xs[i := xs ! ?c]" ?c] c True down_step[OF less.prems(1)] hole_move[of i xs ?c x] less.prems(2) s
      by (simp add: diff_less_mono2)
  next
    case False
    have s: "moveDownLoop lt xs i x = xs[i := x]" by (subst moveDownLoop.simps) (use False in auto)
    have "\<not> lt (fst (xs[i := x] ! j)) (fst (xs[i := x] ! i))" if j: "0 < j" "j < length xs" "parentIndex j = i" for j
    proof -
      have ji: "j \<noteq> i" using parent_less[OF j(1)] j(3) by auto
      have "i < length xs div 2" using j by (auto simp: parent_child leftChildIndex_def rightChildIndex_def)
      then have "lt (fst x) (fst (xs ! ?c))" using False by blast
      then show ?thesis using next_first[OF j] ji less.prems(2) asym le_trans by (metis nth_list_update_eq nth_list_update_neq)
    qed
    then have "\<not> lt (fst (xs[i := x] ! j)) (fst (xs[i := x] ! parentIndex j))" if "0 < j" "j < length (xs[i := x])" for j
      using less.prems(1) that unfolding downInv_def by (metis length_list_update)
    then have "heapOk lt (xs[i := x])" by (simp add: heapOk_def)
    then show ?thesis using s by simp
  qed
qed

lemma pop_heap:
  assumes "heapOk lt nodes" "nodes \<noteq> []"
  shows "\<exists>rest. heapPop lt nodes = (Some (nodes ! 0), rest) \<and> heapOk lt rest \<and> add_mset (nodes ! 0) (mset rest) = mset nodes"
proof (cases "length nodes = 1")
  case True
  then obtain n where "nodes = [n]" by (auto simp: length_Suc_conv)
  then show ?thesis by (simp add: heapPop_def heapOk_def)
next
  case False
  then have l: "2 \<le> length nodes" using assms(2) by (cases nodes) (auto simp: Suc_le_eq)
  let ?b = "butlast nodes" and ?x = "last nodes"
  let ?ys = "?b[0 := ?x]"
  have nth: "?ys ! j = nodes ! j" if "0 < j" "j < length nodes - 1" for j using that by (simp add: nth_butlast)
  have "\<not> lt (fst (?ys ! j)) (fst (?ys ! parentIndex j))" if "0 < j" "j < length nodes - 1" "parentIndex j \<noteq> 0" for j
    using nth[OF that(1,2)] nth[of "parentIndex j"] assms(1) that parent_less[OF that(1)] by (simp add: heapOk_def)
  then have "downInv (?ys[0 := ?x]) 0" by (auto simp: downInv_def)
  from moveDownLoop_heap[OF this] l have h: "heapOk lt (moveDown lt ?ys 0)" "mset (moveDown lt ?ys 0) = mset ?ys" by (simp_all add: moveDown_def)
  obtain n ns where ns: "nodes = n # ns" using assms(2) by (meson neq_Nil_conv)
  then have "ns \<noteq> []" using l by auto
  then have "mset ?ys = mset ns" using ns by (cases ns rule: rev_exhaust) simp_all
  then have "add_mset (nodes ! 0) (mset ?ys) = mset nodes" using ns \<open>ns \<noteq> []\<close> by (cases ns rule: rev_exhaust) simp_all
  then have "add_mset (nodes ! 0) (mset (moveDown lt ?ys 0)) = mset nodes" using h(2) by simp
  moreover have "heapPop lt nodes = (Some (nodes ! 0), moveDown lt ?ys 0)" using l by (auto simp: heapPop_def)
  ultimately show ?thesis using h(1) by blast
qed

end

section \<open>Priority queues\<close>

locale priority_queue =
  fixes lt :: "int \<Rightarrow> int \<Rightarrow> bool"
    and inv :: "'q \<Rightarrow> bool"
    and content :: "'q \<Rightarrow> (int \<times> 'v) multiset"
    and empty :: 'q
    and push :: "int \<Rightarrow> 'v \<Rightarrow> 'q \<Rightarrow> 'q"
    and pop :: "'q \<Rightarrow> (int \<times> 'v) option \<times> 'q"
  assumes inv_empty: "inv empty" "content empty = {#}"
    and inv_push: "inv q \<Longrightarrow> inv (push k v q) \<and> content (push k v q) = add_mset (k, v) (content q)"
    and pop_none: "inv q \<Longrightarrow> content q = {#} \<Longrightarrow> pop q = (None, q)"
    and pop_first: "inv q \<Longrightarrow> content q \<noteq> {#} \<Longrightarrow> \<exists>n r. pop q = (Some n, r) \<and> inv r \<and> content q = add_mset n (content r) \<and> (\<forall>m \<in># content q. \<not> lt (fst m) (fst n))"
begin

primrec drain :: "nat \<Rightarrow> 'q \<Rightarrow> (int \<times> 'v) list" where
  "drain 0 q = []"
| "drain (Suc n) q = (case pop q of (None, r) \<Rightarrow> [] | (Some x, r) \<Rightarrow> x # drain n r)"

text \<open>Popping until the queue is empty yields all nodes in the order of their keys.\<close>

lemma drain_sorted: "inv q \<Longrightarrow> size (content q) \<le> n \<Longrightarrow> mset (drain n q) = content q \<and> sorted_wrt (\<lambda>a b. \<not> lt (fst b) (fst a)) (drain n q)"
proof (induction n arbitrary: q)
  case (Suc n)
  show ?case
  proof (cases "content q = {#}")
    case True
    then show ?thesis using pop_none[OF Suc.prems(1)] by simp
  next
    case False
    then obtain x r where r: "pop q = (Some x, r)" "inv r" "content q = add_mset x (content r)" "\<forall>m \<in># content q. \<not> lt (fst m) (fst x)"
      using pop_first[OF Suc.prems(1)] by blast
    have "mset (drain n r) = content r" "sorted_wrt (\<lambda>a b. \<not> lt (fst b) (fst a)) (drain n r)" using Suc.IH[OF r(2)] r(3) Suc.prems(2) by auto
    moreover from this have "set (drain n r) = set_mset (content r)" by (metis set_mset_mset)
    ultimately show ?thesis using r by auto
  qed
qed simp

end

context heap_order
begin

lemma heap_queue:
  assumes "heapOk lt q" "q \<noteq> []"
  shows "\<exists>n r. heapPop lt q = (Some n, r) \<and> heapOk lt r \<and> mset q = add_mset n (mset r) \<and> (\<forall>m \<in> set q. \<not> lt (fst m) (fst n))"
proof -
  from pop_heap[OF assms] obtain r where r: "heapPop lt q = (Some (q ! 0), r)" "heapOk lt r" "add_mset (q ! 0) (mset r) = mset q" by blast
  have "\<not> lt (fst m) (fst (q ! 0))" if "m \<in> set q" for m using that root_first[OF assms(1)] by (auto simp: in_set_conv_nth)
  then show ?thesis using r by metis
qed

lemma heap_nil: "heapOk lt []" "heapPop lt [] = (None, [])"
  by (simp_all add: heapOk_def heapPop_def)

end

interpretation min_order: heap_order "(<) :: int \<Rightarrow> int \<Rightarrow> bool"
  by unfold_locales auto

interpretation max_order: heap_order "(>) :: int \<Rightarrow> int \<Rightarrow> bool"
  by unfold_locales auto

interpretation min_heap: priority_queue "(<) :: int \<Rightarrow> int \<Rightarrow> bool" "heapOk (<)" mset "[]" "heapPush (<)" "heapPop (<)"
proof (unfold_locales, goal_cases)
  case (5 q)
  then show ?case using min_order.heap_queue[of q] by simp
qed (simp_all add: min_order.heap_nil min_order.push_heap)

interpretation max_heap: priority_queue "(>) :: int \<Rightarrow> int \<Rightarrow> bool" "heapOk (>)" mset "[]" "heapPush (>)" "heapPop (>)"
proof (unfold_locales, goal_cases)
  case (5 q)
  then show ?case using max_order.heap_queue[of q] by simp
qed (simp_all add: max_order.heap_nil max_order.push_heap)


section \<open>Heaps refine priority queues\<close>

primrec heapDrain :: "(int \<Rightarrow> int \<Rightarrow> bool) \<Rightarrow> nat \<Rightarrow> 'v hnode list \<Rightarrow> 'v hnode list" where
  "heapDrain lt 0 q = []"
| "heapDrain lt (Suc n) q = (case heapPop lt q of (None, r) \<Rightarrow> [] | (Some x, r) \<Rightarrow> x # heapDrain lt n r)"

lemma drain_eq: "min_heap.drain n q = heapDrain (<) n q" "max_heap.drain n q = heapDrain (>) n q"
  by (induction n arbitrary: q) (simp_all split: option.split prod.split)

lemma pushAll_heap: "heapOk (<) q \<Longrightarrow> heapOk (<) (pushAll (<) ns q) \<and> mset (pushAll (<) ns q) = mset ns + mset q"
  by (induction ns arbitrary: q) (simp_all add: min_order.push_heap)

lemma pushAll_max: "heapOk (>) q \<Longrightarrow> heapOk (>) (pushAll (>) ns q) \<and> mset (pushAll (>) ns q) = mset ns + mset q"
  by (induction ns arbitrary: q) (simp_all add: max_order.push_heap)

text \<open>
  C36: The heaps are priority queues. Nodes that are pushed in any order onto an empty heap
  and then popped come out completely, sorted by key: in increasing order from the
  \<open>MinHeap\<close> and in decreasing order from the \<open>MaxHeap\<close>.
\<close>

theorem heaps_sort:
  "mset (heapDrain (<) (length ns) (pushAll (<) ns [])) = mset ns \<and> sorted_wrt (\<lambda>a b. fst a \<le> fst b) (heapDrain (<) (length ns) (pushAll (<) ns [])) \<and>
   mset (heapDrain (>) (length ns) (pushAll (>) ns [])) = mset ns \<and> sorted_wrt (\<lambda>a b. fst a \<ge> fst b) (heapDrain (>) (length ns) (pushAll (>) ns []))"
proof -
  have l: "size (mset (pushAll (<) ns [])) \<le> length ns" "size (mset (pushAll (>) ns [])) \<le> length ns"
    using pushAll_heap[OF min_order.heap_nil(1), of ns] pushAll_max[OF max_order.heap_nil(1), of ns] by (metis add.right_neutral mset.simps(1) order_refl size_mset)+
  show ?thesis
    using min_heap.drain_sorted[of "pushAll (<) ns []", OF _ l(1)] max_heap.drain_sorted[of "pushAll (>) ns []", OF _ l(2)]
      pushAll_heap[OF min_order.heap_nil(1), of ns] pushAll_max[OF max_order.heap_nil(1), of ns]
    by (simp add: drain_eq not_less)
qed

end
