(* ===== verification/TxList.thy ===== *)
theory TxList
  imports MinHeap
begin

text \<open>
  The transactions of one account in the pool, \<open>elements/transaction-pool/src/transaction_list.ts\<close>.
  \<open>nonceHeap\<close> orders the nonces, \<open>transactions\<close> holds the transaction of each nonce and
  \<open>processable\<close> the nonces that were verified for execution. Transactions are JavaScript
  objects: \<open>idRef\<close> is the identity of the buffer that \<open>tx.id\<close> returns, which the code
  compares with \<open>!==\<close> and \<open>includes\<close>; everything else compares the bytes \<open>txId\<close>.

  \<open>listOk\<close> is the invariant of a list. The lemmas give what each operation returns in terms of
  \<open>nonces\<close>, the nonces in increasing order: the loops over a cloned heap are slices of it.
\<close>

section \<open>Data\<close>

record ptx =
  txId :: bytes
  idRef :: nat
  txNonce :: int
  txFee :: int
  txSenderPublicKey :: bytes
  receivedAt :: "int option"
  feePriority :: "int option"
  txLength :: nat

record txList =
  listRef :: nat
  listAddress :: bytes
  processable :: "int list"
  transactions :: "int \<rightharpoonup> ptx"
  nonceHeap :: "unit hnode list"
  maxSize :: nat
  minReplacementFeeDifference :: int

definition newTransactionList :: "nat \<Rightarrow> bytes \<Rightarrow> nat \<Rightarrow> int \<Rightarrow> txList" where
  "newTransactionList ref addr limit diff =
     \<lparr>listRef = ref, listAddress = addr, processable = [], transactions = Map.empty, nonceHeap = [],
      maxSize = limit, minReplacementFeeDifference = diff\<rparr>"

datatype addStatus =
    Added "bytes option"
  | NotAdded string

section \<open>Operations\<close>

definition listGet :: "txList \<Rightarrow> int \<Rightarrow> ptx option" where
  "listGet l n = transactions l n"

definition sortProcessable :: "int list \<Rightarrow> int list" where
  "sortProcessable ns = sort ns"

definition demoteAfter :: "int \<Rightarrow> txList \<Rightarrow> txList" where
  "demoteAfter n l = l\<lparr>processable := sortProcessable (filter (\<lambda>p. p < n) (processable l))\<rparr>"

definition highestNonce :: "txList \<Rightarrow> int" where
  "highestNonce l = foldl (\<lambda>prev current. if current > prev then current else prev) (- 1) (heapKeys (nonceHeap l))"

definition pushNonces :: "int list \<Rightarrow> unit hnode list \<Rightarrow> unit hnode list" where
  "pushNonces ks h = pushAll (<) (map (\<lambda>k. (k, ())) ks) h"

definition listRemove :: "int \<Rightarrow> txList \<Rightarrow> bytes option \<times> txList" where
  "listRemove n l =
     (case transactions l n of
        None \<Rightarrow> (None, l)
      | Some removingTx \<Rightarrow>
          (Some (txId removingTx),
           demoteAfter n (l\<lparr>transactions := (transactions l)(n := None),
                           nonceHeap := pushNonces (filter (\<lambda>k. k \<noteq> n) (heapKeys (nonceHeap l))) []\<rparr>)))"

definition listInsert :: "ptx \<Rightarrow> bool \<Rightarrow> txList \<Rightarrow> txList" where
  "listInsert tx proc l =
     l\<lparr>transactions := (transactions l)(txNonce tx \<mapsto> tx),
       nonceHeap := heapPush (<) (txNonce tx) () (nonceHeap l),
       processable := (if proc \<and> length (processable l) = 0 then processable l @ [txNonce tx] else processable l)\<rparr>"

definition listAdd :: "ptx \<Rightarrow> bool \<Rightarrow> txList \<Rightarrow> addStatus \<times> txList" where
  "listAdd tx proc l =
     (case transactions l (txNonce tx) of
        Some existingTx \<Rightarrow>
          if txFee tx < txFee existingTx + minReplacementFeeDifference l
          then (NotAdded ''Incoming transaction fee is not sufficient to replace existing transaction'', l)
          else (Added (Some (txId existingTx)),
                (demoteAfter (txNonce tx) l)\<lparr>transactions := (transactions l)(txNonce tx \<mapsto> tx)\<rparr>)
      | None \<Rightarrow>
          if length (nonceHeap l) \<ge> maxSize l then
            if txNonce tx > highestNonce l
            then (NotAdded ''Incoming transaction exceeds maximum transaction limit per account'', l)
            else (let (removedID, l') = listRemove (highestNonce l) l in (Added removedID, listInsert tx proc l'))
          else (Added None, listInsert tx proc l))"

definition promotingNonces :: "txList \<Rightarrow> ptx list \<Rightarrow> int list option" where
  "promotingNonces l txs =
     (if \<forall>tx \<in> set txs. case transactions l (txNonce tx) of None \<Rightarrow> False | Some p \<Rightarrow> idRef tx = idRef p
      then Some (map txNonce txs) else None)"

definition uniqueInOrder :: "'a list \<Rightarrow> 'a list" where
  "uniqueInOrder xs = rev (remdups (rev xs))"

definition promote :: "ptx list \<Rightarrow> txList \<Rightarrow> bool \<times> txList" where
  "promote txs l =
     (case promotingNonces l txs of
        None \<Rightarrow> (False, l)
      | Some ns \<Rightarrow> (True, l\<lparr>processable := sortProcessable (uniqueInOrder (processable l @ ns))\<rparr>))"

definition txAt :: "txList \<Rightarrow> int \<Rightarrow> ptx" where
  "txAt l n = the (transactions l n)"

definition getProcessable :: "txList \<Rightarrow> ptx list" where
  "getProcessable l = map (txAt l) (processable l)"

primrec popN :: "nat \<Rightarrow> unit hnode list \<Rightarrow> unit hnode list" where
  "popN 0 h = h"
| "popN (Suc n) h = popN n (snd (heapPop (<) h))"

definition getUnprocessable :: "txList \<Rightarrow> ptx list" where
  "getUnprocessable l =
     (if length (nonceHeap l) = 0 then []
      else if length (processable l) = length (nonceHeap l) then []
      else let clonedHeap = popN (length (processable l)) (heapClone (<) (nonceHeap l))
           in map (\<lambda>n. txAt l (fst n)) (heapDrain (<) (length clonedHeap) clonedHeap))"

primrec promotableLoop :: "txList \<Rightarrow> nat \<Rightarrow> unit hnode list \<Rightarrow> int \<Rightarrow> ptx list" where
  "promotableLoop l 0 h lastPromotedNonce = []"
| "promotableLoop l (Suc i) h lastPromotedNonce =
     (case heapPop (<) h of
        (None, h') \<Rightarrow> []
      | (Some (key, _), h') \<Rightarrow>
          if lastPromotedNonce + 1 = key then txAt l key # promotableLoop l i h' (txNonce (txAt l key))
          else promotableLoop l i h' lastPromotedNonce)"

definition getPromotable :: "txList \<Rightarrow> ptx list" where
  "getPromotable l =
     (if length (nonceHeap l) = 0 then []
      else if length (processable l) = length (nonceHeap l) then []
      else case heapPop (<) (popN (length (processable l)) (heapClone (<) (nonceHeap l))) of
             (None, h') \<Rightarrow> []
           | (Some (key, _), h') \<Rightarrow>
               if length (processable l) \<noteq> 0 \<and> key \<noteq> last (processable l) + 1 then []
               else txAt l key # promotableLoop l (length h') h' (txNonce (txAt l key)))"

section \<open>The invariant\<close>

definition listOk :: "txList \<Rightarrow> bool" where
  "listOk l = (heapOk (<) (nonceHeap l) \<and> distinct (map fst (nonceHeap l)) \<and>
     (\<forall>n. n \<in> fst ` set (nonceHeap l) \<longleftrightarrow> transactions l n \<noteq> None) \<and>
     (\<forall>n t. transactions l n = Some t \<longrightarrow> txNonce t = n \<and> 0 \<le> n) \<and>
     sorted (processable l) \<and> distinct (processable l) \<and> (\<forall>n \<in> set (processable l). transactions l n \<noteq> None) \<and>
     length (nonceHeap l) \<le> maxSize l)"

definition nonces :: "txList \<Rightarrow> int list" where
  "nonces l = sort (map fst (nonceHeap l))"

lemma nonces_basic:
  "set (nonces l) = fst ` set (nonceHeap l)" "sorted (nonces l)" "length (nonces l) = length (nonceHeap l)"
  by (simp_all add: nonces_def)

lemma listOk_dest:
  assumes "listOk l"
  shows "heapOk (<) (nonceHeap l)" "distinct (nonces l)" "n \<in> set (nonces l) \<longleftrightarrow> transactions l n \<noteq> None"
    and "transactions l n = Some t \<Longrightarrow> txNonce t = n \<and> 0 \<le> n"
    and "sorted (processable l)" "distinct (processable l)" "n \<in> set (processable l) \<Longrightarrow> transactions l n \<noteq> None"
    and "length (nonces l) \<le> maxSize l"
  using assms by (simp_all add: listOk_def nonces_def)

lemma list_new: "listOk (newTransactionList ref addr limit diff)"
  by (simp add: listOk_def newTransactionList_def heapOk_def)

subsection \<open>Heaps of nonces\<close>

lemma pop_none_empty: "heapOk (<) h \<Longrightarrow> heapPop (<) h = (None, r) \<Longrightarrow> h = []"
  using min_order.heap_queue[of h] by (cases "h = []") auto

lemma pushNonces_ok: "heapOk (<) (pushNonces ks []) \<and> mset (map fst (pushNonces ks [])) = mset ks"
proof -
  let ?p = "pushAll (<) (map (\<lambda>k. (k, ())) ks) []"
  have p: "heapOk (<) ?p" "mset ?p = mset (map (\<lambda>k. (k, ())) ks)"
    using pushAll_heap[OF min_order.heap_nil(1), of "map (\<lambda>k. (k, ())) ks"] by simp_all
  have "mset (map fst ?p) = mset (map fst (map (\<lambda>k. (k, ())) ks))" using p(2) by (metis mset_map)
  then show ?thesis using p(1) by (simp add: pushNonces_def comp_def del: mset_map)
qed

lemma drain_keys:
  assumes "heapOk (<) h" "distinct (map fst h)"
  shows "map fst (heapDrain (<) (length h) h) = sort (map fst h)"
proof -
  have d: "mset (heapDrain (<) (length h) h) = mset h" "sorted_wrt (\<lambda>a b. fst a \<le> fst b) (heapDrain (<) (length h) h)"
    using min_heap.drain_sorted[OF assms(1), of "length h"] by (simp_all add: drain_eq not_less)
  have "mset (map fst (heapDrain (<) (length h) h)) = mset (map fst h)" using d(1) by (metis mset_map)
  moreover have "sorted (map fst (heapDrain (<) (length h) h))" using d(2) by (simp add: sorted_map)
  ultimately show ?thesis by (metis properties_for_sort)
qed

lemma popN_ok:
  "heapOk (<) h \<Longrightarrow> distinct (map fst h) \<Longrightarrow> k \<le> length h \<Longrightarrow>
   heapOk (<) (popN k h) \<and> distinct (map fst (popN k h)) \<and> length (popN k h) = length h - k \<and> sort (map fst (popN k h)) = drop k (sort (map fst h))"
proof (induction k arbitrary: h)
  case (Suc k)
  then have "h \<noteq> []" by auto
  then obtain n r where r: "heapPop (<) h = (Some n, r)" "heapOk (<) r" "mset h = add_mset n (mset r)" "\<forall>m \<in> set h. \<not> fst m < fst n"
    using min_order.heap_queue[OF Suc.prems(1)] by blast
  have m: "mset (map fst h) = mset (fst n # map fst r)" using r(3) by simp
  have d: "distinct (fst n # map fst r)" using Suc.prems(2) m by (metis mset_eq_imp_distinct_iff)
  have len: "length h = Suc (length r)" using r(3) by (metis length_Cons mset.simps(2) size_mset)
  have mem: "set r \<subseteq> set h" using r(3) by (metis insert_subset mset_add set_mset_add_mset_insert set_mset_mset subsetI insertCI)
  have "sort (map fst h) = fst n # sort (map fst r)"
  proof (rule properties_for_sort)
    show "mset (fst n # sort (map fst r)) = mset (map fst h)" using m by simp
    show "sorted (fst n # sort (map fst r))" using r(4) mem by (auto simp: not_less)
  qed
  then show ?case using Suc.IH[OF r(2)] d len Suc.prems(3) r(1) by simp
qed simp


lemma heapClone_eq: "heapClone lt h = h"
  by (simp add: heapClone_def insertAllFromHeap_def)

lemma processable_le: "listOk l \<Longrightarrow> length (processable l) \<le> length (nonceHeap l)"
proof -
  assume l: "listOk l"
  have "set (processable l) \<subseteq> set (nonces l)" using listOk_dest(3,7)[OF l] by blast
  then have "card (set (processable l)) \<le> card (set (nonces l))" by (simp add: card_mono)
  then show ?thesis using listOk_dest(2,6)[OF l] by (simp add: distinct_card nonces_basic(3))
qed

lemma popped:
  assumes "listOk l"
  shows "heapOk (<) (popN (length (processable l)) (nonceHeap l))"
    and "distinct (map fst (popN (length (processable l)) (nonceHeap l)))"
    and "sort (map fst (popN (length (processable l)) (nonceHeap l))) = drop (length (processable l)) (nonces l)"
    and "length (popN (length (processable l)) (nonceHeap l)) = length (nonceHeap l) - length (processable l)"
  using popN_ok[of "nonceHeap l" "length (processable l)"] processable_le[OF assms] assms by (simp_all add: listOk_def nonces_def)

lemma unprocessable_slice:
  assumes "listOk l"
  shows "getUnprocessable l = map (txAt l) (drop (length (processable l)) (nonces l))"
proof -
  have "map (\<lambda>n. txAt l (fst n)) (heapDrain (<) (length h) h) = map (txAt l) (sort (map fst h))"
    if "h = popN (length (processable l)) (nonceHeap l)" for h
    using that drain_keys[OF popped(1,2)[OF assms], symmetric] by simp
  then show ?thesis using popped(3)[OF assms] nonces_basic(3)[of l] by (auto simp: getUnprocessable_def heapClone_eq Let_def)
qed

subsection \<open>Runs of consecutive nonces\<close>

primrec run :: "int \<Rightarrow> int list \<Rightarrow> int list" where
  "run n [] = []"
| "run n (k # ks) = (if k = n then k # run (n + 1) ks else [])"

lemma run_prefix: "\<exists>j. run n ks = take j ks"
proof (induction ks arbitrary: n)
  case (Cons k ks)
  obtain j where "run (n + 1) ks = take j ks" using Cons by blast
  then show ?case by (auto intro: exI[of _ "Suc j"] exI[of _ 0])
qed simp

lemma run_subset: "set (run n ks) \<subseteq> set ks"
  by (induction ks arbitrary: n) auto

lemma run_above: "\<forall>k \<in> set ks. n < k \<Longrightarrow> run n ks = []"
  by (cases ks) auto

lemma loop_run:
  "heapOk (<) h \<Longrightarrow> distinct (map fst h) \<Longrightarrow> \<forall>k \<in> set (map fst h). p < k \<and> txNonce (txAt l k) = k \<Longrightarrow>
   promotableLoop l (length h) h p = map (txAt l) (run (p + 1) (sort (map fst h)))"
proof (induction "length h" arbitrary: h p)
  case (Suc i)
  then have "h \<noteq> []" by auto
  then obtain k u r where r: "heapPop (<) h = (Some (k, u), r)" using min_order.heap_queue[OF Suc.prems(1)] by (metis surj_pair)
  have ok: "heapOk (<) r" "distinct (map fst r)" "length r = i" "sort (map fst r) = drop 1 (sort (map fst h))"
    using popN_ok[OF Suc.prems(1,2), of 1] Suc.hyps(2) r by auto
  have m: "mset h = add_mset (k, u) (mset r)" using min_order.heap_queue[OF Suc.prems(1) \<open>h \<noteq> []\<close>] r by auto
  have st: "set h = insert (k, u) (set r)" using m by (metis set_mset_add_mset_insert set_mset_mset)
  have mn: "\<forall>x \<in> set (map fst h). k \<le> x" using min_order.heap_queue[OF Suc.prems(1) \<open>h \<noteq> []\<close>] r by (auto simp: not_less)
  have kn: "k \<notin> set (map fst r)"
    using m Suc.prems(2) by (metis list.set_intros(1) list.simps(9) mset_eq_imp_distinct_iff mset_map distinct.simps(2) mset.simps(2) fst_conv)
  have gt: "\<forall>x \<in> set (map fst r). k < x" using mn kn st by (metis (no_types, lifting) image_insert insertCI list.set_map order_less_le)
  have sk: "sort (map fst h) = k # sort (map fst r)"
  proof (rule properties_for_sort)
    show "mset (k # sort (map fst r)) = mset (map fst h)" using m by simp
    show "sorted (k # sort (map fst r))" using gt by auto
  qed
  have kk: "p < k" "txNonce (txAt l k) = k" using Suc.prems(3) st by auto
  have IH: "promotableLoop l i r q = map (txAt l) (run (q + 1) (sort (map fst r)))" if "\<forall>x \<in> set (map fst r). q < x" for q
    using Suc.hyps(1)[of r q] ok that Suc.prems(3) st by auto
  have "run (p + 1) (sort (map fst r)) = []" if "p + 1 < k" using gt that by (intro run_above) auto
  moreover have "promotableLoop l i r p = map (txAt l) (run (p + 1) (sort (map fst r)))" using gt kk by (intro IH) force
  moreover have "promotableLoop l i r k = map (txAt l) (run (k + 1) (sort (map fst r)))" using IH[of k] gt by auto
  ultimately show ?case using r sk kk Suc.hyps(2)[symmetric] by (auto simp: algebra_simps)
qed simp


lemma txAt_nonce: "listOk l \<Longrightarrow> k \<in> set (nonces l) \<Longrightarrow> txNonce (txAt l k) = k \<and> transactions l k = Some (txAt l k)"
  using listOk_dest(3,4)[of l k] by (auto simp: txAt_def)

definition promotableNonces :: "txList \<Rightarrow> int list" where
  "promotableNonces l =
     (case drop (length (processable l)) (nonces l) of
        [] \<Rightarrow> []
      | k # ks \<Rightarrow> if processable l \<noteq> [] \<and> k \<noteq> last (processable l) + 1 then [] else run k (k # ks))"

lemma promotable_run:
  assumes l: "listOk l"
  shows "getPromotable l = map (txAt l) (promotableNonces l)"
proof (cases "length (processable l) = length (nonceHeap l)")
  case True
  then show ?thesis using nonces_basic(3)[of l] by (auto simp: getPromotable_def promotableNonces_def)
next
  case False
  let ?h = "popN (length (processable l)) (nonceHeap l)"
  have ne: "?h \<noteq> []" "nonceHeap l \<noteq> []" using False popped(4)[OF l] processable_le[OF l] by auto
  obtain k u r where r: "heapPop (<) ?h = (Some (k, u), r)" using min_order.heap_queue[OF popped(1)[OF l] ne(1)] by (metis surj_pair)
  have ok: "heapOk (<) r" "distinct (map fst r)" using popN_ok[OF popped(1,2)[OF l], of 1] ne(1) r by (auto simp: Suc_le_eq)
  have m: "mset ?h = add_mset (k, u) (mset r)" and mn: "\<forall>x \<in> set ?h. k \<le> fst x"
    using min_order.heap_queue[OF popped(1)[OF l] ne(1)] r by (auto simp: not_less)
  have d: "distinct (k # map fst r)" using m popped(2)[OF l] by (metis fst_conv list.simps(9) mset.simps(2) mset_eq_imp_distinct_iff mset_map)
  have st: "set ?h = insert (k, u) (set r)" using m by (metis set_mset_add_mset_insert set_mset_mset)
  have gt: "\<forall>x \<in> set (map fst r). k < x"
  proof
    fix x assume "x \<in> set (map fst r)"
    then have "k \<le> x" "x \<noteq> k" using mn st d by auto
    then show "k < x" by simp
  qed
  have sk: "drop (length (processable l)) (nonces l) = k # sort (map fst r)"
  proof -
    have "sort (map fst ?h) = k # sort (map fst r)"
    proof (rule properties_for_sort)
      show "mset (k # sort (map fst r)) = mset (map fst ?h)" using m by simp
      show "sorted (k # sort (map fst r))" using gt by auto
    qed
    then show ?thesis using popped(3)[OF l] by simp
  qed
  have "set (k # map fst r) \<subseteq> set (nonces l)" using sk set_drop_subset[of "length (processable l)" "nonces l"] by simp
  then have n: "\<forall>x \<in> set (k # map fst r). txNonce (txAt l x) = x" using txAt_nonce[OF l] by blast
  have "promotableLoop l (length r) r k = map (txAt l) (run (k + 1) (sort (map fst r)))" using loop_run[OF ok] gt n by auto
  then show ?thesis using r sk ne n False by (simp add: getPromotable_def promotableNonces_def heapClone_eq)
qed

section \<open>What the operations keep and change\<close>

lemma listOk_update:
  assumes "heapOk (<) (nonceHeap l')" "distinct (map fst (nonceHeap l'))" "\<And>n. n \<in> fst ` set (nonceHeap l') \<longleftrightarrow> transactions l' n \<noteq> None"
    "\<And>n t. transactions l' n = Some t \<Longrightarrow> txNonce t = n \<and> 0 \<le> n"
    "sorted (processable l')" "distinct (processable l')" "\<And>n. n \<in> set (processable l') \<Longrightarrow> transactions l' n \<noteq> None"
    "length (nonceHeap l') \<le> maxSize l'"
  shows "listOk l'"
  using assms unfolding listOk_def by blast

lemma sort_filter_id: "sorted xs \<Longrightarrow> sort (filter P xs) = filter P (xs :: int list)"
  by (simp add: sorted_sort_id sorted_wrt_filter)

lemma demote_processable: "listOk l \<Longrightarrow> processable (demoteAfter n l) = filter (\<lambda>p. p < n) (processable l)"
  by (simp add: demoteAfter_def sortProcessable_def sort_filter_id listOk_dest(5))

lemma remove_effect:
  assumes l: "listOk l" and r: "listRemove n l = (x, l')"
  shows "listOk l'" "x = map_option txId (transactions l n)" "transactions l' = (transactions l)(n := None)"
    "nonces l' = filter (\<lambda>k. k \<noteq> n) (nonces l)" "maxSize l' = maxSize l" "listAddress l' = listAddress l" "listRef l' = listRef l"
proof -
  let ?ks = "filter (\<lambda>k. k \<noteq> n) (heapKeys (nonceHeap l))"
  note pn = pushNonces_ok[of ?ks]
  have k: "heapKeys (nonceHeap l) = map fst (nonceHeap l)" by (simp add: heapKeys_def)
  have len: "length (pushNonces ?ks []) \<le> length (nonceHeap l)"
    using pn k by (metis length_filter_le length_map size_mset)
  have dk: "distinct (map fst (pushNonces ?ks []))" using pn k l by (metis distinct_filter listOk_def mset_eq_imp_distinct_iff)
  have sk: "fst ` set (pushNonces ?ks []) = set ?ks" using pn by (metis list.set_map mset_eq_setD)
  have srt: "sort (map fst (pushNonces ?ks [])) = filter (\<lambda>k. k \<noteq> n) (nonces l)"
    using pn k by (metis filter_sort nonces_def properties_for_sort mset_sort sorted_sort)
  show "x = map_option txId (transactions l n)" using r by (auto simp: listRemove_def split: option.splits)
  show "transactions l' = (transactions l)(n := None)" using r by (auto simp: listRemove_def demoteAfter_def split: option.splits)
  show "maxSize l' = maxSize l" "listAddress l' = listAddress l" "listRef l' = listRef l" using r by (auto simp: listRemove_def demoteAfter_def split: option.splits)
  show "nonces l' = filter (\<lambda>k. k \<noteq> n) (nonces l)"
  proof (cases "transactions l n")
    case None
    then have "n \<notin> set (nonces l)" using listOk_dest(3)[OF l] by blast
    then show ?thesis using None r by (auto simp: listRemove_def intro!: filter_True[symmetric])
  next
    case (Some t)
    then show ?thesis using r srt by (auto simp: listRemove_def demoteAfter_def nonces_def)
  qed
  show "listOk l'"
  proof (cases "transactions l n")
    case None
    then show ?thesis using r l by (simp add: listRemove_def)
  next
    case (Some t)
    then have e: "l' = demoteAfter n (l\<lparr>transactions := (transactions l)(n := None), nonceHeap := pushNonces ?ks []\<rparr>)" using r by (simp add: listRemove_def)
    have p: "processable l' = filter (\<lambda>p. p < n) (processable l)" using l by (simp add: e demoteAfter_def sortProcessable_def sort_filter_id listOk_dest(5))
    show ?thesis
    proof (rule listOk_update)
      fix m show "m \<in> fst ` set (nonceHeap l') \<longleftrightarrow> transactions l' m \<noteq> None" using sk k listOk_dest(3)[OF l, of m] by (auto simp: e demoteAfter_def nonces_basic)
    next
      fix m t assume "transactions l' m = Some t"
      then show "txNonce t = m \<and> 0 \<le> m" using listOk_dest(4)[OF l] by (auto simp: e demoteAfter_def split: if_splits)
    qed (use pn dk len l p listOk_dest(5,6,7,8)[OF l] in \<open>auto simp: e demoteAfter_def listOk_def sorted_wrt_filter\<close>)
  qed
qed


lemma insert_effect:
  assumes l: "listOk l" and f: "transactions l (txNonce tx) = None" and n: "0 \<le> txNonce tx" and len: "length (nonceHeap l) < maxSize l"
  shows "listOk (listInsert tx pr l)" "transactions (listInsert tx pr l) = (transactions l)(txNonce tx \<mapsto> tx)"
    "length (nonces (listInsert tx pr l)) = Suc (length (nonces l))"
proof -
  let ?l = "listInsert tx pr l" and ?n = "txNonce tx"
  have h: "heapOk (<) (heapPush (<) ?n () (nonceHeap l))" "mset (heapPush (<) ?n () (nonceHeap l)) = add_mset (?n, ()) (mset (nonceHeap l))"
    using min_order.push_heap[of "nonceHeap l" ?n "()"] listOk_dest(1)[OF l] by simp_all
  have m: "mset (map fst (heapPush (<) ?n () (nonceHeap l))) = mset (?n # map fst (nonceHeap l))" using h(2) by simp
  have fr: "?n \<notin> set (map fst (nonceHeap l))" using f listOk_dest(3)[OF l, of ?n] by (simp add: nonces_basic)
  have d: "distinct (map fst (heapPush (<) ?n () (nonceHeap l)))" using m fr l by (metis distinct.simps(2) listOk_def mset_eq_imp_distinct_iff)
  have st: "fst ` set (heapPush (<) ?n () (nonceHeap l)) = insert ?n (fst ` set (nonceHeap l))" using m by (metis list.set_map list.simps(15) mset_eq_setD)
  have ln: "length (heapPush (<) ?n () (nonceHeap l)) = Suc (length (nonceHeap l))" using h(2) by (metis size_mset size_add_mset)
  show "transactions ?l = (transactions l)(?n \<mapsto> tx)" by (simp add: listInsert_def)
  show "length (nonces ?l) = Suc (length (nonces l))" using ln by (simp add: nonces_basic listInsert_def)
  show "listOk ?l"
  proof (rule listOk_update)
    fix m show "m \<in> fst ` set (nonceHeap ?l) \<longleftrightarrow> transactions ?l m \<noteq> None" using st listOk_dest(3)[OF l, of m] by (auto simp: listInsert_def nonces_basic)
  next
    fix m t assume "transactions ?l m = Some t"
    then show "txNonce t = m \<and> 0 \<le> m" using listOk_dest(4)[OF l] n by (auto simp: listInsert_def split: if_splits)
  qed (use h d ln len l listOk_dest(5,6,7)[OF l] in \<open>auto simp: listInsert_def split: if_splits\<close>)
qed

lemma fold_max: "foldl (\<lambda>prev current. if current > prev then current else prev) a ks = fold max ks (a :: int)"
proof (induction ks arbitrary: a)
  case (Cons k ks)
  then show ?case by (cases "k > a") (simp_all add: max_def)
qed simp

lemma highest_is_max:
  assumes l: "listOk l" and ne: "nonces l \<noteq> []"
  shows "highestNonce l \<in> set (nonces l)" "n \<in> set (nonces l) \<Longrightarrow> n \<le> highestNonce l"
proof -
  have "fold max ks (- 1) = Max (insert (- 1) (set ks))" for ks :: "int list" by (simp add: Max.set_eq_fold flip: list.set(2))
  then have h: "highestNonce l = Max (insert (- 1) (set (nonces l)))" by (simp add: highestNonce_def fold_max heapKeys_def nonces_def)
  have "\<forall>k \<in> set (nonces l). 0 \<le> k" using listOk_dest(3,4)[OF l] by blast
  moreover have "highestNonce l \<in> insert (- 1) (set (nonces l))" unfolding h by (rule Max_in) simp_all
  moreover show "n \<in> set (nonces l) \<Longrightarrow> n \<le> highestNonce l" for n unfolding h by (simp add: Max_ge)
  moreover obtain k where "k \<in> set (nonces l)" using ne by (meson list.set_sel(1))
  ultimately show "highestNonce l \<in> set (nonces l)" by force
qed

lemma highest_empty: "nonces l = [] \<Longrightarrow> highestNonce l = - 1"
  using nonces_basic(3)[of l] by (simp add: highestNonce_def heapKeys_def)

lemma replace_ok:
  assumes l: "listOk l" and e: "transactions l (txNonce tx) = Some old"
  shows "listOk ((demoteAfter (txNonce tx) l)\<lparr>transactions := (transactions l)(txNonce tx \<mapsto> tx)\<rparr>)" (is "listOk ?l")
proof (rule listOk_update)
  fix m show "m \<in> fst ` set (nonceHeap ?l) \<longleftrightarrow> transactions ?l m \<noteq> None" using e listOk_dest(3)[OF l] by (auto simp: demoteAfter_def nonces_basic)
next
  fix m t assume "transactions ?l m = Some t"
  then show "txNonce t = m \<and> 0 \<le> m" using e listOk_dest(4)[OF l] by (auto split: if_splits)
qed (use demote_processable[OF l, of "txNonce tx"] l listOk_dest(5,6,7)[OF l] in \<open>auto simp: demoteAfter_def listOk_def sorted_wrt_filter\<close>)

text \<open>
  The three outcomes of \<open>add\<close>: the transaction is rejected and nothing changes; it is
  added; or it is added and takes the place of one other transaction, whose identifier is reported.
\<close>

definition addChange :: "ptx \<Rightarrow> txList \<Rightarrow> addStatus \<Rightarrow> txList \<Rightarrow> bool" where
  "addChange tx l st l' =
     (case st of
         NotAdded _ \<Rightarrow> l' = l
       | Added None \<Rightarrow> transactions l (txNonce tx) = None \<and> transactions l' = (transactions l)(txNonce tx \<mapsto> tx)
       | Added (Some i) \<Rightarrow> \<exists>m t. transactions l m = Some t \<and> txId t = i \<and> transactions l' = (transactions l)(m := None, txNonce tx \<mapsto> tx) \<and>
                              (m \<noteq> txNonce tx \<longrightarrow> transactions l (txNonce tx) = None))"

lemma add_effect:
  assumes l: "listOk l" and n: "0 \<le> txNonce tx" and r: "listAdd tx pr l = (st, l')"
  shows "listOk l'" "listAddress l' = listAddress l" "listRef l' = listRef l" "maxSize l' = maxSize l"
    and "addChange tx l st l'"
proof -
  have base: "listAddress (listInsert tx pr k) = listAddress k" "listRef (listInsert tx pr k) = listRef k" "maxSize (listInsert tx pr k) = maxSize k" for k
    by (simp_all add: listInsert_def)
  let ?goal = "listOk l' \<and> listAddress l' = listAddress l \<and> listRef l' = listRef l \<and> maxSize l' = maxSize l \<and>
     addChange tx l st l'"
  have ?goal
  proof (cases "transactions l (txNonce tx)")
    case (Some old)
    then show ?thesis using r l replace_ok[OF l Some] by (auto simp: addChange_def listAdd_def demoteAfter_def split: if_splits intro!: exI[of _ "txNonce tx"])
  next
    case f: None
    show ?thesis
    proof (cases "length (nonceHeap l) \<ge> maxSize l")
      case False
      then show ?thesis using r f insert_effect[OF l f n] base by (auto simp: addChange_def listAdd_def)
    next
      case full: True
      show ?thesis
      proof (cases "txNonce tx > highestNonce l")
        case True
        then show ?thesis using r f full l by (auto simp: addChange_def listAdd_def)
      next
        case False
        then have ne: "nonces l \<noteq> []" using n highest_empty[of l] by linarith
        obtain x k where k: "listRemove (highestNonce l) l = (x, k)" by (meson surj_pair)
        note rm = remove_effect[OF l k]
        obtain t where t: "transactions l (highestNonce l) = Some t" using highest_is_max(1)[OF l ne] listOk_dest(3)[OF l] by blast
        have "length (filter (\<lambda>j. j \<noteq> highestNonce l) (nonces l)) < length (nonces l)" by (rule length_filter_less[OF highest_is_max(1)[OF l ne]]) simp
        then have len: "length (nonceHeap k) < maxSize k" using rm(4,5) listOk_dest(8)[OF l] by (metis nonces_basic(3) order_less_le_trans)
        have fk: "transactions k (txNonce tx) = None" using rm(3) f by simp
        have hn: "highestNonce l \<noteq> txNonce tx" using t f by auto
        have e: "st = Added (Some (txId t))" "l' = listInsert tx pr k" using r f full False k rm(2) t by (auto simp: listAdd_def)
        have "addChange tx l st l'"
          unfolding addChange_def e using insert_effect(2)[OF rm(1) fk n len] rm(3) t hn f by simp (metis fun_upd_apply)
        then show ?thesis using e insert_effect(1)[OF rm(1) fk n len] rm(5,6,7) base by simp
      qed
    qed
  qed
  then show "listOk l'" "listAddress l' = listAddress l" "listRef l' = listRef l" "maxSize l' = maxSize l"
    and "addChange tx l st l'"
    by simp_all
qed

lemma uniqueInOrder_props: "distinct (uniqueInOrder xs)" "set (uniqueInOrder xs) = set xs"
  by (simp_all add: uniqueInOrder_def)

lemma promote_effect:
  assumes l: "listOk l" and r: "promote txs l = (b, l')"
  shows "listOk l'" "transactions l' = transactions l" "nonceHeap l' = nonceHeap l" "listAddress l' = listAddress l" "listRef l' = listRef l"
    "maxSize l' = maxSize l" "b \<Longrightarrow> set (processable l') = set (processable l) \<union> set (map txNonce txs)" "\<not> b \<Longrightarrow> l' = l"
proof -
  show t: "transactions l' = transactions l" "nonceHeap l' = nonceHeap l" "listAddress l' = listAddress l" "listRef l' = listRef l" "maxSize l' = maxSize l" "\<not> b \<Longrightarrow> l' = l"
    using r by (auto simp: promote_def split: option.splits)
  show p: "b \<Longrightarrow> set (processable l') = set (processable l) \<union> set (map txNonce txs)"
    using r by (auto simp: promote_def promotingNonces_def sortProcessable_def uniqueInOrder_props split: option.splits if_splits)
  show "listOk l'"
  proof (cases b)
    case True
    then have "\<forall>tx \<in> set txs. transactions l (txNonce tx) \<noteq> None" and s: "processable l' = sort (uniqueInOrder (processable l @ map txNonce txs))"
      using r by (auto simp: promote_def promotingNonces_def sortProcessable_def split: option.splits if_splits)
    then have "transactions l n \<noteq> None" if "n \<in> set (processable l')" for n using that p[OF True] listOk_dest(7)[OF l] by auto
    then show ?thesis using l t(1,2,5) s uniqueInOrder_props(1) by (simp add: listOk_def)
  qed (use t(6) l in simp)
qed

end
