(* ===== verification/TxPool.thy ===== *)
theory TxPool
  imports TxList
begin

text \<open>
  The transaction pool, \<open>elements/transaction-pool/src/transaction_pool.ts\<close>. The pool keeps
  every transaction by its identifier, the transactions of each account in a \<open>txList\<close>, and a
  heap of fee priorities. Both dictionaries are \<open>BufferMap\<close>s, JavaScript objects that
  enumerate in the order of insertion, hence association lists here.

  \<open>add\<close> and \<open>reorganize\<close> wait for the verification of a transaction, and any other
  operation can run in the meantime. They are split where the code awaits: \<open>addStart\<close> ends and
  \<open>addFinish\<close> begins at the \<open>await\<close> of \<open>add\<close>. An exception is an \<open>Inl\<close>;
  \<open>as TransactionList\<close> casts of an undefined value throw when the value is used.

  \<open>poolOk\<close> is the consistency of the three structures and the size limit.
\<close>

section \<open>Buffer maps\<close>

type_synonym 'v bufferMap = "(bytes \<times> 'v) list"

definition bmGet :: "'v bufferMap \<Rightarrow> bytes \<Rightarrow> 'v option" where
  "bmGet d k = map_of d k"

definition bmHas :: "'v bufferMap \<Rightarrow> bytes \<Rightarrow> bool" where
  "bmHas d k = (bmGet d k \<noteq> None)"

definition bmDelete :: "bytes \<Rightarrow> 'v bufferMap \<Rightarrow> 'v bufferMap" where
  "bmDelete k d = filter (\<lambda>e. fst e \<noteq> k) d"

primrec bmSet :: "bytes \<Rightarrow> 'v \<Rightarrow> 'v bufferMap \<Rightarrow> 'v bufferMap" where
  "bmSet k v [] = [(k, v)]"
| "bmSet k v (e # d) = (if fst e = k then (k, v) # d else e # bmSet k v d)"

definition bmValues :: "'v bufferMap \<Rightarrow> 'v list" where
  "bmValues d = map snd d"

definition bmSize :: "'v bufferMap \<Rightarrow> nat" where
  "bmSize d = length d"

lemma get_delete [simp]: "bmGet (bmDelete k d) j = (if j = k then None else bmGet d j)"
  by (induction d) (auto simp: bmGet_def bmDelete_def)

lemma get_set [simp]: "bmGet (bmSet k v d) j = (if j = k then Some v else bmGet d j)"
  by (induction d) (auto simp: bmGet_def)

lemma keys_delete: "map fst (bmDelete k d) = filter (\<lambda>j. j \<noteq> k) (map fst d)"
  by (induction d) (auto simp: bmDelete_def)

lemma keys_set: "map fst (bmSet k v d) = (if k \<in> set (map fst d) then map fst d else map fst d @ [k])"
  by (induction d) auto

lemma distinct_delete [simp]: "distinct (map fst d) \<Longrightarrow> distinct (map fst (bmDelete k d))"
  by (simp add: keys_delete)

lemma distinct_set [simp]: "distinct (map fst d) \<Longrightarrow> distinct (map fst (bmSet k v d))"
  by (simp add: keys_set)

lemma get_iff_mem: "distinct (map fst d) \<Longrightarrow> bmGet d k = Some v \<longleftrightarrow> (k, v) \<in> set d"
  by (simp add: bmGet_def)

lemma get_none: "bmGet d k = None \<longleftrightarrow> k \<notin> set (map fst d)"
  by (simp add: bmGet_def map_of_eq_None_iff)

lemma size_delete: "distinct (map fst d) \<Longrightarrow> bmGet d k \<noteq> None \<Longrightarrow> Suc (bmSize (bmDelete k d)) = bmSize d"
proof (induction d)
  case (Cons e d)
  show ?case
  proof (cases "fst e = k")
    case True
    then have "k \<notin> fst ` set d" using Cons.prems(1) by simp
    then have "\<forall>x \<in> set d. fst x \<noteq> k" by (metis image_eqI)
    then have "bmDelete k d = d" by (simp add: bmDelete_def)
    then show ?thesis using True by (simp add: bmDelete_def bmSize_def)
  next
    case False
    then have "bmGet d k \<noteq> None" using Cons.prems(2) by (cases e) (simp add: bmGet_def)
    then show ?thesis using Cons False by (simp add: bmDelete_def bmSize_def)
  qed
qed (simp add: bmGet_def)

lemma size_set: "bmSize (bmSet k v d) = (if bmGet d k = None then Suc (bmSize d) else bmSize d)"
proof -
  have "length (map fst (bmSet k v d)) = (if bmGet d k = None then Suc (length (map fst d)) else length (map fst d))"
    unfolding keys_set get_none by simp
  then show ?thesis by (simp add: bmSize_def)
qed

lemma values_set: "distinct (map fst d) \<Longrightarrow> v \<in> set (bmValues d) \<longleftrightarrow> (\<exists>k. bmGet d k = Some v)"
  by (auto simp: bmValues_def get_iff_mem image_iff) (metis snd_conv)

section \<open>State\<close>

record poolConfig =
  maxTransactions :: nat
  maxTransactionsPerAccount :: nat
  transactionExpiryTime :: int
  minEntranceFeePriority :: int
  poolMinReplacementFeeDifference :: int
  maxPayloadLength :: nat
  poolHash :: "bytes \<Rightarrow> bytes"

datatype txStatus = INVALID | UNPROCESSABLE | PROCESSABLE

datatype poolEvent =
    TransactionRemoved bytes int bytes string
  | TransactionAdded ptx

record pool =
  allTransactions :: "ptx bufferMap"
  transactionList :: "txList bufferMap"
  feePriorityQueue :: "bytes hnode list"
  poolEvents :: "poolEvent list"
  nextListRef :: nat

datatype addResponse = StatusOk | StatusFail string

definition newPool :: pool where
  "newPool = \<lparr>allTransactions = [], transactionList = [], feePriorityQueue = [], poolEvents = [], nextListRef = 0\<rparr>"

definition addressOf :: "poolConfig \<Rightarrow> bytes \<Rightarrow> bytes" where
  "addressOf cfg publicKey = take 20 (poolHash cfg publicKey)"

definition poolEmit :: "poolEvent \<Rightarrow> pool \<Rightarrow> pool" where
  "poolEmit e p = p\<lparr>poolEvents := poolEvents p @ [e]\<rparr>"

definition emitRemoved :: "ptx \<Rightarrow> string \<Rightarrow> pool \<Rightarrow> pool" where
  "emitRemoved tx reason = poolEmit (TransactionRemoved (txId tx) (txNonce tx) (txSenderPublicKey tx) reason)"

section \<open>Operations\<close>

definition getAll :: "pool \<Rightarrow> ptx list" where
  "getAll p = bmValues (allTransactions p)"

definition poolGet :: "pool \<Rightarrow> bytes \<Rightarrow> ptx option" where
  "poolGet p i = bmGet (allTransactions p) i"

definition poolContains :: "pool \<Rightarrow> bytes \<Rightarrow> bool" where
  "poolContains p i = bmHas (allTransactions p) i"

text \<open>Fees are unsigned and a transaction is never empty, so the division rounds down; \<open>add\<close> has the case of an empty one.\<close>

definition calculateFeePriority :: "ptx \<Rightarrow> int" where
  "calculateFeePriority tx = txFee tx div int (txLength tx)"

definition getProcessableTransactions :: "pool \<Rightarrow> ptx list bufferMap" where
  "getProcessableTransactions p =
     foldl (\<lambda>r l. if length (getProcessable l) \<noteq> 0 then bmSet (listAddress l) (getProcessable l) r else r) [] (bmValues (transactionList p))"

definition rebuildQueue :: "pool \<Rightarrow> pool" where
  "rebuildQueue p =
     p\<lparr>feePriorityQueue :=
        pushAll (<) (map (\<lambda>t. (case feePriority t of Some f \<Rightarrow> f | None \<Rightarrow> calculateFeePriority t, txId t)) (getAll p)) []\<rparr>"

definition poolRemove :: "poolConfig \<Rightarrow> ptx \<Rightarrow> (pool, bool) m" where
  "poolRemove cfg tx p =
     (case bmGet (allTransactions p) (txId tx) of
        None \<Rightarrow> (Inr False, p)
      | Some foundTx \<Rightarrow>
          let p = p\<lparr>allTransactions := bmDelete (txId tx) (allTransactions p)\<rparr>;
              senderId = addressOf cfg (txSenderPublicKey foundTx)
          in case bmGet (transactionList p) senderId of
               None \<Rightarrow> (Inl (Error ''TypeError''), p)
             | Some l \<Rightarrow>
                 let l = snd (listRemove (txNonce tx) l);
                     p = p\<lparr>transactionList := bmSet senderId l (transactionList p)\<rparr>;
                     p = (if length (nonceHeap l) = 0 then p\<lparr>transactionList := bmDelete senderId (transactionList p)\<rparr> else p)
                 in (Inr True, rebuildQueue p))"

definition evictFirst :: "poolConfig \<Rightarrow> ptx hnode list \<Rightarrow> (pool, bool) m" where
  "evictFirst cfg candidates p =
     (let h = pushAll (<) candidates [] in
      if length h < 1 then (Inr False, p)
      else case heapPop (<) h of
             (None, _) \<Rightarrow> (Inr False, p)
           | (Some n, _) \<Rightarrow> poolRemove cfg (snd n) (emitRemoved (snd n) ''Pool exceeded the size limit'' p))"

definition withPriority :: "ptx \<Rightarrow> ptx hnode" where
  "withPriority t = (the (feePriority t), t)"

definition evictUnprocessable :: "poolConfig \<Rightarrow> (pool, bool) m" where
  "evictUnprocessable cfg p =
     evictFirst cfg (concat (map (\<lambda>l. map withPriority (getUnprocessable l)) (bmValues (transactionList p)))) p"

definition evictProcessable :: "poolConfig \<Rightarrow> (pool, bool) m" where
  "evictProcessable cfg p =
     evictFirst cfg
       (concat (map (\<lambda>l. if length (getProcessable l) \<noteq> 0 then [withPriority (last (getProcessable l))] else []) (bmValues (transactionList p)))) p"

datatype addProgress =
    Responded addResponse
  | AwaitVerify ptx

definition addStart :: "poolConfig \<Rightarrow> ptx \<Rightarrow> (pool, addProgress) m" where
  "addStart cfg tx p =
     (if txLength tx > maxPayloadLength cfg then (Inr (Responded (StatusFail ''Transaction byte length is greater'')), p)
      else if bmHas (allTransactions p) (txId tx) then (Inr (Responded StatusOk), p)
      else if txLength tx = 0 then (Inl (Error ''RangeError: Division by zero''), p)
      else
        let tx = tx\<lparr>feePriority := Some (calculateFeePriority tx)\<rparr> in
        if calculateFeePriority tx < minEntranceFeePriority cfg then
          (Inr (Responded (StatusFail ''Rejecting transaction due to failed minimum entrance fee priority requirement.'')), p)
        else if bmSize (allTransactions p) \<ge> maxTransactions cfg \<and>
                (case heapPeek (feePriorityQueue p) of None \<Rightarrow> False | Some n \<Rightarrow> calculateFeePriority tx \<le> fst n) then
          if sum_list (map (\<lambda>l. length (getUnprocessable l)) (bmValues (transactionList p))) \<ge> maxTransactions cfg div 2 then
            bind (evictUnprocessable cfg) (\<lambda>_. ret (AwaitVerify tx)) p
          else (Inr (Responded (StatusFail ''Rejecting transaction due to fee priority when the pool is full.'')), p)
        else (Inr (AwaitVerify tx), p))"

definition evictIfFull :: "poolConfig \<Rightarrow> (pool, unit) m" where
  "evictIfFull cfg p =
     (if bmSize (allTransactions p) \<ge> maxTransactions cfg
      then bind (evictUnprocessable cfg) (\<lambda>isEvicted. whenM (\<not> isEvicted) (andThen (evictProcessable cfg) (ret ()))) p
      else (Inr (), p))"

definition ensureList :: "poolConfig \<Rightarrow> bytes \<Rightarrow> pool \<Rightarrow> pool" where
  "ensureList cfg addr p =
     (if bmHas (transactionList p) addr then p
      else p\<lparr>transactionList := bmSet addr (newTransactionList (nextListRef p) addr (maxTransactionsPerAccount cfg) (poolMinReplacementFeeDifference cfg)) (transactionList p),
             nextListRef := nextListRef p + 1\<rparr>)"

definition dropReplaced :: "bytes option \<Rightarrow> (pool, unit) m" where
  "dropReplaced removedID p =
     (case removedID of
        None \<Rightarrow> (Inr (), p)
      | Some i \<Rightarrow>
          (case bmGet (allTransactions p) i of
             None \<Rightarrow> (Inl (Error ''TypeError''), p\<lparr>allTransactions := bmDelete i (allTransactions p)\<rparr>)
           | Some t \<Rightarrow> (Inr (), emitRemoved t ''Transaction List executed remove'' (p\<lparr>allTransactions := bmDelete i (allTransactions p)\<rparr>))))"

definition register :: "ptx \<Rightarrow> pool \<Rightarrow> pool" where
  "register tx p =
     poolEmit (TransactionAdded tx)
       (p\<lparr>allTransactions := bmSet (txId tx) tx (allTransactions p),
          feePriorityQueue := heapPush (<) (calculateFeePriority tx) (txId tx) (feePriorityQueue p)\<rparr>)"

text \<open>
  The list and the dictionary hold the same object, so the time of receipt, which the code
  attaches to it after adding it to the list, is there from the start.
\<close>

definition addToList :: "poolConfig \<Rightarrow> txStatus \<Rightarrow> ptx \<Rightarrow> (pool, addResponse) m" where
  "addToList cfg txStatus tx p =
     (let addr = addressOf cfg (txSenderPublicKey tx);
          p = ensureList cfg addr p
      in case bmGet (transactionList p) addr of
           None \<Rightarrow> (Inl (Error ''TypeError''), p)
         | Some l \<Rightarrow>
             (case listAdd tx (txStatus = PROCESSABLE) l of
                (NotAdded reason, l') \<Rightarrow> (Inr (StatusFail reason), p\<lparr>transactionList := bmSet addr l' (transactionList p)\<rparr>)
              | (Added removedID, l') \<Rightarrow>
                  andThen (dropReplaced removedID) (andThen (modify (register tx)) (ret StatusOk))
                    (p\<lparr>transactionList := bmSet addr l' (transactionList p)\<rparr>)))"

definition addFinish :: "poolConfig \<Rightarrow> int \<Rightarrow> txStatus \<Rightarrow> ptx \<Rightarrow> (pool, addResponse) m" where
  "addFinish cfg now txStatus tx p =
     (if txStatus = INVALID then (Inr (StatusFail ''Invalid transaction''), p)
      else andThen (evictIfFull cfg) (addToList cfg txStatus (tx\<lparr>receivedAt := Some now\<rparr>)) p)"

section \<open>Consistency\<close>

type_synonym idContent = "bytes \<Rightarrow> int \<times> int \<times> bytes \<times> nat"

text \<open>
  The identifier is the hash of the signed bytes, so it determines the transaction: \<open>idc\<close> is the
  content behind an identifier.
\<close>

definition txOk :: "idContent \<Rightarrow> ptx \<Rightarrow> bool" where
  "txOk idc t = (idc (txId t) = (txNonce t, txFee t, txSenderPublicKey t, txLength t) \<and> 0 \<le> txNonce t \<and> 0 < txLength t)"

definition poolOk :: "poolConfig \<Rightarrow> idContent \<Rightarrow> pool \<Rightarrow> bool" where
  "poolOk cfg idc p =
     (distinct (map fst (allTransactions p)) \<and> distinct (map fst (transactionList p)) \<and>
      (\<forall>i t. bmGet (allTransactions p) i = Some t \<longrightarrow> txId t = i \<and> txOk idc t \<and> feePriority t = Some (calculateFeePriority t) \<and> receivedAt t \<noteq> None) \<and>
      (\<forall>a l. bmGet (transactionList p) a = Some l \<longrightarrow> listOk l \<and> listAddress l = a \<and> listRef l < nextListRef p \<and> maxSize l = maxTransactionsPerAccount cfg) \<and>
      (\<forall>a b l k. bmGet (transactionList p) a = Some l \<longrightarrow> bmGet (transactionList p) b = Some k \<longrightarrow> listRef l = listRef k \<longrightarrow> a = b) \<and>
      (\<forall>a l n t. bmGet (transactionList p) a = Some l \<longrightarrow> transactions l n = Some t \<longrightarrow>
         bmGet (allTransactions p) (txId t) = Some t \<and> addressOf cfg (txSenderPublicKey t) = a) \<and>
      (\<forall>i t. bmGet (allTransactions p) i = Some t \<longrightarrow>
         (\<exists>l. bmGet (transactionList p) (addressOf cfg (txSenderPublicKey t)) = Some l \<and> transactions l (txNonce t) = Some t)) \<and>
      heapOk (<) (feePriorityQueue p) \<and>
      (\<forall>i t. bmGet (allTransactions p) i = Some t \<longrightarrow> (calculateFeePriority t, i) \<in> set (feePriorityQueue p)) \<and>
      bmSize (allTransactions p) \<le> maxTransactions cfg)"


lemma poolOk_all:
  assumes "poolOk cfg idc p"
  shows "distinct (map fst (allTransactions p))"
    and "bmGet (allTransactions p) i = Some t \<Longrightarrow> txId t = i \<and> txOk idc t \<and> feePriority t = Some (calculateFeePriority t) \<and> receivedAt t \<noteq> None"
    and "bmGet (allTransactions p) i = Some t \<Longrightarrow> \<exists>l. bmGet (transactionList p) (addressOf cfg (txSenderPublicKey t)) = Some l \<and> transactions l (txNonce t) = Some t"
    and "bmSize (allTransactions p) \<le> maxTransactions cfg"
  using assms unfolding poolOk_def by simp_all

lemma poolOk_lists:
  assumes "poolOk cfg idc p"
  shows "distinct (map fst (transactionList p))"
    and "bmGet (transactionList p) a = Some l \<Longrightarrow> listOk l \<and> listAddress l = a \<and> listRef l < nextListRef p \<and> maxSize l = maxTransactionsPerAccount cfg"
    and "bmGet (transactionList p) a = Some l \<Longrightarrow> bmGet (transactionList p) b = Some k \<Longrightarrow> listRef l = listRef k \<Longrightarrow> a = b"
    and "bmGet (transactionList p) a = Some l \<Longrightarrow> transactions l n = Some t \<Longrightarrow> bmGet (allTransactions p) (txId t) = Some t \<and> addressOf cfg (txSenderPublicKey t) = a"
  using assms unfolding poolOk_def by simp_all

lemma poolOk_queue:
  assumes "poolOk cfg idc p"
  shows "heapOk (<) (feePriorityQueue p)"
    and "bmGet (allTransactions p) i = Some t \<Longrightarrow> (calculateFeePriority t, i) \<in> set (feePriorityQueue p)"
  using assms unfolding poolOk_def by simp_all

text \<open>The obligations of a state in which only the dictionaries changed, with the rest of the invariant given.\<close>

lemma poolOk_intro:
  assumes "distinct (map fst (allTransactions p))" "distinct (map fst (transactionList p))"
    "\<And>i t. bmGet (allTransactions p) i = Some t \<Longrightarrow> txId t = i \<and> txOk idc t \<and> feePriority t = Some (calculateFeePriority t) \<and> receivedAt t \<noteq> None"
    "\<And>a l. bmGet (transactionList p) a = Some l \<Longrightarrow> listOk l \<and> listAddress l = a \<and> listRef l < nextListRef p \<and> maxSize l = maxTransactionsPerAccount cfg"
    "\<And>a b l k. bmGet (transactionList p) a = Some l \<Longrightarrow> bmGet (transactionList p) b = Some k \<Longrightarrow> listRef l = listRef k \<Longrightarrow> a = b"
    "\<And>a l n t. bmGet (transactionList p) a = Some l \<Longrightarrow> transactions l n = Some t \<Longrightarrow> bmGet (allTransactions p) (txId t) = Some t \<and> addressOf cfg (txSenderPublicKey t) = a"
    "\<And>i t. bmGet (allTransactions p) i = Some t \<Longrightarrow> \<exists>l. bmGet (transactionList p) (addressOf cfg (txSenderPublicKey t)) = Some l \<and> transactions l (txNonce t) = Some t"
    "heapOk (<) (feePriorityQueue p)" "\<And>i t. bmGet (allTransactions p) i = Some t \<Longrightarrow> (calculateFeePriority t, i) \<in> set (feePriorityQueue p)"
    "bmSize (allTransactions p) \<le> maxTransactions cfg"
  shows "poolOk cfg idc p"
  unfolding poolOk_def by (intro conjI allI impI assms; assumption)

lemma new_poolOk: "poolOk cfg idc newPool"
  by (simp add: poolOk_def newPool_def bmGet_def bmSize_def heapOk_def)

lemma poolOk_poolEmit [simp]: "poolOk cfg idc (poolEmit e p) = poolOk cfg idc p" "poolOk cfg idc (emitRemoved t r p) = poolOk cfg idc p"
  by (simp_all add: poolOk_def poolEmit_def emitRemoved_def)

lemma emit_frame [simp]:
  "allTransactions (poolEmit e p) = allTransactions p" "transactionList (poolEmit e p) = transactionList p"
  "allTransactions (emitRemoved t r p) = allTransactions p" "transactionList (emitRemoved t r p) = transactionList p"
  "nextListRef (poolEmit e p) = nextListRef p" "nextListRef (emitRemoved t r p) = nextListRef p"
  by (simp_all add: poolEmit_def emitRemoved_def)

lemma rebuild_frame [simp]:
  "allTransactions (rebuildQueue p) = allTransactions p" "transactionList (rebuildQueue p) = transactionList p" "nextListRef (rebuildQueue p) = nextListRef p"
  by (simp_all add: rebuildQueue_def)

lemma rebuild_queue:
  assumes "distinct (map fst (allTransactions p))" "\<And>i t. bmGet (allTransactions p) i = Some t \<Longrightarrow> txId t = i \<and> feePriority t = Some (calculateFeePriority t)"
  shows "heapOk (<) (feePriorityQueue (rebuildQueue p))"
    "(f, i) \<in> set (feePriorityQueue (rebuildQueue p)) \<longleftrightarrow> (\<exists>t. bmGet (allTransactions p) i = Some t \<and> f = calculateFeePriority t)"
proof -
  let ?ns = "map (\<lambda>t. (case feePriority t of Some f \<Rightarrow> f | None \<Rightarrow> calculateFeePriority t, txId t)) (getAll p)"
  have h: "heapOk (<) (pushAll (<) ?ns [])" "mset (pushAll (<) ?ns []) = mset ?ns" using pushAll_heap[OF min_order.heap_nil(1), of ?ns] by simp_all
  show "heapOk (<) (feePriorityQueue (rebuildQueue p))" using h(1) by (simp add: rebuildQueue_def)
  have "feePriorityQueue (rebuildQueue p) = pushAll (<) ?ns []" unfolding rebuildQueue_def by simp
  then have "set (feePriorityQueue (rebuildQueue p)) = set ?ns" using mset_eq_setD[OF h(2)] by simp
  moreover have "(f, i) \<in> set ?ns \<longleftrightarrow> (\<exists>t. bmGet (allTransactions p) i = Some t \<and> f = calculateFeePriority t)"
  proof
    assume "(f, i) \<in> set ?ns"
    then obtain t where t: "t \<in> set (getAll p)" "f = (case feePriority t of Some f \<Rightarrow> f | None \<Rightarrow> calculateFeePriority t)" "i = txId t" by auto
    then obtain j where j: "bmGet (allTransactions p) j = Some t" using values_set[OF assms(1)] by (auto simp: getAll_def)
    then show "\<exists>t. bmGet (allTransactions p) i = Some t \<and> f = calculateFeePriority t" using assms(2)[OF j] t by auto
  next
    assume "\<exists>t. bmGet (allTransactions p) i = Some t \<and> f = calculateFeePriority t"
    then obtain t where t: "bmGet (allTransactions p) i = Some t" "f = calculateFeePriority t" by blast
    then have "t \<in> set (getAll p)" using values_set[OF assms(1)] by (auto simp: getAll_def)
    then show "(f, i) \<in> set ?ns" using assms(2)[OF t(1)] t(2) by force
  qed
  ultimately show "(f, i) \<in> set (feePriorityQueue (rebuildQueue p)) \<longleftrightarrow> (\<exists>t. bmGet (allTransactions p) i = Some t \<and> f = calculateFeePriority t)" by blast
qed

lemma same_content: "txOk idc t \<Longrightarrow> txOk idc u \<Longrightarrow> txId t = txId u \<Longrightarrow> txNonce t = txNonce u \<and> txFee t = txFee u \<and> txSenderPublicKey t = txSenderPublicKey u"
  by (simp add: txOk_def)

text \<open>Removing a transaction: nothing happens for an unknown one, and a known one disappears from all three structures.\<close>

lemma remove_unknown: "bmGet (allTransactions p) (txId t) = None \<Longrightarrow> poolRemove cfg t p = (Inr False, p)"
  by (simp add: poolRemove_def)

lemma remove_known:
  assumes ok: "poolOk cfg idc p" and t: "txOk idc t" and f: "bmGet (allTransactions p) (txId t) = Some found"
  shows "\<exists>p'. poolRemove cfg t p = (Inr True, p') \<and> poolOk cfg idc p' \<and> allTransactions p' = bmDelete (txId t) (allTransactions p) \<and>
           (\<forall>a. a \<noteq> addressOf cfg (txSenderPublicKey t) \<longrightarrow> bmGet (transactionList p') a = bmGet (transactionList p) a) \<and>
           (\<forall>f i. (f, i) \<in> set (feePriorityQueue p') \<longleftrightarrow> (\<exists>u. bmGet (allTransactions p') i = Some u \<and> f = calculateFeePriority u)) \<and>
           nextListRef p' = nextListRef p"
proof -
  let ?a = "addressOf cfg (txSenderPublicKey t)"
  have fo: "txId found = txId t" "txOk idc found" using poolOk_all(2)[OF ok f] by auto
  have sc: "txNonce found = txNonce t" "txSenderPublicKey found = txSenderPublicKey t" using same_content[OF fo(2) t fo(1)] by auto
  obtain l where l: "bmGet (transactionList p) ?a = Some l" "transactions l (txNonce t) = Some found" using poolOk_all(3)[OF ok f] sc by auto
  have lok: "listOk l" "listAddress l = ?a" "listRef l < nextListRef p" "maxSize l = maxTransactionsPerAccount cfg" using poolOk_lists(2)[OF ok l(1)] by auto
  obtain x l' where r: "listRemove (txNonce t) l = (x, l')" by (meson surj_pair)
  note e = remove_effect[OF lok(1) r]
  let ?all = "bmDelete (txId t) (allTransactions p)"
  let ?p1 = "p\<lparr>allTransactions := ?all, transactionList := bmSet ?a l' (transactionList p)\<rparr>"
  let ?p2 = "if length (nonceHeap l') = 0 then ?p1\<lparr>transactionList := bmDelete ?a (transactionList ?p1)\<rparr> else ?p1"
  let ?p' = "rebuildQueue ?p2"
  have run: "poolRemove cfg t p = (Inr True, ?p')" using f l(1) r sc by (simp add: poolRemove_def Let_def)
  have al: "allTransactions ?p' = ?all" "nextListRef ?p' = nextListRef p" by simp_all
  have empty: "transactions l' n = None" if "length (nonceHeap l') = 0" for n
    using that listOk_dest(3)[OF e(1), of n] nonces_basic(1)[of l'] by auto
  have look: "bmGet (transactionList ?p') a = (if a = ?a then if length (nonceHeap l') = 0 then None else Some l' else bmGet (transactionList p) a)" for a by simp
  have all': "txId u = i \<and> txOk idc u \<and> feePriority u = Some (calculateFeePriority u) \<and> receivedAt u \<noteq> None" if "bmGet ?all i = Some u" for i u
    using poolOk_all(2)[OF ok, of i u] that by (simp split: if_splits)
  have al2: "allTransactions ?p2 = ?all" by simp
  have d2: "distinct (map fst (allTransactions ?p2))" unfolding al2 by (rule distinct_delete[OF poolOk_all(1)[OF ok]])
  have i2: "txId u = i \<and> feePriority u = Some (calculateFeePriority u)" if "bmGet (allTransactions ?p2) i = Some u" for i u
    using all'[of i u] that unfolding al2 by blast
  have q: "heapOk (<) (feePriorityQueue ?p')" "(f, i) \<in> set (feePriorityQueue ?p') \<longleftrightarrow> (\<exists>u. bmGet ?all i = Some u \<and> f = calculateFeePriority u)" for f i
    using rebuild_queue[OF d2 i2] unfolding al2 by blast+
  have uniq: "txId u \<noteq> txId t" if "transactions l n = Some u" "n \<noteq> txNonce t" for n u
  proof
    assume i: "txId u = txId t"
    have "bmGet (allTransactions p) (txId u) = Some u" using poolOk_lists(4)[OF ok l(1) that(1)] by simp
    then have "u = found" using i f by simp
    then show False using listOk_dest(4)[OF lok(1) that(1)] sc that(2) by simp
  qed
  have "poolOk cfg idc ?p'"
  proof (rule poolOk_intro)
    show "distinct (map fst (allTransactions ?p'))" "distinct (map fst (transactionList ?p'))" using poolOk_all(1)[OF ok] poolOk_lists(1)[OF ok] by simp_all
    show "txId u = i \<and> txOk idc u \<and> feePriority u = Some (calculateFeePriority u) \<and> receivedAt u \<noteq> None" if "bmGet (allTransactions ?p') i = Some u" for i u
      using that all' unfolding al by blast
    show "listOk k \<and> listAddress k = a \<and> listRef k < nextListRef ?p' \<and> maxSize k = maxTransactionsPerAccount cfg" if "bmGet (transactionList ?p') a = Some k" for a k
      using that poolOk_lists(2)[OF ok] e(1,5,6,7) lok unfolding look al by (auto split: if_splits)
    show "a = b" if "bmGet (transactionList ?p') a = Some k" "bmGet (transactionList ?p') b = Some j" "listRef k = listRef j" for a b k j
      using that poolOk_lists(3)[OF ok] l(1) e(7) unfolding look by (metis option.inject option.distinct(1))
    show "bmGet (allTransactions ?p') (txId u) = Some u \<and> addressOf cfg (txSenderPublicKey u) = a" if "bmGet (transactionList ?p') a = Some k" "transactions k n = Some u" for a k n u
    proof (cases "a = ?a")
      case True
      then have "k = l'" using that(1) unfolding look by (simp split: if_splits)
      then have u: "transactions l n = Some u" "n \<noteq> txNonce t" using that(2) e(3) by (simp_all split: if_splits)
      then show ?thesis using poolOk_lists(4)[OF ok l(1) u(1)] uniq[OF u] True by simp
    next
      case False
      then have "bmGet (transactionList p) a = Some k" using that(1) unfolding look by simp
      note u = poolOk_lists(4)[OF ok this that(2)]
      have "txId u \<noteq> txId t" using u f False sc by auto
      then show ?thesis using u by simp
    qed
    show "\<exists>k. bmGet (transactionList ?p') (addressOf cfg (txSenderPublicKey u)) = Some k \<and> transactions k (txNonce u) = Some u" if "bmGet (allTransactions ?p') i = Some u" for i u
    proof -
      have i: "i \<noteq> txId t" "bmGet (allTransactions p) i = Some u" using that unfolding al by (simp_all split: if_splits)
      obtain k where k: "bmGet (transactionList p) (addressOf cfg (txSenderPublicKey u)) = Some k" "transactions k (txNonce u) = Some u" using poolOk_all(3)[OF ok i(2)] by blast
      show ?thesis
      proof (cases "addressOf cfg (txSenderPublicKey u) = ?a")
        case True
        then have "k = l" using k l by simp
        moreover have "txNonce u \<noteq> txNonce t" using calculation k l f i poolOk_all(2)[OF ok i(2)] sc fo(1) by auto
        ultimately have u: "transactions l' (txNonce u) = Some u" using k e(3) by simp
        then have "length (nonceHeap l') \<noteq> 0" using empty by fastforce
        then show ?thesis using u True unfolding look by simp
      qed (use k in \<open>unfold look, simp\<close>)
    qed
    show "(calculateFeePriority u, i) \<in> set (feePriorityQueue ?p')" if "bmGet (allTransactions ?p') i = Some u" for i u using that q(2) unfolding al by blast
    show "bmSize (allTransactions ?p') \<le> maxTransactions cfg" using size_delete[OF poolOk_all(1)[OF ok], of "txId t"] f poolOk_all(4)[OF ok] unfolding al by simp
  qed (rule q(1))
  then show ?thesis using run al look q(2) by (intro exI[of _ ?p']) simp
qed


section \<open>Eviction\<close>

lemma list_tx:
  assumes ok: "poolOk cfg idc p" and l: "l \<in> set (bmValues (transactionList p))" and n: "n \<in> set (nonces l)"
  shows "bmGet (allTransactions p) (txId (txAt l n)) = Some (txAt l n)"
proof -
  obtain a where a: "bmGet (transactionList p) a = Some l" using l values_set[OF poolOk_lists(1)[OF ok]] by blast
  then have "listOk l" using poolOk_lists(2)[OF ok] by blast
  then show ?thesis using txAt_nonce[OF _ n] poolOk_lists(4)[OF ok a] by blast
qed

lemma lists_ok: "poolOk cfg idc p \<Longrightarrow> l \<in> set (bmValues (transactionList p)) \<Longrightarrow> listOk l"
  using values_set[OF poolOk_lists(1)] poolOk_lists(2) by blast

lemma processable_nonces: "listOk l \<Longrightarrow> n \<in> set (processable l) \<Longrightarrow> n \<in> set (nonces l)"
  using listOk_dest(3,7) by blast

lemma evictFirst_effect:
  assumes ok: "poolOk cfg idc p" and c: "\<And>f t. (f, t) \<in> set cs \<Longrightarrow> bmGet (allTransactions p) (txId t) = Some t"
  shows "if cs = [] then evictFirst cfg cs p = (Inr False, p)
         else \<exists>f t p'. (f, t) \<in> set cs \<and> (\<forall>n \<in> set cs. f \<le> fst n) \<and> evictFirst cfg cs p = (Inr True, p') \<and> poolOk cfg idc p' \<and>
                allTransactions p' = bmDelete (txId t) (allTransactions p)"
proof (cases "cs = []")
  case False
  note h = pushAll_heap[OF min_order.heap_nil(1), of cs]
  have ne: "pushAll (<) cs [] \<noteq> []" and st: "set (pushAll (<) cs []) = set cs" using h False by (auto dest: mset_eq_setD)
  obtain n r where n: "heapPop (<) (pushAll (<) cs []) = (Some n, r)" "\<forall>m \<in> set (pushAll (<) cs []). \<not> fst m < fst n"
    "mset (pushAll (<) cs []) = add_mset n (mset r)"
    using min_order.heap_queue[OF _ ne] h by blast
  have mem: "n \<in> set cs" using n(3) st by (metis insertI1 set_mset_add_mset_insert set_mset_mset)
  then have f: "bmGet (allTransactions p) (txId (snd n)) = Some (snd n)" using c[of "fst n" "snd n"] by simp
  then have t: "txOk idc (snd n)" using poolOk_all(2)[OF ok] by blast
  have "poolOk cfg idc (emitRemoved (snd n) ''Pool exceeded the size limit'' p)" using ok by simp
  from remove_known[OF this t] f obtain p' where p': "poolRemove cfg (snd n) (emitRemoved (snd n) ''Pool exceeded the size limit'' p) = (Inr True, p')"
    "poolOk cfg idc p'" "allTransactions p' = bmDelete (txId (snd n)) (allTransactions p)" by auto
  have "evictFirst cfg cs p = (Inr True, p')" using n(1) ne p'(1) by (simp add: evictFirst_def Let_def)
  moreover have "\<forall>m \<in> set cs. fst n \<le> fst m" using n(2) st by (simp add: not_less)
  ultimately show ?thesis using mem p' False by (metis prod.collapse)
qed (simp add: evictFirst_def)

definition unprocessableCandidates :: "pool \<Rightarrow> ptx hnode list" where
  "unprocessableCandidates p = concat (map (\<lambda>l. map withPriority (getUnprocessable l)) (bmValues (transactionList p)))"

definition processableCandidates :: "pool \<Rightarrow> ptx hnode list" where
  "processableCandidates p =
     concat (map (\<lambda>l. if length (getProcessable l) \<noteq> 0 then [withPriority (last (getProcessable l))] else []) (bmValues (transactionList p)))"

lemma candidates_in_pool:
  assumes ok: "poolOk cfg idc p"
  shows "(f, t) \<in> set (unprocessableCandidates p) \<Longrightarrow> bmGet (allTransactions p) (txId t) = Some t"
    and "(f, t) \<in> set (processableCandidates p) \<Longrightarrow> bmGet (allTransactions p) (txId t) = Some t"
proof -
  assume "(f, t) \<in> set (unprocessableCandidates p)"
  then obtain l where l: "l \<in> set (bmValues (transactionList p))" "t \<in> set (getUnprocessable l)" by (auto simp: unprocessableCandidates_def withPriority_def)
  then obtain n where "n \<in> set (nonces l)" "t = txAt l n" using unprocessable_slice[OF lists_ok[OF ok l(1)]] by (auto dest: in_set_dropD)
  then show "bmGet (allTransactions p) (txId t) = Some t" using list_tx[OF ok l(1)] by blast
next
  assume "(f, t) \<in> set (processableCandidates p)"
  then obtain l where l: "l \<in> set (bmValues (transactionList p))" "getProcessable l \<noteq> []" "t = last (getProcessable l)"
    by (auto simp: processableCandidates_def withPriority_def split: if_splits)
  then obtain n where "n \<in> set (processable l)" "t = txAt l n" by (metis getProcessable_def imageE last_in_set list.set_map)
  then show "bmGet (allTransactions p) (txId t) = Some t" using list_tx[OF ok l(1)] processable_nonces[OF lists_ok[OF ok l(1)]] by blast
qed

lemma evict_effect:
  assumes ok: "poolOk cfg idc p"
  shows "if unprocessableCandidates p = [] then evictUnprocessable cfg p = (Inr False, p)
         else \<exists>f t p'. (f, t) \<in> set (unprocessableCandidates p) \<and> (\<forall>n \<in> set (unprocessableCandidates p). f \<le> fst n) \<and> evictUnprocessable cfg p = (Inr True, p') \<and>
                poolOk cfg idc p' \<and> allTransactions p' = bmDelete (txId t) (allTransactions p)"
    and "if processableCandidates p = [] then evictProcessable cfg p = (Inr False, p)
         else \<exists>f t p'. (f, t) \<in> set (processableCandidates p) \<and> (\<forall>n \<in> set (processableCandidates p). f \<le> fst n) \<and> evictProcessable cfg p = (Inr True, p') \<and>
                poolOk cfg idc p' \<and> allTransactions p' = bmDelete (txId t) (allTransactions p)"
  unfolding evictUnprocessable_def evictProcessable_def unprocessableCandidates_def[symmetric] processableCandidates_def[symmetric]
  by (rule evictFirst_effect[OF ok candidates_in_pool(1)[OF ok]], assumption, rule evictFirst_effect[OF ok candidates_in_pool(2)[OF ok]], assumption)

text \<open>A pool that is not empty has a transaction to evict.\<close>

lemma candidate_exists:
  assumes ok: "poolOk cfg idc p" and ne: "0 < bmSize (allTransactions p)" and u: "unprocessableCandidates p = []"
  shows "processableCandidates p \<noteq> []"
proof -
  obtain i t where "(i, t) \<in> set (allTransactions p)" using ne by (cases "allTransactions p") (auto simp: bmSize_def)
  then have f: "bmGet (allTransactions p) i = Some t" using get_iff_mem[OF poolOk_all(1)[OF ok]] by blast
  obtain l where l: "bmGet (transactionList p) (addressOf cfg (txSenderPublicKey t)) = Some l" "transactions l (txNonce t) = Some t" using poolOk_all(3)[OF ok f] by blast
  have v: "l \<in> set (bmValues (transactionList p))" using l(1) values_set[OF poolOk_lists(1)[OF ok]] by blast
  note lok = lists_ok[OF ok v]
  have "getUnprocessable l = []" using u v by (auto simp: unprocessableCandidates_def)
  then have "length (nonces l) \<le> length (processable l)" using unprocessable_slice[OF lok] by simp
  moreover have "nonces l \<noteq> []" using l(2) listOk_dest(3)[OF lok, of "txNonce t"] by auto
  ultimately have "length (getProcessable l) \<noteq> 0" by (cases "processable l") (auto simp: getProcessable_def)
  then have "withPriority (last (getProcessable l)) \<in> set (processableCandidates p)"
    using v unfolding processableCandidates_def set_concat set_map by (intro UN_I[OF imageI, of l]) simp_all
  then show ?thesis by (metis empty_iff empty_set)
qed

lemma evictIfFull_effect:
  assumes ok: "poolOk cfg idc p" and m: "1 \<le> maxTransactions cfg"
  shows "\<exists>p'. evictIfFull cfg p = (Inr (), p') \<and> poolOk cfg idc p' \<and> bmSize (allTransactions p') < maxTransactions cfg \<and>
           (\<forall>i t. bmGet (allTransactions p') i = Some t \<longrightarrow> bmGet (allTransactions p) i = Some t)"
proof (cases "bmSize (allTransactions p) \<ge> maxTransactions cfg")
  case True
  then have ne: "0 < bmSize (allTransactions p)" using m by simp
  have small: "bmSize (bmDelete (txId t) (allTransactions p)) < maxTransactions cfg" if "bmGet (allTransactions p) (txId t) = Some t" for t
    using size_delete[OF poolOk_all(1)[OF ok], of "txId t"] that poolOk_all(4)[OF ok] by simp
  show ?thesis
  proof (cases "unprocessableCandidates p = []")
    case False
    then obtain f t p' where e: "(f, t) \<in> set (unprocessableCandidates p)" "evictUnprocessable cfg p = (Inr True, p')" "poolOk cfg idc p'"
      "allTransactions p' = bmDelete (txId t) (allTransactions p)" using evict_effect(1)[OF ok] by auto
    then show ?thesis using small[OF candidates_in_pool(1)[OF ok e(1)]] True
      by (intro exI[of _ p']) (simp add: evictIfFull_def bind_def whenM_def ret_def)
  next
    case no: True
    then obtain f t p' where e: "(f, t) \<in> set (processableCandidates p)" "evictProcessable cfg p = (Inr True, p')" "poolOk cfg idc p'"
      "allTransactions p' = bmDelete (txId t) (allTransactions p)" using evict_effect(2)[OF ok] candidate_exists[OF ok ne no] by auto
    then show ?thesis using small[OF candidates_in_pool(2)[OF ok e(1)]] True evict_effect(1)[OF ok] no
      by (intro exI[of _ p']) (simp add: evictIfFull_def bind_def andThen_def whenM_def ret_def)
  qed
qed (use ok in \<open>simp add: evictIfFull_def\<close>)


section \<open>Addition\<close>

text \<open>Replacing a list by one with the same transactions.\<close>

lemma poolOk_relist:
  assumes ok: "poolOk cfg idc p" and l: "bmGet (transactionList p) a = Some l"
    and l': "listOk l'" "listAddress l' = listAddress l" "listRef l' = listRef l" "transactions l' = transactions l" "maxSize l' = maxSize l"
  shows "poolOk cfg idc (p\<lparr>transactionList := bmSet a l' (transactionList p)\<rparr>)" (is "poolOk cfg idc ?q")
proof -
  have prior: "\<exists>j. bmGet (transactionList p) b = Some j \<and> listAddress k = listAddress j \<and> listRef k = listRef j \<and> transactions k = transactions j \<and> maxSize k = maxSize j \<and> (listOk j \<longrightarrow> listOk k)"
    if "bmGet (transactionList ?q) b = Some k" for b k using that l l' by (auto split: if_splits)
  show ?thesis
  proof (rule poolOk_intro)
    show "listOk k \<and> listAddress k = b \<and> listRef k < nextListRef ?q \<and> maxSize k = maxTransactionsPerAccount cfg" if "bmGet (transactionList ?q) b = Some k" for b k
      using prior[OF that] poolOk_lists(2)[OF ok] by fastforce
    show "b = c" if "bmGet (transactionList ?q) b = Some k" "bmGet (transactionList ?q) c = Some j" "listRef k = listRef j" for b c k j
      using prior[OF that(1)] prior[OF that(2)] that(3) poolOk_lists(3)[OF ok] by metis
    show "bmGet (allTransactions ?q) (txId t) = Some t \<and> addressOf cfg (txSenderPublicKey t) = b"
      if "bmGet (transactionList ?q) b = Some k" "transactions k n = Some t" for b k n t
      using prior[OF that(1)] that(2) poolOk_lists(4)[OF ok] by fastforce
    show "\<exists>k. bmGet (transactionList ?q) (addressOf cfg (txSenderPublicKey t)) = Some k \<and> transactions k (txNonce t) = Some t" if "bmGet (allTransactions ?q) i = Some t" for i t
      using poolOk_all(3)[OF ok, of i t] that l l'(4) by auto
  qed (use poolOk_all[OF ok] poolOk_lists(1)[OF ok] poolOk_queue[OF ok] in simp_all)
qed

lemma ensureList_effect:
  assumes ok: "poolOk cfg idc p"
  shows "poolOk cfg idc (ensureList cfg a p)"
  proof (cases "bmHas (transactionList p) a")
    case False
    let ?l = "newTransactionList (nextListRef p) a (maxTransactionsPerAccount cfg) (poolMinReplacementFeeDifference cfg)"
    have new: "listOk ?l" "listAddress ?l = a" "listRef ?l = nextListRef p" "transactions ?l = Map.empty" "maxSize ?l = maxTransactionsPerAccount cfg" by (rule list_new) (simp_all add: newTransactionList_def)
    have e: "ensureList cfg a p = p\<lparr>transactionList := bmSet a ?l (transactionList p), nextListRef := nextListRef p + 1\<rparr>" using False by (simp add: ensureList_def)
    have no: "bmGet (transactionList p) a = None" using False by (simp add: bmHas_def)
    show ?thesis unfolding e
    proof (rule poolOk_intro, goal_cases)
      case (4 b l)
      then show ?case using new poolOk_lists(2)[OF ok, of b l] by (auto split: if_splits)
    next
      case (5 b c l k)
      have "listRef j \<noteq> nextListRef p" if "bmGet (transactionList p) d = Some j" for d j using poolOk_lists(2)[OF ok that] by simp
      then show ?case using 5 new(3) poolOk_lists(3)[OF ok, of b l c k] by (auto split: if_splits)
    next
      case (6 b l n t)
      then show ?case using new(4) poolOk_lists(4)[OF ok, of b l n t] by (auto split: if_splits)
    next
      case (7 i t)
      then obtain l where "bmGet (transactionList p) (addressOf cfg (txSenderPublicKey t)) = Some l \<and> transactions l (txNonce t) = Some t" using poolOk_all(3)[OF ok] by auto
      then show ?case using no by (cases "addressOf cfg (txSenderPublicKey t) = a") auto
    qed (use poolOk_all[OF ok] poolOk_lists(1)[OF ok] poolOk_queue[OF ok] in \<open>simp_all\<close>)
  qed (use ok in \<open>simp add: ensureList_def\<close>)

lemma ensureList_frame:
  "allTransactions (ensureList cfg a p) = allTransactions p" "bmGet (transactionList (ensureList cfg a p)) a \<noteq> None"
  "bmGet (transactionList p) b = Some l \<Longrightarrow> bmGet (transactionList (ensureList cfg a p)) b = Some l"
  "feePriorityQueue (ensureList cfg a p) = feePriorityQueue p" "nextListRef p \<le> nextListRef (ensureList cfg a p)"
  by (auto simp: ensureList_def bmHas_def)

text \<open>The transaction that enters the pool, and what leaves it for it.\<close>

lemma addToList_effect:
  assumes ok: "poolOk cfg idc p" and t: "txOk idc tx" "feePriority tx = Some (calculateFeePriority tx)" "receivedAt tx \<noteq> None"
    and sz: "bmSize (allTransactions p) < maxTransactions cfg"
  shows "\<exists>r p'. addToList cfg st tx p = (Inr r, p') \<and> poolOk cfg idc p' \<and>
           (case r of StatusFail _ \<Rightarrow> allTransactions p' = allTransactions p
            | StatusOk \<Rightarrow> bmGet (allTransactions p') (txId tx) = Some tx)"
proof -
  let ?a = "addressOf cfg (txSenderPublicKey tx)" and ?p = "ensureList cfg (addressOf cfg (txSenderPublicKey tx)) p"
  note pok = ensureList_effect[OF ok, of ?a] and fr = ensureList_frame[where cfg = cfg and a = ?a and p = p]
  obtain l where l: "bmGet (transactionList ?p) ?a = Some l" using fr(2) by blast
  have lok: "listOk l" "listAddress l = ?a" "listRef l < nextListRef ?p" "maxSize l = maxTransactionsPerAccount cfg" using poolOk_lists(2)[OF pok l] by auto
  obtain ad l' where ad: "listAdd tx (st = PROCESSABLE) l = (ad, l')" by (meson surj_pair)
  have nn: "0 \<le> txNonce tx" using t(1) by (simp add: txOk_def)
  note e = add_effect[OF lok(1) nn ad]
  show ?thesis
  proof (cases ad)
    case (NotAdded reason)
    then have "l' = l" using e(5) by (simp add: addChange_def)
    let ?q = "?p\<lparr>transactionList := bmSet ?a l (transactionList ?p)\<rparr>"
    have "poolOk cfg idc ?q" by (rule poolOk_relist[OF pok l]) (use lok in simp_all)
    then show ?thesis using NotAdded ad l \<open>l' = l\<close> fr(1) by (intro exI[of _ "StatusFail reason"] exI[of _ ?q]) (simp add: addToList_def Let_def)
  next
    case (Added removed)
    let ?all = "allTransactions ?p" and ?ls = "transactionList ?p"
    define D where "D = (case removed of None \<Rightarrow> ?all | Some i \<Rightarrow> bmDelete i ?all)"
    have gD: "bmGet D j = (if removed = Some j then None else bmGet ?all j)" for j by (simp add: D_def split: option.splits)
    have dD: "distinct (map fst D)" using poolOk_all(1)[OF pok] by (simp add: D_def split: option.splits)
    have inl: "bmGet ?all (txId u) = Some u \<and> txOk idc u \<and> txNonce u = n" if "transactions l n = Some u" for n u
      using poolOk_lists(4)[OF pok l that] poolOk_all(2)[OF pok] listOk_dest(4)[OF lok(1) that] by blast
    have gone: "\<exists>u. bmGet ?all i = Some u" if "removed = Some i" for i
      using that e(5) Added inl by (auto simp: addChange_def)
    have keep: "transactions l' n = (if n = txNonce tx then Some tx else if \<exists>u. transactions l n = Some u \<and> removed = Some (txId u) then None else transactions l n)" for n
    proof (cases removed)
      case None
      then show ?thesis using e(5) Added by (simp add: addChange_def)
    next
      case (Some i)
      then obtain m u where u: "transactions l m = Some u" "txId u = i" "transactions l' = (transactions l)(m := None, txNonce tx \<mapsto> tx)"
        using e(5) Added by (auto simp: addChange_def)
      have "(\<exists>v. transactions l n = Some v \<and> removed = Some (txId v)) \<longleftrightarrow> n = m"
        using inl[OF u(1)] inl[of n] u(1,2) Some by (metis option.inject)
      then show ?thesis unfolding u(3) by simp
    qed
    have free: "transactions l (txNonce tx) = None \<or> (\<exists>u. transactions l (txNonce tx) = Some u \<and> removed = Some (txId u))"
      using e(5) Added by (cases removed) (auto simp: addChange_def)
    define q where "q = register tx (?p\<lparr>transactionList := bmSet ?a l' ?ls, allTransactions := D\<rparr>)"
    have q: "allTransactions q = bmSet (txId tx) tx D" "transactionList q = bmSet ?a l' ?ls" "nextListRef q = nextListRef ?p"
      "feePriorityQueue q = heapPush (<) (calculateFeePriority tx) (txId tx) (feePriorityQueue ?p)" by (simp_all add: q_def register_def poolEmit_def)
    have qok: "poolOk cfg idc q" if "poolEvents q = es" for es
    proof (rule poolOk_intro, unfold q)
      show "distinct (map fst (bmSet (txId tx) tx D))" "distinct (map fst (bmSet ?a l' ?ls))" using dD poolOk_lists(1)[OF pok] by simp_all
      show "txId u = i \<and> txOk idc u \<and> feePriority u = Some (calculateFeePriority u) \<and> receivedAt u \<noteq> None" if "bmGet (bmSet (txId tx) tx D) i = Some u" for i u
        using that t poolOk_all(2)[OF pok, of i u] by (simp add: gD split: if_splits)
      show "listOk k \<and> listAddress k = b \<and> listRef k < nextListRef ?p \<and> maxSize k = maxTransactionsPerAccount cfg" if "bmGet (bmSet ?a l' ?ls) b = Some k" for b k
        using that poolOk_lists(2)[OF pok, of b k] e(1-4) lok by (auto split: if_splits)
      show "b = c" if "bmGet (bmSet ?a l' ?ls) b = Some k" "bmGet (bmSet ?a l' ?ls) c = Some j" "listRef k = listRef j" for b c k j
        using that poolOk_lists(3)[OF pok] l e(3) by (simp split: if_splits)
      show "bmGet (bmSet (txId tx) tx D) (txId u) = Some u \<and> addressOf cfg (txSenderPublicKey u) = b" if k: "bmGet (bmSet ?a l' ?ls) b = Some k" "transactions k n = Some u" for b k n u
      proof (cases "b = ?a")
        case True
        then have "transactions l' n = Some u" using k by simp
        then consider "n = txNonce tx" "u = tx" | "n \<noteq> txNonce tx" "transactions l n = Some u" "removed \<noteq> Some (txId u)" unfolding keep by (auto split: if_splits)
        then show ?thesis
        proof cases
          case 2
          have "txId u \<noteq> txId tx" using inl[OF 2(2)] same_content[of idc u tx] t(1) 2(1) by blast
          then show ?thesis using 2 inl[OF 2(2)] poolOk_lists(4)[OF pok l 2(2)] True by (simp add: gD)
        qed (use True in simp)
      next
        case False
        then have k': "bmGet ?ls b = Some k" using k by simp
        note u = poolOk_lists(4)[OF pok k' k(2)]
        have uok: "txOk idc u" using poolOk_all(2)[OF pok conjunct1[OF u]] by blast
        have "txId u \<noteq> txId tx"
        proof
          assume "txId u = txId tx"
          then have "txSenderPublicKey u = txSenderPublicKey tx" using same_content[OF uok t(1)] by blast
          then show False using conjunct2[OF u] False by simp
        qed
        moreover have "removed \<noteq> Some (txId u)"
        proof
          assume r: "removed = Some (txId u)"
          then obtain m v where v: "transactions l m = Some v" "txId v = txId u" using e(5) Added by (auto simp: addChange_def)
          note w = poolOk_lists(4)[OF pok l v(1)]
          have "Some v = Some u" by (rule trans[OF conjunct1[OF w, unfolded v(2), symmetric] conjunct1[OF u]])
          then show False using conjunct2[OF w] conjunct2[OF u] False by blast
        qed
        ultimately show ?thesis using u by (simp add: gD)
      qed
      show "\<exists>k. bmGet (bmSet ?a l' ?ls) (addressOf cfg (txSenderPublicKey u)) = Some k \<and> transactions k (txNonce u) = Some u" if g: "bmGet (bmSet (txId tx) tx D) i = Some u" for i u
      proof (cases "i = txId tx")
        case True
        then show ?thesis using g keep[of "txNonce tx"] by simp
      next
        case False
        then have i: "bmGet ?all i = Some u" "removed \<noteq> Some i" using g by (simp_all add: gD split: if_splits)
        obtain k where k: "bmGet ?ls (addressOf cfg (txSenderPublicKey u)) = Some k" "transactions k (txNonce u) = Some u" using poolOk_all(3)[OF pok i(1)] by blast
        have iu: "txId u = i" using poolOk_all(2)[OF pok i(1)] by simp
        show ?thesis
        proof (cases "addressOf cfg (txSenderPublicKey u) = ?a")
          case True
          then have "transactions l (txNonce u) = Some u" using k l by simp
          moreover from this have "txNonce u \<noteq> txNonce tx" using free i(2) iu by auto
          ultimately have "transactions l' (txNonce u) = Some u" using i(2) iu unfolding keep by simp
          then show ?thesis using True by simp
        qed (use k in simp)
      qed
      have h: "heapOk (<) (heapPush (<) (calculateFeePriority tx) (txId tx) (feePriorityQueue ?p))"
        "mset (heapPush (<) (calculateFeePriority tx) (txId tx) (feePriorityQueue ?p)) = add_mset (calculateFeePriority tx, txId tx) (mset (feePriorityQueue ?p))"
        using min_order.push_heap[OF poolOk_queue(1)[OF pok]] by simp_all
      show "heapOk (<) (heapPush (<) (calculateFeePriority tx) (txId tx) (feePriorityQueue ?p))" by (rule h(1))
      have "set (heapPush (<) (calculateFeePriority tx) (txId tx) (feePriorityQueue ?p)) = insert (calculateFeePriority tx, txId tx) (set (feePriorityQueue ?p))"
        using h(2) by (metis set_mset_add_mset_insert set_mset_mset)
      then show "(calculateFeePriority u, i) \<in> set (heapPush (<) (calculateFeePriority tx) (txId tx) (feePriorityQueue ?p))" if "bmGet (bmSet (txId tx) tx D) i = Some u" for i u
        using that poolOk_queue(2)[OF pok, of i u] by (auto simp: gD split: if_splits)
      have "bmSize D \<le> bmSize ?all" unfolding D_def bmSize_def bmDelete_def by (auto split: option.split)
      then show "bmSize (bmSet (txId tx) tx D) \<le> maxTransactions cfg" using sz fr(1) by (simp add: size_set)
    qed
    show ?thesis
    proof (cases removed)
      case None
      then have "addToList cfg st tx p = (Inr StatusOk, q)"
        using l ad Added by (simp add: addToList_def Let_def dropReplaced_def andThen_def bind_def modify_def ret_def q_def D_def)
      then show ?thesis using qok q by (intro exI[of _ StatusOk] exI[of _ q]) simp
    next
      case (Some i)
      then obtain u where u: "bmGet ?all i = Some u" using gone by blast
      let ?q = "register tx (emitRemoved u ''Transaction List executed remove'' (?p\<lparr>transactionList := bmSet ?a l' ?ls, allTransactions := D\<rparr>))"
      have "addToList cfg st tx p = (Inr StatusOk, ?q)"
        using l ad Added Some u by (simp add: addToList_def Let_def dropReplaced_def andThen_def bind_def modify_def ret_def D_def)
      moreover have "poolOk cfg idc ?q = poolOk cfg idc q" by (simp add: poolOk_def q_def register_def poolEmit_def emitRemoved_def)
      ultimately show ?thesis using qok q(1) by (intro exI[of _ StatusOk] exI[of _ ?q]) (simp add: q_def register_def)
    qed
  qed
qed

text \<open>
  The second half of \<open>add\<close> keeps the pool consistent, and throws nothing. It evicts at most
  what the limit demands, so whatever is in the pool afterwards was there before or is the new transaction.
\<close>

lemma addFinish_effect:
  assumes ok: "poolOk cfg idc p" and t: "txOk idc tx" "feePriority tx = Some (calculateFeePriority tx)" and m: "1 \<le> maxTransactions cfg"
  shows "\<exists>r p'. addFinish cfg now st tx p = (Inr r, p') \<and> poolOk cfg idc p'"
proof (cases "st = INVALID")
  case False
  obtain q where q: "evictIfFull cfg p = (Inr (), q)" "poolOk cfg idc q" "bmSize (allTransactions q) < maxTransactions cfg"
    using evictIfFull_effect[OF ok m] by blast
  have "txOk idc (tx\<lparr>receivedAt := Some now\<rparr>)" "calculateFeePriority (tx\<lparr>receivedAt := Some now\<rparr>) = calculateFeePriority tx"
    using t(1) by (simp_all add: txOk_def calculateFeePriority_def)
  then obtain r p' where "addToList cfg st (tx\<lparr>receivedAt := Some now\<rparr>) q = (Inr r, p')" "poolOk cfg idc p'"
    using addToList_effect[OF q(2) _ _ _ q(3), of "tx\<lparr>receivedAt := Some now\<rparr>" st] t(2) by auto
  then show ?thesis using q(1) False by (simp add: addFinish_def andThen_def bind_def)
qed (use ok in \<open>simp add: addFinish_def\<close>)

lemma addStart_effect:
  assumes ok: "poolOk cfg idc p" and t: "txOk idc tx"
  shows "\<exists>r p'. addStart cfg tx p = (Inr r, p') \<and> poolOk cfg idc p' \<and>
           (case r of AwaitVerify u \<Rightarrow> u = tx\<lparr>feePriority := Some (calculateFeePriority tx)\<rparr> | Responded _ \<Rightarrow> p' = p)"
proof -
  have len: "txLength tx \<noteq> 0" using t by (simp add: txOk_def)
  obtain b q where q: "evictUnprocessable cfg p = (Inr b, q)" "poolOk cfg idc q" using evict_effect(1)[OF ok] ok by (auto split: if_splits)
  show ?thesis using ok len q by (simp add: addStart_def bind_def ret_def Let_def)
qed

end
