(* ===== verification/TxPoolRun.thy ===== *)
theory TxPoolRun
  imports TxPool
begin

text \<open>
  The jobs of the pool and everything that can run between them: \<open>_reorganize\<close>, cut into
  steps at the \<open>await\<close> of each verification, \<open>_expire\<close>, and the step relation
  \<open>poolStep\<close> in which they interleave with the two halves of \<open>add\<close> and with \<open>remove\<close>.

  \<open>reorg\<close> is the place a reorganisation has reached: it holds the lists it has yet to look
  at, by reference, and the local variables of the loop body. A list that has been deleted from the
  dictionary is empty and stays so, and the body skips it.
\<close>

section \<open>Reorganisation\<close>

datatype reorg =
    Idle
  | Scanning "nat list"
  | Verifying "nat list" nat "ptx list" "ptx list" "ptx list" "(ptx \<times> txStatus) list" "nat list"

definition listByRef :: "pool \<Rightarrow> nat \<Rightarrow> txList option" where
  "listByRef p r = find (\<lambda>l. listRef l = r) (bmValues (transactionList p))"

definition reorgStart :: "pool \<Rightarrow> reorg" where
  "reorgStart p = Scanning (map listRef (bmValues (transactionList p)))"

fun reorgScan :: "pool \<Rightarrow> reorg \<Rightarrow> reorg" where
  "reorgScan p (Scanning []) = Idle"
| "reorgScan p (Scanning (r # rs)) =
     (case listByRef p r of
        None \<Rightarrow> Scanning rs
      | Some l \<Rightarrow>
          if length (getPromotable l) = 0 then Scanning rs
          else Verifying rs r (getProcessable l @ getPromotable l) (getPromotable l) (getProcessable l @ getPromotable l) [] [])"
| "reorgScan p st = st"

primrec removeFrom :: "poolConfig \<Rightarrow> ptx \<Rightarrow> ptx list \<Rightarrow> (pool, unit) m" where
  "removeFrom cfg invalidTx [] = ret ()"
| "removeFrom cfg invalidTx (tx # txs) =
     andThen (whenM (txNonce tx \<ge> txNonce invalidTx)
               (andThen (modify (emitRemoved tx ''Invalid transaction'')) (andThen (poolRemove cfg tx) (ret ()))))
             (removeFrom cfg invalidTx txs)"

definition promoteIn :: "nat \<Rightarrow> ptx list \<Rightarrow> pool \<Rightarrow> pool" where
  "promoteIn r txs p =
     (case listByRef p r of
        None \<Rightarrow> p
      | Some l \<Rightarrow> p\<lparr>transactionList := bmSet (listAddress l) (snd (promote txs l)) (transactionList p)\<rparr>)"

definition reorgFinish :: "poolConfig \<Rightarrow> nat \<Rightarrow> ptx list \<Rightarrow> ptx list \<Rightarrow> (ptx \<times> txStatus) list \<Rightarrow> nat list \<Rightarrow> (pool, unit) m" where
  "reorgFinish cfg r allTxs promotable results succ p =
     (let p = promoteIn r (filter (\<lambda>tx. idRef tx \<in> set succ) promotable) p
      in case find (\<lambda>v. snd v = INVALID) results of
           None \<Rightarrow> (Inr (), p)
         | Some firstInvalid \<Rightarrow>
             (case find (\<lambda>tx. txId tx = txId (fst firstInvalid)) allTxs of
                None \<Rightarrow> (Inr (), p)
              | Some invalidTx \<Rightarrow> removeFrom cfg invalidTx allTxs p))"

text \<open>The loop body after the verification of the next transaction; \<open>None\<close> is a verification that throws.\<close>

fun reorgVerify :: "poolConfig \<Rightarrow> txStatus option \<Rightarrow> reorg \<Rightarrow> (pool, reorg) m" where
  "reorgVerify cfg answer (Verifying rs r allTxs promotable (tx # remaining) results succ) =
     (let finish = (\<lambda>results succ. andThen (reorgFinish cfg r allTxs promotable results succ) (ret (Scanning rs))) in
      case answer of
        None \<Rightarrow> finish (results @ [(tx, INVALID)]) succ
      | Some status \<Rightarrow>
          if status = INVALID then finish (results @ [(tx, status)]) succ
          else if status = UNPROCESSABLE \<and> length succ = 0 then finish (results @ [(tx, status)]) succ
          else if status = UNPROCESSABLE \<and> txNonce (fst (last results)) + 1 \<noteq> txNonce tx then finish (results @ [(tx, status)]) succ
          else if remaining = [] then finish (results @ [(tx, status)]) (succ @ [idRef tx])
          else ret (Verifying rs r allTxs promotable remaining (results @ [(tx, status)]) (succ @ [idRef tx])))"
| "reorgVerify cfg answer (Verifying rs r allTxs promotable [] results succ) = ret (Scanning rs)"
| "reorgVerify cfg answer st = ret st"

text \<open>A reorganisation that nothing interrupts, with the answers of the verification given.\<close>

lemma finish_scans: "andThen (reorgFinish cfg r allTxs promotable results succ) (ret (Scanning rs)) p = (Inr st, p') \<Longrightarrow> st = Scanning rs"
  by (auto simp: andThen_def bind_def ret_def split: prod.splits sum.splits)

lemma verify_shorter:
  "reorgVerify cfg answer (Verifying rs r al pr (tx # rem) res su) p = (Inr st, p') \<Longrightarrow>
   st = Scanning rs \<or> (\<exists>res su. st = Verifying rs r al pr rem res su)"
  by (auto simp: Let_def ret_def dest: finish_scans split: option.splits if_splits)

primrec reorgMeasure :: "reorg \<Rightarrow> nat \<times> nat" where
  "reorgMeasure Idle = (0, 0)"
| "reorgMeasure (Scanning rs) = (2 * length rs + 1, 0)"
| "reorgMeasure (Verifying rs r al pr rem res su) = (2 * length rs + 2, length rem)"

function reorgRun :: "poolConfig \<Rightarrow> (ptx \<Rightarrow> txStatus option) \<Rightarrow> reorg \<Rightarrow> (pool, unit) m" where
  "reorgRun cfg verify Idle p = (Inr (), p)"
| "reorgRun cfg verify (Scanning rs) p = reorgRun cfg verify (reorgScan p (Scanning rs)) p"
| "reorgRun cfg verify (Verifying rs r al pr [] res su) p = reorgRun cfg verify (Scanning rs) p"
| "reorgRun cfg verify (Verifying rs r al pr (tx # rem) res su) p =
     (case reorgVerify cfg (verify tx) (Verifying rs r al pr (tx # rem) res su) p of
        (Inl e, p') \<Rightarrow> (Inl e, p')
      | (Inr st, p') \<Rightarrow> reorgRun cfg verify st p')"
  by pat_completeness auto
termination
proof (relation "inv_image (less_than <*lex*> less_than) (\<lambda>(_, _, st, _). reorgMeasure st)", goal_cases)
  show "wf (inv_image (less_than <*lex*> less_than) (\<lambda>(_, _, st, _). reorgMeasure st))" by auto
next
  case (2 cfg verify rs p)
  show ?case by (cases rs) (auto split: option.splits)
next
  case (4 cfg verify rs r al pr tx rem res su p x p' st)
  then show ?case using verify_shorter[of cfg "verify tx" rs r al pr tx rem res su p st p'] by auto
qed auto

definition reorganize :: "poolConfig \<Rightarrow> (ptx \<Rightarrow> txStatus option) \<Rightarrow> (pool, unit) m" where
  "reorganize cfg verify p = reorgRun cfg verify (reorgStart p) p"

section \<open>Expiry\<close>

definition expireOne :: "poolConfig \<Rightarrow> int \<Rightarrow> ptx \<Rightarrow> (pool, unit) m" where
  "expireOne cfg now t =
     whenM (\<bar>the (receivedAt t) - now\<bar> > transactionExpiryTime cfg)
       (andThen (modify (emitRemoved t ''Transaction exceeded the expiry time'')) (andThen (poolRemove cfg t) (ret ())))"

definition poolExpire :: "poolConfig \<Rightarrow> int \<Rightarrow> (pool, unit) m" where
  "poolExpire cfg now p = forEach (getAll p) (expireOne cfg now) p"

section \<open>The jobs keep the pool consistent\<close>

lemma values_get: "poolOk cfg idc p \<Longrightarrow> l \<in> set (bmValues (transactionList p)) \<Longrightarrow> bmGet (transactionList p) (listAddress l) = Some l"
proof -
  assume ok: "poolOk cfg idc p" and l: "l \<in> set (bmValues (transactionList p))"
  then obtain a where a: "bmGet (transactionList p) a = Some l" using values_set[OF poolOk_lists(1)[OF ok]] by blast
  then show "bmGet (transactionList p) (listAddress l) = Some l" using poolOk_lists(2)[OF ok a] by simp
qed

lemma listByRef_get: "poolOk cfg idc p \<Longrightarrow> listByRef p r = Some l \<Longrightarrow> bmGet (transactionList p) (listAddress l) = Some l \<and> listRef l = r"
  using values_get[of cfg idc p l] by (auto simp: listByRef_def find_Some_iff)

lemma get_listByRef:
  assumes ok: "poolOk cfg idc p" and l: "bmGet (transactionList p) a = Some l"
  shows "listByRef p (listRef l) = Some l"
proof -
  have "l \<in> set (bmValues (transactionList p))" using l values_set[OF poolOk_lists(1)[OF ok]] by blast
  then have "find (\<lambda>k. listRef k = listRef l) (bmValues (transactionList p)) \<noteq> None" by (auto simp: find_None_iff)
  then obtain k where k: "listByRef p (listRef l) = Some k" by (auto simp: listByRef_def)
  note g = listByRef_get[OF ok k]
  have "listAddress k = a" by (rule poolOk_lists(3)[OF ok conjunct1[OF g] l conjunct2[OF g]])
  then have "k = l" using conjunct1[OF g] l by simp
  then show ?thesis using k by simp
qed

definition otherLists :: "nat \<Rightarrow> pool \<Rightarrow> pool \<Rightarrow> bool" where
  "otherLists r p p' = (\<forall>b l. bmGet (transactionList p) b = Some l \<longrightarrow> listRef l \<noteq> r \<longrightarrow> bmGet (transactionList p') b = Some l)"

lemma promoteIn_effect:
  assumes ok: "poolOk cfg idc p"
  shows "poolOk cfg idc (promoteIn r txs p)" "otherLists r p (promoteIn r txs p)"
proof -
  have "poolOk cfg idc (promoteIn r txs p) \<and> otherLists r p (promoteIn r txs p)"
  proof (cases "listByRef p r")
    case (Some l)
    note l = listByRef_get[OF ok Some]
    note e = promote_effect[of l txs "fst (promote txs l)" "snd (promote txs l)"]
    have lok: "listOk l" using l poolOk_lists(2)[OF ok] by blast
    have "poolOk cfg idc (p\<lparr>transactionList := bmSet (listAddress l) (snd (promote txs l)) (transactionList p)\<rparr>)"
      by (rule poolOk_relist[OF ok conjunct1[OF l]]) (use e lok in simp_all)
    then show ?thesis using Some l by (auto simp: promoteIn_def otherLists_def)
  qed (use ok in \<open>simp add: promoteIn_def otherLists_def\<close>)
  then show "poolOk cfg idc (promoteIn r txs p)" "otherLists r p (promoteIn r txs p)" by simp_all
qed

lemma remove_any:
  assumes ok: "poolOk cfg idc p" and t: "txOk idc t"
  shows "\<exists>b p'. poolRemove cfg t p = (Inr b, p') \<and> poolOk cfg idc p' \<and>
           (\<forall>a. a \<noteq> addressOf cfg (txSenderPublicKey t) \<longrightarrow> bmGet (transactionList p') a = bmGet (transactionList p) a)"
proof (cases "bmGet (allTransactions p) (txId t)")
  case None
  then show ?thesis using remove_unknown[OF None] ok by auto
next
  case (Some f)
  then show ?thesis using remove_known[OF ok t Some] by blast
qed

lemma removeFrom_effect:
  "poolOk cfg idc p \<Longrightarrow> \<forall>t \<in> set txs. txOk idc t \<Longrightarrow>
   \<exists>p'. removeFrom cfg bad txs p = (Inr (), p') \<and> poolOk cfg idc p' \<and>
     (\<forall>a. (\<forall>t \<in> set txs. addressOf cfg (txSenderPublicKey t) \<noteq> a) \<longrightarrow> bmGet (transactionList p') a = bmGet (transactionList p) a)"
proof (induction txs arbitrary: p)
  case (Cons t ts)
  have "\<exists>q. whenM (txNonce t \<ge> txNonce bad) (andThen (modify (emitRemoved t ''Invalid transaction'')) (andThen (poolRemove cfg t) (ret ()))) p = (Inr (), q) \<and>
          poolOk cfg idc q \<and> (\<forall>a. a \<noteq> addressOf cfg (txSenderPublicKey t) \<longrightarrow> bmGet (transactionList q) a = bmGet (transactionList p) a)"
  proof (cases "txNonce t \<ge> txNonce bad")
    case True
    have "poolOk cfg idc (emitRemoved t ''Invalid transaction'' p)" "txOk idc t" using Cons.prems by simp_all
    from remove_any[OF this] show ?thesis using True by (auto simp: whenM_def andThen_def bind_def modify_def ret_def)
  qed (use Cons.prems in \<open>simp add: whenM_def ret_def\<close>)
  then obtain q where q: "whenM (txNonce t \<ge> txNonce bad) (andThen (modify (emitRemoved t ''Invalid transaction'')) (andThen (poolRemove cfg t) (ret ()))) p = (Inr (), q)"
    "poolOk cfg idc q" "\<And>a. a \<noteq> addressOf cfg (txSenderPublicKey t) \<Longrightarrow> bmGet (transactionList q) a = bmGet (transactionList p) a" by blast
  obtain p' where "removeFrom cfg bad ts q = (Inr (), p')" "poolOk cfg idc p'"
    "\<forall>a. (\<forall>t \<in> set ts. addressOf cfg (txSenderPublicKey t) \<noteq> a) \<longrightarrow> bmGet (transactionList p') a = bmGet (transactionList q) a"
    using Cons.IH[OF q(2)] Cons.prems(2) by auto
  then show ?case using q by (intro exI[of _ p']) (auto simp: andThen_def bind_def)
qed (simp add: ret_def)

lemma finish_effect:
  assumes ok: "poolOk cfg idc p" and t: "\<forall>t \<in> set al. txOk idc t"
  shows "\<exists>p'. reorgFinish cfg r al pr res su p = (Inr (), p') \<and> poolOk cfg idc p' \<and>
           (\<forall>a. (\<forall>t \<in> set al. addressOf cfg (txSenderPublicKey t) = a) \<longrightarrow> (\<forall>l. bmGet (transactionList p) a = Some l \<longrightarrow> listRef l = r) \<longrightarrow> otherLists r p p')"
proof -
  let ?q = "promoteIn r (filter (\<lambda>tx. idRef tx \<in> set su) pr) p"
  note q = promoteIn_effect[OF ok, of r "filter (\<lambda>tx. idRef tx \<in> set su) pr"]
  have eq: "reorgFinish cfg r al pr res su p = (Inr (), ?q) \<or> (\<exists>bad. reorgFinish cfg r al pr res su p = removeFrom cfg bad al ?q)"
    by (auto simp: reorgFinish_def Let_def split: option.split)
  show ?thesis
  proof (cases "reorgFinish cfg r al pr res su p = (Inr (), ?q)")
    case True
    then show ?thesis using q by blast
  next
    case False
    then obtain bad where bad: "reorgFinish cfg r al pr res su p = removeFrom cfg bad al ?q" using eq by blast
    from removeFrom_effect[OF q(1) t, of bad] obtain p' where p': "removeFrom cfg bad al ?q = (Inr (), p')" "poolOk cfg idc p'"
      "\<forall>a. (\<forall>t \<in> set al. addressOf cfg (txSenderPublicKey t) \<noteq> a) \<longrightarrow> bmGet (transactionList p') a = bmGet (transactionList ?q) a" by blast
    have "otherLists r p p'" if "\<forall>t \<in> set al. addressOf cfg (txSenderPublicKey t) = a" "\<forall>l. bmGet (transactionList p) a = Some l \<longrightarrow> listRef l = r" for a
      unfolding otherLists_def
    proof (intro allI impI)
      fix b l assume b: "bmGet (transactionList p) b = Some l" "listRef l \<noteq> r"
      then have "b \<noteq> a" using that(2) by blast
      then have "bmGet (transactionList p') b = bmGet (transactionList ?q) b" using p'(3) that(1) by simp
      then show "bmGet (transactionList p') b = Some l" using q(2) b unfolding otherLists_def by simp
    qed
    then show ?thesis using bad p' by auto
  qed
qed

lemma verify_cases:
  "(\<exists>res' su'. reorgVerify cfg answer (Verifying rs r al pr (tx # rest) res su) p = andThen (reorgFinish cfg r al pr res' su') (ret (Scanning rs)) p) \<or>
   (\<exists>res' su'. reorgVerify cfg answer (Verifying rs r al pr (tx # rest) res su) p = (Inr (Verifying rs r al pr rest res' su'), p))"
proof (cases answer)
  case None
  then show ?thesis by (intro disjI1) (auto simp: Let_def)
next
  case (Some status)
  have e: "reorgVerify cfg answer (Verifying rs r al pr (tx # rest) res su) p =
    (if status = INVALID \<or> status = UNPROCESSABLE \<and> (length su = 0 \<or> txNonce (fst (last res)) + 1 \<noteq> txNonce tx)
     then andThen (reorgFinish cfg r al pr (res @ [(tx, status)]) su) (ret (Scanning rs)) p
     else if rest = [] then andThen (reorgFinish cfg r al pr (res @ [(tx, status)]) (su @ [idRef tx])) (ret (Scanning rs)) p
     else (Inr (Verifying rs r al pr rest (res @ [(tx, status)]) (su @ [idRef tx])), p))"
    unfolding Some by (auto simp: Let_def ret_def)
  then show ?thesis by (cases "status = INVALID \<or> status = UNPROCESSABLE \<and> (length su = 0 \<or> txNonce (fst (last res)) + 1 \<noteq> txNonce tx)"; cases "rest = []") (blast | simp)+
qed

lemma verify_effect:
  assumes ok: "poolOk cfg idc p" and t: "\<forall>t \<in> set al. txOk idc t"
  shows "\<exists>st p'. reorgVerify cfg answer (Verifying rs r al pr rem res su) p = (Inr st, p') \<and> poolOk cfg idc p' \<and>
           (st = Scanning rs \<or> p' = p \<and> (\<exists>tx rest res su. rem = tx # rest \<and> st = Verifying rs r al pr rest res su)) \<and>
           (\<forall>a. (\<forall>t \<in> set al. addressOf cfg (txSenderPublicKey t) = a) \<longrightarrow> (\<forall>l. bmGet (transactionList p) a = Some l \<longrightarrow> listRef l = r) \<longrightarrow> otherLists r p p')"
proof -
  have f: "\<exists>p'. andThen (reorgFinish cfg r al pr res su) (ret (Scanning rs)) p = (Inr (Scanning rs), p') \<and> poolOk cfg idc p' \<and>
    (\<forall>a. (\<forall>t \<in> set al. addressOf cfg (txSenderPublicKey t) = a) \<longrightarrow> (\<forall>l. bmGet (transactionList p) a = Some l \<longrightarrow> listRef l = r) \<longrightarrow> otherLists r p p')" for res su
    using finish_effect[OF ok t, of r pr res su] by (auto simp: andThen_def bind_def ret_def)
  show ?thesis
  proof (cases rem)
    case Nil
    then show ?thesis using ok by (simp add: ret_def otherLists_def)
  next
    case (Cons tx rest)
    from verify_cases[of cfg answer rs r al pr tx rest res su p] show ?thesis
    proof
      assume "\<exists>res' su'. reorgVerify cfg answer (Verifying rs r al pr (tx # rest) res su) p = andThen (reorgFinish cfg r al pr res' su') (ret (Scanning rs)) p"
      then obtain res' su' where "reorgVerify cfg answer (Verifying rs r al pr (tx # rest) res su) p = andThen (reorgFinish cfg r al pr res' su') (ret (Scanning rs)) p" by blast
      then show ?thesis using f[of res' su'] Cons by auto
    next
      assume "\<exists>res' su'. reorgVerify cfg answer (Verifying rs r al pr (tx # rest) res su) p = (Inr (Verifying rs r al pr rest res' su'), p)"
      then show ?thesis using ok Cons by (auto simp: otherLists_def)
    qed
  qed
qed


text \<open>One list of the loop, and then all of them: nothing is thrown, and the other lists are left alone.\<close>

lemma run_verify:
  assumes t: "\<forall>t \<in> set al. txOk idc t \<and> addressOf cfg (txSenderPublicKey t) = a"
  shows "poolOk cfg idc p \<Longrightarrow> \<forall>l. bmGet (transactionList p) a = Some l \<longrightarrow> listRef l = r \<Longrightarrow>
    \<exists>p'. reorgRun cfg verify (Verifying rs r al pr rem res su) p = reorgRun cfg verify (Scanning rs) p' \<and> poolOk cfg idc p' \<and> otherLists r p p'"
proof (induction rem arbitrary: p res su)
  case Nil
  then show ?case by (intro exI[of _ p]) (simp add: otherLists_def)
next
  case (Cons tx rest)
  have tt: "\<forall>t \<in> set al. txOk idc t" "\<forall>t \<in> set al. addressOf cfg (txSenderPublicKey t) = a" using t by simp_all
  from verify_effect[OF Cons.prems(1) tt(1), of "verify tx" rs r pr "tx # rest" res su] obtain st p' where
    v: "reorgVerify cfg (verify tx) (Verifying rs r al pr (tx # rest) res su) p = (Inr st, p')" "poolOk cfg idc p'"
      "st = Scanning rs \<or> p' = p \<and> (\<exists>res su. st = Verifying rs r al pr rest res su)" "otherLists r p p'"
    using tt(2) Cons.prems(2) by blast
  show ?case
  proof (cases "st = Scanning rs")
    case True
    then show ?thesis using v by (intro exI[of _ p']) simp
  next
    case False
    then obtain res' su' where "p' = p" "st = Verifying rs r al pr rest res' su'" using v(3) by blast
    then show ?thesis using v(1) Cons.IH[OF Cons.prems, of res' su'] by simp
  qed
qed

lemma promotable_sub: "set (promotableNonces l) \<subseteq> set (nonces l)"
proof (cases "drop (length (processable l)) (nonces l)")
  case (Cons k ks)
  have "set (k # ks) \<subseteq> set (nonces l)" by (metis Cons set_drop_subset)
  then have "set (run k (k # ks)) \<subseteq> set (nonces l)" using run_subset[of k "k # ks"] by blast
  then show ?thesis using Cons by (auto simp: promotableNonces_def simp del: run.simps)
qed (simp add: promotableNonces_def)

lemma listByRef_txs:
  assumes ok: "poolOk cfg idc p" and r: "listByRef p r = Some l"
  shows "\<forall>t \<in> set (getProcessable l @ getPromotable l). txOk idc t \<and> addressOf cfg (txSenderPublicKey t) = listAddress l"
proof
  fix t assume "t \<in> set (getProcessable l @ getPromotable l)"
  note g = listByRef_get[OF ok r]
  have lok: "listOk l" using poolOk_lists(2)[OF ok conjunct1[OF g]] by blast
  note sub = promotable_sub[of l]
  obtain n where n: "n \<in> set (nonces l)" "t = txAt l n"
    using \<open>t \<in> set (getProcessable l @ getPromotable l)\<close> promotable_run[OF lok] sub processable_nonces[OF lok] by (auto simp: getProcessable_def)
  have "transactions l n = Some t" using txAt_nonce[OF lok n(1)] n(2) by simp
  from poolOk_lists(4)[OF ok conjunct1[OF g] this] show "txOk idc t \<and> addressOf cfg (txSenderPublicKey t) = listAddress l"
    using poolOk_all(2)[OF ok] by blast
qed

lemma run_list:
  assumes ok: "poolOk cfg idc p"
  shows "\<exists>p'. reorgRun cfg verify (Scanning (r # rs)) p = reorgRun cfg verify (Scanning rs) p' \<and> poolOk cfg idc p' \<and> otherLists r p p'"
proof (cases "listByRef p r")
  case None
  then show ?thesis using ok by (intro exI[of _ p]) (simp add: otherLists_def)
next
  case (Some l)
  note g = listByRef_get[OF ok Some]
  show ?thesis
  proof (cases "getPromotable l = []")
    case True
    then show ?thesis using ok Some by (intro exI[of _ p]) (simp add: otherLists_def)
  next
    case False
    have "\<forall>k. bmGet (transactionList p) (listAddress l) = Some k \<longrightarrow> listRef k = r" using g by simp
    from run_verify[OF listByRef_txs[OF ok Some] ok this] show ?thesis using Some False by simp
  qed
qed

lemma run_lists:
  "poolOk cfg idc p \<Longrightarrow> \<exists>p'. reorgRun cfg verify (Scanning (rs @ rest)) p = reorgRun cfg verify (Scanning rest) p' \<and> poolOk cfg idc p' \<and>
     (\<forall>b l. bmGet (transactionList p) b = Some l \<longrightarrow> listRef l \<notin> set rs \<longrightarrow> bmGet (transactionList p') b = Some l)"
proof (induction rs arbitrary: p)
  case (Cons r rs)
  obtain q where q: "reorgRun cfg verify (Scanning (r # rs @ rest)) p = reorgRun cfg verify (Scanning (rs @ rest)) q" "poolOk cfg idc q" "otherLists r p q"
    using run_list[OF Cons.prems] by blast
  obtain p' where p': "reorgRun cfg verify (Scanning (rs @ rest)) q = reorgRun cfg verify (Scanning rest) p'" "poolOk cfg idc p'"
    "\<And>b l. bmGet (transactionList q) b = Some l \<Longrightarrow> listRef l \<notin> set rs \<Longrightarrow> bmGet (transactionList p') b = Some l" using Cons.IH[OF q(2)] by blast
  have "bmGet (transactionList p') b = Some l" if "bmGet (transactionList p) b = Some l" "listRef l \<notin> set (r # rs)" for b l
    using q(3) p'(3)[of b l] that by (auto simp: otherLists_def)
  then show ?case using q(1) p' by (metis append_Cons)
qed auto

lemma run_done: "reorgRun cfg verify (Scanning []) p = (Inr (), p)"
  by simp

section \<open>Interleavings\<close>

record poolSys =
  thePool :: pool
  awaiting :: "ptx list"
  job :: reorg
  thrown :: bool

definition startSys :: poolSys where
  "startSys = \<lparr>thePool = newPool, awaiting = [], job = Idle, thrown = False\<rparr>"

text \<open>The outcome of an operation: the pool it leaves, and whether it threw.\<close>

definition after :: "(err + 'a) \<times> pool \<Rightarrow> poolSys \<Rightarrow> poolSys" where
  "after r s = s\<lparr>thePool := snd r, thrown := (thrown s \<or> isl (fst r))\<rparr>"

definition nextJob :: "err + reorg \<Rightarrow> reorg" where
  "nextJob r = (case r of Inl e \<Rightarrow> Idle | Inr st \<Rightarrow> st)"

definition newAwaiting :: "err + addProgress \<Rightarrow> ptx list" where
  "newAwaiting r = (case r of Inr (AwaitVerify u) \<Rightarrow> [u] | _ \<Rightarrow> [])"

inductive poolStep :: "poolConfig \<Rightarrow> idContent \<Rightarrow> poolSys \<Rightarrow> poolSys \<Rightarrow> bool" for cfg idc where
  step_add: "txOk idc tx \<Longrightarrow> addStart cfg tx (thePool s) = r \<Longrightarrow>
     poolStep cfg idc s ((after r s)\<lparr>awaiting := newAwaiting (fst r) @ awaiting s\<rparr>)"
| step_verified: "tx \<in> set (awaiting s) \<Longrightarrow> addFinish cfg now status tx (thePool s) = r \<Longrightarrow>
     poolStep cfg idc s ((after r s)\<lparr>awaiting := remove1 tx (awaiting s)\<rparr>)"
| step_verify_throws: "tx \<in> set (awaiting s) \<Longrightarrow> poolStep cfg idc s (s\<lparr>awaiting := remove1 tx (awaiting s)\<rparr>)"
| step_remove: "txOk idc tx \<Longrightarrow> poolRemove cfg tx (thePool s) = r \<Longrightarrow> poolStep cfg idc s (after r s)"
| step_reorganize: "job s = Idle \<Longrightarrow> poolStep cfg idc s (s\<lparr>job := reorgStart (thePool s)\<rparr>)"
| step_scan: "job s = Scanning rs \<Longrightarrow> poolStep cfg idc s (s\<lparr>job := reorgScan (thePool s) (job s)\<rparr>)"
| step_answer: "job s = Verifying rs rf al pr rem res su \<Longrightarrow> reorgVerify cfg answer (job s) (thePool s) = r \<Longrightarrow>
     poolStep cfg idc s ((after r s)\<lparr>job := nextJob (fst r)\<rparr>)"
| step_expire: "poolExpire cfg now (thePool s) = r \<Longrightarrow> poolStep cfg idc s (after r s)"

inductive poolReachable :: "poolConfig \<Rightarrow> idContent \<Rightarrow> poolSys \<Rightarrow> bool" for cfg idc where
  pool_start: "poolReachable cfg idc startSys"
| pool_more: "poolReachable cfg idc s \<Longrightarrow> poolStep cfg idc s s' \<Longrightarrow> poolReachable cfg idc s'"

definition jobOk :: "idContent \<Rightarrow> reorg \<Rightarrow> bool" where
  "jobOk idc st = (case st of Verifying rs r al pr rem res su \<Rightarrow> \<forall>t \<in> set al. txOk idc t | _ \<Rightarrow> True)"

definition sysOk :: "poolConfig \<Rightarrow> idContent \<Rightarrow> poolSys \<Rightarrow> bool" where
  "sysOk cfg idc s =
     (poolOk cfg idc (thePool s) \<and> \<not> thrown s \<and> jobOk idc (job s) \<and>
      (\<forall>t \<in> set (awaiting s). txOk idc t \<and> feePriority t = Some (calculateFeePriority t)))"

lemma expire_effect:
  "poolOk cfg idc p \<Longrightarrow> \<forall>t \<in> set ts. txOk idc t \<Longrightarrow> \<exists>p'. forEach ts (expireOne cfg now) p = (Inr (), p') \<and> poolOk cfg idc p'"
proof (induction ts arbitrary: p)
  case (Cons t ts)
  have "\<exists>q. expireOne cfg now t p = (Inr (), q) \<and> poolOk cfg idc q"
  proof (cases "\<bar>the (receivedAt t) - now\<bar> > transactionExpiryTime cfg")
    case True
    have "poolOk cfg idc (emitRemoved t ''Transaction exceeded the expiry time'' p)" "txOk idc t" using Cons.prems by simp_all
    from remove_any[OF this] show ?thesis using True by (auto simp: expireOne_def whenM_def andThen_def bind_def modify_def ret_def)
  qed (use Cons.prems in \<open>simp add: expireOne_def whenM_def ret_def\<close>)
  then obtain q where q: "expireOne cfg now t p = (Inr (), q)" "poolOk cfg idc q" by blast
  then show ?case using Cons.IH[OF q(2)] Cons.prems(2) by (simp add: andThen_def bind_def)
qed (simp add: ret_def)

lemma sysOk_step:
  assumes st: "poolStep cfg idc s s'" and ok: "sysOk cfg idc s" and m: "1 \<le> maxTransactions cfg"
  shows "sysOk cfg idc s'"
proof -
  have p: "poolOk cfg idc (thePool s)" and h: "\<not> thrown s" "jobOk idc (job s)" "\<And>t. t \<in> set (awaiting s) \<Longrightarrow> txOk idc t \<and> feePriority t = Some (calculateFeePriority t)"
    using ok by (auto simp: sysOk_def)
  from st show ?thesis
  proof (cases rule: poolStep.cases)
    case (step_add tx r)
    from addStart_effect[OF p step_add(2)] obtain x q where q: "r = (Inr x, q)" "poolOk cfg idc q"
      "case x of AwaitVerify u \<Rightarrow> u = tx\<lparr>feePriority := Some (calculateFeePriority tx)\<rparr> | Responded _ \<Rightarrow> q = thePool s" using step_add(3) by auto
    have "txOk idc (tx\<lparr>feePriority := f\<rparr>) \<and> calculateFeePriority (tx\<lparr>feePriority := f\<rparr>) = calculateFeePriority tx" for f
      using step_add(2) by (simp add: txOk_def calculateFeePriority_def)
    then show ?thesis using q h step_add(1) by (cases x) (auto simp: sysOk_def after_def newAwaiting_def)
  next
    case (step_verified tx now status r)
    from addFinish_effect[OF p _ _ m] h(3)[OF step_verified(2)] obtain x q where "r = (Inr x, q)" "poolOk cfg idc q" using step_verified(3) by metis
    then show ?thesis using h step_verified(1) by (auto simp: sysOk_def after_def dest: notin_set_remove1)
  next
    case (step_verify_throws tx)
    then show ?thesis using h p by (auto simp: sysOk_def dest: notin_set_remove1)
  next
    case (step_remove tx r)
    from remove_any[OF p step_remove(2)] obtain x q where "r = (Inr x, q)" "poolOk cfg idc q" using step_remove(3) by auto
    then show ?thesis using h step_remove(1) by (simp add: sysOk_def after_def)
  next
    case step_reorganize
    then show ?thesis using h p by (simp add: sysOk_def jobOk_def reorgStart_def)
  next
    case (step_scan rs)
    have "jobOk idc (reorgScan (thePool s) (Scanning rs))"
      using listByRef_txs[OF p] by (cases rs) (auto simp: jobOk_def split: option.split)
    then show ?thesis using h p step_scan by (simp add: sysOk_def)
  next
    case (step_answer rs rf al pr rem res su answer r)
    have al: "\<forall>t \<in> set al. txOk idc t" using h(2) step_answer(2) by (simp add: jobOk_def)
    from verify_effect[OF p al, of answer rs rf pr rem res su] obtain x q where "r = (Inr x, q)" "poolOk cfg idc q" "jobOk idc x"
      using step_answer(2,3) al by (fastforce simp: jobOk_def)
    then show ?thesis using h step_answer(1) by (simp add: sysOk_def after_def nextJob_def)
  next
    case (step_expire now r)
    have "\<forall>t \<in> set (getAll (thePool s)). txOk idc t" using values_set[OF poolOk_all(1)[OF p]] poolOk_all(2)[OF p] by (auto simp: getAll_def)
    from expire_effect[OF p this, of now] obtain q where "r = (Inr (), q)" "poolOk cfg idc q" using step_expire(2) by (auto simp: poolExpire_def)
    then show ?thesis using h step_expire(1) by (simp add: sysOk_def after_def)
  qed
qed

lemma reachable_sysOk: "poolReachable cfg idc s \<Longrightarrow> 1 \<le> maxTransactions cfg \<Longrightarrow> sysOk cfg idc s"
proof (induction rule: poolReachable.induct)
  case pool_start
  then show ?case by (simp add: sysOk_def startSys_def new_poolOk jobOk_def)
next
  case (pool_more s s')
  then show ?case using sysOk_step by blast
qed


section \<open>Promotion\<close>

lemma run_nth: "i < length (run n ks) \<Longrightarrow> run n ks ! i = n + int i"
proof (induction ks arbitrary: n i)
  case (Cons k ks)
  then show ?case by (cases i) (auto split: if_splits)
qed simp

lemma run_drop: "j \<le> length (run n ks) \<Longrightarrow> run (n + int j) (drop j ks) = drop j (run n ks) \<and> take j ks = take j (run n ks)"
proof (induction ks arbitrary: n j)
  case (Cons k ks)
  then show ?case using Cons.IH[of "j - 1" "n + 1"] by (cases j) (auto simp: algebra_simps split: if_splits)
qed simp

lemma run_sorted: "sorted (run n ks) \<and> distinct (run n ks)"
proof
  show "sorted (run n ks)" by (simp add: sorted_iff_nth_mono run_nth)
  show "distinct (run n ks)" by (simp add: distinct_conv_nth run_nth)
qed

text \<open>
  A list whose processable nonces are the first of its run of consecutive nonces: what is
  promotable is the rest of the run.
\<close>

definition goodRun :: "txList \<Rightarrow> int list" where
  "goodRun l = (case nonces l of [] \<Rightarrow> [] | n # ns \<Rightarrow> run n (n # ns))"

lemma promotable_rest:
  assumes j: "processable l = take j (goodRun l)"
  shows "processable l @ promotableNonces l = goodRun l"
proof (cases "nonces l")
  case Nil
  then show ?thesis using j by (simp add: goodRun_def promotableNonces_def)
next
  case (Cons n ns)
  let ?R = "run n (n # ns)" and ?k = "length (processable l)"
  have g: "goodRun l = ?R" using Cons by (simp add: goodRun_def)
  have k: "?k \<le> length ?R" using j g by (simp del: run.simps)
  have kp: "processable l = take ?k ?R" using j g by (cases "j \<le> length ?R") (simp_all add: min_def del: run.simps)
  have d: "run (n + int ?k) (drop ?k (nonces l)) = drop ?k ?R" using run_drop[OF k] Cons by simp
  have la: "last (processable l) = n + int ?k - 1" if "processable l \<noteq> []"
  proof -
    have "last (processable l) = ?R ! (?k - 1)" using that kp by (metis diff_less last_conv_nth length_greater_0_conv nth_take zero_less_one)
    also have "\<dots> = n + int (?k - 1)" using that k by (intro run_nth) (meson diff_less length_greater_0_conv less_le_trans zero_less_one)
    finally show ?thesis using that by (cases "processable l") simp_all
  qed
  have "promotableNonces l = drop ?k ?R"
  proof (cases "drop ?k (nonces l)")
    case Nil
    then show ?thesis using d by (simp add: promotableNonces_def)
  next
    case c: (Cons x xs)
    show ?thesis
    proof (cases "processable l = []")
      case True
      then show ?thesis using c Cons by (simp add: promotableNonces_def)
    next
      case False
      then show ?thesis using d c la by (auto simp: promotableNonces_def)
    qed
  qed
  then show ?thesis using g kp by (metis append_take_drop_id)
qed

lemma unique_distinct: "distinct xs \<Longrightarrow> uniqueInOrder xs = xs"
  by (simp add: uniqueInOrder_def distinct_remdups_id)

lemma uniqueInOrder_nil: "uniqueInOrder [] = []"
  by (simp add: uniqueInOrder_def)

lemma promote_rest:
  assumes l: "listOk l" and j: "processable l = take j (goodRun l)"
  shows "processable (snd (promote (getPromotable l) l)) = goodRun l" "transactions (snd (promote (getPromotable l) l)) = transactions l"
proof -
  have n: "\<forall>k \<in> set (promotableNonces l). txNonce (txAt l k) = k \<and> transactions l k = Some (txAt l k)" using promotable_sub[of l] txAt_nonce[OF l] by blast
  then have "map txNonce (getPromotable l) = promotableNonces l" by (simp add: promotable_run[OF l] comp_def map_idI)
  moreover have "promotingNonces l (getPromotable l) = Some (map txNonce (getPromotable l))"
    using n by (auto simp: promotingNonces_def promotable_run[OF l])
  moreover have "sortProcessable (uniqueInOrder (goodRun l)) = goodRun l"
    using run_sorted by (cases "nonces l") (simp_all add: goodRun_def sortProcessable_def uniqueInOrder_nil unique_distinct sorted_sort_id del: run.simps(2))
  ultimately show "processable (snd (promote (getPromotable l) l)) = goodRun l" "transactions (snd (promote (getPromotable l) l)) = transactions l"
    using promotable_rest[OF j] by (simp_all add: promote_def)
qed

definition consecutive :: "ptx list \<Rightarrow> bool" where
  "consecutive ts = (\<forall>i. Suc i < length ts \<longrightarrow> txNonce (ts ! Suc i) = txNonce (ts ! i) + 1)"

lemma verify_all:
  assumes c: "consecutive al" and v: "\<forall>t \<in> set al. verify t = Some PROCESSABLE \<or> verify t = Some UNPROCESSABLE" and h: "verify (hd al) = Some PROCESSABLE"
  shows "al = dn @ rem \<Longrightarrow> rem \<noteq> [] \<Longrightarrow> map fst res = dn \<Longrightarrow> INVALID \<notin> set (map snd res) \<Longrightarrow> su = map idRef dn \<Longrightarrow>
    reorgRun cfg verify (Verifying rs r al pr rem res su) p =
    reorgRun cfg verify (Scanning rs) (promoteIn r (filter (\<lambda>tx. idRef tx \<in> set (map idRef al)) pr) p)"
proof (induction rem arbitrary: dn res su)
  case (Cons tx rest)
  obtain s where s: "verify tx = Some s" "s \<noteq> INVALID" using v Cons.prems(1) by auto
  have ne: "dn \<noteq> []" if "s = UNPROCESSABLE" using that s(1) h Cons.prems(1) by auto
  have nxt: "txNonce (fst (last res)) + 1 = txNonce tx" if "dn \<noteq> []"
  proof -
    have "last dn = al ! (length dn - 1)" "tx = al ! length dn" using Cons.prems(1) that by (auto simp: nth_append last_conv_nth)
    moreover have "txNonce (al ! Suc (length dn - 1)) = txNonce (al ! (length dn - 1)) + 1"
      using c[unfolded consecutive_def, rule_format, of "length dn - 1"] that Cons.prems(1) by simp
    moreover have "Suc (length dn - 1) = length dn" using that by simp
    moreover have "fst (last res) = last dn" using Cons.prems(3) that by (metis last_map list.map_disc_iff)
    ultimately show ?thesis using that by simp
  qed
  have noInv: "find (\<lambda>v. snd v = INVALID) (res @ [(tx, s)]) = None" using Cons.prems(4) s(2) by (force simp: find_None_iff)
  have su: "length su = 0 \<longleftrightarrow> dn = []" using Cons.prems(5) by simp
  show ?case
  proof (cases "rest = []")
    case True
    have "reorgVerify cfg (Some s) (Verifying rs r al pr (tx # rest) res su) p =
      (Inr (Scanning rs), promoteIn r (filter (\<lambda>tx. idRef tx \<in> set (su @ [idRef tx'])) pr) p)" if "tx' = tx" for tx'
      using s(2) ne nxt su noInv True that by (auto simp: Let_def andThen_def bind_def ret_def reorgFinish_def)
    then show ?thesis using s(1) True Cons.prems(1,5) by simp
  next
    case False
    have "reorgVerify cfg (Some s) (Verifying rs r al pr (tx # rest) res su) p = (Inr (Verifying rs r al pr rest (res @ [(tx, s)]) (su @ [idRef tx])), p)"
      using s(2) ne nxt su False by (auto simp: Let_def ret_def)
    moreover have "reorgRun cfg verify (Verifying rs r al pr rest (res @ [(tx, s)]) (su @ [idRef tx])) p =
      reorgRun cfg verify (Scanning rs) (promoteIn r (filter (\<lambda>tx. idRef tx \<in> set (map idRef al)) pr) p)"
      by (rule Cons.IH[of "dn @ [tx]"]) (use Cons.prems s(2) False in auto)
    ultimately show ?thesis using s(1) by simp
  qed
qed simp


text \<open>What the run of consecutive nonces contains.\<close>

lemma run_mem:
  assumes s: "sorted (n # ns)" "distinct (n # ns)"
  shows "k \<in> set (run n (n # ns)) \<longleftrightarrow> n \<le> k \<and> (\<forall>i. n \<le> i \<longrightarrow> i \<le> k \<longrightarrow> i \<in> set (n # ns))"
proof -
  let ?ks = "n # ns" and ?R = "run n (n # ns)"
  define m where "m = length ?R"
  have R: "set ?R = {n..<n + int m}"
  proof -
    have "set ?R = (\<lambda>i. n + int i) ` {..<m}" using run_nth[of _ n ?ks] by (force simp: set_conv_nth m_def simp del: run.simps)
    also have "\<dots> = {n..<n + int m}"
    proof
      show "{n..<n + int m} \<subseteq> (\<lambda>i. n + int i) ` {..<m}"
      proof
        fix x assume "x \<in> {n..<n + int m}"
        then show "x \<in> (\<lambda>i. n + int i) ` {..<m}" by (intro image_eqI[of _ _ "nat (x - n)"]) auto
      qed
    qed auto
    finally show ?thesis .
  qed
  have d: "run (n + int m) (drop m ?ks) = []" "take m ?ks = ?R" using run_drop[of m n ?ks] by (simp_all add: m_def del: run.simps)
  have stop: "n + int m \<notin> set ?ks"
  proof
    assume mem: "n + int m \<in> set ?ks"
    have "set ?ks = set (take m ?ks) \<union> set (drop m ?ks)" by (metis append_take_drop_id set_append)
    then have md: "n + int m \<in> set (drop m ?ks)" using mem R d(2) by (simp del: run.simps take_Cons' drop_Cons' list.set)
    then obtain x xs where x: "drop m ?ks = x # xs" by (cases "drop m ?ks") auto
    have so: "sorted (take m ?ks @ x # xs)" "distinct (take m ?ks @ x # xs)" using s x by (metis append_take_drop_id)+
    have le: "x \<le> n + int m" using so(1) md x by (auto simp: sorted_append)
    have m0: "0 < m" by (simp add: m_def)
    then have "n + int (m - 1) \<in> set (take m ?ks)" using R d(2) by (auto simp del: run.simps take_Cons' simp: of_nat_diff)
    then have "n + int (m - 1) \<le> x" "n + int (m - 1) \<noteq> x" using so by (auto simp: sorted_append simp del: take_Cons')
    then have "x = n + int m" using le m0 by (auto simp: of_nat_diff)
    then show False using d(1) x by simp
  qed
  show ?thesis
  proof
    assume "k \<in> set ?R"
    then show "n \<le> k \<and> (\<forall>i. n \<le> i \<longrightarrow> i \<le> k \<longrightarrow> i \<in> set ?ks)" using R run_subset[of n ?ks] by (auto simp del: run.simps)
  next
    assume a: "n \<le> k \<and> (\<forall>i. n \<le> i \<longrightarrow> i \<le> k \<longrightarrow> i \<in> set ?ks)"
    then have "k < n + int m" using stop by (metis le_add_same_cancel1 linorder_not_le of_nat_0_le_iff)
    then show "k \<in> set ?R" using R a by simp
  qed
qed

lemma refs_unique:
  assumes ok: "poolOk cfg idc p" and l: "bmGet (transactionList p) a = Some l"
  shows "\<exists>pre post. map listRef (bmValues (transactionList p)) = pre @ listRef l # post \<and> listRef l \<notin> set pre \<and> listRef l \<notin> set post"
proof -
  have "(a, l) \<in> set (transactionList p)" using l get_iff_mem[OF poolOk_lists(1)[OF ok]] by blast
  then obtain xs ys where xy: "transactionList p = xs @ (a, l) # ys" by (meson split_list)
  have "listRef k \<noteq> listRef l" if "(b, k) \<in> set xs \<union> set ys" for b k
  proof
    assume e: "listRef k = listRef l"
    have "(b, k) \<in> set (transactionList p)" using that xy by auto
    then have "bmGet (transactionList p) b = Some k" using get_iff_mem[OF poolOk_lists(1)[OF ok]] by blast
    then have "b = a" by (rule poolOk_lists(3)[OF ok _ l e])
    then have "a \<in> fst ` (set xs \<union> set ys)" using that by (metis fst_conv image_eqI)
    moreover have "a \<notin> fst ` (set xs \<union> set ys)" using poolOk_lists(1)[OF ok] unfolding xy by auto
    ultimately show False by blast
  qed
  then have "listRef l \<notin> set (map listRef (map snd xs))" "listRef l \<notin> set (map listRef (map snd ys))" by force+
  then show ?thesis using xy by (intro exI[of _ "map listRef (map snd xs)"] exI[of _ "map listRef (map snd ys)"]) (simp add: bmValues_def)
qed

lemma good_sub: "set (goodRun l) \<subseteq> set (nonces l)"
  using run_subset[of "hd (nonces l)" "nonces l"] by (cases "nonces l") (simp_all add: goodRun_def del: run.simps(2))

lemma good_consecutive:
  assumes l: "listOk l"
  shows "consecutive (map (txAt l) (goodRun l))"
proof (cases "nonces l")
  case (Cons n ns)
  have "txNonce (txAt l (goodRun l ! i)) = goodRun l ! i" if "i < length (goodRun l)" for i
    using txAt_nonce[OF l] good_sub[of l] that nth_mem by blast
  moreover have "goodRun l ! i = n + int i" if "i < length (goodRun l)" for i using run_nth[of i n "n # ns"] that Cons by (simp add: goodRun_def)
  ultimately have "txNonce (map (txAt l) (goodRun l) ! i) = n + int i" if "i < length (goodRun l)" for i using that by simp
  then show ?thesis by (simp add: consecutive_def del: nth_map)
qed (simp add: consecutive_def goodRun_def)

lemma promote_list:
  assumes ok: "poolOk cfg idc p" and l: "bmGet (transactionList p) a = Some l" and j: "processable l = take j (goodRun l)" and ne: "nonces l = n # ns"
    and h: "verify (txAt l n) = Some PROCESSABLE" and v: "\<forall>k \<in> set (goodRun l). verify (txAt l k) = Some PROCESSABLE \<or> verify (txAt l k) = Some UNPROCESSABLE"
  shows "\<exists>p' l'. reorgRun cfg verify (Scanning (listRef l # rs)) p = reorgRun cfg verify (Scanning rs) p' \<and> poolOk cfg idc p' \<and>
           bmGet (transactionList p') a = Some l' \<and> listRef l' = listRef l \<and> transactions l' = transactions l \<and> processable l' = goodRun l"
proof -
  have lok: "listOk l" "listAddress l = a" using poolOk_lists(2)[OF ok l] by simp_all
  note r = get_listByRef[OF ok l]
  note whole = promotable_rest[OF j]
  show ?thesis
  proof (cases "getPromotable l = []")
    case True
    then have "processable l = goodRun l" using whole promotable_run[OF lok(1)] by simp
    then show ?thesis using r True ok l by (intro exI[of _ p] exI[of _ l]) simp
  next
    case False
    let ?al = "getProcessable l @ getPromotable l"
    have al: "?al = map (txAt l) (goodRun l)" using whole promotable_run[OF lok(1)] by (metis getProcessable_def map_append)
    have hd: "hd ?al = txAt l n" using ne unfolding al by (simp add: goodRun_def)
    have "reorgRun cfg verify (Scanning (listRef l # rs)) p = reorgRun cfg verify (Verifying rs (listRef l) ?al (getPromotable l) ?al [] []) p"
      using r False by simp
    also have "\<dots> = reorgRun cfg verify (Scanning rs) (promoteIn (listRef l) (filter (\<lambda>tx. idRef tx \<in> set (map idRef ?al)) (getPromotable l)) p)"
    proof (rule verify_all[where dn = "[]"])
      show "consecutive ?al" unfolding al by (rule good_consecutive[OF lok(1)])
      show "\<forall>t \<in> set ?al. verify t = Some PROCESSABLE \<or> verify t = Some UNPROCESSABLE" using v unfolding al by simp
      show "verify (hd ?al) = Some PROCESSABLE" using h hd by simp
    qed (use False in simp_all)
    also have "filter (\<lambda>tx. idRef tx \<in> set (map idRef ?al)) (getPromotable l) = getPromotable l" by (rule filter_True) simp
    finally have e: "reorgRun cfg verify (Scanning (listRef l # rs)) p = reorgRun cfg verify (Scanning rs) (promoteIn (listRef l) (getPromotable l) p)" .
    have pe: "promoteIn (listRef l) (getPromotable l) p = p\<lparr>transactionList := bmSet a (snd (promote (getPromotable l) l)) (transactionList p)\<rparr>"
      using r lok(2) by (simp add: promoteIn_def)
    have "listRef (snd (promote (getPromotable l) l)) = listRef l" using promote_effect(5)[OF lok(1)] by (metis prod.collapse)
    then show ?thesis using e promoteIn_effect(1)[OF ok, of "listRef l" "getPromotable l"] promote_rest[OF lok(1) j]
      by (intro exI[of _ "promoteIn (listRef l) (getPromotable l) p"] exI[of _ "snd (promote (getPromotable l) l)"]) (simp add: pe)
  qed
qed

lemma reorganize_list:
  assumes ok: "poolOk cfg idc p" and l: "bmGet (transactionList p) a = Some l" and j: "processable l = take j (goodRun l)" and ne: "nonces l = n # ns"
    and h: "verify (txAt l n) = Some PROCESSABLE" and v: "\<forall>k \<in> set (goodRun l). verify (txAt l k) = Some PROCESSABLE \<or> verify (txAt l k) = Some UNPROCESSABLE"
  shows "\<exists>p' l'. reorganize cfg verify p = (Inr (), p') \<and> poolOk cfg idc p' \<and> bmGet (transactionList p') a = Some l' \<and>
           transactions l' = transactions l \<and> processable l' = goodRun l"
proof -
  obtain pre post where pp: "map listRef (bmValues (transactionList p)) = pre @ listRef l # post" "listRef l \<notin> set pre" "listRef l \<notin> set post"
    using refs_unique[OF ok l] by blast
  obtain p1 where p1: "reorgRun cfg verify (Scanning (pre @ listRef l # post)) p = reorgRun cfg verify (Scanning (listRef l # post)) p1" "poolOk cfg idc p1"
    "bmGet (transactionList p1) a = Some l" using run_lists[OF ok, of verify pre "listRef l # post"] l pp(2) by blast
  obtain p2 l' where p2: "reorgRun cfg verify (Scanning (listRef l # post)) p1 = reorgRun cfg verify (Scanning post) p2" "poolOk cfg idc p2"
    "bmGet (transactionList p2) a = Some l'" "listRef l' = listRef l" "transactions l' = transactions l" "processable l' = goodRun l"
    using promote_list[OF p1(2,3) j ne h v, of post] by blast
  obtain p3 where p3: "reorgRun cfg verify (Scanning (post @ [])) p2 = reorgRun cfg verify (Scanning []) p3" "poolOk cfg idc p3" "bmGet (transactionList p3) a = Some l'"
    using run_lists[OF p2(2), of verify post "[]"] p2(3,4) pp(3) by fastforce
  have "reorganize cfg verify p = (Inr (), p3)"
    using pp(1) p1(1) p2(1) p3(1) run_done unfolding reorganize_def reorgStart_def by (metis append.right_neutral)
  then show ?thesis using p3 p2(5,6) by blast
qed

end
