(* ===== verification/TxPoolTheorems.thy ===== *)
theory TxPoolTheorems
  imports TxPoolRun
begin

text \<open>
  The properties of the transaction pool: its consistency under every interleaving, what a full
  pool gives up, and what a reorganisation promotes. The witnesses run a pool of two transactions.
\<close>

section \<open>A pool to run\<close>

definition demoCfg :: poolConfig where
  "demoCfg = \<lparr>maxTransactions = 2, maxTransactionsPerAccount = 2, transactionExpiryTime = 1000, minEntranceFeePriority = 0,
     poolMinReplacementFeeDifference = 10, maxPayloadLength = 1000, poolHash = (\<lambda>k. k)\<rparr>"

definition demoTx :: "int \<Rightarrow> ptx" where
  "demoTx n = \<lparr>txId = [word_of_int n], idRef = nat n, txNonce = n, txFee = 100, txSenderPublicKey = [7], receivedAt = None, feePriority = None, txLength = 10\<rparr>"

definition demoIdc :: idContent where
  "demoIdc i = (uint (hd i), 100, [7], 10)"

text \<open>A transaction is added and verified with the given answer.\<close>

definition demoAdd :: "int \<Rightarrow> txStatus \<Rightarrow> poolSys \<Rightarrow> poolSys" where
  "demoAdd n status s =
     (let r = addStart demoCfg (demoTx n) (thePool s);
          s = (after r s)\<lparr>awaiting := newAwaiting (fst r) @ awaiting s\<rparr>;
          tx = hd (awaiting s);
          r = addFinish demoCfg 0 status tx (thePool s)
      in (after r s)\<lparr>awaiting := remove1 tx (awaiting s)\<rparr>)"

definition demoUp :: poolSys where
  "demoUp = demoAdd 5 UNPROCESSABLE (demoAdd 4 PROCESSABLE startSys)"

definition demoDown :: poolSys where
  "demoDown = demoAdd 4 PROCESSABLE (demoAdd 5 PROCESSABLE startSys)"

lemma demo_txOk: "n = 4 \<or> n = 5 \<Longrightarrow> txOk demoIdc (demoTx n)"
  by (auto simp: txOk_def demoIdc_def demoTx_def)

lemma demoAdd_reachable:
  assumes s: "poolReachable demoCfg demoIdc s" and n: "n = 4 \<or> n = 5" and a: "newAwaiting (fst (addStart demoCfg (demoTx n) (thePool s))) \<noteq> []"
  shows "poolReachable demoCfg demoIdc (demoAdd n status s)"
proof -
  let ?r = "addStart demoCfg (demoTx n) (thePool s)"
  let ?s = "(after ?r s)\<lparr>awaiting := newAwaiting (fst ?r) @ awaiting s\<rparr>"
  have "poolReachable demoCfg demoIdc ?s" using s step_add[OF demo_txOk[OF n] refl] by (rule pool_more)
  moreover have "hd (awaiting ?s) \<in> set (awaiting ?s)" using a by (intro hd_in_set) simp
  ultimately show ?thesis unfolding demoAdd_def Let_def by (blast intro: pool_more step_verified)
qed

lemma demo_first: "newAwaiting (fst (addStart demoCfg (demoTx 4) (thePool startSys))) \<noteq> []" "newAwaiting (fst (addStart demoCfg (demoTx 5) (thePool startSys))) \<noteq> []"
  by code_simp+

lemma demo_second:
  "newAwaiting (fst (addStart demoCfg (demoTx 5) (thePool (demoAdd 4 PROCESSABLE startSys)))) \<noteq> []"
  "newAwaiting (fst (addStart demoCfg (demoTx 4) (thePool (demoAdd 5 PROCESSABLE startSys)))) \<noteq> []"
  by code_simp+

lemma demoPool_reachable: "poolReachable demoCfg demoIdc demoUp" "poolReachable demoCfg demoIdc demoDown"
  unfolding demoUp_def demoDown_def
  by (intro demoAdd_reachable pool_start demo_first demo_second; simp)+

lemma demo_lists:
  "map (\<lambda>(a, l). (a, processable l, nonces l)) (transactionList (thePool demoUp)) = [([7], [4], [4, 5])]"
  "map (\<lambda>(a, l). (a, processable l, nonces l)) (transactionList (thePool demoDown)) = [([7], [5], [4, 5])]"
  by code_simp+


section \<open>Properties\<close>

text \<open>
  C9: Whatever the order in which additions (each in two halves around its verification),
  removals, expiries and the steps of a reorganisation interleave, the pool throws nothing,
  never holds more than \<open>maxTransactions\<close> transactions nor more than
  \<open>maxTransactionsPerAccount\<close> of one account, its processable nonces all have a transaction,
  and the two dictionaries agree: a transaction is stored under its identifier exactly when the
  list of its sender holds it at its nonce.
\<close>

theorem pool_stays_consistent:
  assumes "1 \<le> maxTransactions cfg" "poolReachable cfg idc s"
  shows "\<not> thrown s \<and> bmSize (allTransactions (thePool s)) \<le> maxTransactions cfg \<and>
    (\<forall>a l. bmGet (transactionList (thePool s)) a = Some l \<longrightarrow>
       length (nonceHeap l) \<le> maxTransactionsPerAccount cfg \<and> (\<forall>n \<in> set (processable l). transactions l n \<noteq> None)) \<and>
    (\<forall>i t. bmGet (allTransactions (thePool s)) i = Some t \<longleftrightarrow>
       txId t = i \<and> (\<exists>l. bmGet (transactionList (thePool s)) (addressOf cfg (txSenderPublicKey t)) = Some l \<and> transactions l (txNonce t) = Some t))"
proof -
  have ok: "poolOk cfg idc (thePool s)" "\<not> thrown s" using reachable_sysOk[OF assms(2,1)] by (simp_all add: sysOk_def)
  have "length (nonceHeap l) \<le> maxTransactionsPerAccount cfg \<and> (\<forall>n \<in> set (processable l). transactions l n \<noteq> None)"
    if "bmGet (transactionList (thePool s)) a = Some l" for a l
    using poolOk_lists(2)[OF ok(1) that] listOk_dest(7,8)[of l] nonces_basic(3)[of l] by simp
  moreover have "bmGet (allTransactions (thePool s)) i = Some t \<longleftrightarrow>
       txId t = i \<and> (\<exists>l. bmGet (transactionList (thePool s)) (addressOf cfg (txSenderPublicKey t)) = Some l \<and> transactions l (txNonce t) = Some t)" for i t
    using poolOk_all(2,3)[OF ok(1), of i t] poolOk_lists(4)[OF ok(1)] by blast
  ultimately show ?thesis using ok(2) poolOk_all(4)[OF ok(1)] by blast
qed

theorem pool_stays_consistent_witness:
  "\<not> thrown demoUp \<and> bmSize (allTransactions (thePool demoUp)) \<le> 2"
  using pool_stays_consistent[OF _ demoPool_reachable(1)] by (simp add: demoCfg_def)

text \<open>
  C17: Liveness of the reorganisation. In a reachable pool take the list of an account whose
  processable nonces are the first ones of its run of consecutive nonces from the lowest nonce
  \<open>n\<close> on (none at all, for instance). If the verification accepts the transaction at
  \<open>n\<close> as processable and finds none of the run invalid, one reorganisation ends without an error, keeps
  all transactions of the list and makes processable exactly the transactions with no gap below
  them, whatever the verification says of the other accounts.
\<close>

theorem reorganize_promotes_run:
  assumes "1 \<le> maxTransactions cfg" "poolReachable cfg idc s"
    and "bmGet (transactionList (thePool s)) a = Some l" "nonces l = n # ns" "processable l = take j (goodRun l)"
    and "verify (txAt l n) = Some PROCESSABLE"
    and "\<forall>k \<in> set (goodRun l). verify (txAt l k) = Some PROCESSABLE \<or> verify (txAt l k) = Some UNPROCESSABLE"
  shows "\<exists>p' l'. reorganize cfg verify (thePool s) = (Inr (), p') \<and> bmGet (transactionList p') a = Some l' \<and> transactions l' = transactions l \<and>
           sorted (processable l') \<and> set (processable l') = {k. n \<le> k \<and> (\<forall>i. n \<le> i \<longrightarrow> i \<le> k \<longrightarrow> transactions l i \<noteq> None)}"
proof -
  have ok: "poolOk cfg idc (thePool s)" using reachable_sysOk[OF assms(2,1)] by (simp add: sysOk_def)
  have lok: "listOk l" using poolOk_lists(2)[OF ok assms(3)] by simp
  have g: "goodRun l = run n (n # ns)" using assms(4) by (simp add: goodRun_def)
  have so: "sorted (n # ns)" "distinct (n # ns)" using nonces_basic(2)[of l] listOk_dest(2)[OF lok] assms(4) by simp_all
  have "i \<in> set (n # ns) \<longleftrightarrow> transactions l i \<noteq> None" for i using listOk_dest(3)[OF lok, of i] assms(4) by simp
  then have "set (goodRun l) = {k. n \<le> k \<and> (\<forall>i. n \<le> i \<longrightarrow> i \<le> k \<longrightarrow> transactions l i \<noteq> None)}"
    unfolding g using run_mem[OF so] by blast
  moreover have "sorted (goodRun l)" unfolding g using run_sorted by blast
  ultimately show ?thesis using reorganize_list[OF ok assms(3,5,4,6,7)] by metis
qed

theorem reorganize_promotes_run_witness:
  "\<exists>p' l'. reorganize demoCfg (\<lambda>t. Some (if txNonce t = 4 then PROCESSABLE else UNPROCESSABLE)) (thePool demoUp) = (Inr (), p') \<and>
     bmGet (transactionList p') [7] = Some l' \<and> 5 \<in> set (processable l')"
proof -
  obtain l where l: "transactionList (thePool demoUp) = [([7], l)]" "processable l = [4]" "nonces l = [4, 5]"
    using demo_lists(1) by (auto simp: map_eq_Cons_conv)
  have b: "bmGet (transactionList (thePool demoUp)) [7] = Some l" using l(1) by (simp add: bmGet_def)
  have ok: "poolOk demoCfg demoIdc (thePool demoUp)" using reachable_sysOk[OF demoPool_reachable(1)] by (simp add: sysOk_def demoCfg_def)
  have lok: "listOk l" using poolOk_lists(2)[OF ok b] by simp
  have g: "goodRun l = [4, 5]" using l(3) by (simp add: goodRun_def)
  have t: "txNonce (txAt l 4) = 4" using txAt_nonce[OF lok] l(3) by simp
  have "transactions l 4 \<noteq> None" "transactions l 5 \<noteq> None" using listOk_dest(3)[OF lok, of 4] listOk_dest(3)[OF lok, of 5] l(3) by auto
  moreover have "i = 4 \<or> i = 5" if "4 \<le> i" "i \<le> 5" for i :: int using that by linarith
  ultimately have "(5::int) \<in> {k. 4 \<le> k \<and> (\<forall>i. 4 \<le> i \<longrightarrow> i \<le> k \<longrightarrow> transactions l i \<noteq> None)}" by auto
  moreover have "(1::nat) \<le> maxTransactions demoCfg" "processable l = take 1 (goodRun l)" using l(2) g by (simp_all add: demoCfg_def)
  moreover have "(if txNonce (txAt l k) = 4 then PROCESSABLE else UNPROCESSABLE) = PROCESSABLE \<or> (if txNonce (txAt l k) = 4 then PROCESSABLE else UNPROCESSABLE) = UNPROCESSABLE" for k by simp
  ultimately show ?thesis
    using reorganize_promotes_run[OF _ demoPool_reachable(1) b l(3), of 1 "\<lambda>t. Some (if txNonce t = 4 then PROCESSABLE else UNPROCESSABLE)"] t by auto
qed

lemma candidate_prio:
  assumes ok: "poolOk cfg idc p" and n: "n \<in> set (unprocessableCandidates p) \<union> set (processableCandidates p)"
  shows "fst n = calculateFeePriority (snd n)"
proof -
  have "bmGet (allTransactions p) (txId (snd n)) = Some (snd n)" using candidates_in_pool[OF ok, of "fst n" "snd n"] n by auto
  then have "feePriority (snd n) = Some (calculateFeePriority (snd n))" using poolOk_all(2)[OF ok] by blast
  moreover have "n = withPriority (snd n)" using n by (auto simp: unprocessableCandidates_def processableCandidates_def withPriority_def split: if_splits)
  ultimately show ?thesis by (metis fst_conv option.sel withPriority_def)
qed

lemma candidate_iff:
  "n \<in> set (unprocessableCandidates p) \<longleftrightarrow> (\<exists>l \<in> set (bmValues (transactionList p)). snd n \<in> set (getUnprocessable l)) \<and> n = withPriority (snd n)"
  "n \<in> set (processableCandidates p) \<longleftrightarrow>
     (\<exists>l \<in> set (bmValues (transactionList p)). getProcessable l \<noteq> [] \<and> snd n = last (getProcessable l)) \<and> n = withPriority (snd n)"
  by (auto simp: unprocessableCandidates_def processableCandidates_def withPriority_def split: if_splits)

text \<open>
  C34: What a full pool gives up for a new transaction. If there is any unprocessable transaction,
  one with the lowest fee priority of them is evicted; otherwise it is, among the
  processable transactions with the highest nonce of their account, one with the lowest fee priority. Nothing
  else leaves the pool.
\<close>

theorem full_pool_evicts_cheapest:
  assumes "1 \<le> maxTransactions cfg" "poolReachable cfg idc s" "bmSize (allTransactions (thePool s)) = maxTransactions cfg"
  shows "\<exists>t p'. evictIfFull cfg (thePool s) = (Inr (), p') \<and> allTransactions p' = bmDelete (txId t) (allTransactions (thePool s)) \<and>
    (if \<exists>l \<in> set (bmValues (transactionList (thePool s))). getUnprocessable l \<noteq> []
     then (\<exists>l \<in> set (bmValues (transactionList (thePool s))). t \<in> set (getUnprocessable l)) \<and>
          (\<forall>l \<in> set (bmValues (transactionList (thePool s))). \<forall>u \<in> set (getUnprocessable l). calculateFeePriority t \<le> calculateFeePriority u)
     else (\<exists>l \<in> set (bmValues (transactionList (thePool s))). getProcessable l \<noteq> [] \<and> t = last (getProcessable l)) \<and>
          (\<forall>l \<in> set (bmValues (transactionList (thePool s))). getProcessable l \<noteq> [] \<longrightarrow> calculateFeePriority t \<le> calculateFeePriority (last (getProcessable l))))"
proof -
  let ?p = "thePool s"
  let ?ls = "bmValues (transactionList ?p)"
  have ok: "poolOk cfg idc ?p" using reachable_sysOk[OF assms(2,1)] by (simp add: sysOk_def)
  note prio = candidate_prio[OF ok] and u = candidate_iff(1)[of _ "?p"] and q = candidate_iff(2)[of _ "?p"]
  have full: "0 < bmSize (allTransactions ?p)" using assms(1,3) by simp
  have sw: "snd (withPriority v) = v" for v by (simp add: withPriority_def)
  show ?thesis
  proof (cases "unprocessableCandidates ?p = []")
    case False
    then obtain f t p' where e: "(f, t) \<in> set (unprocessableCandidates ?p)" "\<forall>n \<in> set (unprocessableCandidates ?p). f \<le> fst n"
      "evictUnprocessable cfg ?p = (Inr True, p')" "allTransactions p' = bmDelete (txId t) (allTransactions ?p)" using evict_effect(1)[OF ok] by auto
    have f: "f = calculateFeePriority t" using prio[of "(f, t)"] e(1) by simp
    have low: "calculateFeePriority t \<le> calculateFeePriority v" if "l \<in> set ?ls" "v \<in> set (getUnprocessable l)" for l v
    proof -
      have "withPriority v \<in> set (unprocessableCandidates ?p)" using that u[of "withPriority v"] sw by auto
      then show ?thesis using e(2) prio[of "withPriority v"] f sw by fastforce
    qed
    have ex: "\<exists>l \<in> set ?ls. t \<in> set (getUnprocessable l)" using e(1) u[of "(f, t)"] by simp
    then have "\<exists>l \<in> set ?ls. getUnprocessable l \<noteq> []" by force
    moreover have "evictIfFull cfg ?p = (Inr (), p')" using e(3) assms(3) by (simp add: evictIfFull_def bind_def whenM_def ret_def)
    ultimately show ?thesis using e(4) ex low by (intro exI[of _ t] exI[of _ p']) simp
  next
    case True
    then have no: "\<not> (\<exists>l \<in> set ?ls. getUnprocessable l \<noteq> [])" by (auto simp: unprocessableCandidates_def)
    obtain f t p' where e: "(f, t) \<in> set (processableCandidates ?p)" "\<forall>n \<in> set (processableCandidates ?p). f \<le> fst n"
      "evictProcessable cfg ?p = (Inr True, p')" "allTransactions p' = bmDelete (txId t) (allTransactions ?p)"
      using evict_effect(2)[OF ok] candidate_exists[OF ok full True] by auto
    have f: "f = calculateFeePriority t" using prio[of "(f, t)"] e(1) by simp
    have low: "calculateFeePriority t \<le> calculateFeePriority (last (getProcessable l))" if "l \<in> set ?ls" "getProcessable l \<noteq> []" for l
    proof -
      have "withPriority (last (getProcessable l)) \<in> set (processableCandidates ?p)" using that q[of "withPriority (last (getProcessable l))"] sw by auto
      then show ?thesis using e(2) prio[of "withPriority (last (getProcessable l))"] f sw by fastforce
    qed
    have ex: "\<exists>l \<in> set ?ls. getProcessable l \<noteq> [] \<and> t = last (getProcessable l)" using e(1) q[of "(f, t)"] by simp
    have "evictIfFull cfg ?p = (Inr (), p')" using e(3) evict_effect(1)[OF ok] True assms(3)
      by (simp add: evictIfFull_def bind_def andThen_def whenM_def ret_def)
    then show ?thesis using e(4) ex low no by (intro exI[of _ t] exI[of _ p']) simp
  qed
qed

theorem full_pool_evicts_cheapest_witness:
  "\<exists>(t :: ptx) p'. evictIfFull demoCfg (thePool demoUp) = (Inr (), p') \<and> allTransactions p' = bmDelete (txId t) (allTransactions (thePool demoUp))"
proof -
  have "bmSize (allTransactions (thePool demoUp)) = 2" by code_simp
  then have full: "1 \<le> maxTransactions demoCfg" "bmSize (allTransactions (thePool demoUp)) = maxTransactions demoCfg" by (simp_all add: demoCfg_def)
  show ?thesis using full_pool_evicts_cheapest[OF full(1) demoPool_reachable(1) full(2)] by blast
qed


end
