(* ===== verification/HookLaws.thy ===== *)
theory HookLaws
  imports StateMachine BaseStore
begin

text \<open>
  The view a module has of its substore in the context of a hook, and the laws of hooks that
  the state machine relies on (\<open>hookOk\<close>) and that modules expect of each other
  (\<open>keepsSub\<close>), with the rules that derive them for the operations of a module.
\<close>

section \<open>Substores in the context\<close>

text \<open>How the state store shows a module its substore.\<close>

record 'st substore =
  subRead :: "'st \<Rightarrow> bytes kv"
  subWrite :: "(bytes kv \<Rightarrow> bytes kv) \<Rightarrow> 'st \<Rightarrow> 'st"

definition subSel :: "'st substore \<Rightarrow> 'st sctx \<Rightarrow> bytes kv" where
  "subSel sub s = subRead sub (sState s)"

definition subUpd :: "'st substore \<Rightarrow> (bytes kv \<Rightarrow> bytes kv) \<Rightarrow> 'st sctx \<Rightarrow> 'st sctx" where
  "subUpd sub f s = s\<lparr>sState := subWrite sub f (sState s)\<rparr>"

definition lensLaw :: "'st substore \<Rightarrow> bool" where
  "lensLaw sub = (\<forall>f s. subRead sub (subWrite sub f s) = f (subRead sub s))"

lemma subSel_upd [simp]: "lensLaw sub \<Longrightarrow> subSel sub (subUpd sub f s) = f (subSel sub s)"
  by (simp add: lensLaw_def subSel_def subUpd_def)

definition keepsSub :: "'st substore \<Rightarrow> ('st sctx, 'a) m \<Rightarrow> bool" where
  "keepsSub sub h = (\<forall>s. subRead sub (sState (snd (h s))) = subRead sub (sState s))"


section \<open>Hooks keep the order of events\<close>

definition laterLaw :: "('st \<Rightarrow> 'st \<Rightarrow> bool) \<Rightarrow> bool" where
  "laterLaw later = ((\<forall>s. later s s) \<and> (\<forall>s t u. later s t \<longrightarrow> later t u \<longrightarrow> later s u))"

lemma laterLaw_snapshot: "snapshotLaw rw view later \<Longrightarrow> laterLaw later"
  unfolding snapshotLaw_def laterLaw_def by blast

lemma forward_refl': "laterLaw later \<Longrightarrow> forward later s s"
  by (simp add: forward_def laterLaw_def)

lemma forward_trans': "laterLaw later \<Longrightarrow> forward later s t \<Longrightarrow> forward later t u \<Longrightarrow> forward later s u"
  unfolding forward_def laterLaw_def by (metis append.assoc)

lemma hookOk_bind:
  assumes "laterLaw later" "hookOk later c" "\<And>a. hookOk later (f a)"
  shows "hookOk later (bind c f)"
proof -
  have "forward later s (snd (bind c f s))" for s
  proof (cases "c s")
    case (Pair r t)
    then have "forward later s t" using assms(2) by (metis hookOk_def snd_conv)
    moreover have "forward later t (snd (f a t))" for a using assms(3) by (simp add: hookOk_def)
    ultimately show ?thesis using Pair forward_trans'[OF assms(1)] by (cases r) (auto simp: bind_def)
  qed
  then show ?thesis by (simp add: hookOk_def)
qed

lemma hookOk_tryCatch:
  assumes "laterLaw later" "hookOk later c" "\<And>e. hookOk later (h e)"
  shows "hookOk later (tryCatch c h)"
proof -
  have "forward later s (snd (tryCatch c h s))" for s
  proof (cases "c s")
    case (Pair r t)
    then have "forward later s t" using assms(2) by (metis hookOk_def snd_conv)
    moreover have "forward later t (snd (h e t))" for e using assms(3) by (simp add: hookOk_def)
    ultimately show ?thesis using Pair forward_trans'[OF assms(1)] by (cases r) (auto simp: tryCatch_def)
  qed
  then show ?thesis by (simp add: hookOk_def)
qed

lemma hookOk_andThen: "laterLaw later \<Longrightarrow> hookOk later c \<Longrightarrow> hookOk later d \<Longrightarrow> hookOk later (andThen c d)"
  unfolding andThen_def by (rule hookOk_bind)

lemma hookOk_forEach: "laterLaw later \<Longrightarrow> (\<And>x. hookOk later (f x)) \<Longrightarrow> hookOk later (forEach xs f)"
  by (induction xs) (auto simp: hookOk_def ret_def forward_refl' intro!: hookOk_andThen[unfolded hookOk_def, rule_format])

lemma hookOk_pure:
  assumes "laterLaw later"
  shows "hookOk later (ret a)" "hookOk later (throw e)" "hookOk later (liftE r)" "hookOk later (gets g)"
  using forward_refl'[OF assms] by (simp_all add: hookOk_def ret_def throw_def liftE_def gets_def)

lemma hookOk_eventAdd:
  assumes "laterLaw later"
  shows "hookOk later (eventAdd lib md name schema vals topics nr)"
proof -
  have "forward later s (s\<lparr>cEvents := unsafeAdd (cHeight s) (cTopics s) md name data topics nr (cEvents s)\<rparr>)" for s data
    using assms queueOk_unsafeAdd by (simp add: forward_def laterLaw_def) (simp add: unsafeAdd_def)
  then show ?thesis using forward_refl'[OF assms]
    by (simp add: hookOk_def eventAdd_def bind_def liftE_def gets_def modify_def queueAdd_def Let_def split: sum.split)
qed

lemma hookOk_storeGet: "laterLaw later \<Longrightarrow> hookOk later (storeGet sch sel key)"
  unfolding storeGet_def by (intro hookOk_bind hookOk_pure) (auto intro: hookOk_pure split: option.split)

lemma hookOk_storeHas: "laterLaw later \<Longrightarrow> hookOk later (storeHas sel key)"
  unfolding storeHas_def by (rule hookOk_pure)

lemma hookOk_subUpd: "(\<forall>f s. later s (subWrite sub f s)) \<Longrightarrow> hookOk later (modify (subUpd sub f))"
  by (auto simp: hookOk_def modify_def subUpd_def forward_def)

lemma hookOk_storeSet: "laterLaw later \<Longrightarrow> (\<forall>f s. later s (subWrite sub f s)) \<Longrightarrow> hookOk later (storeSet sch (subUpd sub) key v)"
  unfolding storeSet_def by (intro hookOk_bind hookOk_pure hookOk_subUpd)

lemma hookOk_if: "hookOk later c \<Longrightarrow> hookOk later d \<Longrightarrow> hookOk later (if b then c else d)"
  by simp

lemmas hookOk_intros = hookOk_bind hookOk_andThen hookOk_forEach hookOk_pure hookOk_eventAdd hookOk_storeGet hookOk_storeHas
  hookOk_storeSet hookOk_if hookOk_tryCatch

section \<open>Loops over hooks\<close>

lemma keepsSub_run: "keepsSub sub h \<Longrightarrow> h s = (r, t) \<Longrightarrow> subSel sub t = subSel sub s"
  unfolding keepsSub_def subSel_def by (metis snd_conv)

lemma keepsSub_withTopics:
  assumes "keepsSub sub h"
  shows "keepsSub sub (withTopics ts h)"
proof -
  have "snd (withTopics ts h s) = (snd (h (s\<lparr>cTopics := ts\<rparr>)))\<lparr>cTopics := cTopics s\<rparr>" for s
    by (simp add: withTopics_def Let_def split: prod.split)
  then show ?thesis using assms by (simp add: keepsSub_def)
qed

text \<open>A loop over hooks that succeeded ran every hook.\<close>

lemma runHooks_append: "runHooks rw snap (xs @ ys) s = (Inr True, t) \<longleftrightarrow> (\<exists>u. runHooks rw snap xs s = (Inr True, u) \<and> runHooks rw snap ys u = (Inr True, t))"
  by (induction xs arbitrary: s) (auto simp: bind_Inr ret_def)

lemma hook_ran: "tryCatch (andThen h (ret True)) (\<lambda>_. andThen (restoreBoth rw snap) (ret False)) s = (Inr True, t) \<longleftrightarrow> h s = (Inr (), t)"
  by (auto simp: tryCatch_def andThen_def bind_def ret_def restoreBoth_def modify_def split: prod.splits sum.splits)

lemma runHooks_Cons: "runHooks rw snap (h # hs) s = (Inr True, t) \<longleftrightarrow> (\<exists>u. h s = (Inr (), u) \<and> runHooks rw snap hs u = (Inr True, t))"
proof -
  have "runHooks rw snap (h # hs) s = (Inr True, t) \<longleftrightarrow> (\<exists>u. tryCatch (andThen h (ret True)) (\<lambda>_. andThen (restoreBoth rw snap) (ret False)) s = (Inr True, u) \<and> runHooks rw snap hs u = (Inr True, t))"
    unfolding runHooks.simps bind_Inr by (rule iffI) (auto simp: ret_def split: if_splits)
  then show ?thesis by (simp add: hook_ran)
qed

lemma runHooks_keep: "\<forall>h \<in> set hs. keepsSub sub h \<Longrightarrow> runHooks rw snap hs s = (Inr True, t) \<Longrightarrow> subSel sub t = subSel sub s"
proof (induction hs arbitrary: s)
  case (Cons h hs)
  then obtain u where u: "h s = (Inr (), u)" "runHooks rw snap hs u = (Inr True, t)" by (auto simp: runHooks_Cons simp del: runHooks.simps)
  show ?case using Cons.IH[OF _ u(2)] Cons.prems(1) keepsSub_run[of sub h s _ u] u(1) by simp
qed (simp add: ret_def)

end
