(* ===== verification/Auth.thy ===== *)
theory Auth
  imports HookLaws CodecTyping SchemaLaws
begin

text \<open>
  The auth module (\<open>framework/src/modules/auth\<close>): accounts with a nonce and a group of keys,
  verification of the nonce and the signatures of a transaction, registration of a group, genesis.

  A module sees its substore of the state through \<open>substore\<close>, how the state store reads and
  writes the entries under the module's prefix. Ed25519 (\<open>ed.verifyData\<close>) is a parameter;
  the configuration is part of the environment. \<open>authModule\<close>
  assembles the operations to a module of the state machine.
\<close>

section \<open>Buffers\<close>

definition bufferArrayEqual :: "bytes list \<Rightarrow> bytes list \<Rightarrow> bool" where
  "bufferArrayEqual xs ys = (length xs = length ys \<and> list_all2 (\<lambda>x y. x = y) xs ys)"

definition isBufferArrayOrdered :: "bytes list \<Rightarrow> bool" where
  "isBufferArrayOrdered xs = bufferArrayEqual xs (sortBy bufferCompare xs)"

definition bufferArrayUniqueItems :: "bytes list \<Rightarrow> bool" where
  "bufferArrayUniqueItems xs = (length xs = length (remdups xs))"

lemma unique_items [simp]: "bufferArrayUniqueItems xs = distinct xs"
  by (simp add: bufferArrayUniqueItems_def) (metis distinct_remdups length_remdups_eq remdups_id_iff_distinct)

section \<open>Accounts\<close>

record authAccount =
  auNonce :: int
  auNumberOfSignatures :: int
  auMandatoryKeys :: "bytes list"
  auOptionalKeys :: "bytes list"

definition authAccountSchema :: "schemaProp list" where
  "authAccountSchema = [PScalar 1 UInt64T, PScalar 2 UInt32T, PArray 3 BytesT, PArray 4 BytesT]"

definition authVals :: "authAccount \<Rightarrow> val option list" where
  "authVals a = [Some (VInt (auNonce a)), Some (VInt (auNumberOfSignatures a)), Some (VArr (map VBytes (auMandatoryKeys a))),
     Some (VArr (map VBytes (auOptionalKeys a)))]"

definition authOf :: "val option list \<Rightarrow> authAccount" where
  "authOf ps = \<lparr>auNonce = fieldInt ps 0, auNumberOfSignatures = fieldInt ps 1, auMandatoryKeys = map valBytes (fieldArray ps 2),
     auOptionalKeys = map valBytes (fieldArray ps 3)\<rparr>"

definition authSchema :: "jsLib \<Rightarrow> authAccount storeSchema" where
  "authSchema lib = \<lparr>enc = (\<lambda>a. encode lib authAccountSchema (authVals a)),
     dec = (\<lambda>bs. rbind (decode lib authAccountSchema bs) (\<lambda>ps. Inr (authOf ps)))\<rparr>"

record 'st authEnv =
  auLib :: jsLib
  auHash :: "bytes \<Rightarrow> bytes"
  auVerifyData :: "string \<Rightarrow> bytes \<Rightarrow> bytes \<Rightarrow> bytes \<Rightarrow> bytes \<Rightarrow> bool"
  auChainID :: bytes
  auSub :: "'st substore"
  auMaxNumberOfSignatures :: int

definition authGet :: "'st authEnv \<Rightarrow> bytes \<Rightarrow> ('st sctx, authAccount) m" where
  "authGet env = storeGet (authSchema (auLib env)) (subSel (auSub env))"

definition authSet :: "'st authEnv \<Rightarrow> bytes \<Rightarrow> authAccount \<Rightarrow> ('st sctx, unit) m" where
  "authSet env = storeSet (authSchema (auLib env)) (subUpd (auSub env))"

definition noAccount :: authAccount where
  "noAccount = \<lparr>auNonce = 0, auNumberOfSignatures = 0, auMandatoryKeys = [], auOptionalKeys = []\<rparr>"

definition authGetOrDefault :: "'st authEnv \<Rightarrow> bytes \<Rightarrow> ('st sctx, authAccount) m" where
  "authGetOrDefault env address = tryCatch (authGet env address) (\<lambda>e. if e \<noteq> NotFoundError then throw e else ret noAccount)"

definition MAX_NUMBER_OF_SIGNATURES :: int where "MAX_NUMBER_OF_SIGNATURES = 64"
definition ED25519_PUBLIC_KEY_LENGTH :: nat where "ED25519_PUBLIC_KEY_LENGTH = 32"
definition ED25519_SIGNATURE_LENGTH :: nat where "ED25519_SIGNATURE_LENGTH = 64"

section \<open>Verification\<close>

definition verifySignature :: "'st authEnv \<Rightarrow> bytes \<Rightarrow> bytes \<Rightarrow> bytes \<Rightarrow> err + unit" where
  "verifySignature env publicKey signature transactionBytes =
     (if auVerifyData env TAG_TRANSACTION (auChainID env) transactionBytes signature publicKey then Inr ()
      else Inl (Error ''Failed to validate signature''))"

primrec verifyKeys :: "'st authEnv \<Rightarrow> nat \<Rightarrow> bytes \<Rightarrow> (bytes \<times> bytes) list \<Rightarrow> nat \<Rightarrow> err + unit" where
  "verifyKeys env mandatoryKeysCount transactionBytes [] i = Inr ()"
| "verifyKeys env mandatoryKeysCount transactionBytes (ks # pairs) i =
     rbind (if length (snd ks) \<noteq> 0 then verifySignature env (fst ks) (snd ks) transactionBytes
            else if i < mandatoryKeysCount then Inl (Error ''Missing signature for a mandatory key.'') else Inr ())
       (\<lambda>_. verifyKeys env mandatoryKeysCount transactionBytes pairs (Suc i))"

definition verifyMultiSignatureTransaction :: "'st authEnv \<Rightarrow> authAccount \<Rightarrow> bytes list \<Rightarrow> bytes \<Rightarrow> err + unit" where
  "verifyMultiSignatureTransaction env account signatures transactionBytes =
     (let keys = auMandatoryKeys account @ auOptionalKeys account;
          nonEmptySignaturesCount = length (filter (\<lambda>k. length k \<noteq> 0) signatures) in
      if int nonEmptySignaturesCount \<noteq> auNumberOfSignatures account \<or> length signatures \<noteq> length keys
      then Inl (Error ''Transaction signatures does not match required number of signatures'')
      else verifyKeys env (length (auMandatoryKeys account)) transactionBytes (zip keys signatures) 0)"

definition verifySignatures :: "'st authEnv \<Rightarrow> transaction \<Rightarrow> authAccount \<Rightarrow> err + unit" where
  "verifySignatures env tx account =
     (if auNumberOfSignatures account \<noteq> 0 then
        rbind (txId (auLib env) (auHash env) tx) (\<lambda>_.
        rbind (txGetSigningBytes (auLib env) tx) (\<lambda>signingBytes.
        verifyMultiSignatureTransaction env account (txSignatures tx) signingBytes))
      else if length (txSignatures tx) \<noteq> 1 then Inl (Error ''Transactions from a single signature account should have exactly one signature.'')
      else
        rbind (txGetSigningBytes (auLib env) tx) (\<lambda>signingBytes.
        rbind (txId (auLib env) (auHash env) tx) (\<lambda>_.
        verifySignature env (txSenderPublicKey tx) (txSignatures tx ! 0) signingBytes)))"

definition verifyNonce :: "transaction \<Rightarrow> authAccount \<Rightarrow> verificationResult" where
  "verifyNonce tx senderAccount =
     (if txNonce tx < auNonce senderAccount then (VerifyFAIL, None)
      else (if txNonce tx > auNonce senderAccount then VerifyPENDING else VerifyOK, None))"

definition authVerifyTransaction :: "'st authEnv \<Rightarrow> transaction \<Rightarrow> ('st sctx, verificationResult) m" where
  "authVerifyTransaction env tx =
     bind (authGetOrDefault env (txSenderAddress (auHash env) tx)) (\<lambda>senderAccount.
     let nonceStatus = verifyNonce tx senderAccount in
     if fst nonceStatus = VerifyFAIL then
       bind (liftE (txId (auLib env) (auHash env) tx)) (\<lambda>_. throw (Error ''InvalidNonceError''))
     else bind (liftE (verifySignatures env tx senderAccount)) (\<lambda>_. ret nonceStatus))"

definition authBeforeCommandExecute :: "'st authEnv \<Rightarrow> transaction \<Rightarrow> ('st sctx, unit) m" where
  "authBeforeCommandExecute env tx =
     bind (authGetOrDefault env (txSenderAddress (auHash env) tx)) (\<lambda>senderAccount.
     authSet env (txSenderAddress (auHash env) tx) (senderAccount\<lparr>auNonce := auNonce senderAccount + 1\<rparr>))"

definition getAuthAccount :: "'st authEnv \<Rightarrow> bytes \<Rightarrow> ('st sctx, authAccount) m" where
  "getAuthAccount env address = authGetOrDefault env address"

section \<open>Registration of a multisignature group\<close>

definition MESSAGE_TAG_MULTISIG_REG :: string where "MESSAGE_TAG_MULTISIG_REG = ''KLY_RMSG_''"

record multisigParams =
  mpNumberOfSignatures :: int
  mpMandatoryKeys :: "bytes list"
  mpOptionalKeys :: "bytes list"
  mpSignatures :: "bytes list"

definition registerMultisignatureParamsSchema :: "schemaProp list" where
  "registerMultisignatureParamsSchema = [PScalar 1 UInt32T, PArray 2 BytesT, PArray 3 BytesT, PArray 4 BytesT]"

definition multisigParamsOf :: "val option list \<Rightarrow> multisigParams" where
  "multisigParamsOf ps = \<lparr>mpNumberOfSignatures = fieldInt ps 0, mpMandatoryKeys = map valBytes (fieldArray ps 1),
     mpOptionalKeys = map valBytes (fieldArray ps 2), mpSignatures = map valBytes (fieldArray ps 3)\<rparr>"

definition multisigParamsValid :: "multisigParams \<Rightarrow> bool" where
  "multisigParamsValid p = (1 \<le> mpNumberOfSignatures p \<and> mpNumberOfSignatures p \<le> 64 \<and>
     list_all (\<lambda>k. length k = ED25519_PUBLIC_KEY_LENGTH) (mpMandatoryKeys p) \<and> length (mpMandatoryKeys p) \<le> 64 \<and>
     list_all (\<lambda>k. length k = ED25519_PUBLIC_KEY_LENGTH) (mpOptionalKeys p) \<and> length (mpOptionalKeys p) \<le> 64 \<and>
     list_all (\<lambda>k. length k = ED25519_SIGNATURE_LENGTH) (mpSignatures p))"

definition verifyFailed :: "string \<Rightarrow> verificationResult" where
  "verifyFailed text = (VerifyFAIL, Some (Error text))"

definition registerMultisigVerify :: "'st authEnv \<Rightarrow> multisigParams \<Rightarrow> verificationResult" where
  "registerMultisigVerify env p =
     (let total = int (length (mpMandatoryKeys p)) + int (length (mpOptionalKeys p)) in
      if \<not> bufferArrayUniqueItems (mpMandatoryKeys p) then verifyFailed ''MandatoryKeys contains duplicate public keys.''
      else if \<not> bufferArrayUniqueItems (mpOptionalKeys p) then verifyFailed ''OptionalKeys contains duplicate public keys.''
      else if total < mpNumberOfSignatures p then verifyFailed ''The numberOfSignatures is bigger than the count of Mandatory and Optional keys.''
      else if total > auMaxNumberOfSignatures env \<or> total < 1 then verifyFailed ''The count of Mandatory and Optional keys''
      else if int (length (mpMandatoryKeys p)) > mpNumberOfSignatures p
      then verifyFailed ''The numberOfSignatures needs to be equal or bigger than the number of Mandatory keys.''
      else if length (filter (\<lambda>v. find (\<lambda>k. k = v) (mpOptionalKeys p) \<noteq> None) (mpMandatoryKeys p)) > 0
      then verifyFailed ''Invalid combination of Mandatory and Optional keys.''
      else if total \<noteq> int (length (mpSignatures p)) then verifyFailed ''The number of mandatory and optional keys should match the number of signatures''
      else if \<not> isBufferArrayOrdered (mpMandatoryKeys p) then verifyFailed ''Mandatory keys should be sorted lexicographically.''
      else if \<not> isBufferArrayOrdered (mpOptionalKeys p) then verifyFailed ''Optional keys should be sorted lexicographically.''
      else (VerifyOK, None))"

definition multisigRegMsgSchema :: "schemaProp list" where
  "multisigRegMsgSchema = [PScalar 1 BytesT, PScalar 2 UInt64T, PScalar 3 UInt32T, PArray 4 BytesT, PArray 5 BytesT]"

definition invalidSignatureEvent :: "'st authEnv \<Rightarrow> bytes \<Rightarrow> multisigParams \<Rightarrow> bytes \<Rightarrow> bytes \<Rightarrow> ('st sctx, unit) m" where
  "invalidSignatureEvent env senderAddress p failingPublicKey failingSignature =
     eventAdd (auLib env) ''auth'' ''invalidSignature'' [PScalar 1 UInt32T, PArray 2 BytesT, PArray 3 BytesT, PScalar 4 BytesT, PScalar 5 BytesT]
       [Some (VInt (mpNumberOfSignatures p)), Some (VArr (map VBytes (mpMandatoryKeys p))), Some (VArr (map VBytes (mpOptionalKeys p))),
        Some (VBytes failingPublicKey), Some (VBytes failingSignature)] [senderAddress] True"

definition multisignatureRegistrationEvent :: "'st authEnv \<Rightarrow> bytes \<Rightarrow> multisigParams \<Rightarrow> ('st sctx, unit) m" where
  "multisignatureRegistrationEvent env senderAddress p =
     eventAdd (auLib env) ''auth'' ''multisignatureRegistration'' [PScalar 1 UInt32T, PArray 2 BytesT, PArray 3 BytesT]
       [Some (VInt (mpNumberOfSignatures p)), Some (VArr (map VBytes (mpMandatoryKeys p))), Some (VArr (map VBytes (mpOptionalKeys p)))] [senderAddress] False"

text \<open>
  The keys are paired with the signatures by index; \<open>zip\<close> pairs them all, because the
  command is executed only after \<open>verify\<close> has compared the lengths.
\<close>

definition registerMultisigExecute :: "'st authEnv \<Rightarrow> transaction \<Rightarrow> multisigParams \<Rightarrow> ('st sctx, unit) m" where
  "registerMultisigExecute env tx p =
     (let sender = txSenderAddress (auHash env) tx in
      bind (liftE (encode (auLib env) multisigRegMsgSchema
        [Some (VBytes sender), Some (VInt (txNonce tx)), Some (VInt (mpNumberOfSignatures p)), Some (VArr (map VBytes (mpMandatoryKeys p))),
         Some (VArr (map VBytes (mpOptionalKeys p)))])) (\<lambda>message.
      andThen (forEach (zip (mpMandatoryKeys p @ mpOptionalKeys p) (mpSignatures p)) (\<lambda>(key, signature).
        if auVerifyData env MESSAGE_TAG_MULTISIG_REG (auChainID env) message signature key then ret ()
        else andThen (invalidSignatureEvent env sender p key signature) (throw (Error ''Invalid signature for public key''))))
      (bind (authGet env sender) (\<lambda>senderAccount.
       andThen (authSet env sender (senderAccount\<lparr>auMandatoryKeys := mpMandatoryKeys p, auOptionalKeys := mpOptionalKeys p,
                  auNumberOfSignatures := mpNumberOfSignatures p\<rparr>))
         (multisignatureRegistrationEvent env sender p)))))"

section \<open>Genesis\<close>

definition genesisAuthStoreSchema :: "schemaProp list" where
  "genesisAuthStoreSchema = [PArrayObj 1 [PScalar 1 BytesT, PObject 2 authAccountSchema]]"

text \<open>The validation of \<open>authAccountSchema\<close>; the types of the fields hold for every decoded account.\<close>

definition authAccountValid :: "authAccount \<Rightarrow> bool" where
  "authAccountValid a = (0 \<le> auNumberOfSignatures a \<and> auNumberOfSignatures a \<le> MAX_NUMBER_OF_SIGNATURES \<and>
     list_all (\<lambda>k. length k = ED25519_PUBLIC_KEY_LENGTH) (auMandatoryKeys a) \<and> int (length (auMandatoryKeys a)) \<le> MAX_NUMBER_OF_SIGNATURES \<and>
     list_all (\<lambda>k. length k = ED25519_PUBLIC_KEY_LENGTH) (auOptionalKeys a) \<and> int (length (auOptionalKeys a)) \<le> MAX_NUMBER_OF_SIGNATURES)"

definition authGenesisEntry :: "val \<Rightarrow> bytes \<times> authAccount" where
  "authGenesisEntry v = (case v of VObj ps \<Rightarrow> (fieldBytes ps 0, authOf (fieldObject ps 1)) | _ \<Rightarrow> ([], noAccount))"

definition checkAuthAccount :: "'st authEnv \<Rightarrow> authAccount \<Rightarrow> err + unit" where
  "checkAuthAccount env a =
     (let total = int (length (auMandatoryKeys a)) + int (length (auOptionalKeys a)) in
      if \<not> authAccountValid a then Inl (Error ''KlayrvalidationError'')
      else if \<not> isBufferArrayOrdered (auMandatoryKeys a) then Inl (Error ''MandatoryKeys are not sorted lexicographically.'')
      else if \<not> bufferArrayUniqueItems (auMandatoryKeys a) then Inl (Error ''MandatoryKeys are not unique.'')
      else if \<not> isBufferArrayOrdered (auOptionalKeys a) then Inl (Error ''OptionalKeys are not sorted lexicographically.'')
      else if \<not> bufferArrayUniqueItems (auOptionalKeys a) then Inl (Error ''OptionalKeys are not unique.'')
      else if total > auMaxNumberOfSignatures env then Inl (Error ''The count of Mandatory and Optional keys'')
      else if length (filter (\<lambda>v. find (\<lambda>k. k = v) (auOptionalKeys a) \<noteq> None) (auMandatoryKeys a)) > 0
      then Inl (Error ''Repeated keys across Mandatory and Optional were found.'')
      else if total < auNumberOfSignatures a then Inl (Error ''The numberOfSignatures is bigger than the count of Mandatory and Optional keys.'')
      else if int (length (auMandatoryKeys a)) > auNumberOfSignatures a then Inl (Error ''The numberOfSignatures is smaller than the count of Mandatory keys.'')
      else Inr ())"

definition authInitGenesisState :: "'st authEnv \<Rightarrow> blockAsset list \<Rightarrow> ('st sctx, unit) m" where
  "authInitGenesisState env assets =
     (case getAsset assets ''auth'' of
        None \<Rightarrow> ret ()
      | Some asset \<Rightarrow>
          bind (liftE (decode (auLib env) genesisAuthStoreSchema asset)) (\<lambda>ps.
          let entries = map authGenesisEntry (fieldArray ps 0) in
          andThen (forEach entries (\<lambda>(address, authAccount).
            if length address \<noteq> 20 then throw (Error ''Invalid store key length for auth module.'')
            else andThen (liftE (checkAuthAccount env authAccount)) (authSet env address authAccount)))
          (if \<not> bufferArrayUniqueItems (map fst entries) then throw (Error ''Duplicate address in the for auth module.'') else ret ())))"

section \<open>The module\<close>

definition registerMultisignature :: "'st authEnv \<Rightarrow> 'st smCommand" where
  "registerMultisignature env =
     \<lparr>cmdName = ''registerMultisignature'', cmdSchema = registerMultisignatureParamsSchema, cmdSchemaValid = (\<lambda>ps. multisigParamsValid (multisigParamsOf ps)),
      cmdVerify = Some (\<lambda>header tx ps. ret (registerMultisigVerify env (multisigParamsOf ps))),
      cmdExecute = (\<lambda>header assets tx ps. registerMultisigExecute env tx (multisigParamsOf ps))\<rparr>"

definition authModule :: "'st authEnv \<Rightarrow> 'st smModule" where
  "authModule env =
     \<lparr>modName = ''auth'', modCommands = [registerMultisignature env],
      modEvents = [stringToBytes ''authmultisignatureRegistration'', stringToBytes ''authinvalidSignature''],
      modStores = [computeStorePrefix (auHash env) ''auth'' @ computeSubstorePrefix 0],
      modVerifyTransaction = Some (\<lambda>header tx. authVerifyTransaction env tx),
      modBeforeCommandExecute = Some (\<lambda>header assets tx. authBeforeCommandExecute env tx),
      modAfterCommandExecute = None, modVerifyAssets = None, modBeforeTransactionsExecute = None, modAfterTransactionsExecute = None,
      modInitGenesisState = Some (\<lambda>header assets. authInitGenesisState env assets), modFinalizeGenesisState = None\<rparr>"

end
