(* ===== verification/AuthProps.thy ===== *)
theory AuthProps
  imports Auth AbiHandler
begin

text \<open>
  Lemmas about the accounts of the auth module, through the layers that call it: the
  operations on an account, the hooks of the state machine, the calls of the ABI handler and
  the loop over the transactions of a block.
\<close>

section \<open>Accounts as the module reads them\<close>

definition authRead :: "'st authEnv \<Rightarrow> bytes kv \<Rightarrow> bytes \<Rightarrow> err + authAccount" where
  "authRead env kv address = (case kvget kv address of
     None \<Rightarrow> Inr noAccount
   | Some bs \<Rightarrow> (case dec (authSchema (auLib env)) bs of
       Inl e \<Rightarrow> if e = NotFoundError then Inr noAccount else Inl e
     | Inr a \<Rightarrow> Inr a))"

definition accountLow :: "authAccount \<Rightarrow> bool" where
  "accountLow a = (0 \<le> auNonce a \<and> 0 \<le> auNumberOfSignatures a)"

lemma authRead_Nil [simp]: "authRead env [] address = Inr noAccount"
  by (simp add: authRead_def)

lemma authGetOrDefault_run: "authGetOrDefault env address s = (authRead env (subSel (auSub env) s) address, s)"
  by (simp add: authGetOrDefault_def authGet_def storeGet_def authRead_def tryCatch_def bind_def gets_def throw_def ret_def liftE_def
      split: option.split sum.split)

lemma authSchemaOk: "schemaOk authAccountSchema"
  by code_simp

lemma authVals_low: "accountLow a \<Longrightarrow> lowConf lib authAccountSchema (authVals a)"
  by (simp add: accountLow_def authAccountSchema_def authVals_def list_all_iff)

lemma authOf_vals [simp]: "authOf (authVals a) = a"
  by (simp add: authOf_def authVals_def fieldInt_def fieldArray_def o_def valBytes_def)

lemma auth_dec_enc: "accountLow a \<Longrightarrow> enc (authSchema lib) a = Inr bs \<Longrightarrow> dec (authSchema lib) bs = Inr a"
  using encode_reads[OF authSchemaOk authVals_low] by (simp add: authSchema_def)

interpretation auth_schema: store_schema "authSchema lib" accountLow
  by unfold_locales (rule auth_dec_enc)

lemma typed_low: "typed authAccountSchema vs \<Longrightarrow> accountLow (authOf vs)"
  by (auto simp: authAccountSchema_def accountLow_def authOf_def fieldInt_def split: list.splits option.splits val.splits elim!: typedScalar.elims)

lemma dec_low: "dec (authSchema lib) bs = Inr a \<Longrightarrow> accountLow a"
  by (auto simp: authSchema_def rbind_Inr dest!: decode_typed typed_low)

lemma authRead_low: "authRead env kv address = Inr a \<Longrightarrow> accountLow a"
  using dec_low by (auto simp: authRead_def accountLow_def noAccount_def split: option.splits sum.splits if_splits)

lemma authRead_set:
  assumes "accountLow a" "enc (authSchema (auLib env)) a = Inr bs"
  shows "authRead env (kvset address bs kv) x = (if x = address then Inr a else authRead env kv x)"
  using auth_schema.dec_enc[OF assms] by (simp add: authRead_def)

section \<open>Operations\<close>

abbreviation senderOf :: "'st authEnv \<Rightarrow> transaction \<Rightarrow> bytes" where
  "senderOf env tx \<equiv> txSenderAddress (auHash env) tx"

lemma verify_run:
  assumes "authVerifyTransaction env tx s = (Inr r, t)"
  shows "t = s \<and> (\<exists>a. authRead env (subSel (auSub env) s) (senderOf env tx) = Inr a \<and> auNonce a \<le> txNonce tx \<and>
     (fst r = VerifyOK \<longleftrightarrow> txNonce tx = auNonce a) \<and> verifySignatures env tx a = Inr ())"
  using assms by (auto simp: authVerifyTransaction_def bind_Inr authGetOrDefault_run liftE_Inr Let_def verifyNonce_def ret_def throw_def split: if_splits)

lemma before_run:
  assumes "authBeforeCommandExecute env tx s = (Inr (), t)"
  shows "\<exists>a bs. authRead env (subSel (auSub env) s) (senderOf env tx) = Inr a \<and>
     enc (authSchema (auLib env)) (a\<lparr>auNonce := auNonce a + 1\<rparr>) = Inr bs \<and> t = subUpd (auSub env) (kvset (senderOf env tx) bs) s"
  using assms by (auto simp: authBeforeCommandExecute_def bind_Inr authGetOrDefault_run authSet_def storeSet_def liftE_Inr modify_def)

definition withParams :: "multisigParams \<Rightarrow> authAccount \<Rightarrow> authAccount" where
  "withParams p a = a\<lparr>auMandatoryKeys := mpMandatoryKeys p, auOptionalKeys := mpOptionalKeys p, auNumberOfSignatures := mpNumberOfSignatures p\<rparr>"

lemma wp_eventAdd_state: "(\<And>t. sState t = sState s \<Longrightarrow> Q () t) \<Longrightarrow> wp (eventAdd lib md name schema vals topics nr) Q (\<lambda>_ _. True) s"
  by (simp add: wp split: sum.split)

lemma register_wp:
  "wp (registerMultisigExecute env tx p)
     (\<lambda>_ t. \<exists>b a bs. kvget (subSel (auSub env) s) (senderOf env tx) = Some b \<and> dec (authSchema (auLib env)) b = Inr a \<and>
        enc (authSchema (auLib env)) (withParams p a) = Inr bs \<and> sState t = subWrite (auSub env) (kvset (senderOf env tx) bs) (sState s))
     (\<lambda>_ _. True) s"
proof -
  let ?P = "\<lambda>t. sState t = sState s"
  have loop: "wp (forEach xs (\<lambda>(key, signature). if auVerifyData env MESSAGE_TAG_MULTISIG_REG (auChainID env) message signature key then ret ()
        else andThen (invalidSignatureEvent env (senderOf env tx) p key signature) (throw (Error ''Invalid signature for public key'')))) (\<lambda>_. ?P) (\<lambda>_ _. True) s" for xs message
    by (rule wp_forEach) (auto simp: wp invalidSignatureEvent_def split: sum.split)
  have key: "wp (registerMultisigExecute env tx p) Q (\<lambda>_ _. True) s"
    if Q: "\<And>t b a bs. sState t = subWrite (auSub env) (kvset (senderOf env tx) bs) (sState s) \<Longrightarrow> kvget (subSel (auSub env) s) (senderOf env tx) = Some b \<Longrightarrow>
      dec (authSchema (auLib env)) b = Inr a \<Longrightarrow> enc (authSchema (auLib env)) (withParams p a) = Inr bs \<Longrightarrow> Q () t" for Q
    unfolding registerMultisigExecute_def Let_def wp_bind wp_liftE
    apply (simp only: wp_andThen split: sum.split)
    apply (intro conjI allI impI TrueI)
    apply (rule wp_mono[OF loop])
     apply (auto simp: wp authGet_def authSet_def multisignatureRegistrationEvent_def subSel_def subUpd_def withParams_def intro!: Q split: option.splits sum.splits)
    done
  show ?thesis by (rule key) (intro exI conjI, assumption+)
qed

section \<open>Foreign modules\<close>

text \<open>What the other modules have to leave alone, and what is expected of them besides \<open>modulesOk\<close>.\<close>

definition foreign :: "'st substore \<Rightarrow> 'st smModule \<Rightarrow> bool" where
  "foreign sub md = (modName md \<noteq> ''auth'' \<and>
     (\<forall>h. modVerifyTransaction md = Some h \<longrightarrow> (\<forall>header tx. keepsSub sub (h header tx))) \<and>
     (\<forall>h. modBeforeCommandExecute md = Some h \<longrightarrow> (\<forall>header assets tx. keepsSub sub (h header assets tx))) \<and>
     (\<forall>h. modAfterCommandExecute md = Some h \<longrightarrow> (\<forall>header assets tx. keepsSub sub (h header assets tx))) \<and>
     (\<forall>c \<in> set (modCommands md). \<forall>header assets tx params. keepsSub sub (cmdExecute c header assets tx params) \<and>
        (\<forall>v. cmdVerify c = Some v \<longrightarrow> keepsSub sub (v header tx params))))"

lemma foreign_hooks:
  assumes "foreign sub md"
  shows "modVerifyTransaction md = Some v \<Longrightarrow> keepsSub sub (v header tx)" "modBeforeCommandExecute md = Some b \<Longrightarrow> keepsSub sub (b header assets tx)"
    "modAfterCommandExecute md = Some b \<Longrightarrow> keepsSub sub (b header assets tx)"
  using assms by (simp_all add: foreign_def)

lemma foreign_lists:
  assumes "list_all (foreign sub) ns"
  shows "\<forall>h \<in> set (map (\<lambda>h. h header tx) (hooksOf modVerifyTransaction ns)). keepsSub sub h"
    "\<forall>h \<in> set (commandHooks topic header assets tx modBeforeCommandExecute ns). keepsSub sub h"
    "\<forall>h \<in> set (commandHooks topic header assets tx modAfterCommandExecute ns). keepsSub sub h"
  using assms unfolding commandHooks_def
  by (clarsimp simp: hooksOf_set list_all_iff, meson foreign_hooks keepsSub_withTopics)+

definition authStack :: "'st authEnv \<Rightarrow> ('st \<Rightarrow> 'st \<Rightarrow> bool) \<Rightarrow> 'st smModule list \<Rightarrow> bool" where
  "authStack env later ms = (lensLaw (auSub env) \<and> (\<forall>f s. later s (subWrite (auSub env) f s)) \<and>
     (\<exists>pre post. ms = pre @ authModule env # post \<and> modulesOk later (pre @ post) \<and> list_all (foreign (auSub env)) (pre @ post)))"

section \<open>The module in the state machine\<close>

lemma authModule_sel [simp]: "modName (authModule env) = ''auth''" "modCommands (authModule env) = [registerMultisignature env]"
  "modVerifyTransaction (authModule env) = Some (\<lambda>header tx. authVerifyTransaction env tx)"
  "modBeforeCommandExecute (authModule env) = Some (\<lambda>header assets tx. authBeforeCommandExecute env tx)"
  "modAfterCommandExecute (authModule env) = None"
  by (simp_all add: authModule_def)

lemma auth_hookOk:
  assumes "laterLaw later" "\<forall>f s. later s (subWrite (auSub env) f s)"
  shows "hookOk later (authBeforeCommandExecute env tx)" "hookOk later (registerMultisigExecute env tx p)"
  unfolding authBeforeCommandExecute_def registerMultisigExecute_def authGetOrDefault_def authGet_def authSet_def Let_def invalidSignatureEvent_def
    multisignatureRegistrationEvent_def
  using assms by (auto intro!: hookOk_intros split: prod.split)

lemma modulesOk_append: "modulesOk later (xs @ ys) \<longleftrightarrow> modulesOk later xs \<and> modulesOk later ys"
  by (simp add: modulesOk_def ball_Un)

lemma auth_modulesOk:
  assumes "laterLaw later" "authStack env later ms"
  shows "modulesOk later ms"
proof -
  obtain pre post where ms: "ms = pre @ [authModule env] @ post" "modulesOk later pre" "modulesOk later post" and w: "\<forall>f s. later s (subWrite (auSub env) f s)"
    using assms(2) by (auto simp: authStack_def modulesOk_append)
  have "modulesOk later [authModule env]" using auth_hookOk[OF assms(1) w] by (simp add: modulesOk_def registerMultisignature_def)
  then show ?thesis using ms(2,3) unfolding ms(1) modulesOk_append by blast
qed

lemma auth_command:
  assumes "authStack env later ms" "getCommand ms m c = Inr command"
  shows "(m = ''auth'' \<and> command = registerMultisignature env) \<or>
     (m \<noteq> ''auth'' \<and> (\<forall>header assets tx params. keepsSub (auSub env) (cmdExecute command header assets tx params) \<and>
        (\<forall>v. cmdVerify command = Some v \<longrightarrow> keepsSub (auSub env) (v header tx params))))"
proof -
  obtain md where md: "find (\<lambda>md. modName md = m) ms = Some md" "find (\<lambda>c'. cmdName c' = c) (modCommands md) = Some command"
    using assms(2) by (auto simp: getCommand_def findModule_def split: option.splits)
  have m: "md \<in> set ms" "modName md = m" "command \<in> set (modCommands md)"
    using md find_member by (auto simp: find_Some_iff)
  show ?thesis
  proof (cases "md = authModule env")
    case True
    then show ?thesis using m by auto
  next
    case False
    then have "foreign (auSub env) md" using assms(1) m(1) by (auto simp: authStack_def list_all_iff)
    then show ?thesis using m(2,3) by (simp add: foreign_def)
  qed
qed

lemma auth_before_hooks:
  assumes stack: "authStack env later ms"
    and run: "runHooks rw snap (commandHooks topic header assets tx modBeforeCommandExecute ms) s = (Inr True, t)"
  shows "\<exists>a bs. authRead env (subSel (auSub env) s) (senderOf env tx) = Inr a \<and>
     enc (authSchema (auLib env)) (a\<lparr>auNonce := auNonce a + 1\<rparr>) = Inr bs \<and> subSel (auSub env) t = kvset (senderOf env tx) bs (subSel (auSub env) s)"
proof -
  obtain pre post where ms: "ms = pre @ authModule env # post" "list_all (foreign (auSub env)) (pre @ post)" and lens: "lensLaw (auSub env)"
    using stack by (auto simp: authStack_def)
  let ?hooks = "commandHooks topic header assets tx modBeforeCommandExecute"
  have k: "\<forall>h \<in> set (?hooks ns). keepsSub (auSub env) h" if "set ns \<subseteq> set (pre @ post)" for ns
    using ms(2) that by (intro foreign_lists(2)) (auto simp: list_all_iff)
  have split: "?hooks ms = ?hooks pre @ withTopics [topic] (authBeforeCommandExecute env tx) # ?hooks post"
    by (simp add: ms(1) commandHooks_def hooksOf_def List.map_filter_def)
  obtain u v where r: "runHooks rw snap (?hooks pre) s = (Inr True, u)" "withTopics [topic] (authBeforeCommandExecute env tx) u = (Inr (), v)"
    "runHooks rw snap (?hooks post) v = (Inr True, t)"
    using run by (auto simp: split runHooks_append runHooks_Cons simp del: runHooks.simps)
  obtain v' where v: "authBeforeCommandExecute env tx (u\<lparr>cTopics := [topic]\<rparr>) = (Inr (), v')" "sState v = sState v'"
    using r(2) by (auto simp: withTopics_def Let_def split: prod.splits)
  have e: "subSel (auSub env) u = subSel (auSub env) s" "subSel (auSub env) t = subSel (auSub env) v"
    using runHooks_keep[OF k r(1)] runHooks_keep[OF k r(3)] by auto
  have s: "subSel (auSub env) (u\<lparr>cTopics := [topic]\<rparr>) = subSel (auSub env) u" "subSel (auSub env) v = subSel (auSub env) v'" using v(2) by (simp_all add: subSel_def)
  show ?thesis using before_run[OF v(1)] subSel_upd[OF lens] e s by auto
qed

lemma auth_after_hooks:
  assumes stack: "authStack env later ms"
    and run: "runHooks rw snap (commandHooks topic header assets tx modAfterCommandExecute ms) s = (Inr True, t)"
  shows "subSel (auSub env) t = subSel (auSub env) s"
proof -
  obtain pre post where ms: "ms = pre @ authModule env # post" "list_all (foreign (auSub env)) (pre @ post)" using stack by (auto simp: authStack_def)
  have "commandHooks topic header assets tx modAfterCommandExecute ms = commandHooks topic header assets tx modAfterCommandExecute (pre @ post)"
    by (simp add: ms(1) commandHooks_def hooksOf_def List.map_filter_def)
  then show ?thesis using runHooks_keep[OF foreign_lists(3)[OF ms(2)]] run by metis
qed

text \<open>
  What a transaction that was not \<open>INVALID\<close> did to the accounts: the nonce of the sender
  is one higher, its keys may have been replaced by the ones it registers, and no other account
  has changed.
\<close>

definition authEffect :: "'st authEnv \<Rightarrow> transaction \<Rightarrow> authAccount \<Rightarrow> authAccount \<Rightarrow> bool" where
  "authEffect env tx a a' = (a' = a\<lparr>auNonce := auNonce a + 1\<rparr> \<or>
     (\<exists>ps. txModule tx = ''auth'' \<and> decode (auLib env) registerMultisignatureParamsSchema (txParams tx) = Inr ps \<and>
        a' = withParams (multisigParamsOf ps) (a\<lparr>auNonce := auNonce a + 1\<rparr>)))"

definition accountsStep :: "'st authEnv \<Rightarrow> transaction \<Rightarrow> bytes kv \<Rightarrow> bytes kv \<Rightarrow> bool" where
  "accountsStep env tx kv kv' = (\<exists>a a'. authRead env kv (senderOf env tx) = Inr a \<and> authEffect env tx a a' \<and>
     (\<forall>x. authRead env kv' x = (if x = senderOf env tx then Inr a' else authRead env kv x)))"

lemma accountsStepI:
  assumes "authRead env kv (senderOf env tx) = Inr a" "authEffect env tx a a'" "accountLow a'" "enc (authSchema (auLib env)) a' = Inr bs"
    "\<And>x. authRead env kv' x = authRead env (kvset (senderOf env tx) bs kv) x"
  shows "accountsStep env tx kv kv'"
  unfolding accountsStep_def using assms authRead_set[OF assms(3,4)] by auto

lemma multisig_low: "decode lib registerMultisignatureParamsSchema bs = Inr ps \<Longrightarrow> 0 \<le> mpNumberOfSignatures (multisigParamsOf ps)"
  by (auto simp: registerMultisignatureParamsSchema_def multisigParamsOf_def fieldInt_def split: list.splits option.splits val.splits dest!: decode_typed elim!: typedScalar.elims)

lemma accountLow_simps [simp]: "accountLow a \<Longrightarrow> accountLow (a\<lparr>auNonce := auNonce a + 1\<rparr>)"
  "accountLow (withParams p a) \<longleftrightarrow> 0 \<le> auNonce a \<and> 0 \<le> mpNumberOfSignatures p"
  by (simp_all add: accountLow_def withParams_def)

lemma execute_accounts:
  assumes law: "snapshotLaw rw (subRead (auSub env)) later" and stack: "authStack env later ms" and q: "queueOk (cEvents s)"
    and run: "smExecuteTransaction (auLib env) hash rw ms header assets tx s = (Inr r, t)" and r: "r \<noteq> ExecuteINVALID"
  shows "accountsStep env tx (subSel (auSub env) s) (subSel (auSub env) t)"
proof -
  let ?sub = "subSel (auSub env)" and ?sender = "senderOf env tx"
  note mods = auth_modulesOk[OF laterLaw_snapshot[OF law] stack]
  obtain topic command params u w a where st: "getCommand ms (txModule tx) (txCommand tx) = Inr command"
    "decode (auLib env) (cmdSchema command) (txParams tx) = Inr params"
    "runHooks rw (snapOf rw s) (commandHooks topic header assets tx modBeforeCommandExecute ms) (started rw s) = (Inr True, u)"
    "if r = ExecuteFAIL then rolledBack (subRead (auSub env)) u w else withTopics [topic] (cmdExecute command header assets tx params) (started rw u) = (Inr (), w)"
    "runHooks rw (snapOf rw s) (commandHooks topic header assets tx modAfterCommandExecute ms) w = (Inr True, a)" "sState t = sState a"
    using conjunct2[OF transaction_parts[OF law mods q run], unfolded if_not_P[OF r]] by blast
  have vs: "?sub (started rw z) = ?sub z" for z using law by (simp add: started_def subSel_def snapshotLaw_def)
  obtain acc bs where b: "authRead env (?sub s) ?sender = Inr acc" "enc (authSchema (auLib env)) (acc\<lparr>auNonce := auNonce acc + 1\<rparr>) = Inr bs"
    "?sub u = kvset ?sender bs (?sub s)" using auth_before_hooks[OF stack st(3)] vs by auto
  have t: "?sub t = ?sub w" using auth_after_hooks[OF stack st(5)] st(6) by (simp add: subSel_def)
  have low: "accountLow acc" "accountLow (acc\<lparr>auNonce := auNonce acc + 1\<rparr>)" using authRead_low[OF b(1)] by simp_all
  have same: "accountsStep env tx (?sub s) (?sub t)" if "?sub w = ?sub u"
    by (rule accountsStepI[OF b(1) _ low(2) b(2)]) (use that t b(3) in \<open>simp_all add: authEffect_def\<close>)
  show ?thesis
  proof (cases "r = ExecuteFAIL")
    case True
    then show ?thesis using st(4) by (intro same) (simp add: rolledBack_def subSel_def)
  next
    case False
    then obtain w' where w: "cmdExecute command header assets tx params ((started rw u)\<lparr>cTopics := [topic]\<rparr>) = (Inr (), w')" "sState w = sState w'"
      using st(4) by (auto simp: withTopics_def Let_def split: prod.splits)
    have u': "?sub ((started rw u)\<lparr>cTopics := [topic]\<rparr>) = ?sub u" using vs by (simp add: subSel_def)
    from auth_command[OF stack st(1)] show ?thesis
    proof
      assume "txModule tx = ''auth'' \<and> command = registerMultisignature env"
      then have m: "txModule tx = ''auth''" "registerMultisigExecute env tx (multisigParamsOf params) ((started rw u)\<lparr>cTopics := [topic]\<rparr>) = (Inr (), w')"
        "decode (auLib env) registerMultisignatureParamsSchema (txParams tx) = Inr params" using w(1) st(2) by (simp_all add: registerMultisignature_def)
      obtain b0 a0 bs' where k: "kvget (?sub u) ?sender = Some b0" "dec (authSchema (auLib env)) b0 = Inr a0"
        "enc (authSchema (auLib env)) (withParams (multisigParamsOf params) a0) = Inr bs'"
        "sState w' = subWrite (auSub env) (kvset ?sender bs') (sState (started rw u))"
        using wp_success[OF register_wp m(2)] u' by auto
      have a0: "a0 = acc\<lparr>auNonce := auNonce acc + 1\<rparr>" using k(1,2) b(3) auth_dec_enc[OF low(2) b(2)] by simp
      have "?sub w = kvset ?sender bs' (?sub u)" using stack k(4) w(2) vs[of u] by (simp add: subSel_def authStack_def lensLaw_def)
      then have "authRead env (?sub t) x = authRead env (kvset ?sender bs' (?sub s)) x" for x using t b(3) by (simp add: authRead_def)
      then show ?thesis using k(3) a0 low(2) multisig_low[OF m(3)] m(1,3)
        by (intro accountsStepI[OF b(1), of "withParams (multisigParamsOf params) a0" bs']) (auto simp: authEffect_def, simp add: accountLow_def)
    next
      assume "txModule tx \<noteq> ''auth'' \<and> (\<forall>header assets tx params. keepsSub (auSub env) (cmdExecute command header assets tx params) \<and>
        (\<forall>v. cmdVerify command = Some v \<longrightarrow> keepsSub (auSub env) (v header tx params)))"
      then have "?sub w' = ?sub u" using keepsSub_run[of "auSub env" "cmdExecute command header assets tx params", OF _ w(1)] u' by simp
      then show ?thesis using w(2) by (intro same) (simp add: subSel_def)
    qed
  qed
qed

section \<open>Verification in the state machine\<close>

lemma verifyHooks_Cons:
  assumes "verifyHooks (h # hs) c s = (Inr r, t)" "fst r = VerifyOK"
  obtains r' u where "h s = (Inr r', u)" "fst r' = VerifyOK" "verifyHooks hs c u = (Inr r, t)"
  using assms by (auto simp: bind_Inr ret_def split: if_splits)

lemma verifyHooks_append:
  assumes "verifyHooks (xs @ ys) c s = (Inr r, t)" "fst r = VerifyOK" "\<forall>h \<in> set xs. keepsSub sub h"
  obtains u where "verifyHooks ys c u = (Inr r, t)" "subSel sub u = subSel sub s"
  using assms
proof (induction xs arbitrary: s thesis)
  case (Cons h hs)
  obtain r' u where u: "h s = (Inr r', u)" "verifyHooks (hs @ ys) c u = (Inr r, t)"
    using Cons.prems(2,3) by (simp only: append_Cons) (erule verifyHooks_Cons, auto)
  have "subSel sub u = subSel sub s" using keepsSub_run[of sub h s "Inr r'" u] u(1) Cons.prems(4) by simp
  then show ?case using Cons.IH[OF _ u(2) Cons.prems(3)] Cons.prems(1,4) by auto
qed simp

lemma verify_accounts:
  assumes stack: "authStack env later ms" and run: "smVerifyTransaction (auLib env) ms header tx False s = (Inr r, t)" and ok: "fst r = VerifyOK"
  shows "subSel (auSub env) t = subSel (auSub env) s \<and>
     (\<exists>a. authRead env (subSel (auSub env) s) (senderOf env tx) = Inr a \<and> txNonce tx = auNonce a \<and> verifySignatures env tx a = Inr ()) \<and>
     (txModule tx = ''auth'' \<longrightarrow> (\<exists>ps. decode (auLib env) registerMultisignatureParamsSchema (txParams tx) = Inr ps \<and>
        multisigParamsValid (multisigParamsOf ps) \<and> fst (registerMultisigVerify env (multisigParamsOf ps)) = VerifyOK))"
proof -
  obtain pre post where ms: "ms = pre @ authModule env # post" "list_all (foreign (auSub env)) (pre @ post)"
    using stack by (auto simp: authStack_def)
  define c where "c = bind (liftE (getCommand ms (txModule tx) (txCommand tx))) (\<lambda>command.
          bind (liftE (decode (auLib env) (cmdSchema command) (txParams tx))) (\<lambda>params.
          if \<not> cmdSchemaValid command params then throw (Error ''KlayrvalidationError'')
          else (case cmdVerify command of
              None \<Rightarrow> ret (VerifyOK, None)
            | Some v \<Rightarrow> bind (v header tx params) (\<lambda>r. if fst r \<noteq> VerifyOK then ret r else ret (VerifyOK, None)))))"
  let ?hooks = "\<lambda>ns. map (\<lambda>h. h header tx) (hooksOf modVerifyTransaction ns)"
  have k: "\<forall>h \<in> set (?hooks ns). keepsSub (auSub env) h" if "set ns \<subseteq> set (pre @ post)" for ns
    using ms(2) that by (intro foreign_lists(1)) (auto simp: list_all_iff)
  have split: "?hooks ms = ?hooks pre @ authVerifyTransaction env tx # ?hooks post"
    by (simp add: ms(1) hooksOf_def List.map_filter_def)
  have v: "verifyHooks (?hooks pre @ authVerifyTransaction env tx # ?hooks post) c s = (Inr r, t)"
    using run ok unfolding smVerifyTransaction_def c_def[symmetric] split[symmetric]
    by (auto simp: tryCatch_def ret_def split: prod.splits sum.splits)
  obtain u where u: "verifyHooks (authVerifyTransaction env tx # ?hooks post) c u = (Inr r, t)" "subSel (auSub env) u = subSel (auSub env) s"
    using verifyHooks_append[OF v ok k] by auto
  obtain r' v where v: "authVerifyTransaction env tx u = (Inr r', v)" "fst r' = VerifyOK" "verifyHooks (?hooks post) c v = (Inr r, t)"
    using verifyHooks_Cons[OF u(1) ok] by blast
  obtain w where w: "c w = (Inr r, t)" "subSel (auSub env) w = subSel (auSub env) v"
    using verifyHooks_append[of "?hooks post" "[]" c v r t] v(3) ok k[of post] by auto
  obtain command params where cm: "getCommand ms (txModule tx) (txCommand tx) = Inr command" "decode (auLib env) (cmdSchema command) (txParams tx) = Inr params"
    "cmdSchemaValid command params" and rest: "(case cmdVerify command of None \<Rightarrow> ret (VerifyOK, None)
            | Some v \<Rightarrow> bind (v header tx params) (\<lambda>r. if fst r \<noteq> VerifyOK then ret r else ret (VerifyOK, None))) w = (Inr r, t)"
    using w(1) by (auto simp: c_def bind_Inr liftE_Inr throw_def split: if_splits)
  have acc: "v = u \<and> (\<exists>a. authRead env (subSel (auSub env) u) (senderOf env tx) = Inr a \<and> txNonce tx = auNonce a \<and> verifySignatures env tx a = Inr ())"
    using verify_run[OF v(1)] v(2) by auto
  from auth_command[OF stack cm(1)] have "subSel (auSub env) t = subSel (auSub env) w \<and> (txModule tx = ''auth'' \<longrightarrow> (\<exists>ps. decode (auLib env) registerMultisignatureParamsSchema (txParams tx) = Inr ps \<and>
        multisigParamsValid (multisigParamsOf ps) \<and> fst (registerMultisigVerify env (multisigParamsOf ps)) = VerifyOK))"
  proof
    assume "txModule tx = ''auth'' \<and> command = registerMultisignature env"
    then show ?thesis using cm rest ok by (auto simp: registerMultisignature_def bind_Inr ret_def split: if_splits)
  next
    assume "txModule tx \<noteq> ''auth'' \<and> (\<forall>header assets tx params. keepsSub (auSub env) (cmdExecute command header assets tx params) \<and>
        (\<forall>v. cmdVerify command = Some v \<longrightarrow> keepsSub (auSub env) (v header tx params)))"
    then have f: "txModule tx \<noteq> ''auth''" "\<And>v. cmdVerify command = Some v \<Longrightarrow> keepsSub (auSub env) (v header tx params)" by blast+
    show ?thesis
    proof (cases "cmdVerify command")
      case None
      then show ?thesis using rest f(1) by (simp add: ret_def)
    next
      case (Some v)
      then obtain r1 t1 where "v header tx params w = (Inr r1, t1)" "t = t1" using rest by (auto simp: bind_Inr ret_def split: if_splits)
      then show ?thesis using keepsSub_run[OF f(2)[OF Some]] f(1) by blast
    qed
  qed
  then show ?thesis using acc u(2) w(2) by auto
qed

section \<open>The transactions of a block\<close>

definition txVerified :: "'st authEnv \<Rightarrow> bytes kv \<Rightarrow> transaction \<Rightarrow> bool" where
  "txVerified env kv tx = ((\<exists>a. authRead env kv (senderOf env tx) = Inr a \<and> txNonce tx = auNonce a \<and> verifySignatures env tx a = Inr ()) \<and>
     (txModule tx = ''auth'' \<longrightarrow> (\<exists>ps. decode (auLib env) registerMultisignatureParamsSchema (txParams tx) = Inr ps \<and>
        multisigParamsValid (multisigParamsOf ps) \<and> fst (registerMultisigVerify env (multisigParamsOf ps)) = VerifyOK)))"

primrec accountsRun :: "'st authEnv \<Rightarrow> transaction list \<Rightarrow> bytes kv \<Rightarrow> bytes kv \<Rightarrow> bool" where
  "accountsRun env [] kv kv' = (kv' = kv)"
| "accountsRun env (tx # txs) kv kv' = (\<exists>k. txVerified env kv tx \<and> accountsStep env tx kv k \<and> accountsRun env txs k kv')"

lemma inContext_run:
  assumes "inContext height ec c s = (Inr (a, evs, nv), t)"
  obtains u where "c (sctxOf height ec) = (Inr a, u)" "appContext t = Some (ec\<lparr>ecState := sState u, ecStore := cStore u\<rparr>)"
  using assms by (auto simp: inContext_def split: prod.splits sum.splits)

lemma subSel_sctxOf [simp]: "subSel sub (sctxOf height ec) = subRead sub (ecState ec)"
  by (simp add: subSel_def sctxOf_def)

lemma abi_execute:
  assumes law: "snapshotLaw (aeRW ae) (subRead (auSub au)) later" and stack: "authStack au later (aeModules ae)" and lib: "aeLib ae = auLib au"
    and run: "ahExecuteTransaction ae contextID assets header tx s = (Inr (r, evs), t)" and r: "r \<noteq> ExecInvalid" and ec: "appContext s = Some ec"
  shows "ecId ec = contextID \<and> (\<exists>ec'. appContext t = Some ec' \<and> ecId ec' = ecId ec \<and>
     accountsStep au tx (subRead (auSub au) (ecState ec)) (subRead (auSub au) (ecState ec')))"
proof -
  obtain r' nv where i: "inContext (hHeight (ecHeader ec)) ec (smExecuteTransaction (aeLib ae) (aeHash ae) (aeRW ae) (aeModules ae) (ecHeader ec) assets tx) s = (Inr (r', evs, nv), t)"
    "r = executionResultOf r'" "ecId ec = contextID"
    using run ec by (auto simp: ahExecuteTransaction_def checkContext_def bind_Inr gets_def ret_def throw_def split: if_splits)
  obtain u where u: "smExecuteTransaction (auLib au) (aeHash ae) (aeRW ae) (aeModules ae) (ecHeader ec) assets tx (sctxOf (hHeight (ecHeader ec)) ec) = (Inr r', u)"
    "appContext t = Some (ec\<lparr>ecState := sState u, ecStore := cStore u\<rparr>)" using inContext_run[OF i(1)] lib by metis
  have "r' \<noteq> ExecuteINVALID" using i(2) r by (auto simp: executionResultOf_def)
  from execute_accounts[OF law stack _ u(1) this] u(2) i(3) show ?thesis by (simp add: sctxOf_def subSel_def)
qed

lemma abi_verify:
  assumes stack: "authStack au later (aeModules ae)" and lib: "aeLib ae = auLib au"
    and run: "ahVerifyTransaction ae contextID tx header s = (Inr VerifyOk, t)" and ec: "appContext s = Some ec" "ecId ec = contextID"
  shows "\<exists>ec'. appContext t = Some ec' \<and> ecId ec' = ecId ec \<and> subRead (auSub au) (ecState ec') = subRead (auSub au) (ecState ec) \<and>
     txVerified au (subRead (auSub au) (ecState ec)) tx"
proof -
  obtain r evs nv where i: "inContext 0 ec (smVerifyTransaction (aeLib ae) (aeModules ae) (ecHeader ec) tx False) s = (Inr (r, evs, nv), t)"
    "verifyResultOf (fst r) = VerifyOk" using run ec by (auto simp: ahVerifyTransaction_def bind_Inr gets_def ret_def)
  obtain u where u: "smVerifyTransaction (auLib au) (aeModules ae) (ecHeader ec) tx False (sctxOf 0 ec) = (Inr r, u)"
    "appContext t = Some (ec\<lparr>ecState := sState u, ecStore := cStore u\<rparr>)" using inContext_run[OF i(1)] lib by metis
  have "fst r = VerifyOK" using i(2) by (cases "fst r") (auto simp: verifyResultOf_def)
  from verify_accounts[OF stack u(1) this] u(2) show ?thesis by (simp add: txVerified_def subSel_def sctxOf_def)
qed

lemma abi_verify_context:
  assumes "ahVerifyTransaction ae contextID tx header s = (Inr v, t)" "appContext s = Some ec"
  shows "\<exists>ec'. appContext t = Some ec' \<and> ecId ec' = ecId ec"
  using assms by (auto simp: ahVerifyTransaction_def bind_Inr gets_def liftE_Inr ret_def split: if_splits prod.splits sum.splits elim!: inContext_run)

lemma viaAbi_Inr: "viaAbi c s = (Inr a, t) \<longleftrightarrow> (\<exists>d. c (appState s) = (Inr a, d) \<and> t = s\<lparr>appState := d\<rparr>)"
  by (auto simp: viaAbi_def split: prod.splits)

lemma block_accounts:
  fixes env :: "(('st, 'db) application) consensusEnv"
  assumes abi: "ceAbi env = abiHandler ae" and lib: "aeLib ae = auLib au"
    and law: "snapshotLaw (aeRW ae) (subRead (auSub au)) later" and stack: "authStack au later (aeModules ae)"
    and run: "executeTransactions env contextID b txs s = (Inr evs, t)" and ec: "appContext (appState s) = Some ec"
  shows "\<exists>ec'. appContext (appState t) = Some ec' \<and> accountsRun au txs (subRead (auSub au) (ecState ec)) (subRead (auSub au) (ecState ec'))"
  using run ec
proof (induction txs arbitrary: s ec evs)
  case Nil
  then show ?case by (simp add: ret_def)
next
  case (Cons tx txs)
  obtain s1 r evs1 s2 evs2 where st: "viaAbi (ahVerifyTransaction ae contextID tx (bHeader b)) s = (Inr VerifyOk, s1)"
    "viaAbi (ahExecuteTransaction ae contextID (bAssets b) (bHeader b) tx) s1 = (Inr (r, evs1), s2)" "r \<noteq> ExecInvalid"
    "executeTransactions env contextID b txs s2 = (Inr evs2, t)"
    using Cons.prems(1) by (auto simp: abi abiHandler_def bind_Inr throw_def ret_def split: if_splits)
  obtain d1 d2 where d: "ahVerifyTransaction ae contextID tx (bHeader b) (appState s) = (Inr VerifyOk, d1)" "s1 = s\<lparr>appState := d1\<rparr>"
    "ahExecuteTransaction ae contextID (bAssets b) (bHeader b) tx d1 = (Inr (r, evs1), d2)" "appState s2 = d2"
    using st(1,2) by (auto simp: viaAbi_Inr)
  obtain ec1 where ec1: "appContext d1 = Some ec1" "ecId ec1 = ecId ec" using abi_verify_context[OF d(1) Cons.prems(2)] by blast
  obtain ec2 where ec2: "ecId ec1 = contextID" "appContext d2 = Some ec2" "ecId ec2 = ecId ec1"
    "accountsStep au tx (subRead (auSub au) (ecState ec1)) (subRead (auSub au) (ecState ec2))"
    using abi_execute[OF law stack lib d(3) st(3) ec1(1)] by blast
  have v: "subRead (auSub au) (ecState ec1) = subRead (auSub au) (ecState ec)" "txVerified au (subRead (auSub au) (ecState ec)) tx"
    using abi_verify[OF stack lib d(1) Cons.prems(2)] ec1 ec2(1) by auto
  show ?case using Cons.IH[OF st(4), of ec2] d(4) ec2 v by auto
qed

section \<open>Nonces\<close>

lemma effect_nonce: "authEffect env tx a a' \<Longrightarrow> auNonce a' = auNonce a + 1"
  by (auto simp: authEffect_def withParams_def)

lemma run_nonces:
  assumes "accountsRun env txs kv kv'" "authRead env kv address = Inr a"
  shows "map txNonce (filter (\<lambda>tx. senderOf env tx = address) txs) = map (\<lambda>i. auNonce a + int i) [0..<length (filter (\<lambda>tx. senderOf env tx = address) txs)] \<and>
    (\<exists>a'. authRead env kv' address = Inr a' \<and> auNonce a' = auNonce a + int (length (filter (\<lambda>tx. senderOf env tx = address) txs)))"
  using assms
proof (induction txs arbitrary: kv a)
  case (Cons tx txs)
  then obtain k b b' where k: "txVerified env kv tx" "authRead env kv (senderOf env tx) = Inr b" "authEffect env tx b b'"
    "\<And>x. authRead env k x = (if x = senderOf env tx then Inr b' else authRead env kv x)" "accountsRun env txs k kv'"
    by (auto simp: accountsStep_def)
  show ?case
  proof (cases "senderOf env tx = address")
    case True
    let ?n = "length (filter (\<lambda>tx. senderOf env tx = address) txs)"
    have a: "b = a" "txNonce tx = auNonce a" "authRead env k address = Inr b'" "auNonce b' = auNonce a + 1"
      using k(1,2,4) Cons.prems(2) True effect_nonce[OF k(3)] by (auto simp: txVerified_def)
    have "map (\<lambda>i. auNonce a + int i) [0..<Suc ?n] = auNonce a # map (\<lambda>i. auNonce b' + int i) [0..<?n]"
      using a(4) by (simp add: upt_conv_Cons map_Suc_upt[symmetric] del: upt_Suc map_Suc_upt)
    then show ?thesis using Cons.IH[OF k(5) a(3)] a(2,4) True by auto
  next
    case False
    then have "authRead env k address = Inr a" using k(4) Cons.prems(2) by auto
    from Cons.IH[OF k(5) this] False show ?thesis by simp
  qed
qed simp

section \<open>Keys\<close>

definition groupOk :: "'st authEnv \<Rightarrow> authAccount \<Rightarrow> bool" where
  "groupOk env a = (isBufferArrayOrdered (auMandatoryKeys a) \<and> isBufferArrayOrdered (auOptionalKeys a) \<and> distinct (auMandatoryKeys a @ auOptionalKeys a) \<and>
     int (length (auMandatoryKeys a)) \<le> auNumberOfSignatures a \<and> auNumberOfSignatures a \<le> int (length (auMandatoryKeys a @ auOptionalKeys a)) \<and>
     int (length (auMandatoryKeys a @ auOptionalKeys a)) \<le> auMaxNumberOfSignatures env)"

definition accountsOk :: "'st authEnv \<Rightarrow> bytes kv \<Rightarrow> bool" where
  "accountsOk env kv = (\<forall>address a. authRead env kv address = Inr a \<longrightarrow> groupOk env a)"

lemma no_common: "length (filter (\<lambda>v. find (\<lambda>k. k = v) ys \<noteq> None) xs) > 0 \<longleftrightarrow> set xs \<inter> set ys \<noteq> {}"
  by (auto simp: find_None_iff filter_empty_conv)

lemma params_groupOk: "fst (registerMultisigVerify env p) = VerifyOK \<Longrightarrow> groupOk env (withParams p a)"
  unfolding registerMultisigVerify_def Let_def no_common by (auto simp: verifyFailed_def groupOk_def withParams_def split: if_splits)

lemma check_groupOk: "checkAuthAccount env a = Inr () \<Longrightarrow> groupOk env a"
  unfolding checkAuthAccount_def Let_def no_common by (auto simp: groupOk_def split: if_splits)

lemma groupOk_nonce [simp]: "groupOk env (a\<lparr>auNonce := n\<rparr>) = groupOk env a"
  by (simp add: groupOk_def)

lemma step_accountsOk:
  assumes "accountsStep env tx kv k" "txVerified env kv tx" "accountsOk env kv"
  shows "accountsOk env k"
proof -
  obtain a a' where a: "authRead env kv (senderOf env tx) = Inr a" "authEffect env tx a a'"
    "\<And>x. authRead env k x = (if x = senderOf env tx then Inr a' else authRead env kv x)" using assms(1) by (auto simp: accountsStep_def)
  have "groupOk env a" using assms(3) a(1) by (auto simp: accountsOk_def)
  then have "groupOk env a'" using a(2) assms(2) by (auto simp: authEffect_def txVerified_def intro: params_groupOk)
  then show ?thesis using assms(3) a(3) by (auto simp: accountsOk_def)
qed

section \<open>Signatures\<close>

text \<open>
  A transaction is authorised by an account: without a group, its single signature is one
  of the public key of the sender; with a group, as many different keys of the group as it
  requires have signed it, all mandatory ones among them.
\<close>

definition authorised :: "'st authEnv \<Rightarrow> authAccount \<Rightarrow> transaction \<Rightarrow> bool" where
  "authorised env a tx = (\<exists>bytes. txGetSigningBytes (auLib env) tx = Inr bytes \<and>
     (let signed = (\<lambda>key sig. auVerifyData env TAG_TRANSACTION (auChainID env) bytes sig key) in
      if auNumberOfSignatures a = 0 then \<exists>sig. txSignatures tx = [sig] \<and> signed (txSenderPublicKey tx) sig
      else \<exists>signers. distinct signers \<and> int (length signers) = auNumberOfSignatures a \<and> set (auMandatoryKeys a) \<subseteq> set signers \<and>
        set signers \<subseteq> set (auMandatoryKeys a @ auOptionalKeys a) \<and> (\<forall>key \<in> set signers. \<exists>sig \<in> set (txSignatures tx). sig \<noteq> [] \<and> signed key sig)))"

lemma verifyKeys_pairs:
  "verifyKeys env n bytes pairs i = Inr () \<Longrightarrow> (\<forall>(key, sig) \<in> set pairs. sig \<noteq> [] \<longrightarrow> auVerifyData env TAG_TRANSACTION (auChainID env) bytes sig key) \<and>
     (\<forall>j < length pairs. i + j < n \<longrightarrow> snd (pairs ! j) \<noteq> [])"
proof (induction pairs arbitrary: i)
  case (Cons p pairs)
  have t: "verifyKeys env n bytes pairs (Suc i) = Inr ()" "snd p \<noteq> [] \<Longrightarrow> auVerifyData env TAG_TRANSACTION (auChainID env) bytes (snd p) (fst p)"
    "i < n \<Longrightarrow> snd p \<noteq> []"
    using Cons.prems by (auto simp: rbind_Inr verifySignature_def split: if_splits)
  have "i + j < n \<Longrightarrow> snd ((p # pairs) ! j) \<noteq> []" if "j < length (p # pairs)" for j
    using that t(3) conjunct2[OF Cons.IH[OF t(1)]] by (cases j) auto
  then show ?case using Cons.IH[OF t(1)] t(2) by auto
qed simp

lemma filter_signed: "length keys = length sigs \<Longrightarrow> length (filter (\<lambda>p. snd p \<noteq> []) (zip keys sigs)) = length (filter (\<lambda>k. length k \<noteq> 0) sigs)"
  by (induction keys sigs rule: list_induct2) auto

lemma verified_authorised:
  assumes v: "verifySignatures env tx a = Inr ()" and k: "distinct (auMandatoryKeys a @ auOptionalKeys a)"
  shows "authorised env a tx"
proof (cases "auNumberOfSignatures a = 0")
  case True
  then have "length (txSignatures tx) = 1" using v by (auto simp: verifySignatures_def split: if_splits)
  then obtain sig where "txSignatures tx = [sig]" by (cases "txSignatures tx") auto
  then show ?thesis using v True by (auto simp: verifySignatures_def rbind_Inr verifySignature_def authorised_def split: if_splits)
next
  case False
  let ?keys = "auMandatoryKeys a @ auOptionalKeys a"
  let ?pairs = "zip ?keys (txSignatures tx)"
  let ?signed = "filter (\<lambda>p. snd p \<noteq> []) ?pairs"
  obtain bytes where b: "txGetSigningBytes (auLib env) tx = Inr bytes" "verifyMultiSignatureTransaction env a (txSignatures tx) bytes = Inr ()"
    using v False by (auto simp: verifySignatures_def rbind_Inr)
  have n: "int (length (filter (\<lambda>k. length k \<noteq> 0) (txSignatures tx))) = auNumberOfSignatures a" "length (txSignatures tx) = length ?keys"
    and vk: "verifyKeys env (length (auMandatoryKeys a)) bytes ?pairs 0 = Inr ()"
    using b(2) by (auto simp: verifyMultiSignatureTransaction_def Let_def split: if_splits)
  note vp = verifyKeys_pairs[OF vk]
  have d: "distinct (map fst ?signed)" using k by (metis distinct_map_filter map_fst_zip n(2))
  have m: "set (auMandatoryKeys a) \<subseteq> set (map fst ?signed)"
  proof
    fix key assume "key \<in> set (auMandatoryKeys a)"
    then obtain j where j: "j < length (auMandatoryKeys a)" "key = auMandatoryKeys a ! j" by (auto simp: in_set_conv_nth)
    then have "j < length ?pairs" "?pairs ! j = (key, txSignatures tx ! j)" using n(2) by (auto simp: nth_append)
    moreover from this have "snd (?pairs ! j) \<noteq> []" using conjunct2[OF vp] j(1) by simp
    ultimately have "(key, txSignatures tx ! j) \<in> set ?signed" by (metis (mono_tags, lifting) mem_Collect_eq nth_mem set_filter)
    then show "key \<in> set (map fst ?signed)" by force
  qed
  have s: "\<exists>sig \<in> set (txSignatures tx). sig \<noteq> [] \<and> auVerifyData env TAG_TRANSACTION (auChainID env) bytes sig key" if signer: "key \<in> set (map fst ?signed)" for key
  proof -
    obtain p where "p \<in> set ?signed" "key = fst p" using signer unfolding set_map by blast
    then have "(key, snd p) \<in> set ?pairs" "snd p \<noteq> []" by (simp_all add: prod_eq_iff)
    then obtain sig where "(key, sig) \<in> set ?pairs" "sig \<noteq> []" by blast
    then show ?thesis using conjunct1[OF vp] set_zip_rightD by fast
  qed
  have "int (length (map fst ?signed)) = auNumberOfSignatures a" using filter_signed[of ?keys "txSignatures tx"] n by simp
  moreover have "set (map fst ?signed) \<subseteq> set ?keys" by (auto dest: set_zip_leftD)
  ultimately show ?thesis using d m s b(1) False unfolding authorised_def Let_def
    by (intro exI[of _ bytes] conjI) (simp_all only: if_False, intro exI[of _ "map fst ?signed"] conjI, auto)
qed

lemma run_accountsOk: "accountsRun env txs kv kv' \<Longrightarrow> accountsOk env kv \<Longrightarrow> accountsOk env kv'"
  by (induction txs arbitrary: kv) (auto intro: step_accountsOk)

lemma run_authorised:
  assumes "accountsRun env (pre @ tx # post) kv kv'" "accountsOk env kv"
  shows "\<exists>k a. accountsRun env pre kv k \<and> authRead env k (senderOf env tx) = Inr a \<and> txNonce tx = auNonce a \<and> authorised env a tx"
  using assms
proof (induction pre arbitrary: kv)
  case Nil
  then obtain a where a: "authRead env kv (senderOf env tx) = Inr a" "txNonce tx = auNonce a" "verifySignatures env tx a = Inr ()"
    by (auto simp: txVerified_def)
  then have "distinct (auMandatoryKeys a @ auOptionalKeys a)" using Nil.prems(2) by (auto simp: accountsOk_def groupOk_def)
  from verified_authorised[OF a(3) this] a show ?case by auto
next
  case (Cons x xs)
  then obtain k where k: "txVerified env kv x" "accountsStep env x kv k" "accountsRun env (xs @ tx # post) k kv'" by auto
  from Cons.IH[OF k(3) step_accountsOk[OF k(2,1) Cons.prems(2)]] k show ?case by auto
qed

section \<open>Genesis\<close>

abbreviation genesisEntry :: "'st authEnv \<Rightarrow> bytes \<times> authAccount \<Rightarrow> ('st sctx, unit) m" where
  "genesisEntry env \<equiv> \<lambda>(address, authAccount). if length address \<noteq> 20 then throw (Error ''Invalid store key length for auth module.'')
     else andThen (liftE (checkAuthAccount env authAccount)) (authSet env address authAccount)"

lemma genesis_loop:
  assumes "lensLaw (auSub env)" "forEach entries (genesisEntry env) s = (Inr (), t)" "list_all (\<lambda>(address, a). accountLow a) entries"
  shows "list_all (\<lambda>(address, a). length address = 20 \<and> groupOk env a) entries \<and>
    (\<forall>x. authRead env (subSel (auSub env) t) x = (case map_of (rev entries) x of None \<Rightarrow> authRead env (subSel (auSub env) s) x | Some a \<Rightarrow> Inr a))"
  using assms(2,3)
proof (induction entries arbitrary: s)
  case (Cons e entries)
  obtain address a where e: "e = (address, a)" by (cases e)
  obtain bs u where u: "length address = 20" "checkAuthAccount env a = Inr ()" "enc (authSchema (auLib env)) a = Inr bs"
    "u = subUpd (auSub env) (kvset address bs) s" "forEach entries (genesisEntry env) u = (Inr (), t)"
    using Cons.prems(1) e by (auto simp: andThen_def bind_Inr liftE_Inr authSet_def storeSet_def modify_def throw_def split: if_splits)
  have l: "accountLow a" "list_all (\<lambda>(address, a). accountLow a) entries" using Cons.prems(2) e by auto
  have "authRead env (subSel (auSub env) u) x = (if x = address then Inr a else authRead env (subSel (auSub env) s) x)" for x
    using authRead_set[OF l(1) u(3)] assms(1) u(4) by simp
  then show ?case using Cons.IH[OF u(5) l(2)] check_groupOk[OF u(2)] u(1) e by (auto simp: map_add_def split: option.splits)
qed (simp add: ret_def)

lemma genesis_entries_low:
  assumes "decode lib genesisAuthStoreSchema asset = Inr ps"
  shows "list_all (\<lambda>(address, a). accountLow a) (map authGenesisEntry (fieldArray ps 0))"
proof -
  have e: "case authGenesisEntry v of (address, a) \<Rightarrow> accountLow a" if v: "v = VObj ws" "typed [PScalar 1 BytesT, PObject 2 authAccountSchema] ws" for v ws
  proof -
    obtain bv r us where "ws = [Some bv, Some (VObj us)]" "typed authAccountSchema us"
      using v(2) by (auto split: list.splits option.splits val.splits)
    then show ?thesis using typed_low by (simp add: authGenesisEntry_def v(1) fieldObject_def)
  qed
  obtain xs where "ps = [Some (VArr xs)]" "list_all (\<lambda>x. case x of VObj ws \<Rightarrow> typed [PScalar 1 BytesT, PObject 2 authAccountSchema] ws | _ \<Rightarrow> False) xs"
    using decode_typed[OF assms] by (auto simp: genesisAuthStoreSchema_def split: list.splits option.splits val.splits)
  moreover from this have "case authGenesisEntry v of (address, a) \<Rightarrow> accountLow a" if "v \<in> set xs" for v
    using that e[of v] unfolding list_all_iff by (cases v) auto
  ultimately show ?thesis by (simp add: fieldArray_def list_all_iff)
qed

lemma map_of_rev: "distinct (map fst xs) \<Longrightarrow> map_of (rev xs) = map_of xs"
  using map_of_inject_set[of "rev xs" xs] by (simp add: rev_map[symmetric])

lemma noAccount_groupOk: "0 \<le> auMaxNumberOfSignatures env \<Longrightarrow> groupOk env noAccount"
  by (simp add: groupOk_def noAccount_def isBufferArrayOrdered_def bufferArrayEqual_def)

end
