(* ===== verification/AuthTheorems.thy ===== *)
theory AuthTheorems
  imports AuthProps
begin

text \<open>
  The properties of the auth module in the node: what it guarantees for the transactions of
  every block that the consensus engine executes through the ABI handler, with a node of one
  more module and a block of two transactions as their witness.
\<close>

text \<open>
  C5: No replay. When the engine has executed the transactions of a block, the nonces of the
  transactions of each sender are consecutive and start at the nonce of its account before the
  block, and the nonce of the account is higher by their number afterwards; an account
  without transactions keeps its nonce. So no transaction is executed twice. The hypotheses
  are that snapshots bring the substore of the module back, that the state store writes what
  it is told and that the other modules leave this substore alone.
\<close>

theorem nonces_consecutive:
  fixes env :: "(('st, 'db) application) consensusEnv"
  assumes "ceAbi env = abiHandler ae" "aeLib ae = auLib au" "snapshotLaw (aeRW ae) (subRead (auSub au)) later" "authStack au later (aeModules ae)"
    "appContext (appState s) = Some ec" "executeTransactions env contextID b txs s = (Inr evs, t)"
  shows "\<exists>ec'. appContext (appState t) = Some ec' \<and>
    (\<forall>address a. authRead au (subRead (auSub au) (ecState ec)) address = Inr a \<longrightarrow>
      (let mine = filter (\<lambda>tx. txSenderAddress (auHash au) tx = address) txs in
       map txNonce mine = map (\<lambda>i. auNonce a + int i) [0..<length mine] \<and>
       (\<exists>a'. authRead au (subRead (auSub au) (ecState ec')) address = Inr a' \<and> auNonce a' = auNonce a + int (length mine))))"
  using block_accounts[OF assms(1-4,6,5)] run_nonces unfolding Let_def by blast

text \<open>
  C10: Every executed transaction is authorised. When the accounts before a block have sound
  key groups (sorted, without duplicates, and with a threshold between the number of mandatory
  keys and the number of keys, at most the configured maximum), they have them after it too. At its turn,
  every transaction of the block was authorised by the account of its sender: by its single key or
  by the required number of different keys of the group with all mandatory ones.
\<close>

theorem block_authorised:
  fixes env :: "(('st, 'db) application) consensusEnv"
  assumes "ceAbi env = abiHandler ae" "aeLib ae = auLib au" "snapshotLaw (aeRW ae) (subRead (auSub au)) later" "authStack au later (aeModules ae)"
    "appContext (appState s) = Some ec" "executeTransactions env contextID b txs s = (Inr evs, t)"
    "accountsOk au (subRead (auSub au) (ecState ec))"
  shows "\<exists>ec'. appContext (appState t) = Some ec' \<and> accountsOk au (subRead (auSub au) (ecState ec')) \<and>
    (\<forall>pre tx post. txs = pre @ tx # post \<longrightarrow>
      (\<exists>kv a. accountsRun au pre (subRead (auSub au) (ecState ec)) kv \<and> authRead au kv (txSenderAddress (auHash au) tx) = Inr a \<and>
        txNonce tx = auNonce a \<and> authorised au a tx))"
proof -
  obtain ec' where ec': "appContext (appState t) = Some ec'" "accountsRun au txs (subRead (auSub au) (ecState ec)) (subRead (auSub au) (ecState ec'))"
    using block_accounts[OF assms(1-4,6,5)] by blast
  show ?thesis using run_accountsOk[OF ec'(2) assms(7)] run_authorised[OF _ assms(7)] ec' by blast
qed

text \<open>
  The genesis block has sound key groups. When the module has read its part of a genesis block into
  an empty substore, all accounts have sound key groups, and each address of the asset has the
  account that the asset gives it.
\<close>

theorem auth_genesis_sound:
  assumes "lensLaw (auSub env)" "subSel (auSub env) s = []" "0 \<le> auMaxNumberOfSignatures env"
    "authInitGenesisState env assets s = (Inr (), t)" "getAsset assets ''auth'' = Some asset"
  shows "accountsOk env (subSel (auSub env) t) \<and>
    (\<exists>ps. decode (auLib env) genesisAuthStoreSchema asset = Inr ps \<and> distinct (map fst (map authGenesisEntry (fieldArray ps 0))) \<and>
      (\<forall>(address, a) \<in> set (map authGenesisEntry (fieldArray ps 0)). length address = 20 \<and> authRead env (subSel (auSub env) t) address = Inr a))"
proof -
  obtain ps where ps: "decode (auLib env) genesisAuthStoreSchema asset = Inr ps"
    "forEach (map authGenesisEntry (fieldArray ps 0)) (genesisEntry env) s = (Inr (), t)" "distinct (map fst (map authGenesisEntry (fieldArray ps 0)))"
    using assms(4,5) by (auto simp: authInitGenesisState_def bind_Inr liftE_Inr Let_def andThen_def throw_def ret_def split: if_splits)
  let ?entries = "map authGenesisEntry (fieldArray ps 0)"
  note g = genesis_loop[OF assms(1) ps(2) genesis_entries_low[OF ps(1)]]
  have r: "authRead env (subSel (auSub env) t) x = (case map_of ?entries x of None \<Rightarrow> Inr noAccount | Some a \<Rightarrow> Inr a)" for x
    using conjunct2[OF g] unfolding map_of_rev[OF ps(3)] assms(2) by (auto split: option.split)
  have "accountsOk env (subSel (auSub env) t)" unfolding accountsOk_def
  proof (intro allI impI)
    fix address a assume a: "authRead env (subSel (auSub env) t) address = Inr a"
    show "groupOk env a"
    proof (cases "map_of ?entries address")
      case None
      then show ?thesis using a r noAccount_groupOk[OF assms(3)] by simp
    next
      case (Some a')
      then have "(address, a) \<in> set ?entries" using a r by (auto dest: map_of_SomeD)
      then show ?thesis using conjunct1[OF g] by (auto simp only: list_all_iff)
    qed
  qed
  moreover have "length address = 20 \<and> authRead env (subSel (auSub env) t) address = Inr a" if "(address, a) \<in> set ?entries" for address a
    using that conjunct1[OF g] r map_of_is_SomeI[OF ps(3) that] by (auto simp: list_all_iff)
  ultimately show ?thesis using ps(1,3) by blast
qed

section \<open>A block of two transactions\<close>

text \<open>
  The state is the substore with the stack of its snapshots, a signature fits a key if they
  begin with the same byte, and the hash keeps the first 20 bytes. The first transaction registers a group with one other key, the
  second one is signed by that key and runs a command of another module.
\<close>

definition kvRW :: "(bytes kv \<times> bytes kv list) readWriter" where
  "kvRW = \<lparr>rwSnapshot = (\<lambda>(kv, st). (length st, (kv, st @ [kv]))), rwRestore = (\<lambda>i (kv, st). (if i < length st then st ! i else kv, st))\<rparr>"

definition kvLater :: "bytes kv \<times> bytes kv list \<Rightarrow> bytes kv \<times> bytes kv list \<Rightarrow> bool" where
  "kvLater s t = (\<exists>xs. snd t = snd s @ xs)"

definition kvSub :: "(bytes kv \<times> bytes kv list) substore" where
  "kvSub = \<lparr>subRead = fst, subWrite = (\<lambda>f (kv, st). (f kv, st))\<rparr>"

definition exAuth :: "(bytes kv \<times> bytes kv list) authEnv" where
  "exAuth = \<lparr>auLib = asciiLib, auHash = take 20, auVerifyData = (\<lambda>_ _ _ sig key. take 1 sig = take 1 key), auChainID = [0], auSub = kvSub,
     auMaxNumberOfSignatures = 64\<rparr>"

definition noopCommand :: "(bytes kv \<times> bytes kv list) smCommand" where
  "noopCommand = \<lparr>cmdName = ''noop'', cmdSchema = [], cmdSchemaValid = (\<lambda>_. True), cmdVerify = None, cmdExecute = (\<lambda>_ _ _ _. ret ())\<rparr>"

definition noopModule :: "(bytes kv \<times> bytes kv list) smModule" where
  "noopModule = \<lparr>modName = ''noop'', modCommands = [noopCommand], modEvents = [], modStores = [], modVerifyTransaction = None,
     modBeforeCommandExecute = None, modAfterCommandExecute = None, modVerifyAssets = None,
     modBeforeTransactionsExecute = None, modAfterTransactionsExecute = None, modInitGenesisState = None, modFinalizeGenesisState = None\<rparr>"

definition exGroupParams :: bytes where
  "exGroupParams = (case encode asciiLib registerMultisignatureParamsSchema
     [Some (VInt 1), Some (VArr [VBytes (replicate 32 2)]), Some (VArr []), Some (VArr [VBytes (replicate 64 2)])] of Inr b \<Rightarrow> b | Inl _ \<Rightarrow> [])"

definition exTx :: "string \<Rightarrow> string \<Rightarrow> int \<Rightarrow> bytes \<Rightarrow> byte \<Rightarrow> transaction" where
  "exTx module command nonce params signer = \<lparr>txModule = module, txCommand = command, txNonce = nonce, txFee = 0, txSenderPublicKey = replicate 32 1,
     txParams = params, txSignatures = [replicate 64 signer]\<rparr>"

definition exTxs :: "transaction list" where
  "exTxs = [exTx ''auth'' ''registerMultisignature'' 0 exGroupParams 1, exTx ''noop'' ''noop'' 1 [] 2]"

definition authApp :: "(bytes kv \<times> bytes kv list, unit) appEnv" where
  "authApp = \<lparr>aeLib = asciiLib, aeHash = take 20, aeModules = [authModule exAuth, noopModule], aeRW = kvRW,
     aeGenesis = \<lparr>bHeader = exHeader, bTransactions = [], bAssets = []\<rparr>, newReadWriter = (\<lambda>_. ([], [])), currentRoot = (\<lambda>_. []),
     dbCommit = (\<lambda>_ _ _ _ r. ret r), dbRevert = (\<lambda>r _. ret r), dbFinalize = (\<lambda>_. ret ()), dbProve = (\<lambda>_ _ _. Inr [])\<rparr>"

definition authNodeEnv :: "((bytes kv \<times> bytes kv list, unit) application) consensusEnv" where
  "authNodeEnv = \<lparr>ceBft = \<lparr>bftLib = asciiLib, bftHash = take 20, batchSize = 1, blockTime = 10\<rparr>, ceAbi = abiHandler authApp, ceHash = take 20,
     ceValidator = \<lparr>headerSchemaValid = (\<lambda>_. True), txSchemaValid = (\<lambda>_. True), assetSchemaValid = (\<lambda>_. True)\<rparr>, ceChainID = [0],
     ceVerifySignature = (\<lambda>_ _ _ _ _. True), ceEventRoot = (\<lambda>_. []), ceVerifyAggregateCommit = (\<lambda>_ _ _. Inr True), ceMaxRemovalHeight = (\<lambda>_. Inr 0),
     ceMaxTransactionsSize = 100, ceKeepInclusionProofs = 0, ceInclusionProofKeys = [], ceSync = (\<lambda>_ _. ret ()), ceNow = 1000\<rparr>"

definition exContext :: "(bytes kv \<times> bytes kv list) executionContext" where
  "exContext = \<lparr>ecId = [9], ecHeader = exHeader, ecState = ([], []), ecStore = Map.empty\<rparr>"

definition authNode :: "((bytes kv \<times> bytes kv list, unit) application) node" where
  "authNode = \<lparr>votesStore = [], paramsStore = [], dbStores = \<lparr>votesStore = [], paramsStore = []\<rparr>, dbDiffs = [], dbBlocks = [], chainLast = None, dbTempBlocks = [],
     dbInclusionProofs = [], finalizedHeight = 0, stopped = False, syncActive = False, appState = \<lparr>appContext = Some exContext, appDB = ()\<rparr>, outputs = []\<rparr>"

definition exBlock :: block where "exBlock = \<lparr>bHeader = exHeader, bTransactions = exTxs, bAssets = []\<rparr>"

lemma auth_run: "isl (fst (executeTransactions authNodeEnv [9] exBlock exTxs authNode)) = False"
  by code_simp

lemma kv_law: "snapshotLaw (aeRW authApp) (subRead (auSub exAuth)) kvLater"
  unfolding snapshotLaw_def authApp_def kvRW_def kvLater_def exAuth_def kvSub_def by (auto split: prod.splits)

lemma auth_stack: "authStack exAuth kvLater (aeModules authApp)"
proof -
  have ok: "modulesOk kvLater ([] @ [noopModule])" "list_all (foreign (auSub exAuth)) ([] @ [noopModule])"
    by (simp_all add: modulesOk_def foreign_def noopModule_def noopCommand_def hookOk_def forward_def ret_def kvLater_def keepsSub_def)
  moreover have "lensLaw (auSub exAuth)" "\<forall>f s. kvLater s (subWrite (auSub exAuth) f s)"
    by (auto simp: lensLaw_def exAuth_def kvSub_def kvLater_def)
  moreover have "aeModules authApp = [] @ authModule exAuth # [noopModule]" by (simp add: authApp_def)
  ultimately show ?thesis unfolding authStack_def by blast
qed

lemma ex_sender: "filter (\<lambda>tx. txSenderAddress (auHash exAuth) tx = replicate 20 1) exTxs = exTxs"
  by code_simp

lemma auth_executed: "\<exists>evs t. executeTransactions authNodeEnv [9] exBlock exTxs authNode = (Inr evs, t)"
  using auth_run by (cases "executeTransactions authNodeEnv [9] exBlock exTxs authNode", cases "fst (executeTransactions authNodeEnv [9] exBlock exTxs authNode)") auto

lemma auth_node_facts: "ceAbi authNodeEnv = abiHandler authApp" "aeLib authApp = auLib exAuth" "appContext (appState authNode) = Some exContext"
  "subRead (auSub exAuth) (ecState exContext) = []"
  by (simp_all add: authNodeEnv_def authApp_def exAuth_def authNode_def exContext_def kvSub_def)

theorem nonces_consecutive_witness:
  "\<exists>evs t ec a. executeTransactions authNodeEnv [9] exBlock exTxs authNode = (Inr evs, t) \<and> appContext (appState t) = Some ec \<and>
     authRead exAuth (subRead (auSub exAuth) (ecState ec)) (replicate 20 1) = Inr a \<and> auNonce a = 2"
proof -
  obtain evs t where t: "executeTransactions authNodeEnv [9] exBlock exTxs authNode = (Inr evs, t)" using auth_executed by blast
  obtain ec where ec: "appContext (appState t) = Some ec" "\<forall>address a. authRead exAuth (subRead (auSub exAuth) (ecState exContext)) address = Inr a \<longrightarrow>
      (let mine = filter (\<lambda>tx. txSenderAddress (auHash exAuth) tx = address) exTxs in
       map txNonce mine = map (\<lambda>i. auNonce a + int i) [0..<length mine] \<and>
       (\<exists>a'. authRead exAuth (subRead (auSub exAuth) (ecState ec)) address = Inr a' \<and> auNonce a' = auNonce a + int (length mine)))"
    using nonces_consecutive[OF auth_node_facts(1,2) kv_law auth_stack auth_node_facts(3) t] by blast
  have "authRead exAuth (subRead (auSub exAuth) (ecState exContext)) (replicate 20 1) = Inr noAccount" unfolding auth_node_facts(4) by simp
  from ec(2)[rule_format, OF this] ex_sender t ec(1) show ?thesis by (auto simp: Let_def noAccount_def exTxs_def)
qed

lemma empty_accountsOk: "accountsOk exAuth (subRead (auSub exAuth) (ecState exContext))"
proof -
  have "groupOk exAuth noAccount" by (rule noAccount_groupOk) (simp add: exAuth_def)
  then show ?thesis unfolding accountsOk_def auth_node_facts(4) by simp
qed

theorem block_authorised_witness:
  "\<exists>kv a. authRead exAuth kv (replicate 20 1) = Inr a \<and> auNonce a = 1 \<and> authorised exAuth a (exTx ''noop'' ''noop'' 1 [] 2)"
proof -
  obtain evs t where t: "executeTransactions authNodeEnv [9] exBlock exTxs authNode = (Inr evs, t)" using auth_executed by blast
  have e: "exTxs = [exTx ''auth'' ''registerMultisignature'' 0 exGroupParams 1] @ exTx ''noop'' ''noop'' 1 [] 2 # []" by (simp add: exTxs_def)
  have s: "txSenderAddress (auHash exAuth) (exTx ''noop'' ''noop'' 1 [] 2) = replicate 20 1" "txNonce (exTx ''noop'' ''noop'' 1 [] 2) = 1" by code_simp+
  obtain ec' where "\<forall>pre tx post. exTxs = pre @ tx # post \<longrightarrow>
      (\<exists>kv a. accountsRun exAuth pre (subRead (auSub exAuth) (ecState exContext)) kv \<and> authRead exAuth kv (txSenderAddress (auHash exAuth) tx) = Inr a \<and>
        txNonce tx = auNonce a \<and> authorised exAuth a tx)"
    using block_authorised[OF auth_node_facts(1,2) kv_law auth_stack auth_node_facts(3) t empty_accountsOk] by blast
  from this[rule_format, OF e] obtain kv a where k: "authRead exAuth kv (replicate 20 1) = Inr a" "1 = auNonce a" "authorised exAuth a (exTx ''noop'' ''noop'' 1 [] 2)"
    unfolding s by blast
  show ?thesis by (intro exI[of _ kv] exI[of _ a] conjI k k(2)[symmetric])
qed

definition exGroupAccount :: authAccount where
  "exGroupAccount = \<lparr>auNonce = 5, auNumberOfSignatures = 1, auMandatoryKeys = [], auOptionalKeys = [replicate 32 2, replicate 32 3]\<rparr>"

definition exAuthAsset :: bytes where
  "exAuthAsset = (case encode asciiLib genesisAuthStoreSchema
     [Some (VArr [VObj [Some (VBytes (replicate 20 7)), Some (VObj (authVals exGroupAccount))]])] of Inr b \<Rightarrow> b | Inl _ \<Rightarrow> [])"

definition exAuthCtx :: "(bytes kv \<times> bytes kv list) sctx" where
  "exAuthCtx = \<lparr>cHeight = 0, cTopics = [], cEvents = [], cStore = Map.empty, sState = ([], []), sNext = None\<rparr>"

lemma auth_genesis_run: "fst (authInitGenesisState exAuth [\<lparr>asModule = ''auth'', asData = exAuthAsset\<rparr>] exAuthCtx) = Inr ()"
  by code_simp

lemma auth_genesis_entries: "(case decode asciiLib genesisAuthStoreSchema exAuthAsset of Inl _ \<Rightarrow> [] | Inr ps \<Rightarrow> map authGenesisEntry (fieldArray ps 0)) =
    [(replicate 20 7, exGroupAccount)]"
  by code_simp

theorem auth_genesis_sound_witness:
  "\<exists>t. authInitGenesisState exAuth [\<lparr>asModule = ''auth'', asData = exAuthAsset\<rparr>] exAuthCtx = (Inr (), t) \<and> accountsOk exAuth (subSel (auSub exAuth) t) \<and>
     authRead exAuth (subSel (auSub exAuth) t) (replicate 20 7) = Inr exGroupAccount"
proof -
  let ?assets = "[\<lparr>asModule = ''auth'', asData = exAuthAsset\<rparr>]"
  obtain t where t: "authInitGenesisState exAuth ?assets exAuthCtx = (Inr (), t)" using auth_genesis_run by (metis prod.collapse)
  have h: "lensLaw (auSub exAuth)" "subSel (auSub exAuth) exAuthCtx = []" "0 \<le> auMaxNumberOfSignatures exAuth" "getAsset ?assets ''auth'' = Some exAuthAsset"
    by (auto simp: lensLaw_def exAuth_def kvSub_def subSel_def exAuthCtx_def getAsset_def)
  obtain ps where "accountsOk exAuth (subSel (auSub exAuth) t)" "decode (auLib exAuth) genesisAuthStoreSchema exAuthAsset = Inr ps"
    "\<forall>(address, a) \<in> set (map authGenesisEntry (fieldArray ps 0)). length address = 20 \<and> authRead exAuth (subSel (auSub exAuth) t) address = Inr a"
    using auth_genesis_sound[OF h(1-3) t h(4)] by blast
  then show ?thesis using t auth_genesis_entries by (auto simp: exAuth_def)
qed

end
