(* ===== verification/Validators.thy ===== *)
theory Validators
  imports HookLaws CodecTyping SchemaLaws
begin

text \<open>
  The validators module (\<open>framework/src/modules/validators\<close>): the generator and BLS keys of
  the validators, the index from BLS keys to addresses, the parameters of the current
  validators and the count of the generators between two timestamps.

  BLS (\<open>bls.popVerify\<close>) is a parameter. \<open>NextValidatorsSetter\<close> is the context of the state
  machine (\<open>setNextValidators\<close>).
\<close>

section \<open>Stores\<close>

definition INVALID_BLS_KEY :: bytes where "INVALID_BLS_KEY = replicate 48 0"
definition EMPTY_PARAMS_KEY :: bytes where "EMPTY_PARAMS_KEY = []"

datatype keyRegResult = KeySUCCESS | NO_VALIDATOR | ALREADY_VALIDATOR | DUPLICATE_BLS_KEY | INVALID_POP

fun keyRegCode :: "keyRegResult \<Rightarrow> int" where
  "keyRegCode KeySUCCESS = 0"
| "keyRegCode NO_VALIDATOR = 1"
| "keyRegCode ALREADY_VALIDATOR = 2"
| "keyRegCode DUPLICATE_BLS_KEY = 3"
| "keyRegCode INVALID_POP = 4"

record validatorKeys =
  vkGeneratorKey :: bytes
  vkBlsKey :: bytes

record validatorsParams =
  vpPreCommitThreshold :: int
  vpCertificateThreshold :: int
  vpValidators :: "validator list"

definition validatorKeysSchema :: "schemaProp list" where
  "validatorKeysSchema = [PScalar 1 BytesT, PScalar 2 BytesT]"

definition blsKeyDataSchema :: "schemaProp list" where
  "blsKeyDataSchema = [PScalar 1 BytesT]"

definition paramsValidatorSchema :: "schemaProp list" where
  "paramsValidatorSchema = [PScalar 1 BytesT, PScalar 2 UInt64T, PScalar 3 BytesT, PScalar 4 BytesT]"

definition validatorsParamsSchema :: "schemaProp list" where
  "validatorsParamsSchema = [PScalar 1 UInt64T, PScalar 2 UInt64T, PArrayObj 3 paramsValidatorSchema]"

definition keysVals :: "validatorKeys \<Rightarrow> val option list" where
  "keysVals k = [Some (VBytes (vkGeneratorKey k)), Some (VBytes (vkBlsKey k))]"

definition keysOf :: "val option list \<Rightarrow> validatorKeys" where
  "keysOf ps = \<lparr>vkGeneratorKey = fieldBytes ps 0, vkBlsKey = fieldBytes ps 1\<rparr>"

definition validatorVal :: "validator \<Rightarrow> val" where
  "validatorVal v = VObj [Some (VBytes (vAddress v)), Some (VInt (vBftWeight v)), Some (VBytes (vGeneratorKey v)), Some (VBytes (vBlsKey v))]"

definition paramsValidatorOf :: "val \<Rightarrow> validator" where
  "paramsValidatorOf v = (case v of
     VObj ps \<Rightarrow> \<lparr>vAddress = fieldBytes ps 0, vBftWeight = fieldInt ps 1, vGeneratorKey = fieldBytes ps 2, vBlsKey = fieldBytes ps 3\<rparr>
   | _ \<Rightarrow> \<lparr>vAddress = [], vBftWeight = 0, vGeneratorKey = [], vBlsKey = []\<rparr>)"

definition validatorsParamsVals :: "validatorsParams \<Rightarrow> val option list" where
  "validatorsParamsVals p = [Some (VInt (vpPreCommitThreshold p)), Some (VInt (vpCertificateThreshold p)), Some (VArr (map validatorVal (vpValidators p)))]"

definition validatorsParamsOf :: "val option list \<Rightarrow> validatorsParams" where
  "validatorsParamsOf ps = \<lparr>vpPreCommitThreshold = fieldInt ps 0, vpCertificateThreshold = fieldInt ps 1, vpValidators = map paramsValidatorOf (fieldArray ps 2)\<rparr>"

definition keysSchema :: "jsLib \<Rightarrow> validatorKeys storeSchema" where
  "keysSchema lib = \<lparr>enc = (\<lambda>k. encode lib validatorKeysSchema (keysVals k)),
     dec = (\<lambda>bs. rbind (decode lib validatorKeysSchema bs) (\<lambda>ps. Inr (keysOf ps)))\<rparr>"

definition blsSchema :: "jsLib \<Rightarrow> bytes storeSchema" where
  "blsSchema lib = \<lparr>enc = (\<lambda>a. encode lib blsKeyDataSchema [Some (VBytes a)]),
     dec = (\<lambda>bs. rbind (decode lib blsKeyDataSchema bs) (\<lambda>ps. Inr (fieldBytes ps 0)))\<rparr>"

definition paramsStoreSchema :: "jsLib \<Rightarrow> validatorsParams storeSchema" where
  "paramsStoreSchema lib = \<lparr>enc = (\<lambda>p. encode lib validatorsParamsSchema (validatorsParamsVals p)),
     dec = (\<lambda>bs. rbind (decode lib validatorsParamsSchema bs) (\<lambda>ps. Inr (validatorsParamsOf ps)))\<rparr>"

record validatorsStores =
  vsKeys :: "bytes kv"
  vsBls :: "bytes kv"
  vsParams :: "bytes kv"

type_synonym vctx = "validatorsStores sctx"

record validatorsEnv =
  vaLib :: jsLib
  popVerify :: "bytes \<Rightarrow> bytes \<Rightarrow> bool"
  vaBlockTime :: int

definition selKeys :: "vctx \<Rightarrow> bytes kv" where "selKeys s = vsKeys (sState s)"
definition selBls :: "vctx \<Rightarrow> bytes kv" where "selBls s = vsBls (sState s)"
definition selParams :: "vctx \<Rightarrow> bytes kv" where "selParams s = vsParams (sState s)"

definition updKeys :: "(bytes kv \<Rightarrow> bytes kv) \<Rightarrow> vctx \<Rightarrow> vctx" where
  "updKeys f s = s\<lparr>sState := (sState s)\<lparr>vsKeys := f (vsKeys (sState s))\<rparr>\<rparr>"
definition updBls :: "(bytes kv \<Rightarrow> bytes kv) \<Rightarrow> vctx \<Rightarrow> vctx" where
  "updBls f s = s\<lparr>sState := (sState s)\<lparr>vsBls := f (vsBls (sState s))\<rparr>\<rparr>"
definition updParams :: "(bytes kv \<Rightarrow> bytes kv) \<Rightarrow> vctx \<Rightarrow> vctx" where
  "updParams f s = s\<lparr>sState := (sState s)\<lparr>vsParams := f (vsParams (sState s))\<rparr>\<rparr>"

section \<open>Events and checks\<close>

definition blsKeyRegistrationLog :: "validatorsEnv \<Rightarrow> bytes \<Rightarrow> bytes \<Rightarrow> bytes \<Rightarrow> keyRegResult \<Rightarrow> (vctx, unit) m" where
  "blsKeyRegistrationLog env validatorAddress blsKey pop result =
     eventAdd (vaLib env) ''validators'' ''blsKeyRegistration'' [PScalar 1 BytesT, PScalar 2 BytesT, PScalar 3 UInt32T]
       [Some (VBytes blsKey), Some (VBytes pop), Some (VInt (keyRegCode result))] [validatorAddress] (result \<noteq> KeySUCCESS)"

definition generatorKeyRegistrationLog :: "validatorsEnv \<Rightarrow> bytes \<Rightarrow> bytes \<Rightarrow> keyRegResult \<Rightarrow> (vctx, unit) m" where
  "generatorKeyRegistrationLog env validatorAddress generatorKey result =
     eventAdd (vaLib env) ''validators'' ''generatorKeyRegistration'' [PScalar 1 BytesT, PScalar 2 UInt32T]
       [Some (VBytes generatorKey), Some (VInt (keyRegCode result))] [validatorAddress] (result \<noteq> KeySUCCESS)"

record validatorArgs =
  vaAddress :: "bytes option"
  vaBlsKey :: "bytes option"
  vaPop :: "bytes option"
  vaGeneratorKey :: "bytes option"

definition noArgs :: validatorArgs where "noArgs = \<lparr>vaAddress = None, vaBlsKey = None, vaPop = None, vaGeneratorKey = None\<rparr>"

definition badLength :: "bytes option \<Rightarrow> nat \<Rightarrow> bool" where
  "badLength x n = (case x of None \<Rightarrow> False | Some b \<Rightarrow> length b \<noteq> n)"

definition validateLengths :: "validatorArgs \<Rightarrow> err + unit" where
  "validateLengths a =
     (if badLength (vaAddress a) 20 then Inl (Error ''Validator address must be 20 bytes long.'')
      else if badLength (vaBlsKey a) 48 then Inl (Error ''BLS public key must be 48 bytes long.'')
      else if badLength (vaPop a) 96 then Inl (Error ''Proof of Possession must be 96 bytes long.'')
      else if badLength (vaGeneratorKey a) 32 then Inl (Error ''Generator key must be 32 bytes long.'')
      else Inr ())"

definition validateKeys :: "validatorKeys \<Rightarrow> err + unit" where
  "validateKeys k = (if length (vkGeneratorKey k) \<noteq> 32 \<or> length (vkBlsKey k) \<noteq> 48 then Inl (Error ''KlayrvalidationError'') else Inr ())"

section \<open>Keys\<close>

definition registerValidatorKeys :: "validatorsEnv \<Rightarrow> bytes \<Rightarrow> bytes \<Rightarrow> bytes \<Rightarrow> bytes \<Rightarrow> (vctx, unit) m" where
  "registerValidatorKeys env validatorAddress blsKey generatorKey pop =
     andThen (liftE (validateLengths (noArgs\<lparr>vaAddress := Some validatorAddress, vaBlsKey := Some blsKey, vaPop := Some pop\<rparr>)))
     (andThen (liftE (validateKeys \<lparr>vkGeneratorKey = generatorKey, vkBlsKey = blsKey\<rparr>))
     (bind (storeHas selKeys validatorAddress) (\<lambda>addressExists.
      if addressExists then
        andThen (generatorKeyRegistrationLog env validatorAddress generatorKey ALREADY_VALIDATOR)
          (throw (Error ''This address is already registered as validator.''))
      else bind (storeHas selBls blsKey) (\<lambda>blsKeyExists.
      if blsKeyExists then
        andThen (blsKeyRegistrationLog env validatorAddress blsKey pop DUPLICATE_BLS_KEY)
          (throw (Error ''The BLS key has already been registered in the chain.''))
      else if \<not> popVerify env blsKey pop then
        andThen (blsKeyRegistrationLog env validatorAddress blsKey pop INVALID_POP)
          (throw (Error ''Invalid proof of possession for the given BLS key.''))
      else
        andThen (storeSet (keysSchema (vaLib env)) updKeys validatorAddress \<lparr>vkGeneratorKey = generatorKey, vkBlsKey = blsKey\<rparr>)
        (andThen (storeSet (blsSchema (vaLib env)) updBls blsKey validatorAddress)
        (andThen (generatorKeyRegistrationLog env validatorAddress generatorKey KeySUCCESS)
        (blsKeyRegistrationLog env validatorAddress blsKey pop KeySUCCESS)))))))"

definition registerValidatorWithoutBLSKey :: "validatorsEnv \<Rightarrow> bytes \<Rightarrow> bytes \<Rightarrow> (vctx, bool) m" where
  "registerValidatorWithoutBLSKey env validatorAddress generatorKey =
     andThen (liftE (validateLengths (noArgs\<lparr>vaAddress := Some validatorAddress\<rparr>)))
     (andThen (liftE (validateKeys \<lparr>vkGeneratorKey = generatorKey, vkBlsKey = INVALID_BLS_KEY\<rparr>))
     (bind (storeHas selKeys validatorAddress) (\<lambda>addressExists.
      if addressExists then
        andThen (generatorKeyRegistrationLog env validatorAddress generatorKey ALREADY_VALIDATOR)
          (throw (Error ''This address is already registered as validator.''))
      else
        andThen (storeSet (keysSchema (vaLib env)) updKeys validatorAddress \<lparr>vkGeneratorKey = generatorKey, vkBlsKey = INVALID_BLS_KEY\<rparr>)
        (andThen (generatorKeyRegistrationLog env validatorAddress generatorKey KeySUCCESS) (ret True)))))"

definition getAddressFromBLSKey :: "validatorsEnv \<Rightarrow> bytes \<Rightarrow> (vctx, bytes) m" where
  "getAddressFromBLSKey env blsKey =
     andThen (liftE (validateLengths (noArgs\<lparr>vaBlsKey := Some blsKey\<rparr>)))
     (bind (storeHas selBls blsKey) (\<lambda>blsKeyExists.
      if \<not> blsKeyExists then throw (Error ''The BLS key has not been registered in the chain.'')
      else storeGet (blsSchema (vaLib env)) selBls blsKey))"

definition getValidatorKeys :: "validatorsEnv \<Rightarrow> bytes \<Rightarrow> (vctx, validatorKeys) m" where
  "getValidatorKeys env address =
     andThen (liftE (validateLengths (noArgs\<lparr>vaAddress := Some address\<rparr>)))
     (bind (storeHas selKeys address) (\<lambda>addressExists.
      if \<not> addressExists then throw (Error ''No validator account found for the input address.'')
      else storeGet (keysSchema (vaLib env)) selKeys address))"

definition setValidatorBLSKey :: "validatorsEnv \<Rightarrow> bytes \<Rightarrow> bytes \<Rightarrow> bytes \<Rightarrow> (vctx, bool) m" where
  "setValidatorBLSKey env validatorAddress blsKey pop =
     andThen (liftE (validateLengths (noArgs\<lparr>vaAddress := Some validatorAddress, vaBlsKey := Some blsKey, vaPop := Some pop\<rparr>)))
     (bind (storeHas selKeys validatorAddress) (\<lambda>addressExists.
      if \<not> addressExists then
        andThen (blsKeyRegistrationLog env validatorAddress blsKey pop NO_VALIDATOR)
          (throw (Error ''This address is not registered as validator. Only validators can register a BLS key.''))
      else bind (storeHas selBls blsKey) (\<lambda>blsKeyExists.
      if blsKeyExists then
        andThen (blsKeyRegistrationLog env validatorAddress blsKey pop DUPLICATE_BLS_KEY)
          (throw (Error ''The BLS key has already been registered in the chain.''))
      else bind (storeGet (keysSchema (vaLib env)) selKeys validatorAddress) (\<lambda>validatorAccount.
      if \<not> popVerify env blsKey pop then
        andThen (blsKeyRegistrationLog env validatorAddress blsKey pop INVALID_POP)
          (throw (Error ''Invalid proof of possession for the given BLS key.''))
      else
        andThen (storeSet (keysSchema (vaLib env)) updKeys validatorAddress (validatorAccount\<lparr>vkBlsKey := blsKey\<rparr>))
        (andThen (storeSet (blsSchema (vaLib env)) updBls blsKey validatorAddress)
        (andThen (blsKeyRegistrationLog env validatorAddress blsKey pop KeySUCCESS) (ret True)))))))"

definition setValidatorGeneratorKey :: "validatorsEnv \<Rightarrow> bytes \<Rightarrow> bytes \<Rightarrow> (vctx, bool) m" where
  "setValidatorGeneratorKey env validatorAddress generatorKey =
     andThen (liftE (validateLengths (noArgs\<lparr>vaAddress := Some validatorAddress, vaGeneratorKey := Some generatorKey\<rparr>)))
     (bind (storeHas selKeys validatorAddress) (\<lambda>addressExists.
      if \<not> addressExists then
        andThen (generatorKeyRegistrationLog env validatorAddress generatorKey NO_VALIDATOR)
          (throw (Error ''This address is not registered as validator. Only validators can register a generator key.''))
      else bind (storeGet (keysSchema (vaLib env)) selKeys validatorAddress) (\<lambda>validatorAccount.
        andThen (storeSet (keysSchema (vaLib env)) updKeys validatorAddress (validatorAccount\<lparr>vkGeneratorKey := generatorKey\<rparr>))
        (andThen (generatorKeyRegistrationLog env validatorAddress generatorKey KeySUCCESS) (ret True)))))"

definition isKeyRegistered :: "validatorsEnv \<Rightarrow> bytes \<Rightarrow> (vctx, bool) m" where
  "isKeyRegistered env blsKey = storeHas selBls blsKey"

section \<open>Parameters\<close>

definition getValidatorsParams :: "validatorsEnv \<Rightarrow> (vctx, validatorsParams) m" where
  "getValidatorsParams env = storeGet (paramsStoreSchema (vaLib env)) selParams EMPTY_PARAMS_KEY"

text \<open>The validators of the call have an address and a weight; the keys are looked up.\<close>

primrec withKeys :: "validatorsEnv \<Rightarrow> (bytes \<times> int) list \<Rightarrow> (vctx, validator list) m" where
  "withKeys env [] = ret []"
| "withKeys env (v # vs) =
     bind (storeGet (keysSchema (vaLib env)) selKeys (fst v)) (\<lambda>keys.
     bind (withKeys env vs) (\<lambda>r.
     ret (\<lparr>vAddress = fst v, vBftWeight = snd v, vGeneratorKey = vkGeneratorKey keys, vBlsKey = vkBlsKey keys\<rparr> # r)))"

definition setValidatorsParams :: "validatorsEnv \<Rightarrow> int \<Rightarrow> int \<Rightarrow> (bytes \<times> int) list \<Rightarrow> (vctx, unit) m" where
  "setValidatorsParams env preCommitT certificateT vs =
     bind (withKeys env vs) (\<lambda>validatorsWithKey.
     andThen (storeSet (paramsStoreSchema (vaLib env)) updParams EMPTY_PARAMS_KEY
       \<lparr>vpPreCommitThreshold = preCommitT, vpCertificateThreshold = certificateT, vpValidators = validatorsWithKey\<rparr>)
     (setNextValidators preCommitT certificateT validatorsWithKey))"

section \<open>Generators between timestamps\<close>

text \<open>The record from addresses to numbers, and its increment.\<close>

type_synonym counts = "bytes \<rightharpoonup> int"

definition bump :: "bytes \<Rightarrow> counts \<Rightarrow> counts" where
  "bump a r = (case r a of Some n \<Rightarrow> r(a \<mapsto> n + 1) | None \<Rightarrow> r(a \<mapsto> 1))"

primrec countSlots :: "nat \<Rightarrow> bytes list \<Rightarrow> int \<Rightarrow> counts \<Rightarrow> counts" where
  "countSlots 0 addresses slotNumber result = result"
| "countSlots (Suc k) addresses slotNumber result =
     countSlots k addresses (slotNumber + 1) (bump (addresses ! nat (slotNumber mod int (length addresses))) result)"

text \<open>
  With no validators \<open>totalSlots\<close> becomes \<open>NaN\<close> (\<open>Infinity * 0\<close>), neither loop has an
  iteration and the result is empty.
\<close>

definition generatorsBetween :: "bytes list \<Rightarrow> int \<Rightarrow> int \<Rightarrow> counts" where
  "generatorsBetween addresses startSlotNumber endSlotNumber =
     (if addresses = [] then Map.empty
      else let totalSlots = endSlotNumber - startSlotNumber + 1;
               baseSlots = totalSlots div int (length addresses);
               (remaining, result) = (if baseSlots > 0
                 then (totalSlots - baseSlots * int (length addresses), foldl (\<lambda>r a. r(a \<mapsto> baseSlots)) Map.empty addresses)
                 else (totalSlots, Map.empty)) in
           countSlots (nat remaining) addresses startSlotNumber result)"

definition getGeneratorsBetweenTimestamps :: "validatorsEnv \<Rightarrow> int \<Rightarrow> int \<Rightarrow> (vctx, counts) m" where
  "getGeneratorsBetweenTimestamps env startTimestamp endTimestamp =
     (if endTimestamp < startTimestamp then throw (Error ''End timestamp must be greater than or equal to start timestamp.'')
      else let startSlotNumber = startTimestamp div vaBlockTime env + 1; endSlotNumber = endTimestamp div vaBlockTime env - 1 in
      if startSlotNumber > endSlotNumber then ret Map.empty
      else bind (getValidatorsParams env) (\<lambda>p. ret (generatorsBetween (map vAddress (vpValidators p)) startSlotNumber endSlotNumber)))"

end
