(* ===== verification/ValidatorsTheorems.thy ===== *)
theory ValidatorsTheorems
  imports Validators
begin

text \<open>
  The properties of the validators module: BLS keys are never shared, the join of the keys in
  the parameters, and the count of the generators against a count slot by slot.
\<close>

section \<open>Values are read back\<close>

lemma keysSchemaOk: "schemaOk validatorKeysSchema" "schemaOk blsKeyDataSchema" "schemaOk validatorsParamsSchema"
  by code_simp+

lemma keysOf_vals [simp]: "keysOf (keysVals k) = k"
  by (simp add: keysOf_def keysVals_def fieldBytes_def)

lemma keys_dec_enc: "enc (keysSchema lib) k = Inr bs \<Longrightarrow> dec (keysSchema lib) bs = Inr k"
  using encode_reads[OF keysSchemaOk(1), of lib "keysVals k" bs] by (simp add: keysSchema_def validatorKeysSchema_def keysVals_def keysOf_def fieldBytes_def)

lemma bls_dec_enc: "enc (blsSchema lib) a = Inr bs \<Longrightarrow> dec (blsSchema lib) bs = Inr a"
  using encode_reads[OF keysSchemaOk(2), of lib "[Some (VBytes a)]" bs] by (simp add: blsSchema_def blsKeyDataSchema_def fieldBytes_def)

definition paramsLow :: "validatorsParams \<Rightarrow> bool" where
  "paramsLow p = (0 \<le> vpPreCommitThreshold p \<and> 0 \<le> vpCertificateThreshold p \<and> list_all (\<lambda>v. 0 \<le> vBftWeight v) (vpValidators p))"

lemma paramsValidatorOf_val [simp]: "paramsValidatorOf (validatorVal v) = v"
  by (simp add: paramsValidatorOf_def validatorVal_def fieldBytes_def fieldInt_def)

lemma validatorsParamsOf_vals [simp]: "validatorsParamsOf (validatorsParamsVals p) = p"
  by (simp add: validatorsParamsOf_def validatorsParamsVals_def fieldInt_def fieldArray_def o_def)

lemma params_dec_enc:
  assumes "paramsLow p" "enc (paramsStoreSchema lib) p = Inr bs"
  shows "dec (paramsStoreSchema lib) bs = Inr p"
proof -
  have "lowConf lib validatorsParamsSchema (validatorsParamsVals p)" using assms(1)
    by (simp add: paramsLow_def validatorsParamsSchema_def paramsValidatorSchema_def validatorsParamsVals_def validatorVal_def list_all_iff)
  then show ?thesis using encode_reads[OF keysSchemaOk(3)] assms(2) by (simp add: paramsStoreSchema_def)
qed

interpretation keys_schema: store_schema "keysSchema lib" "\<lambda>_. True"
  by unfold_locales (rule keys_dec_enc)

interpretation bls_schema: store_schema "blsSchema lib" "\<lambda>_. True"
  by unfold_locales (rule bls_dec_enc)

interpretation params_schema: store_schema "paramsStoreSchema lib" paramsLow
  by unfold_locales (rule params_dec_enc)

lemma sel_upd [simp]:
  "selKeys (updKeys f s) = f (selKeys s)" "selBls (updKeys f s) = selBls s" "selParams (updKeys f s) = selParams s"
  "selKeys (updBls f s) = selKeys s" "selBls (updBls f s) = f (selBls s)" "selParams (updBls f s) = selParams s"
  "selKeys (updParams f s) = selKeys s" "selBls (updParams f s) = selBls s" "selParams (updParams f s) = f (selParams s)"
  "selKeys (s\<lparr>cEvents := e\<rparr>) = selKeys s" "selBls (s\<lparr>cEvents := e\<rparr>) = selBls s" "selParams (s\<lparr>cEvents := e\<rparr>) = selParams s"
  "selKeys (s\<lparr>sNext := n\<rparr>) = selKeys s" "selBls (s\<lparr>sNext := n\<rparr>) = selBls s" "selParams (s\<lparr>sNext := n\<rparr>) = selParams s"
  by (simp_all add: selKeys_def selBls_def selParams_def updKeys_def updBls_def updParams_def)

section \<open>The index of BLS keys\<close>

definition keysAt :: "validatorsEnv \<Rightarrow> vctx \<Rightarrow> bytes \<Rightarrow> validatorKeys option" where
  "keysAt env s a = (case kvget (selKeys s) a of None \<Rightarrow> None
     | Some bs \<Rightarrow> (case dec (keysSchema (vaLib env)) bs of Inl _ \<Rightarrow> None | Inr k \<Rightarrow> Some k))"

definition blsAddress :: "validatorsEnv \<Rightarrow> vctx \<Rightarrow> bytes \<Rightarrow> bytes option" where
  "blsAddress env s key = (case kvget (selBls s) key of None \<Rightarrow> None
     | Some bs \<Rightarrow> (case dec (blsSchema (vaLib env)) bs of Inl _ \<Rightarrow> None | Inr a \<Rightarrow> Some a))"

text \<open>Every usable key of a validator was proved to be its own and leads back to it.\<close>

definition indexOk :: "validatorsEnv \<Rightarrow> vctx \<Rightarrow> bool" where
  "indexOk env s = (\<forall>a k. keysAt env s a = Some k \<longrightarrow> length (vkBlsKey k) = 48 \<and> (vkBlsKey k \<noteq> INVALID_BLS_KEY \<longrightarrow>
     blsAddress env s (vkBlsKey k) = Some a \<and> (\<exists>pop. popVerify env (vkBlsKey k) pop)))"

lemma indexOk_events [simp]: "indexOk env (s\<lparr>cEvents := e\<rparr>) = indexOk env s" "indexOk env (s\<lparr>sNext := n\<rparr>) = indexOk env s" "indexOk env (updParams f s) = indexOk env s"
  by (simp_all add: indexOk_def keysAt_def blsAddress_def)

lemma keysAt_set: "enc (keysSchema (vaLib env)) k = Inr bs \<Longrightarrow> keysAt env (updKeys (kvset a bs) s) x = (if x = a then Some k else keysAt env s x)"
  by (simp add: keysAt_def keys_dec_enc)

lemma blsAddress_set: "enc (blsSchema (vaLib env)) a = Inr bs \<Longrightarrow> blsAddress env (updBls (kvset k bs) s) x = (if x = k then Some a else blsAddress env s x)"
  by (simp add: blsAddress_def bls_dec_enc)

lemma keysAt_bls [simp]: "keysAt env (updBls f s) = keysAt env s" "blsAddress env (updKeys f s) = blsAddress env s"
  by (simp_all add: keysAt_def blsAddress_def fun_eq_iff)

lemma bls_enc: "length a = 20 \<Longrightarrow> \<exists>bs. enc (blsSchema lib) a = Inr bs"
proof -
  have "generateKey 1 BytesT = Inr [10]" by code_simp
  then show "length a = 20 \<Longrightarrow> ?thesis" by (simp add: blsSchema_def blsKeyDataSchema_def encode_def rbind_Inr writeBytes_def writeUInt32_def)
qed

lemma index_new:
  assumes "indexOk env s" "\<not> kvhas (selBls s) (vkBlsKey k)" "popVerify env (vkBlsKey k) pop" "length (vkBlsKey k) = 48"
    "enc (keysSchema (vaLib env)) k = Inr b1" "enc (blsSchema (vaLib env)) a = Inr b2"
  shows "indexOk env (updBls (kvset (vkBlsKey k) b2) (updKeys (kvset a b1) s))"
proof -
  have "blsAddress env s (vkBlsKey k) = None" using assms(2) by (simp add: blsAddress_def kvhas_def)
  then show ?thesis using assms(1,3,4) unfolding indexOk_def keysAt_bls blsAddress_set[OF assms(6)] keysAt_set[OF assms(5)]
    by (metis option.inject option.simps(3))
qed

lemma index_keep:
  assumes "indexOk env s" "enc (keysSchema (vaLib env)) k = Inr b"
    "vkBlsKey k = INVALID_BLS_KEY \<and> length (vkBlsKey k) = 48 \<or> (\<exists>k'. keysAt env s a = Some k' \<and> vkBlsKey k' = vkBlsKey k)"
  shows "indexOk env (updKeys (kvset a b) s)"
  using assms(1,3) unfolding indexOk_def keysAt_bls keysAt_set[OF assms(2)] by (metis option.inject)

lemma lengths_address: "validateLengths (noArgs\<lparr>vaAddress := Some a, vaBlsKey := Some k, vaPop := Some p\<rparr>) = Inr u \<Longrightarrow> length a = 20"
  by (simp add: validateLengths_def noArgs_def badLength_def split: if_splits)

lemma checked_enc: "validateLengths (noArgs\<lparr>vaAddress := Some a, vaBlsKey := Some k, vaPop := Some p\<rparr>) = Inr u \<Longrightarrow> \<exists>bs. enc (blsSchema lib) a = Inr bs"
  by (rule bls_enc) (rule lengths_address)

lemma checked_length: "validateLengths (noArgs\<lparr>vaAddress := Some a, vaBlsKey := Some k, vaPop := Some p\<rparr>) = Inr u \<Longrightarrow> length k = 48"
  by (simp add: validateLengths_def noArgs_def badLength_def split: if_splits)

lemma invalid_length [simp]: "length INVALID_BLS_KEY = 48"
  by (simp add: INVALID_BLS_KEY_def)

abbreviation keepsIndex :: "validatorsEnv \<Rightarrow> (vctx, 'a) m \<Rightarrow> bool" where
  "keepsIndex env c \<equiv> \<forall>s. indexOk env s \<longrightarrow> wp c (\<lambda>_. indexOk env) (\<lambda>_. indexOk env) s"

lemma log_wp:
  assumes "\<And>e. Q () (s\<lparr>cEvents := e\<rparr>)" "\<And>e. E e s"
  shows "wp (blsKeyRegistrationLog env a k p r) Q E s" "wp (generatorKeyRegistrationLog env a g r) Q E s"
  using assms by (simp_all add: blsKeyRegistrationLog_def generatorKeyRegistrationLog_def wp_eventAdd split: sum.split)

lemma index_register: "keepsIndex env (registerValidatorKeys env a blsKey generatorKey pop)"
proof (intro allI impI)
  fix s assume s: "indexOk env s"
  let ?k = "\<lparr>vkGeneratorKey = generatorKey, vkBlsKey = blsKey\<rparr>"
  have "indexOk env (updBls (kvset blsKey b2) (updKeys (kvset a b1) s))"
    if "\<not> kvhas (selBls s) blsKey" "popVerify env blsKey pop" "length blsKey = 48" "enc (keysSchema (vaLib env)) ?k = Inr b1" "enc (blsSchema (vaLib env)) a = Inr b2" for b1 b2
    using index_new[OF s, of ?k pop b1 a b2] that by simp
  then show "wp (registerValidatorKeys env a blsKey generatorKey pop) (\<lambda>_. indexOk env) (\<lambda>_. indexOk env) s"
    using s checked_enc[where a = a and k = blsKey and p = pop and lib = "vaLib env"] checked_length[where a = a and k = blsKey and p = pop] unfolding registerValidatorKeys_def
    by (auto simp: wp intro!: log_wp split: sum.split)
qed

lemma index_set_bls: "keepsIndex env (setValidatorBLSKey env a blsKey pop)"
proof (intro allI impI)
  fix s assume s: "indexOk env s"
  have "indexOk env (updBls (kvset blsKey b2) (updKeys (kvset a b1) s))"
    if "\<not> kvhas (selBls s) blsKey" "popVerify env blsKey pop" "length blsKey = 48" "enc (keysSchema (vaLib env)) (k\<lparr>vkBlsKey := blsKey\<rparr>) = Inr b1" "enc (blsSchema (vaLib env)) a = Inr b2" for b1 b2 k
    using index_new[OF s, of "k\<lparr>vkBlsKey := blsKey\<rparr>" pop b1 a b2] that by simp
  then show "wp (setValidatorBLSKey env a blsKey pop) (\<lambda>_. indexOk env) (\<lambda>_. indexOk env) s"
    using s checked_enc[where a = a and k = blsKey and p = pop and lib = "vaLib env"] checked_length[where a = a and k = blsKey and p = pop] unfolding setValidatorBLSKey_def
    by (auto simp: wp intro!: log_wp split: sum.split option.split)
qed

lemma index_without_bls: "keepsIndex env (registerValidatorWithoutBLSKey env a generatorKey)"
  using index_keep[of env _ "\<lparr>vkGeneratorKey = generatorKey, vkBlsKey = INVALID_BLS_KEY\<rparr>" _ a]
  unfolding registerValidatorWithoutBLSKey_def by (auto simp: wp intro!: log_wp split: sum.split)

lemma index_set_generator: "keepsIndex env (setValidatorGeneratorKey env a generatorKey)"
proof (intro allI impI)
  fix s assume s: "indexOk env s"
  have "indexOk env (updKeys (kvset a b) s)"
    if "kvget (selKeys s) a = Some bs" "dec (keysSchema (vaLib env)) bs = Inr k" "enc (keysSchema (vaLib env)) (k\<lparr>vkGeneratorKey := generatorKey\<rparr>) = Inr b" for b bs k
    using index_keep[OF s that(3)] that(1,2) by (simp add: keysAt_def)
  then show "wp (setValidatorGeneratorKey env a generatorKey) (\<lambda>_. indexOk env) (\<lambda>_. indexOk env) s"
    using s unfolding setValidatorGeneratorKey_def by (auto simp: wp intro!: log_wp split: sum.split option.split)
qed

lemma withKeys_state: "wp (withKeys env vs) (\<lambda>_ t. t = s) (\<lambda>_ t. t = s) s"
  by (induction vs) (auto simp: wp split: option.split sum.split intro: wp_mono)

lemma index_params: "keepsIndex env (setValidatorsParams env pt ct vs)"
proof (intro allI impI)
  fix s assume s: "indexOk env s"
  show "wp (setValidatorsParams env pt ct vs) (\<lambda>_. indexOk env) (\<lambda>_. indexOk env) s"
    unfolding setValidatorsParams_def wp_bind by (rule wp_mono[OF withKeys_state]) (use s in \<open>auto simp: wp setNextValidators_def split: sum.split\<close>)
qed

section \<open>Histories\<close>

text \<open>
  The calls of other modules, in any order and with any arguments; a call that throws leaves
  what it wrote, and the state machine may only bring an earlier state back.
\<close>

inductive validatorsStep :: "validatorsEnv \<Rightarrow> vctx \<Rightarrow> vctx \<Rightarrow> bool" for env where
  register: "validatorsStep env s (snd (registerValidatorKeys env a k g p s))"
| withoutBLS: "validatorsStep env s (snd (registerValidatorWithoutBLSKey env a g s))"
| setBLS: "validatorsStep env s (snd (setValidatorBLSKey env a k p s))"
| setGenerator: "validatorsStep env s (snd (setValidatorGeneratorKey env a g s))"
| setParams: "validatorsStep env s (snd (setValidatorsParams env pt ct vs s))"

inductive validatorsReachable :: "validatorsEnv \<Rightarrow> vctx \<Rightarrow> bool" for env where
  start: "selKeys s = [] \<Longrightarrow> validatorsReachable env s"
| step: "validatorsReachable env s \<Longrightarrow> validatorsStep env s t \<Longrightarrow> validatorsReachable env t"
| block: "validatorsReachable env s \<Longrightarrow> selKeys t = selKeys s \<Longrightarrow> selBls t = selBls s \<Longrightarrow> validatorsReachable env t"

lemma keepsIndex_snd: "keepsIndex env c \<Longrightarrow> indexOk env s \<Longrightarrow> indexOk env (snd (c s))"
  by (cases "c s", cases "fst (c s)") (auto simp: wp_def)

lemma reachable_index: "validatorsReachable env s \<Longrightarrow> indexOk env s"
proof (induction rule: validatorsReachable.induct)
  case (start s)
  then show ?case by (simp add: indexOk_def keysAt_def)
next
  case (step s t)
  from step.hyps(2) show ?case
    by cases (simp_all only: keepsIndex_snd[OF index_register step.IH] keepsIndex_snd[OF index_without_bls step.IH]
      keepsIndex_snd[OF index_set_bls step.IH] keepsIndex_snd[OF index_set_generator step.IH] keepsIndex_snd[OF index_params step.IH])
next
  case (block s t)
  then show ?case by (simp add: indexOk_def keysAt_def blsAddress_def)
qed

section \<open>Counting slots\<close>

definition slotsWith :: "bytes list \<Rightarrow> bytes \<Rightarrow> int \<Rightarrow> int \<Rightarrow> int set" where
  "slotsWith addresses a lo hi = {t \<in> {lo..<hi}. addresses ! nat (t mod int (length addresses)) = a}"

lemma slotsWith_finite [simp]: "finite (slotsWith addresses a lo hi)"
  unfolding slotsWith_def by (rule finite_subset[of _ "{lo..<hi}"]) auto

lemma slotsWith_split: "lo \<le> mid \<Longrightarrow> mid \<le> hi \<Longrightarrow> card (slotsWith addresses a lo hi) = card (slotsWith addresses a lo mid) + card (slotsWith addresses a mid hi)"
proof -
  assume "lo \<le> mid" "mid \<le> hi"
  then have "slotsWith addresses a lo hi = slotsWith addresses a lo mid \<union> slotsWith addresses a mid hi"
    "slotsWith addresses a lo mid \<inter> slotsWith addresses a mid hi = {}" by (auto simp: slotsWith_def)
  then show ?thesis by (simp add: card_Un_disjoint)
qed

lemma slotsWith_one: "slotsWith addresses a t (t + 1) = (if addresses ! nat (t mod int (length addresses)) = a then {t} else {})"
  by (auto simp: slotsWith_def)

lemma countSlots_card:
  "countSlots k addresses lo r a = (if slotsWith addresses a lo (lo + int k) = {} then r a
     else Some ((case r a of None \<Rightarrow> 0 | Some n \<Rightarrow> n) + int (card (slotsWith addresses a lo (lo + int k)))))"
proof (induction k arbitrary: lo r)
  case 0
  then show ?case by (simp add: slotsWith_def)
next
  case (Suc k)
  let ?b = "addresses ! nat (lo mod int (length addresses))"
  have c: "card (slotsWith addresses a lo (lo + int (Suc k))) = of_bool (?b = a) + card (slotsWith addresses a (lo + 1) (lo + 1 + int k))"
    using slotsWith_split[of lo "lo + 1" "lo + int (Suc k)" addresses a] by (simp add: slotsWith_one add.assoc)
  have e: "slotsWith addresses a x y = {} \<longleftrightarrow> card (slotsWith addresses a x y) = 0" for x y by simp
  show ?case using Suc.IH[of "lo + 1" "bump ?b r"] unfolding e c
    by (cases "?b = a") (auto simp: bump_def split: option.splits)
qed

lemma residue_once:
  fixes n i lo :: int
  assumes "0 < n" "0 \<le> i" "i < n"
  shows "{t \<in> {lo..<lo + n}. t mod n = i} = {lo + (i - lo) mod n}"
proof -
  have m: "(lo + (i - lo) mod n) mod n = i" using assms by (simp add: mod_simps)
  have "t = lo + (i - lo) mod n" if t: "lo \<le> t" "t < lo + n" "t mod n = i" for t
  proof -
    have "(i - lo) mod n = (t - lo) mod n" using t(3) by (auto simp: mod_simps)
    then show ?thesis using t(1,2) by simp
  qed
  then show ?thesis using m assms(1) by auto
qed

lemma full_rounds:
  assumes "distinct addresses" "a \<in> set addresses"
  shows "card (slotsWith addresses a lo (lo + int (k * length addresses))) = k"
proof (induction k arbitrary: lo)
  case 0
  then show ?case by (simp add: slotsWith_def)
next
  case (Suc k)
  let ?n = "int (length addresses)"
  obtain i where i: "i < length addresses" "addresses ! i = a" using assms(2) by (auto simp: in_set_conv_nth)
  have n: "0 < ?n" using i(1) by (cases addresses) auto
  have "addresses ! nat (t mod ?n) = a \<longleftrightarrow> t mod ?n = int i" for t
  proof -
    have "nat (t mod ?n) < length addresses" using n by (simp add: nat_less_iff)
    then show ?thesis using nth_eq_iff_index_eq[OF assms(1) _ i(1)] i(2) n by (auto simp: nat_eq_iff)
  qed
  then have "slotsWith addresses a lo (lo + ?n) = {lo + (int i - lo) mod ?n}"
    using residue_once[of ?n "int i" lo] i(1) n by (simp add: slotsWith_def)
  then show ?case
    using slotsWith_split[of lo "lo + ?n" "lo + int (Suc k * length addresses)" addresses a] Suc.IH[of "lo + ?n"] by (simp add: algebra_simps)
qed

lemma slotsWith_member: "a \<notin> set addresses \<Longrightarrow> addresses \<noteq> [] \<Longrightarrow> slotsWith addresses a lo hi = {}"
  by (auto simp: slotsWith_def nat_less_iff)

lemma foldl_const: "foldl (\<lambda>r a. r(a \<mapsto> b)) m addresses x = (if x \<in> set addresses then Some b else m x)"
  by (induction addresses arbitrary: m) auto

lemma generatorsBetween_recount:
  assumes "distinct addresses" "addresses \<noteq> []" "lo \<le> hi"
  shows "generatorsBetween addresses lo hi a = (if slotsWith addresses a lo (hi + 1) = {} then None else Some (int (card (slotsWith addresses a lo (hi + 1)))))"
proof -
  let ?n = "int (length addresses)" and ?total = "hi - lo + 1"
  let ?base = "?total div ?n" and ?rem = "?total mod ?n"
  have n: "0 < ?n" using assms(2) by simp
  have b: "0 \<le> ?base" "0 \<le> ?rem" "?total = ?rem + ?base * ?n" using n assms(3) by (simp_all add: pos_imp_zdiv_nonneg_iff)
  let ?r0 = "if ?base > 0 then foldl (\<lambda>r a. r(a \<mapsto> ?base)) Map.empty addresses else Map.empty"
  have g: "generatorsBetween addresses lo hi = countSlots (nat ?rem) addresses lo ?r0"
  proof -
    have "?total - ?base * ?n = ?rem" by (simp add: minus_div_mult_eq_mod)
    moreover have "\<not> ?base > 0 \<Longrightarrow> ?total = ?rem" using b by simp
    ultimately show ?thesis using assms(2) unfolding generatorsBetween_def Let_def by auto
  qed
  have s: "card (slotsWith addresses a lo (hi + 1)) = card (slotsWith addresses a lo (lo + ?rem)) + (if a \<in> set addresses then nat ?base else 0)"
  proof -
    have "hi + 1 = lo + ?rem + int (nat ?base * length addresses)" using b by (simp add: algebra_simps)
    then show ?thesis
      using slotsWith_split[of lo "lo + ?rem" "hi + 1" addresses a] full_rounds[OF assms(1), of a "lo + ?rem" "nat ?base"] slotsWith_member[of a addresses] assms(2) b(2) by auto
  qed
  have e: "slotsWith addresses a x y = {} \<longleftrightarrow> card (slotsWith addresses a x y) = 0" for x y by simp
  show ?thesis unfolding g countSlots_card e s using b(1,2) by (auto simp: foldl_const)
qed

section \<open>Keys of the next validators\<close>

lemma withKeys_join: "withKeys env vs s = (Inr ws, t) \<Longrightarrow> t = s \<and> list_all2 (\<lambda>v w. vAddress w = fst v \<and> vBftWeight w = snd v \<and>
    keysAt env s (fst v) = Some \<lparr>vkGeneratorKey = vGeneratorKey w, vkBlsKey = vBlsKey w\<rparr>) vs ws"
  by (induction vs arbitrary: ws) (auto simp: ret_def bind_Inr storeGet_def gets_def liftE_Inr throw_def keysAt_def split: option.splits)

section \<open>Properties\<close>

text \<open>
  C12: BLS keys are never shared. Whatever sequence of registrations and changes of keys was
  called, also failing ones, a usable BLS key of a validator is 48 bytes long, has been proved to be
  possessed, belongs to no other validator, and the index of the module leads from it to that validator.
\<close>

theorem bls_keys_unique:
  assumes "validatorsReachable env s" "keysAt env s a = Some k" "vkBlsKey k \<noteq> INVALID_BLS_KEY"
  shows "(\<exists>pop. popVerify env (vkBlsKey k) pop) \<and> (\<forall>b l. keysAt env s b = Some l \<longrightarrow> vkBlsKey l = vkBlsKey k \<longrightarrow> b = a) \<and>
    getAddressFromBLSKey env (vkBlsKey k) s = (Inr a, s)"
proof -
  note i = reachable_index[OF assms(1), unfolded indexOk_def, rule_format]
  have "blsAddress env s (vkBlsKey k) = Some a" "length (vkBlsKey k) = 48" using i[OF assms(2)] assms(3) by auto
  then have "getAddressFromBLSKey env (vkBlsKey k) s = (Inr a, s)"
    by (auto simp: getAddressFromBLSKey_def validateLengths_def noArgs_def badLength_def blsAddress_def storeHas_def storeGet_def kvhas_def andThen_def bind_def
        liftE_def gets_def split: option.splits sum.splits)
  moreover have "b = a" if "keysAt env s b = Some l" "vkBlsKey l = vkBlsKey k" for b l
    using i[OF that(1)] i[OF assms(2)] assms(3) that(2) by auto
  ultimately show ?thesis using i[OF assms(2)] assms(3) by blast
qed

text \<open>
  C37: The count of the generators is a recount. For validators with distinct addresses,
  \<open>getGeneratorsBetweenTimestamps\<close> maps exactly the addresses with a slot strictly between the
  slots of the two timestamps to the number of their slots, although it only visits the slots that a whole
  number of rounds does not cover. It fails only if the end is before the start or no parameters are stored.
\<close>

theorem generators_recounted:
  assumes "getValidatorsParams env s = (Inr p, s)" "distinct (map vAddress (vpValidators p))" "vpValidators p \<noteq> []" "start \<le> end'"
  shows "\<exists>r. getGeneratorsBetweenTimestamps env start end' s = (Inr r, s) \<and>
    (\<forall>a. r a = (let slots = {t. start div vaBlockTime env < t \<and> t < end' div vaBlockTime env \<and>
        vAddress (vpValidators p ! nat (t mod int (length (vpValidators p)))) = a} in
      if slots = {} then None else Some (int (card slots))))"
proof -
  let ?lo = "start div vaBlockTime env + 1" and ?hi = "end' div vaBlockTime env - 1" and ?adr = "map vAddress (vpValidators p)"
  have s: "{t. start div vaBlockTime env < t \<and> t < end' div vaBlockTime env \<and> vAddress (vpValidators p ! nat (t mod int (length (vpValidators p)))) = a} = slotsWith ?adr a ?lo (?hi + 1)" for a
    using assms(3) by (auto simp: slotsWith_def nat_less_iff)
  show ?thesis
  proof (cases "?lo > ?hi")
    case True
    then have "slotsWith ?adr a ?lo (?hi + 1) = {}" for a by (auto simp: slotsWith_def)
    then show ?thesis using True assms(4) unfolding s by (simp add: getGeneratorsBetweenTimestamps_def ret_def)
  next
    case False
    then have "getGeneratorsBetweenTimestamps env start end' s = (Inr (generatorsBetween ?adr ?lo ?hi), s)"
      using assms(1,4) by (simp add: getGeneratorsBetweenTimestamps_def ret_def bind_def)
    then show ?thesis using generatorsBetween_recount[OF assms(2), of ?lo ?hi] assms(3) False unfolding s Let_def by auto
  qed
qed

text \<open>
  The next validators carry their registered keys. When \<open>setValidatorsParams\<close> succeeds, the
  state machine gets the validators of the call in their order, each with the generator and the
  BLS key registered for its address, the same list and thresholds are what
  \<open>getValidatorsParams\<close> then reads, and the registered keys have not changed. It fails for an address without keys and
  when the next validators have been set before.
\<close>

theorem params_join_keys:
  assumes "setValidatorsParams env pt ct vs s = (Inr (), t)" "0 \<le> pt" "0 \<le> ct" "list_all (\<lambda>v. 0 \<le> snd v) vs"
  shows "\<exists>next. sNext s = None \<and> sNext t = Some \<lparr>nvPrecommitThreshold = pt, nvCertificateThreshold = ct, nvValidators = next\<rparr> \<and>
    list_all2 (\<lambda>v w. vAddress w = fst v \<and> vBftWeight w = snd v \<and> keysAt env s (fst v) = Some \<lparr>vkGeneratorKey = vGeneratorKey w, vkBlsKey = vBlsKey w\<rparr>) vs next \<and>
    getValidatorsParams env t = (Inr \<lparr>vpPreCommitThreshold = pt, vpCertificateThreshold = ct, vpValidators = next\<rparr>, t) \<and> keysAt env t = keysAt env s"
proof -
  obtain ws where ws: "withKeys env vs s = (Inr ws, s)" "list_all2 (\<lambda>v w. vAddress w = fst v \<and> vBftWeight w = snd v \<and>
      keysAt env s (fst v) = Some \<lparr>vkGeneratorKey = vGeneratorKey w, vkBlsKey = vBlsKey w\<rparr>) vs ws"
    using assms(1) withKeys_join by (fastforce simp: setValidatorsParams_def bind_Inr)
  let ?p = "\<lparr>vpPreCommitThreshold = pt, vpCertificateThreshold = ct, vpValidators = ws\<rparr>"
  obtain bs where t: "enc (paramsStoreSchema (vaLib env)) ?p = Inr bs" "sNext s = None"
    "t = (updParams (kvset EMPTY_PARAMS_KEY bs) s)\<lparr>sNext := Some \<lparr>nvPrecommitThreshold = pt, nvCertificateThreshold = ct, nvValidators = ws\<rparr>\<rparr>"
    using assms(1) ws(1) by (auto simp: setValidatorsParams_def bind_def andThen_def storeSet_def setNextValidators_def liftE_def modify_def gets_def throw_def updParams_def
        split: sum.splits prod.splits if_splits)
  have "list_all (\<lambda>w. 0 \<le> vBftWeight w) ws" using assms(4) ws(2) by (auto simp: list_all_length list_all2_conv_all_nth)
  then have "paramsLow ?p" using assms(2,3) by (simp add: paramsLow_def)
  from params_schema.dec_enc[OF this t(1)] have "getValidatorsParams env t = (Inr ?p, t)"
    by (simp add: t(3) getValidatorsParams_def storeGet_def bind_def gets_def liftE_def)
  moreover have "keysAt env t = keysAt env s" by (simp add: t(3) keysAt_def fun_eq_iff)
  ultimately show ?thesis using ws(2) t(2,3) by (intro exI[of _ ws]) simp
qed

section \<open>Two validators\<close>

text \<open>A proof of possession fits a key if both begin with the same byte.\<close>

definition exVal :: validatorsEnv where
  "exVal = \<lparr>vaLib = asciiLib, popVerify = (\<lambda>k p. take 1 k = take 1 p), vaBlockTime = 10\<rparr>"

definition val0 :: vctx where
  "val0 = \<lparr>cHeight = 0, cTopics = [], cEvents = [], cStore = Map.empty, sState = \<lparr>vsKeys = [], vsBls = [], vsParams = []\<rparr>, sNext = None\<rparr>"

definition val1 :: vctx where "val1 = snd (registerValidatorKeys exVal (replicate 20 1) (replicate 48 1) (replicate 32 1) (replicate 96 1) val0)"
definition val2 :: vctx where "val2 = snd (registerValidatorWithoutBLSKey exVal (replicate 20 2) (replicate 32 2) val1)"
definition val3 :: vctx where "val3 = snd (setValidatorsParams exVal 2 2 [(replicate 20 1, 1), (replicate 20 2, 2)] val2)"

definition exWithKeys :: "validator list" where
  "exWithKeys = [\<lparr>vAddress = replicate 20 1, vBftWeight = 1, vGeneratorKey = replicate 32 1, vBlsKey = replicate 48 1\<rparr>,
     \<lparr>vAddress = replicate 20 2, vBftWeight = 2, vGeneratorKey = replicate 32 2, vBlsKey = replicate 48 0\<rparr>]"

lemma val_reachable: "validatorsReachable exVal val2"
  unfolding val2_def val1_def
  by (intro validatorsReachable.step[OF _ validatorsStep.withoutBLS] validatorsReachable.step[OF _ validatorsStep.register] validatorsReachable.start)
    (simp add: selKeys_def val0_def)

lemma val2_keys: "keysAt exVal val2 (replicate 20 1) = Some \<lparr>vkGeneratorKey = replicate 32 1, vkBlsKey = replicate 48 1\<rparr>"
  by code_simp

lemma val3_set: "fst (setValidatorsParams exVal 2 2 [(replicate 20 1, 1), (replicate 20 2, 2)] val2) = Inr ()"
  by code_simp

lemma val3_params: "fst (getValidatorsParams exVal val3) = Inr \<lparr>vpPreCommitThreshold = 2, vpCertificateThreshold = 2, vpValidators = exWithKeys\<rparr>"
  by code_simp

theorem bls_keys_unique_witness:
  "getAddressFromBLSKey exVal (replicate 48 1) val2 = (Inr (replicate 20 1), val2)"
proof -
  have "vkBlsKey \<lparr>vkGeneratorKey = replicate 32 1, vkBlsKey = replicate 48 1\<rparr> \<noteq> INVALID_BLS_KEY" by code_simp
  from bls_keys_unique[OF val_reachable val2_keys this] show ?thesis by simp
qed

theorem generators_recounted_witness:
  "\<exists>r. getGeneratorsBetweenTimestamps exVal 5 60 val3 = (Inr r, val3) \<and> r (replicate 20 1) = Some 2"
proof -
  let ?p = "\<lparr>vpPreCommitThreshold = 2, vpCertificateThreshold = 2, vpValidators = exWithKeys\<rparr>"
  have g: "getValidatorsParams exVal val3 = (Inr ?p, val3)"
    using val3_params by (auto simp: getValidatorsParams_def storeGet_def bind_def gets_def liftE_def throw_def split: option.splits)
  have d: "distinct (map vAddress (vpValidators ?p))" "vpValidators ?p \<noteq> []" by code_simp+
  have v: "vAddress (exWithKeys ! nat (t mod 2)) = replicate 20 1 \<longleftrightarrow> t mod 2 = 0" for t :: int
  proof (cases "t mod 2 = 0")
    case False
    then have "t mod 2 = 1" by presburger
    moreover have "vAddress (exWithKeys ! 1) \<noteq> replicate 20 1" by code_simp
    ultimately show ?thesis by simp
  qed (simp add: exWithKeys_def)
  have "{t :: int. 0 < t \<and> t < 6 \<and> vAddress (exWithKeys ! nat (t mod 2)) = replicate 20 1} = {2, 4}" unfolding v by (rule set_eqI) (simp, presburger)
  then have s: "{t. 5 div vaBlockTime exVal < t \<and> t < 60 div vaBlockTime exVal \<and>
      vAddress (vpValidators ?p ! nat (t mod int (length (vpValidators ?p)))) = replicate 20 1} = {2, 4}"
    by (simp add: exVal_def exWithKeys_def)
  obtain r where "getGeneratorsBetweenTimestamps exVal 5 60 val3 = (Inr r, val3)"
    "\<forall>a. r a = (let slots = {t. 5 div vaBlockTime exVal < t \<and> t < 60 div vaBlockTime exVal \<and>
        vAddress (vpValidators ?p ! nat (t mod int (length (vpValidators ?p)))) = a} in
      if slots = {} then None else Some (int (card slots)))"
    using generators_recounted[OF g d, of 5 60] by fastforce
  then show ?thesis using s by (auto simp: Let_def)
qed

theorem params_join_keys_witness:
  "\<exists>next. sNext val3 = Some \<lparr>nvPrecommitThreshold = 2, nvCertificateThreshold = 2, nvValidators = next\<rparr> \<and> map vBftWeight next = [1, 2] \<and>
     getValidatorsParams exVal val3 = (Inr \<lparr>vpPreCommitThreshold = 2, vpCertificateThreshold = 2, vpValidators = next\<rparr>, val3)"
proof -
  have "setValidatorsParams exVal 2 2 [(replicate 20 1, 1), (replicate 20 2, 2)] val2 = (Inr (), val3)"
    using val3_set unfolding val3_def by (metis prod.collapse)
  from params_join_keys[OF this] obtain ws where "sNext val3 = Some \<lparr>nvPrecommitThreshold = 2, nvCertificateThreshold = 2, nvValidators = ws\<rparr>"
    "list_all2 (\<lambda>v w. vAddress w = fst v \<and> vBftWeight w = snd v \<and> keysAt exVal val2 (fst v) = Some \<lparr>vkGeneratorKey = vGeneratorKey w, vkBlsKey = vBlsKey w\<rparr>)
       [(replicate 20 1, 1), (replicate 20 2, 2)] ws"
    "getValidatorsParams exVal val3 = (Inr \<lparr>vpPreCommitThreshold = 2, vpCertificateThreshold = 2, vpValidators = ws\<rparr>, val3)" by auto
  then show ?thesis by (auto simp: list_all2_Cons1)
qed

end
