(* ===== verification/RandomModule.thy ===== *)
theory RandomModule
  imports HookLaws CodecTyping SchemaLaws
begin

text \<open>
  The random module (\<open>framework/src/modules/random\<close>): the seed reveals of the generators, the
  random bytes that other modules read, and the hash onions from which a node takes the seeds of
  its blocks (\<open>hashOnion\<close> in \<open>elements/cryptography/src/utils.ts\<close>).

  SHA-256 is the parameter \<open>hash\<close>; a fresh onion seed is the argument \<open>fresh\<close> of the operations that
  may draw one. The stores are the substores of the state (\<open>validatorReveals\<close>) and of
  the offchain database (\<open>hashOnion\<close>, \<open>usedHashOnions\<close>).
\<close>

section \<open>Hash onions\<close>

definition HASH_SIZE :: nat where "HASH_SIZE = 16"
definition SEED_LENGTH :: nat where "SEED_LENGTH = 16"

definition nextHash :: "(bytes \<Rightarrow> bytes) \<Rightarrow> bytes \<Rightarrow> bytes" where
  "nextHash hash b = take HASH_SIZE (hash b)"

text \<open>The loop from \<open>i\<close>, with \<open>k\<close> rounds left; the list is in the order in which \<open>push\<close> fills it.\<close>

primrec onionLoop :: "(bytes \<Rightarrow> bytes) \<Rightarrow> nat \<Rightarrow> nat \<Rightarrow> nat \<Rightarrow> bytes \<Rightarrow> bytes list" where
  "onionLoop hash distance 0 i previousHash = []"
| "onionLoop hash distance (Suc k) i previousHash =
     (let n = nextHash hash previousHash;
          r = onionLoop hash distance k (Suc i) n in
      if i mod distance = 0 then n # r else r)"

definition hashOnion :: "(bytes \<Rightarrow> bytes) \<Rightarrow> bytes \<Rightarrow> nat \<Rightarrow> nat \<Rightarrow> err + bytes list" where
  "hashOnion hash seed count distance =
     (if count < distance then Inl (Error ''Invalid count or distance. Count must be greater than distance'')
      else if distance = 0 \<or> count mod distance \<noteq> 0 then Inl (Error ''Invalid count. Count must be multiple of distance'')
      else Inr (rev (seed # onionLoop hash distance count 1 seed)))"

section \<open>Stores\<close>

record seedReveal =
  srGenerator :: bytes
  srSeed :: bytes
  srHeight :: int
  srValid :: bool

record onion =
  onCount :: int
  onDistance :: int
  onHashes :: "bytes list"

record usedOnion =
  uoCount :: int
  uoHeight :: int

definition seedRevealSchema :: "schemaProp list" where
  "seedRevealSchema = [PArrayObj 1 [PScalar 1 BytesT, PScalar 2 BytesT, PScalar 3 UInt32T, PScalar 4 BooleanT]]"

definition hashOnionStoreSchema :: "schemaProp list" where
  "hashOnionStoreSchema = [PScalar 1 UInt32T, PScalar 2 UInt32T, PArray 3 BytesT]"

definition usedHashOnionsStoreSchema :: "schemaProp list" where
  "usedHashOnionsStoreSchema = [PArrayObj 1 [PScalar 1 UInt32T, PScalar 2 UInt32T]]"

definition blockHeaderAssetRandomModule :: "schemaProp list" where
  "blockHeaderAssetRandomModule = [PScalar 1 BytesT]"

definition valFields :: "val \<Rightarrow> val option list" where
  "valFields v = (case v of VObj ps \<Rightarrow> ps | _ \<Rightarrow> [])"

definition revealVal :: "seedReveal \<Rightarrow> val" where
  "revealVal r = VObj [Some (VBytes (srGenerator r)), Some (VBytes (srSeed r)), Some (VInt (srHeight r)), Some (VBool (srValid r))]"

definition revealOf :: "val \<Rightarrow> seedReveal" where
  "revealOf v = (let ps = valFields v in
     \<lparr>srGenerator = fieldBytes ps 0, srSeed = fieldBytes ps 1, srHeight = fieldInt ps 2, srValid = fieldBool ps 3\<rparr>)"

definition usedVal :: "usedOnion \<Rightarrow> val" where
  "usedVal u = VObj [Some (VInt (uoCount u)), Some (VInt (uoHeight u))]"

definition usedOf :: "val \<Rightarrow> usedOnion" where
  "usedOf v = (let ps = valFields v in \<lparr>uoCount = fieldInt ps 0, uoHeight = fieldInt ps 1\<rparr>)"

definition revealsSchema :: "jsLib \<Rightarrow> seedReveal list storeSchema" where
  "revealsSchema lib = \<lparr>enc = (\<lambda>rs. encode lib seedRevealSchema [Some (VArr (map revealVal rs))]),
     dec = (\<lambda>bs. rbind (decode lib seedRevealSchema bs) (\<lambda>ps. Inr (map revealOf (fieldArray ps 0))))\<rparr>"

definition onionVals :: "onion \<Rightarrow> val option list" where
  "onionVals h = [Some (VInt (onCount h)), Some (VInt (onDistance h)), Some (VArr (map VBytes (onHashes h)))]"

definition onionOf :: "val option list \<Rightarrow> onion" where
  "onionOf ps = \<lparr>onCount = fieldInt ps 0, onDistance = fieldInt ps 1, onHashes = map valBytes (fieldArray ps 2)\<rparr>"

definition onionSchema :: "jsLib \<Rightarrow> onion storeSchema" where
  "onionSchema lib = \<lparr>enc = (\<lambda>h. encode lib hashOnionStoreSchema (onionVals h)),
     dec = (\<lambda>bs. rbind (decode lib hashOnionStoreSchema bs) (\<lambda>ps. Inr (onionOf ps)))\<rparr>"

definition usedSchema :: "jsLib \<Rightarrow> usedOnion list storeSchema" where
  "usedSchema lib = \<lparr>enc = (\<lambda>us. encode lib usedHashOnionsStoreSchema [Some (VArr (map usedVal us))]),
     dec = (\<lambda>bs. rbind (decode lib usedHashOnionsStoreSchema bs) (\<lambda>ps. Inr (map usedOf (fieldArray ps 0))))\<rparr>"

record randomEnv =
  raLib :: jsLib
  raHash :: "bytes \<Rightarrow> bytes"
  maxLengthReveals :: nat

text \<open>The offchain stores of a node.\<close>

record offchain =
  ofOnions :: "bytes kv"
  ofUsed :: "bytes kv"

type_synonym rctx = "bytes kv sctx"

definition selReveals :: "rctx \<Rightarrow> bytes kv" where "selReveals s = sState s"
definition updReveals :: "(bytes kv \<Rightarrow> bytes kv) \<Rightarrow> rctx \<Rightarrow> rctx" where
  "updReveals f s = s\<lparr>sState := f (sState s)\<rparr>"

section \<open>Seeds\<close>

text \<open>The search from the end of the list.\<close>

definition isSeedValidInput :: "(bytes \<Rightarrow> bytes) \<Rightarrow> bytes \<Rightarrow> bytes \<Rightarrow> seedReveal list \<Rightarrow> bool \<Rightarrow> bool" where
  "isSeedValidInput hash generatorAddress seedReveal validatorReveals previousSeedRequired =
     (case find (\<lambda>r. srGenerator r = generatorAddress) (rev validatorReveals) of
        None \<Rightarrow> \<not> previousSeedRequired
      | Some lastSeed \<Rightarrow> srSeed lastSeed = take SEED_LENGTH (hash seedReveal))"

definition bitwiseXOR :: "bytes list \<Rightarrow> err + bytes" where
  "bitwiseXOR bufferArray =
     (case bufferArray of
        [] \<Rightarrow> Inl (Error ''bitwiseXOR requires at least one buffer for the input.'')
      | [b] \<Rightarrow> Inr b
      | b # bs \<Rightarrow>
          if \<not> list_all (\<lambda>x. length x = length b) bs then Inl (Error ''All input for XOR should be same size'')
          else Inr (map (\<lambda>i. foldl xor 0 (map (\<lambda>x. x ! i) bufferArray)) [0..<length b]))"

definition getRandomSeed :: "(bytes \<Rightarrow> bytes) \<Rightarrow> int \<Rightarrow> int \<Rightarrow> seedReveal list \<Rightarrow> err + bytes" where
  "getRandomSeed hash height numberOfSeeds validatorsReveal =
     (if height < 0 \<or> numberOfSeeds < 0 then Inl (Error ''Height or number of seeds cannot be negative.'')
      else rbind (uint32BE (height + numberOfSeeds)) (\<lambda>initRandomBuffer.
        if list_all (\<lambda>r. srHeight r < height) validatorsReveal then Inl (Error ''Height is in the future.'')
        else bitwiseXOR (take 16 (hash initRandomBuffer) #
          map srSeed (filter (\<lambda>r. srHeight r \<ge> height \<and> srHeight r < height + numberOfSeeds \<and> srValid r) validatorsReveal))))"

definition assetSeed :: "jsLib \<Rightarrow> blockAsset list \<Rightarrow> err + bytes" where
  "assetSeed lib assets = (case getAsset assets ''random'' of
     None \<Rightarrow> Inl (Error ''Random module asset must exist.'')
   | Some a \<Rightarrow> rbind (decode lib blockHeaderAssetRandomModule a) (\<lambda>ps. Inr (fieldBytes ps 0)))"

definition isSeedRevealValid :: "randomEnv \<Rightarrow> bytes \<Rightarrow> blockAsset list \<Rightarrow> (rctx, bool) m" where
  "isSeedRevealValid env generatorAddress assets =
     bind (storeGet (revealsSchema (raLib env)) selReveals []) (\<lambda>validatorReveals.
     bind (liftE (assetSeed (raLib env) assets)) (\<lambda>seed.
     ret (isSeedValidInput (raHash env) generatorAddress seed validatorReveals False)))"

definition getRandomBytes :: "randomEnv \<Rightarrow> int \<Rightarrow> int \<Rightarrow> (rctx, bytes) m" where
  "getRandomBytes env height numberOfSeeds =
     bind (storeGet (revealsSchema (raLib env)) selReveals []) (\<lambda>validatorReveals.
     liftE (getRandomSeed (raHash env) height numberOfSeeds validatorReveals))"

section \<open>Hooks\<close>

definition randomVerifyAssets :: "randomEnv \<Rightarrow> blockAsset list \<Rightarrow> (rctx, unit) m" where
  "randomVerifyAssets env assets =
     bind (liftE (assetSeed (raLib env) assets)) (\<lambda>seed.
     if length seed = SEED_LENGTH then ret () else throw (Error ''KlayrvalidationError''))"

definition randomInitGenesisState :: "randomEnv \<Rightarrow> (rctx, unit) m" where
  "randomInitGenesisState env = storeSet (revealsSchema (raLib env)) updReveals [] []"

definition randomAfterTransactionsExecute :: "randomEnv \<Rightarrow> blockHeader \<Rightarrow> blockAsset list \<Rightarrow> (rctx, unit) m" where
  "randomAfterTransactionsExecute env header assets =
     bind (liftE (assetSeed (raLib env) assets)) (\<lambda>seed.
     bind (storeGet (revealsSchema (raLib env)) selReveals []) (\<lambda>validatorReveals.
     let valid = isSeedValidInput (raHash env) (hGeneratorAddress header) seed validatorReveals True;
         nextReveals = (if length validatorReveals = maxLengthReveals env then drop 1 validatorReveals else validatorReveals) in
     storeSet (revealsSchema (raLib env)) updReveals []
       (nextReveals @ [\<lparr>srGenerator = hGeneratorAddress header, srSeed = seed, srHeight = hHeight header, srValid = valid\<rparr>])))"

section \<open>Choosing the seed of a block\<close>

text \<open>The used onion of greatest height below \<open>height\<close>, the first of several.\<close>

definition latestUsed :: "int \<Rightarrow> usedOnion list \<Rightarrow> usedOnion option" where
  "latestUsed height us = foldl (\<lambda>prev current.
     if uoHeight current < height \<and> (case prev of None \<Rightarrow> True | Some p \<Rightarrow> uoHeight p < uoHeight current)
     then Some current else prev) None us"

text \<open>\<open>hashes[i]\<close> outside of the list is \<open>undefined\<close>: it has no hash and is left out of an encoding.\<close>

definition hashAt :: "bytes list \<Rightarrow> int \<Rightarrow> bytes option" where
  "hashAt hs i = (if i < 0 \<or> int (length hs) \<le> i then None else Some (hs ! nat i))"

definition getNextHashOnion :: "(bytes \<Rightarrow> bytes) \<Rightarrow> bytes \<Rightarrow> onion option \<Rightarrow> usedOnion list \<Rightarrow> int \<Rightarrow> err + (int \<times> bytes option)" where
  "getNextHashOnion hash fresh stored usedHashOnions height =
     (case stored of None \<Rightarrow> Inr (0, Some fresh)
      | Some h \<Rightarrow> (case latestUsed height usedHashOnions of
          None \<Rightarrow> Inr (0, hashAt (onHashes h) 0)
        | Some used \<Rightarrow>
            let newCount = uoCount used + 1 in
            if newCount > onCount h then Inr (uoCount used, Some fresh)
            else let distanceAfterCheckpoint = newCount mod onDistance h in
            if distanceAfterCheckpoint = 0 then Inr (newCount, hashAt (onHashes h) (newCount div onDistance h))
            else let nextCheckpointIndex = - ((- newCount) div onDistance h) in
            (case hashAt (onHashes h) nextCheckpointIndex of
               None \<Rightarrow> Inl (Error ''TypeError'')
             | Some nextCheckpointHash \<Rightarrow>
                 rbind (hashOnion hash nextCheckpointHash (nat (onDistance h - distanceAfterCheckpoint)) 1) (\<lambda>hs.
                 Inr (newCount, Some (hd hs))))))"

primrec splitHighest :: "usedOnion list \<Rightarrow> usedOnion list \<Rightarrow> usedOnion option \<Rightarrow> usedOnion list \<times> usedOnion option" where
  "splitHighest [] others highest = (others, highest)"
| "splitHighest (c # cs) others highest =
     (case highest of None \<Rightarrow> splitHighest cs others (Some c)
      | Some h \<Rightarrow> if uoHeight h < uoHeight c then splitHighest cs (others @ [h]) (Some c)
                  else splitHighest cs (others @ [c]) (Some h))"

definition filterUsedHashOnions :: "usedOnion list \<Rightarrow> int \<Rightarrow> usedOnion list" where
  "filterUsedHashOnions us finalizedHeight =
     (let (others, highest) = splitHighest us [] None in
      filter (\<lambda>h. uoHeight h > finalizedHeight) others @ (case highest of None \<Rightarrow> [] | Some h \<Rightarrow> [h]))"

definition setLatest :: "int \<Rightarrow> usedOnion \<Rightarrow> usedOnion list \<Rightarrow> usedOnion list" where
  "setLatest finalizedHeight used original =
     (case findIndex (\<lambda>h. uoCount h = uoCount used) original of
        None \<Rightarrow> if uoCount used = 0 then filterUsedHashOnions [used] finalizedHeight
                else filterUsedHashOnions (original @ [used]) finalizedHeight
      | Some i \<Rightarrow> filterUsedHashOnions (original[i := used]) finalizedHeight)"

definition getUsed :: "randomEnv \<Rightarrow> bytes \<Rightarrow> (offchain, usedOnion list) m" where
  "getUsed env address = tryCatch (storeGet (usedSchema (raLib env)) ofUsed address)
     (\<lambda>e. if e = NotFoundError then ret [] else throw e)"

definition getHashOnion :: "randomEnv \<Rightarrow> bytes \<Rightarrow> (offchain, onion option) m" where
  "getHashOnion env address = tryCatch (bind (storeGet (onionSchema (raLib env)) ofOnions address) (\<lambda>h. ret (Some h)))
     (\<lambda>e. if e = NotFoundError then ret None else throw e)"

text \<open>The assets of the block that is generated are the result.\<close>

definition randomInsertAssets :: "randomEnv \<Rightarrow> bytes \<Rightarrow> blockHeader \<Rightarrow> int \<Rightarrow> blockAsset list \<Rightarrow> (offchain, blockAsset list) m" where
  "randomInsertAssets env fresh header finalizedHeight assets =
     (let address = hGeneratorAddress header in
      bind (getUsed env address) (\<lambda>usedHashOnions.
      bind (getHashOnion env address) (\<lambda>stored.
      bind (liftE (getNextHashOnion (raHash env) fresh stored usedHashOnions (hHeight header))) (\<lambda>(count, seed).
      bind (liftE (encode (raLib env) blockHeaderAssetRandomModule [map_option VBytes seed])) (\<lambda>bs.
      bind (liftE (setAsset ''random'' bs assets)) (\<lambda>assets'.
      andThen (storeSet (usedSchema (raLib env)) ofUsed_update address
        (setLatest finalizedHeight \<lparr>uoCount = count, uoHeight = hHeight header\<rparr> usedHashOnions))
      (ret assets')))))))"

end
