(* ===== verification/RandomTheorems.thy ===== *)
theory RandomTheorems
  imports RandomModule "HOL-Library.Multiset"
begin

text \<open>
  The properties of the random module: the seeds that a node takes from its hash onion are the
  successive layers of the onion, the chain accepts each of them as the preimage of the one before,
  and the random bytes of a window are the exclusive or of its valid reveals.
\<close>

section \<open>Layers of an onion\<close>

definition layer :: "(bytes \<Rightarrow> bytes) \<Rightarrow> bytes \<Rightarrow> nat \<Rightarrow> bytes" where
  "layer hash seed k = (nextHash hash ^^ k) seed"

lemma layer_simps [simp]: "layer hash seed 0 = seed" "layer hash seed (Suc k) = nextHash hash (layer hash seed k)"
  by (simp_all add: layer_def)

lemma layer_add: "layer hash (layer hash seed m) n = layer hash seed (n + m)"
  by (simp add: layer_def funpow_add)

lemma layer_first: "layer hash (nextHash hash p) r = layer hash p (Suc r)"
  using layer_add[of hash p 1 r] by simp

lemma onionLoop_skip:
  "(\<forall>j < r. (i + j) mod d \<noteq> 0) \<Longrightarrow> onionLoop hash d (r + k) i p = onionLoop hash d k (i + r) (layer hash p r)"
proof (induction r arbitrary: i p)
  case (Suc r)
  have "i mod d \<noteq> 0" "\<forall>j < r. (Suc i + j) mod d \<noteq> 0" using Suc.prems by (auto dest: spec[of _ 0] spec[of _ "Suc _"])
  then show ?case using Suc.IH[of "Suc i" "nextHash hash p"] by (simp add: Let_def layer_first)
qed simp

lemma onionLoop_round:
  assumes "0 < d"
  shows "onionLoop hash d (d + k) (c * d + 1) p = layer hash p d # onionLoop hash d k (Suc c * d + 1) (layer hash p d)"
proof -
  obtain e where d: "d = Suc e" using assms by (cases d) auto
  have "\<forall>j < e. (c * d + 1 + j) mod d \<noteq> 0"
  proof (intro allI impI)
    fix j assume "j < e"
    then show "(c * d + 1 + j) mod d \<noteq> 0" using d mod_mult_self3[of c d "1 + j"] by (simp add: add.assoc)
  qed
  from onionLoop_skip[OF this, where k = "Suc k" and hash = hash and p = p]
  have s: "onionLoop hash d (e + Suc k) (c * d + 1) p = onionLoop hash d (Suc k) (c * d + 1 + e) (layer hash p e)" .
  have i: "c * d + 1 + e = Suc c * d" using d by simp
  have "(Suc c * d) mod d = 0" by simp
  with s show ?thesis unfolding i using d by (simp add: Let_def del: mult_Suc)
qed

lemma onionLoop_checkpoints:
  assumes "0 < d"
  shows "onionLoop hash d (q * d) (c * d + 1) p = map (\<lambda>j. layer hash p (Suc j * d)) [0..<q]"
proof (induction q arbitrary: c p)
  case (Suc q)
  have "onionLoop hash d (Suc q * d) (c * d + 1) p = layer hash p d # map (\<lambda>j. layer hash (layer hash p d) (Suc j * d)) [0..<q]"
    using onionLoop_round[OF assms, of hash "q * d" c p] Suc.IH[of "Suc c" "layer hash p d"] by simp
  also have "\<dots> = map (\<lambda>j. layer hash p (Suc j * d)) (0 # map Suc [0..<q])" by (simp add: layer_add algebra_simps)
  finally show ?case by (simp add: upt_conv_Cons map_Suc_upt del: upt_Suc)
qed simp

lemma hashOnion_layers:
  assumes "hashOnion hash seed cnt d = Inr hashes"
  shows "0 < d" "cnt mod d = 0" "length hashes = Suc (cnt div d)"
    "\<And>c. c \<le> cnt div d \<Longrightarrow> hashes ! c = layer hash seed (cnt - c * d)"
proof -
  show d: "0 < d" "cnt mod d = 0" using assms by (auto simp: hashOnion_def split: if_splits)
  define q where "q = cnt div d"
  have cnt: "cnt = q * d" using d(2) div_mult_mod_eq[of cnt d] by (simp add: q_def)
  have "hashes = rev (seed # onionLoop hash d (q * d) (0 * d + 1) seed)" using assms cnt by (simp add: hashOnion_def split: if_splits)
  also have "seed # onionLoop hash d (q * d) (0 * d + 1) seed = map (\<lambda>j. layer hash seed (j * d)) (0 # map Suc [0..<q])"
    unfolding onionLoop_checkpoints[OF d(1)] by simp
  also have "0 # map Suc [0..<q] = [0..<Suc q]" by (simp add: upt_conv_Cons map_Suc_upt del: upt_Suc)
  finally have h: "hashes = rev (map (\<lambda>j. layer hash seed (j * d)) [0..<Suc q])" .
  then show "length hashes = Suc (cnt div d)" by (simp add: q_def)
  show "hashes ! c = layer hash seed (cnt - c * d)" if "c \<le> cnt div d" for c
  proof -
    have "c \<le> q" using that by (simp add: q_def)
    then show ?thesis using nth_upt[of 0 "q - c" "Suc q"] unfolding h by (simp add: rev_nth cnt diff_mult_distrib del: upt_Suc)
  qed
qed

lemma hashOnion_single:
  assumes "0 < k"
  shows "\<exists>hs. hashOnion hash p k 1 = Inr hs \<and> hd hs = layer hash p k"
proof -
  obtain hs where hs: "hashOnion hash p k 1 = Inr hs" using assms by (simp add: hashOnion_def)
  from hashOnion_layers(3)[OF hs] hashOnion_layers(4)[OF hs, of 0] show ?thesis using hs by (cases hs) simp_all
qed

section \<open>The chosen seed\<close>

definition onionFor :: "(bytes \<Rightarrow> bytes) \<Rightarrow> bytes \<Rightarrow> nat \<Rightarrow> nat \<Rightarrow> onion \<Rightarrow> bool" where
  "onionFor hash seed cnt d h = (hashOnion hash seed cnt d = Inr (onHashes h) \<and> onCount h = int cnt \<and> onDistance h = int d)"

lemma ceil_index:
  fixes n d :: nat
  assumes "0 < d" "n mod d \<noteq> 0"
  shows "- ((- int n) div int d) = int (Suc (n div d))" "d - n mod d + n = Suc (n div d) * d"
proof -
  have "n mod d < d" using assms by simp
  then show e: "d - n mod d + n = Suc (n div d) * d" using div_mult_mod_eq[of n d] unfolding mult_Suc by linarith
  have "int (d - n mod d) + int n = int (Suc (n div d)) * int d" by (metis e of_nat_add of_nat_mult)
  then have "- int n = - int (Suc (n div d)) * int d + int (d - n mod d)" by (simp only: mult_minus_left)
  moreover have "0 \<le> int (d - n mod d)" "int (d - n mod d) < int d" using assms by auto
  ultimately have "(- int n) div int d = - int (Suc (n div d))" using assms(1)
    by (metis div_mult_self3 add.commute div_pos_pos_trivial add_0_right of_nat_0_less_iff less_irrefl add.right_neutral)
  then show "- ((- int n) div int d) = int (Suc (n div d))" by simp
qed

lemma next_layer:
  assumes "onionFor hash seed cnt d h" "latestUsed height us = Some u" "uoCount u = int n" "n < cnt"
  shows "getNextHashOnion hash fresh (Some h) us height = Inr (int (Suc n), Some (layer hash seed (cnt - Suc n)))"
proof -
  let ?c = "Suc n"
  have ho: "hashOnion hash seed cnt d = Inr (onHashes h)" and h: "onCount h = int cnt" "onDistance h = int d"
    using assms(1) by (auto simp: onionFor_def)
  note L = hashOnion_layers[OF ho]
  have m: "int ?c mod int d = int (?c mod d)" by (simp only: zmod_int)
  have at: "hashAt (onHashes h) (int c) = Some (layer hash seed (cnt - c * d))" if "c \<le> cnt div d" for c
    using that L(3,4) by (simp add: hashAt_def)
  have u: "uoCount u + 1 = int ?c" using assms(3) by simp
  show ?thesis
  proof (cases "?c mod d = 0")
    case True
    have "?c div d \<le> cnt div d" using assms(4) by (intro div_le_mono) simp
    moreover have "?c div d * d = ?c" using True by (metis add.right_neutral div_mult_mod_eq)
    ultimately have "hashAt (onHashes h) (int ?c div int d) = Some (layer hash seed (cnt - ?c))"
      using at[of "?c div d"] by (simp add: zdiv_int)
    then show ?thesis unfolding getNextHashOnion_def assms(2) option.case h u Let_def m using True assms(4) by simp
  next
    case False
    note ci = ceil_index[OF L(1) False]
    let ?x = "Suc (?c div d)"
    have "?c div d < cnt div d"
    proof (rule ccontr)
      assume "\<not> ?c div d < cnt div d"
      then have "?c div d = cnt div d" using div_le_mono[of ?c cnt d] assms(4) by simp
      then have "cnt \<le> ?c div d * d" using L(2) by (metis add.right_neutral div_mult_mod_eq order_refl)
      also have "\<dots> < ?c" using False div_mult_mod_eq[of ?c d] by linarith
      finally show False using assms(4) by simp
    qed
    then have x: "hashAt (onHashes h) (int ?x) = Some (layer hash seed (cnt - ?x * d))" using at[of ?x] by simp
    have k: "nat (int d - int (?c mod d)) = d - ?c mod d" "0 < d - ?c mod d" using L(1) by (auto simp: nat_diff_distrib')
    obtain hs where hs: "hashOnion hash (layer hash seed (cnt - ?x * d)) (d - ?c mod d) 1 = Inr hs"
      "hd hs = layer hash (layer hash seed (cnt - ?x * d)) (d - ?c mod d)" using hashOnion_single[OF k(2)] by blast
    have "?x * d \<le> cnt"
      using \<open>?c div d < cnt div d\<close> by (metis Suc_leI div_times_less_eq_dividend mult_le_mono1 order_trans)
    then have "d - ?c mod d + (cnt - ?x * d) = cnt - ?c" using ci(2) by linarith
    with hs have "hd hs = layer hash seed (cnt - ?c)" by (simp add: layer_add)
    moreover have "\<not> int cnt < int ?c" "int (?c mod d) \<noteq> 0" using assms(4) False by auto
    ultimately show ?thesis
      unfolding getNextHashOnion_def assms(2) option.case h u Let_def m ci(1) x k(1) hs(1) rbind_simps by simp
  qed
qed

section \<open>Values are read back\<close>

lemma randomSchemaOk: "schemaOk seedRevealSchema" "schemaOk hashOnionStoreSchema" "schemaOk usedHashOnionsStoreSchema" "schemaOk blockHeaderAssetRandomModule"
  by code_simp+

lemma revealOf_val [simp]: "revealOf (revealVal r) = r"
  by (simp add: revealOf_def revealVal_def valFields_def fieldBytes_def fieldInt_def fieldBool_def Let_def)

lemma usedOf_val [simp]: "usedOf (usedVal u) = u"
  by (simp add: usedOf_def usedVal_def valFields_def fieldInt_def Let_def)

lemma reveals_dec_enc:
  assumes "list_all (\<lambda>r. 0 \<le> srHeight r) rs" "enc (revealsSchema lib) rs = Inr bs"
  shows "dec (revealsSchema lib) bs = Inr rs"
proof -
  have "lowConf lib seedRevealSchema [Some (VArr (map revealVal rs))]" using assms(1)
    by (simp add: seedRevealSchema_def list_all_iff revealVal_def)
  then show ?thesis using encode_reads[OF randomSchemaOk(1)] assms(2) by (simp add: revealsSchema_def fieldArray_def o_def)
qed

definition usedLow :: "usedOnion \<Rightarrow> bool" where "usedLow u = (0 \<le> uoCount u \<and> 0 \<le> uoHeight u)"

lemma used_dec_enc:
  assumes "list_all usedLow us" "enc (usedSchema lib) us = Inr bs"
  shows "dec (usedSchema lib) bs = Inr us"
proof -
  have "lowConf lib usedHashOnionsStoreSchema [Some (VArr (map usedVal us))]" using assms(1)
    by (simp add: usedHashOnionsStoreSchema_def list_all_iff usedVal_def usedLow_def)
  then show ?thesis using encode_reads[OF randomSchemaOk(3)] assms(2) by (simp add: usedSchema_def fieldArray_def o_def)
qed

lemma asset_dec_enc:
  "encode lib blockHeaderAssetRandomModule [Some (VBytes b)] = Inr bs \<Longrightarrow> decode lib blockHeaderAssetRandomModule bs = Inr [Some (VBytes b)]"
  by (rule encode_reads[OF randomSchemaOk(4)]) (simp_all add: blockHeaderAssetRandomModule_def)

interpretation reveals_schema: store_schema "revealsSchema lib" "list_all (\<lambda>r. 0 \<le> srHeight r)"
  by unfold_locales (rule reveals_dec_enc)

interpretation used_schema: store_schema "usedSchema lib" "list_all usedLow"
  by unfold_locales (rule used_dec_enc)

section \<open>The used onions\<close>

lemma splitHighest_mset:
  "\<exists>o1 m. splitHighest xs others (Some h) = (o1, Some m) \<and> mset o1 + {#m#} = mset xs + mset others + {#h#} \<and>
     uoHeight h \<le> uoHeight m \<and> (\<forall>x \<in> set xs. uoHeight x \<le> uoHeight m)"
proof (induction xs arbitrary: others h)
  case (Cons c cs)
  show ?case
  proof (cases "uoHeight h < uoHeight c")
    case True
    from Cons.IH[of "others @ [h]" c] True show ?thesis by (auto simp: ac_simps)
  next
    case False
    from Cons.IH[of "others @ [c]" h] False show ?thesis by (auto simp: ac_simps)
  qed
qed simp

lemma filter_newest:
  assumes "mset us = mset old + {#new#}" "\<forall>x \<in> set old. uoHeight x < uoHeight new"
  shows "\<exists>others. filterUsedHashOnions us fin = others @ [new] \<and> set others \<subseteq> set old"
proof -
  have us: "set us = insert new (set old)" using arg_cong[OF assms(1), of set_mset] by simp
  then obtain c cs where c: "us = c # cs" by (cases us) auto
  obtain o1 h where s: "splitHighest cs [] (Some c) = (o1, Some h)" and m: "mset o1 + {#h#} = mset us"
    "uoHeight c \<le> uoHeight h" "\<forall>x \<in> set cs. uoHeight x \<le> uoHeight h"
    using splitHighest_mset[of cs "[]" c] c by auto
  have "uoHeight new \<le> uoHeight h" using m(2,3) us c by auto
  moreover have "h \<in> set us" using arg_cong[OF m(1), of set_mset] by auto
  ultimately have "h = new" using assms(2) us by fastforce
  with m(1) assms(1) have "set o1 = set old" using mset_eq_setD[of o1 old] by simp
  then show ?thesis using s c \<open>h = new\<close> by (auto simp: filterUsedHashOnions_def)
qed

lemma setLatest_newest:
  assumes "\<forall>x \<in> set us. uoHeight x < uoHeight new"
  shows "\<exists>others. setLatest fin new us = others @ [new] \<and> set others \<subseteq> set us"
proof (cases "findIndex (\<lambda>h. uoCount h = uoCount new) us")
  case None
  have a: "\<exists>others. filterUsedHashOnions (us @ [new]) fin = others @ [new] \<and> set others \<subseteq> set us"
    by (rule filter_newest) (use assms in auto)
  have b: "\<exists>others. filterUsedHashOnions [new] fin = others @ [new] \<and> set others \<subseteq> set []"
    by (rule filter_newest) auto
  show ?thesis using None a b by (auto simp: setLatest_def)
next
  case (Some i)
  have i: "i < length us" using findIndex_Some[OF Some] by simp
  let ?old = "take i us @ drop (Suc i) us"
  have sub: "set ?old \<subseteq> set us" by (auto dest: in_set_takeD in_set_dropD)
  have "mset (us[i := new]) = mset ?old + {#new#}" using i by (simp add: upd_conv_take_nth_drop)
  from filter_newest[OF this] sub assms obtain others where
    "filterUsedHashOnions (us[i := new]) fin = others @ [new]" "set others \<subseteq> set ?old" by blast
  then show ?thesis using Some sub by (auto simp: setLatest_def)
qed

lemma latestUsed_snoc:
  assumes "\<forall>x \<in> set others. uoHeight x < uoHeight new" "uoHeight new < height"
  shows "latestUsed height (others @ [new]) = Some new"
proof -
  have "case foldl (\<lambda>prev current. if uoHeight current < height \<and> (case prev of None \<Rightarrow> True | Some p \<Rightarrow> uoHeight p < uoHeight current)
      then Some current else prev) None others of None \<Rightarrow> True | Some p \<Rightarrow> uoHeight p < uoHeight new"
    using assms(1) by (induction others rule: rev_induct) auto
  then show ?thesis using assms(2) by (simp add: latestUsed_def)
qed

section \<open>A node and its reveals\<close>

definition onionLow :: "onion \<Rightarrow> bool" where "onionLow h = (0 \<le> onCount h \<and> 0 \<le> onDistance h)"

text \<open>
  The node has an onion of \<open>cnt\<close> layers for the address, the last seed it used, at height \<open>k\<close>, is
  number \<open>n\<close>.
\<close>

definition usesOnion :: "randomEnv \<Rightarrow> bytes \<Rightarrow> nat \<Rightarrow> nat \<Rightarrow> bytes \<Rightarrow> offchain \<Rightarrow> nat \<Rightarrow> int \<Rightarrow> bool" where
  "usesOnion env seed cnt d address s n k = (\<exists>h others u.
     getHashOnion env address s = (Inr (Some h), s) \<and> onionFor (raHash env) seed cnt d h \<and>
     getUsed env address s = (Inr (others @ [u]), s) \<and> list_all usedLow (others @ [u]) \<and> (\<forall>x \<in> set others. uoHeight x < uoHeight u) \<and>
     uoHeight u = k \<and> uoCount u = int n)"

definition revealsAt :: "randomEnv \<Rightarrow> rctx \<Rightarrow> seedReveal list option" where
  "revealsAt env s = (case kvget (selReveals s) [] of None \<Rightarrow> None
     | Some bs \<Rightarrow> (case dec (revealsSchema (raLib env)) bs of Inl _ \<Rightarrow> None | Inr rs \<Rightarrow> Some rs))"

definition lastReveal :: "bytes \<Rightarrow> seedReveal list \<Rightarrow> seedReveal option" where
  "lastReveal address rs = find (\<lambda>r. srGenerator r = address) (rev rs)"

lemma getUsed_run: "kvget (ofUsed s) address = Some bs \<Longrightarrow> dec (usedSchema (raLib env)) bs = Inr us \<Longrightarrow> getUsed env address s = (Inr us, s)"
  by (simp add: getUsed_def tryCatch_def storeGet_def bind_def gets_def liftE_def)

lemma getHashOnion_frame: "getHashOnion env address (ofUsed_update f s) = (fst (getHashOnion env address s), ofUsed_update f (snd (getHashOnion env address s)))"
  by (auto simp: getHashOnion_def tryCatch_def storeGet_def bind_def gets_def throw_def liftE_def ret_def split: option.splits sum.splits if_splits)

lemma random_after:
  assumes "revealsAt env s = Some rs" "list_all (\<lambda>r. 0 \<le> srHeight r) rs" "0 \<le> hHeight header" "assetSeed (raLib env) assets = Inr b"
    "randomAfterTransactionsExecute env header assets s = (Inr (), s')"
  shows "revealsAt env s' = Some ((if length rs = maxLengthReveals env then drop 1 rs else rs) @
     [\<lparr>srGenerator = hGeneratorAddress header, srSeed = b, srHeight = hHeight header,
       srValid = isSeedValidInput (raHash env) (hGeneratorAddress header) b rs True\<rparr>])"
proof -
  define rs' where "rs' = (if length rs = maxLengthReveals env then drop 1 rs else rs) @
     [\<lparr>srGenerator = hGeneratorAddress header, srSeed = b, srHeight = hHeight header,
       srValid = isSeedValidInput (raHash env) (hGeneratorAddress header) b rs True\<rparr>]"
  have low: "list_all (\<lambda>r. 0 \<le> srHeight r) rs'" using assms(2,3) by (auto simp: rs'_def list_all_iff dest: in_set_dropD)
  obtain bs where bs: "kvget (selReveals s) [] = Some bs" "dec (revealsSchema (raLib env)) bs = Inr rs"
    using assms(1) by (auto simp: revealsAt_def split: option.splits sum.splits)
  have "wp (randomAfterTransactionsExecute env header assets) (\<lambda>_ t. revealsAt env t = Some rs') (\<lambda>_ _. True) s"
    unfolding randomAfterTransactionsExecute_def Let_def wp_bind wp_liftE wp_storeGet wp_storeSet assms(4) sum.case bs option.case rs'_def[symmetric]
    by (auto simp: revealsAt_def selReveals_def updReveals_def reveals_dec_enc[OF low] split: sum.split)
  from wp_success[OF this assms(5)] show ?thesis unfolding rs'_def .
qed

lemma find_snoc: "find P xs = None \<Longrightarrow> P x \<Longrightarrow> find P (xs @ [x]) = Some x"
  by (induction xs) (auto split: if_splits)

lemma random_insert:
  assumes u: "usesOnion env seed cnt d (hGeneratorAddress header) s n k" and k: "k < hHeight header" "0 \<le> k" and n: "n < cnt"
    and run: "randomInsertAssets env fresh header fin assets s = (Inr assets', s')"
  shows "assetSeed (raLib env) assets' = Inr (layer (raHash env) seed (cnt - Suc n))"
    "usesOnion env seed cnt d (hGeneratorAddress header) s' (Suc n) (hHeight header)"
proof -
  let ?a = "hGeneratorAddress header" and ?new = "\<lparr>uoCount = int (Suc n), uoHeight = hHeight header\<rparr>"
  obtain h others w where h: "getHashOnion env ?a s = (Inr (Some h), s)" "onionFor (raHash env) seed cnt d h"
    "getUsed env ?a s = (Inr (others @ [w]), s)" and w: "list_all usedLow (others @ [w])" "\<forall>x \<in> set others. uoHeight x < uoHeight w"
    "uoHeight w = k" "uoCount w = int n" using u unfolding usesOnion_def by blast
  have "latestUsed (hHeight header) (others @ [w]) = Some w" by (rule latestUsed_snoc) (use w k in auto)
  note g = next_layer[OF h(2) this w(4) n, of fresh]
  obtain others' where o: "setLatest fin ?new (others @ [w]) = others' @ [?new]" "set others' \<subseteq> set (others @ [w])"
    using setLatest_newest[of "others @ [w]" ?new fin] w k by force
  have low: "list_all usedLow (others' @ [?new])" using o(2) w(1) k by (auto simp: list_all_iff usedLow_def)
  have below: "\<forall>x \<in> set others'. uoHeight x < hHeight header" using o(2) w k by fastforce
  from run obtain bs us where e: "encode (raLib env) blockHeaderAssetRandomModule [Some (VBytes (layer (raHash env) seed (cnt - Suc n)))] = Inr bs"
    "setAsset ''random'' bs assets = Inr assets'" "enc (usedSchema (raLib env)) (others' @ [?new]) = Inr us" "s' = ofUsed_update (kvset ?a us) s"
    by (auto simp: randomInsertAssets_def Let_def bind_def andThen_def h g o(1) liftE_def ret_def storeSet_def modify_def simp del: of_nat_Suc split: sum.splits)
  from e(2) have "getAsset assets' ''random'' = Some bs"
    by (auto simp: setAsset_def getAsset_def find_snoc split: if_splits)
  then show "assetSeed (raLib env) assets' = Inr (layer (raHash env) seed (cnt - Suc n))"
    using asset_dec_enc[OF e(1)] by (simp add: assetSeed_def fieldBytes_def)
  have "getUsed env ?a s' = (Inr (others' @ [?new]), s')" by (rule getUsed_run[OF _ used_dec_enc[OF low e(3)]]) (simp add: e(4))
  moreover have "getHashOnion env ?a s' = (Inr (Some h), s')" using h(1) by (simp add: e(4) getHashOnion_frame)
  ultimately show "usesOnion env seed cnt d ?a s' (Suc n) (hHeight header)"
    unfolding usesOnion_def using h(2) low below by fastforce
qed

section \<open>Properties\<close>

text \<open>
  C8: reveals from a hash onion are accepted. Let a node have a hash onion of \<open>cnt\<close> hashes over \<open>seed\<close> for the
  generator address (\<open>hashOnion\<close>, of which only every \<open>d\<close>-th hash is stored), let the last seed it used be number
  \<open>n < cnt\<close>, and let the last reveal of that address on the chain be this seed, layer \<open>cnt - n\<close>. When it generates
  the next block (\<open>insertAssets\<close>) and the block is executed (\<open>afterTransactionsExecute\<close>), then the seed of the block is
  layer \<open>cnt - n - 1\<close>, computed from the next stored checkpoint, the chain records it as valid, and the same
  holds again with \<open>n + 1\<close>, so that this repeats until the onion is used up. The list of reveals stays within
  \<open>maxLengthReveals\<close>.
\<close>

theorem onion_reveals_accepted:
  assumes "usesOnion env seed cnt d (hGeneratorAddress header) s n k" "k < hHeight header" "0 \<le> k" "n < cnt"
    and "revealsAt env c = Some rs" "list_all (\<lambda>r. 0 \<le> srHeight r) rs" "length rs \<le> maxLengthReveals env"
    and "lastReveal (hGeneratorAddress header) rs = Some r" "srSeed r = layer (raHash env) seed (cnt - n)"
    and "randomInsertAssets env fresh header fin assets s = (Inr assets', s')"
    and "randomAfterTransactionsExecute env header assets' c = (Inr (), c')"
  shows "usesOnion env seed cnt d (hGeneratorAddress header) s' (Suc n) (hHeight header) \<and>
    (\<exists>rs' r'. revealsAt env c' = Some rs' \<and> length rs' \<le> maxLengthReveals env \<and> lastReveal (hGeneratorAddress header) rs' = Some r' \<and>
       srSeed r' = layer (raHash env) seed (cnt - Suc n) \<and> srHeight r' = hHeight header \<and> srValid r')"
proof -
  note i = random_insert[OF assms(1-4,10)]
  have rs: "rs \<noteq> []" using assms(8) by (auto simp: lastReveal_def)
  have "cnt - n = Suc (cnt - Suc n)" using assms(4) by simp
  then have v: "isSeedValidInput (raHash env) (hGeneratorAddress header) (layer (raHash env) seed (cnt - Suc n)) rs True"
    using assms(8,9) by (simp add: isSeedValidInput_def lastReveal_def nextHash_def SEED_LENGTH_def HASH_SIZE_def)
  have h: "0 \<le> hHeight header" using assms(2,3) by simp
  note a = random_after[OF assms(5,6) h i(1) assms(11)]
  have "0 < length rs" using rs by simp
  then have "length rs = maxLengthReveals env \<Longrightarrow> 0 < maxLengthReveals env" by simp
  then show ?thesis using i(2) a v assms(7) rs by (auto simp: lastReveal_def)
qed

definition rdEnv :: randomEnv where
  "rdEnv = \<lparr>raLib = asciiLib, raHash = (\<lambda>b. replicate 32 (hd b + 1)), maxLengthReveals = 2\<rparr>"

definition rdAddress :: bytes where "rdAddress = replicate 20 7"
definition rdOnion :: onion where "rdOnion = \<lparr>onCount = 2, onDistance = 2, onHashes = [replicate 16 2, replicate 16 0]\<rparr>"

definition encoded :: "err + bytes \<Rightarrow> bytes" where "encoded r = (case r of Inl _ \<Rightarrow> [] | Inr b \<Rightarrow> b)"

definition rdOff :: offchain where
  "rdOff = \<lparr>ofOnions = [(rdAddress, encoded (enc (onionSchema asciiLib) rdOnion))],
     ofUsed = [(rdAddress, encoded (enc (usedSchema asciiLib) [\<lparr>uoCount = 0, uoHeight = 5\<rparr>]))]\<rparr>"

definition rdReveals :: "seedReveal list" where
  "rdReveals = [\<lparr>srGenerator = replicate 20 9, srSeed = replicate 16 3, srHeight = 4, srValid = False\<rparr>,
     \<lparr>srGenerator = rdAddress, srSeed = replicate 16 2, srHeight = 5, srValid = False\<rparr>]"

definition rdCtx :: rctx where
  "rdCtx = \<lparr>cHeight = 6, cTopics = [], cEvents = [], cStore = (\<lambda>_. None), sState = [([], encoded (enc (revealsSchema asciiLib) rdReveals))], sNext = None\<rparr>"

definition rdHeader :: blockHeader where "rdHeader = exHeader\<lparr>hHeight := 6, hGeneratorAddress := rdAddress\<rparr>"

lemma rd_start:
  "usesOnion rdEnv (replicate 16 0) 2 2 rdAddress rdOff 0 5"
proof -
  have "getHashOnion rdEnv rdAddress rdOff = (Inr (Some rdOnion), rdOff)" "getUsed rdEnv rdAddress rdOff = (Inr [\<lparr>uoCount = 0, uoHeight = 5\<rparr>], rdOff)"
    by code_simp+
  moreover have "onionFor (raHash rdEnv) (replicate 16 0) 2 2 rdOnion" by code_simp
  ultimately show ?thesis unfolding usesOnion_def by (intro exI[of _ rdOnion] exI[of _ "[]"] exI[of _ "\<lparr>uoCount = 0, uoHeight = 5\<rparr>"]) (simp add: usedLow_def)
qed

lemma rd_runs:
  "case randomInsertAssets rdEnv (replicate 16 8) rdHeader 0 [] rdOff of (Inr a, _) \<Rightarrow> fst (randomAfterTransactionsExecute rdEnv rdHeader a rdCtx) = Inr () | _ \<Rightarrow> False"
  "revealsAt rdEnv rdCtx = Some rdReveals"
  by code_simp+

theorem onion_reveals_accepted_witness:
  "\<exists>a s' c' rs r. randomInsertAssets rdEnv (replicate 16 8) rdHeader 0 [] rdOff = (Inr a, s') \<and>
     randomAfterTransactionsExecute rdEnv rdHeader a rdCtx = (Inr (), c') \<and> revealsAt rdEnv c' = Some rs \<and>
     lastReveal rdAddress rs = Some r \<and> srSeed r = replicate 16 1 \<and> srValid r"
proof -
  obtain a s' c' where r: "randomInsertAssets rdEnv (replicate 16 8) rdHeader 0 [] rdOff = (Inr a, s')"
    "randomAfterTransactionsExecute rdEnv rdHeader a rdCtx = (Inr (), c')"
    using rd_runs(1) by (auto split: prod.splits sum.splits) (metis prod.collapse)
  have h: "hGeneratorAddress rdHeader = rdAddress" "5 < hHeight rdHeader" by (simp_all add: rdHeader_def)
  have f: "list_all (\<lambda>r. 0 \<le> srHeight r) rdReveals" "length rdReveals \<le> maxLengthReveals rdEnv"
    "lastReveal (hGeneratorAddress rdHeader) rdReveals = Some (rdReveals ! 1)" "srSeed (rdReveals ! 1) = layer (raHash rdEnv) (replicate 16 0) (2 - 0)"
    by code_simp+
  have l: "layer (raHash rdEnv) (replicate 16 0) (2 - Suc 0) = replicate 16 1" by code_simp
  show ?thesis
    using onion_reveals_accepted[OF rd_start[folded h(1)] h(2) _ _ rd_runs(2) f r] r l h(1) by auto
qed

end
