(* ===== verification/FixedPoint.thy ===== *)
theory FixedPoint
  imports Block
begin

text \<open>
  The fixed-point numbers of \<open>elements/utils/src/math/q.ts\<close>: an integer and the number of its
  fractional bits. \<open>q96\<close> has 96 of them. Values are made from integers and from the
  big-endian bytes in which the PoS module stores them; \<open>fromValue\<close> of a number with a
  fraction is not used by the modules and not modelled.
\<close>

section \<open>Big-endian integers\<close>

definition beInt :: "bytes \<Rightarrow> int" where
  "beInt bs = foldl (\<lambda>acc b. acc * 256 + uint b) 0 bs"

text \<open>\<open>_bigintToHex\<close> and \<open>Buffer.from(hex)\<close>; the values of the modules are never negative.\<close>

fun intBE :: "int \<Rightarrow> bytes" where
  "intBE n = (if n \<le> 0 then [] else intBE (n div 256) @ [word_of_int n])"

declare intBE.simps [simp del]

section \<open>Operations\<close>

record q =
  qVal :: int
  qBase :: nat

definition qFromInt :: "int \<Rightarrow> nat \<Rightarrow> q" where
  "qFromInt v base = \<lparr>qVal = v * 2 ^ base, qBase = base\<rparr>"

definition qFromBuffer :: "bytes \<Rightarrow> nat \<Rightarrow> q" where
  "qFromBuffer v base = (if v = [] then \<lparr>qVal = 0, qBase = base\<rparr> else \<lparr>qVal = beInt v, qBase = base\<rparr>)"

definition checkBase :: "q \<Rightarrow> q \<Rightarrow> err + unit" where
  "checkBase a n = (if qBase a \<noteq> qBase n then Inl (Error ''Invalid input, base does not match.'') else Inr ())"

definition roundDown :: "nat \<Rightarrow> int \<Rightarrow> int" where
  "roundDown base n = drop_bit base n"

definition roundUp :: "nat \<Rightarrow> int \<Rightarrow> int" where
  "roundUp base n = (let result = drop_bit base n in if n mod push_bit base 1 = 0 then result else result + 1)"

definition qAdd :: "q \<Rightarrow> q \<Rightarrow> err + q" where
  "qAdd a n = rbind (checkBase a n) (\<lambda>_. Inr \<lparr>qVal = qVal a + qVal n, qBase = qBase a\<rparr>)"

definition qSub :: "q \<Rightarrow> q \<Rightarrow> err + q" where
  "qSub a n = rbind (checkBase a n) (\<lambda>_.
     if qVal a < qVal n then Inl (Error ''Invalid input, output cannot be negative.'')
     else Inr \<lparr>qVal = qVal a - qVal n, qBase = qBase a\<rparr>)"

definition qMul :: "q \<Rightarrow> q \<Rightarrow> err + q" where
  "qMul a n = rbind (checkBase a n) (\<lambda>_. Inr \<lparr>qVal = drop_bit (qBase a) (qVal a * qVal n), qBase = qBase a\<rparr>)"

text \<open>The quotient of two bigints is truncated; the operands of the modules are not negative, where this is \<open>div\<close>.\<close>

definition qDiv :: "q \<Rightarrow> q \<Rightarrow> err + q" where
  "qDiv a n = rbind (checkBase a n) (\<lambda>_.
     if qVal n = 0 then Inl (Error ''Cannot be divided by zero.'')
     else Inr \<lparr>qVal = push_bit (qBase a) (qVal a) div qVal n, qBase = qBase a\<rparr>)"

definition qMulDiv :: "q \<Rightarrow> q \<Rightarrow> q \<Rightarrow> err + q" where
  "qMulDiv a n mm = rbind (checkBase a n) (\<lambda>_. rbind (checkBase a mm) (\<lambda>_.
     if qVal mm = 0 then Inl (Error ''Cannot be divided by zero.'')
     else Inr \<lparr>qVal = roundDown (qBase a) (push_bit (qBase a) (qVal a * qVal n) div qVal mm), qBase = qBase a\<rparr>))"

definition qToBuffer :: "q \<Rightarrow> bytes" where
  "qToBuffer a = intBE (qVal a)"

definition qFloor :: "q \<Rightarrow> int" where "qFloor a = roundDown (qBase a) (qVal a)"
definition qCeil :: "q \<Rightarrow> int" where "qCeil a = roundUp (qBase a) (qVal a)"

definition q96 :: "int \<Rightarrow> q" where "q96 v = qFromInt v 96"
definition q96Buffer :: "bytes \<Rightarrow> q" where "q96Buffer v = qFromBuffer v 96"

section \<open>Laws\<close>

lemma q_base [simp]: "qBase (qFromInt v b) = b" "qBase (qFromBuffer bs b) = b" "qVal (qFromInt v b) = v * 2 ^ b" "qVal (qFromBuffer bs b) = beInt bs"
  by (simp_all add: qFromInt_def qFromBuffer_def beInt_def)

lemma q96_simps [simp]: "qBase (q96 v) = 96" "qBase (q96Buffer bs) = 96" "qVal (q96 v) = v * 2 ^ 96" "qVal (q96Buffer bs) = beInt bs"
  by (simp_all add: q96_def q96Buffer_def)

lemma beInt_snoc [simp]: "beInt (bs @ [b]) = beInt bs * 256 + uint b"
  by (simp add: beInt_def)

lemma beInt_Nil [simp]: "beInt [] = 0"
  by (simp add: beInt_def)

lemma beInt_nonneg: "0 \<le> beInt bs"
  by (induction bs rule: rev_induct) auto

lemma beInt_zeros [simp]: "beInt (replicate n 0) = 0"
  by (induction n) (auto simp: replicate_append_same[symmetric])

lemma beInt_intBE [simp]: "0 \<le> n \<Longrightarrow> beInt (intBE n) = n"
proof (induction n rule: intBE.induct)
  case (1 n)
  show ?case
  proof (cases "n = 0")
    case False
    then have "beInt (intBE (n div 256)) = n div 256" using 1 by simp
    moreover have "uint (word_of_int n :: byte) = n mod 256" by (simp add: uint_word_of_int)
    ultimately show ?thesis using 1(2) False by (simp add: intBE.simps[of n])
  qed (simp add: intBE.simps[of 0])
qed

lemma roundDown_div: "roundDown b n = n div 2 ^ b"
  by (simp add: roundDown_def drop_bit_eq_div)

lemma roundUp_div: "roundUp b n = - ((- n) div 2 ^ b)"
proof -
  have "- ((- n) div d) = (if n mod d = 0 then n div d else n div d + 1)" if "0 < d" for d :: int
    using that zdiv_zminus1_eq_if[of d n] by auto
  then show ?thesis by (simp add: roundUp_def Let_def drop_bit_eq_div push_bit_eq_mult)
qed

lemma roundUp_bounds: "n \<le> roundUp b n * 2 ^ b" "roundUp b n * 2 ^ b < n + 2 ^ b"
proof -
  define m where "m = - n"
  have r: "roundUp b n = - (m div 2 ^ b)" by (simp add: roundUp_div m_def)
  have "(m div 2 ^ b) * 2 ^ b + m mod 2 ^ b = m" "0 \<le> m mod 2 ^ b" "m mod 2 ^ b < 2 ^ b"
    by (rule div_mult_mod_eq) simp_all
  then show "n \<le> roundUp b n * 2 ^ b" "roundUp b n * 2 ^ b < n + 2 ^ b" unfolding r mult_minus_left using m_def by linarith+
qed

lemma qMulDiv_val:
  assumes "qBase a = qBase n" "qBase a = qBase mm" "0 < qVal mm"
  shows "qMulDiv a n mm = Inr \<lparr>qVal = qVal a * qVal n div qVal mm, qBase = qBase a\<rparr>"
  using assms by (simp add: qMulDiv_def checkBase_def roundDown_div push_bit_eq_mult zdiv_zmult2_eq[symmetric] mult.commute[of "qVal mm"] rbind_def)

end
