(* ===== verification/Pos.thy ===== *)
theory Pos
  imports TokenProps Validators FixedPoint BFT Auth RandomModule
begin

text \<open>
  The proof-of-stake module (\<open>framework/src/modules/pos\<close>), first part: its stores and utilities, the
  commands, the internal and the public method. The rounds are in theory \<open>PosRounds\<close>.

  The context extends the one of the token module, so that its methods run on it directly; the
  stores of the validators and the random module are components, \<open>viaValidators\<close> and \<open>viaRandom\<close> run the
  methods of these modules on them.
\<close>

section \<open>Configuration\<close>

definition FACTOR_SELF_STAKES :: int where "FACTOR_SELF_STAKES = 10"
definition MAX_NUMBER_SENT_STAKES :: nat where "MAX_NUMBER_SENT_STAKES = 10"
definition MAX_NUMBER_BYTES_Q96 :: nat where "MAX_NUMBER_BYTES_Q96 = 24"
definition MODULE_NAME_POS :: string where "MODULE_NAME_POS = ''pos''"
definition COMMISSION :: int where "COMMISSION = 10000"
definition MAX_COMMISSION :: int where "MAX_COMMISSION = 10000"

datatype posEventResult =
    STAKE_SUCCESSFUL | STAKE_FAILED_NON_REGISTERED_VALIDATOR | STAKE_FAILED_INVALID_UNSTAKE_PARAMETERS
  | STAKE_FAILED_TOO_MANY_PENDING_UNLOCKS | STAKE_FAILED_TOO_MANY_SENT_STAKES

primrec posResultCode :: "posEventResult \<Rightarrow> int" where
  "posResultCode STAKE_SUCCESSFUL = 0"
| "posResultCode STAKE_FAILED_NON_REGISTERED_VALIDATOR = 1"
| "posResultCode STAKE_FAILED_INVALID_UNSTAKE_PARAMETERS = 2"
| "posResultCode STAKE_FAILED_TOO_MANY_PENDING_UNLOCKS = 3"
| "posResultCode STAKE_FAILED_TOO_MANY_SENT_STAKES = 4"

record posConfig =
  pcToken :: tokenConfig
  pcValidators :: validatorsEnv
  pcRandom :: randomEnv
  pcChainID :: bytes
  pcHash :: "bytes \<Rightarrow> bytes"
  pcVerifySignature :: "string \<Rightarrow> bytes \<Rightarrow> bytes \<Rightarrow> bytes \<Rightarrow> bytes \<Rightarrow> bool"
  posTokenID :: bytes
  factorSelfStakes :: int
  maxLengthName :: nat
  maxNumberSentStakes :: nat
  maxNumberPendingUnlocks :: nat
  failSafeMissedBlocks :: int
  failSafeInactiveWindow :: int
  punishmentWindowStaking :: int
  punishmentWindowSelfStaking :: int
  roundLength :: int
  minWeightStandby :: int
  numberActiveValidators :: int
  numberStandbyValidators :: int
  validatorRegistrationFee :: int
  maxBFTWeightCap :: int
  commissionIncreasePeriod :: int
  maxCommissionIncreaseRate :: int
  useInvalidBLSKey :: bool
  baseStakeAmount :: int
  lockingPeriodStaking :: int
  lockingPeriodSelfStaking :: int
  reportMisbehaviorReward :: int
  reportMisbehaviorLimitBanned :: nat
  weightScaleFactor :: int

abbreviation pcLib :: "posConfig \<Rightarrow> jsLib" where "pcLib cfg \<equiv> jslib (pcToken cfg)"

section \<open>Data\<close>

record sharingCoefficient =
  scTokenID :: bytes
  scCoefficient :: bytes

record stakeObject =
  stValidator :: bytes
  stAmount :: int
  stCoefficients :: "sharingCoefficient list"

record unlockingObject =
  unValidator :: bytes
  unAmount :: int
  unHeight :: int

record stakerData =
  sdStakes :: "stakeObject list"
  sdUnlocks :: "unlockingObject list"

record validatorAccount =
  vdName :: string
  vdTotalStake :: int
  vdSelfStake :: int
  vdLastGeneratedHeight :: int
  vdBanned :: bool
  vdReports :: "int list"
  vdMissed :: int
  vdCommission :: int
  vdLastCommissionIncrease :: int
  vdCoefficients :: "sharingCoefficient list"

record genesisData =
  gdHeight :: int
  gdInitRounds :: int
  gdInitValidators :: "bytes list"

section \<open>Schemas\<close>

definition coefficientSchema :: "schemaProp list" where
  "coefficientSchema = [PScalar 1 BytesT, PScalar 2 BytesT]"

definition stakeSchema :: "schemaProp list" where
  "stakeSchema = [PScalar 1 BytesT, PScalar 2 UInt64T, PArrayObj 3 coefficientSchema]"

definition unlockSchema :: "schemaProp list" where
  "unlockSchema = [PScalar 1 BytesT, PScalar 2 UInt64T, PScalar 3 UInt32T]"

definition stakerStoreSchema :: "schemaProp list" where
  "stakerStoreSchema = [PArrayObj 1 stakeSchema, PArrayObj 2 unlockSchema]"

definition validatorStoreSchema :: "schemaProp list" where
  "validatorStoreSchema = [PScalar 1 StringT, PScalar 2 UInt64T, PScalar 3 UInt64T, PScalar 4 UInt32T, PScalar 5 BooleanT,
     PArray 6 UInt32T, PScalar 7 UInt32T, PScalar 8 UInt32T, PScalar 9 UInt32T, PArrayObj 10 coefficientSchema]"

definition genesisDataStoreSchema :: "schemaProp list" where
  "genesisDataStoreSchema = [PScalar 1 UInt32T, PScalar 2 UInt32T, PArray 3 BytesT]"

definition snapshotStoreSchema :: "schemaProp list" where
  "snapshotStoreSchema = [PArrayObj 1 [PScalar 1 BytesT, PScalar 2 UInt64T]]"

definition objFields :: "val \<Rightarrow> val option list" where
  "objFields v = (case v of VObj ps \<Rightarrow> ps | _ \<Rightarrow> [])"

definition coefficientVal :: "sharingCoefficient \<Rightarrow> val" where
  "coefficientVal c = VObj [Some (VBytes (scTokenID c)), Some (VBytes (scCoefficient c))]"

definition coefficientOf :: "val \<Rightarrow> sharingCoefficient" where
  "coefficientOf v = \<lparr>scTokenID = fieldBytes (objFields v) 0, scCoefficient = fieldBytes (objFields v) 1\<rparr>"

definition stakeVal :: "stakeObject \<Rightarrow> val" where
  "stakeVal s = VObj [Some (VBytes (stValidator s)), Some (VInt (stAmount s)), Some (VArr (map coefficientVal (stCoefficients s)))]"

definition stakeOf :: "val \<Rightarrow> stakeObject" where
  "stakeOf v = (let ps = objFields v in
     \<lparr>stValidator = fieldBytes ps 0, stAmount = fieldInt ps 1, stCoefficients = map coefficientOf (fieldArray ps 2)\<rparr>)"

definition unlockVal :: "unlockingObject \<Rightarrow> val" where
  "unlockVal u = VObj [Some (VBytes (unValidator u)), Some (VInt (unAmount u)), Some (VInt (unHeight u))]"

definition unlockOf :: "val \<Rightarrow> unlockingObject" where
  "unlockOf v = (let ps = objFields v in \<lparr>unValidator = fieldBytes ps 0, unAmount = fieldInt ps 1, unHeight = fieldInt ps 2\<rparr>)"

definition stakerVals :: "stakerData \<Rightarrow> val option list" where
  "stakerVals d = [Some (VArr (map stakeVal (sdStakes d))), Some (VArr (map unlockVal (sdUnlocks d)))]"

definition stakerOf :: "val option list \<Rightarrow> stakerData" where
  "stakerOf ps = \<lparr>sdStakes = map stakeOf (fieldArray ps 0), sdUnlocks = map unlockOf (fieldArray ps 1)\<rparr>"

definition valInt :: "val \<Rightarrow> int" where
  "valInt v = (case v of VInt n \<Rightarrow> n | _ \<Rightarrow> 0)"

definition accountVals :: "validatorAccount \<Rightarrow> val option list" where
  "accountVals v = [Some (VStr (vdName v)), Some (VInt (vdTotalStake v)), Some (VInt (vdSelfStake v)), Some (VInt (vdLastGeneratedHeight v)),
     Some (VBool (vdBanned v)), Some (VArr (map VInt (vdReports v))), Some (VInt (vdMissed v)), Some (VInt (vdCommission v)),
     Some (VInt (vdLastCommissionIncrease v)), Some (VArr (map coefficientVal (vdCoefficients v)))]"

definition accountOf :: "val option list \<Rightarrow> validatorAccount" where
  "accountOf ps = \<lparr>vdName = fieldString ps 0, vdTotalStake = fieldInt ps 1, vdSelfStake = fieldInt ps 2, vdLastGeneratedHeight = fieldInt ps 3,
     vdBanned = fieldBool ps 4, vdReports = map valInt (fieldArray ps 5), vdMissed = fieldInt ps 6, vdCommission = fieldInt ps 7,
     vdLastCommissionIncrease = fieldInt ps 8, vdCoefficients = map coefficientOf (fieldArray ps 9)\<rparr>"

definition stakerSchema :: "jsLib \<Rightarrow> stakerData storeSchema" where
  "stakerSchema lib = \<lparr>enc = (\<lambda>d. encode lib stakerStoreSchema (stakerVals d)),
     dec = (\<lambda>bs. rbind (decode lib stakerStoreSchema bs) (\<lambda>ps. Inr (stakerOf ps)))\<rparr>"

definition accountSchema :: "jsLib \<Rightarrow> validatorAccount storeSchema" where
  "accountSchema lib = \<lparr>enc = (\<lambda>v. encode lib validatorStoreSchema (accountVals v)),
     dec = (\<lambda>bs. rbind (decode lib validatorStoreSchema bs) (\<lambda>ps. Inr (accountOf ps)))\<rparr>"

text \<open>The names, by UTF-8 bytes, and their owners.\<close>

definition nameSchema :: "jsLib \<Rightarrow> bytes storeSchema" where
  "nameSchema lib = \<lparr>enc = (\<lambda>a. encode lib [PScalar 1 BytesT] [Some (VBytes a)]),
     dec = (\<lambda>bs. rbind (decode lib [PScalar 1 BytesT] bs) (\<lambda>ps. Inr (fieldBytes ps 0)))\<rparr>"

text \<open>The schema of the eligible validators (the last report height) and of the previous timestamp: one uint32.\<close>

definition heightSchema :: "jsLib \<Rightarrow> int storeSchema" where
  "heightSchema lib = \<lparr>enc = (\<lambda>n. encode lib [PScalar 1 UInt32T] [Some (VInt n)]),
     dec = (\<lambda>bs. rbind (decode lib [PScalar 1 UInt32T] bs) (\<lambda>ps. Inr (fieldInt ps 0)))\<rparr>"

definition genesisSchema :: "jsLib \<Rightarrow> genesisData storeSchema" where
  "genesisSchema lib = \<lparr>enc = (\<lambda>g. encode lib genesisDataStoreSchema
       [Some (VInt (gdHeight g)), Some (VInt (gdInitRounds g)), Some (VArr (map VBytes (gdInitValidators g)))]),
     dec = (\<lambda>bs. rbind (decode lib genesisDataStoreSchema bs) (\<lambda>ps. Inr \<lparr>gdHeight = fieldInt ps 0, gdInitRounds = fieldInt ps 1,
       gdInitValidators = map valBytes (fieldArray ps 2)\<rparr>))\<rparr>"

definition snapshotSchema :: "jsLib \<Rightarrow> (bytes \<times> int) list storeSchema" where
  "snapshotSchema lib = \<lparr>enc = (\<lambda>ws. encode lib snapshotStoreSchema [Some (VArr (map (\<lambda>w. VObj [Some (VBytes (fst w)), Some (VInt (snd w))]) ws))]),
     dec = (\<lambda>bs. rbind (decode lib snapshotStoreSchema bs) (\<lambda>ps. Inr (map (\<lambda>v. (fieldBytes (objFields v) 0, fieldInt (objFields v) 1)) (fieldArray ps 0))))\<rparr>"

section \<open>Context\<close>

record posCtx = tokenCtx +
  stakerStore :: "bytes kv"
  validatorStore :: "bytes kv"
  nameStore :: "bytes kv"
  snapshotStore :: "bytes kv"
  genesisStore :: "bytes kv"
  timestampStore :: "bytes kv"
  eligibleStore :: "bytes kv"
  validatorsState :: validatorsStores
  randomState :: "bytes kv"
  nextSet :: "nextValidators option"

definition validatorsCtx :: "posCtx \<Rightarrow> vctx" where
  "validatorsCtx s = \<lparr>cHeight = cHeight s, cTopics = cTopics s, cEvents = cEvents s, cStore = cStore s, sState = validatorsState s, sNext = nextSet s\<rparr>"

definition viaValidators :: "(vctx, 'a) m \<Rightarrow> (posCtx, 'a) m" where
  "viaValidators c s = (let (r, t) = c (validatorsCtx s) in
     (r, s\<lparr>cHeight := cHeight t, cTopics := cTopics t, cEvents := cEvents t, cStore := cStore t, validatorsState := sState t, nextSet := sNext t\<rparr>))"

definition randomCtx :: "posCtx \<Rightarrow> rctx" where
  "randomCtx s = \<lparr>cHeight = cHeight s, cTopics = cTopics s, cEvents = cEvents s, cStore = cStore s, sState = randomState s, sNext = nextSet s\<rparr>"

definition viaRandom :: "(rctx, 'a) m \<Rightarrow> (posCtx, 'a) m" where
  "viaRandom c s = (let (r, t) = c (randomCtx s) in
     (r, s\<lparr>cHeight := cHeight t, cTopics := cTopics t, cEvents := cEvents t, cStore := cStore t, randomState := sState t, nextSet := sNext t\<rparr>))"

definition stakerGet :: "posConfig \<Rightarrow> bytes \<Rightarrow> (posCtx, stakerData) m" where
  "stakerGet cfg = storeGet (stakerSchema (pcLib cfg)) stakerStore"

definition stakerSet :: "posConfig \<Rightarrow> bytes \<Rightarrow> stakerData \<Rightarrow> (posCtx, unit) m" where
  "stakerSet cfg = storeSet (stakerSchema (pcLib cfg)) stakerStore_update"

definition stakerGetOrDefault :: "posConfig \<Rightarrow> bytes \<Rightarrow> (posCtx, stakerData) m" where
  "stakerGetOrDefault cfg address = tryCatch (stakerGet cfg address)
     (\<lambda>e. if e \<noteq> NotFoundError then throw e else ret \<lparr>sdStakes = [], sdUnlocks = []\<rparr>)"

definition validatorGet :: "posConfig \<Rightarrow> bytes \<Rightarrow> (posCtx, validatorAccount) m" where
  "validatorGet cfg = storeGet (accountSchema (pcLib cfg)) validatorStore"

definition validatorSet :: "posConfig \<Rightarrow> bytes \<Rightarrow> validatorAccount \<Rightarrow> (posCtx, unit) m" where
  "validatorSet cfg = storeSet (accountSchema (pcLib cfg)) validatorStore_update"

definition genesisGet :: "posConfig \<Rightarrow> (posCtx, genesisData) m" where
  "genesisGet cfg = storeGet (genesisSchema (pcLib cfg)) genesisStore []"

section \<open>Utilities\<close>

definition compareUnlocking :: "unlockingObject \<Rightarrow> unlockingObject \<Rightarrow> int" where
  "compareUnlocking a b =
     (if unValidator a \<noteq> unValidator b then bufferCompare (unValidator a) (unValidator b)
      else if unHeight a \<noteq> unHeight b then unHeight b - unHeight a
      else let diff = unAmount b - unAmount a in if diff > 0 then 1 else if diff < 0 then -1 else 0)"

definition sortUnlocking :: "unlockingObject list \<Rightarrow> unlockingObject list" where
  "sortUnlocking = sortBy compareUnlocking"

definition equalUnlocking :: "unlockingObject \<Rightarrow> unlockingObject \<Rightarrow> bool" where
  "equalUnlocking a b = (unValidator a = unValidator b \<and> unAmount a = unAmount b \<and> unHeight a = unHeight b)"

fun startsWith :: "string \<Rightarrow> string \<Rightarrow> bool" where
  "startsWith [] s = True"
| "startsWith (p # ps) [] = False"
| "startsWith (p # ps) (c # cs) = (p = c \<and> startsWith ps cs)"

primrec isNullCharacterIncluded :: "string \<Rightarrow> bool" where
  "isNullCharacterIncluded [] = False"
| "isNullCharacterIncluded (c # cs) =
     (startsWith [CHR 0x5C, CHR ''0''] (c # cs) \<or> startsWith (CHR 0x5C # ''u0000'') (c # cs) \<or> startsWith (CHR 0x5C # ''x00'') (c # cs) \<or>
      isNullCharacterIncluded cs)"

definition usernameChar :: "char \<Rightarrow> bool" where
  "usernameChar c = (let n = of_char c :: nat in 97 \<le> n \<and> n \<le> 122 \<or> 48 \<le> n \<and> n \<le> 57 \<or> c \<in> set ''!@$&_.'')"

text \<open>\<open>trim\<close> and \<open>toLowerCase\<close> do not change a string of these characters, so that the second check follows from the third.\<close>

definition isUsername :: "string \<Rightarrow> bool" where
  "isUsername username = (\<not> isNullCharacterIncluded username \<and> username \<noteq> [] \<and> list_all usernameChar username)"

definition maxHeight :: "int list \<Rightarrow> int" where
  "maxHeight hs = foldl max (hd hs) (tl hs)"

definition getWaitTime :: "posConfig \<Rightarrow> bytes \<Rightarrow> bytes \<Rightarrow> int" where
  "getWaitTime cfg senderAddress validatorAddress =
     (if validatorAddress = senderAddress then lockingPeriodSelfStaking cfg else lockingPeriodStaking cfg)"

definition getPunishTime :: "posConfig \<Rightarrow> bytes \<Rightarrow> bytes \<Rightarrow> int" where
  "getPunishTime cfg senderAddress validatorAddress =
     (if validatorAddress = senderAddress then punishmentWindowSelfStaking cfg else punishmentWindowStaking cfg)"

definition hasWaited :: "posConfig \<Rightarrow> unlockingObject \<Rightarrow> bytes \<Rightarrow> int \<Rightarrow> bool" where
  "hasWaited cfg u senderAddress height = (\<not> height - unHeight u < getWaitTime cfg senderAddress (unValidator u))"

definition isPunished :: "posConfig \<Rightarrow> unlockingObject \<Rightarrow> int list \<Rightarrow> bytes \<Rightarrow> int \<Rightarrow> bool" where
  "isPunished cfg u pomHeights senderAddress height =
     (if pomHeights = [] then False
      else let lastPomHeight = last pomHeights;
               waitTime = getWaitTime cfg senderAddress (unValidator u);
               punishTime = getPunishTime cfg senderAddress (unValidator u) in
           height - lastPomHeight < punishTime \<and> lastPomHeight < unHeight u + waitTime)"

text \<open>\<open>Math.ceil(a / b)\<close>; the quotient of the double is exact enough below \<open>2 ^ 32\<close>.\<close>

definition ceilDiv :: "int \<Rightarrow> int \<Rightarrow> int" where
  "ceilDiv a b = - ((- a) div b)"

definition lastHeightOfRound :: "int \<Rightarrow> int \<Rightarrow> int \<Rightarrow> int" where
  "lastHeightOfRound height genesisHeight len = ceilDiv (height - genesisHeight) len * len + genesisHeight"

definition isCertificateGenerated :: "unlockingObject \<Rightarrow> int \<Rightarrow> int \<Rightarrow> int \<Rightarrow> bool" where
  "isCertificateGenerated u genesisHeight certified len =
     (lastHeightOfRound (unHeight u + 2 * len) genesisHeight len \<le> certified)"

definition getMinPunishedHeight :: "int list \<Rightarrow> int \<Rightarrow> int" where
  "getMinPunishedHeight pomHeights punishmentWindow = (if pomHeights = [] then 0 else maxHeight pomHeights + punishmentWindow)"

definition getPunishmentPeriod :: "posConfig \<Rightarrow> bytes \<Rightarrow> bytes \<Rightarrow> int list \<Rightarrow> int \<Rightarrow> int" where
  "getPunishmentPeriod cfg senderAddress validatorAddress pomHeights currentHeight =
     (let remainingBlocks = getMinPunishedHeight pomHeights (getPunishTime cfg senderAddress validatorAddress) - currentHeight in
      if remainingBlocks < 0 then 0 else remainingBlocks)"

definition getValidatorWeight :: "int \<Rightarrow> int \<Rightarrow> int \<Rightarrow> int" where
  "getValidatorWeight factor selfStake totalStakeReceived =
     (let cap = selfStake * factor in if cap < totalStakeReceived then cap else totalStakeReceived)"

definition isSharingCoefficientSorted :: "sharingCoefficient list \<Rightarrow> bool" where
  "isSharingCoefficientSorted cs =
     (map scTokenID (sortBy (\<lambda>a b. bufferCompare (scTokenID a) (scTokenID b)) cs) = map scTokenID cs)"

definition calculateStakeRewards :: "sharingCoefficient \<Rightarrow> int \<Rightarrow> sharingCoefficient \<Rightarrow> err + int" where
  "calculateStakeRewards stakeCoefficient amount validatorCoefficient =
     rbind (qSub (q96Buffer (scCoefficient validatorCoefficient)) (q96Buffer (scCoefficient stakeCoefficient))) (\<lambda>d.
     rbind (qMul d (q96 amount)) (\<lambda>reward. Inr (qFloor reward)))"

section \<open>Eligible validators\<close>

text \<open>\<open>writeBigUInt64BE\<close>\<close>

definition uint64BE :: "int \<Rightarrow> err + bytes" where
  "uint64BE n = (if n < 0 \<or> n \<ge> 2 ^ 64 then Inl (Error ''RangeError'')
     else Inr (map (\<lambda>i. word_of_int (n div 2 ^ (8 * (7 - i)))) [0..<8]))"

definition eligibleKey :: "bytes \<Rightarrow> int \<Rightarrow> err + bytes" where
  "eligibleKey address w = rbind (uint64BE w) (\<lambda>b. Inr (b @ address))"

definition eligibleGetAll :: "posConfig \<Rightarrow> (posCtx, (bytes \<times> int) list) m" where
  "eligibleGetAll cfg = bind (storeIterate (heightSchema (pcLib cfg)) eligibleStore (replicate 28 0) (replicate 28 255)) (\<lambda>r. ret (rev r))"

definition splitKey :: "bytes \<Rightarrow> bytes \<times> int" where
  "splitKey key = (drop 8 key, beInt (take 8 key))"

definition eligibleUpdate :: "posConfig \<Rightarrow> bytes \<Rightarrow> int \<Rightarrow> validatorAccount \<Rightarrow> (posCtx, unit) m" where
  "eligibleUpdate cfg address prevWeight v =
     bind (liftE (eligibleKey address prevWeight)) (\<lambda>oldKey.
     andThen (storeDel eligibleStore_update oldKey)
     (if vdBanned v then ret ()
      else let newWeight = getValidatorWeight (factorSelfStakes cfg) (vdSelfStake v) (vdTotalStake v) in
      if newWeight < minWeightStandby cfg then ret ()
      else bind (liftE (eligibleKey address newWeight)) (\<lambda>key.
        storeSet (heightSchema (pcLib cfg)) eligibleStore_update key (if vdReports v \<noteq> [] then last (vdReports v) else 0))))"

section \<open>Events\<close>

definition posEvent :: "posConfig \<Rightarrow> string \<Rightarrow> schemaProp list \<Rightarrow> val option list \<Rightarrow> bytes list \<Rightarrow> bool \<Rightarrow> (posCtx, unit) m" where
  "posEvent cfg name schema vals topics nr = eventAdd (pcLib cfg) MODULE_NAME_POS name schema vals topics nr"

definition validatorStakedEvent :: "posConfig \<Rightarrow> bytes \<Rightarrow> bytes \<Rightarrow> int \<Rightarrow> posEventResult \<Rightarrow> (posCtx, unit) m" where
  "validatorStakedEvent cfg senderAddress validatorAddress amount result =
     posEvent cfg ''validatorStaked'' [PScalar 1 BytesT, PScalar 2 BytesT, PScalar 3 SInt64T, PScalar 4 UInt32T]
       [Some (VBytes senderAddress), Some (VBytes validatorAddress), Some (VInt amount), Some (VInt (posResultCode result))]
       [senderAddress, validatorAddress] (result \<noteq> STAKE_SUCCESSFUL)"

definition rewardsAssignedEvent :: "posConfig \<Rightarrow> bytes \<Rightarrow> bytes \<Rightarrow> bytes \<Rightarrow> int \<Rightarrow> (posCtx, unit) m" where
  "rewardsAssignedEvent cfg stakerAddress validatorAddress tokenID amount =
     posEvent cfg ''rewardsAssigned'' [PScalar 1 BytesT, PScalar 2 BytesT, PScalar 3 BytesT, PScalar 4 UInt64T]
       [Some (VBytes stakerAddress), Some (VBytes validatorAddress), Some (VBytes tokenID), Some (VInt amount)] [stakerAddress] False"

definition commissionChangeEvent :: "posConfig \<Rightarrow> bytes \<Rightarrow> int \<Rightarrow> int \<Rightarrow> (posCtx, unit) m" where
  "commissionChangeEvent cfg validatorAddress oldCommission newCommission =
     posEvent cfg ''commissionChange'' [PScalar 1 BytesT, PScalar 2 UInt32T, PScalar 3 UInt32T]
       [Some (VBytes validatorAddress), Some (VInt oldCommission), Some (VInt newCommission)] [validatorAddress] False"

text \<open>The events \<open>validatorPunished\<close> and \<open>validatorBanned\<close>.\<close>

definition validatorHeightEvent :: "posConfig \<Rightarrow> string \<Rightarrow> bytes \<Rightarrow> int \<Rightarrow> (posCtx, unit) m" where
  "validatorHeightEvent cfg name address height =
     posEvent cfg name [PScalar 1 BytesT, PScalar 2 UInt32T] [Some (VBytes address), Some (VInt height)] [address] False"

definition validatorRegisteredEvent :: "posConfig \<Rightarrow> bytes \<Rightarrow> string \<Rightarrow> (posCtx, unit) m" where
  "validatorRegisteredEvent cfg address name =
     posEvent cfg ''validatorRegistered'' [PScalar 1 BytesT, PScalar 2 StringT] [Some (VBytes address), Some (VStr name)] [address] False"

section \<open>Internal method\<close>

definition assignOne :: "posConfig \<Rightarrow> bytes \<Rightarrow> stakeObject \<Rightarrow> sharingCoefficient \<Rightarrow> (posCtx, unit) m" where
  "assignOne cfg stakerAddress sentStake c =
     (let stakeCoefficient = (case find (\<lambda>k. scTokenID k = scTokenID c) (stCoefficients sentStake) of
            Some k \<Rightarrow> k | None \<Rightarrow> \<lparr>scTokenID = scTokenID c, scCoefficient = replicate MAX_NUMBER_BYTES_Q96 0\<rparr>) in
      bind (liftE (calculateStakeRewards stakeCoefficient (stAmount sentStake) c)) (\<lambda>reward.
      if reward > 0 then
        andThen (unlock (pcToken cfg) (stValidator sentStake) MODULE_NAME_POS (scTokenID c) reward)
        (andThen (transfer (pcToken cfg) (stValidator sentStake) stakerAddress (scTokenID c) reward)
        (rewardsAssignedEvent cfg stakerAddress (stValidator sentStake) (scTokenID c) reward))
      else ret ()))"

definition assignStakeRewards :: "posConfig \<Rightarrow> bytes \<Rightarrow> stakeObject \<Rightarrow> validatorAccount \<Rightarrow> (posCtx, unit) m" where
  "assignStakeRewards cfg stakerAddress sentStake v =
     (if stValidator sentStake = stakerAddress then ret ()
      else forEach (vdCoefficients v) (assignOne cfg stakerAddress sentStake))"

definition getLockedStakedAmount :: "posConfig \<Rightarrow> bytes \<Rightarrow> (posCtx, int) m" where
  "getLockedStakedAmount cfg address =
     bind (stakerGetOrDefault cfg address) (\<lambda>staker.
     ret (sum_list (map stAmount (sdStakes staker)) + sum_list (map unAmount (sdUnlocks staker))))"

section \<open>Commands\<close>

definition verified :: verificationResult where "verified = (VerifyOK, None)"

definition changeCommissionVerify :: "posConfig \<Rightarrow> int \<Rightarrow> bytes \<Rightarrow> int \<Rightarrow> (posCtx, verificationResult) m" where
  "changeCommissionVerify cfg height senderAddress newCommission =
     bind (storeHas validatorStore senderAddress) (\<lambda>validatorExists.
     if \<not> validatorExists then ret (verifyFailed ''Transaction sender has not registered as a validator.'')
     else bind (validatorGet cfg senderAddress) (\<lambda>v.
     let oldCommission = vdCommission v;
         hasIncreasedCommissionRecently = height - vdLastCommissionIncrease v < commissionIncreasePeriod cfg in
     if newCommission > oldCommission \<and> hasIncreasedCommissionRecently
     then ret (verifyFailed ''Can only increase the commission again after the last commission increase.'')
     else if newCommission - oldCommission > maxCommissionIncreaseRate cfg
     then ret (verifyFailed ''Invalid argument: Commission increase larger'')
     else ret verified))"

definition changeCommissionExecute :: "posConfig \<Rightarrow> int \<Rightarrow> bytes \<Rightarrow> int \<Rightarrow> (posCtx, unit) m" where
  "changeCommissionExecute cfg height senderAddress newCommission =
     bind (validatorGet cfg senderAddress) (\<lambda>v.
     let oldCommission = vdCommission v;
         v' = v\<lparr>vdCommission := newCommission\<rparr>;
         v'' = (if newCommission \<ge> oldCommission then v'\<lparr>vdLastCommissionIncrease := height\<rparr> else v') in
     andThen (validatorSet cfg senderAddress v'')
     (commissionChangeEvent cfg senderAddress oldCommission newCommission))"

text \<open>The loop replaces the coefficients of each stake; the result is the list it leaves.\<close>

primrec claimStakes :: "posConfig \<Rightarrow> bytes \<Rightarrow> stakeObject list \<Rightarrow> (posCtx, stakeObject list) m" where
  "claimStakes cfg senderAddress [] = ret []"
| "claimStakes cfg senderAddress (s # ss) =
     bind (validatorGet cfg (stValidator s)) (\<lambda>v.
     andThen (assignStakeRewards cfg senderAddress s v)
     (bind (claimStakes cfg senderAddress ss) (\<lambda>r.
     ret (s\<lparr>stCoefficients := vdCoefficients v\<rparr> # r))))"

definition claimRewardsExecute :: "posConfig \<Rightarrow> bytes \<Rightarrow> (posCtx, unit) m" where
  "claimRewardsExecute cfg senderAddress =
     bind (stakerGet cfg senderAddress) (\<lambda>staker.
     bind (claimStakes cfg senderAddress (sdStakes staker)) (\<lambda>stakes.
     stakerSet cfg senderAddress (staker\<lparr>sdStakes := stakes\<rparr>)))"

record registrationParams =
  rpName :: string
  rpBlsKey :: bytes
  rpProofOfPossession :: bytes
  rpGeneratorKey :: bytes

definition registerValidatorVerify :: "posConfig \<Rightarrow> bytes \<Rightarrow> int \<Rightarrow> registrationParams \<Rightarrow> (posCtx, verificationResult) m" where
  "registerValidatorVerify cfg senderAddress fee p =
     (if \<not> isUsername (rpName p) then ret (verifyFailed ''name is in an unsupported format'')
      else bind (storeHas nameStore (stringToBytes (rpName p))) (\<lambda>nameExists.
      if nameExists then ret (verifyFailed ''Name substore must not have an entry for the store key name'')
      else bind (storeHas validatorStore senderAddress) (\<lambda>validatorExists.
      if validatorExists then ret (verifyFailed ''Validator substore must not have an entry for the store key address'')
      else if fee < validatorRegistrationFee cfg then ret (verifyFailed ''Insufficient transaction fee.'')
      else ret verified)))"

definition registerValidatorExecute :: "posConfig \<Rightarrow> int \<Rightarrow> bytes \<Rightarrow> registrationParams \<Rightarrow> (posCtx, unit) m" where
  "registerValidatorExecute cfg height senderAddress p =
     andThen (viaValidators (registerValidatorKeys (pcValidators cfg) senderAddress (rpBlsKey p) (rpGeneratorKey p) (rpProofOfPossession p)))
     (andThen (payFee (pcLib cfg) (validatorRegistrationFee cfg))
     (andThen (validatorSet cfg senderAddress \<lparr>vdName = rpName p, vdTotalStake = 0, vdSelfStake = 0, vdLastGeneratedHeight = height,
        vdBanned = False, vdReports = [], vdMissed = 0, vdCommission = COMMISSION, vdLastCommissionIncrease = height, vdCoefficients = []\<rparr>)
     (andThen (storeSet (nameSchema (pcLib cfg)) nameStore_update (stringToBytes (rpName p)) senderAddress)
     (validatorRegisteredEvent cfg senderAddress (rpName p)))))"

definition absInt :: "int \<Rightarrow> int" where "absInt n = (if n < 0 then - n else n)"

definition reportMisbehaviorVerify :: "posConfig \<Rightarrow> int \<Rightarrow> bytes \<Rightarrow> bytes \<Rightarrow> (posCtx, verificationResult) m" where
  "reportMisbehaviorVerify cfg currentHeight bytes1 bytes2 =
     (let lib = pcLib cfg in
      bind (liftE (headerFromBytes lib bytes1)) (\<lambda>header1.
      bind (liftE (headerFromBytes lib bytes2)) (\<lambda>header2.
      if hGeneratorAddress header1 \<noteq> hGeneratorAddress header2 then throw (Error ''Different generator address never contradict to each other.'')
      else let validatorAddress = hGeneratorAddress header1 in
      bind (validatorGet cfg validatorAddress) (\<lambda>v.
      bind (viaValidators (getValidatorKeys (pcValidators cfg) validatorAddress)) (\<lambda>keys.
      andThen (liftE (validateSignature lib (pcVerifySignature cfg) (vkGeneratorKey keys) (pcChainID cfg) header1))
      (andThen (liftE (validateSignature lib (pcVerifySignature cfg) (vkGeneratorKey keys) (pcChainID cfg) header2))
      (let maxPunishableHeight = max (absInt (hHeight header1 - currentHeight)) (absInt (hHeight header2 - currentHeight)) in
       if maxPunishableHeight \<ge> lockingPeriodSelfStaking cfg then throw (Error ''Locking period has expired.'')
       else if getPunishmentPeriod cfg validatorAddress validatorAddress (vdReports v) currentHeight > 0
       then throw (Error ''Validator is already punished.'')
       else if vdBanned v then throw (Error ''Validator is already banned.'')
       else bind (liftE (headerId lib (pcHash cfg) header1)) (\<lambda>(id1, h1).
       bind (liftE (headerId lib (pcHash cfg) header2)) (\<lambda>(id2, h2).
       if id1 = id2 \<or> \<not> areDistinctHeadersContradicting (bftHeaderOf header1) (bftHeaderOf header2)
       then ret (verifyFailed ''BlockHeaders are not contradicting as per BFT violation rules.'')
       else ret verified)))))))))"

definition reportMisbehaviorExecute :: "posConfig \<Rightarrow> int \<Rightarrow> bytes \<Rightarrow> bytes \<Rightarrow> (posCtx, unit) m" where
  "reportMisbehaviorExecute cfg currentHeight senderAddress bytes1 =
     bind (liftE (headerFromBytes (pcLib cfg) bytes1)) (\<lambda>header1.
     let punishedAddress = hGeneratorAddress header1 in
     bind (validatorGet cfg punishedAddress) (\<lambda>v0.
     let v1 = v0\<lparr>vdReports := vdReports v0 @ [currentHeight]\<rparr> in
     andThen (validatorHeightEvent cfg ''validatorPunished'' punishedAddress currentHeight)
     (let banned = (length (vdReports v1) = reportMisbehaviorLimitBanned cfg);
          v2 = (if banned then v1\<lparr>vdBanned := True\<rparr> else v1) in
      andThen (whenM banned (validatorHeightEvent cfg ''validatorBanned'' punishedAddress currentHeight))
      (let reward = (if reportMisbehaviorReward cfg > vdSelfStake v2 then vdSelfStake v2 else reportMisbehaviorReward cfg) in
       andThen (whenM (reward > 0)
         (andThen (unlock (pcToken cfg) punishedAddress MODULE_NAME_POS (posTokenID cfg) reward)
                  (transfer (pcToken cfg) punishedAddress senderAddress (posTokenID cfg) reward)))
       (let prevWeight = getValidatorWeight (factorSelfStakes cfg) (vdSelfStake v2) (vdTotalStake v2);
            v3 = v2\<lparr>vdSelfStake := vdSelfStake v2 - reward, vdTotalStake := vdTotalStake v2 - reward\<rparr> in
        andThen (validatorSet cfg punishedAddress v3)
        (andThen (eligibleUpdate cfg punishedAddress prevWeight v3)
        (bind (stakerGet cfg punishedAddress) (\<lambda>staker.
         case findIndex (\<lambda>s. stValidator s = punishedAddress) (sdStakes staker) of
           None \<Rightarrow> throw (Error ''TypeError'')
         | Some i \<Rightarrow> stakerSet cfg punishedAddress
             (staker\<lparr>sdStakes := (sdStakes staker)[i := (sdStakes staker ! i)\<lparr>stAmount := stAmount (sdStakes staker ! i) - reward\<rparr>]\<rparr>)))))))))"

text \<open>\<open>verify\<close> of the stake command: the entries are pairs of an address and an amount.\<close>

primrec stakeChecks :: "posConfig \<Rightarrow> bytes list \<Rightarrow> (bytes \<times> int) list \<Rightarrow> verificationResult option" where
  "stakeChecks cfg seen [] = None"
| "stakeChecks cfg seen (s # ss) =
     (if fst s \<in> set seen then Some (verifyFailed ''Validator address must be unique.'')
      else if snd s = 0 then Some (verifyFailed ''Amount cannot be 0.'')
      else if snd s mod baseStakeAmount cfg \<noteq> 0 then Some (verifyFailed ''Amount should be multiple of the base stake amount.'')
      else stakeChecks cfg (fst s # seen) ss)"

definition stakeVerify :: "posConfig \<Rightarrow> (bytes \<times> int) list \<Rightarrow> verificationResult" where
  "stakeVerify cfg stakes =
     (case stakeChecks cfg [] stakes of Some r \<Rightarrow> r
      | None \<Rightarrow>
          if length (filter (\<lambda>s. snd s > 0) stakes) > maxNumberSentStakes cfg then verifyFailed ''Upstake can only be casted up to the maximum.''
          else if length (filter (\<lambda>s. snd s < 0) stakes) > maxNumberSentStakes cfg then verifyFailed ''Downstake can only be casted up to the maximum.''
          else verified)"

text \<open>The two branches of one entry; the result is the changed staker data.\<close>

definition downstake :: "posConfig \<Rightarrow> int \<Rightarrow> bytes \<Rightarrow> bytes \<Rightarrow> int \<Rightarrow> validatorAccount \<Rightarrow> stakerData \<Rightarrow> (posCtx, stakerData) m" where
  "downstake cfg height senderAddress validatorAddress amount v staker =
     (let fail = (\<lambda>r msg. andThen (validatorStakedEvent cfg senderAddress validatorAddress amount r) (throw (Error msg))) in
      case findIndex (\<lambda>s. stValidator s = validatorAddress) (sdStakes staker) of
        None \<Rightarrow> fail STAKE_FAILED_INVALID_UNSTAKE_PARAMETERS ''Invalid unstake: Cannot cast downstake to validator who is not upstaked.''
      | Some i \<Rightarrow>
          let s = sdStakes staker ! i in
          if stAmount s + amount < 0
          then fail STAKE_FAILED_INVALID_UNSTAKE_PARAMETERS ''Invalid unstake: The unstake amount exceeds the staked amount for this validator.''
          else andThen (assignStakeRewards cfg senderAddress s v)
          (let s' = s\<lparr>stAmount := stAmount s + amount, stCoefficients := vdCoefficients v\<rparr>;
               stakes = (sdStakes staker)[i := s'];
               stakes' = (if stAmount s' = 0 then filter (\<lambda>s. stValidator s \<noteq> validatorAddress) stakes else stakes);
               unlocks = sortUnlocking (sdUnlocks staker @ [\<lparr>unValidator = validatorAddress, unAmount = - amount, unHeight = height\<rparr>]) in
           if length unlocks > maxNumberPendingUnlocks cfg
           then fail STAKE_FAILED_TOO_MANY_PENDING_UNLOCKS ''Pending unlocks cannot exceed the maximum.''
           else ret \<lparr>sdStakes = stakes', sdUnlocks = unlocks\<rparr>))"

definition upstake :: "posConfig \<Rightarrow> bytes \<Rightarrow> bytes \<Rightarrow> int \<Rightarrow> validatorAccount \<Rightarrow> stakerData \<Rightarrow> (posCtx, stakerData) m" where
  "upstake cfg senderAddress validatorAddress amount v staker =
     andThen (lock (pcToken cfg) senderAddress MODULE_NAME_POS (posTokenID cfg) amount)
     (bind (case findIndex (\<lambda>s. stValidator s = validatorAddress) (sdStakes staker) of
        Some i \<Rightarrow> let s = sdStakes staker ! i in
          andThen (assignStakeRewards cfg senderAddress s v)
          (ret ((sdStakes staker)[i := s\<lparr>stAmount := stAmount s + amount, stCoefficients := vdCoefficients v\<rparr>]))
      | None \<Rightarrow> ret (sdStakes staker @ [\<lparr>stValidator = validatorAddress, stAmount = amount, stCoefficients = vdCoefficients v\<rparr>])) (\<lambda>stakes.
      let stakes' = sortBy (\<lambda>a b. bufferCompare (stValidator a) (stValidator b)) stakes in
      if length stakes' > maxNumberSentStakes cfg
      then andThen (validatorStakedEvent cfg senderAddress validatorAddress amount STAKE_FAILED_TOO_MANY_SENT_STAKES)
             (throw (Error ''Sender can only stake upto the maximum.''))
      else ret (staker\<lparr>sdStakes := stakes'\<rparr>)))"

definition stakeOne :: "posConfig \<Rightarrow> int \<Rightarrow> bytes \<Rightarrow> bytes \<times> int \<Rightarrow> (posCtx, unit) m" where
  "stakeOne cfg height senderAddress entry =
     (let (validatorAddress, amount) = entry in
      bind (stakerGetOrDefault cfg senderAddress) (\<lambda>staker.
      bind (storeHas validatorStore validatorAddress) (\<lambda>validatorExists.
      if \<not> validatorExists then
        andThen (validatorStakedEvent cfg senderAddress validatorAddress amount STAKE_FAILED_NON_REGISTERED_VALIDATOR)
          (throw (Error ''Invalid stake: no registered validator with the specified address''))
      else bind (validatorGet cfg validatorAddress) (\<lambda>v.
      bind (if amount < 0 then downstake cfg height senderAddress validatorAddress amount v staker
            else upstake cfg senderAddress validatorAddress amount v staker) (\<lambda>staker'.
      let previousValidatorWeight = getValidatorWeight (factorSelfStakes cfg) (vdSelfStake v) (vdTotalStake v);
          v1 = (if senderAddress = validatorAddress then v\<lparr>vdSelfStake := vdSelfStake v + amount\<rparr> else v);
          v2 = v1\<lparr>vdTotalStake := vdTotalStake v1 + amount\<rparr> in
      andThen (eligibleUpdate cfg validatorAddress previousValidatorWeight v2)
      (andThen (stakerSet cfg senderAddress staker')
      (andThen (validatorSet cfg validatorAddress v2)
      (validatorStakedEvent cfg senderAddress validatorAddress amount STAKE_SUCCESSFUL))))))))"

definition stakeExecute :: "posConfig \<Rightarrow> int \<Rightarrow> bytes \<Rightarrow> (bytes \<times> int) list \<Rightarrow> (posCtx, unit) m" where
  "stakeExecute cfg height senderAddress stakes =
     forEach (sortBy (\<lambda>a b. let diff = snd a - snd b in if diff > 0 then 1 else if diff < 0 then -1 else 0) stakes)
       (stakeOne cfg height senderAddress)"

text \<open>The loop of \<open>unlock\<close>; the result is the list of the objects that stay.\<close>

primrec unlockLoop :: "posConfig \<Rightarrow> int \<Rightarrow> int \<Rightarrow> int \<Rightarrow> bytes \<Rightarrow> unlockingObject list \<Rightarrow> (posCtx, unlockingObject list) m" where
  "unlockLoop cfg genesisHeight height certified senderAddress [] = ret []"
| "unlockLoop cfg genesisHeight height certified senderAddress (u # us) =
     bind (validatorGet cfg (unValidator u)) (\<lambda>v.
     if hasWaited cfg u senderAddress height \<and> \<not> isPunished cfg u (vdReports v) senderAddress height \<and>
        isCertificateGenerated u genesisHeight certified (roundLength cfg)
     then andThen (unlock (pcToken cfg) senderAddress MODULE_NAME_POS (posTokenID cfg) (unAmount u))
            (unlockLoop cfg genesisHeight height certified senderAddress us)
     else bind (unlockLoop cfg genesisHeight height certified senderAddress us) (\<lambda>r. ret (u # r)))"

definition unlockExecute :: "posConfig \<Rightarrow> blockHeader \<Rightarrow> bytes \<Rightarrow> (posCtx, unit) m" where
  "unlockExecute cfg header senderAddress =
     bind (stakerGet cfg senderAddress) (\<lambda>staker.
     bind (genesisGet cfg) (\<lambda>g.
     bind (unlockLoop cfg (gdHeight g) (hHeight header) (acHeight (hAggregateCommit header)) senderAddress (sdUnlocks staker)) (\<lambda>ineligibleUnlocks.
     if length (sdUnlocks staker) = length ineligibleUnlocks then throw (Error ''No eligible staker data was found for unlocking'')
     else stakerSet cfg senderAddress (staker\<lparr>sdUnlocks := ineligibleUnlocks\<rparr>))))"

definition updateGeneratorKeyVerify :: "bytes \<Rightarrow> (posCtx, verificationResult) m" where
  "updateGeneratorKeyVerify senderAddress =
     bind (storeHas validatorStore senderAddress) (\<lambda>entryExists.
     if \<not> entryExists then ret (verifyFailed ''Validator substore must have an entry for the store key address'') else ret verified)"

definition updateGeneratorKeyExecute :: "posConfig \<Rightarrow> bytes \<Rightarrow> bytes \<Rightarrow> (posCtx, unit) m" where
  "updateGeneratorKeyExecute cfg senderAddress generatorKey =
     bind (viaValidators (setValidatorGeneratorKey (pcValidators cfg) senderAddress generatorKey)) (\<lambda>_. ret ())"

section \<open>Method\<close>

definition isNameAvailable :: "posConfig \<Rightarrow> string \<Rightarrow> (posCtx, bool) m" where
  "isNameAvailable cfg name =
     (if jsLength name > maxLengthName cfg \<or> jsLength name < 1 \<or> \<not> isUsername name then ret False
      else bind (storeHas nameStore (stringToBytes name)) (\<lambda>isRegistered. ret (\<not> isRegistered)))"

definition coefficientQ :: "sharingCoefficient list \<Rightarrow> bytes \<Rightarrow> nat option" where
  "coefficientQ cs tokenID = findIndex (\<lambda>c. scTokenID c = tokenID) cs"

definition sharedReward :: "validatorAccount \<Rightarrow> int \<Rightarrow> err + (q \<times> int)" where
  "sharedReward v reward =
     rbind (qDiv (q96 (vdCommission v)) (q96 10000)) (\<lambda>commissionQ.
     rbind (qSub (q96 1) commissionQ) (\<lambda>rewardFractionQ.
     rbind (qMulDiv (q96 reward) rewardFractionQ (q96 (vdTotalStake v))) (\<lambda>sharingCoefficientIncrease.
     rbind (qSub (q96 (vdTotalStake v)) (q96 (vdSelfStake v))) (\<lambda>others.
     rbind (qMul sharingCoefficientIncrease others) (\<lambda>shared.
     let sharedRewards = qCeil shared in
     Inr (sharingCoefficientIncrease, if sharedRewards > reward then reward else sharedRewards))))))"

definition updateSharedRewards :: "posConfig \<Rightarrow> bytes \<Rightarrow> bytes \<Rightarrow> int \<Rightarrow> (posCtx, unit) m" where
  "updateSharedRewards cfg generatorAddress tokenID reward =
     bind (validatorGet cfg generatorAddress) (\<lambda>v.
     if vdTotalStake v = 0 then ret ()
     else let (cs, index) = (case coefficientQ (vdCoefficients v) tokenID of
                Some i \<Rightarrow> (vdCoefficients v, i)
              | None \<Rightarrow> (vdCoefficients v @ [\<lparr>scTokenID = tokenID, scCoefficient = qToBuffer (q96 0)\<rparr>], length (vdCoefficients v))) in
     bind (liftE (sharedReward v reward)) (\<lambda>(sharingCoefficientIncrease, cappedSharedRewards).
     andThen (lock (pcToken cfg) generatorAddress MODULE_NAME_POS tokenID cappedSharedRewards)
     (bind (liftE (qAdd (q96Buffer (scCoefficient (cs ! index))) sharingCoefficientIncrease)) (\<lambda>newSharingCoefficient.
     let cs' = cs[index := (cs ! index)\<lparr>scCoefficient := qToBuffer newSharingCoefficient\<rparr>] in
     validatorSet cfg generatorAddress (v\<lparr>vdCoefficients := sortBy (\<lambda>a b. bufferCompare (scTokenID a) (scTokenID b)) cs'\<rparr>)))))"

definition getRoundNumberFromHeight :: "posConfig \<Rightarrow> int \<Rightarrow> (posCtx, int) m" where
  "getRoundNumberFromHeight cfg height = bind (genesisGet cfg) (\<lambda>g. ret (ceilDiv (height - gdHeight g) (roundLength cfg)))"

definition isEndOfRound :: "posConfig \<Rightarrow> int \<Rightarrow> (posCtx, bool) m" where
  "isEndOfRound cfg height = bind (genesisGet cfg) (\<lambda>g. ret ((height - gdHeight g) mod roundLength cfg = 0))"

definition unbanValidator :: "posConfig \<Rightarrow> bytes \<Rightarrow> (posCtx, unit) m" where
  "unbanValidator cfg address =
     bind (validatorGet cfg address) (\<lambda>v.
     if \<not> vdBanned v then throw (Error ''The specified validator is not banned.'')
     else if length (vdReports v) \<ge> reportMisbehaviorLimitBanned cfg
     then throw (Error ''Validator exceeded the maximum allowed number of misbehaviors and is permanently banned.'')
     else let v' = v\<lparr>vdBanned := False\<rparr> in
     andThen (validatorSet cfg address v') (eligibleUpdate cfg address 0 v'))"

end
