(* ===== verification/PosProps.thy ===== *)
theory PosProps
  imports Pos TokenTheorems
begin

text \<open>
  The accounting of the stakes: decoded views of the stakers and validators, what a staker is owed of
  the shared rewards, the invariant that the totals of the validators are the sums of the stakes and
  that the locks of the module cover stakes, pending unlocks and unclaimed rewards, and how the token
  operations of the module change the locks.
\<close>

section \<open>Values are read back\<close>

lemma posSchemaOk: "schemaOk stakerStoreSchema" "schemaOk validatorStoreSchema"
  by code_simp+

lemma fields_val [simp]: "objFields (VObj ps) = ps"
  by (simp add: objFields_def)

lemma of_val [simp]: "coefficientOf (coefficientVal c) = c" "unlockOf (unlockVal u) = u"
  by (simp_all add: coefficientOf_def coefficientVal_def unlockOf_def unlockVal_def fieldBytes_def fieldInt_def Let_def)

lemma stakeOf_val [simp]: "stakeOf (stakeVal s) = s"
  by (simp add: stakeOf_def stakeVal_def fieldBytes_def fieldInt_def fieldArray_def Let_def o_def)

lemma stakerOf_vals [simp]: "stakerOf (stakerVals d) = d"
  by (simp add: stakerOf_def stakerVals_def fieldArray_def o_def)

lemma accountOf_vals [simp]: "accountOf (accountVals v) = v"
  by (simp add: accountOf_def accountVals_def fieldString_def fieldInt_def fieldBool_def fieldArray_def valInt_def o_def)

definition stakerLow :: "stakerData \<Rightarrow> bool" where
  "stakerLow d = (list_all (\<lambda>s. 0 \<le> stAmount s) (sdStakes d) \<and> list_all (\<lambda>u. 0 \<le> unAmount u \<and> 0 \<le> unHeight u) (sdUnlocks d))"

definition validatorAccountLow :: "jsLib \<Rightarrow> validatorAccount \<Rightarrow> bool" where
  "validatorAccountLow lib v = (nameOk lib (vdName v) \<and> 0 \<le> vdTotalStake v \<and> 0 \<le> vdSelfStake v \<and> 0 \<le> vdLastGeneratedHeight v \<and>
     list_all (\<lambda>h. 0 \<le> h) (vdReports v) \<and> 0 \<le> vdMissed v \<and> 0 \<le> vdCommission v \<and> 0 \<le> vdLastCommissionIncrease v)"

lemma staker_dec_enc:
  assumes "stakerLow d" "enc (stakerSchema lib) d = Inr bs"
  shows "dec (stakerSchema lib) bs = Inr d"
proof -
  have "lowConf lib stakerStoreSchema (stakerVals d)" using assms(1)
    by (simp add: stakerStoreSchema_def stakeSchema_def unlockSchema_def coefficientSchema_def stakerVals_def stakerLow_def list_all_iff
        stakeVal_def unlockVal_def coefficientVal_def)
  then show ?thesis using encode_reads[OF posSchemaOk(1)] assms(2) by (simp add: stakerSchema_def)
qed

lemma account_dec_enc:
  assumes "validatorAccountLow lib v" "enc (accountSchema lib) v = Inr bs"
  shows "dec (accountSchema lib) bs = Inr v"
proof -
  have "lowConf lib validatorStoreSchema (accountVals v)" using assms(1)
    by (simp add: validatorStoreSchema_def coefficientSchema_def accountVals_def validatorAccountLow_def nameOk_def list_all_iff coefficientVal_def)
  then show ?thesis using encode_reads[OF posSchemaOk(2)] assms(2) by (simp add: accountSchema_def)
qed

interpretation staker_schema: store_schema "stakerSchema lib" stakerLow
  by unfold_locales (rule staker_dec_enc)

interpretation account_schema: store_schema "accountSchema lib" "validatorAccountLow lib"
  by unfold_locales (rule account_dec_enc)

section \<open>Views\<close>

definition emptyStaker :: stakerData where "emptyStaker = \<lparr>sdStakes = [], sdUnlocks = []\<rparr>"

definition sdOf :: "jsLib \<Rightarrow> bytes \<Rightarrow> stakerData" where
  "sdOf lib bs = (case dec (stakerSchema lib) bs of Inl _ \<Rightarrow> emptyStaker | Inr d \<Rightarrow> d)"

definition stakerOfAddr :: "jsLib \<Rightarrow> bytes kv \<Rightarrow> bytes \<Rightarrow> stakerData" where
  "stakerOfAddr lib sk a = (case kvget sk a of None \<Rightarrow> emptyStaker | Some bs \<Rightarrow> sdOf lib bs)"

definition validatorOfAddr :: "jsLib \<Rightarrow> bytes kv \<Rightarrow> bytes \<Rightarrow> validatorAccount option" where
  "validatorOfAddr lib vk a = (case kvget vk a of None \<Rightarrow> None
     | Some bs \<Rightarrow> (case dec (accountSchema lib) bs of Inl _ \<Rightarrow> None | Inr v \<Rightarrow> Some v))"

text \<open>One in units of \<open>2 ^ -96\<close>.\<close>

definition qOne :: int where "qOne = 2 ^ 96"

lemma qOne_pos: "0 < qOne"
  by (simp add: qOne_def)

text \<open>What a staker has with a validator, and in all.\<close>

definition stakeTo :: "stakerData \<Rightarrow> bytes \<Rightarrow> int" where
  "stakeTo d v = sum_list (map (\<lambda>s. if stValidator s = v then stAmount s else 0) (sdStakes d))"

definition ownAmount :: "stakerData \<Rightarrow> int" where
  "ownAmount d = sum_list (map stAmount (sdStakes d)) + sum_list (map unAmount (sdUnlocks d))"

definition totalTo :: "jsLib \<Rightarrow> bytes kv \<Rightarrow> bytes \<Rightarrow> int" where
  "totalTo lib sk v = kvsum (\<lambda>k bs. stakeTo (sdOf lib bs) v) sk"

text \<open>The shared rewards that are not yet assigned, in units of \<open>2 ^ -96\<close>.\<close>

definition coefAt :: "sharingCoefficient list \<Rightarrow> bytes \<Rightarrow> int" where
  "coefAt cs t = (case find (\<lambda>c. scTokenID c = t) cs of None \<Rightarrow> 0 | Some c \<Rightarrow> beInt (scCoefficient c))"

definition coefsOf :: "jsLib \<Rightarrow> bytes kv \<Rightarrow> bytes \<Rightarrow> sharingCoefficient list" where
  "coefsOf lib vk a = (case validatorOfAddr lib vk a of None \<Rightarrow> [] | Some v \<Rightarrow> vdCoefficients v)"

definition oweStake :: "(bytes \<Rightarrow> sharingCoefficient list) \<Rightarrow> bytes \<Rightarrow> stakeObject \<Rightarrow> bytes \<Rightarrow> bytes \<Rightarrow> int" where
  "oweStake C k s a t = (if stValidator s = a \<and> a \<noteq> k then stAmount s * (coefAt (C a) t - coefAt (stCoefficients s) t) else 0)"

definition oweList :: "(bytes \<Rightarrow> sharingCoefficient list) \<Rightarrow> bytes \<Rightarrow> stakeObject list \<Rightarrow> bytes \<Rightarrow> bytes \<Rightarrow> int" where
  "oweList C k ss a t = sum_list (map (\<lambda>s. oweStake C k s a t) ss)"

definition owed :: "jsLib \<Rightarrow> (bytes \<Rightarrow> sharingCoefficient list) \<Rightarrow> bytes kv \<Rightarrow> bytes \<Rightarrow> bytes \<Rightarrow> int" where
  "owed lib C sk a t = kvsum (\<lambda>k bs. oweList C k (sdStakes (sdOf lib bs)) a t) sk"

definition stakerOk :: "(bytes \<Rightarrow> validatorAccount option) \<Rightarrow> stakerData \<Rightarrow> bool" where
  "stakerOk W d = (stakerLow d \<and> distinct (map stValidator (sdStakes d)) \<and>
     (\<forall>s \<in> set (sdStakes d). \<exists>v. W (stValidator s) = Some v \<and> (\<forall>t. coefAt (stCoefficients s) t \<le> coefAt (vdCoefficients v) t)))"

definition accountOkPos :: "jsLib \<Rightarrow> validatorAccount \<Rightarrow> bool" where
  "accountOkPos lib v = (validatorAccountLow lib v \<and> distinct (map scTokenID (vdCoefficients v)))"

text \<open>
  The invariant of the stores, for locks \<open>L\<close> of the module by address and token. Within a command the
  totals of the validators may differ from the sums of the stakes by \<open>T\<close>, the self stakes by \<open>U\<close>.
\<close>

definition validatorBooked :: "jsLib \<Rightarrow> bytes kv \<Rightarrow> (bytes \<Rightarrow> int) \<Rightarrow> (bytes \<Rightarrow> int) \<Rightarrow> bytes \<Rightarrow> validatorAccount \<Rightarrow> bool" where
  "validatorBooked lib sk T U a v = (length a = 20 \<and> accountOkPos lib v \<and> vdTotalStake v = totalTo lib sk a + T a \<and>
     vdSelfStake v = stakeTo (stakerOfAddr lib sk a) a + U a)"

definition coverage :: "jsLib \<Rightarrow> bytes \<Rightarrow> bytes kv \<Rightarrow> (bytes \<Rightarrow> sharingCoefficient list) \<Rightarrow> bytes \<Rightarrow> bytes \<Rightarrow> int" where
  "coverage lib tok sk C a t = owed lib C sk a t + qOne * (if t = tok then ownAmount (stakerOfAddr lib sk a) else 0)"

definition booksDelta :: "jsLib \<Rightarrow> bytes \<Rightarrow> (bytes \<Rightarrow> int) \<Rightarrow> (bytes \<Rightarrow> int) \<Rightarrow> bytes kv \<Rightarrow> bytes kv \<Rightarrow> (bytes \<Rightarrow> bytes \<Rightarrow> int) \<Rightarrow> bool" where
  "booksDelta lib tok T U sk vk L =
     (kvok sk \<and> kvok vk \<and>
      (\<forall>a bs. kvget sk a = Some bs \<longrightarrow> length a = 20 \<and> (\<exists>d. dec (stakerSchema lib) bs = Inr d \<and> stakerOk (validatorOfAddr lib vk) d)) \<and>
      (\<forall>a bs. kvget vk a = Some bs \<longrightarrow> (\<exists>v. dec (accountSchema lib) bs = Inr v \<and> validatorBooked lib sk T U a v)) \<and>
      (\<forall>a t. length a = 20 \<longrightarrow> coverage lib tok sk (coefsOf lib vk) a t \<le> qOne * L a t))"

abbreviation booksOk :: "jsLib \<Rightarrow> bytes \<Rightarrow> bytes kv \<Rightarrow> bytes kv \<Rightarrow> (bytes \<Rightarrow> bytes \<Rightarrow> int) \<Rightarrow> bool" where
  "booksOk lib tok \<equiv> booksDelta lib tok (\<lambda>_. 0) (\<lambda>_. 0)"

lemma emptyStaker_simps [simp]: "sdStakes emptyStaker = []" "sdUnlocks emptyStaker = []" "stakeTo emptyStaker v = 0" "ownAmount emptyStaker = 0"
  "stakerLow emptyStaker" "stakerOk W emptyStaker"
  by (simp_all add: emptyStaker_def stakeTo_def ownAmount_def stakerLow_def stakerOk_def)

lemma sdOf_enc: "stakerLow d \<Longrightarrow> enc (stakerSchema lib) d = Inr bs \<Longrightarrow> sdOf lib bs = d"
  by (simp add: sdOf_def staker_dec_enc)

lemma stakerOfAddr_set:
  "stakerLow d \<Longrightarrow> enc (stakerSchema lib) d = Inr bs \<Longrightarrow> stakerOfAddr lib (kvset k bs sk) a = (if a = k then d else stakerOfAddr lib sk a)"
  by (simp add: stakerOfAddr_def sdOf_enc)

lemma validatorOfAddr_set:
  "validatorAccountLow lib v \<Longrightarrow> enc (accountSchema lib) v = Inr bs \<Longrightarrow> validatorOfAddr lib (kvset k bs vk) a = (if a = k then Some v else validatorOfAddr lib vk a)"
  by (simp add: validatorOfAddr_def account_dec_enc)

text \<open>A sum over the stakers changes by the one that is written.\<close>

lemma kvsum_staker:
  assumes "kvok sk" "stakerLow d" "enc (stakerSchema lib) d = Inr bs" "g k emptyStaker = 0"
  shows "kvsum (\<lambda>k bs. g k (sdOf lib bs)) (kvset k bs sk) = kvsum (\<lambda>k bs. g k (sdOf lib bs)) sk - g k (stakerOfAddr lib sk k) + g k d"
  using assms by (simp add: kvsum_kvset stakerOfAddr_def sdOf_enc split: option.split)

lemma totalTo_set:
  "kvok sk \<Longrightarrow> stakerLow d \<Longrightarrow> enc (stakerSchema lib) d = Inr bs \<Longrightarrow>
   totalTo lib (kvset k bs sk) v = totalTo lib sk v - stakeTo (stakerOfAddr lib sk k) v + stakeTo d v"
  using kvsum_staker[of sk d lib bs "\<lambda>k d. stakeTo d v" k] by (simp add: totalTo_def)

lemma owed_set:
  "kvok sk \<Longrightarrow> stakerLow d \<Longrightarrow> enc (stakerSchema lib) d = Inr bs \<Longrightarrow>
   owed lib C (kvset k bs sk) a t = owed lib C sk a t - oweList C k (sdStakes (stakerOfAddr lib sk k)) a t + oweList C k (sdStakes d) a t"
  using kvsum_staker[of sk d lib bs "\<lambda>k d. oweList C k (sdStakes d) a t" k] by (simp add: owed_def oweList_def)

lemma books_staker: "booksDelta lib tok T U sk vk L \<Longrightarrow> stakerOk (validatorOfAddr lib vk) (stakerOfAddr lib sk a)"
  by (fastforce simp: booksDelta_def stakerOfAddr_def sdOf_def split: option.split)

lemma books_validator: "booksDelta lib tok T U sk vk L \<Longrightarrow> validatorOfAddr lib vk a = Some v \<Longrightarrow> validatorBooked lib sk T U a v"
  by (fastforce simp: booksDelta_def validatorOfAddr_def split: option.splits sum.splits)

lemma books_entry:
  "booksDelta lib tok T U sk vk L \<Longrightarrow> kvget sk a = Some c \<Longrightarrow> length a = 20 \<and> (\<exists>d. dec (stakerSchema lib) c = Inr d \<and> stakerOk (validatorOfAddr lib vk) d)"
  "booksDelta lib tok T U sk vk L \<Longrightarrow> kvget vk a = Some c \<Longrightarrow> \<exists>v. dec (accountSchema lib) c = Inr v \<and> validatorBooked lib sk T U a v"
  by (simp_all add: booksDelta_def)

lemma books_coverage: "booksDelta lib tok T U sk vk L \<Longrightarrow> length a = 20 \<Longrightarrow> coverage lib tok sk (coefsOf lib vk) a t \<le> qOne * L a t"
  by (simp add: booksDelta_def)

lemma books_kvok: "booksDelta lib tok T U sk vk L \<Longrightarrow> kvok sk" "booksDelta lib tok T U sk vk L \<Longrightarrow> kvok vk"
  by (simp_all add: booksDelta_def)

text \<open>Validators keep their entries and coefficients only grow.\<close>

lemma stakerOk_mono:
  assumes "stakerOk W d" "\<And>a v. W a = Some v \<Longrightarrow> \<exists>v'. W' a = Some v' \<and> (\<forall>t. coefAt (vdCoefficients v) t \<le> coefAt (vdCoefficients v') t)"
  shows "stakerOk W' d"
  using assms unfolding stakerOk_def by (meson order_trans)

section \<open>Writing an entry\<close>

text \<open>What one staker adds to the coverage.\<close>

definition claimsOf :: "bytes \<Rightarrow> (bytes \<Rightarrow> sharingCoefficient list) \<Rightarrow> bytes \<Rightarrow> stakerData \<Rightarrow> bytes \<Rightarrow> bytes \<Rightarrow> int" where
  "claimsOf tok C k d a t = oweList C k (sdStakes d) a t + (if a = k \<and> t = tok then qOne * ownAmount d else 0)"

lemma coverage_set:
  "kvok sk \<Longrightarrow> stakerLow d \<Longrightarrow> enc (stakerSchema lib) d = Inr bs \<Longrightarrow>
   coverage lib tok (kvset k bs sk) C a t = coverage lib tok sk C a t - claimsOf tok C k (stakerOfAddr lib sk k) a t + claimsOf tok C k d a t"
  by (simp add: coverage_def claimsOf_def owed_set stakerOfAddr_set)

lemma books_setStaker:
  assumes b: "booksDelta lib tok T U sk vk L" and k: "length k = 20" and d: "stakerOk (validatorOfAddr lib vk) d" "enc (stakerSchema lib) d = Inr bs"
    and L: "\<And>a t. length a = 20 \<Longrightarrow> claimsOf tok (coefsOf lib vk) k d a t + qOne * L a t \<le>
        claimsOf tok (coefsOf lib vk) k (stakerOfAddr lib sk k) a t + qOne * L' a t"
    and T: "\<And>a. T' a = T a + stakeTo (stakerOfAddr lib sk k) a - stakeTo d a"
    and U: "\<And>a. U' a = (if a = k then U a + stakeTo (stakerOfAddr lib sk k) a - stakeTo d a else U a)"
  shows "booksDelta lib tok T' U' (kvset k bs sk) vk L'"
proof -
  have low: "stakerLow d" using d(1) by (simp add: stakerOk_def)
  note ok = books_kvok[OF b]
  have "length a = 20 \<and> (\<exists>d. dec (stakerSchema lib) c = Inr d \<and> stakerOk (validatorOfAddr lib vk) d)" if "kvget (kvset k bs sk) a = Some c" for a c
    using that b k d(1) staker_dec_enc[OF low d(2)] by (cases "a = k") (auto simp: booksDelta_def)
  moreover have "\<exists>v. dec (accountSchema lib) c = Inr v \<and> validatorBooked lib (kvset k bs sk) T' U' a v" if c: "kvget vk a = Some c" for a c
  proof -
    obtain v where v: "dec (accountSchema lib) c = Inr v" "validatorBooked lib sk T U a v" using b c by (fastforce simp: booksDelta_def)
    then have "validatorBooked lib (kvset k bs sk) T' U' a v"
      by (simp add: validatorBooked_def totalTo_set[OF ok(1) low d(2)] stakerOfAddr_set[OF low d(2)] T U)
    then show ?thesis using v(1) by blast
  qed
  moreover have "coverage lib tok (kvset k bs sk) (coefsOf lib vk) a t \<le> qOne * L' a t" if "length a = 20" for a t
    using books_coverage[OF b that, of t] L[OF that, of t] unfolding coverage_set[OF ok(1) low d(2)] by linarith
  ultimately show ?thesis using ok by (auto simp: booksDelta_def)
qed

lemma coefsOf_set:
  "validatorAccountLow lib v \<Longrightarrow> enc (accountSchema lib) v = Inr bs \<Longrightarrow> coefsOf lib (kvset k bs vk) = (coefsOf lib vk)(k := vdCoefficients v)"
  by (rule ext) (simp add: coefsOf_def validatorOfAddr_set)

lemma books_setValidator:
  assumes b: "booksDelta lib tok T U sk vk L" and k: "length k = 20" and v: "accountOkPos lib v" "enc (accountSchema lib) v = Inr bs"
    and T: "vdTotalStake v = totalTo lib sk k + T' k" "\<And>a. a \<noteq> k \<Longrightarrow> T' a = T a"
    and U: "vdSelfStake v = stakeTo (stakerOfAddr lib sk k) k + U' k" "\<And>a. a \<noteq> k \<Longrightarrow> U' a = U a"
    and C: "\<And>t. coefAt (coefsOf lib vk k) t \<le> coefAt (vdCoefficients v) t"
    and L: "\<And>a t. length a = 20 \<Longrightarrow> coverage lib tok sk ((coefsOf lib vk)(k := vdCoefficients v)) a t \<le> qOne * L' a t"
  shows "booksDelta lib tok T' U' sk (kvset k bs vk) L'"
proof -
  have low: "validatorAccountLow lib v" using v(1) by (simp add: accountOkPos_def)
  note ok = books_kvok[OF b]
  have m: "stakerOk (validatorOfAddr lib (kvset k bs vk)) d" if "stakerOk (validatorOfAddr lib vk) d" for d
  proof (rule stakerOk_mono[OF that])
    fix a w assume w: "validatorOfAddr lib vk a = Some w"
    show "\<exists>w'. validatorOfAddr lib (kvset k bs vk) a = Some w' \<and> (\<forall>t. coefAt (vdCoefficients w) t \<le> coefAt (vdCoefficients w') t)"
    proof (cases "a = k")
      case True
      then show ?thesis using C w by (simp add: validatorOfAddr_set[OF low v(2)] coefsOf_def)
    next
      case False
      then show ?thesis using w by (simp add: validatorOfAddr_set[OF low v(2)])
    qed
  qed
  have "length a = 20 \<and> (\<exists>d. dec (stakerSchema lib) c = Inr d \<and> stakerOk (validatorOfAddr lib (kvset k bs vk)) d)" if "kvget sk a = Some c" for a c
    using books_entry(1)[OF b that] m by blast
  then have q1: "\<forall>a c. kvget sk a = Some c \<longrightarrow> length a = 20 \<and> (\<exists>d. dec (stakerSchema lib) c = Inr d \<and> stakerOk (validatorOfAddr lib (kvset k bs vk)) d)"
    by simp
  have "\<exists>w. dec (accountSchema lib) c = Inr w \<and> validatorBooked lib sk T' U' a w" if c: "kvget (kvset k bs vk) a = Some c" for a c
  proof (cases "a = k")
    case True
    then show ?thesis using c k v T(1) U(1) account_dec_enc[OF low v(2)] by (simp add: validatorBooked_def)
  next
    case False
    then have "kvget vk a = Some c" using c by simp
    then obtain w where "dec (accountSchema lib) c = Inr w" "validatorBooked lib sk T U a w" using books_entry(2)[OF b] by blast
    then show ?thesis using T(2)[OF False] U(2)[OF False] by (auto simp: validatorBooked_def)
  qed
  then have q2: "\<forall>a c. kvget (kvset k bs vk) a = Some c \<longrightarrow> (\<exists>w. dec (accountSchema lib) c = Inr w \<and> validatorBooked lib sk T' U' a w)"
    by simp
  show ?thesis unfolding booksDelta_def coefsOf_set[OF low v(2)] by (intro conjI ok(1) kvok_kvset[OF ok(2)] q1 q2) (simp add: L)
qed

text \<open>A validator whose coefficients do not change.\<close>

lemma books_sameCoefs:
  assumes b: "booksDelta lib tok T U sk vk L" and w: "validatorOfAddr lib vk k = Some w" "vdCoefficients v = vdCoefficients w"
    and v: "validatorAccountLow lib v" "enc (accountSchema lib) v = Inr bs"
    and T: "\<And>a. T' a = (if a = k then T a + vdTotalStake v - vdTotalStake w else T a)"
    and U: "\<And>a. U' a = (if a = k then U a + vdSelfStake v - vdSelfStake w else U a)"
  shows "booksDelta lib tok T' U' sk (kvset k bs vk) L"
proof -
  note bw = books_validator[OF b w(1), unfolded validatorBooked_def]
  have c: "coefsOf lib vk k = vdCoefficients v" using w by (simp add: coefsOf_def)
  then have "(coefsOf lib vk)(k := vdCoefficients v) = coefsOf lib vk" by (simp add: fun_upd_idem)
  then show ?thesis using bw v w(2) T U c
    by (intro books_setValidator[OF b]) (auto simp: accountOkPos_def books_coverage[OF b])
qed

lemma sum_zero: "\<forall>x \<in> set xs. f x = (0 :: int) \<Longrightarrow> sum_list (map f xs) = 0"
  by (induction xs) auto

lemma books_noStakes:
  assumes b: "booksDelta lib tok T U sk vk L" and n: "validatorOfAddr lib vk k = None"
  shows "stakeTo (stakerOfAddr lib sk a) k = 0" "totalTo lib sk k = 0" "owed lib C sk k t = owed lib C' sk k t"
proof -
  have z: "\<forall>s \<in> set (sdStakes d). stValidator s \<noteq> k" if "stakerOk (validatorOfAddr lib vk) d" for d
    using that n by (auto simp: stakerOk_def)
  then have z': "stakeTo d k = 0" if "stakerOk (validatorOfAddr lib vk) d" for d using that by (auto simp: stakeTo_def intro!: sum_zero)
  show "stakeTo (stakerOfAddr lib sk a) k = 0" by (rule z'[OF books_staker[OF b]])
  have m: "stakerOk (validatorOfAddr lib vk) (sdOf lib c)" if "(a, c) \<in> set sk" for a c
    using b that kvget_member[OF books_kvok(1)[OF b], of a c] by (fastforce simp: booksDelta_def sdOf_def)
  show "totalTo lib sk k = 0" unfolding totalTo_def kvsum_def using m z' by (auto intro!: sum_zero)
  have "oweList C a (sdStakes (sdOf lib c)) k t = oweList C' a (sdStakes (sdOf lib c)) k t" if "(a, c) \<in> set sk" for a c
    using z[OF m[OF that]] unfolding oweList_def oweStake_def by (intro arg_cong[where f = sum_list] map_cong) simp_all
  then show "owed lib C sk k t = owed lib C' sk k t" unfolding owed_def kvsum_def
    by (auto intro!: arg_cong[where f = sum_list] map_cong)
qed

end
