(* ===== verification/PosLocks.thy ===== *)
theory PosLocks
  imports PosProps
begin

text \<open>
  What the token operations of the module do to its locks. They change no store of the module
  (\<open>keepsExt\<close>); \<open>paid\<close> bounds what a sequence of them releases, by address and token.
\<close>

section \<open>Frame\<close>

text \<open>An operation that leaves everything beyond the stores of the token module alone.\<close>

definition keepsExt :: "('a tokenCtx_scheme, 'b) m \<Rightarrow> bool" where
  "keepsExt c = (\<forall>s. tokenCtx.more (snd (c s)) = tokenCtx.more s)"

lemma keepsExt_pure: "keepsExt (ret a)" "keepsExt (throw e)" "keepsExt (gets f)" "keepsExt (liftE r)" "keepsExt (query g)"
  by (simp_all add: keepsExt_def ret_def throw_def gets_def liftE_def query_def)

lemma keepsExt_bind: "keepsExt c \<Longrightarrow> (\<And>a. keepsExt (f a)) \<Longrightarrow> keepsExt (bind c f)"
  by (simp add: keepsExt_def bind_def split: prod.split sum.split) (metis snd_conv)

lemma keepsExt_andThen: "keepsExt c \<Longrightarrow> keepsExt d \<Longrightarrow> keepsExt (andThen c d)"
  by (simp add: andThen_def keepsExt_bind)

lemma keepsExt_tryCatch: "keepsExt c \<Longrightarrow> (\<And>e. keepsExt (h e)) \<Longrightarrow> keepsExt (tryCatch c h)"
  by (simp add: keepsExt_def tryCatch_def split: prod.split sum.split) (metis snd_conv)

lemma keepsExt_if: "(b \<Longrightarrow> keepsExt c) \<Longrightarrow> (\<not> b \<Longrightarrow> keepsExt d) \<Longrightarrow> keepsExt (if b then c else d)"
  by simp

lemma keepsExt_whenM: "keepsExt c \<Longrightarrow> keepsExt (whenM b c)"
  by (simp add: whenM_def keepsExt_pure)

lemma keepsExt_modify: "(\<And>s. tokenCtx.more (f s) = tokenCtx.more s) \<Longrightarrow> keepsExt (modify f)"
  by (simp add: keepsExt_def modify_def)

lemma keepsExt_option: "keepsExt c \<Longrightarrow> (\<And>a. keepsExt (d a)) \<Longrightarrow> keepsExt (case x of None \<Rightarrow> c | Some a \<Rightarrow> d a)"
  by (simp split: option.split)

lemma keepsExt_store:
  "keepsExt (storeGet sch sel k)" "keepsExt (storeHas sel k)" "keepsExt (storeSet sch userStore_update k v)"
  by (simp_all add: storeGet_def storeHas_def storeSet_def keepsExt_pure keepsExt_bind keepsExt_option keepsExt_modify)

lemma keepsExt_event: "keepsExt (eventAdd lib md name schema vals topics nr :: ('a tokenCtx_scheme, unit) m)"
  by (simp add: eventAdd_def keepsExt_pure keepsExt_bind keepsExt_modify)

lemmas keepsExt_rules = keepsExt_pure keepsExt_bind keepsExt_andThen keepsExt_tryCatch keepsExt_if keepsExt_whenM keepsExt_option
  keepsExt_store keepsExt_event

lemma keepsExt_payFee: "keepsExt (payFee lib n :: ('a tokenCtx_scheme, unit) m)"
  unfolding payFee_def deductFeeFromKey_def insufficientFeeEvent_def
  by (intro keepsExt_rules keepsExt_modify) simp_all

lemma keepsExt_token:
  "keepsExt (lock cfg a mo t n :: ('a tokenCtx_scheme, unit) m)" "keepsExt (unlock cfg a mo t n :: ('a tokenCtx_scheme, unit) m)"
  "keepsExt (transfer cfg a b t n :: ('a tokenCtx_scheme, unit) m)"
  unfolding lock_def unlock_def transfer_def getFunded_def internalTransfer_def internalInitializeUserAccount_def userCreateDefaultAccount_def
    userSave_def userGet_def userSet_def userHas_def tokenEvents Let_def
  by (intro keepsExt_rules keepsExt_payFee)+

lemma posFrame:
  fixes s t :: posCtx
  assumes "tokenCtx.more s = tokenCtx.more t"
  shows "stakerStore s = stakerStore t" "validatorStore s = validatorStore t" "nameStore s = nameStore t" "snapshotStore s = snapshotStore t"
    "genesisStore s = genesisStore t" "timestampStore s = timestampStore t" "eligibleStore s = eligibleStore t"
    "validatorsState s = validatorsState t" "randomState s = randomState t" "nextSet s = nextSet t"
  using assms by (cases s; cases t; simp)+

section \<open>Locks\<close>

definition locked :: "posConfig \<Rightarrow> 'a tokenCtx_scheme \<Rightarrow> bytes \<Rightarrow> bytes \<Rightarrow> int" where
  "locked cfg s a t = (case acctAt (pcLib cfg) (userStore s) (userKey a t) of None \<Rightarrow> 0 | Some c \<Rightarrow> lockedAmount c MODULE_NAME_POS)"

abbreviation posTokenInv :: "posConfig \<Rightarrow> 'a tokenCtx_scheme \<Rightarrow> bool" where
  "posTokenInv cfg \<equiv> tokenInv (pcToken cfg) (\<lambda>_. 0)"

definition paid :: "posConfig \<Rightarrow> 'a tokenCtx_scheme \<Rightarrow> (bytes \<Rightarrow> bytes \<Rightarrow> int) \<Rightarrow> 'a tokenCtx_scheme \<Rightarrow> bool" where
  "paid cfg s F s' = (posTokenInv cfg s' \<and> tokenCtx.more s' = tokenCtx.more s \<and>
     (\<forall>a t. length a = 20 \<longrightarrow> qOne * locked cfg s a t \<le> qOne * locked cfg s' a t + F a t))"

lemma paid_refl: "posTokenInv cfg s \<Longrightarrow> paid cfg s (\<lambda>_ _. 0) s"
  by (simp add: paid_def)

lemma paid_trans: "paid cfg s F s1 \<Longrightarrow> paid cfg s1 G s2 \<Longrightarrow> (\<And>a t. F a t + G a t \<le> H a t) \<Longrightarrow> paid cfg s H s2"
  unfolding paid_def by (smt (verit))

lemma paid_mono: "paid cfg s F s' \<Longrightarrow> (\<And>a t. F a t \<le> G a t) \<Longrightarrow> paid cfg s G s'"
  unfolding paid_def by (smt (verit))

lemma paid_events: "paid cfg s F s' \<Longrightarrow> paid cfg s F (s'\<lparr>cEvents := e\<rparr>)"
  by (simp add: paid_def locked_def)

lemma userKey_inj: "length a = 20 \<Longrightarrow> length b = 20 \<Longrightarrow> userKey a t = userKey b u \<longleftrightarrow> a = b \<and> t = u"
  by (simp add: userKey_def)

definition atLock :: "bytes \<Rightarrow> bytes \<Rightarrow> int \<Rightarrow> bytes \<Rightarrow> bytes \<Rightarrow> int" where
  "atLock b u n a t = (if a = b \<and> t = u then qOne * n else 0)"

lemma ok_run:
  assumes "\<And>a s'. c s = (Inr a, s') \<Longrightarrow> Q a s'"
  shows "ok c Q s"
  using assms by (auto simp: wp_def split: prod.split sum.split)

lemma ok_and: "ok c P s \<Longrightarrow> ok c Q s \<Longrightarrow> ok c (\<lambda>a t. P a t \<and> Q a t) s"
  by (auto simp: wp_def split: prod.splits sum.splits)

lemma ok_keepsExt: "keepsExt c \<Longrightarrow> ok c (\<lambda>_ t. tokenCtx.more t = tokenCtx.more s) s"
  unfolding keepsExt_def by (rule ok_run) (metis snd_conv)

lemma locksTo_locked:
  assumes "locksTo A (userKey b u) MODULE_NAME_POS n A'" "tokenView (pcToken cfg) s = (A, X, S)" "tokenView (pcToken cfg) s' = (A', X', S')"
    "length b = 20" "length a = 20"
  shows "locked cfg s' a t = locked cfg s a t + (if a = b \<and> t = u then n else 0)"
  using assms by (auto simp: locksTo_def locked_def tokenView_def userKey_inj)

lemma paid_unlock:
  assumes "posTokenInv cfg s" "length b = 20" "0 \<le> n"
  shows "ok (unlock (pcToken cfg) b MODULE_NAME_POS u n) (\<lambda>_. paid cfg s (atLock b u n)) s"
proof (rule ok_run)
  fix r :: unit and s' assume run: "unlock (pcToken cfg) b MODULE_NAME_POS u n s = (Inr r, s')"
  have m: "tokenCtx.more s' = tokenCtx.more s" using wp_success[OF ok_keepsExt[OF keepsExt_token(2)] run] .
  show "paid cfg s (atLock b u n) s'"
  proof (cases "n = 0")
    case True
    then have "s' = s" using run by (simp add: unlock_def Let_def ret_def)
    then show ?thesis using assms(1) True by (simp add: paid_def atLock_def)
  next
    case False
    obtain A X S A' X' S' where v: "tokenView (pcToken cfg) s = (A, X, S)" "tokenView (pcToken cfg) s' = (A', X', S')" by (metis prod_cases3)
    have "length b = ADDRESS_LENGTH" "0 < n" using assms False by (simp_all add: ADDRESS_LENGTH_def)
    note l = unlock_locksTo[OF assms(1) this run[simplified] v]
    show ?thesis using locksTo_locked[OF l(1) v assms(2)] l(4) m by (auto simp: paid_def atLock_def algebra_simps)
  qed
qed

lemma paid_lock:
  assumes "posTokenInv cfg s" "length b = 20" "0 \<le> n" "nameOk (pcLib cfg) MODULE_NAME_POS"
  shows "ok (lock (pcToken cfg) b MODULE_NAME_POS u n) (\<lambda>_. paid cfg s (atLock b u (- n))) s"
proof (rule ok_run)
  fix r :: unit and s' assume run: "lock (pcToken cfg) b MODULE_NAME_POS u n s = (Inr r, s')"
  have m: "tokenCtx.more s' = tokenCtx.more s" using wp_success[OF ok_keepsExt[OF keepsExt_token(1)] run] .
  show "paid cfg s (atLock b u (- n)) s'"
  proof (cases "n = 0")
    case True
    then have "s' = s" using run by (simp add: lock_def ret_def)
    then show ?thesis using assms(1) True by (simp add: paid_def atLock_def)
  next
    case False
    obtain A X S A' X' S' where v: "tokenView (pcToken cfg) s = (A, X, S)" "tokenView (pcToken cfg) s' = (A', X', S')" by (metis prod_cases3)
    have "length b = ADDRESS_LENGTH" "0 < n" using assms False by (simp_all add: ADDRESS_LENGTH_def)
    note l = lock_locksTo[OF assms(1) this assms(4) run[simplified] v]
    show ?thesis using locksTo_locked[OF l(1) v assms(2)] l(4) m by (auto simp: paid_def atLock_def algebra_simps)
  qed
qed

lemma moved_locked:
  assumes "A from = Some a" "\<forall>k c. A k = Some c \<longrightarrow> accountOk lib c"
  shows "(case moved lib from to n (if A to = None then A(to \<mapsto> emptyAccount) else A) k of None \<Rightarrow> 0 | Some c \<Rightarrow> lockedAmount c mo) =
    (case A k of None \<Rightarrow> 0 | Some c \<Rightarrow> lockedAmount c mo)"
proof -
  have norm: "lockedAmount (normalised lib (credit m c)) mo = lockedAmount c mo" if "distinct (map lbModule (lockedBalances c))" for m c
  proof -
    have "distinct (map lbModule (lockedBalances (normalised lib (credit m c))))"
      using that by (simp add: normalised_def distinct_map_filter)
    then show ?thesis using that by (simp add: lockedAmount_sum lockedSum_normalised)
  qed
  have d: "distinct (map lbModule (lockedBalances c))" if "A k = Some c" for k c using assms(2) that by (auto intro: accountOk_distinct)
  have e: "distinct (map lbModule (lockedBalances emptyAccount))" "lockedAmount emptyAccount mo = 0" by (simp_all add: emptyAccount_def lockedAmount_def)
  have dn: "distinct (map lbModule (lockedBalances (normalised lib (credit m c))))" if "distinct (map lbModule (lockedBalances c))" for m c
    using that by (simp add: normalised_def distinct_map_filter)
  show ?thesis using assms(1) d e norm dn
    by (auto simp: moved_def Let_def split: option.split)
qed

lemma paid_transfer:
  assumes "posTokenInv cfg s" "length b = 20" "length c = 20" "0 < n"
  shows "ok (transfer (pcToken cfg) b c u n) (\<lambda>_. paid cfg s (\<lambda>_ _. 0)) s"
proof -
  have "ok (transfer (pcToken cfg) b c u n) (\<lambda>_ s'. posTokenInv cfg s' \<and> (\<forall>a t. locked cfg s' a t = locked cfg s a t)) s"
  proof (rule ok_transfer[OF assms(1)], goal_cases)
    case (4 s' A X S a)
    have A: "A = acctAt (pcLib cfg) (userStore s)" using 4(2) by (simp add: tokenView_def)
    have "\<forall>k c. A k = Some c \<longrightarrow> accountOk (pcLib cfg) c" using tokenInv_account[OF assms(1)] A by blast
    note m = moved_locked[OF 4(3) this, where to = "userKey c u" and n = n and mo = MODULE_NAME_POS]
    have A': "acctAt (pcLib cfg) (userStore s') = moved (pcLib cfg) (userKey b u) (userKey c u) n (if A (userKey c u) = None then A(userKey c u \<mapsto> emptyAccount) else A)"
      using 4(5) by (simp add: tokenView_def)
    have "locked cfg s' a t = locked cfg s a t" for a t
      using m[of "userKey a t"] unfolding locked_def A' A[symmetric] by simp
    then show ?case using 4(1) by simp
  qed (use assms in \<open>simp_all add: ADDRESS_LENGTH_def\<close>)
  from ok_and[OF this ok_keepsExt[OF keepsExt_token(3)]] show ?thesis by (rule ok_mono) (simp add: paid_def)
qed

end
