(* ===== verification/PosClaims.thy ===== *)
theory PosClaims
  imports PosLocks
begin

text \<open>
  The assignment of shared rewards: what \<open>assignStakeRewards\<close> releases is never more than what the
  staker is owed, and the commands that assign rewards bring the debt to zero.
\<close>

section \<open>Rewards of one stake\<close>

lemma ok_posEvent: "(\<And>e. Q () (s\<lparr>cEvents := e\<rparr>)) \<Longrightarrow> ok (posEvent cfg name schema vals topics nr) Q s"
  by (auto simp: posEvent_def wp split: sum.split)

lemma calculateStakeRewards_val:
  "calculateStakeRewards k n c =
     (if beInt (scCoefficient c) < beInt (scCoefficient k) then Inl (Error ''Invalid input, output cannot be negative.'')
      else Inr ((beInt (scCoefficient c) - beInt (scCoefficient k)) * n div qOne))"
proof -
  have q: "drop_bit 96 (x * (y * 2 ^ 96)) = x * y" for x y :: int
    unfolding mult.assoc[symmetric] drop_bit_eq_div by (rule nonzero_mult_div_cancel_right) simp
  show ?thesis unfolding calculateStakeRewards_def qSub_def qMul_def checkBase_def qFloor_def roundDown_div qOne_def
    by (simp only: q96_simps refl if_False rbind_def sum.case if_distrib[of "\<lambda>r. case_sum _ _ r"] not_True_eq_False q.simps q cong: if_cong)
qed

definition owesOne :: "stakeObject \<Rightarrow> sharingCoefficient \<Rightarrow> bytes \<Rightarrow> bytes \<Rightarrow> int" where
  "owesOne st c a t = (if a = stValidator st \<and> t = scTokenID c then stAmount st * (beInt (scCoefficient c) - coefAt (stCoefficients st) t) else 0)"

lemma ok_assignOne:
  assumes "posTokenInv cfg s" "length (stValidator st) = 20" "length staker = 20" "0 \<le> stAmount st"
    "coefAt (stCoefficients st) (scTokenID c) \<le> beInt (scCoefficient c)"
  shows "ok (assignOne cfg staker st c) (\<lambda>_. paid cfg s (owesOne st c)) s"
proof -
  define k where "k = (case find (\<lambda>k. scTokenID k = scTokenID c) (stCoefficients st) of
     Some k \<Rightarrow> k | None \<Rightarrow> \<lparr>scTokenID = scTokenID c, scCoefficient = replicate MAX_NUMBER_BYTES_Q96 0\<rparr>)"
  have k: "beInt (scCoefficient k) = coefAt (stCoefficients st) (scTokenID c)"
    by (simp add: k_def coefAt_def split: option.split)
  define d where "d = beInt (scCoefficient c) - coefAt (stCoefficients st) (scTokenID c)"
  define r where "r = d * stAmount st div qOne"
  have le: "qOne * r \<le> stAmount st * d"
  proof -
    have "qOne * r + d * stAmount st mod qOne = d * stAmount st" unfolding r_def by (rule mult_div_mod_eq)
    then show ?thesis using pos_mod_sign[OF qOne_pos, of "d * stAmount st"] mult.commute[of d "stAmount st"] by linarith
  qed
  have nn: "0 \<le> stAmount st * d" using assms(4,5) by (simp add: d_def)
  have step: "paid cfg s (owesOne st c) (t\<lparr>cEvents := e\<rparr>)"
    if "paid cfg s (atLock (stValidator st) (scTokenID c) r) s1" "paid cfg s1 (\<lambda>_ _. 0) t" for s1 t e
    by (rule paid_events, rule paid_trans[OF that]) (use le in \<open>auto simp: atLock_def owesOne_def d_def\<close>)
  have z: "paid cfg s (owesOne st c) s" if "r \<le> 0"
    by (rule paid_mono[OF paid_refl[OF assms(1)]]) (use nn in \<open>simp add: owesOne_def d_def\<close>)
  have t: "ok (andThen (transfer (pcToken cfg) (stValidator st) staker (scTokenID c) r) (rewardsAssignedEvent cfg staker (stValidator st) (scTokenID c) r))
      (\<lambda>_. paid cfg s (owesOne st c)) s1"
    if p: "paid cfg s (atLock (stValidator st) (scTokenID c) r) s1" and "0 < r" for s1
  proof -
    have i: "posTokenInv cfg s1" using p by (simp add: paid_def)
    show ?thesis unfolding wp_andThen
      by (rule ok_mono[OF paid_transfer[OF i assms(2,3) that(2)]]) (auto simp: rewardsAssignedEvent_def intro!: ok_posEvent step[OF p])
  qed
  have u: "ok (andThen (unlock (pcToken cfg) (stValidator st) MODULE_NAME_POS (scTokenID c) r)
      (andThen (transfer (pcToken cfg) (stValidator st) staker (scTokenID c) r) (rewardsAssignedEvent cfg staker (stValidator st) (scTokenID c) r)))
      (\<lambda>_. paid cfg s (owesOne st c)) s" if "0 < r"
    unfolding wp_andThen[of "unlock _ _ _ _ _"] by (rule ok_mono[OF paid_unlock[OF assms(1,2)]]) (use that t in auto)
  have c: "calculateStakeRewards k (stAmount st) c = Inr r"
    using assms(5) by (simp add: calculateStakeRewards_val k r_def d_def)
  show ?thesis unfolding assignOne_def Let_def k_def[symmetric] wp_bind wp_liftE c using u z by (simp add: wp_if wp_ret not_less)
qed

definition owesList :: "stakeObject \<Rightarrow> sharingCoefficient list \<Rightarrow> bytes \<Rightarrow> bytes \<Rightarrow> int" where
  "owesList st cs a t = (if a = stValidator st then (case find (\<lambda>c. scTokenID c = t) cs of None \<Rightarrow> 0
     | Some c \<Rightarrow> stAmount st * (beInt (scCoefficient c) - coefAt (stCoefficients st) t)) else 0)"

lemma ok_assignAll:
  assumes "posTokenInv cfg s" "length (stValidator st) = 20" "length staker = 20" "0 \<le> stAmount st" "distinct (map scTokenID cs)"
    "\<forall>c \<in> set cs. coefAt (stCoefficients st) (scTokenID c) \<le> beInt (scCoefficient c)"
  shows "ok (forEach cs (assignOne cfg staker st)) (\<lambda>_. paid cfg s (owesList st cs)) s"
  using assms(1,5,6)
proof (induction cs arbitrary: s)
  case Nil
  then show ?case by (simp add: wp owesList_def paid_mono[OF paid_refl])
next
  case (Cons c cs)
  have one: "ok (assignOne cfg staker st c) (\<lambda>_. paid cfg s (owesOne st c)) s"
    by (rule ok_assignOne[OF Cons.prems(1) assms(2-4)]) (use Cons.prems(3) in simp)
  have f: "find (\<lambda>k. scTokenID k = scTokenID c) cs = None" using Cons.prems(2) by (auto simp: find_None_iff rev_image_eqI)
  have le: "owesOne st c a t + owesList st cs a t \<le> owesList st (c # cs) a t" for a t
    using f by (auto simp: owesOne_def owesList_def)
  show ?case unfolding forEach.simps wp_andThen
  proof (rule ok_mono[OF one], goal_cases)
    case (1 u s1)
    then have i: "posTokenInv cfg s1" by (simp add: paid_def)
    show ?case
      by (rule ok_mono[OF Cons.IH[OF i]]) (use Cons.prems paid_trans[OF 1 _ le] in auto)
  qed
qed

lemma find_distinct_key: "distinct (map f cs) \<Longrightarrow> c \<in> set cs \<Longrightarrow> find (\<lambda>x. f x = f c) cs = Some c"
  by (induction cs) (auto simp: rev_image_eqI)

lemma coefAt_member: "distinct (map scTokenID cs) \<Longrightarrow> c \<in> set cs \<Longrightarrow> coefAt cs (scTokenID c) = beInt (scCoefficient c)"
  by (simp add: coefAt_def find_distinct_key)

lemma coefAt_nonneg: "0 \<le> coefAt cs t"
  by (simp add: coefAt_def beInt_nonneg split: option.split)

text \<open>The stake of an address with itself earns nothing; another one is paid at most what it is owed.\<close>

lemma ok_assignStakeRewards:
  assumes "posTokenInv cfg s" "length (stValidator st) = 20" "length staker = 20" "0 \<le> stAmount st" "distinct (map scTokenID (vdCoefficients v))"
    "\<forall>t. coefAt (stCoefficients st) t \<le> coefAt (vdCoefficients v) t" "C (stValidator st) = vdCoefficients v"
  shows "ok (assignStakeRewards cfg staker st v) (\<lambda>_. paid cfg s (oweStake C staker st)) s"
proof (cases "stValidator st = staker")
  case True
  then have "paid cfg s (oweStake C staker st) s" by (intro paid_mono[OF paid_refl[OF assms(1)]]) (auto simp: oweStake_def)
  then show ?thesis using True by (simp add: assignStakeRewards_def wp)
next
  case False
  have "\<forall>c \<in> set (vdCoefficients v). coefAt (stCoefficients st) (scTokenID c) \<le> beInt (scCoefficient c)"
    using assms(5,6) coefAt_member by metis
  note all = ok_assignAll[OF assms(1-5) this]
  have "owesList st (vdCoefficients v) a t \<le> oweStake C staker st a t" for a t
  proof (cases "find (\<lambda>c. scTokenID c = t) (vdCoefficients v)")
    case None
    then have "coefAt (vdCoefficients v) t = 0" by (simp add: coefAt_def)
    then have "coefAt (stCoefficients st) t = 0" using assms(6) coefAt_nonneg[of "stCoefficients st" t] by (metis order_antisym)
    then show ?thesis using None \<open>coefAt (vdCoefficients v) t = 0\<close> assms(7) by (auto simp: owesList_def oweStake_def)
  next
    case (Some c)
    then show ?thesis using assms(7) False by (auto simp: owesList_def oweStake_def coefAt_def)
  qed
  note le = this
  show ?thesis using False ok_mono[OF all paid_mono[OF _ le]] by (simp add: assignStakeRewards_def)
qed

section \<open>All stakes of a staker\<close>

abbreviation "ledgerInv cfg T U s \<equiv> posTokenInv cfg s \<and>
  booksDelta (pcLib cfg) (posTokenID cfg) T U (stakerStore s) (validatorStore s) (locked cfg s)"

abbreviation posInv :: "posConfig \<Rightarrow> posCtx \<Rightarrow> bool" where
  "posInv cfg \<equiv> ledgerInv cfg (\<lambda>_. 0) (\<lambda>_. 0)"

lemma ok_validatorGet:
  assumes "\<And>v. validatorOfAddr (pcLib cfg) (validatorStore s) a = Some v \<Longrightarrow> Q v s"
  shows "ok (validatorGet cfg a) Q s"
  using assms by (auto simp: validatorGet_def wp validatorOfAddr_def split: option.split sum.split)

lemma ok_stakerGet:
  assumes "\<And>d. d = stakerOfAddr (pcLib cfg) (stakerStore s) a \<Longrightarrow> Q d s"
  shows "ok (stakerGet cfg a) Q s"
  using assms by (auto simp: stakerGet_def wp stakerOfAddr_def sdOf_def split: option.split sum.split)

lemma ok_stakerGetOrDefault:
  assumes "\<And>d. d = stakerOfAddr (pcLib cfg) (stakerStore s) a \<Longrightarrow> Q d s"
  shows "ok (stakerGetOrDefault cfg a) Q s"
  using assms by (auto simp: stakerGetOrDefault_def stakerGet_def wp stakerOfAddr_def sdOf_def emptyStaker_def split: option.split sum.split)

lemma paid_frame:
  assumes "paid cfg s F (s' :: posCtx)"
  shows "posTokenInv cfg s'" "stakerStore s' = stakerStore s" "validatorStore s' = validatorStore s"
  using assms posFrame[of s' s] by (simp_all add: paid_def)

lemma paid_le: "paid cfg s F s' \<Longrightarrow> length a = 20 \<Longrightarrow> qOne * locked cfg s a t \<le> qOne * locked cfg s' a t + F a t"
  by (simp add: paid_def)

lemma validator_length: "booksDelta lib tok T U sk vk L \<Longrightarrow> validatorOfAddr lib vk a = Some v \<Longrightarrow> length a = 20 \<and> accountOkPos lib v"
  using books_validator[of lib tok T U sk vk L a v] by (simp add: validatorBooked_def)

definition claimed :: "(bytes \<Rightarrow> sharingCoefficient list) \<Rightarrow> stakeObject \<Rightarrow> stakeObject" where
  "claimed C st = st\<lparr>stCoefficients := C (stValidator st)\<rparr>"

lemma ok_assign:
  assumes b: "booksDelta (pcLib cfg) tok T U sk (validatorStore s) L" and i: "posTokenInv cfg s" and a: "length staker = 20" "0 \<le> stAmount st"
    and v: "validatorOfAddr (pcLib cfg) (validatorStore s) (stValidator st) = Some v"
    and c: "\<forall>t. coefAt (stCoefficients st) t \<le> coefAt (vdCoefficients v) t"
  shows "ok (assignStakeRewards cfg staker st v) (\<lambda>_. paid cfg s (oweStake (coefsOf (pcLib cfg) (validatorStore s)) staker st)) s"
  using validator_length[OF b v] c a v by (intro ok_assignStakeRewards[OF i]) (auto simp: accountOkPos_def coefsOf_def)

lemma ok_claimStakes:
  assumes b: "booksDelta (pcLib cfg) tok T U sk (validatorStore s) L" and i: "posTokenInv cfg s" and a: "length staker = 20"
    and ss: "\<forall>st \<in> set ss. 0 \<le> stAmount st \<and>
      (\<exists>v. validatorOfAddr (pcLib cfg) (validatorStore s) (stValidator st) = Some v \<and> (\<forall>t. coefAt (stCoefficients st) t \<le> coefAt (vdCoefficients v) t))"
  shows "ok (claimStakes cfg staker ss)
    (\<lambda>r s'. r = map (claimed (coefsOf (pcLib cfg) (validatorStore s))) ss \<and> paid cfg s (oweList (coefsOf (pcLib cfg) (validatorStore s)) staker ss) s') s"
  using b i ss
proof (induction ss arbitrary: s)
  case Nil
  then show ?case by (simp add: wp oweList_def paid_refl)
next
  case (Cons st ss)
  let ?C = "coefsOf (pcLib cfg) (validatorStore s)"
  have rest: "ok (claimStakes cfg staker ss) (\<lambda>r s'. r = map (claimed ?C) ss \<and> paid cfg s (oweList ?C staker (st # ss)) s') s1"
    if p: "paid cfg s (oweStake ?C staker st) s1" for s1
  proof -
    note f = paid_frame[OF p]
    have "ok (claimStakes cfg staker ss) (\<lambda>r s'. r = map (claimed ?C) ss \<and> paid cfg s1 (oweList ?C staker ss) s') s1"
      using Cons.IH[of s1] Cons.prems f by simp
    then show ?thesis by (rule ok_mono) (use paid_trans[OF p] in \<open>auto simp: oweList_def\<close>)
  qed
  have as: "ok (assignStakeRewards cfg staker st v) (\<lambda>_. paid cfg s (oweStake ?C staker st)) s"
    if "validatorOfAddr (pcLib cfg) (validatorStore s) (stValidator st) = Some v" for v
    using Cons.prems(3) that by (intro ok_assign[OF Cons.prems(1,2) a _ that]) auto
  show ?case unfolding claimStakes.simps wp_bind wp_andThen wp_ret
  proof (rule ok_validatorGet, rule ok_mono[OF as], assumption, rule ok_mono[OF rest], assumption, goal_cases)
    case (1 v u s1 r t)
    then show ?case by (simp add: claimed_def coefsOf_def)
  qed
qed

end
