(* ===== verification/PosSteps.thy ===== *)
theory PosSteps
  imports PosClaims
begin

text \<open>
  Every command and method of the module keeps the books: the totals of the validators are the sums of
  the stakes, and the locks of the module cover stakes, pending unlocks and unassigned rewards.
\<close>

section \<open>Sums\<close>

lemma stakeTo_split:
  assumes "distinct (map stValidator ss)" "i < length ss"
  shows "sum_list (map (\<lambda>s. if stValidator s = v then stAmount s else 0) ss) =
    (if stValidator (ss ! i) = v then stAmount (ss ! i) else sum_list (map (\<lambda>s. if stValidator s = v then stAmount s else 0) ss))"
  using assms
proof (induction ss arbitrary: i)
  case (Cons s ss)
  show ?case
  proof (cases i)
    case 0
    have "sum_list (map (\<lambda>s. if stValidator s = v then stAmount s else 0) ss) = 0" if "stValidator s = v"
      using Cons.prems(1) that by (intro sum_zero) (auto simp: rev_image_eqI)
    then show ?thesis using 0 by simp
  next
    case (Suc j)
    then have "j < length ss" "distinct (map stValidator ss)" using Cons.prems by simp_all
    moreover have "stValidator s \<noteq> stValidator (ss ! j)" using Cons.prems Suc by auto
    ultimately show ?thesis using Cons.IH[of j] Suc by auto
  qed
qed simp

lemma sum_update: "i < length xs \<Longrightarrow> sum_list (map f (xs[i := x])) = sum_list (map f xs) - f (xs ! i) + (f x :: int)"
  by (induction xs arbitrary: i) (auto split: nat.split)

lemma sum_nonneg_member: "(\<And>x. x \<in> set xs \<Longrightarrow> 0 \<le> (f x :: int)) \<Longrightarrow> x \<in> set xs \<Longrightarrow> f x \<le> sum_list (map f xs)"
proof (induction xs)
  case (Cons y ys)
  then have "0 \<le> sum_list (map f ys)" by (intro sum_list_nonneg) auto
  then show ?case using Cons by (cases "x = y") fastforce+
qed simp

lemma stakeTo_nonneg: "stakerLow d \<Longrightarrow> 0 \<le> stakeTo d v"
  unfolding stakeTo_def by (rule sum_list_nonneg) (auto simp: stakerLow_def list_all_iff)

lemma books_low:
  assumes "booksDelta lib tok T U sk vk L" "(k, c) \<in> set sk"
  shows "stakerLow (sdOf lib c)" "stakerOk (validatorOfAddr lib vk) (sdOf lib c)" "sdOf lib c = stakerOfAddr lib sk k" "length k = 20"
proof -
  have g: "kvget sk k = Some c" using kvget_member[OF books_kvok(1)[OF assms(1)]] assms(2) by simp
  obtain d where d: "dec (stakerSchema lib) c = Inr d" "stakerOk (validatorOfAddr lib vk) d" "length k = 20" using books_entry(1)[OF assms(1) g] by blast
  then show "stakerOk (validatorOfAddr lib vk) (sdOf lib c)" "sdOf lib c = stakerOfAddr lib sk k" "length k = 20"
    using g by (simp_all add: sdOf_def stakerOfAddr_def)
  then show "stakerLow (sdOf lib c)" by (simp add: stakerOk_def)
qed

lemma totalTo_ge:
  assumes b: "booksDelta lib tok T U sk vk L"
  shows "stakeTo (stakerOfAddr lib sk a) v \<le> totalTo lib sk v" "0 \<le> stakeTo (stakerOfAddr lib sk a) v"
proof -
  have nn: "0 \<le> stakeTo (sdOf lib (snd e)) v" if "e \<in> set sk" for e
    using stakeTo_nonneg[OF books_low(1)[OF b]] that by (cases e) simp
  show p: "0 \<le> stakeTo (stakerOfAddr lib sk a) v"
    using books_staker[OF b] by (intro stakeTo_nonneg) (simp add: stakerOk_def)
  show "stakeTo (stakerOfAddr lib sk a) v \<le> totalTo lib sk v"
  proof (cases "kvget sk a")
    case None
    then show ?thesis using nn unfolding totalTo_def kvsum_def by (auto simp: stakerOfAddr_def intro!: sum_list_nonneg)
  next
    case (Some c)
    then have m: "(a, c) \<in> set sk" using kvget_member[OF books_kvok(1)[OF b]] by simp
    show ?thesis using sum_nonneg_member[where f = "\<lambda>e. stakeTo (sdOf lib (snd e)) v", OF nn m] Some
      unfolding totalTo_def kvsum_def by (simp add: stakerOfAddr_def)
  qed
qed

section \<open>Claiming\<close>

lemma oweList_claimed: "oweList C k (map (claimed C) ss) a t = 0"
  unfolding oweList_def by (auto intro!: sum_zero simp: oweStake_def claimed_def)

lemma stakerOk_claimed:
  assumes "stakerOk (validatorOfAddr lib vk) d"
  shows "stakerOk (validatorOfAddr lib vk) (d\<lparr>sdStakes := map (claimed (coefsOf lib vk)) (sdStakes d)\<rparr>)"
  using assms by (auto simp: stakerOk_def stakerLow_def list_all_iff claimed_def coefsOf_def o_def)

lemma claimed_sums:
  "stakeTo (d\<lparr>sdStakes := map (claimed C) (sdStakes d)\<rparr>) v = stakeTo d v" "ownAmount (d\<lparr>sdStakes := map (claimed C) (sdStakes d)\<rparr>) = ownAmount d"
  by (simp_all add: stakeTo_def ownAmount_def claimed_def o_def cong: if_cong)

lemma stakes_ok:
  assumes "booksDelta lib tok T U sk vk L"
  shows "\<forall>st \<in> set (sdStakes (stakerOfAddr lib sk a)). 0 \<le> stAmount st \<and>
      (\<exists>v. validatorOfAddr lib vk (stValidator st) = Some v \<and> (\<forall>t. coefAt (stCoefficients st) t \<le> coefAt (vdCoefficients v) t))"
  using books_staker[OF assms, of a] by (auto simp: stakerOk_def stakerLow_def list_all_iff)

lemma ok_stakerSet:
  assumes "\<And>bs. enc (stakerSchema (pcLib cfg)) d = Inr bs \<Longrightarrow> Q () (stakerStore_update (kvset a bs) s)"
  shows "ok (stakerSet cfg a d) Q s"
  using assms by (auto simp: stakerSet_def wp split: sum.split)

lemma ok_validatorSet:
  assumes "\<And>bs. enc (accountSchema (pcLib cfg)) d = Inr bs \<Longrightarrow> Q () (validatorStore_update (kvset a bs) s)"
  shows "ok (validatorSet cfg a d) Q s"
  using assms by (auto simp: validatorSet_def wp split: sum.split)

lemma ledger_updates [simp]:
  "posTokenInv cfg (stakerStore_update f s) = posTokenInv cfg s" "posTokenInv cfg (validatorStore_update f s) = posTokenInv cfg s"
  "posTokenInv cfg (eligibleStore_update f s) = posTokenInv cfg s" "posTokenInv cfg (nameStore_update f s) = posTokenInv cfg s"
  "locked cfg (stakerStore_update f s) = locked cfg s" "locked cfg (validatorStore_update f s) = locked cfg s"
  "locked cfg (eligibleStore_update f s) = locked cfg s" "locked cfg (nameStore_update f s) = locked cfg s" "locked cfg (s\<lparr>cEvents := y\<rparr>) = locked cfg s"
  by (simp_all add: tokenInv_def locked_def fun_eq_iff)

lemma books_payStaker:
  assumes b: "booksDelta (pcLib cfg) tok T U sk vk (locked cfg s)" and p: "paid cfg s F s'" and k: "length k = 20"
    and d: "stakerOk (validatorOfAddr (pcLib cfg) vk) d" "enc (stakerSchema (pcLib cfg)) d = Inr bs"
    and le: "\<And>a t. claimsOf tok (coefsOf (pcLib cfg) vk) k d a t + F a t \<le> claimsOf tok (coefsOf (pcLib cfg) vk) k (stakerOfAddr (pcLib cfg) sk k) a t"
    and T: "\<And>a. T' a = T a + stakeTo (stakerOfAddr (pcLib cfg) sk k) a - stakeTo d a"
    and U: "\<And>a. U' a = (if a = k then U a + stakeTo (stakerOfAddr (pcLib cfg) sk k) a - stakeTo d a else U a)"
  shows "booksDelta (pcLib cfg) tok T' U' (kvset k bs sk) vk (locked cfg s')"
proof (rule books_setStaker[OF b k d])
  fix a t :: bytes assume "length a = 20"
  from paid_le[OF p this, of t] le[of a t] show "claimsOf tok (coefsOf (pcLib cfg) vk) k d a t + qOne * locked cfg s a t \<le>
      claimsOf tok (coefsOf (pcLib cfg) vk) k (stakerOfAddr (pcLib cfg) sk k) a t + qOne * locked cfg s' a t" by linarith
qed (rule T, rule U)

lemma keeps_claimRewards:
  assumes "posInv cfg s" "length sender = 20"
  shows "ok (claimRewardsExecute cfg sender) (\<lambda>_. posInv cfg) s"
  unfolding claimRewardsExecute_def wp_bind
proof (rule ok_stakerGet, rule ok_mono[OF ok_claimStakes], goal_cases)
  case (5 d r s1)
  note b = conjunct2[OF assms(1)]
  note p = conjunct2[OF 5(2)]
  let ?C = "coefsOf (pcLib cfg) (validatorStore s)"
  have r: "d\<lparr>sdStakes := r\<rparr> = d\<lparr>sdStakes := map (claimed ?C) (sdStakes d)\<rparr>" using 5 by simp
  have ok: "stakerOk (validatorOfAddr (pcLib cfg) (validatorStore s)) (d\<lparr>sdStakes := r\<rparr>)"
    unfolding r using stakerOk_claimed[OF books_staker[OF b, of sender]] 5 by simp
  show ?case
  proof (rule ok_stakerSet, intro conjI, goal_cases)
    case (2 bs)
    have "booksDelta (pcLib cfg) (posTokenID cfg) (\<lambda>_. 0) (\<lambda>_. 0) (kvset sender bs (stakerStore s)) (validatorStore s) (locked cfg s1)"
      by (rule books_payStaker[OF b p assms(2) ok 2]) (simp_all only: r 5(1)[symmetric], simp_all add: claimsOf_def oweList_claimed claimed_sums)
    then show ?case using paid_frame[OF p] by simp
  qed (use paid_frame[OF p] in simp)
qed (use assms stakes_ok in auto)

end
