(* ===== verification/PosStake.thy ===== *)
theory PosStake
  imports PosSteps
begin

text \<open>
  The stake command: what replacing, adding and removing a stake does to the sums of the books, and that one entry
  of the command keeps them.
\<close>

section \<open>Stakes\<close>

text \<open>What one entry of a stake transaction does to the staker, before anything is written.\<close>

definition stakesOk :: "(bytes \<Rightarrow> validatorAccount option) \<Rightarrow> stakeObject list \<Rightarrow> bool" where
  "stakesOk W ss = (distinct (map stValidator ss) \<and> (\<forall>s \<in> set ss. 0 \<le> stAmount s \<and>
     (\<exists>v. W (stValidator s) = Some v \<and> (\<forall>t. coefAt (stCoefficients s) t \<le> coefAt (vdCoefficients v) t))))"

lemma stakerOk_stakes: "stakerOk W d \<longleftrightarrow> stakesOk W (sdStakes d) \<and> list_all (\<lambda>u. 0 \<le> unAmount u \<and> 0 \<le> unHeight u) (sdUnlocks d)"
  by (auto simp: stakerOk_def stakesOk_def stakerLow_def list_all_iff)

lemma stakesOk_nth:
  assumes "stakesOk W ss" "j < length ss" "W (stValidator (ss ! j)) = Some v"
  shows "0 \<le> stAmount (ss ! j)" "\<forall>t. coefAt (stCoefficients (ss ! j)) t \<le> coefAt (vdCoefficients v) t"
proof -
  have "0 \<le> stAmount (ss ! j) \<and> (\<exists>v. W (stValidator (ss ! j)) = Some v \<and> (\<forall>t. coefAt (stCoefficients (ss ! j)) t \<le> coefAt (vdCoefficients v) t))"
    using assms(1,2) by (simp add: stakesOk_def)
  then show "0 \<le> stAmount (ss ! j)" "\<forall>t. coefAt (stCoefficients (ss ! j)) t \<le> coefAt (vdCoefficients v) t" using assms(3) by auto
qed

definition stakeSum :: "stakeObject list \<Rightarrow> bytes \<Rightarrow> int" where
  "stakeSum ss v = sum_list (map (\<lambda>s. if stValidator s = v then stAmount s else 0) ss)"

lemma stakeTo_sum: "stakeTo d v = stakeSum (sdStakes d) v"
  by (simp add: stakeTo_def stakeSum_def)

lemma sum_filter: "(\<And>x. x \<in> set xs \<Longrightarrow> \<not> P x \<Longrightarrow> f x = (0::int)) \<Longrightarrow> sum_list (map f (filter P xs)) = sum_list (map f xs)"
  by (induction xs) auto

lemma distinct_update:
  assumes "distinct (map f xs)" "i < length xs" "f x = f (xs ! i)"
  shows "map f (xs[i := x]) = map f xs" "y \<in> set (xs[i := x]) \<Longrightarrow> f y = f x \<Longrightarrow> y = x"
proof -
  show m: "map f (xs[i := x]) = map f xs" using assms(2,3) by (metis list_update_id map_update)
  assume y: "y \<in> set (xs[i := x])" "f y = f x"
  then obtain j where j: "j < length xs" "y = xs[i := x] ! j" by (auto simp: in_set_conv_nth)
  show "y = x"
  proof (cases "j = i")
    case False
    then have "f (xs ! j) = f (xs ! i)" using j y(2) assms(3) by simp
    then show ?thesis using nth_eq_iff_index_eq[OF assms(1), of j i] j(1) assms(2) False by simp
  qed (use j assms(2) in simp)
qed

lemma replaced:
  assumes ok: "stakesOk W ss" and i: "i < length ss" and W: "W (stValidator (ss ! i)) = Some v" and C: "C (stValidator (ss ! i)) = vdCoefficients v"
    and n: "0 \<le> stAmount (ss ! i) + n" and x: "x = (ss ! i)\<lparr>stAmount := stAmount (ss ! i) + n, stCoefficients := vdCoefficients v\<rparr>"
  shows "stakesOk W (ss[i := x])"
    "oweList C k (ss[i := x]) a t = oweList C k ss a t - oweStake C k (ss ! i) a t"
    "stakeSum (ss[i := x]) b = stakeSum ss b + (if b = stValidator (ss ! i) then n else 0)"
    "sum_list (map stAmount (ss[i := x])) = sum_list (map stAmount ss) + n"
    "y \<in> set (ss[i := x]) \<Longrightarrow> stValidator y = stValidator (ss ! i) \<Longrightarrow> y = x"
proof -
  have v: "stValidator x = stValidator (ss ! i)" using x by simp
  have d: "distinct (map stValidator ss)" using ok by (simp add: stakesOk_def)
  note u = distinct_update[where f = stValidator, OF d i v]
  show "y \<in> set (ss[i := x]) \<Longrightarrow> stValidator y = stValidator (ss ! i) \<Longrightarrow> y = x" using u(2) v by simp
  have "\<forall>s \<in> set (ss[i := x]). 0 \<le> stAmount s \<and> (\<exists>v. W (stValidator s) = Some v \<and> (\<forall>t. coefAt (stCoefficients s) t \<le> coefAt (vdCoefficients v) t))"
  proof
    fix s assume "s \<in> set (ss[i := x])"
    then consider "s = x" | "s \<in> set ss" using set_update_subset_insert[of ss i x] by auto
    then show "0 \<le> stAmount s \<and> (\<exists>v. W (stValidator s) = Some v \<and> (\<forall>t. coefAt (stCoefficients s) t \<le> coefAt (vdCoefficients v) t))"
      by cases (use ok W n x in \<open>auto simp: stakesOk_def\<close>)
  qed
  then show "stakesOk W (ss[i := x])" using u(1) d by (simp add: stakesOk_def)
  have z: "oweStake C k x a t = 0" using C by (auto simp: oweStake_def x)
  show "oweList C k (ss[i := x]) a t = oweList C k ss a t - oweStake C k (ss ! i) a t" unfolding oweList_def sum_update[OF i] z by simp
  show "stakeSum (ss[i := x]) b = stakeSum ss b + (if b = stValidator (ss ! i) then n else 0)" unfolding stakeSum_def sum_update[OF i] by (simp add: x)
  show "sum_list (map stAmount (ss[i := x])) = sum_list (map stAmount ss) + n" unfolding sum_update[OF i] by (simp add: x)
qed

lemma sorted_stakes:
  "stakesOk W (sortBy f ss) = stakesOk W ss" "oweList C k (sortBy f ss) a t = oweList C k ss a t" "stakeSum (sortBy f ss) b = stakeSum ss b"
  by (simp_all add: stakesOk_def oweList_def stakeSum_def)

lemma dropped:
  assumes "stakesOk W ss" "\<And>s. s \<in> set ss \<Longrightarrow> \<not> P s \<Longrightarrow> stAmount s = 0"
  shows "stakesOk W (filter P ss)" "oweList C k (filter P ss) a t = oweList C k ss a t" "stakeSum (filter P ss) b = stakeSum ss b"
    "sum_list (map stAmount (filter P ss)) = sum_list (map stAmount ss)"
proof -
  show "stakesOk W (filter P ss)" using assms(1) by (auto simp: stakesOk_def distinct_map_filter)
  have "oweStake C k s a t = 0" if "s \<in> set ss" "\<not> P s" for s using assms(2)[OF that] by (simp add: oweStake_def)
  then show "oweList C k (filter P ss) a t = oweList C k ss a t" unfolding oweList_def by (rule sum_filter)
  have "(if stValidator s = b then stAmount s else 0) = 0" if "s \<in> set ss" "\<not> P s" for s using assms(2)[OF that] by simp
  then show "stakeSum (filter P ss) b = stakeSum ss b" unfolding stakeSum_def by (rule sum_filter)
  show "sum_list (map stAmount (filter P ss)) = sum_list (map stAmount ss)" using assms(2) by (rule sum_filter)
qed

text \<open>The staker data that an entry leaves, and what it has released.\<close>

definition restaked :: "posConfig \<Rightarrow> posCtx \<Rightarrow> bytes \<Rightarrow> bytes \<Rightarrow> int \<Rightarrow> stakerData \<Rightarrow> stakerData \<Rightarrow> posCtx \<Rightarrow> bool" where
  "restaked cfg s sender va n d d' s1 =
     (let C = coefsOf (pcLib cfg) (validatorStore s) in
      stakerOk (validatorOfAddr (pcLib cfg) (validatorStore s)) d' \<and>
      (\<forall>a. stakeTo d' a = stakeTo d a + (if a = va then n else 0)) \<and>
      (\<exists>F. paid cfg s F s1 \<and> (\<forall>a t. claimsOf (posTokenID cfg) C sender d' a t + F a t \<le> claimsOf (posTokenID cfg) C sender d a t)))"

lemma ok_downstake:
  assumes b: "booksDelta (pcLib cfg) tok T U (stakerStore s) (validatorStore s) L" and i: "posTokenInv cfg s" and a: "length sender = 20" "n < 0" "0 \<le> height"
    and v: "validatorOfAddr (pcLib cfg) (validatorStore s) va = Some v"
    and d: "stakerOk (validatorOfAddr (pcLib cfg) (validatorStore s)) d"
  shows "ok (downstake cfg height sender va n v d) (restaked cfg s sender va n d) s"
proof (cases "findIndex (\<lambda>s. stValidator s = va) (sdStakes d)")
  case None
  then show ?thesis by (simp add: downstake_def Let_def wp_andThen validatorStakedEvent_def) (rule ok_posEvent, simp add: wp)
next
  case (Some j)
  let ?ss = "sdStakes d" and ?C = "coefsOf (pcLib cfg) (validatorStore s)" and ?W = "validatorOfAddr (pcLib cfg) (validatorStore s)"
  define x where "x = (?ss ! j)\<lparr>stAmount := stAmount (?ss ! j) + n, stCoefficients := vdCoefficients v\<rparr>"
  have j: "j < length ?ss" "stValidator (?ss ! j) = va" using findIndex_Some[OF Some] by auto
  have ok: "stakesOk ?W ?ss" and un: "list_all (\<lambda>u. 0 \<le> unAmount u \<and> 0 \<le> unHeight u) (sdUnlocks d)" using d by (simp_all add: stakerOk_stakes)
  define st' where "st' = (if stAmount x = 0 then filter (\<lambda>s. stValidator s \<noteq> va) (?ss[j := x]) else ?ss[j := x])"
  define un' where "un' = sortUnlocking (sdUnlocks d @ [\<lparr>unValidator = va, unAmount = - n, unHeight = height\<rparr>])"
  have R: "restaked cfg s sender va n d \<lparr>sdStakes = st', sdUnlocks = un'\<rparr> s1"
    if n: "0 \<le> stAmount (?ss ! j) + n" and p: "paid cfg s (oweStake ?C sender (?ss ! j)) s1" for s1
  proof -
    have W: "?W (stValidator (?ss ! j)) = Some v" "?C (stValidator (?ss ! j)) = vdCoefficients v" using v j by (simp_all add: coefsOf_def)
    note r = replaced[where W = ?W and C = ?C, OF ok j(1) W n x_def]
    have z: "stAmount y = 0" if "stAmount x = 0" "y \<in> set (?ss[j := x])" "\<not> stValidator y \<noteq> va" for y using r(5)[OF that(2)] that j by simp
    have same: "stakesOk ?W st' \<and> (\<forall>a t. oweList ?C sender st' a t = oweList ?C sender (?ss[j := x]) a t) \<and>
        (\<forall>b. stakeSum st' b = stakeSum (?ss[j := x]) b) \<and> sum_list (map stAmount st') = sum_list (map stAmount (?ss[j := x]))"
    proof (cases "stAmount x = 0")
      case True
      note dr = dropped[where P = "\<lambda>s. stValidator s \<noteq> va", OF r(1) z[OF True]]
      have "st' = filter (\<lambda>s. stValidator s \<noteq> va) (?ss[j := x])" using True by (simp add: st'_def)
      then show ?thesis using dr by simp
    next
      case False
      then show ?thesis using r(1) by (simp add: st'_def)
    qed
    have st: "stakesOk ?W st'" "\<And>a t. oweList ?C sender st' a t = oweList ?C sender ?ss a t - oweStake ?C sender (?ss ! j) a t"
        "\<And>b. stakeSum st' b = stakeSum ?ss b + (if b = va then n else 0)" "sum_list (map stAmount st') = sum_list (map stAmount ?ss) + n"
      using same r(2-4) j(2) by simp_all
    have un: "list_all (\<lambda>u. 0 \<le> unAmount u \<and> 0 \<le> unHeight u) un'" using un a by (auto simp: un'_def sortUnlocking_def list_all_iff)
    have us: "sum_list (map unAmount un') = sum_list (map unAmount (sdUnlocks d)) - n" by (simp add: un'_def sortUnlocking_def)
    show ?thesis unfolding restaked_def Let_def
      by (intro conjI exI[of _ "oweStake ?C sender (?ss ! j)"] p)
         (simp_all add: stakerOk_stakes st un stakeTo_sum claimsOf_def ownAmount_def us)
  qed
  have as: "ok (assignStakeRewards cfg sender (?ss ! j) v) (\<lambda>_. paid cfg s (oweStake ?C sender (?ss ! j))) s"
    by (rule ok_assign[OF b i a(1)]) (use stakesOk_nth[where W = ?W, OF ok j(1)] j v in \<open>simp_all\<close>)
  have ev: "ok (andThen (validatorStakedEvent cfg sender va n r) (throw e)) Q s1" for r e Q s1
    unfolding wp_andThen validatorStakedEvent_def by (rule ok_posEvent) (simp add: wp)
  have big: "ok (andThen (assignStakeRewards cfg sender (?ss ! j) v)
      (if length un' > maxNumberPendingUnlocks cfg
       then andThen (validatorStakedEvent cfg sender va n STAKE_FAILED_TOO_MANY_PENDING_UNLOCKS) (throw (Error ''Pending unlocks cannot exceed the maximum.''))
       else ret \<lparr>sdStakes = st', sdUnlocks = un'\<rparr>)) (restaked cfg s sender va n d) s" if nn: "0 \<le> stAmount (?ss ! j) + n"
    unfolding wp_andThen[of "assignStakeRewards _ _ _ _"] wp_if wp_ret
    by (rule ok_mono[OF as]) (use ev R[OF nn] in simp)
  show ?thesis
    unfolding downstake_def Let_def Some option.case x_def[symmetric] un'_def[symmetric] st'_def[symmetric] wp_if
    using ev big by (simp add: not_less)
qed

lemma paid_frames: "paid cfg s F (s' :: posCtx) \<Longrightarrow> stakerStore s' = stakerStore s \<and> validatorStore s' = validatorStore s \<and> posTokenInv cfg s'"
  using paid_frame by blast

lemma ok_upstake:
  assumes b: "booksDelta (pcLib cfg) tok T U (stakerStore s) (validatorStore s) L" and i: "posTokenInv cfg s" and a: "length sender = 20" "0 \<le> n"
    and m: "nameOk (pcLib cfg) MODULE_NAME_POS"
    and v: "validatorOfAddr (pcLib cfg) (validatorStore s) va = Some v"
    and d: "stakerOk (validatorOfAddr (pcLib cfg) (validatorStore s)) d"
  shows "ok (upstake cfg sender va n v d) (restaked cfg s sender va n d) s"
proof -
  let ?ss = "sdStakes d" and ?C = "coefsOf (pcLib cfg) (validatorStore s)" and ?W = "validatorOfAddr (pcLib cfg) (validatorStore s)"
  have ok: "stakesOk ?W ?ss" and un: "list_all (\<lambda>u. 0 \<le> unAmount u \<and> 0 \<le> unHeight u) (sdUnlocks d)" using d by (simp_all add: stakerOk_stakes)
  define G where "G = (\<lambda>ss s2. stakesOk ?W ss \<and> (\<forall>b. stakeSum ss b = stakeSum ?ss b + (if b = va then n else 0)) \<and>
     sum_list (map stAmount ss) = sum_list (map stAmount ?ss) + n \<and>
     (\<exists>F. paid cfg s F s2 \<and> (\<forall>a t. oweList ?C sender ss a t + F a t \<le> oweList ?C sender ?ss a t + atLock sender (posTokenID cfg) (- n) a t)))"
  have fin: "ok (let stakes' = sortBy (\<lambda>a b. bufferCompare (stValidator a) (stValidator b)) ss in
      if length stakes' > maxNumberSentStakes cfg
      then andThen (validatorStakedEvent cfg sender va n STAKE_FAILED_TOO_MANY_SENT_STAKES) (throw (Error ''Sender can only stake upto the maximum.''))
      else ret (d\<lparr>sdStakes := stakes'\<rparr>)) (restaked cfg s sender va n d) s2" if g: "G ss s2" for ss s2
  proof -
    obtain F where F: "paid cfg s F s2" "\<And>a t. oweList ?C sender ss a t + F a t \<le> oweList ?C sender ?ss a t + atLock sender (posTokenID cfg) (- n) a t"
      using g by (auto simp: G_def)
    have le: "claimsOf (posTokenID cfg) ?C sender (d\<lparr>sdStakes := sortBy f ss\<rparr>) a t + F a t \<le> claimsOf (posTokenID cfg) ?C sender d a t" for f a t
      using F(2)[of a t] g by (auto simp add: claimsOf_def ownAmount_def sorted_stakes atLock_def G_def algebra_simps)
    have "restaked cfg s sender va n d (d\<lparr>sdStakes := sortBy f ss\<rparr>) s2" for f
      unfolding restaked_def Let_def using F(1) le g un by (auto simp: G_def stakerOk_stakes sorted_stakes stakeTo_sum)
    then show ?thesis unfolding Let_def wp_if wp_andThen validatorStakedEvent_def by (auto simp: wp_ret wp_throw intro!: ok_posEvent)
  qed
  have mid: "ok (case findIndex (\<lambda>s. stValidator s = va) ?ss of
        Some i \<Rightarrow> let s = ?ss ! i in andThen (assignStakeRewards cfg sender s v) (ret (?ss[i := s\<lparr>stAmount := stAmount s + n, stCoefficients := vdCoefficients v\<rparr>]))
      | None \<Rightarrow> ret (?ss @ [\<lparr>stValidator = va, stAmount = n, stCoefficients = vdCoefficients v\<rparr>])) G s1"
    if p: "paid cfg s (atLock sender (posTokenID cfg) (- n)) s1" for s1
  proof (cases "findIndex (\<lambda>s. stValidator s = va) ?ss")
    case None
    then have "va \<notin> stValidator ` set ?ss" by (auto simp: findIndex_None)
    then have "stakesOk ?W (?ss @ [\<lparr>stValidator = va, stAmount = n, stCoefficients = vdCoefficients v\<rparr>])"
      using ok v a(2) by (auto simp: stakesOk_def)
    moreover have "oweStake ?C sender \<lparr>stValidator = va, stAmount = n, stCoefficients = vdCoefficients v\<rparr> x t = 0" for x t
      using v by (auto simp: oweStake_def coefsOf_def)
    ultimately have "G (?ss @ [\<lparr>stValidator = va, stAmount = n, stCoefficients = vdCoefficients v\<rparr>]) s1"
      unfolding G_def by (intro conjI exI[of _ "atLock sender (posTokenID cfg) (- n)"] p) (simp_all add: stakeSum_def oweList_def)
    then show ?thesis by (simp add: None wp_ret)
  next
    case (Some j)
    have j: "j < length ?ss" "stValidator (?ss ! j) = va" using findIndex_Some[OF Some] by auto
    have W: "?W (stValidator (?ss ! j)) = Some v" "?C (stValidator (?ss ! j)) = vdCoefficients v" using v j by (simp_all add: coefsOf_def)
    have nn: "0 \<le> stAmount (?ss ! j) + n" using ok j a(2) by (auto simp: stakesOk_def nth_mem)
    note r = replaced[where W = ?W and C = ?C, OF ok j(1) W nn refl]
    note f = paid_frames[OF p]
    have as: "ok (assignStakeRewards cfg sender (?ss ! j) v) (\<lambda>_. paid cfg s1 (oweStake ?C sender (?ss ! j))) s1"
      using ok_assign[of cfg tok T U "stakerStore s" s1 L sender "?ss ! j" v] b f a stakesOk_nth[where W = ?W, OF ok j(1)] j v by simp
    have g: "G (?ss[j := (?ss ! j)\<lparr>stAmount := stAmount (?ss ! j) + n, stCoefficients := vdCoefficients v\<rparr>]) s2"
      if q: "paid cfg s1 (oweStake ?C sender (?ss ! j)) s2" for s2
    proof -
      have "paid cfg s (\<lambda>a t. atLock sender (posTokenID cfg) (- n) a t + oweStake ?C sender (?ss ! j) a t) s2" by (rule paid_trans[OF p q]) simp
      then show ?thesis unfolding G_def using r(1-4) j(2)
        by (intro conjI exI[of _ "\<lambda>a t. atLock sender (posTokenID cfg) (- n) a t + oweStake ?C sender (?ss ! j) a t"]) simp_all
    qed
    show ?thesis unfolding Some option.case Let_def wp_andThen wp_ret by (rule ok_mono[OF as g])
  qed
  have lk: "ok (lock (pcToken cfg) sender MODULE_NAME_POS (posTokenID cfg) n) (\<lambda>_. paid cfg s (atLock sender (posTokenID cfg) (- n))) s"
    by (rule paid_lock[OF i a m])
  show ?thesis unfolding upstake_def wp_andThen[of "lock _ _ _ _ _"] wp_bind
    by (rule ok_mono[OF lk], rule ok_mono[OF mid], assumption, rule fin)
qed

end
