(* ===== verification/PosCommands.thy ===== *)
theory PosCommands
  imports PosStake
begin

text \<open>The remaining commands and methods of the module keep the books.\<close>

section \<open>Stake\<close>

lemma ok_eligibleUpdate:
  assumes "\<And>f. Q () (eligibleStore_update f s)"
  shows "ok (eligibleUpdate cfg a w v) Q s"
  using assms unfolding eligibleUpdate_def by (auto simp: wp Let_def split: sum.split)

lemma ledger_events [simp]: "posTokenInv cfg (s\<lparr>cEvents := y\<rparr>) = posTokenInv cfg s"
  by simp

text \<open>A validator whose stakes have been booked with the stakers.\<close>

lemma books_rebalance:
  assumes b: "booksDelta lib tok (\<lambda>a. if a = k then - n else 0) (\<lambda>a. if a = k then - m else 0) sk vk L"
    and w: "validatorOfAddr lib vk k = Some w" and v: "v = w\<lparr>vdSelfStake := vdSelfStake w + m, vdTotalStake := vdTotalStake w + n\<rparr>"
    and e: "enc (accountSchema lib) v = Inr bs"
  shows "booksDelta lib tok (\<lambda>_. 0) (\<lambda>_. 0) sk (kvset k bs vk) L"
proof (rule books_sameCoefs[OF b w _ _ e])
  note bw = books_validator[OF b w, unfolded validatorBooked_def]
  have "vdTotalStake w + n = totalTo lib sk k" "vdSelfStake w + m = stakeTo (stakerOfAddr lib sk k) k" using bw by simp_all
  moreover have "0 \<le> stakeTo (stakerOfAddr lib sk k) k" "0 \<le> totalTo lib sk k"
    using totalTo_ge[OF b, of k k] by simp_all
  ultimately show "validatorAccountLow lib v" using bw by (simp add: v accountOkPos_def validatorAccountLow_def)
qed (simp_all add: v)

lemma ledger_final:
  assumes "posTokenInv cfg s1" "stakerStore s1 = sk" "validatorStore s1 = vk"
    "booksDelta (pcLib cfg) (posTokenID cfg) T U (kvset a bs sk) (kvset k cs vk) (locked cfg s1)"
  shows "ledgerInv cfg T U ((validatorStore_update (kvset k cs) (stakerStore_update (kvset a bs) (eligibleStore_update f s1)))\<lparr>cEvents := e\<rparr>)"
  using assms by simp

lemma keeps_stakeOne:
  assumes inv: "posInv cfg s" and a: "length sender = 20" "0 \<le> height" and m: "nameOk (pcLib cfg) MODULE_NAME_POS"
  shows "ok (stakeOne cfg height sender entry) (\<lambda>_. posInv cfg) s"
proof -
  obtain va n where entry: "entry = (va, n)" by (cases entry)
  note b = conjunct2[OF inv] and i = conjunct1[OF inv]
  let ?d = "stakerOfAddr (pcLib cfg) (stakerStore s) sender" and ?C = "coefsOf (pcLib cfg) (validatorStore s)"
  have fin: "ok (let w = getValidatorWeight (factorSelfStakes cfg) (vdSelfStake v) (vdTotalStake v);
          v1 = (if sender = va then v\<lparr>vdSelfStake := vdSelfStake v + n\<rparr> else v); v2 = v1\<lparr>vdTotalStake := vdTotalStake v1 + n\<rparr> in
      andThen (eligibleUpdate cfg va w v2) (andThen (stakerSet cfg sender d') (andThen (validatorSet cfg va v2)
      (validatorStakedEvent cfg sender va n STAKE_SUCCESSFUL)))) (\<lambda>_. posInv cfg) s1"
    if v: "validatorOfAddr (pcLib cfg) (validatorStore s) va = Some v" and r: "restaked cfg s sender va n ?d d' s1" for v d' s1
  proof -
    obtain F where F: "paid cfg s F s1" "\<And>a t. claimsOf (posTokenID cfg) ?C sender d' a t + F a t \<le> claimsOf (posTokenID cfg) ?C sender ?d a t"
      and ok: "stakerOk (validatorOfAddr (pcLib cfg) (validatorStore s)) d'" and st: "\<And>a. stakeTo d' a = stakeTo ?d a + (if a = va then n else 0)"
      using r by (auto simp: restaked_def Let_def)
    note f = paid_frame[OF F(1)]
    let ?m = "if sender = va then n else 0"
    define v2 where "v2 = v\<lparr>vdSelfStake := vdSelfStake v + ?m, vdTotalStake := vdTotalStake v + n\<rparr>"
    have v2: "(if sender = va then v\<lparr>vdSelfStake := vdSelfStake v + n\<rparr> else v)
        \<lparr>vdTotalStake := vdTotalStake (if sender = va then v\<lparr>vdSelfStake := vdSelfStake v + n\<rparr> else v) + n\<rparr> = v2"
      by (simp add: v2_def)
    have books: "booksDelta (pcLib cfg) (posTokenID cfg) (\<lambda>_. 0) (\<lambda>_. 0) (kvset sender bs (stakerStore s)) (kvset va cs (validatorStore s)) (locked cfg s1)"
      if e: "enc (stakerSchema (pcLib cfg)) d' = Inr bs" "enc (accountSchema (pcLib cfg)) v2 = Inr cs" for bs cs
    proof (rule books_rebalance[OF _ v v2_def e(2)])
      show "booksDelta (pcLib cfg) (posTokenID cfg) (\<lambda>a. if a = va then - n else 0) (\<lambda>a. if a = va then - ?m else 0)
          (kvset sender bs (stakerStore s)) (validatorStore s) (locked cfg s1)"
        by (rule books_payStaker[OF b F(1) a(1) ok e(1) F(2)]) (auto simp: st)
    qed
    show ?thesis unfolding Let_def v2 wp_andThen validatorStakedEvent_def
      by (rule ok_eligibleUpdate, rule ok_stakerSet, rule ok_validatorSet, rule ok_posEvent, rule ledger_final[OF f]) (rule books)
  qed
  have ev: "ok (andThen (validatorStakedEvent cfg sender va n r) (throw e)) Q s" for r e Q
    unfolding wp_andThen validatorStakedEvent_def by (rule ok_posEvent) (simp add: wp)
  have mid: "ok (if n < 0 then downstake cfg height sender va n v ?d else upstake cfg sender va n v ?d) (restaked cfg s sender va n ?d) s"
    if v: "validatorOfAddr (pcLib cfg) (validatorStore s) va = Some v" for v
    using ok_downstake[OF b i a(1) _ a(2) v books_staker[OF b]] ok_upstake[OF b i a(1) _ m v books_staker[OF b]] by (simp add: not_less)
  note fin' = fin[unfolded Let_def]
  show ?thesis unfolding stakeOne_def entry Let_def prod.case wp_bind wp_storeHas
  proof (rule ok_stakerGetOrDefault, goal_cases)
    case (1 d)
    show ?case
    proof (cases "kvhas (validatorStore s) va")
      case True
      then have t: "(\<not> kvhas (validatorStore s) va) = False" by simp
      show ?thesis unfolding 1 t if_False wp_bind
        by (rule ok_validatorGet, rule ok_mono[OF mid], assumption, rule fin')
    next
      case False
      show ?thesis using ev by (simp only: False not_False_eq_True if_True)
    qed
  qed
qed

lemma keeps_forEach: "(\<And>x s. P s \<Longrightarrow> ok (f x) (\<lambda>_. P) s) \<Longrightarrow> P s \<Longrightarrow> ok (forEach xs f) (\<lambda>_. P) s"
  by (rule wp_forEach) auto

lemma keeps_stake:
  assumes "posInv cfg s" "length sender = 20" "0 \<le> height" "nameOk (pcLib cfg) MODULE_NAME_POS"
  shows "ok (stakeExecute cfg height sender stakes) (\<lambda>_. posInv cfg) s"
  unfolding stakeExecute_def using keeps_stakeOne assms by (intro keeps_forEach) auto

end
