(* ===== verification/PosReports.thy ===== *)
theory PosReports
  imports PosCommands
begin

text \<open>Unlocking and punishment keep the books.\<close>

section \<open>Unlock\<close>

lemma ok_unlockLoop:
  assumes "posTokenInv cfg s" "length sender = 20" "list_all (\<lambda>u. 0 \<le> unAmount u) us"
  shows "ok (unlockLoop cfg g height certified sender us) (\<lambda>r s'. set r \<subseteq> set us \<and>
     paid cfg s (atLock sender (posTokenID cfg) (sum_list (map unAmount us) - sum_list (map unAmount r))) s') s"
  using assms(1,3)
proof (induction us arbitrary: s)
  case Nil
  have "paid cfg s (atLock sender (posTokenID cfg) 0) s" by (rule paid_mono[OF paid_refl[OF Nil(1)]]) (simp add: atLock_def)
  then show ?case by (simp add: wp)
next
  case (Cons u us)
  let ?t = "posTokenID cfg"
  have take: "ok (andThen (unlock (pcToken cfg) sender MODULE_NAME_POS ?t (unAmount u)) (unlockLoop cfg g height certified sender us))
      (\<lambda>r s'. set r \<subseteq> set (u # us) \<and> paid cfg s (atLock sender ?t (sum_list (map unAmount (u # us)) - sum_list (map unAmount r))) s') s"
    unfolding wp_andThen
  proof (rule ok_mono[OF paid_unlock[OF Cons.prems(1) assms(2)]], goal_cases)
    case (2 x s1)
    have "posTokenInv cfg s1" using 2 by (simp add: paid_def)
    note ih = Cons.IH[OF this]
    show ?case by (rule ok_mono[OF ih]) (use Cons.prems(2) in \<open>auto intro!: paid_trans[OF 2] simp: atLock_def algebra_simps\<close>)
  qed (use Cons.prems in simp)
  have leave: "ok (bind (unlockLoop cfg g height certified sender us) (\<lambda>r. ret (u # r)))
      (\<lambda>r s'. set r \<subseteq> set (u # us) \<and> paid cfg s (atLock sender ?t (sum_list (map unAmount (u # us)) - sum_list (map unAmount r))) s') s"
    unfolding wp_bind wp_ret by (rule ok_mono[OF Cons.IH[OF Cons.prems(1)]]) (use Cons.prems in auto)
  show ?case unfolding unlockLoop.simps wp_bind[of "validatorGet _ _"] by (rule ok_validatorGet) (use take leave in simp)
qed

lemma ok_genesisGet_any: "(\<And>g. Q g s) \<Longrightarrow> ok (genesisGet cfg) Q s"
  by (auto simp: genesisGet_def wp split: option.split sum.split)

lemma keeps_unlock:
  assumes "posInv cfg s" "length sender = 20"
  shows "ok (unlockExecute cfg header sender) (\<lambda>_. posInv cfg) s"
proof -
  note b = conjunct2[OF assms(1)]
  let ?d = "stakerOfAddr (pcLib cfg) (stakerStore s) sender"
  have dok: "stakerOk (validatorOfAddr (pcLib cfg) (validatorStore s)) ?d" by (rule books_staker[OF b])
  then have un: "list_all (\<lambda>u. 0 \<le> unAmount u) (sdUnlocks ?d)" by (auto simp: stakerOk_def stakerLow_def list_all_iff)
  have fin: "ok (stakerSet cfg sender (?d\<lparr>sdUnlocks := r\<rparr>)) (\<lambda>_. posInv cfg) s1"
    if r: "set r \<subseteq> set (sdUnlocks ?d)" and p: "paid cfg s (atLock sender (posTokenID cfg) (sum_list (map unAmount (sdUnlocks ?d)) - sum_list (map unAmount r))) s1" for r s1
  proof (rule ok_stakerSet)
    fix bs assume e: "enc (stakerSchema (pcLib cfg)) (?d\<lparr>sdUnlocks := r\<rparr>) = Inr bs"
    have ok: "stakerOk (validatorOfAddr (pcLib cfg) (validatorStore s)) (?d\<lparr>sdUnlocks := r\<rparr>)"
      using dok r by (auto simp: stakerOk_def stakerLow_def list_all_iff)
    have le: "claimsOf (posTokenID cfg) C sender (?d\<lparr>sdUnlocks := r\<rparr>) a t +
        atLock sender (posTokenID cfg) (sum_list (map unAmount (sdUnlocks ?d)) - sum_list (map unAmount r)) a t \<le> claimsOf (posTokenID cfg) C sender ?d a t" for C a t
      by (auto simp: claimsOf_def ownAmount_def atLock_def algebra_simps)
    have "booksDelta (pcLib cfg) (posTokenID cfg) (\<lambda>_. 0) (\<lambda>_. 0) (kvset sender bs (stakerStore s)) (validatorStore s) (locked cfg s1)"
      by (rule books_payStaker[OF b p assms(2) ok e le]) (simp_all add: stakeTo_def)
    then show "posInv cfg (stakerStore_update (kvset sender bs) s1)" using paid_frame[OF p] by simp
  qed
  show ?thesis unfolding unlockExecute_def wp_bind
  proof (rule ok_stakerGet, goal_cases)
    case (1 d)
    have "ok (unlockLoop cfg (gdHeight g) (hHeight header) (acHeight (hAggregateCommit header)) sender (sdUnlocks ?d))
        (\<lambda>r. ok (if length (sdUnlocks ?d) = length r then throw (Error ''No eligible staker data was found for unlocking'')
          else stakerSet cfg sender (?d\<lparr>sdUnlocks := r\<rparr>)) (\<lambda>_. posInv cfg)) s" for g
      by (rule ok_mono[OF ok_unlockLoop[OF conjunct1[OF assms(1)] assms(2) un]]) (use fin in \<open>simp add: wp_if wp_throw\<close>)
    then show ?case unfolding 1 by (rule ok_genesisGet_any)
  qed
qed

section \<open>Punishment\<close>

lemma own_stake:
  assumes b: "booksDelta lib tok (\<lambda>_. 0) (\<lambda>_. 0) sk vk L" and v: "validatorOfAddr lib vk p = Some v"
    and i: "findIndex (\<lambda>s. stValidator s = p) (sdStakes (stakerOfAddr lib sk p)) = Some i"
  shows "stAmount (sdStakes (stakerOfAddr lib sk p) ! i) = vdSelfStake v"
proof -
  let ?ss = "sdStakes (stakerOfAddr lib sk p)"
  have "distinct (map stValidator ?ss)" "i < length ?ss" "stValidator (?ss ! i) = p"
    using books_staker[OF b, of p] findIndex_Some[OF i] by (auto simp: stakerOk_def)
  then have "stakeTo (stakerOfAddr lib sk p) p = stAmount (?ss ! i)" unfolding stakeTo_def by (subst stakeTo_split) auto
  then show ?thesis using books_validator[OF b v] by (simp add: validatorBooked_def)
qed

lemma reduced:
  assumes ok: "stakesOk W ss" and i: "i < length ss" "stValidator (ss ! i) = k" and n: "n \<le> stAmount (ss ! i)" and x: "x = (ss ! i)\<lparr>stAmount := stAmount (ss ! i) - n\<rparr>"
  shows "stakesOk W (ss[i := x])" "oweList C k (ss[i := x]) a t = oweList C k ss a t" "stakeSum (ss[i := x]) b = stakeSum ss b - (if b = k then n else 0)"
    "sum_list (map stAmount (ss[i := x])) = sum_list (map stAmount ss) - n"
proof -
  have v: "stValidator x = stValidator (ss ! i)" using x by simp
  have d: "distinct (map stValidator ss)" using ok by (simp add: stakesOk_def)
  have "\<forall>s \<in> set (ss[i := x]). 0 \<le> stAmount s \<and> (\<exists>v. W (stValidator s) = Some v \<and> (\<forall>t. coefAt (stCoefficients s) t \<le> coefAt (vdCoefficients v) t))"
  proof
    fix s assume "s \<in> set (ss[i := x])"
    then consider "s = x" | "s \<in> set ss" using set_update_subset_insert[of ss i x] by auto
    then show "0 \<le> stAmount s \<and> (\<exists>v. W (stValidator s) = Some v \<and> (\<forall>t. coefAt (stCoefficients s) t \<le> coefAt (vdCoefficients v) t))"
    proof cases
      case 1
      have "\<exists>v. W (stValidator (ss ! i)) = Some v \<and> (\<forall>t. coefAt (stCoefficients (ss ! i)) t \<le> coefAt (vdCoefficients v) t)"
        using ok i(1) by (simp add: stakesOk_def)
      then show ?thesis using 1 n x by simp
    next
      case 2
      then show ?thesis using ok by (simp add: stakesOk_def)
    qed
  qed
  then show "stakesOk W (ss[i := x])" using distinct_update(1)[where f = stValidator, OF d i(1) v] d by (simp add: stakesOk_def)
  show "oweList C k (ss[i := x]) a t = oweList C k ss a t" unfolding oweList_def sum_update[OF i(1)] using i v by (auto simp: oweStake_def)
  show "stakeSum (ss[i := x]) b = stakeSum ss b - (if b = k then n else 0)" unfolding stakeSum_def sum_update[OF i(1)] using i by (simp add: x)
  show "sum_list (map stAmount (ss[i := x])) = sum_list (map stAmount ss) - n" unfolding sum_update[OF i(1)] by (simp add: x)
qed

lemma paid_fromEvents: "paid cfg (s\<lparr>cEvents := e\<rparr>) F s' = paid cfg s F s'"
  by (simp add: paid_def locked_def)

lemma keeps_report:
  assumes inv: "posInv cfg s" and a: "length sender = 20" "0 \<le> height" "0 \<le> reportMisbehaviorReward cfg"
  shows "ok (reportMisbehaviorExecute cfg height sender bytes1) (\<lambda>_. posInv cfg) s"
proof -
  note b = conjunct2[OF inv] and i = conjunct1[OF inv]
  let ?lib = "pcLib cfg" and ?tok = "posTokenID cfg"
  let ?W = "validatorOfAddr ?lib (validatorStore s)"
  have punish: "ok (andThen (validatorSet cfg p w) (andThen (eligibleUpdate cfg p pw w) (bind (stakerGet cfg p) (\<lambda>staker.
         case findIndex (\<lambda>s. stValidator s = p) (sdStakes staker) of
           None \<Rightarrow> throw (Error ''TypeError'')
         | Some i \<Rightarrow> stakerSet cfg p
             (staker\<lparr>sdStakes := (sdStakes staker)[i := (sdStakes staker ! i)\<lparr>stAmount := stAmount (sdStakes staker ! i) - r\<rparr>]\<rparr>))))) (\<lambda>_. posInv cfg) s1"
    if v: "?W p = Some v" and w: "validatorAccountLow ?lib (w\<lparr>vdTotalStake := 0, vdSelfStake := 0\<rparr>)" "vdCoefficients w = vdCoefficients v" "vdTotalStake w = vdTotalStake v - r"
      "vdSelfStake w = vdSelfStake v - r" and r: "0 \<le> r" "r \<le> vdSelfStake v" and p: "paid cfg s (atLock p ?tok r) s1" for p v w pw r s1
  proof -
    let ?d = "stakerOfAddr ?lib (stakerStore s) p"
    note f = paid_frame[OF p]
    note bv = books_validator[OF b v, unfolded validatorBooked_def]
    have len: "length p = 20" using bv by simp
    have low: "validatorAccountLow ?lib w" using w r bv totalTo_ge(1)[OF b, of p p] by (simp add: validatorAccountLow_def)
    have b1: "booksDelta ?lib ?tok (\<lambda>a. if a = p then - r else 0) (\<lambda>a. if a = p then - r else 0) (stakerStore s) (kvset p cs (validatorStore s)) (locked cfg s)"
      if "enc (accountSchema ?lib) w = Inr cs" for cs
      by (rule books_sameCoefs[OF b v w(2) low that]) (simp_all add: w)
    have C: "coefsOf ?lib (kvset p cs (validatorStore s)) = coefsOf ?lib (validatorStore s)" if "enc (accountSchema ?lib) w = Inr cs" for cs
      using v w(2) by (simp add: coefsOf_set[OF low that] fun_upd_idem coefsOf_def)
    have b2: "booksDelta ?lib ?tok (\<lambda>_. 0) (\<lambda>_. 0) (kvset p bs (stakerStore s)) (kvset p cs (validatorStore s)) (locked cfg s1)"
      if e: "enc (accountSchema ?lib) w = Inr cs" and j: "findIndex (\<lambda>s. stValidator s = p) (sdStakes ?d) = Some j"
        and e2: "enc (stakerSchema ?lib) (?d\<lparr>sdStakes := (sdStakes ?d)[j := (sdStakes ?d ! j)\<lparr>stAmount := stAmount (sdStakes ?d ! j) - r\<rparr>]\<rparr>) = Inr bs" for cs bs j
    proof -
      have dok: "stakesOk (validatorOfAddr ?lib (kvset p cs (validatorStore s))) (sdStakes ?d)"
          "list_all (\<lambda>u. 0 \<le> unAmount u \<and> 0 \<le> unHeight u) (sdUnlocks ?d)"
        using books_staker[OF b1[OF e], of p] by (simp_all add: stakerOk_stakes)
      have n: "r \<le> stAmount (sdStakes ?d ! j)" using own_stake[OF b v j] r(2) by simp
      have jj: "j < length (sdStakes ?d)" "stValidator (sdStakes ?d ! j) = p" using findIndex_Some[OF j] by simp_all
      note red = reduced[OF dok(1) jj n refl]
      show ?thesis
      proof (rule books_payStaker[OF b1[OF e] p len _ e2])
        fix a t show "claimsOf ?tok (coefsOf ?lib (kvset p cs (validatorStore s))) p (?d\<lparr>sdStakes := (sdStakes ?d)[j := (sdStakes ?d ! j)\<lparr>stAmount := stAmount (sdStakes ?d ! j) - r\<rparr>]\<rparr>) a t + atLock p ?tok r a t
            \<le> claimsOf ?tok (coefsOf ?lib (kvset p cs (validatorStore s))) p ?d a t"
          by (simp add: claimsOf_def red ownAmount_def atLock_def algebra_simps)
      qed (auto simp: stakerOk_stakes red dok stakeTo_sum)
    qed
    show ?thesis unfolding wp_andThen wp_bind
    proof (rule ok_validatorSet, rule ok_eligibleUpdate, rule ok_stakerGet, goal_cases)
      case (1 cs g d)
      have d: "d = ?d" using 1 f by simp
      show ?case
      proof (cases "findIndex (\<lambda>s. stValidator s = p) (sdStakes ?d)")
        case None
        then show ?thesis by (simp add: d wp)
      next
        case (Some j)
        show ?thesis unfolding d Some option.case by (rule ok_stakerSet) (use b2[OF 1(1) Some] f in simp)
      qed
    qed
  qed
  have pay: "ok (whenM (r > 0) (andThen (unlock (pcToken cfg) p MODULE_NAME_POS ?tok r) (transfer (pcToken cfg) p sender ?tok r)))
      (\<lambda>_. paid cfg s (atLock p ?tok r)) (s\<lparr>cEvents := e\<rparr>)" if "length p = 20" "0 \<le> r" for p r e
  proof -
    have i': "posTokenInv cfg (s\<lparr>cEvents := e\<rparr>)" using i by simp
    have t: "ok (transfer (pcToken cfg) p sender ?tok r) (\<lambda>_. paid cfg s (atLock p ?tok r)) s1"
      if q: "paid cfg s (atLock p ?tok r) s1" and "0 < r" for s1
    proof -
      have "posTokenInv cfg s1" using q by (simp add: paid_def)
      from paid_transfer[OF this \<open>length p = 20\<close> a(1) \<open>0 < r\<close>] show ?thesis by (rule ok_mono) (auto intro: paid_trans[OF q])
    qed
    have "ok (andThen (unlock (pcToken cfg) p MODULE_NAME_POS ?tok r) (transfer (pcToken cfg) p sender ?tok r)) (\<lambda>_. paid cfg s (atLock p ?tok r)) (s\<lparr>cEvents := e\<rparr>)" if "0 < r"
      unfolding wp_andThen by (rule ok_mono[OF paid_unlock[OF i' \<open>length p = 20\<close> \<open>0 \<le> r\<close>]]) (use t that in \<open>simp add: paid_fromEvents\<close>)
    moreover have "paid cfg s (atLock p ?tok r) (s\<lparr>cEvents := e\<rparr>)" if "r = 0"
      by (rule paid_events, rule paid_mono[OF paid_refl[OF i]]) (simp add: that atLock_def)
    ultimately show ?thesis using \<open>0 \<le> r\<close> unfolding wp_whenM by (cases "r = 0") simp_all
  qed
  have all: "ok (let v1 = v\<lparr>vdReports := vdReports v @ [height]\<rparr> in
     andThen (validatorHeightEvent cfg ''validatorPunished'' p height)
     (let banned = (length (vdReports v1) = reportMisbehaviorLimitBanned cfg);
          v2 = (if banned then v1\<lparr>vdBanned := True\<rparr> else v1) in
      andThen (whenM banned (validatorHeightEvent cfg ''validatorBanned'' p height))
      (let reward = (if reportMisbehaviorReward cfg > vdSelfStake v2 then vdSelfStake v2 else reportMisbehaviorReward cfg) in
       andThen (whenM (reward > 0) (andThen (unlock (pcToken cfg) p MODULE_NAME_POS ?tok reward) (transfer (pcToken cfg) p sender ?tok reward)))
       (let prevWeight = getValidatorWeight (factorSelfStakes cfg) (vdSelfStake v2) (vdTotalStake v2);
            v3 = v2\<lparr>vdSelfStake := vdSelfStake v2 - reward, vdTotalStake := vdTotalStake v2 - reward\<rparr> in
        andThen (validatorSet cfg p v3) (andThen (eligibleUpdate cfg p prevWeight v3) (bind (stakerGet cfg p) (\<lambda>staker.
         case findIndex (\<lambda>s. stValidator s = p) (sdStakes staker) of
           None \<Rightarrow> throw (Error ''TypeError'')
         | Some i \<Rightarrow> stakerSet cfg p
             (staker\<lparr>sdStakes := (sdStakes staker)[i := (sdStakes staker ! i)\<lparr>stAmount := stAmount (sdStakes staker ! i) - reward\<rparr>]\<rparr>)))))))) (\<lambda>_. posInv cfg) s"
    if v: "?W p = Some v" for p v
  proof -
    note bv = books_validator[OF b v, unfolded validatorBooked_def]
    define v2 where "v2 = (let v1 = v\<lparr>vdReports := vdReports v @ [height]\<rparr> in if length (vdReports v1) = reportMisbehaviorLimitBanned cfg then v1\<lparr>vdBanned := True\<rparr> else v1)"
    define r where "r = (if reportMisbehaviorReward cfg > vdSelfStake v2 then vdSelfStake v2 else reportMisbehaviorReward cfg)"
    have v2: "vdSelfStake v2 = vdSelfStake v" "vdTotalStake v2 = vdTotalStake v" "vdCoefficients v2 = vdCoefficients v" by (simp_all add: v2_def Let_def)
    have low2: "validatorAccountLow ?lib (v2\<lparr>vdSelfStake := n, vdTotalStake := k, vdTotalStake := 0, vdSelfStake := 0\<rparr>)" for n k
      using bv a(2) by (simp add: v2_def Let_def accountOkPos_def validatorAccountLow_def)
    have r: "0 \<le> r" "r \<le> vdSelfStake v" using bv a(3) v2(1) by (auto simp: r_def accountOkPos_def validatorAccountLow_def)
    have len: "length p = 20" using bv by simp
    have ev: "ok (whenM c (validatorHeightEvent cfg nm p height)) Q (s\<lparr>cEvents := e\<rparr>)" if "\<And>e. Q () (s\<lparr>cEvents := e\<rparr>)" for c nm Q e
      using that by (auto simp: wp_whenM validatorHeightEvent_def intro!: ok_posEvent)
    have x: "(if length (vdReports (v\<lparr>vdReports := vdReports v @ [height]\<rparr>)) = reportMisbehaviorLimitBanned cfg then v\<lparr>vdReports := vdReports v @ [height]\<rparr>\<lparr>vdBanned := True\<rparr>
        else v\<lparr>vdReports := vdReports v @ [height]\<rparr>) = v2" by (simp add: v2_def Let_def)
    show ?thesis unfolding Let_def x r_def[symmetric] wp_andThen[of "validatorHeightEvent _ _ _ _"] wp_andThen[of "whenM _ _"]
    proof (subst validatorHeightEvent_def, rule ok_posEvent, rule ev, rule ok_mono[OF pay[OF len r(1)]], rule punish[OF v _ _ _ _ r])
      fix u t assume "paid cfg s (atLock p ?tok r) t" then show "paid cfg s (atLock p ?tok r) t" .
    qed (use low2 v2 in simp_all)
  qed
  show ?thesis unfolding reportMisbehaviorExecute_def wp_bind[of "liftE _"] wp_liftE Let_def[of "hGeneratorAddress _"] wp_bind[of "validatorGet _ _"]
    by (split sum.split, intro conjI allI impI TrueI) (rule ok_validatorGet, rule all)
qed

end
