(* ===== verification/PosShared.thy ===== *)
theory PosShared
  imports PosReports
begin

text \<open>
  The shared rewards. What a reward adds to the coefficient of the generator, times the stakes of the
  others, is covered by the amount that is locked for it.
\<close>

section \<open>The increase of the coefficient\<close>

lemma drop_mul: "drop_bit 96 (x * (y * 2 ^ 96)) = x * (y :: int)"
  unfolding mult.assoc[symmetric] drop_bit_eq_div by (rule nonzero_mult_div_cancel_right) simp

lemma increase_covered:
  fixes reward total own f :: int
  assumes "0 \<le> reward" "0 < total" "0 \<le> own" "own \<le> total" "0 \<le> f" "f \<le> qOne"
  shows "0 \<le> reward * qOne * f div (total * qOne)" "(reward * qOne * f div (total * qOne)) * (total - own) \<le> reward * qOne"
proof -
  define I where "I = reward * qOne * f div (total * qOne)"
  have tq: "0 < total * qOne" using assms(2) qOne_pos by simp
  have rq: "0 \<le> reward * qOne" using assms(1) qOne_pos by simp
  have nn: "0 \<le> reward * qOne * f" using rq assms(5) by simp
  show I: "0 \<le> reward * qOne * f div (total * qOne)" using nn pos_imp_zdiv_nonneg_iff[OF tq] by blast
  have "I * (total * qOne) + reward * qOne * f mod (total * qOne) = reward * qOne * f" unfolding I_def by (rule div_mult_mod_eq)
  then have "I * (total * qOne) \<le> reward * qOne * f" using pos_mod_sign[OF tq, of "reward * qOne * f"] by linarith
  also have "\<dots> \<le> reward * qOne * qOne" using rq assms(6) by (rule mult_left_mono[rotated])
  finally have "(I * total) * qOne \<le> (reward * qOne) * qOne" by (simp only: mult.assoc)
  then have t: "I * total \<le> reward * qOne" using qOne_pos by (rule mult_right_le_imp_le)
  have "0 \<le> I * own" using I assms(3) by (simp add: I_def)
  then show "I * (total - own) \<le> reward * qOne" using t by (simp add: right_diff_distrib)
qed

lemma sharedReward_covered:
  assumes s: "sharedReward v reward = Inr (inc, n)" and v: "0 \<le> vdCommission v" "0 < vdTotalStake v" "0 \<le> vdSelfStake v" "vdSelfStake v \<le> vdTotalStake v" and r: "0 \<le> reward"
  shows "qBase inc = 96" "0 \<le> qVal inc" "qVal inc * (vdTotalStake v - vdSelfStake v) \<le> qOne * n" "0 \<le> n" "n \<le> reward"
proof -
  define c where "c = push_bit 96 (vdCommission v * qOne) div (10000 * qOne)"
  define f where "f = qOne - c"
  define I where "I = reward * qOne * f div (vdTotalStake v * qOne)"
  define m where "m = roundUp 96 (I * (vdTotalStake v - vdSelfStake v))"
  have q: "q96 x = \<lparr>qVal = x * qOne, qBase = 96\<rparr>" for x by (simp add: q96_def qFromInt_def qOne_def)
  have c0: "0 \<le> c" using v(1) qOne_pos by (simp add: c_def push_bit_eq_mult pos_imp_zdiv_nonneg_iff)
  have d: "qDiv (q96 (vdCommission v)) (q96 10000) = Inr \<lparr>qVal = c, qBase = 96\<rparr>"
    using qOne_pos by (simp add: q qDiv_def checkBase_def rbind_def c_def)
  have ge: "c \<le> qOne" using s unfolding sharedReward_def d rbind_def by (auto simp: q qSub_def checkBase_def rbind_def split: if_splits sum.splits)
  have sub: "qSub (q96 1) \<lparr>qVal = c, qBase = 96\<rparr> = Inr \<lparr>qVal = f, qBase = 96\<rparr>" using ge by (simp add: q qSub_def checkBase_def rbind_def f_def)
  have md: "qMulDiv (q96 reward) \<lparr>qVal = f, qBase = 96\<rparr> (q96 (vdTotalStake v)) = Inr \<lparr>qVal = I, qBase = 96\<rparr>"
    using v(2) qOne_pos by (subst qMulDiv_val) (simp_all add: q I_def)
  have oth: "qSub (q96 (vdTotalStake v)) (q96 (vdSelfStake v)) = Inr \<lparr>qVal = (vdTotalStake v - vdSelfStake v) * qOne, qBase = 96\<rparr>"
    using v(4) qOne_pos by (simp add: q qSub_def checkBase_def rbind_def algebra_simps)
  have mul: "qMul \<lparr>qVal = I, qBase = 96\<rparr> \<lparr>qVal = (vdTotalStake v - vdSelfStake v) * qOne, qBase = 96\<rparr> = Inr \<lparr>qVal = I * (vdTotalStake v - vdSelfStake v), qBase = 96\<rparr>"
    unfolding qMul_def checkBase_def rbind_def qOne_def by (simp only: q.simps drop_mul sum.case if_False simp_thms)
  have res: "inc = \<lparr>qVal = I, qBase = 96\<rparr>" "n = (if m > reward then reward else m)"
    using s unfolding sharedReward_def d rbind_def sum.case sub md oth mul by (auto simp: qCeil_def m_def Let_def split: if_splits)
  note cov = increase_covered[OF r v(2,3,4), of f, folded I_def]
  have f: "0 \<le> f" "f \<le> qOne" using ge c0 by (simp_all add: f_def)
  have mq: "I * (vdTotalStake v - vdSelfStake v) \<le> m * qOne" using roundUp_bounds(1)[of "I * (vdTotalStake v - vdSelfStake v)" 96] by (simp only: m_def qOne_def)
  have x0: "0 \<le> I * (vdTotalStake v - vdSelfStake v)" using cov(1)[OF f] v(4) by simp
  have m0: "0 \<le> m"
  proof (rule ccontr)
    assume "\<not> 0 \<le> m"
    then have "m * qOne < 0" using qOne_pos by (simp add: mult_neg_pos)
    then show False using mq x0 by linarith
  qed
  show "qBase inc = 96" "0 \<le> qVal inc" using cov(1)[OF f] by (simp_all add: res)
  show "qVal inc * (vdTotalStake v - vdSelfStake v) \<le> qOne * n" using mq cov(2)[OF f] by (simp add: res mult.commute[of qOne])
  show "0 \<le> n" "n \<le> reward" using m0 r by (simp_all add: res)
qed

section \<open>Coefficients\<close>

lemma coefAt_Cons: "coefAt (c # cs) t = (if scTokenID c = t then beInt (scCoefficient c) else coefAt cs t)"
  by (simp add: coefAt_def)

lemma coefAt_Nil: "coefAt [] t = 0"
  by (simp add: coefAt_def)

lemma coefAt_append: "coefAt (xs @ ys) t = (if t \<in> scTokenID ` set xs then coefAt xs t else coefAt ys t)"
  by (induction xs) (auto simp: coefAt_Cons)

lemma coefAt_none: "t \<notin> scTokenID ` set cs \<Longrightarrow> coefAt cs t = 0"
proof -
  assume "t \<notin> scTokenID ` set cs"
  then have "find (\<lambda>c. scTokenID c = t) cs = None" by (auto simp: find_None_iff)
  then show ?thesis by (simp add: coefAt_def)
qed

lemma coefAt_set:
  assumes "set xs = set ys" "distinct (map scTokenID xs)" "distinct (map scTokenID ys)"
  shows "coefAt xs t = coefAt ys t"
proof (cases "t \<in> scTokenID ` set xs")
  case True
  then obtain c where "c \<in> set xs" "t = scTokenID c" by auto
  then show ?thesis using assms coefAt_member[of xs c] coefAt_member[of ys c] by simp
next
  case False
  then show ?thesis using assms(1) by (simp add: coefAt_none)
qed

lemma coefAt_update:
  assumes "distinct (map scTokenID cs)" "i < length cs" "scTokenID (cs ! i) = t"
  shows "coefAt (cs[i := (cs ! i)\<lparr>scCoefficient := b\<rparr>]) u = (if u = t then beInt b else coefAt cs u)"
  using assms
proof (induction cs arbitrary: i)
  case (Cons c cs)
  show ?case
  proof (cases i)
    case 0
    then show ?thesis using Cons.prems by (simp add: coefAt_Cons)
  next
    case (Suc j)
    have "scTokenID c \<noteq> t" using Cons.prems Suc by auto
    then show ?thesis using Cons.IH[of j] Cons.prems Suc by (cases "u = t") (simp_all add: coefAt_Cons)
  qed
qed simp

text \<open>The list of coefficients that \<open>updateSharedRewards\<close> writes.\<close>

lemma coefAt_added:
  assumes d: "distinct (map scTokenID cs0)" and inc: "0 \<le> inc"
    and c: "(cs, i) = (case coefficientQ cs0 t of Some i \<Rightarrow> (cs0, i) | None \<Rightarrow> (cs0 @ [\<lparr>scTokenID = t, scCoefficient = qToBuffer (q96 0)\<rparr>], length cs0))"
    and n: "cs' = cs[i := (cs ! i)\<lparr>scCoefficient := intBE (beInt (scCoefficient (cs ! i)) + inc)\<rparr>]"
  shows "distinct (map scTokenID cs')" "coefAt cs' u = coefAt cs0 u + (if u = t then inc else 0)"
proof -
  have z: "beInt (qToBuffer (q96 0)) = 0" by (simp add: qToBuffer_def intBE.simps)
  have i: "i < length cs \<and> scTokenID (cs ! i) = t \<and> distinct (map scTokenID cs) \<and> (\<forall>u. coefAt cs u = coefAt cs0 u)"
  proof (cases "coefficientQ cs0 t")
    case None
    then have e: "cs = cs0 @ [\<lparr>scTokenID = t, scCoefficient = qToBuffer (q96 0)\<rparr>]" "i = length cs0" using c by simp_all
    have nt: "t \<notin> scTokenID ` set cs0" using None by (auto simp: coefficientQ_def findIndex_None)
    have "coefAt cs u = coefAt cs0 u" for u 
      using coefAt_none[OF nt] coefAt_none[of u cs0] z unfolding e by (auto simp: coefAt_append coefAt_Cons coefAt_Nil)
    then show ?thesis using nt d by (simp add: e)
  next
    case (Some j)
    then show ?thesis using c d findIndex_Some[of _ cs0 j] by (auto simp: coefficientQ_def)
  qed
  then have m: "map scTokenID cs' = map scTokenID cs" unfolding n by (intro distinct_update(1)) auto
  then show "distinct (map scTokenID cs')" using i by simp
  have "beInt (scCoefficient (cs ! i)) = coefAt cs t" using coefAt_member[of cs "cs ! i"] i by simp
  then show "coefAt cs' u = coefAt cs0 u + (if u = t then inc else 0)"
    unfolding n using coefAt_update[of cs i t "intBE (beInt (scCoefficient (cs ! i)) + inc)" u] i inc coefAt_nonneg[of cs0 t] by simp
qed

section \<open>The books\<close>

lemma oweList_upd:
  "oweList (C(k := cs)) key ss a t = oweList C key ss a t + (if a = k \<and> key \<noteq> k then (coefAt cs t - coefAt (C k) t) * stakeSum ss k else 0)"
  by (induction ss) (auto simp: oweList_def stakeSum_def oweStake_def algebra_simps)

lemma kvsum_add: "kvsum (\<lambda>k v. f k v + g k v) r = kvsum f r + kvsum g r"
  by (simp add: kvsum_def sum_list_addf)

lemma kvsum_mult: "kvsum (\<lambda>k v. n * f k v) r = n * kvsum f r"
  by (simp add: kvsum_def sum_list_const_mult)

lemma kvsum_at: "kvok r \<Longrightarrow> kvsum (\<lambda>key v. if key = k then g v else 0) r = (case kvget r k of None \<Rightarrow> 0 | Some v \<Rightarrow> g v)"
proof (induction r)
  case (Cons e r)
  obtain a v where e: "e = (a, v)" by (cases e)
  have ok: "kvok r" "a \<notin> fst ` set r" using Cons.prems by (auto simp: e kvok_Cons)
  have "kvsum (\<lambda>key v. if key = k then g v else 0) r = 0" if "a = k"
    using ok(2) that unfolding kvsum_def by (intro sum_zero) force
  then show ?case using Cons.IH[OF ok(1)] by (auto simp: e)
qed simp

lemma owed_upd:
  assumes "kvok sk"
  shows "owed lib (C(k := cs)) sk a t = owed lib C sk a t +
    (if a = k then (coefAt cs t - coefAt (C k) t) * (totalTo lib sk k - stakeTo (stakerOfAddr lib sk k) k) else 0)"
proof (cases "a = k")
  case True
  let ?n = "coefAt cs t - coefAt (C k) t"
  have at: "kvsum (\<lambda>key v. if key = k then stakeTo (sdOf lib v) k else 0) sk = stakeTo (stakerOfAddr lib sk k) k"
    unfolding kvsum_at[OF assms] by (simp add: stakerOfAddr_def split: option.split)
  have split: "(if key \<noteq> k then n else 0) = n - (if key = k then n else (0::int))" for key n by simp
  have "kvsum (\<lambda>key v. (if key \<noteq> k then stakeTo (sdOf lib v) k else 0) + (if key = k then stakeTo (sdOf lib v) k else 0)) sk = totalTo lib sk k"
    unfolding totalTo_def by (rule arg_cong[where f = "\<lambda>f. kvsum f sk"]) (simp add: fun_eq_iff)
  then have others: "kvsum (\<lambda>key v. if key \<noteq> k then stakeTo (sdOf lib v) k else 0) sk = totalTo lib sk k - stakeTo (stakerOfAddr lib sk k) k"
    unfolding kvsum_add at by simp
  have "owed lib (C(k := cs)) sk a t = kvsum (\<lambda>key v. oweList C key (sdStakes (sdOf lib v)) a t + ?n * (if key \<noteq> k then stakeTo (sdOf lib v) k else 0)) sk"
    unfolding owed_def oweList_upd by (rule arg_cong[where f = "\<lambda>f. kvsum f sk"]) (simp add: fun_eq_iff True stakeTo_sum)
  then show ?thesis using True by (simp add: kvsum_add kvsum_mult others owed_def)
next
  case False
  then show ?thesis by (simp add: owed_def oweList_upd)
qed

lemma keeps_sharedRewards:
  assumes inv: "posInv cfg s" and r: "0 \<le> reward" and m: "nameOk (pcLib cfg) MODULE_NAME_POS"
  shows "ok (updateSharedRewards cfg generator tokenID reward) (\<lambda>_. posInv cfg) s"
  unfolding updateSharedRewards_def wp_bind[of "validatorGet _ _"]
proof (rule ok_validatorGet, goal_cases)
  case (1 v)
  let ?lib = "pcLib cfg" and ?C = "coefsOf (pcLib cfg) (validatorStore s)"
  note b = conjunct2[OF inv] and i = conjunct1[OF inv]
  note bv = books_validator[OF b 1, unfolded validatorBooked_def]
  obtain cs j where cj: "(cs, j) = (case coefficientQ (vdCoefficients v) tokenID of Some i \<Rightarrow> (vdCoefficients v, i)
      | None \<Rightarrow> (vdCoefficients v @ [\<lparr>scTokenID = tokenID, scCoefficient = qToBuffer (q96 0)\<rparr>], length (vdCoefficients v)))"
    by (metis surj_pair)
  have own: "vdSelfStake v \<le> vdTotalStake v" "0 \<le> vdSelfStake v" using bv totalTo_ge[OF b, of generator generator] by simp_all
  define new where "new inc = sortBy (\<lambda>a b. bufferCompare (scTokenID a) (scTokenID b))
      (cs[j := (cs ! j)\<lparr>scCoefficient := intBE (beInt (scCoefficient (cs ! j)) + inc)\<rparr>])" for inc
  have fin: "posInv cfg (validatorStore_update (kvset generator bs) s1)"
    if sh: "sharedReward v reward = Inr (inc, n)" and t: "vdTotalStake v \<noteq> 0" and p: "paid cfg s (atLock generator tokenID (- n)) s1"
      and e: "enc (accountSchema ?lib) (v\<lparr>vdCoefficients := new (qVal inc)\<rparr>) = Inr bs" for inc n s1 bs
  proof -
    have "0 < vdTotalStake v" "0 \<le> vdCommission v" using t own bv by (simp_all add: accountOkPos_def validatorAccountLow_def)
    note c = sharedReward_covered[OF sh this(2,1) own(2,1) r]
    have d: "distinct (map scTokenID (vdCoefficients v))" using bv by (simp add: accountOkPos_def)
    note ca = coefAt_added[OF d c(2) cj refl]
    have nw: "distinct (map scTokenID (new (qVal inc)))" "coefAt (new (qVal inc)) u = coefAt (vdCoefficients v) u + (if u = tokenID then qVal inc else 0)" for u
      using ca coefAt_set[of "new (qVal inc)"] by (simp_all add: new_def)
    have ok: "accountOkPos ?lib (v\<lparr>vdCoefficients := new (qVal inc)\<rparr>)" using bv nw(1) by (simp add: accountOkPos_def validatorAccountLow_def)
    have C: "?C generator = vdCoefficients v" using 1 by (simp add: coefsOf_def)
    note f = paid_frame[OF p]
    have "booksDelta ?lib (posTokenID cfg) (\<lambda>_. 0) (\<lambda>_. 0) (stakerStore s) (kvset generator bs (validatorStore s)) (locked cfg s1)"
    proof (rule books_setValidator[OF b _ ok e])
      fix a u :: bytes assume a: "length a = 20"
      have ow: "owed ?lib (?C(generator := new (qVal inc))) (stakerStore s) a u =
          owed ?lib ?C (stakerStore s) a u + (if a = generator \<and> u = tokenID then qVal inc * (vdTotalStake v - vdSelfStake v) else 0)"
        unfolding owed_upd[OF books_kvok(1)[OF b]] C nw(2) using bv by simp
      show "coverage ?lib (posTokenID cfg) (stakerStore s) (?C(generator := vdCoefficients (v\<lparr>vdCoefficients := new (qVal inc)\<rparr>))) a u \<le> qOne * locked cfg s1 a u"
        using books_coverage[OF b a, of u] paid_le[OF p a, of u] ow c(3) by (auto simp: coverage_def atLock_def split: if_splits)
    qed (use bv C nw(2) c(2) in simp_all)
    then show ?thesis using f by simp
  qed
  have lk: "ok (lock (pcToken cfg) generator MODULE_NAME_POS tokenID n) (\<lambda>_. paid cfg s (atLock generator tokenID (- n))) s" if "0 \<le> n" for n
    by (rule paid_lock[OF i _ that m]) (use bv in simp)
  have add: "qAdd (q96Buffer (scCoefficient (cs ! j))) inc = Inr \<lparr>qVal = beInt (scCoefficient (cs ! j)) + qVal inc, qBase = 96\<rparr>" if "qBase inc = 96" for inc
    using that by (simp add: qAdd_def checkBase_def rbind_def)
  have main: "ok (andThen (lock (pcToken cfg) generator MODULE_NAME_POS tokenID n)
      (bind (liftE (qAdd (q96Buffer (scCoefficient (cs ! j))) inc)) (\<lambda>nc.
        validatorSet cfg generator (v\<lparr>vdCoefficients := sortBy (\<lambda>a b. bufferCompare (scTokenID a) (scTokenID b))
          (cs[j := (cs ! j)\<lparr>scCoefficient := qToBuffer nc\<rparr>])\<rparr>)))) (\<lambda>_. posInv cfg) s"
    if sh: "sharedReward v reward = Inr (inc, n)" and t: "vdTotalStake v \<noteq> 0" for inc n
  proof -
    have "0 < vdTotalStake v" "0 \<le> vdCommission v" using t own bv by (simp_all add: accountOkPos_def validatorAccountLow_def)
    note c = sharedReward_covered[OF sh this(2,1) own(2,1) r]
    show ?thesis unfolding wp_andThen wp_bind wp_liftE add[OF c(1)] sum.case qToBuffer_def q.simps new_def[symmetric]
      by (rule ok_mono[OF lk[OF c(4)]], rule ok_validatorSet, rule fin[OF sh t])
  qed
  show ?case
  proof (cases "vdTotalStake v = 0")
    case True
    then show ?thesis using inv by (simp add: wp_ret)
  next
    case False
    show ?thesis
    proof (cases "sharedReward v reward")
      case (Inl e)
      then show ?thesis unfolding cj[symmetric] Let_def prod.case using False by (simp add: wp)
    next
      case (Inr x)
      obtain inc n where x: "x = (inc, n)" by (cases x)
      show ?thesis unfolding cj[symmetric] Let_def prod.case if_not_P[OF False] Inr x wp_bind[of "liftE (Inr _)"] wp_liftE sum.case
        by (rule main[OF Inr[unfolded x] False])
    qed
  qed
qed

end
