(* ===== verification/PosRounds.thy ===== *)
theory PosRounds
  imports Pos
begin

text \<open>
  The proof-of-stake module, second part: what happens after the transactions of a block. The
  productivity of the generators, the snapshot of the stake weights at the end of a round, the
  active and the standby validators of the next round, the cap of their BFT weights and the
  shuffled list that becomes the validators of the chain.
\<close>

section \<open>Standby validators\<close>

type_synonym validatorWeight = "bytes \<times> int"

text \<open>\<open>None\<close> is \<open>-1\<close>.\<close>

primrec pickLoop :: "validatorWeight list \<Rightarrow> int \<Rightarrow> nat \<Rightarrow> nat option" where
  "pickLoop [] threshold i = None"
| "pickLoop (v # vs) threshold i = (if snd v > threshold then Some i else pickLoop vs (threshold - snd v) (Suc i))"

definition readBigUInt64BE :: "bytes \<Rightarrow> err + int" where
  "readBigUInt64BE b = (if length b < 8 then Inl (Error ''ERR_BUFFER_OUT_OF_BOUNDS'') else Inr (beInt (take 8 b)))"

definition pickStandByValidator :: "validatorWeight list \<Rightarrow> bytes \<Rightarrow> err + nat option" where
  "pickStandByValidator validatorWeights randomSeed =
     rbind (readBigUInt64BE randomSeed) (\<lambda>seedNumber.
     let totalStakeWeight = sum_list (map snd validatorWeights) in
     if totalStakeWeight = 0 then Inl (Error ''RangeError'')
     else Inr (pickLoop validatorWeights (seedNumber mod totalStakeWeight) 0))"

text \<open>\<open>splice(index, 1)\<close>; the index \<open>-1\<close> is the last position. The selected entry must exist.\<close>

definition spliceOne :: "nat option \<Rightarrow> 'a list \<Rightarrow> err + ('a \<times> 'a list)" where
  "spliceOne index xs =
     (let i = (case index of Some i \<Rightarrow> i | None \<Rightarrow> length xs - 1) in
      if i < length xs then Inr (xs ! i, take i xs @ drop (Suc i) xs) else Inl (Error ''TypeError''))"

definition selectStandbyValidators :: "validatorWeight list \<Rightarrow> bytes \<Rightarrow> bytes option \<Rightarrow> err + validatorWeight list" where
  "selectStandbyValidators validatorWeights randomSeed1 randomSeed2 =
     (let numberOfCandidates = 1 + (if randomSeed2 \<noteq> None then 1 else 0) in
      if length validatorWeights \<le> numberOfCandidates then Inr (map (\<lambda>v. (fst v, 0)) validatorWeights)
      else rbind (pickStandByValidator validatorWeights randomSeed1) (\<lambda>index.
        rbind (spliceOne index validatorWeights) (\<lambda>(selected, remaining).
        case randomSeed2 of None \<Rightarrow> Inr [(fst selected, 0)]
        | Some seed2 \<Rightarrow>
            rbind (pickStandByValidator remaining seed2) (\<lambda>secondIndex.
            rbind (spliceOne secondIndex remaining) (\<lambda>(secondStandby, _).
            Inr [(fst selected, 0), (fst secondStandby, 0)])))))"

section \<open>Weights\<close>

definition MAX_CAP :: int where "MAX_CAP = 10000"

definition capCeiling :: "int \<Rightarrow> int \<Rightarrow> err + int" where
  "capCeiling x y = (if y = 0 then Inl (Error ''Cannot divide by zero.'') else Inr ((x + y - 1) div y))"

definition cappedRemaining :: "int \<Rightarrow> int \<Rightarrow> nat \<Rightarrow> int" where
  "cappedRemaining capValue partialSum i = capValue * partialSum div 100 div (100 - capValue * int i div 100)"

text \<open>The loop \<open>for (let i = maxCappedElements; i > 0; i -= 1)\<close>.\<close>

fun capLoop :: "validatorWeight list \<Rightarrow> int \<Rightarrow> int \<Rightarrow> nat \<Rightarrow> validatorWeight list" where
  "capLoop vs capValue partialSum 0 = vs"
| "capLoop vs capValue partialSum (Suc i) =
     (let sum = partialSum + snd (vs ! Suc i); capped = cappedRemaining capValue sum (Suc i) in
      if capped < snd (vs ! i) then map (\<lambda>v. (fst v, capped)) (take (Suc i) vs) @ drop (Suc i) vs
      else capLoop vs capValue sum i)"

definition maxCappedElements :: "int \<Rightarrow> nat" where
  "maxCappedElements capValue = nat (ceilDiv MAX_CAP capValue - 1)"

definition capWeight :: "validatorWeight list \<Rightarrow> int \<Rightarrow> validatorWeight list" where
  "capWeight vs capValue =
     capLoop vs capValue (sum_list (map snd (drop (Suc (maxCappedElements capValue)) vs))) (maxCappedElements capValue)"

definition capWeightIfNeeded :: "posConfig \<Rightarrow> validatorWeight list \<Rightarrow> validatorWeight list" where
  "capWeightIfNeeded cfg vs =
     (let capValue = maxBFTWeightCap cfg in
      if int (length vs) < ceilDiv MAX_CAP capValue then vs else capWeight vs capValue)"

section \<open>Active validators\<close>

text \<open>Up to \<open>n\<close> initial validators that are not yet in the list, with the average weight.\<close>

primrec addInit :: "bytes list \<Rightarrow> nat \<Rightarrow> int \<Rightarrow> validatorWeight list \<Rightarrow> validatorWeight list" where
  "addInit [] n averageWeight active = active"
| "addInit (a # as) n averageWeight active =
     (if n = 0 then active
      else if a \<in> fst ` set active then addInit as n averageWeight active
      else addInit as (n - 1) averageWeight (active @ [(a, averageWeight)]))"

definition scaleWeights :: "posConfig \<Rightarrow> validatorWeight list \<Rightarrow> err + validatorWeight list" where
  "scaleWeights cfg = mapE (\<lambda>v. rbind (capCeiling (snd v) (weightScaleFactor cfg)) (\<lambda>w. Inr (fst v, w)))"

definition activeValidators :: "posConfig \<Rightarrow> genesisData \<Rightarrow> validatorWeight list \<Rightarrow> int \<Rightarrow> err + validatorWeight list" where
  "activeValidators cfg g snapshotValidators round =
     (if round < gdInitRounds g + numberActiveValidators cfg then
        let numInitValidators = gdInitRounds g + numberActiveValidators cfg - round;
            numElectedValidators = numberActiveValidators cfg - numInitValidators in
        rbind (scaleWeights cfg (take (nat numElectedValidators) snapshotValidators)) (\<lambda>elected.
        if elected = [] then Inr (map (\<lambda>a. (a, 1)) (take (nat numInitValidators) (gdInitValidators g)))
        else let averageWeight = sum_list (map snd elected) div int (length elected) in
             Inr (capWeightIfNeeded cfg (addInit (gdInitValidators g) (nat numInitValidators) averageWeight elected)))
      else rbind (scaleWeights cfg (take (nat (numberActiveValidators cfg)) snapshotValidators)) (\<lambda>active.
        Inr (capWeightIfNeeded cfg active)))"

definition getActiveValidators :: "posConfig \<Rightarrow> validatorWeight list \<Rightarrow> int \<Rightarrow> (posCtx, validatorWeight list) m" where
  "getActiveValidators cfg snapshotValidators round =
     bind (genesisGet cfg) (\<lambda>g. liftE (activeValidators cfg g snapshotValidators round))"

section \<open>Shuffled list\<close>

definition compareRound :: "bytes \<times> validatorWeight \<Rightarrow> bytes \<times> validatorWeight \<Rightarrow> int" where
  "compareRound a b = (if bufferCompare (fst a) (fst b) \<noteq> 0 then bufferCompare (fst a) (fst b) else bufferCompare (fst (snd a)) (fst (snd b)))"

definition shuffleValidatorList :: "(bytes \<Rightarrow> bytes) \<Rightarrow> bytes \<Rightarrow> validatorWeight list \<Rightarrow> validatorWeight list" where
  "shuffleValidatorList hash roundSeed addresses =
     map snd (sortBy compareRound (map (\<lambda>v. (hash (roundSeed @ fst v), v)) addresses))"

section \<open>Rounds\<close>

definition VALIDATOR_LIST_ROUND_OFFSET :: int where "VALIDATOR_LIST_ROUND_OFFSET = 2"

primrec snapshotDels :: "(bytes \<times> 'v) list \<Rightarrow> (posCtx, unit) m" where
  "snapshotDels [] = ret ()"
| "snapshotDels (e # es) = andThen (storeDel snapshotStore_update (fst e)) (snapshotDels es)"

definition snapshotWeights :: "posConfig \<Rightarrow> int \<Rightarrow> (bytes \<times> int) list \<Rightarrow> validatorWeight list" where
  "snapshotWeights cfg snapshotHeight es =
     map (splitKey \<circ> fst) (filter (\<lambda>e. snd e = 0 \<or> snd e < snapshotHeight - punishmentWindowSelfStaking cfg) es)"

definition createStakeWeightSnapshot :: "posConfig \<Rightarrow> int \<Rightarrow> (posCtx, unit) m" where
  "createStakeWeightSnapshot cfg height =
     (let snapshotHeight = height + 1 in
      bind (getRoundNumberFromHeight cfg snapshotHeight) (\<lambda>round.
      let snapshotRound = round + VALIDATOR_LIST_ROUND_OFFSET in
      bind (eligibleGetAll cfg) (\<lambda>eligibleValidatorsList.
      bind (liftE (uint32BE snapshotRound)) (\<lambda>storeKey.
      andThen (storeSet (snapshotSchema (pcLib cfg)) snapshotStore_update storeKey (snapshotWeights cfg snapshotHeight eligibleValidatorsList))
      (bind (liftE (uint32BE (max 0 (snapshotRound - VALIDATOR_LIST_ROUND_OFFSET - 1)))) (\<lambda>lte.
       bind (storeIterate (snapshotSchema (pcLib cfg)) snapshotStore [0, 0, 0, 0] lte) snapshotDels))))))"

definition standbyValidators :: "posConfig \<Rightarrow> genesisData \<Rightarrow> int \<Rightarrow> int \<Rightarrow> validatorWeight list \<Rightarrow> validatorWeight list \<Rightarrow> bytes \<Rightarrow>
    (posCtx, validatorWeight list) m" where
  "standbyValidators cfg g height nextRound snapshot active randomSeed1 =
     (if nextRound \<ge> gdInitRounds g + numberActiveValidators cfg then
        let candidates = filter (\<lambda>v. fst v \<notin> fst ` set active) snapshot in
        if numberStandbyValidators cfg = 2 then
          bind (viaRandom (getRandomBytes (pcRandom cfg) (height + 1 - 2 * roundLength cfg) (roundLength cfg))) (\<lambda>randomSeed2.
          liftE (selectStandbyValidators candidates randomSeed1 (Some randomSeed2)))
        else if numberStandbyValidators cfg = 1 then liftE (selectStandbyValidators candidates randomSeed1 None)
        else ret []
      else ret [])"

definition updateValidators :: "posConfig \<Rightarrow> int \<Rightarrow> (posCtx, unit) m" where
  "updateValidators cfg height =
     bind (getRoundNumberFromHeight cfg height) (\<lambda>round.
     let nextRound = round + 1 in
     bind (liftE (uint32BE nextRound)) (\<lambda>key.
     bind (storeGet (snapshotSchema (pcLib cfg)) snapshotStore key) (\<lambda>snapshot.
     bind (genesisGet cfg) (\<lambda>g.
     bind (getActiveValidators cfg snapshot nextRound) (\<lambda>active.
     bind (viaRandom (getRandomBytes (pcRandom cfg) (height + 1 - roundLength cfg * 3 div 2) (roundLength cfg))) (\<lambda>randomSeed1.
     bind (standbyValidators cfg g height nextRound snapshot active randomSeed1) (\<lambda>standby.
     let vs = active @ standby in
     if vs = [] then ret ()
     else let shuffledValidators = shuffleValidatorList (pcHash cfg) randomSeed1 vs;
              aggregateBFTWeight = sum_list (map snd shuffledValidators);
              precommitT = 2 * aggregateBFTWeight div 3 + 1 in
     viaValidators (setValidatorsParams (pcValidators cfg) precommitT precommitT shuffledValidators))))))))"

text \<open>
  \<open>Object.keys\<close> gives the addresses in the order of insertion. Each iteration reads and writes the
  entries of its own address only, so that the order of the validators list does as well.
\<close>

primrec productivityLoop :: "posConfig \<Rightarrow> int \<Rightarrow> counts \<Rightarrow> bytes list \<Rightarrow> (posCtx, unit) m" where
  "productivityLoop cfg newHeight missedBlocks [] = ret ()"
| "productivityLoop cfg newHeight missedBlocks (address # rest') =
     bind (validatorGet cfg address) (\<lambda>v0.
     let v1 = v0\<lparr>vdMissed := vdMissed v0 + the (missedBlocks address)\<rparr>;
         inactive = (vdMissed v1 > failSafeMissedBlocks cfg \<and> newHeight - vdLastGeneratedHeight v1 > failSafeInactiveWindow cfg);
         v2 = (if inactive then v1\<lparr>vdBanned := True\<rparr> else v1) in
     andThen (whenM inactive (eligibleUpdate cfg address (getValidatorWeight (factorSelfStakes cfg) (vdSelfStake v2) (vdTotalStake v2)) v2))
     (andThen (validatorSet cfg address v2)
     (productivityLoop cfg newHeight missedBlocks rest')))"

text \<open>Without parameters there are no missed blocks.\<close>

definition missedAddresses :: "counts \<Rightarrow> posConfig \<Rightarrow> (posCtx, bytes list) m" where
  "missedAddresses missedBlocks cfg =
     bind (tryCatch (bind (viaValidators (getValidatorsParams (pcValidators cfg))) (\<lambda>p. ret (map vAddress (vpValidators p)))) (\<lambda>_. ret [])) (\<lambda>addresses.
     ret (remdups (filter (\<lambda>a. missedBlocks a \<noteq> None) addresses)))"

definition updateProductivity :: "posConfig \<Rightarrow> blockHeader \<Rightarrow> int \<Rightarrow> (posCtx, unit) m" where
  "updateProductivity cfg header previousTimestamp =
     bind (getRoundNumberFromHeight cfg (hHeight header)) (\<lambda>_.
     bind (viaValidators (getGeneratorsBetweenTimestamps (pcValidators cfg) previousTimestamp (hTimestamp header))) (\<lambda>missedBlocks.
     bind (missedAddresses missedBlocks cfg) (\<lambda>addresses.
     andThen (productivityLoop cfg (hHeight header) missedBlocks addresses)
     (bind (validatorGet cfg (hGeneratorAddress header)) (\<lambda>generator.
      validatorSet cfg (hGeneratorAddress header) (generator\<lparr>vdMissed := 0, vdLastGeneratedHeight := hHeight header\<rparr>))))))"

definition didBootstrapRoundsEnd :: "posConfig \<Rightarrow> int \<Rightarrow> (posCtx, bool) m" where
  "didBootstrapRoundsEnd cfg height =
     bind (genesisGet cfg) (\<lambda>g. bind (getRoundNumberFromHeight cfg (height + 1)) (\<lambda>nextHeightRound. ret (nextHeightRound > gdInitRounds g)))"

definition posAfterTransactionsExecute :: "posConfig \<Rightarrow> blockHeader \<Rightarrow> (posCtx, unit) m" where
  "posAfterTransactionsExecute cfg header =
     bind (isEndOfRound cfg (hHeight header)) (\<lambda>isLastBlockOfRound.
     bind (storeGet (heightSchema (pcLib cfg)) timestampStore []) (\<lambda>previousTimestamp.
     andThen (updateProductivity cfg header previousTimestamp)
     (andThen (whenM isLastBlockOfRound (createStakeWeightSnapshot cfg (hHeight header)))
     (bind (didBootstrapRoundsEnd cfg (hHeight header)) (\<lambda>ended.
      andThen (whenM (isLastBlockOfRound \<and> ended) (updateValidators cfg (hHeight header)))
      (storeSet (heightSchema (pcLib cfg)) timestampStore_update [] (hTimestamp header)))))))"

end
