(* ===== verification/PosLedger.thy ===== *)
theory PosLedger
  imports PosShared PosRounds
begin

text \<open>
  The operations that leave the balances, stakers and validators alone, and the remaining ones that
  write a validator: registration, commission, the ban and the productivity of the generators.
\<close>

section \<open>Frame\<close>

definition sameLedger :: "posCtx \<Rightarrow> posCtx \<Rightarrow> bool" where
  "sameLedger s t = (userStore t = userStore s \<and> escrowStore t = escrowStore s \<and> supplyStore t = supplyStore s \<and>
     stakerStore t = stakerStore s \<and> validatorStore t = validatorStore s)"

lemma sameLedger_inv: "sameLedger s t \<Longrightarrow> ledgerInv cfg T U s \<Longrightarrow> ledgerInv cfg T U t"
proof -
  assume s: "sameLedger s t" and i: "ledgerInv cfg T U s"
  have "locked cfg t = locked cfg s" using s by (simp add: sameLedger_def locked_def fun_eq_iff)
  then show "ledgerInv cfg T U t" using s i by (simp add: sameLedger_def tokenInv_def)
qed

definition keepsLedger :: "(posCtx, 'a) m \<Rightarrow> bool" where
  "keepsLedger c = (\<forall>s. sameLedger s (snd (c s)))"

lemma sameLedger_refl: "sameLedger s s"
  by (simp add: sameLedger_def)

lemma sameLedger_trans: "sameLedger s t \<Longrightarrow> sameLedger t u \<Longrightarrow> sameLedger s u"
  by (simp add: sameLedger_def)

lemma keepsLedger_pure: "keepsLedger (ret a)" "keepsLedger (throw e)" "keepsLedger (gets f)" "keepsLedger (liftE r)"
  by (simp_all add: keepsLedger_def ret_def throw_def gets_def liftE_def sameLedger_refl)

lemma keepsLedger_bind: "keepsLedger c \<Longrightarrow> (\<And>a. keepsLedger (f a)) \<Longrightarrow> keepsLedger (bind c f)"
  by (simp add: keepsLedger_def bind_def split: prod.split sum.split) (metis snd_conv sameLedger_trans)

lemma keepsLedger_andThen: "keepsLedger c \<Longrightarrow> keepsLedger d \<Longrightarrow> keepsLedger (andThen c d)"
  by (simp add: andThen_def keepsLedger_bind)

lemma keepsLedger_tryCatch: "keepsLedger c \<Longrightarrow> (\<And>e. keepsLedger (h e)) \<Longrightarrow> keepsLedger (tryCatch c h)"
  by (simp add: keepsLedger_def tryCatch_def split: prod.split sum.split) (metis snd_conv sameLedger_trans)

lemma keepsLedger_if: "(b \<Longrightarrow> keepsLedger c) \<Longrightarrow> (\<not> b \<Longrightarrow> keepsLedger d) \<Longrightarrow> keepsLedger (if b then c else d)"
  by simp

lemma keepsLedger_whenM: "keepsLedger c \<Longrightarrow> keepsLedger (whenM b c)"
  by (simp add: whenM_def keepsLedger_pure)

lemma keepsLedger_modify: "(\<And>s. sameLedger s (f s)) \<Longrightarrow> keepsLedger (modify f)"
  by (simp add: keepsLedger_def modify_def)

lemma keepsLedger_option: "keepsLedger c \<Longrightarrow> (\<And>a. keepsLedger (d a)) \<Longrightarrow> keepsLedger (case x of None \<Rightarrow> c | Some a \<Rightarrow> d a)"
  by (simp split: option.split)

lemma keepsLedger_store:
  "keepsLedger (storeGet sch sel k)" "keepsLedger (storeHas sel k)" "keepsLedger (storeIterate sch sel lo hi)"
  "(\<And>f s. sameLedger s (upd f s)) \<Longrightarrow> keepsLedger (storeSet sch upd k v)" "(\<And>f s. sameLedger s (upd f s)) \<Longrightarrow> keepsLedger (storeDel upd k)"
  by (simp_all add: storeGet_def storeHas_def storeSet_def storeDel_def storeIterate_def keepsLedger_pure keepsLedger_bind keepsLedger_option keepsLedger_modify)

lemma keepsLedger_event: "keepsLedger (eventAdd lib md name schema vals topics nr)"
  unfolding eventAdd_def by (intro keepsLedger_bind keepsLedger_pure keepsLedger_modify) (simp_all add: sameLedger_def)

lemma keepsLedger_via: "keepsLedger (viaValidators c)" "keepsLedger (viaRandom d)"
  by (simp_all add: keepsLedger_def viaValidators_def viaRandom_def sameLedger_def split: prod.split)

lemma sameLedger_updates:
  "sameLedger s (snapshotStore_update f s)" "sameLedger s (timestampStore_update f s)" "sameLedger s (eligibleStore_update f s)"
  "sameLedger s (nameStore_update f s)" "sameLedger s (cStore_update g s)" "sameLedger s (cEvents_update h s)"
  by (simp_all add: sameLedger_def)

lemmas keepsLedger_rules = keepsLedger_pure keepsLedger_bind keepsLedger_andThen keepsLedger_tryCatch keepsLedger_if keepsLedger_whenM
  keepsLedger_option keepsLedger_store keepsLedger_event keepsLedger_via sameLedger_updates

lemma keepsLedger_payFee: "keepsLedger (payFee lib n)"
  unfolding payFee_def deductFeeFromKey_def insufficientFeeEvent_def by (intro keepsLedger_rules keepsLedger_modify)

lemma keepsLedger_events: "keepsLedger (posEvent cfg name schema vals topics nr)" "keepsLedger (validatorStakedEvent cfg a b n r)"
  "keepsLedger (commissionChangeEvent cfg a m n)" "keepsLedger (validatorHeightEvent cfg name a h)" "keepsLedger (validatorRegisteredEvent cfg a name)"
  unfolding posEvent_def validatorStakedEvent_def commissionChangeEvent_def validatorHeightEvent_def validatorRegisteredEvent_def
  by (rule keepsLedger_event)+

lemma keepsLedger_eligible: "keepsLedger (eligibleUpdate cfg a w v)" "keepsLedger (eligibleGetAll cfg)"
  unfolding eligibleUpdate_def eligibleGetAll_def Let_def by (intro keepsLedger_rules)+

lemma keepsLedger_rounds: "keepsLedger (genesisGet cfg)" "keepsLedger (getRoundNumberFromHeight cfg h)" "keepsLedger (isEndOfRound cfg h)"
  "keepsLedger (didBootstrapRoundsEnd cfg h)" "keepsLedger (getActiveValidators cfg vs r)" "keepsLedger (snapshotDels es)"
  "keepsLedger (createStakeWeightSnapshot cfg h)" "keepsLedger (missedAddresses counts cfg)"
proof -
  show g: "keepsLedger (genesisGet cfg)" unfolding genesisGet_def by (rule keepsLedger_store)
  show r: "keepsLedger (getRoundNumberFromHeight cfg h)" for h unfolding getRoundNumberFromHeight_def by (intro keepsLedger_rules g)
  show "keepsLedger (isEndOfRound cfg h)" unfolding isEndOfRound_def by (intro keepsLedger_rules g)
  show "keepsLedger (didBootstrapRoundsEnd cfg h)" unfolding didBootstrapRoundsEnd_def by (intro keepsLedger_rules g r)
  show "keepsLedger (getActiveValidators cfg vs r)" unfolding getActiveValidators_def by (intro keepsLedger_rules g)
  have d: "keepsLedger (snapshotDels es)" for es :: "(bytes \<times> 'v) list"
    by (induction es) (auto intro!: keepsLedger_rules)
  show "keepsLedger (snapshotDels es)" by (rule d)
  have d': "keepsLedger (snapshotDels es)" for es :: "(bytes \<times> (bytes \<times> int) list) list"
    by (induction es) (auto intro!: keepsLedger_rules)
  show "keepsLedger (createStakeWeightSnapshot cfg h)" unfolding createStakeWeightSnapshot_def Let_def
    by (intro keepsLedger_rules keepsLedger_eligible r d')
  show "keepsLedger (missedAddresses counts cfg)" unfolding missedAddresses_def by (intro keepsLedger_rules)
qed

lemma keepsLedger_updateValidators: "keepsLedger (updateValidators cfg h)"
  unfolding updateValidators_def standbyValidators_def Let_def by (intro keepsLedger_rules keepsLedger_rounds)

lemma ok_keepsLedger: "keepsLedger c \<Longrightarrow> posInv cfg s \<Longrightarrow> ok c (\<lambda>_. posInv cfg) s"
  by (rule ok_run) (metis keepsLedger_def sameLedger_inv snd_conv)

text \<open>The invariant through a sequence.\<close>

lemma inv_bind: "ok c (\<lambda>_. posInv cfg) s \<Longrightarrow> (\<And>a t. posInv cfg t \<Longrightarrow> ok (f a) (\<lambda>_. posInv cfg) t) \<Longrightarrow> ok (bind c f) (\<lambda>_. posInv cfg) s"
  unfolding wp_bind by (rule ok_mono)

lemma inv_then: "ok c (\<lambda>_. posInv cfg) s \<Longrightarrow> (\<And>t. posInv cfg t \<Longrightarrow> ok d (\<lambda>_. posInv cfg) t) \<Longrightarrow> ok (andThen c d) (\<lambda>_. posInv cfg) s"
  unfolding wp_andThen by (rule ok_mono)

section \<open>Writing a validator without its stakes\<close>

lemma inv_setValidator:
  assumes inv: "posInv cfg s" and v: "validatorOfAddr (pcLib cfg) (validatorStore s) a = Some v" and low: "validatorAccountLow (pcLib cfg) w"
    and w: "vdCoefficients w = vdCoefficients v" "vdTotalStake w = vdTotalStake v" "vdSelfStake w = vdSelfStake v"
  shows "ok (validatorSet cfg a w) (\<lambda>_. posInv cfg) s"
proof (rule ok_validatorSet)
  fix bs assume e: "enc (accountSchema (pcLib cfg)) w = Inr bs"
  have "booksDelta (pcLib cfg) (posTokenID cfg) (\<lambda>_. 0) (\<lambda>_. 0) (stakerStore s) (kvset a bs (validatorStore s)) (locked cfg s)"
    by (rule books_sameCoefs[OF conjunct2[OF inv] v w(1) low e]) (simp_all add: w)
  then show "posInv cfg (validatorStore_update (kvset a bs) s)" using inv by simp
qed

lemma inv_low:
  "posInv cfg s \<Longrightarrow> validatorOfAddr (pcLib cfg) (validatorStore s) a = Some v \<Longrightarrow> validatorAccountLow (pcLib cfg) v"
  using books_validator[of "pcLib cfg" "posTokenID cfg" "\<lambda>_. 0" "\<lambda>_. 0" "stakerStore s" "validatorStore s" "locked cfg s" a v]
  by (simp add: validatorBooked_def accountOkPos_def)

lemma keeps_changeCommission:
  assumes "posInv cfg s" "0 \<le> height" "0 \<le> newCommission"
  shows "ok (changeCommissionExecute cfg height a newCommission) (\<lambda>_. posInv cfg) s"
  unfolding changeCommissionExecute_def Let_def wp_bind
proof (rule ok_validatorGet, rule inv_then, rule inv_setValidator[OF assms(1)], assumption)
  fix v assume "validatorOfAddr (pcLib cfg) (validatorStore s) a = Some v"
  from inv_low[OF assms(1) this] assms(2,3) show "validatorAccountLow (pcLib cfg) (if vdCommission v \<le> newCommission
       then v\<lparr>vdCommission := newCommission\<rparr>\<lparr>vdLastCommissionIncrease := height\<rparr> else v\<lparr>vdCommission := newCommission\<rparr>)"
    by (simp add: validatorAccountLow_def)
qed (auto intro: ok_keepsLedger keepsLedger_events)

lemma keeps_unban:
  assumes "posInv cfg s"
  shows "ok (unbanValidator cfg a) (\<lambda>_. posInv cfg) s"
  unfolding unbanValidator_def Let_def wp_bind
proof (rule ok_validatorGet, goal_cases)
  case (1 v)
  have "ok (andThen (validatorSet cfg a (v\<lparr>vdBanned := False\<rparr>)) (eligibleUpdate cfg a 0 (v\<lparr>vdBanned := False\<rparr>))) (\<lambda>_. posInv cfg) s"
    by (rule inv_then, rule inv_setValidator[OF assms 1]) (use inv_low[OF assms 1] in \<open>auto simp: validatorAccountLow_def intro: ok_keepsLedger keepsLedger_eligible\<close>)
  then show ?case by (simp only: wp_if wp_throw split: if_split) simp
qed

lemma keeps_updateGeneratorKey: "posInv cfg s \<Longrightarrow> ok (updateGeneratorKeyExecute cfg a k) (\<lambda>_. posInv cfg) s"
  unfolding updateGeneratorKeyExecute_def by (intro ok_keepsLedger keepsLedger_rules)

text \<open>A registration writes a new validator, in whom nobody has a stake.\<close>

lemma keeps_register:
  assumes inv: "posInv cfg s" and a: "length a = 20" "kvget (validatorStore s) a = None" "0 \<le> height" "nameOk (pcLib cfg) (rpName p)"
  shows "ok (registerValidatorExecute cfg height a p) (\<lambda>_. posInv cfg) s"
proof -
  let ?v = "\<lparr>vdName = rpName p, vdTotalStake = 0, vdSelfStake = 0, vdLastGeneratedHeight = height,
        vdBanned = False, vdReports = [], vdMissed = 0, vdCommission = COMMISSION, vdLastCommissionIncrease = height, vdCoefficients = []\<rparr>"
  have set: "ok (validatorSet cfg a ?v) (\<lambda>_. posInv cfg) t" if s: "sameLedger s t" for t
  proof (rule ok_validatorSet)
    fix bs assume e: "enc (accountSchema (pcLib cfg)) ?v = Inr bs"
    have i: "posInv cfg t" by (rule sameLedger_inv[OF s inv])
    note b = conjunct2[OF i]
    have n: "validatorOfAddr (pcLib cfg) (validatorStore t) a = None" using s a(2) by (simp add: sameLedger_def validatorOfAddr_def)
    note z = books_noStakes[OF b n]
    have C: "coefsOf (pcLib cfg) (validatorStore t) a = []" using n by (simp add: coefsOf_def)
    have "booksDelta (pcLib cfg) (posTokenID cfg) (\<lambda>_. 0) (\<lambda>_. 0) (stakerStore t) (kvset a bs (validatorStore t)) (locked cfg t)"
    proof (rule books_setValidator[OF b a(1) _ e])
      show "accountOkPos (pcLib cfg) ?v" using a by (simp add: accountOkPos_def validatorAccountLow_def COMMISSION_def)
      fix x u :: bytes assume x: "length x = 20"
      have "(coefsOf (pcLib cfg) (validatorStore t))(a := []) = coefsOf (pcLib cfg) (validatorStore t)" using C by (simp add: fun_upd_idem)
      then show "coverage (pcLib cfg) (posTokenID cfg) (stakerStore t) ((coefsOf (pcLib cfg) (validatorStore t))(a := vdCoefficients ?v)) x u \<le> qOne * locked cfg t x u"
        using books_coverage[OF b x, of u] by simp
    qed (simp_all add: z C)
    then show "posInv cfg (validatorStore_update (kvset a bs) t)" using i by simp
  qed
  have rest: "ok (andThen (validatorSet cfg a ?v) (andThen (storeSet (nameSchema (pcLib cfg)) nameStore_update (stringToBytes (rpName p)) a)
     (validatorRegisteredEvent cfg a (rpName p)))) (\<lambda>_. posInv cfg) t" if "sameLedger s t" for t
    by (rule inv_then[OF set[OF that]]) (intro ok_keepsLedger keepsLedger_rules keepsLedger_events)
  have first: "ok (viaValidators (registerValidatorKeys (pcValidators cfg) a (rpBlsKey p) (rpGeneratorKey p) (rpProofOfPossession p))) (\<lambda>_ t. sameLedger s t) s"
    by (rule ok_run) (metis keepsLedger_via(1) keepsLedger_def snd_conv)
  have second: "ok (payFee (pcLib cfg) (validatorRegistrationFee cfg)) (\<lambda>_ t. sameLedger s t) t" if "sameLedger s t" for t
    by (rule ok_run) (metis keepsLedger_payFee that keepsLedger_def sameLedger_trans snd_conv)
  show ?thesis unfolding registerValidatorExecute_def wp_andThen[of "viaValidators _"] wp_andThen[of "payFee _ _"]
    by (rule ok_mono[OF first], rule ok_mono[OF second], assumption, rule rest)
qed

section \<open>Rounds\<close>

definition countsNonneg :: "counts \<Rightarrow> bool" where
  "countsNonneg r = (\<forall>a n. r a = Some n \<longrightarrow> 0 \<le> n)"

lemma countsNonneg_update: "countsNonneg r \<Longrightarrow> 0 \<le> n \<Longrightarrow> countsNonneg (r(a \<mapsto> n))"
  by (simp add: countsNonneg_def)

lemma countsNonneg_bump:
  assumes "countsNonneg r"
  shows "countsNonneg (bump a r)"
proof (cases "r a")
  case (Some n)
  then have "0 \<le> n + 1" using assms by (auto simp: countsNonneg_def)
  then show ?thesis using Some countsNonneg_update[OF assms] by (simp add: bump_def)
qed (simp add: bump_def countsNonneg_update[OF assms])

lemma countsNonneg_slots: "countsNonneg r \<Longrightarrow> countsNonneg (countSlots k as n r)"
  by (induction k arbitrary: n r) (simp_all add: countsNonneg_bump)

lemma countsNonneg_base: "countsNonneg r \<Longrightarrow> 0 \<le> n \<Longrightarrow> countsNonneg (foldl (\<lambda>r a. r(a \<mapsto> n)) r as)"
  by (induction as arbitrary: r) (simp_all add: countsNonneg_update)

lemma countsNonneg_generators: "countsNonneg (generatorsBetween as lo hi)"
proof -
  have e: "countsNonneg Map.empty" by (simp add: countsNonneg_def)
  show ?thesis unfolding generatorsBetween_def Let_def
    by (auto split: prod.split if_splits intro!: countsNonneg_slots countsNonneg_base e simp: e)
qed

lemma ok_True: "wp c (\<lambda>_ _. True) (\<lambda>_ _. True) s"
  by (simp add: wp_def split: prod.split sum.split)

lemma countsNonneg_between: "wp (getGeneratorsBetweenTimestamps env a b) (\<lambda>r _. countsNonneg r) (\<lambda>_ _. True) s"
  unfolding getGeneratorsBetweenTimestamps_def Let_def
  by (auto simp: wp ok_True countsNonneg_generators countsNonneg_def[of Map.empty] intro!: wp_mono[OF ok_True])

lemma keeps_productivity:
  assumes "countsNonneg r" "list_all (\<lambda>a. r a \<noteq> None) as" "posInv cfg s"
  shows "ok (productivityLoop cfg h r as) (\<lambda>_. posInv cfg) s"
  using assms(2,3)
proof (induction as arbitrary: s)
  case (Cons a as)
  obtain n where n: "r a = Some n" "0 \<le> n" using Cons.prems(1) assms(1) by (auto simp: countsNonneg_def)
  show ?case unfolding productivityLoop.simps wp_bind Let_def
  proof (rule ok_validatorGet, goal_cases)
    case (1 v)
    define w where "w = (if vdMissed (v\<lparr>vdMissed := vdMissed v + the (r a)\<rparr>) > failSafeMissedBlocks cfg \<and>
        h - vdLastGeneratedHeight (v\<lparr>vdMissed := vdMissed v + the (r a)\<rparr>) > failSafeInactiveWindow cfg
      then v\<lparr>vdMissed := vdMissed v + the (r a)\<rparr>\<lparr>vdBanned := True\<rparr> else v\<lparr>vdMissed := vdMissed v + the (r a)\<rparr>)"
    have low: "validatorAccountLow (pcLib cfg) w" using inv_low[OF Cons.prems(2) 1] n by (simp add: w_def validatorAccountLow_def)
    have w: "vdCoefficients w = vdCoefficients v" "vdTotalStake w = vdTotalStake v" "vdSelfStake w = vdSelfStake v" by (simp_all add: w_def)
    have ev: "ok (whenM c (eligibleUpdate cfg a k w)) (\<lambda>_ t. \<exists>f. t = eligibleStore_update f s) s" for c k
    proof -
      have s: "\<exists>f. s = eligibleStore_update f s" by (rule exI[of _ "\<lambda>x. x"]) simp
      show ?thesis unfolding wp_whenM using s by (auto intro!: ok_eligibleUpdate)
    qed
    have next': "ok (andThen (validatorSet cfg a w) (productivityLoop cfg h r as)) (\<lambda>_. posInv cfg) (eligibleStore_update f s)" for f
    proof (rule inv_then[OF inv_setValidator[where v = v]])
      show "posInv cfg (eligibleStore_update f s)" using Cons.prems(2) by simp
      show "ok (productivityLoop cfg h r as) (\<lambda>_. posInv cfg) t" if "posInv cfg t" for t using Cons.IH[OF _ that] Cons.prems(1) by simp
    qed (use 1 low w in simp_all)
    show ?case unfolding w_def[symmetric] wp_andThen[of "whenM _ _"]
      by (rule ok_mono[OF ev]) (use next' in auto)
  qed
qed (simp add: wp_ret)

lemma ok_viaValidators: "wp c Q (\<lambda>_ _. True) (validatorsCtx s) \<Longrightarrow> ok (viaValidators c) (\<lambda>a t. sameLedger s t \<and> (\<exists>u. Q a u)) s"
  by (auto simp: wp_def viaValidators_def sameLedger_def split: prod.splits sum.splits)

lemma keeps_updateProductivity:
  assumes inv: "posInv cfg s" and h: "0 \<le> hHeight header"
  shows "ok (updateProductivity cfg header previous) (\<lambda>_. posInv cfg) s"
proof -
  have gen: "ok (bind (validatorGet cfg (hGeneratorAddress header)) (\<lambda>generator.
      validatorSet cfg (hGeneratorAddress header) (generator\<lparr>vdMissed := 0, vdLastGeneratedHeight := hHeight header\<rparr>))) (\<lambda>_. posInv cfg) t" if t: "posInv cfg t" for t
    unfolding wp_bind
  proof (rule ok_validatorGet, rule inv_setValidator[OF t], assumption)
    fix v assume "validatorOfAddr (pcLib cfg) (validatorStore t) (hGeneratorAddress header) = Some v"
    from inv_low[OF t this] h show "validatorAccountLow (pcLib cfg) (v\<lparr>vdMissed := 0, vdLastGeneratedHeight := hHeight header\<rparr>)" by (simp add: validatorAccountLow_def)
  qed simp_all
  have loop: "ok (bind (missedAddresses r cfg) (\<lambda>as. andThen (productivityLoop cfg (hHeight header) r as)
      (bind (validatorGet cfg (hGeneratorAddress header)) (\<lambda>generator.
        validatorSet cfg (hGeneratorAddress header) (generator\<lparr>vdMissed := 0, vdLastGeneratedHeight := hHeight header\<rparr>))))) (\<lambda>_. posInv cfg) t"
    if t: "posInv cfg t" and r: "countsNonneg r" for r t
  proof -
    have "ok (missedAddresses r cfg) (\<lambda>as _. list_all (\<lambda>a. r a \<noteq> None) as) t"
      unfolding missedAddresses_def wp_bind[of "tryCatch _ _"] wp_ret by (rule wp_mono[OF ok_True]) (auto simp: list_all_iff)
    from ok_and[OF this ok_keepsLedger[OF keepsLedger_rounds(8) t]]
    show ?thesis unfolding wp_bind[of "missedAddresses _ _"]
      by (rule ok_mono) (auto intro!: inv_then[OF keeps_productivity[OF r]] gen)
  qed
  have get: "ok (viaValidators (getGeneratorsBetweenTimestamps (pcValidators cfg) previous (hTimestamp header)))
      (\<lambda>r u. sameLedger t u \<and> (\<exists>u :: vctx. countsNonneg r)) t" for t
    by (rule ok_viaValidators[OF countsNonneg_between])
  show ?thesis unfolding updateProductivity_def
  proof (rule inv_bind[OF ok_keepsLedger[OF keepsLedger_rounds(2) inv]])
    fix t assume t: "posInv cfg t"
    show "ok (bind (viaValidators (getGeneratorsBetweenTimestamps (pcValidators cfg) previous (hTimestamp header))) (\<lambda>missedBlocks.
       bind (missedAddresses missedBlocks cfg) (\<lambda>addresses. andThen (productivityLoop cfg (hHeight header) missedBlocks addresses)
      (bind (validatorGet cfg (hGeneratorAddress header)) (\<lambda>generator.
        validatorSet cfg (hGeneratorAddress header) (generator\<lparr>vdMissed := 0, vdLastGeneratedHeight := hHeight header\<rparr>)))))) (\<lambda>_. posInv cfg) t"
      unfolding wp_bind[of "viaValidators _"] by (rule ok_mono[OF get]) (use loop sameLedger_inv[OF _ t] in blast)
  qed
qed

lemma keeps_afterTransactions:
  assumes inv: "posInv cfg s" and h: "0 \<le> hHeight header"
  shows "ok (posAfterTransactionsExecute cfg header) (\<lambda>_. posInv cfg) s"
  unfolding posAfterTransactionsExecute_def
proof (rule inv_bind[OF ok_keepsLedger[OF keepsLedger_rounds(3) inv]], rule inv_bind, rule ok_keepsLedger, rule keepsLedger_store(1), assumption,
    rule inv_then, rule keeps_updateProductivity, assumption, rule h, rule inv_then, rule ok_keepsLedger, rule keepsLedger_whenM, rule keepsLedger_rounds(7), assumption,
    rule inv_bind, rule ok_keepsLedger, rule keepsLedger_rounds(4), assumption, rule inv_then, rule ok_keepsLedger, rule keepsLedger_whenM,
    rule keepsLedger_updateValidators, assumption)
qed (intro ok_keepsLedger keepsLedger_rules)

end
