(* ===== verification/PosRoundsTheorems.thy ===== *)
theory PosRoundsTheorems
  imports PosRounds CodecRoundtrip "HOL-Library.Multiset"
begin

text \<open>
  The properties of the rounds: the cap of the BFT weights, the choice of a standby validator in
  proportion to its stake, and the validators that are set for the next round.
\<close>

section \<open>The cap of the weights\<close>

definition weightsOf :: "validatorWeight list \<Rightarrow> int" where "weightsOf vs = sum_list (map snd vs)"

definition descending :: "validatorWeight list \<Rightarrow> bool" where "descending vs = sorted_wrt (\<lambda>a b. snd a \<ge> snd b) vs"

lemma weightsOf_drop: "k < length vs \<Longrightarrow> weightsOf (drop k vs) = snd (vs ! k) + weightsOf (drop (Suc k) vs)"
  by (simp add: weightsOf_def Cons_nth_drop_Suc[symmetric])

lemma weightsOf_nonneg: "list_all (\<lambda>v. 0 \<le> snd v) vs \<Longrightarrow> 0 \<le> weightsOf vs"
  by (auto simp: weightsOf_def list_all_iff intro!: sum_list_nonneg)

lemma weightsOf_part: "list_all (\<lambda>v. 0 \<le> snd v) vs \<Longrightarrow> 0 \<le> weightsOf (take j vs)" "list_all (\<lambda>v. 0 \<le> snd v) vs \<Longrightarrow> 0 \<le> weightsOf (drop j vs)"
  by (rule weightsOf_nonneg, metis append_take_drop_id list_all_append)+

lemma descending_drop:
  assumes "descending vs" "k < length vs" "v \<in> set (drop k vs)"
  shows "snd v \<le> snd (vs ! k)"
proof -
  obtain j where j: "j < length vs - k" "v = vs ! (k + j)" using assms(2,3) by (auto simp: in_set_conv_nth)
  then show ?thesis using assms(1) by (cases "j = 0") (auto simp: descending_def sorted_wrt_iff_nth_less)
qed

lemma weightsOf_capped: "weightsOf (map (\<lambda>v. (fst v, w)) xs @ ys) = int (length xs) * w + weightsOf ys"
  by (induction xs) (simp_all add: weightsOf_def algebra_simps)

lemma capped_simp: "cappedRemaining (100 * c) p i = c * p div (100 - c * int i)"
  by (simp add: cappedRemaining_def mult.assoc)

lemma capLoop_bound:
  assumes "0 < c" "descending vs" "list_all (\<lambda>v. 0 \<le> snd v) vs" "k < length vs" "c * int k < 100"
    and "snd (vs ! k) * (100 - c * int k) \<le> c * weightsOf (drop k vs)"
  shows "\<forall>v \<in> set (capLoop vs (100 * c) (weightsOf (drop (Suc k) vs)) k).
    snd v * 100 \<le> c * weightsOf (capLoop vs (100 * c) (weightsOf (drop (Suc k) vs)) k)"
  using assms(4-6)
proof (induction k)
  case 0
  have "snd v \<le> snd (vs ! 0)" if "v \<in> set vs" for v using descending_drop[OF assms(2) 0(1)] that by simp
  then show ?case using 0 by (auto intro: order_trans[rotated])
next
  case (Suc k)
  let ?S = "weightsOf (drop (Suc k) vs)" and ?d = "100 - c * int (Suc k)"
  let ?w = "c * ?S div ?d"
  have d: "0 < ?d" using Suc.prems(2) by simp
  have p: "weightsOf (drop (Suc (Suc k)) vs) + snd (vs ! Suc k) = ?S" using weightsOf_drop[OF Suc.prems(1)] by simp
  have w: "?w * ?d \<le> c * ?S" using d div_mult_mod_eq[of "c * ?S" ?d] pos_mod_sign[OF d, of "c * ?S"] by linarith
  have low: "snd (vs ! Suc k) \<le> ?w" using Suc.prems(3) d zdiv_mono1[OF Suc.prems(3) d] by simp
  show ?case
  proof (cases "?w < snd (vs ! k)")
    case True
    let ?r = "map (\<lambda>v. (fst v, ?w)) (take (Suc k) vs) @ drop (Suc k) vs"
    have r: "capLoop vs (100 * c) (weightsOf (drop (Suc (Suc k)) vs)) (Suc k) = ?r"
      using True p by (simp add: Let_def capped_simp del: of_nat_Suc)
    have "weightsOf ?r = int (Suc k) * ?w + ?S"
      using Suc.prems(1) unfolding weightsOf_capped by (simp only: length_take min.absorb2 less_imp_le)
    then have t: "?w * 100 \<le> c * weightsOf ?r" using w by (simp add: algebra_simps del: of_nat_Suc)
    have "snd v \<le> ?w" if "v \<in> set (drop (Suc k) vs)" for v
      using descending_drop[OF assms(2) Suc.prems(1) that] low by linarith
    then show ?thesis unfolding r using t by fastforce
  next
    case False
    have r: "capLoop vs (100 * c) (weightsOf (drop (Suc (Suc k)) vs)) (Suc k) = capLoop vs (100 * c) ?S k"
      using False p by (simp add: Let_def capped_simp del: of_nat_Suc)
    have k: "k < length vs" "c * int k < 100" using Suc.prems(1,2) assms(1) by (auto simp: distrib_left)
    have "snd (vs ! k) * ?d \<le> ?w * ?d" using False d by (intro mult_right_mono) auto
    then have "snd (vs ! k) * ?d \<le> c * ?S" using w by linarith
    then have "snd (vs ! k) * (100 - c * int k) \<le> c * weightsOf (drop k vs)"
      unfolding weightsOf_drop[OF k(1)] by (simp add: algebra_simps)
    from Suc.IH[OF k this] show ?thesis unfolding r .
  qed
qed

lemma capLoop_fst: "map fst (capLoop vs c p k) = map fst vs"
  by (induction vs c p k rule: capLoop.induct) (simp_all add: Let_def take_map[symmetric] drop_map[symmetric] o_def)

lemma capLoop_below: "list_all2 (\<lambda>v w. snd v \<le> snd w) (capLoop vs c p k) vs" if "descending vs" "k < length vs"
  using that
proof (induction k arbitrary: p)
  case 0
  then show ?case by (simp add: list_all2_same)
next
  case (Suc k)
  let ?w = "cappedRemaining c (p + snd (vs ! Suc k)) (Suc k)"
  have "list_all2 (\<lambda>v w. snd v \<le> snd w) (map (\<lambda>v. (fst v, ?w)) (take (Suc k) vs) @ drop (Suc k) vs) (take (Suc k) vs @ drop (Suc k) vs)"
    if w: "?w < snd (vs ! k)"
  proof (rule list_all2_appendI)
    have "?w \<le> snd (vs ! j)" if "j < Suc k" for j
      using Suc.prems w that by (cases "j = k") (auto simp: descending_def sorted_wrt_iff_nth_less intro: order_trans[OF less_imp_le[OF w]])
    then show "list_all2 (\<lambda>v w. snd v \<le> snd w) (map (\<lambda>v. (fst v, ?w)) (take (Suc k) vs)) (take (Suc k) vs)"
      by (auto simp: list_all2_conv_all_nth)
  qed (simp add: list_all2_same)
  then show ?case using Suc.IH Suc.prems by (simp add: Let_def)
qed

text \<open>
  C7: the cap of the BFT weights holds. For at least \<open>10000 / cap\<close> validators in descending order of their weights,
  and a cap that is a whole number of percent, \<open>_capWeightIfNeeded\<close> leaves no validator with more than the
  fraction \<open>cap / 10000\<close> of the total weight that results; it keeps the validators and their order, and raises no weight.
\<close>

theorem bft_weights_capped:
  assumes "descending vs" "list_all (\<lambda>v. 0 \<le> snd v) vs" "maxBFTWeightCap cfg = 100 * c" "0 < c" "c \<le> 100"
    and "ceilDiv MAX_CAP (maxBFTWeightCap cfg) \<le> int (length vs)"
  shows "(\<forall>v \<in> set (capWeightIfNeeded cfg vs). snd v * MAX_CAP \<le> maxBFTWeightCap cfg * weightsOf (capWeightIfNeeded cfg vs)) \<and>
    map fst (capWeightIfNeeded cfg vs) = map fst vs \<and> list_all2 (\<lambda>v w. snd v \<le> snd w) (capWeightIfNeeded cfg vs) vs"
proof -
  let ?k = "maxCappedElements (100 * c)"
  have q: "100 - c < c * (ceilDiv MAX_CAP (100 * c) - 1) + 1" "c * (ceilDiv MAX_CAP (100 * c) - 1) < 100" "0 < ceilDiv MAX_CAP (100 * c)"
  proof -
    define t where "t = (- 100) div c"
    define r where "r = (- 100) mod c"
    have e: "ceilDiv MAX_CAP (100 * c) = - t"
      using div_mult_mult1[of 100 "- 100" c] by (simp add: ceilDiv_def MAX_CAP_def t_def)
    have tr: "t * c + r = - 100" unfolding t_def r_def by (rule div_mult_mod_eq)
    then have m: "c * (- t - 1) = 100 + r - c" by (simp add: algebra_simps)
    have r: "0 \<le> r" "r < c" using assms(4) by (simp_all add: r_def)
    show "100 - c < c * (ceilDiv MAX_CAP (100 * c) - 1) + 1" "c * (ceilDiv MAX_CAP (100 * c) - 1) < 100" unfolding e m using r by auto
    have "t * c < 0" using tr r by linarith
    then have "t < 0" using assms(4) by (simp add: mult_less_0_iff)
    then show "0 < ceilDiv MAX_CAP (100 * c)" unfolding e by simp
  qed
  have k: "int ?k = ceilDiv MAX_CAP (100 * c) - 1" using q(3) by (simp add: maxCappedElements_def)
  have len: "?k < length vs" using assms(6) k assms(3) by simp
  have r: "capWeightIfNeeded cfg vs = capLoop vs (100 * c) (weightsOf (drop (Suc ?k) vs)) ?k"
    using assms(3,6) by (simp add: capWeightIfNeeded_def Let_def capWeight_def weightsOf_def)
  have "0 \<le> weightsOf (drop (Suc ?k) vs)" "0 \<le> snd (vs ! ?k)" using weightsOf_part(2)[OF assms(2)] assms(2) len
    by (simp_all add: list_all_length)
  moreover have "100 - c * int ?k \<le> c" using q(1) k by simp
  ultimately have "snd (vs ! ?k) * (100 - c * int ?k) \<le> snd (vs ! ?k) * c" "c * snd (vs ! ?k) \<le> c * weightsOf (drop ?k vs)"
    using assms(4) by (simp_all only: mult_left_mono weightsOf_drop[OF len] mult_left_mono le_add_same_cancel1 less_imp_le)
  then have "snd (vs ! ?k) * (100 - c * int ?k) \<le> c * weightsOf (drop ?k vs)" by (simp only: mult.commute[of "snd (vs ! ?k)" c])
  from capLoop_bound[OF assms(4,1,2) len _ this] q(2) k
  show ?thesis unfolding r assms(3) MAX_CAP_def using capLoop_fst capLoop_below[OF assms(1) len] by (simp add: mult.assoc) fastforce
qed


section \<open>Standby validators\<close>






section \<open>The validators of the next round\<close>

lemma mset_insertBy: "mset (insertBy cmp x xs) = add_mset x (mset xs)"
  by (induction xs) auto

lemma mset_sortBy: "mset (sortBy cmp xs) = mset xs"
  by (induction xs) (auto simp: mset_insertBy)

lemma shuffle_mset: "mset (shuffleValidatorList hash seed vs) = mset vs"
  by (simp add: shuffleValidatorList_def mset_sortBy image_mset.compositionality o_def)

lemma addInit_distinct: "distinct (map fst active) \<Longrightarrow> distinct (map fst (addInit as n w active))"
  by (induction as arbitrary: n active) auto

lemma mapE_fst: "mapE (\<lambda>v. rbind (f v) (\<lambda>w. Inr (fst v, w))) xs = Inr ys \<Longrightarrow> map fst ys = map fst xs"
  by (induction xs arbitrary: ys) (auto simp: rbind_Inr)

lemma capIfNeeded_fst: "map fst (capWeightIfNeeded cfg vs) = map fst vs"
  by (simp add: capWeightIfNeeded_def Let_def capWeight_def capLoop_fst)

lemma active_distinct:
  assumes "activeValidators cfg g snapshot round = Inr active" "distinct (map fst snapshot)" "distinct (gdInitValidators g)"
  shows "distinct (map fst active)"
  using assms
  by (auto simp: activeValidators_def Let_def rbind_Inr scaleWeights_def capIfNeeded_fst o_def dest!: mapE_fst
      intro!: addInit_distinct split: if_splits) (simp_all add: take_map[symmetric] map_idI)

lemma splice_facts:
  assumes "spliceOne i xs = Inr (x, ys)"
  shows "mset xs = add_mset x (mset ys)"
proof -
  obtain k where k: "k < length xs" "x = xs ! k" "ys = take k xs @ drop (Suc k) xs"
    using assms by (auto simp: spliceOne_def Let_def split: if_splits)
  then have "mset xs = mset (take k xs @ xs ! k # drop (Suc k) xs)" by (simp add: id_take_nth_drop[symmetric])
  then show ?thesis using k by simp
qed

lemma standby_facts:
  assumes "selectStandbyValidators cs s1 s2 = Inr r" "distinct (map fst cs)"
  shows "distinct (map fst r)" "fst ` set r \<subseteq> fst ` set cs" "\<forall>v \<in> set r. snd v = 0"
proof -
  have *: "distinct (map fst r) \<and> fst ` set r \<subseteq> fst ` set cs \<and> (\<forall>v \<in> set r. snd v = 0)"
  proof (cases "length cs \<le> 1 + (if s2 \<noteq> None then 1 else 0)")
    case True
    then show ?thesis using assms by (auto simp: selectStandbyValidators_def Let_def o_def split: if_splits)
  next
    case False
    then obtain k x ys where x: "spliceOne k cs = Inr (x, ys)" and r: "case s2 of None \<Rightarrow> r = [(fst x, 0)]
        | Some b \<Rightarrow> \<exists>l y zs. spliceOne l ys = Inr (y, zs) \<and> r = [(fst x, 0), (fst y, 0)]"
      using assms(1) by (auto simp: selectStandbyValidators_def Let_def rbind_Inr split: if_splits option.splits prod.splits) blast+
    note mx = splice_facts[OF x]
    have "mset (map fst cs) = mset (map fst (x # ys))" using mx by simp
    then have d: "distinct (map fst (x # ys))" using assms(2) mset_eq_imp_distinct_iff by blast
    have sx: "set cs = insert x (set ys)" using arg_cong[OF mx, of set_mset] by simp
    show ?thesis
    proof (cases s2)
      case None
      then show ?thesis using r sx by simp
    next
      case (Some b)
      then obtain l y zs where y: "spliceOne l ys = Inr (y, zs)" "r = [(fst x, 0), (fst y, 0)]" using r by auto
      then have "y \<in> set ys" using arg_cong[OF splice_facts[OF y(1)], of set_mset] by simp
      then show ?thesis using y(2) d sx by auto
    qed
  qed
  then show "distinct (map fst r)" "fst ` set r \<subseteq> fst ` set cs" "\<forall>v \<in> set r. snd v = 0" by auto
qed

lemma withKeys_pairs: "wp (withKeys env vs) (\<lambda>r t. t = s \<and> map (\<lambda>v. (vAddress v, vBftWeight v)) r = vs) (\<lambda>_ t. t = s) s"
proof (induction vs)
  case (Cons v vs)
  show ?case unfolding withKeys.simps wp_bind wp_storeGet
    by (auto split: option.split sum.split intro!: wp_mono[OF Cons.IH] simp: wp)
qed (simp add: wp)

definition vback :: "posCtx \<Rightarrow> vctx \<Rightarrow> posCtx" where
  "vback s t = s\<lparr>cHeight := cHeight t, cTopics := cTopics t, cEvents := cEvents t, cStore := cStore t, validatorsState := sState t, nextSet := sNext t\<rparr>"

definition rback :: "posCtx \<Rightarrow> rctx \<Rightarrow> posCtx" where
  "rback s t = s\<lparr>cHeight := cHeight t, cTopics := cTopics t, cEvents := cEvents t, cStore := cStore t, randomState := sState t, nextSet := sNext t\<rparr>"

lemma wp_viaValidators: "wp (viaValidators c) Q E s = wp c (\<lambda>a t. Q a (vback s t)) (\<lambda>e t. E e (vback s t)) (validatorsCtx s)"
  by (auto simp: wp_def viaValidators_def vback_def split: prod.splits sum.splits)

lemma wp_viaRandom: "wp (viaRandom c) Q E s = wp c (\<lambda>a t. Q a (rback s t)) (\<lambda>e t. E e (rback s t)) (randomCtx s)"
  by (auto simp: wp_def viaRandom_def rback_def split: prod.splits sum.splits)

lemma back_id [simp]: "vback s (validatorsCtx s) = s" "rback s (randomCtx s) = s"
  by (simp_all add: vback_def rback_def validatorsCtx_def randomCtx_def)

lemma setParams_pairs:
  "ok (viaValidators (setValidatorsParams env pt ct vs)) (\<lambda>_ t. \<exists>nv. nextSet t = Some nv \<and> nvPrecommitThreshold nv = pt \<and> nvCertificateThreshold nv = ct \<and>
     map (\<lambda>v. (vAddress v, vBftWeight v)) (nvValidators nv) = vs) s"
  unfolding wp_viaValidators setValidatorsParams_def wp_bind
  by (rule wp_mono[OF withKeys_pairs]) (auto simp: wp setNextValidators_def vback_def split: sum.split)

lemma ok_random: "(\<And>b. Q b s) \<Longrightarrow> ok (viaRandom (getRandomBytes env h n)) Q s"
  by (auto simp: wp_viaRandom getRandomBytes_def wp split: option.split sum.split)

lemma ok_standby:
  assumes "\<And>r. r = [] \<or> (\<exists>s1 s2. selectStandbyValidators (filter (\<lambda>v. fst v \<notin> fst ` set active) snapshot) s1 s2 = Inr r) \<Longrightarrow> Q r s"
  shows "ok (standbyValidators cfg g height nextRound snapshot active seed1) Q s"
  unfolding standbyValidators_def Let_def wp_if wp_bind wp_liftE wp_ret
  by (auto intro!: ok_random assms split: sum.split)

definition snapshotAt :: "posConfig \<Rightarrow> posCtx \<Rightarrow> int \<Rightarrow> validatorWeight list option" where
  "snapshotAt cfg s round = (case uint32BE round of Inl _ \<Rightarrow> None | Inr key \<Rightarrow>
     (case kvget (snapshotStore s) key of None \<Rightarrow> None
      | Some bs \<Rightarrow> (case dec (snapshotSchema (pcLib cfg)) bs of Inl _ \<Rightarrow> None | Inr ws \<Rightarrow> Some ws)))"

definition genesisAt :: "posConfig \<Rightarrow> posCtx \<Rightarrow> genesisData option" where
  "genesisAt cfg s = (case kvget (genesisStore s) [] of None \<Rightarrow> None
     | Some bs \<Rightarrow> (case dec (genesisSchema (pcLib cfg)) bs of Inl _ \<Rightarrow> None | Inr g \<Rightarrow> Some g))"

lemma ok_genesisGet: "(\<And>g. genesisAt cfg s = Some g \<Longrightarrow> Q g s) \<Longrightarrow> ok (genesisGet cfg) Q s"
  by (auto simp: genesisGet_def wp genesisAt_def split: option.split sum.split)

definition nextRoundOf :: "posConfig \<Rightarrow> genesisData \<Rightarrow> int \<Rightarrow> int" where
  "nextRoundOf cfg g height = ceilDiv (height - gdHeight g) (roundLength cfg) + 1"

definition validatorsFrom :: "validatorWeight list \<Rightarrow> validatorWeight list \<Rightarrow> validatorWeight list \<Rightarrow> nextValidators \<Rightarrow> bool" where
  "validatorsFrom snapshot active standby nv =
     (mset (map (\<lambda>v. (vAddress v, vBftWeight v)) (nvValidators nv)) = mset (active @ standby) \<and> distinct (map vAddress (nvValidators nv)) \<and>
      (\<forall>v \<in> set standby. snd v = 0 \<and> fst v \<in> fst ` set snapshot \<and> fst v \<notin> fst ` set active) \<and>
      nvPrecommitThreshold nv = 2 * weightsOf active div 3 + 1 \<and> nvCertificateThreshold nv = nvPrecommitThreshold nv)"

lemma set_outcome:
  assumes a: "activeValidators cfg g snapshot round = Inr active"
    and r: "standby = [] \<or> (\<exists>s1 s2. selectStandbyValidators (filter (\<lambda>v. fst v \<notin> fst ` set active) snapshot) s1 s2 = Inr standby)"
    and d: "distinct (map fst snapshot)" "distinct (gdInitValidators g)"
  shows "ok (let vs = active @ standby in if vs = [] then ret () else let sh = shuffleValidatorList (pcHash cfg) seed vs;
        W = sum_list (map snd sh); p = 2 * W div 3 + 1 in viaValidators (setValidatorsParams (pcValidators cfg) p p sh))
     (\<lambda>_ t. \<exists>active standby. activeValidators cfg g snapshot round = Inr active \<and>
        (active @ standby = [] \<and> t = s \<or> (\<exists>nv. nextSet t = Some nv \<and> validatorsFrom snapshot active standby nv))) s"
    (is "ok _ (\<lambda>_. ?P) _")
proof -
  let ?sh = "shuffleValidatorList (pcHash cfg) seed (active @ standby)"
  have df: "distinct (map fst (filter (\<lambda>v. fst v \<notin> fst ` set active) snapshot))" using d(1) by (simp add: distinct_map_filter)
  then have f: "distinct (map fst standby) \<and> fst ` set standby \<subseteq> fst ` set (filter (\<lambda>v. fst v \<notin> fst ` set active) snapshot) \<and> (\<forall>v \<in> set standby. snd v = 0)"
    using r df
  proof (elim disjE exE)
    fix s1 s2 assume "selectStandbyValidators (filter (\<lambda>v. fst v \<notin> fst ` set active) snapshot) s1 s2 = Inr standby"
    from standby_facts[OF this df] show ?thesis by blast
  qed simp
  have g2: "fst ` set (filter (\<lambda>v. fst v \<notin> fst ` set active) snapshot) \<subseteq> fst ` set snapshot - fst ` set active" by auto
  have sub: "fst ` set standby \<subseteq> fst ` set snapshot - fst ` set active" using f g2 by (elim conjE) (rule order_trans)
  have st: "distinct (map fst standby)" by (rule conjunct1[OF f])
  have st2: "\<forall>v \<in> set standby. snd v = 0 \<and> fst v \<in> fst ` set snapshot \<and> fst v \<notin> fst ` set active"
  proof
    fix v assume v: "v \<in> set standby"
    have "snd v = 0" using f v by (elim conjE) (rule bspec)
    then show "snd v = 0 \<and> fst v \<in> fst ` set snapshot \<and> fst v \<notin> fst ` set active" using subsetD[OF sub imageI[OF v]] by simp
  qed
  have "Z \<inter> X = {}" if "X \<subseteq> Y - Z" for X Y Z :: "bytes set" using that by auto
  note this[OF sub]
  then have d: "distinct (map fst (active @ standby))" using active_distinct[OF a d] st by simp
  have m: "mset ?sh = mset (active @ standby)" by (rule shuffle_mset)
  then have "mset (map fst ?sh) = mset (map fst (active @ standby))" by (metis mset_map)
  then have ds: "distinct (map fst ?sh)" using d mset_eq_imp_distinct_iff by blast
  have "sum_list (map snd ?sh) = sum_list (map snd (active @ standby))" by (metis m mset_map sum_mset_sum_list)
  moreover have "\<forall>v \<in> set xs. snd v = 0 \<Longrightarrow> sum_list (map snd xs) = 0" for xs :: "validatorWeight list" by (induction xs) auto
  then have "sum_list (map snd standby) = 0" using st2 by simp
  ultimately have W: "sum_list (map snd ?sh) = weightsOf active" by (simp add: weightsOf_def)
  have "?P t" if t: "nextSet t = Some nv" "nvPrecommitThreshold nv = 2 * weightsOf active div 3 + 1" "nvCertificateThreshold nv = 2 * weightsOf active div 3 + 1"
      "map (\<lambda>v. (vAddress v, vBftWeight v)) (nvValidators nv) = ?sh" for t nv
  proof -
    have "map vAddress (nvValidators nv) = map fst ?sh" using arg_cong[OF t(4), of "map fst"] by (simp add: o_def)
    moreover have "mset (map (\<lambda>v. (vAddress v, vBftWeight v)) (nvValidators nv)) = mset (active @ standby)" unfolding t(4) by (rule m)
    ultimately have "validatorsFrom snapshot active standby nv" unfolding validatorsFrom_def using t(2,3) ds st2 by simp
    then show ?thesis using t(1) a by blast
  qed
  then show ?thesis unfolding Let_def W wp_if wp_ret using a by (auto intro!: ok_mono[OF setParams_pairs])
qed

text \<open>
  C11: the validators of the next round. When \<open>_updateValidators\<close> succeeds, and the snapshot of the next round and the
  initial validators have no address twice, then either there are no validators and nothing changes, or the validators
  that are set are a permutation of the active ones of the round, with their weights, and of standby validators, which
  come from the snapshot, are not active and have weight zero; no address occurs twice; and both thresholds are the
  least integers above two thirds of the total weight.
\<close>

theorem next_validators_set:
  assumes "updateValidators cfg height s = (Inr (), s')" "genesisAt cfg s = Some g" "snapshotAt cfg s (nextRoundOf cfg g height) = Some snapshot"
    "distinct (map fst snapshot)" "distinct (gdInitValidators g)"
  shows "\<exists>active standby. activeValidators cfg g snapshot (nextRoundOf cfg g height) = Inr active \<and>
    (active @ standby = [] \<and> s' = s \<or> (\<exists>nv. nextSet s' = Some nv \<and> validatorsFrom snapshot active standby nv))"
    (is "?P s'")
proof -
  let ?round = "nextRoundOf cfg g height"
  obtain key bs where k: "uint32BE ?round = Inr key" "kvget (snapshotStore s) key = Some bs" "dec (snapshotSchema (pcLib cfg)) bs = Inr snapshot"
    using assms(3) by (auto simp: snapshotAt_def split: sum.splits option.splits)
  have "ok (updateValidators cfg height) (\<lambda>_. ?P) s"
    unfolding updateValidators_def getRoundNumberFromHeight_def getActiveValidators_def wp_bind
  proof (rule ok_genesisGet, goal_cases)
    case (1 g1)
    then have g: "g1 = g" using assms(2) by simp
    show ?case
      unfolding wp_ret g nextRoundOf_def[symmetric] Let_def[of ?round] wp_bind wp_liftE k sum.case wp_storeGet option.case
    proof (rule ok_genesisGet, rule ok_genesisGet, goal_cases)
      case (1 g2 g3)
      then have e: "g2 = g" "g3 = g" using assms(2) by simp_all
      show ?case
      proof (cases "activeValidators cfg g snapshot ?round")
        case (Inr active)
        show ?thesis unfolding e Inr sum.case by (rule ok_random, rule ok_standby, rule set_outcome[OF Inr _ assms(4,5), unfolded Inr])
      qed (simp add: e)
    qed
  qed
  from wp_success[OF this assms(1)] show ?thesis .
qed

section \<open>Instances\<close>

definition exPos :: posConfig where
  "exPos = \<lparr>pcToken = \<lparr>jslib = asciiLib, ownChainID = replicate 4 0, userAccountInitializationFee = 0, escrowAccountInitializationFee = 0\<rparr>,
     pcValidators = \<lparr>vaLib = asciiLib, popVerify = (\<lambda>_ _. True), vaBlockTime = 10\<rparr>,
     pcRandom = \<lparr>raLib = asciiLib, raHash = (\<lambda>b. replicate 32 (hd b)), maxLengthReveals = 206\<rparr>,
     pcChainID = replicate 4 0, pcHash = rev, pcVerifySignature = (\<lambda>_ _ _ _ _. True), posTokenID = replicate 8 0,
     factorSelfStakes = 10, maxLengthName = 20, maxNumberSentStakes = 10, maxNumberPendingUnlocks = 20, failSafeMissedBlocks = 50,
     failSafeInactiveWindow = 120960, punishmentWindowStaking = 241920, punishmentWindowSelfStaking = 725760, roundLength = 3,
     minWeightStandby = 1, numberActiveValidators = 2, numberStandbyValidators = 1, validatorRegistrationFee = 10,
     maxBFTWeightCap = 10000, commissionIncreasePeriod = 241920, maxCommissionIncreaseRate = 500, useInvalidBLSKey = False,
     baseStakeAmount = 10, lockingPeriodStaking = 25920, lockingPeriodSelfStaking = 241920, reportMisbehaviorReward = 5,
     reportMisbehaviorLimitBanned = 5, weightScaleFactor = 1\<rparr>"

theorem bft_weights_capped_witness:
  "\<exists>r. capWeightIfNeeded (exPos\<lparr>maxBFTWeightCap := 100 * 50\<rparr>) [([], 90), ([0], 10)] = r \<and> list_all (\<lambda>v. snd v * MAX_CAP \<le> 5000 * weightsOf r) r"
proof -
  have d: "descending [([], 90), ([0], 10)]" "list_all (\<lambda>v. 0 \<le> snd v) [([] :: bytes, 90 :: int), ([0], 10)]" by (simp_all add: descending_def)
  have l: "ceilDiv MAX_CAP (maxBFTWeightCap (exPos\<lparr>maxBFTWeightCap := 100 * 50\<rparr>)) \<le> int (length [([] :: bytes, 90 :: int), ([0], 10)])"
    by (simp add: ceilDiv_def MAX_CAP_def)
  show ?thesis using bft_weights_capped[OF d _ _ _ l, of 50] by (simp add: list_all_iff)
qed


definition stored :: "err + bytes \<Rightarrow> bytes" where "stored r = (case r of Inl _ \<Rightarrow> [] | Inr b \<Rightarrow> b)"

definition exKeys :: "byte \<Rightarrow> bytes \<times> bytes" where
  "exKeys b = (replicate 20 b, stored (enc (keysSchema asciiLib) \<lparr>vkGeneratorKey = replicate 32 b, vkBlsKey = replicate 48 b\<rparr>))"

definition exSnapshot :: "validatorWeight list" where
  "exSnapshot = [(replicate 20 1, 30), (replicate 20 2, 20), (replicate 20 3, 10)]"

definition exGenesisData :: genesisData where
  "exGenesisData = \<lparr>gdHeight = 0, gdInitRounds = 1, gdInitValidators = [replicate 20 1, replicate 20 2]\<rparr>"

definition exPosCtx :: posCtx where
  "exPosCtx = \<lparr>cHeight = 6, cTopics = [], cEvents = [], cStore = (\<lambda>_. None), userStore = [], escrowStore = [], supplyStore = [], supportedStore = [],
     stakerStore = [], validatorStore = [], nameStore = [],
     snapshotStore = [([0, 0, 0, 3], stored (enc (snapshotSchema asciiLib) exSnapshot))],
     genesisStore = [([], stored (enc (genesisSchema asciiLib) exGenesisData))],
     timestampStore = [], eligibleStore = [],
     validatorsState = \<lparr>vsKeys = [exKeys 1, exKeys 2, exKeys 3], vsBls = [], vsParams = []\<rparr>,
     randomState = [([], stored (enc (revealsSchema asciiLib) [\<lparr>srGenerator = replicate 20 1, srSeed = replicate 16 5, srHeight = 4, srValid = True\<rparr>]))],
     nextSet = None\<rparr>"

lemma ex_round:
  "genesisAt exPos exPosCtx = Some exGenesisData"
  "snapshotAt exPos exPosCtx (nextRoundOf exPos exGenesisData 6) = Some exSnapshot"
  "fst (updateValidators exPos 6 exPosCtx) = Inr ()"
  "activeValidators exPos exGenesisData exSnapshot (nextRoundOf exPos exGenesisData 6) = Inr [(replicate 20 1, 30), (replicate 20 2, 20)]"
  by code_simp+

theorem next_validators_set_witness:
  "\<exists>s' nv. updateValidators exPos 6 exPosCtx = (Inr (), s') \<and> nextSet s' = Some nv \<and> nvPrecommitThreshold nv = 34 \<and>
     distinct (map vAddress (nvValidators nv))"
proof -
  obtain s' where s: "updateValidators exPos 6 exPosCtx = (Inr (), s')" using ex_round(3) by (metis prod.collapse)
  have d: "distinct (map fst exSnapshot)" "distinct (gdInitValidators exGenesisData)" by code_simp+
  have "2 * weightsOf [(replicate 20 1, 30), (replicate 20 2, 20)] div 3 + 1 = 34" by (simp add: weightsOf_def)
  with next_validators_set[OF s ex_round(1,2) d] show ?thesis unfolding ex_round(4) using s by (auto simp: validatorsFrom_def)
qed

end
