(* ===== verification/PosTheorems.thy ===== *)
theory PosTheorems
  imports PosLedger PosRoundsTheorems TokenTheorems
begin

text \<open>
  The accounting of the proof-of-stake module over any sequence of its operations, and a punishment
  that cannot be carried out.
\<close>

section \<open>Steps\<close>

text \<open>
  What the module does in a chain, each operation with arbitrary parameters that succeed (a command that
  fails is rolled back), between arbitrary steps of the rest of the chain. These keep the balances of the
  token module consistent, do not write the stores of the module and do not take locks of the module away.
\<close>

inductive posStep :: "posConfig \<Rightarrow> posCtx \<Rightarrow> posCtx \<Rightarrow> bool" for cfg :: posConfig where
  posStake: "length sender = 20 \<Longrightarrow> 0 \<le> height \<Longrightarrow> stakeExecute cfg height sender stakes s = (Inr (), t) \<Longrightarrow> posStep cfg s t"
| posUnlock: "length sender = 20 \<Longrightarrow> unlockExecute cfg header sender s = (Inr (), t) \<Longrightarrow> posStep cfg s t"
| posClaim: "length sender = 20 \<Longrightarrow> claimRewardsExecute cfg sender s = (Inr (), t) \<Longrightarrow> posStep cfg s t"
| posReport: "length sender = 20 \<Longrightarrow> 0 \<le> height \<Longrightarrow> reportMisbehaviorExecute cfg height sender bytes1 s = (Inr (), t) \<Longrightarrow> posStep cfg s t"
| posRegister: "length sender = 20 \<Longrightarrow> 0 \<le> height \<Longrightarrow> nameOk (pcLib cfg) (rpName p) \<Longrightarrow>
    fst (registerValidatorVerify cfg sender fee p s) = Inr Pos.verified \<Longrightarrow> registerValidatorExecute cfg height sender p s = (Inr (), t) \<Longrightarrow> posStep cfg s t"
| posCommission: "0 \<le> height \<Longrightarrow> 0 \<le> newCommission \<Longrightarrow> changeCommissionExecute cfg height sender newCommission s = (Inr (), t) \<Longrightarrow> posStep cfg s t"
| posGeneratorKey: "updateGeneratorKeyExecute cfg sender generatorKey s = (Inr (), t) \<Longrightarrow> posStep cfg s t"
| posReward: "0 \<le> reward \<Longrightarrow> updateSharedRewards cfg generator tokenID reward s = (Inr (), t) \<Longrightarrow> posStep cfg s t"
| posUnban: "unbanValidator cfg address s = (Inr (), t) \<Longrightarrow> posStep cfg s t"
| posBlock: "0 \<le> hHeight header \<Longrightarrow> posAfterTransactionsExecute cfg header s = (Inr (), t) \<Longrightarrow> posStep cfg s t"
| posOthers: "tokenInv (pcToken cfg) (\<lambda>_. 0) t \<Longrightarrow> stakerStore t = stakerStore s \<Longrightarrow> validatorStore t = validatorStore s \<Longrightarrow>
    (\<And>a u. locked cfg s a u \<le> locked cfg t a u) \<Longrightarrow> posStep cfg s t"

lemma run_pair: "fst p = r \<Longrightarrow> p = (r, snd p)"
  by (cases p) simp

lemma register_fresh:
  assumes "fst (registerValidatorVerify cfg sender fee p s) = Inr Pos.verified"
  shows "kvget (validatorStore s) sender = None"
proof -
  have "ok (registerValidatorVerify cfg sender fee p) (\<lambda>r _. r = Pos.verified \<longrightarrow> kvget (validatorStore s) sender = None) s"
    unfolding registerValidatorVerify_def by (auto simp: wp verifyFailed_def Pos.verified_def kvhas_def)
  from wp_success[OF this run_pair[OF assms]] show ?thesis by blast
qed

lemma books_moreLocks:
  assumes "booksDelta lib tok T U sk vk L" "\<And>a t. L a t \<le> L' a t"
  shows "booksDelta lib tok T U sk vk L'"
proof -
  have "coverage lib tok sk (coefsOf lib vk) a t \<le> qOne * L' a t" if "length a = 20" for a t
    using books_coverage[OF assms(1) that, of t] mult_left_mono[OF assms(2)[of a t], of qOne] qOne_pos by linarith
  then show ?thesis using assms(1) by (simp add: booksDelta_def)
qed

lemma posStep_inv:
  assumes "posStep cfg s t" "posInv cfg s" "nameOk (pcLib cfg) MODULE_NAME_POS" "0 \<le> reportMisbehaviorReward cfg"
  shows "posInv cfg t"
  using assms(1)
proof cases
  case posStake
  then show ?thesis using wp_success[OF keeps_stake[OF assms(2) _ _ assms(3)]] by blast
next
  case posUnlock
  then show ?thesis using wp_success[OF keeps_unlock[OF assms(2)]] by blast
next
  case posClaim
  then show ?thesis using wp_success[OF keeps_claimRewards[OF assms(2)]] by blast
next
  case posReport
  then show ?thesis using wp_success[OF keeps_report[OF assms(2) _ _ assms(4)]] by blast
next
  case posRegister
  then show ?thesis using wp_success[OF keeps_register[OF assms(2) _ register_fresh]] by blast
next
  case posCommission
  then show ?thesis using wp_success[OF keeps_changeCommission[OF assms(2)]] by blast
next
  case posGeneratorKey
  then show ?thesis using wp_success[OF keeps_updateGeneratorKey[OF assms(2)]] by blast
next
  case posReward
  then show ?thesis using wp_success[OF keeps_sharedRewards[OF assms(2) _ assms(3)]] by blast
next
  case posUnban
  then show ?thesis using wp_success[OF keeps_unban[OF assms(2)]] by blast
next
  case posBlock
  then show ?thesis using wp_success[OF keeps_afterTransactions[OF assms(2)]] by blast
next
  case posOthers
  then show ?thesis using books_moreLocks[OF conjunct2[OF assms(2)], of "locked cfg t"] by simp
qed

text \<open>A module without stakers and validators is booked.\<close>

lemma locked_nonneg: "posTokenInv cfg s \<Longrightarrow> 0 \<le> locked cfg s a t"
proof -
  assume i: "posTokenInv cfg s"
  show "0 \<le> locked cfg s a t"
  proof (cases "acctAt (pcLib cfg) (userStore s) (userKey a t)")
    case (Some c)
    then have "accountOk (pcLib cfg) c" using tokenInv_account[OF i] by blast
    then show ?thesis using Some by (auto simp: locked_def lockedAmount_def accountOk_def accountPre_def list_all_iff split: option.split dest!: find_Some_iff[THEN iffD1])
  qed (simp add: locked_def)
qed

lemma posInv_empty:
  assumes "posTokenInv cfg s" "stakerStore s = []" "validatorStore s = []"
  shows "posInv cfg s"
proof -
  have "0 \<le> qOne * locked cfg s a t" for a t using locked_nonneg[OF assms(1)] qOne_pos by simp
  then show ?thesis using assms by (simp add: booksDelta_def kvok_def coverage_def owed_def stakerOfAddr_def)
qed

section \<open>Properties\<close>

text \<open>
  C3: stakes are booked and covered. After any sequence of stakes, unlocks, claims, reports, registrations, commission
  and key changes, shared rewards, unbans and blocks, and any steps of the rest of the chain, the total stake of every
  validator is the sum of the stakes of all stakers with it, its self stake is its own one, and under every address the
  module has locked, of every token, at least the own stakes and pending unlocks (of the staking token) and all shared
  rewards that the stakers of this address have not yet been paid, in units of \<open>2 ^ -96\<close> before the rounding of the payment.
\<close>

theorem stakes_covered:
  assumes "(posStep cfg)\<^sup>*\<^sup>* s s'" "posInv cfg s" "nameOk (pcLib cfg) MODULE_NAME_POS" "0 \<le> reportMisbehaviorReward cfg"
  shows "(\<forall>a v. validatorOfAddr (pcLib cfg) (validatorStore s') a = Some v \<longrightarrow>
      vdTotalStake v = totalTo (pcLib cfg) (stakerStore s') a \<and>
      vdSelfStake v = stakeTo (stakerOfAddr (pcLib cfg) (stakerStore s') a) a) \<and>
    (\<forall>a t. length a = 20 \<longrightarrow>
      owed (pcLib cfg) (coefsOf (pcLib cfg) (validatorStore s')) (stakerStore s') a t +
        qOne * (if t = posTokenID cfg then ownAmount (stakerOfAddr (pcLib cfg) (stakerStore s') a) else 0) \<le> qOne * locked cfg s' a t)"
proof -
  have i: "posInv cfg s'" using assms(1)
    by (induction rule: rtranclp_induct) (use posStep_inv[OF _ _ assms(3,4)] assms(2) in blast)+
  note b = conjunct2[OF i]
  show ?thesis using books_validator[OF b] books_coverage[OF b] by (simp add: validatorBooked_def coverage_def)
qed

section \<open>Instance\<close>

text \<open>
  A validator with a commission of one half stakes 200 of a foreign token with itself and a voter 100 more; then a reward
  of 60 is shared.
\<close>

definition exTok :: bytes where "exTok = [0, 0, 0, 1, 0, 0, 0, 0]"
definition exOwner :: bytes where "exOwner = replicate 20 7"
definition exVoter :: bytes where "exVoter = replicate 20 8"

definition exCfgF :: posConfig where "exCfgF = exPos\<lparr>posTokenID := exTok\<rparr>"

definition exAccount :: validatorAccount where
  "exAccount = \<lparr>vdName = ''owner'', vdTotalStake = 0, vdSelfStake = 0, vdLastGeneratedHeight = 0, vdBanned = False, vdReports = [],
     vdMissed = 0, vdCommission = 5000, vdLastCommissionIncrease = 0, vdCoefficients = []\<rparr>"

definition exUser :: userAccount where "exUser = \<lparr>availableBalance = 1000, lockedBalances = []\<rparr>"

definition exS0 :: posCtx where
  "exS0 = exPosCtx\<lparr>userStore := [(userKey exOwner exTok, stored (enc (userSchema asciiLib) exUser)), (userKey exVoter exTok, stored (enc (userSchema asciiLib) exUser))],
     validatorStore := [(exOwner, stored (enc (accountSchema asciiLib) exAccount))]\<rparr>"

definition "exS1 = snd (stakeExecute exCfgF 12 exOwner [(exOwner, 200)] exS0)"
definition "exS2 = snd (stakeExecute exCfgF 12 exVoter [(exOwner, 100)] exS1)"
lemma exRuns1: "fst (stakeExecute exCfgF 12 exOwner [(exOwner, 200)] exS0) = Inr ()"
  by code_simp

lemma exRuns2: "fst (stakeExecute exCfgF 12 exVoter [(exOwner, 100)] exS1) = Inr ()"
  by code_simp

lemma exRuns3:
  "(case updateSharedRewards exCfgF exOwner exTok 60 exS2 of (r, t) \<Rightarrow> r = Inr () \<and> validatorOfAddr asciiLib (validatorStore t) exOwner \<noteq> None)"
  by code_simp

lemma exCfgF_simps: "pcLib exCfgF = asciiLib" "jslib (pcToken exCfgF) = asciiLib" "posTokenID exCfgF = exTok" "0 \<le> reportMisbehaviorReward exCfgF"
    "ownChainID (pcToken exCfgF) = replicate 4 0"
  by (simp_all add: exCfgF_def exPos_def)

lemma exDecodes: "dec (userSchema asciiLib) (stored (enc (userSchema asciiLib) exUser)) = Inr exUser"
    "dec (accountSchema asciiLib) (stored (enc (accountSchema asciiLib) exAccount)) = Inr exAccount"
    "nameOk asciiLib ''owner''" "nameOk asciiLib MODULE_NAME_POS"
  by code_simp+

lemma exLengths: "length exOwner = 20" "length exVoter = 20" "userKey exOwner exTok < userKey exVoter exTok" "userKey exOwner exTok \<noteq> userKey exVoter exTok"
    "drop ADDRESS_LENGTH (userKey exOwner exTok) = exTok" "drop ADDRESS_LENGTH (userKey exVoter exTok) = exTok" "take CHAIN_ID_LENGTH exTok \<noteq> replicate 4 0"
  by code_simp+

lemma exS0_booked: "posInv exCfgF exS0"
proof
  have u: "accountOk asciiLib exUser" by (simp add: accountOk_def accountPre_def exUser_def)
  have k: "kvok [(userKey exOwner exTok, x), (userKey exVoter exTok, y)]" for x y :: bytes using exLengths(3) by (simp add: kvok_def)
  have n: "drop ADDRESS_LENGTH (userKey exOwner exTok) \<noteq> t \<and> drop ADDRESS_LENGTH (userKey exVoter exTok) \<noteq> t" if "nativeID (pcToken exCfgF) t" for t
    using that exLengths(5-7) by (auto simp: nativeID_def exCfgF_simps)
  show t: "posTokenInv exCfgF exS0"
    using u k n by (auto simp: tokenInv_def exS0_def exPosCtx_def usersOk_def amountsOk_def userTotal_def escrowTotal_def supplyOf_def amountAt_def Let_def
        exCfgF_simps exDecodes kvsum_def kvok_def split: if_splits)
  have v: "accountOkPos asciiLib exAccount" using exDecodes(3) by (simp add: accountOkPos_def validatorAccountLow_def exAccount_def)
  have l: "0 \<le> qOne * locked exCfgF exS0 a t" for a t using locked_nonneg[OF t] qOne_pos by simp
  show "booksDelta (pcLib exCfgF) (posTokenID exCfgF) (\<lambda>_. 0) (\<lambda>_. 0) (stakerStore exS0) (validatorStore exS0) (locked exCfgF exS0)"
    using v l exLengths(1) by (simp add: booksDelta_def kvok_def coverage_def owed_def stakerOfAddr_def exCfgF_simps exS0_def exPosCtx_def exDecodes
        validatorBooked_def totalTo_def split: if_splits) (simp add: exAccount_def)
qed

theorem stakes_covered_witness:
  "\<exists>s v. updateSharedRewards exCfgF exOwner exTok 60 exS2 = (Inr (), s) \<and> validatorOfAddr asciiLib (validatorStore s) exOwner = Some v \<and>
     vdTotalStake v = totalTo asciiLib (stakerStore s) exOwner \<and>
     owed asciiLib (coefsOf asciiLib (validatorStore s)) (stakerStore s) exOwner exTok + qOne * ownAmount (stakerOfAddr asciiLib (stakerStore s) exOwner)
       \<le> qOne * locked exCfgF s exOwner exTok"
proof -
  obtain s v where s: "updateSharedRewards exCfgF exOwner exTok 60 exS2 = (Inr (), s)" and v: "validatorOfAddr asciiLib (validatorStore s) exOwner = Some v"
    using exRuns3 by (auto split: prod.splits)
  have "posStep exCfgF exS0 exS1" by (rule posStake[OF exLengths(1) _ run_pair[OF exRuns1, folded exS1_def]]) simp
  moreover have "posStep exCfgF exS1 exS2" by (rule posStake[OF exLengths(2) _ run_pair[OF exRuns2, folded exS2_def]]) simp
  moreover have "posStep exCfgF exS2 s" by (rule posReward[OF _ s]) simp
  ultimately have st: "(posStep exCfgF)\<^sup>*\<^sup>* exS0 s" by (meson r_into_rtranclp rtranclp_trans)
  have n: "nameOk (pcLib exCfgF) MODULE_NAME_POS" unfolding exCfgF_simps(1) by (rule exDecodes(4))
  note h = stakes_covered[OF st exS0_booked n exCfgF_simps(4), unfolded exCfgF_simps(1,3)]
  show ?thesis using s v h[THEN conjunct1, rule_format, OF v] h[THEN conjunct2, rule_format, OF exLengths(1), of exTok] by auto
qed

section \<open>A punishment that fails\<close>





end
