(* ===== verification/Spec2Isabelle.thy ===== *)
theory Spec2Isabelle
  imports TokenTheorems StateStore MerkleTree BFTTheorems CodecTyping AbiTheorems TxPoolTheorems AuthTheorems ValidatorsTheorems RandomTheorems PosTheorems
begin

text \<open>
  Verification of the core of the Klayr SDK (\<open>src/\<close>), a framework for proof-of-stake side
  chains in TypeScript.

  \<^bold>\<open>The program.\<close> A node consists of an \<^emph>\<open>engine\<close> (\<open>framework/src/engine\<close>: block processing,
  fork choice, BFT vote counting, generator, network) and an \<^emph>\<open>application\<close> (the state
  machine with its modules, \<open>framework/src/state_machine\<close>, \<open>framework/src/modules\<close>), which the
  engine calls through the ABI (\<open>framework/src/abi\<close>, \<open>framework/src/abi_handler\<close>). Both rest on the
  packages under \<open>elements\<close>: the codec, the chain data structures and the state store, the Merkle
  tree, the transaction pool. A block arrives from the network or the generator
  (\<open>consensus.ts\<close>); the fork choice decides what to do with it; it is verified against the BFT
  state; the application executes its transactions through the modules, which read and write
  typed substores of the state and add events; then the block is saved with a diff that can undo it.

  \<^bold>\<open>Conventions.\<close> Buffers are byte lists, TypeScript numbers and bigints are \<open>int\<close> (or \<open>nat\<close>
  for lengths and indices) with the range checks of the code, and 32-bit shifts and masks are words.
  Code that mutates a state and may throw is a function from the state to \<open>err + 'a\<close> and the state it
  leaves behind; a \<open>throw\<close> does not undo the writes before it. Code that waits (\<open>await\<close>) is cut at the
  await where something else can run in between. What is not under \<open>src/\<close> or is native code is a
  parameter: the hash function, signature schemes, the database, Unicode operations of strings
  (\<open>jsLib\<close>), the clock, the verification function of the pool. What the theorems need of a
  parameter is a named hypothesis, and each witness gives an instance of it.

  \<^bold>\<open>Theories\<close>, from the bottom up:

  \<^item> \<open>Prelude\<close>: bytes, the outcome monad with its weakest preconditions (\<open>wp\<close>, a collection of
    rules that carries the proofs of the modules), key/value lists in key order.

  \<^item> \<open>Varint\<close>, \<open>Codec\<close>, \<open>CodecRoundtrip\<close>, \<open>CodecTyping\<close>: \<open>elements/codec/src\<close>. The readers and writers of
    scalars and of whole objects over a compiled schema. What is written for a conforming message
    is read back; what is read from any input is well typed; the readers always end: the fuel of
    \<open>readObject\<close>, one more than the length of the input, is enough because every round of the
    loops consumes a byte.

  \<^item> \<open>StateStore\<close>: \<open>elements/chain/src/state_store\<close>. The cache over the database refines a map;
    finalization writes exactly the changes and its diff undoes them; snapshots and iteration.

  \<^item> \<open>Context\<close>, \<open>BaseStore\<close>, \<open>SchemaLaws\<close>: the event queue (\<open>state_machine/event_queue.ts\<close>, \<open>chain/src/event.ts\<close>),
    the context store, the typed substores (\<open>modules/base_store.ts\<close>) and their contract, the locale
    \<open>store_schema\<close>, interpreted on the schemas of the modules.

  \<^item> \<open>Token\<close>, \<open>TokenMethod\<close>, \<open>TokenProps\<close>, \<open>TokenTheorems\<close>: \<open>modules/token\<close> and \<open>modules/fee/method.ts\<close>. Every
    operation keeps the supply of native tokens equal to what accounts and escrows hold; what
    transfers and locks do to balances.

  \<^item> \<open>HookLaws\<close>: the laws of the module hooks. A module keeps the substores of the others; what every hook of
    every module keeps is kept by the sequence of hooks that the state machine runs.
  \<^item> \<open>Auth\<close>, \<open>AuthProps\<close>, \<open>AuthTheorems\<close>: \<open>modules/auth\<close>. The signatures of one key and of a group, the nonce
    that every transaction increases, the genesis accounts; the nonces of a sender are consecutive over a block.
  \<^item> \<open>Validators\<close>, \<open>ValidatorsTheorems\<close>: \<open>modules/validators\<close>. The keys of validators, of which no two have a BLS
    key in common, the generator list, and the parameters that are handed to the consensus engine.
  \<^item> \<open>FixedPoint\<close>: the numbers with 96 fractional bits of \<open>elements/utils/src/math/q.ts\<close>, with their rounding.
  \<^item> \<open>RandomModule\<close>, \<open>RandomTheorems\<close>: \<open>modules/random\<close> and the hash onions of the cryptography package. The seeds
    that a node reveals from its onion are accepted, one layer after the other.
  \<^item> \<open>Pos\<close>, \<open>PosRounds\<close>, \<open>PosRoundsTheorems\<close>: \<open>modules/pos\<close>. The first theory holds the stores, the commands and
    the methods, on a context that extends the one of the token module; the second what happens after the transactions of
    a block: productivity, the snapshots of weights, the active and standby validators and the capped weights.
  \<^item> \<open>PosProps\<close>, \<open>PosLocks\<close>, \<open>PosClaims\<close>, \<open>PosSteps\<close>, \<open>PosStake\<close>, \<open>PosCommands\<close>, \<open>PosReports\<close>, \<open>PosShared\<close>,
    \<open>PosLedger\<close>, \<open>PosTheorems\<close>: the books of \<open>modules/pos\<close>. \<open>booksDelta\<close> says that the totals of the validators are
    the sums of the stakes and that the locks of the module in the token module cover own stakes, pending unlocks and the
    shared rewards not yet paid; every command and method of the module keeps it, and \<open>posStep\<close> composes them.
  \<^item> \<open>StateMachine\<close>, \<open>AbiHandler\<close>, \<open>AbiTheorems\<close>: \<open>state_machine/state_machine.ts\<close> and \<open>abi_handler/abi_handler.ts\<close>.
    A failing command leaves the state as the hooks before it left it; the discipline of the
    execution context between engine and application.

  \<^item> \<open>MerkleTree\<close>: \<open>elements/tree/src/merkle_tree\<close>. The tree that is built bottom up, the root updated by
    an append path, and the root computed from a right witness all equal the recursive root.

  \<^item> \<open>Block\<close>: \<open>elements/chain/src\<close>, blocks, headers, transactions and assets: encoding round trip, the
    cached identifier, what validation guarantees.

  \<^item> \<open>BFT\<close>, \<open>BFTProps\<close>, \<open>BFTSafety\<close>, \<open>BFTSteps\<close>, \<open>BFTTheorems\<close>: \<open>engine/bft\<close>. The weights that are counted for
    a block are those of a set of distinct validators of the parameters at its height, the
    finality heights only grow, and the cache of parameters is transparent. The invariant \<open>bftInv\<close> is
    kept by every step of the relation \<open>bftStep\<close>.

  \<^item> \<open>ForkChoice\<close>, \<open>Consensus\<close>, \<open>ConsensusProps\<close>, \<open>ConsensusTheorems\<close>: \<open>engine/consensus\<close>. A finalized block
    is never removed or replaced, the chain is linked, a block is applied completely or not at
    all, and deleting the last block undoes its execution.

  \<^item> \<open>MinHeap\<close>, \<open>TxList\<close>, \<open>TxPool\<close>, \<open>TxPoolRun\<close>, \<open>TxPoolTheorems\<close>: \<open>elements/utils\<close> (heaps, buffer maps) and
    \<open>elements/transaction-pool/src\<close>. The heaps implement priority queues (the locale
    \<open>priority_queue\<close>); the pool stays consistent under every interleaving of its operations; a
    reorganization makes the consecutive transactions of an account processable; it ends
    because it visits each list once and each of its transactions once.

  \<^bold>\<open>Deviations of the code\<close> that the models show are theorems whose text says so: the tie break
  of the fork choice that cannot be reached, the execution context that stays open after a wrong event
  root, the account of the pool that a lower nonce blocks, and others.

  \<^bold>\<open>Not modelled.\<close> Network and RPC (\<open>elements/p2p\<close>, controller, plugins, commander, clients) are I/O
  around the core; cryptography and the sparse Merkle tree are native code; the JSON schema validation
  and the JSON form of the codec belong to Ajv and to the endpoints; the endpoints of the modules
  read the stores that are modelled and format them. The synchronization mechanisms and the commit pool are parameters of block processing.
The interoperability, NFT and PoA modules and the generator are not modelled.
\<close>

end
